(* ===== verification/Prelude.thy ===== *)
theory Prelude
  imports "HOL-Library.Word" "HOL-Library.Monad_Syntax"
begin

text \<open>
  Shared vocabulary of the development.

  \<^item> Machine integers: \<open>uint8_t\<close> \dots \<open>uint64_t\<close> are words of their width.
  \<^item> Objects in memory: a byte array is a list of bytes and a pointer into it an offset (or,
    for a callee that only sees the pointer, the suffix of the list that starts there).
    An access outside the object is undefined behaviour in C; it is the value \<open>None\<close> here,
    and so is a call that ends in \<open>BUG()\<close>, \<open>BUG_ON()\<close> or \<open>FATAL()\<close>, which
    stop the process. A theorem whose conclusion is \<open>f x = Some y\<close> therefore also says
    that \<open>f\<close> stays inside its buffers and does not abort.
  \<^item> The reference encodings of numbers as little-endian and big-endian byte lists, with
    the lemmas that relate them to shifts and ors on words.
\<close>

unbundle bit_operations_syntax

section \<open>Types and lemma collections\<close>

type_synonym u8 = "8 word"
type_synonym u16 = "16 word"
type_synonym u32 = "32 word"
type_synonym u64 = "64 word"

named_theorems mem_simps \<open>evaluation of loads, stores and pointer offsets inside an object\<close>
named_theorems codec_simps \<open>bytes written and values read by the endian codecs\<close>

section \<open>Memory objects\<close>

text \<open>\<open>p[i]\<close> and \<open>p[i] = v\<close> on an object of \<open>length p\<close> bytes.\<close>

definition load :: "'a list \<Rightarrow> nat \<Rightarrow> 'a option" where
  "load m i = (if i < length m then Some (m ! i) else None)"

definition store :: "'a list \<Rightarrow> nat \<Rightarrow> 'a \<Rightarrow> 'a list option" where
  "store m i v = (if i < length m then Some (m[i := v]) else None)"

text \<open>\<open>memcpy\<close> of \<open>n\<close> bytes out of, and of a byte list into, an object at an offset.\<close>

definition load_n :: "'a list \<Rightarrow> nat \<Rightarrow> nat \<Rightarrow> 'a list option" where
  "load_n m off n = (if off + n \<le> length m then Some (take n (drop off m)) else None)"

definition store_n :: "'a list \<Rightarrow> nat \<Rightarrow> 'a list \<Rightarrow> 'a list option" where
  "store_n m off bs =
     (if off + length bs \<le> length m
      then Some (take off m @ bs @ drop (off + length bs) m) else None)"

text \<open>
  Passing the pointer \<open>m + off\<close> to a function that writes through it: the callee works on
  the suffix of the object, the caller sees the prefix unchanged.
\<close>

definition with_ptr :: "'a list \<Rightarrow> nat \<Rightarrow> ('a list \<Rightarrow> 'a list option) \<Rightarrow> 'a list option" where
  "with_ptr m off f =
     (if off \<le> length m then map_option (\<lambda>p. take off m @ p) (f (drop off m)) else None)"

text \<open>\<open>memzcmp\<close> of \<open>string_extra.h\<close>, as a truth value: whether one of the first \<open>n\<close> bytes is not zero.\<close>

definition memzcmp :: "u8 list \<Rightarrow> nat \<Rightarrow> bool option" where
  "memzcmp src n =
     (if n = 0 then Some False
      else do { b0 \<leftarrow> load src 0;
                if b0 \<noteq> 0 then Some True
                else do { x \<leftarrow> load_n src 0 (n - 1);
                          y \<leftarrow> load_n src 1 (n - 1);
                          Some (x \<noteq> y) } })"

lemma load_in [mem_simps]: "i < length m \<Longrightarrow> load m i = Some (m ! i)"
  by (simp add: load_def)

lemma store_in [mem_simps]: "i < length m \<Longrightarrow> store m i v = Some (m[i := v])"
  by (simp add: store_def)

lemma load_n_in [mem_simps]:
  "off + n \<le> length m \<Longrightarrow> load_n m off n = Some (take n (drop off m))"
  by (simp add: load_n_def)

lemma store_n_in [mem_simps]:
  "off + length bs \<le> length m \<Longrightarrow>
     store_n m off bs = Some (take off m @ bs @ drop (off + length bs) m)"
  by (simp add: store_n_def)

lemma store_n_SomeE:
  assumes "store_n m off bs = Some m'"
  obtains "off + length bs \<le> length m" "m' = take off m @ bs @ drop (off + length bs) m"
  using assms by (auto simp: store_n_def split: if_splits)

lemma take_store_n:
  "off \<le> length m \<Longrightarrow>
     take (off + length bs) (take off m @ bs @ r) = take off m @ bs"
  by simp

lemma length_store_n: "store_n m off bs = Some m' \<Longrightarrow> length m' = length m"
  by (auto simp: store_n_def split: if_splits)

section \<open>Reference encodings of numbers\<close>

fun le_bytes :: "nat \<Rightarrow> nat \<Rightarrow> u8 list" where
  "le_bytes 0 x = []"
| "le_bytes (Suc n) x = word_of_nat x # le_bytes n (x div 256)"

definition be_bytes :: "nat \<Rightarrow> nat \<Rightarrow> u8 list" where
  "be_bytes n x = rev (le_bytes n x)"

fun le_val :: "u8 list \<Rightarrow> nat" where
  "le_val [] = 0"
| "le_val (b # bs) = unat b + 256 * le_val bs"

definition be_val :: "u8 list \<Rightarrow> nat" where
  "be_val bs = le_val (rev bs)"

lemma unat_u8_lt: "unat (b :: u8) < 256"
  using unsigned_less [of b] by simp

lemma unat_u16_lt: "unat (v :: u16) < 65536"
  using unsigned_less [of v] by simp

lemma unat_u32_lt: "unat (v :: u32) < 4294967296"
  using unsigned_less [of v] by simp

lemma unat_u64_lt: "unat (v :: u64) < 18446744073709551616"
  using unsigned_less [of v] by simp

lemma le_bytes_numeral:
  "le_bytes (numeral k) x = word_of_nat x # le_bytes (pred_numeral k) (x div 256)"
  using le_bytes.simps(2) [of "pred_numeral k" x] by (simp only: numeral_eq_Suc [of k])

lemma unat_word_of_nat_u8 [simp]: "unat (word_of_nat x :: u8) = x mod 256"
  by (simp add: unsigned_of_nat take_bit_eq_mod)

lemma length_le_bytes [simp]: "length (le_bytes n x) = n"
  by (induction n arbitrary: x) auto

lemma length_be_bytes [simp]: "length (be_bytes n x) = n"
  by (simp add: be_bytes_def)

lemma le_val_append: "le_val (xs @ ys) = le_val xs + 256 ^ length xs * le_val ys"
  by (induction xs) (auto simp: algebra_simps)

lemma le_val_less: "le_val bs < 256 ^ length bs"
proof (induction bs)
  case Nil
  then show ?case by simp
next
  case (Cons b bs)
  then have "256 * (le_val bs + 1) \<le> 256 * 256 ^ length bs"
    by (simp del: mult_Suc_right mult_le_cancel1 add: mult_le_mono2)
  then show ?case using unat_u8_lt [of b] by simp
qed

lemma le_val_le_bytes: "le_val (le_bytes n x) = x mod 256 ^ n"
proof (induction n arbitrary: x)
  case 0
  then show ?case by simp
next
  case (Suc n)
  have "x mod (256 * 256 ^ n) = 256 * (x div 256 mod 256 ^ n) + x mod 256"
    by (rule mod_mult2_eq)
  with Suc show ?case by simp
qed

lemma le_bytes_le_val: "le_bytes (length bs) (le_val bs) = bs"
proof (induction bs)
  case Nil
  then show ?case by simp
next
  case (Cons b bs)
  have "(unat b + 256 * le_val bs) div 256 = le_val bs"
    using unat_u8_lt [of b] by simp
  moreover have "(word_of_nat (unat b + 256 * le_val bs) :: u8) = b"
    using unat_u8_lt [of b]
    by (intro word_unat_eq_iff [THEN iffD2]) (simp del: of_nat_add of_nat_mult)
  ultimately show ?case using Cons by simp
qed

lemma be_val_be_bytes: "be_val (be_bytes n x) = x mod 256 ^ n"
  by (simp add: be_val_def be_bytes_def le_val_le_bytes)

lemma be_bytes_be_val: "length bs = n \<Longrightarrow> be_bytes n (be_val bs) = bs"
  using le_bytes_le_val [of "rev bs"] by (simp add: be_val_def be_bytes_def)

lemma le_val_eq_iff:
  "length xs = length ys \<Longrightarrow> le_val xs = le_val ys \<longleftrightarrow> xs = ys"
  by (metis le_bytes_le_val)

section \<open>Bytes of words by shifts\<close>

lemma unat_ucast_u8_gen:
  fixes b :: u8
  assumes "8 \<le> LENGTH('a::len)"
  shows "unat (ucast b :: 'a word) = unat b"
proof -
  have "unat b < 2 ^ 8"
    using unat_u8_lt [of b] by simp
  also have "(2::nat) ^ 8 \<le> 2 ^ LENGTH('a)"
    using assms by (simp only: power_increasing one_le_numeral)
  finally show ?thesis
    by (simp add: unsigned_ucast_eq take_bit_nat_eq_self_iff)
qed

lemma unat_or_disjoint:
  fixes a w :: "'a::len word"
  assumes "a AND w = 0" and "unat a + unat w < 2 ^ LENGTH('a)"
  shows "unat (a OR w) = unat a + unat w"
  using assms by (simp add: disjunctive_add_eq_or [symmetric] unat_word_ariths)

text \<open>
  The value of a shift-and-or read: the bytes of a list, least significant first, each
  shifted to its place.
\<close>

fun le_word :: "u8 list \<Rightarrow> 'a::len word" where
  "le_word [] = 0"
| "le_word (b # bs) = ucast b OR push_bit 8 (le_word bs)"

lemma unat_le_word:
  "8 * length bs \<le> LENGTH('a) \<Longrightarrow> unat (le_word bs :: 'a::len word) = le_val bs"
proof (induction bs)
  case Nil
  then show ?case by simp
next
  case (Cons b bs)
  let ?w = "le_word bs :: 'a word"
  have w: "unat ?w = le_val bs" using Cons by simp
  have "le_val (b # bs) < 2 ^ (8 * length (b # bs))"
    using le_val_less [of "b # bs"] by (simp only: power_mult) simp
  also have "\<dots> \<le> 2 ^ LENGTH('a)"
    using Cons.prems by (simp only: power_increasing one_le_numeral)
  finally have lt: "unat b + 256 * le_val bs < 2 ^ LENGTH('a)" by simp
  have b: "unat (ucast b :: 'a word) = unat b"
    using Cons.prems by (intro unat_ucast_u8_gen) simp
  have p: "unat (push_bit 8 ?w) = 256 * le_val bs"
    using lt
    by (subst unsigned_push_bit_eq)
       (simp add: push_bit_nat_def w take_bit_nat_eq_self_iff mult.commute)
  have "ucast b AND push_bit 8 ?w = 0"
    by (rule bit_word_eqI) (auto simp: bit_simps dest: bit_imp_le_length)
  then show ?case
    using lt by (simp add: unat_or_disjoint b p)
qed

lemma ucast_drop_bit_u8:
  fixes v :: "'a::len word"
  shows "(ucast (drop_bit k v) :: u8) = word_of_nat (unat v div 2 ^ k)"
proof (rule word_unat_eq_iff [THEN iffD2])
  have "unat (drop_bit k v) = unat v div 2 ^ k"
    by (subst unat_drop_bit_eq) (rule drop_bit_eq_div)
  then show "unat (ucast (drop_bit k v) :: u8) = unat (word_of_nat (unat v div 2 ^ k) :: u8)"
    by (simp add: unsigned_ucast_eq take_bit_eq_mod)
qed

lemma le_bytes_map: "le_bytes n (x div 256 ^ k) = map (\<lambda>i. word_of_nat (x div 256 ^ (k + i))) [0..<n]"
proof (induction n arbitrary: k)
  case 0
  then show ?case by simp
next
  case (Suc n)
  have "x div 256 ^ k div 256 = x div 256 ^ (k + 1)"
    by (simp add: div_mult2_eq [symmetric] mult.commute)
  then have "le_bytes (Suc n) (x div 256 ^ k) =
      word_of_nat (x div 256 ^ k) # map (\<lambda>i. word_of_nat (x div 256 ^ (k + 1 + i))) [0..<n]"
    using Suc [of "k + 1"] by simp
  then show ?case
    by (simp add: upt_conv_Cons map_Suc_upt [symmetric] del: upt_Suc)
qed

lemma le_bytes_unat:
  fixes v :: "'a::len word"
  shows "le_bytes n (unat v) = map (\<lambda>i. ucast (drop_bit (8 * i) v)) [0..<n]"
proof -
  have "word_of_nat (unat v div 256 ^ i) = (ucast (drop_bit (8 * i) v) :: u8)" for i
    by (simp only: ucast_drop_bit_u8 power_mult) simp
  then show ?thesis
    using le_bytes_map [of n "unat v" 0] by simp
qed

lemma bit_0xFF:
  assumes "8 \<le> LENGTH('a::len)"
  shows "bit (0xFF :: 'a word) k \<longleftrightarrow> k < 8"
proof -
  have "(0xFF :: 'a word) = mask 8" by (simp add: mask_eq_exp_minus_1)
  then have "bit (0xFF :: 'a word) k \<longleftrightarrow> possible_bit TYPE('a word) k \<and> k < 8"
    by (simp only: bit_mask_iff)
  then show ?thesis using assms by auto
qed

lemma unat_and_0xFF: "unat ((x :: 'a::len word) AND 0xFF) < 256"
proof -
  have "x AND 0xFF = take_bit 8 x"
    by (simp add: take_bit_eq_mask mask_eq_exp_minus_1)
  then have "unat (x AND 0xFF) = take_bit 8 (unat x)"
    by (simp only: unsigned_take_bit_eq)
  also have "\<dots> < 256"
    using take_bit_nat_less_exp [of 8 "unat x"] by simp
  finally show ?thesis .
qed

lemma xor_cancel_word:
  fixes x y z :: "'a::len word"
  shows "x XOR z = y XOR z \<longleftrightarrow> x = y" and "z XOR x = z XOR y \<longleftrightarrow> x = y"
  by (metis xor.assoc xor_self_eq xor.right_neutral) (metis xor.assoc xor_self_eq xor.left_neutral)

lemma unat_ucast_up:
  fixes x :: "'b::len word"
  assumes "LENGTH('b) \<le> LENGTH('a::len)"
  shows "unat (ucast x :: 'a word) = unat x"
proof -
  have "unat x < 2 ^ LENGTH('b)" by (rule unsigned_less)
  also have "(2::nat) ^ LENGTH('b) \<le> 2 ^ LENGTH('a)"
    using assms by (simp only: power_increasing one_le_numeral)
  finally show ?thesis by (simp add: unsigned_ucast_eq take_bit_nat_eq_self_iff)
qed

lemma unat_mult_nowrap:
  "unat a * unat b < 2 ^ LENGTH('a) \<Longrightarrow> unat (a * b) = unat a * unat (b :: 'a::len word)"
  using unat_mult_lem by blast

lemma unat_add_nowrap:
  "unat a + unat b < 2 ^ LENGTH('a) \<Longrightarrow> unat (a + b) = unat a + unat (b :: 'a::len word)"
  using unat_add_lem by blast

lemma unat_drop_bit_div: "unat (drop_bit k v) = unat v div 2 ^ k" for v :: "'a::len word"
  by (subst unat_drop_bit_eq) (rule drop_bit_eq_div)

lemma unat_sub_of_nat:
  fixes w :: "'a::len word"
  assumes "n \<le> unat w"
  shows "unat (w - word_of_nat n) = unat w - n"
proof -
  have "unat w < 2 ^ LENGTH('a)" by (rule unsigned_less)
  then have "n < 2 ^ LENGTH('a)" using assms by linarith
  then have "unat (word_of_nat n :: 'a word) = n" by (simp add: unsigned_of_nat take_bit_nat_eq_self_iff)
  then show ?thesis using assms by (subst unat_sub) (simp_all add: word_le_nat_alt)
qed

lemma shift_eq_zero:
  assumes "take n xs = drop 1 xs" and "xs ! 0 = 0" and "length xs = Suc n"
  shows "i \<le> n \<Longrightarrow> xs ! i = 0"
proof (induction i)
  case 0
  then show ?case using assms(2) by simp
next
  case (Suc i)
  have "xs ! i = take n xs ! i" using Suc.prems by simp
  also have "\<dots> = drop 1 xs ! i" by (simp only: assms(1))
  also have "\<dots> = xs ! Suc i" using Suc.prems assms(3) by simp
  finally show ?case using Suc by simp
qed

lemma memzcmp_eq:
  assumes "length src = Suc n"
  shows "memzcmp src (Suc n) = Some (src \<noteq> replicate (Suc n) 0)"
proof -
  have l: "load src 0 = Some (src ! 0)" "load_n src 0 n = Some (take n src)" "load_n src (Suc 0) n = Some (drop 1 src)"
    using assms by (simp_all add: load_def load_n_def)
  have "src = replicate (Suc n) 0" if "src ! 0 = 0" "take n src = drop 1 src"
  proof (rule nth_equalityI)
    fix i assume "i < length src"
    then show "src ! i = replicate (Suc n) 0 ! i"
      using shift_eq_zero [OF that(2,1) assms, of i] assms by (simp del: replicate_Suc)
  qed (simp add: assms)
  moreover have "take n (replicate (Suc n) (0 :: u8)) = drop 1 (replicate (Suc n) 0)"
    by (simp add: replicate_append_same [symmetric] del: replicate_Suc)
  moreover have "replicate (Suc n) (0 :: u8) ! 0 = 0" by simp
  ultimately show ?thesis by (auto simp: memzcmp_def l simp del: replicate_Suc)
qed

end
