(* ===== verification/Bits.thy ===== *)
theory Bits
  imports Prelude
begin

text \<open>
  \<open>src/common/bits.c\<close>: bit arrays (channel masks, device filters, address prefixes) stored in
  byte arrays. \<open>bit*()\<close> number the bits of a byte from the least significant one,
  \<open>bitr*()\<close> from the most significant one. The functions check no bounds: a call that leaves
  its arrays is \<open>None\<close>.

  \<open>bit_at\<close> and \<open>bitr_at\<close> read the abstract bit array; the locale \<open>bit_array\<close> is the contract
  of a test/set/clear triple and is interpreted on both numberings.
\<close>

section \<open>Single bits\<close>

definition bittest :: "u8 list \<Rightarrow> nat \<Rightarrow> bool option" where
  "bittest bits i = do { b \<leftarrow> load bits (i div 8); Some (b AND push_bit (i mod 8) 1 \<noteq> 0) }"

definition bitrtest :: "u8 list \<Rightarrow> nat \<Rightarrow> bool option" where
  "bitrtest bits i = do { b \<leftarrow> load bits (i div 8); Some (b AND push_bit (7 - i mod 8) 1 \<noteq> 0) }"

definition bitset :: "u8 list \<Rightarrow> nat \<Rightarrow> u8 list option" where
  "bitset bits i = do { b \<leftarrow> load bits (i div 8); store bits (i div 8) (b OR push_bit (i mod 8) 1) }"

definition bitrset :: "u8 list \<Rightarrow> nat \<Rightarrow> u8 list option" where
  "bitrset bits i =
     do { b \<leftarrow> load bits (i div 8); store bits (i div 8) (b OR push_bit (7 - i mod 8) 1) }"

definition bitclr :: "u8 list \<Rightarrow> nat \<Rightarrow> u8 list option" where
  "bitclr bits i =
     do { b \<leftarrow> load bits (i div 8); store bits (i div 8) (b AND NOT (push_bit (i mod 8) 1)) }"

definition bitrclr :: "u8 list \<Rightarrow> nat \<Rightarrow> u8 list option" where
  "bitrclr bits i =
     do { b \<leftarrow> load bits (i div 8); store bits (i div 8) (b AND NOT (push_bit (7 - i mod 8) 1)) }"

section \<open>Ranges of bits\<close>

function bitfill_loop :: "u8 list \<Rightarrow> bool \<Rightarrow> nat \<Rightarrow> nat \<Rightarrow> u8 list option" where
  "bitfill_loop dst val i stop =
     (if i \<le> stop
      then do { dst \<leftarrow> (if val then bitset dst i else bitclr dst i);
                bitfill_loop dst val (i + 1) stop }
      else Some dst)"
  by pat_completeness auto
termination
  by (relation "measure (\<lambda>(dst, val, i, e). e + 1 - i)") auto

declare bitfill_loop.simps [simp del]

definition bitfill :: "u8 list \<Rightarrow> bool \<Rightarrow> nat \<Rightarrow> nat \<Rightarrow> u8 list option" where
  "bitfill dst val start stop = bitfill_loop dst val start stop"

text \<open>The mask of the bits of a partial last byte, \<open>(1u << nb_bits) - 1\<close>.\<close>

definition bit_mask :: "nat \<Rightarrow> u8" where
  "bit_mask nb_bits = push_bit nb_bits 1 - 1"

definition bitcpy :: "u8 list \<Rightarrow> u8 list \<Rightarrow> nat \<Rightarrow> u8 list option" where
  "bitcpy dst src len =
     (let nb_bytes = len div 8; nb_bits = len mod 8; mask = bit_mask nb_bits in
      do { bs \<leftarrow> load_n src 0 nb_bytes;
           dst \<leftarrow> store_n dst 0 bs;
           if nb_bits = 0 then Some dst
           else do { d \<leftarrow> load dst nb_bytes;
                     dst \<leftarrow> store dst nb_bytes (d AND NOT mask);
                     d \<leftarrow> load dst nb_bytes;
                     s \<leftarrow> load src nb_bytes;
                     store dst nb_bytes (d OR (mask AND s)) } })"

definition bitcpy0 :: "u8 list \<Rightarrow> u8 list \<Rightarrow> nat \<Rightarrow> u8 list option" where
  "bitcpy0 dst src len =
     (let nb_bytes = len div 8; nb_bits = len mod 8; mask = bit_mask nb_bits in
      do { bs \<leftarrow> load_n src 0 nb_bytes;
           dst \<leftarrow> store_n dst 0 bs;
           if nb_bits = 0 then Some dst
           else do { s \<leftarrow> load src nb_bytes;
                     store dst nb_bytes (mask AND s) } })"

text \<open>\<open>memcmp\<close>: the sign of the first difference of unsigned bytes (C fixes only the sign).\<close>

fun memcmp :: "u8 list \<Rightarrow> u8 list \<Rightarrow> int" where
  "memcmp (x # xs) (y # ys) = (if x < y then -1 else if y < x then 1 else memcmp xs ys)"
| "memcmp _ _ = 0"

definition bitcmp :: "u8 list \<Rightarrow> u8 list \<Rightarrow> nat \<Rightarrow> int option" where
  "bitcmp s1 s2 len =
     (let nb_bytes = len div 8; nb_bits = len mod 8; mask = bit_mask nb_bits in
      do { b1 \<leftarrow> load_n s1 0 nb_bytes;
           b2 \<leftarrow> load_n s2 0 nb_bytes;
           let ret = memcmp b1 b2;
           if nb_bits = 0 then Some ret
           else if nb_bytes \<noteq> 0 \<and> ret \<noteq> 0 then Some ret
           else do { x \<leftarrow> load s1 nb_bytes;
                     y \<leftarrow> load s2 nb_bytes;
                     Some (uint (x AND mask) - uint (y AND mask)) } })"

fun bitcmp0_loop :: "u8 list \<Rightarrow> nat \<Rightarrow> nat \<Rightarrow> bool option" where
  "bitcmp0_loop s1 i 0 = Some True"
| "bitcmp0_loop s1 i (Suc n) =
     do { x \<leftarrow> load s1 i; if x \<noteq> 0 then Some False else bitcmp0_loop s1 (i + 1) n }"

definition bitcmp0 :: "u8 list \<Rightarrow> nat \<Rightarrow> bool option" where
  "bitcmp0 s1 len =
     (let nb_bytes = len div 8; nb_bits = len mod 8; mask = bit_mask nb_bits in
      do { z \<leftarrow> bitcmp0_loop s1 0 nb_bytes;
           if \<not> z then Some False
           else do { x \<leftarrow> load s1 nb_bytes;
                     if x AND mask \<noteq> 0 then Some False else Some True } })"

fun bitand_loop :: "u8 list \<Rightarrow> u8 list \<Rightarrow> nat \<Rightarrow> nat \<Rightarrow> u8 list option" where
  "bitand_loop dst src i 0 = Some dst"
| "bitand_loop dst src i (Suc n) =
     do { d \<leftarrow> load dst i; s \<leftarrow> load src i; dst \<leftarrow> store dst i (d AND s);
          bitand_loop dst src (i + 1) n }"

definition bitand :: "u8 list \<Rightarrow> u8 list \<Rightarrow> nat \<Rightarrow> u8 list option" where
  "bitand dst src nbits = bitand_loop dst src 0 (nbits div 8)"

fun bitcnt_loop :: "u8 list \<Rightarrow> nat \<Rightarrow> nat \<Rightarrow> nat \<Rightarrow> nat option" where
  "bitcnt_loop bits i 0 cnt = Some cnt"
| "bitcnt_loop bits i (Suc n) cnt =
     do { t \<leftarrow> bittest bits i; bitcnt_loop bits (i + 1) n (if t then cnt + 1 else cnt) }"

definition bitcnt :: "u8 list \<Rightarrow> nat \<Rightarrow> nat option" where
  "bitcnt bits nbits = bitcnt_loop bits 0 nbits 0"

section \<open>The abstract bit array\<close>

definition bit_at :: "u8 list \<Rightarrow> nat \<Rightarrow> bool" where
  "bit_at m i = bit (m ! (i div 8)) (i mod 8)"

definition bitr_at :: "u8 list \<Rightarrow> nat \<Rightarrow> bool" where
  "bitr_at m i = bit (m ! (i div 8)) (7 - i mod 8)"

lemma and_push_bit_1: "(b :: u8) AND push_bit k 1 \<noteq> 0 \<longleftrightarrow> bit b k"
  by (simp add: and_exp_eq_0_iff_not_bit)

lemma bit_or_push_1: "k < 8 \<Longrightarrow> bit ((b :: u8) OR push_bit k 1) j \<longleftrightarrow> bit b j \<or> j = k"
  by (auto simp: bit_simps)

lemma bit_and_not_push_1:
  "j < 8 \<Longrightarrow> bit ((b :: u8) AND NOT (push_bit k 1)) j \<longleftrightarrow> bit b j \<and> j \<noteq> k"
  by (auto simp: bit_simps)

lemma byte_index: "i < 8 * n \<Longrightarrow> i div 8 < (n::nat)"
  by (simp add: less_mult_imp_div_less mult.commute)

lemma same_bit_index: "i div 8 = j div 8 \<Longrightarrow> i mod 8 = j mod 8 \<Longrightarrow> i = (j::nat)"
  by (metis div_mult_mod_eq)

locale bit_array =
  fixes tst :: "u8 list \<Rightarrow> nat \<Rightarrow> bool option"
    and st :: "u8 list \<Rightarrow> nat \<Rightarrow> u8 list option"
    and cl :: "u8 list \<Rightarrow> nat \<Rightarrow> u8 list option"
    and at :: "u8 list \<Rightarrow> nat \<Rightarrow> bool"
  assumes tst_at: "i < 8 * length m \<Longrightarrow> tst m i = Some (at m i)"
    and st_at: "i < 8 * length m \<Longrightarrow> \<exists>m'. st m i = Some m' \<and> length m' = length m \<and>
          (\<forall>j. j < 8 * length m \<longrightarrow> at m' j = (j = i \<or> at m j))"
    and cl_at: "i < 8 * length m \<Longrightarrow> \<exists>m'. cl m i = Some m' \<and> length m' = length m \<and>
          (\<forall>j. j < 8 * length m \<longrightarrow> at m' j = (j \<noteq> i \<and> at m j))"
    and out: "8 * length m \<le> i \<Longrightarrow> tst m i = None \<and> st m i = None \<and> cl m i = None"
begin

lemma st_cases:
  assumes "i < 8 * length m"
  obtains m' where "st m i = Some m'" "length m' = length m"
    "\<And>j. j < 8 * length m \<Longrightarrow> at m' j = (j = i \<or> at m j)"
  using st_at [OF assms] by blast

lemma cl_cases:
  assumes "i < 8 * length m"
  obtains m' where "cl m i = Some m'" "length m' = length m"
    "\<And>j. j < 8 * length m \<Longrightarrow> at m' j = (j \<noteq> i \<and> at m j)"
  using cl_at [OF assms] by blast

lemma tst_after:
  assumes "j < 8 * length m"
  shows "st m i \<bind> (\<lambda>m'. tst m' j) =
      (if i < 8 * length m then Some (j = i \<or> at m j) else None)"
    and "cl m i \<bind> (\<lambda>m'. tst m' j) =
      (if i < 8 * length m then Some (j \<noteq> i \<and> at m j) else None)"
proof -
  show "st m i \<bind> (\<lambda>m'. tst m' j) =
      (if i < 8 * length m then Some (j = i \<or> at m j) else None)"
  proof (cases "i < 8 * length m")
    case True
    then obtain m' where "st m i = Some m'" "length m' = length m" "at m' j = (j = i \<or> at m j)"
      using st_cases assms by metis
    then show ?thesis using True assms by (simp add: tst_at)
  qed (simp add: out)
  show "cl m i \<bind> (\<lambda>m'. tst m' j) =
      (if i < 8 * length m then Some (j \<noteq> i \<and> at m j) else None)"
  proof (cases "i < 8 * length m")
    case True
    then obtain m' where "cl m i = Some m'" "length m' = length m" "at m' j = (j \<noteq> i \<and> at m j)"
      using cl_cases assms by metis
    then show ?thesis using True assms by (simp add: tst_at)
  qed (simp add: out)
qed

end

lemma seven_minus: "i mod 8 < 8" "7 - i mod 8 < (8::nat)" "7 - i mod 8 = 7 - j mod 8 \<longleftrightarrow> i mod 8 = j mod (8::nat)"
  using mod_less_divisor [of 8 i] mod_less_divisor [of 8 j] by auto

interpretation lsb: bit_array bittest bitset bitclr bit_at
proof (unfold_locales, goal_cases)
  case (1 i m)
  then show ?case
    by (simp only: bittest_def load_in byte_index bind.bind_lunit and_push_bit_1 bit_at_def)
next
  case (2 i m)
  then show ?case
    by (auto simp: bitset_def load_in store_in byte_index bit_at_def nth_list_update bit_or_push_1
        simp del: push_bit_of_1 dest: same_bit_index)
next
  case (3 i m)
  then show ?case
    by (auto simp: bitclr_def load_in store_in byte_index bit_at_def nth_list_update bit_and_not_push_1
        simp del: push_bit_of_1 dest: same_bit_index)
next
  case (4 m i)
  then show ?case by (auto simp: bittest_def bitset_def bitclr_def load_def)
qed

interpretation msb: bit_array bitrtest bitrset bitrclr bitr_at
proof (unfold_locales, goal_cases)
  case (1 i m)
  then show ?case
    by (simp only: bitrtest_def load_in byte_index bind.bind_lunit and_push_bit_1 bitr_at_def)
next
  case (2 i m)
  then show ?case
    by (auto simp: bitrset_def load_in store_in byte_index bitr_at_def nth_list_update bit_or_push_1
        seven_minus simp del: push_bit_of_1 dest: same_bit_index)
next
  case (3 i m)
  then show ?case
    by (auto simp: bitrclr_def load_in store_in byte_index bitr_at_def nth_list_update
        bit_and_not_push_1 seven_minus simp del: push_bit_of_1 dest: same_bit_index)
next
  case (4 m i)
  then show ?case by (auto simp: bitrtest_def bitrset_def bitrclr_def load_def)
qed


section \<open>Ranges\<close>

lemma bitfill_loop_spec:
  "stop < 8 * length dst \<Longrightarrow>
   \<exists>d. bitfill_loop dst v i stop = Some d \<and> length d = length dst \<and>
       (\<forall>j. j < 8 * length dst \<longrightarrow> bit_at d j = (if i \<le> j \<and> j \<le> stop then v else bit_at dst j))"
proof (induction dst v i stop rule: bitfill_loop.induct)
  case (1 dst v i stop)
  show ?case
  proof (cases "i \<le> stop")
    case True
    then have i: "i < 8 * length dst" using "1.prems" by simp
    obtain d where d: "(if v then bitset dst i else bitclr dst i) = Some d" "length d = length dst"
      "\<And>j. j < 8 * length dst \<Longrightarrow> bit_at d j = (if j = i then v else bit_at dst j)"
      using lsb.st_at [OF i] lsb.cl_at [OF i] by (cases v) auto
    obtain e where "bitfill_loop d v (i + 1) stop = Some e" "length e = length dst"
      "\<And>j. j < 8 * length dst \<Longrightarrow> bit_at e j = (if i + 1 \<le> j \<and> j \<le> stop then v else bit_at d j)"
      using "1.IH" [OF True, of d] "1.prems" d by (metis option.sel)
    with True d show ?thesis
      by (subst bitfill_loop.simps) (auto split: if_splits)
  next
    case False
    then show ?thesis by (subst bitfill_loop.simps) auto
  qed
qed

lemma bit_bit_mask: "n < 8 \<Longrightarrow> bit (bit_mask n) j \<longleftrightarrow> j < n"
  unfolding bit_mask_def push_bit_of_1 mask_eq_exp_minus_1 [symmetric]
  by (auto simp: bit_simps)

lemma round_up_bytes: "(len + 7) div 8 = len div 8 + (if len mod 8 = 0 then 0 else (1::nat))"
proof -
  have "len + 7 = (len mod 8 + 7) + 8 * (len div 8)" by simp
  then have "(len + 7) div 8 = len div 8 + (len mod 8 + 7) div 8"
    by (metis div_mult_self2 add.commute zero_neq_numeral)
  moreover have "(len mod 8 + 7) div 8 = (if len mod 8 = 0 then 0 else (1::nat))"
    using mod_less_divisor [of 8 len] by (auto simp: div_nat_eqI)
  ultimately show ?thesis by simp
qed

lemma less_bytes: "j < 8 * n \<longleftrightarrow> j div 8 < (n::nat)"
  by (simp add: div_less_iff_less_mult mult.commute)

lemma less_bits: "j < len \<longleftrightarrow> j div 8 < len div 8 \<or> (j div 8 = len div 8 \<and> j mod 8 < len mod (8::nat))"
proof -
  have "j = 8 * (j div 8) + j mod 8" "len = 8 * (len div 8) + len mod 8" "j mod 8 < 8" "len mod 8 < 8"
    by simp_all
  then show ?thesis by linarith
qed

lemma part_byte:
  fixes len n :: nat
  assumes "(len + 7) div 8 \<le> n"
  shows "len div 8 \<le> n" and "len mod 8 \<noteq> 0 \<Longrightarrow> len div 8 < n"
  using assms by (simp_all add: round_up_bytes split: if_splits)

lemma bit_split:
  "(\<forall>j. j < n \<longrightarrow> P j) \<longleftrightarrow>
   (\<forall>j. j < 8 * (n div 8) \<longrightarrow> P j) \<and> (\<forall>k. k < n mod 8 \<longrightarrow> P (8 * (n div 8) + k))"
  for n :: nat
proof -
  have "j < n \<longleftrightarrow> j < 8 * (n div 8) \<or> (\<exists>k < n mod 8. j = 8 * (n div 8) + k)" for j
  proof -
    have n: "n = 8 * (n div 8) + n mod 8" by simp
    show ?thesis
    proof
      assume "j < n"
      then have "j < 8 * (n div 8) \<or> j - 8 * (n div 8) < n mod 8 \<and> j = 8 * (n div 8) + (j - 8 * (n div 8))"
        using n by linarith
      then show "j < 8 * (n div 8) \<or> (\<exists>k < n mod 8. j = 8 * (n div 8) + k)" by blast
    next
      assume "j < 8 * (n div 8) \<or> (\<exists>k < n mod 8. j = 8 * (n div 8) + k)"
      then show "j < n" using n by (elim disjE exE conjE) linarith+
    qed
  qed
  then show ?thesis by blast
qed

lemma bit_at_high: "k < 8 \<Longrightarrow> bit_at m (8 * n + k) = bit (m ! n) k"
  by (simp add: bit_at_def)

lemma bitcpy_bytes:
  assumes "(len + 7) div 8 \<le> length dst" and "(len + 7) div 8 \<le> length src"
  defines "nb \<equiv> len div 8" and "mk \<equiv> bit_mask (len mod 8)"
  shows "bitcpy dst src len =
      Some (if len mod 8 = 0 then take nb src @ drop nb dst
            else (take nb src @ drop nb dst)[nb := (dst ! nb AND NOT mk) OR (mk AND src ! nb)])"
    and "bitcpy0 dst src len =
      Some (if len mod 8 = 0 then take nb src @ drop nb dst
            else (take nb src @ drop nb dst)[nb := mk AND src ! nb])"
proof -
  have nb: "nb \<le> length dst" "nb \<le> length src"
    "len mod 8 \<noteq> 0 \<Longrightarrow> nb < length dst" "len mod 8 \<noteq> 0 \<Longrightarrow> nb < length src"
    using part_byte [OF assms(1)] part_byte [OF assms(2)] by (simp_all add: nb_def)
  then show "bitcpy dst src len =
      Some (if len mod 8 = 0 then take nb src @ drop nb dst
            else (take nb src @ drop nb dst)[nb := (dst ! nb AND NOT mk) OR (mk AND src ! nb)])"
    by (simp add: bitcpy_def load_n_def store_n_def load_def store_def nth_append
        min_def nb_def [symmetric] mk_def [symmetric])
  show "bitcpy0 dst src len =
      Some (if len mod 8 = 0 then take nb src @ drop nb dst
            else (take nb src @ drop nb dst)[nb := mk AND src ! nb])"
    using nb by (simp add: bitcpy0_def load_n_def store_n_def load_def store_def nth_append
        min_def nb_def [symmetric] mk_def [symmetric])
qed

lemma memcmp_0_iff: "length xs = length ys \<Longrightarrow> memcmp xs ys = 0 \<longleftrightarrow> xs = ys"
  by (induction xs ys rule: memcmp.induct) auto

lemma u8_eq_bits: "(x :: u8) = y \<longleftrightarrow> (\<forall>k. k < 8 \<longrightarrow> bit x k = bit y k)"
  by (auto intro: bit_word_eqI)

lemma take_eq_bits:
  assumes "n \<le> length a" and "n \<le> length b"
  shows "take n a = take n b \<longleftrightarrow> (\<forall>j. j < 8 * n \<longrightarrow> bit_at a j = bit_at b j)"
proof
  assume "take n a = take n b"
  then have "a ! (j div 8) = b ! (j div 8)" if "j < 8 * n" for j
    using byte_index [OF that] by (metis nth_take)
  then show "\<forall>j. j < 8 * n \<longrightarrow> bit_at a j = bit_at b j" by (simp add: bit_at_def)
next
  assume eq: "\<forall>j. j < 8 * n \<longrightarrow> bit_at a j = bit_at b j"
  show "take n a = take n b"
  proof (rule nth_take_lemma [OF assms], intro allI impI)
    fix i assume "i < n"
    then have "bit (a ! i) k = bit (b ! i) k" if "k < 8" for k
      using eq [rule_format, of "8 * i + k"] that by (simp add: bit_at_high)
    then show "a ! i = b ! i" by (simp add: u8_eq_bits)
  qed
qed

lemma mask_eq_bits:
  assumes "n < 8"
  shows "x AND bit_mask n = y AND bit_mask n \<longleftrightarrow> (\<forall>k. k < n \<longrightarrow> bit x k = bit (y :: u8) k)"
proof -
  have "x AND bit_mask n = y AND bit_mask n \<longleftrightarrow>
      (\<forall>k. k < 8 \<longrightarrow> (bit x k \<and> k < n) = (bit y k \<and> k < n))"
    using assms by (simp add: u8_eq_bits bit_and_iff bit_bit_mask)
  then show ?thesis using assms less_trans [of _ n 8] by blast
qed

lemma bitcmp0_loop_eq:
  "i + n \<le> length s \<Longrightarrow> bitcmp0_loop s i n = Some (\<forall>k < n. s ! (i + k) = 0)"
proof (induction n arbitrary: i)
  case 0
  then show ?case by simp
next
  case (Suc n)
  have "(\<forall>k < Suc n. s ! (i + k) = 0) \<longleftrightarrow> s ! i = 0 \<and> (\<forall>k < n. s ! (Suc i + k) = 0)"
    using less_Suc_eq_0_disj by auto
  with Suc show ?case by (simp add: load_def)
qed

lemma bitcnt_loop_eq:
  "i + n \<le> 8 * length bits \<Longrightarrow>
   bitcnt_loop bits i n cnt = Some (cnt + card {j. i \<le> j \<and> j < i + n \<and> bit_at bits j})"
proof (induction n arbitrary: i cnt)
  case 0
  then show ?case by simp
next
  case (Suc n)
  have "{j. i \<le> j \<and> j < i + Suc n \<and> bit_at bits j} =
      (if bit_at bits i then {i} else {}) \<union> {j. i + 1 \<le> j \<and> j < i + 1 + n \<and> bit_at bits j}"
    by (auto simp: Suc_le_eq nat_less_le)
  moreover have "finite {j. i + 1 \<le> j \<and> j < i + 1 + n \<and> bit_at bits j}" by simp
  ultimately show ?case
    using Suc by (simp add: lsb.tst_at)
qed

section \<open>Properties\<close>

text \<open>
  Both numberings of a bit array obey the array laws: a test after setting (clearing) bit
  \<open>i\<close> sees bit \<open>i\<close> set (clear) and every other bit as before, and an index outside the
  array is an access out of bounds.
\<close>

theorem bit_array_laws:
  assumes "j < 8 * length m"
  shows "bitset m i \<bind> (\<lambda>m'. bittest m' j) =
      (if i < 8 * length m then Some (j = i \<or> bit_at m j) else None) \<and>
    bitclr m i \<bind> (\<lambda>m'. bittest m' j) =
      (if i < 8 * length m then Some (j \<noteq> i \<and> bit_at m j) else None) \<and>
    bitrset m i \<bind> (\<lambda>m'. bitrtest m' j) =
      (if i < 8 * length m then Some (j = i \<or> bitr_at m j) else None) \<and>
    bitrclr m i \<bind> (\<lambda>m'. bitrtest m' j) =
      (if i < 8 * length m then Some (j \<noteq> i \<and> bitr_at m j) else None)"
  using lsb.tst_after [OF assms] msb.tst_after [OF assms] by blast

theorem bit_array_laws_witness:
  "bitrset [0, 0] 9 \<bind> (\<lambda>m. bitrtest m 9) = Some True \<and>
   bitset [0, 0] 16 \<bind> (\<lambda>m. bittest m 9) = None"
  using bit_array_laws [of 9 "[0, 0]" 9] bit_array_laws [of 9 "[0, 0]" 16] by simp

text \<open>
  \<open>bitfill\<close> sets every bit of the closed range \<open>[start, stop]\<close> to the given value and no
  other bit, for any range that ends inside the array.
\<close>

theorem bitfill_range:
  assumes "stop < 8 * length dst"
  shows "\<exists>d. bitfill dst v start stop = Some d \<and> length d = length dst \<and>
     (\<forall>j. j < 8 * length dst \<longrightarrow>
        bit_at d j = (if start \<le> j \<and> j \<le> stop then v else bit_at dst j))"
  unfolding bitfill_def using assms by (rule bitfill_loop_spec)

theorem bitfill_range_witness:
  "\<exists>d. bitfill [0, 0xF0] True 6 9 = Some d \<and> length d = 2 \<and>
     (\<forall>j. j < 16 \<longrightarrow> bit_at d j = (if 6 \<le> j \<and> j \<le> 9 then True else bit_at [0, 0xF0] j))"
  using bitfill_range [of 9 "[0, 0xF0]" True 6] by (simp split del: if_split add: numeral_2_eq_2)

text \<open>
  \<open>bitcpy\<close> copies exactly the first \<open>len\<close> bits and keeps every other bit of the destination;
  \<open>bitcpy0\<close> does the same but clears the rest of the last byte it touches.
\<close>

theorem bitcpy_bits:
  assumes "(len + 7) div 8 \<le> length dst" and "(len + 7) div 8 \<le> length src"
  shows "(\<exists>d. bitcpy dst src len = Some d \<and> length d = length dst \<and>
      (\<forall>j. j < 8 * length dst \<longrightarrow> bit_at d j = (if j < len then bit_at src j else bit_at dst j))) \<and>
    (\<exists>d. bitcpy0 dst src len = Some d \<and> length d = length dst \<and>
      (\<forall>j. j < 8 * length dst \<longrightarrow> bit_at d j =
         (if j < len then bit_at src j
          else if j < 8 * ((len + 7) div 8) then False else bit_at dst j)))"
proof -
  have nb: "len div 8 \<le> length dst" "len div 8 \<le> length src"
    "len mod 8 \<noteq> 0 \<Longrightarrow> len div 8 < length dst"
    using part_byte [OF assms(1)] part_byte [OF assms(2)] by simp_all
  show ?thesis
    unfolding bitcpy_bytes [OF assms]
    using nb
    by (auto simp: bit_at_def nth_append nth_list_update min_def bit_and_iff bit_or_iff bit_not_iff
        bit_bit_mask less_bytes less_bits [of _ len] round_up_bytes)
qed

theorem bitcpy_bits_witness:
  "\<exists>d. bitcpy [0xFF, 0xFF] [0, 0] 11 = Some d \<and> bit_at d 10 = False \<and> bit_at d 11 = True"
proof -
  have "\<exists>d. bitcpy [0xFF, 0xFF] [0, 0] 11 = Some d \<and>
      (\<forall>j. j < 16 \<longrightarrow> bit_at d j = (if j < 11 then bit_at [0, 0] j else bit_at [0xFF, 0xFF] j))"
    using bitcpy_bits [of 11 "[0xFF, 0xFF]" "[0, 0]"] by (auto split del: if_split)
  then obtain d where d: "bitcpy [0xFF, 0xFF] [0, 0] 11 = Some d"
    "bit_at d 10 = bit_at [0, 0] 10" "bit_at d 11 = bit_at [0xFF, 0xFF] 11"
    by fastforce
  moreover have "\<not> bit_at [0, 0] 10" "bit_at [0xFF, 0xFF] 11"
    by (simp_all add: bit_at_def)
  ultimately show ?thesis by blast
qed

text \<open>
  \<open>bitcmp\<close> returns zero exactly when the first \<open>len\<close> bits of its arguments agree.
\<close>

theorem bitcmp_bits:
  assumes "(len + 7) div 8 \<le> length a" and "(len + 7) div 8 \<le> length b"
  shows "\<exists>r. bitcmp a b len = Some r \<and> (r = 0 \<longleftrightarrow> (\<forall>j. j < len \<longrightarrow> bit_at a j = bit_at b j))"
proof -
  let ?n = "len div 8"
  have nb: "?n \<le> length a" "?n \<le> length b"
    "len mod 8 \<noteq> 0 \<Longrightarrow> ?n < length a" "len mod 8 \<noteq> 0 \<Longrightarrow> ?n < length b"
    using part_byte [OF assms(1)] part_byte [OF assms(2)] by simp_all
  have whole: "memcmp (take ?n a) (take ?n b) = 0 \<longleftrightarrow> (\<forall>j. j < 8 * ?n \<longrightarrow> bit_at a j = bit_at b j)"
    using nb by (simp add: memcmp_0_iff take_eq_bits)
  have part: "uint (a ! ?n AND bit_mask (len mod 8)) - uint (b ! ?n AND bit_mask (len mod 8)) = 0 \<longleftrightarrow>
      (\<forall>k. k < len mod 8 \<longrightarrow> bit_at a (8 * ?n + k) = bit_at b (8 * ?n + k))"
    by (simp add: mask_eq_bits bit_at_high flip: word_uint_eq_iff)
  show ?thesis
  proof (cases "len mod 8 = 0")
    case True
    then show ?thesis
      unfolding bit_split [where n = len] whole [symmetric]
      using nb by (simp add: bitcmp_def load_n_def Let_def)
  next
    case False
    then show ?thesis
      unfolding bit_split [where n = len] whole [symmetric] part [symmetric]
      using nb by (auto simp: bitcmp_def load_n_def load_def Let_def)
  qed
qed

theorem bitcmp_bits_witness:
  "\<exists>r. bitcmp [1, 0xF2] [1, 0x02] 12 = Some r \<and>
     (r = 0 \<longleftrightarrow> (\<forall>j. j < 12 \<longrightarrow> bit_at [1, 0xF2] j = bit_at [1, 0x02] j))"
  by (rule bitcmp_bits) simp_all

text \<open>\<open>bitcnt\<close> is the number of bits set among the first \<open>nbits\<close>.\<close>

lemma bitcnt_card: "nbits \<le> 8 * length bits \<Longrightarrow> bitcnt bits nbits = Some (card {j. j < nbits \<and> bit_at bits j})"
  using bitcnt_loop_eq [of 0 nbits bits 0] by (simp add: bitcnt_def)

text \<open>
  \<open>bitcmp0\<close> tells whether the first \<open>len\<close> bits are all clear when the array extends beyond
  them; on an all-zero array whose length in bits is exactly \<open>len\<close> it reads one byte past the
  end before it masks that byte away.
\<close>

theorem bitcmp0_bits:
  "(len < 8 * length s \<longrightarrow> bitcmp0 s len = Some (\<forall>j. j < len \<longrightarrow> \<not> bit_at s j)) \<and>
   bitcmp0 (replicate n 0) (8 * n) = None"
proof (intro conjI impI)
  assume len: "len < 8 * length s"
  let ?n = "len div 8"
  have n: "?n < length s" using byte_index [OF len] .
  have "(\<forall>k < ?n. s ! k = 0) \<longleftrightarrow> take ?n s = take ?n (replicate (length s) 0)"
    using n by (auto simp: list_eq_iff_nth_eq)
  also have "\<dots> \<longleftrightarrow> (\<forall>j. j < 8 * ?n \<longrightarrow> \<not> bit_at s j)"
    using n by (subst take_eq_bits) (auto simp: bit_at_def less_bytes)
  finally have whole: "(\<forall>k < ?n. s ! k = 0) \<longleftrightarrow> (\<forall>j. j < 8 * ?n \<longrightarrow> \<not> bit_at s j)" .
  have part: "s ! ?n AND bit_mask (len mod 8) = 0 \<longleftrightarrow> (\<forall>k. k < len mod 8 \<longrightarrow> \<not> bit_at s (8 * ?n + k))"
    using mask_eq_bits [of "len mod 8" "s ! ?n" 0] by (simp add: bit_at_high)
  show "bitcmp0 s len = Some (\<forall>j. j < len \<longrightarrow> \<not> bit_at s j)"
    unfolding bit_split [where n = len] whole [symmetric] part [symmetric]
    using n by (auto simp: bitcmp0_def bitcmp0_loop_eq load_def Let_def)
next
  show "bitcmp0 (replicate n 0) (8 * n) = None"
    by (simp add: bitcmp0_def bitcmp0_loop_eq load_def)
qed

theorem bitcmp0_bits_witness:
  "bitcmp0 [0, 0xF0] 12 = Some (\<forall>j. j < 12 \<longrightarrow> \<not> bit_at [0, 0xF0] j) \<and> bitcmp0 [0, 0] 16 = None"
  using bitcmp0_bits [of 12 "[0, 0xF0]" 2] by (simp add: numeral_2_eq_2)

end
