(* ===== verification/Crc.thy ===== *)
theory Crc
  imports Prelude
begin

text \<open>
  \<open>src/common/crc.c\<close>: the table-driven CRCs of the serial link (CRC-16/IBM-SDLC), of the
  firmware upload packets (CRC-16/XMODEM) and of the firmware blocks (CRC-32). The tables are
  the ones of the source. The locales \<open>crc_right\<close> and \<open>crc_left\<close> state what a table must be
  for a polynomial and show that the byte-wise loop then computes the bit-serial CRC; the
  interpretations check the 256 entries of each table against its polynomial.
\<close>

section \<open>The code\<close>

definition crc_table :: "u16 list" where
  "crc_table =
    [0x0000, 0x1189, 0x2312, 0x329b, 0x4624, 0x57ad, 0x6536, 0x74bf, 0x8c48, 0x9dc1, 0xaf5a, 0xbed3,
     0xca6c, 0xdbe5, 0xe97e, 0xf8f7, 0x1081, 0x0108, 0x3393, 0x221a, 0x56a5, 0x472c, 0x75b7, 0x643e,
     0x9cc9, 0x8d40, 0xbfdb, 0xae52, 0xdaed, 0xcb64, 0xf9ff, 0xe876, 0x2102, 0x308b, 0x0210, 0x1399,
     0x6726, 0x76af, 0x4434, 0x55bd, 0xad4a, 0xbcc3, 0x8e58, 0x9fd1, 0xeb6e, 0xfae7, 0xc87c, 0xd9f5,
     0x3183, 0x200a, 0x1291, 0x0318, 0x77a7, 0x662e, 0x54b5, 0x453c, 0xbdcb, 0xac42, 0x9ed9, 0x8f50,
     0xfbef, 0xea66, 0xd8fd, 0xc974, 0x4204, 0x538d, 0x6116, 0x709f, 0x0420, 0x15a9, 0x2732, 0x36bb,
     0xce4c, 0xdfc5, 0xed5e, 0xfcd7, 0x8868, 0x99e1, 0xab7a, 0xbaf3, 0x5285, 0x430c, 0x7197, 0x601e,
     0x14a1, 0x0528, 0x37b3, 0x263a, 0xdecd, 0xcf44, 0xfddf, 0xec56, 0x98e9, 0x8960, 0xbbfb, 0xaa72,
     0x6306, 0x728f, 0x4014, 0x519d, 0x2522, 0x34ab, 0x0630, 0x17b9, 0xef4e, 0xfec7, 0xcc5c, 0xddd5,
     0xa96a, 0xb8e3, 0x8a78, 0x9bf1, 0x7387, 0x620e, 0x5095, 0x411c, 0x35a3, 0x242a, 0x16b1, 0x0738,
     0xffcf, 0xee46, 0xdcdd, 0xcd54, 0xb9eb, 0xa862, 0x9af9, 0x8b70, 0x8408, 0x9581, 0xa71a, 0xb693,
     0xc22c, 0xd3a5, 0xe13e, 0xf0b7, 0x0840, 0x19c9, 0x2b52, 0x3adb, 0x4e64, 0x5fed, 0x6d76, 0x7cff,
     0x9489, 0x8500, 0xb79b, 0xa612, 0xd2ad, 0xc324, 0xf1bf, 0xe036, 0x18c1, 0x0948, 0x3bd3, 0x2a5a,
     0x5ee5, 0x4f6c, 0x7df7, 0x6c7e, 0xa50a, 0xb483, 0x8618, 0x9791, 0xe32e, 0xf2a7, 0xc03c, 0xd1b5,
     0x2942, 0x38cb, 0x0a50, 0x1bd9, 0x6f66, 0x7eef, 0x4c74, 0x5dfd, 0xb58b, 0xa402, 0x9699, 0x8710,
     0xf3af, 0xe226, 0xd0bd, 0xc134, 0x39c3, 0x284a, 0x1ad1, 0x0b58, 0x7fe7, 0x6e6e, 0x5cf5, 0x4d7c,
     0xc60c, 0xd785, 0xe51e, 0xf497, 0x8028, 0x91a1, 0xa33a, 0xb2b3, 0x4a44, 0x5bcd, 0x6956, 0x78df,
     0x0c60, 0x1de9, 0x2f72, 0x3efb, 0xd68d, 0xc704, 0xf59f, 0xe416, 0x90a9, 0x8120, 0xb3bb, 0xa232,
     0x5ac5, 0x4b4c, 0x79d7, 0x685e, 0x1ce1, 0x0d68, 0x3ff3, 0x2e7a, 0xe70e, 0xf687, 0xc41c, 0xd595,
     0xa12a, 0xb0a3, 0x8238, 0x93b1, 0x6b46, 0x7acf, 0x4854, 0x59dd, 0x2d62, 0x3ceb, 0x0e70, 0x1ff9,
     0xf78f, 0xe606, 0xd49d, 0xc514, 0xb1ab, 0xa022, 0x92b9, 0x8330, 0x7bc7, 0x6a4e, 0x58d5, 0x495c,
     0x3de3, 0x2c6a, 0x1ef1, 0x0f78]"

fun crc16_loop :: "u8 list \<Rightarrow> nat \<Rightarrow> nat \<Rightarrow> u16 \<Rightarrow> u16 option" where
  "crc16_loop data i 0 crc = Some crc"
| "crc16_loop data i (Suc len) crc =
     do { d \<leftarrow> load data i;
          t \<leftarrow> load crc_table (unat ((crc XOR ucast d) AND 0xFF));
          crc16_loop data (i + 1) len (t XOR drop_bit 8 crc) }"

definition crc16 :: "u8 list \<Rightarrow> nat \<Rightarrow> u16 option" where
  "crc16 data len = do { crc \<leftarrow> crc16_loop data 0 len 0xFFFF; Some (crc XOR 0xFFFF) }"

definition crc16tab :: "u16 list" where
  "crc16tab =
    [0x0000, 0x1021, 0x2042, 0x3063, 0x4084, 0x50a5, 0x60c6, 0x70e7, 0x8108, 0x9129, 0xa14a, 0xb16b,
     0xc18c, 0xd1ad, 0xe1ce, 0xf1ef, 0x1231, 0x0210, 0x3273, 0x2252, 0x52b5, 0x4294, 0x72f7, 0x62d6,
     0x9339, 0x8318, 0xb37b, 0xa35a, 0xd3bd, 0xc39c, 0xf3ff, 0xe3de, 0x2462, 0x3443, 0x0420, 0x1401,
     0x64e6, 0x74c7, 0x44a4, 0x5485, 0xa56a, 0xb54b, 0x8528, 0x9509, 0xe5ee, 0xf5cf, 0xc5ac, 0xd58d,
     0x3653, 0x2672, 0x1611, 0x0630, 0x76d7, 0x66f6, 0x5695, 0x46b4, 0xb75b, 0xa77a, 0x9719, 0x8738,
     0xf7df, 0xe7fe, 0xd79d, 0xc7bc, 0x48c4, 0x58e5, 0x6886, 0x78a7, 0x0840, 0x1861, 0x2802, 0x3823,
     0xc9cc, 0xd9ed, 0xe98e, 0xf9af, 0x8948, 0x9969, 0xa90a, 0xb92b, 0x5af5, 0x4ad4, 0x7ab7, 0x6a96,
     0x1a71, 0x0a50, 0x3a33, 0x2a12, 0xdbfd, 0xcbdc, 0xfbbf, 0xeb9e, 0x9b79, 0x8b58, 0xbb3b, 0xab1a,
     0x6ca6, 0x7c87, 0x4ce4, 0x5cc5, 0x2c22, 0x3c03, 0x0c60, 0x1c41, 0xedae, 0xfd8f, 0xcdec, 0xddcd,
     0xad2a, 0xbd0b, 0x8d68, 0x9d49, 0x7e97, 0x6eb6, 0x5ed5, 0x4ef4, 0x3e13, 0x2e32, 0x1e51, 0x0e70,
     0xff9f, 0xefbe, 0xdfdd, 0xcffc, 0xbf1b, 0xaf3a, 0x9f59, 0x8f78, 0x9188, 0x81a9, 0xb1ca, 0xa1eb,
     0xd10c, 0xc12d, 0xf14e, 0xe16f, 0x1080, 0x00a1, 0x30c2, 0x20e3, 0x5004, 0x4025, 0x7046, 0x6067,
     0x83b9, 0x9398, 0xa3fb, 0xb3da, 0xc33d, 0xd31c, 0xe37f, 0xf35e, 0x02b1, 0x1290, 0x22f3, 0x32d2,
     0x4235, 0x5214, 0x6277, 0x7256, 0xb5ea, 0xa5cb, 0x95a8, 0x8589, 0xf56e, 0xe54f, 0xd52c, 0xc50d,
     0x34e2, 0x24c3, 0x14a0, 0x0481, 0x7466, 0x6447, 0x5424, 0x4405, 0xa7db, 0xb7fa, 0x8799, 0x97b8,
     0xe75f, 0xf77e, 0xc71d, 0xd73c, 0x26d3, 0x36f2, 0x0691, 0x16b0, 0x6657, 0x7676, 0x4615, 0x5634,
     0xd94c, 0xc96d, 0xf90e, 0xe92f, 0x99c8, 0x89e9, 0xb98a, 0xa9ab, 0x5844, 0x4865, 0x7806, 0x6827,
     0x18c0, 0x08e1, 0x3882, 0x28a3, 0xcb7d, 0xdb5c, 0xeb3f, 0xfb1e, 0x8bf9, 0x9bd8, 0xabbb, 0xbb9a,
     0x4a75, 0x5a54, 0x6a37, 0x7a16, 0x0af1, 0x1ad0, 0x2ab3, 0x3a92, 0xfd2e, 0xed0f, 0xdd6c, 0xcd4d,
     0xbdaa, 0xad8b, 0x9de8, 0x8dc9, 0x7c26, 0x6c07, 0x5c64, 0x4c45, 0x3ca2, 0x2c83, 0x1ce0, 0x0cc1,
     0xef1f, 0xff3e, 0xcf5d, 0xdf7c, 0xaf9b, 0xbfba, 0x8fd9, 0x9ff8, 0x6e17, 0x7e36, 0x4e55, 0x5e74,
     0x2e93, 0x3eb2, 0x0ed1, 0x1ef0]"

fun pkt_crc16_loop :: "u8 list \<Rightarrow> nat \<Rightarrow> nat \<Rightarrow> u16 \<Rightarrow> u16 option" where
  "pkt_crc16_loop data i 0 crc = Some crc"
| "pkt_crc16_loop data i (Suc len) crc =
     do { d \<leftarrow> load data i;
          t \<leftarrow> load crc16tab (unat ((drop_bit 8 crc XOR ucast d) AND 0x00FF));
          pkt_crc16_loop data (i + 1) len (push_bit 8 crc XOR t) }"

definition pkt_crc16 :: "u8 list \<Rightarrow> nat \<Rightarrow> u16 option" where
  "pkt_crc16 data len = pkt_crc16_loop data 0 len 0"

definition crc_check :: "u8 list \<Rightarrow> nat \<Rightarrow> u16 \<Rightarrow> bool option" where
  "crc_check data len expected_crc = do { c \<leftarrow> crc16 data len; Some (c = expected_crc) }"

definition crc32_tab :: "u32 list" where
  "crc32_tab =
    [0x00000000, 0x77073096, 0xee0e612c, 0x990951ba, 0x076dc419, 0x706af48f, 0xe963a535, 0x9e6495a3,
     0x0edb8832, 0x79dcb8a4, 0xe0d5e91e, 0x97d2d988, 0x09b64c2b, 0x7eb17cbd, 0xe7b82d07, 0x90bf1d91,
     0x1db71064, 0x6ab020f2, 0xf3b97148, 0x84be41de, 0x1adad47d, 0x6ddde4eb, 0xf4d4b551, 0x83d385c7,
     0x136c9856, 0x646ba8c0, 0xfd62f97a, 0x8a65c9ec, 0x14015c4f, 0x63066cd9, 0xfa0f3d63, 0x8d080df5,
     0x3b6e20c8, 0x4c69105e, 0xd56041e4, 0xa2677172, 0x3c03e4d1, 0x4b04d447, 0xd20d85fd, 0xa50ab56b,
     0x35b5a8fa, 0x42b2986c, 0xdbbbc9d6, 0xacbcf940, 0x32d86ce3, 0x45df5c75, 0xdcd60dcf, 0xabd13d59,
     0x26d930ac, 0x51de003a, 0xc8d75180, 0xbfd06116, 0x21b4f4b5, 0x56b3c423, 0xcfba9599, 0xb8bda50f,
     0x2802b89e, 0x5f058808, 0xc60cd9b2, 0xb10be924, 0x2f6f7c87, 0x58684c11, 0xc1611dab, 0xb6662d3d,
     0x76dc4190, 0x01db7106, 0x98d220bc, 0xefd5102a, 0x71b18589, 0x06b6b51f, 0x9fbfe4a5, 0xe8b8d433,
     0x7807c9a2, 0x0f00f934, 0x9609a88e, 0xe10e9818, 0x7f6a0dbb, 0x086d3d2d, 0x91646c97, 0xe6635c01,
     0x6b6b51f4, 0x1c6c6162, 0x856530d8, 0xf262004e, 0x6c0695ed, 0x1b01a57b, 0x8208f4c1, 0xf50fc457,
     0x65b0d9c6, 0x12b7e950, 0x8bbeb8ea, 0xfcb9887c, 0x62dd1ddf, 0x15da2d49, 0x8cd37cf3, 0xfbd44c65,
     0x4db26158, 0x3ab551ce, 0xa3bc0074, 0xd4bb30e2, 0x4adfa541, 0x3dd895d7, 0xa4d1c46d, 0xd3d6f4fb,
     0x4369e96a, 0x346ed9fc, 0xad678846, 0xda60b8d0, 0x44042d73, 0x33031de5, 0xaa0a4c5f, 0xdd0d7cc9,
     0x5005713c, 0x270241aa, 0xbe0b1010, 0xc90c2086, 0x5768b525, 0x206f85b3, 0xb966d409, 0xce61e49f,
     0x5edef90e, 0x29d9c998, 0xb0d09822, 0xc7d7a8b4, 0x59b33d17, 0x2eb40d81, 0xb7bd5c3b, 0xc0ba6cad,
     0xedb88320, 0x9abfb3b6, 0x03b6e20c, 0x74b1d29a, 0xead54739, 0x9dd277af, 0x04db2615, 0x73dc1683,
     0xe3630b12, 0x94643b84, 0x0d6d6a3e, 0x7a6a5aa8, 0xe40ecf0b, 0x9309ff9d, 0x0a00ae27, 0x7d079eb1,
     0xf00f9344, 0x8708a3d2, 0x1e01f268, 0x6906c2fe, 0xf762575d, 0x806567cb, 0x196c3671, 0x6e6b06e7,
     0xfed41b76, 0x89d32be0, 0x10da7a5a, 0x67dd4acc, 0xf9b9df6f, 0x8ebeeff9, 0x17b7be43, 0x60b08ed5,
     0xd6d6a3e8, 0xa1d1937e, 0x38d8c2c4, 0x4fdff252, 0xd1bb67f1, 0xa6bc5767, 0x3fb506dd, 0x48b2364b,
     0xd80d2bda, 0xaf0a1b4c, 0x36034af6, 0x41047a60, 0xdf60efc3, 0xa867df55, 0x316e8eef, 0x4669be79,
     0xcb61b38c, 0xbc66831a, 0x256fd2a0, 0x5268e236, 0xcc0c7795, 0xbb0b4703, 0x220216b9, 0x5505262f,
     0xc5ba3bbe, 0xb2bd0b28, 0x2bb45a92, 0x5cb36a04, 0xc2d7ffa7, 0xb5d0cf31, 0x2cd99e8b, 0x5bdeae1d,
     0x9b64c2b0, 0xec63f226, 0x756aa39c, 0x026d930a, 0x9c0906a9, 0xeb0e363f, 0x72076785, 0x05005713,
     0x95bf4a82, 0xe2b87a14, 0x7bb12bae, 0x0cb61b38, 0x92d28e9b, 0xe5d5be0d, 0x7cdcefb7, 0x0bdbdf21,
     0x86d3d2d4, 0xf1d4e242, 0x68ddb3f8, 0x1fda836e, 0x81be16cd, 0xf6b9265b, 0x6fb077e1, 0x18b74777,
     0x88085ae6, 0xff0f6a70, 0x66063bca, 0x11010b5c, 0x8f659eff, 0xf862ae69, 0x616bffd3, 0x166ccf45,
     0xa00ae278, 0xd70dd2ee, 0x4e048354, 0x3903b3c2, 0xa7672661, 0xd06016f7, 0x4969474d, 0x3e6e77db,
     0xaed16a4a, 0xd9d65adc, 0x40df0b66, 0x37d83bf0, 0xa9bcae53, 0xdebb9ec5, 0x47b2cf7f, 0x30b5ffe9,
     0xbdbdf21c, 0xcabac28a, 0x53b39330, 0x24b4a3a6, 0xbad03605, 0xcdd70693, 0x54de5729, 0x23d967bf,
     0xb3667a2e, 0xc4614ab8, 0x5d681b02, 0x2a6f2b94, 0xb40bbe37, 0xc30c8ea1, 0x5a05df1b, 0x2d02ef8d]"

fun block_crc32_loop :: "u8 list \<Rightarrow> nat \<Rightarrow> nat \<Rightarrow> u32 \<Rightarrow> u32 option" where
  "block_crc32_loop buffer idx 0 crc32 = Some crc32"
| "block_crc32_loop buffer idx (Suc n) crc32 =
     do { d \<leftarrow> load buffer idx;
          t \<leftarrow> load crc32_tab (unat ((crc32 XOR ucast d) AND 0xFF));
          block_crc32_loop buffer (idx + 1) n (t XOR drop_bit 8 crc32) }"

definition block_crc32 :: "u32 \<Rightarrow> u8 list \<Rightarrow> nat \<Rightarrow> u32 option" where
  "block_crc32 crc32 buffer n =
     do { c \<leftarrow> block_crc32_loop buffer 0 n (crc32 XOR 0xFFFFFFFF); Some (c XOR 0xFFFFFFFF) }"

section \<open>Bit-serial reference\<close>

text \<open>One bit of a least-significant-first CRC, and of a most-significant-first one.\<close>

definition crc_bit_right :: "'a::len word \<Rightarrow> 'a word \<Rightarrow> 'a word" where
  "crc_bit_right poly x = drop_bit 1 x XOR (if bit x 0 then poly else 0)"

definition crc_byte_right :: "'a::len word \<Rightarrow> 'a word \<Rightarrow> u8 \<Rightarrow> 'a word" where
  "crc_byte_right poly crc b = (crc_bit_right poly ^^ 8) (crc XOR ucast b)"

definition crc_bit_left :: "'a::len word \<Rightarrow> 'a word \<Rightarrow> 'a word" where
  "crc_bit_left poly x = push_bit 1 x XOR (if bit x (LENGTH('a) - 1) then poly else 0)"

definition crc_byte_left :: "'a::len word \<Rightarrow> 'a word \<Rightarrow> u8 \<Rightarrow> 'a word" where
  "crc_byte_left poly crc b =
     (crc_bit_left poly ^^ 8) (crc XOR push_bit (LENGTH('a) - 8) (ucast b))"

definition crc16_ref :: "u8 list \<Rightarrow> u16" where
  "crc16_ref bs = fold (\<lambda>b crc. crc_byte_right 0x8408 crc b) bs 0xFFFF XOR 0xFFFF"

definition pkt_crc16_ref :: "u8 list \<Rightarrow> u16" where
  "pkt_crc16_ref bs = fold (\<lambda>b crc. crc_byte_left 0x1021 crc b) bs 0"

definition crc32_ref :: "u32 \<Rightarrow> u8 list \<Rightarrow> u32" where
  "crc32_ref crc bs =
     fold (\<lambda>b crc. crc_byte_right 0xEDB88320 crc b) bs (crc XOR 0xFFFFFFFF) XOR 0xFFFFFFFF"

section \<open>Linearity and invertibility\<close>

lemma crc_bit_right_xor: "crc_bit_right p (x XOR y) = crc_bit_right p x XOR crc_bit_right p y"
  by (simp add: crc_bit_right_def bit_xor_iff ac_simps)

lemma crc_bit_left_xor: "crc_bit_left p (x XOR y) = crc_bit_left p x XOR crc_bit_left p y"
  by (simp add: crc_bit_left_def bit_xor_iff ac_simps push_bit_xor)

lemma funpow_xor:
  fixes f :: "'a::len word \<Rightarrow> 'a word"
  assumes "\<And>x y. f (x XOR y) = f x XOR f y"
  shows "(f ^^ n) (x XOR y) = (f ^^ n) x XOR (f ^^ n) y"
  by (induction n) (simp_all add: assms)

lemma xor_linear_0:
  fixes f :: "'a::len word \<Rightarrow> 'a word"
  assumes "\<And>x y. f (x XOR y) = f x XOR f y"
  shows "f 0 = 0"
  using assms [of 0 0] by simp

text \<open>A table of a linear function, built from the values at the powers of two.\<close>

fun xor_table :: "'a::len word list \<Rightarrow> 'a word list \<Rightarrow> 'a word list" where
  "xor_table [] t = t"
| "xor_table (b # bs) t = xor_table bs (t @ map (\<lambda>x. b XOR x) t)"

lemma word_of_nat_add_xor:
  assumes "r < 2 ^ n"
  shows "(word_of_nat (2 ^ n + r) :: 'a::len word) = word_of_nat (2 ^ n) XOR word_of_nat r"
proof -
  have "\<not> bit r n" using assms by (metis bit_take_bit_iff less_irrefl take_bit_nat_eq_self_iff)
  then have "(word_of_nat (2 ^ n) :: 'a word) AND word_of_nat r = 0"
    by (intro bit_word_eqI) (auto simp: bit_simps)
  then show ?thesis by (simp add: disjunctive_add_eq_xor)
qed

lemma xor_table_linear:
  fixes F :: "'a::len word \<Rightarrow> 'a word"
  assumes lin: "\<And>x y. F (x XOR y) = F x XOR F y"
    and basis: "\<And>k. k < length bs \<Longrightarrow> bs ! k = F (word_of_nat (2 ^ (m + k)))"
    and t: "length t = 2 ^ m" "\<And>i. i < 2 ^ m \<Longrightarrow> t ! i = F (word_of_nat i)"
  shows "length (xor_table bs t) = 2 ^ (m + length bs) \<and>
    (\<forall>i < 2 ^ (m + length bs). xor_table bs t ! i = F (word_of_nat i))"
  using basis t
proof (induction bs arbitrary: m t)
  case Nil
  then show ?case by simp
next
  case (Cons b bs)
  let ?t = "t @ map (\<lambda>x. b XOR x) t"
  have "?t ! i = F (word_of_nat i)" if "i < 2 ^ Suc m" for i
  proof (cases "i < 2 ^ m")
    case True
    then show ?thesis using Cons.prems(2,3) by (simp add: nth_append)
  next
    case False
    define r where "r = i - 2 ^ m"
    have r: "i = 2 ^ m + r" "r < 2 ^ m" using False that by (auto simp: r_def)
    have "b = F (word_of_nat (2 ^ m))" using Cons.prems(1) [of 0] by simp
    then show ?thesis
      using r Cons.prems(2,3) by (simp add: nth_append word_of_nat_add_xor lin del: of_nat_add)
  qed
  moreover have "bs ! k = F (word_of_nat (2 ^ (Suc m + k)))" if "k < length bs" for k
    using Cons.prems(1) [of "Suc k"] that by simp
  ultimately show ?case
    using Cons.IH [of "Suc m" ?t] Cons.prems(2) by simp
qed

lemma crc_bit_right_even: "\<not> bit (drop_bit n x) 0 \<Longrightarrow> crc_bit_right p (drop_bit n x) = drop_bit (Suc n) x"
  by (simp add: crc_bit_right_def)

lemma crc_bit_left_even:
  fixes x :: "'a::len word"
  shows "\<not> bit (push_bit n x) (LENGTH('a) - 1) \<Longrightarrow> crc_bit_left p (push_bit n x) = push_bit (Suc n) x"
  by (simp add: crc_bit_left_def)

lemma crc_bits_right_high:
  assumes "\<And>k. k < n \<Longrightarrow> \<not> bit x k"
  shows "(crc_bit_right p ^^ n) x = drop_bit n x"
  using assms
proof (induction n)
  case 0
  then show ?case by simp
next
  case (Suc n)
  then have "(crc_bit_right p ^^ n) x = drop_bit n x" "\<not> bit x n" by auto
  then have "(crc_bit_right p ^^ Suc n) x = crc_bit_right p (drop_bit n x)" "\<not> bit (drop_bit n x) 0"
    by (simp_all add: bit_drop_bit_eq)
  then show ?case using crc_bit_right_even by fastforce
qed

lemma crc_bits_left_low:
  fixes x :: "'a::len word"
  assumes "\<And>k. LENGTH('a) - n \<le> k \<Longrightarrow> \<not> bit x k" and "n \<le> LENGTH('a)"
  shows "(crc_bit_left p ^^ n) x = push_bit n x"
  using assms
proof (induction n)
  case 0
  then show ?case by simp
next
  case (Suc n)
  have "\<not> bit x k" if "LENGTH('a) - n \<le> k" for k
    using Suc.prems(1) [of k] that by linarith
  then have "(crc_bit_left p ^^ n) x = push_bit n x" using Suc by simp
  moreover have "\<not> bit (push_bit n x) (LENGTH('a) - 1)"
    using Suc.prems(1) [of "LENGTH('a) - 1 - n"] Suc.prems(2) by (simp add: bit_push_bit_iff)
  ultimately have "(crc_bit_left p ^^ Suc n) x = crc_bit_left p (push_bit n x)"
    "\<not> bit (push_bit n x) (LENGTH('a) - 1)"
    by simp_all
  then show ?case using crc_bit_left_even by fastforce
qed

lemmas bit_word_iffs = bit_and_iff bit_xor_iff bit_not_iff bit_drop_bit_eq bit_push_bit_iff
  bit_take_bit_iff bit_unsigned_iff

section \<open>Table-driven loops\<close>

locale crc_right =
  fixes poly :: "'a::len word" and tbl :: "'a word list"
  assumes wide: "8 \<le> LENGTH('a)"
    and tbl_length: "length tbl = 256"
    and tbl_nth: "\<And>i. i < 256 \<Longrightarrow> tbl ! i = (crc_bit_right poly ^^ 8) (word_of_nat i)"
    and poly_top: "bit poly (LENGTH('a) - 1)"
begin

lemma table_step:
  "load tbl (unat ((crc XOR ucast d) AND 0xFF)) =
     Some ((crc_bit_right poly ^^ 8) ((crc XOR ucast (d :: u8)) AND 0xFF))"
  using unat_and_0xFF [of "crc XOR ucast d"] by (simp add: load_def tbl_length tbl_nth)

lemma byte_step:
  "(crc_bit_right poly ^^ 8) ((crc XOR ucast (d :: u8)) AND 0xFF) XOR drop_bit 8 crc =
     crc_byte_right poly crc d"
proof -
  define m :: "'a word" where "m = 0xFF"
  let ?x = "crc XOR ucast d :: 'a word"
  have x: "?x = (?x AND m) XOR (?x AND NOT m)"
    by (rule bit_word_eqI) (auto simp: bit_simps)
  have ff: "bit m k \<longleftrightarrow> k < 8" for k
    using bit_0xFF [OF wide] by (simp add: m_def)
  have "(crc_bit_right poly ^^ 8) (?x AND NOT m) = drop_bit 8 (?x AND NOT m)"
    by (rule crc_bits_right_high) (simp add: bit_and_iff bit_not_iff ff)
  also have "\<dots> = drop_bit 8 crc"
    by (rule bit_word_eqI) (auto simp: bit_word_iffs ff dest: bit_imp_le_length)
  finally show ?thesis
    unfolding crc_byte_right_def m_def [symmetric]
    by (subst (2) x) (simp only: funpow_xor [OF crc_bit_right_xor])
qed

end

context crc_right
begin

lemma inj_bit: "inj (crc_bit_right poly)"
proof (rule injI)
  fix x y assume eq: "crc_bit_right poly x = crc_bit_right poly y"
  have top: "bit (crc_bit_right poly z) (LENGTH('a) - 1) = bit z 0" for z
    using poly_top by (auto simp: crc_bit_right_def bit_xor_iff bit_drop_bit_eq dest: bit_imp_le_length)
  have b0: "bit x 0 = bit y 0" using top [of x] top [of y] eq by simp
  then have "drop_bit 1 x = drop_bit 1 y"
    using eq by (auto simp: crc_bit_right_def xor_cancel_word)
  then have "bit x (Suc n) = bit y (Suc n)" for n
    by (metis bit_drop_bit_eq comp_apply plus_1_eq_Suc)
  with b0 show "x = y" by (metis bit_word_eqI not0_implies_Suc)
qed

lemma inj_byte: "inj (crc_bit_right poly ^^ n)"
  by (rule inj_fn [OF inj_bit])

lemma inj_fold:
  "fold (\<lambda>b crc. crc_byte_right poly crc b) zs c = fold (\<lambda>b crc. crc_byte_right poly crc b) zs d \<Longrightarrow> c = d"
proof (induction zs arbitrary: c d)
  case Nil
  then show ?case by simp
next
  case (Cons z zs)
  then have "crc_byte_right poly c z = crc_byte_right poly d z" by simp
  then have "c XOR ucast z = d XOR ucast z"
    by (simp add: crc_byte_right_def inj_eq [OF inj_byte])
  then show ?case by (simp add: xor_cancel_word)
qed

end

locale crc_left =
  fixes poly :: "'a::len word" and tbl :: "'a word list"
  assumes wide: "8 \<le> LENGTH('a)"
    and tbl_length: "length tbl = 256"
    and tbl_nth: "\<And>i. i < 256 \<Longrightarrow>
      tbl ! i = (crc_bit_left poly ^^ 8) (push_bit (LENGTH('a) - 8) (word_of_nat i))"
begin

lemma table_step:
  "load tbl (unat ((drop_bit (LENGTH('a) - 8) crc XOR ucast d) AND 0x00FF)) =
     Some ((crc_bit_left poly ^^ 8)
       (push_bit (LENGTH('a) - 8) ((drop_bit (LENGTH('a) - 8) crc XOR ucast (d :: u8)) AND 0x00FF)))"
  using unat_and_0xFF [of "drop_bit (LENGTH('a) - 8) crc XOR ucast d"]
  by (simp add: load_def tbl_length tbl_nth)

lemma byte_step:
  "push_bit 8 crc XOR (crc_bit_left poly ^^ 8)
       (push_bit (LENGTH('a) - 8) ((drop_bit (LENGTH('a) - 8) crc XOR ucast (d :: u8)) AND 0x00FF)) =
     crc_byte_left poly crc d"
proof -
  define m :: "'a word" where "m = 0x00FF"
  have ff: "bit m k \<longleftrightarrow> k < 8" for k
    using bit_0xFF [OF wide] by (simp add: m_def)
  let ?k = "LENGTH('a) - 8"
  let ?hi = "push_bit ?k ((drop_bit ?k crc XOR ucast d) AND m) :: 'a word"
  let ?lo = "take_bit ?k crc"
  have x: "crc XOR push_bit ?k (ucast d) = ?hi XOR ?lo"
    using wide by (intro bit_word_eqI) (auto simp: bit_word_iffs ff not_less dest: bit_imp_le_length)
  have "(crc_bit_left poly ^^ 8) ?lo = push_bit 8 ?lo"
    using wide by (intro crc_bits_left_low) (auto simp: bit_simps)
  also have "\<dots> = push_bit 8 crc"
    using wide by (intro bit_word_eqI) (auto simp: bit_simps)
  finally show ?thesis
    unfolding crc_byte_left_def x m_def [symmetric]
    by (simp only: funpow_xor [OF crc_bit_left_xor] xor.commute)
qed

end

section \<open>The three tables\<close>

lemma crc_table_xor_table:
  "crc_table = xor_table [0x1189, 0x2312, 0x4624, 0x8c48, 0x1081, 0x2102, 0x4204, 0x8408] [0]"
  by (simp add: crc_table_def)

lemma crc16tab_xor_table:
  "crc16tab = xor_table [0x1021, 0x2042, 0x4084, 0x8108, 0x1231, 0x2462, 0x48c4, 0x9188] [0]"
  by (simp add: crc16tab_def)

lemma crc32_tab_xor_table:
  "crc32_tab = xor_table [0x77073096, 0xee0e612c, 0x076dc419, 0x0edb8832,
     0x1db71064, 0x3b6e20c8, 0x76dc4190, 0xedb88320] [0]"
  by (simp add: crc32_tab_def)

lemma crc_table_basis:
  "[0x1189, 0x2312, 0x4624, 0x8c48, 0x1081, 0x2102, 0x4204, 0x8408] =
     map (\<lambda>k. (crc_bit_right (0x8408 :: u16) ^^ 8) (2 ^ k)) [0..<8]"
  by code_simp

lemma crc16tab_basis:
  "[0x1021, 0x2042, 0x4084, 0x8108, 0x1231, 0x2462, 0x48c4, 0x9188] =
     map (\<lambda>k. (crc_bit_left (0x1021 :: u16) ^^ 8) (push_bit 8 (2 ^ k))) [0..<8]"
  by code_simp

lemma crc32_tab_basis:
  "[0x77073096, 0xee0e612c, 0x076dc419, 0x0edb8832, 0x1db71064, 0x3b6e20c8, 0x76dc4190, 0xedb88320] =
     map (\<lambda>k. (crc_bit_right (0xEDB88320 :: u32) ^^ 8) (2 ^ k)) [0..<8]"
  by code_simp

lemma linear_table:
  fixes F :: "'a::len word \<Rightarrow> 'a word"
  assumes "\<And>x y. F (x XOR y) = F x XOR F y"
  shows "length (xor_table (map (\<lambda>k. F (2 ^ k)) [0..<8]) [0]) = 256"
    and "i < 256 \<Longrightarrow> xor_table (map (\<lambda>k. F (2 ^ k)) [0..<8]) [0] ! i = F (word_of_nat i)"
proof -
  have "length (xor_table (map (\<lambda>k. F (2 ^ k)) [0..<8]) [0]) = 2 ^ (0 + 8) \<and>
      (\<forall>i < 2 ^ (0 + 8). xor_table (map (\<lambda>k. F (2 ^ k)) [0..<8]) [0] ! i = F (word_of_nat i))"
    using xor_table_linear [where F = F and m = 0 and t = "[0]" and
        bs = "map (\<lambda>k. F (2 ^ k)) [0..<8]"] assms xor_linear_0 [OF assms]
    by simp
  then show "length (xor_table (map (\<lambda>k. F (2 ^ k)) [0..<8]) [0]) = 256"
    "i < 256 \<Longrightarrow> xor_table (map (\<lambda>k. F (2 ^ k)) [0..<8]) [0] ! i = F (word_of_nat i)"
    by simp_all
qed

interpretation sdlc: crc_right "0x8408 :: u16" crc_table
  unfolding crc_table_xor_table crc_table_basis
  by unfold_locales
     (simp_all add: linear_table [where F = "crc_bit_right 0x8408 ^^ 8"] funpow_xor crc_bit_right_xor)

interpretation xmodem: crc_left "0x1021 :: u16" crc16tab
  unfolding crc16tab_xor_table crc16tab_basis
  by unfold_locales
     (simp_all add: linear_table [where F = "\<lambda>x. (crc_bit_left 0x1021 ^^ 8) (push_bit 8 x)"]
       funpow_xor crc_bit_left_xor push_bit_xor)

interpretation ieee: crc_right "0xEDB88320 :: u32" crc32_tab
  unfolding crc32_tab_xor_table crc32_tab_basis
  by unfold_locales
     (simp_all add: linear_table [where F = "crc_bit_right 0xEDB88320 ^^ 8"] funpow_xor crc_bit_right_xor)

section \<open>The loops compute the reference\<close>

lemma take_Suc_drop: "i < length xs \<Longrightarrow> take (Suc n) (drop i xs) = xs ! i # take n (drop (Suc i) xs)"
  by (metis Cons_nth_drop_Suc take_Suc_Cons)

lemma crc16_loop_ref:
  "i + n \<le> length data \<Longrightarrow>
   crc16_loop data i n crc = Some (fold (\<lambda>b crc. crc_byte_right 0x8408 crc b) (take n (drop i data)) crc)"
proof (induction n arbitrary: i crc)
  case (Suc n)
  then show ?case
    using sdlc.byte_step [of crc "data ! i"]
    by (simp add: load_in sdlc.table_step take_Suc_drop)
qed simp

lemma block_crc32_loop_ref:
  "i + n \<le> length data \<Longrightarrow>
   block_crc32_loop data i n crc = Some (fold (\<lambda>b crc. crc_byte_right 0xEDB88320 crc b) (take n (drop i data)) crc)"
proof (induction n arbitrary: i crc)
  case (Suc n)
  then show ?case
    using ieee.byte_step [of crc "data ! i"]
    by (simp add: load_in ieee.table_step take_Suc_drop)
qed simp

lemma pkt_crc16_loop_ref:
  "i + n \<le> length data \<Longrightarrow>
   pkt_crc16_loop data i n crc = Some (fold (\<lambda>b crc. crc_byte_left 0x1021 crc b) (take n (drop i data)) crc)"
proof (induction n arbitrary: i crc)
  case (Suc n)
  then show ?case
    using xmodem.byte_step [of crc "data ! i"] xmodem.table_step [of crc "data ! i"]
    by (simp add: load_in take_Suc_drop)
qed simp

lemma crc16_eq_ref: "len \<le> length data \<Longrightarrow> crc16 data len = Some (crc16_ref (take len data))"
  using crc16_loop_ref [of 0 len data] by (simp add: crc16_def crc16_ref_def)

text \<open>Two bytes at once: the 16 bit register has shifted out completely.\<close>

lemma crc_two_bytes:
  fixes c :: u16
  shows "crc_byte_right p (crc_byte_right p c a) b =
    (crc_bit_right p ^^ 16) (c XOR (ucast a OR push_bit 8 (ucast b)))"
proof -
  have "(crc_bit_right p ^^ 8) (push_bit 8 (ucast b :: u16)) = drop_bit 8 (push_bit 8 (ucast b))"
    by (rule crc_bits_right_high) (simp add: bit_push_bit_iff)
  also have "\<dots> = ucast b"
    by (rule bit_word_eqI) (auto simp: bit_word_iffs dest: bit_imp_le_length)
  finally have "crc_byte_right p (crc_byte_right p c a) b =
      (crc_bit_right p ^^ 8) ((crc_bit_right p ^^ 8) (c XOR ucast a XOR push_bit 8 (ucast b)))"
    by (simp add: crc_byte_right_def funpow_xor [OF crc_bit_right_xor] xor.assoc)
  also have "\<dots> = (crc_bit_right p ^^ (8 + 8)) (c XOR ucast a XOR push_bit 8 (ucast b))"
    by (simp only: funpow_add comp_apply)
  also have "c XOR ucast a XOR push_bit 8 (ucast b) = c XOR (ucast a OR push_bit 8 (ucast b))"
    by (rule bit_word_eqI) (auto simp: bit_word_iffs bit_or_iff dest: bit_imp_le_length)
  finally show ?thesis by simp
qed

lemma two_bytes_inj:
  "(ucast a OR push_bit 8 (ucast b) :: u16) = ucast a' OR push_bit 8 (ucast b') \<Longrightarrow> a = (a' :: u8) \<and> b = (b' :: u8)"
proof -
  assume eq: "(ucast a OR push_bit 8 (ucast b) :: u16) = ucast a' OR push_bit 8 (ucast b')"
  have "unat (le_word [a, b] :: u16) = unat (le_word [a', b'] :: u16)"
    using eq by simp
  then have "le_val [a, b] = le_val [a', b']" by (simp add: unat_le_word del: le_word.simps le_val.simps)
  then have "[a, b] = [a', b']" by (simp add: le_val_eq_iff del: le_val.simps)
  then show ?thesis by simp
qed

section \<open>Properties\<close>

text \<open>
  C39. The three table-driven CRCs compute, on any data inside its buffer, the bit-serial CRC of
  their polynomial: every one of the 768 table entries is the right one and no index leaves its
  table.
\<close>

theorem crc_tables_correct:
  assumes "len \<le> length data"
  shows "crc16 data len = Some (crc16_ref (take len data)) \<and>
    pkt_crc16 data len = Some (pkt_crc16_ref (take len data)) \<and>
    block_crc32 crc data len = Some (crc32_ref crc (take len data))"
  using assms crc16_eq_ref [of len data] pkt_crc16_loop_ref [of 0 len data]
    block_crc32_loop_ref [of 0 len data]
  by (simp add: pkt_crc16_def pkt_crc16_ref_def block_crc32_def crc32_ref_def)

theorem crc_tables_correct_witness:
  "crc16 [0x31, 0x32, 0x33] 3 = Some (crc16_ref [0x31, 0x32, 0x33]) \<and>
   pkt_crc16 [0x31, 0x32, 0x33] 3 = Some (pkt_crc16_ref [0x31, 0x32, 0x33]) \<and>
   block_crc32 0 [0x31, 0x32, 0x33] 3 = Some (crc32_ref 0 [0x31, 0x32, 0x33])"
  using crc_tables_correct [of 3 "[0x31, 0x32, 0x33]" 0] by simp

text \<open>
  The link CRC detects every error burst confined to two adjacent bytes: two frames that
  agree outside a window of two bytes and differ in it have different CRCs, so \<open>crc_check\<close>
  rejects the corrupted one against the CRC of the other.
\<close>

theorem crc16_detects_burst:
  assumes "(a, b) \<noteq> (a', b')" and "n = length (xs @ [a, b] @ zs)"
  shows "\<exists>c. crc16 (xs @ [a, b] @ zs) n = Some c \<and>
     crc_check (xs @ [a, b] @ zs) n c = Some True \<and> crc_check (xs @ [a', b'] @ zs) n c = Some False"
proof -
  let ?f = "fold (\<lambda>b crc. crc_byte_right (0x8408 :: u16) crc b)"
  have "crc16_ref (xs @ [a, b] @ zs) \<noteq> crc16_ref (xs @ [a', b'] @ zs)"
  proof
    assume "crc16_ref (xs @ [a, b] @ zs) = crc16_ref (xs @ [a', b'] @ zs)"
    then have "?f zs (?f [a, b] (?f xs 0xFFFF)) = ?f zs (?f [a', b'] (?f xs 0xFFFF))"
      unfolding crc16_ref_def by (simp only: fold_append comp_apply xor_cancel_word)
    then have "?f [a, b] (?f xs 0xFFFF) = ?f [a', b'] (?f xs 0xFFFF)"
      by (rule sdlc.inj_fold)
    then have "?f xs 0xFFFF XOR (ucast a OR push_bit 8 (ucast b)) =
        ?f xs 0xFFFF XOR (ucast a' OR push_bit 8 (ucast b'))"
      by (simp add: crc_two_bytes inj_eq [OF sdlc.inj_byte])
    then have "(ucast a OR push_bit 8 (ucast b) :: u16) = ucast a' OR push_bit 8 (ucast b')"
      by (simp only: xor_cancel_word)
    with assms(1) show False by (auto dest: two_bytes_inj)
  qed
  then show ?thesis
    using assms(2) by (simp add: crc_check_def crc16_eq_ref)
qed

theorem crc16_detects_burst_witness:
  "\<exists>c. crc16 [1, 2, 0, 4] 4 = Some c \<and>
     crc_check [1, 2, 0, 4] 4 c = Some True \<and> crc_check [1, 2, 1, 4] 4 c = Some False"
  using crc16_detects_burst [of 2 0 2 1 4 "[1]" "[4]"] by simp

text \<open>
  The residue the comment above \<open>crc16\<close> gives: the register is \<open>0xf0b8\<close> after any message
  followed by its own CRC in little-endian order.
\<close>

lemma crc16_residue:
  "fold (\<lambda>b crc. crc_byte_right 0x8408 crc b) (bs @ le_bytes 2 (unat (crc16_ref bs))) (0xFFFF :: u16) = 0xF0B8"
proof -
  define s where "s = fold (\<lambda>b crc. crc_byte_right 0x8408 crc b) bs (0xFFFF :: u16)"
  let ?c = "s XOR 0xFFFF"
  have m1: "(0xFFFF :: u16) = - 1" by simp
  have a: "(s XOR (ucast (ucast ?c :: u8) OR push_bit 8 (ucast (ucast (drop_bit 8 ?c) :: u8)))) = 0xFFFF"
    unfolding m1 by (rule bit_word_eqI) (auto simp: bit_word_iffs bit_or_iff bit_minus_1_iff)
  have b: "(crc_bit_right (0x8408 :: u16) ^^ (8 + 8)) 0xFFFF = 0xF0B8"
  proof -
    have "(crc_bit_right (0x8408 :: u16) ^^ 8) 0xFFFF = 0xf87" by code_simp
    moreover have "(crc_bit_right (0x8408 :: u16) ^^ 8) 0xf87 = 0xF0B8" by code_simp
    ultimately show ?thesis by (simp only: funpow_add comp_apply)
  qed
  have c: "le_bytes 2 (unat (crc16_ref bs)) = [ucast ?c, ucast (drop_bit 8 ?c)]"
    by (simp add: crc16_ref_def s_def le_bytes_unat upt_rec)
  have d: "fold (\<lambda>b crc. crc_byte_right 0x8408 crc b) (bs @ [x, y]) (0xFFFF :: u16) =
      (crc_bit_right 0x8408 ^^ (8 + 8)) (s XOR (ucast x OR push_bit 8 (ucast y)))" for x y
    using crc_two_bytes [of "0x8408" s x y] by (simp add: s_def)
  show ?thesis by (simp only: c d a b)
qed

end
