(* ===== verification/SerialNumber.thy ===== *)
theory SerialNumber
  imports Prelude
begin

text \<open>
  \<open>src/common/serial_number_arithmetic.h\<close>: comparison of serial numbers (RFC 1982), used for
  DAO, DTSN, path and MPL sequence numbers. The 8 and 16 bit operands are promoted to \<open>int\<close>
  in C, the 32 bit ones are subtracted as \<open>uint32_t\<close>. The locale \<open>serial_order\<close> states the
  order as the sign of the modular difference and derives its laws.
\<close>

definition serial_number_cmp8 :: "u8 \<Rightarrow> u8 \<Rightarrow> bool" where
  "serial_number_cmp8 s1 s2 \<longleftrightarrow>
     (s1 > s2 \<and> uint s1 - uint s2 < 0x80) \<or> (s1 < s2 \<and> uint s2 - uint s1 > 0x80)"

definition serial_number_cmp16 :: "u16 \<Rightarrow> u16 \<Rightarrow> bool" where
  "serial_number_cmp16 s1 s2 \<longleftrightarrow>
     (s1 > s2 \<and> uint s1 - uint s2 < 0x8000) \<or> (s1 < s2 \<and> uint s2 - uint s1 > 0x8000)"

definition serial_number_cmp32 :: "u32 \<Rightarrow> u32 \<Rightarrow> bool" where
  "serial_number_cmp32 s1 s2 \<longleftrightarrow>
     (s1 > s2 \<and> s1 - s2 < 0x80000000) \<or> (s1 < s2 \<and> s2 - s1 > 0x80000000)"

section \<open>The order\<close>

locale serial_order =
  fixes gt :: "'a::len word \<Rightarrow> 'a word \<Rightarrow> bool"
  assumes wide: "2 \<le> LENGTH('a)"
    and gt_iff: "gt a b \<longleftrightarrow> 0 < uint (a - b) \<and> uint (a - b) < 2 ^ (LENGTH('a) - 1)"
begin

lemma half: "(2 :: int) ^ LENGTH('a) = 2 * 2 ^ (LENGTH('a) - 1)"
  using wide by (metis Suc_diff_1 len_gt_0 power_Suc)

lemma irrefl: "\<not> gt a a"
  by (simp add: gt_iff)

lemma uint_flip: "a \<noteq> b \<Longrightarrow> uint (b - a) = 2 ^ LENGTH('a) - uint (a - b)" for a b :: "'a word"
proof -
  assume "a \<noteq> b"
  then have "uint (a - b) \<noteq> 0" by (metis right_minus_eq uint_0_iff)
  then have "(uint a - uint b) mod 2 ^ LENGTH('a) \<noteq> 0"
    by (simp add: uint_word_ariths)
  then have "(- (uint a - uint b)) mod 2 ^ LENGTH('a) =
      2 ^ LENGTH('a) - (uint a - uint b) mod 2 ^ LENGTH('a)"
    by (simp only: zmod_zminus1_eq_if if_False)
  then show ?thesis by (simp add: uint_word_ariths)
qed

lemma asym: "gt a b \<Longrightarrow> \<not> gt b a"
proof
  assume "gt a b" "gt b a"
  then have ab: "a \<noteq> b" using irrefl by auto
  then show False
    using \<open>gt a b\<close> \<open>gt b a\<close> half by (simp add: gt_iff uint_flip [OF ab])
qed

text \<open>Two different numbers are ordered one way or the other unless they are half the ring apart.\<close>

lemma total: "a \<noteq> b \<Longrightarrow> gt a b \<or> gt b a \<or> uint (a - b) = 2 ^ (LENGTH('a) - 1)"
proof -
  assume ab: "a \<noteq> b"
  then have "uint (a - b) \<noteq> 0" by (metis right_minus_eq uint_0_iff)
  then have "0 < uint (a - b)" "uint (a - b) < 2 ^ LENGTH('a)"
    using uint_ge_0 [of "a - b"] uint_lt2p [of "a - b"] by linarith+
  then show ?thesis using uint_flip [OF ab] half by (auto simp: gt_iff)
qed

text \<open>Advancing a number by less than half the ring makes it greater.\<close>

lemma advance_less: "0 < uint d \<Longrightarrow> uint d < 2 ^ (LENGTH('a) - 1) \<Longrightarrow> gt (a + d) a"
  by (simp add: gt_iff)

end

lemma uint_minus_cases:
  "uint (a - b) = (if b \<le> a then uint a - uint b else uint a - uint b + 2 ^ LENGTH('a))"
  for a b :: "'a::len word"
  by (simp add: uint_sub_if' word_le_def)

interpretation sn8: serial_order serial_number_cmp8
proof (unfold_locales, goal_cases)
  case (2 a b)
  show ?case
    using uint_bounded [of a] uint_bounded [of b]
    by (auto simp: serial_number_cmp8_def uint_minus_cases word_le_def word_less_def)
      (use uint_ge_0 [of a] in linarith)
qed simp

interpretation sn16: serial_order serial_number_cmp16
proof (unfold_locales, goal_cases)
  case (2 a b)
  show ?case
    using uint_bounded [of a] uint_bounded [of b]
    by (auto simp: serial_number_cmp16_def uint_minus_cases word_le_def word_less_def)
      (use uint_ge_0 [of a] in linarith)
qed simp

interpretation sn32: serial_order serial_number_cmp32
proof (unfold_locales, goal_cases)
  case (2 a b)
  show ?case
    using uint_bounded [of a] uint_bounded [of b]
    by (auto simp: serial_number_cmp32_def uint_minus_cases word_le_def word_less_def)
      (use uint_ge_0 [of a] in linarith)
qed simp

section \<open>Properties\<close>

text \<open>
  The three comparisons are the order of RFC 1982 section 3.2: \<open>s1\<close> is greater than \<open>s2\<close>
  exactly when their difference modulo the ring is positive and below half of it.
\<close>

theorem serial_number_rfc1982:
  "(serial_number_cmp8 a8 b8 \<longleftrightarrow> 0 < uint (a8 - b8) \<and> uint (a8 - b8) < 2 ^ 7) \<and>
   (serial_number_cmp16 a16 b16 \<longleftrightarrow> 0 < uint (a16 - b16) \<and> uint (a16 - b16) < 2 ^ 15) \<and>
   (serial_number_cmp32 a32 b32 \<longleftrightarrow> 0 < uint (a32 - b32) \<and> uint (a32 - b32) < 2 ^ 31)"
  using sn8.gt_iff [of a8 b8] sn16.gt_iff [of a16 b16] sn32.gt_iff [of a32 b32] by simp

end
