(* ===== verification/Rand.thy ===== *)
theory Rand
  imports Prelude
begin

text \<open>
  \<open>src/common/rand.c\<close>: uniform numbers from a range by rejection, and scaling by a random
  factor. \<open>rand_get_32bit\<close> reads the kernel's generator: the numbers it will return are a list
  argument, consumed from the front, and a call that has used all of them without accepting
  one is \<open>None\<close>; \<open>rand_get_random_in_range\<close> is also \<open>None\<close> where C divides by zero.
\<close>

fun reroll :: "u32 \<Rightarrow> u32 list \<Rightarrow> (u32 \<times> u32 list) option" where
  "reroll top_of_bands [] = None"
| "reroll top_of_bands (r # rs) = (if top_of_bands \<le> r then reroll top_of_bands rs else Some (r, rs))"

definition rand_get_random_in_range :: "u16 \<Rightarrow> u16 \<Rightarrow> u32 list \<Rightarrow> (u16 \<times> u32 list) option" where
  "rand_get_random_in_range mn mx rolls =
     (let values_needed = (ucast mx :: u32) + 1 - ucast mn in
      if values_needed = 0 then None
      else let band_size = 0xFFFFFFFF div values_needed;
               top_of_bands = band_size * values_needed in
        if mn = mx then Some (mn, rolls)
        else do { (result, rolls) \<leftarrow> reroll top_of_bands rolls;
                  Some (mn + ucast (result div band_size), rolls) })"

definition rand_randomise_base :: "u32 \<Rightarrow> u16 \<Rightarrow> u16 \<Rightarrow> u32 list \<Rightarrow> (u32 \<times> u32 list) option" where
  "rand_randomise_base base min_factor max_factor rolls =
     do { (random_factor, rolls) \<leftarrow> rand_get_random_in_range min_factor max_factor rolls;
          let hi = drop_bit 16 base * ucast random_factor;
          let lo = (base AND 0xFFFF) * ucast random_factor;
          let res = hi + drop_bit 16 lo;
          let res = (if res AND 0x80000000 \<noteq> 0 then 0xFFFFFFFF
                     else push_bit 1 res OR (drop_bit 15 lo AND 1));
          Some (res, rolls) }"

section \<open>Ranges\<close>

lemma values_needed:
  assumes "mn \<le> mx"
  shows "unat ((ucast mx :: u32) + 1 - ucast (mn :: u16)) = unat mx + 1 - unat mn"
proof -
  have "unat mn \<le> unat mx" "unat mx < 65536"
    using assms unat_u16_lt [of mx] by (auto simp: word_le_nat_alt)
  moreover have "unat ((ucast mx :: u32) + 1) = unat mx + 1"
    using unat_u16_lt [of mx] by (simp add: unat_word_ariths unat_ucast_up)
  ultimately show ?thesis
    by (subst unat_sub) (auto simp: word_le_nat_alt unat_ucast_up)
qed

text \<open>The size of a band, as a number.\<close>

definition band :: "u16 \<Rightarrow> u16 \<Rightarrow> nat" where
  "band mn mx = 4294967295 div (unat mx + 1 - unat mn)"

lemma band_bounds:
  assumes "mn \<le> mx"
  shows "0 < band mn mx" and "band mn mx * (unat mx + 1 - unat mn) \<le> 4294967295"
    and "4294901760 \<le> band mn mx * (unat mx + 1 - unat mn)"
proof -
  let ?n = "unat mx + 1 - unat mn"
  have n: "0 < ?n" "?n \<le> 65536"
    using assms unat_u16_lt [of mx] by (auto simp: word_le_nat_alt)
  have "4294967295 mod ?n < ?n" using n(1) by simp
  moreover have eq: "band mn mx * ?n + 4294967295 mod ?n = 4294967295"
    by (simp only: band_def div_mult_mod_eq)
  ultimately show "4294901760 \<le> band mn mx * ?n" using n(2) by linarith
  show "band mn mx * ?n \<le> 4294967295" using eq by linarith
  show "0 < band mn mx" using n by (simp add: band_def div_greater_zero_iff)
qed

lemma range_word_values:
  fixes mn mx :: u16
  assumes "mn \<le> mx"
  defines "vn \<equiv> (ucast mx :: u32) + 1 - ucast mn"
  shows "vn \<noteq> 0" and "unat (0xFFFFFFFF div vn) = band mn mx"
    and "unat (0xFFFFFFFF div vn * vn) = band mn mx * (unat mx + 1 - unat mn)"
proof -
  have vn: "unat vn = unat mx + 1 - unat mn" using values_needed [OF assms(1)] by (simp add: vn_def)
  then show "vn \<noteq> 0" using assms(1) by (auto simp: word_le_nat_alt)
  show b: "unat (0xFFFFFFFF div vn) = band mn mx"
    by (simp add: unat_div_distrib vn band_def)
  show "unat (0xFFFFFFFF div vn * vn) = band mn mx * (unat mx + 1 - unat mn)"
  proof -
    have "unat (x * vn) = unat x * unat vn mod 4294967296" for x
      by (simp add: unat_word_ariths)
    then show ?thesis
      using band_bounds(2) [OF assms(1)] by (simp only: b vn) simp
  qed
qed

lemma reroll_finds: "r \<in> set rolls \<Longrightarrow> r < tp \<Longrightarrow> \<exists>r' rs. reroll tp rolls = Some (r', rs) \<and> r' < tp"
  by (induction rolls) auto

lemma result_value:
  assumes "mn \<le> mx" and "unat r < band mn mx * (unat mx + 1 - unat mn)" and "unat bs = band mn mx"
  shows "unat (mn + ucast (r div bs :: u32)) = unat mn + unat r div band mn mx"
    and "unat r div band mn mx < unat mx + 1 - unat mn"
proof -
  show q: "unat r div band mn mx < unat mx + 1 - unat mn"
    using assms(2) band_bounds(1) [OF assms(1)] by (simp add: less_mult_imp_div_less mult.commute)
  have "unat (ucast (r div bs) :: u16) = unat r div band mn mx"
    using q unat_u16_lt [of mx]
    by (simp add: unsigned_ucast_eq unat_div_distrib assms(3) take_bit_nat_eq_self_iff)
  then show "unat (mn + ucast (r div bs :: u32)) = unat mn + unat r div band mn mx"
    using q unat_u16_lt [of mx] by (simp add: unat_word_ariths)
qed

lemma range_result:
  assumes "mn < mx"
  shows "rand_get_random_in_range mn mx rolls =
    do { (r, rs) \<leftarrow> reroll (word_of_nat (band mn mx * (unat mx + 1 - unat mn))) rolls;
         Some (word_of_nat (unat mn + unat r div band mn mx), rs) }"
proof -
  have le: "mn \<le> mx" using assms by simp
  note w = range_word_values [OF le]
  have top: "0xFFFFFFFF div ((ucast mx :: u32) + 1 - ucast mn) * ((ucast mx :: u32) + 1 - ucast mn) =
      word_of_nat (band mn mx * (unat mx + 1 - unat mn))"
    by (metis w(3) of_nat_unat ucast_id)
  have less: "unat r < band mn mx * (unat mx + 1 - unat mn)"
    if "reroll (word_of_nat (band mn mx * (unat mx + 1 - unat mn))) rolls = Some (r, rs)" for r rs
  proof -
    have "r < word_of_nat (band mn mx * (unat mx + 1 - unat mn))"
      using that by (induction rolls) (auto split: if_splits)
    then show ?thesis by (metis top w(3) word_less_nat_alt)
  qed
  have val: "mn + ucast (r div (0xFFFFFFFF div ((ucast mx :: u32) + 1 - ucast mn))) =
      word_of_nat (unat mn + unat r div band mn mx)"
    if "reroll (word_of_nat (band mn mx * (unat mx + 1 - unat mn))) rolls = Some (r, rs)" for r rs
    using result_value(1) [OF le less [OF that] w(2)] by (metis of_nat_unat ucast_id)
  show ?thesis
    using assms w(1)
    by (auto simp: rand_get_random_in_range_def Let_def top val simp del: of_nat_mult
        intro!: Option.bind_cong)
qed

lemma reroll_below:
  assumes "r \<in> set rolls" and "unat r < 4294901760" and "mn < mx"
  shows "\<exists>r' rs. reroll (word_of_nat (band mn mx * (unat mx + 1 - unat mn))) rolls = Some (r', rs) \<and>
    unat r' < band mn mx * (unat mx + 1 - unat mn)"
proof -
  have le: "mn \<le> mx" using assms(3) by simp
  let ?top = "band mn mx * (unat mx + 1 - unat mn)"
  have "unat (word_of_nat ?top :: u32) = ?top"
    using band_bounds(2) [OF le] by (simp add: unsigned_of_nat take_bit_nat_eq_self_iff del: of_nat_mult)
  moreover have "r < word_of_nat ?top"
    using assms(2) band_bounds(3) [OF le] calculation by (simp add: word_less_nat_alt del: of_nat_mult)
  ultimately show ?thesis
    using reroll_finds [OF assms(1)] by (metis word_less_nat_alt)
qed

lemma range_value_le:
  assumes "mn < mx" and "reroll (word_of_nat (band mn mx * (unat mx + 1 - unat mn))) rolls = Some (r, rs)"
    and "unat r < band mn mx * (unat mx + 1 - unat mn)"
  shows "\<exists>v. rand_get_random_in_range mn mx rolls = Some (v, rs) \<and> mn \<le> v \<and> v \<le> mx"
proof -
  have le: "mn \<le> mx" using assms(1) by simp
  let ?v = "word_of_nat (unat mn + unat r div band mn mx) :: u16"
  have "unat r div band mn mx < unat mx + 1 - unat mn"
    using result_value(2) [OF le assms(3) range_word_values(2) [OF le]] .
  then have "unat ?v = unat mn + unat r div band mn mx" "unat mn + unat r div band mn mx \<le> unat mx"
    using unat_u16_lt [of mx]
    by (auto simp: unsigned_of_nat take_bit_nat_eq_self_iff simp del: of_nat_add)
  then show ?thesis
    using assms(2) by (simp add: range_result [OF assms(1)] word_le_nat_alt del: of_nat_add of_nat_mult)
qed

lemma range_same: "rand_get_random_in_range v v rolls = Some (v, rolls)"
  using range_word_values(1) [of v v] by (simp add: rand_get_random_in_range_def Let_def)

lemma reroll_less: "reroll tp rolls = Some (r, rs) \<Longrightarrow> r < tp"
  by (induction rolls) (auto split: if_splits)

lemma range_bounds:
  assumes "mn \<le> mx" and "rand_get_random_in_range mn mx rolls = Some (v, rs)"
  shows "mn \<le> v \<and> v \<le> mx"
proof (cases "mn = mx")
  case True
  then show ?thesis using assms(2) by (simp add: range_same)
next
  case False
  then have lt: "mn < mx" using assms(1) by simp
  let ?top = "band mn mx * (unat mx + 1 - unat mn)"
  obtain r where r: "reroll (word_of_nat ?top) rolls = Some (r, rs)"
    using assms(2) by (auto simp: range_result [OF lt] simp del: of_nat_mult split: Option.bind_splits)
  have "unat (word_of_nat ?top :: u32) = ?top"
    using band_bounds(2) [OF assms(1)] by (simp add: unsigned_of_nat take_bit_nat_eq_self_iff del: of_nat_mult)
  then have "unat r < ?top" using reroll_less [OF r] by (metis word_less_nat_alt)
  from range_value_le [OF lt r this] show ?thesis using assms(2) by auto
qed

text \<open>A roll below \<open>0xFFFF0000\<close> is accepted for every range: one roll per call is enough.\<close>

definition good_roll :: "u32 \<Rightarrow> bool" where
  "good_roll r \<longleftrightarrow> unat r < 4294901760"

lemma range_one_roll:
  assumes "mn \<le> mx" and "good_roll r"
  shows "\<exists>v rs. rand_get_random_in_range mn mx (r # rolls) = Some (v, rs) \<and>
    (rs = rolls \<or> rs = r # rolls) \<and> mn \<le> v \<and> v \<le> mx"
proof (cases "mn = mx")
  case True
  then show ?thesis by (simp add: range_same)
next
  case False
  then have lt: "mn < mx" using assms(1) by simp
  let ?top = "band mn mx * (unat mx + 1 - unat mn)"
  have "unat r < ?top" using assms band_bounds(3) [OF assms(1)] by (simp add: good_roll_def)
  moreover have "unat (word_of_nat ?top :: u32) = ?top"
    using band_bounds(2) [OF assms(1)] by (simp add: unsigned_of_nat take_bit_nat_eq_self_iff del: of_nat_mult)
  ultimately have "reroll (word_of_nat ?top) (r # rolls) = Some (r, rolls)"
    by (simp add: word_le_nat_alt del: of_nat_mult)
  from range_value_le [OF lt this \<open>unat r < ?top\<close>] show ?thesis by blast
qed

section \<open>Scaling by a factor\<close>

lemma unat_and_0xFFFF: "unat ((x :: u32) AND 0xFFFF) = unat x mod 65536"
proof -
  have "x AND 0xFFFF = take_bit 16 x" by (simp add: take_bit_eq_mask mask_eq_exp_minus_1)
  then have "unat (x AND 0xFFFF) = take_bit 16 (unat x)" by (simp only: unsigned_take_bit_eq)
  then show ?thesis by (simp add: take_bit_eq_mod)
qed

lemma top_bit_u32: "(x :: u32) AND 0x80000000 \<noteq> 0 \<longleftrightarrow> 2147483648 \<le> unat x"
proof -
  have "x AND 0x80000000 = x AND 2 ^ 31" by simp
  also have "\<dots> \<noteq> 0 \<longleftrightarrow> bit x 31" by (simp only: and_exp_eq_0_iff_not_bit) simp
  also have "\<dots> \<longleftrightarrow> odd (unat x div 2 ^ 31)"
    by (metis bit_iff_odd bit_unsigned_iff bit_imp_le_length possible_bit_nat unat_drop_bit_eq drop_bit_eq_div)
  also have "\<dots> \<longleftrightarrow> 2147483648 \<le> unat x"
  proof -
    have "unat x div 2 ^ 31 < 2" using unat_u32_lt [of x] by (simp add: less_mult_imp_div_less)
    then have "unat x div 2 ^ 31 = 0 \<or> unat x div 2 ^ 31 = 1" by linarith
    then have "odd (unat x div 2 ^ 31) \<longleftrightarrow> unat x div 2 ^ 31 = 1" by auto
    also have "\<dots> \<longleftrightarrow> 2147483648 \<le> unat x" using \<open>unat x div 2 ^ 31 < 2\<close> by auto
    finally show ?thesis .
  qed
  finally show ?thesis .
qed

lemma scale_split:
  fixes b f :: nat
  shows "b * f div 2 ^ 15 = 2 * (b div 65536 * f + b mod 65536 * f div 65536) + b mod 65536 * f div 32768 mod 2"
    and "b * f div 2 ^ 16 = b div 65536 * f + b mod 65536 * f div 65536"
proof -
  let ?h = "b div 65536 * f" and ?l = "b mod 65536 * f"
  have "(65536 * (b div 65536) + b mod 65536) * f = 65536 * ?h + ?l"
    by (simp only: add_mult_distrib mult.assoc)
  then have bf: "b * f = 65536 * ?h + ?l"
    by (simp only: mult_div_mod_eq)
  then show "b * f div 2 ^ 16 = ?h + ?l div 65536" by simp
  have "b * f div 2 ^ 15 = 2 * ?h + ?l div 32768"
    unfolding bf by simp
  moreover have "?l div 32768 = 2 * (?l div 65536) + ?l div 32768 mod 2"
  proof -
    have "?l div 65536 = ?l div 32768 div 2" by (simp add: div_mult2_eq [symmetric])
    then show ?thesis by (metis mult_div_mod_eq)
  qed
  ultimately show "b * f div 2 ^ 15 = 2 * (?h + ?l div 65536) + ?l div 32768 mod 2" by simp
qed

lemma double_bound: "(2147483648 :: nat) \<le> x \<Longrightarrow> 4294967295 \<le> 2 * x + y"
  by linarith

section \<open>Properties\<close>

text \<open>
  For a range \<open>mn \<le> mx\<close> and a generator that produces at least one roll below
  \<open>0xFFFF0000\<close>, \<open>rand_get_random_in_range\<close> returns, and it returns a number of the range.
\<close>

theorem rand_in_range:
  assumes "mn \<le> mx" and "r \<in> set rolls" and "unat r < 0xFFFF0000"
  shows "\<exists>v rs. rand_get_random_in_range mn mx rolls = Some (v, rs) \<and> mn \<le> v \<and> v \<le> mx"
proof (cases "mn = mx")
  case True
  then show ?thesis by (simp add: range_same)
next
  case False
  then have lt: "mn < mx" using assms(1) by simp
  obtain r' rs where "reroll (word_of_nat (band mn mx * (unat mx + 1 - unat mn))) rolls = Some (r', rs)"
      "unat r' < band mn mx * (unat mx + 1 - unat mn)"
    using reroll_below [OF assms(2) _ lt] assms(3) by auto
  from range_value_le [OF lt this] show ?thesis by blast
qed

theorem rand_in_range_witness:
  "\<exists>v rs. rand_get_random_in_range 10 20 [0xFFFFFFFF, 0x80000000] = Some (v, rs) \<and> 10 \<le> v \<and> v \<le> 20"
  using rand_in_range [of 10 20 "0x80000000" "[0xFFFFFFFF, 0x80000000]"] by simp

text \<open>
  The choice is uniform, as the comment in \<open>rand_get_random_in_range\<close> claims: every value
  of the range is the result of the same number of accepted 32 bit rolls, the size of a band.
\<close>

theorem rand_uniform:
  assumes "mn < mx" and "mn \<le> v" and "v \<le> mx"
  shows "card {r. rand_get_random_in_range mn mx [r] = Some (v, [])} =
    4294967295 div (unat mx + 1 - unat mn)"
proof -
  have le: "mn \<le> mx" using assms(1) by simp
  let ?n = "unat mx + 1 - unat mn" and ?b = "band mn mx"
  have nv: "unat v - unat mn < ?n" "unat mn \<le> unat v"
    using assms(2,3) by (auto simp: word_le_nat_alt)
  have top: "unat (word_of_nat (?b * ?n) :: u32) = ?b * ?n"
    using band_bounds(2) [OF le] by (simp add: unsigned_of_nat take_bit_nat_eq_self_iff del: of_nat_mult)
  have acc: "rand_get_random_in_range mn mx [r] = Some (v, []) \<longleftrightarrow>
      unat r < ?b * ?n \<and> unat r div ?b = unat v - unat mn" for r
  proof (cases "unat r < ?b * ?n")
    case True
    let ?w = "word_of_nat (unat mn + unat r div ?b) :: u16"
    have "unat r div ?b < ?n" using result_value(2) [OF le True range_word_values(2) [OF le]] .
    then have "unat ?w = unat mn + unat r div ?b"
      using unat_u16_lt [of mx] by (simp add: unsigned_of_nat take_bit_nat_eq_self_iff del: of_nat_add)
    then have "?w = v \<longleftrightarrow> unat r div ?b = unat v - unat mn"
      using nv by (auto simp: word_unat_eq_iff simp del: of_nat_add)
    moreover have "\<not> word_of_nat (?b * ?n) \<le> r"
      using True top by (simp add: word_le_nat_alt del: of_nat_mult)
    ultimately show ?thesis
      using True by (simp add: range_result [OF assms(1)] del: of_nat_mult of_nat_add)
  next
    case False
    then have "word_of_nat (?b * ?n) \<le> r" using top by (simp add: word_le_nat_alt del: of_nat_mult)
    then show ?thesis
      using False by (simp add: range_result [OF assms(1)] del: of_nat_mult)
  qed
  let ?k = "unat v - unat mn"
  have "unat ` {r :: u32. unat r < ?b * ?n \<and> unat r div ?b = ?k} = {?k * ?b ..< (?k + 1) * ?b}"
  proof (intro set_eqI iffI)
    fix x assume "x \<in> unat ` {r :: u32. unat r < ?b * ?n \<and> unat r div ?b = ?k}"
    then have "x div ?b = ?k" by auto
    then show "x \<in> {?k * ?b ..< (?k + 1) * ?b}"
      using band_bounds(1) [OF le] div_times_less_eq_dividend [of x ?b] dividend_less_div_times [of ?b x]
      by (simp add: add.commute)
  next
    fix x assume x: "x \<in> {?k * ?b ..< (?k + 1) * ?b}"
    then have "x div ?b = ?k" by (intro div_nat_eqI) (auto simp: mult.commute)
    moreover have "(?k + 1) * ?b \<le> ?b * ?n"
      using nv(1) by (metis Suc_eq_plus1 Suc_leI mult.commute mult_le_mono2)
    moreover have "unat (word_of_nat x :: u32) = x"
      using x calculation(2) band_bounds(2) [OF le]
      by (simp add: unsigned_of_nat take_bit_nat_eq_self_iff)
    ultimately show "x \<in> unat ` {r :: u32. unat r < ?b * ?n \<and> unat r div ?b = ?k}"
      using x by (intro image_eqI [of _ _ "word_of_nat x"]) auto
  qed
  then have "card {r :: u32. unat r < ?b * ?n \<and> unat r div ?b = ?k} = card {?k * ?b ..< (?k + 1) * ?b}"
    by (metis (no_types, lifting) card_image inj_onI word_unat_eq_iff)
  then show ?thesis by (simp add: acc band_def)
qed

theorem rand_uniform_witness:
  "card {r. rand_get_random_in_range 1 3 [r] = Some (2, [])} = 1431655765"
  using rand_uniform [of 1 3 2] by simp

text \<open>
  \<open>rand_randomise_base\<close> multiplies its base by the random factor in units of \<open>2 ^ -15\<close>,
  exactly, and saturates at \<open>UINT32_MAX\<close>: neither the 32 by 16 bit products nor their sum
  overflow.
\<close>

theorem randomise_base_value:
  assumes "rand_get_random_in_range f1 f2 rolls = Some (f, rs)"
  shows "\<exists>v. rand_randomise_base base f1 f2 rolls = Some (v, rs) \<and>
    unat v = min 4294967295 (unat base * unat f div 2 ^ 15)"
proof -
  define hi where "hi = drop_bit 16 base * (ucast f :: u32)"
  define lo where "lo = (base AND 0xFFFF) * (ucast f :: u32)"
  have b: "unat base div 65536 < 65536" "unat base mod 65536 < 65536"
    using unat_u32_lt [of base] by (auto simp: less_mult_imp_div_less)
  have prod: "x * unat f \<le> 65535 * 65535" if "x < 65536" for x
    using that unat_u16_lt [of f] by (intro mult_le_mono) auto
  have f32: "unat (ucast f :: u32) = unat f" by (simp add: unat_ucast_up)
  have hi: "unat hi = unat base div 65536 * unat f"
    unfolding hi_def
    by (subst unat_mult_nowrap) (use prod [OF b(1)] in \<open>simp_all only: f32 unat_drop_bit_div, simp_all\<close>)
  have lo: "unat lo = unat base mod 65536 * unat f"
    unfolding lo_def
    by (subst unat_mult_nowrap) (use prod [OF b(2)] in \<open>simp_all only: f32 unat_and_0xFFFF, simp_all\<close>)
  define res where "res = hi + drop_bit 16 lo"
  have res: "unat res = unat base * unat f div 2 ^ 16"
    unfolding res_def
    by (subst unat_add_nowrap) (use prod [OF b(1)] prod [OF b(2)] in
        \<open>simp_all only: hi lo unat_drop_bit_div scale_split, simp_all\<close>)
  have low: "unat (drop_bit 15 lo AND 1) = unat base mod 65536 * unat f div 32768 mod 2"
  proof -
    have "drop_bit 15 lo AND 1 = drop_bit 15 lo mod 2" by (simp add: and_one_eq)
    then have "unat (drop_bit 15 lo AND 1) = unat (drop_bit 15 lo) mod 2" by (simp add: unat_mod_distrib)
    then show ?thesis by (simp only: unat_drop_bit_div lo) simp
  qed
  let ?v = "if res AND 0x80000000 \<noteq> 0 then 0xFFFFFFFF else push_bit 1 res OR (drop_bit 15 lo AND 1)"
  have "unat ?v = min 4294967295 (unat base * unat f div 2 ^ 15)"
  proof (cases "2147483648 \<le> unat res")
    case True
    then have "4294967295 \<le> unat base * unat f div 2 ^ 15"
      unfolding res scale_split by (rule double_bound)
    with True show ?thesis by (simp add: top_bit_u32)
  next
    case False
    have "push_bit 1 res AND (drop_bit 15 lo AND 1) = 0"
      by (rule bit_word_eqI) (use bit_push_bit_iff [of 1 res] in \<open>auto simp: bit_and_iff bit_1_iff\<close>)
    moreover have p1: "unat (push_bit 1 res) = 2 * unat res"
      using False by (simp add: push_bit_eq_mult unat_mult_nowrap mult.commute)
    ultimately have "unat (push_bit 1 res OR (drop_bit 15 lo AND 1)) = 2 * unat res + unat (drop_bit 15 lo AND 1)"
      using False low by (subst unat_or_disjoint) (simp_all add: p1)
    also have "\<dots> = unat base * unat f div 2 ^ 15"
      by (simp only: res low scale_split)
    finally show ?thesis
      using False unat_u32_lt [of ?v] by (simp add: top_bit_u32)
  qed
  moreover have "rand_randomise_base base f1 f2 rolls = Some (?v, rs)"
    using assms by (simp add: rand_randomise_base_def Let_def hi_def lo_def res_def)
  ultimately show ?thesis by blast
qed

theorem randomise_base_value_witness:
  "\<exists>v. rand_randomise_base 1000 0xC000 0xC000 [] = Some (v, []) \<and>
     unat v = min 4294967295 (unat (1000 :: u32) * unat (0xC000 :: u16) div 2 ^ 15)"
  by (rule randomise_base_value) (simp add: rand_get_random_in_range_def)

end
