(* ===== verification/Trickle.thy ===== *)
theory Trickle
  imports Rand
begin

text \<open>
  \<open>src/common/trickle.c\<close>: the Trickle algorithm of RFC 6206, which paces the PAN
  advertisements, the PAN configuration frames, the DIO messages and the MPL forwarding. The
  numbers of \<open>rand_get_32bit\<close> are threaded through as in \<open>Rand\<close>. The trace calls print
  \<open>debug_name\<close> and change nothing.
\<close>

section \<open>State and operations\<close>

record trickle_params =
  Imin :: u16
  Imax :: u16
  redundancy :: u8
  TimerExpirations :: u8

record trickle =
  debug_name :: string
  tk_c :: u8
  tk_e :: u8
  tk_I :: u16
  tk_t :: u16
  tk_now :: u16

definition TRICKLE_TIME_MAX :: u16 where
  "TRICKLE_TIME_MAX = 0xFFFF"

definition TRICKLE_EXPIRATIONS_INFINITE :: u8 where
  "TRICKLE_EXPIRATIONS_INFINITE = 0xFF"

definition trickle_begin_interval :: "trickle \<Rightarrow> u32 list \<Rightarrow> (trickle \<times> u32 list) option" where
  "trickle_begin_interval tr rolls =
     (let tr = tr\<lparr>tk_c := 0\<rparr> in
      do { (t, rolls) \<leftarrow> (if tk_I tr > 2
                         then rand_get_random_in_range (tk_I tr div 2) (tk_I tr - 1) rolls
                         else Some (1, rolls));
           Some (tr\<lparr>tk_t := t, tk_now := 0\<rparr>, rolls) })"

definition trickle_start ::
  "trickle \<Rightarrow> string \<Rightarrow> trickle_params \<Rightarrow> u32 list \<Rightarrow> (trickle \<times> u32 list) option" where
  "trickle_start tr name params rolls =
     do { (i, rolls) \<leftarrow> rand_get_random_in_range (Imin params) (Imax params) rolls;
          trickle_begin_interval (tr\<lparr>debug_name := name, tk_e := 0, tk_I := i\<rparr>) rolls }"

text \<open>The doubling of rule 5, which \<open>trickle_timer\<close> and \<open>trickle_timer_max\<close> both write out.\<close>

definition double_interval :: "u16 \<Rightarrow> u16 \<Rightarrow> u16" where
  "double_interval mx i =
     (let i = (if i \<le> TRICKLE_TIME_MAX div 2 then i * 2 else TRICKLE_TIME_MAX)
      in if i > mx then mx else i)"

fun timer_max_loop :: "trickle_params \<Rightarrow> nat \<Rightarrow> u16 \<Rightarrow> u32 \<Rightarrow> u32" where
  "timer_max_loop params 0 time_I total_time = total_time"
| "timer_max_loop params (Suc n) time_I total_time =
     (let time_I = double_interval (Imax params) time_I
      in timer_max_loop params n time_I (total_time + ucast time_I))"

definition trickle_timer_max :: "trickle_params \<Rightarrow> u8 \<Rightarrow> u32" where
  "trickle_timer_max params trickle_timer_expiration =
     (let time_I = Imin params - 1
      in timer_max_loop params (unat trickle_timer_expiration) time_I (ucast time_I))"

definition trickle_reset_timer ::
  "trickle \<Rightarrow> trickle_params \<Rightarrow> u32 list \<Rightarrow> (trickle \<times> u32 list) option" where
  "trickle_reset_timer tr params rolls =
     trickle_begin_interval (tr\<lparr>tk_e := 0, tk_I := Imin params\<rparr>) rolls"

definition trickle_consistent_heard :: "trickle \<Rightarrow> trickle" where
  "trickle_consistent_heard tr = (if tk_c tr < 0xFF then tr\<lparr>tk_c := tk_c tr + 1\<rparr> else tr)"

definition trickle_running :: "trickle \<Rightarrow> trickle_params \<Rightarrow> bool" where
  "trickle_running tr params \<longleftrightarrow> tk_e tr < TimerExpirations params"

definition trickle_inconsistent_heard ::
  "trickle \<Rightarrow> trickle_params \<Rightarrow> u32 list \<Rightarrow> (trickle \<times> u32 list) option" where
  "trickle_inconsistent_heard tr params rolls =
     (if tk_I tr \<noteq> Imin params \<or> \<not> trickle_running tr params
      then trickle_reset_timer tr params rolls
      else Some (tr, rolls))"

definition trickle_timer ::
  "trickle \<Rightarrow> trickle_params \<Rightarrow> u16 \<Rightarrow> u32 list \<Rightarrow> (bool \<times> trickle \<times> u32 list) option" where
  "trickle_timer tr params ticks rolls =
     (if \<not> trickle_running tr params then Some (False, tr, rolls)
      else
        let new_time = tk_now tr + ticks;
            new_time = (if new_time < tk_now tr then TRICKLE_TIME_MAX else new_time);
            transmit = (tk_now tr < tk_t tr \<and> new_time \<ge> tk_t tr \<and>
                        (tk_c tr < redundancy params \<or> redundancy params = 0));
            tr = tr\<lparr>tk_now := new_time\<rparr>
        in if new_time \<ge> tk_I tr
           then let tr = tr\<lparr>tk_I := double_interval (Imax params) (tk_I tr)\<rparr>;
                    tr = (if tk_e tr < TRICKLE_EXPIRATIONS_INFINITE - 1
                          then tr\<lparr>tk_e := tk_e tr + 1\<rparr> else tr)
                in do { (tr, rolls) \<leftarrow> trickle_begin_interval tr rolls;
                        Some (transmit, tr, rolls) }
           else Some (transmit, tr, rolls))"

definition trickle_stop :: "trickle \<Rightarrow> trickle" where
  "trickle_stop tr = tr\<lparr>tk_e := TRICKLE_EXPIRATIONS_INFINITE\<rparr>"

section \<open>Invariant\<close>

text \<open>Parameters that make sense: the code never checks them.\<close>

definition wf_params :: "trickle_params \<Rightarrow> bool" where
  "wf_params params \<longleftrightarrow> 1 \<le> Imin params \<and> Imin params \<le> Imax params"

text \<open>
  The interval stays in the configured range, the transmission time in the second half of the
  interval (for intervals of more than two ticks), and the clock inside the interval.
\<close>

definition trickle_inv :: "trickle_params \<Rightarrow> trickle \<Rightarrow> bool" where
  "trickle_inv params tr \<longleftrightarrow>
     Imin params \<le> tk_I tr \<and> tk_I tr \<le> Imax params \<and>
     (if tk_I tr > 2 then tk_I tr div 2 \<le> tk_t tr \<and> tk_t tr < tk_I tr else tk_t tr = 1) \<and>
     tk_now tr < tk_I tr"

lemma half_le_pred:
  assumes "(2 :: u16) < i"
  shows "i div 2 \<le> i - 1" and "v \<le> i - 1 \<Longrightarrow> v < i"
proof -
  have gt: "2 < unat i" using assms by (simp add: word_less_nat_alt)
  then have dec: "unat (i - 1) = unat i - 1"
    by (metis One_nat_def less_nat_zero_code measure_unat unat_0 unat_minus_one)
  then show "i div 2 \<le> i - 1"
    using gt by (simp add: word_le_nat_alt unat_div_distrib)
  show "v < i" if "v \<le> i - 1"
    using that dec gt by (simp add: word_le_nat_alt word_less_nat_alt)
qed

text \<open>One acceptable roll is enough to begin an interval.\<close>

lemma begin_interval_returns:
  assumes "good_roll r"
  shows "\<exists>t rs. trickle_begin_interval tr (r # rolls) = Some (tr\<lparr>tk_c := 0, tk_t := t, tk_now := 0\<rparr>, rs) \<and>
    (rs = rolls \<or> rs = r # rolls)"
proof (cases "tk_I tr > 2")
  case True
  from range_one_roll [OF half_le_pred(1) [OF True] assms, of rolls] True
  show ?thesis by (auto simp: trickle_begin_interval_def)
next
  case False
  then show ?thesis by (auto simp: trickle_begin_interval_def)
qed

lemma begin_interval_fields:
  assumes "trickle_begin_interval tr rolls = Some (tr', rs)"
  shows "tk_I tr' = tk_I tr" "tk_e tr' = tk_e tr" "tk_c tr' = 0" "tk_now tr' = 0"
    and "if tk_I tr > 2 then tk_I tr div 2 \<le> tk_t tr' \<and> tk_t tr' < tk_I tr else tk_t tr' = 1"
proof -
  show "tk_I tr' = tk_I tr" "tk_e tr' = tk_e tr" "tk_c tr' = 0" "tk_now tr' = 0"
    using assms by (auto simp: trickle_begin_interval_def Let_def split: Option.bind_splits)
  show "if tk_I tr > 2 then tk_I tr div 2 \<le> tk_t tr' \<and> tk_t tr' < tk_I tr else tk_t tr' = 1"
  proof (cases "tk_I tr > 2")
    case True
    then obtain v where v: "rand_get_random_in_range (tk_I tr div 2) (tk_I tr - 1) rolls = Some (v, rs)"
        "tk_t tr' = v"
      using assms by (auto simp: trickle_begin_interval_def Let_def split: Option.bind_splits)
    have "tk_I tr div 2 \<le> v \<and> v \<le> tk_I tr - 1" using range_bounds [OF half_le_pred(1) [OF True] v(1)] .
    with True half_le_pred(2) [OF True] v(2) show ?thesis by auto
  next
    case False
    then show ?thesis using assms by (auto simp: trickle_begin_interval_def)
  qed
qed

lemma begin_interval_inv:
  assumes "wf_params params" and "Imin params \<le> tk_I tr" and "tk_I tr \<le> Imax params"
    and "trickle_begin_interval tr rolls = Some (tr', rs)"
  shows "trickle_inv params tr'"
proof -
  have "1 \<le> tk_I tr" using assms by (auto simp: wf_params_def)
  then have "0 < tk_I tr" by (simp add: word_le_nat_alt word_less_nat_alt)
  with begin_interval_fields [OF assms(4)] assms(2,3) show ?thesis
    by (simp add: trickle_inv_def)
qed

lemma double_interval_nat:
  "unat (double_interval mx i) = min (unat mx) (min 65535 (2 * unat i))"
proof -
  have "unat (i * 2) = 2 * unat i" if "unat i \<le> 32767"
    using that by (subst unat_mult_nowrap) auto
  then show ?thesis
    using unat_u16_lt [of mx] unat_u16_lt [of i]
    by (auto simp: double_interval_def TRICKLE_TIME_MAX_def Let_def word_le_nat_alt word_less_nat_alt
        not_le not_less)
qed

lemma double_interval_range:
  assumes "mn \<le> i" and "i \<le> mx"
  shows "mn \<le> double_interval mx i" "double_interval mx i \<le> mx"
  using assms unat_u16_lt [of i] by (auto simp: word_le_nat_alt double_interval_nat)

section \<open>Every operation keeps the invariant\<close>

lemma trickle_start_inv:
  assumes "wf_params params" and "trickle_start tr name params rolls = Some (tr', rs)"
  shows "trickle_inv params tr'" and "tk_e tr' = 0" and "tk_now tr' = 0"
proof -
  obtain i rs' where i: "rand_get_random_in_range (Imin params) (Imax params) rolls = Some (i, rs')"
      "trickle_begin_interval (tr\<lparr>debug_name := name, tk_e := 0, tk_I := i\<rparr>) rs' = Some (tr', rs)"
    using assms(2) by (auto simp: trickle_start_def split: Option.bind_splits)
  have "Imin params \<le> i \<and> i \<le> Imax params"
    using range_bounds [OF _ i(1)] assms(1) by (simp add: wf_params_def)
  then show "trickle_inv params tr'" using begin_interval_inv [OF assms(1) _ _ i(2)] by simp
  show "tk_e tr' = 0" "tk_now tr' = 0" using begin_interval_fields [OF i(2)] by simp_all
qed

lemma trickle_inconsistent_heard_inv:
  assumes "wf_params params" and "trickle_inv params tr"
    and "trickle_inconsistent_heard tr params rolls = Some (tr', rs)"
  shows "trickle_inv params tr'"
  using assms begin_interval_inv [OF assms(1), of "tr\<lparr>tk_e := 0, tk_I := Imin params\<rparr>" rolls tr' rs]
  by (auto simp: trickle_inconsistent_heard_def trickle_reset_timer_def wf_params_def split: if_splits)

text \<open>The clock after a call of \<open>trickle_timer\<close>, saturated.\<close>

definition advanced :: "trickle \<Rightarrow> u16 \<Rightarrow> u16" where
  "advanced tr ticks = (if tk_now tr + ticks < tk_now tr then TRICKLE_TIME_MAX else tk_now tr + ticks)"

lemma advanced_nat: "unat (advanced tr ticks) = min 65535 (unat (tk_now tr) + unat ticks)"
proof (cases "unat (tk_now tr) + unat ticks < 65536")
  case True
  then have "unat (tk_now tr + ticks) = unat (tk_now tr) + unat ticks"
    by (simp add: unat_add_nowrap)
  with True show ?thesis by (simp add: advanced_def word_less_nat_alt)
next
  case False
  then have "unat (tk_now tr + ticks) = unat (tk_now tr) + unat ticks - 65536"
    using unat_u16_lt [of "tk_now tr"] unat_u16_lt [of ticks]
    by (simp add: unat_word_ariths mod_if)
  with False show ?thesis
    using unat_u16_lt [of ticks]
    by (auto simp: advanced_def word_less_nat_alt TRICKLE_TIME_MAX_def)
qed

text \<open>Rule 4 of the RFC: what the timer answers.\<close>

definition fires :: "trickle_params \<Rightarrow> trickle \<Rightarrow> u16 \<Rightarrow> bool" where
  "fires params tr ticks \<longleftrightarrow> trickle_running tr params \<and>
     tk_now tr < tk_t tr \<and> tk_t tr \<le> advanced tr ticks \<and>
     (tk_c tr < redundancy params \<or> redundancy params = 0)"

text \<open>Rule 5: the state in which the next interval begins.\<close>

definition expired :: "trickle_params \<Rightarrow> trickle \<Rightarrow> u16 \<Rightarrow> trickle" where
  "expired params tr ticks =
     tr\<lparr>tk_now := advanced tr ticks, tk_I := double_interval (Imax params) (tk_I tr),
        tk_e := (if tk_e tr < 254 then tk_e tr + 1 else tk_e tr)\<rparr>"

lemma trickle_timer_cases:
  "trickle_timer tr params ticks rolls =
     (if \<not> trickle_running tr params then Some (False, tr, rolls)
      else if tk_I tr \<le> advanced tr ticks
      then map_option (\<lambda>(tr', rs). (fires params tr ticks, tr', rs))
             (trickle_begin_interval (expired params tr ticks) rolls)
      else Some (fires params tr ticks, tr\<lparr>tk_now := advanced tr ticks\<rparr>, rolls))"
  by (cases "trickle_begin_interval (expired params tr ticks) rolls")
     (auto simp: trickle_timer_def Let_def fires_def expired_def advanced_def TRICKLE_EXPIRATIONS_INFINITE_def)

lemma trickle_timer_inv:
  assumes "wf_params params" and "trickle_inv params tr"
    and "trickle_timer tr params ticks rolls = Some (b, tr', rs)"
  shows "trickle_inv params tr'"
proof (cases "trickle_running tr params \<and> tk_I tr \<le> advanced tr ticks")
  case True
  have "Imin params \<le> tk_I (expired params tr ticks)" "tk_I (expired params tr ticks) \<le> Imax params"
    using double_interval_range [of "Imin params" "tk_I tr" "Imax params"] assms(2)
    by (auto simp: expired_def trickle_inv_def)
  from begin_interval_inv [OF assms(1) this, of rolls tr' rs] True assms(3) show ?thesis
    by (auto simp: trickle_timer_cases)
next
  case False
  then show ?thesis
    using assms(2,3) by (auto simp: trickle_timer_cases trickle_inv_def split: if_splits)
qed

section \<open>The timer as a state machine\<close>

datatype trickle_event = Tick u16 | Consistent | Inconsistent | Stop

text \<open>One call of the public interface on a started timer, and whether it asks for a transmission.\<close>

fun trickle_call ::
  "trickle_params \<Rightarrow> trickle_event \<Rightarrow> trickle \<Rightarrow> u32 list \<Rightarrow> (bool \<times> trickle \<times> u32 list) option" where
  "trickle_call params (Tick n) tr rolls = trickle_timer tr params n rolls"
| "trickle_call params Consistent tr rolls = Some (False, trickle_consistent_heard tr, rolls)"
| "trickle_call params Inconsistent tr rolls =
     map_option (Pair False) (trickle_inconsistent_heard tr params rolls)"
| "trickle_call params Stop tr rolls = Some (False, trickle_stop tr, rolls)"

inductive trickle_reach :: "trickle_params \<Rightarrow> trickle \<Rightarrow> bool" for params where
  start: "trickle_start tr name params rolls = Some (tr', rs) \<Longrightarrow> trickle_reach params tr'"
| call: "trickle_reach params tr \<Longrightarrow> trickle_call params ev tr rolls = Some (b, tr', rs) \<Longrightarrow>
    trickle_reach params tr'"

lemma trickle_consistent_heard_fields [simp]:
  "tk_e (trickle_consistent_heard tr) = tk_e tr" "tk_I (trickle_consistent_heard tr) = tk_I tr"
  "tk_t (trickle_consistent_heard tr) = tk_t tr" "tk_now (trickle_consistent_heard tr) = tk_now tr"
  by (simp_all add: trickle_consistent_heard_def)

lemma trickle_consistent_heard_inv: "trickle_inv params (trickle_consistent_heard tr) = trickle_inv params tr"
  by (simp add: trickle_consistent_heard_def trickle_inv_def)

lemma trickle_call_inv:
  assumes "wf_params params" and "trickle_inv params tr"
    and "trickle_call params ev tr rolls = Some (b, tr', rs)"
  shows "trickle_inv params tr'"
proof (cases ev)
  case (Tick n)
  then show ?thesis using trickle_timer_inv [OF assms(1,2)] assms(3) by simp
next
  case Consistent
  then show ?thesis using assms by (auto simp: trickle_consistent_heard_inv)
next
  case Inconsistent
  then show ?thesis using trickle_inconsistent_heard_inv [OF assms(1,2)] assms(3) by auto
next
  case Stop
  then show ?thesis using assms by (auto simp: trickle_stop_def trickle_inv_def)
qed

text \<open>A sequence of calls and the number of transmissions it asks for.\<close>

fun trickle_run ::
  "trickle_params \<Rightarrow> trickle_event list \<Rightarrow> trickle \<Rightarrow> u32 list \<Rightarrow> (nat \<times> trickle \<times> u32 list) option" where
  "trickle_run params [] tr rolls = Some (0, tr, rolls)"
| "trickle_run params (ev # evs) tr rolls =
     do { (b, tr, rolls) \<leftarrow> trickle_call params ev tr rolls;
          (n, tr, rolls) \<leftarrow> trickle_run params evs tr rolls;
          Some (of_bool b + n, tr, rolls) }"

text \<open>Progress: with one acceptable roll per call, every sequence of calls returns.\<close>

lemma trickle_call_returns:
  assumes "good_roll r"
  shows "\<exists>b tr' rs. trickle_call params ev tr (r # rolls) = Some (b, tr', rs) \<and> (rs = rolls \<or> rs = r # rolls)"
proof (cases ev)
  case (Tick n)
  then show ?thesis
    using begin_interval_returns [OF assms, of "expired params tr n" rolls]
    by (auto simp: trickle_timer_cases)
next
  case Inconsistent
  then show ?thesis
    using begin_interval_returns [OF assms, of "tr\<lparr>tk_e := 0, tk_I := Imin params\<rparr>" rolls]
    by (auto simp: trickle_inconsistent_heard_def trickle_reset_timer_def)
qed auto

lemma trickle_run_returns:
  "\<forall>r \<in> set rolls. good_roll r \<Longrightarrow> length evs \<le> length rolls \<Longrightarrow>
     \<exists>n tr' rs. trickle_run params evs tr rolls = Some (n, tr', rs)"
proof (induction evs arbitrary: tr rolls)
  case Nil
  then show ?case by simp
next
  case (Cons ev evs)
  then obtain r rs where rolls: "rolls = r # rs" by (cases rolls) auto
  obtain b tr' rs' where c: "trickle_call params ev tr (r # rs) = Some (b, tr', rs')"
      "rs' = rs \<or> rs' = r # rs"
    using trickle_call_returns Cons.prems rolls by fastforce
  have "\<exists>n tr'' rs''. trickle_run params evs tr' rs' = Some (n, tr'', rs'')"
    using Cons.prems c(2) rolls by (intro Cons.IH) auto
  then show ?case using c(1) rolls by (auto simp del: trickle_call.simps)
qed

section \<open>Counting transmissions\<close>

text \<open>Whether the transmission point of the current interval is behind.\<close>

definition past_t :: "trickle \<Rightarrow> bool" where
  "past_t tr \<longleftrightarrow> tk_t tr \<le> tk_now tr"

lemma inv_t:
  assumes "trickle_inv params tr" and "wf_params params"
  shows "0 < tk_t tr" and "tk_t tr \<le> tk_I tr"
proof -
  have I: "1 \<le> unat (tk_I tr)" using assms by (auto simp: trickle_inv_def wf_params_def word_le_nat_alt)
  then show "tk_t tr \<le> tk_I tr"
    using assms(1) by (auto simp: trickle_inv_def word_le_nat_alt word_less_nat_alt split: if_splits)
  show "0 < tk_t tr"
  proof (cases "2 < tk_I tr")
    case True
    then have "1 \<le> unat (tk_I tr div 2)" by (simp add: word_less_nat_alt unat_div_distrib)
    with True assms(1) show ?thesis
      by (auto simp: trickle_inv_def word_le_nat_alt word_less_nat_alt split: if_splits)
  next
    case False
    with assms(1) show ?thesis by (simp add: trickle_inv_def)
  qed
qed

text \<open>
  The credit of a state: the intervals that have expired, and the current one once its
  transmission point is behind. A call raises it by at most one, and only a call whose answer
  can be to transmit does.
\<close>

definition credit :: "trickle_params \<Rightarrow> trickle \<Rightarrow> nat" where
  "credit params tr = unat (tk_e tr) + of_bool (trickle_running tr params \<and> past_t tr)"

lemma timer_credit:
  assumes wf: "wf_params params" and inv: "trickle_inv params tr" and fin: "TimerExpirations params < 0xFF"
    and timer: "trickle_timer tr params n rolls = Some (b, tr', rs)"
  shows "credit params tr + of_bool b \<le> credit params tr' \<and>
    (redundancy params = 0 \<longrightarrow> credit params tr' = credit params tr + of_bool b)"
proof (cases "trickle_running tr params")
  case False
  then show ?thesis using timer by (auto simp: trickle_timer_cases)
next
  case run: True
  note t = inv_t [OF inv wf]
  show ?thesis
  proof (cases "tk_I tr \<le> advanced tr n")
    case True
    then have bi: "trickle_begin_interval (expired params tr n) rolls = Some (tr', rs)"
      and b: "b = fires params tr n"
      using timer run by (auto simp: trickle_timer_cases)
    have inv': "trickle_inv params tr'" using trickle_timer_inv [OF wf inv timer] .
    have "tk_e tr < 254"
      using run fin by (simp add: trickle_running_def word_less_nat_alt)
    then have "unat (tk_e tr') = unat (tk_e tr) + 1"
      using begin_interval_fields(2) [OF bi]
      by (simp add: expired_def word_less_nat_alt unat_add_nowrap)
    moreover have "\<not> past_t tr'"
      using begin_interval_fields(4) [OF bi] inv_t(1) [OF inv' wf] by (simp add: past_t_def not_le)
    moreover have "tk_t tr \<le> advanced tr n" using t(2) True by simp
    ultimately show ?thesis
      using run by (auto simp: credit_def b fires_def past_t_def)
  next
    case False
    then have "tr' = tr\<lparr>tk_now := advanced tr n\<rparr>" "b = fires params tr n"
      using timer run by (auto simp: trickle_timer_cases)
    moreover have "tk_now tr \<le> advanced tr n"
      using unat_u16_lt [of "tk_now tr"] by (auto simp: word_le_nat_alt advanced_nat)
    ultimately show ?thesis
      using run by (auto simp: credit_def fires_def past_t_def trickle_running_def)
  qed
qed

text \<open>The counter of expirations never passes its limit.\<close>

lemma timer_expirations:
  assumes "tk_e tr \<le> TimerExpirations params" and "TimerExpirations params < 0xFF"
    and "trickle_timer tr params n rolls = Some (b, tr', rs)"
  shows "tk_e tr' \<le> TimerExpirations params"
proof (cases "trickle_running tr params \<and> tk_I tr \<le> advanced tr n")
  case True
  then have bi: "trickle_begin_interval (expired params tr n) rolls = Some (tr', rs)"
    using assms(3) by (auto simp: trickle_timer_cases)
  have "unat (tk_e tr) < unat (TimerExpirations params)" "unat (TimerExpirations params) < 255"
    using True assms(2) by (auto simp: trickle_running_def word_less_nat_alt)
  then show ?thesis
    using begin_interval_fields(2) [OF bi]
    by (simp add: expired_def word_le_nat_alt word_less_nat_alt unat_add_nowrap)
next
  case False
  then show ?thesis using assms(1,3) by (auto simp: trickle_timer_cases split: if_splits)
qed

text \<open>Calls that do not restart or stop the timer.\<close>

fun quiet :: "trickle_event \<Rightarrow> bool" where
  "quiet (Tick n) = True"
| "quiet Consistent = True"
| "quiet Inconsistent = False"
| "quiet Stop = False"

lemma call_credit:
  assumes "wf_params params" and "trickle_inv params tr" and "TimerExpirations params < 0xFF"
    and "quiet ev" and "tk_e tr \<le> TimerExpirations params"
    and "trickle_call params ev tr rolls = Some (b, tr', rs)"
  shows "credit params tr + of_bool b \<le> credit params tr' \<and>
    (redundancy params = 0 \<longrightarrow> credit params tr' = credit params tr + of_bool b) \<and>
    tk_e tr' \<le> TimerExpirations params"
proof (cases ev)
  case (Tick n)
  then have "trickle_timer tr params n rolls = Some (b, tr', rs)" using assms(6) by simp
  from timer_credit [OF assms(1-3) this] timer_expirations [OF assms(5,3) this] show ?thesis by simp
next
  case Consistent
  then show ?thesis
    using assms by (auto simp: credit_def past_t_def trickle_running_def)
qed (use assms(4) in auto)

lemma run_credit:
  assumes "wf_params params" and "TimerExpirations params < 0xFF"
  shows "trickle_run params evs tr rolls = Some (n, tr', rs) \<Longrightarrow> trickle_inv params tr \<Longrightarrow>
    list_all quiet evs \<Longrightarrow> tk_e tr \<le> TimerExpirations params \<Longrightarrow>
    credit params tr + n \<le> credit params tr' \<and>
    (redundancy params = 0 \<longrightarrow> credit params tr' = credit params tr + n) \<and>
    tk_e tr' \<le> TimerExpirations params"
proof (induction evs arbitrary: tr rolls n)
  case Nil
  then show ?case by simp
next
  case (Cons ev evs)
  obtain b tr1 rs1 m where c: "trickle_call params ev tr rolls = Some (b, tr1, rs1)"
      "trickle_run params evs tr1 rs1 = Some (m, tr', rs)" "n = of_bool b + m"
    using Cons.prems(1) by (auto simp del: trickle_call.simps split: Option.bind_splits prod.splits)
  have q: "quiet ev" "list_all quiet evs" using Cons.prems(3) by auto
  have h: "credit params tr + of_bool b \<le> credit params tr1 \<and>
      (redundancy params = 0 \<longrightarrow> credit params tr1 = credit params tr + of_bool b) \<and>
      tk_e tr1 \<le> TimerExpirations params"
    by (rule call_credit [OF assms(1) Cons.prems(2) assms(2) q(1) Cons.prems(4) c(1)])
  have "trickle_inv params tr1" by (rule trickle_call_inv [OF assms(1) Cons.prems(2) c(1)])
  from Cons.IH [OF c(2) this q(2)] h c(3) show ?case by auto
qed

lemma credit_bound:
  assumes "tk_e tr \<le> TimerExpirations params"
  shows "credit params tr \<le> unat (TimerExpirations params)"
    and "\<not> trickle_running tr params \<Longrightarrow> credit params tr = unat (TimerExpirations params)"
  using assms by (auto simp: credit_def trickle_running_def word_le_nat_alt word_less_nat_alt)

section \<open>The timer ends\<close>

text \<open>The number of ticks left, an upper bound.\<close>

definition ticks_left :: "trickle_params \<Rightarrow> trickle \<Rightarrow> nat" where
  "ticks_left params tr =
     (unat (TimerExpirations params) - unat (tk_e tr)) * unat (Imax params) - unat (tk_now tr)"

lemma timer_ticks_left:
  assumes wf: "wf_params params" and inv: "trickle_inv params tr" and fin: "TimerExpirations params < 0xFF"
    and "0 < n" and run: "trickle_running tr params"
    and timer: "trickle_timer tr params n rolls = Some (b, tr', rs)"
  shows "ticks_left params tr' < ticks_left params tr"
proof -
  define k where "k = unat (TimerExpirations params) - unat (tk_e tr) - 1"
  have e: "unat (tk_e tr) < unat (TimerExpirations params)" "unat (TimerExpirations params) < 255"
    using run fin by (auto simp: trickle_running_def word_less_nat_alt)
  then have k: "unat (TimerExpirations params) - unat (tk_e tr) = Suc k" by (simp add: k_def)
  have now: "unat (tk_now tr) < unat (tk_I tr)" "unat (tk_I tr) \<le> unat (Imax params)"
    using inv by (auto simp: trickle_inv_def word_less_nat_alt word_le_nat_alt)
  show ?thesis
  proof (cases "tk_I tr \<le> advanced tr n")
    case True
    then have bi: "trickle_begin_interval (expired params tr n) rolls = Some (tr', rs)"
      using timer run by (auto simp: trickle_timer_cases)
    have "unat (tk_e tr') = unat (tk_e tr) + 1" "tk_now tr' = 0"
      using e begin_interval_fields(2,4) [OF bi]
      by (auto simp: expired_def word_less_nat_alt unat_add_nowrap)
    then have "ticks_left params tr' = k * unat (Imax params)"
      by (simp add: ticks_left_def k_def)
    then show ?thesis using now by (simp add: ticks_left_def k)
  next
    case False
    then have tr': "tr' = tr\<lparr>tk_now := advanced tr n\<rparr>"
      using timer run by (auto simp: trickle_timer_cases)
    have "unat (tk_now tr) < unat (advanced tr n)" "unat (advanced tr n) < unat (tk_I tr)"
      using False \<open>0 < n\<close> now unat_u16_lt [of "tk_I tr"]
      by (auto simp: advanced_nat word_le_nat_alt word_less_nat_alt)
    then show ?thesis using now(2) by (simp add: tr' ticks_left_def k)
  qed
qed

fun is_tick :: "trickle_event \<Rightarrow> bool" where
  "is_tick (Tick n) = (0 < n)"
| "is_tick Consistent = False"
| "is_tick Inconsistent = False"
| "is_tick Stop = False"

lemma call_ticks_left:
  assumes "wf_params params" and "trickle_inv params tr" and "TimerExpirations params < 0xFF"
    and "quiet ev" and "trickle_call params ev tr rolls = Some (b, tr', rs)"
  shows "trickle_running tr' params \<Longrightarrow>
    trickle_running tr params \<and> ticks_left params tr' + of_bool (is_tick ev) \<le> ticks_left params tr"
proof (cases ev)
  case (Tick n)
  then have c: "trickle_timer tr params n rolls = Some (b, tr', rs)" using assms(5) by simp
  assume r: "trickle_running tr' params"
  then have run: "trickle_running tr params"
    using c by (auto simp: trickle_timer_cases split: if_splits)
  show ?thesis
  proof (cases "0 < n")
    case True
    then show ?thesis
      using timer_ticks_left [OF assms(1-3) True run c] run Tick by simp
  next
    case False
    then have "n = 0" by (simp add: word_gt_0)
    moreover have "\<not> tk_I tr \<le> advanced tr 0"
      using assms(2) unat_u16_lt [of "tk_now tr"]
      by (auto simp: trickle_inv_def word_less_nat_alt word_le_nat_alt advanced_nat)
    moreover have "advanced tr 0 = tk_now tr" by (simp add: advanced_def)
    ultimately show ?thesis using run Tick c by (auto simp: trickle_timer_cases ticks_left_def)
  qed
next
  case Consistent
  then show "trickle_running tr' params \<Longrightarrow> ?thesis"
    using assms by (auto simp: trickle_running_def ticks_left_def)
qed (use assms(4) in auto)

lemma run_ticks_left:
  assumes "wf_params params" and "TimerExpirations params < 0xFF"
  shows "trickle_run params evs tr rolls = Some (n, tr', rs) \<Longrightarrow> trickle_inv params tr \<Longrightarrow>
    list_all quiet evs \<Longrightarrow> trickle_running tr' params \<Longrightarrow>
    trickle_running tr params \<and> ticks_left params tr' + length (filter is_tick evs) \<le> ticks_left params tr"
proof (induction evs arbitrary: tr rolls n)
  case Nil
  then show ?case by simp
next
  case (Cons ev evs)
  obtain b tr1 rs1 m where c: "trickle_call params ev tr rolls = Some (b, tr1, rs1)"
      "trickle_run params evs tr1 rs1 = Some (m, tr', rs)"
    using Cons.prems(1) by (auto simp del: trickle_call.simps split: Option.bind_splits prod.splits)
  have q: "quiet ev" "list_all quiet evs" using Cons.prems(3) by auto
  have "trickle_inv params tr1" by (rule trickle_call_inv [OF assms(1) Cons.prems(2) c(1)])
  from Cons.IH [OF c(2) this q(2) Cons.prems(4)]
  have h: "trickle_running tr1 params" "ticks_left params tr' + length (filter is_tick evs) \<le> ticks_left params tr1"
    by auto
  from call_ticks_left [OF assms(1) Cons.prems(2) assms(2) q(1) c(1) h(1)] h(2) show ?case by auto
qed

lemma ticks_left_positive:
  assumes "trickle_inv params tr" and "trickle_running tr params"
  shows "0 < ticks_left params tr"
proof -
  have "unat (tk_now tr) < unat (Imax params)"
    using assms(1) by (auto simp: trickle_inv_def word_less_nat_alt word_le_nat_alt)
  moreover have "1 * unat (Imax params) \<le> (unat (TimerExpirations params) - unat (tk_e tr)) * unat (Imax params)"
    using assms(2) by (intro mult_le_mono1) (simp add: trickle_running_def word_less_nat_alt)
  ultimately show ?thesis unfolding ticks_left_def by linarith
qed

lemma run_inv:
  assumes "wf_params params"
  shows "trickle_run params evs tr rolls = Some (n, tr', rs) \<Longrightarrow> trickle_inv params tr \<Longrightarrow> trickle_inv params tr'"
proof (induction evs arbitrary: tr rolls n)
  case Nil
  then show ?case by simp
next
  case (Cons ev evs)
  obtain b tr1 rs1 m where c: "trickle_call params ev tr rolls = Some (b, tr1, rs1)"
      "trickle_run params evs tr1 rs1 = Some (m, tr', rs)"
    using Cons.prems(1) by (auto simp del: trickle_call.simps split: Option.bind_splits prod.splits)
  show ?case by (rule Cons.IH [OF c(2) trickle_call_inv [OF assms Cons.prems(2) c(1)]])
qed

section \<open>The largest delay\<close>

lemma timer_max_loop_sum:
  assumes "unat time_I = min (unat (Imax params)) (2 ^ i * x)" and "unat sm + 65536 * n < 4294967296"
  shows "unat (timer_max_loop params n time_I sm) =
    unat sm + (\<Sum>j = Suc i..i + n. min (unat (Imax params)) (2 ^ j * x))"
  using assms
proof (induction n arbitrary: i time_I sm)
  case 0
  then show ?case by simp
next
  case (Suc n)
  let ?d = "double_interval (Imax params) time_I"
  have d: "unat ?d = min (unat (Imax params)) (2 ^ Suc i * x)"
    using Suc.prems(1) unat_u16_lt [of "Imax params"] by (auto simp: double_interval_nat)
  have u: "unat (ucast ?d :: u32) = unat ?d" by (simp add: unat_ucast_up)
  have s: "unat (sm + ucast ?d) = unat sm + unat ?d"
    using Suc.prems(2) unat_u16_lt [of ?d] by (subst unat_add_nowrap) (simp_all add: u)
  have "unat (sm + ucast ?d) + 65536 * n < 4294967296"
    using Suc.prems(2) unat_u16_lt [of ?d] by (simp add: s)
  from Suc.IH [OF d this]
  have "unat (timer_max_loop params (Suc n) time_I sm) = unat sm + unat ?d +
      (\<Sum>j = Suc (Suc i)..Suc i + n. min (unat (Imax params)) (2 ^ j * x))"
    by (simp only: s timer_max_loop.simps Let_def)
  also have "\<dots> = unat sm + (\<Sum>j = Suc i..i + Suc n. min (unat (Imax params)) (2 ^ j * x))"
    by (subst sum.atLeast_Suc_atMost [of "Suc i"]) (simp_all add: d)
  finally show ?case .
qed

section \<open>Properties\<close>

text \<open>
  C37. On every state a started timer can reach, whatever the calls and the random numbers, the
  interval is in \<open>[Imin, Imax]\<close>, the transmission point in the second half of the interval and
  the clock before its end; and a call of \<open>trickle_timer\<close> answers yes exactly when the timer
  runs, the clock passes the transmission point and fewer than \<open>k\<close> consistent messages were heard
  (or \<open>k\<close> is 0).
\<close>

theorem trickle_rfc6206:
  assumes "wf_params params" and "trickle_reach params tr"
  shows "trickle_inv params tr \<and>
    (\<forall>ticks rolls b tr' rs. trickle_timer tr params ticks rolls = Some (b, tr', rs) \<longrightarrow>
       b = (trickle_running tr params \<and> tk_now tr < tk_t tr \<and>
            unat (tk_t tr) \<le> unat (tk_now tr) + unat ticks \<and>
            (tk_c tr < redundancy params \<or> redundancy params = 0)))"
proof -
  have "unat (tk_t tr) \<le> 65535" using unat_u16_lt [of "tk_t tr"] by simp
  then have "tk_t tr \<le> advanced tr ticks \<longleftrightarrow> unat (tk_t tr) \<le> unat (tk_now tr) + unat ticks" for ticks
    by (simp add: word_le_nat_alt advanced_nat)
  moreover have "trickle_inv params tr"
    using assms(2) trickle_start_inv(1) [OF assms(1)] trickle_call_inv [OF assms(1)]
    by (induction) blast+
  ultimately show ?thesis
    by (auto simp: trickle_timer_cases fires_def split: if_splits)
qed

theorem trickle_rfc6206_witness:
  "trickle_inv \<lparr>Imin = 2, Imax = 2, redundancy = 1, TimerExpirations = 5\<rparr>
     \<lparr>debug_name = [], tk_c = 0, tk_e = 0, tk_I = 2, tk_t = 1, tk_now = 0\<rparr>"
proof -
  let ?p = "\<lparr>Imin = 2, Imax = 2, redundancy = 1, TimerExpirations = 5\<rparr>"
  let ?tr = "\<lparr>debug_name = [], tk_c = 0, tk_e = 0, tk_I = 2, tk_t = 1, tk_now = 0\<rparr>"
  have "trickle_start ?tr [] ?p [] = Some (?tr, [])"
    by (simp add: trickle_start_def range_same trickle_begin_interval_def)
  then have "trickle_reach ?p ?tr" by (rule trickle_reach.start)
  moreover have "wf_params ?p" by (simp add: wf_params_def)
  ultimately show ?thesis using trickle_rfc6206 [of ?p ?tr] by blast
qed

text \<open>
  C36. A started timer with a limit of fewer than 255 expirations, told only of ticks and of
  consistent messages, asks for at most \<open>TimerExpirations\<close> transmissions. It stops: after
  \<open>TimerExpirations * Imax\<close> calls with a positive number of ticks it runs no more, and without
  suppression (\<open>k = 0\<close>) it has then asked for exactly \<open>TimerExpirations\<close> transmissions.
\<close>

theorem trickle_transmissions:
  assumes "wf_params params" and "TimerExpirations params < 0xFF"
    and "trickle_start tr0 name params rolls0 = Some (tr, rs0)"
    and "list_all quiet evs" and "list_all good_roll rolls" and "length evs \<le> length rolls"
  shows "\<exists>n tr' rs. trickle_run params evs tr rolls = Some (n, tr', rs) \<and>
    n \<le> unat (TimerExpirations params) \<and>
    (\<not> trickle_running tr' params \<and> redundancy params = 0 \<longrightarrow> n = unat (TimerExpirations params)) \<and>
    (unat (TimerExpirations params) * unat (Imax params) \<le> length (filter is_tick evs) \<longrightarrow>
       \<not> trickle_running tr' params)"
proof -
  note st = trickle_start_inv [OF assms(1,3)]
  have le: "tk_e tr \<le> TimerExpirations params" using st(2) by simp
  obtain n tr' rs where r: "trickle_run params evs tr rolls = Some (n, tr', rs)"
    using trickle_run_returns [of rolls evs params tr] assms(5,6) by (auto simp: list_all_iff)
  have "\<not> past_t tr" using st(3) inv_t(1) [OF st(1) assms(1)] by (simp add: past_t_def not_le)
  then have c0: "credit params tr = 0" by (simp add: credit_def st(2))
  note c = run_credit [OF assms(1,2) r st(1) assms(4) le]
  note cb = credit_bound [of tr' params]
  have "\<not> trickle_running tr' params"
    if "unat (TimerExpirations params) * unat (Imax params) \<le> length (filter is_tick evs)"
  proof
    assume run: "trickle_running tr' params"
    have "ticks_left params tr' + length (filter is_tick evs) \<le> ticks_left params tr"
      using run_ticks_left [OF assms(1,2) r st(1) assms(4) run] by simp
    moreover have "ticks_left params tr = unat (TimerExpirations params) * unat (Imax params)"
      by (simp add: ticks_left_def st)
    ultimately show False
      using ticks_left_positive [OF run_inv [OF assms(1) r st(1)] run] that by simp
  qed
  then show ?thesis using r c c0 cb by auto
qed

theorem trickle_transmissions_witness:
  "\<exists>n tr' rs. trickle_run \<lparr>Imin = 2, Imax = 2, redundancy = 0, TimerExpirations = 1\<rparr>
      [Tick 1, Consistent, Tick 3]
      \<lparr>debug_name = [], tk_c = 0, tk_e = 0, tk_I = 2, tk_t = 1, tk_now = 0\<rparr> [5, 6, 7] = Some (n, tr', rs) \<and>
    n \<le> 1 \<and> (\<not> trickle_running tr' \<lparr>Imin = 2, Imax = 2, redundancy = 0, TimerExpirations = 1\<rparr> \<longrightarrow> n = 1) \<and>
    \<not> trickle_running tr' \<lparr>Imin = 2, Imax = 2, redundancy = 0, TimerExpirations = 1\<rparr>"
  using trickle_transmissions [of "\<lparr>Imin = 2, Imax = 2, redundancy = 0, TimerExpirations = 1\<rparr>"
      "\<lparr>debug_name = [], tk_c = 0, tk_e = 0, tk_I = 0, tk_t = 0, tk_now = 0\<rparr>" "[]" "[]"
      "\<lparr>debug_name = [], tk_c = 0, tk_e = 0, tk_I = 2, tk_t = 1, tk_now = 0\<rparr>" "[]"
      "[Tick 1, Consistent, Tick 3]" "[5, 6, 7]"]
  by (simp add: wf_params_def trickle_start_def range_same trickle_begin_interval_def good_roll_def)

text \<open>
  \<open>trickle_timer_max\<close> adds up the intervals \<open>Imin - 1\<close>, doubled after each expiration and
  cut at \<open>Imax\<close>; neither the 16 bit interval nor the 32 bit sum wraps.
\<close>

theorem trickle_timer_max_sum:
  assumes "wf_params params"
  shows "unat (trickle_timer_max params n) =
    (\<Sum>i = 0..unat n. min (unat (Imax params)) (2 ^ i * (unat (Imin params) - 1)))"
proof -
  let ?x = "unat (Imin params) - 1"
  have "unat (Imin params - 1) = ?x"
    using unat_sub [of 1 "Imin params"] assms by (simp add: wf_params_def)
  then have x: "unat (Imin params - 1) = ?x" "?x \<le> unat (Imax params)"
    using assms by (auto simp: wf_params_def word_le_nat_alt)
  have u: "unat (ucast (Imin params - 1) :: u32) = ?x" using x(1) unat_ucast_up [of "Imin params - 1", where 'a = 32] by simp
  have "?x + 65536 * unat n < 4294967296"
    using unat_u16_lt [of "Imin params"] unat_u8_lt [of n] by linarith
  then have "unat (trickle_timer_max params n) = ?x + (\<Sum>j = Suc 0..0 + unat n. min (unat (Imax params)) (2 ^ j * ?x))"
    unfolding trickle_timer_max_def Let_def
    using timer_max_loop_sum [of "Imin params - 1" params 0 ?x "ucast (Imin params - 1)" "unat n"] x u by simp
  also have "\<dots> = (\<Sum>i = 0..unat n. min (unat (Imax params)) (2 ^ i * ?x))"
    using x(2) by (subst sum.atLeast_Suc_atMost) simp_all
  finally show ?thesis .
qed

theorem trickle_timer_max_sum_witness:
  "unat (trickle_timer_max \<lparr>Imin = 11, Imax = 60, redundancy = 1, TimerExpirations = 3\<rparr> 3) =
    (\<Sum>i = 0..unat (3 :: u8). min 60 (2 ^ i * 10))"
  using trickle_timer_max_sum [of "\<lparr>Imin = 11, Imax = 60, redundancy = 1, TimerExpirations = 3\<rparr>" 3]
  by (simp add: wf_params_def)

end
