(* ===== verification/Endian.thy ===== *)
theory Endian
  imports Prelude
begin

text \<open>
  \<open>src/common/endian.c\<close>: the readers and writers of 16, 24, 32 and 64 bit numbers in both
  byte orders. A pointer argument is the object from that pointer on; a reader returns the
  value, a writer the object after its stores (the pointer \<open>ptr + n\<close> it returns in C is a
  constant offset). \<open>uint24_t\<close> is \<open>uint32_t\<close>, as in \<open>int24.h\<close>.

  The locale \<open>byte_codec\<close> is the contract of a reader and a writer of the same width and
  byte order, stated against the reference encodings of the prelude; each of the eight pairs
  is an interpretation of it.
\<close>

section \<open>Readers\<close>

definition read_be16 :: "u8 list \<Rightarrow> u16 option" where
  "read_be16 ptr =
     do { p0 \<leftarrow> load ptr 0; p1 \<leftarrow> load ptr 1;
          Some (push_bit 8 (ucast p0) OR ucast p1) }"

definition read_le16 :: "u8 list \<Rightarrow> u16 option" where
  "read_le16 ptr =
     do { p0 \<leftarrow> load ptr 0; p1 \<leftarrow> load ptr 1;
          Some (push_bit 8 (ucast p1) OR ucast p0) }"

definition read_be24 :: "u8 list \<Rightarrow> u32 option" where
  "read_be24 ptr =
     do { p0 \<leftarrow> load ptr 0; p1 \<leftarrow> load ptr 1; p2 \<leftarrow> load ptr 2;
          Some (push_bit 16 (ucast p0) OR push_bit 8 (ucast p1) OR ucast p2) }"

definition read_le24 :: "u8 list \<Rightarrow> u32 option" where
  "read_le24 ptr =
     do { p0 \<leftarrow> load ptr 0; p1 \<leftarrow> load ptr 1; p2 \<leftarrow> load ptr 2;
          Some (push_bit 16 (ucast p2) OR push_bit 8 (ucast p1) OR ucast p0) }"

definition read_be32 :: "u8 list \<Rightarrow> u32 option" where
  "read_be32 ptr =
     do { p0 \<leftarrow> load ptr 0; p1 \<leftarrow> load ptr 1; p2 \<leftarrow> load ptr 2; p3 \<leftarrow> load ptr 3;
          Some (push_bit 24 (ucast p0) OR push_bit 16 (ucast p1) OR push_bit 8 (ucast p2) OR ucast p3) }"

definition read_le32 :: "u8 list \<Rightarrow> u32 option" where
  "read_le32 ptr =
     do { p0 \<leftarrow> load ptr 0; p1 \<leftarrow> load ptr 1; p2 \<leftarrow> load ptr 2; p3 \<leftarrow> load ptr 3;
          Some (push_bit 24 (ucast p3) OR push_bit 16 (ucast p2) OR push_bit 8 (ucast p1) OR ucast p0) }"

definition read_be64 :: "u8 list \<Rightarrow> u64 option" where
  "read_be64 ptr =
     do { p0 \<leftarrow> load ptr 0; p1 \<leftarrow> load ptr 1; p2 \<leftarrow> load ptr 2; p3 \<leftarrow> load ptr 3;
          p4 \<leftarrow> load ptr 4; p5 \<leftarrow> load ptr 5; p6 \<leftarrow> load ptr 6; p7 \<leftarrow> load ptr 7;
          Some (push_bit 56 (ucast p0) OR push_bit 48 (ucast p1) OR push_bit 40 (ucast p2) OR push_bit 32 (ucast p3)
                OR push_bit 24 (ucast p4) OR push_bit 16 (ucast p5) OR push_bit 8 (ucast p6) OR ucast p7) }"

definition read_le64 :: "u8 list \<Rightarrow> u64 option" where
  "read_le64 ptr =
     do { p0 \<leftarrow> load ptr 0; p1 \<leftarrow> load ptr 1; p2 \<leftarrow> load ptr 2; p3 \<leftarrow> load ptr 3;
          p4 \<leftarrow> load ptr 4; p5 \<leftarrow> load ptr 5; p6 \<leftarrow> load ptr 6; p7 \<leftarrow> load ptr 7;
          Some (push_bit 56 (ucast p7) OR push_bit 48 (ucast p6) OR push_bit 40 (ucast p5) OR push_bit 32 (ucast p4)
                OR push_bit 24 (ucast p3) OR push_bit 16 (ucast p2) OR push_bit 8 (ucast p1) OR ucast p0) }"

section \<open>Writers\<close>

definition write_be16 :: "u8 list \<Rightarrow> u16 \<Rightarrow> u8 list option" where
  "write_be16 ptr val =
     do { ptr \<leftarrow> store ptr 0 (ucast (drop_bit 8 val)); ptr \<leftarrow> store ptr 1 (ucast val);
          Some ptr }"

definition write_le16 :: "u8 list \<Rightarrow> u16 \<Rightarrow> u8 list option" where
  "write_le16 ptr val =
     do { ptr \<leftarrow> store ptr 0 (ucast val); ptr \<leftarrow> store ptr 1 (ucast (drop_bit 8 val));
          Some ptr }"

definition write_be24 :: "u8 list \<Rightarrow> u32 \<Rightarrow> u8 list option" where
  "write_be24 ptr val =
     do { ptr \<leftarrow> store ptr 0 (ucast (drop_bit 16 val)); ptr \<leftarrow> store ptr 1 (ucast (drop_bit 8 val));
          ptr \<leftarrow> store ptr 2 (ucast val);
          Some ptr }"

definition write_le24 :: "u8 list \<Rightarrow> u32 \<Rightarrow> u8 list option" where
  "write_le24 ptr val =
     do { ptr \<leftarrow> store ptr 0 (ucast val); ptr \<leftarrow> store ptr 1 (ucast (drop_bit 8 val));
          ptr \<leftarrow> store ptr 2 (ucast (drop_bit 16 val));
          Some ptr }"

definition write_be32 :: "u8 list \<Rightarrow> u32 \<Rightarrow> u8 list option" where
  "write_be32 ptr val =
     do { ptr \<leftarrow> store ptr 0 (ucast (drop_bit 24 val)); ptr \<leftarrow> store ptr 1 (ucast (drop_bit 16 val));
          ptr \<leftarrow> store ptr 2 (ucast (drop_bit 8 val)); ptr \<leftarrow> store ptr 3 (ucast val);
          Some ptr }"

definition write_le32 :: "u8 list \<Rightarrow> u32 \<Rightarrow> u8 list option" where
  "write_le32 ptr val =
     do { ptr \<leftarrow> store ptr 0 (ucast val); ptr \<leftarrow> store ptr 1 (ucast (drop_bit 8 val));
          ptr \<leftarrow> store ptr 2 (ucast (drop_bit 16 val)); ptr \<leftarrow> store ptr 3 (ucast (drop_bit 24 val));
          Some ptr }"

definition write_be64 :: "u8 list \<Rightarrow> u64 \<Rightarrow> u8 list option" where
  "write_be64 ptr val =
     do { ptr \<leftarrow> store ptr 0 (ucast (drop_bit 56 val)); ptr \<leftarrow> store ptr 1 (ucast (drop_bit 48 val));
          ptr \<leftarrow> store ptr 2 (ucast (drop_bit 40 val)); ptr \<leftarrow> store ptr 3 (ucast (drop_bit 32 val));
          ptr \<leftarrow> store ptr 4 (ucast (drop_bit 24 val)); ptr \<leftarrow> store ptr 5 (ucast (drop_bit 16 val));
          ptr \<leftarrow> store ptr 6 (ucast (drop_bit 8 val)); ptr \<leftarrow> store ptr 7 (ucast val);
          Some ptr }"

definition write_le64 :: "u8 list \<Rightarrow> u64 \<Rightarrow> u8 list option" where
  "write_le64 ptr val =
     do { ptr \<leftarrow> store ptr 0 (ucast val); ptr \<leftarrow> store ptr 1 (ucast (drop_bit 8 val));
          ptr \<leftarrow> store ptr 2 (ucast (drop_bit 16 val)); ptr \<leftarrow> store ptr 3 (ucast (drop_bit 24 val));
          ptr \<leftarrow> store ptr 4 (ucast (drop_bit 32 val)); ptr \<leftarrow> store ptr 5 (ucast (drop_bit 40 val));
          ptr \<leftarrow> store ptr 6 (ucast (drop_bit 48 val)); ptr \<leftarrow> store ptr 7 (ucast (drop_bit 56 val));
          Some ptr }"

section \<open>The contract of a codec\<close>

locale byte_codec =
  fixes rd :: "u8 list \<Rightarrow> 'a::len word option"
    and wr :: "u8 list \<Rightarrow> 'a word \<Rightarrow> u8 list option"
    and width :: nat
    and enc :: "nat \<Rightarrow> u8 list"
    and dec :: "u8 list \<Rightarrow> nat"
  assumes enc_length: "length (enc x) = width"
    and dec_enc: "dec (enc x) = x mod 256 ^ width"
    and enc_dec: "length bs = width \<Longrightarrow> enc (dec bs) = bs"
    and rd_long: "width \<le> length p \<Longrightarrow> \<exists>v. rd p = Some v \<and> unat v = dec (take width p)"
    and rd_short: "length p < width \<Longrightarrow> rd p = None"
    and wr_long: "width \<le> length p \<Longrightarrow> wr p v = Some (enc (unat v) @ drop width p)"
    and wr_short: "length p < width \<Longrightarrow> wr p v = None"
begin

lemma rd_enc_append:
  assumes "unat v < 256 ^ width"
  shows "rd (enc (unat v) @ r) = Some v"
proof -
  obtain v' where v': "rd (enc (unat v) @ r) = Some v'" "unat v' = dec (take width (enc (unat v) @ r))"
    using rd_long [of "enc (unat v) @ r"] by (auto simp: enc_length)
  have "unat v' = unat v"
    using assms v'(2) by (simp add: enc_length dec_enc)
  then show ?thesis using v'(1) by (simp add: word_unat_eq_iff)
qed

lemma read_after_write:
  assumes "wr p v = Some p'" and "unat v < 256 ^ width"
  shows "rd p' = Some v"
proof -
  have "p' = enc (unat v) @ drop width p"
    using assms(1) wr_long [of p v] wr_short [of p v] by (cases "width \<le> length p") auto
  then show ?thesis using assms(2) by (simp add: rd_enc_append)
qed

lemma write_after_read:
  assumes "rd p = Some v"
  shows "wr p v = Some p"
proof -
  have len: "width \<le> length p"
    using assms rd_short [of p] by (metis not_less option.distinct(1))
  then have "unat v = dec (take width p)"
    using assms rd_long [of p] by auto
  then have "enc (unat v) = take width p"
    using len by (simp add: enc_dec)
  then show ?thesis using wr_long [OF len, of v] by simp
qed

lemma bind_wr_rd_gen:
  assumes "unat v' = unat v mod 256 ^ width"
  shows "wr p v \<bind> rd = (if width \<le> length p then Some v' else None)"
proof (cases "width \<le> length p")
  case True
  obtain w where "rd (enc (unat v) @ drop width p) = Some w" "unat w = dec (enc (unat v))"
    using rd_long [of "enc (unat v) @ drop width p"] by (auto simp: enc_length)
  then show ?thesis using True assms by (simp add: wr_long dec_enc word_unat_eq_iff)
qed (simp add: wr_short)

lemma bind_wr_rd:
  assumes "LENGTH('a) = 8 * width"
  shows "wr p v \<bind> rd = (if width \<le> length p then Some v else None)"
proof (rule bind_wr_rd_gen)
  have "unat v < 256 ^ width"
    using unsigned_less [of v] assms by (simp add: power_mult)
  then show "unat v = unat v mod 256 ^ width" by simp
qed

lemma with_ptr_wr:
  assumes "off + width \<le> length m"
  shows "with_ptr m off (\<lambda>p. wr p v) = store_n m off (enc (unat v))"
  using assms by (simp add: with_ptr_def store_n_def wr_long enc_length add.commute)

lemma rd_drop_enc:
  assumes "unat v < 256 ^ width" and "drop off m = enc (unat v) @ r"
  shows "rd (drop off m) = Some v"
  using assms by (simp add: rd_enc_append)

end

section \<open>The eight codecs\<close>

lemmas read_defs = read_be16_def read_le16_def read_be24_def read_le24_def
  read_be32_def read_le32_def read_be64_def read_le64_def

lemmas write_defs = write_be16_def write_le16_def write_be24_def write_le24_def
  write_be32_def write_le32_def write_be64_def write_le64_def

lemma wide_list:
  "2 \<le> length p \<longleftrightarrow> (\<exists>a b r. p = a # b # r)"
  "3 \<le> length p \<longleftrightarrow> (\<exists>a b c r. p = a # b # c # r)"
  "4 \<le> length p \<longleftrightarrow> (\<exists>a b c d r. p = a # b # c # d # r)"
  "8 \<le> length p \<longleftrightarrow> (\<exists>a b c d e f g h r. p = a # b # c # d # e # f # g # h # r)"
  by (auto simp: numeral_eq_Suc Suc_le_length_iff)

lemma read_words:
  "2 \<le> length p \<Longrightarrow> read_be16 p = Some (le_word (rev (take 2 p)))"
  "2 \<le> length p \<Longrightarrow> read_le16 p = Some (le_word (take 2 p))"
  "3 \<le> length p \<Longrightarrow> read_be24 p = Some (le_word (rev (take 3 p)))"
  "3 \<le> length p \<Longrightarrow> read_le24 p = Some (le_word (take 3 p))"
  "4 \<le> length p \<Longrightarrow> read_be32 p = Some (le_word (rev (take 4 p)))"
  "4 \<le> length p \<Longrightarrow> read_le32 p = Some (le_word (take 4 p))"
  "8 \<le> length p \<Longrightarrow> read_be64 p = Some (le_word (rev (take 8 p)))"
  "8 \<le> length p \<Longrightarrow> read_le64 p = Some (le_word (take 8 p))"
  by (auto simp: wide_list read_defs load_def push_bit_or ac_simps)

lemma write_words:
  "2 \<le> length p \<Longrightarrow> write_be16 p v16 = Some (be_bytes 2 (unat v16) @ drop 2 p)"
  "2 \<le> length p \<Longrightarrow> write_le16 p v16 = Some (le_bytes 2 (unat v16) @ drop 2 p)"
  "3 \<le> length p \<Longrightarrow> write_be24 p v24 = Some (be_bytes 3 (unat v24) @ drop 3 p)"
  "3 \<le> length p \<Longrightarrow> write_le24 p v24 = Some (le_bytes 3 (unat v24) @ drop 3 p)"
  "4 \<le> length p \<Longrightarrow> write_be32 p v32 = Some (be_bytes 4 (unat v32) @ drop 4 p)"
  "4 \<le> length p \<Longrightarrow> write_le32 p v32 = Some (le_bytes 4 (unat v32) @ drop 4 p)"
  "8 \<le> length p \<Longrightarrow> write_be64 p v64 = Some (be_bytes 8 (unat v64) @ drop 8 p)"
  "8 \<le> length p \<Longrightarrow> write_le64 p v64 = Some (le_bytes 8 (unat v64) @ drop 8 p)"
  by (auto simp: wide_list write_defs store_def be_bytes_def le_bytes_unat upt_rec)

lemma read_short:
  "length p < 2 \<Longrightarrow> read_be16 p = None" "length p < 2 \<Longrightarrow> read_le16 p = None"
  "length p < 3 \<Longrightarrow> read_be24 p = None" "length p < 3 \<Longrightarrow> read_le24 p = None"
  "length p < 4 \<Longrightarrow> read_be32 p = None" "length p < 4 \<Longrightarrow> read_le32 p = None"
  "length p < 8 \<Longrightarrow> read_be64 p = None" "length p < 8 \<Longrightarrow> read_le64 p = None"
  by (auto simp: read_defs load_def Option.bind_eq_None_conv)

lemma write_short:
  "length p < 2 \<Longrightarrow> write_be16 p v16 = None" "length p < 2 \<Longrightarrow> write_le16 p v16 = None"
  "length p < 3 \<Longrightarrow> write_be24 p v24 = None" "length p < 3 \<Longrightarrow> write_le24 p v24 = None"
  "length p < 4 \<Longrightarrow> write_be32 p v32 = None" "length p < 4 \<Longrightarrow> write_le32 p v32 = None"
  "length p < 8 \<Longrightarrow> write_be64 p v64 = None" "length p < 8 \<Longrightarrow> write_le64 p v64 = None"
  by (simp_all add: write_defs store_def)

lemmas codec_laws = read_words read_short write_words write_short unat_le_word
  le_val_le_bytes be_val_be_bytes be_bytes_be_val be_val_def [symmetric]

lemma le_bytes_le_val_n: "length bs = n \<Longrightarrow> le_bytes n (le_val bs) = bs"
  using le_bytes_le_val [of bs] by simp

interpretation be16: byte_codec read_be16 write_be16 2 "be_bytes 2" be_val
  by unfold_locales (simp_all add: codec_laws le_bytes_le_val_n)

interpretation le16: byte_codec read_le16 write_le16 2 "le_bytes 2" le_val
  by unfold_locales (simp_all add: codec_laws le_bytes_le_val_n)

interpretation be24: byte_codec read_be24 write_be24 3 "be_bytes 3" be_val
  by unfold_locales (simp_all add: codec_laws le_bytes_le_val_n)

interpretation le24: byte_codec read_le24 write_le24 3 "le_bytes 3" le_val
  by unfold_locales (simp_all add: codec_laws le_bytes_le_val_n)

interpretation be32: byte_codec read_be32 write_be32 4 "be_bytes 4" be_val
  by unfold_locales (simp_all add: codec_laws le_bytes_le_val_n)

interpretation le32: byte_codec read_le32 write_le32 4 "le_bytes 4" le_val
  by unfold_locales (simp_all add: codec_laws le_bytes_le_val_n)

interpretation be64: byte_codec read_be64 write_be64 8 "be_bytes 8" be_val
  by unfold_locales (simp_all add: codec_laws le_bytes_le_val_n)

interpretation le64: byte_codec read_le64 write_le64 8 "le_bytes 8" le_val
  by unfold_locales (simp_all add: codec_laws le_bytes_le_val_n)

section \<open>Properties\<close>

text \<open>
  Every writer of \<open>endian.c\<close> followed by the reader of the same width and byte order gives
  back the value written (its low 24 bits for the 24 bit pair, whose values are carried in 32
  bits), and both fail exactly when the object is shorter than the number.
\<close>

theorem endian_round_trip:
  "write_be16 p v16 \<bind> read_be16 = (if 2 \<le> length p then Some v16 else None) \<and>
   write_le16 p v16 \<bind> read_le16 = (if 2 \<le> length p then Some v16 else None) \<and>
   write_be24 p v32 \<bind> read_be24 = (if 3 \<le> length p then Some (take_bit 24 v32) else None) \<and>
   write_le24 p v32 \<bind> read_le24 = (if 3 \<le> length p then Some (take_bit 24 v32) else None) \<and>
   write_be32 p v32 \<bind> read_be32 = (if 4 \<le> length p then Some v32 else None) \<and>
   write_le32 p v32 \<bind> read_le32 = (if 4 \<le> length p then Some v32 else None) \<and>
   write_be64 p v64 \<bind> read_be64 = (if 8 \<le> length p then Some v64 else None) \<and>
   write_le64 p v64 \<bind> read_le64 = (if 8 \<le> length p then Some v64 else None)"
  by (intro conjI be16.bind_wr_rd le16.bind_wr_rd be24.bind_wr_rd_gen le24.bind_wr_rd_gen
      be32.bind_wr_rd le32.bind_wr_rd be64.bind_wr_rd le64.bind_wr_rd)
     (simp_all add: take_bit_eq_mod unat_mod_distrib)

end
