(* ===== verification/Iobuf.thy ===== *)
theory Iobuf
  imports Endian
begin

text \<open>
  \<open>src/common/iobuf.c\<close>: the growing output buffer and the bounds-checked input cursor every
  frame of the border router is built and parsed with.

  \<^item> \<open>iobuf_write\<close>: \<open>wdata\<close> is the allocated object, \<open>wlen\<close> the bytes in use. The
    bytes \<open>realloc\<close> adds are indeterminate in C and zero here; \<open>wbytes\<close>, the contents,
    never includes them. A failed allocation aborts in C (\<open>BUG_ON\<close>) and is not modelled.
  \<^item> \<open>iobuf_read\<close>: the counters are C \<open>int\<close>s and are compared with a \<open>size_t\<close> by
    \<open>iobuf_validate\<close>, which converts a negative remaining size to a huge one; the
    conversion is written out.

  \<open>pushes\<close> and \<open>pops\<close> state the abstract behaviour (append to a byte list, consume from the
  front of a byte list or fail for good) and the lemmas show that every operation has it.
\<close>

section \<open>Output buffers\<close>

record iobuf_write =
  wdata_size :: nat
  wlen :: nat
  wdata :: "u8 list"

definition iobuf_init :: iobuf_write where
  "iobuf_init = \<lparr>wdata_size = 0, wlen = 0, wdata = []\<rparr>"

definition realloc :: "u8 list \<Rightarrow> nat \<Rightarrow> u8 list" where
  "realloc m n = take n m @ replicate (n - length m) 0"

definition iobuf_enlarge_buffer :: "iobuf_write \<Rightarrow> nat \<Rightarrow> iobuf_write" where
  "iobuf_enlarge_buffer buf new_data_size =
     (if wdata_size buf < wlen buf + new_data_size
      then let n = max 64 (wlen buf + new_data_size)
           in buf\<lparr>wdata_size := n, wdata := realloc (wdata buf) n\<rparr>
      else buf)"

definition iobuf_push_u8 :: "iobuf_write \<Rightarrow> u8 \<Rightarrow> iobuf_write option" where
  "iobuf_push_u8 buf val =
     (let buf = iobuf_enlarge_buffer buf 1 in
      do { d \<leftarrow> store (wdata buf) (wlen buf) val;
           Some (buf\<lparr>wdata := d, wlen := wlen buf + 1\<rparr>) })"

definition iobuf_push_be16 :: "iobuf_write \<Rightarrow> u16 \<Rightarrow> iobuf_write option" where
  "iobuf_push_be16 buf val =
     (let buf = iobuf_enlarge_buffer buf 2 in
      do { d \<leftarrow> with_ptr (wdata buf) (wlen buf) (\<lambda>p. write_be16 p val);
           Some (buf\<lparr>wdata := d, wlen := wlen buf + 2\<rparr>) })"

definition iobuf_push_le16 :: "iobuf_write \<Rightarrow> u16 \<Rightarrow> iobuf_write option" where
  "iobuf_push_le16 buf val =
     (let buf = iobuf_enlarge_buffer buf 2 in
      do { d \<leftarrow> with_ptr (wdata buf) (wlen buf) (\<lambda>p. write_le16 p val);
           Some (buf\<lparr>wdata := d, wlen := wlen buf + 2\<rparr>) })"

definition iobuf_push_be24 :: "iobuf_write \<Rightarrow> u32 \<Rightarrow> iobuf_write option" where
  "iobuf_push_be24 buf val =
     (let buf = iobuf_enlarge_buffer buf 3 in
      do { d \<leftarrow> with_ptr (wdata buf) (wlen buf) (\<lambda>p. write_be24 p val);
           Some (buf\<lparr>wdata := d, wlen := wlen buf + 3\<rparr>) })"

definition iobuf_push_le24 :: "iobuf_write \<Rightarrow> u32 \<Rightarrow> iobuf_write option" where
  "iobuf_push_le24 buf val =
     (let buf = iobuf_enlarge_buffer buf 3 in
      do { d \<leftarrow> with_ptr (wdata buf) (wlen buf) (\<lambda>p. write_le24 p val);
           Some (buf\<lparr>wdata := d, wlen := wlen buf + 3\<rparr>) })"

definition iobuf_push_be32 :: "iobuf_write \<Rightarrow> u32 \<Rightarrow> iobuf_write option" where
  "iobuf_push_be32 buf val =
     (let buf = iobuf_enlarge_buffer buf 4 in
      do { d \<leftarrow> with_ptr (wdata buf) (wlen buf) (\<lambda>p. write_be32 p val);
           Some (buf\<lparr>wdata := d, wlen := wlen buf + 4\<rparr>) })"

definition iobuf_push_le32 :: "iobuf_write \<Rightarrow> u32 \<Rightarrow> iobuf_write option" where
  "iobuf_push_le32 buf val =
     (let buf = iobuf_enlarge_buffer buf 4 in
      do { d \<leftarrow> with_ptr (wdata buf) (wlen buf) (\<lambda>p. write_le32 p val);
           Some (buf\<lparr>wdata := d, wlen := wlen buf + 4\<rparr>) })"

definition iobuf_push_be64 :: "iobuf_write \<Rightarrow> u64 \<Rightarrow> iobuf_write option" where
  "iobuf_push_be64 buf val =
     (let buf = iobuf_enlarge_buffer buf 8 in
      do { d \<leftarrow> with_ptr (wdata buf) (wlen buf) (\<lambda>p. write_be64 p val);
           Some (buf\<lparr>wdata := d, wlen := wlen buf + 8\<rparr>) })"

definition iobuf_push_le64 :: "iobuf_write \<Rightarrow> u64 \<Rightarrow> iobuf_write option" where
  "iobuf_push_le64 buf val =
     (let buf = iobuf_enlarge_buffer buf 8 in
      do { d \<leftarrow> with_ptr (wdata buf) (wlen buf) (\<lambda>p. write_le64 p val);
           Some (buf\<lparr>wdata := d, wlen := wlen buf + 8\<rparr>) })"

definition iobuf_push_data :: "iobuf_write \<Rightarrow> u8 list \<Rightarrow> nat \<Rightarrow> iobuf_write option" where
  "iobuf_push_data buf val num =
     (let buf = iobuf_enlarge_buffer buf num in
      do { bs \<leftarrow> load_n val 0 num;
           d \<leftarrow> store_n (wdata buf) (wlen buf) bs;
           Some (buf\<lparr>wdata := d, wlen := wlen buf + num\<rparr>) })"

definition iobuf_push_data_reserved :: "iobuf_write \<Rightarrow> nat \<Rightarrow> iobuf_write option" where
  "iobuf_push_data_reserved buf num =
     (let buf = iobuf_enlarge_buffer buf num in
      do { d \<leftarrow> store_n (wdata buf) (wlen buf) (replicate num 0xAA);
           Some (buf\<lparr>wdata := d, wlen := wlen buf + num\<rparr>) })"

definition iobuf_free :: "iobuf_write \<Rightarrow> iobuf_write" where
  "iobuf_free buf = buf\<lparr>wdata_size := 0, wlen := 0, wdata := []\<rparr>"

section \<open>Input buffers\<close>

record iobuf_read =
  rdata_size :: int
  rcnt :: int
  rerr :: bool
  rdata :: "u8 list"

text \<open>A reader on \<open>n\<close> bytes of an object, as the C initialisers of \<open>.data_size\<close> and \<open>.data\<close> make it.\<close>

definition iobuf_reader :: "u8 list \<Rightarrow> int \<Rightarrow> iobuf_read" where
  "iobuf_reader bs n = \<lparr>rdata_size = n, rcnt = 0, rerr = False, rdata = bs\<rparr>"

text \<open>\<open>buf->data + off\<close>; forming a pointer outside the object (or one past it) is undefined.\<close>

definition ptr_at :: "u8 list \<Rightarrow> int \<Rightarrow> u8 list option" where
  "ptr_at m off = (if 0 \<le> off \<and> off \<le> int (length m) then Some (drop (nat off) m) else None)"

definition iobuf_remaining_size :: "iobuf_read \<Rightarrow> int" where
  "iobuf_remaining_size buf = rdata_size buf - rcnt buf"

definition iobuf_ptr :: "iobuf_read \<Rightarrow> u8 list option" where
  "iobuf_ptr buf = ptr_at (rdata buf) (rcnt buf)"

text \<open>Conversion of an \<open>int\<close> to the 64 bit \<open>size_t\<close>.\<close>

definition to_size_t :: "int \<Rightarrow> int" where
  "to_size_t x = x mod 2 ^ 64"

definition iobuf_validate :: "iobuf_read \<Rightarrow> nat \<Rightarrow> iobuf_read \<times> bool" where
  "iobuf_validate buf data_size =
     (if rerr buf \<or> to_size_t (iobuf_remaining_size buf) < int data_size
      then (buf\<lparr>rcnt := rdata_size buf, rerr := True\<rparr>, False)
      else (buf, True))"

definition iobuf_pop_u8 :: "iobuf_read \<Rightarrow> (u8 \<times> iobuf_read) option" where
  "iobuf_pop_u8 buf =
     (let (buf, ok) = iobuf_validate buf 1 in
      if \<not> ok then Some (0, buf)
      else do { p \<leftarrow> ptr_at (rdata buf) (rcnt buf);
                val \<leftarrow> load p 0;
                Some (val, buf\<lparr>rcnt := rcnt buf + 1\<rparr>) })"

definition iobuf_pop_be16 :: "iobuf_read \<Rightarrow> (u16 \<times> iobuf_read) option" where
  "iobuf_pop_be16 buf =
     (let (buf, ok) = iobuf_validate buf 2 in
      if \<not> ok then Some (0, buf)
      else do { p \<leftarrow> ptr_at (rdata buf) (rcnt buf);
                val \<leftarrow> read_be16 p;
                Some (val, buf\<lparr>rcnt := rcnt buf + 2\<rparr>) })"

definition iobuf_pop_le16 :: "iobuf_read \<Rightarrow> (u16 \<times> iobuf_read) option" where
  "iobuf_pop_le16 buf =
     (let (buf, ok) = iobuf_validate buf 2 in
      if \<not> ok then Some (0, buf)
      else do { p \<leftarrow> ptr_at (rdata buf) (rcnt buf);
                val \<leftarrow> read_le16 p;
                Some (val, buf\<lparr>rcnt := rcnt buf + 2\<rparr>) })"

definition iobuf_pop_be24 :: "iobuf_read \<Rightarrow> (u32 \<times> iobuf_read) option" where
  "iobuf_pop_be24 buf =
     (let (buf, ok) = iobuf_validate buf 3 in
      if \<not> ok then Some (0, buf)
      else do { p \<leftarrow> ptr_at (rdata buf) (rcnt buf);
                val \<leftarrow> read_be24 p;
                Some (val, buf\<lparr>rcnt := rcnt buf + 3\<rparr>) })"

definition iobuf_pop_le24 :: "iobuf_read \<Rightarrow> (u32 \<times> iobuf_read) option" where
  "iobuf_pop_le24 buf =
     (let (buf, ok) = iobuf_validate buf 3 in
      if \<not> ok then Some (0, buf)
      else do { p \<leftarrow> ptr_at (rdata buf) (rcnt buf);
                val \<leftarrow> read_le24 p;
                Some (val, buf\<lparr>rcnt := rcnt buf + 3\<rparr>) })"

definition iobuf_pop_be32 :: "iobuf_read \<Rightarrow> (u32 \<times> iobuf_read) option" where
  "iobuf_pop_be32 buf =
     (let (buf, ok) = iobuf_validate buf 4 in
      if \<not> ok then Some (0, buf)
      else do { p \<leftarrow> ptr_at (rdata buf) (rcnt buf);
                val \<leftarrow> read_be32 p;
                Some (val, buf\<lparr>rcnt := rcnt buf + 4\<rparr>) })"

definition iobuf_pop_le32 :: "iobuf_read \<Rightarrow> (u32 \<times> iobuf_read) option" where
  "iobuf_pop_le32 buf =
     (let (buf, ok) = iobuf_validate buf 4 in
      if \<not> ok then Some (0, buf)
      else do { p \<leftarrow> ptr_at (rdata buf) (rcnt buf);
                val \<leftarrow> read_le32 p;
                Some (val, buf\<lparr>rcnt := rcnt buf + 4\<rparr>) })"

definition iobuf_pop_be64 :: "iobuf_read \<Rightarrow> (u64 \<times> iobuf_read) option" where
  "iobuf_pop_be64 buf =
     (let (buf, ok) = iobuf_validate buf 8 in
      if \<not> ok then Some (0, buf)
      else do { p \<leftarrow> ptr_at (rdata buf) (rcnt buf);
                val \<leftarrow> read_be64 p;
                Some (val, buf\<lparr>rcnt := rcnt buf + 8\<rparr>) })"

definition iobuf_pop_le64 :: "iobuf_read \<Rightarrow> (u64 \<times> iobuf_read) option" where
  "iobuf_pop_le64 buf =
     (let (buf, ok) = iobuf_validate buf 8 in
      if \<not> ok then Some (0, buf)
      else do { p \<leftarrow> ptr_at (rdata buf) (rcnt buf);
                val \<leftarrow> read_le64 p;
                Some (val, buf\<lparr>rcnt := rcnt buf + 8\<rparr>) })"

text \<open>
  \<open>iobuf_pop_data\<close> copies into the caller's array \<open>val\<close> (\<open>None\<close> for a null pointer), or clears
  it when the data is not there; \<open>iobuf_pop_data_ptr\<close> returns the offset of the data in the
  object, \<open>None\<close> for the null pointer.
\<close>

definition iobuf_pop_data ::
  "iobuf_read \<Rightarrow> u8 list option \<Rightarrow> nat \<Rightarrow> (u8 list option \<times> iobuf_read) option" where
  "iobuf_pop_data buf val sz =
     (let (buf, ok) = iobuf_validate buf sz in
      if \<not> ok then
        (case val of None \<Rightarrow> Some (None, buf)
         | Some v \<Rightarrow> do { v \<leftarrow> store_n v 0 (replicate sz 0); Some (Some v, buf) })
      else
        (case val of None \<Rightarrow> Some (None, buf\<lparr>rcnt := rcnt buf + int sz\<rparr>)
         | Some v \<Rightarrow> do { p \<leftarrow> ptr_at (rdata buf) (rcnt buf);
                          bs \<leftarrow> load_n p 0 sz;
                          v \<leftarrow> store_n v 0 bs;
                          Some (Some v, buf\<lparr>rcnt := rcnt buf + int sz\<rparr>) }))"

definition iobuf_pop_data_ptr :: "iobuf_read \<Rightarrow> nat \<Rightarrow> (nat option \<times> iobuf_read) option" where
  "iobuf_pop_data_ptr buf sz =
     (let (buf, ok) = iobuf_validate buf sz in
      if \<not> ok then Some (None, buf)
      else do { _ \<leftarrow> ptr_at (rdata buf) (rcnt buf);
                Some (Some (nat (rcnt buf)), buf\<lparr>rcnt := rcnt buf + int sz\<rparr>) })"

section \<open>Invariants and abstraction\<close>

definition wf_write :: "iobuf_write \<Rightarrow> bool" where
  "wf_write buf \<longleftrightarrow> wlen buf \<le> wdata_size buf \<and> length (wdata buf) = wdata_size buf"

definition wbytes :: "iobuf_write \<Rightarrow> u8 list" where
  "wbytes buf = take (wlen buf) (wdata buf)"

definition wf_read :: "iobuf_read \<Rightarrow> bool" where
  "wf_read buf \<longleftrightarrow> 0 \<le> rcnt buf \<and> rcnt buf \<le> rdata_size buf \<and>
     rdata_size buf \<le> int (length (rdata buf)) \<and> rdata_size buf < 2 ^ 31"

definition rrest :: "iobuf_read \<Rightarrow> u8 list" where
  "rrest buf = take (nat (rdata_size buf - rcnt buf)) (drop (nat (rcnt buf)) (rdata buf))"

text \<open>The abstract state of a reader: the bytes left, or failed for good.\<close>

definition rview :: "iobuf_read \<Rightarrow> u8 list option" where
  "rview buf = (if rerr buf then None else Some (rrest buf))"

text \<open>
  \<open>pushes m buf bs\<close>: the computation \<open>m\<close>, started on \<open>buf\<close>, succeeds and appends \<open>bs\<close>.
  \<open>pops m v r\<close>: \<open>m\<close> succeeds, returns \<open>v\<close> and leaves the abstract state \<open>r\<close>.
\<close>

definition pushes :: "iobuf_write option \<Rightarrow> iobuf_write \<Rightarrow> u8 list \<Rightarrow> bool" where
  "pushes m buf bs \<longleftrightarrow>
     (\<exists>buf'. m = Some buf' \<and> wf_write buf' \<and> wbytes buf' = wbytes buf @ bs)"

definition pops :: "('v \<times> iobuf_read) option \<Rightarrow> iobuf_read \<Rightarrow> 'v \<Rightarrow> u8 list option \<Rightarrow> bool" where
  "pops m buf v r \<longleftrightarrow>
     (\<exists>buf'. m = Some (v, buf') \<and> wf_read buf' \<and> rview buf' = r \<and>
             rdata buf' = rdata buf \<and> rdata_size buf' = rdata_size buf)"

lemma wf_write_init [simp]: "wf_write iobuf_init"
  by (simp add: wf_write_def iobuf_init_def)

lemma wbytes_init [simp]: "wbytes iobuf_init = []"
  by (simp add: wbytes_def iobuf_init_def)

lemma wf_reader: "0 \<le> n \<Longrightarrow> n \<le> int (length bs) \<Longrightarrow> n < 2 ^ 31 \<Longrightarrow> wf_read (iobuf_reader bs n)"
  by (simp add: wf_read_def iobuf_reader_def)

lemma rview_reader: "rview (iobuf_reader bs n) = Some (take (nat n) bs)"
  by (simp add: rview_def rrest_def iobuf_reader_def)

section \<open>Every push appends\<close>

lemma enlarge_buffer:
  fixes n :: nat
  assumes "wf_write buf"
  defines "buf' \<equiv> iobuf_enlarge_buffer buf n"
  shows "wf_write buf'" "wlen buf' = wlen buf" "wbytes buf' = wbytes buf"
    "wlen buf + n \<le> length (wdata buf')"
  using assms
  by (auto simp: iobuf_enlarge_buffer_def wf_write_def wbytes_def realloc_def Let_def)

lemma store_n_pushes:
  assumes "wf_write buf" and "store_n (wdata buf) (wlen buf) bs = Some d"
  shows "wf_write (buf\<lparr>wdata := d, wlen := wlen buf + length bs\<rparr>)"
    and "wbytes (buf\<lparr>wdata := d, wlen := wlen buf + length bs\<rparr>) = wbytes buf @ bs"
  using assms by (auto simp: wf_write_def wbytes_def elim!: store_n_SomeE)

lemma pushes_store_n:
  assumes "wf_write buf" and "length bs = n"
  shows "pushes (do { d \<leftarrow> store_n (wdata (iobuf_enlarge_buffer buf n)) (wlen (iobuf_enlarge_buffer buf n)) bs;
                  Some ((iobuf_enlarge_buffer buf n)\<lparr>wdata := d,
                          wlen := wlen (iobuf_enlarge_buffer buf n) + n\<rparr>) }) buf bs"
proof -
  let ?b = "iobuf_enlarge_buffer buf n"
  note e = enlarge_buffer [OF assms(1), of n]
  obtain d where d: "store_n (wdata ?b) (wlen ?b) bs = Some d"
    using e assms(2) by (simp add: store_n_def)
  show ?thesis
    using store_n_pushes [OF e(1) d] e(3) assms(2) by (simp add: d pushes_def)
qed

context byte_codec
begin

lemma push_refines:
  assumes "wf_write buf"
  shows "pushes (let buf = iobuf_enlarge_buffer buf width in
                 do { d \<leftarrow> with_ptr (wdata buf) (wlen buf) (\<lambda>p. wr p v);
                      Some (buf\<lparr>wdata := d, wlen := wlen buf + width\<rparr>) }) buf (enc (unat v))"
proof -
  let ?b = "iobuf_enlarge_buffer buf width"
  have "with_ptr (wdata ?b) (wlen ?b) (\<lambda>p. wr p v) = store_n (wdata ?b) (wlen ?b) (enc (unat v))"
    using enlarge_buffer [OF assms, of width] by (intro with_ptr_wr) simp
  then show ?thesis
    using pushes_store_n [OF assms enc_length, of "unat v"] by (simp add: Let_def)
qed

end

lemma store_eq_store_n: "store m i v = store_n m i [v]"
  by (simp add: store_def store_n_def upd_conv_take_nth_drop)

lemma push_u8: "wf_write buf \<Longrightarrow> pushes (iobuf_push_u8 buf v) buf [v]"
  using pushes_store_n [of buf "[v]" 1] by (simp add: iobuf_push_u8_def store_eq_store_n Let_def)

lemma push_numbers:
  assumes "wf_write buf"
  shows "pushes (iobuf_push_be16 buf v16) buf (be_bytes 2 (unat v16))"
    and "pushes (iobuf_push_le16 buf v16) buf (le_bytes 2 (unat v16))"
    and "pushes (iobuf_push_be24 buf v32) buf (be_bytes 3 (unat v32))"
    and "pushes (iobuf_push_le24 buf v32) buf (le_bytes 3 (unat v32))"
    and "pushes (iobuf_push_be32 buf v32) buf (be_bytes 4 (unat v32))"
    and "pushes (iobuf_push_le32 buf v32) buf (le_bytes 4 (unat v32))"
    and "pushes (iobuf_push_be64 buf v64) buf (be_bytes 8 (unat v64))"
    and "pushes (iobuf_push_le64 buf v64) buf (le_bytes 8 (unat v64))"
  unfolding iobuf_push_be16_def iobuf_push_le16_def iobuf_push_be24_def iobuf_push_le24_def
    iobuf_push_be32_def iobuf_push_le32_def iobuf_push_be64_def iobuf_push_le64_def
  using assms
  by (rule be16.push_refines le16.push_refines be24.push_refines le24.push_refines
      be32.push_refines le32.push_refines be64.push_refines le64.push_refines)+

lemma push_data:
  assumes "wf_write buf" and "n \<le> length val"
  shows "pushes (iobuf_push_data buf val n) buf (take n val)"
  using pushes_store_n [OF assms(1), of "take n val" n] assms(2)
  by (simp add: iobuf_push_data_def load_n_def Let_def min_def)

lemma push_data_reserved:
  "wf_write buf \<Longrightarrow> pushes (iobuf_push_data_reserved buf n) buf (replicate n 0xAA)"
  using pushes_store_n [of buf "replicate n 0xAA" n]
  by (simp add: iobuf_push_data_reserved_def Let_def)

lemma pushes_bind:
  assumes "pushes m buf xs" and "\<And>b. wf_write b \<Longrightarrow> pushes (f b) b ys"
  shows "pushes (m \<bind> f) buf (xs @ ys)"
  using assms by (fastforce simp: pushes_def)

lemma pushes_Some: "wf_write buf \<Longrightarrow> pushes (Some buf) buf []"
  by (simp add: pushes_def)

lemmas push_intros = push_u8 push_numbers push_data push_data_reserved pushes_Some

section \<open>Every pop consumes from the front or fails for good\<close>

text \<open>The abstract reader: \<open>n\<close> bytes off the front, or failure, which sticks.\<close>

definition take_bytes :: "nat \<Rightarrow> u8 list option \<Rightarrow> (u8 list \<times> u8 list) option" where
  "take_bytes n s = (case s of None \<Rightarrow> None
     | Some bs \<Rightarrow> if n \<le> length bs then Some (take n bs, drop n bs) else None)"

lemma rrest_length: "wf_read buf \<Longrightarrow> int (length (rrest buf)) = rdata_size buf - rcnt buf"
  by (auto simp: wf_read_def rrest_def)

lemma to_size_t_nonneg: "0 \<le> x \<Longrightarrow> x < 2 ^ 31 \<Longrightarrow> to_size_t x = x"
  by (simp add: to_size_t_def)

lemma validate_eq:
  assumes "wf_read buf"
  shows "iobuf_validate buf n =
    (if take_bytes n (rview buf) = None
     then (buf\<lparr>rcnt := rdata_size buf, rerr := True\<rparr>, False) else (buf, True))"
proof -
  have r: "int (length (rrest buf)) = iobuf_remaining_size buf"
    using rrest_length [OF assms] by (simp add: iobuf_remaining_size_def)
  have "iobuf_remaining_size buf < 2 ^ 31"
    using assms by (simp add: wf_read_def iobuf_remaining_size_def)
  then have "to_size_t (iobuf_remaining_size buf) = int (length (rrest buf))"
    using r by (simp add: to_size_t_nonneg)
  then show ?thesis
    by (auto simp: iobuf_validate_def take_bytes_def rview_def)
qed

lemma wf_read_fail:
  "wf_read buf \<Longrightarrow> wf_read (buf\<lparr>rcnt := rdata_size buf, rerr := True\<rparr>)"
  by (simp add: wf_read_def)

lemma pops_fail:
  assumes "wf_read buf"
  shows "pops (Some (v, buf\<lparr>rcnt := rdata_size buf, rerr := True\<rparr>)) buf v None"
  using wf_read_fail [OF assms] by (simp add: pops_def rview_def)

lemma advance:
  fixes n :: nat
  assumes "wf_read buf" and "take_bytes n (rview buf) = Some (bs, r)"
  defines "buf' \<equiv> buf\<lparr>rcnt := rcnt buf + int n\<rparr>"
  shows "wf_read buf'" and "rview buf' = Some r"
    and "ptr_at (rdata buf) (rcnt buf) = Some (drop (nat (rcnt buf)) (rdata buf))"
    and "take n (drop (nat (rcnt buf)) (rdata buf)) = bs" and "length bs = n"
    and "n \<le> length (drop (nat (rcnt buf)) (rdata buf))"
proof -
  have n: "\<not> rerr buf" "n \<le> length (rrest buf)" "bs = take n (rrest buf)" "r = drop n (rrest buf)"
    using assms(2) by (auto simp: take_bytes_def rview_def split: if_splits)
  have le: "int n \<le> rdata_size buf - rcnt buf"
    using n(2) rrest_length [OF assms(1)] by linarith
  then show "wf_read buf'"
    using assms(1) by (simp add: buf'_def wf_read_def)
  show "ptr_at (rdata buf) (rcnt buf) = Some (drop (nat (rcnt buf)) (rdata buf))"
    using assms(1) by (auto simp: ptr_at_def wf_read_def)
  have m: "nat (rdata_size buf - rcnt buf) = nat (rdata_size buf - rcnt buf - int n) + n"
    "nat (rcnt buf + int n) = nat (rcnt buf) + n"
    using le assms(1) by (auto simp: wf_read_def)
  show "take n (drop (nat (rcnt buf)) (rdata buf)) = bs"
    using m(1) by (simp add: n(3) rrest_def min_def)
  show "length bs = n" using n by simp
  show "n \<le> length (drop (nat (rcnt buf)) (rdata buf))"
    using n(2) by (simp add: rrest_def)
  show "rview buf' = Some r"
    using n(1) m by (simp add: buf'_def rview_def n(4) rrest_def drop_take add.commute)
       (simp add: algebra_simps)
qed

context byte_codec
begin

lemma pop_refines:
  assumes "wf_read buf"
  shows "\<exists>v r. pops (let (buf, ok) = iobuf_validate buf width in
           if \<not> ok then Some (0, buf)
           else do { p \<leftarrow> ptr_at (rdata buf) (rcnt buf); val \<leftarrow> rd p;
                     Some (val, buf\<lparr>rcnt := rcnt buf + int width\<rparr>) }) buf v r \<and>
         (unat v, r) = (case take_bytes width (rview buf) of
            None \<Rightarrow> (0, None) | Some (bs, r) \<Rightarrow> (dec bs, Some r))"
proof (cases "take_bytes width (rview buf)")
  case None
  then show ?thesis
    using pops_fail [OF assms, of 0] by (auto simp: validate_eq [OF assms] intro!: exI)
next
  case (Some a)
  obtain bs r where br: "take_bytes width (rview buf) = Some (bs, r)"
    using Some by (cases a) auto
  note adv = advance [OF assms br]
  obtain v where v: "rd (drop (nat (rcnt buf)) (rdata buf)) = Some v" "unat v = dec bs"
    using rd_long [OF adv(6)] adv(4) by auto
  show ?thesis
    using adv v br by (intro exI [of _ v] exI [of _ "Some r"]) (simp add: validate_eq [OF assms] pops_def)
qed

lemma pop_value:
  assumes "wf_read buf" and "rview buf = Some (bs @ r)" and "length bs = width"
  shows "pops (let (buf, ok) = iobuf_validate buf width in
           if \<not> ok then Some (0, buf)
           else do { p \<leftarrow> ptr_at (rdata buf) (rcnt buf); val \<leftarrow> rd p;
                     Some (val, buf\<lparr>rcnt := rcnt buf + int width\<rparr>) })
         buf (word_of_nat (dec bs)) (Some r)"
proof -
  have "take_bytes width (rview buf) = Some (bs, r)"
    using assms(2,3) by (simp add: take_bytes_def)
  then obtain v r' where v: "pops (let (buf, ok) = iobuf_validate buf width in
           if \<not> ok then Some (0, buf)
           else do { p \<leftarrow> ptr_at (rdata buf) (rcnt buf); val \<leftarrow> rd p;
                     Some (val, buf\<lparr>rcnt := rcnt buf + int width\<rparr>) }) buf v r'"
      and "(unat v, r') = (dec bs, Some r)"
    using pop_refines [OF assms(1)] by auto
  then have "unat v = dec bs" "r' = Some r" by auto
  then have "word_of_nat (dec bs) = v" by (metis of_nat_unat ucast_id)
  with v \<open>r' = Some r\<close> show ?thesis by simp
qed

lemma pop_enc:
  assumes "wf_read buf" and "rview buf = Some (enc (unat v) @ r)" and "unat v < 256 ^ width"
  shows "pops (let (buf, ok) = iobuf_validate buf width in
           if \<not> ok then Some (0, buf)
           else do { p \<leftarrow> ptr_at (rdata buf) (rcnt buf); val \<leftarrow> rd p;
                     Some (val, buf\<lparr>rcnt := rcnt buf + int width\<rparr>) }) buf v (Some r)"
  using pop_value [OF assms(1,2) enc_length] assms(3) by (simp add: dec_enc)

end

lemma pops_numbers:
  assumes "wf_read buf" and "rview buf = Some (bs @ r)"
  shows "length bs = 2 \<Longrightarrow> pops (iobuf_pop_be16 buf) buf (word_of_nat (be_val bs)) (Some r)"
    and "length bs = 2 \<Longrightarrow> pops (iobuf_pop_le16 buf) buf (word_of_nat (le_val bs)) (Some r)"
    and "length bs = 3 \<Longrightarrow> pops (iobuf_pop_be24 buf) buf (word_of_nat (be_val bs)) (Some r)"
    and "length bs = 3 \<Longrightarrow> pops (iobuf_pop_le24 buf) buf (word_of_nat (le_val bs)) (Some r)"
    and "length bs = 4 \<Longrightarrow> pops (iobuf_pop_be32 buf) buf (word_of_nat (be_val bs)) (Some r)"
    and "length bs = 4 \<Longrightarrow> pops (iobuf_pop_le32 buf) buf (word_of_nat (le_val bs)) (Some r)"
    and "length bs = 8 \<Longrightarrow> pops (iobuf_pop_be64 buf) buf (word_of_nat (be_val bs)) (Some r)"
    and "length bs = 8 \<Longrightarrow> pops (iobuf_pop_le64 buf) buf (word_of_nat (le_val bs)) (Some r)"
  unfolding iobuf_pop_be16_def iobuf_pop_le16_def iobuf_pop_be24_def iobuf_pop_le24_def
    iobuf_pop_be32_def iobuf_pop_le32_def iobuf_pop_be64_def iobuf_pop_le64_def
  using be16.pop_value [OF assms, unfolded of_nat_numeral] le16.pop_value [OF assms, unfolded of_nat_numeral] be24.pop_value [OF assms, unfolded of_nat_numeral]
    le24.pop_value [OF assms, unfolded of_nat_numeral] be32.pop_value [OF assms, unfolded of_nat_numeral] le32.pop_value [OF assms, unfolded of_nat_numeral]
    be64.pop_value [OF assms, unfolded of_nat_numeral] le64.pop_value [OF assms, unfolded of_nat_numeral]
  by simp_all

lemma pops_numbers_fail:
  assumes "wf_read buf"
  shows "take_bytes 2 (rview buf) = None \<Longrightarrow> pops (iobuf_pop_be16 buf) buf 0 None"
    and "take_bytes 2 (rview buf) = None \<Longrightarrow> pops (iobuf_pop_le16 buf) buf 0 None"
    and "take_bytes 3 (rview buf) = None \<Longrightarrow> pops (iobuf_pop_be24 buf) buf 0 None"
    and "take_bytes 3 (rview buf) = None \<Longrightarrow> pops (iobuf_pop_le24 buf) buf 0 None"
    and "take_bytes 4 (rview buf) = None \<Longrightarrow> pops (iobuf_pop_be32 buf) buf 0 None"
    and "take_bytes 4 (rview buf) = None \<Longrightarrow> pops (iobuf_pop_le32 buf) buf 0 None"
    and "take_bytes 8 (rview buf) = None \<Longrightarrow> pops (iobuf_pop_be64 buf) buf 0 None"
    and "take_bytes 8 (rview buf) = None \<Longrightarrow> pops (iobuf_pop_le64 buf) buf 0 None"
  unfolding iobuf_pop_be16_def iobuf_pop_le16_def iobuf_pop_be24_def iobuf_pop_le24_def
    iobuf_pop_be32_def iobuf_pop_le32_def iobuf_pop_be64_def iobuf_pop_le64_def
  using pops_fail [OF assms] by (simp_all add: validate_eq [OF assms])

lemma take_bytes_Some_iff:
  "take_bytes n s = Some (bs, r) \<longleftrightarrow> s = Some (bs @ r) \<and> length bs = n"
  by (auto simp: take_bytes_def split: option.splits if_splits)

lemma pop_u8:
  assumes "wf_read buf"
  shows "rview buf = Some (b # r) \<Longrightarrow> pops (iobuf_pop_u8 buf) buf b (Some r)"
    and "take_bytes 1 (rview buf) = None \<Longrightarrow> pops (iobuf_pop_u8 buf) buf 0 None"
proof -
  assume "rview buf = Some (b # r)"
  then have tb: "take_bytes 1 (rview buf) = Some ([b], r)"
    by (simp add: take_bytes_Some_iff)
  note adv = advance [OF assms tb]
  have "load (drop (nat (rcnt buf)) (rdata buf)) 0 = Some b"
    using adv(4,6) by (cases "drop (nat (rcnt buf)) (rdata buf)") (auto simp: load_def)
  with adv tb show "pops (iobuf_pop_u8 buf) buf b (Some r)"
    by (simp add: iobuf_pop_u8_def validate_eq [OF assms] pops_def)
next
  assume "take_bytes 1 (rview buf) = None"
  then show "pops (iobuf_pop_u8 buf) buf 0 None"
    using pops_fail [OF assms] by (simp add: iobuf_pop_u8_def validate_eq [OF assms])
qed

lemma pop_data_ptr:
  assumes "wf_read buf"
  shows "take_bytes n (rview buf) = Some (bs, r) \<Longrightarrow>
      pops (iobuf_pop_data_ptr buf n) buf (Some (nat (rcnt buf))) (Some r) \<and>
      take n (drop (nat (rcnt buf)) (rdata buf)) = bs"
    and "take_bytes n (rview buf) = None \<Longrightarrow> pops (iobuf_pop_data_ptr buf n) buf None None"
proof -
  assume tb: "take_bytes n (rview buf) = Some (bs, r)"
  from advance [OF assms tb] tb
  show "pops (iobuf_pop_data_ptr buf n) buf (Some (nat (rcnt buf))) (Some r) \<and>
      take n (drop (nat (rcnt buf)) (rdata buf)) = bs"
    by (simp add: iobuf_pop_data_ptr_def validate_eq [OF assms] pops_def)
next
  assume "take_bytes n (rview buf) = None"
  then show "pops (iobuf_pop_data_ptr buf n) buf None None"
    using pops_fail [OF assms] by (simp add: iobuf_pop_data_ptr_def validate_eq [OF assms])
qed

lemma pop_data:
  assumes "wf_read buf" and "n \<le> length val"
  shows "take_bytes n (rview buf) = Some (bs, r) \<Longrightarrow>
      pops (iobuf_pop_data buf (Some val) n) buf (Some (bs @ drop n val)) (Some r)"
    and "take_bytes n (rview buf) = None \<Longrightarrow>
      pops (iobuf_pop_data buf (Some val) n) buf (Some (replicate n 0 @ drop n val)) None"
proof -
  assume tb: "take_bytes n (rview buf) = Some (bs, r)"
  note adv = advance [OF assms(1) tb]
  have "load_n (drop (nat (rcnt buf)) (rdata buf)) 0 n = Some bs"
    using adv(4,6) by (simp add: load_n_def)
  with adv tb assms(2)
  show "pops (iobuf_pop_data buf (Some val) n) buf (Some (bs @ drop n val)) (Some r)"
    by (simp add: iobuf_pop_data_def validate_eq [OF assms(1)] pops_def store_n_def)
next
  assume "take_bytes n (rview buf) = None"
  then show "pops (iobuf_pop_data buf (Some val) n) buf (Some (replicate n 0 @ drop n val)) None"
    using pops_fail [OF assms(1)] assms(2)
    by (simp add: iobuf_pop_data_def validate_eq [OF assms(1)] store_n_def)
qed

section \<open>Messages: lists of fields\<close>

text \<open>
  What a frame builder and its parser do, abstractly: a list of typed fields, pushed in order,
  and popped in the same order from the resulting bytes.
\<close>

datatype field = F_u8 u8 | F_be16 u16 | F_le16 u16 | F_be24 u32 | F_le24 u32
  | F_be32 u32 | F_le32 u32 | F_be64 u64 | F_le64 u64 | F_data "u8 list"

fun field_ok :: "field \<Rightarrow> bool" where
  "field_ok (F_be24 v) = (unat v < 2 ^ 24)"
| "field_ok (F_le24 v) = (unat v < 2 ^ 24)"
| "field_ok _ = True"

fun field_bytes :: "field \<Rightarrow> u8 list" where
  "field_bytes (F_u8 v) = [v]"
| "field_bytes (F_be16 v) = be_bytes 2 (unat v)"
| "field_bytes (F_le16 v) = le_bytes 2 (unat v)"
| "field_bytes (F_be24 v) = be_bytes 3 (unat v)"
| "field_bytes (F_le24 v) = le_bytes 3 (unat v)"
| "field_bytes (F_be32 v) = be_bytes 4 (unat v)"
| "field_bytes (F_le32 v) = le_bytes 4 (unat v)"
| "field_bytes (F_be64 v) = be_bytes 8 (unat v)"
| "field_bytes (F_le64 v) = le_bytes 8 (unat v)"
| "field_bytes (F_data d) = d"

fun push_field :: "iobuf_write \<Rightarrow> field \<Rightarrow> iobuf_write option" where
  "push_field b (F_u8 v) = iobuf_push_u8 b v"
| "push_field b (F_be16 v) = iobuf_push_be16 b v"
| "push_field b (F_le16 v) = iobuf_push_le16 b v"
| "push_field b (F_be24 v) = iobuf_push_be24 b v"
| "push_field b (F_le24 v) = iobuf_push_le24 b v"
| "push_field b (F_be32 v) = iobuf_push_be32 b v"
| "push_field b (F_le32 v) = iobuf_push_le32 b v"
| "push_field b (F_be64 v) = iobuf_push_be64 b v"
| "push_field b (F_le64 v) = iobuf_push_le64 b v"
| "push_field b (F_data d) = iobuf_push_data b d (length d)"

text \<open>Pop a field of the kind (and, for data, the length) of the given one.\<close>

fun pop_field :: "iobuf_read \<Rightarrow> field \<Rightarrow> (field \<times> iobuf_read) option" where
  "pop_field b (F_u8 _) = map_option (map_prod F_u8 id) (iobuf_pop_u8 b)"
| "pop_field b (F_be16 _) = map_option (map_prod F_be16 id) (iobuf_pop_be16 b)"
| "pop_field b (F_le16 _) = map_option (map_prod F_le16 id) (iobuf_pop_le16 b)"
| "pop_field b (F_be24 _) = map_option (map_prod F_be24 id) (iobuf_pop_be24 b)"
| "pop_field b (F_le24 _) = map_option (map_prod F_le24 id) (iobuf_pop_le24 b)"
| "pop_field b (F_be32 _) = map_option (map_prod F_be32 id) (iobuf_pop_be32 b)"
| "pop_field b (F_le32 _) = map_option (map_prod F_le32 id) (iobuf_pop_le32 b)"
| "pop_field b (F_be64 _) = map_option (map_prod F_be64 id) (iobuf_pop_be64 b)"
| "pop_field b (F_le64 _) = map_option (map_prod F_le64 id) (iobuf_pop_le64 b)"
| "pop_field b (F_data d) =
     map_option (map_prod (\<lambda>v. F_data (the v)) id)
       (iobuf_pop_data b (Some (replicate (length d) 0)) (length d))"

fun push_fields :: "iobuf_write \<Rightarrow> field list \<Rightarrow> iobuf_write option" where
  "push_fields b [] = Some b"
| "push_fields b (f # fs) = do { b \<leftarrow> push_field b f; push_fields b fs }"

fun pop_fields :: "iobuf_read \<Rightarrow> field list \<Rightarrow> (field list \<times> iobuf_read) option" where
  "pop_fields b [] = Some ([], b)"
| "pop_fields b (f # fs) =
     do { (f', b) \<leftarrow> pop_field b f; (fs', b) \<leftarrow> pop_fields b fs; Some (f' # fs', b) }"

lemma push_field: "wf_write b \<Longrightarrow> pushes (push_field b f) b (field_bytes f)"
  using push_data [of b "length d" d for d] by (cases f) (simp_all add: push_intros)

lemma push_fields: "wf_write b \<Longrightarrow> pushes (push_fields b fs) b (concat (map field_bytes fs))"
proof (induction fs arbitrary: b)
  case Nil
  then show ?case by (simp add: pushes_Some)
next
  case (Cons f fs)
  then show ?case by (simp add: pushes_bind push_field)
qed

lemma pops_map:
  "pops m buf v r \<Longrightarrow> pops (map_option (map_prod g id) m) buf (g v) r"
  by (auto simp: pops_def)

lemma pops_enc:
  assumes "wf_read b"
  shows "rview b = Some (be_bytes 2 (unat v16) @ r) \<Longrightarrow> pops (iobuf_pop_be16 b) b v16 (Some r)"
    and "rview b = Some (le_bytes 2 (unat v16) @ r) \<Longrightarrow> pops (iobuf_pop_le16 b) b v16 (Some r)"
    and "rview b = Some (be_bytes 3 (unat v24) @ r) \<Longrightarrow> unat v24 < 2 ^ 24 \<Longrightarrow>
           pops (iobuf_pop_be24 b) b v24 (Some r)"
    and "rview b = Some (le_bytes 3 (unat v24) @ r) \<Longrightarrow> unat v24 < 2 ^ 24 \<Longrightarrow>
           pops (iobuf_pop_le24 b) b v24 (Some r)"
    and "rview b = Some (be_bytes 4 (unat v32) @ r) \<Longrightarrow> pops (iobuf_pop_be32 b) b v32 (Some r)"
    and "rview b = Some (le_bytes 4 (unat v32) @ r) \<Longrightarrow> pops (iobuf_pop_le32 b) b v32 (Some r)"
    and "rview b = Some (be_bytes 8 (unat v64) @ r) \<Longrightarrow> pops (iobuf_pop_be64 b) b v64 (Some r)"
    and "rview b = Some (le_bytes 8 (unat v64) @ r) \<Longrightarrow> pops (iobuf_pop_le64 b) b v64 (Some r)"
  unfolding iobuf_pop_be16_def iobuf_pop_le16_def iobuf_pop_be24_def iobuf_pop_le24_def
    iobuf_pop_be32_def iobuf_pop_le32_def iobuf_pop_be64_def iobuf_pop_le64_def
  by (erule be16.pop_enc [OF assms, unfolded of_nat_numeral]
      le16.pop_enc [OF assms, unfolded of_nat_numeral]
      be24.pop_enc [OF assms, unfolded of_nat_numeral]
      le24.pop_enc [OF assms, unfolded of_nat_numeral]
      be32.pop_enc [OF assms, unfolded of_nat_numeral]
      le32.pop_enc [OF assms, unfolded of_nat_numeral]
      be64.pop_enc [OF assms, unfolded of_nat_numeral]
      le64.pop_enc [OF assms, unfolded of_nat_numeral];
      simp add: unat_u16_lt unat_u32_lt unat_u64_lt)+

lemma pop_field:
  assumes "wf_read b" and "rview b = Some (field_bytes f @ r)" and "field_ok f"
  shows "pops (pop_field b f) b f (Some r)"
proof (cases f)
  case (F_data d)
  have "pops (iobuf_pop_data b (Some (replicate (length d) 0)) (length d)) b (Some d) (Some r)"
    using assms(2) F_data pop_data(1) [OF assms(1), of "length d" "replicate (length d) 0" d r]
    by (simp add: take_bytes_Some_iff)
  from pops_map [OF this, of "\<lambda>v. F_data (the v)"] F_data show ?thesis by simp
qed (use assms in \<open>simp_all add: pops_map pops_enc pop_u8\<close>)

lemma pop_fields:
  assumes "wf_read b" and "rview b = Some (concat (map field_bytes fs) @ r)"
    and "list_all field_ok fs"
  shows "pops (pop_fields b fs) b fs (Some r)"
  using assms
proof (induction fs arbitrary: b)
  case Nil
  then show ?case by (simp add: pops_def)
next
  case (Cons f fs)
  then have "pops (pop_field b f) b f (Some (concat (map field_bytes fs) @ r))"
    by (intro pop_field) simp_all
  then obtain b' where b': "pop_field b f = Some (f, b')" "wf_read b'"
      "rview b' = Some (concat (map field_bytes fs) @ r)"
      "rdata b' = rdata b" "rdata_size b' = rdata_size b"
    by (auto simp: pops_def)
  with Cons have "pops (pop_fields b' fs) b' fs (Some r)" by simp
  with b' show ?case by (auto simp: pops_def)
qed

section \<open>Properties\<close>



text \<open>
  Input buffers refine a cursor on a byte list that fails for good: on a well-formed reader
  every pop stays inside the object and keeps the reader well-formed; with enough bytes left it
  returns the number the first bytes encode and drops them, otherwise it returns 0 and the
  reader is in its error state, where every later pop returns 0 as well.
\<close>

theorem iobuf_pop_refines:
  assumes "wf_read buf"
  shows "(\<exists>v r. pops (iobuf_pop_be16 buf) buf v r \<and> (unat v, r) =
        (case take_bytes 2 (rview buf) of None \<Rightarrow> (0, None) | Some (bs, r) \<Rightarrow> (be_val bs, Some r))) \<and>
    (\<exists>v r. pops (iobuf_pop_le16 buf) buf v r \<and> (unat v, r) =
        (case take_bytes 2 (rview buf) of None \<Rightarrow> (0, None) | Some (bs, r) \<Rightarrow> (le_val bs, Some r))) \<and>
    (\<exists>v r. pops (iobuf_pop_be24 buf) buf v r \<and> (unat v, r) =
        (case take_bytes 3 (rview buf) of None \<Rightarrow> (0, None) | Some (bs, r) \<Rightarrow> (be_val bs, Some r))) \<and>
    (\<exists>v r. pops (iobuf_pop_le24 buf) buf v r \<and> (unat v, r) =
        (case take_bytes 3 (rview buf) of None \<Rightarrow> (0, None) | Some (bs, r) \<Rightarrow> (le_val bs, Some r))) \<and>
    (\<exists>v r. pops (iobuf_pop_be32 buf) buf v r \<and> (unat v, r) =
        (case take_bytes 4 (rview buf) of None \<Rightarrow> (0, None) | Some (bs, r) \<Rightarrow> (be_val bs, Some r))) \<and>
    (\<exists>v r. pops (iobuf_pop_le32 buf) buf v r \<and> (unat v, r) =
        (case take_bytes 4 (rview buf) of None \<Rightarrow> (0, None) | Some (bs, r) \<Rightarrow> (le_val bs, Some r))) \<and>
    (\<exists>v r. pops (iobuf_pop_be64 buf) buf v r \<and> (unat v, r) =
        (case take_bytes 8 (rview buf) of None \<Rightarrow> (0, None) | Some (bs, r) \<Rightarrow> (be_val bs, Some r))) \<and>
    (\<exists>v r. pops (iobuf_pop_le64 buf) buf v r \<and> (unat v, r) =
        (case take_bytes 8 (rview buf) of None \<Rightarrow> (0, None) | Some (bs, r) \<Rightarrow> (le_val bs, Some r)))"
  unfolding iobuf_pop_be16_def iobuf_pop_le16_def iobuf_pop_be24_def iobuf_pop_le24_def
    iobuf_pop_be32_def iobuf_pop_le32_def iobuf_pop_be64_def iobuf_pop_le64_def
  by (intro conjI be16.pop_refines [OF assms, unfolded of_nat_numeral]
      le16.pop_refines [OF assms, unfolded of_nat_numeral]
      be24.pop_refines [OF assms, unfolded of_nat_numeral]
      le24.pop_refines [OF assms, unfolded of_nat_numeral]
      be32.pop_refines [OF assms, unfolded of_nat_numeral]
      le32.pop_refines [OF assms, unfolded of_nat_numeral]
      be64.pop_refines [OF assms, unfolded of_nat_numeral]
      le64.pop_refines [OF assms, unfolded of_nat_numeral])

theorem iobuf_pop_refines_witness:
  "wf_read (iobuf_reader [1, 2, 3] 3) \<and>
   (\<exists>v r. pops (iobuf_pop_be16 (iobuf_reader [1, 2, 3] 3)) (iobuf_reader [1, 2, 3] 3) v r \<and>
      (unat v, r) = (258, Some [3])) \<and>
   (\<exists>v r. pops (iobuf_pop_be32 (iobuf_reader [1, 2, 3] 3)) (iobuf_reader [1, 2, 3] 3) v r \<and>
      (unat v, r) = (0, None))"
proof -
  have wf: "wf_read (iobuf_reader [1, 2, 3] 3)" by (simp add: wf_reader)
  show ?thesis
    using iobuf_pop_refines [OF wf] wf
    by (simp add: rview_reader take_bytes_def be_val_def)
qed

text \<open>
  What is pushed is what is popped: the fields of a message, pushed in order into an empty
  buffer and popped in the same order from the bytes written, come back unchanged, no byte is
  left over and the reader's error flag is clear.
\<close>

theorem iobuf_message_round_trip:
  assumes "list_all field_ok fs" and "length (concat (map field_bytes fs)) < 2 ^ 31"
  shows "\<exists>w b. push_fields iobuf_init fs = Some w \<and>
     pop_fields (iobuf_reader (wdata w) (int (wlen w))) fs = Some (fs, b) \<and>
     iobuf_remaining_size b = 0 \<and> \<not> rerr b"
proof -
  let ?bs = "concat (map field_bytes fs)"
  obtain w where w: "push_fields iobuf_init fs = Some w" "wf_write w" "wbytes w = ?bs"
    using push_fields [OF wf_write_init, of fs] by (auto simp: pushes_def)
  have len: "wlen w = length ?bs"
    using w(2,3) by (auto simp: wf_write_def wbytes_def dest: arg_cong [where f = length])
  have wf: "wf_read (iobuf_reader (wdata w) (int (wlen w)))"
    using w(2) len assms(2) by (intro wf_reader) (auto simp: wf_write_def)
  have view: "rview (iobuf_reader (wdata w) (int (wlen w))) = Some (?bs @ [])"
    using w(3) by (simp add: rview_reader wbytes_def)
  obtain b where b: "pop_fields (iobuf_reader (wdata w) (int (wlen w))) fs = Some (fs, b)"
      "wf_read b" "rview b = Some []"
    using pop_fields [OF wf view assms(1)] by (auto simp: pops_def)
  then have "iobuf_remaining_size b = 0" "\<not> rerr b"
    using rrest_length [OF b(2)]
    by (auto simp: rview_def iobuf_remaining_size_def split: if_splits)
  with w(1) b(1) show ?thesis by blast
qed

theorem iobuf_message_round_trip_witness:
  "\<exists>w b. push_fields iobuf_init [F_be16 0x1234, F_data [7, 8], F_le24 5] = Some w \<and>
     pop_fields (iobuf_reader (wdata w) (int (wlen w))) [F_be16 0x1234, F_data [7, 8], F_le24 5] =
       Some ([F_be16 0x1234, F_data [7, 8], F_le24 5], b) \<and>
     iobuf_remaining_size b = 0 \<and> \<not> rerr b"
  by (rule iobuf_message_round_trip) simp_all

end
