(* ===== verification/IE.thy ===== *)
theory IE
  imports Iobuf
begin

text \<open>
  \<open>src/common/ieee802154_ie.c\<close> and the \<open>FIELD_GET\<close>/\<open>FIELD_PREP\<close> macros of
  \<open>src/common/bits.h\<close>: building and searching the information elements of IEEE 802.15.4
  frames. An information element is a 16 bit little-endian descriptor (type, id, length) and
  its content; the four formats differ in the masks of the descriptor only, which is what the
  locale \<open>ie_format\<close> abstracts from.
\<close>

section \<open>Bit fields\<close>

definition ctz :: "u16 \<Rightarrow> nat" where
  "ctz m = length (takeWhile (\<lambda>i. \<not> bit m i) [0..<16])"

definition popcount :: "u16 \<Rightarrow> nat" where
  "popcount m = length (filter (\<lambda>i. bit m i) [0..<16])"

definition FIELD_GET :: "u16 \<Rightarrow> u16 \<Rightarrow> u16" where
  "FIELD_GET m reg = drop_bit (ctz m) (reg AND m)"

definition FIELD_PREP :: "u16 \<Rightarrow> u16 \<Rightarrow> u16" where
  "FIELD_PREP m val = push_bit (ctz m) val AND m"

section \<open>Building information elements\<close>

definition IEEE802154_IE_TYPE_MASK :: u16 where "IEEE802154_IE_TYPE_MASK = 0x8000"
definition IEEE802154_IE_HEADER_LEN_MASK :: u16 where "IEEE802154_IE_HEADER_LEN_MASK = 0x7F"
definition IEEE802154_IE_HEADER_ID_MASK :: u16 where "IEEE802154_IE_HEADER_ID_MASK = 0x7F80"
definition IEEE802154_IE_PAYLOAD_LEN_MASK :: u16 where "IEEE802154_IE_PAYLOAD_LEN_MASK = 0x7FF"
definition IEEE802154_IE_PAYLOAD_ID_MASK :: u16 where "IEEE802154_IE_PAYLOAD_ID_MASK = 0x7800"
definition IEEE802154_IE_NESTED_SHORT_LEN_MASK :: u16 where "IEEE802154_IE_NESTED_SHORT_LEN_MASK = 0xFF"
definition IEEE802154_IE_NESTED_SHORT_ID_MASK :: u16 where "IEEE802154_IE_NESTED_SHORT_ID_MASK = 0x7F00"
definition IEEE802154_IE_NESTED_LONG_LEN_MASK :: u16 where "IEEE802154_IE_NESTED_LONG_LEN_MASK = 0x7FF"
definition IEEE802154_IE_NESTED_LONG_ID_MASK :: u16 where "IEEE802154_IE_NESTED_LONG_ID_MASK = 0x7800"

lemmas ie_mask_defs = IEEE802154_IE_TYPE_MASK_def IEEE802154_IE_HEADER_LEN_MASK_def
  IEEE802154_IE_HEADER_ID_MASK_def IEEE802154_IE_PAYLOAD_LEN_MASK_def IEEE802154_IE_PAYLOAD_ID_MASK_def
  IEEE802154_IE_NESTED_SHORT_LEN_MASK_def IEEE802154_IE_NESTED_SHORT_ID_MASK_def
  IEEE802154_IE_NESTED_LONG_LEN_MASK_def IEEE802154_IE_NESTED_LONG_ID_MASK_def

definition EINVAL :: int where "EINVAL = 22"
definition ENOENT :: int where "ENOENT = 2"

definition ieee802154_ie_push :: "iobuf_write \<Rightarrow> bool \<Rightarrow> u8 \<Rightarrow> u16 \<Rightarrow> (nat \<times> iobuf_write) option" where
  "ieee802154_ie_push buf ty ie_id id_mask =
     (let offset = wlen buf;
          hdr = 0;
          hdr = hdr OR FIELD_PREP IEEE802154_IE_TYPE_MASK (of_bool ty);
          hdr = hdr OR FIELD_PREP id_mask (ucast ie_id)
      in do { buf \<leftarrow> iobuf_push_le16 buf hdr; Some (offset, buf) })"

definition ieee802154_ie_push_header :: "iobuf_write \<Rightarrow> u8 \<Rightarrow> (nat \<times> iobuf_write) option" where
  "ieee802154_ie_push_header buf ie_id = ieee802154_ie_push buf False ie_id IEEE802154_IE_HEADER_ID_MASK"

definition ieee802154_ie_push_payload :: "iobuf_write \<Rightarrow> u8 \<Rightarrow> (nat \<times> iobuf_write) option" where
  "ieee802154_ie_push_payload buf ie_id = ieee802154_ie_push buf True ie_id IEEE802154_IE_PAYLOAD_ID_MASK"

definition ieee802154_ie_push_nested :: "iobuf_write \<Rightarrow> u8 \<Rightarrow> bool \<Rightarrow> (nat \<times> iobuf_write) option" where
  "ieee802154_ie_push_nested buf ie_id is_long =
     (if is_long then ieee802154_ie_push buf True ie_id IEEE802154_IE_NESTED_LONG_ID_MASK
      else ieee802154_ie_push buf False ie_id IEEE802154_IE_NESTED_SHORT_ID_MASK)"

definition ieee802154_ie_set_len :: "iobuf_write \<Rightarrow> nat \<Rightarrow> u16 \<Rightarrow> u16 \<Rightarrow> iobuf_write option" where
  "ieee802154_ie_set_len buf offset len len_mask =
     do { ptr \<leftarrow> ptr_at (wdata buf) (int offset);
          hdr \<leftarrow> read_le16 ptr;
          if 2 ^ popcount len_mask \<le> unat len then None
          else if hdr AND len_mask \<noteq> 0 then None
          else do { d \<leftarrow> with_ptr (wdata buf) offset (\<lambda>p. write_le16 p (hdr OR FIELD_PREP len_mask len));
                    Some (buf\<lparr>wdata := d\<rparr>) } }"

definition ieee802154_ie_fill_len :: "iobuf_write \<Rightarrow> nat \<Rightarrow> u16 \<Rightarrow> iobuf_write option" where
  "ieee802154_ie_fill_len buf offset len_mask =
     ieee802154_ie_set_len buf offset (word_of_int (int (wlen buf) - int offset - 2)) len_mask"

definition ieee802154_ie_fill_len_header :: "iobuf_write \<Rightarrow> nat \<Rightarrow> iobuf_write option" where
  "ieee802154_ie_fill_len_header buf offset =
     ieee802154_ie_fill_len buf offset IEEE802154_IE_HEADER_LEN_MASK"

definition ieee802154_ie_fill_len_payload :: "iobuf_write \<Rightarrow> nat \<Rightarrow> iobuf_write option" where
  "ieee802154_ie_fill_len_payload buf offset =
     ieee802154_ie_fill_len buf offset IEEE802154_IE_PAYLOAD_LEN_MASK"

definition ieee802154_ie_fill_len_nested :: "iobuf_write \<Rightarrow> nat \<Rightarrow> bool \<Rightarrow> iobuf_write option" where
  "ieee802154_ie_fill_len_nested buf offset is_long =
     (if is_long then ieee802154_ie_fill_len buf offset IEEE802154_IE_NESTED_LONG_LEN_MASK
      else ieee802154_ie_fill_len buf offset IEEE802154_IE_NESTED_SHORT_LEN_MASK)"

section \<open>Searching\<close>

text \<open>Conversion of a \<open>size_t\<close> to \<open>int\<close>.\<close>

definition to_int32 :: "nat \<Rightarrow> int" where
  "to_int32 n = (int n + 2 ^ 31) mod 2 ^ 32 - 2 ^ 31"

text \<open>
  The output \<open>ie_content\<close>: cleared and in error, or a reader on the content. A null
  \<open>data\<close> pointer is the empty object.
\<close>

definition ie_content_none :: iobuf_read where
  "ie_content_none = \<lparr>rdata_size = 0, rcnt = 0, rerr = True, rdata = []\<rparr>"

definition ie_content_at :: "u8 list \<Rightarrow> nat \<Rightarrow> int \<Rightarrow> iobuf_read" where
  "ie_content_at data off ie_len = \<lparr>rdata_size = ie_len, rcnt = 0, rerr = False, rdata = drop off data\<rparr>"

text \<open>The body both loops share once the descriptor is decoded: take the content of the element found.\<close>

definition ie_take :: "iobuf_read \<Rightarrow> nat \<Rightarrow> (int \<times> iobuf_read) option" where
  "ie_take input ie_len =
     do { (ptr, input) \<leftarrow> iobuf_pop_data_ptr input ie_len;
          case ptr of None \<Rightarrow> Some (- EINVAL, ie_content_none)
          | Some off \<Rightarrow> Some (int ie_len, ie_content_at (rdata input) off (int ie_len)) }"

partial_function (option) find_non_nested_loop ::
  "u8 \<Rightarrow> bool \<Rightarrow> u16 \<Rightarrow> u16 \<Rightarrow> iobuf_read \<Rightarrow> (int \<times> iobuf_read) option" where
  "find_non_nested_loop ie_id ty id_mask len_mask input =
     (if iobuf_remaining_size input = 0 then Some (- ENOENT, ie_content_none)
      else do { (ie_hdr, input) \<leftarrow> iobuf_pop_le16 input;
                if FIELD_GET IEEE802154_IE_TYPE_MASK ie_hdr \<noteq> of_bool ty
                then Some (- EINVAL, ie_content_none)
                else let ie_len = unat (FIELD_GET len_mask ie_hdr) in
                  if FIELD_GET id_mask ie_hdr = ucast ie_id then ie_take input ie_len
                  else do { (_, input) \<leftarrow> iobuf_pop_data_ptr input ie_len;
                            find_non_nested_loop ie_id ty id_mask len_mask input } })"

definition ieee802154_ie_find_non_nested ::
  "u8 list \<Rightarrow> nat \<Rightarrow> u8 \<Rightarrow> bool \<Rightarrow> u16 \<Rightarrow> u16 \<Rightarrow> (int \<times> iobuf_read) option" where
  "ieee802154_ie_find_non_nested data len ie_id ty id_mask len_mask =
     find_non_nested_loop ie_id ty id_mask len_mask (iobuf_reader data (to_int32 len))"

definition ieee802154_ie_find_header :: "u8 list \<Rightarrow> nat \<Rightarrow> u8 \<Rightarrow> (int \<times> iobuf_read) option" where
  "ieee802154_ie_find_header data len ie_id =
     ieee802154_ie_find_non_nested data len ie_id False IEEE802154_IE_HEADER_ID_MASK IEEE802154_IE_HEADER_LEN_MASK"

definition ieee802154_ie_find_payload :: "u8 list \<Rightarrow> nat \<Rightarrow> u8 \<Rightarrow> (int \<times> iobuf_read) option" where
  "ieee802154_ie_find_payload data len ie_id =
     ieee802154_ie_find_non_nested data len ie_id True IEEE802154_IE_PAYLOAD_ID_MASK IEEE802154_IE_PAYLOAD_LEN_MASK"

partial_function (option) find_nested_loop ::
  "u8 \<Rightarrow> bool \<Rightarrow> iobuf_read \<Rightarrow> (int \<times> iobuf_read) option" where
  "find_nested_loop ie_id is_long input =
     (if iobuf_remaining_size input = 0 then Some (- ENOENT, ie_content_none)
      else do { (ie_hdr, input) \<leftarrow> iobuf_pop_le16 input;
                let ie_is_long = (FIELD_GET IEEE802154_IE_TYPE_MASK ie_hdr = 1);
                let len_mask = (if ie_is_long then IEEE802154_IE_NESTED_LONG_LEN_MASK
                                else IEEE802154_IE_NESTED_SHORT_LEN_MASK);
                let id_mask = (if ie_is_long then IEEE802154_IE_NESTED_LONG_ID_MASK
                               else IEEE802154_IE_NESTED_SHORT_ID_MASK);
                let ie_len = unat (FIELD_GET len_mask ie_hdr);
                if ie_is_long = is_long \<and> FIELD_GET id_mask ie_hdr = ucast ie_id
                then ie_take input ie_len
                else do { (_, input) \<leftarrow> iobuf_pop_data_ptr input ie_len;
                          find_nested_loop ie_id is_long input } })"

definition ieee802154_ie_find_nested :: "u8 list \<Rightarrow> nat \<Rightarrow> u8 \<Rightarrow> bool \<Rightarrow> (int \<times> iobuf_read) option" where
  "ieee802154_ie_find_nested data len ie_id is_long =
     find_nested_loop ie_id is_long (iobuf_reader data (to_int32 len))"

declare find_non_nested_loop.simps [code] find_nested_loop.simps [code]

section \<open>The descriptor formats\<close>

text \<open>The descriptor of an element, and the bytes of an element, in the format the masks describe.\<close>

definition descr :: "u16 \<Rightarrow> u16 \<Rightarrow> bool \<Rightarrow> u8 \<Rightarrow> nat \<Rightarrow> u16" where
  "descr idm lenm ty ie_id n = FIELD_PREP IEEE802154_IE_TYPE_MASK (of_bool ty) OR FIELD_PREP idm (ucast ie_id) OR
     FIELD_PREP lenm (word_of_nat n)"

definition ie_bytes :: "u16 \<Rightarrow> u16 \<Rightarrow> bool \<Rightarrow> u8 \<Rightarrow> u8 list \<Rightarrow> u8 list" where
  "ie_bytes idm lenm ty ie_id content =
     le_bytes 2 (unat (descr idm lenm ty ie_id (length content))) @ content"

lemma ctz_type: "ctz IEEE802154_IE_TYPE_MASK = 15"
  by code_simp

lemma bit_type: "bit IEEE802154_IE_TYPE_MASK i \<longleftrightarrow> i = 15"
proof -
  have "bit (2 ^ 15 :: u16) i \<longleftrightarrow> i = 15" by (simp only: bit_exp_iff) auto
  then show ?thesis by (simp add: IEEE802154_IE_TYPE_MASK_def)
qed

lemma bit_prep_type: "bit (FIELD_PREP IEEE802154_IE_TYPE_MASK (of_bool ty)) i \<longleftrightarrow> i = 15 \<and> ty"
  by (auto simp: FIELD_PREP_def ctz_type bit_and_iff bit_push_bit_iff bit_type)

lemma get_type: "FIELD_GET IEEE802154_IE_TYPE_MASK h = of_bool (bit h 15)"
  by (rule bit_word_eqI) (auto simp: FIELD_GET_def ctz_type bit_drop_bit_eq bit_and_iff bit_type bit_1_iff intro!: gr0I)

text \<open>
  A format: the length in the low \<open>lb\<close> bits, the id above it, the type in the top bit. The
  laws are about the masks as the code writes them.
\<close>

locale ie_format =
  fixes idm lenm :: u16 and lb :: nat
  assumes lb_bounds: "0 < lb" "lb < 15"
    and idm_eq: "idm = push_bit lb (mask (15 - lb))"
    and lenm_eq: "lenm = mask lb"
    and ctz_idm: "ctz idm = lb"
    and ctz_lenm: "ctz lenm = 0"
    and popcount_lenm: "popcount lenm = lb"
begin

lemma bit_idm: "bit idm i \<longleftrightarrow> lb \<le> i \<and> i < 15"
  using lb_bounds by (auto simp: idm_eq bit_simps)

lemma bit_lenm: "bit lenm i \<longleftrightarrow> i < lb"
  using lb_bounds by (auto simp: lenm_eq bit_simps)

lemma bit_descr:
  "bit (descr idm lenm ty ie_id n) i \<longleftrightarrow>
     (if i < lb then bit (word_of_nat n :: u16) i
      else if i < 15 then bit ie_id (i - lb) else i = 15 \<and> ty)"
proof -
  have "bit (descr idm lenm ty ie_id n) i \<longleftrightarrow> i = 15 \<and> ty \<or> bit (FIELD_PREP idm (ucast ie_id)) i \<or>
      bit (FIELD_PREP lenm (word_of_nat n)) i"
    by (simp only: descr_def bit_or_iff bit_prep_type simp_thms)
  also have "bit (FIELD_PREP idm (ucast ie_id)) i \<longleftrightarrow> lb \<le> i \<and> i < 15 \<and> bit ie_id (i - lb)"
    by (auto simp: FIELD_PREP_def ctz_idm bit_and_iff bit_idm bit_push_bit_iff bit_ucast_iff)
  also have "bit (FIELD_PREP lenm (word_of_nat n)) i \<longleftrightarrow> i < lb \<and> bit (word_of_nat n :: u16) i"
    by (auto simp: FIELD_PREP_def ctz_lenm bit_and_iff bit_lenm)
  finally show ?thesis using lb_bounds by auto
qed

lemma get_len: "FIELD_GET lenm h = take_bit lb h"
  by (simp add: FIELD_GET_def ctz_lenm) (simp add: lenm_eq take_bit_eq_mask)

lemma get_len_bound: "unat (FIELD_GET lenm h) < 2 ^ lb"
  by (simp add: get_len unsigned_take_bit_eq)

lemma get_len_descr:
  assumes "n < 2 ^ lb"
  shows "unat (FIELD_GET lenm (descr idm lenm ty ie_id n)) = n"
proof -
  have "take_bit lb (descr idm lenm ty ie_id n) = take_bit lb (word_of_nat n)"
    by (rule bit_word_eqI) (auto simp: bit_take_bit_iff bit_descr)
  then have "unat (FIELD_GET lenm (descr idm lenm ty ie_id n)) = take_bit lb (unat (word_of_nat n :: u16))"
    by (simp only: get_len unsigned_take_bit_eq)
  moreover have "n < 2 ^ 16"
    using assms lb_bounds power_increasing [of lb 16 "2 :: nat"] by linarith
  ultimately show ?thesis using assms lb_bounds by (simp add: unsigned_of_nat take_bit_nat_eq_self_iff min_def)
qed

lemma get_id_descr: "FIELD_GET idm (descr idm lenm ty ie_id n) = take_bit (15 - lb) (ucast ie_id)"
  by (rule bit_word_eqI)
    (use lb_bounds in \<open>auto simp: FIELD_GET_def ctz_idm bit_drop_bit_eq bit_and_iff bit_descr bit_idm
      bit_take_bit_iff bit_ucast_iff\<close>)

lemma get_type_descr: "FIELD_GET IEEE802154_IE_TYPE_MASK (descr idm lenm ty ie_id n) = of_bool ty"
  using lb_bounds by (simp add: get_type bit_descr)

text \<open>Pushing the descriptor, the content, and filling in the length writes the element.\<close>

lemma push_hdr:
  assumes "wf_write buf"
  shows "\<exists>b. ieee802154_ie_push buf ty ie_id idm = Some (wlen buf, b) \<and> wf_write b \<and>
    wbytes b = wbytes buf @ le_bytes 2 (unat (descr idm lenm ty ie_id 0))"
proof -
  have "descr idm lenm ty ie_id 0 =
      FIELD_PREP IEEE802154_IE_TYPE_MASK (of_bool ty) OR FIELD_PREP idm (ucast ie_id)"
    by (simp add: descr_def FIELD_PREP_def)
  then show ?thesis
    using push_numbers(2) [OF assms, of "descr idm lenm ty ie_id 0"]
    by (auto simp: ieee802154_ie_push_def pushes_def)
qed

lemma descr_or_len: "descr idm lenm ty ie_id 0 OR FIELD_PREP lenm (word_of_nat n) = descr idm lenm ty ie_id n"
  by (simp add: descr_def FIELD_PREP_def or.assoc)

lemma descr_and_lenm: "descr idm lenm ty ie_id 0 AND lenm = 0"
  by (rule bit_word_eqI) (auto simp: bit_and_iff bit_descr bit_lenm)

lemma fill_len:
  assumes "wf_write b" and "wbytes b = pre @ le_bytes 2 (unat (descr idm lenm ty ie_id 0)) @ content"
    and "length content < 2 ^ lb"
  shows "\<exists>b'. ieee802154_ie_fill_len b (length pre) lenm = Some b' \<and> wf_write b' \<and>
    wbytes b' = pre @ ie_bytes idm lenm ty ie_id content"
proof -
  let ?d0 = "le_bytes 2 (unat (descr idm lenm ty ie_id 0))"
    and ?d1 = "le_bytes 2 (unat (descr idm lenm ty ie_id (length content)))"
  have len: "wlen b = length pre + 2 + length content" "wlen b \<le> length (wdata b)"
    using assms(1) arg_cong [OF assms(2), of length] by (auto simp: wbytes_def wf_write_def)
  obtain r where r: "wdata b = pre @ ?d0 @ content @ r"
    using assms(2) by (metis append.assoc append_take_drop_id wbytes_def)
  have small: "length content < 2 ^ 16"
    using assms(3) lb_bounds power_increasing [of lb 16 "2 :: nat"] by linarith
  have n: "(word_of_int (int (wlen b) - int (length pre) - 2) :: u16) = word_of_nat (length content)"
    by (simp add: len)
  have u: "unat (word_of_nat (length content) :: u16) = length content"
    using small by (simp add: unsigned_of_nat take_bit_nat_eq_self_iff)
  have rd: "read_le16 (?d0 @ content @ r) = Some (descr idm lenm ty ie_id 0)"
    by (rule le16.rd_enc_append) (simp add: unat_u16_lt)
  have wr: "with_ptr (wdata b) (length pre) (\<lambda>p. write_le16 p (descr idm lenm ty ie_id (length content))) =
      Some (pre @ ?d1 @ content @ r)"
    using le16.with_ptr_wr [of "length pre" "wdata b" "descr idm lenm ty ie_id (length content)"]
    by (simp add: r store_n_def)
  have "ieee802154_ie_fill_len b (length pre) lenm = Some (b\<lparr>wdata := pre @ ?d1 @ content @ r\<rparr>)"
    unfolding ieee802154_ie_fill_len_def ieee802154_ie_set_len_def n
    using assms(3) rd wr by (simp add: ptr_at_def r popcount_lenm descr_or_len descr_and_lenm u)
  moreover have "wf_write (b\<lparr>wdata := pre @ ?d1 @ content @ r\<rparr>)"
    using assms(1) r by (simp add: wf_write_def)
  ultimately show ?thesis using len by (auto simp: wbytes_def ie_bytes_def)
qed

lemma get_id_descr_eq:
  assumes "unat ie_id < 2 ^ (15 - lb)"
  shows "FIELD_GET idm (descr idm lenm ty ie_id n) = ucast ie_id"
proof -
  have "take_bit (15 - lb) (ucast ie_id :: u16) = ucast ie_id"
    using assms lb_bounds
    by (simp add: word_unat_eq_iff unsigned_take_bit_eq unat_ucast_up take_bit_nat_eq_self_iff)
  then show ?thesis by (simp add: get_id_descr)
qed

text \<open>A whole element: descriptor, content, length.\<close>

lemma push_element:
  assumes "wf_write buf" and "length content < 2 ^ lb"
  shows "pushes (do { (off, b) \<leftarrow> ieee802154_ie_push buf ty ie_id idm;
                      b \<leftarrow> iobuf_push_data b content (length content);
                      ieee802154_ie_fill_len b off lenm }) buf (ie_bytes idm lenm ty ie_id content)"
proof -
  have pre: "length (wbytes buf) = wlen buf" using assms(1) by (simp add: wbytes_def wf_write_def)
  obtain b where b: "ieee802154_ie_push buf ty ie_id idm = Some (wlen buf, b)" "wf_write b"
      "wbytes b = wbytes buf @ le_bytes 2 (unat (descr idm lenm ty ie_id 0))"
    using push_hdr [OF assms(1)] by blast
  obtain b' where b': "iobuf_push_data b content (length content) = Some b'" "wf_write b'"
      "wbytes b' = wbytes b @ content"
    using push_data [OF b(2), of "length content" content] by (auto simp: pushes_def)
  have "wbytes b' = wbytes buf @ le_bytes 2 (unat (descr idm lenm ty ie_id 0)) @ content"
    using b(3) b'(3) by simp
  from fill_len [OF b'(2) this assms(2)] b(1) b'(1) show ?thesis by (auto simp: pushes_def pre)
qed

end

interpretation hdr: ie_format IEEE802154_IE_HEADER_ID_MASK IEEE802154_IE_HEADER_LEN_MASK 7
  by unfold_locales (simp, simp, code_simp+)

interpretation pld: ie_format IEEE802154_IE_PAYLOAD_ID_MASK IEEE802154_IE_PAYLOAD_LEN_MASK 11
  by unfold_locales (simp, simp, code_simp+)

interpretation nshort: ie_format IEEE802154_IE_NESTED_SHORT_ID_MASK IEEE802154_IE_NESTED_SHORT_LEN_MASK 8
  by unfold_locales (simp, simp, code_simp+)

interpretation nlong: ie_format IEEE802154_IE_NESTED_LONG_ID_MASK IEEE802154_IE_NESTED_LONG_LEN_MASK 11
  by unfold_locales (simp, simp, code_simp+)

section \<open>The search as a function on bytes\<close>

datatype ie_result = Found "u8 list" | Malformed | Missing

text \<open>
  What a search does, on the bytes that are left. \<open>dec\<close> reads a descriptor: \<open>None\<close> when it is
  refused, otherwise whether it is the one searched for and its length. A last descriptor cut
  after one byte reads as zero.
\<close>

function ie_lookup :: "(u16 \<Rightarrow> (bool \<times> nat) option) \<Rightarrow> u8 list \<Rightarrow> ie_result" where
  "ie_lookup dec bs =
     (if bs = [] then Missing
      else if length bs < 2 then
        (case dec 0 of None \<Rightarrow> Malformed | Some (m, n) \<Rightarrow> if m then Malformed else Missing)
      else case dec (word_of_nat (le_val (take 2 bs))) of
          None \<Rightarrow> Malformed
        | Some (m, n) \<Rightarrow>
            if length (drop 2 bs) < n then if m then Malformed else Missing
            else if m then Found (take n (drop 2 bs))
            else ie_lookup dec (drop n (drop 2 bs)))"
  by auto
termination by (relation "measure (length \<circ> snd)") auto

declare ie_lookup.simps [simp del]

text \<open>The bytes behind the element found.\<close>

function ie_rest :: "(u16 \<Rightarrow> (bool \<times> nat) option) \<Rightarrow> u8 list \<Rightarrow> u8 list" where
  "ie_rest dec bs =
     (if length bs < 2 then []
      else case dec (word_of_nat (le_val (take 2 bs))) of
          None \<Rightarrow> []
        | Some (m, n) \<Rightarrow>
            if length (drop 2 bs) < n then []
            else if m then drop n (drop 2 bs)
            else ie_rest dec (drop n (drop 2 bs)))"
  by auto
termination by (relation "measure (length \<circ> snd)") auto

declare ie_rest.simps [simp del]

text \<open>The return code and \<open>ie_content\<close> that report a result.\<close>

fun ie_reports :: "ie_result \<Rightarrow> int \<times> iobuf_read \<Rightarrow> bool" where
  "ie_reports (Found c) (ret, content) \<longleftrightarrow>
     ret = int (length c) \<and> wf_read content \<and> rview content = Some c"
| "ie_reports Malformed (ret, content) \<longleftrightarrow> ret = - EINVAL \<and> content = ie_content_none"
| "ie_reports Missing (ret, content) \<longleftrightarrow> ret = - ENOENT \<and> content = ie_content_none"

lemma pop_data_ptr_fail:
  "wf_read buf \<Longrightarrow> take_bytes n (rview buf) = None \<Longrightarrow>
     iobuf_pop_data_ptr buf n = Some (None, buf\<lparr>rcnt := rdata_size buf, rerr := True\<rparr>)"
  by (simp add: iobuf_pop_data_ptr_def validate_eq)

lemma ie_take_fail:
  "wf_read buf \<Longrightarrow> take_bytes n (rview buf) = None \<Longrightarrow>
     ie_take buf n = Some (- EINVAL, ie_content_none)"
  by (simp add: ie_take_def pop_data_ptr_fail)

lemma ie_take_found:
  assumes "wf_read buf" and "take_bytes n (rview buf) = Some (c, r)"
  shows "\<exists>p. ie_take buf n = Some p \<and> ie_reports (Found c) p \<and>
    rdata (snd p) = drop (nat (rcnt buf)) (rdata buf) \<and> rcnt (snd p) = 0"
proof -
  from pop_data_ptr(1) [OF assms] obtain b where
    p: "iobuf_pop_data_ptr buf n = Some (Some (nat (rcnt buf)), b)" "rdata b = rdata buf"
      "take n (drop (nat (rcnt buf)) (rdata buf)) = c"
    by (auto simp: pops_def)
  note adv = advance [OF assms]
  have "n < 2 ^ 31" "n = length c"
    using adv(1,5) assms(1) by (auto simp: wf_read_def)
  then show ?thesis
    using p adv(6) by (auto simp: ie_take_def ie_content_at_def wf_read_def rview_def rrest_def)
qed

lemma drop_advance:
  assumes "0 \<le> c" "drop (nat c) xs = bs @ tail" "n \<le> length bs"
  shows "drop (nat (c + int n)) xs = drop n bs @ tail"
proof -
  have "drop (nat (c + int n)) xs = drop n (drop (nat c) xs)"
    using assms(1) by (simp add: nat_add_distrib add.commute)
  then show ?thesis using assms(2,3) by simp
qed

text \<open>A search loop: one descriptor per turn, as both loops of the file have it.\<close>

locale ie_search =
  fixes loop :: "iobuf_read \<Rightarrow> (int \<times> iobuf_read) option" and dec :: "u16 \<Rightarrow> (bool \<times> nat) option"
  assumes loop_unfold: "loop input =
     (if iobuf_remaining_size input = 0 then Some (- ENOENT, ie_content_none)
      else do { (ie_hdr, input) \<leftarrow> iobuf_pop_le16 input;
                case dec ie_hdr of None \<Rightarrow> Some (- EINVAL, ie_content_none)
                | Some (m, n) \<Rightarrow> if m then ie_take input n
                    else do { (_, input) \<leftarrow> iobuf_pop_data_ptr input n; loop input } })"
begin

lemma loop_end: "iobuf_remaining_size input = 0 \<Longrightarrow> loop input = Some (- ENOENT, ie_content_none)"
  by (subst loop_unfold) simp

lemma loop_after_fail:
  "loop (buf\<lparr>rcnt := rdata_size buf, rerr := True\<rparr>) = Some (- ENOENT, ie_content_none)"
  by (rule loop_end) (simp add: iobuf_remaining_size_def)

lemma loop_short:
  assumes "wf_read input" and "rview input = Some bs" and "bs \<noteq> []" and "length bs < 2"
  shows "\<exists>p. loop input = Some p \<and> ie_reports (ie_lookup dec bs) p"
proof -
  have tb: "take_bytes 2 (rview input) = None" using assms by (simp add: take_bytes_def)
  obtain b where b: "iobuf_pop_le16 input = Some (0, b)" "wf_read b" "rview b = None"
    using pops_numbers_fail(2) [OF assms(1) tb] by (auto simp: pops_def)
  have r: "iobuf_remaining_size input \<noteq> 0"
    using rrest_length [OF assms(1)] assms(2,3)
    by (auto simp: iobuf_remaining_size_def rview_def split: if_splits)
  have none: "take_bytes n (rview b) = None" for n by (simp add: b(3) take_bytes_def)
  have "loop input = (case dec 0 of None \<Rightarrow> Some (- EINVAL, ie_content_none)
      | Some (m, n) \<Rightarrow> if m then Some (- EINVAL, ie_content_none) else Some (- ENOENT, ie_content_none))"
    by (subst loop_unfold)
       (simp add: r b(1) ie_take_fail [OF b(2) none] pop_data_ptr_fail [OF b(2) none] loop_after_fail
         split: option.split)
  then show ?thesis
    using assms(3,4) by (subst ie_lookup.simps) (auto split: option.splits)
qed

lemma loop_refines:
  "wf_read input \<Longrightarrow> rview input = Some bs \<Longrightarrow>
     \<exists>p. loop input = Some p \<and> ie_reports (ie_lookup dec bs) p"
proof (induction "length bs" arbitrary: bs input rule: less_induct)
  case less
  note wf = less.prems(1) and view = less.prems(2)
  have rem: "iobuf_remaining_size input = int (length bs)"
    using rrest_length [OF wf] view by (auto simp: iobuf_remaining_size_def rview_def split: if_splits)
  consider "bs = []" | "bs \<noteq> []" "length bs < 2" | "2 \<le> length bs" by linarith
  then show ?case
  proof cases
    case 1
    then show ?thesis using rem by (subst ie_lookup.simps) (simp add: loop_end)
  next
    case 2
    then show ?thesis by (rule loop_short [OF wf view])
  next
    case 3
    define h where "h = (word_of_nat (le_val (take 2 bs)) :: u16)"
    obtain b where b: "iobuf_pop_le16 input = Some (h, b)" "wf_read b" "rview b = Some (drop 2 bs)"
      using pops_numbers(2) [of input "take 2 bs" "drop 2 bs"] wf view 3 by (auto simp: pops_def h_def)
    have u: "loop input = (case dec h of None \<Rightarrow> Some (- EINVAL, ie_content_none)
        | Some (m, n) \<Rightarrow> if m then ie_take b n
            else do { (_, input) \<leftarrow> iobuf_pop_data_ptr b n; loop input })"
      using 3 by (subst loop_unfold) (auto simp: rem b(1))
    have l: "ie_lookup dec bs = (case dec h of None \<Rightarrow> Malformed
        | Some (m, n) \<Rightarrow> if length (drop 2 bs) < n then if m then Malformed else Missing
            else if m then Found (take n (drop 2 bs)) else ie_lookup dec (drop n (drop 2 bs)))"
      using 3 by (subst ie_lookup.simps) (auto simp: h_def)
    show ?thesis
    proof (cases "dec h")
      case None
      then show ?thesis by (simp add: u l)
    next
      case (Some mn)
      obtain m n where mn: "mn = (m, n)" by (cases mn)
      show ?thesis
      proof (cases "length (drop 2 bs) < n")
        case True
        then have none: "take_bytes n (rview b) = None" by (simp add: b(3) take_bytes_def)
        show ?thesis
          using True Some mn
          by (simp add: u l ie_take_fail [OF b(2) none] pop_data_ptr_fail [OF b(2) none] loop_after_fail)
      next
        case False
        then have tb: "take_bytes n (rview b) = Some (take n (drop 2 bs), drop n (drop 2 bs))"
          by (simp add: b(3) take_bytes_def)
        obtain b' where b': "iobuf_pop_data_ptr b n = Some (Some (nat (rcnt b)), b')" "wf_read b'"
            "rview b' = Some (drop n (drop 2 bs))"
          using pop_data_ptr(1) [OF b(2) tb] by (auto simp: pops_def)
        have "\<exists>p. loop b' = Some p \<and> ie_reports (ie_lookup dec (drop n (drop 2 bs))) p"
          using 3 by (intro less.hyps b') simp
        then show ?thesis
          using False Some mn ie_take_found [OF b(2) tb] by (auto simp: u l b'(1))
      qed
    qed
  qed
qed

text \<open>Where the content found lies: in front of the rest, inside the object searched.\<close>

lemma loop_found_at:
  "wf_read input \<Longrightarrow> rview input = Some bs \<Longrightarrow> drop (nat (rcnt input)) (rdata input) = bs @ tail \<Longrightarrow>
     ie_lookup dec bs = Found c \<Longrightarrow> loop input = Some p \<Longrightarrow>
     rdata (snd p) = c @ ie_rest dec bs @ tail \<and> rcnt (snd p) = 0"
proof (induction "length bs" arbitrary: bs input rule: less_induct)
  case less
  note wf = less.prems(1) and view = less.prems(2)
  have two: "2 \<le> length bs"
    using less.prems(4) by (subst (asm) ie_lookup.simps) (auto split: if_splits option.splits)
  have rem: "iobuf_remaining_size input = int (length bs)"
    using rrest_length [OF wf] view by (auto simp: iobuf_remaining_size_def rview_def split: if_splits)
  define h where "h = (word_of_nat (le_val (take 2 bs)) :: u16)"
  have tb2: "take_bytes 2 (rview input) = Some (take 2 bs, drop 2 bs)"
    using view two by (simp add: take_bytes_def)
  define b where "b = input\<lparr>rcnt := rcnt input + 2\<rparr>"
  have b: "wf_read b" "rview b = Some (drop 2 bs)"
    using advance(1,2) [OF wf tb2] by (simp_all add: b_def)
  have bd: "drop (nat (rcnt b)) (rdata b) = drop 2 bs @ tail"
    using wf drop_advance [OF _ less.prems(3), of 2] two by (simp add: b_def wf_read_def)
  have pop: "iobuf_pop_le16 input = Some (h, b)"
  proof -
    have "pops (iobuf_pop_le16 input) input h (Some (drop 2 bs))"
      using pops_numbers(2) [of input "take 2 bs" "drop 2 bs"] wf view two by (simp add: h_def)
    then show ?thesis
      using tb2 by (auto simp: pops_def iobuf_pop_le16_def validate_eq [OF wf] b_def split: Option.bind_splits)
  qed
  have u: "loop input = (case dec h of None \<Rightarrow> Some (- EINVAL, ie_content_none)
      | Some (m, n) \<Rightarrow> if m then ie_take b n
          else do { (_, input) \<leftarrow> iobuf_pop_data_ptr b n; loop input })"
    using two by (subst loop_unfold) (auto simp: rem pop)
  obtain m n where d: "dec h = Some (m, n)" "\<not> length (drop 2 bs) < n"
    using less.prems(4) two
    by (subst (asm) ie_lookup.simps) (auto simp: h_def [symmetric] split: if_splits option.splits)
  have tb: "take_bytes n (rview b) = Some (take n (drop 2 bs), drop n (drop 2 bs))"
    using d(2) by (simp add: b(2) take_bytes_def)
  have l: "ie_lookup dec bs = (if m then Found (take n (drop 2 bs)) else ie_lookup dec (drop n (drop 2 bs)))"
    "ie_rest dec bs = (if m then drop n (drop 2 bs) else ie_rest dec (drop n (drop 2 bs)))"
    using d two by (subst ie_lookup.simps ie_rest.simps; auto simp: h_def [symmetric])+
  show ?case
  proof (cases m)
    case True
    then have "loop input = ie_take b n" using u d(1) by simp
    then show ?thesis
      using ie_take_found [OF b(1) tb] less.prems(4,5) l True bd
        append_take_drop_id [of n "drop 2 bs"]
      by (auto simp del: append_take_drop_id drop_drop simp flip: append_assoc)
  next
    case False
    define b' where "b' = b\<lparr>rcnt := rcnt b + int n\<rparr>"
    have b': "iobuf_pop_data_ptr b n = Some (Some (nat (rcnt b)), b')" "wf_read b'"
        "rview b' = Some (drop n (drop 2 bs))"
      using advance [OF b(1) tb] tb by (simp_all add: b'_def iobuf_pop_data_ptr_def validate_eq [OF b(1)])
    have "drop (nat (rcnt b')) (rdata b') = drop n (drop 2 bs) @ tail"
      using b(1) drop_advance [OF _ bd, of n] d(2) by (simp add: b'_def wf_read_def)
    from less.hyps [OF _ b'(2,3) this] show ?thesis
      using less.prems(4,5) two False u d(1) b'(1) l by simp
  qed
qed

end

text \<open>The two loops of the file, with the descriptors they accept.\<close>

definition dec_plain :: "u8 \<Rightarrow> bool \<Rightarrow> u16 \<Rightarrow> u16 \<Rightarrow> u16 \<Rightarrow> (bool \<times> nat) option" where
  "dec_plain ie_id ty idm lenm h =
     (if FIELD_GET IEEE802154_IE_TYPE_MASK h \<noteq> of_bool ty then None
      else Some (FIELD_GET idm h = ucast ie_id, unat (FIELD_GET lenm h)))"

definition dec_nested :: "u8 \<Rightarrow> bool \<Rightarrow> u16 \<Rightarrow> (bool \<times> nat) option" where
  "dec_nested ie_id is_long h =
     (let l = (FIELD_GET IEEE802154_IE_TYPE_MASK h = 1);
          lenm = (if l then IEEE802154_IE_NESTED_LONG_LEN_MASK else IEEE802154_IE_NESTED_SHORT_LEN_MASK);
          idm = (if l then IEEE802154_IE_NESTED_LONG_ID_MASK else IEEE802154_IE_NESTED_SHORT_ID_MASK)
      in Some (l = is_long \<and> FIELD_GET idm h = ucast ie_id, unat (FIELD_GET lenm h)))"

interpretation plain: ie_search "find_non_nested_loop ie_id ty idm lenm" "dec_plain ie_id ty idm lenm"
  for ie_id ty idm lenm
  by unfold_locales (subst find_non_nested_loop.simps, auto simp: dec_plain_def Let_def intro!: Option.bind_cong)

interpretation nested: ie_search "find_nested_loop ie_id is_long" "dec_nested ie_id is_long"
  for ie_id is_long
  by unfold_locales (subst find_nested_loop.simps, auto simp: dec_nested_def Let_def intro!: Option.bind_cong)

section \<open>Frames of several elements\<close>

lemma lookup_stream:
  assumes "\<forall>x \<in> set xs. dec (d x) = Some (m x, length (c x))"
  shows "ie_lookup dec (concat (map (\<lambda>x. le_bytes 2 (unat (d x)) @ c x) xs)) =
    (case find m xs of None \<Rightarrow> Missing | Some x \<Rightarrow> Found (c x))"
  using assms
proof (induction xs)
  case Nil
  then show ?case by (simp add: ie_lookup.simps)
next
  case (Cons x xs)
  have "(word_of_nat (le_val (le_bytes 2 (unat (d x)))) :: u16) = d x"
    using unat_u16_lt [of "d x"] by (simp add: le_val_le_bytes)
  moreover have "le_bytes 2 (unat (d x)) \<noteq> []"
    by (metis length_le_bytes list.size(3) zero_neq_numeral)
  ultimately show ?case using Cons by (subst ie_lookup.simps) simp
qed

text \<open>What the frame builders do with each element.\<close>

definition push_header_ie :: "iobuf_write \<Rightarrow> u8 \<times> u8 list \<Rightarrow> iobuf_write option" where
  "push_header_ie buf x =
     do { (off, b) \<leftarrow> ieee802154_ie_push_header buf (fst x);
          b \<leftarrow> iobuf_push_data b (snd x) (length (snd x));
          ieee802154_ie_fill_len_header b off }"

definition push_payload_ie :: "iobuf_write \<Rightarrow> u8 \<times> u8 list \<Rightarrow> iobuf_write option" where
  "push_payload_ie buf x =
     do { (off, b) \<leftarrow> ieee802154_ie_push_payload buf (fst x);
          b \<leftarrow> iobuf_push_data b (snd x) (length (snd x));
          ieee802154_ie_fill_len_payload b off }"

definition push_nested_ie :: "iobuf_write \<Rightarrow> bool \<times> u8 \<times> u8 list \<Rightarrow> iobuf_write option" where
  "push_nested_ie buf x =
     do { (off, b) \<leftarrow> ieee802154_ie_push_nested buf (fst (snd x)) (fst x);
          b \<leftarrow> iobuf_push_data b (snd (snd x)) (length (snd (snd x)));
          ieee802154_ie_fill_len_nested b off (fst x) }"

fun push_all :: "(iobuf_write \<Rightarrow> 'a \<Rightarrow> iobuf_write option) \<Rightarrow> iobuf_write \<Rightarrow> 'a list \<Rightarrow> iobuf_write option" where
  "push_all f buf [] = Some buf"
| "push_all f buf (x # xs) = do { buf \<leftarrow> f buf x; push_all f buf xs }"

lemma push_all:
  assumes "\<And>b x. wf_write b \<Longrightarrow> x \<in> set xs \<Longrightarrow> pushes (f b x) b (g x)" and "wf_write buf"
  shows "pushes (push_all f buf xs) buf (concat (map g xs))"
  using assms
proof (induction xs arbitrary: buf)
  case Nil
  then show ?case by (simp add: pushes_Some)
next
  case (Cons x xs)
  then show ?case by (auto intro!: pushes_bind)
qed

definition nested_id_mask :: "bool \<Rightarrow> u16" where
  "nested_id_mask l = (if l then IEEE802154_IE_NESTED_LONG_ID_MASK else IEEE802154_IE_NESTED_SHORT_ID_MASK)"

definition nested_len_mask :: "bool \<Rightarrow> u16" where
  "nested_len_mask l = (if l then IEEE802154_IE_NESTED_LONG_LEN_MASK else IEEE802154_IE_NESTED_SHORT_LEN_MASK)"

text \<open>Contents that fit their length field, ids that fit their id field.\<close>

definition header_fits :: "u8 \<times> u8 list \<Rightarrow> bool" where
  "header_fits x \<longleftrightarrow> length (snd x) < 128"

definition payload_fits :: "u8 \<times> u8 list \<Rightarrow> bool" where
  "payload_fits x \<longleftrightarrow> unat (fst x) < 16 \<and> length (snd x) < 2048"

definition nested_fits :: "bool \<times> u8 \<times> u8 list \<Rightarrow> bool" where
  "nested_fits x \<longleftrightarrow> (if fst x then unat (fst (snd x)) < 16 \<and> length (snd (snd x)) < 2048
     else unat (fst (snd x)) < 128 \<and> length (snd (snd x)) < 256)"

lemma push_header_ie:
  "wf_write b \<Longrightarrow> header_fits x \<Longrightarrow> pushes (push_header_ie b x) b
     (ie_bytes IEEE802154_IE_HEADER_ID_MASK IEEE802154_IE_HEADER_LEN_MASK False (fst x) (snd x))"
  using hdr.push_element [of b "snd x" False "fst x"]
  by (simp add: push_header_ie_def ieee802154_ie_push_header_def ieee802154_ie_fill_len_header_def header_fits_def)

lemma push_payload_ie:
  "wf_write b \<Longrightarrow> payload_fits x \<Longrightarrow> pushes (push_payload_ie b x) b
     (ie_bytes IEEE802154_IE_PAYLOAD_ID_MASK IEEE802154_IE_PAYLOAD_LEN_MASK True (fst x) (snd x))"
  using pld.push_element [of b "snd x" True "fst x"]
  by (simp add: push_payload_ie_def ieee802154_ie_push_payload_def ieee802154_ie_fill_len_payload_def payload_fits_def)

lemma push_nested_ie:
  "wf_write b \<Longrightarrow> nested_fits x \<Longrightarrow> pushes (push_nested_ie b x) b
     (ie_bytes (nested_id_mask (fst x)) (nested_len_mask (fst x)) (fst x) (fst (snd x)) (snd (snd x)))"
  using nlong.push_element [of b "snd (snd x)" True "fst (snd x)"]
    nshort.push_element [of b "snd (snd x)" False "fst (snd x)"]
  by (simp add: push_nested_ie_def ieee802154_ie_push_nested_def ieee802154_ie_fill_len_nested_def nested_fits_def
      nested_id_mask_def nested_len_mask_def)

lemma ucast_u8_eq: "(ucast (a :: u8) :: u16) = ucast b \<longleftrightarrow> a = b"
proof -
  have "unat (ucast x :: u16) = unat x" for x :: u8 by (simp add: unat_ucast_up)
  then show ?thesis by (metis word_unat_eq_iff)
qed

lemma to_int32_small: "n < 2 ^ 31 \<Longrightarrow> to_int32 n = int n"
  by (simp add: to_int32_def)

text \<open>Searching what an output buffer holds.\<close>

lemma written_reader:
  assumes "wf_write w" and "wbytes w = bs" and "length bs < 2 ^ 31"
  shows "wf_read (iobuf_reader (wdata w) (to_int32 (wlen w)))"
    and "rview (iobuf_reader (wdata w) (to_int32 (wlen w))) = Some bs"
proof -
  have l: "wlen w = length bs" "wlen w \<le> length (wdata w)"
    using assms by (auto simp: wf_write_def wbytes_def)
  then show "wf_read (iobuf_reader (wdata w) (to_int32 (wlen w)))"
    using assms(3) by (intro wf_reader) (auto simp: to_int32_small)
  show "rview (iobuf_reader (wdata w) (to_int32 (wlen w))) = Some bs"
    using l assms by (simp add: rview_reader to_int32_small wbytes_def)
qed

lemma concat_bound:
  assumes "\<forall>x \<in> set xs. length (g x) \<le> k"
  shows "length (concat (map g xs)) \<le> k * length xs"
  using assms by (induction xs) auto

lemma find_after_build:
  assumes "\<And>b x. wf_write b \<Longrightarrow> x \<in> set xs \<Longrightarrow> pushes (f b x) b (le_bytes 2 (unat (d x)) @ c x)"
    and "\<forall>x \<in> set xs. dec (d x) = Some (m x, length (c x)) \<and> length (c x) < 2048"
    and "length xs \<le> 1000000" and "ie_search loop dec"
  shows "\<exists>w p. push_all f iobuf_init xs = Some w \<and>
    loop (iobuf_reader (wdata w) (to_int32 (wlen w))) = Some p \<and>
    ie_reports (case find m xs of None \<Rightarrow> Missing | Some x \<Rightarrow> Found (c x)) p"
proof -
  let ?g = "\<lambda>x. le_bytes 2 (unat (d x)) @ c x"
  obtain w where w: "push_all f iobuf_init xs = Some w" "wf_write w" "wbytes w = concat (map ?g xs)"
    using push_all [of xs f ?g, OF assms(1) wf_write_init] by (auto simp: pushes_def)
  have "\<forall>x \<in> set xs. length (?g x) \<le> 2050" using assms(2) by fastforce
  then have "length (concat (map ?g xs)) \<le> 2050 * length xs" by (rule concat_bound)
  then have "length (concat (map ?g xs)) < 2 ^ 31" using assms(3) by simp
  from written_reader [OF w(2,3) this] ie_search.loop_refines [OF assms(4)]
  have "\<exists>p. loop (iobuf_reader (wdata w) (to_int32 (wlen w))) = Some p \<and>
      ie_reports (ie_lookup dec (concat (map ?g xs))) p"
    by blast
  moreover have "ie_lookup dec (concat (map ?g xs)) = (case find m xs of None \<Rightarrow> Missing | Some x \<Rightarrow> Found (c x))"
    using assms(2) by (intro lookup_stream) auto
  ultimately show ?thesis using w(1) by auto
qed

lemma find_after_header:
  assumes "list_all header_fits hs" and "length hs \<le> 1000000"
  shows "\<exists>w p. push_all push_header_ie iobuf_init hs = Some w \<and>
      ieee802154_ie_find_header (wdata w) (wlen w) ie_id = Some p \<and>
      ie_reports (case find (\<lambda>x. fst x = ie_id) hs of None \<Rightarrow> Missing | Some x \<Rightarrow> Found (snd x)) p"
  unfolding ieee802154_ie_find_header_def ieee802154_ie_find_non_nested_def
proof (rule find_after_build [OF _ _ assms(2) plain.ie_search_axioms])
  fix b and x :: "u8 \<times> u8 list"
  assume "wf_write b" "x \<in> set hs"
  then show "pushes (push_header_ie b x) b (le_bytes 2 (unat (descr IEEE802154_IE_HEADER_ID_MASK
      IEEE802154_IE_HEADER_LEN_MASK False (fst x) (length (snd x)))) @ snd x)"
    using push_header_ie assms(1) by (simp add: list_all_iff ie_bytes_def)
qed (use assms(1) unat_u8_lt in \<open>auto simp: dec_plain_def hdr.get_type_descr hdr.get_id_descr_eq hdr.get_len_descr
    ucast_u8_eq header_fits_def list_all_iff\<close>)

lemma find_after_payload:
  assumes "list_all payload_fits ps" and "length ps \<le> 1000000"
  shows "\<exists>w p. push_all push_payload_ie iobuf_init ps = Some w \<and>
      ieee802154_ie_find_payload (wdata w) (wlen w) ie_id = Some p \<and>
      ie_reports (case find (\<lambda>x. fst x = ie_id) ps of None \<Rightarrow> Missing | Some x \<Rightarrow> Found (snd x)) p"
  unfolding ieee802154_ie_find_payload_def ieee802154_ie_find_non_nested_def
proof (rule find_after_build [OF _ _ assms(2) plain.ie_search_axioms])
  fix b and x :: "u8 \<times> u8 list"
  assume "wf_write b" "x \<in> set ps"
  then show "pushes (push_payload_ie b x) b (le_bytes 2 (unat (descr IEEE802154_IE_PAYLOAD_ID_MASK
      IEEE802154_IE_PAYLOAD_LEN_MASK True (fst x) (length (snd x)))) @ snd x)"
    using push_payload_ie assms(1) by (simp add: list_all_iff ie_bytes_def)
qed (use assms(1) in \<open>auto simp: dec_plain_def pld.get_type_descr pld.get_id_descr_eq pld.get_len_descr
    ucast_u8_eq payload_fits_def list_all_iff\<close>)

lemma find_after_nested:
  assumes "list_all nested_fits ns" and "length ns \<le> 1000000"
  shows "\<exists>w p. push_all push_nested_ie iobuf_init ns = Some w \<and>
      ieee802154_ie_find_nested (wdata w) (wlen w) ie_id is_long = Some p \<and>
      ie_reports (case find (\<lambda>x. fst x = is_long \<and> fst (snd x) = ie_id) ns of None \<Rightarrow> Missing
        | Some x \<Rightarrow> Found (snd (snd x))) p"
  unfolding ieee802154_ie_find_nested_def
proof (rule find_after_build [OF _ _ assms(2) nested.ie_search_axioms])
  fix b and x :: "bool \<times> u8 \<times> u8 list"
  assume "wf_write b" "x \<in> set ns"
  then show "pushes (push_nested_ie b x) b (le_bytes 2 (unat (descr (nested_id_mask (fst x))
      (nested_len_mask (fst x)) (fst x) (fst (snd x)) (length (snd (snd x))))) @ snd (snd x))"
    using push_nested_ie assms(1) by (simp add: list_all_iff ie_bytes_def)
next
  show "\<forall>x \<in> set ns. dec_nested ie_id is_long (descr (nested_id_mask (fst x)) (nested_len_mask (fst x)) (fst x)
        (fst (snd x)) (length (snd (snd x)))) =
      Some (fst x = is_long \<and> fst (snd x) = ie_id, length (snd (snd x))) \<and> length (snd (snd x)) < 2048"
  proof
    fix x assume "x \<in> set ns"
    then have "nested_fits x" using assms(1) by (simp add: list_all_iff)
    then show "dec_nested ie_id is_long (descr (nested_id_mask (fst x)) (nested_len_mask (fst x)) (fst x)
        (fst (snd x)) (length (snd (snd x)))) =
      Some (fst x = is_long \<and> fst (snd x) = ie_id, length (snd (snd x))) \<and> length (snd (snd x)) < 2048"
      by (cases "fst x")
         (auto simp: dec_nested_def nested_id_mask_def nested_len_mask_def nlong.get_type_descr nshort.get_type_descr
           nlong.get_id_descr_eq nshort.get_id_descr_eq nlong.get_len_descr nshort.get_len_descr ucast_u8_eq
           nested_fits_def)
  qed
qed

section \<open>Properties\<close>

text \<open>
  C26. Searching is total and memory safe on every input: whatever the bytes (a received frame),
  the three searches end, read inside the frame only, and their return code and
  \<open>ie_content\<close> report exactly what the abstract search on the bytes finds: the content of the
  first element with the id, \<open>-EINVAL\<close> for a refused or cut element, or \<open>-ENOENT\<close>.
\<close>

theorem ie_find_refines:
  assumes "len \<le> length data" and "len < 2 ^ 31"
  shows "(\<exists>p. ieee802154_ie_find_header data len ie_id = Some p \<and>
      ie_reports (ie_lookup (dec_plain ie_id False IEEE802154_IE_HEADER_ID_MASK IEEE802154_IE_HEADER_LEN_MASK)
        (take len data)) p) \<and>
    (\<exists>p. ieee802154_ie_find_payload data len ie_id = Some p \<and>
      ie_reports (ie_lookup (dec_plain ie_id True IEEE802154_IE_PAYLOAD_ID_MASK IEEE802154_IE_PAYLOAD_LEN_MASK)
        (take len data)) p) \<and>
    (\<exists>p. ieee802154_ie_find_nested data len ie_id is_long = Some p \<and>
      ie_reports (ie_lookup (dec_nested ie_id is_long) (take len data)) p)"
proof -
  have wf: "wf_read (iobuf_reader data (to_int32 len))"
    using assms by (intro wf_reader) (auto simp: to_int32_small)
  have view: "rview (iobuf_reader data (to_int32 len)) = Some (take len data)"
    using assms by (simp add: rview_reader to_int32_small)
  show ?thesis
    unfolding ieee802154_ie_find_header_def ieee802154_ie_find_payload_def ieee802154_ie_find_nested_def
      ieee802154_ie_find_non_nested_def
    by (intro conjI plain.loop_refines nested.loop_refines wf view)
qed

theorem ie_find_refines_witness:
  "\<exists>p. ieee802154_ie_find_header [0, 0x15, 7] 2 0x2A = Some p \<and> ie_reports (Found []) p"
proof -
  have "ie_lookup (dec_plain 0x2A False IEEE802154_IE_HEADER_ID_MASK IEEE802154_IE_HEADER_LEN_MASK)
      (take 2 [0, 0x15, 7]) = Found []"
    by code_simp
  then show ?thesis using ie_find_refines [of 2 "[0, 0x15, 7]" "0x2A"] by simp
qed

text \<open>
  C27. What is built is found: elements pushed with \<open>ieee802154_ie_push_*\<close>, their content, and
  \<open>ieee802154_ie_fill_len_*\<close> make a frame in which a search returns the content of the first
  element with the id searched for, and \<open>-ENOENT\<close> when there is none. The build does not
  abort.
\<close>

theorem ie_build_find:
  assumes "list_all header_fits hs" and "list_all payload_fits ps" and "list_all nested_fits ns"
    and "length hs \<le> 1000000" and "length ps \<le> 1000000" and "length ns \<le> 1000000"
  shows "(\<exists>w p. push_all push_header_ie iobuf_init hs = Some w \<and>
      ieee802154_ie_find_header (wdata w) (wlen w) ie_id = Some p \<and>
      ie_reports (case find (\<lambda>x. fst x = ie_id) hs of None \<Rightarrow> Missing | Some x \<Rightarrow> Found (snd x)) p) \<and>
    (\<exists>w p. push_all push_payload_ie iobuf_init ps = Some w \<and>
      ieee802154_ie_find_payload (wdata w) (wlen w) ie_id = Some p \<and>
      ie_reports (case find (\<lambda>x. fst x = ie_id) ps of None \<Rightarrow> Missing | Some x \<Rightarrow> Found (snd x)) p) \<and>
    (\<exists>w p. push_all push_nested_ie iobuf_init ns = Some w \<and>
      ieee802154_ie_find_nested (wdata w) (wlen w) ie_id is_long = Some p \<and>
      ie_reports (case find (\<lambda>x. fst x = is_long \<and> fst (snd x) = ie_id) ns of None \<Rightarrow> Missing
        | Some x \<Rightarrow> Found (snd (snd x))) p)"
  using assms by (intro conjI find_after_header find_after_payload find_after_nested)

theorem ie_build_find_witness:
  "\<exists>w p. push_all push_nested_ie iobuf_init [(False, 5, [1]), (True, 5, [2, 3])] = Some w \<and>
     ieee802154_ie_find_nested (wdata w) (wlen w) 5 True = Some p \<and> ie_reports (Found [2, 3]) p"
  using ie_build_find [of "[]" "[]" "[(False, 5, [1]), (True, 5, [2, 3])]" 5 True]
  by (simp add: nested_fits_def)

end
