(* ===== verification/Spinel.thy ===== *)
theory Spinel
  imports Iobuf
begin

text \<open>
  \<open>src/common/spinel_buffer.c\<close>: the encoding of the commands and properties exchanged with the
  radio (Spinel). A pointer to characters is the byte object it points to; a signed integer is
  an \<open>int\<close>, converted to and from the word of its width. The traces of every function
  (\<open>TRACE\<close>, \<open>WARN_ON\<close>) only print, and \<open>spinel_trace\<close> only prints as well.
\<close>

section \<open>Names of commands and properties\<close>

definition spinel_cmds :: "(string \<times> int) list" where
  "spinel_cmds = [
     (''PROP_IS'', 6), (''PROP_SET'', 3), (''PROP_GET'', 2), (''NOOP'', 0), (''RESET'', 1),
     (''REPLAY_TIMERS'', 2031616), (''REPLAY_INTERFACE'', 2031617)]"

definition spinel_cmd_str :: "int \<Rightarrow> string option" where
  "spinel_cmd_str cmd = map_option fst (find (\<lambda>x. cmd = snd x) spinel_cmds)"

definition spinel_props :: "(string \<times> int) list" where
  "spinel_props = [
     (''-'', -1), (''FRAME'', 2000061), (''HWADDR'', 8), (''LAST_STATUS'', 0),
     (''MAC_15_4_PANID'', 54), (''MAC_15_4_SADDR'', 53), (''PHY_CHAN'', 33),
     (''PHY_TX_POWER'', 37), (''RF_CONFIG'', 2000062), (''STREAM_RAW'', 113),
     (''STREAM_STATUS'', 2000028), (''WS_15_4_MODE'', 2000000),
     (''WS_ACCEPT_BYPASS_UNKNOW_DEVICE'', 2000024), (''WS_ACK_WAIT_DURATION'', 2000008),
     (''WS_ASSOCIATION_PERMIT'', 2000014), (''WS_ASYNC_FRAGMENTATION'', 2000060),
     (''WS_AUTO_REQUEST_KEY_ID_MODE'', 2000019), (''WS_AUTO_REQUEST_KEY_INDEX'', 2000021),
     (''WS_AUTO_REQUEST_KEY_SOURCE'', 2000020), (''WS_AUTO_REQUEST_SECURITY_LEVEL'', 2000018),
     (''WS_BEACON_PAYLOAD'', 2000012), (''WS_BEACON_PAYLOAD_LENGTH'', 2000013),
     (''WS_CCA_THRESHOLD'', 2000006), (''WS_CCA_THRESHOLD_START'', 2000005),
     (''WS_COORD_EXTENDED_ADDRESS'', 2000017), (''WS_COORD_SHORT_ADDRESS'', 2000016),
     (''WS_DEFAULT_KEY_SOURCE'', 2000022), (''WS_DEVICE_DESCRIPTION_PAN_ID_UPDATE'', 2000015),
     (''WS_DEVICE_STATISTICS'', 2000050), (''WS_DEVICE_STATISTICS_CLEAR'', 2000051),
     (''WS_DEVICE_TABLE'', 2000027), (''WS_EDFE_FORCE_STOP'', 2000011),
     (''WS_ENABLE_FRAME_COUNTER_PER_KEY'', 2000030), (''WS_FHSS_CREATE'', 2000031),
     (''WS_FHSS_DELETE'', 2000032), (''WS_FHSS_DROP_NEIGHBOR'', 2000044),
     (''WS_FHSS_REGISTER'', 2000033), (''WS_FHSS_SET_CONF'', 2000035),
     (''WS_FHSS_SET_HOP_COUNT'', 2000036), (''WS_FHSS_SET_PARENT'', 2000037),
     (''WS_FHSS_SET_TX_ALLOWANCE_LEVEL'', 2000039), (''WS_FHSS_UNREGISTER'', 2000034),
     (''WS_FHSS_UPDATE_NEIGHBOR'', 2000038), (''WS_FRAME_COUNTER'', 2000026),
     (''WS_GLOBAL_TX_DURATION'', 2000054), (''WS_KEY_TABLE'', 2000025),
     (''WS_MAC_FILTER_ADD_LONG'', 2000047), (''WS_MAC_FILTER_CLEAR'', 2000046),
     (''WS_MAC_FILTER_START'', 2000045), (''WS_MAC_FILTER_STOP'', 2000048),
     (''WS_MAX_BE'', 2000042), (''WS_MAX_CSMA_BACKOFFS'', 2000040),
     (''WS_MAX_FRAME_RETRIES'', 2000007), (''WS_MCPS_DROP'', 2000049), (''WS_MIN_BE'', 2000041),
     (''WS_MLME_IND'', 2000029), (''WS_MULTI_CSMA_PARAMETERS'', 2000004),
     (''WS_RCP_CRC_ERR'', 2000059), (''WS_REGIONAL_REGULATION'', 2000052),
     (''WS_REQUEST_RESTART'', 2000043), (''WS_RESET'', 2000003),
     (''WS_RF_CONFIGURATION_LEGACY'', 2000001), (''WS_RF_CONFIGURATION_LIST'', 2000058),
     (''WS_RX_ON_WHEN_IDLE'', 2000009), (''WS_RX_SENSITIVITY'', 2000053),
     (''WS_SECURITY_ENABLED'', 2000023), (''WS_START'', 2000002), (''WS_TX_POWER'', 2000010),
     (''EXT_WisunStatus'', 2000080), (''EXT_WisunNodes0'', 2000081), (''EXT_WisunNodes'', 2000082)]"

definition spinel_prop_str :: "int \<Rightarrow> string option" where
  "spinel_prop_str prop = map_option fst (find (\<lambda>x. prop = snd x) spinel_props)"

section \<open>Writing\<close>

definition spinel_push_bool :: "iobuf_write \<Rightarrow> bool \<Rightarrow> iobuf_write option" where
  "spinel_push_bool buf val = iobuf_push_u8 buf (of_bool val)"

function push_uint_loop :: "iobuf_write \<Rightarrow> u32 \<Rightarrow> iobuf_write option" where
  "push_uint_loop buf val =
     do { buf \<leftarrow> iobuf_push_u8 buf (ucast ((val AND 0x7F) OR 0x80));
          let val = drop_bit 7 val;
          if val = 0 then Some buf else push_uint_loop buf val }"
  by auto
termination
proof (relation "measure (\<lambda>(buf, val). unat val)")
  fix val v' :: u32
  assume "v' = drop_bit 7 val" "v' \<noteq> 0"
  then have "unat v' = unat val div 128" "unat v' \<noteq> 0"
    using unat_drop_bit_div [of 7 val] unat_eq_zero [of v'] by simp_all
  then show "((b', v'), (b, val)) \<in> measure (\<lambda>(buf, val). unat val)" for b b' by auto
qed auto

definition spinel_push_uint :: "iobuf_write \<Rightarrow> u32 \<Rightarrow> iobuf_write option" where
  "spinel_push_uint buf val =
     do { buf \<leftarrow> push_uint_loop buf val;
          b \<leftarrow> load (wdata buf) (wlen buf - 1);
          d \<leftarrow> store (wdata buf) (wlen buf - 1) (b AND NOT 0x80);
          Some (buf\<lparr>wdata := d\<rparr>) }"

definition spinel_push_u8 :: "iobuf_write \<Rightarrow> u8 \<Rightarrow> iobuf_write option" where
  "spinel_push_u8 buf val = iobuf_push_u8 buf val"

definition spinel_push_i8 :: "iobuf_write \<Rightarrow> int \<Rightarrow> iobuf_write option" where
  "spinel_push_i8 buf val = iobuf_push_u8 buf (word_of_int val)"

definition spinel_push_fixed_u8_array :: "iobuf_write \<Rightarrow> u8 list \<Rightarrow> nat \<Rightarrow> iobuf_write option" where
  "spinel_push_fixed_u8_array buf val num = iobuf_push_data buf val num"

definition spinel_push_u16 :: "iobuf_write \<Rightarrow> u16 \<Rightarrow> iobuf_write option" where
  "spinel_push_u16 buf val = iobuf_push_le16 buf val"

definition spinel_push_i16 :: "iobuf_write \<Rightarrow> int \<Rightarrow> iobuf_write option" where
  "spinel_push_i16 buf val = iobuf_push_le16 buf (word_of_int val)"

text \<open>The array loops: \<open>n\<close> elements from index \<open>i\<close> on.\<close>

fun push_u16_array_loop :: "iobuf_write \<Rightarrow> u16 list \<Rightarrow> nat \<Rightarrow> nat \<Rightarrow> iobuf_write option" where
  "push_u16_array_loop buf val i 0 = Some buf"
| "push_u16_array_loop buf val i (Suc n) =
     do { v \<leftarrow> load val i; buf \<leftarrow> iobuf_push_le16 buf v; push_u16_array_loop buf val (i + 1) n }"

definition spinel_push_fixed_u16_array :: "iobuf_write \<Rightarrow> u16 list \<Rightarrow> nat \<Rightarrow> iobuf_write option" where
  "spinel_push_fixed_u16_array buf val num = push_u16_array_loop buf val 0 num"

definition spinel_push_u32 :: "iobuf_write \<Rightarrow> u32 \<Rightarrow> iobuf_write option" where
  "spinel_push_u32 buf val = iobuf_push_le32 buf val"

definition spinel_push_i32 :: "iobuf_write \<Rightarrow> int \<Rightarrow> iobuf_write option" where
  "spinel_push_i32 buf val = iobuf_push_le32 buf (word_of_int val)"

fun push_u32_array_loop :: "iobuf_write \<Rightarrow> u32 list \<Rightarrow> nat \<Rightarrow> nat \<Rightarrow> iobuf_write option" where
  "push_u32_array_loop buf val i 0 = Some buf"
| "push_u32_array_loop buf val i (Suc n) =
     do { v \<leftarrow> load val i; buf \<leftarrow> iobuf_push_le32 buf v; push_u32_array_loop buf val (i + 1) n }"

definition spinel_push_fixed_u32_array :: "iobuf_write \<Rightarrow> u32 list \<Rightarrow> nat \<Rightarrow> iobuf_write option" where
  "spinel_push_fixed_u32_array buf val num = push_u32_array_loop buf val 0 num"

text \<open>\<open>strlen\<close> reads up to the first zero byte, which has to be in the object.\<close>

definition strlen :: "u8 list \<Rightarrow> nat option" where
  "strlen s = (let n = length (takeWhile (\<lambda>c. c \<noteq> 0) s) in if n < length s then Some n else None)"

definition spinel_push_str :: "iobuf_write \<Rightarrow> u8 list \<Rightarrow> iobuf_write option" where
  "spinel_push_str buf val = do { n \<leftarrow> strlen val; iobuf_push_data buf val (n + 1) }"

definition spinel_push_data :: "iobuf_write \<Rightarrow> u8 list \<Rightarrow> nat \<Rightarrow> iobuf_write option" where
  "spinel_push_data buf val sz =
     do { buf \<leftarrow> iobuf_push_le16 buf (word_of_nat sz); iobuf_push_data buf val sz }"

definition spinel_push_raw :: "iobuf_write \<Rightarrow> u8 list \<Rightarrow> nat \<Rightarrow> iobuf_write option" where
  "spinel_push_raw buf val sz = iobuf_push_data buf val sz"

section \<open>Reading\<close>

definition spinel_pop_bool :: "iobuf_read \<Rightarrow> (bool \<times> iobuf_read) option" where
  "spinel_pop_bool buf =
     (if rerr buf then Some (False, buf)
      else do { (val, buf) \<leftarrow> iobuf_pop_u8 buf; Some (val \<noteq> 0, buf) })"

text \<open>
  The loop of \<open>__spinel_pop_uint\<close>. It runs at most five times: the fifth turn has
  \<open>i = 35 > 32\<close>.
\<close>

function pop_uint_loop :: "iobuf_read \<Rightarrow> u32 \<Rightarrow> nat \<Rightarrow> (u32 \<times> iobuf_read) option" where
  "pop_uint_loop buf val i =
     do { (cur, buf) \<leftarrow> iobuf_pop_u8 buf;
          let val = val OR push_bit i (ucast (cur AND 0x7F));
          let i = i + 7;
          if i > 32 then Some (0, buf\<lparr>rerr := True\<rparr>)
          else if cur AND 0x80 \<noteq> 0 then pop_uint_loop buf val i else Some (val, buf) }"
  by auto
termination by (relation "measure (\<lambda>(buf, val, i). 33 - i)") auto

definition spinel_pop_uint :: "iobuf_read \<Rightarrow> (u32 \<times> iobuf_read) option" where
  "spinel_pop_uint buf = pop_uint_loop buf 0 0"

definition spinel_pop_u8 :: "iobuf_read \<Rightarrow> (u8 \<times> iobuf_read) option" where
  "spinel_pop_u8 buf = iobuf_pop_u8 buf"

definition spinel_pop_i8 :: "iobuf_read \<Rightarrow> (int \<times> iobuf_read) option" where
  "spinel_pop_i8 buf = map_option (map_prod sint (\<lambda>b. b)) (iobuf_pop_u8 buf)"

definition spinel_pop_fixed_u8_array :: "iobuf_read \<Rightarrow> u8 list \<Rightarrow> nat \<Rightarrow> (u8 list \<times> iobuf_read) option" where
  "spinel_pop_fixed_u8_array buf val num =
     do { (val, buf) \<leftarrow> iobuf_pop_data buf (Some val) num; Some (the val, buf) }"

definition spinel_pop_u16 :: "iobuf_read \<Rightarrow> (u16 \<times> iobuf_read) option" where
  "spinel_pop_u16 buf = iobuf_pop_le16 buf"

definition spinel_pop_i16 :: "iobuf_read \<Rightarrow> (int \<times> iobuf_read) option" where
  "spinel_pop_i16 buf = map_option (map_prod sint (\<lambda>b. b)) (iobuf_pop_le16 buf)"

fun pop_u16_array_loop :: "iobuf_read \<Rightarrow> u16 list \<Rightarrow> nat \<Rightarrow> nat \<Rightarrow> (u16 list \<times> iobuf_read) option" where
  "pop_u16_array_loop buf val i 0 = Some (val, buf)"
| "pop_u16_array_loop buf val i (Suc n) =
     do { (v, buf) \<leftarrow> iobuf_pop_le16 buf; val \<leftarrow> store val i v; pop_u16_array_loop buf val (i + 1) n }"

definition spinel_pop_fixed_u16_array :: "iobuf_read \<Rightarrow> u16 list \<Rightarrow> nat \<Rightarrow> (u16 list \<times> iobuf_read) option" where
  "spinel_pop_fixed_u16_array buf val num = pop_u16_array_loop buf val 0 num"

definition spinel_pop_u32 :: "iobuf_read \<Rightarrow> (u32 \<times> iobuf_read) option" where
  "spinel_pop_u32 buf = iobuf_pop_le32 buf"

definition spinel_pop_i32 :: "iobuf_read \<Rightarrow> (int \<times> iobuf_read) option" where
  "spinel_pop_i32 buf = map_option (map_prod sint (\<lambda>b. b)) (iobuf_pop_le32 buf)"

fun pop_u32_array_loop :: "iobuf_read \<Rightarrow> u32 list \<Rightarrow> nat \<Rightarrow> nat \<Rightarrow> (u32 list \<times> iobuf_read) option" where
  "pop_u32_array_loop buf val i 0 = Some (val, buf)"
| "pop_u32_array_loop buf val i (Suc n) =
     do { (v, buf) \<leftarrow> iobuf_pop_le32 buf; val \<leftarrow> store val i v; pop_u32_array_loop buf val (i + 1) n }"

definition spinel_pop_fixed_u32_array :: "iobuf_read \<Rightarrow> u32 list \<Rightarrow> nat \<Rightarrow> (u32 list \<times> iobuf_read) option" where
  "spinel_pop_fixed_u32_array buf val num = pop_u32_array_loop buf val 0 num"

text \<open>
  \<open>strnlen(p, n)\<close> looks at no more than \<open>n\<close> bytes. \<open>spinel_pop_str\<close> returns the offset of
  the string in the object (\<open>None\<close> for the null pointer). It reads \<open>val[len - 1]\<close> even for
  \<open>len = 0\<close>, the byte before the cursor.
\<close>

definition strnlen :: "u8 list \<Rightarrow> int \<Rightarrow> nat option" where
  "strnlen s n = (let k = length (takeWhile (\<lambda>c. c \<noteq> 0) s)
     in if k < length s then Some (nat (min (int k) n))
        else if n \<le> int (length s) then Some (nat n) else None)"

definition load_at :: "u8 list \<Rightarrow> int \<Rightarrow> u8 option" where
  "load_at m i = (if 0 \<le> i then load m (nat i) else None)"

definition spinel_pop_str :: "iobuf_read \<Rightarrow> (nat option \<times> iobuf_read) option" where
  "spinel_pop_str buf =
     do { val \<leftarrow> iobuf_ptr buf;
          len \<leftarrow> strnlen val (to_size_t (iobuf_remaining_size buf));
          bad \<leftarrow> (if int len = iobuf_remaining_size buf
                  then map_option (\<lambda>c. c \<noteq> 0) (load_at (rdata buf) (rcnt buf + int len - 1))
                  else Some False);
          if bad then Some (None, buf\<lparr>rerr := True\<rparr>)
          else Some (Some (nat (rcnt buf)), buf\<lparr>rcnt := rcnt buf + int len + 1\<rparr>) }"

definition spinel_pop_data_ptr :: "iobuf_read \<Rightarrow> (nat \<times> nat option \<times> iobuf_read) option" where
  "spinel_pop_data_ptr buf =
     do { (sz, buf) \<leftarrow> iobuf_pop_le16 buf;
          (ptr, buf) \<leftarrow> iobuf_pop_data_ptr buf (unat sz);
          Some (unat sz, ptr, buf) }"

text \<open>\<open>memcpy\<close> of \<open>n\<close> bytes from a pointer that may be null.\<close>

definition memcpy_from :: "u8 list \<Rightarrow> nat option \<Rightarrow> u8 list \<Rightarrow> nat \<Rightarrow> u8 list option" where
  "memcpy_from val ptr data n =
     (case ptr of None \<Rightarrow> if n = 0 then Some val else None
      | Some off \<Rightarrow> do { bs \<leftarrow> load_n data off n; store_n val 0 bs })"

definition spinel_pop_data ::
  "iobuf_read \<Rightarrow> u8 list option \<Rightarrow> nat \<Rightarrow> (nat \<times> u8 list option \<times> iobuf_read) option" where
  "spinel_pop_data buf val val_size =
     do { (sz, buf) \<leftarrow> iobuf_pop_le16 buf;
          (ptr, buf) \<leftarrow> iobuf_pop_data_ptr buf (unat sz);
          case val of None \<Rightarrow> Some (unat sz, None, buf)
          | Some v \<Rightarrow> do { v \<leftarrow> memcpy_from v ptr (rdata buf) (min (unat sz) val_size);
                           Some (unat sz, Some v, buf) } }"

text \<open>The remaining size as an \<open>unsigned int\<close>.\<close>

definition remaining_unsigned :: "iobuf_read \<Rightarrow> nat" where
  "remaining_unsigned buf = nat (iobuf_remaining_size buf mod 2 ^ 32)"

definition spinel_pop_raw_ptr :: "iobuf_read \<Rightarrow> (nat \<times> nat option \<times> iobuf_read) option" where
  "spinel_pop_raw_ptr buf =
     (let sz = remaining_unsigned buf
      in do { (ptr, buf) \<leftarrow> iobuf_pop_data_ptr buf sz; Some (sz, ptr, buf) })"

definition spinel_pop_raw ::
  "iobuf_read \<Rightarrow> u8 list \<Rightarrow> nat \<Rightarrow> (nat \<times> u8 list \<times> iobuf_read) option" where
  "spinel_pop_raw buf val val_size =
     (let sz = min (remaining_unsigned buf) val_size
      in do { (val, buf) \<leftarrow> iobuf_pop_data buf (Some val) sz; Some (sz, the val, buf) })"

definition spinel_prop_is_valid :: "iobuf_read \<Rightarrow> bool" where
  "spinel_prop_is_valid buf \<longleftrightarrow> \<not> rerr buf \<and> iobuf_remaining_size buf = 0"

section \<open>Variable length integers\<close>

text \<open>The encoding: seven bits per byte, least significant first, the top bit says that more follow.\<close>

function leb :: "nat \<Rightarrow> u8 list" where
  "leb n = (if n < 128 then [word_of_nat n] else word_of_nat (n mod 128 + 128) # leb (n div 128))"
  by auto
termination by (relation "measure (\<lambda>n. n)") auto

declare leb.simps [simp del] push_uint_loop.simps [simp del] pop_uint_loop.simps [simp del]

lemma leb_small: "n < 128 \<Longrightarrow> leb n = [word_of_nat n]"
  by (simp add: leb.simps)

lemma leb_large: "128 \<le> n \<Longrightarrow> leb n = word_of_nat (n mod 128 + 128) # leb (n div 128)"
  by (subst leb.simps) simp

lemma unat_cont_byte: "unat (word_of_nat (n mod 128 + 128) :: u8) = n mod 128 + 128"
proof -
  have "n mod 128 + 128 < 256" using mod_less_divisor [of 128 n] by linarith
  then show ?thesis by (simp del: of_nat_add)
qed

lemma leb_nonempty: "leb n \<noteq> []"
  by (subst leb.simps) simp

lemma and_push_bit_0:
  fixes v w :: u32
  assumes "unat v < 2 ^ i"
  shows "v AND push_bit i w = 0"
proof -
  have "take_bit i v = v"
    using assms by (simp add: word_unat_eq_iff unsigned_take_bit_eq take_bit_nat_eq_self_iff)
  then have lt: "k < i" if "bit v k" for k using that by (metis bit_take_bit_iff)
  then show ?thesis by (intro bit_word_eqI) (auto simp: bit_and_iff bit_push_bit_iff dest!: lt)
qed

lemma unat_and_0x7F: "unat (b AND 0x7F) = unat (b :: u8) mod 128"
proof -
  have "b AND 0x7F = take_bit 7 b" by (simp add: take_bit_eq_mask mask_eq_exp_minus_1)
  then show ?thesis by (simp only: unsigned_take_bit_eq) (simp add: take_bit_eq_mod)
qed

lemma top_bit_u8: "(b :: u8) AND 0x80 \<noteq> 0 \<longleftrightarrow> 128 \<le> unat b"
proof -
  have "b AND 0x80 = b AND 2 ^ 7" by simp
  also have "\<dots> \<noteq> 0 \<longleftrightarrow> bit b 7" by (simp only: and_exp_eq_0_iff_not_bit) simp
  also have "\<dots> \<longleftrightarrow> odd (unat b div 2 ^ 7)"
    by (metis bit_iff_odd bit_unsigned_iff bit_imp_le_length possible_bit_nat)
  also have "\<dots> \<longleftrightarrow> 128 \<le> unat b"
  proof -
    have "unat b div 2 ^ 7 = 0 \<or> unat b div 2 ^ 7 = 1" using unat_u8_lt [of b] by auto
    then show ?thesis by auto
  qed
  finally show ?thesis .
qed

text \<open>The loop sets the top bit of every byte, the last one included.\<close>

lemma push_uint_byte:
  "(ucast (((v :: u32) AND 0x7F) OR 0x80) :: u8) = word_of_nat (unat v mod 128 + 128)"
proof -
  have m: "v AND 0x7F = take_bit 7 v" by (simp add: take_bit_eq_mask mask_eq_exp_minus_1)
  then have u: "unat (v AND 0x7F) = unat v mod 128"
    by (simp only: unsigned_take_bit_eq) (simp add: take_bit_eq_mod)
  have "take_bit 7 v AND 2 ^ 7 = 0"
    by (rule bit_word_eqI) (simp only: bit_and_iff bit_take_bit_iff bit_exp_iff, auto)
  then have "(v AND 0x7F) AND 0x80 = 0" by (simp add: m)
  then have "unat ((v AND 0x7F) OR 0x80) = unat v mod 128 + 128"
    using u by (subst unat_or_disjoint) simp_all
  then show ?thesis by (simp add: word_unat_eq_iff unsigned_ucast_eq take_bit_eq_mod del: of_nat_add)
qed

lemma push_uint_loop_bytes:
  "wf_write buf \<Longrightarrow> \<exists>bs b. pushes (push_uint_loop buf v) buf (bs @ [b]) \<and> leb (unat v) = bs @ [b AND NOT 0x80]"
proof (induction buf v rule: push_uint_loop.induct)
  case (1 buf v)
  define b where "b = (word_of_nat (unat v mod 128 + 128) :: u8)"
  obtain buf1 where b1: "iobuf_push_u8 buf b = Some buf1" "wf_write buf1" "wbytes buf1 = wbytes buf @ [b]"
    using push_u8 [OF 1(2), of b] by (auto simp: pushes_def)
  have d: "unat (drop_bit 7 v) = unat v div 128" by (simp only: unat_drop_bit_div) simp
  have loop: "push_uint_loop buf v = (if drop_bit 7 v = 0 then Some buf1 else push_uint_loop buf1 (drop_bit 7 v))"
    by (subst push_uint_loop.simps) (simp add: push_uint_byte b_def [symmetric] b1(1) Let_def del: of_nat_add)
  show ?case
  proof (cases "drop_bit 7 v = 0")
    case True
    then have small: "unat v < 128" using d by (simp add: div_eq_0_iff)
    have "b AND NOT 0x80 = word_of_nat (unat v)"
    proof -
      have "(NOT 0x80 :: u8) = 0x7F" by simp
      then have "b AND NOT 0x80 = b AND 0x7F" by (rule arg_cong)
      moreover have "unat (b AND 0x7F) = unat v" using small by (simp only: unat_and_0x7F b_def unat_cont_byte) simp
      moreover have "unat (word_of_nat (unat v) :: u8) = unat v"
        using small by (simp only: unat_word_of_nat_u8) simp
      ultimately show ?thesis by (metis word_unat_eq_iff)
    qed
    then show ?thesis
      using True b1 small
      by (intro exI [of _ "[]"] exI [of _ b]) (simp add: loop pushes_def leb_small)
  next
    case False
    then have large: "128 \<le> unat v" using d by (metis div_less not_le unat_eq_zero)
    have "iobuf_push_u8 buf (ucast ((v AND 0x7F) OR 0x80)) = Some buf1"
      using b1(1) by (simp add: push_uint_byte b_def)
    from 1(1) [OF this refl False b1(2)] obtain bs c where
      c: "pushes (push_uint_loop buf1 (drop_bit 7 v)) buf1 (bs @ [c])" "leb (unat v div 128) = bs @ [c AND NOT 0x80]"
      unfolding d by blast
    have "pushes (push_uint_loop buf v) buf ((b # bs) @ [c])"
      using c(1) b1(3) False by (auto simp: loop pushes_def)
    moreover have "leb (unat v) = (b # bs) @ [c AND NOT 0x80]"
      using c(2) by (simp add: leb_large [OF large] b_def)
    ultimately show ?thesis by blast
  qed
qed

lemma push_uint:
  assumes "wf_write buf"
  shows "pushes (spinel_push_uint buf v) buf (leb (unat v))"
proof -
  obtain bs b where "pushes (push_uint_loop buf v) buf (bs @ [b])" and e: "leb (unat v) = bs @ [b AND NOT 0x80]"
    using push_uint_loop_bytes [OF assms] by blast
  then obtain w where w: "push_uint_loop buf v = Some w" "wf_write w" "wbytes w = (wbytes buf @ bs) @ [b]"
    by (auto simp: pushes_def)
  define k where "k = length (wbytes buf @ bs)"
  have len: "wlen w = Suc k" "Suc k \<le> length (wdata w)"
    using w(2) arg_cong [OF w(3), of length] by (auto simp: wbytes_def wf_write_def k_def)
  have take: "take (Suc k) (wdata w) = (wbytes buf @ bs) @ [b]" using w(3) len by (simp add: wbytes_def)
  then have nth: "wdata w ! k = b"
    using len(2) by (metis (no_types, lifting) k_def lessI nth_append_length nth_take)
  have "take (Suc k) (list_update (wdata w) k c) = (wbytes buf @ bs) @ [c]" for c
    using take len(2) by (simp add: take_update_swap k_def list_update_append)
  then show ?thesis
    using w(1,2) len nth e
    by (simp add: spinel_push_uint_def load_def store_def pushes_def wf_write_def wbytes_def)
qed

lemma pop_uint_leb:
  assumes "wf_read buf" and "rview buf = Some (leb n @ r)" and "unat val < 2 ^ i" and "7 dvd i" and "i \<le> 21"
    and "n * 2 ^ i < 2 ^ 28"
  shows "pops (pop_uint_loop buf val i) buf (word_of_nat (unat val + n * 2 ^ i)) (Some r)"
  using assms
proof (induction n arbitrary: buf val i rule: leb.induct)
  case (1 n)
  define cur where "cur = (hd (leb n))"
  obtain tl where tl: "leb n = cur # tl" using leb_nonempty [of n] by (cases "leb n") (auto simp: cur_def)
  obtain b where b: "iobuf_pop_u8 buf = Some (cur, b)" "wf_read b" "rview b = Some (tl @ r)"
      "rdata b = rdata buf" "rdata_size b = rdata_size buf"
    using pop_u8(1) [OF "1.prems"(1), of cur "tl @ r"] "1.prems"(2) by (auto simp: tl pops_def)
  have cu: "unat (cur AND 0x7F) = n mod 128"
    by (cases "n < 128")
       (simp_all add: cur_def leb_small leb_large unat_and_0x7F unat_cont_byte del: of_nat_add)
  define val' where "val' = val OR push_bit i (ucast (cur AND 0x7F))"
  have sh: "unat (push_bit i (ucast (cur AND 0x7F)) :: u32) = n mod 128 * 2 ^ i"
  proof -
    have "n mod 128 * 2 ^ i \<le> 127 * 2 ^ 21"
      using "1.prems"(5) by (intro mult_le_mono power_increasing) auto
    moreover have "unat (ucast (cur AND 0x7F) :: u32) = n mod 128" by (simp add: unat_ucast_up cu)
    ultimately show ?thesis
      by (simp only: unsigned_push_bit_eq) (simp add: push_bit_eq_mult take_bit_nat_eq_self_iff)
  qed
  have val': "unat val' = unat val + n mod 128 * 2 ^ i"
  proof -
    have "(2 :: nat) ^ i \<le> 2 ^ 21" using "1.prems"(5) by (intro power_increasing) auto
    moreover have "n mod 128 * 2 ^ i \<le> 127 * 2 ^ 21"
      using "1.prems"(5) by (intro mult_le_mono power_increasing) auto
    ultimately show ?thesis
      unfolding val'_def using "1.prems"(3) sh and_push_bit_0 [OF "1.prems"(3)]
      by (subst unat_or_disjoint) auto
  qed
  have loop: "pop_uint_loop buf val i =
      (if cur AND 0x80 \<noteq> 0 then pop_uint_loop b val' (i + 7) else Some (val', b))"
    using "1.prems"(5) by (subst pop_uint_loop.simps) (simp add: b(1) Let_def val'_def)
  show ?case
  proof (cases "n < 128")
    case True
    then have "\<not> 128 \<le> unat cur" "tl = []" using tl by (auto simp: leb_small)
    then have "pop_uint_loop buf val i = Some (val', b)" using loop top_bit_u8 [of cur] by simp
    moreover have "val' = word_of_nat (unat val + n * 2 ^ i)"
      using val' True by (metis mod_less of_nat_unat ucast_id)
    ultimately show ?thesis using b \<open>tl = []\<close> by (simp add: pops_def)
  next
    case False
    then have c: "128 \<le> unat cur" "tl = leb (n div 128)"
      using tl by (auto simp: leb_large unat_cont_byte simp del: of_nat_add)
    have "128 * 2 ^ i \<le> n * 2 ^ i" using False by (intro mult_le_mono1) simp
    moreover have "(2 :: nat) ^ (i + 7) = 128 * 2 ^ i" by (simp add: power_add)
    ultimately have "(2 :: nat) ^ (i + 7) < 2 ^ 28" using "1.prems"(6) by linarith
    then have "i + 7 < 28" by (simp only: power_strict_increasing_iff)
    moreover have "7 dvd i + 7" using "1.prems"(4) by simp
    ultimately have i: "i + 7 \<le> 21" by presburger
    have m: "n div 128 * 2 ^ (i + 7) = n div 128 * 128 * 2 ^ i" by (simp add: power_add)
    have "n div 128 * 128 * 2 ^ i \<le> n * 2 ^ i" by (intro mult_le_mono1) simp
    then have lt: "n div 128 * 2 ^ (i + 7) < 2 ^ 28" using "1.prems"(6) m by linarith
    have "unat val' < 128 * 2 ^ i"
    proof -
      have "n mod 128 * 2 ^ i \<le> 127 * 2 ^ i" by (intro mult_le_mono1) simp
      then show ?thesis using val' "1.prems"(3) by linarith
    qed
    then have v: "unat val' < 2 ^ (i + 7)" by (simp add: power_add)
    have "pops (pop_uint_loop b val' (i + 7)) b (word_of_nat (unat val' + n div 128 * 2 ^ (i + 7))) (Some r)"
      using False b(2,3) c(2) v \<open>7 dvd i + 7\<close> i lt by (intro "1.IH") auto
    moreover have "unat val' + n div 128 * 2 ^ (i + 7) = unat val + n * 2 ^ i"
    proof -
      have "n mod 128 * 2 ^ i + n div 128 * 128 * 2 ^ i = (n mod 128 + n div 128 * 128) * 2 ^ i"
        by (simp only: add_mult_distrib)
      then show ?thesis unfolding val' m mod_div_mult_eq by linarith
    qed
    ultimately show ?thesis
      using loop c(1) top_bit_u8 [of cur] b(4,5) by (simp add: pops_def del: of_nat_add of_nat_mult)
  qed
qed

lemma pop_uint_too_large:
  assumes "wf_read buf" and "rview buf = Some (leb n @ r)" and "7 dvd i" and "i \<le> 28" and "2 ^ 28 \<le> n * 2 ^ i"
  shows "pops (pop_uint_loop buf val i) buf 0 None"
  using assms
proof (induction n arbitrary: buf val i rule: leb.induct)
  case (1 n)
  obtain cur tl where tl: "leb n = cur # tl" using leb_nonempty [of n] by (cases "leb n") auto
  obtain b where b: "iobuf_pop_u8 buf = Some (cur, b)" "wf_read b" "rview b = Some (tl @ r)"
      "rdata b = rdata buf" "rdata_size b = rdata_size buf"
    using pop_u8(1) [OF "1.prems"(1), of cur "tl @ r"] "1.prems"(2) by (auto simp: tl pops_def)
  show ?case
  proof (cases "i = 28")
    case True
    then have "pop_uint_loop buf val i = Some (0, b\<lparr>rerr := True\<rparr>)"
      by (subst pop_uint_loop.simps) (simp add: b(1) Let_def)
    moreover have "wf_read (b\<lparr>rerr := True\<rparr>)" using b(2) by (simp add: wf_read_def)
    ultimately show ?thesis using b by (simp add: pops_def rview_def)
  next
    case False
    then have i: "i + 7 \<le> 28" using "1.prems"(3,4) by (auto simp: dvd_def)
    have "(2 :: nat) ^ 28 = 2 ^ (28 - i) * 2 ^ i" using "1.prems"(4) by (simp flip: power_add)
    then have "2 ^ (28 - i) * 2 ^ i \<le> n * 2 ^ i" using "1.prems"(5) by linarith
    then have n: "2 ^ (28 - i) \<le> n" by simp
    moreover have "(2 :: nat) ^ 7 \<le> 2 ^ (28 - i)" using i by (intro power_increasing) auto
    ultimately have large: "128 \<le> n" by simp
    then have c: "128 \<le> unat cur" "tl = leb (n div 128)"
      using tl by (auto simp: leb_large unat_cont_byte simp del: of_nat_add)
    have "28 - i = 7 + (28 - (i + 7))" using i by simp
    then have "(2 :: nat) ^ (28 - i) = 2 ^ 7 * 2 ^ (28 - (i + 7))" by (simp only: power_add)
    then have "(2 :: nat) ^ (28 - i) = 128 * 2 ^ (28 - (i + 7))" by simp
    then have "2 ^ (28 - (i + 7)) \<le> n div 128" using n by (simp add: less_eq_div_iff_mult_less_eq mult.commute)
    then have "2 ^ (28 - (i + 7)) * 2 ^ (i + 7) \<le> n div 128 * 2 ^ (i + 7)" by (rule mult_le_mono1)
    then have "2 ^ 28 \<le> n div 128 * 2 ^ (i + 7)" using i by (simp flip: power_add)
    then have "pops (pop_uint_loop b v (i + 7)) b 0 None" for v
      using large b(2,3) c(2) i "1.prems"(3) by (intro "1.IH") auto
    moreover have "pop_uint_loop buf val i = pop_uint_loop b (val OR push_bit i (ucast (cur AND 0x7F))) (i + 7)"
      using i c(1) top_bit_u8 [of cur] by (subst pop_uint_loop.simps) (simp add: b(1) Let_def)
    ultimately show ?thesis using b(4,5) by (simp add: pops_def)
  qed
qed

text \<open>Every other reader: the loop ends and stays inside the object.\<close>

lemma pop_u8_total: "wf_read buf \<Longrightarrow> \<exists>v r. pops (iobuf_pop_u8 buf) buf v r"
  using pop_u8 [of buf] by (cases "rview buf"; cases "the (rview buf)") (auto simp: take_bytes_def)

lemma pop_uint_total: "wf_read buf \<Longrightarrow> \<exists>v r. pops (pop_uint_loop buf val i) buf v r"
proof (induction buf val i rule: pop_uint_loop.induct)
  case (1 buf val i)
  obtain cur b where b: "iobuf_pop_u8 buf = Some (cur, b)" "wf_read b"
      "rdata b = rdata buf" "rdata_size b = rdata_size buf"
    using pop_u8_total [OF 1(2)] by (auto simp: pops_def)
  show ?case
  proof (cases "i + 7 \<le> 32 \<and> cur AND 0x80 \<noteq> 0")
    case True
    then obtain v r where "pops (pop_uint_loop b (val OR push_bit i (ucast (cur AND 0x7F))) (i + 7)) b v r"
      using 1(1) [OF b(1) refl refl _ _ _ b(2)] by auto
    then have "pops (pop_uint_loop buf val i) buf v r"
      using True b by (subst pop_uint_loop.simps) (auto simp: Let_def pops_def)
    then show ?thesis by blast
  next
    case False
    then have "\<exists>v b'. pop_uint_loop buf val i = Some (v, b') \<and> (b' = b \<or> b' = b\<lparr>rerr := True\<rparr>)"
      using b(1) by (subst pop_uint_loop.simps) (auto simp: Let_def)
    then obtain v b' where "pop_uint_loop buf val i = Some (v, b')" "b' = b \<or> b' = b\<lparr>rerr := True\<rparr>"
      by blast
    then have "pops (pop_uint_loop buf val i) buf v (rview b')"
      using b by (auto simp: pops_def wf_read_def)
    then show ?thesis by blast
  qed
qed

section \<open>Messages\<close>

text \<open>A message to the radio as the code builds it: a list of typed items.\<close>

datatype item = S_bool bool | S_uint u32 | S_u8 u8 | S_i8 int | S_u8s "u8 list" | S_u16 u16 | S_i16 int
  | S_u16s "u16 list" | S_u32 u32 | S_i32 int | S_u32s "u32 list" | S_str "u8 list" | S_data "u8 list"

fun item_ok :: "item \<Rightarrow> bool" where
  "item_ok (S_uint v) \<longleftrightarrow> unat v < 2 ^ 28"
| "item_ok (S_i8 i) \<longleftrightarrow> - 128 \<le> i \<and> i < 128"
| "item_ok (S_i16 i) \<longleftrightarrow> - 32768 \<le> i \<and> i < 32768"
| "item_ok (S_i32 i) \<longleftrightarrow> - 2147483648 \<le> i \<and> i < 2147483648"
| "item_ok (S_str s) \<longleftrightarrow> 0 \<notin> set s"
| "item_ok (S_data d) \<longleftrightarrow> length d < 65536"
| "item_ok _ \<longleftrightarrow> True"

fun item_bytes :: "item \<Rightarrow> u8 list" where
  "item_bytes (S_bool b) = [of_bool b]"
| "item_bytes (S_uint v) = leb (unat v)"
| "item_bytes (S_u8 v) = [v]"
| "item_bytes (S_i8 i) = [word_of_int i]"
| "item_bytes (S_u8s vs) = vs"
| "item_bytes (S_u16 v) = le_bytes 2 (unat v)"
| "item_bytes (S_i16 i) = le_bytes 2 (unat (word_of_int i :: u16))"
| "item_bytes (S_u16s vs) = concat (map (\<lambda>v. le_bytes 2 (unat v)) vs)"
| "item_bytes (S_u32 v) = le_bytes 4 (unat v)"
| "item_bytes (S_i32 i) = le_bytes 4 (unat (word_of_int i :: u32))"
| "item_bytes (S_u32s vs) = concat (map (\<lambda>v. le_bytes 4 (unat v)) vs)"
| "item_bytes (S_str s) = s @ [0]"
| "item_bytes (S_data d) = le_bytes 2 (length d) @ d"

fun push_item :: "iobuf_write \<Rightarrow> item \<Rightarrow> iobuf_write option" where
  "push_item buf (S_bool b) = spinel_push_bool buf b"
| "push_item buf (S_uint v) = spinel_push_uint buf v"
| "push_item buf (S_u8 v) = spinel_push_u8 buf v"
| "push_item buf (S_i8 i) = spinel_push_i8 buf i"
| "push_item buf (S_u8s vs) = spinel_push_fixed_u8_array buf vs (length vs)"
| "push_item buf (S_u16 v) = spinel_push_u16 buf v"
| "push_item buf (S_i16 i) = spinel_push_i16 buf i"
| "push_item buf (S_u16s vs) = spinel_push_fixed_u16_array buf vs (length vs)"
| "push_item buf (S_u32 v) = spinel_push_u32 buf v"
| "push_item buf (S_i32 i) = spinel_push_i32 buf i"
| "push_item buf (S_u32s vs) = spinel_push_fixed_u32_array buf vs (length vs)"
| "push_item buf (S_str s) = spinel_push_str buf (s @ [0])"
| "push_item buf (S_data d) = spinel_push_data buf d (length d)"

text \<open>Reading an item of the same kind (and, for arrays, the same length) as the given one.\<close>

definition at_offset :: "iobuf_read \<Rightarrow> nat option \<Rightarrow> u8 list" where
  "at_offset buf p = drop (the p) (rdata buf)"

fun pop_item :: "iobuf_read \<Rightarrow> item \<Rightarrow> (item \<times> iobuf_read) option" where
  "pop_item buf (S_bool _) = map_option (map_prod S_bool id) (spinel_pop_bool buf)"
| "pop_item buf (S_uint _) = map_option (map_prod S_uint id) (spinel_pop_uint buf)"
| "pop_item buf (S_u8 _) = map_option (map_prod S_u8 id) (spinel_pop_u8 buf)"
| "pop_item buf (S_i8 _) = map_option (map_prod S_i8 id) (spinel_pop_i8 buf)"
| "pop_item buf (S_u8s vs) =
     map_option (map_prod S_u8s id) (spinel_pop_fixed_u8_array buf (replicate (length vs) 0) (length vs))"
| "pop_item buf (S_u16 _) = map_option (map_prod S_u16 id) (spinel_pop_u16 buf)"
| "pop_item buf (S_i16 _) = map_option (map_prod S_i16 id) (spinel_pop_i16 buf)"
| "pop_item buf (S_u16s vs) =
     map_option (map_prod S_u16s id) (spinel_pop_fixed_u16_array buf (replicate (length vs) 0) (length vs))"
| "pop_item buf (S_u32 _) = map_option (map_prod S_u32 id) (spinel_pop_u32 buf)"
| "pop_item buf (S_i32 _) = map_option (map_prod S_i32 id) (spinel_pop_i32 buf)"
| "pop_item buf (S_u32s vs) =
     map_option (map_prod S_u32s id) (spinel_pop_fixed_u32_array buf (replicate (length vs) 0) (length vs))"
| "pop_item buf (S_str _) =
     map_option (map_prod (\<lambda>p. S_str (takeWhile (\<lambda>c. c \<noteq> 0) (at_offset buf p))) id) (spinel_pop_str buf)"
| "pop_item buf (S_data _) =
     map_option (\<lambda>(n, p, b). (S_data (take n (at_offset buf p)), b)) (spinel_pop_data_ptr buf)"

fun push_items :: "iobuf_write \<Rightarrow> item list \<Rightarrow> iobuf_write option" where
  "push_items buf [] = Some buf"
| "push_items buf (x # xs) = do { buf \<leftarrow> push_item buf x; push_items buf xs }"

fun pop_items :: "iobuf_read \<Rightarrow> item list \<Rightarrow> (item list \<times> iobuf_read) option" where
  "pop_items buf [] = Some ([], buf)"
| "pop_items buf (x # xs) =
     do { (y, buf) \<leftarrow> pop_item buf x; (ys, buf) \<leftarrow> pop_items buf xs; Some (y # ys, buf) }"

section \<open>Items: writing\<close>

lemma push_u16_array_loop:
  assumes "wf_write buf" and "i + n \<le> length vs"
  shows "pushes (push_u16_array_loop buf vs i n) buf
    (concat (map (\<lambda>v. le_bytes 2 (unat v)) (take n (drop i vs))))"
  using assms
proof (induction n arbitrary: buf i)
  case 0
  then show ?case by (simp add: pushes_Some)
next
  case (Suc n)
  then have "drop i vs = vs ! i # drop (Suc i) vs" by (intro Cons_nth_drop_Suc [symmetric]) simp
  with Suc show ?case by (auto simp: load_def intro!: pushes_bind push_numbers)
qed

lemma push_u32_array_loop:
  assumes "wf_write buf" and "i + n \<le> length vs"
  shows "pushes (push_u32_array_loop buf vs i n) buf
    (concat (map (\<lambda>v. le_bytes 4 (unat v)) (take n (drop i vs))))"
  using assms
proof (induction n arbitrary: buf i)
  case 0
  then show ?case by (simp add: pushes_Some)
next
  case (Suc n)
  then have "drop i vs = vs ! i # drop (Suc i) vs" by (intro Cons_nth_drop_Suc [symmetric]) simp
  with Suc show ?case by (auto simp: load_def intro!: pushes_bind push_numbers)
qed

lemma strlen_str: "0 \<notin> set s \<Longrightarrow> strlen (s @ 0 # r) = Some (length s)"
proof -
  assume "0 \<notin> set s"
  then have "takeWhile (\<lambda>c. c \<noteq> 0) (s @ 0 # r) = s"
    by (subst takeWhile_append2) auto
  then show ?thesis by (simp add: strlen_def)
qed

lemma push_item:
  assumes "wf_write buf" and "item_ok x"
  shows "pushes (push_item buf x) buf (item_bytes x)"
proof (cases x)
  case (S_str s)
  then show ?thesis
    using assms push_data [OF assms(1), of "length s + 1" "s @ [0]"]
    by (simp add: spinel_push_str_def strlen_str)
next
  case (S_data d)
  have "unat (word_of_nat (length d) :: u16) = length d"
    using assms(2) S_data by (simp add: unsigned_of_nat take_bit_nat_eq_self_iff)
  then have "pushes (iobuf_push_le16 buf (word_of_nat (length d))) buf (le_bytes 2 (length d))"
    using push_numbers(2) [OF assms(1), of "word_of_nat (length d)"] by simp
  moreover have "pushes (iobuf_push_data b d (length d)) b d" if "wf_write b" for b
    using push_data [OF that, of "length d" d] by simp
  ultimately show ?thesis using S_data by (simp add: spinel_push_data_def pushes_bind)
next
  case (S_u8s vs)
  then show ?thesis
    using push_data [OF assms(1), of "length vs" vs] by (simp add: spinel_push_fixed_u8_array_def)
next
  case (S_u16s vs)
  then show ?thesis
    using push_u16_array_loop [OF assms(1), of 0 "length vs" vs] by (simp add: spinel_push_fixed_u16_array_def)
next
  case (S_u32s vs)
  then show ?thesis
    using push_u32_array_loop [OF assms(1), of 0 "length vs" vs] by (simp add: spinel_push_fixed_u32_array_def)
qed (use assms in \<open>simp_all add: push_intros push_uint spinel_push_bool_def spinel_push_u8_def spinel_push_i8_def
    spinel_push_u16_def spinel_push_i16_def spinel_push_u32_def spinel_push_i32_def\<close>)

lemma push_items:
  "wf_write buf \<Longrightarrow> list_all item_ok xs \<Longrightarrow> pushes (push_items buf xs) buf (concat (map item_bytes xs))"
proof (induction xs arbitrary: buf)
  case Nil
  then show ?case by (simp add: pushes_Some)
next
  case (Cons x xs)
  then show ?case by (auto intro!: pushes_bind push_item)
qed

section \<open>Items: reading\<close>

lemma pops_mapI: "pops m buf v r \<Longrightarrow> w = g v \<Longrightarrow> pops (map_option (map_prod g (\<lambda>b. b)) m) buf w r"
  using pops_map [of m buf v r g] by (simp add: id_def)

lemma pop_u16_array_loop:
  assumes "wf_read buf" and "rview buf = Some (concat (map (\<lambda>v. le_bytes 2 (unat v)) vs) @ r)"
    and "i + length vs \<le> length val"
  shows "pops (pop_u16_array_loop buf val i (length vs)) buf (take i val @ vs @ drop (i + length vs) val) (Some r)"
  using assms
proof (induction vs arbitrary: buf i val)
  case Nil
  then show ?case by (simp add: pops_def)
next
  case (Cons v vs)
  obtain b where b: "iobuf_pop_le16 buf = Some (v, b)" "wf_read b"
      "rview b = Some (concat (map (\<lambda>v. le_bytes 2 (unat v)) vs) @ r)"
      "rdata b = rdata buf" "rdata_size b = rdata_size buf"
    using pops_enc(2) [OF Cons.prems(1), of v] Cons.prems(2) by (auto simp: pops_def)
  have "pops (pop_u16_array_loop b (val[i := v]) (i + 1) (length vs)) b
      (take (i + 1) (val[i := v]) @ vs @ drop (i + 1 + length vs) (val[i := v])) (Some r)"
    using Cons.prems(3) by (intro Cons.IH b) simp
  then show ?case
    using Cons.prems(3) b(1,4,5) by (simp add: store_def pops_def take_Suc_conv_app_nth take_update_swap list_update_append)
qed

lemma pop_u32_array_loop:
  assumes "wf_read buf" and "rview buf = Some (concat (map (\<lambda>v. le_bytes 4 (unat v)) vs) @ r)"
    and "i + length vs \<le> length val"
  shows "pops (pop_u32_array_loop buf val i (length vs)) buf (take i val @ vs @ drop (i + length vs) val) (Some r)"
  using assms
proof (induction vs arbitrary: buf i val)
  case Nil
  then show ?case by (simp add: pops_def)
next
  case (Cons v vs)
  obtain b where b: "iobuf_pop_le32 buf = Some (v, b)" "wf_read b"
      "rview b = Some (concat (map (\<lambda>v. le_bytes 4 (unat v)) vs) @ r)"
      "rdata b = rdata buf" "rdata_size b = rdata_size buf"
    using pops_enc(6) [OF Cons.prems(1), of v] Cons.prems(2) by (auto simp: pops_def)
  have "pops (pop_u32_array_loop b (val[i := v]) (i + 1) (length vs)) b
      (take (i + 1) (val[i := v]) @ vs @ drop (i + 1 + length vs) (val[i := v])) (Some r)"
    using Cons.prems(3) by (intro Cons.IH b) simp
  then show ?case
    using Cons.prems(3) b(1,4,5) by (simp add: store_def pops_def take_Suc_conv_app_nth take_update_swap list_update_append)
qed

lemma rview_prefix:
  assumes "wf_read buf" and "rview buf = Some bs"
  shows "\<exists>q. drop (nat (rcnt buf)) (rdata buf) = bs @ q"
    and "iobuf_remaining_size buf = int (length bs)" and "int (length bs) < 2 ^ 31"
proof -
  have bs: "bs = rrest buf" "\<not> rerr buf" using assms(2) by (auto simp: rview_def split: if_splits)
  then show "\<exists>q. drop (nat (rcnt buf)) (rdata buf) = bs @ q"
    by (metis append_take_drop_id rrest_def)
  show r: "iobuf_remaining_size buf = int (length bs)"
    using rrest_length [OF assms(1)] bs by (simp add: iobuf_remaining_size_def)
  show "int (length bs) < 2 ^ 31"
    using r assms(1) by (simp add: wf_read_def iobuf_remaining_size_def)
qed

lemma takeWhile_str: "0 \<notin> set s \<Longrightarrow> takeWhile (\<lambda>c. c \<noteq> 0) (s @ 0 # r) = (s :: u8 list)"
  by (subst takeWhile_append2) auto

lemma pop_str_found:
  assumes "wf_read buf" and "rview buf = Some (s @ 0 # r)" and "0 \<notin> set s"
  shows "pops (spinel_pop_str buf) buf (Some (nat (rcnt buf))) (Some r)"
    and "takeWhile (\<lambda>c. c \<noteq> 0) (drop (nat (rcnt buf)) (rdata buf)) = s"
proof -
  obtain q where q: "drop (nat (rcnt buf)) (rdata buf) = s @ 0 # r @ q"
    using rview_prefix(1) [OF assms(1,2)] by auto
  show tw: "takeWhile (\<lambda>c. c \<noteq> 0) (drop (nat (rcnt buf)) (rdata buf)) = s"
    using assms(3) by (simp add: q takeWhile_str)
  note rem = rview_prefix(2,3) [OF assms(1,2)]
  have ptr: "iobuf_ptr buf = Some (s @ 0 # r @ q)"
    using assms(1) q by (auto simp: iobuf_ptr_def ptr_at_def wf_read_def)
  have "strnlen (s @ 0 # r @ q) (to_size_t (iobuf_remaining_size buf)) = Some (length s)"
    using rem assms(3) by (simp add: strnlen_def takeWhile_str to_size_t_nonneg)
  moreover have "take_bytes (length s + 1) (rview buf) = Some (s @ [0], r)"
    using assms(2) by (simp add: take_bytes_def)
  from advance(1,2) [OF assms(1) this]
  have "wf_read (buf\<lparr>rcnt := rcnt buf + int (length s) + 1\<rparr>)"
    "rview (buf\<lparr>rcnt := rcnt buf + int (length s) + 1\<rparr>) = Some r"
    by (simp_all add: ac_simps)
  ultimately show "pops (spinel_pop_str buf) buf (Some (nat (rcnt buf))) (Some r)"
    using rem(1) by (simp add: spinel_pop_str_def ptr pops_def)
qed

lemma pop_data_ptr_found:
  assumes "wf_read buf" and "rview buf = Some (le_bytes 2 (length d) @ d @ r)" and "length d < 65536"
  shows "\<exists>b. spinel_pop_data_ptr buf = Some (length d, Some (nat (rcnt buf) + 2), b) \<and> wf_read b \<and>
    rview b = Some r \<and> rdata b = rdata buf \<and> rdata_size b = rdata_size buf"
    and "take (length d) (drop (nat (rcnt buf) + 2) (rdata buf)) = d"
proof -
  let ?n = "word_of_nat (length d) :: u16"
  have n: "unat ?n = length d" using assms(3) by (simp add: unsigned_of_nat take_bit_nat_eq_self_iff)
  have tb: "take_bytes 2 (rview buf) = Some (le_bytes 2 (length d), d @ r)"
    using assms(2) by (simp add: take_bytes_Some_iff)
  define b where "b = buf\<lparr>rcnt := rcnt buf + 2\<rparr>"
  have b: "wf_read b" "rview b = Some (d @ r)"
    using advance(1,2) [OF assms(1) tb] by (simp_all add: b_def)
  have pop: "iobuf_pop_le16 buf = Some (?n, b)"
  proof -
    have "pops (iobuf_pop_le16 buf) buf ?n (Some (d @ r))"
      using pops_enc(2) [OF assms(1), of ?n "d @ r"] assms(2) n by simp
    then show ?thesis
      using tb by (auto simp: pops_def iobuf_pop_le16_def validate_eq [OF assms(1)] b_def split: Option.bind_splits)
  qed
  have tb2: "take_bytes (length d) (rview b) = Some (d, r)" using b(2) by (simp add: take_bytes_def)
  have c: "nat (rcnt b) = nat (rcnt buf) + 2" using assms(1) by (simp add: b_def wf_read_def nat_add_distrib)
  from pop_data_ptr(1) [OF b(1) tb2] show
    "\<exists>b. spinel_pop_data_ptr buf = Some (length d, Some (nat (rcnt buf) + 2), b) \<and> wf_read b \<and>
      rview b = Some r \<and> rdata b = rdata buf \<and> rdata_size b = rdata_size buf"
    "take (length d) (drop (nat (rcnt buf) + 2) (rdata buf)) = d"
    using pop n c by (auto simp: spinel_pop_data_ptr_def pops_def b_def)
qed

lemma sint_word_of_int:
  "- 128 \<le> i \<Longrightarrow> i < 128 \<Longrightarrow> sint (word_of_int i :: u8) = i"
  "- 32768 \<le> i \<Longrightarrow> i < 32768 \<Longrightarrow> sint (word_of_int i :: u16) = i"
  "- 2147483648 \<le> i \<Longrightarrow> i < 2147483648 \<Longrightarrow> sint (word_of_int i :: u32) = i"
  by (simp_all add: signed_of_int signed_take_bit_int_eq_self)

lemma pop_bool: "wf_read buf \<Longrightarrow> rview buf = Some (of_bool b # r) \<Longrightarrow> pops (spinel_pop_bool buf) buf b (Some r)"
  using pop_u8(1) [of buf "of_bool b" r]
  by (auto simp: spinel_pop_bool_def pops_def rview_def split: if_splits)

lemma pop_uint: "wf_read buf \<Longrightarrow> rview buf = Some (leb (unat v) @ r) \<Longrightarrow> unat v < 2 ^ 28 \<Longrightarrow>
    pops (spinel_pop_uint buf) buf v (Some r)"
  using pop_uint_leb [of buf "unat v" r 0 0] by (simp add: spinel_pop_uint_def)

lemma pop_item:
  assumes "wf_read buf" and "rview buf = Some (item_bytes x @ r)" and "item_ok x"
  shows "pops (pop_item buf x) buf x (Some r)"
proof (cases x)
  case (S_str s)
  from pop_str_found [of buf s r] assms S_str show ?thesis
    by (auto simp: at_offset_def id_def intro!: pops_mapI)
next
  case (S_data d)
  from pop_data_ptr_found [of buf d r] assms S_data show ?thesis
    by (auto simp: at_offset_def pops_def)
next
  case (S_u8s vs)
  have "pops (iobuf_pop_data buf (Some (replicate (length vs) 0)) (length vs)) buf (Some vs) (Some r)"
    using assms(2) S_u8s pop_data(1) [OF assms(1), of "length vs" "replicate (length vs) 0" vs r]
    by (simp add: take_bytes_Some_iff)
  then show ?thesis using S_u8s by (auto simp: spinel_pop_fixed_u8_array_def pops_def)
next
  case (S_u16s vs)
  with pop_u16_array_loop [OF assms(1), of vs r 0 "replicate (length vs) 0"] assms(2) show ?thesis
    by (auto simp: spinel_pop_fixed_u16_array_def id_def intro!: pops_mapI)
next
  case (S_u32s vs)
  with pop_u32_array_loop [OF assms(1), of vs r 0 "replicate (length vs) 0"] assms(2) show ?thesis
    by (auto simp: spinel_pop_fixed_u32_array_def id_def intro!: pops_mapI)
next
  case (S_i8 i)
  then have "pops (spinel_pop_i8 buf) buf i (Some r)"
    using assms pop_u8(1) unfolding spinel_pop_i8_def by (intro pops_mapI) (auto simp: sint_word_of_int)
  with S_i8 show ?thesis by (auto simp: id_def intro!: pops_mapI)
next
  case (S_i16 i)
  then have "pops (spinel_pop_i16 buf) buf i (Some r)"
    using assms pops_enc(2) unfolding spinel_pop_i16_def by (intro pops_mapI) (auto simp: sint_word_of_int)
  with S_i16 show ?thesis by (auto simp: id_def intro!: pops_mapI)
next
  case (S_i32 i)
  then have "pops (spinel_pop_i32 buf) buf i (Some r)"
    using assms pops_enc(6) unfolding spinel_pop_i32_def by (intro pops_mapI) (auto simp: sint_word_of_int)
  with S_i32 show ?thesis by (auto simp: id_def intro!: pops_mapI)
qed (use assms in \<open>auto simp: pops_map pops_enc pop_u8 pop_bool pop_uint spinel_pop_u8_def spinel_pop_u16_def
    spinel_pop_u32_def\<close>)

lemma pop_items:
  assumes "wf_read b" and "rview b = Some (concat (map item_bytes xs) @ r)" and "list_all item_ok xs"
  shows "pops (pop_items b xs) b xs (Some r)"
  using assms
proof (induction xs arbitrary: b)
  case Nil
  then show ?case by (simp add: pops_def)
next
  case (Cons x xs)
  then have "pops (pop_item b x) b x (Some (concat (map item_bytes xs) @ r))"
    by (intro pop_item) simp_all
  then obtain b' where b': "pop_item b x = Some (x, b')" "wf_read b'"
      "rview b' = Some (concat (map item_bytes xs) @ r)" "rdata b' = rdata b" "rdata_size b' = rdata_size b"
    by (auto simp: pops_def)
  with Cons have "pops (pop_items b' xs) b' xs (Some r)" by simp
  with b' show ?case by (auto simp: pops_def)
qed

lemma pop_raw_ptr_all:
  assumes "wf_read b" and "rview b = Some r"
  shows "\<exists>b'. spinel_pop_raw_ptr b = Some (length r, Some (nat (rcnt b)), b') \<and>
    take (length r) (drop (nat (rcnt b)) (rdata b)) = r \<and> spinel_prop_is_valid b'"
proof -
  note rem = rview_prefix(2,3) [OF assms]
  have sz: "remaining_unsigned b = length r" using rem by (simp add: remaining_unsigned_def)
  have "take_bytes (length r) (rview b) = Some (r, [])" using assms(2) by (simp add: take_bytes_def)
  from pop_data_ptr(1) [OF assms(1) this] obtain b' where
    b': "iobuf_pop_data_ptr b (length r) = Some (Some (nat (rcnt b)), b')" "wf_read b'" "rview b' = Some []"
      "take (length r) (drop (nat (rcnt b)) (rdata b)) = r"
    by (auto simp: pops_def)
  have "spinel_prop_is_valid b'"
    using rview_prefix(2) [OF b'(2,3)] b'(3) by (auto simp: spinel_prop_is_valid_def rview_def split: if_splits)
  with b' show ?thesis by (simp add: spinel_pop_raw_ptr_def sz)
qed

lemma leb_length: "n < 128 ^ k \<Longrightarrow> 0 < k \<Longrightarrow> length (leb n) \<le> k"
proof (induction k arbitrary: n)
  case 0
  then show ?case by simp
next
  case (Suc k)
  show ?case
  proof (cases "n < 128")
    case True
    then show ?thesis by (simp add: leb_small)
  next
    case False
    then have "k \<noteq> 0" using Suc.prems(1) by (cases k) auto
    moreover have "n div 128 < 128 ^ k" using Suc.prems(1) by (simp add: less_mult_imp_div_less mult.commute)
    ultimately show ?thesis using False Suc.IH [of "n div 128"] by (simp add: leb_large)
  qed
qed

section \<open>Properties\<close>



text \<open>
  Variable length integers: \<open>spinel_pop_uint\<close> always ends, inside the buffer, and reads back
  what \<open>spinel_push_uint\<close> wrote exactly when the value is below \<open>2 ^ 28\<close>; a larger one, which
  takes five bytes, puts the reader into its error state.
\<close>

theorem spinel_uint_limit:
  "(\<exists>w. spinel_push_uint iobuf_init v = Some w \<and>
      (\<exists>u b. spinel_pop_uint (iobuf_reader (wdata w) (int (wlen w))) = Some (u, b) \<and>
         (if unat v < 2 ^ 28 then u = v \<and> spinel_prop_is_valid b else u = 0 \<and> rerr b)))"
proof -
  obtain w where w: "spinel_push_uint iobuf_init v = Some w" "wf_write w" "wbytes w = leb (unat v)"
    using push_uint [OF wf_write_init, of v] by (auto simp: pushes_def)
  have "length (leb (unat v)) \<le> 5" using unat_u32_lt [of v] by (intro leb_length) auto
  then have len: "wlen w = length (leb (unat v))" "length (leb (unat v)) < 2 ^ 31"
    using w(2,3) by (auto simp: wf_write_def wbytes_def dest: arg_cong [where f = length])
  let ?b = "iobuf_reader (wdata w) (int (wlen w))"
  have wf: "wf_read ?b" using w(2) len by (intro wf_reader) (auto simp: wf_write_def)
  have view: "rview ?b = Some (leb (unat v) @ [])" using w(3) by (simp add: rview_reader wbytes_def)
  show ?thesis
  proof (cases "unat v < 2 ^ 28")
    case True
    obtain b where b: "spinel_pop_uint ?b = Some (v, b)" "wf_read b" "rview b = Some []"
      using pop_uint [OF wf view True] by (auto simp: pops_def)
    have "spinel_prop_is_valid b"
      using rview_prefix(2) [OF b(2,3)] b(3) by (auto simp: spinel_prop_is_valid_def rview_def split: if_splits)
    then show ?thesis using w(1) b(1) True by simp
  next
    case False
    then have "pops (spinel_pop_uint ?b) ?b 0 None"
      unfolding spinel_pop_uint_def by (intro pop_uint_too_large [OF wf view]) auto
    then show ?thesis using w(1) False by (auto simp: pops_def rview_def split: if_splits)
  qed
qed

text \<open>
  Reading a string from a reader with nothing left: the code looks at the byte before the
  cursor, and when that is the zero that ended the previous string it succeeds, without setting
  the error flag, and leaves the cursor one past the end. The remaining size is then -1, a huge
  \<open>size_t\<close> for \<open>iobuf_validate\<close>, and the next read is outside the object.
\<close>

theorem spinel_pop_str_exhausted:
  assumes "wf_read buf" and "rview buf = Some []" and "0 < rcnt buf"
    and "rdata buf ! nat (rcnt buf - 1) = 0" and "rdata_size buf = int (length (rdata buf))"
  shows "\<exists>b. spinel_pop_str buf = Some (Some (nat (rcnt buf)), b) \<and> \<not> rerr b \<and>
    iobuf_remaining_size b = -1 \<and> iobuf_pop_u8 b = None"
proof -
  have rem: "iobuf_remaining_size buf = 0" using rview_prefix(2) [OF assms(1,2)] by simp
  then have c: "rcnt buf = int (length (rdata buf))"
    using assms(5) by (simp add: iobuf_remaining_size_def)
  have ne: "\<not> rerr buf" using assms(2) by (auto simp: rview_def split: if_splits)
  moreover have "nat (int (length (rdata buf)) - 1) < length (rdata buf)" using assms(3) c by linarith
  ultimately have "spinel_pop_str buf = Some (Some (nat (rcnt buf)), buf\<lparr>rcnt := rcnt buf + 1\<rparr>)"
    using assms(3,4) c rem
    by (simp add: spinel_pop_str_def iobuf_ptr_def ptr_at_def strnlen_def to_size_t_def load_at_def load_def)
  moreover have "iobuf_pop_u8 (buf\<lparr>rcnt := rcnt buf + 1\<rparr>) = None"
    using c rem ne
    by (simp add: iobuf_pop_u8_def iobuf_validate_def iobuf_remaining_size_def to_size_t_def ptr_at_def)
  ultimately show ?thesis using rem ne by (auto simp: iobuf_remaining_size_def)
qed

theorem spinel_pop_str_exhausted_witness:
  "\<exists>b. spinel_pop_str ((iobuf_reader [65, 0] 2)\<lparr>rcnt := 2\<rparr>) = Some (Some 2, b) \<and> \<not> rerr b \<and>
    iobuf_remaining_size b = -1 \<and> iobuf_pop_u8 b = None"
  using spinel_pop_str_exhausted [of "(iobuf_reader [65, 0] 2)\<lparr>rcnt := 2\<rparr>"]
  by (simp add: iobuf_reader_def wf_read_def rview_def rrest_def)

text \<open>
  \<open>spinel_pop_data\<close> on a length-prefixed block: when the block is complete its first bytes,
  as many as fit, are copied and the whole block is consumed; when it is cut short the copy is
  made from the null pointer \<open>iobuf_pop_data_ptr\<close> returned.
\<close>

theorem spinel_pop_data_cases:
  assumes "wf_read buf" and "n < 65536" and "val_size \<le> length val" and "0 < n" and "0 < val_size"
    and "rview buf = Some (le_bytes 2 n @ d)"
  shows "if n \<le> length d
    then \<exists>b. spinel_pop_data buf (Some val) val_size =
          Some (n, Some (take (min n val_size) d @ drop (min n val_size) val), b) \<and>
        wf_read b \<and> rview b = Some (drop n d)
    else spinel_pop_data buf (Some val) val_size = None"
proof -
  let ?n = "word_of_nat n :: u16"
  have n: "unat ?n = n" using assms(2) by (simp add: unsigned_of_nat take_bit_nat_eq_self_iff)
  obtain b where b: "iobuf_pop_le16 buf = Some (?n, b)" "wf_read b" "rview b = Some d"
    using pops_enc(2) [OF assms(1), of ?n d] assms(6) n by (auto simp: pops_def)
  show ?thesis
  proof (cases "n \<le> length d")
    case True
    then have tb: "take_bytes n (rview b) = Some (take n d, drop n d)" using b(3) by (simp add: take_bytes_def)
    from pop_data_ptr(1) [OF b(2) tb] obtain b' where
      b': "iobuf_pop_data_ptr b n = Some (Some (nat (rcnt b)), b')" "wf_read b'" "rview b' = Some (drop n d)"
        "rdata b' = rdata b" "take n (drop (nat (rcnt b)) (rdata b)) = take n d"
      by (auto simp: pops_def)
    have fit: "nat (rcnt b) + n \<le> length (rdata b)"
      using arg_cong [OF b'(5), of length] True \<open>0 < n\<close> by simp
    have "take (min n val_size) (drop (nat (rcnt b)) (rdata b)) = take (min n val_size) d"
      using b'(5) by (metis min.commute take_take)
    moreover have "length (take (min n val_size) d) = min n val_size" using True by simp
    ultimately have "memcpy_from val (Some (nat (rcnt b))) (rdata b') (min n val_size) =
        Some (take (min n val_size) d @ drop (min n val_size) val)"
      using fit assms(3) min.cobounded1 [of n val_size] min.cobounded2 [of n val_size]
      by (simp add: memcpy_from_def load_n_def store_n_def b'(4) del: min.cobounded1 min.cobounded2)
    then show ?thesis using True b(1) b' n by (simp add: spinel_pop_data_def)
  next
    case False
    then have "take_bytes n (rview b) = None" using b(3) by (simp add: take_bytes_def)
    then obtain b' where "iobuf_pop_data_ptr b n = Some (None, b')"
      using pop_data_ptr(2) [OF b(2)] by (auto simp: pops_def)
    then show ?thesis using False assms(4,5) b(1) n by (simp add: spinel_pop_data_def memcpy_from_def)
  qed
qed

theorem spinel_pop_data_cases_witness:
  "spinel_pop_data (iobuf_reader [5, 0, 1, 2] 4) (Some [0, 0, 0]) 3 = None"
  using spinel_pop_data_cases [of "iobuf_reader [5, 0, 1, 2] 4" 5 3 "[0, 0, 0]" "[1, 2]"]
  by (simp add: wf_reader rview_reader le_bytes_numeral)

end
