(* ===== verification/Uart.thy ===== *)
theory Uart
  imports Iobuf Crc
begin

text \<open>
  \<open>src/common/bus_uart.c\<close>: HDLC framing of the serial link to the radio, with byte stuffing and
  CRC, the receive buffer that cuts the byte stream into frames, and the ring of the last
  frames kept for retransmission.

  The context is the part of \<open>struct os_ctxt\<close> this file uses; \<open>bus_out\<close> records the frames
  given to \<open>write\<close>. What the system calls return is an argument: the bytes \<open>read\<close> delivers (no
  byte is an end of file or an error, on which the code exits) and the count \<open>write\<close> returns.
\<close>

section \<open>Context\<close>

record retransmission_frame =
  rf_frame :: "u8 list"
  rf_frame_len :: u16
  rf_crc :: u16

record os_ctxt =
  uart_next_frame_ready :: bool
  uart_rx_buf_len :: nat
  uart_rx_buf :: "u8 list"
  uart_inhibit_crc_warning :: bool
  retransmission_index :: nat
  retransmission_buffers :: "retransmission_frame list"
  bus_out :: "u8 list list"

text \<open>The context of static storage, all zero.\<close>

definition os_ctxt_zero :: os_ctxt where
  "os_ctxt_zero = \<lparr>uart_next_frame_ready = False, uart_rx_buf_len = 0, uart_rx_buf = replicate 2048 0,
     uart_inhibit_crc_warning = False, retransmission_index = 0,
     retransmission_buffers = replicate 15 \<lparr>rf_frame = replicate 2048 0, rf_frame_len = 0, rf_crc = 0\<rparr>,
     bus_out = []\<rparr>"

section \<open>Sending\<close>

definition uart_tx_append :: "u8 list \<Rightarrow> nat \<Rightarrow> u8 \<Rightarrow> (nat \<times> u8 list) option" where
  "uart_tx_append out off byte =
     (if byte = 0x7D \<or> byte = 0x7E
      then do { out \<leftarrow> store out off 0x7D; out \<leftarrow> store out (off + 1) (byte XOR 0x20); Some (2, out) }
      else do { out \<leftarrow> store out off byte; Some (1, out) })"

fun encode_loop :: "u8 list \<Rightarrow> nat \<Rightarrow> u8 list \<Rightarrow> nat \<Rightarrow> nat \<Rightarrow> (nat \<times> u8 list) option" where
  "encode_loop out frame_len inp i 0 = Some (frame_len, out)"
| "encode_loop out frame_len inp i (Suc n) =
     do { b \<leftarrow> load inp i;
          (k, out) \<leftarrow> uart_tx_append out frame_len b;
          encode_loop out (frame_len + k) inp (i + 1) n }"

definition uart_encode_hdlc :: "u8 list \<Rightarrow> u8 list \<Rightarrow> nat \<Rightarrow> u16 \<Rightarrow> (nat \<times> u8 list) option" where
  "uart_encode_hdlc out inp in_len crc =
     do { (frame_len, out) \<leftarrow> encode_loop out 0 inp 0 in_len;
          crc_bytes \<leftarrow> write_le16 [0, 0] crc;
          b0 \<leftarrow> load crc_bytes 0;
          (k, out) \<leftarrow> uart_tx_append out frame_len b0;
          let frame_len = frame_len + k;
          b1 \<leftarrow> load crc_bytes 1;
          (k, out) \<leftarrow> uart_tx_append out frame_len b1;
          let frame_len = frame_len + k;
          out \<leftarrow> store out frame_len 0x7E;
          Some (frame_len + 1, out) }"

definition uart_tx :: "os_ctxt \<Rightarrow> u8 list \<Rightarrow> nat \<Rightarrow> int \<Rightarrow> (nat \<times> os_ctxt) option" where
  "uart_tx ctxt buf buf_len write_ret =
     do { crc \<leftarrow> crc16 buf buf_len;
          (frame_len, frame) \<leftarrow> uart_encode_hdlc (replicate (buf_len * 2 + 3) 0) buf buf_len crc;
          if write_ret \<noteq> int frame_len then None
          else do {
            let ctxt = ctxt\<lparr>bus_out := bus_out ctxt @ [take frame_len frame],
                            retransmission_index := (retransmission_index ctxt + 1) mod 15\<rparr>;
            let i = retransmission_index ctxt;
            rb \<leftarrow> load (retransmission_buffers ctxt) i;
            f \<leftarrow> store_n (rf_frame rb) 0 (take frame_len frame);
            rbs \<leftarrow> store (retransmission_buffers ctxt) i
                    (rb\<lparr>rf_frame := f, rf_frame_len := word_of_nat frame_len, rf_crc := crc\<rparr>);
            Some (frame_len, ctxt\<lparr>retransmission_buffers := rbs\<rparr>) } }"

section \<open>Receiving\<close>

text \<open>
  The scans of \<open>uart_rx_hdlc\<close>: over flags, and over anything but flags. As in the code the byte
  is read before the index is compared with the fill level.
\<close>

function skip_flags :: "u8 list \<Rightarrow> nat \<Rightarrow> nat \<Rightarrow> nat option" where
  "skip_flags m len i =
     do { b \<leftarrow> load m i; if b = 0x7E \<and> i < len then skip_flags m len (i + 1) else Some i }"
  by auto
termination by (relation "measure (\<lambda>(m, len, i). len - i)") auto

function skip_data :: "u8 list \<Rightarrow> nat \<Rightarrow> nat \<Rightarrow> nat option" where
  "skip_data m len i =
     do { b \<leftarrow> load m i; if b \<noteq> 0x7E \<and> i < len then skip_data m len (i + 1) else Some i }"
  by auto
termination by (relation "measure (\<lambda>(m, len, i). len - i)") auto

declare skip_flags.simps [simp del] skip_data.simps [simp del]

fun has_flag :: "u8 list \<Rightarrow> nat \<Rightarrow> nat \<Rightarrow> bool option" where
  "has_flag m i 0 = Some False"
| "has_flag m i (Suc n) = do { b \<leftarrow> load m i; if b = 0x7E then Some True else has_flag m (i + 1) n }"

definition uart_fill :: "os_ctxt \<Rightarrow> u8 list \<Rightarrow> os_ctxt option" where
  "uart_fill ctxt rd =
     (if uart_next_frame_ready ctxt then Some ctxt
      else if rd = [] then None
      else do { m \<leftarrow> store_n (uart_rx_buf ctxt) (uart_rx_buf_len ctxt) rd;
                Some (ctxt\<lparr>uart_rx_buf := m, uart_rx_buf_len := uart_rx_buf_len ctxt + length rd\<rparr>) })"

definition uart_rx_hdlc ::
  "os_ctxt \<Rightarrow> u8 list \<Rightarrow> nat \<Rightarrow> u8 list \<Rightarrow> (nat \<times> u8 list \<times> os_ctxt) option" where
  "uart_rx_hdlc ctxt buf buf_len rd =
     do { ctxt \<leftarrow> uart_fill ctxt rd;
          let m = uart_rx_buf ctxt;
          let len = uart_rx_buf_len ctxt;
          frame_start \<leftarrow> skip_flags m len 0;
          i \<leftarrow> skip_data m len frame_start;
          let frame_len = i - frame_start + 1;
          if uart_next_frame_ready ctxt \<and> len \<le> i then None
          else if len \<le> i then Some (0, buf, ctxt)
          else if buf_len < frame_len then None
          else do {
            bs \<leftarrow> load_n m frame_start frame_len;
            buf \<leftarrow> store_n buf 0 bs;
            i \<leftarrow> skip_flags m len i;
            rest \<leftarrow> load_n m i (len - i);
            m \<leftarrow> store_n m 0 rest;
            let len = len - i;
            ready \<leftarrow> has_flag m 0 len;
            Some (frame_len, buf,
                  ctxt\<lparr>uart_rx_buf := m, uart_rx_buf_len := len, uart_next_frame_ready := ready\<rparr>) } }"

text \<open>
  \<open>uart_decode_hdlc\<close>: \<open>in_len\<close> is unsigned, so the bound \<open>in_len - 1\<close> of the loop is huge for
  \<open>in_len = 0\<close>. The loop leaves the frame length and the output.
\<close>

definition pred_size_t :: "nat \<Rightarrow> nat" where
  "pred_size_t n = (if n = 0 then 2 ^ 64 - 1 else n - 1)"

function decode_loop :: "u8 list \<Rightarrow> nat \<Rightarrow> u8 list \<Rightarrow> nat \<Rightarrow> nat \<Rightarrow> nat \<Rightarrow> (nat \<times> u8 list) option" where
  "decode_loop out out_len inp in_end i frame_len =
     (if i < in_end then
        if out_len < frame_len then None
        else do {
          b \<leftarrow> load inp i;
          if b = 0x7D then do {
            c \<leftarrow> load inp (i + 1);
            out \<leftarrow> store out frame_len (c XOR 0x20);
            decode_loop out out_len inp in_end (i + 2) (frame_len + 1) }
          else if b = 0x7E then None
          else do {
            out \<leftarrow> store out frame_len b;
            decode_loop out out_len inp in_end (i + 1) (frame_len + 1) } }
      else Some (frame_len, out))"
  by auto
termination by (relation "measure (\<lambda>(out, out_len, inp, in_end, i, frame_len). in_end - i)") auto

declare decode_loop.simps [simp del]

definition uart_decode_hdlc :: "u8 list \<Rightarrow> nat \<Rightarrow> u8 list \<Rightarrow> nat \<Rightarrow> (nat \<times> u8 list) option" where
  "uart_decode_hdlc out out_len inp in_len =
     do { (frame_len, out) \<leftarrow> decode_loop out out_len inp (pred_size_t in_len) 0 0;
          if frame_len \<le> 2 then Some (0, out)
          else do {
            let frame_len = frame_len - 2;
            crc \<leftarrow> (if frame_len \<le> length out then read_le16 (drop frame_len out) else None);
            ok \<leftarrow> crc_check out frame_len crc;
            Some (if ok then frame_len else 0, out) } }"

definition uart_rx :: "os_ctxt \<Rightarrow> u8 list \<Rightarrow> nat \<Rightarrow> u8 list \<Rightarrow> (nat \<times> u8 list \<times> os_ctxt) option" where
  "uart_rx ctxt buf buf_len rd =
     do { (frame_len, frame, ctxt) \<leftarrow> uart_rx_hdlc ctxt (replicate 4096 0) 4096 rd;
          if frame_len = 0 then Some (0, buf, ctxt)
          else do { (n, buf) \<leftarrow> uart_decode_hdlc buf buf_len frame frame_len; Some (n, buf, ctxt) } }"

section \<open>Retransmission\<close>

definition rf_bytes :: "retransmission_frame \<Rightarrow> u8 list" where
  "rf_bytes rb = take (unat (rf_frame_len rb)) (rf_frame rb)"

text \<open>\<open>write\<close> of a recorded frame, whose result is ignored.\<close>

definition rewrite_frame :: "os_ctxt \<Rightarrow> nat \<Rightarrow> os_ctxt option" where
  "rewrite_frame ctxt i =
     do { rb \<leftarrow> load (retransmission_buffers ctxt) i;
          bs \<leftarrow> load_n (rf_frame rb) 0 (unat (rf_frame_len rb));
          Some (ctxt\<lparr>bus_out := bus_out ctxt @ [bs]\<rparr>) }"

fun find_index_from :: "('a \<Rightarrow> bool) \<Rightarrow> 'a list \<Rightarrow> nat \<Rightarrow> nat option" where
  "find_index_from P [] i = None"
| "find_index_from P (x # xs) i = (if P x then Some i else find_index_from P xs (i + 1))"

definition uart_handle_crc_error :: "os_ctxt \<Rightarrow> u16 \<Rightarrow> u32 \<Rightarrow> u8 \<Rightarrow> os_ctxt option" where
  "uart_handle_crc_error ctxt crc frame_len header =
     (let buffers = retransmission_buffers ctxt; buffers_len = 15 in
      case find_index_from (\<lambda>rb. rf_crc rb = crc) buffers 0 of
        Some i \<Rightarrow>
          do { rb \<leftarrow> load buffers i;
               ctxt \<leftarrow>
                 (if (ucast (rf_frame_len rb) :: u32) < frame_len then do {
                    let extra_frame = (i + buffers_len - 1) mod buffers_len;
                    eb \<leftarrow> load buffers extra_frame;
                    h \<leftarrow> load (rf_frame eb) 0;
                    if h \<noteq> header then Some ctxt else rewrite_frame ctxt extra_frame }
                  else Some ctxt);
               rewrite_frame ctxt i }
      | None \<Rightarrow>
          (case find_index_from (\<lambda>rb. rf_frame rb ! 0 = header) buffers 0 of
             Some i \<Rightarrow>
               do { rb \<leftarrow> load buffers i;
                    ctxt \<leftarrow> rewrite_frame ctxt i;
                    if (ucast (rf_frame_len rb) :: u32) < frame_len
                    then rewrite_frame ctxt ((i + 1) mod buffers_len) else Some ctxt }
           | None \<Rightarrow> Some ctxt))"

section \<open>HDLC frames\<close>

definition esc :: "u8 \<Rightarrow> u8 list" where
  "esc b = (if b = 0x7D \<or> b = 0x7E then [0x7D, b XOR 0x20] else [b])"

definition hdlc :: "u8 list \<Rightarrow> u8 list" where
  "hdlc bs = concat (map esc bs)"

text \<open>The frame of a payload: payload and CRC escaped, then the flag.\<close>

definition hdlc_frame :: "u8 list \<Rightarrow> u16 \<Rightarrow> u8 list" where
  "hdlc_frame bs crc = hdlc (bs @ le_bytes 2 (unat crc)) @ [0x7E]"

lemma hdlc_simps [simp]:
  "hdlc [] = []" "hdlc (b # bs) = esc b @ hdlc bs" "hdlc (as @ bs) = hdlc as @ hdlc bs"
  by (simp_all add: hdlc_def)

lemma xor_0x20: "(0x7D XOR 0x20 :: u8) = 0x5D" "(0x7E XOR 0x20 :: u8) = 0x5E"
  by simp_all

lemma esc_no_flag: "0x7E \<notin> set (esc b)"
  by (auto simp: esc_def xor_0x20)

lemma hdlc_no_flag: "0x7E \<notin> set (hdlc bs)"
  using esc_no_flag by (induction bs) auto

lemma esc_length: "1 \<le> length (esc b)" "length (esc b) \<le> 2"
  by (simp_all add: esc_def)

lemma hdlc_length: "length bs \<le> length (hdlc bs)" "length (hdlc bs) \<le> 2 * length bs"
proof -
  show "length bs \<le> length (hdlc bs)"
  proof (induction bs)
    case (Cons b bs)
    then show ?case using esc_length(1) [of b] by simp
  qed simp
  show "length (hdlc bs) \<le> 2 * length bs"
  proof (induction bs)
    case (Cons b bs)
    then show ?case using esc_length(2) [of b] by simp
  qed simp
qed

text \<open>Appending, with the overrun of the output made explicit: it fails exactly when a store does.\<close>

lemma tx_append: "uart_tx_append out off b = map_option (Pair (length (esc b))) (store_n out off (esc b))"
proof (cases "b = 0x7D \<or> b = 0x7E")
  case True
  have "out[off := x, Suc off := y] = take off out @ [x, y] @ drop (off + 2) out" if "off + 2 \<le> length out" for x y
  proof -
    have "drop (Suc off) out = out ! Suc off # drop (off + 2) out"
      using that Cons_nth_drop_Suc [of "Suc off" out] by simp
    then show ?thesis using that by (simp add: upd_conv_take_nth_drop [of off] list_update_append)
  qed
  then show ?thesis
    using True by (auto simp: uart_tx_append_def esc_def store_def store_n_def)
next
  case False
  then show ?thesis
    by (auto simp: uart_tx_append_def esc_def store_def store_n_def upd_conv_take_nth_drop)
qed

lemma store_n_append:
  "(store_n out off as \<bind> (\<lambda>out. store_n out (off + length as) bs)) = store_n out off (as @ bs)"
  by (auto simp: store_n_def ac_simps)

lemma encode_loop:
  "i + n \<le> length inp \<Longrightarrow> off \<le> length out \<Longrightarrow> encode_loop out off inp i n =
     map_option (Pair (off + length (hdlc (take n (drop i inp))))) (store_n out off (hdlc (take n (drop i inp))))"
proof (induction n arbitrary: out off i)
  case 0
  then show ?case by (simp add: store_n_def)
next
  case (Suc n)
  then have "drop i inp = inp ! i # drop (Suc i) inp" by (intro Cons_nth_drop_Suc [symmetric]) simp
  moreover have "off + length (esc (inp ! i)) \<le> length out'" if "store_n out off (esc (inp ! i)) = Some out'" for out'
    using that length_store_n [OF that] by (auto simp: store_n_def split: if_splits)
  ultimately show ?case
    using Suc store_n_append [of out off "esc (inp ! i)", symmetric]
    by (cases "store_n out off (esc (inp ! i))") (simp_all add: load_def tx_append add.assoc)
qed

lemma encode:
  assumes "n \<le> length inp"
  shows "uart_encode_hdlc out inp n crc =
    map_option (Pair (length (hdlc_frame (take n inp) crc))) (store_n out 0 (hdlc_frame (take n inp) crc))"
proof -
  obtain c0 c1 where c: "le_bytes 2 (unat crc) = [c0, c1]" by (simp add: le_bytes_numeral)
  have w: "write_le16 [0, 0] crc = Some [c0, c1]"
    using le16.wr_long [of "[0, 0]" crc] by (simp add: c)
  let ?h = "hdlc (take n inp)"
  have eq: "store_n out 0 (hdlc_frame (take n inp) crc) =
      (store_n out 0 ?h \<bind> (\<lambda>o1. store_n o1 (length ?h) (esc c0) \<bind>
        (\<lambda>o2. store_n o2 (length ?h + length (esc c0)) (esc c1) \<bind>
          (\<lambda>o3. store_n o3 (length ?h + length (esc c0) + length (esc c1)) [0x7E]))))"
    by (simp add: hdlc_frame_def c store_n_append [symmetric])
  show ?thesis
    unfolding uart_encode_hdlc_def eq
    using assms
    by (auto simp: encode_loop w load_def tx_append c hdlc_frame_def store_eq_store_n Let_def add.assoc
        map_conv_bind_option comp_def split: Option.bind_splits)
qed

lemma unescape: "b = 0x7D \<or> b = 0x7E \<Longrightarrow> (b XOR 0x20) XOR 0x20 = (b :: u8)"
  by (auto simp: xor_0x20)

lemma decode_loop:
  assumes "inp = pre @ hdlc bs @ post" and "in_end = length pre + length (hdlc bs)"
    and "fl + length bs \<le> length out" and "fl + length bs \<le> out_len + 1"
  shows "decode_loop out out_len inp in_end (length pre) fl =
    Some (fl + length bs, take fl out @ bs @ drop (fl + length bs) out)"
  using assms
proof (induction bs arbitrary: pre fl out)
  case Nil
  then show ?case by (subst decode_loop.simps) simp
next
  case (Cons b bs)
  have in_end: "length pre < in_end" using Cons.prems(2) esc_length(1) [of b] by (cases "esc b") auto
  have step: "decode_loop out out_len inp in_end (length pre) fl =
      decode_loop (out[fl := b]) out_len inp in_end (length (pre @ esc b)) (fl + 1)"
    using in_end Cons.prems
    by (subst decode_loop.simps) (auto simp: load_def store_def nth_append esc_def unescape)
  have "decode_loop (out[fl := b]) out_len inp in_end (length (pre @ esc b)) (fl + 1) =
      Some (fl + 1 + length bs, take (fl + 1) (out[fl := b]) @ bs @ drop (fl + 1 + length bs) (out[fl := b]))"
    using Cons.prems by (intro Cons.IH) auto
  then show ?case
    using step Cons.prems(3) by (simp add: take_Suc_conv_app_nth take_update_swap list_update_append)
qed

lemma decode:
  assumes "length bs + 2 \<le> length out" and "length bs + 2 \<le> out_len + 1" and "bs \<noteq> []"
    and "take n inp = hdlc_frame bs crc" and "n \<le> length inp"
  shows "uart_decode_hdlc out out_len inp n =
    Some (if crc16_ref bs = crc then length bs else 0, bs @ le_bytes 2 (unat crc) @ drop (length bs + 2) out)"
proof -
  let ?c = "le_bytes 2 (unat crc)"
  obtain post where inp: "inp = [] @ hdlc (bs @ ?c) @ [0x7E] @ post"
    using assms(4) by (metis append.assoc append_Nil append_take_drop_id hdlc_frame_def)
  have n: "n = length (hdlc (bs @ ?c)) + 1"
    using arg_cong [OF assms(4), of length] assms(5) by (simp add: hdlc_frame_def)
  have "decode_loop out out_len inp (length ([] :: u8 list) + length (hdlc (bs @ ?c))) (length ([] :: u8 list)) 0 =
      Some (0 + length (bs @ ?c), take 0 out @ (bs @ ?c) @ drop (0 + length (bs @ ?c)) out)"
    using assms(1,2) inp by (intro decode_loop [where post = "[0x7E] @ post"]) auto
  then have l: "decode_loop out out_len inp (pred_size_t n) 0 0 =
      Some (length bs + 2, bs @ ?c @ drop (length bs + 2) out)"
    by (simp add: pred_size_t_def n)
  have "read_le16 (?c @ drop (length bs + 2) out) = Some crc"
    by (rule le16.rd_enc_append) (simp add: unat_u16_lt)
  then show ?thesis
    using assms(3) by (simp add: uart_decode_hdlc_def l crc_check_def crc16_eq_ref Let_def)
qed

section \<open>Cutting the stream\<close>

text \<open>The stream function: the next frame, with its flag, and what is left.\<close>

definition next_frame :: "u8 list \<Rightarrow> (u8 list \<times> u8 list) option" where
  "next_frame s =
     (let s = dropWhile (\<lambda>b. b = 0x7E) s; f = takeWhile (\<lambda>b. b \<noteq> 0x7E) s
      in if length f < length s
         then Some (f @ [0x7E], dropWhile (\<lambda>b. b = 0x7E) (drop (length f) s)) else None)"

text \<open>The bytes received and not yet consumed.\<close>

definition pending :: "os_ctxt \<Rightarrow> u8 list" where
  "pending ctxt = take (uart_rx_buf_len ctxt) (uart_rx_buf ctxt)"

definition wf_ctxt :: "os_ctxt \<Rightarrow> bool" where
  "wf_ctxt ctxt \<longleftrightarrow> length (uart_rx_buf ctxt) = 2048 \<and> uart_rx_buf_len ctxt \<le> 2048 \<and>
     (uart_next_frame_ready ctxt \<longleftrightarrow> next_frame (pending ctxt) \<noteq> None)"

lemma skip_flags:
  assumes "i \<le> len" and "len < length m"
  shows "skip_flags m len i = Some (i + length (takeWhile (\<lambda>b. b = 0x7E) (drop i (take len m))))"
  using assms
proof (induction m len i rule: skip_flags.induct)
  case (1 m len i)
  show ?case
  proof (cases "m ! i = 0x7E \<and> i < len")
    case True
    then have "drop i (take len m) = 0x7E # drop (Suc i) (take len m)"
      using 1 Cons_nth_drop_Suc [of i "take len m"] by simp
    then show ?thesis using True 1 by (subst skip_flags.simps) (simp add: load_def)
  next
    case False
    have "takeWhile (\<lambda>b. b = 0x7E) (drop i (take len m)) = []"
      using False 1 Cons_nth_drop_Suc [of i "take len m"] by (cases "i < len") (auto simp flip: Cons_nth_drop_Suc)
    then show ?thesis using False 1 by (subst skip_flags.simps) (auto simp: load_def)
  qed
qed

lemma skip_data:
  assumes "i \<le> len" and "len < length m"
  shows "skip_data m len i = Some (i + length (takeWhile (\<lambda>b. b \<noteq> 0x7E) (drop i (take len m))))"
  using assms
proof (induction m len i rule: skip_data.induct)
  case (1 m len i)
  show ?case
  proof (cases "m ! i \<noteq> 0x7E \<and> i < len")
    case True
    then have "drop i (take len m) = m ! i # drop (Suc i) (take len m)"
      using 1 Cons_nth_drop_Suc [of i "take len m"] by simp
    then show ?thesis using True 1 by (subst skip_data.simps) (simp add: load_def)
  next
    case False
    have "takeWhile (\<lambda>b. b \<noteq> 0x7E) (drop i (take len m)) = []"
      using False 1 Cons_nth_drop_Suc [of i "take len m"] by (cases "i < len") (auto simp flip: Cons_nth_drop_Suc)
    then show ?thesis using False 1 by (subst skip_data.simps) (auto simp: load_def)
  qed
qed

lemma has_flag: "i + n \<le> length m \<Longrightarrow> has_flag m i n = Some (0x7E \<in> set (take n (drop i m)))"
proof (induction n arbitrary: i)
  case 0
  then show ?case by simp
next
  case (Suc n)
  then have "drop i m = m ! i # drop (Suc i) m" by (intro Cons_nth_drop_Suc [symmetric]) simp
  with Suc show ?case by (auto simp: load_def)
qed

lemma drop_takeWhile: "drop (length (takeWhile P xs)) xs = dropWhile P xs"
  by (metis append_eq_conv_conj takeWhile_dropWhile_id)

lemma next_frame_after_skip:
  "(next_frame (dropWhile (\<lambda>b. b = 0x7E) s) \<noteq> None) \<longleftrightarrow> 0x7E \<in> set (dropWhile (\<lambda>b. b = 0x7E) s)"
proof -
  let ?s = "dropWhile (\<lambda>b. b = 0x7E) s"
  have "dropWhile (\<lambda>b. b = 0x7E) ?s = ?s"
    by (metis dropWhile_eq_Nil_conv dropWhile_eq_self_iff hd_dropWhile)
  moreover have "length (takeWhile P xs) < length xs \<longleftrightarrow> (\<exists>x \<in> set xs. \<not> P x)" for P and xs :: "u8 list"
    by (induction xs) auto
  ultimately show ?thesis by (simp add: next_frame_def Let_def)
qed

lemma uart_fill_pending:
  assumes "wf_ctxt c" and "uart_next_frame_ready c \<or> rd \<noteq> []" and "s = pending c @ (if uart_next_frame_ready c then [] else rd)"
    and "length s < 2048"
  shows "\<exists>c'. uart_fill c rd = Some c' \<and> pending c' = s \<and> uart_rx_buf_len c' = length s \<and>
    length (uart_rx_buf c') = 2048 \<and> uart_next_frame_ready c' = uart_next_frame_ready c"
proof -
  have l: "length (pending c) = uart_rx_buf_len c" using assms(1) by (simp add: pending_def wf_ctxt_def)
  show ?thesis
  proof (cases "uart_next_frame_ready c")
    case True
    then show ?thesis using assms l by (simp add: uart_fill_def wf_ctxt_def)
  next
    case False
    then have "uart_rx_buf_len c + length rd \<le> length (uart_rx_buf c)"
      using assms l by (simp add: wf_ctxt_def)
    then show ?thesis
      using False assms l by (auto simp: uart_fill_def store_n_def pending_def wf_ctxt_def)
  qed
qed

lemma rx_hdlc_refines:
  assumes wf: "wf_ctxt c" and rd: "uart_next_frame_ready c \<or> rd \<noteq> []"
    and s: "s = pending c @ (if uart_next_frame_ready c then [] else rd)" and len: "length s < 2048"
    and buf: "2048 \<le> buf_len" "buf_len \<le> length buf"
  shows "\<exists>c'. wf_ctxt c' \<and> uart_rx_hdlc c buf buf_len rd =
    (case next_frame s of None \<Rightarrow> Some (0, buf, c')
     | Some (f, r) \<Rightarrow> Some (length f, f @ drop (length f) buf, c')) \<and>
    pending c' = (case next_frame s of None \<Rightarrow> s | Some (f, r) \<Rightarrow> r)"
proof -
  obtain c1 where c1: "uart_fill c rd = Some c1" "pending c1 = s" "uart_rx_buf_len c1 = length s"
      "length (uart_rx_buf c1) = 2048" "uart_next_frame_ready c1 = uart_next_frame_ready c"
    using uart_fill_pending [OF wf rd s len] by blast
  define m where "m = uart_rx_buf c1"
  have m: "take (length s) m = s" using c1 by (simp add: m_def pending_def)
  define a where "a = length (takeWhile (\<lambda>b. b = 0x7E) s)"
  define s1 where "s1 = dropWhile (\<lambda>b. b = 0x7E) s"
  define f where "f = takeWhile (\<lambda>b. b \<noteq> 0x7E) s1"
  have a: "a \<le> length s" "drop a s = s1" "length s1 = length s - a"
    by (simp_all add: a_def s1_def length_takeWhile_le drop_takeWhile flip: drop_takeWhile)
  have sk1: "skip_flags m (length s) 0 = Some a"
    using skip_flags [of 0 "length s" m] len c1(4) by (simp add: m m_def [symmetric] a_def)
  have sk2: "skip_data m (length s) a = Some (a + length f)"
    using skip_data [of a "length s" m] len c1(4) a by (simp add: m m_def [symmetric] f_def)
  have fl: "length f \<le> length s1" by (simp add: f_def length_takeWhile_le)
  show ?thesis
  proof (cases "length f < length s1")
    case False
    then have nf: "next_frame s = None" by (simp add: next_frame_def Let_def s1_def f_def)
    have "\<not> uart_next_frame_ready c"
      using wf s nf by (auto simp: wf_ctxt_def)
    moreover have "length s \<le> a + length f" using False a fl by simp
    ultimately have "uart_rx_hdlc c buf buf_len rd = Some (0, buf, c1)"
      using c1 sk1 sk2 by (simp add: uart_rx_hdlc_def Let_def m_def)
    moreover have "wf_ctxt c1"
      using \<open>\<not> uart_next_frame_ready c\<close> c1 nf len by (simp add: wf_ctxt_def)
    ultimately show ?thesis using c1(2) nf by auto
  next
    case True
    define r where "r = dropWhile (\<lambda>b. b = 0x7E) (drop (length f) s1)"
    have nf: "next_frame s = Some (f @ [0x7E], r)"
      using True by (simp add: next_frame_def Let_def s1_def f_def r_def)
    have hd: "s1 ! length f = 0x7E" using True nth_length_takeWhile [of "\<lambda>b. b \<noteq> 0x7E" s1] by (simp add: f_def)
    define e where "e = a + length f + length (takeWhile (\<lambda>b. b = 0x7E) (drop (length f) s1))"
    have d1: "drop (a + length f) s = drop (length f) s1" using a(2) by (metis add.commute drop_drop)
    have "drop e s = drop (length (takeWhile (\<lambda>b. b = 0x7E) (drop (length f) s1))) (drop (a + length f) s)"
      by (simp add: e_def ac_simps)
    then have e: "drop e s = r" "e \<le> length s"
      using True a length_takeWhile_le [of "\<lambda>b. b = 0x7E" "drop (length f) s1"]
      by (simp_all only: d1 drop_takeWhile r_def) (simp add: e_def)
    then have lr: "length r = length s - e" by auto
    have lt: "a + length f < length s" using True a by linarith
    have sk3: "skip_flags m (length s) (a + length f) = Some e"
      using skip_flags [of "a + length f" "length s" m] lt len c1(4) by (simp add: m m_def [symmetric] e_def d1)
    have "take (length f + 1) (drop a m) = take (length f + 1) (drop a (take (length s) m))"
      using lt by (simp add: drop_take)
    also have "\<dots> = f @ [0x7E]"
    proof -
      have "take (length f) s1 = f" unfolding f_def by (metis append_eq_conv_conj takeWhile_dropWhile_id)
      then show ?thesis using True hd by (simp add: m a(2) take_Suc_conv_app_nth)
    qed
    finally have ld1: "load_n m a (length f + 1) = Some (f @ [0x7E])"
      using lt len c1(4) by (simp add: load_n_def m_def)
    have "take (length s - e) (drop e m) = r" using m e(1) by (metis drop_take)
    then have ld2: "load_n m e (length s - e) = Some r"
      using e(2) len c1(4) by (simp add: load_n_def m_def)
    have st: "store_n m 0 r = Some (r @ drop (length r) m)" "length (r @ drop (length r) m) = 2048"
      using lr len c1(4) by (simp_all add: store_n_def m_def)
    define c' where "c' = c1\<lparr>uart_rx_buf := r @ drop (length r) m, uart_rx_buf_len := length r,
      uart_next_frame_ready := 0x7E \<in> set r\<rparr>"
    have hf: "has_flag (r @ drop (length r) m) 0 (length s - e) = Some (0x7E \<in> set r)"
      using has_flag [of 0 "length r" "r @ drop (length r) m"] lr by simp
    have "uart_rx_hdlc c buf buf_len rd = Some (length f + 1, (f @ [0x7E]) @ drop (length f + 1) buf, c')"
      using c1 sk1 sk2 sk3 lt len buf ld1 ld2 st(1) hf lr
      by (simp add: uart_rx_hdlc_def Let_def m_def [symmetric] c'_def store_n_def)
    moreover have "pending c' = r" by (simp add: c'_def pending_def)
    moreover have "wf_ctxt c'"
      using st(2) lr len next_frame_after_skip [of "drop (length f) s1"] \<open>pending c' = r\<close>
      by (simp add: wf_ctxt_def c'_def r_def)
    ultimately show ?thesis using nf by auto
  qed
qed

section \<open>A stream of frames\<close>

definition frame_of :: "u8 list \<Rightarrow> u8 list" where
  "frame_of bs = hdlc_frame bs (crc16_ref bs)"

lemma frame_of_body: "frame_of bs = hdlc (bs @ le_bytes 2 (unat (crc16_ref bs))) @ [0x7E]"
  by (simp add: frame_of_def hdlc_frame_def)

lemma frame_of_split:
  obtains h where "frame_of bs = h @ [0x7E]" and "h \<noteq> []" and "0x7E \<notin> set h"
proof
  let ?h = "hdlc (bs @ le_bytes 2 (unat (crc16_ref bs)))"
  show "frame_of bs = ?h @ [0x7E]" by (rule frame_of_body)
  show "?h \<noteq> []" using hdlc_length(1) [of "bs @ le_bytes 2 (unat (crc16_ref bs))"] by auto
  show "0x7E \<notin> set ?h" by (rule hdlc_no_flag)
qed

lemma next_frame_append:
  assumes "s = [] \<or> hd s \<noteq> 0x7E"
  shows "next_frame (frame_of bs @ s) = Some (frame_of bs, s)"
proof -
  obtain h where h: "frame_of bs = h @ [0x7E]" "h \<noteq> []" "0x7E \<notin> set h" by (rule frame_of_split)
  have dw: "dropWhile (\<lambda>b. b = 0x7E) (h @ 0x7E # s) = h @ 0x7E # s"
    using h(2,3) by (cases h) auto
  have tw: "takeWhile (\<lambda>b. b \<noteq> 0x7E) (h @ 0x7E # s) = h"
    using h(3) by (subst takeWhile_append2) auto
  have "dropWhile (\<lambda>b. b = 0x7E) s = s" using assms by (cases s) auto
  then show ?thesis by (simp add: next_frame_def h(1) Let_def dw tw)
qed

lemma frames_hd: "concat (map frame_of ps) = [] \<or> hd (concat (map frame_of ps)) \<noteq> 0x7E"
proof (cases ps)
  case (Cons p ps')
  obtain h where "frame_of p = h @ [0x7E]" "h \<noteq> []" "0x7E \<notin> set h" by (rule frame_of_split)
  then show ?thesis using Cons by (cases h) auto
qed simp

text \<open>Calling \<open>uart_rx\<close> once with the bytes of one \<open>read\<close> and then for as long as frames are left.\<close>

fun rx_many :: "os_ctxt \<Rightarrow> u8 list \<Rightarrow> nat \<Rightarrow> (u8 list list \<times> os_ctxt) option" where
  "rx_many c rd 0 = Some ([], c)"
| "rx_many c rd (Suc n) =
     do { (k, buf, c) \<leftarrow> uart_rx c (replicate 2048 0) 2048 rd;
          (ps, c) \<leftarrow> rx_many c [] n;
          Some (take k buf # ps, c) }"

lemma frame_of_length: "length bs + 3 \<le> length (frame_of bs)" "length (frame_of bs) \<le> 2 * length bs + 5"
  using hdlc_length [of "bs @ le_bytes 2 (unat (crc16_ref bs))"] by (auto simp: frame_of_body simp del: hdlc_simps)

lemma uart_rx_frame:
  assumes "wf_ctxt c" and "uart_next_frame_ready c \<or> rd \<noteq> []"
    and "pending c @ (if uart_next_frame_ready c then [] else rd) = frame_of p @ s"
    and "length (frame_of p @ s) < 2048" and "p \<noteq> []" and "s = [] \<or> hd s \<noteq> 0x7E"
  shows "\<exists>c' buf. uart_rx c (replicate 2048 0) 2048 rd = Some (length p, buf, c') \<and> take (length p) buf = p \<and>
    wf_ctxt c' \<and> pending c' = s"
proof -
  have "next_frame (frame_of p @ s) = Some (frame_of p, s)" by (rule next_frame_append [OF assms(6)])
  moreover have "2048 \<le> (4096 :: nat)" "4096 \<le> length (replicate 4096 (0 :: u8))" by simp_all
  ultimately obtain c' where c': "wf_ctxt c'" "pending c' = s"
      "uart_rx_hdlc c (replicate 4096 0) 4096 rd =
        Some (length (frame_of p), frame_of p @ drop (length (frame_of p)) (replicate 4096 0), c')"
    using rx_hdlc_refines [OF assms(1,2) refl, of 4096 "replicate 4096 0"] assms(3,4) by auto
  let ?f = "frame_of p @ drop (length (frame_of p)) (replicate 4096 0)"
  have "uart_decode_hdlc (replicate 2048 0) 2048 ?f (length (frame_of p)) =
      Some (length p, p @ le_bytes 2 (unat (crc16_ref p)) @ drop (length p + 2) (replicate 2048 0))"
    using decode [of p "replicate 2048 0" 2048 "length (frame_of p)" ?f "crc16_ref p"] assms(4,5)
      frame_of_length(1) [of p] by (simp add: frame_of_def)
  moreover have "length (frame_of p) \<noteq> 0" using frame_of_length(1) [of p] by linarith
  ultimately show ?thesis using c' by (simp add: uart_rx_def)
qed

lemma rx_many_frames:
  assumes "wf_ctxt c" and "uart_next_frame_ready c \<or> rd \<noteq> [] \<or> ps = []"
    and "pending c @ (if uart_next_frame_ready c then [] else rd) = concat (map frame_of ps)"
    and "length (concat (map frame_of ps)) < 2048" and "[] \<notin> set ps"
  shows "\<exists>c'. rx_many c rd (length ps) = Some (ps, c')"
  using assms
proof (induction ps arbitrary: c rd)
  case Nil
  then show ?case by simp
next
  case (Cons p ps)
  let ?s = "concat (map frame_of ps)"
  obtain c1 buf where c1: "uart_rx c (replicate 2048 0) 2048 rd = Some (length p, buf, c1)"
      "take (length p) buf = p" "wf_ctxt c1" "pending c1 = ?s"
    using uart_rx_frame [OF Cons.prems(1) _ _ _ _ frames_hd, of rd p ps] Cons.prems by auto
  have "uart_next_frame_ready c1 \<or> ps = []"
  proof (cases ps)
    case (Cons q qs)
    then have "next_frame (pending c1) \<noteq> None"
      using next_frame_append [OF frames_hd, of q qs] c1(4) by simp
    then show ?thesis using c1(3) by (simp add: wf_ctxt_def)
  qed simp
  then have "\<exists>c'. rx_many c1 [] (length ps) = Some (ps, c')"
    using Cons.prems c1 by (intro Cons.IH) auto
  then show ?case using c1 by auto
qed

section \<open>Properties\<close>

text \<open>
  HDLC round trip: a non-empty payload encoded with its CRC, in a buffer of \<open>2 n + 5\<close> bytes,
  decodes to itself in any output with room for it and the CRC; the only flag of the frame
  is its last byte.
\<close>

theorem hdlc_round_trip:
  assumes "bs \<noteq> []" and "length bs + 2 \<le> out_len" and "out_len \<le> length out"
  shows "\<exists>crc n frame. crc16 bs (length bs) = Some crc \<and>
    uart_encode_hdlc (replicate (2 * length bs + 5) 0) bs (length bs) crc = Some (n, frame) \<and>
    frame ! (n - 1) = 0x7E \<and> 0x7E \<notin> set (take (n - 1) frame) \<and>
    uart_decode_hdlc out out_len frame n = Some (length bs, bs @ le_bytes 2 (unat crc) @ drop (length bs + 2) out)"
proof -
  let ?f = "frame_of bs" and ?h = "hdlc (bs @ le_bytes 2 (unat (crc16_ref bs)))"
  define z where "z = replicate (2 * length bs + 5) (0 :: u8)"
  have f: "?f = ?h @ [0x7E]" by (rule frame_of_body)
  have enc: "uart_encode_hdlc z bs (length bs) (crc16_ref bs) = Some (length ?f, ?f @ drop (length ?f) z)"
    using frame_of_length(2) [of bs] by (simp add: encode store_n_def frame_of_def z_def)
  have "uart_decode_hdlc out out_len (?f @ drop (length ?f) z) (length ?f) =
      Some (length bs, bs @ le_bytes 2 (unat (crc16_ref bs)) @ drop (length bs + 2) out)"
    using decode [of bs out out_len "length ?f" "?f @ drop (length ?f) z" "crc16_ref bs"] assms
    by (simp add: frame_of_def)
  moreover have "(?f @ drop (length ?f) z) ! (length ?f - 1) = 0x7E"
    unfolding f by (simp add: nth_append del: hdlc_simps)
  moreover have "0x7E \<notin> set (take (length ?f - 1) (?f @ drop (length ?f) z))"
    unfolding f using hdlc_no_flag by (simp del: hdlc_simps)
  ultimately show ?thesis using enc by (auto simp: crc16_eq_ref z_def)
qed

theorem hdlc_round_trip_witness:
  "\<exists>crc n frame. crc16 [0x7E, 1] 2 = Some crc \<and>
    uart_encode_hdlc (replicate 9 0) [0x7E, 1] 2 crc = Some (n, frame) \<and>
    uart_decode_hdlc [0, 0, 0, 0] 4 frame n = Some (2, [0x7E, 1] @ le_bytes 2 (unat crc))"
  using hdlc_round_trip [of "[0x7E, 1]" 4 "[0, 0, 0, 0]"] by (simp add: numeral_2_eq_2) blast

text \<open>
  C25. The receive buffer refines the stream function: on a well-formed context whose buffer does
  not fill up, \<open>uart_rx_hdlc\<close> returns the next frame of the bytes pending and read (0 when there
  is none yet), keeps the rest for the next call, and keeps the context well-formed: the flag
  \<open>uart_next_frame_ready\<close> says exactly whether a further frame is complete, so the assertion of
  the code holds.
\<close>

theorem uart_rx_hdlc_refines:
  assumes "wf_ctxt c" and "uart_next_frame_ready c \<or> rd \<noteq> []"
    and "length (pending c) + length rd < 2048" and "2048 \<le> buf_len" and "buf_len \<le> length buf"
  shows "\<exists>c'. wf_ctxt c' \<and>
    (case next_frame (pending c @ (if uart_next_frame_ready c then [] else rd)) of
       None \<Rightarrow> uart_rx_hdlc c buf buf_len rd = Some (0, buf, c') \<and>
         pending c' = pending c @ (if uart_next_frame_ready c then [] else rd)
     | Some (f, r) \<Rightarrow> uart_rx_hdlc c buf buf_len rd = Some (length f, f @ drop (length f) buf, c') \<and> pending c' = r)"
  using rx_hdlc_refines [OF assms(1,2) refl _ assms(4,5)] assms(3) by (auto split: option.splits)

theorem uart_rx_hdlc_refines_witness:
  "\<exists>c'. wf_ctxt c' \<and> pending c' = [5] \<and>
    uart_rx_hdlc os_ctxt_zero
      (replicate 2048 0) 2048 [0x7E, 1, 2, 0x7E, 0x7E, 5] =
    Some (3, [1, 2, 0x7E] @ drop 3 (replicate 2048 0), c')"
proof -
  let ?c = os_ctxt_zero
  have n: "next_frame [0x7E, 1, 2, 0x7E, 0x7E, 5] = Some ([1, 2, 0x7E], [5])" by (simp add: next_frame_def)
  have p: "pending ?c = []" by (simp add: pending_def os_ctxt_zero_def)
  have z: "wf_ctxt ?c" "\<not> uart_next_frame_ready ?c"
    by (simp_all add: wf_ctxt_def p next_frame_def) (simp_all add: os_ctxt_zero_def)
  define b where "b = (replicate 2048 0 :: u8 list)"
  have b: "2048 \<le> length b" by (simp add: b_def)
  have rd: "uart_next_frame_ready ?c \<or> [0x7E, 1, 2, 0x7E, 0x7E, 5 :: u8] \<noteq> []" by simp
  have len: "length (pending ?c) + length [0x7E, 1, 2, 0x7E, 0x7E, 5 :: u8] < 2048" by (simp add: p)
  show ?thesis
    using uart_rx_hdlc_refines [OF z(1) rd len order_refl b] z(2) unfolding b_def [symmetric]
    by (simp add: p n numeral_3_eq_3) blast
qed

text \<open>
  C24. End to end: any number of non-empty payloads, framed by the sender and delivered together
  by one \<open>read\<close>, come out of successive calls of \<open>uart_rx\<close> unchanged and in order.
\<close>

theorem uart_stream_round_trip:
  assumes "wf_ctxt c" and "pending c = []" and "[] \<notin> set ps" and "ps \<noteq> []"
    and "length (concat (map frame_of ps)) < 2048"
  shows "\<exists>c'. rx_many c (concat (map frame_of ps)) (length ps) = Some (ps, c')"
proof (rule rx_many_frames)
  have "\<not> uart_next_frame_ready c" using assms(1,2) by (simp add: wf_ctxt_def next_frame_def)
  then show "pending c @ (if uart_next_frame_ready c then [] else concat (map frame_of ps)) = concat (map frame_of ps)"
    using assms(2) by simp
  obtain p qs where "ps = p # qs" using assms(4) by (cases ps) auto
  then show "uart_next_frame_ready c \<or> concat (map frame_of ps) \<noteq> [] \<or> ps = []"
    using frame_of_length(1) [of p] by auto
qed (use assms in auto)

theorem uart_stream_round_trip_witness:
  "\<exists>c'. rx_many os_ctxt_zero
      (concat (map frame_of [[1, 2], [0x7E]])) 2 = Some ([[1, 2], [0x7E]], c')"
proof -
  have "length (concat (map frame_of [[1, 2], [0x7E]])) < 2048"
    using frame_of_length(2) [of "[1, 2]"] frame_of_length(2) [of "[0x7E]"] by simp
  moreover have "wf_ctxt os_ctxt_zero" "pending os_ctxt_zero = []"
    by (simp_all add: wf_ctxt_def pending_def next_frame_def os_ctxt_zero_def)
  ultimately show ?thesis
    using uart_stream_round_trip [of os_ctxt_zero "[[1, 2], [0x7E]]"] by (simp add: numeral_2_eq_2)
qed

section \<open>Sending and retransmitting\<close>

text \<open>The ring of frames: 15 slots of 2048 bytes.\<close>

definition wf_ring :: "os_ctxt \<Rightarrow> bool" where
  "wf_ring c \<longleftrightarrow> length (retransmission_buffers c) = 15 \<and>
     (\<forall>rb \<in> set (retransmission_buffers c). length (rf_frame rb) = 2048 \<and> unat (rf_frame_len rb) \<le> 2048)"

lemma wf_ring_nth:
  assumes "wf_ring c" and "i < 15"
  shows "length (rf_frame (retransmission_buffers c ! i)) = 2048"
    and "unat (rf_frame_len (retransmission_buffers c ! i)) \<le> 2048"
    and "i < length (retransmission_buffers c)"
  using assms by (auto simp: wf_ring_def dest: nth_mem [of i])

definition sent_slot :: "os_ctxt \<Rightarrow> u8 list \<Rightarrow> retransmission_frame" where
  "sent_slot c bs =
     (let rb = retransmission_buffers c ! ((retransmission_index c + 1) mod 15)
      in rb\<lparr>rf_frame := frame_of bs @ drop (length (frame_of bs)) (rf_frame rb),
            rf_frame_len := word_of_nat (length (frame_of bs)), rf_crc := crc16_ref bs\<rparr>)"

lemma uart_tx_cases:
  assumes ring: "wf_ring c" and n: "n \<le> length buf" and f: "f = frame_of (take n buf)"
    and fit: "length f \<le> 2048"
  shows "uart_tx c buf n w =
    (if length f \<le> 2 * n + 3 \<and> w = int (length f)
     then Some (length f, c\<lparr>bus_out := bus_out c @ [f], retransmission_index := (retransmission_index c + 1) mod 15,
       retransmission_buffers := (retransmission_buffers c)
         [(retransmission_index c + 1) mod 15 := sent_slot c (take n buf)]\<rparr>)
     else None)"
proof -
  define z where "z = replicate (n * 2 + 3) (0 :: u8)"
  define i where "i = (retransmission_index c + 1) mod 15"
  have "i < 15" by (simp add: i_def)
  note r = wf_ring_nth [OF ring this]
  have "uart_encode_hdlc z buf n (crc16_ref (take n buf)) = map_option (Pair (length f)) (store_n z 0 f)"
    using n by (simp add: encode f frame_of_def)
  also have "\<dots> = (if length f \<le> 2 * n + 3 then Some (length f, f @ drop (length f) z) else None)"
    by (simp add: store_n_def z_def mult.commute)
  finally show ?thesis
    using n r fit
    by (auto simp: uart_tx_def crc16_eq_ref z_def [symmetric] i_def load_def store_def store_n_def
        sent_slot_def f [symmetric] Let_def)
qed

lemma rf_bytes_sent:
  assumes "length (frame_of bs) \<le> 2048"
  shows "rf_bytes (sent_slot c bs) = frame_of bs" and "rf_crc (sent_slot c bs) = crc16_ref bs"
    and "unat (rf_frame_len (sent_slot c bs)) = length (frame_of bs)"
proof -
  have "take_bit 16 (length (frame_of bs)) = length (frame_of bs)"
    using assms by (simp add: take_bit_nat_eq_self_iff)
  then show "rf_bytes (sent_slot c bs) = frame_of bs" "rf_crc (sent_slot c bs) = crc16_ref bs"
    "unat (rf_frame_len (sent_slot c bs)) = length (frame_of bs)"
    by (simp_all add: rf_bytes_def sent_slot_def Let_def unsigned_of_nat)
qed

lemma find_index_from_eq:
  assumes "k < length xs" and "P (xs ! k)" and "\<forall>j < length xs. j \<noteq> k \<longrightarrow> \<not> P (xs ! j)"
  shows "find_index_from P xs i = Some (i + k)"
  using assms
proof (induction xs arbitrary: i k)
  case Nil
  then show ?case by simp
next
  case (Cons x xs)
  show ?case
  proof (cases k)
    case 0
    then show ?thesis using Cons.prems by simp
  next
    case (Suc k')
    then have "\<not> P x" using Cons.prems(3) by force
    moreover have "find_index_from P xs (i + 1) = Some (i + 1 + k')"
      using Cons.prems Suc by (intro Cons.IH) auto
    ultimately show ?thesis using Suc by simp
  qed
qed

lemma rewrite_frame:
  assumes "wf_ring c" and "i < 15"
  shows "rewrite_frame c i = Some (c\<lparr>bus_out := bus_out c @ [rf_bytes (retransmission_buffers c ! i)]\<rparr>)"
  using wf_ring_nth [OF assms] by (simp add: rewrite_frame_def load_def load_n_def rf_bytes_def)

section \<open>Properties of sending\<close>

text \<open>
  C40. \<open>uart_tx\<close> sends exactly the frame of its payload and records it in the next slot of the
  ring, unless the frame is longer than the \<open>2 n + 3\<close> bytes it has allocated: a frame can take
  \<open>2 n + 5\<close>, and then it writes past the end of the allocation.
\<close>

theorem uart_tx_frame:
  assumes "wf_ring c" and "n \<le> length buf" and "length (frame_of (take n buf)) \<le> 2048"
  shows "uart_tx c buf n (int (length (frame_of (take n buf)))) =
    (if length (frame_of (take n buf)) \<le> 2 * n + 3
     then Some (length (frame_of (take n buf)), c\<lparr>bus_out := bus_out c @ [frame_of (take n buf)],
       retransmission_index := (retransmission_index c + 1) mod 15,
       retransmission_buffers := (retransmission_buffers c)
         [(retransmission_index c + 1) mod 15 := sent_slot c (take n buf)]\<rparr>)
     else None)"
  using uart_tx_cases [OF assms(1,2) refl assms(3)] by simp

theorem uart_tx_frame_witness:
  "uart_tx os_ctxt_zero [0x7D, 0x7E, 0x7D, 0x7E, 0x7E] 5 14 = None"
proof -
  have "crc16 [0x7D, 0x7E, 0x7D, 0x7E, 0x7E] 5 = Some 0xDD7D" by code_simp
  then have "crc16_ref [0x7D, 0x7E, 0x7D, 0x7E, 0x7E] = 0xDD7D" by (simp add: crc16_eq_ref)
  then have "length (frame_of [0x7D, 0x7E, 0x7D, 0x7E, 0x7E]) = 14"
    by (simp add: frame_of_def hdlc_frame_def esc_def le_bytes_numeral)
  then show ?thesis
    using uart_tx_frame [of os_ctxt_zero 5 "[0x7D, 0x7E, 0x7D, 0x7E, 0x7E]"]
    by (simp add: wf_ring_def os_ctxt_zero_def)
qed

text \<open>
  A frame reported lost is sent again: when the radio reports a CRC error with the CRC of the
  frame just sent and no other recorded frame has that CRC, \<open>uart_handle_crc_error\<close> writes
  that very frame again, preceded by the frame of the slot before it when the report covers
  more bytes than the frame and the header matches.
\<close>

theorem uart_retransmit:
  assumes "wf_ring c" and "i < 15" and "rf_crc (retransmission_buffers c ! i) = crc"
    and "\<forall>j < 15. j \<noteq> i \<longrightarrow> rf_crc (retransmission_buffers c ! j) \<noteq> crc"
  shows "\<exists>c'. uart_handle_crc_error c crc frame_len header = Some c' \<and>
    bus_out c' = bus_out c @
      (if (ucast (rf_frame_len (retransmission_buffers c ! i)) :: u32) < frame_len \<and>
          rf_frame (retransmission_buffers c ! ((i + 14) mod 15)) ! 0 = header
       then [rf_bytes (retransmission_buffers c ! ((i + 14) mod 15))] else []) @
      [rf_bytes (retransmission_buffers c ! i)]"
proof -
  let ?rbs = "retransmission_buffers c" and ?e = "(i + 14) mod 15"
  have len: "length ?rbs = 15" using assms(1) by (simp add: wf_ring_def)
  have e: "?e < 15" by simp
  have fi: "find_index_from (\<lambda>rb. rf_crc rb = crc) ?rbs 0 = Some i"
    using find_index_from_eq [of i ?rbs "\<lambda>rb. rf_crc rb = crc" 0] assms len by simp
  have "0 < length (rf_frame (?rbs ! ?e))" using wf_ring_nth(1) [OF assms(1) e] by simp
  moreover have "wf_ring (c\<lparr>bus_out := xs\<rparr>)" for xs using assms(1) by (simp add: wf_ring_def)
  ultimately show ?thesis
    using assms(2) len e rewrite_frame [OF assms(1,2)] rewrite_frame [OF assms(1) e]
      rewrite_frame [of "c\<lparr>bus_out := bus_out c @ [rf_bytes (?rbs ! ?e)]\<rparr>" i]
    by (simp add: uart_handle_crc_error_def fi load_def Let_def add.commute [of 14 i])
qed

theorem uart_retransmit_witness:
  "\<exists>c'. uart_handle_crc_error (os_ctxt_zero\<lparr>retransmission_buffers :=
      (retransmission_buffers os_ctxt_zero)[3 := \<lparr>rf_frame = 7 # replicate 2047 0, rf_frame_len = 1, rf_crc = 9\<rparr>]\<rparr>)
      9 1 0 = Some c' \<and> bus_out c' = [[7]]"
proof -
  let ?c = "os_ctxt_zero\<lparr>retransmission_buffers :=
      (retransmission_buffers os_ctxt_zero)[3 := \<lparr>rf_frame = 7 # replicate 2047 0, rf_frame_len = 1, rf_crc = 9\<rparr>]\<rparr>"
  have "wf_ring ?c" by (auto simp: wf_ring_def os_ctxt_zero_def dest!: set_update_subset_insert [THEN subsetD])
  moreover have "\<forall>j < 15. j \<noteq> 3 \<longrightarrow> rf_crc (retransmission_buffers ?c ! j) \<noteq> 9"
    by (simp add: os_ctxt_zero_def)
  ultimately show ?thesis
    using uart_retransmit [of ?c 3 9 1 0] by (simp add: os_ctxt_zero_def rf_bytes_def)
qed

text \<open>
  The bound of the decoder is off by one: a frame that decodes to \<open>out_len + 1\<close> bytes passes
  \<open>BUG_ON(frame_len > out_len)\<close>, and its last CRC byte is written at index \<open>out_len\<close>, just after
  the output the caller announced.
\<close>

theorem uart_decode_one_past:
  assumes "bs \<noteq> []" and "length bs + 2 = out_len + 1" and "out_len < length out"
  shows "\<exists>k out'. uart_decode_hdlc out out_len (frame_of bs) (length (frame_of bs)) = Some (k, out') \<and>
    out' ! out_len = ucast (drop_bit 8 (crc16_ref bs))"
proof -
  let ?f = "frame_of bs" and ?c = "le_bytes 2 (unat (crc16_ref bs))"
  have "uart_decode_hdlc out out_len ?f (length ?f) = Some (length bs, bs @ ?c @ drop (length bs + 2) out)"
    using decode [of bs out out_len "length ?f" ?f "crc16_ref bs"] assms by (simp add: frame_of_def)
  moreover have "?c = [ucast (crc16_ref bs), ucast (drop_bit 8 (crc16_ref bs))]"
    by (simp add: le_bytes_unat upt_rec)
  moreover have "out_len = length bs + 1" using assms(2) by simp
  ultimately show ?thesis by (simp add: nth_append)
qed

theorem uart_decode_one_past_witness:
  "\<exists>k out'. uart_decode_hdlc [0, 0, 0] 2 (frame_of [5]) (length (frame_of [5])) = Some (k, out') \<and>
    out' ! 2 = ucast (drop_bit 8 (crc16_ref [5]))"
  using uart_decode_one_past [of "[5]" 2 "[0, 0, 0]"] by simp

text \<open>
  The receive scan reads past its buffer: when all 2048 bytes are filled without a flag, the
  scan loads the byte at index 2048 before it compares the index with the fill level.
\<close>

theorem uart_rx_full_overread:
  assumes "wf_ctxt c" and "\<not> uart_next_frame_ready c" and "rd \<noteq> []"
    and "length (pending c) + length rd = 2048" and "0x7E \<notin> set (pending c @ rd)"
  shows "uart_rx_hdlc c buf buf_len rd = None"
proof -
  define m where "m = pending c @ rd"
  have m: "length m = 2048" "0x7E \<notin> set m" using assms by (simp_all add: m_def)
  have l: "length (pending c) = uart_rx_buf_len c" using assms(1) by (simp add: pending_def wf_ctxt_def)
  have fill: "uart_fill c rd = Some (c\<lparr>uart_rx_buf := m, uart_rx_buf_len := 2048\<rparr>)"
    using assms l by (simp add: uart_fill_def store_n_def wf_ctxt_def m_def pending_def)
  have "m ! 0 \<noteq> 0x7E" using m nth_mem [of 0 m] by force
  then have sf: "skip_flags m 2048 0 = Some 0" using m(1) by (subst skip_flags.simps) (simp add: load_def)
  have "skip_data m 2048 i = None" for i
  proof (induction "2048 - i" arbitrary: i)
    case 0
    then show ?case using m(1) by (subst skip_data.simps) (simp add: load_def)
  next
    case (Suc k)
    then have "m ! i \<noteq> 0x7E" using m nth_mem [of i m] by force
    then show ?case using Suc m(1) by (subst skip_data.simps) (simp add: load_def)
  qed
  with fill sf show ?thesis by (simp add: uart_rx_hdlc_def Let_def)
qed

theorem uart_rx_full_overread_witness:
  "uart_rx_hdlc os_ctxt_zero [] 0 (replicate 2048 1) = None"
proof -
  have "wf_ctxt os_ctxt_zero" "pending os_ctxt_zero = []" "\<not> uart_next_frame_ready os_ctxt_zero"
    by (simp_all add: wf_ctxt_def pending_def next_frame_def os_ctxt_zero_def)
  then show ?thesis
    using uart_rx_full_overread [of os_ctxt_zero "replicate 2048 1"] by simp
qed

end
