(* ===== verification/Wp.thy ===== *)
theory Wp
  imports IE
begin

text \<open>
  Reasoning about straight-line code that may fail: \<open>gives m Q\<close> says that the computation \<open>m\<close>
  returns (it neither leaves an object nor aborts) and its result satisfies \<open>Q\<close>. The rules push
  \<open>Q\<close> backwards through the option monad, through the operations of \<open>src/common/iobuf.c\<close>
  and through the building blocks of \<open>src/common/ieee802154_ie.c\<close>. The second half states
  once, as a locale, how \<open>src/stack/source/6lowpan/ws/ws_ie_lib.c\<close> searches among several
  elements with the same id for the one with a given first byte.
\<close>

section \<open>Total correctness\<close>

definition gives :: "'r option \<Rightarrow> ('r \<Rightarrow> bool) \<Rightarrow> bool" where
  "gives m Q \<longleftrightarrow> (\<exists>r. m = Some r \<and> Q r)"

lemma gives_Some [simp]: "gives (Some r) Q \<longleftrightarrow> Q r"
  by (simp add: gives_def)

lemma gives_None [simp]: "\<not> gives None Q"
  by (simp add: gives_def)

lemma gives_bind: "gives m (\<lambda>r. gives (f r) Q) \<Longrightarrow> gives (m \<bind> f) Q"
  by (auto simp: gives_def)

lemma gives_bind_pair: "gives m (\<lambda>r. gives (f (fst r) (snd r)) Q) \<Longrightarrow> gives (m \<bind> (\<lambda>(x, y). f x y)) Q"
  by (auto simp: gives_def)

lemma gives_mono: "gives m Q \<Longrightarrow> (\<And>r. Q r \<Longrightarrow> R r) \<Longrightarrow> gives m R"
  by (auto simp: gives_def)

lemma gives_conj: "gives m Q \<Longrightarrow> m = Some r \<Longrightarrow> Q r"
  by (auto simp: gives_def)

lemma gives_if: "(c \<Longrightarrow> gives a Q) \<Longrightarrow> (\<not> c \<Longrightarrow> gives b Q) \<Longrightarrow> gives (if c then a else b) Q"
  by simp

lemma gives_notNone: "gives m Q \<Longrightarrow> m \<noteq> None"
  by (auto simp: gives_def)

section \<open>Writing\<close>

lemma pushes_gives: "pushes m buf bs \<longleftrightarrow> gives m (\<lambda>b. wf_write b \<and> wbytes b = wbytes buf @ bs)"
  by (auto simp: pushes_def gives_def)

lemma gives_pushes:
  "pushes m buf bs \<Longrightarrow> (\<And>b. wf_write b \<Longrightarrow> wbytes b = wbytes buf @ bs \<Longrightarrow> Q b) \<Longrightarrow> gives m Q"
  by (auto simp: pushes_def gives_def)

lemmas gives_push [intro] =
  gives_pushes [OF push_u8] gives_pushes [OF push_numbers(1)] gives_pushes [OF push_numbers(2)]
  gives_pushes [OF push_numbers(3)] gives_pushes [OF push_numbers(4)] gives_pushes [OF push_numbers(5)]
  gives_pushes [OF push_numbers(6)] gives_pushes [OF push_numbers(7)] gives_pushes [OF push_numbers(8)]
  gives_pushes [OF push_data] gives_pushes [OF push_data_reserved]

section \<open>Reading\<close>

text \<open>The abstract reader after \<open>n\<close> more bytes.\<close>

definition rskip :: "nat \<Rightarrow> u8 list option \<Rightarrow> u8 list option" where
  "rskip n s = (case s of None \<Rightarrow> None | Some bs \<Rightarrow> if n \<le> length bs then Some (drop n bs) else None)"

lemma rskip_rskip [simp]: "rskip m (rskip n s) = rskip (m + n) s"
  by (auto simp: rskip_def split: option.splits)

lemma rskip_none_iff: "rskip n s = None \<longleftrightarrow> (\<forall>bs. s = Some bs \<longrightarrow> length bs < n)"
  by (auto simp: rskip_def split: option.splits)

lemma rskip_take_bytes: "rskip n s = map_option snd (take_bytes n s)"
  by (auto simp: rskip_def take_bytes_def split: option.splits)

lemma rerr_rview: "rerr b \<longleftrightarrow> rview b = None"
  by (simp add: rview_def)

text \<open>The number a pop returns: the value of the next \<open>n\<close> bytes, 0 when they are not there.\<close>

definition rnum :: "(u8 list \<Rightarrow> nat) \<Rightarrow> nat \<Rightarrow> u8 list option \<Rightarrow> 'a::len word" where
  "rnum val n s = (case take_bytes n s of None \<Rightarrow> 0 | Some (bs, _) \<Rightarrow> word_of_nat (val bs))"

lemma gives_pops_any:
  assumes "\<exists>v r. pops m buf v r \<and> (unat v, r) =
      (case take_bytes n (rview buf) of None \<Rightarrow> (0, None) | Some (bs, r) \<Rightarrow> (val bs, Some r))"
    and "\<And>v b. wf_read b \<Longrightarrow> rview b = rskip n (rview buf) \<Longrightarrow> v = rnum val n (rview buf) \<Longrightarrow> Q (v, b)"
  shows "gives m Q"
proof -
  obtain v r where v: "pops m buf v r" "(unat v, r) =
      (case take_bytes n (rview buf) of None \<Rightarrow> (0, None) | Some (bs, r) \<Rightarrow> (val bs, Some r))"
    using assms(1) by auto
  then have "r = rskip n (rview buf)"
    by (auto simp: rskip_take_bytes split: option.splits)
  moreover have "v = rnum val n (rview buf)"
  proof (cases "take_bytes n (rview buf)")
    case None
    then show ?thesis using v(2) by (simp add: rnum_def unsigned_eq_0_iff)
  next
    case (Some p)
    then have "unat v = val (fst p)" using v(2) by (simp add: case_prod_beta)
    then have "v = word_of_nat (val (fst p))" by (metis of_nat_unat ucast_id)
    then show ?thesis using Some by (simp add: rnum_def case_prod_beta)
  qed
  ultimately show ?thesis using v(1) assms(2) by (auto simp: pops_def gives_def)
qed

lemma pop_number_any:
  assumes "wf_read buf"
  shows "(\<And>v b. wf_read b \<Longrightarrow> rview b = rskip 2 (rview buf) \<Longrightarrow> v = rnum be_val 2 (rview buf) \<Longrightarrow> Q16 (v, b)) \<Longrightarrow>
      gives (iobuf_pop_be16 buf) Q16"
    and "(\<And>v b. wf_read b \<Longrightarrow> rview b = rskip 2 (rview buf) \<Longrightarrow> v = rnum le_val 2 (rview buf) \<Longrightarrow> Q16 (v, b)) \<Longrightarrow>
      gives (iobuf_pop_le16 buf) Q16"
    and "(\<And>v b. wf_read b \<Longrightarrow> rview b = rskip 3 (rview buf) \<Longrightarrow> v = rnum be_val 3 (rview buf) \<Longrightarrow> Q32 (v, b)) \<Longrightarrow>
      gives (iobuf_pop_be24 buf) Q32"
    and "(\<And>v b. wf_read b \<Longrightarrow> rview b = rskip 3 (rview buf) \<Longrightarrow> v = rnum le_val 3 (rview buf) \<Longrightarrow> Q32 (v, b)) \<Longrightarrow>
      gives (iobuf_pop_le24 buf) Q32"
    and "(\<And>v b. wf_read b \<Longrightarrow> rview b = rskip 4 (rview buf) \<Longrightarrow> v = rnum be_val 4 (rview buf) \<Longrightarrow> Q32 (v, b)) \<Longrightarrow>
      gives (iobuf_pop_be32 buf) Q32"
    and "(\<And>v b. wf_read b \<Longrightarrow> rview b = rskip 4 (rview buf) \<Longrightarrow> v = rnum le_val 4 (rview buf) \<Longrightarrow> Q32 (v, b)) \<Longrightarrow>
      gives (iobuf_pop_le32 buf) Q32"
    and "(\<And>v b. wf_read b \<Longrightarrow> rview b = rskip 8 (rview buf) \<Longrightarrow> v = rnum be_val 8 (rview buf) \<Longrightarrow> Q64 (v, b)) \<Longrightarrow>
      gives (iobuf_pop_be64 buf) Q64"
    and "(\<And>v b. wf_read b \<Longrightarrow> rview b = rskip 8 (rview buf) \<Longrightarrow> v = rnum le_val 8 (rview buf) \<Longrightarrow> Q64 (v, b)) \<Longrightarrow>
      gives (iobuf_pop_le64 buf) Q64"
  unfolding iobuf_pop_be16_def iobuf_pop_le16_def iobuf_pop_be24_def iobuf_pop_le24_def
    iobuf_pop_be32_def iobuf_pop_le32_def iobuf_pop_be64_def iobuf_pop_le64_def
  by (erule gives_pops_any [OF be16.pop_refines [OF assms, unfolded of_nat_numeral]]
      gives_pops_any [OF le16.pop_refines [OF assms, unfolded of_nat_numeral]]
      gives_pops_any [OF be24.pop_refines [OF assms, unfolded of_nat_numeral]]
      gives_pops_any [OF le24.pop_refines [OF assms, unfolded of_nat_numeral]]
      gives_pops_any [OF be32.pop_refines [OF assms, unfolded of_nat_numeral]]
      gives_pops_any [OF le32.pop_refines [OF assms, unfolded of_nat_numeral]]
      gives_pops_any [OF be64.pop_refines [OF assms, unfolded of_nat_numeral]]
      gives_pops_any [OF le64.pop_refines [OF assms, unfolded of_nat_numeral]]; simp)+

lemma pop_u8_any:
  assumes "wf_read buf"
    and "\<And>v b. wf_read b \<Longrightarrow> rview b = rskip 1 (rview buf) \<Longrightarrow> v = rnum le_val 1 (rview buf) \<Longrightarrow> Q (v, b)"
  shows "gives (iobuf_pop_u8 buf) Q"
proof (cases "take_bytes 1 (rview buf)")
  case None
  then show ?thesis
    using pop_u8(2) [OF assms(1)] assms(2) by (fastforce simp: pops_def gives_def rskip_take_bytes rnum_def)
next
  case (Some p)
  then obtain b r where "rview buf = Some (b # r)" "p = ([b], r)"
    by (cases p) (auto simp: take_bytes_Some_iff length_Suc_conv)
  then show ?thesis
    using pop_u8(1) [OF assms(1)] assms(2) Some by (fastforce simp: pops_def gives_def rskip_take_bytes rnum_def)
qed

text \<open>The bytes \<open>iobuf_pop_data\<close> stores: the next \<open>n\<close>, or zeros.\<close>

definition rdat :: "nat \<Rightarrow> u8 list option \<Rightarrow> u8 list" where
  "rdat n s = (case take_bytes n s of None \<Rightarrow> replicate n 0 | Some (bs, _) \<Rightarrow> bs)"

lemma length_rdat [simp]: "length (rdat n s) = n"
  by (auto simp: rdat_def take_bytes_Some_iff split: option.splits)

lemma pop_data_any:
  assumes "wf_read buf" and "n \<le> length val"
    and "\<And>b. wf_read b \<Longrightarrow> rview b = rskip n (rview buf) \<Longrightarrow> Q (Some (rdat n (rview buf) @ drop n val), b)"
  shows "gives (iobuf_pop_data buf (Some val) n) Q"
proof (cases "take_bytes n (rview buf)")
  case None
  then show ?thesis
    using pop_data(2) [OF assms(1,2)] assms(3) by (fastforce simp: pops_def gives_def rskip_take_bytes rdat_def)
next
  case (Some p)
  then show ?thesis
    using pop_data(1) [OF assms(1,2)] assms(3)
    by (cases p) (fastforce simp: pops_def gives_def rskip_take_bytes rdat_def)
qed

text \<open>The pointer of \<open>iobuf_pop_data_ptr\<close> covers the bytes popped, and is null exactly on failure.\<close>

lemma pop_data_ptr_any:
  assumes "wf_read buf"
    and "\<And>v b. wf_read b \<Longrightarrow> rview b = rskip n (rview buf) \<Longrightarrow> v = None \<longleftrightarrow> rview b = None \<Longrightarrow>
      (\<And>i. v = Some i \<Longrightarrow> n \<le> length (drop i (rdata b)) \<and> take n (drop i (rdata b)) = rdat n (rview buf)) \<Longrightarrow> Q (v, b)"
  shows "gives (iobuf_pop_data_ptr buf n) Q"
proof (cases "take_bytes n (rview buf)")
  case None
  then have "pops (iobuf_pop_data_ptr buf n) buf None None" by (rule pop_data_ptr(2) [OF assms(1)])
  then show ?thesis using assms(2) None by (auto simp: pops_def gives_def rskip_take_bytes)
next
  case (Some p)
  then obtain c r where cr: "take_bytes n (rview buf) = Some (c, r)" by (cases p) auto
  then obtain b where b: "iobuf_pop_data_ptr buf n = Some (Some (nat (rcnt buf)), b)" "wf_read b" "rview b = Some r"
      "rdata b = rdata buf" "take n (drop (nat (rcnt buf)) (rdata buf)) = c"
    using pop_data_ptr(1) [OF assms(1) cr] by (auto simp: pops_def)
  have "Q (Some (nat (rcnt buf)), b)"
    using b cr advance(5,6) [OF assms(1) cr] by (intro assms(2)) (auto simp: rskip_take_bytes rdat_def)
  then show ?thesis using b(1) by simp
qed

lemmas pop_any = pop_u8_any pop_number_any pop_data_any pop_data_ptr_any

text \<open>The numbers of known bytes.\<close>

lemma rnum_enc:
  "rnum le_val 1 (Some (v8 # r)) = v8"
  "rnum le_val 2 (Some (le_bytes 2 (unat v16) @ r)) = v16"
  "unat v24 < 2 ^ 24 \<Longrightarrow> rnum le_val 3 (Some (le_bytes 3 (unat v24) @ r)) = v24"
  "rnum le_val 4 (Some (le_bytes 4 (unat v32) @ r)) = v32"
  for v8 :: u8 and v16 :: u16 and v24 v32 :: u32
  using unat_u16_lt [of v16] unat_u32_lt [of v32]
  by (simp_all add: rnum_def take_bytes_def le_val_le_bytes)

lemma rskip_Some [simp]: "n \<le> length bs \<Longrightarrow> rskip n (Some bs) = Some (drop n bs)"
  by (simp add: rskip_def)

lemma rskip_0: "rskip 0 s = s"
  by (cases s) (simp_all add: rskip_def)

lemma rskip_None [simp]: "rskip n None = None"
  by (simp add: rskip_def)

section \<open>Elements\<close>

context ie_format
begin

lemma gives_push_hdr:
  assumes "wf_write buf"
    and "\<And>b. wf_write b \<Longrightarrow> wbytes b = wbytes buf @ le_bytes 2 (unat (descr idm lenm ty ie_id 0)) \<Longrightarrow>
      Q (wlen buf, b)"
  shows "gives (ieee802154_ie_push buf ty ie_id idm) Q"
  using push_hdr [OF assms(1), of ty ie_id] assms(2) by (auto simp: gives_def)

lemma gives_fill:
  assumes "wf_write b" and "wf_write buf"
    and "wbytes b = wbytes buf @ le_bytes 2 (unat (descr idm lenm ty ie_id 0)) @ content"
    and "length content < 2 ^ lb"
    and "\<And>b'. wf_write b' \<Longrightarrow> wbytes b' = wbytes buf @ ie_bytes idm lenm ty ie_id content \<Longrightarrow> Q b'"
  shows "gives (ieee802154_ie_fill_len b (wlen buf) lenm) Q"
proof -
  have "length (wbytes buf) = wlen buf" using assms(2) by (simp add: wbytes_def wf_write_def)
  then show ?thesis using fill_len [OF assms(1,3,4)] assms(5) by (auto simp: gives_def)
qed

end

section \<open>The first element with a given first byte\<close>

lemma ie_rest_le: "length (ie_rest dec bs) \<le> length bs - 2"
proof (induction dec bs rule: ie_rest.induct)
  case (1 dec bs)
  show ?case
  proof (cases "2 \<le> length bs \<and> (\<exists>n. dec (word_of_nat (le_val (take 2 bs))) = Some (False, n) \<and> n \<le> length bs - 2)")
    case True
    then obtain n where n: "dec (word_of_nat (le_val (take 2 bs))) = Some (False, n)" "n \<le> length bs - 2" "2 \<le> length bs"
      by auto
    then have "length (ie_rest dec (drop n (drop 2 bs))) \<le> length (drop n (drop 2 bs)) - 2"
      using 1 [OF _ n(1) refl] by simp
    then show ?thesis using n by (subst ie_rest.simps) simp
  next
    case False
    then show ?thesis by (subst ie_rest.simps) (auto split: option.splits)
  qed
qed

lemma ie_rest_shorter: "bs \<noteq> [] \<Longrightarrow> length (ie_rest dec bs) < length bs"
  using ie_rest_le [of dec bs] by (cases bs) auto

lemma ie_rest_split:
  "ie_lookup dec bs = Found c \<Longrightarrow> \<exists>pre. bs = pre @ c @ ie_rest dec bs"
proof (induction dec bs rule: ie_rest.induct)
  case (1 dec bs)
  have two: "2 \<le> length bs"
    using 1(2) by (subst (asm) ie_lookup.simps) (auto split: if_splits option.splits)
  obtain m n where d: "dec (word_of_nat (le_val (take 2 bs))) = Some (m, n)" "\<not> length (drop 2 bs) < n"
    using 1(2) two by (subst (asm) ie_lookup.simps) (auto split: if_splits option.splits)
  have l: "ie_lookup dec bs = (if m then Found (take n (drop 2 bs)) else ie_lookup dec (drop n (drop 2 bs)))"
    "ie_rest dec bs = (if m then drop n (drop 2 bs) else ie_rest dec (drop n (drop 2 bs)))"
    using d two by (subst ie_lookup.simps ie_rest.simps; auto)+
  have bs: "bs = take 2 bs @ take n (drop 2 bs) @ drop n (drop 2 bs)"
    by (metis append_take_drop_id)
  show ?case
  proof (cases m)
    case True
    then have "c = take n (drop 2 bs)" "ie_rest dec bs = drop n (drop 2 bs)" using l 1(2) by auto
    then show ?thesis using bs by metis
  next
    case False
    then have "\<exists>pre. drop n (drop 2 bs) = pre @ c @ ie_rest dec (drop n (drop 2 bs))"
      using 1(1) [OF _ d(1) refl] 1(2) d two l by simp
    then show ?thesis using bs False l(2) by (metis append.assoc)
  qed
qed

function tlv_find :: "(u16 \<Rightarrow> (bool \<times> nat) option) \<Rightarrow> u8 \<Rightarrow> u8 list \<Rightarrow> u8 list option" where
  "tlv_find dec key bs = (case ie_lookup dec bs of
       Found (k # c) \<Rightarrow> if k = key then Some c else if ie_rest dec bs = [] then None else tlv_find dec key (ie_rest dec bs)
     | _ \<Rightarrow> None)"
  by auto
termination
proof (relation "measure (\<lambda>(_, _, bs). length bs)")
  fix dec key bs c k and c' :: "u8 list"
  assume "ie_lookup dec bs = Found c" "c = k # c'"
  then have "bs \<noteq> []" by (auto simp: ie_lookup.simps)
  then show "((dec, key, ie_rest dec bs), dec, key, bs) \<in> measure (\<lambda>(_, _, bs). length bs)"
    by (simp add: ie_rest_shorter)
qed simp

declare tlv_find.simps [simp del]

lemma stream_step:
  assumes "dec (d x) = Some (m x, length (c x))"
  shows "ie_lookup dec (le_bytes 2 (unat (d x)) @ c x @ r) = (if m x then Found (c x) else ie_lookup dec r)"
    and "ie_rest dec (le_bytes 2 (unat (d x)) @ c x @ r) = (if m x then r else ie_rest dec r)"
proof -
  have "(word_of_nat (le_val (le_bytes 2 (unat (d x)))) :: u16) = d x"
    using unat_u16_lt [of "d x"] by (simp add: le_val_le_bytes)
  moreover have "le_bytes 2 (unat (d x)) \<noteq> []"
    by (metis length_le_bytes list.size(3) zero_neq_numeral)
  ultimately show "ie_lookup dec (le_bytes 2 (unat (d x)) @ c x @ r) = (if m x then Found (c x) else ie_lookup dec r)"
    and "ie_rest dec (le_bytes 2 (unat (d x)) @ c x @ r) = (if m x then r else ie_rest dec r)"
    using assms by (subst ie_lookup.simps ie_rest.simps; simp)+
qed

lemma tlv_stream:
  assumes "\<forall>x \<in> set xs. dec (d x) = Some (m x, length (c x)) \<and> (m x \<longrightarrow> c x \<noteq> [])"
  shows "tlv_find dec key (concat (map (\<lambda>x. le_bytes 2 (unat (d x)) @ c x) xs)) =
    map_option (\<lambda>x. tl (c x)) (find (\<lambda>x. m x \<and> hd (c x) = key) xs)"
  using assms
proof (induction xs)
  case Nil
  then show ?case by (simp add: tlv_find.simps ie_lookup.simps)
next
  case (Cons x xs)
  let ?r = "concat (map (\<lambda>x. le_bytes 2 (unat (d x)) @ c x) xs)"
  have d: "dec (d x) = Some (m x, length (c x))" using Cons.prems by simp
  note st = stream_step [of dec d x m c ?r, OF d]
  have empty: "?r = [] \<longleftrightarrow> xs = []"
    by (cases xs) (auto, metis length_le_bytes list.size(3) zero_neq_numeral)
  show ?case
  proof (cases "m x")
    case True
    then obtain k c' where k: "c x = k # c'" using Cons.prems by (cases "c x") auto
    have "tlv_find dec key (le_bytes 2 (unat (d x)) @ c x @ ?r) =
        (if k = key then Some c' else if ?r = [] then None else tlv_find dec key ?r)"
      using True st by (subst tlv_find.simps) (simp add: k)
    then show ?thesis using Cons True k empty by auto
  next
    case False
    then have "tlv_find dec key (le_bytes 2 (unat (d x)) @ c x @ ?r) = tlv_find dec key ?r"
      using st by (subst (1 2) tlv_find.simps) (simp split: ie_result.splits list.splits)
    then show ?thesis using Cons False by simp
  qed
qed

text \<open>
  A search in the shape the two loops of the file have. The pointer \<open>data\<close> is the object from it
  on, \<open>left\<close> is \<open>end - data\<close>; as the content found and \<open>data\<close> point into one object, the
  difference of the pointers is the difference of the lengths behind them. \<open>keep\<close> is whether
  the key is read again.
\<close>

locale ie_subsearch = ie_search loop dec for loop dec +
  fixes sub :: "u8 \<Rightarrow> u8 list \<Rightarrow> u16 \<Rightarrow> int \<Rightarrow> iobuf_read option" and keep :: bool
  assumes sub_unfold: "sub key data len left =
     do { (_, content) \<leftarrow> loop (iobuf_reader data (to_int32 (unat len)));
          (k, content) \<leftarrow> iobuf_pop_u8 content;
          if k = key then Some (if keep then content\<lparr>rcnt := 0\<rparr> else content)
          else if rerr content then Some content
          else let n = int (length data) - int (length (rdata content)) + rdata_size content;
                   len = len - word_of_int n; data = drop (nat n) data; left = left - n
               in if 0 < left then sub key data len left else Some (content\<lparr>rerr := True\<rparr>) }"
begin

lemma pop_none: "iobuf_pop_u8 ie_content_none = Some (0, ie_content_none)"
  by (simp add: iobuf_pop_u8_def iobuf_validate_def ie_content_none_def)

lemma none_view [simp]: "wf_read ie_content_none" "rview ie_content_none = None" "rerr ie_content_none"
  "rcnt ie_content_none = 0"
  by (simp_all add: wf_read_def rview_def ie_content_none_def)

lemma sub_none:
  assumes "loop (iobuf_reader data (to_int32 (unat len))) = Some (r, ie_content_none)"
  shows "sub key data len left = Some (if key = 0 \<and> keep then ie_content_none\<lparr>rcnt := 0\<rparr> else ie_content_none)"
  by (subst sub_unfold) (simp add: assms pop_none)

lemma sub_step:
  assumes "loop (iobuf_reader data (to_int32 (unat len))) = Some (r, content)"
    and "wf_read content" "rcnt content = 0" "rview content = Some (k # c)"
    and "rdata content = (k # c) @ rest @ tail" and "length data = m + length ((k # c) @ rest @ tail)"
    and "drop m data = (k # c) @ rest @ tail"
  shows "sub key data len left =
      (if k = key then Some (content\<lparr>rcnt := if keep then 0 else 1\<rparr>)
       else if 0 < left - int (m + length (k # c))
       then sub key (rest @ tail) (len - word_of_nat (m + length (k # c))) (left - int (m + length (k # c)))
       else Some (content\<lparr>rcnt := 1, rerr := True\<rparr>))"
    and "wf_read (content\<lparr>rcnt := 1\<rparr>)" "rview (content\<lparr>rcnt := 1\<rparr>) = Some c" "wf_read (content\<lparr>rcnt := 1, rerr := True\<rparr>)"
proof -
  let ?b = "content\<lparr>rcnt := 1\<rparr>"
  have sz: "rdata_size content = int (length (k # c))"
    using rrest_length [OF assms(2)] assms(3,4) by (simp add: rview_def split: if_splits)
  have tb: "take_bytes 1 (rview content) = Some ([k], c)" using assms(4) by (simp add: take_bytes_def)
  then have pop: "iobuf_pop_u8 content = Some (k, ?b)"
    using assms(2,3,5) by (simp add: iobuf_pop_u8_def validate_eq ptr_at_def load_def)
  show b: "wf_read ?b" "rview ?b = Some c"
    using advance(1,2) [OF assms(2) tb] assms(3) by simp_all
  then show "wf_read (content\<lparr>rcnt := 1, rerr := True\<rparr>)" by (simp add: wf_read_def)
  have e: "\<not> rerr ?b" using assms(4) by (simp add: rview_def split: if_splits)
  have n: "int (length data) - int (length (rdata ?b)) + rdata_size ?b = int (m + length (k # c))"
    using sz assms(5,6) by simp
  have d: "drop (m + length (k # c)) data = rest @ tail"
    using assms(7) by (metis add.commute append_eq_conv_conj drop_drop)
  show "sub key data len left =
      (if k = key then Some (content\<lparr>rcnt := if keep then 0 else 1\<rparr>)
       else if 0 < left - int (m + length (k # c))
       then sub key (rest @ tail) (len - word_of_nat (m + length (k # c))) (left - int (m + length (k # c)))
       else Some (content\<lparr>rcnt := 1, rerr := True\<rparr>))"
    by (subst sub_unfold) (simp add: assms(1) pop Let_def n [simplified] d [simplified] e [simplified] nat_add_distrib)
qed


text \<open>The search is total, stays inside the object, and finds what \<open>tlv_find\<close> finds.\<close>

lemma sub_refines:
  "data = bs @ tail \<Longrightarrow> unat len = length bs \<Longrightarrow> left = int (length bs) \<Longrightarrow>
     gives (sub key data len left) (\<lambda>b. wf_read b \<and>
       rview b = map_option (\<lambda>c. if keep then key # c else c) (tlv_find dec key bs))"
proof (induction "length bs" arbitrary: bs data len left rule: less_induct)
  case less
  have len: "to_int32 (unat len) = int (length bs)" "length bs < 65536"
    using less.prems(2) unat_u16_lt [of len] by (auto simp: to_int32_small)
  define input where "input = iobuf_reader data (to_int32 (unat len))"
  have inp: "wf_read input" "rview input = Some bs" "drop (nat (rcnt input)) (rdata input) = bs @ tail"
    using less.prems len by (auto simp: input_def wf_reader rview_reader) (simp add: iobuf_reader_def)
  obtain r content where p: "loop input = Some (r, content)" "ie_reports (ie_lookup dec bs) (r, content)"
    using loop_refines [OF inp(1,2)] by auto
  show ?case
  proof (cases "\<exists>k c. ie_lookup dec bs = Found (k # c)")
    case False
    then have t: "tlv_find dec key bs = None"
      by (subst tlv_find.simps) (auto split: ie_result.splits list.splits)
    consider "content = ie_content_none" | "ie_lookup dec bs = Found []"
      using p(2) False by (cases "ie_lookup dec bs") (auto, metis neq_Nil_conv)
    then show ?thesis
    proof cases
      case 1
      have s: "sub key data len left =
          Some (if key = 0 \<and> keep then ie_content_none\<lparr>rcnt := 0\<rparr> else ie_content_none)"
        by (rule sub_none) (use p(1) 1 in \<open>simp add: input_def\<close>)
      show ?thesis unfolding s using t none_view by (auto simp: wf_read_def rview_def)
    next
      case 2
      then have c: "wf_read content" "rview content = Some []" using p(2) by auto
      then have s: "sub key data len left = Some (let b = content\<lparr>rcnt := rdata_size content, rerr := True\<rparr>
          in if key = 0 \<and> keep then b\<lparr>rcnt := 0\<rparr> else b)"
        using p(1) by (subst sub_unfold)
          (auto simp: input_def iobuf_pop_u8_def validate_eq take_bytes_def Let_def)
      show ?thesis unfolding s using t c(1) by (auto simp: wf_read_def rview_def Let_def)
    qed
  next
    case True
    then obtain k c where f: "ie_lookup dec bs = Found (k # c)" by auto
    let ?rest = "ie_rest dec bs"
    have c: "wf_read content" "rview content = Some (k # c)" using p(2) f by auto
    have at: "rdata content = (k # c) @ ?rest @ tail" "rcnt content = 0"
      using loop_found_at [OF inp f p(1)] by auto
    obtain pre where pre: "bs = pre @ (k # c) @ ?rest" using ie_rest_split [OF f] by auto
    then have lb: "length bs = length pre + length (k # c) + length ?rest"
      by (metis add.assoc length_append)
    have d: "length data = length pre + length ((k # c) @ ?rest @ tail)" "drop (length pre) data = (k # c) @ ?rest @ tail"
      using less.prems(1) lb by simp (metis append.assoc append_eq_conv_conj less.prems(1) pre)
    note st = sub_step [OF p(1) [unfolded input_def] c(1) at(2) c(2) at(1) d]
    show ?thesis
    proof (cases "k = key")
      case True
      then have "tlv_find dec key bs = Some c" by (subst tlv_find.simps) (simp add: f)
      moreover have "wf_read (content\<lparr>rcnt := 0\<rparr>)" "rview (content\<lparr>rcnt := 0\<rparr>) = Some (k # c)"
        using c at(2) by (auto simp: wf_read_def rview_def rrest_def split: if_splits)
      ultimately show ?thesis using st True by simp
    next
      case False
      then have t: "tlv_find dec key bs = (if ?rest = [] then None else tlv_find dec key ?rest)"
        by (subst tlv_find.simps) (simp add: f)
      show ?thesis
      proof (cases "?rest = []")
        case True
        then have "\<not> 0 < left - int (length pre + length (k # c))" using less.prems(3) lb by simp
        then show ?thesis using st False t True by (simp add: rview_def)
      next
        case F: False
        have "unat (len - word_of_nat (length pre + length (k # c))) = length ?rest"
          using lb less.prems(2) by (subst unat_sub_of_nat) auto
        then have "gives (sub key (?rest @ tail) (len - word_of_nat (length pre + length (k # c)))
            (left - int (length pre + length (k # c)))) (\<lambda>b. wf_read b \<and>
              rview b = map_option (\<lambda>c. if keep then key # c else c) (tlv_find dec key ?rest))"
          using lb F less.prems(3) by (intro less.hyps) auto
        moreover have "0 < left - int (length pre + length (k # c))" using less.prems(3) lb F by simp
        ultimately show ?thesis using st(1) False t F by simp
      qed
    qed
  qed
qed

end

end
