(* ===== verification/WsWhIe.thy ===== *)
theory WsWhIe
  imports Wp
begin

text \<open>
  The Wi-SUN header information elements of \<open>src/stack/source/6lowpan/ws/ws_ie_lib.c\<close>, with
  their structures from \<open>ws_common_defines.h\<close>. They all have the IEEE id
  \<open>IEEE802154_IE_ID_WH\<close>; the first content byte is the Wi-SUN sub id. A writer
  \<open>ws_wh_*_write\<close> takes the output buffer and returns it; a reader \<open>ws_wh_*_read\<close> takes the
  object at \<open>data\<close>, the \<open>length\<close> and the old value of its output structure, and returns the
  boolean and the structure. \<open>uint24_t\<close> is \<open>uint32_t\<close>, as in \<open>int24.h\<close>.
\<close>

section \<open>Structures\<close>

record ws_utt_ie =
  utt_message_type :: u8
  utt_ufsi :: u32

record ws_bt_ie =
  bt_broadcast_slot_number :: u16
  bt_broadcast_interval_offset :: u32

record ws_fc_ie =
  fc_tx_flow_ctrl :: u8
  fc_rx_flow_ctrl :: u8

record ws_lutt_ie =
  lutt_message_type :: u8
  lutt_slot_number :: u16
  lutt_interval_offset :: u32

record ws_lbt_ie =
  lbt_slot_number :: u16
  lbt_interval_offset :: u32

record ws_nr_ie =
  nr_node_role :: u8
  nr_reserved :: u8
  nr_clock_drift :: u8
  nr_timing_accuracy :: u8
  nr_listen_interval_min :: u32
  nr_listen_interval_max :: u32

record ws_lus_ie =
  lus_listen_interval :: u32
  lus_channel_plan_tag :: u8

record ws_flus_ie =
  flus_dwell_interval :: u8
  flus_channel_plan_tag :: u8

record ws_lnd_ie =
  lnd_response_threshold :: u8
  lnd_response_delay :: u32
  lnd_discovery_slot_time :: u8
  lnd_discovery_slots :: u8
  lnd_discovery_first_slot :: u16

record ws_lto_ie =
  lto_offset :: u32
  lto_adjusted_listening_interval :: u32

record ws_lbs_ie =
  lbs_broadcast_interval :: u32
  lbs_broadcast_scheduler_id :: u16
  lbs_channel_plan_tag :: u8
  lbs_broadcast_sync_period :: u8

record ws_panid_ie =
  panid_panid :: u16

record ws_lbc_ie =
  lbc_lfn_broadcast_interval :: u32
  lbc_broadcast_sync_period :: u8

section \<open>Constants\<close>

definition IEEE802154_IE_ID_WH :: u8 where "IEEE802154_IE_ID_WH = 0x2A"
definition WS_WHIE_UTT :: u8 where "WS_WHIE_UTT = 0x01"
definition WS_WHIE_BT :: u8 where "WS_WHIE_BT = 0x02"
definition WS_WHIE_FC :: u8 where "WS_WHIE_FC = 0x03"
definition WS_WHIE_RSL :: u8 where "WS_WHIE_RSL = 0x04"
definition WS_WHIE_EA :: u8 where "WS_WHIE_EA = 0x09"
definition WS_WHIE_LUTT :: u8 where "WS_WHIE_LUTT = 0x0A"
definition WS_WHIE_LBT :: u8 where "WS_WHIE_LBT = 0x0B"
definition WS_WHIE_NR :: u8 where "WS_WHIE_NR = 0x0C"
definition WS_WHIE_LUS :: u8 where "WS_WHIE_LUS = 0x0D"
definition WS_WHIE_FLUS :: u8 where "WS_WHIE_FLUS = 0x0E"
definition WS_WHIE_LBS :: u8 where "WS_WHIE_LBS = 0x0F"
definition WS_WHIE_LND :: u8 where "WS_WHIE_LND = 0x10"
definition WS_WHIE_LTO :: u8 where "WS_WHIE_LTO = 0x11"
definition WS_WHIE_PANID :: u8 where "WS_WHIE_PANID = 0x12"
definition WS_WHIE_LBC :: u8 where "WS_WHIE_LBC = 0x80"
definition WS_NR_ROLE_LFN :: u8 where "WS_NR_ROLE_LFN = 2"
definition WS_WHIE_NR_NODE_ROLE_ID_MASK :: u16 where "WS_WHIE_NR_NODE_ROLE_ID_MASK = 0x07"

lemmas whie_defs = WS_WHIE_UTT_def WS_WHIE_BT_def WS_WHIE_FC_def WS_WHIE_RSL_def WS_WHIE_EA_def WS_WHIE_LUTT_def WS_WHIE_LBT_def WS_WHIE_NR_def WS_WHIE_LUS_def WS_WHIE_FLUS_def WS_WHIE_LBS_def WS_WHIE_LND_def WS_WHIE_LTO_def WS_WHIE_PANID_def WS_WHIE_LBC_def

section \<open>Writers\<close>

definition ws_wh_header_base_write :: "iobuf_write \<Rightarrow> u8 \<Rightarrow> (nat \<times> iobuf_write) option" where
  "ws_wh_header_base_write buf ty =
     do { (offset, buf) \<leftarrow> ieee802154_ie_push_header buf IEEE802154_IE_ID_WH;
          buf \<leftarrow> iobuf_push_u8 buf ty;
          Some (offset, buf) }"

definition ws_wh_utt_write :: "iobuf_write \<Rightarrow> u8 \<Rightarrow> iobuf_write option" where
  "ws_wh_utt_write buf message_type =
     do { (offset, buf) \<leftarrow> ws_wh_header_base_write buf WS_WHIE_UTT;
          buf \<leftarrow> iobuf_push_u8 buf message_type;
          buf \<leftarrow> iobuf_push_le24 buf 0;
          ieee802154_ie_fill_len_header buf offset }"

definition ws_wh_bt_write :: "iobuf_write \<Rightarrow> iobuf_write option" where
  "ws_wh_bt_write buf =
     do { (offset, buf) \<leftarrow> ws_wh_header_base_write buf WS_WHIE_BT;
          buf \<leftarrow> iobuf_push_le16 buf 0;
          buf \<leftarrow> iobuf_push_le24 buf 0;
          ieee802154_ie_fill_len_header buf offset }"

definition ws_wh_fc_write :: "iobuf_write \<Rightarrow> u8 \<Rightarrow> u8 \<Rightarrow> iobuf_write option" where
  "ws_wh_fc_write buf tx rx =
     do { (offset, buf) \<leftarrow> ws_wh_header_base_write buf WS_WHIE_FC;
          buf \<leftarrow> iobuf_push_u8 buf tx;
          buf \<leftarrow> iobuf_push_u8 buf rx;
          ieee802154_ie_fill_len_header buf offset }"

definition ws_wh_rsl_write :: "iobuf_write \<Rightarrow> u8 \<Rightarrow> iobuf_write option" where
  "ws_wh_rsl_write buf rsl =
     do { (offset, buf) \<leftarrow> ws_wh_header_base_write buf WS_WHIE_RSL;
          buf \<leftarrow> iobuf_push_u8 buf rsl;
          ieee802154_ie_fill_len_header buf offset }"

definition ws_wh_ea_write :: "iobuf_write \<Rightarrow> u8 list \<Rightarrow> iobuf_write option" where
  "ws_wh_ea_write buf eui64 =
     do { (offset, buf) \<leftarrow> ws_wh_header_base_write buf WS_WHIE_EA;
          buf \<leftarrow> iobuf_push_data buf eui64 8;
          ieee802154_ie_fill_len_header buf offset }"

definition ws_wh_lutt_write :: "iobuf_write \<Rightarrow> u8 \<Rightarrow> iobuf_write option" where
  "ws_wh_lutt_write buf message_type =
     do { (offset, buf) \<leftarrow> ws_wh_header_base_write buf WS_WHIE_LUTT;
          buf \<leftarrow> iobuf_push_u8 buf message_type;
          buf \<leftarrow> iobuf_push_le16 buf 0;
          buf \<leftarrow> iobuf_push_le24 buf 0;
          ieee802154_ie_fill_len_header buf offset }"

definition ws_wh_lus_write :: "iobuf_write \<Rightarrow> ws_lus_ie \<Rightarrow> iobuf_write option" where
  "ws_wh_lus_write buf lus_ie =
     do { (offset, buf) \<leftarrow> ws_wh_header_base_write buf WS_WHIE_LUS;
          buf \<leftarrow> iobuf_push_le24 buf (lus_listen_interval lus_ie);
          buf \<leftarrow> iobuf_push_u8 buf (lus_channel_plan_tag lus_ie);
          ieee802154_ie_fill_len_header buf offset }"

definition ws_wh_flus_write :: "iobuf_write \<Rightarrow> u32 \<Rightarrow> u8 \<Rightarrow> iobuf_write option" where
  "ws_wh_flus_write buf dwell_interval tag =
     do { (offset, buf) \<leftarrow> ws_wh_header_base_write buf WS_WHIE_FLUS;
          buf \<leftarrow> iobuf_push_u8 buf (ucast dwell_interval);
          buf \<leftarrow> iobuf_push_u8 buf tag;
          ieee802154_ie_fill_len_header buf offset }"

definition ws_wh_lbt_write :: "iobuf_write \<Rightarrow> ws_lbt_ie \<Rightarrow> iobuf_write option" where
  "ws_wh_lbt_write buf lbt_ie =
     do { (offset, buf) \<leftarrow> ws_wh_header_base_write buf WS_WHIE_LBT;
          buf \<leftarrow> iobuf_push_le16 buf 0;
          buf \<leftarrow> iobuf_push_le24 buf 0;
          ieee802154_ie_fill_len_header buf offset }"

definition ws_wh_lbs_write :: "iobuf_write \<Rightarrow> u32 \<Rightarrow> u16 \<Rightarrow> u8 \<Rightarrow> u8 \<Rightarrow> iobuf_write option" where
  "ws_wh_lbs_write buf interval sched_id tag sync_period =
     do { (offset, buf) \<leftarrow> ws_wh_header_base_write buf WS_WHIE_LBS;
          buf \<leftarrow> iobuf_push_le24 buf interval;
          buf \<leftarrow> iobuf_push_le16 buf sched_id;
          buf \<leftarrow> iobuf_push_u8 buf tag;
          buf \<leftarrow> iobuf_push_u8 buf sync_period;
          ieee802154_ie_fill_len_header buf offset }"

definition ws_wh_lbc_write :: "iobuf_write \<Rightarrow> u32 \<Rightarrow> u8 \<Rightarrow> iobuf_write option" where
  "ws_wh_lbc_write buf interval sync_period =
     do { (offset, buf) \<leftarrow> ws_wh_header_base_write buf WS_WHIE_LBC;
          buf \<leftarrow> iobuf_push_le24 buf interval;
          buf \<leftarrow> iobuf_push_u8 buf sync_period;
          ieee802154_ie_fill_len_header buf offset }"

definition ws_wh_nr_write ::
  "iobuf_write \<Rightarrow> u8 \<Rightarrow> u8 \<Rightarrow> u8 \<Rightarrow> u32 \<Rightarrow> u32 \<Rightarrow> iobuf_write option" where
  "ws_wh_nr_write buf node_role clock_drift timing_accuracy listen_interval_min listen_interval_max =
     do { (offset, buf) \<leftarrow> ws_wh_header_base_write buf WS_WHIE_NR;
          buf \<leftarrow> iobuf_push_u8 buf (ucast (FIELD_PREP WS_WHIE_NR_NODE_ROLE_ID_MASK (ucast node_role)));
          buf \<leftarrow> iobuf_push_u8 buf clock_drift;
          buf \<leftarrow> iobuf_push_u8 buf timing_accuracy;
          buf \<leftarrow> (if node_role = WS_NR_ROLE_LFN
                 then do { buf \<leftarrow> iobuf_push_le24 buf listen_interval_min;
                           iobuf_push_le24 buf listen_interval_max }
                 else Some buf);
          ieee802154_ie_fill_len_header buf offset }"

definition ws_wh_lnd_write :: "iobuf_write \<Rightarrow> ws_lnd_ie \<Rightarrow> iobuf_write option" where
  "ws_wh_lnd_write buf lnd_ie =
     do { (offset, buf) \<leftarrow> ws_wh_header_base_write buf WS_WHIE_LND;
          buf \<leftarrow> iobuf_push_u8 buf (lnd_response_threshold lnd_ie);
          buf \<leftarrow> iobuf_push_le24 buf 0;
          buf \<leftarrow> iobuf_push_u8 buf (lnd_discovery_slot_time lnd_ie);
          buf \<leftarrow> iobuf_push_u8 buf (lnd_discovery_slots lnd_ie);
          buf \<leftarrow> iobuf_push_le16 buf 0;
          ieee802154_ie_fill_len_header buf offset }"

definition ws_wh_lto_write :: "iobuf_write \<Rightarrow> ws_lto_ie \<Rightarrow> iobuf_write option" where
  "ws_wh_lto_write buf lto_ie =
     do { (offset, buf) \<leftarrow> ws_wh_header_base_write buf WS_WHIE_LTO;
          buf \<leftarrow> iobuf_push_le24 buf (lto_offset lto_ie);
          buf \<leftarrow> iobuf_push_le24 buf (lto_adjusted_listening_interval lto_ie);
          ieee802154_ie_fill_len_header buf offset }"

definition ws_wh_panid_write :: "iobuf_write \<Rightarrow> u16 \<Rightarrow> iobuf_write option" where
  "ws_wh_panid_write buf panid =
     do { (offset, buf) \<leftarrow> ws_wh_header_base_write buf WS_WHIE_PANID;
          buf \<leftarrow> iobuf_push_le16 buf panid;
          ieee802154_ie_fill_len_header buf offset }"

section \<open>Readers\<close>

text \<open>
  The loop of \<open>ws_wh_find_subid\<close>: \<open>data\<close> is the object from that pointer on, \<open>left\<close> is
  \<open>end - data\<close>. The content found points into the same object, so that
  \<open>wh_content->data - data\<close> is the difference of the lengths behind the two pointers.
\<close>

partial_function (option) find_subid_loop :: "u8 \<Rightarrow> u8 list \<Rightarrow> u16 \<Rightarrow> int \<Rightarrow> iobuf_read option" where
  "find_subid_loop subid data len left =
     do { (_, wh_content) \<leftarrow> ieee802154_ie_find_header data (unat len) IEEE802154_IE_ID_WH;
          (k, wh_content) \<leftarrow> iobuf_pop_u8 wh_content;
          if k = subid then Some wh_content
          else if rerr wh_content then Some wh_content
          else let n = int (length data) - int (length (rdata wh_content)) + rdata_size wh_content;
                   len = len - word_of_int n; data = drop (nat n) data; left = left - n
               in if 0 < left then find_subid_loop subid data len left
                  else Some (wh_content\<lparr>rerr := True\<rparr>) }"

definition ws_wh_find_subid :: "u8 list \<Rightarrow> u16 \<Rightarrow> u8 \<Rightarrow> iobuf_read option" where
  "ws_wh_find_subid data len subid = find_subid_loop subid data len (int (unat len))"

definition ws_wh_utt_read :: "u8 list \<Rightarrow> u16 \<Rightarrow> ws_utt_ie \<Rightarrow> (bool \<times> ws_utt_ie) option" where
  "ws_wh_utt_read data len utt_ie =
     do { ie_buf \<leftarrow> ws_wh_find_subid data len WS_WHIE_UTT;
          (v1, ie_buf) \<leftarrow> iobuf_pop_u8 ie_buf;
          (v2, ie_buf) \<leftarrow> iobuf_pop_le24 ie_buf;
          Some (\<not> rerr ie_buf, utt_ie\<lparr>utt_message_type := v1, utt_ufsi := v2\<rparr>) }"

definition ws_wh_bt_read :: "u8 list \<Rightarrow> u16 \<Rightarrow> ws_bt_ie \<Rightarrow> (bool \<times> ws_bt_ie) option" where
  "ws_wh_bt_read data len bt_ie =
     do { ie_buf \<leftarrow> ws_wh_find_subid data len WS_WHIE_BT;
          (v1, ie_buf) \<leftarrow> iobuf_pop_le16 ie_buf;
          (v2, ie_buf) \<leftarrow> iobuf_pop_le16 ie_buf;
          Some (\<not> rerr ie_buf, bt_ie\<lparr>bt_broadcast_slot_number := v1, bt_broadcast_interval_offset := ucast v2\<rparr>) }"

definition ws_wh_fc_read :: "u8 list \<Rightarrow> u16 \<Rightarrow> ws_fc_ie \<Rightarrow> (bool \<times> ws_fc_ie) option" where
  "ws_wh_fc_read data len fc_ie =
     do { ie_buf \<leftarrow> ws_wh_find_subid data len WS_WHIE_FC;
          (v1, ie_buf) \<leftarrow> iobuf_pop_u8 ie_buf;
          (v2, ie_buf) \<leftarrow> iobuf_pop_u8 ie_buf;
          Some (\<not> rerr ie_buf, fc_ie\<lparr>fc_tx_flow_ctrl := v1, fc_rx_flow_ctrl := v2\<rparr>) }"

text \<open>\<open>*rsl\<close> is an \<open>int8_t\<close>; it is the byte, read in two's complement.\<close>

definition ws_wh_rsl_read :: "u8 list \<Rightarrow> u16 \<Rightarrow> (bool \<times> u8) option" where
  "ws_wh_rsl_read data len =
     do { ie_buf \<leftarrow> ws_wh_find_subid data len WS_WHIE_RSL;
          (rsl, ie_buf) \<leftarrow> iobuf_pop_u8 ie_buf;
          Some (\<not> rerr ie_buf, rsl) }"

definition ws_wh_ea_read :: "u8 list \<Rightarrow> u16 \<Rightarrow> u8 list \<Rightarrow> (bool \<times> u8 list option) option" where
  "ws_wh_ea_read data len eui64 =
     do { ie_buf \<leftarrow> ws_wh_find_subid data len WS_WHIE_EA;
          (eui64, ie_buf) \<leftarrow> iobuf_pop_data ie_buf (Some eui64) 8;
          Some (\<not> rerr ie_buf, eui64) }"

definition ws_wh_lutt_read :: "u8 list \<Rightarrow> u16 \<Rightarrow> ws_lutt_ie \<Rightarrow> (bool \<times> ws_lutt_ie) option" where
  "ws_wh_lutt_read data len lutt_ie =
     do { ie_buf \<leftarrow> ws_wh_find_subid data len WS_WHIE_LUTT;
          (v1, ie_buf) \<leftarrow> iobuf_pop_u8 ie_buf;
          (v2, ie_buf) \<leftarrow> iobuf_pop_le16 ie_buf;
          (v3, ie_buf) \<leftarrow> iobuf_pop_le24 ie_buf;
          Some (\<not> rerr ie_buf, lutt_ie\<lparr>lutt_message_type := v1, lutt_slot_number := v2, lutt_interval_offset := v3\<rparr>) }"

definition ws_wh_lus_read :: "u8 list \<Rightarrow> u16 \<Rightarrow> ws_lus_ie \<Rightarrow> (bool \<times> ws_lus_ie) option" where
  "ws_wh_lus_read data len lus_ie =
     do { ie_buf \<leftarrow> ws_wh_find_subid data len WS_WHIE_LUS;
          (v1, ie_buf) \<leftarrow> iobuf_pop_le24 ie_buf;
          (v2, ie_buf) \<leftarrow> iobuf_pop_u8 ie_buf;
          Some (\<not> rerr ie_buf, lus_ie\<lparr>lus_listen_interval := v1, lus_channel_plan_tag := v2\<rparr>) }"

definition ws_wh_flus_read :: "u8 list \<Rightarrow> u16 \<Rightarrow> ws_flus_ie \<Rightarrow> (bool \<times> ws_flus_ie) option" where
  "ws_wh_flus_read data len flus_ie =
     do { ie_buf \<leftarrow> ws_wh_find_subid data len WS_WHIE_FLUS;
          (v1, ie_buf) \<leftarrow> iobuf_pop_u8 ie_buf;
          (v2, ie_buf) \<leftarrow> iobuf_pop_u8 ie_buf;
          Some (\<not> rerr ie_buf, flus_ie\<lparr>flus_dwell_interval := v1, flus_channel_plan_tag := v2\<rparr>) }"

definition ws_wh_lbt_read :: "u8 list \<Rightarrow> u16 \<Rightarrow> ws_lbt_ie \<Rightarrow> (bool \<times> ws_lbt_ie) option" where
  "ws_wh_lbt_read data len lbt_ie =
     do { ie_buf \<leftarrow> ws_wh_find_subid data len WS_WHIE_LBT;
          (v1, ie_buf) \<leftarrow> iobuf_pop_le16 ie_buf;
          (v2, ie_buf) \<leftarrow> iobuf_pop_le24 ie_buf;
          Some (\<not> rerr ie_buf, lbt_ie\<lparr>lbt_slot_number := v1, lbt_interval_offset := v2\<rparr>) }"

definition ws_wh_lbs_read :: "u8 list \<Rightarrow> u16 \<Rightarrow> ws_lbs_ie \<Rightarrow> (bool \<times> ws_lbs_ie) option" where
  "ws_wh_lbs_read data len lbs_ie =
     do { ie_buf \<leftarrow> ws_wh_find_subid data len WS_WHIE_LBS;
          (v1, ie_buf) \<leftarrow> iobuf_pop_le24 ie_buf;
          (v2, ie_buf) \<leftarrow> iobuf_pop_le16 ie_buf;
          (v3, ie_buf) \<leftarrow> iobuf_pop_u8 ie_buf;
          (v4, ie_buf) \<leftarrow> iobuf_pop_u8 ie_buf;
          Some (\<not> rerr ie_buf, lbs_ie\<lparr>lbs_broadcast_interval := v1, lbs_broadcast_scheduler_id := v2, lbs_channel_plan_tag := v3, lbs_broadcast_sync_period := v4\<rparr>) }"

definition ws_wh_nr_read :: "u8 list \<Rightarrow> u16 \<Rightarrow> ws_nr_ie \<Rightarrow> (bool \<times> ws_nr_ie) option" where
  "ws_wh_nr_read data len nr_ie =
     do { ie_buf \<leftarrow> ws_wh_find_subid data len WS_WHIE_NR;
          (v1, ie_buf) \<leftarrow> iobuf_pop_u8 ie_buf;
          let nr_ie = nr_ie\<lparr>nr_node_role := ucast (FIELD_GET WS_WHIE_NR_NODE_ROLE_ID_MASK (ucast v1))\<rparr>;
          (v2, ie_buf) \<leftarrow> iobuf_pop_u8 ie_buf;
          (v3, ie_buf) \<leftarrow> iobuf_pop_u8 ie_buf;
          let nr_ie = nr_ie\<lparr>nr_clock_drift := v2, nr_timing_accuracy := v3\<rparr>;
          (nr_ie, ie_buf) \<leftarrow> (if nr_node_role nr_ie = WS_NR_ROLE_LFN
             then do { (v4, ie_buf) \<leftarrow> iobuf_pop_le24 ie_buf;
                       (v5, ie_buf) \<leftarrow> iobuf_pop_le24 ie_buf;
                       Some (nr_ie\<lparr>nr_listen_interval_min := v4, nr_listen_interval_max := v5\<rparr>, ie_buf) }
             else Some (nr_ie, ie_buf));
          Some (\<not> rerr ie_buf, nr_ie) }"

definition ws_wh_lnd_read :: "u8 list \<Rightarrow> u16 \<Rightarrow> ws_lnd_ie \<Rightarrow> (bool \<times> ws_lnd_ie) option" where
  "ws_wh_lnd_read data len lnd_ie =
     do { ie_buf \<leftarrow> ws_wh_find_subid data len WS_WHIE_LND;
          (v1, ie_buf) \<leftarrow> iobuf_pop_u8 ie_buf;
          (v2, ie_buf) \<leftarrow> iobuf_pop_le24 ie_buf;
          (v3, ie_buf) \<leftarrow> iobuf_pop_u8 ie_buf;
          (v4, ie_buf) \<leftarrow> iobuf_pop_u8 ie_buf;
          (v5, ie_buf) \<leftarrow> iobuf_pop_le16 ie_buf;
          Some (\<not> rerr ie_buf, lnd_ie\<lparr>lnd_response_threshold := v1, lnd_response_delay := v2, lnd_discovery_slot_time := v3, lnd_discovery_slots := v4, lnd_discovery_first_slot := v5\<rparr>) }"

definition ws_wh_lto_read :: "u8 list \<Rightarrow> u16 \<Rightarrow> ws_lto_ie \<Rightarrow> (bool \<times> ws_lto_ie) option" where
  "ws_wh_lto_read data len lto_ie =
     do { ie_buf \<leftarrow> ws_wh_find_subid data len WS_WHIE_LTO;
          (v1, ie_buf) \<leftarrow> iobuf_pop_le24 ie_buf;
          (v2, ie_buf) \<leftarrow> iobuf_pop_le24 ie_buf;
          Some (\<not> rerr ie_buf, lto_ie\<lparr>lto_offset := v1, lto_adjusted_listening_interval := v2\<rparr>) }"

definition ws_wh_panid_read :: "u8 list \<Rightarrow> u16 \<Rightarrow> ws_panid_ie \<Rightarrow> (bool \<times> ws_panid_ie) option" where
  "ws_wh_panid_read data len panid_ie =
     do { ie_buf \<leftarrow> ws_wh_find_subid data len WS_WHIE_PANID;
          (v1, ie_buf) \<leftarrow> iobuf_pop_le16 ie_buf;
          Some (\<not> rerr ie_buf, panid_ie\<lparr>panid_panid := v1\<rparr>) }"

definition ws_wh_lbc_read :: "u8 list \<Rightarrow> u16 \<Rightarrow> ws_lbc_ie \<Rightarrow> (bool \<times> ws_lbc_ie) option" where
  "ws_wh_lbc_read data len lbc_ie =
     do { ie_buf \<leftarrow> ws_wh_find_subid data len WS_WHIE_LBC;
          (v1, ie_buf) \<leftarrow> iobuf_pop_le24 ie_buf;
          (v2, ie_buf) \<leftarrow> iobuf_pop_u8 ie_buf;
          Some (\<not> rerr ie_buf, lbc_ie\<lparr>lbc_lfn_broadcast_interval := v1, lbc_broadcast_sync_period := v2\<rparr>) }"

section \<open>What the readers return\<close>

abbreviation wh_dec :: "u16 \<Rightarrow> (bool \<times> nat) option" where
  "wh_dec \<equiv> dec_plain IEEE802154_IE_ID_WH False IEEE802154_IE_HEADER_ID_MASK IEEE802154_IE_HEADER_LEN_MASK"

interpretation whsub: ie_subsearch
  "find_non_nested_loop IEEE802154_IE_ID_WH False IEEE802154_IE_HEADER_ID_MASK IEEE802154_IE_HEADER_LEN_MASK"
  wh_dec find_subid_loop False
  by unfold_locales (subst find_subid_loop.simps, auto simp: ieee802154_ie_find_header_def
      ieee802154_ie_find_non_nested_def Let_def intro!: Option.bind_cong)

text \<open>The bytes behind the sub id of the first header element with that sub id, if there is one.\<close>

definition wh_find :: "u8 list \<Rightarrow> u16 \<Rightarrow> u8 \<Rightarrow> u8 list option" where
  "wh_find data len subid = tlv_find wh_dec subid (take (unat len) data)"

lemma find_subid:
  assumes "unat len \<le> length data"
    and "\<And>b. wf_read b \<Longrightarrow> rview b = wh_find data len subid \<Longrightarrow> Q b"
  shows "gives (ws_wh_find_subid data len subid) Q"
proof -
  have "gives (find_subid_loop subid data len (int (unat len)))
      (\<lambda>b. wf_read b \<and> rview b = map_option (\<lambda>c. if False then subid # c else c)
        (tlv_find wh_dec subid (take (unat len) data)))"
    by (rule whsub.sub_refines [where tail = "drop (unat len) data"]) (use assms(1) in auto)
  then show ?thesis
    unfolding ws_wh_find_subid_def using assms(2) by (auto simp: wh_find_def option.map_ident elim!: gives_mono)
qed

lemma gives_eq: "gives m (\<lambda>r. r = x) \<longleftrightarrow> m = Some x"
  by (auto simp: gives_def)

text \<open>The number of \<open>n\<close> bytes at an offset of the content; 0 when the content is too short.\<close>

abbreviation num_at :: "u8 list option \<Rightarrow> nat \<Rightarrow> nat \<Rightarrow> 'a::len word" where
  "num_at s off n \<equiv> rnum le_val n (rskip off s)"

lemmas read_rules = gives_bind_pair gives_bind find_subid pop_u8_any pop_number_any

lemma utt_read:
  assumes "unat len \<le> length data"
  shows "ws_wh_utt_read data len u = (let s = wh_find data len WS_WHIE_UTT in
      Some (rskip 4 s \<noteq> None, u\<lparr>utt_message_type := num_at s 0 1, utt_ufsi := num_at s 1 3\<rparr>))"
  unfolding ws_wh_utt_read_def gives_eq [symmetric] Let_def
  by (intro read_rules assms) (assumption | simp add: rerr_rview rskip_0 eval_nat_numeral)+

lemma fc_read:
  assumes "unat len \<le> length data"
  shows "ws_wh_fc_read data len f = (let s = wh_find data len WS_WHIE_FC in
      Some (rskip 2 s \<noteq> None, f\<lparr>fc_tx_flow_ctrl := num_at s 0 1, fc_rx_flow_ctrl := num_at s 1 1\<rparr>))"
  unfolding ws_wh_fc_read_def gives_eq [symmetric] Let_def
  by (intro read_rules assms) (assumption | simp add: rerr_rview rskip_0 eval_nat_numeral)+

lemma lutt_read:
  assumes "unat len \<le> length data"
  shows "ws_wh_lutt_read data len l = (let s = wh_find data len WS_WHIE_LUTT in
      Some (rskip 6 s \<noteq> None, l\<lparr>lutt_message_type := num_at s 0 1, lutt_slot_number := num_at s 1 2, lutt_interval_offset := num_at s 3 3\<rparr>))"
  unfolding ws_wh_lutt_read_def gives_eq [symmetric] Let_def
  by (intro read_rules assms) (assumption | simp add: rerr_rview rskip_0 eval_nat_numeral)+

lemma lus_read:
  assumes "unat len \<le> length data"
  shows "ws_wh_lus_read data len l = (let s = wh_find data len WS_WHIE_LUS in
      Some (rskip 4 s \<noteq> None, l\<lparr>lus_listen_interval := num_at s 0 3, lus_channel_plan_tag := num_at s 3 1\<rparr>))"
  unfolding ws_wh_lus_read_def gives_eq [symmetric] Let_def
  by (intro read_rules assms) (assumption | simp add: rerr_rview rskip_0 eval_nat_numeral)+

lemma flus_read:
  assumes "unat len \<le> length data"
  shows "ws_wh_flus_read data len f = (let s = wh_find data len WS_WHIE_FLUS in
      Some (rskip 2 s \<noteq> None, f\<lparr>flus_dwell_interval := num_at s 0 1, flus_channel_plan_tag := num_at s 1 1\<rparr>))"
  unfolding ws_wh_flus_read_def gives_eq [symmetric] Let_def
  by (intro read_rules assms) (assumption | simp add: rerr_rview rskip_0 eval_nat_numeral)+

lemma lbt_read:
  assumes "unat len \<le> length data"
  shows "ws_wh_lbt_read data len l = (let s = wh_find data len WS_WHIE_LBT in
      Some (rskip 5 s \<noteq> None, l\<lparr>lbt_slot_number := num_at s 0 2, lbt_interval_offset := num_at s 2 3\<rparr>))"
  unfolding ws_wh_lbt_read_def gives_eq [symmetric] Let_def
  by (intro read_rules assms) (assumption | simp add: rerr_rview rskip_0 eval_nat_numeral)+

lemma lbs_read:
  assumes "unat len \<le> length data"
  shows "ws_wh_lbs_read data len l = (let s = wh_find data len WS_WHIE_LBS in
      Some (rskip 7 s \<noteq> None, l\<lparr>lbs_broadcast_interval := num_at s 0 3, lbs_broadcast_scheduler_id := num_at s 3 2, lbs_channel_plan_tag := num_at s 5 1, lbs_broadcast_sync_period := num_at s 6 1\<rparr>))"
  unfolding ws_wh_lbs_read_def gives_eq [symmetric] Let_def
  by (intro read_rules assms) (assumption | simp add: rerr_rview rskip_0 eval_nat_numeral)+

lemma lnd_read:
  assumes "unat len \<le> length data"
  shows "ws_wh_lnd_read data len l = (let s = wh_find data len WS_WHIE_LND in
      Some (rskip 8 s \<noteq> None, l\<lparr>lnd_response_threshold := num_at s 0 1, lnd_response_delay := num_at s 1 3, lnd_discovery_slot_time := num_at s 4 1, lnd_discovery_slots := num_at s 5 1, lnd_discovery_first_slot := num_at s 6 2\<rparr>))"
  unfolding ws_wh_lnd_read_def gives_eq [symmetric] Let_def
  by (intro read_rules assms) (assumption | simp add: rerr_rview rskip_0 eval_nat_numeral)+

lemma lto_read:
  assumes "unat len \<le> length data"
  shows "ws_wh_lto_read data len l = (let s = wh_find data len WS_WHIE_LTO in
      Some (rskip 6 s \<noteq> None, l\<lparr>lto_offset := num_at s 0 3, lto_adjusted_listening_interval := num_at s 3 3\<rparr>))"
  unfolding ws_wh_lto_read_def gives_eq [symmetric] Let_def
  by (intro read_rules assms) (assumption | simp add: rerr_rview rskip_0 eval_nat_numeral)+

lemma panid_read:
  assumes "unat len \<le> length data"
  shows "ws_wh_panid_read data len p = (let s = wh_find data len WS_WHIE_PANID in
      Some (rskip 2 s \<noteq> None, p\<lparr>panid_panid := num_at s 0 2\<rparr>))"
  unfolding ws_wh_panid_read_def gives_eq [symmetric] Let_def
  by (intro read_rules assms) (assumption | simp add: rerr_rview rskip_0 eval_nat_numeral)+

lemma lbc_read:
  assumes "unat len \<le> length data"
  shows "ws_wh_lbc_read data len l = (let s = wh_find data len WS_WHIE_LBC in
      Some (rskip 4 s \<noteq> None, l\<lparr>lbc_lfn_broadcast_interval := num_at s 0 3, lbc_broadcast_sync_period := num_at s 3 1\<rparr>))"
  unfolding ws_wh_lbc_read_def gives_eq [symmetric] Let_def
  by (intro read_rules assms) (assumption | simp add: rerr_rview rskip_0 eval_nat_numeral)+

lemma bt_read:
  assumes "unat len \<le> length data"
  shows "ws_wh_bt_read data len o' = (let s = wh_find data len WS_WHIE_BT in
      Some (rskip 4 s \<noteq> None, o'\<lparr>bt_broadcast_slot_number := num_at s 0 2,
        bt_broadcast_interval_offset := ucast (num_at s 2 2 :: u16)\<rparr>))"
  unfolding ws_wh_bt_read_def gives_eq [symmetric] Let_def
  by (intro read_rules assms) (assumption | simp add: rerr_rview rskip_0 eval_nat_numeral)+

lemma rsl_read:
  assumes "unat len \<le> length data"
  shows "ws_wh_rsl_read data len = (let s = wh_find data len WS_WHIE_RSL in Some (rskip 1 s \<noteq> None, num_at s 0 1))"
  unfolding ws_wh_rsl_read_def gives_eq [symmetric] Let_def
  by (intro read_rules assms) (assumption | simp add: rerr_rview rskip_0 eval_nat_numeral)+

lemma ea_read:
  assumes "unat len \<le> length data" and "length eui64 = 8"
  shows "ws_wh_ea_read data len eui64 = (let s = wh_find data len WS_WHIE_EA in Some (rskip 8 s \<noteq> None, Some (rdat 8 s)))"
  unfolding ws_wh_ea_read_def gives_eq [symmetric] Let_def
  by (intro read_rules pop_data_any assms) (assumption | simp add: rerr_rview assms)+

lemma nr_read:
  assumes "unat len \<le> length data"
  shows "ws_wh_nr_read data len n = (let s = wh_find data len WS_WHIE_NR;
       role = ucast (FIELD_GET WS_WHIE_NR_NODE_ROLE_ID_MASK (ucast (num_at s 0 1 :: u8)));
       n = n\<lparr>nr_node_role := role, nr_clock_drift := num_at s 1 1, nr_timing_accuracy := num_at s 2 1\<rparr> in
     Some (if role = WS_NR_ROLE_LFN
       then (rskip 9 s \<noteq> None, n\<lparr>nr_listen_interval_min := num_at s 3 3, nr_listen_interval_max := num_at s 6 3\<rparr>)
       else (rskip 3 s \<noteq> None, n)))"
proof -
  define s where "s = wh_find data len WS_WHIE_NR"
  define role :: "u8 \<Rightarrow> u8" where "role v = ucast (FIELD_GET WS_WHIE_NR_NODE_ROLE_ID_MASK (ucast v))" for v
  have nr: "nr_node_role (n\<lparr>nr_node_role := a, nr_clock_drift := b, nr_timing_accuracy := c\<rparr>) = a" for a b c
    by simp
  show ?thesis
    unfolding ws_wh_nr_read_def Let_def s_def [symmetric] role_def [symmetric] gives_eq [symmetric] nr
    by (intro read_rules gives_if assms)
       (assumption | simp add: rerr_rview rskip_0 s_def eval_nat_numeral)+
qed

section \<open>What the writers write\<close>

datatype wh_ie = WH_utt u8 | WH_bt | WH_fc u8 u8 | WH_rsl u8 | WH_ea "u8 list" | WH_lutt u8
  | WH_lus ws_lus_ie | WH_flus u32 u8 | WH_lbt ws_lbt_ie | WH_lbs u32 u16 u8 u8 | WH_lbc u32 u8
  | WH_nr u8 u8 u8 u32 u32 | WH_lnd ws_lnd_ie | WH_lto ws_lto_ie | WH_panid u16

fun wh_write :: "iobuf_write \<Rightarrow> wh_ie \<Rightarrow> iobuf_write option" where
  "wh_write b (WH_utt m) = ws_wh_utt_write b m"
| "wh_write b WH_bt = ws_wh_bt_write b"
| "wh_write b (WH_fc t r) = ws_wh_fc_write b t r"
| "wh_write b (WH_rsl r) = ws_wh_rsl_write b r"
| "wh_write b (WH_ea e) = ws_wh_ea_write b e"
| "wh_write b (WH_lutt m) = ws_wh_lutt_write b m"
| "wh_write b (WH_lus l) = ws_wh_lus_write b l"
| "wh_write b (WH_flus d t) = ws_wh_flus_write b d t"
| "wh_write b (WH_lbt l) = ws_wh_lbt_write b l"
| "wh_write b (WH_lbs i d t p) = ws_wh_lbs_write b i d t p"
| "wh_write b (WH_lbc i p) = ws_wh_lbc_write b i p"
| "wh_write b (WH_nr r c t l h) = ws_wh_nr_write b r c t l h"
| "wh_write b (WH_lnd l) = ws_wh_lnd_write b l"
| "wh_write b (WH_lto l) = ws_wh_lto_write b l"
| "wh_write b (WH_panid p) = ws_wh_panid_write b p"

fun wh_subid :: "wh_ie \<Rightarrow> u8" where
  "wh_subid (WH_utt _) = WS_WHIE_UTT"
| "wh_subid WH_bt = WS_WHIE_BT"
| "wh_subid (WH_fc _ _) = WS_WHIE_FC"
| "wh_subid (WH_rsl _) = WS_WHIE_RSL"
| "wh_subid (WH_ea _) = WS_WHIE_EA"
| "wh_subid (WH_lutt _) = WS_WHIE_LUTT"
| "wh_subid (WH_lus _) = WS_WHIE_LUS"
| "wh_subid (WH_flus _ _) = WS_WHIE_FLUS"
| "wh_subid (WH_lbt _) = WS_WHIE_LBT"
| "wh_subid (WH_lbs _ _ _ _) = WS_WHIE_LBS"
| "wh_subid (WH_lbc _ _) = WS_WHIE_LBC"
| "wh_subid (WH_nr _ _ _ _ _) = WS_WHIE_NR"
| "wh_subid (WH_lnd _) = WS_WHIE_LND"
| "wh_subid (WH_lto _) = WS_WHIE_LTO"
| "wh_subid (WH_panid _) = WS_WHIE_PANID"

text \<open>The content behind the sub id.\<close>

fun wh_fields :: "wh_ie \<Rightarrow> field list" where
  "wh_fields (WH_utt m) = [F_u8 m, F_le24 0]"
| "wh_fields WH_bt = [F_le16 0, F_le24 0]"
| "wh_fields (WH_fc t r) = [F_u8 t, F_u8 r]"
| "wh_fields (WH_rsl r) = [F_u8 r]"
| "wh_fields (WH_ea e) = [F_data (take 8 e)]"
| "wh_fields (WH_lutt m) = [F_u8 m, F_le16 0, F_le24 0]"
| "wh_fields (WH_lus l) = [F_le24 (lus_listen_interval l), F_u8 (lus_channel_plan_tag l)]"
| "wh_fields (WH_flus d t) = [F_u8 (ucast d), F_u8 t]"
| "wh_fields (WH_lbt l) = [F_le16 0, F_le24 0]"
| "wh_fields (WH_lbs i d t p) = [F_le24 i, F_le16 d, F_u8 t, F_u8 p]"
| "wh_fields (WH_lbc i p) = [F_le24 i, F_u8 p]"
| "wh_fields (WH_nr r c t l h) =
     [F_u8 (ucast (FIELD_PREP WS_WHIE_NR_NODE_ROLE_ID_MASK (ucast r))), F_u8 c, F_u8 t] @
     (if r = WS_NR_ROLE_LFN then [F_le24 l, F_le24 h] else [])"
| "wh_fields (WH_lnd l) = [F_u8 (lnd_response_threshold l), F_le24 0, F_u8 (lnd_discovery_slot_time l),
     F_u8 (lnd_discovery_slots l), F_le16 0]"
| "wh_fields (WH_lto l) = [F_le24 (lto_offset l), F_le24 (lto_adjusted_listening_interval l)]"
| "wh_fields (WH_panid p) = [F_le16 p]"

definition wh_content :: "wh_ie \<Rightarrow> u8 list" where
  "wh_content x = wh_subid x # concat (map field_bytes (wh_fields x))"

text \<open>Arguments within their width: three byte numbers, an eight byte address, a three bit role.\<close>

fun wh_ok :: "wh_ie \<Rightarrow> bool" where
  "wh_ok (WH_ea e) \<longleftrightarrow> length e = 8"
| "wh_ok (WH_nr r c t l h) \<longleftrightarrow> unat r < 8 \<and> unat l < 2 ^ 24 \<and> unat h < 2 ^ 24"
| "wh_ok x \<longleftrightarrow> list_all field_ok (wh_fields x)"

lemma length_wh_content: "length (wh_content x) < 32"
  by (cases x) (auto simp: wh_content_def)

lemma header_base_write:
  assumes "wf_write buf"
    and "\<And>b. wf_write b \<Longrightarrow> wbytes b = wbytes buf @ le_bytes 2 (unat (descr IEEE802154_IE_HEADER_ID_MASK
      IEEE802154_IE_HEADER_LEN_MASK False IEEE802154_IE_ID_WH 0)) @ [ty] \<Longrightarrow> gives (f (wlen buf) b) Q"
  shows "gives (ws_wh_header_base_write buf ty \<bind> (\<lambda>(off, b). f off b)) Q"
  unfolding ws_wh_header_base_write_def ieee802154_ie_push_header_def
  by (intro gives_bind_pair gives_bind hdr.gives_push_hdr gives_pushes [OF push_u8] assms(1))
     (simp_all add: assms(2))

lemma header_fill:
  assumes "wf_write b" and "wf_write buf"
    and "wbytes b = wbytes buf @ le_bytes 2 (unat (descr IEEE802154_IE_HEADER_ID_MASK
      IEEE802154_IE_HEADER_LEN_MASK False IEEE802154_IE_ID_WH 0)) @ wh_content x"
  shows "gives (ieee802154_ie_fill_len_header b (wlen buf)) (\<lambda>b. wf_write b \<and>
    wbytes b = wbytes buf @ ie_bytes IEEE802154_IE_HEADER_ID_MASK IEEE802154_IE_HEADER_LEN_MASK False
      IEEE802154_IE_ID_WH (wh_content x))"
  unfolding ieee802154_ie_fill_len_header_def
  by (rule hdr.gives_fill [OF assms]) (use length_wh_content [of x] in simp_all)

lemmas wh_write_defs = ws_wh_utt_write_def ws_wh_bt_write_def ws_wh_fc_write_def ws_wh_rsl_write_def
  ws_wh_ea_write_def ws_wh_lutt_write_def ws_wh_lus_write_def ws_wh_flus_write_def ws_wh_lbt_write_def
  ws_wh_lbs_write_def ws_wh_lbc_write_def ws_wh_nr_write_def ws_wh_lnd_write_def ws_wh_lto_write_def
  ws_wh_panid_write_def

lemmas write_rules = header_base_write gives_bind gives_push

lemma nr_write_pushes:
  assumes "wf_write buf"
  shows "pushes (ws_wh_nr_write buf r c t l h) buf (ie_bytes IEEE802154_IE_HEADER_ID_MASK
      IEEE802154_IE_HEADER_LEN_MASK False IEEE802154_IE_ID_WH (wh_content (WH_nr r c t l h)))"
proof (cases "r = WS_NR_ROLE_LFN")
  case True
  then show ?thesis
    unfolding pushes_gives ws_wh_nr_write_def
    by simp (intro write_rules header_fill assms; (assumption | simp add: wh_content_def))
next
  case False
  then show ?thesis
    unfolding pushes_gives ws_wh_nr_write_def
    by simp (intro write_rules header_fill assms; (assumption | simp add: wh_content_def))
qed

lemma wh_write_pushes:
  assumes "wf_write buf" and "wh_ok x"
  shows "pushes (wh_write buf x) buf (ie_bytes IEEE802154_IE_HEADER_ID_MASK IEEE802154_IE_HEADER_LEN_MASK False
      IEEE802154_IE_ID_WH (wh_content x))"
proof (cases "\<exists>r c t l h. x = WH_nr r c t l h")
  case True
  then show ?thesis using nr_write_pushes [OF assms(1)] by auto
next
  case False
  then show ?thesis
    using assms(2)
    by (cases x; simp only: pushes_gives wh_write.simps wh_write_defs wh_ie.distinct wh_ie.inject simp_thms ex_simps;
        intro write_rules header_fill assms; (assumption | simp add: wh_content_def))
qed

section \<open>Round trip\<close>

text \<open>What the reader of an element written returns, for every old value of its output structure.\<close>

fun wh_received :: "wh_ie \<Rightarrow> u8 list \<Rightarrow> u16 \<Rightarrow> bool" where
  "wh_received (WH_utt m) d n \<longleftrightarrow> (\<forall>e. ws_wh_utt_read d n e = Some (True, e\<lparr>utt_message_type := m, utt_ufsi := 0\<rparr>))"
| "wh_received WH_bt d n \<longleftrightarrow> (\<forall>e. ws_wh_bt_read d n e =
     Some (True, e\<lparr>bt_broadcast_slot_number := 0, bt_broadcast_interval_offset := 0\<rparr>))"
| "wh_received (WH_fc t r) d n \<longleftrightarrow> (\<forall>e. ws_wh_fc_read d n e = Some (True, e\<lparr>fc_tx_flow_ctrl := t, fc_rx_flow_ctrl := r\<rparr>))"
| "wh_received (WH_rsl r) d n \<longleftrightarrow> ws_wh_rsl_read d n = Some (True, r)"
| "wh_received (WH_ea a) d n \<longleftrightarrow> ws_wh_ea_read d n (replicate 8 0) = Some (True, Some a)"
| "wh_received (WH_lutt m) d n \<longleftrightarrow> (\<forall>e. ws_wh_lutt_read d n e =
     Some (True, e\<lparr>lutt_message_type := m, lutt_slot_number := 0, lutt_interval_offset := 0\<rparr>))"
| "wh_received (WH_lus l) d n \<longleftrightarrow> (\<forall>e. ws_wh_lus_read d n e = Some (True, l))"
| "wh_received (WH_flus w t) d n \<longleftrightarrow> (\<forall>e. ws_wh_flus_read d n e =
     Some (True, e\<lparr>flus_dwell_interval := ucast w, flus_channel_plan_tag := t\<rparr>))"
| "wh_received (WH_lbt l) d n \<longleftrightarrow> (\<forall>e. ws_wh_lbt_read d n e =
     Some (True, e\<lparr>lbt_slot_number := 0, lbt_interval_offset := 0\<rparr>))"
| "wh_received (WH_lbs i j t p) d n \<longleftrightarrow> (\<forall>e. ws_wh_lbs_read d n e =
     Some (True, e\<lparr>lbs_broadcast_interval := i, lbs_broadcast_scheduler_id := j, lbs_channel_plan_tag := t,
       lbs_broadcast_sync_period := p\<rparr>))"
| "wh_received (WH_lbc i p) d n \<longleftrightarrow> (\<forall>e. ws_wh_lbc_read d n e =
     Some (True, e\<lparr>lbc_lfn_broadcast_interval := i, lbc_broadcast_sync_period := p\<rparr>))"
| "wh_received (WH_nr r c t l h) d n \<longleftrightarrow> (\<forall>e. ws_wh_nr_read d n e = Some (True,
     if r = WS_NR_ROLE_LFN
     then e\<lparr>nr_node_role := r, nr_clock_drift := c, nr_timing_accuracy := t,
            nr_listen_interval_min := l, nr_listen_interval_max := h\<rparr>
     else e\<lparr>nr_node_role := r, nr_clock_drift := c, nr_timing_accuracy := t\<rparr>))"
| "wh_received (WH_lnd l) d n \<longleftrightarrow> (\<forall>e. ws_wh_lnd_read d n e =
     Some (True, l\<lparr>lnd_response_delay := 0, lnd_discovery_first_slot := 0\<rparr>))"
| "wh_received (WH_lto l) d n \<longleftrightarrow> (\<forall>e. ws_wh_lto_read d n e = Some (True, l))"
| "wh_received (WH_panid p) d n \<longleftrightarrow> (\<forall>e. ws_wh_panid_read d n e = Some (True, e\<lparr>panid_panid := p\<rparr>))"

lemma role_round_trip:
  assumes "unat (r :: u8) < 8"
  shows "(ucast (FIELD_GET WS_WHIE_NR_NODE_ROLE_ID_MASK
    (ucast (ucast (FIELD_PREP WS_WHIE_NR_NODE_ROLE_ID_MASK (ucast r)) :: u8))) :: u8) = r"
proof -
  have m: "WS_WHIE_NR_NODE_ROLE_ID_MASK = mask 3" "ctz (mask 3) = 0" by code_simp+
  have "take_bit 3 r = r"
    using assms by (simp add: word_unat_eq_iff unsigned_take_bit_eq take_bit_nat_eq_self_iff)
  then have "i < 3" if "bit r i" for i
    using that by (metis bit_take_bit_iff)
  then show ?thesis
    by (intro bit_word_eqI) (auto simp: FIELD_GET_def FIELD_PREP_def m bit_simps not_le)
qed

lemma bt_offset_zero: "rnum le_val 2 (Some (le_bytes 3 0)) = (0 :: u16)"
  by code_simp

lemmas num_simps = rnum_enc rnum_enc(1) [unfolded One_nat_def] bt_offset_zero rnum_enc(2) [of _ "[]", simplified] rnum_enc(3) [of _ "[]", simplified]
  rnum_enc(2) [of 0, simplified] rnum_enc(3) [of 0, simplified]
  rnum_enc(2) [of 0 "[]", simplified] rnum_enc(3) [of 0 "[]", simplified]

lemmas wh_reads = utt_read bt_read fc_read rsl_read ea_read lutt_read lus_read flus_read lbt_read lbs_read
  lbc_read nr_read lnd_read lto_read panid_read

lemma wh_received:
  assumes "unat n \<le> length d" and "wh_find d n (wh_subid x) = Some (concat (map field_bytes (wh_fields x)))"
    and "wh_ok x"
  shows "wh_received x d n"
proof (cases "\<exists>r c t l h. x = WH_nr r c t l h")
  case True
  then obtain r c t l h where x: "x = WH_nr r c t l h" by auto
  show ?thesis
  proof (cases "r = WS_NR_ROLE_LFN")
    case True
    then show ?thesis
      using assms(2,3) x by (simp add: nr_read [OF assms(1)] num_simps role_round_trip Let_def)
  next
    case False
    then show ?thesis
      using assms(2,3) x by (simp add: nr_read [OF assms(1)] num_simps role_round_trip Let_def)
  qed
next
  case False
  then show ?thesis
    using assms(2,3)
    by (cases x) (simp_all add: wh_reads [OF assms(1)] num_simps rdat_def take_bytes_def)
qed

lemma wh_found:
  assumes "list_all wh_ok xs" and "length xs \<le> 1000" and "find (\<lambda>y. wh_subid y = k) xs = Some x"
  shows "\<exists>w. push_all wh_write iobuf_init xs = Some w \<and> wlen w < 65536 \<and> wlen w \<le> length (wdata w) \<and>
    wh_find (wdata w) (word_of_nat (wlen w)) k = Some (concat (map field_bytes (wh_fields x)))"
proof -
  let ?d = "\<lambda>x. descr IEEE802154_IE_HEADER_ID_MASK IEEE802154_IE_HEADER_LEN_MASK False IEEE802154_IE_ID_WH (length (wh_content x))"
  let ?g = "\<lambda>x. le_bytes 2 (unat (?d x)) @ wh_content x"
  have "pushes (wh_write b x) b (?g x)" if "wf_write b" "x \<in> set xs" for b x
    using wh_write_pushes [OF that(1), of x] assms(1) that(2) by (simp add: list_all_iff ie_bytes_def)
  then obtain w where w: "push_all wh_write iobuf_init xs = Some w" "wf_write w" "wbytes w = concat (map ?g xs)"
    using push_all [of xs wh_write ?g iobuf_init] by (auto simp: pushes_def)
  have "\<forall>x \<in> set xs. length (?g x) \<le> 34"
    using length_wh_content less_imp_le [of "length (wh_content _)" 32] by fastforce
  then have "length (concat (map ?g xs)) \<le> 34 * length xs" by (rule concat_bound)
  moreover have l: "wlen w = length (concat (map ?g xs))" "wlen w \<le> length (wdata w)"
    using w(2,3) by (auto simp: wf_write_def wbytes_def dest!: arg_cong [where f = length])
  ultimately have small: "wlen w < 65536" using assms(2) by linarith
  have "wh_dec (?d x) = Some (True, length (wh_content x))" for x
    using length_wh_content [of x] unat_u8_lt
    by (simp add: dec_plain_def hdr.get_type_descr hdr.get_id_descr_eq hdr.get_len_descr)
  then have "tlv_find wh_dec k (concat (map ?g xs)) =
      map_option (\<lambda>x. tl (wh_content x)) (find (\<lambda>x. True \<and> hd (wh_content x) = k) xs)"
    by (intro tlv_stream) (auto simp: wh_content_def)
  then have "tlv_find wh_dec k (concat (map ?g xs)) = Some (concat (map field_bytes (wh_fields x)))"
    using assms(3) by (simp add: wh_content_def)
  moreover have "take (wlen w) (wdata w) = concat (map ?g xs)" using w(3) by (simp add: wbytes_def)
  moreover have "unat (word_of_nat (wlen w) :: u16) = wlen w"
    using small by (simp add: unsigned_of_nat take_bit_nat_eq_self_iff)
  ultimately show ?thesis using w(1) l(2) small by (auto simp: wh_find_def)
qed

section \<open>Properties\<close>



text \<open>
  C29. What the writers of the Wi-SUN header elements put into a frame, the readers get out of it:
  for any sequence of elements written with \<open>ws_wh_*_write\<close>, the reader of a kind returns true
  and the fields of the first element of that kind, with zero in the fields the radio fills in.
  The writers do not abort.
\<close>

theorem ws_wh_round_trip:
  assumes "list_all wh_ok xs" and "length xs \<le> 1000" and "find (\<lambda>y. wh_subid y = wh_subid x) xs = Some x"
  shows "\<exists>w. push_all wh_write iobuf_init xs = Some w \<and> wlen w < 65536 \<and>
    wh_received x (wdata w) (word_of_nat (wlen w))"
proof -
  obtain w where w: "push_all wh_write iobuf_init xs = Some w" "wlen w < 65536" "wlen w \<le> length (wdata w)"
      "wh_find (wdata w) (word_of_nat (wlen w)) (wh_subid x) = Some (concat (map field_bytes (wh_fields x)))"
    using wh_found [OF assms] by auto
  have "wh_ok x" using assms(1,3) by (auto simp: find_Some_iff list_all_iff)
  moreover have "unat (word_of_nat (wlen w) :: u16) \<le> length (wdata w)"
    using w(2,3) by (simp add: unsigned_of_nat take_bit_nat_eq_self)
  ultimately have "wh_received x (wdata w) (word_of_nat (wlen w))" using w(4) by (intro wh_received)
  then show ?thesis using w(1,2) by blast
qed

theorem ws_wh_round_trip_witness:
  "\<exists>w. push_all wh_write iobuf_init [WH_utt 4, WH_nr 2 5 6 7 0x10000, WH_fc 8 9] = Some w \<and> wlen w < 65536 \<and>
    (\<forall>e. ws_wh_nr_read (wdata w) (word_of_nat (wlen w)) e = Some (True, e\<lparr>nr_node_role := 2, nr_clock_drift := 5,
       nr_timing_accuracy := 6, nr_listen_interval_min := 7, nr_listen_interval_max := 0x10000\<rparr>))"
  using ws_wh_round_trip [of "[WH_utt 4, WH_nr 2 5 6 7 0x10000, WH_fc 8 9]" "WH_nr 2 5 6 7 0x10000"]
  by (simp add: whie_defs WS_NR_ROLE_LFN_def)

end
