(* ===== verification/WsWpIe.thy ===== *)
theory WsWpIe
  imports Wp
begin

text \<open>
  The Wi-SUN nested payload information elements of \<open>src/stack/source/6lowpan/ws/ws_ie_lib.c\<close>:
  schedules, PAN description, group key hashes, operating modes, join metrics and LFN elements,
  with their structures from \<open>ws_common_defines.h\<close>. Bit fields of a structure are bytes holding
  values of the width of the field; the unions of the channel description are datatypes whose
  constructors are their members. A pointer into the received frame is the frame from there on
  (\<open>None\<close> for the null pointer). \<open>BUG()\<close>, which aborts, is \<open>None\<close>.
\<close>

section \<open>Structures\<close>

record ws_excluded_channel_range_data =
  range_start :: u16
  range_end :: u16

record ws_excluded_channel_data =
  ex_excluded_channel_ctrl :: u8
  ex_excluded_range_length :: u8
  ex_excluded_range :: "ws_excluded_channel_range_data list"
  ex_excluded_channel_count :: u16
  ex_channel_mask_bytes_inline :: u8
  ex_channel_mask :: "u8 list"

record ws_hopping_schedule =
  fhss_uc_dwell_interval :: u8
  fhss_bc_dwell_interval :: u8
  regulatory_domain :: u8
  operating_class :: u8
  operating_mode :: u8
  phy_mode_id :: u8
  phy_op_modes :: "u8 list"
  rcp_rail_config_index :: int
  channel_plan_id :: u8
  channel_plan :: u8
  uc_channel_function :: u8
  bc_channel_function :: u8
  channel_spacing :: u8
  number_of_channels :: u8
  clock_drift :: u8
  timing_accuracy :: u8
  uc_fixed_channel :: u16
  bc_fixed_channel :: u16
  fhss_bsi :: u16
  fhss_broadcast_interval :: u32
  ch0_freq :: u32
  uc_excluded_channels :: ws_excluded_channel_data
  bc_excluded_channels :: ws_excluded_channel_data

record ws_pan_information =
  pan_size :: u16
  pan_jm_version :: u8
  pan_jm_plf :: u8
  pan_routing_cost :: u16
  pan_pan_version :: u16
  pan_lpan_version :: u16
  pan_use_parent_bs :: bool
  pan_rpl_routing_method :: bool
  pan_pan_version_set :: bool
  pan_lpan_version_set :: bool
  pan_lfn_window_style :: bool
  pan_version :: u8

record ws_pom_ie =
  pom_phy_op_mode_number :: u8
  pom_mdr_command_capable :: u8
  pom_phy_op_mode_id :: "u8 list option"

record ws_lfnver_ie =
  lfnver_lfn_version :: u16

record ws_lbats_ie =
  lbats_additional_transmissions :: u8
  lbats_next_transmit_delay :: u16

record ws_wp_netname =
  network_name :: "u8 list"
  network_name_length :: u8

datatype ws_channel_plan =
    Plan_zero (zero_regulatory_domain: u8) (zero_operating_class: u8)
  | Plan_one (one_ch0: u32) (one_channel_spacing: u8) (one_number_of_channel: u16)
  | Plan_two (two_regulatory_domain: u8) (two_channel_plan_id: u8)

datatype ws_channel_function =
    Function_zero (fixed_channel: u16)
  | Function_three (channel_hop_count: u8) (channel_list: "u8 list option")

datatype ws_excluded_channel =
    Excluded_range (number_of_range: u8) (excl_range_start: "u8 list option")
  | Excluded_mask (channel_mask: "u8 list option") (mask_len_inline: u8)

record ws_generic_channel_info =
  gc_channel_plan :: u8
  gc_channel_function :: u8
  gc_excluded_channel_ctrl :: u8
  gc_plan :: ws_channel_plan
  gc_function :: ws_channel_function
  gc_excluded_channels :: ws_excluded_channel

record ws_lcp_ie =
  lcp_lfn_channel_plan_tag :: u8
  lcp_chan_plan :: ws_generic_channel_info

record ws_us_ie =
  us_dwell_interval :: u8
  us_clock_drift :: u8
  us_timing_accuracy :: u8
  us_chan_plan :: ws_generic_channel_info

record ws_bs_ie =
  bs_broadcast_interval :: u32
  bs_broadcast_schedule_identifier :: u16
  bs_dwell_interval :: u8
  bs_clock_drift :: u8
  bs_timing_accuracy :: u8
  bs_chan_plan :: ws_generic_channel_info

section \<open>Constants\<close>

definition WS_WPIE_PAN :: u8 where "WS_WPIE_PAN = 0x04"
definition WS_WPIE_NETNAME :: u8 where "WS_WPIE_NETNAME = 0x05"
definition WS_WPIE_PANVER :: u8 where "WS_WPIE_PANVER = 0x06"
definition WS_WPIE_GTKHASH :: u8 where "WS_WPIE_GTKHASH = 0x07"
definition WS_WPIE_POM :: u8 where "WS_WPIE_POM = 0x08"
definition WS_WPIE_LBATS :: u8 where "WS_WPIE_LBATS = 0x09"
definition WS_WPIE_JM :: u8 where "WS_WPIE_JM = 0x0A"
definition WS_WPIE_LFNVER :: u8 where "WS_WPIE_LFNVER = 0x40"
definition WS_WPIE_LGTKHASH :: u8 where "WS_WPIE_LGTKHASH = 0x41"
definition WS_WPIE_US :: u8 where "WS_WPIE_US = 0x01"
definition WS_WPIE_BS :: u8 where "WS_WPIE_BS = 0x02"
definition WS_WPIE_LCP :: u8 where "WS_WPIE_LCP = 0x04"
definition WS_JM_PLF :: u16 where "WS_JM_PLF = 1"
definition WS_FAN_VERSION_1_0 :: u8 where "WS_FAN_VERSION_1_0 = 1"

definition CHANNEL_FUNCTION_FIXED :: u8 where "CHANNEL_FUNCTION_FIXED = 0"
definition CHANNEL_FUNCTION_TR51CF :: u8 where "CHANNEL_FUNCTION_TR51CF = 1"
definition CHANNEL_FUNCTION_DH1CF :: u8 where "CHANNEL_FUNCTION_DH1CF = 2"
definition WS_EXC_CHAN_CTRL_NONE :: u8 where "WS_EXC_CHAN_CTRL_NONE = 0"
definition WS_EXC_CHAN_CTRL_RANGE :: u8 where "WS_EXC_CHAN_CTRL_RANGE = 1"
definition WS_EXC_CHAN_CTRL_BITMASK :: u8 where "WS_EXC_CHAN_CTRL_BITMASK = 2"

definition WS_WPIE_SCHEDULE_CHAN_PLAN_MASK :: u16 where "WS_WPIE_SCHEDULE_CHAN_PLAN_MASK = 0x07"
definition WS_WPIE_SCHEDULE_CHAN_FUNC_MASK :: u16 where "WS_WPIE_SCHEDULE_CHAN_FUNC_MASK = 0x38"
definition WS_WPIE_SCHEDULE_EXCL_CHAN_CTL_MASK :: u16 where "WS_WPIE_SCHEDULE_EXCL_CHAN_CTL_MASK = 0xC0"
definition WS_WPIE_PAN_USE_PARENT_BS_IE_MASK :: u16 where "WS_WPIE_PAN_USE_PARENT_BS_IE_MASK = 0x01"
definition WS_WPIE_PAN_ROUTING_METHOD_MASK :: u16 where "WS_WPIE_PAN_ROUTING_METHOD_MASK = 0x02"
definition WS_WPIE_PAN_LFN_WINDOW_STYLE_MASK :: u16 where "WS_WPIE_PAN_LFN_WINDOW_STYLE_MASK = 0x04"
definition WS_WPIE_PAN_FAN_TPS_VERSION_MASK :: u16 where "WS_WPIE_PAN_FAN_TPS_VERSION_MASK = 0xE0"
definition WS_WPIE_POM_PHY_OP_MODE_NUMBER_MASK :: u16 where "WS_WPIE_POM_PHY_OP_MODE_NUMBER_MASK = 0x0F"
definition WS_WPIE_POM_MDR_CAPABLE_MASK :: u16 where "WS_WPIE_POM_MDR_CAPABLE_MASK = 0x10"
definition WS_WPIE_LGTKHASH_INCLUDE_LGTK0_MASK :: u16 where "WS_WPIE_LGTKHASH_INCLUDE_LGTK0_MASK = 0x01"
definition WS_WPIE_LGTKHASH_INCLUDE_LGTK1_MASK :: u16 where "WS_WPIE_LGTKHASH_INCLUDE_LGTK1_MASK = 0x02"
definition WS_WPIE_LGTKHASH_INCLUDE_LGTK2_MASK :: u16 where "WS_WPIE_LGTKHASH_INCLUDE_LGTK2_MASK = 0x04"
definition WS_WPIE_LGTKHASH_ACTIVE_INDEX_MASK :: u16 where "WS_WPIE_LGTKHASH_ACTIVE_INDEX_MASK = 0x18"
definition WS_WPIE_JM_METRIC_ID_MASK :: u16 where "WS_WPIE_JM_METRIC_ID_MASK = 0xFC"
definition WS_WPIE_JM_METRIC_LEN_MASK :: u16 where "WS_WPIE_JM_METRIC_LEN_MASK = 0x03"

lemmas wpie_defs = WS_WPIE_PAN_def WS_WPIE_NETNAME_def WS_WPIE_PANVER_def WS_WPIE_GTKHASH_def WS_WPIE_POM_def
  WS_WPIE_LBATS_def WS_WPIE_JM_def WS_WPIE_LFNVER_def WS_WPIE_LGTKHASH_def WS_WPIE_US_def WS_WPIE_BS_def
  WS_WPIE_LCP_def

lemmas chan_consts = CHANNEL_FUNCTION_FIXED_def CHANNEL_FUNCTION_TR51CF_def CHANNEL_FUNCTION_DH1CF_def
  WS_EXC_CHAN_CTRL_NONE_def WS_EXC_CHAN_CTRL_RANGE_def WS_EXC_CHAN_CTRL_BITMASK_def

text \<open>The two macros on a \<open>uint8_t\<close>, which C promotes and truncates again.\<close>

definition prep8 :: "u16 \<Rightarrow> u8 \<Rightarrow> u8" where
  "prep8 m v = ucast (FIELD_PREP m (ucast v))"

definition get8 :: "u16 \<Rightarrow> u8 \<Rightarrow> u8" where
  "get8 m v = ucast (FIELD_GET m (ucast v))"

section \<open>Length of a schedule\<close>

definition ws_chan_plan_len :: "ws_hopping_schedule \<Rightarrow> u16 option" where
  "ws_chan_plan_len hs =
     (if channel_plan hs = 0 then Some 2
      else if channel_plan hs = 1 then Some 6
      else if channel_plan hs = 2 then Some 2
      else None)"

definition ws_chan_func_len :: "ws_hopping_schedule \<Rightarrow> bool \<Rightarrow> u16 option" where
  "ws_chan_func_len hs unicast =
     (let chan_func = (if unicast then uc_channel_function hs else bc_channel_function hs) in
      if chan_func = CHANNEL_FUNCTION_FIXED then Some 2
      else if chan_func = CHANNEL_FUNCTION_DH1CF \<or> chan_func = CHANNEL_FUNCTION_TR51CF then Some 0
      else None)"

definition ws_chan_excl_len :: "ws_hopping_schedule \<Rightarrow> bool \<Rightarrow> u16 option" where
  "ws_chan_excl_len hs unicast =
     (let excl = (if unicast then uc_excluded_channels hs else bc_excluded_channels hs) in
      if ex_excluded_channel_ctrl excl = WS_EXC_CHAN_CTRL_RANGE then Some (1 + 4 * ucast (ex_excluded_range_length excl))
      else if ex_excluded_channel_ctrl excl = WS_EXC_CHAN_CTRL_BITMASK then Some (ucast (ex_channel_mask_bytes_inline excl))
      else if ex_excluded_channel_ctrl excl = WS_EXC_CHAN_CTRL_NONE then Some 0
      else None)"

definition ws_wp_nested_hopping_schedule_length :: "ws_hopping_schedule \<Rightarrow> bool \<Rightarrow> u16 option" where
  "ws_wp_nested_hopping_schedule_length hs unicast =
     do { let len = (if unicast then 3 else 9);
          let len = len + 1;
          plan \<leftarrow> ws_chan_plan_len hs;
          let len = len + plan;
          func \<leftarrow> ws_chan_func_len hs unicast;
          let len = len + func;
          excl \<leftarrow> ws_chan_excl_len hs unicast;
          Some (len + excl) }"

section \<open>Writers\<close>

definition ws_wp_schedule_base_write :: "iobuf_write \<Rightarrow> ws_hopping_schedule \<Rightarrow> bool \<Rightarrow> iobuf_write option" where
  "ws_wp_schedule_base_write buf hs unicast =
     (let excl = (if unicast then uc_excluded_channels hs else bc_excluded_channels hs);
          func = (if unicast then uc_channel_function hs else bc_channel_function hs);
          tmp8 = prep8 WS_WPIE_SCHEDULE_CHAN_PLAN_MASK (channel_plan hs);
          tmp8 = tmp8 OR prep8 WS_WPIE_SCHEDULE_CHAN_FUNC_MASK func;
          tmp8 = tmp8 OR prep8 WS_WPIE_SCHEDULE_EXCL_CHAN_CTL_MASK (ex_excluded_channel_ctrl excl)
      in iobuf_push_u8 buf tmp8)"

definition ws_wp_chan_plan_write :: "iobuf_write \<Rightarrow> ws_hopping_schedule \<Rightarrow> iobuf_write option" where
  "ws_wp_chan_plan_write buf hs =
     (if channel_plan hs = 0 then
        do { buf \<leftarrow> iobuf_push_u8 buf (regulatory_domain hs);
             iobuf_push_u8 buf (operating_class hs) }
      else if channel_plan hs = 1 then
        do { buf \<leftarrow> iobuf_push_le24 buf (ch0_freq hs div 1000);
             buf \<leftarrow> iobuf_push_u8 buf (channel_spacing hs);
             iobuf_push_le16 buf (ucast (number_of_channels hs)) }
      else if channel_plan hs = 2 then
        do { buf \<leftarrow> iobuf_push_u8 buf (regulatory_domain hs);
             iobuf_push_u8 buf (channel_plan_id hs) }
      else None)"

definition ws_wp_chan_func_write :: "iobuf_write \<Rightarrow> ws_hopping_schedule \<Rightarrow> bool \<Rightarrow> iobuf_write option" where
  "ws_wp_chan_func_write buf hs unicast =
     (let chan_func = (if unicast then uc_channel_function hs else bc_channel_function hs) in
      if chan_func = CHANNEL_FUNCTION_FIXED
      then iobuf_push_le16 buf (if unicast then uc_fixed_channel hs else bc_fixed_channel hs)
      else if chan_func = CHANNEL_FUNCTION_DH1CF \<or> chan_func = CHANNEL_FUNCTION_TR51CF then Some buf
      else None)"

text \<open>The loop over \<open>excluded_range\<close>, with \<open>n\<close> turns left.\<close>

fun push_ranges :: "iobuf_write \<Rightarrow> ws_excluded_channel_range_data list \<Rightarrow> nat \<Rightarrow> nat \<Rightarrow> iobuf_write option" where
  "push_ranges buf ranges i 0 = Some buf"
| "push_ranges buf ranges i (Suc n) =
     do { r \<leftarrow> load ranges i;
          buf \<leftarrow> iobuf_push_le16 buf (range_start r);
          buf \<leftarrow> iobuf_push_le16 buf (range_end r);
          push_ranges buf ranges (i + 1) n }"

definition ws_wp_chan_excl_write :: "iobuf_write \<Rightarrow> ws_hopping_schedule \<Rightarrow> bool \<Rightarrow> iobuf_write option" where
  "ws_wp_chan_excl_write buf hs unicast =
     (let excl = (if unicast then uc_excluded_channels hs else bc_excluded_channels hs) in
      if ex_excluded_channel_ctrl excl = WS_EXC_CHAN_CTRL_RANGE then
        do { buf \<leftarrow> iobuf_push_u8 buf (ex_excluded_range_length excl);
             push_ranges buf (ex_excluded_range excl) 0 (unat (ex_excluded_range_length excl)) }
      else if ex_excluded_channel_ctrl excl = WS_EXC_CHAN_CTRL_BITMASK then
        iobuf_push_data buf (ex_channel_mask excl) (unat (ex_channel_mask_bytes_inline excl))
      else if ex_excluded_channel_ctrl excl = WS_EXC_CHAN_CTRL_NONE then Some buf
      else None)"

definition ws_wp_schedule_write :: "iobuf_write \<Rightarrow> ws_hopping_schedule \<Rightarrow> bool \<Rightarrow> iobuf_write option" where
  "ws_wp_schedule_write buf hs unicast =
     do { buf \<leftarrow> ws_wp_schedule_base_write buf hs unicast;
          buf \<leftarrow> ws_wp_chan_plan_write buf hs;
          buf \<leftarrow> ws_wp_chan_func_write buf hs unicast;
          ws_wp_chan_excl_write buf hs unicast }"

definition ws_wp_nested_us_write :: "iobuf_write \<Rightarrow> ws_hopping_schedule \<Rightarrow> iobuf_write option" where
  "ws_wp_nested_us_write buf hs =
     do { (offset, buf) \<leftarrow> ieee802154_ie_push_nested buf WS_WPIE_US True;
          buf \<leftarrow> iobuf_push_u8 buf (fhss_uc_dwell_interval hs);
          buf \<leftarrow> iobuf_push_u8 buf (clock_drift hs);
          buf \<leftarrow> iobuf_push_u8 buf (timing_accuracy hs);
          buf \<leftarrow> ws_wp_schedule_write buf hs True;
          ieee802154_ie_fill_len_nested buf offset True }"

definition ws_wp_nested_bs_write :: "iobuf_write \<Rightarrow> ws_hopping_schedule \<Rightarrow> iobuf_write option" where
  "ws_wp_nested_bs_write buf hs =
     do { (offset, buf) \<leftarrow> ieee802154_ie_push_nested buf WS_WPIE_BS True;
          buf \<leftarrow> iobuf_push_le32 buf (fhss_broadcast_interval hs);
          buf \<leftarrow> iobuf_push_le16 buf (fhss_bsi hs);
          buf \<leftarrow> iobuf_push_u8 buf (fhss_bc_dwell_interval hs);
          buf \<leftarrow> iobuf_push_u8 buf (clock_drift hs);
          buf \<leftarrow> iobuf_push_u8 buf (timing_accuracy hs);
          buf \<leftarrow> ws_wp_schedule_write buf hs False;
          ieee802154_ie_fill_len_nested buf offset True }"

definition ws_wp_nested_pan_write :: "iobuf_write \<Rightarrow> u16 \<Rightarrow> u16 \<Rightarrow> u8 \<Rightarrow> iobuf_write option" where
  "ws_wp_nested_pan_write buf sz routing_cost tps_version =
     do { (offset, buf) \<leftarrow> ieee802154_ie_push_nested buf WS_WPIE_PAN False;
          buf \<leftarrow> iobuf_push_le16 buf sz;
          buf \<leftarrow> iobuf_push_le16 buf routing_cost;
          let tmp8 = prep8 WS_WPIE_PAN_USE_PARENT_BS_IE_MASK 1;
          let tmp8 = tmp8 OR prep8 WS_WPIE_PAN_ROUTING_METHOD_MASK 1;
          let tmp8 = tmp8 OR prep8 WS_WPIE_PAN_LFN_WINDOW_STYLE_MASK 0;
          let tmp8 = tmp8 OR prep8 WS_WPIE_PAN_FAN_TPS_VERSION_MASK tps_version;
          buf \<leftarrow> iobuf_push_u8 buf tmp8;
          ieee802154_ie_fill_len_nested buf offset False }"

definition ws_wp_nested_netname_write :: "iobuf_write \<Rightarrow> u8 list \<Rightarrow> u8 \<Rightarrow> iobuf_write option" where
  "ws_wp_nested_netname_write buf name name_length =
     do { (offset, buf) \<leftarrow> ieee802154_ie_push_nested buf WS_WPIE_NETNAME False;
          buf \<leftarrow> iobuf_push_data buf name (unat name_length);
          ieee802154_ie_fill_len_nested buf offset False }"

definition ws_wp_nested_panver_write :: "iobuf_write \<Rightarrow> u16 \<Rightarrow> iobuf_write option" where
  "ws_wp_nested_panver_write buf version =
     do { (offset, buf) \<leftarrow> ieee802154_ie_push_nested buf WS_WPIE_PANVER False;
          buf \<leftarrow> iobuf_push_le16 buf version;
          ieee802154_ie_fill_len_nested buf offset False }"

text \<open>The loops over hashes, with \<open>n\<close> turns left.\<close>

fun push_hashes :: "iobuf_write \<Rightarrow> u8 list list \<Rightarrow> nat \<Rightarrow> nat \<Rightarrow> iobuf_write option" where
  "push_hashes buf hashes i 0 = Some buf"
| "push_hashes buf hashes i (Suc n) =
     do { h \<leftarrow> load hashes i;
          buf \<leftarrow> iobuf_push_data buf h 8;
          push_hashes buf hashes (i + 1) n }"

definition ws_wp_nested_gtkhash_write :: "iobuf_write \<Rightarrow> u8 list list \<Rightarrow> iobuf_write option" where
  "ws_wp_nested_gtkhash_write buf gtkhash =
     do { (offset, buf) \<leftarrow> ieee802154_ie_push_nested buf WS_WPIE_GTKHASH False;
          buf \<leftarrow> push_hashes buf gtkhash 0 4;
          ieee802154_ie_fill_len_nested buf offset False }"

definition ws_wp_nested_pom_write :: "iobuf_write \<Rightarrow> u8 \<Rightarrow> u8 list \<Rightarrow> u8 \<Rightarrow> iobuf_write option" where
  "ws_wp_nested_pom_write buf phy_op_mode_number phy_operating_modes mdr_command_capable =
     (if phy_op_mode_number = 0 then Some buf
      else do { (offset, buf) \<leftarrow> ieee802154_ie_push_nested buf WS_WPIE_POM False;
                let tmp8 = prep8 WS_WPIE_POM_PHY_OP_MODE_NUMBER_MASK phy_op_mode_number;
                let tmp8 = tmp8 OR prep8 WS_WPIE_POM_MDR_CAPABLE_MASK mdr_command_capable;
                buf \<leftarrow> iobuf_push_u8 buf tmp8;
                buf \<leftarrow> iobuf_push_data buf phy_operating_modes (unat phy_op_mode_number);
                ieee802154_ie_fill_len_nested buf offset False })"

definition ws_wp_nested_lfnver_write :: "iobuf_write \<Rightarrow> u16 \<Rightarrow> iobuf_write option" where
  "ws_wp_nested_lfnver_write buf version =
     do { (offset, buf) \<leftarrow> ieee802154_ie_push_nested buf WS_WPIE_LFNVER False;
          buf \<leftarrow> iobuf_push_le16 buf version;
          ieee802154_ie_fill_len_nested buf offset False }"

fun push_nonzero_hashes :: "iobuf_write \<Rightarrow> u8 list list \<Rightarrow> nat \<Rightarrow> nat \<Rightarrow> iobuf_write option" where
  "push_nonzero_hashes buf hashes i 0 = Some buf"
| "push_nonzero_hashes buf hashes i (Suc n) =
     do { h \<leftarrow> load hashes i;
          nz \<leftarrow> memzcmp h 8;
          buf \<leftarrow> (if nz then iobuf_push_data buf h 8 else Some buf);
          push_nonzero_hashes buf hashes (i + 1) n }"

definition ws_wp_nested_lgtkhash_write :: "iobuf_write \<Rightarrow> u8 list list \<Rightarrow> u8 \<Rightarrow> iobuf_write option" where
  "ws_wp_nested_lgtkhash_write buf lgtkhash active_lgtk_index =
     do { (offset, buf) \<leftarrow> ieee802154_ie_push_nested buf WS_WPIE_LGTKHASH False;
          h0 \<leftarrow> load lgtkhash 0; nz0 \<leftarrow> memzcmp h0 8;
          h1 \<leftarrow> load lgtkhash 1; nz1 \<leftarrow> memzcmp h1 8;
          h2 \<leftarrow> load lgtkhash 2; nz2 \<leftarrow> memzcmp h2 8;
          let tmp8 = prep8 WS_WPIE_LGTKHASH_INCLUDE_LGTK0_MASK (of_bool nz0);
          let tmp8 = tmp8 OR prep8 WS_WPIE_LGTKHASH_INCLUDE_LGTK1_MASK (of_bool nz1);
          let tmp8 = tmp8 OR prep8 WS_WPIE_LGTKHASH_INCLUDE_LGTK2_MASK (of_bool nz2);
          let tmp8 = tmp8 OR prep8 WS_WPIE_LGTKHASH_ACTIVE_INDEX_MASK active_lgtk_index;
          buf \<leftarrow> iobuf_push_u8 buf tmp8;
          buf \<leftarrow> push_nonzero_hashes buf lgtkhash 0 3;
          ieee802154_ie_fill_len_nested buf offset False }"

definition ws_wp_nested_lcp_write :: "iobuf_write \<Rightarrow> u8 \<Rightarrow> ws_hopping_schedule \<Rightarrow> iobuf_write option" where
  "ws_wp_nested_lcp_write buf tag hs =
     do { (offset, buf) \<leftarrow> ieee802154_ie_push_nested buf WS_WPIE_LCP True;
          buf \<leftarrow> iobuf_push_u8 buf tag;
          buf \<leftarrow> ws_wp_schedule_write buf hs True;
          ieee802154_ie_fill_len_nested buf offset True }"

definition ws_wp_nested_lbats_write :: "iobuf_write \<Rightarrow> ws_lbats_ie \<Rightarrow> iobuf_write option" where
  "ws_wp_nested_lbats_write buf lbats_ie =
     do { (offset, buf) \<leftarrow> ieee802154_ie_push_nested buf WS_WPIE_LBATS False;
          buf \<leftarrow> iobuf_push_u8 buf (lbats_additional_transmissions lbats_ie);
          buf \<leftarrow> iobuf_push_le16 buf (lbats_next_transmit_delay lbats_ie);
          ieee802154_ie_fill_len_nested buf offset False }"

definition ws_wp_nested_jm_plf_write :: "iobuf_write \<Rightarrow> u8 \<Rightarrow> u8 \<Rightarrow> iobuf_write option" where
  "ws_wp_nested_jm_plf_write buf version pan_load_factor =
     do { (offset, buf) \<leftarrow> ieee802154_ie_push_nested buf WS_WPIE_JM False;
          buf \<leftarrow> iobuf_push_u8 buf version;
          let tmp8 = ucast (FIELD_PREP WS_WPIE_JM_METRIC_ID_MASK WS_JM_PLF);
          let tmp8 = tmp8 OR ucast (FIELD_PREP WS_WPIE_JM_METRIC_LEN_MASK 1);
          buf \<leftarrow> iobuf_push_u8 buf tmp8;
          buf \<leftarrow> iobuf_push_u8 buf pan_load_factor;
          ieee802154_ie_fill_len_nested buf offset False }"

section \<open>Readers\<close>

text \<open>The pointer \<open>iobuf_pop_data_ptr\<close> returns, as the object behind it.\<close>

definition ptr_of :: "iobuf_read \<Rightarrow> nat option \<Rightarrow> u8 list option" where
  "ptr_of buf off = map_option (\<lambda>i. drop i (rdata buf)) off"

definition ws_channel_plan_read ::
  "iobuf_read \<Rightarrow> ws_generic_channel_info \<Rightarrow> (iobuf_read \<times> ws_generic_channel_info) option" where
  "ws_channel_plan_read ie_buf chan_info =
     (if gc_channel_plan chan_info = 0 then
        do { (a, ie_buf) \<leftarrow> iobuf_pop_u8 ie_buf;
             (b, ie_buf) \<leftarrow> iobuf_pop_u8 ie_buf;
             Some (ie_buf, chan_info\<lparr>gc_plan := Plan_zero a b\<rparr>) }
      else if gc_channel_plan chan_info = 1 then
        do { (a, ie_buf) \<leftarrow> iobuf_pop_le24 ie_buf;
             (b, ie_buf) \<leftarrow> iobuf_pop_u8 ie_buf;
             (c, ie_buf) \<leftarrow> iobuf_pop_le16 ie_buf;
             Some (ie_buf, chan_info\<lparr>gc_plan := Plan_one a (b AND 0x0F) c\<rparr>) }
      else if gc_channel_plan chan_info = 2 then
        do { (a, ie_buf) \<leftarrow> iobuf_pop_u8 ie_buf;
             (b, ie_buf) \<leftarrow> iobuf_pop_u8 ie_buf;
             Some (ie_buf, chan_info\<lparr>gc_plan := Plan_two a b\<rparr>) }
      else Some (ie_buf\<lparr>rerr := True\<rparr>, chan_info))"

definition ws_channel_function_read ::
  "iobuf_read \<Rightarrow> ws_generic_channel_info \<Rightarrow> (iobuf_read \<times> ws_generic_channel_info) option" where
  "ws_channel_function_read ie_buf chan_info =
     (if gc_channel_function chan_info = 0 then
        do { (a, ie_buf) \<leftarrow> iobuf_pop_le16 ie_buf;
             Some (ie_buf, chan_info\<lparr>gc_function := Function_zero a\<rparr>) }
      else if gc_channel_function chan_info = 1 \<or> gc_channel_function chan_info = 2 then Some (ie_buf, chan_info)
      else if gc_channel_function chan_info = 3 then
        do { (a, ie_buf) \<leftarrow> iobuf_pop_u8 ie_buf;
             (p, ie_buf) \<leftarrow> iobuf_pop_data_ptr ie_buf (unat a);
             Some (ie_buf, chan_info\<lparr>gc_function := Function_three a (ptr_of ie_buf p)\<rparr>) }
      else Some (ie_buf\<lparr>rerr := True\<rparr>, chan_info))"

text \<open>
  \<open>roundup(n, 8) / 8\<close> in \<open>int\<close>, stored in the \<open>uint8_t mask_len_inline\<close>. The member
  \<open>plan.one\<close> is the one written last when the plan is 1; reading it otherwise has no
  counterpart here.
\<close>

definition ws_channel_excluded_read ::
  "iobuf_read \<Rightarrow> ws_generic_channel_info \<Rightarrow> (iobuf_read \<times> ws_generic_channel_info) option" where
  "ws_channel_excluded_read ie_buf chan_info =
     (if gc_excluded_channel_ctrl chan_info = WS_EXC_CHAN_CTRL_NONE then Some (ie_buf, chan_info)
      else if gc_excluded_channel_ctrl chan_info = WS_EXC_CHAN_CTRL_RANGE then
        do { (a, ie_buf) \<leftarrow> iobuf_pop_u8 ie_buf;
             (p, ie_buf) \<leftarrow> iobuf_pop_data_ptr ie_buf (4 * unat a);
             Some (ie_buf, chan_info\<lparr>gc_excluded_channels := Excluded_range a (ptr_of ie_buf p)\<rparr>) }
      else if gc_excluded_channel_ctrl chan_info = WS_EXC_CHAN_CTRL_BITMASK then
        do { (n :: u8) \<leftarrow> (if gc_channel_plan chan_info = 1
               then (case gc_plan chan_info of
                   Plan_one _ _ k \<Rightarrow> Some (word_of_nat ((unat k + 7) div 8 * 8 div 8))
                 | _ \<Rightarrow> None)
               else Some (word_of_int (iobuf_remaining_size ie_buf)));
             (p, ie_buf) \<leftarrow> iobuf_pop_data_ptr ie_buf (unat n);
             Some (ie_buf, chan_info\<lparr>gc_excluded_channels := Excluded_mask (ptr_of ie_buf p) n\<rparr>) }
      else Some (ie_buf\<lparr>rerr := True\<rparr>, chan_info))"

definition ws_wp_nested_us_read :: "u8 list \<Rightarrow> u16 \<Rightarrow> ws_us_ie \<Rightarrow> (bool \<times> ws_us_ie) option" where
  "ws_wp_nested_us_read data len us_ie =
     do { (_, ie_buf) \<leftarrow> ieee802154_ie_find_nested data (unat len) WS_WPIE_US True;
          (v1, ie_buf) \<leftarrow> iobuf_pop_u8 ie_buf;
          (v2, ie_buf) \<leftarrow> iobuf_pop_u8 ie_buf;
          (v3, ie_buf) \<leftarrow> iobuf_pop_u8 ie_buf;
          (tmp8, ie_buf) \<leftarrow> iobuf_pop_u8 ie_buf;
          let cp = (us_chan_plan us_ie)
            \<lparr>gc_channel_plan := get8 WS_WPIE_SCHEDULE_CHAN_PLAN_MASK tmp8,
             gc_channel_function := get8 WS_WPIE_SCHEDULE_CHAN_FUNC_MASK tmp8,
             gc_excluded_channel_ctrl := get8 WS_WPIE_SCHEDULE_EXCL_CHAN_CTL_MASK tmp8\<rparr>;
          (ie_buf, cp) \<leftarrow> ws_channel_plan_read ie_buf cp;
          (ie_buf, cp) \<leftarrow> ws_channel_function_read ie_buf cp;
          (ie_buf, cp) \<leftarrow> ws_channel_excluded_read ie_buf cp;
          Some (\<not> rerr ie_buf, us_ie\<lparr>us_dwell_interval := v1, us_clock_drift := v2, us_timing_accuracy := v3,
            us_chan_plan := cp\<rparr>) }"

definition ws_wp_nested_bs_read :: "u8 list \<Rightarrow> u16 \<Rightarrow> ws_bs_ie \<Rightarrow> (bool \<times> ws_bs_ie) option" where
  "ws_wp_nested_bs_read data len bs_ie =
     do { (_, ie_buf) \<leftarrow> ieee802154_ie_find_nested data (unat len) WS_WPIE_BS True;
          (v1, ie_buf) \<leftarrow> iobuf_pop_le32 ie_buf;
          (v2, ie_buf) \<leftarrow> iobuf_pop_le16 ie_buf;
          (v3, ie_buf) \<leftarrow> iobuf_pop_u8 ie_buf;
          (v4, ie_buf) \<leftarrow> iobuf_pop_u8 ie_buf;
          (v5, ie_buf) \<leftarrow> iobuf_pop_u8 ie_buf;
          (tmp8, ie_buf) \<leftarrow> iobuf_pop_u8 ie_buf;
          let cp = (bs_chan_plan bs_ie)
            \<lparr>gc_channel_plan := get8 WS_WPIE_SCHEDULE_CHAN_PLAN_MASK tmp8,
             gc_channel_function := get8 WS_WPIE_SCHEDULE_CHAN_FUNC_MASK tmp8,
             gc_excluded_channel_ctrl := get8 WS_WPIE_SCHEDULE_EXCL_CHAN_CTL_MASK tmp8\<rparr>;
          (ie_buf, cp) \<leftarrow> ws_channel_plan_read ie_buf cp;
          (ie_buf, cp) \<leftarrow> ws_channel_function_read ie_buf cp;
          (ie_buf, cp) \<leftarrow> ws_channel_excluded_read ie_buf cp;
          Some (\<not> rerr ie_buf, bs_ie\<lparr>bs_broadcast_interval := v1, bs_broadcast_schedule_identifier := v2,
            bs_dwell_interval := v3, bs_clock_drift := v4, bs_timing_accuracy := v5, bs_chan_plan := cp\<rparr>) }"

definition ws_wp_nested_pan_read :: "u8 list \<Rightarrow> u16 \<Rightarrow> ws_pan_information \<Rightarrow> (bool \<times> ws_pan_information) option" where
  "ws_wp_nested_pan_read data len pan_configuration =
     do { (_, ie_buf) \<leftarrow> ieee802154_ie_find_nested data (unat len) WS_WPIE_PAN False;
          (v1, ie_buf) \<leftarrow> iobuf_pop_le16 ie_buf;
          (v2, ie_buf) \<leftarrow> iobuf_pop_le16 ie_buf;
          (tmp8, ie_buf) \<leftarrow> iobuf_pop_u8 ie_buf;
          let pc = pan_configuration\<lparr>pan_size := v1, pan_routing_cost := v2,
            pan_use_parent_bs := (get8 WS_WPIE_PAN_USE_PARENT_BS_IE_MASK tmp8 \<noteq> 0),
            pan_rpl_routing_method := (get8 WS_WPIE_PAN_ROUTING_METHOD_MASK tmp8 \<noteq> 0),
            pan_version := get8 WS_WPIE_PAN_FAN_TPS_VERSION_MASK tmp8\<rparr>;
          let pc = (if WS_FAN_VERSION_1_0 < pan_version pc
             then pc\<lparr>pan_lfn_window_style := (get8 WS_WPIE_PAN_LFN_WINDOW_STYLE_MASK tmp8 \<noteq> 0)\<rparr>
             else pc\<lparr>pan_lfn_window_style := False\<rparr>);
          Some (\<not> rerr ie_buf, pc) }"

definition ws_wp_nested_panver_read :: "u8 list \<Rightarrow> u16 \<Rightarrow> (bool \<times> u16) option" where
  "ws_wp_nested_panver_read data len =
     do { (_, ie_buf) \<leftarrow> ieee802154_ie_find_nested data (unat len) WS_WPIE_PANVER False;
          (v, ie_buf) \<leftarrow> iobuf_pop_le16 ie_buf;
          Some (\<not> rerr ie_buf, v) }"

text \<open>\<open>gtkhash\<close> is the array of four hashes as one object of 32 bytes.\<close>

definition ws_wp_nested_gtkhash_read :: "u8 list \<Rightarrow> u16 \<Rightarrow> u8 list \<Rightarrow> (bool \<times> u8 list option) option" where
  "ws_wp_nested_gtkhash_read data len gtkhash =
     do { (_, ie_buf) \<leftarrow> ieee802154_ie_find_nested data (unat len) WS_WPIE_GTKHASH False;
          (g, ie_buf) \<leftarrow> iobuf_pop_data ie_buf (Some gtkhash) (4 * 8);
          Some (\<not> rerr ie_buf, g) }"

definition ws_wp_nested_netname_read :: "u8 list \<Rightarrow> u16 \<Rightarrow> (bool \<times> ws_wp_netname) option" where
  "ws_wp_nested_netname_read data len =
     do { (_, ie_buf) \<leftarrow> ieee802154_ie_find_nested data (unat len) WS_WPIE_NETNAME False;
          p \<leftarrow> iobuf_ptr ie_buf;
          let nn = \<lparr>network_name = p, network_name_length = word_of_int (iobuf_remaining_size ie_buf)\<rparr>;
          if 32 < unat (network_name_length nn) then Some (False, nn)
          else Some (\<not> rerr ie_buf, nn) }"

definition ws_wp_nested_pom_read :: "u8 list \<Rightarrow> u16 \<Rightarrow> ws_pom_ie \<Rightarrow> (bool \<times> ws_pom_ie) option" where
  "ws_wp_nested_pom_read data len pom_ie =
     do { (_, ie_buf) \<leftarrow> ieee802154_ie_find_nested data (unat len) WS_WPIE_POM False;
          (tmp8, ie_buf) \<leftarrow> iobuf_pop_u8 ie_buf;
          let pom_ie = pom_ie\<lparr>pom_phy_op_mode_number := get8 WS_WPIE_POM_PHY_OP_MODE_NUMBER_MASK tmp8,
            pom_mdr_command_capable := get8 WS_WPIE_POM_MDR_CAPABLE_MASK tmp8\<rparr>;
          (p, ie_buf) \<leftarrow> (if pom_phy_op_mode_number pom_ie \<noteq> 0
             then do { (p, ie_buf) \<leftarrow> iobuf_pop_data_ptr ie_buf (unat (pom_phy_op_mode_number pom_ie));
                       Some (ptr_of ie_buf p, ie_buf) }
             else Some (None, ie_buf));
          Some (\<not> rerr ie_buf, pom_ie\<lparr>pom_phy_op_mode_id := p\<rparr>) }"

definition ws_wp_nested_lfnver_read :: "u8 list \<Rightarrow> u16 \<Rightarrow> (bool \<times> ws_lfnver_ie) option" where
  "ws_wp_nested_lfnver_read data len =
     do { (_, ie_buf) \<leftarrow> ieee802154_ie_find_nested data (unat len) WS_WPIE_LFNVER False;
          (v, ie_buf) \<leftarrow> iobuf_pop_le16 ie_buf;
          Some (\<not> rerr ie_buf, \<lparr>lfnver_lfn_version = v\<rparr>) }"

fun pop_hashes :: "iobuf_read \<Rightarrow> u16 \<Rightarrow> u8 list list \<Rightarrow> nat \<Rightarrow> nat \<Rightarrow> (u8 list list \<times> iobuf_read) option" where
  "pop_hashes ie_buf valid_hashs lgtkhash i 0 = Some (lgtkhash, ie_buf)"
| "pop_hashes ie_buf valid_hashs lgtkhash i (Suc n) =
     do { h \<leftarrow> load lgtkhash i;
          (h, ie_buf) \<leftarrow> (if valid_hashs AND push_bit i 1 \<noteq> 0
             then do { (h, ie_buf) \<leftarrow> iobuf_pop_data ie_buf (Some h) 8; h \<leftarrow> h; Some (h, ie_buf) }
             else do { h \<leftarrow> store_n h 0 (replicate 8 0); Some (h, ie_buf) });
          lgtkhash \<leftarrow> store lgtkhash i h;
          pop_hashes ie_buf valid_hashs lgtkhash (i + 1) n }"

text \<open>The flags are taken from \<open>*data\<close>, the first byte of the elements searched.\<close>

definition ws_wp_nested_lgtkhash_read ::
  "u8 list \<Rightarrow> u16 \<Rightarrow> u8 list list \<Rightarrow> (bool \<times> u8 list list \<times> u16) option" where
  "ws_wp_nested_lgtkhash_read data len lgtkhash =
     do { (_, ie_buf) \<leftarrow> ieee802154_ie_find_nested data (unat len) WS_WPIE_LGTKHASH False;
          d0 \<leftarrow> load data 0;
          let valid_hashs = FIELD_GET (WS_WPIE_LGTKHASH_INCLUDE_LGTK0_MASK OR WS_WPIE_LGTKHASH_INCLUDE_LGTK1_MASK OR
            WS_WPIE_LGTKHASH_INCLUDE_LGTK2_MASK) (ucast d0);
          let active_lgtk_index = FIELD_GET WS_WPIE_LGTKHASH_ACTIVE_INDEX_MASK (ucast d0);
          (lgtkhash, ie_buf) \<leftarrow> pop_hashes ie_buf valid_hashs lgtkhash 0 3;
          Some (\<not> rerr ie_buf, lgtkhash, active_lgtk_index) }"

definition ws_wp_nested_lbats_read :: "u8 list \<Rightarrow> u16 \<Rightarrow> (bool \<times> ws_lbats_ie) option" where
  "ws_wp_nested_lbats_read data len =
     do { (_, ie_buf) \<leftarrow> ieee802154_ie_find_nested data (unat len) WS_WPIE_LBATS True;
          (v1, ie_buf) \<leftarrow> iobuf_pop_u8 ie_buf;
          (v2, ie_buf) \<leftarrow> iobuf_pop_le16 ie_buf;
          Some (\<not> rerr ie_buf, \<lparr>lbats_additional_transmissions = v1, lbats_next_transmit_delay = v2\<rparr>) }"

text \<open>The loop of \<open>ws_wp_nested_lcp_find_tag\<close>; \<open>left\<close> is \<open>end - data\<close>.\<close>

partial_function (option) lcp_find_tag_loop :: "u8 \<Rightarrow> u8 list \<Rightarrow> u16 \<Rightarrow> int \<Rightarrow> iobuf_read option" where
  "lcp_find_tag_loop tag data len left =
     do { (_, ie_content) \<leftarrow> ieee802154_ie_find_nested data (unat len) WS_WPIE_LCP True;
          (k, ie_content) \<leftarrow> iobuf_pop_u8 ie_content;
          if k = tag then Some (ie_content\<lparr>rcnt := 0\<rparr>)
          else if rerr ie_content then Some ie_content
          else let n = int (length data) - int (length (rdata ie_content)) + rdata_size ie_content;
                   len = len - word_of_int n; data = drop (nat n) data; left = left - n
               in if 0 < left then lcp_find_tag_loop tag data len left
                  else Some (ie_content\<lparr>rerr := True\<rparr>) }"

definition ws_wp_nested_lcp_find_tag :: "u8 list \<Rightarrow> u16 \<Rightarrow> u8 \<Rightarrow> iobuf_read option" where
  "ws_wp_nested_lcp_find_tag data len tag = lcp_find_tag_loop tag data len (int (unat len))"

definition ws_wp_nested_lcp_read :: "u8 list \<Rightarrow> u16 \<Rightarrow> u8 \<Rightarrow> ws_lcp_ie \<Rightarrow> (bool \<times> ws_lcp_ie) option" where
  "ws_wp_nested_lcp_read data len tag ws_lcp =
     do { ie_buf \<leftarrow> ws_wp_nested_lcp_find_tag data len tag;
          (v1, ie_buf) \<leftarrow> iobuf_pop_u8 ie_buf;
          (tmp8, ie_buf) \<leftarrow> iobuf_pop_u8 ie_buf;
          let cp = (lcp_chan_plan ws_lcp)
            \<lparr>gc_channel_plan := get8 WS_WPIE_SCHEDULE_CHAN_PLAN_MASK tmp8,
             gc_channel_function := get8 WS_WPIE_SCHEDULE_CHAN_FUNC_MASK tmp8,
             gc_excluded_channel_ctrl := get8 WS_WPIE_SCHEDULE_EXCL_CHAN_CTL_MASK tmp8\<rparr>;
          (ie_buf, cp) \<leftarrow> ws_channel_plan_read ie_buf cp;
          (ie_buf, cp) \<leftarrow> ws_channel_function_read ie_buf cp;
          (ie_buf, cp) \<leftarrow> ws_channel_excluded_read ie_buf cp;
          Some (\<not> rerr ie_buf, ws_lcp\<lparr>lcp_lfn_channel_plan_tag := v1, lcp_chan_plan := cp\<rparr>) }"

section \<open>Reading arbitrary frames\<close>

text \<open>The content of the first nested element with the id and format, if there is one.\<close>

definition wp_find :: "u8 list \<Rightarrow> u16 \<Rightarrow> u8 \<Rightarrow> bool \<Rightarrow> u8 list option" where
  "wp_find data len ie_id is_long =
     (case ie_lookup (dec_nested ie_id is_long) (take (unat len) data) of Found c \<Rightarrow> Some c | _ \<Rightarrow> None)"

lemma find_nested:
  assumes "unat len \<le> length data"
    and "\<And>r b. wf_read b \<Longrightarrow> rview b = wp_find data len ie_id is_long \<Longrightarrow> Q (r, b)"
  shows "gives (ieee802154_ie_find_nested data (unat len) ie_id is_long) Q"
proof -
  have "wf_read (iobuf_reader data (to_int32 n)) \<and> rview (iobuf_reader data (to_int32 n)) = Some (take n data)"
    if "n < 2 ^ 31" "n \<le> length data" for n
    using that by (simp add: to_int32_small wf_reader rview_reader)
  then have "wf_read (iobuf_reader data (to_int32 (unat len)))"
    "rview (iobuf_reader data (to_int32 (unat len))) = Some (take (unat len) data)"
    using assms(1) unat_u16_lt [of len] by simp_all
  then obtain r b where "ieee802154_ie_find_nested data (unat len) ie_id is_long = Some (r, b)"
      "ie_reports (ie_lookup (dec_nested ie_id is_long) (take (unat len) data)) (r, b)"
    using nested.loop_refines unfolding ieee802154_ie_find_nested_def by fast
  then show ?thesis
    using assms(2) by (cases "ie_lookup (dec_nested ie_id is_long) (take (unat len) data)")
      (auto simp: wp_find_def ie_content_none_def wf_read_def rview_def)
qed

text \<open>A pointer handed out covers \<open>n\<close> bytes of the frame.\<close>

definition covers :: "u8 list option \<Rightarrow> nat \<Rightarrow> bool" where
  "covers p n \<longleftrightarrow> (case p of None \<Rightarrow> False | Some q \<Rightarrow> n \<le> length q)"

definition chan_info_ok :: "ws_generic_channel_info \<Rightarrow> bool" where
  "chan_info_ok ci \<longleftrightarrow>
     (case gc_plan ci of Plan_zero _ _ \<Rightarrow> gc_channel_plan ci = 0 | Plan_one _ s _ \<Rightarrow> gc_channel_plan ci = 1 \<and> unat s < 16
      | Plan_two _ _ \<Rightarrow> gc_channel_plan ci = 2) \<and>
     unat (gc_channel_function ci) < 4 \<and>
     (gc_channel_function ci = 0 \<longrightarrow> is_Function_zero (gc_function ci)) \<and>
     (gc_channel_function ci = 3 \<longrightarrow> \<not> is_Function_zero (gc_function ci) \<and>
        covers (channel_list (gc_function ci)) (unat (channel_hop_count (gc_function ci)))) \<and>
     unat (gc_excluded_channel_ctrl ci) < 3 \<and>
     (gc_excluded_channel_ctrl ci = 1 \<longrightarrow> is_Excluded_range (gc_excluded_channels ci) \<and>
        covers (excl_range_start (gc_excluded_channels ci)) (4 * unat (number_of_range (gc_excluded_channels ci)))) \<and>
     (gc_excluded_channel_ctrl ci = 2 \<longrightarrow> \<not> is_Excluded_range (gc_excluded_channels ci) \<and>
        covers (channel_mask (gc_excluded_channels ci)) (unat (mask_len_inline (gc_excluded_channels ci))))"

definition plan_ok :: "ws_generic_channel_info \<Rightarrow> bool" where
  "plan_ok ci \<longleftrightarrow>
     (case gc_plan ci of Plan_zero _ _ \<Rightarrow> gc_channel_plan ci = 0 | Plan_one _ s _ \<Rightarrow> gc_channel_plan ci = 1 \<and> unat s < 16
      | Plan_two _ _ \<Rightarrow> gc_channel_plan ci = 2)"

lemmas wp_rules = gives_bind_pair gives_bind gives_if pop_u8_any pop_number_any pop_data_ptr_any

lemma wf_read_err [simp]: "wf_read (b\<lparr>rerr := True\<rparr>) = wf_read b" "rview (b\<lparr>rerr := True\<rparr>) = None"
  by (simp_all add: wf_read_def rview_def)

lemma rskip_eq_Some: "rskip n s = Some r \<longleftrightarrow> (\<exists>bs. s = Some bs \<and> n \<le> length bs \<and> r = drop n bs)"
  "Some r = rskip n s \<longleftrightarrow> (\<exists>bs. s = Some bs \<and> n \<le> length bs \<and> r = drop n bs)"
  by (cases s; auto simp: rskip_def)+

lemma and_0x0F: "unat (v AND 0x0F :: u8) < 16"
proof -
  have "v AND 0x0F = take_bit 4 v" by (simp add: take_bit_eq_mask mask_eq_exp_minus_1)
  then have "unat (v AND 0x0F) = take_bit 4 (unat v)" by (simp only: unsigned_take_bit_eq)
  also have "\<dots> < 16" using take_bit_nat_less_exp [of 4 "unat v"] by simp
  finally show ?thesis .
qed

lemma plan_read_any:
  assumes "wf_read b"
    and "\<And>b' pl. wf_read b' \<Longrightarrow> (rview b' \<noteq> None \<Longrightarrow> rview b \<noteq> None \<and> plan_ok (ci\<lparr>gc_plan := pl\<rparr>)) \<Longrightarrow>
      (gc_channel_plan ci = 1 \<Longrightarrow> is_Plan_one pl) \<Longrightarrow> Q (b', ci\<lparr>gc_plan := pl\<rparr>)"
  shows "gives (ws_channel_plan_read b ci) Q"
proof -
  have "Q (b\<lparr>rerr := True\<rparr>, ci\<lparr>gc_plan := gc_plan ci\<rparr>)" if "gc_channel_plan ci \<noteq> 1"
    using that assms by (intro assms(2)) auto
  then show ?thesis
    unfolding ws_channel_plan_read_def
    by (intro wp_rules assms(1)) (auto intro!: assms(2) simp: plan_ok_def and_0x0F rskip_eq_Some)
qed

lemma function_read_any:
  assumes "wf_read b"
    and "\<And>b' f. wf_read b' \<Longrightarrow> (rview b' \<noteq> None \<Longrightarrow> rview b \<noteq> None \<and> unat (gc_channel_function ci) < 4 \<and>
        (gc_channel_function ci = 0 \<longrightarrow> is_Function_zero f) \<and>
        (gc_channel_function ci = 3 \<longrightarrow> \<not> is_Function_zero f \<and> covers (channel_list f) (unat (channel_hop_count f)))) \<Longrightarrow>
      Q (b', ci\<lparr>gc_function := f\<rparr>)"
  shows "gives (ws_channel_function_read b ci) Q"
proof -
  have "Q (b\<lparr>rerr := True\<rparr>, ci\<lparr>gc_function := gc_function ci\<rparr>)"
    using assms by (intro assms(2)) auto
  moreover have "Q (b, ci\<lparr>gc_function := gc_function ci\<rparr>)" if "gc_channel_function ci = 1 \<or> gc_channel_function ci = 2"
    using that assms by (intro assms(2)) auto
  ultimately show ?thesis
    unfolding ws_channel_function_read_def
    by (intro wp_rules assms(1))
       (auto intro!: assms(2) simp: covers_def ptr_of_def rskip_eq_Some split: option.splits)
qed

lemma excluded_read_any:
  assumes "wf_read b" and "gc_channel_plan ci = 1 \<Longrightarrow> is_Plan_one (gc_plan ci)"
    and "\<And>b' e. wf_read b' \<Longrightarrow> (rview b' \<noteq> None \<Longrightarrow> rview b \<noteq> None \<and> unat (gc_excluded_channel_ctrl ci) < 3 \<and>
        (gc_excluded_channel_ctrl ci = 1 \<longrightarrow> is_Excluded_range e \<and>
           covers (excl_range_start e) (4 * unat (number_of_range e))) \<and>
        (gc_excluded_channel_ctrl ci = 2 \<longrightarrow> \<not> is_Excluded_range e \<and>
           covers (channel_mask e) (unat (mask_len_inline e)))) \<Longrightarrow>
      Q (b', ci\<lparr>gc_excluded_channels := e\<rparr>)"
  shows "gives (ws_channel_excluded_read b ci) Q"
proof -
  have e: "Q (b\<lparr>rerr := True\<rparr>, ci\<lparr>gc_excluded_channels := gc_excluded_channels ci\<rparr>)"
    using assms by (intro assms(3)) auto
  have n: "Q (b, ci\<lparr>gc_excluded_channels := gc_excluded_channels ci\<rparr>)" if "gc_excluded_channel_ctrl ci = 0"
    using that assms by (intro assms(3)) auto
  have m: "gives (iobuf_pop_data_ptr b (unat n) \<bind>
      (\<lambda>(p, ie_buf). Some (ie_buf, ci\<lparr>gc_excluded_channels := Excluded_mask (ptr_of ie_buf p) n\<rparr>))) Q"
    if "gc_excluded_channel_ctrl ci = 2" for n
    using that
    by (intro wp_rules assms(1)) (auto intro!: assms(3) simp: covers_def ptr_of_def rskip_eq_Some split: option.splits)
  have r: "gives (do { (a, ie_buf) \<leftarrow> iobuf_pop_u8 b; (p, ie_buf) \<leftarrow> iobuf_pop_data_ptr ie_buf (4 * unat a);
             Some (ie_buf, ci\<lparr>gc_excluded_channels := Excluded_range a (ptr_of ie_buf p)\<rparr>) }) Q"
    if "gc_excluded_channel_ctrl ci = 1"
    using that
    by (intro wp_rules assms(1)) (auto intro!: assms(3) simp: covers_def ptr_of_def rskip_eq_Some split: option.splits)
  show ?thesis
    using e n r m assms(2)
    by (cases "gc_plan ci") (auto simp: ws_channel_excluded_read_def chan_consts simp del: unat_word_of_nat_u8)
qed

lemmas nested_rules = gives_bind_pair gives_bind find_nested plan_read_any function_read_any excluded_read_any
  pop_u8_any pop_number_any

lemma us_read_safe:
  assumes "unat len \<le> length data"
  shows "gives (ws_wp_nested_us_read data len us) (\<lambda>(ok, us). ok \<longrightarrow> chan_info_ok (us_chan_plan us))"
  unfolding ws_wp_nested_us_read_def Let_def
  by (intro nested_rules assms; (assumption | simp)?)
     (auto simp: rerr_rview chan_info_ok_def plan_ok_def split: ws_channel_plan.splits)

lemma bs_read_safe:
  assumes "unat len \<le> length data"
  shows "gives (ws_wp_nested_bs_read data len bs) (\<lambda>(ok, bs). ok \<longrightarrow> chan_info_ok (bs_chan_plan bs))"
  unfolding ws_wp_nested_bs_read_def Let_def
  by (intro nested_rules assms; (assumption | simp)?)
     (auto simp: rerr_rview chan_info_ok_def plan_ok_def split: ws_channel_plan.splits)

abbreviation lcp_dec :: "u16 \<Rightarrow> (bool \<times> nat) option" where
  "lcp_dec \<equiv> dec_nested WS_WPIE_LCP True"

interpretation lcpsub: ie_subsearch "find_nested_loop WS_WPIE_LCP True" lcp_dec lcp_find_tag_loop True
  by unfold_locales (subst lcp_find_tag_loop.simps, auto simp: ieee802154_ie_find_nested_def Let_def
      intro!: Option.bind_cong)

text \<open>The content, tag included, of the first LCP element with the tag.\<close>

definition lcp_find :: "u8 list \<Rightarrow> u16 \<Rightarrow> u8 \<Rightarrow> u8 list option" where
  "lcp_find data len tag = map_option ((#) tag) (tlv_find lcp_dec tag (take (unat len) data))"

lemma lcp_find_tag:
  assumes "unat len \<le> length data"
    and "\<And>b. wf_read b \<Longrightarrow> rview b = lcp_find data len tag \<Longrightarrow> Q b"
  shows "gives (ws_wp_nested_lcp_find_tag data len tag) Q"
proof -
  have "gives (lcp_find_tag_loop tag data len (int (unat len)))
      (\<lambda>b. wf_read b \<and> rview b = map_option (\<lambda>c. if True then tag # c else c)
        (tlv_find lcp_dec tag (take (unat len) data)))"
    by (rule lcpsub.sub_refines [where tail = "drop (unat len) data"]) (use assms(1) in auto)
  then show ?thesis
    unfolding ws_wp_nested_lcp_find_tag_def using assms(2) by (auto simp: lcp_find_def elim!: gives_mono)
qed

lemma lcp_read_safe:
  assumes "unat len \<le> length data"
  shows "gives (ws_wp_nested_lcp_read data len tag l) (\<lambda>(ok, l). ok \<longrightarrow>
    lcp_lfn_channel_plan_tag l = tag \<and> chan_info_ok (lcp_chan_plan l))"
proof -
  have t: "rnum le_val 1 (lcp_find data len tag) = tag" if "rskip n (lcp_find data len tag) \<noteq> None" for n
    using that by (cases "tlv_find lcp_dec tag (take (unat len) data)")
      (auto simp: lcp_find_def rnum_def take_bytes_def)
  show ?thesis
    unfolding ws_wp_nested_lcp_read_def Let_def
    by (intro nested_rules lcp_find_tag assms; (assumption | simp)?)
       (use t in \<open>auto simp: rerr_rview chan_info_ok_def plan_ok_def split: ws_channel_plan.splits\<close>)
qed

text \<open>The remaining readers, by what they return.\<close>

abbreviation num_in :: "u8 list option \<Rightarrow> nat \<Rightarrow> nat \<Rightarrow> 'a::len word" where
  "num_in s off n \<equiv> rnum le_val n (rskip off s)"

lemma pan_read:
  assumes "unat len \<le> length data"
  shows "gives (ws_wp_nested_pan_read data len pc) (\<lambda>r. r =
    (let s = wp_find data len WS_WPIE_PAN False; t = num_in s 4 1; v = get8 WS_WPIE_PAN_FAN_TPS_VERSION_MASK t
     in (rskip 5 s \<noteq> None, pc\<lparr>pan_size := num_in s 0 2, pan_routing_cost := num_in s 2 2,
       pan_use_parent_bs := (get8 WS_WPIE_PAN_USE_PARENT_BS_IE_MASK t \<noteq> 0),
       pan_rpl_routing_method := (get8 WS_WPIE_PAN_ROUTING_METHOD_MASK t \<noteq> 0), pan_version := v,
       pan_lfn_window_style := (WS_FAN_VERSION_1_0 < v \<and> get8 WS_WPIE_PAN_LFN_WINDOW_STYLE_MASK t \<noteq> 0)\<rparr>)))"
  unfolding ws_wp_nested_pan_read_def Let_def
  by (intro nested_rules assms) (auto simp: rerr_rview rskip_0 eval_nat_numeral)

lemma panver_read:
  assumes "unat len \<le> length data"
  shows "gives (ws_wp_nested_panver_read data len) (\<lambda>r. r =
    (let s = wp_find data len WS_WPIE_PANVER False in (rskip 2 s \<noteq> None, num_in s 0 2)))"
  unfolding ws_wp_nested_panver_read_def Let_def
  by (intro nested_rules assms) (auto simp: rerr_rview rskip_0)

lemma lfnver_read:
  assumes "unat len \<le> length data"
  shows "gives (ws_wp_nested_lfnver_read data len) (\<lambda>r. r =
    (let s = wp_find data len WS_WPIE_LFNVER False in (rskip 2 s \<noteq> None, \<lparr>lfnver_lfn_version = num_in s 0 2\<rparr>)))"
  unfolding ws_wp_nested_lfnver_read_def Let_def
  by (intro nested_rules assms) (auto simp: rerr_rview rskip_0)

lemma lbats_read:
  assumes "unat len \<le> length data"
  shows "gives (ws_wp_nested_lbats_read data len) (\<lambda>r. r =
    (let s = wp_find data len WS_WPIE_LBATS True in
     (rskip 3 s \<noteq> None, \<lparr>lbats_additional_transmissions = num_in s 0 1, lbats_next_transmit_delay = num_in s 1 2\<rparr>)))"
  unfolding ws_wp_nested_lbats_read_def Let_def
  by (intro nested_rules assms) (auto simp: rerr_rview rskip_0 eval_nat_numeral)

lemma gtkhash_read:
  assumes "unat len \<le> length data" and "length g = 32"
  shows "gives (ws_wp_nested_gtkhash_read data len g) (\<lambda>r. r =
    (let s = wp_find data len WS_WPIE_GTKHASH False in (rskip 32 s \<noteq> None, Some (rdat 32 s))))"
  unfolding ws_wp_nested_gtkhash_read_def Let_def
  by (intro nested_rules pop_data_any assms(1)) (auto simp: rerr_rview rskip_0 assms(2))

lemma lookup_found_len:
  "ie_lookup dec bs = Found c \<Longrightarrow> \<exists>h. dec h = Some (True, length c)"
proof (induction dec bs rule: ie_lookup.induct)
  case (1 dec bs)
  note l = 1(2) [unfolded ie_lookup.simps [of dec bs]]
  show ?case
  proof (cases "dec (word_of_nat (le_val (take 2 bs)))")
    case None
    then show ?thesis using l by (auto split: if_splits option.splits)
  next
    case (Some mn)
    obtain m n where mn: "mn = (m, n)" by (cases mn)
    show ?thesis
    proof (cases "m \<or> length (drop 2 bs) < n \<or> length bs < 2")
      case True
      then have "m" "c = take n (drop 2 bs)" "\<not> length (drop 2 bs) < n"
        using l Some mn by (auto split: if_splits option.splits)
      then show ?thesis using Some mn by auto
    next
      case False
      then show ?thesis using 1(1) [OF _ _ Some mn [symmetric]] l Some mn by (auto split: if_splits)
    qed
  qed
qed

lemma short_content: "wp_find data len ie_id False = Some c \<Longrightarrow> length c < 256"
  using lookup_found_len [of "dec_nested ie_id False" "take (unat len) data" c] nshort.get_len_bound
  by (auto simp: wp_find_def dec_nested_def Let_def split: ie_result.splits if_splits) (erule subst, simp)

lemma netname_step:
  assumes "wf_read b" and "\<And>c. rview b = Some c \<Longrightarrow> length c < 256"
  shows "gives (do { p \<leftarrow> iobuf_ptr b;
          let nn = \<lparr>network_name = p, network_name_length = word_of_int (iobuf_remaining_size b)\<rparr>;
          if 32 < unat (network_name_length nn) then Some (False, nn)
          else Some (\<not> rerr b, nn) }) (\<lambda>(ok, nn).
     ok = (\<exists>c. rview b = Some c \<and> length c \<le> 32) \<and>
     (ok \<longrightarrow> rview b = Some (take (unat (network_name_length nn)) (network_name nn)) \<and>
        unat (network_name_length nn) \<le> length (network_name nn)))"
proof -
  have p: "iobuf_ptr b = Some (drop (nat (rcnt b)) (rdata b))"
    using assms(1) by (auto simp: iobuf_ptr_def ptr_at_def wf_read_def)
  have r: "iobuf_remaining_size b = int (length (rrest b))"
    using rrest_length [OF assms(1)] by (simp add: iobuf_remaining_size_def)
  have l: "length (rrest b) \<le> length (drop (nat (rcnt b)) (rdata b))" by (simp add: rrest_def)
  have t: "take (length (rrest b)) (drop (nat (rcnt b)) (rdata b)) = rrest b"
    by (simp add: rrest_def min_def)
  show ?thesis
  proof (cases "rerr b")
    case True
    then show ?thesis by (simp add: p rview_def Let_def)
  next
    case False
    then have "length (rrest b) < 256" using assms(2) by (simp add: rview_def)
    then show ?thesis using False l t by (simp add: p r rview_def Let_def)
  qed
qed

lemma netname_read:
  assumes "unat len \<le> length data"
  shows "gives (ws_wp_nested_netname_read data len) (\<lambda>(ok, nn).
     ok = (\<exists>c. wp_find data len WS_WPIE_NETNAME False = Some c \<and> length c \<le> 32) \<and>
     (ok \<longrightarrow> wp_find data len WS_WPIE_NETNAME False =
        Some (take (unat (network_name_length nn)) (network_name nn)) \<and>
        unat (network_name_length nn) \<le> length (network_name nn)))"
  unfolding ws_wp_nested_netname_read_def
proof (intro gives_bind_pair find_nested assms)
  fix r b
  assume b: "wf_read b" "rview b = wp_find data len WS_WPIE_NETNAME False"
  have "length c < 256" if "rview b = Some c" for c using short_content that by (simp add: b(2))
  from netname_step [OF b(1) this] show "gives (iobuf_ptr (snd (r, b)) \<bind>
      (\<lambda>p. let nn = \<lparr>network_name = p, network_name_length = word_of_int (iobuf_remaining_size (snd (r, b)))\<rparr>
           in if 32 < unat (network_name_length nn) then Some (False, nn) else Some (\<not> rerr (snd (r, b)), nn)))
    (\<lambda>(ok, nn). ok = (\<exists>c. wp_find data len WS_WPIE_NETNAME False = Some c \<and> length c \<le> 32) \<and>
     (ok \<longrightarrow> wp_find data len WS_WPIE_NETNAME False =
        Some (take (unat (network_name_length nn)) (network_name nn)) \<and>
        unat (network_name_length nn) \<le> length (network_name nn)))"
    by (simp only: b(2) snd_conv)
qed

text \<open>The operating modes: a null pointer exactly when there is no mode, otherwise as many bytes as announced.\<close>

lemma pom_read:
  assumes "unat len \<le> length data"
  shows "gives (ws_wp_nested_pom_read data len pom) (\<lambda>(ok, pom).
    (let s = wp_find data len WS_WPIE_POM False;
         n = get8 WS_WPIE_POM_PHY_OP_MODE_NUMBER_MASK (num_in s 0 1) in
     ok = (rskip (1 + unat n) s \<noteq> None) \<and> pom_phy_op_mode_number pom = n \<and>
     pom_mdr_command_capable pom = get8 WS_WPIE_POM_MDR_CAPABLE_MASK (num_in s 0 1) \<and>
     (ok \<longrightarrow> (if n = 0 then pom_phy_op_mode_id pom = None
        else \<exists>p. pom_phy_op_mode_id pom = Some p \<and> unat n \<le> length p \<and> take (unat n) p = rdat (unat n) (rskip 1 s)))))"
  unfolding ws_wp_nested_pom_read_def Let_def
  by (intro nested_rules gives_if pop_data_ptr_any assms; (assumption | simp)?)
     (auto simp: rerr_rview rskip_0 ptr_of_def)

lemma pop_hashes_any:
  assumes "wf_read b" and "\<forall>h \<in> set hs. length h = 8" and "i + n \<le> length hs"
  shows "gives (pop_hashes b valid hs i n) (\<lambda>(hs', b). wf_read b \<and> length hs' = length hs \<and> (\<forall>h \<in> set hs'. length h = 8))"
  using assms
proof (induction n arbitrary: b hs i)
  case 0
  then show ?case by simp
next
  case (Suc n)
  have i: "i < length hs" "length (hs ! i) = 8" using Suc.prems by auto
  have rest: "gives (pop_hashes b' valid (hs[i := h]) (Suc i) n)
      (\<lambda>(hs', b). wf_read b \<and> length hs' = length hs \<and> (\<forall>h \<in> set hs'. length h = 8))"
    if "wf_read b'" "length h = 8" for b' h
    using Suc.IH [of b' "hs[i := h]" "Suc i"] that Suc.prems i
    by (auto dest!: set_update_subset_insert [THEN subsetD])
  have l: "load hs i = Some (hs ! i)" "\<And>h. store hs i h = Some (hs[i := h])" using i by (simp_all add: load_in store_in)
  have z: "store_n (hs ! i) 0 (replicate 8 0) = Some (replicate 8 0)" using i by (simp add: store_n_def)
  show ?case
  proof (cases "valid AND push_bit i 1 = 0")
    case True
    then show ?thesis using rest [OF Suc.prems(1), of "replicate 8 0"] by (simp add: l z)
  next
    case False
    then have "pop_hashes b valid hs i (Suc n) =
        iobuf_pop_data b (Some (hs ! i)) 8 \<bind> (\<lambda>(h, b). h \<bind> (\<lambda>h. pop_hashes b valid (hs[i := h]) (Suc i) n))"
      by (auto simp: l case_prod_beta intro!: Option.bind_cong)
    then show ?thesis
      using rest i(2) Suc.prems(1) by (auto intro!: gives_bind_pair pop_data_any)
  qed
qed

section \<open>What the schedule writers write\<close>

abbreviation func_of :: "ws_hopping_schedule \<Rightarrow> bool \<Rightarrow> u8" where
  "func_of hs uc \<equiv> if uc then uc_channel_function hs else bc_channel_function hs"

abbreviation fixed_of :: "ws_hopping_schedule \<Rightarrow> bool \<Rightarrow> u16" where
  "fixed_of hs uc \<equiv> if uc then uc_fixed_channel hs else bc_fixed_channel hs"

abbreviation excl_of :: "ws_hopping_schedule \<Rightarrow> bool \<Rightarrow> ws_excluded_channel_data" where
  "excl_of hs uc \<equiv> if uc then uc_excluded_channels hs else bc_excluded_channels hs"

definition base_byte :: "ws_hopping_schedule \<Rightarrow> bool \<Rightarrow> u8" where
  "base_byte hs uc = prep8 WS_WPIE_SCHEDULE_CHAN_PLAN_MASK (channel_plan hs) OR
     prep8 WS_WPIE_SCHEDULE_CHAN_FUNC_MASK (func_of hs uc) OR
     prep8 WS_WPIE_SCHEDULE_EXCL_CHAN_CTL_MASK (ex_excluded_channel_ctrl (excl_of hs uc))"

definition plan_bytes :: "ws_hopping_schedule \<Rightarrow> u8 list" where
  "plan_bytes hs = (if channel_plan hs = 0 then [regulatory_domain hs, operating_class hs]
     else if channel_plan hs = 1 then le_bytes 3 (unat (ch0_freq hs div 1000)) @ channel_spacing hs #
       le_bytes 2 (unat (ucast (number_of_channels hs) :: u16))
     else [regulatory_domain hs, channel_plan_id hs])"

definition func_bytes :: "ws_hopping_schedule \<Rightarrow> bool \<Rightarrow> u8 list" where
  "func_bytes hs uc = (if func_of hs uc = 0 then le_bytes 2 (unat (fixed_of hs uc)) else [])"

definition range_bytes :: "ws_excluded_channel_range_data list \<Rightarrow> u8 list" where
  "range_bytes rs = concat (map (\<lambda>r. le_bytes 2 (unat (range_start r)) @ le_bytes 2 (unat (range_end r))) rs)"

definition excl_bytes :: "ws_excluded_channel_data \<Rightarrow> u8 list" where
  "excl_bytes ex = (if ex_excluded_channel_ctrl ex = 1
     then ex_excluded_range_length ex # range_bytes (take (unat (ex_excluded_range_length ex)) (ex_excluded_range ex))
     else if ex_excluded_channel_ctrl ex = 2 then take (unat (ex_channel_mask_bytes_inline ex)) (ex_channel_mask ex)
     else [])"

definition sched_bytes :: "ws_hopping_schedule \<Rightarrow> bool \<Rightarrow> u8 list" where
  "sched_bytes hs uc = base_byte hs uc # plan_bytes hs @ func_bytes hs uc @ excl_bytes (excl_of hs uc)"

text \<open>
  Schedules the writers accept: known plan, function and kind of exclusion, at most three ranges
  (the size of the array), a mask of at most 32 bytes that fits the plan.
\<close>

definition excl_ok :: "ws_excluded_channel_data \<Rightarrow> bool" where
  "excl_ok ex \<longleftrightarrow> ex_excluded_channel_ctrl ex \<in> {0, 1, 2} \<and> length (ex_excluded_range ex) = 3 \<and>
     length (ex_channel_mask ex) = 32 \<and> unat (ex_excluded_range_length ex) \<le> 3 \<and>
     unat (ex_channel_mask_bytes_inline ex) \<le> 32"

definition sched_ok :: "ws_hopping_schedule \<Rightarrow> bool \<Rightarrow> bool" where
  "sched_ok hs uc \<longleftrightarrow> channel_plan hs \<in> {0, 1, 2} \<and> func_of hs uc \<in> {0, 1, 2} \<and> excl_ok (excl_of hs uc) \<and>
     unat (channel_spacing hs) < 16 \<and>
     (channel_plan hs = 1 \<and> ex_excluded_channel_ctrl (excl_of hs uc) = 2 \<longrightarrow>
        unat (ex_channel_mask_bytes_inline (excl_of hs uc)) = (unat (number_of_channels hs) + 7) div 8)"

lemma ranges_pushes:
  assumes "wf_write buf" and "i + n \<le> length rs"
  shows "pushes (push_ranges buf rs i n) buf (range_bytes (take n (drop i rs)))"
  using assms
proof (induction n arbitrary: buf i)
  case 0
  then show ?case by (simp add: pushes_Some range_bytes_def)
next
  case (Suc n)
  then have i: "i < length rs" by simp
  then have "take (Suc n) (drop i rs) = rs ! i # take n (drop (Suc i) rs)" by (metis Cons_nth_drop_Suc take_Suc_Cons)
  then have "range_bytes (take (Suc n) (drop i rs)) = le_bytes 2 (unat (range_start (rs ! i))) @
      le_bytes 2 (unat (range_end (rs ! i))) @ range_bytes (take n (drop (Suc i) rs))"
    by (simp add: range_bytes_def)
  moreover have "pushes (push_ranges b rs (Suc i) n) b (range_bytes (take n (drop (Suc i) rs)))" if "wf_write b" for b
    using Suc.IH [OF that, of "Suc i"] Suc.prems by simp
  ultimately show ?case
    using Suc.prems(1) i by (simp add: load_in) (intro pushes_bind push_numbers)
qed

lemma length_range_bytes: "length (range_bytes rs) = 4 * length rs"
  by (induction rs) (auto simp: range_bytes_def)

lemma plan_pushes:
  "wf_write buf \<Longrightarrow> channel_plan hs \<in> {0, 1, 2} \<Longrightarrow> pushes (ws_wp_chan_plan_write buf hs) buf (plan_bytes hs)"
  unfolding pushes_gives ws_wp_chan_plan_write_def
  by (intro gives_if gives_bind gives_push) (auto simp: plan_bytes_def)

lemma func_pushes:
  "wf_write buf \<Longrightarrow> func_of hs uc \<in> {0, 1, 2} \<Longrightarrow> pushes (ws_wp_chan_func_write buf hs uc) buf (func_bytes hs uc)"
  unfolding pushes_gives ws_wp_chan_func_write_def Let_def
  by (intro gives_if gives_bind gives_push) (auto simp: func_bytes_def chan_consts)

lemma excl_pushes:
  assumes "wf_write buf" and "excl_ok (excl_of hs uc)"
  shows "pushes (ws_wp_chan_excl_write buf hs uc) buf (excl_bytes (excl_of hs uc))"
proof -
  have "pushes (iobuf_push_u8 buf (ex_excluded_range_length ex) \<bind>
      (\<lambda>buf. push_ranges buf (ex_excluded_range ex) 0 (unat (ex_excluded_range_length ex)))) buf
      ([ex_excluded_range_length ex] @ range_bytes (take (unat (ex_excluded_range_length ex)) (ex_excluded_range ex)))"
    if "excl_ok ex" for ex
    using that assms(1) ranges_pushes [where i = 0 and n = "unat (ex_excluded_range_length ex)" and rs = "ex_excluded_range ex"]
    by (intro pushes_bind push_u8) (auto simp: excl_ok_def)
  moreover have "pushes (iobuf_push_data buf (ex_channel_mask ex) (unat (ex_channel_mask_bytes_inline ex))) buf
      (take (unat (ex_channel_mask_bytes_inline ex)) (ex_channel_mask ex))" if "excl_ok ex" for ex
    using that assms(1) by (intro push_data) (auto simp: excl_ok_def)
  ultimately show ?thesis
    using assms pushes_Some [OF assms(1)]
    by (auto simp: ws_wp_chan_excl_write_def excl_bytes_def chan_consts Let_def excl_ok_def)
qed

lemma sched_pushes:
  assumes "wf_write buf" and "sched_ok hs uc"
  shows "pushes (ws_wp_schedule_write buf hs uc) buf (sched_bytes hs uc)"
proof -
  have "pushes (ws_wp_schedule_write buf hs uc) buf
      ([base_byte hs uc] @ plan_bytes hs @ func_bytes hs uc @ excl_bytes (excl_of hs uc))"
    unfolding ws_wp_schedule_write_def
  proof (intro pushes_bind)
    show "pushes (ws_wp_schedule_base_write buf hs uc) buf [base_byte hs uc]"
      using push_u8 [OF assms(1), of "base_byte hs uc"]
      by (simp add: ws_wp_schedule_base_write_def base_byte_def Let_def or.assoc)
  qed (use assms(2) in \<open>simp_all only: sched_ok_def plan_pushes func_pushes excl_pushes\<close>)
  then show ?thesis by (simp add: sched_bytes_def)
qed

lemma plan_len: "channel_plan hs \<in> {0, 1, 2} \<Longrightarrow> ws_chan_plan_len hs = Some (word_of_nat (length (plan_bytes hs)))"
  by (auto simp: ws_chan_plan_len_def plan_bytes_def)

lemma func_len: "func_of hs uc \<in> {0, 1, 2} \<Longrightarrow> ws_chan_func_len hs uc = Some (word_of_nat (length (func_bytes hs uc)))"
  by (auto simp: ws_chan_func_len_def func_bytes_def chan_consts Let_def)

lemma excl_len:
  assumes "excl_ok (excl_of hs uc)"
  shows "ws_chan_excl_len hs uc = Some (word_of_nat (length (excl_bytes (excl_of hs uc))))"
proof -
  have "(1 + 4 * ucast (ex_excluded_range_length ex) :: u16) =
      word_of_nat (Suc (length (range_bytes (take (unat (ex_excluded_range_length ex)) (ex_excluded_range ex)))))"
    if "excl_ok ex" for ex
    using that by (simp add: length_range_bytes excl_ok_def min_absorb2)
  moreover have "(ucast (ex_channel_mask_bytes_inline ex) :: u16) =
      word_of_nat (length (take (unat (ex_channel_mask_bytes_inline ex)) (ex_channel_mask ex)))" if "excl_ok ex" for ex
    using that by (simp add: excl_ok_def min_absorb2)
  ultimately show ?thesis
    using assms by (auto simp: ws_chan_excl_len_def excl_bytes_def chan_consts Let_def excl_ok_def)
qed

lemma length_plan_bytes: "length (plan_bytes hs) \<le> 6"
  by (simp add: plan_bytes_def)

lemma length_func_bytes: "length (func_bytes hs uc) \<le> 2"
  by (simp add: func_bytes_def)

lemma length_excl_bytes: "excl_ok ex \<Longrightarrow> length (excl_bytes ex) \<le> 32"
  by (auto simp: excl_bytes_def excl_ok_def length_range_bytes)

lemma length_sched_bytes: "sched_ok hs uc \<Longrightarrow> length (sched_bytes hs uc) \<le> 41"
  using length_plan_bytes [of hs] length_func_bytes [of hs uc] length_excl_bytes [of "excl_of hs uc"]
  by (simp add: sched_bytes_def sched_ok_def)

lemma schedule_length:
  assumes "sched_ok hs uc"
  shows "ws_wp_nested_hopping_schedule_length hs uc =
    Some (word_of_nat ((if uc then 3 else 9) + length (sched_bytes hs uc)))"
proof -
  have "ws_chan_plan_len hs = Some (word_of_nat (length (plan_bytes hs)))"
    "ws_chan_func_len hs uc = Some (word_of_nat (length (func_bytes hs uc)))"
    "ws_chan_excl_len hs uc = Some (word_of_nat (length (excl_bytes (excl_of hs uc))))"
    using assms plan_len func_len excl_len unfolding sched_ok_def by blast+
  then show ?thesis
    by (simp only: ws_wp_nested_hopping_schedule_length_def Let_def Option.bind.simps)
       (simp add: sched_bytes_def add_ac)
qed

section \<open>What the schedule readers read\<close>

lemma base_fields:
  assumes "channel_plan hs \<in> {0, 1, 2}" "func_of hs uc \<in> {0, 1, 2}"
    "ex_excluded_channel_ctrl (excl_of hs uc) \<in> {0, 1, 2}"
  shows "get8 WS_WPIE_SCHEDULE_CHAN_PLAN_MASK (base_byte hs uc) = channel_plan hs"
    "get8 WS_WPIE_SCHEDULE_CHAN_FUNC_MASK (base_byte hs uc) = func_of hs uc"
    "get8 WS_WPIE_SCHEDULE_EXCL_CHAN_CTL_MASK (base_byte hs uc) = ex_excluded_channel_ctrl (excl_of hs uc)"
proof -
  have "\<forall>p \<in> {0, 1, 2}. \<forall>f \<in> {0, 1, 2}. \<forall>x \<in> {0, 1, 2 :: u8}.
      (let b = prep8 WS_WPIE_SCHEDULE_CHAN_PLAN_MASK p OR prep8 WS_WPIE_SCHEDULE_CHAN_FUNC_MASK f OR
         prep8 WS_WPIE_SCHEDULE_EXCL_CHAN_CTL_MASK x in
       get8 WS_WPIE_SCHEDULE_CHAN_PLAN_MASK b = p \<and> get8 WS_WPIE_SCHEDULE_CHAN_FUNC_MASK b = f \<and>
       get8 WS_WPIE_SCHEDULE_EXCL_CHAN_CTL_MASK b = x)"
    by code_simp
  then have "get8 WS_WPIE_SCHEDULE_CHAN_PLAN_MASK (base_byte hs uc) = channel_plan hs \<and>
    get8 WS_WPIE_SCHEDULE_CHAN_FUNC_MASK (base_byte hs uc) = func_of hs uc \<and>
    get8 WS_WPIE_SCHEDULE_EXCL_CHAN_CTL_MASK (base_byte hs uc) = ex_excluded_channel_ctrl (excl_of hs uc)"
    using assms unfolding base_byte_def Let_def by blast
  then show "get8 WS_WPIE_SCHEDULE_CHAN_PLAN_MASK (base_byte hs uc) = channel_plan hs"
    "get8 WS_WPIE_SCHEDULE_CHAN_FUNC_MASK (base_byte hs uc) = func_of hs uc"
    "get8 WS_WPIE_SCHEDULE_EXCL_CHAN_CTL_MASK (base_byte hs uc) = ex_excluded_channel_ctrl (excl_of hs uc)"
    by blast+
qed

definition plan_of :: "ws_hopping_schedule \<Rightarrow> ws_channel_plan" where
  "plan_of hs = (if channel_plan hs = 0 then Plan_zero (regulatory_domain hs) (operating_class hs)
     else if channel_plan hs = 1
     then Plan_one (ch0_freq hs div 1000) (channel_spacing hs) (ucast (number_of_channels hs))
     else Plan_two (regulatory_domain hs) (channel_plan_id hs))"

lemma rnum_u8: "rnum le_val (Suc 0) (Some (v # r)) = (v :: u8)"
  using rnum_enc(1) by simp

lemma khz_small: "unat (f div 1000 :: u32) < 2 ^ 24"
  using unat_u32_lt [of f] by (simp add: unat_div_distrib)

lemma and_0x0F_small: "unat (v :: u8) < 16 \<Longrightarrow> v AND 0x0F = v"
proof -
  assume "unat v < 16"
  then have "take_bit 4 v = v" by (simp add: word_unat_eq_iff unsigned_take_bit_eq take_bit_nat_eq_self_iff)
  then show ?thesis by (simp add: take_bit_eq_mask mask_eq_exp_minus_1)
qed

lemma plan_read_known:
  assumes "wf_read b" and "rview b = Some (plan_bytes hs @ r)" and "gc_channel_plan ci = channel_plan hs"
    and "channel_plan hs \<in> {0, 1, 2}" and "unat (channel_spacing hs) < 16"
    and "\<And>b'. wf_read b' \<Longrightarrow> rview b' = Some r \<Longrightarrow> Q (b', ci\<lparr>gc_plan := plan_of hs\<rparr>)"
  shows "gives (ws_channel_plan_read b ci) Q"
  unfolding ws_channel_plan_read_def
  using assms(2-5)
  by (intro wp_rules assms(1); (assumption | simp)?)
     (use assms(6) in \<open>auto simp: plan_bytes_def plan_of_def rnum_u8 rnum_enc(2,3) khz_small [simplified] and_0x0F_small\<close>)

lemma function_read_known:
  assumes "wf_read b" and "rview b = Some (func_bytes hs uc @ r)" and "gc_channel_function ci = func_of hs uc"
    and "func_of hs uc \<in> {0, 1, 2}"
    and "\<And>b' f. wf_read b' \<Longrightarrow> rview b' = Some r \<Longrightarrow> (func_of hs uc = 0 \<Longrightarrow> f = Function_zero (fixed_of hs uc)) \<Longrightarrow>
      Q (b', ci\<lparr>gc_function := f\<rparr>)"
  shows "gives (ws_channel_function_read b ci) Q"
proof (cases "func_of hs uc = 0")
  case True
  then show ?thesis
    unfolding ws_channel_function_read_def
    using assms(2-4)
    by simp (intro wp_rules assms(1); auto intro!: assms(5) simp: func_bytes_def rnum_enc(2))
next
  case False
  then have "Q (b, ci\<lparr>gc_function := gc_function ci\<rparr>)"
    using assms(2) by (intro assms(5) assms(1)) (auto simp: func_bytes_def)
  then show ?thesis
    unfolding ws_channel_function_read_def using assms(3,4) False by auto
qed

text \<open>What the receiver knows about the excluded channels.\<close>

definition excl_received :: "ws_excluded_channel_data \<Rightarrow> ws_excluded_channel \<Rightarrow> bool" where
  "excl_received ex e \<longleftrightarrow>
     (ex_excluded_channel_ctrl ex = 1 \<longrightarrow> (\<exists>p. e = Excluded_range (ex_excluded_range_length ex) (Some p) \<and>
        take (4 * unat (ex_excluded_range_length ex)) p =
          range_bytes (take (unat (ex_excluded_range_length ex)) (ex_excluded_range ex)))) \<and>
     (ex_excluded_channel_ctrl ex = 2 \<longrightarrow> (\<exists>p. e = Excluded_mask (Some p) (ex_channel_mask_bytes_inline ex) \<and>
        take (unat (ex_channel_mask_bytes_inline ex)) p =
          take (unat (ex_channel_mask_bytes_inline ex)) (ex_channel_mask ex)))"

lemma mask_read_known:
  assumes "wf_read b" and "rview b = Some (take (unat n) m)" and "unat n \<le> length m"
    and "\<And>b' p. wf_read b' \<Longrightarrow> rview b' = Some [] \<Longrightarrow> take (unat n) p = take (unat n) m \<Longrightarrow>
      Q (b', ci\<lparr>gc_excluded_channels := Excluded_mask (Some p) n\<rparr>)"
  shows "gives (iobuf_pop_data_ptr b (unat n) \<bind>
      (\<lambda>(p, ie_buf). Some (ie_buf, ci\<lparr>gc_excluded_channels := Excluded_mask (ptr_of ie_buf p) n\<rparr>))) Q"
  by (intro gives_bind_pair pop_data_ptr_any assms(1))
     (use assms(2,3) in \<open>auto intro!: assms(4) simp: ptr_of_def rdat_def take_bytes_def\<close>)

lemma range_read_known:
  assumes "wf_read b" and "rview b = Some (n # rb)" and "length rb = 4 * unat n"
    and "\<And>b' p. wf_read b' \<Longrightarrow> rview b' = Some [] \<Longrightarrow> take (4 * unat n) p = rb \<Longrightarrow>
      Q (b', ci\<lparr>gc_excluded_channels := Excluded_range n (Some p)\<rparr>)"
  shows "gives (do { (a, ie_buf) \<leftarrow> iobuf_pop_u8 b; (p, ie_buf) \<leftarrow> iobuf_pop_data_ptr ie_buf (4 * unat a);
             Some (ie_buf, ci\<lparr>gc_excluded_channels := Excluded_range a (ptr_of ie_buf p)\<rparr>) }) Q"
  by (intro gives_bind_pair pop_u8_any pop_data_ptr_any assms(1); (assumption | simp)?)
     (use assms(2,3) in \<open>auto intro!: assms(4) simp: ptr_of_def rdat_def take_bytes_def rnum_u8\<close>)

lemma excluded_read_known:
  assumes "wf_read b" and "rview b = Some (excl_bytes ex)" and "excl_ok ex"
    and "gc_excluded_channel_ctrl ci = ex_excluded_channel_ctrl ex" and "gc_channel_plan ci = channel_plan hs"
    and "gc_plan ci = plan_of hs"
    and "channel_plan hs = 1 \<Longrightarrow> ex_excluded_channel_ctrl ex = 2 \<Longrightarrow>
      unat (ex_channel_mask_bytes_inline ex) = (unat (number_of_channels hs) + 7) div 8"
    and "\<And>b' e. wf_read b' \<Longrightarrow> rview b' = Some [] \<Longrightarrow> excl_received ex e \<Longrightarrow> Q (b', ci\<lparr>gc_excluded_channels := e\<rparr>)"
  shows "gives (ws_channel_excluded_read b ci) Q"
proof -
  consider "ex_excluded_channel_ctrl ex = 0" | "ex_excluded_channel_ctrl ex = 1" | "ex_excluded_channel_ctrl ex = 2"
    using assms(3) by (auto simp: excl_ok_def)
  then show ?thesis
  proof cases
    case 1
    then have "Q (b, ci\<lparr>gc_excluded_channels := gc_excluded_channels ci\<rparr>)"
      using assms(1,2) by (intro assms(8)) (auto simp: excl_bytes_def excl_received_def)
    then show ?thesis using 1 assms(4) by (simp add: ws_channel_excluded_read_def chan_consts)
  next
    case 2
    let ?n = "ex_excluded_range_length ex"
    have "gives (do { (a, ie_buf) \<leftarrow> iobuf_pop_u8 b; (p, ie_buf) \<leftarrow> iobuf_pop_data_ptr ie_buf (4 * unat a);
             Some (ie_buf, ci\<lparr>gc_excluded_channels := Excluded_range a (ptr_of ie_buf p)\<rparr>) }) Q"
      using 2 assms(2,3)
      by (intro range_read_known [of _ ?n "range_bytes (take (unat ?n) (ex_excluded_range ex))"] assms(1,8))
         (auto simp: excl_bytes_def excl_ok_def length_range_bytes excl_received_def)
    then show ?thesis using 2 assms(4) by (simp add: ws_channel_excluded_read_def chan_consts)
  next
    case 3
    let ?n = "ex_channel_mask_bytes_inline ex"
    have "iobuf_remaining_size b = int (unat ?n)"
      using rrest_length [OF assms(1)] assms(2,3) 3
      by (auto simp: iobuf_remaining_size_def rview_def excl_bytes_def excl_ok_def min_def split: if_splits)
    then have rem: "word_of_int (iobuf_remaining_size b) = ?n" by simp
    have one: "word_of_nat ((unat (number_of_channels hs) + 7) div 8) = ?n" if "channel_plan hs = 1"
      using assms(7) [OF that 3] by (metis of_nat_unat ucast_id)
    have "gives (iobuf_pop_data_ptr b (unat ?n) \<bind>
      (\<lambda>(p, ie_buf). Some (ie_buf, ci\<lparr>gc_excluded_channels := Excluded_mask (ptr_of ie_buf p) ?n\<rparr>))) Q"
      using 3 assms(2,3) by (intro mask_read_known assms(1,8))
        (auto simp: excl_bytes_def excl_ok_def excl_received_def)
    then show ?thesis
      using 3 assms(4-6) one rem
      by (simp add: ws_channel_excluded_read_def chan_consts plan_of_def unat_ucast_up del: unat_word_of_nat_u8)
  qed
qed

definition sched_received :: "ws_hopping_schedule \<Rightarrow> bool \<Rightarrow> ws_generic_channel_info \<Rightarrow> bool" where
  "sched_received hs uc ci \<longleftrightarrow> gc_channel_plan ci = channel_plan hs \<and> gc_channel_function ci = func_of hs uc \<and>
     gc_excluded_channel_ctrl ci = ex_excluded_channel_ctrl (excl_of hs uc) \<and> gc_plan ci = plan_of hs \<and>
     (func_of hs uc = 0 \<longrightarrow> gc_function ci = Function_zero (fixed_of hs uc)) \<and>
     excl_received (excl_of hs uc) (gc_excluded_channels ci)"

lemma schedule_read_known:
  assumes "wf_read b" and "rview b = Some (plan_bytes hs @ func_bytes hs uc @ excl_bytes (excl_of hs uc))"
    and "sched_ok hs uc"
    and "\<And>b' cp. wf_read b' \<Longrightarrow> rview b' = Some [] \<Longrightarrow> sched_received hs uc cp \<Longrightarrow> gives (k b' cp) Q"
  shows "gives (do { (b, cp) \<leftarrow> ws_channel_plan_read b (ci
            \<lparr>gc_channel_plan := get8 WS_WPIE_SCHEDULE_CHAN_PLAN_MASK (base_byte hs uc),
             gc_channel_function := get8 WS_WPIE_SCHEDULE_CHAN_FUNC_MASK (base_byte hs uc),
             gc_excluded_channel_ctrl := get8 WS_WPIE_SCHEDULE_EXCL_CHAN_CTL_MASK (base_byte hs uc)\<rparr>);
          (b, cp) \<leftarrow> ws_channel_function_read b cp;
          (b, cp) \<leftarrow> ws_channel_excluded_read b cp;
          k b cp }) Q"
proof -
  have ok: "channel_plan hs \<in> {0, 1, 2}" "func_of hs uc \<in> {0, 1, 2}" "excl_ok (excl_of hs uc)"
    "unat (channel_spacing hs) < 16" "ex_excluded_channel_ctrl (excl_of hs uc) \<in> {0, 1, 2}"
    "channel_plan hs = 1 \<Longrightarrow> ex_excluded_channel_ctrl (excl_of hs uc) = 2 \<Longrightarrow>
      unat (ex_channel_mask_bytes_inline (excl_of hs uc)) = (unat (number_of_channels hs) + 7) div 8"
    using assms(3) unfolding sched_ok_def excl_ok_def by blast+
  note f = base_fields [OF ok(1,2,5)]
  show ?thesis
    unfolding f
    by (rule gives_bind_pair, rule plan_read_known [OF assms(1,2) _ ok(1,4)], simp,
        rule gives_bind_pair, rule function_read_known [where hs = hs and uc = uc and r = "excl_bytes (excl_of hs uc)"],
        simp, simp, simp, rule ok(2),
        rule gives_bind_pair, rule excluded_read_known [where ex = "excl_of hs uc" and hs = hs])
       (use ok(3,6) in \<open>auto intro!: assms(4) simp: sched_received_def\<close>)
qed

lemma us_received:
  assumes "unat len \<le> length data" and "sched_ok hs True"
    and "wp_find data len WS_WPIE_US True =
      Some (fhss_uc_dwell_interval hs # clock_drift hs # timing_accuracy hs # sched_bytes hs True)"
  shows "gives (ws_wp_nested_us_read data len us) (\<lambda>(ok, us'). ok \<and>
    us_dwell_interval us' = fhss_uc_dwell_interval hs \<and> us_clock_drift us' = clock_drift hs \<and>
    us_timing_accuracy us' = timing_accuracy hs \<and> sched_received hs True (us_chan_plan us'))"
  unfolding ws_wp_nested_us_read_def Let_def
  apply (intro gives_bind_pair [of "ieee802154_ie_find_nested _ _ _ _"] find_nested assms(1))
  apply (intro gives_bind_pair [of "iobuf_pop_u8 _"] pop_u8_any; (assumption | simp)?)
  apply (simp add: assms(3) sched_bytes_def rnum_u8 eval_nat_numeral)
  apply (rule schedule_read_known [where hs = hs and uc = True])
     apply (auto simp: rerr_rview assms(2))
  done

lemma bs_received:
  assumes "unat len \<le> length data" and "sched_ok hs False"
    and "wp_find data len WS_WPIE_BS True = Some (le_bytes 4 (unat (fhss_broadcast_interval hs)) @
      le_bytes 2 (unat (fhss_bsi hs)) @ fhss_bc_dwell_interval hs # clock_drift hs # timing_accuracy hs # sched_bytes hs False)"
  shows "gives (ws_wp_nested_bs_read data len bs) (\<lambda>(ok, bs'). ok \<and>
    bs_broadcast_interval bs' = fhss_broadcast_interval hs \<and> bs_broadcast_schedule_identifier bs' = fhss_bsi hs \<and>
    bs_dwell_interval bs' = fhss_bc_dwell_interval hs \<and> bs_clock_drift bs' = clock_drift hs \<and>
    bs_timing_accuracy bs' = timing_accuracy hs \<and> sched_received hs False (bs_chan_plan bs'))"
  unfolding ws_wp_nested_bs_read_def Let_def
  apply (intro gives_bind_pair [of "ieee802154_ie_find_nested _ _ _ _"] find_nested assms(1))
  apply (intro gives_bind_pair [of "iobuf_pop_u8 _"] gives_bind_pair [of "iobuf_pop_le16 _"]
      gives_bind_pair [of "iobuf_pop_le32 _"] pop_u8_any pop_number_any(2,6); (assumption | simp)?)
  apply (simp add: assms(3) sched_bytes_def rnum_u8 rnum_enc(2,4))
  apply (rule schedule_read_known [where hs = hs and uc = False])
     apply (auto simp: rerr_rview assms(2))
  done

lemma lcp_received:
  assumes "unat len \<le> length data" and "sched_ok hs True"
    and "lcp_find data len tag = Some (tag # sched_bytes hs True)"
  shows "gives (ws_wp_nested_lcp_read data len tag l) (\<lambda>(ok, l'). ok \<and>
    lcp_lfn_channel_plan_tag l' = tag \<and> sched_received hs True (lcp_chan_plan l'))"
  unfolding ws_wp_nested_lcp_read_def Let_def
  apply (intro gives_bind [of "ws_wp_nested_lcp_find_tag _ _ _"] lcp_find_tag assms(1))
  apply (intro gives_bind_pair [of "iobuf_pop_u8 _"] pop_u8_any; (assumption | simp)?)
  apply (simp add: assms(3) sched_bytes_def rnum_u8)
  apply (rule schedule_read_known [where hs = hs and uc = True])
     apply (auto simp: rerr_rview assms(2))
  done

section \<open>Frames of nested elements\<close>

datatype wp_ie = WP_us ws_hopping_schedule | WP_bs ws_hopping_schedule | WP_lcp u8 ws_hopping_schedule
  | WP_pan u16 u16 u8 | WP_netname "u8 list" u8 | WP_panver u16 | WP_gtkhash "u8 list list"
  | WP_pom u8 "u8 list" u8 | WP_lfnver u16 | WP_lbats ws_lbats_ie | WP_jm u8 u8

fun wp_write :: "iobuf_write \<Rightarrow> wp_ie \<Rightarrow> iobuf_write option" where
  "wp_write b (WP_us hs) = ws_wp_nested_us_write b hs"
| "wp_write b (WP_bs hs) = ws_wp_nested_bs_write b hs"
| "wp_write b (WP_lcp t hs) = ws_wp_nested_lcp_write b t hs"
| "wp_write b (WP_pan n c v) = ws_wp_nested_pan_write b n c v"
| "wp_write b (WP_netname s n) = ws_wp_nested_netname_write b s n"
| "wp_write b (WP_panver v) = ws_wp_nested_panver_write b v"
| "wp_write b (WP_gtkhash g) = ws_wp_nested_gtkhash_write b g"
| "wp_write b (WP_pom n m c) = ws_wp_nested_pom_write b n m c"
| "wp_write b (WP_lfnver v) = ws_wp_nested_lfnver_write b v"
| "wp_write b (WP_lbats l) = ws_wp_nested_lbats_write b l"
| "wp_write b (WP_jm v f) = ws_wp_nested_jm_plf_write b v f"

fun wp_id :: "wp_ie \<Rightarrow> bool \<times> u8" where
  "wp_id (WP_us _) = (True, WS_WPIE_US)"
| "wp_id (WP_bs _) = (True, WS_WPIE_BS)"
| "wp_id (WP_lcp _ _) = (True, WS_WPIE_LCP)"
| "wp_id (WP_pan _ _ _) = (False, WS_WPIE_PAN)"
| "wp_id (WP_netname _ _) = (False, WS_WPIE_NETNAME)"
| "wp_id (WP_panver _) = (False, WS_WPIE_PANVER)"
| "wp_id (WP_gtkhash _) = (False, WS_WPIE_GTKHASH)"
| "wp_id (WP_pom _ _ _) = (False, WS_WPIE_POM)"
| "wp_id (WP_lfnver _) = (False, WS_WPIE_LFNVER)"
| "wp_id (WP_lbats _) = (False, WS_WPIE_LBATS)"
| "wp_id (WP_jm _ _) = (False, WS_WPIE_JM)"

definition pan_byte :: "u8 \<Rightarrow> u8" where
  "pan_byte v = prep8 WS_WPIE_PAN_USE_PARENT_BS_IE_MASK 1 OR prep8 WS_WPIE_PAN_ROUTING_METHOD_MASK 1 OR
     prep8 WS_WPIE_PAN_LFN_WINDOW_STYLE_MASK 0 OR prep8 WS_WPIE_PAN_FAN_TPS_VERSION_MASK v"

definition pom_byte :: "u8 \<Rightarrow> u8 \<Rightarrow> u8" where
  "pom_byte n c = prep8 WS_WPIE_POM_PHY_OP_MODE_NUMBER_MASK n OR prep8 WS_WPIE_POM_MDR_CAPABLE_MASK c"

definition jm_byte :: u8 where
  "jm_byte = ucast (FIELD_PREP WS_WPIE_JM_METRIC_ID_MASK WS_JM_PLF) OR ucast (FIELD_PREP WS_WPIE_JM_METRIC_LEN_MASK 1)"

fun wp_content :: "wp_ie \<Rightarrow> u8 list" where
  "wp_content (WP_us hs) = fhss_uc_dwell_interval hs # clock_drift hs # timing_accuracy hs # sched_bytes hs True"
| "wp_content (WP_bs hs) = le_bytes 4 (unat (fhss_broadcast_interval hs)) @ le_bytes 2 (unat (fhss_bsi hs)) @
     fhss_bc_dwell_interval hs # clock_drift hs # timing_accuracy hs # sched_bytes hs False"
| "wp_content (WP_lcp t hs) = t # sched_bytes hs True"
| "wp_content (WP_pan n c v) = le_bytes 2 (unat n) @ le_bytes 2 (unat c) @ [pan_byte v]"
| "wp_content (WP_netname s n) = take (unat n) s"
| "wp_content (WP_panver v) = le_bytes 2 (unat v)"
| "wp_content (WP_gtkhash g) = concat (map (take 8) (take 4 g))"
| "wp_content (WP_pom n m c) = pom_byte n c # take (unat n) m"
| "wp_content (WP_lfnver v) = le_bytes 2 (unat v)"
| "wp_content (WP_lbats l) = lbats_additional_transmissions l # le_bytes 2 (unat (lbats_next_transmit_delay l))"
| "wp_content (WP_jm v f) = [v, jm_byte, f]"

fun wp_ok :: "wp_ie \<Rightarrow> bool" where
  "wp_ok (WP_us hs) \<longleftrightarrow> sched_ok hs True"
| "wp_ok (WP_bs hs) \<longleftrightarrow> sched_ok hs False"
| "wp_ok (WP_lcp t hs) \<longleftrightarrow> sched_ok hs True"
| "wp_ok (WP_pan n c v) \<longleftrightarrow> unat v < 8"
| "wp_ok (WP_netname s n) \<longleftrightarrow> unat n \<le> length s \<and> unat n \<le> 32"
| "wp_ok (WP_gtkhash g) \<longleftrightarrow> length g = 4 \<and> (\<forall>h \<in> set g. length h = 8)"
| "wp_ok (WP_pom n m c) \<longleftrightarrow> 0 < unat n \<and> unat n < 16 \<and> unat n \<le> length m \<and> unat c < 2"
| "wp_ok _ \<longleftrightarrow> True"

lemma length_concat_8: "\<forall>h \<in> set g. length h = 8 \<Longrightarrow> length (concat g) = 8 * length g"
  by (induction g) auto

lemma length_wp_content: "wp_ok x \<Longrightarrow> length (wp_content x) < 64"
proof (cases x)
  case (WP_gtkhash g)
  assume "wp_ok x"
  then have g: "length g = 4" "\<forall>h \<in> set g. length h = 8" using WP_gtkhash by auto
  then have "map (take 8) (take 4 g) = g" by (auto intro!: map_idI)
  then show ?thesis using WP_gtkhash length_concat_8 [OF g(2)] g(1) by simp
qed (use length_sched_bytes in \<open>force simp: min_def\<close>)+

lemma wp_fits: "wp_ok x \<Longrightarrow> nested_fits (fst (wp_id x), snd (wp_id x), wp_content x)"
  using length_wp_content [of x] by (cases x) (auto simp: nested_fits_def wpie_defs)

lemma nested_base_write:
  assumes "wf_write buf"
    and "\<And>b. wf_write b \<Longrightarrow> wbytes b = wbytes buf @ le_bytes 2 (unat (descr (nested_id_mask l) (nested_len_mask l) l ie_id 0)) \<Longrightarrow>
      gives (f (wlen buf) b) Q"
  shows "gives (ieee802154_ie_push_nested buf ie_id l \<bind> (\<lambda>(off, b). f off b)) Q"
  using assms nlong.gives_push_hdr nshort.gives_push_hdr
  by (cases l) (auto simp: ieee802154_ie_push_nested_def nested_id_mask_def nested_len_mask_def intro!: gives_bind_pair)

lemma nested_fill:
  assumes "wf_write b" and "wf_write buf"
    and "wbytes b = wbytes buf @ le_bytes 2 (unat (descr (nested_id_mask l) (nested_len_mask l) l ie_id 0)) @ c"
    and "nested_fits (l, ie_id, c)"
  shows "gives (ieee802154_ie_fill_len_nested b (wlen buf) l) (\<lambda>b. wf_write b \<and>
    wbytes b = wbytes buf @ ie_bytes (nested_id_mask l) (nested_len_mask l) l ie_id c)"
  using assms(4) nlong.gives_fill [of b buf True ie_id c] nshort.gives_fill [of b buf False ie_id c] assms(1-3)
  by (cases l) (simp_all add: ieee802154_ie_fill_len_nested_def nested_id_mask_def nested_len_mask_def nested_fits_def)

lemma hashes_pushes:
  assumes "wf_write buf" and "i + n \<le> length hs" and "\<forall>h \<in> set hs. length h = 8"
  shows "pushes (push_hashes buf hs i n) buf (concat (map (take 8) (take n (drop i hs))))"
  using assms(1,2)
proof (induction n arbitrary: buf i)
  case 0
  then show ?case by (simp add: pushes_Some)
next
  case (Suc n)
  then have i: "i < length hs" by simp
  then have t: "take (Suc n) (drop i hs) = hs ! i # take n (drop (Suc i) hs)" by (metis Cons_nth_drop_Suc take_Suc_Cons)
  have "pushes (iobuf_push_data buf (hs ! i) 8) buf (take 8 (hs ! i))"
    using Suc.prems(1) assms(3) i by (intro push_data) auto
  moreover have "pushes (push_hashes b hs (Suc i) n) b (concat (map (take 8) (take n (drop (Suc i) hs))))"
    if "wf_write b" for b
    using Suc.IH [OF that, of "Suc i"] Suc.prems by simp
  ultimately show ?case using i unfolding t by (simp add: load_in pushes_bind)
qed

lemmas wp_write_defs = ws_wp_nested_us_write_def ws_wp_nested_bs_write_def ws_wp_nested_lcp_write_def
  ws_wp_nested_pan_write_def ws_wp_nested_netname_write_def ws_wp_nested_panver_write_def
  ws_wp_nested_gtkhash_write_def ws_wp_nested_pom_write_def ws_wp_nested_lfnver_write_def
  ws_wp_nested_lbats_write_def ws_wp_nested_jm_plf_write_def

lemma gives_sched: "wf_write b \<Longrightarrow> sched_ok hs uc \<Longrightarrow>
    (\<And>b'. wf_write b' \<Longrightarrow> wbytes b' = wbytes b @ sched_bytes hs uc \<Longrightarrow> Q b') \<Longrightarrow> gives (ws_wp_schedule_write b hs uc) Q"
  by (rule gives_pushes [OF sched_pushes])

lemma wp_write_pushes:
  assumes "wf_write buf" and "wp_ok x"
  shows "pushes (wp_write buf x) buf (ie_bytes (nested_id_mask (fst (wp_id x))) (nested_len_mask (fst (wp_id x)))
      (fst (wp_id x)) (snd (wp_id x)) (wp_content x))"
proof -
  note fit = wp_fits [OF assms(2)]
  have hash: "gives (push_hashes b g 0 4) Q"
    if "wf_write b" "length g = 4" "\<forall>h \<in> set g. length h = 8"
      "\<And>b'. wf_write b' \<Longrightarrow> wbytes b' = wbytes b @ concat (map (take 8) (take 4 g)) \<Longrightarrow> Q b'" for b g Q
    using gives_pushes [OF hashes_pushes [of b 0 4 g], of Q] that by simp
  have pom: "n \<noteq> 0" if "x = WP_pom n m c" for n m c using assms(2) that by auto
  show ?thesis
    using assms(2) fit pom
    by (cases x; simp only: pushes_gives wp_write.simps wp_write_defs Let_def wp_id.simps fst_conv snd_conv
          if_False simp_thms wp_ie.inject HOL.simp_thms;
        intro nested_base_write gives_bind gives_push gives_sched hash nested_fill assms(1) gives_if;
        (assumption | simp add: pan_byte_def pom_byte_def jm_byte_def or.assoc)?)
qed

lemma dec_nested_descr:
  "nested_fits (l, i, c) \<Longrightarrow>
     dec_nested ie_id is_long (descr (nested_id_mask l) (nested_len_mask l) l i (length c)) =
       Some (l = is_long \<and> i = ie_id, length c)"
  by (cases l)
     (auto simp: dec_nested_def nested_id_mask_def nested_len_mask_def nlong.get_type_descr nshort.get_type_descr
       nlong.get_id_descr_eq nshort.get_id_descr_eq nlong.get_len_descr nshort.get_len_descr ucast_u8_eq nested_fits_def)

lemma wp_found:
  assumes "list_all wp_ok xs" and "length xs \<le> 900"
  shows "\<exists>w. push_all wp_write iobuf_init xs = Some w \<and> wlen w < 65536 \<and> wlen w \<le> length (wdata w) \<and>
    (\<forall>i l. wp_find (wdata w) (word_of_nat (wlen w)) i l = map_option wp_content (find (\<lambda>x. wp_id x = (l, i)) xs)) \<and>
    (\<forall>t. lcp_find (wdata w) (word_of_nat (wlen w)) t = map_option wp_content (find (\<lambda>x. \<exists>hs. x = WP_lcp t hs) xs))"
proof -
  let ?d = "\<lambda>x. descr (nested_id_mask (fst (wp_id x))) (nested_len_mask (fst (wp_id x))) (fst (wp_id x)) (snd (wp_id x))
    (length (wp_content x))"
  let ?g = "\<lambda>x. le_bytes 2 (unat (?d x)) @ wp_content x"
  have "pushes (wp_write b x) b (?g x)" if "wf_write b" "x \<in> set xs" for b x
    using wp_write_pushes [OF that(1), of x] assms(1) that(2) by (simp add: list_all_iff ie_bytes_def)
  then obtain w where w: "push_all wp_write iobuf_init xs = Some w" "wf_write w" "wbytes w = concat (map ?g xs)"
    using push_all [of xs wp_write ?g iobuf_init] by (auto simp: pushes_def)
  have "length (?g x) \<le> 66" if "x \<in> set xs" for x
    using length_wp_content [of x] assms(1) that by (simp add: list_all_iff)
  then have "length (concat (map ?g xs)) \<le> 66 * length xs" by (intro concat_bound) blast
  moreover have l: "wlen w = length (concat (map ?g xs))" "wlen w \<le> length (wdata w)"
    using w(2,3) by (auto simp: wf_write_def wbytes_def dest!: arg_cong [where f = length])
  ultimately have small: "wlen w < 65536" using assms(2) by linarith
  have dec: "dec_nested i l (?d x) = Some (wp_id x = (l, i), length (wp_content x))" if "x \<in> set xs" for x i l
    using dec_nested_descr [of "fst (wp_id x)" "snd (wp_id x)" "wp_content x" i l] wp_fits [of x] assms(1) that
    by (auto simp: list_all_iff prod_eq_iff)
  have bytes: "take (unat (word_of_nat (wlen w) :: u16)) (wdata w) = concat (map ?g xs)"
    using w(3) small by (simp add: wbytes_def unsigned_of_nat take_bit_nat_eq_self)
  have "wp_find (wdata w) (word_of_nat (wlen w)) i l = map_option wp_content (find (\<lambda>x. wp_id x = (l, i)) xs)" for i l
  proof -
    have "ie_lookup (dec_nested i l) (concat (map ?g xs)) =
        (case find (\<lambda>x. wp_id x = (l, i)) xs of None \<Rightarrow> Missing | Some x \<Rightarrow> Found (wp_content x))"
      using dec by (intro lookup_stream) blast
    then show ?thesis unfolding wp_find_def bytes by (simp split: option.splits)
  qed
  moreover have "lcp_find (wdata w) (word_of_nat (wlen w)) t = map_option wp_content (find (\<lambda>x. \<exists>hs. x = WP_lcp t hs) xs)" for t
  proof -
    have lcp: "wp_id x = (True, WS_WPIE_LCP) \<longleftrightarrow> (\<exists>t hs. x = WP_lcp t hs)" for x
      by (cases x) (simp_all add: wpie_defs)
    have "tlv_find lcp_dec t (concat (map ?g xs)) =
        map_option (\<lambda>x. tl (wp_content x)) (find (\<lambda>x. wp_id x = (True, WS_WPIE_LCP) \<and> hd (wp_content x) = t) xs)"
      using dec by (intro tlv_stream) (auto simp: lcp)
    moreover have "(\<lambda>x. wp_id x = (True, WS_WPIE_LCP) \<and> hd (wp_content x) = t) = (\<lambda>x. \<exists>hs. x = WP_lcp t hs)"
      by (auto simp: lcp)
    ultimately show ?thesis
      unfolding lcp_find_def bytes by (auto simp: find_Some_iff option.map_comp intro!: option.map_cong)
  qed
  ultimately show ?thesis using w(1) l(2) small by blast
qed

fun wp_received :: "wp_ie \<Rightarrow> u8 list \<Rightarrow> u16 \<Rightarrow> bool" where
  "wp_received (WP_us hs) d n \<longleftrightarrow> (\<forall>us. gives (ws_wp_nested_us_read d n us) (\<lambda>(ok, us'). ok \<and>
     us_dwell_interval us' = fhss_uc_dwell_interval hs \<and> us_clock_drift us' = clock_drift hs \<and>
     us_timing_accuracy us' = timing_accuracy hs \<and> sched_received hs True (us_chan_plan us')))"
| "wp_received (WP_bs hs) d n \<longleftrightarrow> (\<forall>bs. gives (ws_wp_nested_bs_read d n bs) (\<lambda>(ok, bs'). ok \<and>
     bs_broadcast_interval bs' = fhss_broadcast_interval hs \<and> bs_broadcast_schedule_identifier bs' = fhss_bsi hs \<and>
     bs_dwell_interval bs' = fhss_bc_dwell_interval hs \<and> bs_clock_drift bs' = clock_drift hs \<and>
     bs_timing_accuracy bs' = timing_accuracy hs \<and> sched_received hs False (bs_chan_plan bs')))"
| "wp_received (WP_lcp t hs) d n \<longleftrightarrow> (\<forall>l. gives (ws_wp_nested_lcp_read d n t l) (\<lambda>(ok, l'). ok \<and>
     lcp_lfn_channel_plan_tag l' = t \<and> sched_received hs True (lcp_chan_plan l')))"
| "wp_received (WP_pan k c v) d n \<longleftrightarrow> (\<forall>pc. ws_wp_nested_pan_read d n pc = Some (True, pc\<lparr>pan_size := k,
     pan_routing_cost := c, pan_use_parent_bs := True, pan_rpl_routing_method := True, pan_version := v,
     pan_lfn_window_style := False\<rparr>))"
| "wp_received (WP_netname s k) d n \<longleftrightarrow> gives (ws_wp_nested_netname_read d n) (\<lambda>(ok, nn). ok \<and>
     take (unat (network_name_length nn)) (network_name nn) = take (unat k) s)"
| "wp_received (WP_panver v) d n \<longleftrightarrow> ws_wp_nested_panver_read d n = Some (True, v)"
| "wp_received (WP_gtkhash g) d n \<longleftrightarrow> ws_wp_nested_gtkhash_read d n (replicate 32 0) = Some (True, Some (concat g))"
| "wp_received (WP_pom k m c) d n \<longleftrightarrow> (\<forall>pom. gives (ws_wp_nested_pom_read d n pom) (\<lambda>(ok, pom). ok \<and>
     pom_phy_op_mode_number pom = k \<and> pom_mdr_command_capable pom = c \<and>
     (\<exists>p. pom_phy_op_mode_id pom = Some p \<and> take (unat k) p = take (unat k) m)))"
| "wp_received (WP_lfnver v) d n \<longleftrightarrow> ws_wp_nested_lfnver_read d n = Some (True, \<lparr>lfnver_lfn_version = v\<rparr>)"
| "wp_received (WP_lbats l) d n \<longleftrightarrow> True"
| "wp_received (WP_jm v f) d n \<longleftrightarrow> True"

lemma pan_fields:
  assumes "unat v < 8"
  shows "get8 WS_WPIE_PAN_USE_PARENT_BS_IE_MASK (pan_byte v) = 1 \<and> get8 WS_WPIE_PAN_ROUTING_METHOD_MASK (pan_byte v) = 1 \<and>
    get8 WS_WPIE_PAN_LFN_WINDOW_STYLE_MASK (pan_byte v) = 0 \<and> get8 WS_WPIE_PAN_FAN_TPS_VERSION_MASK (pan_byte v) = v"
proof -
  have "\<forall>i \<in> set [0..<8]. (let v = word_of_nat i in get8 WS_WPIE_PAN_USE_PARENT_BS_IE_MASK (pan_byte v) = 1 \<and>
    get8 WS_WPIE_PAN_ROUTING_METHOD_MASK (pan_byte v) = 1 \<and> get8 WS_WPIE_PAN_LFN_WINDOW_STYLE_MASK (pan_byte v) = 0 \<and>
    get8 WS_WPIE_PAN_FAN_TPS_VERSION_MASK (pan_byte v) = v)"
    by code_simp
  then show ?thesis using assms by (auto dest!: bspec [of _ _ "unat v"] simp: Let_def)
qed

lemma pom_fields:
  assumes "unat k < 16" and "unat c < 2"
  shows "get8 WS_WPIE_POM_PHY_OP_MODE_NUMBER_MASK (pom_byte k c) = k \<and> get8 WS_WPIE_POM_MDR_CAPABLE_MASK (pom_byte k c) = c"
proof -
  have "\<forall>i \<in> set [0..<16]. \<forall>j \<in> set [0..<2]. (let k = word_of_nat i; c = word_of_nat j in
    get8 WS_WPIE_POM_PHY_OP_MODE_NUMBER_MASK (pom_byte k c) = k \<and> get8 WS_WPIE_POM_MDR_CAPABLE_MASK (pom_byte k c) = c)"
    by code_simp
  then have "let k' = word_of_nat (unat k); c' = word_of_nat (unat c) in
      get8 WS_WPIE_POM_PHY_OP_MODE_NUMBER_MASK (pom_byte k' c') = k' \<and> get8 WS_WPIE_POM_MDR_CAPABLE_MASK (pom_byte k' c') = c'"
    using assms by (auto simp: Let_def simp del: of_nat_unat)
  then show ?thesis by (simp add: Let_def)
qed

lemma gives_the: "gives m (\<lambda>r. r = x) \<longleftrightarrow> m = Some x"
  by (auto simp: gives_def)

lemma wp_received:
  assumes "unat n \<le> length d" and "wp_ok x"
    and "wp_find d n (snd (wp_id x)) (fst (wp_id x)) = Some (wp_content x)"
    and "\<And>t hs. x = WP_lcp t hs \<Longrightarrow> lcp_find d n t = Some (wp_content x)"
  shows "wp_received x d n"
proof (cases x)
  case (WP_pan k c v)
  then show ?thesis
    using assms(2,3) pan_fields [of v]
    by (auto simp: pan_read [OF assms(1), unfolded gives_the] Let_def rnum_enc rnum_enc(2) [of _ "[]", simplified] rnum_u8 rskip_0)
next
  case (WP_gtkhash g)
  then have g: "length g = 4" "\<forall>h \<in> set g. length h = 8" using assms(2) by auto
  then have "map (take 8) (take 4 g) = g" by (auto intro!: map_idI)
  then show ?thesis
    using WP_gtkhash assms(3) g length_concat_8 [OF g(2)]
    by (simp add: gtkhash_read [OF assms(1), unfolded gives_the] rdat_def take_bytes_def)
next
  case (WP_pom k m c)
  have f: "get8 WS_WPIE_POM_PHY_OP_MODE_NUMBER_MASK (pom_byte k c) = k" "get8 WS_WPIE_POM_MDR_CAPABLE_MASK (pom_byte k c) = c"
    and k: "unat k \<le> length m" "k \<noteq> 0"
    using assms(2) pom_fields [of k c] WP_pom by auto
  have s: "wp_find d n WS_WPIE_POM False = Some (pom_byte k c # take (unat k) m)" using assms(3) WP_pom by simp
  have t: "rnum le_val 1 (rskip 0 (wp_find d n WS_WPIE_POM False)) = pom_byte k c" by (simp add: s rskip_0 rnum_u8)
  have "rdat (unat k) (rskip 1 (wp_find d n WS_WPIE_POM False)) = take (unat k) m"
    using k by (simp add: s rdat_def take_bytes_def)
  moreover have "rskip (1 + unat k) (wp_find d n WS_WPIE_POM False) \<noteq> None" using k by (simp add: s)
  ultimately have "gives (ws_wp_nested_pom_read d n pom) (\<lambda>(ok, pom). ok \<and>
     pom_phy_op_mode_number pom = k \<and> pom_mdr_command_capable pom = c \<and>
     (\<exists>p. pom_phy_op_mode_id pom = Some p \<and> take (unat k) p = take (unat k) m))" for pom
    using pom_read [OF assms(1), of pom] k(2)
    unfolding Let_def t f by (auto elim!: gives_mono)
  then show ?thesis using WP_pom by simp
next
  case (WP_netname s k)
  then show ?thesis
    using assms(2,3) netname_read [OF assms(1)] by (auto elim!: gives_mono)
qed (use assms us_received [OF assms(1)] bs_received [OF assms(1)] lcp_received [OF assms(1)] in
    \<open>auto simp: panver_read [OF assms(1), unfolded gives_the] lfnver_read [OF assms(1), unfolded gives_the]
      rnum_enc(2) [of _ "[]", simplified] rskip_0\<close>)

section \<open>Properties\<close>





text \<open>
  \<open>ws_wp_nested_hopping_schedule_length\<close> announces what is written: on every schedule the
  writers accept, the unicast (broadcast) schedule element takes its descriptor and exactly that
  many bytes.
\<close>

theorem ws_schedule_length_exact:
  assumes "wf_write buf" and "sched_ok hs True" and "sched_ok hs False"
  shows "(\<exists>n w. ws_wp_nested_hopping_schedule_length hs True = Some n \<and> ws_wp_nested_us_write buf hs = Some w \<and>
      wlen w = wlen buf + 2 + unat n) \<and>
    (\<exists>n w. ws_wp_nested_hopping_schedule_length hs False = Some n \<and> ws_wp_nested_bs_write buf hs = Some w \<and>
      wlen w = wlen buf + 2 + unat n)"
proof -
  have wl: "wlen b = length (wbytes b)" if "wf_write b" for b
    using that by (simp add: wf_write_def wbytes_def)
  have n: "unat (word_of_nat (k + length (sched_bytes hs uc)) :: u16) = k + length (sched_bytes hs uc)"
    if "sched_ok hs uc" "k \<le> 9" for uc k
    using length_sched_bytes [OF that(1)] that(2) by (simp add: unsigned_of_nat take_bit_nat_eq_self del: of_nat_add)
  show ?thesis
    using wp_write_pushes [OF assms(1), of "WP_us hs"] wp_write_pushes [OF assms(1), of "WP_bs hs"] assms
      schedule_length n [of True 3] n [of False 9]
    by (auto simp: pushes_def wl ie_bytes_def simp del: of_nat_add)
qed

text \<open>A schedule with the second channel plan, a fixed channel and one excluded range.\<close>

definition sample_excl :: ws_excluded_channel_data where
  "sample_excl = \<lparr>ex_excluded_channel_ctrl = 1, ex_excluded_range_length = 1,
     ex_excluded_range = replicate 3 \<lparr>range_start = 3, range_end = 9\<rparr>, ex_excluded_channel_count = 7,
     ex_channel_mask_bytes_inline = 0, ex_channel_mask = replicate 32 0\<rparr>"

definition sample_schedule :: ws_hopping_schedule where
  "sample_schedule = \<lparr>fhss_uc_dwell_interval = 15, fhss_bc_dwell_interval = 250, regulatory_domain = 3, operating_class = 1,
     operating_mode = 1, phy_mode_id = 255, phy_op_modes = replicate 16 0, rcp_rail_config_index = 0,
     channel_plan_id = 255, channel_plan = 1, uc_channel_function = 0, bc_channel_function = 2, channel_spacing = 0,
     number_of_channels = 64, clock_drift = 255, timing_accuracy = 0, uc_fixed_channel = 5, bc_fixed_channel = 0,
     fhss_bsi = 0xABCD, fhss_broadcast_interval = 1020, ch0_freq = 902200000, uc_excluded_channels = sample_excl,
     bc_excluded_channels = sample_excl\<rparr>"

theorem ws_schedule_length_exact_witness:
  "\<exists>n w. ws_wp_nested_hopping_schedule_length sample_schedule True = Some n \<and>
     ws_wp_nested_us_write iobuf_init sample_schedule = Some w \<and> wlen w = wlen iobuf_init + 2 + unat n"
  using ws_schedule_length_exact [of iobuf_init sample_schedule]
  by (simp add: sched_ok_def excl_ok_def sample_schedule_def sample_excl_def)

text \<open>
  The LBATS element is written in the short format and searched in the long one: a frame built
  by the writers never yields an LBATS element, although one was written.
\<close>

theorem ws_lbats_never_received:
  assumes "list_all wp_ok xs" and "length xs \<le> 800"
  shows "\<exists>w l. push_all wp_write iobuf_init (WP_lbats y # xs) = Some w \<and>
    ws_wp_nested_lbats_read (wdata w) (word_of_nat (wlen w)) = Some (False, l)"
proof -
  obtain w where w: "push_all wp_write iobuf_init (WP_lbats y # xs) = Some w" "wlen w < 65536" "wlen w \<le> length (wdata w)"
      "\<And>i l. wp_find (wdata w) (word_of_nat (wlen w)) i l =
        map_option wp_content (find (\<lambda>x. wp_id x = (l, i)) (WP_lbats y # xs))"
    using wp_found [of "WP_lbats y # xs"] assms by auto
  have n: "unat (word_of_nat (wlen w) :: u16) \<le> length (wdata w)"
    using w(2,3) by (simp add: unsigned_of_nat take_bit_nat_eq_self)
  have "wp_id x \<noteq> (True, WS_WPIE_LBATS)" for x by (cases x) (simp_all add: wpie_defs)
  then have "wp_find (wdata w) (word_of_nat (wlen w)) WS_WPIE_LBATS True = None"
    by (simp only: w(4)) (simp add: find_None_iff)
  then show ?thesis using w(1) lbats_read [OF n] by (auto simp: gives_the Let_def)
qed

theorem ws_lbats_never_received_witness:
  "\<exists>w l. push_all wp_write iobuf_init [WP_lbats \<lparr>lbats_additional_transmissions = 2, lbats_next_transmit_delay = 30\<rparr>] = Some w \<and>
    ws_wp_nested_lbats_read (wdata w) (word_of_nat (wlen w)) = Some (False, l)"
  using ws_lbats_never_received [of "[]" "\<lparr>lbats_additional_transmissions = 2, lbats_next_transmit_delay = 30\<rparr>"] by simp

text \<open>
  The LFN group key hashes do not survive a round trip: an element holding the first hash and
  the active index 2, alone in its frame, is read back as index 1 and as a hash that starts with
  the flag byte, because the flags are taken from the first byte of the frame instead of from the
  content.
\<close>

definition sample_hash :: "u8 list" where
  "sample_hash = [1, 2, 3, 4, 5, 6, 7, 8]"

theorem ws_lgtkhash_misread:
  "do { w \<leftarrow> ws_wp_nested_lgtkhash_write iobuf_init [sample_hash, replicate 8 0, replicate 8 0] 2;
        ws_wp_nested_lgtkhash_read (wdata w) (word_of_nat (wlen w)) (replicate 3 (replicate 8 0)) } =
     Some (True, [0x11 # take 7 sample_hash, replicate 8 0, replicate 8 0], 1)"
  by code_simp

end
