(* ===== verification/SecKeys.thy ===== *)
theory SecKeys
  imports Prelude "HOL-Library.Sublist"
begin

text \<open>
  \<open>src/stack/source/security/protocols/sec_prot_keys.c\<close>: the key storage of the
  EAPOL protocols. A \<open>sec_prot_gtk_keys\<close> holds the four group keys (GTK) with their life
  cycle (new, fresh, active, old) and installation order; a \<open>sec_prot_keys\<close> the pairwise
  keys (PMK, PTK) shared with one node, with the replay counter; a \<open>sec_prot_gtk\<close> what is
  known of the group keys that node holds.

  A C array is a list, an index a natural number and an \<open>int8_t\<close> an integer. The pointer from a
  \<open>sec_prot_gtk\<close> to the key table it shares is the table passed as an argument, \<open>keys\<close>;
  the certificates, which these functions only store, are an opaque value. The two bit
  fields \<open>status\<close> and \<open>install_order\<close> are natural numbers below 4; a store reduces modulo 4.
  SHA-256, which comes from mbedtls, is the parameter \<open>sha256\<close>: the digest of a message, or
  \<open>None\<close> when the library reports an error.
\<close>

section \<open>State\<close>

definition GTK_NUM :: nat where "GTK_NUM = 4"
definition LGTK_NUM :: nat where "LGTK_NUM = 3"
definition GTK_LEN :: nat where "GTK_LEN = 16"
definition PMK_LEN :: nat where "PMK_LEN = 32"
definition PTK_LEN :: nat where "PTK_LEN = 48"
definition INS_GTK_HASH_LEN :: nat where "INS_GTK_HASH_LEN = 2"
definition GTK_EXPIRE_MISMATCH_TIME :: u32 where "GTK_EXPIRE_MISMATCH_TIME = 60"
definition PMK_KEY_REPLAY_CNT_LIMIT :: u64 where "PMK_KEY_REPLAY_CNT_LIMIT = 60000"
definition PMK_KEY_REPLAY_CNT_LIMIT_MASK :: u64 where "PMK_KEY_REPLAY_CNT_LIMIT_MASK = 0xFFFF"
definition GTK_STATUS_NEW :: nat where "GTK_STATUS_NEW = 0"
definition GTK_STATUS_FRESH :: nat where "GTK_STATUS_FRESH = 1"
definition GTK_STATUS_ACTIVE :: nat where "GTK_STATUS_ACTIVE = 2"
definition GTK_STATUS_OLD :: nat where "GTK_STATUS_OLD = 3"
definition GTK_INSTALL_ORDER_FIRST :: nat where "GTK_INSTALL_ORDER_FIRST = 0"
definition GTK_INSTALL_ORDER_SECOND :: nat where "GTK_INSTALL_ORDER_SECOND = 1"
definition WS_NR_ROLE_UNKNOWN :: u8 where "WS_NR_ROLE_UNKNOWN = 3"

lemmas gtk_status_defs = GTK_STATUS_NEW_def GTK_STATUS_FRESH_def GTK_STATUS_ACTIVE_def GTK_STATUS_OLD_def

record gtk_key =
  gk_key :: "u8 list"
  gk_lifetime :: u32
  gk_status :: nat
  gk_install_order :: nat
  gk_set :: bool

record sec_prot_gtk_keys =
  gtk :: "gtk_key list"
  gtks_updated :: bool

record sec_prot_gtk =
  ins_gtk_hash :: "u8 list list"
  gtkl :: u8
  gtk_set_index :: int
  ins_gtk_hash_set :: u8

record 'c sec_prot_keys =
  pmk_key_replay_cnt :: u64
  pmk :: "u8 list"
  ptk :: "u8 list"
  ptk_eui_64 :: "u8 list"
  gtks :: sec_prot_gtk
  lgtks :: sec_prot_gtk
  certs :: 'c
  pmk_lifetime :: u32
  ptk_lifetime :: u32
  node_role :: u8
  pmk_set :: bool
  ptk_set :: bool
  pmk_key_replay_cnt_set :: bool
  updated :: bool
  ptk_eui_64_set :: bool
  pmk_mismatch :: bool
  ptk_mismatch :: bool

datatype gtk_mismatch_e = GTK_NO_MISMATCH | GTK_LIFETIME_MISMATCH | GTK_HASH_MISMATCH

text \<open>The numeric order of the enumeration, which the code compares with \<open><\<close>.\<close>

fun mismatch_num :: "gtk_mismatch_e \<Rightarrow> nat" where
  "mismatch_num GTK_NO_MISMATCH = 0"
| "mismatch_num GTK_LIFETIME_MISMATCH = 1"
| "mismatch_num GTK_HASH_MISMATCH = 2"

section \<open>Initialisation\<close>

definition sec_prot_keys_ptk_installed_gtk_hash_clear_all :: "sec_prot_gtk \<Rightarrow> sec_prot_gtk" where
  "sec_prot_keys_ptk_installed_gtk_hash_clear_all sec_gtks =
     fold (\<lambda>index s. s\<lparr>ins_gtk_hash := (ins_gtk_hash s)[index := replicate INS_GTK_HASH_LEN 0]\<rparr>) [0..<GTK_NUM] sec_gtks
       \<lparr>ins_gtk_hash_set := 0\<rparr>"

text \<open>A structure cleared by \<open>memset\<close>.\<close>

definition gtk_zero :: gtk_key where
  "gtk_zero = \<lparr>gk_key = replicate GTK_LEN 0, gk_lifetime = 0, gk_status = 0, gk_install_order = 0, gk_set = False\<rparr>"

definition sec_gtk_zero :: sec_prot_gtk where
  "sec_gtk_zero = \<lparr>ins_gtk_hash = replicate GTK_NUM (replicate INS_GTK_HASH_LEN 0), gtkl = 0, gtk_set_index = 0,
     ins_gtk_hash_set = 0\<rparr>"

definition sec_prot_keys_init :: "'c \<Rightarrow> 'c sec_prot_keys" where
  "sec_prot_keys_init cert =
     (let g = sec_prot_keys_ptk_installed_gtk_hash_clear_all (sec_gtk_zero\<lparr>gtkl := 0, gtk_set_index := -1\<rparr>) in
      \<lparr>pmk_key_replay_cnt = 0, pmk = replicate PMK_LEN 0, ptk = replicate PTK_LEN 0, ptk_eui_64 = replicate 8 0,
       gtks = g, lgtks = g, certs = cert, pmk_lifetime = 0, ptk_lifetime = 0, node_role = WS_NR_ROLE_UNKNOWN,
       pmk_set = False, ptk_set = False, pmk_key_replay_cnt_set = False, updated = False, ptk_eui_64_set = False,
       pmk_mismatch = False, ptk_mismatch = False\<rparr>)"

text \<open>\<open>sec_prot_keys_gtks_init\<close> does not depend on the old contents; \<open>sec_prot_keys_gtks_clear\<close> accepts a null pointer.\<close>

definition sec_prot_keys_gtks_init :: sec_prot_gtk_keys where
  "sec_prot_keys_gtks_init = \<lparr>gtk = replicate GTK_NUM gtk_zero, gtks_updated = False\<rparr>"

definition sec_prot_keys_gtk_is_set :: "sec_prot_gtk_keys \<Rightarrow> nat \<Rightarrow> bool" where
  "sec_prot_keys_gtk_is_set ks index = (if index \<ge> GTK_NUM \<or> \<not> gk_set (gtk ks ! index) then False else True)"

definition sec_prot_keys_gtks_clear :: "sec_prot_gtk_keys option \<Rightarrow> sec_prot_gtk_keys option" where
  "sec_prot_keys_gtks_clear p = (case p of None \<Rightarrow> None
     | Some ks \<Rightarrow>
         (let ks = fold (\<lambda>i ks. if sec_prot_keys_gtk_is_set ks i then ks\<lparr>gtks_updated := True\<rparr> else ks) [0..<GTK_NUM] ks
          in Some (ks\<lparr>gtk := replicate GTK_NUM gtk_zero, gtks_updated := False\<rparr>)))"

section \<open>Pairwise keys\<close>

definition sec_prot_keys_pmk_write :: "'c sec_prot_keys \<Rightarrow> u8 list \<Rightarrow> u32 \<Rightarrow> 'c sec_prot_keys option" where
  "sec_prot_keys_pmk_write k new_pmk lifetime =
     do { bs \<leftarrow> load_n new_pmk 0 PMK_LEN;
          Some (k\<lparr>pmk := bs, pmk_key_replay_cnt := 0, pmk_key_replay_cnt_set := False, pmk_lifetime := lifetime,
                 pmk_set := True, updated := True\<rparr>) }"

definition sec_prot_keys_pmk_delete :: "'c sec_prot_keys \<Rightarrow> 'c sec_prot_keys" where
  "sec_prot_keys_pmk_delete k =
     (let k = (if pmk_key_replay_cnt k \<noteq> 0 \<or> pmk_key_replay_cnt_set k \<or> pmk_lifetime k \<noteq> 0 \<or> pmk_set k
               then k\<lparr>updated := True\<rparr> else k)
      in k\<lparr>pmk := replicate PMK_LEN 0, pmk_key_replay_cnt := 0, pmk_key_replay_cnt_set := False, pmk_lifetime := 0,
           pmk_set := False\<rparr>)"

definition sec_prot_keys_pmk_get :: "'c sec_prot_keys \<Rightarrow> u8 list option" where
  "sec_prot_keys_pmk_get k = (if \<not> pmk_set k then None else Some (pmk k))"

definition sec_prot_keys_pmk_lifetime_get :: "'c sec_prot_keys \<Rightarrow> u32" where
  "sec_prot_keys_pmk_lifetime_get k = (if \<not> pmk_set k then 0 else pmk_lifetime k)"

definition sec_prot_keys_pmk_replay_cnt_get :: "'c sec_prot_keys \<Rightarrow> u64" where
  "sec_prot_keys_pmk_replay_cnt_get k = pmk_key_replay_cnt k"

definition sec_prot_keys_pmk_replay_cnt_set :: "'c sec_prot_keys \<Rightarrow> u64 \<Rightarrow> 'c sec_prot_keys" where
  "sec_prot_keys_pmk_replay_cnt_set k counter = k\<lparr>pmk_key_replay_cnt_set := True, pmk_key_replay_cnt := counter\<rparr>"

definition sec_prot_keys_pmk_replay_cnt_increment :: "'c sec_prot_keys \<Rightarrow> bool \<times> 'c sec_prot_keys" where
  "sec_prot_keys_pmk_replay_cnt_increment k =
     (if \<not> pmk_key_replay_cnt_set k then (True, k\<lparr>pmk_key_replay_cnt_set := True\<rparr>)
      else if PMK_KEY_REPLAY_CNT_LIMIT < pmk_key_replay_cnt k AND PMK_KEY_REPLAY_CNT_LIMIT_MASK
      then (False, k\<lparr>pmk_key_replay_cnt := pmk_key_replay_cnt k OR 0xFFFF\<rparr>)
      else (True, k\<lparr>pmk_key_replay_cnt := pmk_key_replay_cnt k + 1\<rparr>))"

definition sec_prot_keys_pmk_replay_cnt_compare :: "u64 \<Rightarrow> 'c sec_prot_keys \<Rightarrow> bool" where
  "sec_prot_keys_pmk_replay_cnt_compare received_counter k =
     (if pmk_key_replay_cnt_set k \<and> pmk_key_replay_cnt k < received_counter then True
      else if \<not> pmk_key_replay_cnt_set k \<and> pmk_key_replay_cnt k \<le> received_counter then True
      else False)"

definition sec_prot_keys_pmk_mismatch_set :: "'c sec_prot_keys \<Rightarrow> 'c sec_prot_keys" where
  "sec_prot_keys_pmk_mismatch_set k = k\<lparr>pmk_mismatch := True\<rparr>"

definition sec_prot_keys_pmk_mismatch_reset :: "'c sec_prot_keys \<Rightarrow> 'c sec_prot_keys" where
  "sec_prot_keys_pmk_mismatch_reset k = k\<lparr>pmk_mismatch := False\<rparr>"

definition sec_prot_keys_pmk_mismatch_is_set :: "'c sec_prot_keys \<Rightarrow> bool" where
  "sec_prot_keys_pmk_mismatch_is_set k = pmk_mismatch k"

definition sec_prot_keys_ptk_write :: "'c sec_prot_keys \<Rightarrow> u8 list \<Rightarrow> u32 \<Rightarrow> 'c sec_prot_keys option" where
  "sec_prot_keys_ptk_write k new_ptk lifetime =
     do { bs \<leftarrow> load_n new_ptk 0 PTK_LEN;
          Some (k\<lparr>ptk := bs, ptk_lifetime := lifetime, ptk_set := True, updated := True\<rparr>) }"

definition sec_prot_keys_ptk_delete :: "'c sec_prot_keys \<Rightarrow> 'c sec_prot_keys" where
  "sec_prot_keys_ptk_delete k =
     (let k = (if ptk_lifetime k \<noteq> 0 \<or> ptk_set k then k\<lparr>updated := True\<rparr> else k)
      in k\<lparr>ptk := replicate PTK_LEN 0, ptk_lifetime := 0, ptk_set := False\<rparr>)"

definition sec_prot_keys_pmk_lifetime_decrement :: "'c sec_prot_keys \<Rightarrow> u8 \<Rightarrow> bool \<times> 'c sec_prot_keys" where
  "sec_prot_keys_pmk_lifetime_decrement k seconds =
     (if \<not> pmk_set k then (False, k)
      else if ucast seconds < pmk_lifetime k then (False, k\<lparr>pmk_lifetime := pmk_lifetime k - ucast seconds\<rparr>)
      else if 0 < pmk_lifetime k
      then (True, sec_prot_keys_pmk_delete (sec_prot_keys_ptk_delete (k\<lparr>pmk_lifetime := 0\<rparr>)))
      else (False, k))"

definition sec_prot_keys_ptk_get :: "'c sec_prot_keys \<Rightarrow> u8 list option" where
  "sec_prot_keys_ptk_get k = (if \<not> ptk_set k then None else Some (ptk k))"

definition sec_prot_keys_ptk_lifetime_get :: "'c sec_prot_keys \<Rightarrow> u32" where
  "sec_prot_keys_ptk_lifetime_get k = (if \<not> ptk_set k then 0 else ptk_lifetime k)"

definition sec_prot_keys_ptk_mismatch_set :: "'c sec_prot_keys \<Rightarrow> 'c sec_prot_keys" where
  "sec_prot_keys_ptk_mismatch_set k = k\<lparr>ptk_mismatch := True\<rparr>"

definition sec_prot_keys_ptk_mismatch_reset :: "'c sec_prot_keys \<Rightarrow> 'c sec_prot_keys" where
  "sec_prot_keys_ptk_mismatch_reset k = k\<lparr>ptk_mismatch := False\<rparr>"

definition sec_prot_keys_ptk_mismatch_is_set :: "'c sec_prot_keys \<Rightarrow> bool" where
  "sec_prot_keys_ptk_mismatch_is_set k = ptk_mismatch k"

definition sec_prot_keys_ptk_eui_64_write :: "'c sec_prot_keys \<Rightarrow> u8 list \<Rightarrow> 'c sec_prot_keys option" where
  "sec_prot_keys_ptk_eui_64_write k eui_64 =
     do { bs \<leftarrow> load_n eui_64 0 8;
          Some (k\<lparr>ptk_eui_64 := bs, ptk_eui_64_set := True, updated := True\<rparr>) }"

definition sec_prot_keys_ptk_eui_64_get :: "'c sec_prot_keys \<Rightarrow> u8 list option" where
  "sec_prot_keys_ptk_eui_64_get k = (if \<not> ptk_eui_64_set k then None else Some (ptk_eui_64 k))"

definition sec_prot_keys_ptk_eui_64_delete :: "'c sec_prot_keys \<Rightarrow> 'c sec_prot_keys" where
  "sec_prot_keys_ptk_eui_64_delete k =
     (let k = (if ptk_eui_64_set k then k\<lparr>updated := True\<rparr> else k)
      in k\<lparr>ptk_eui_64 := replicate 8 0, ptk_eui_64_set := False\<rparr>)"

definition sec_prot_keys_ptk_lifetime_decrement :: "'c sec_prot_keys \<Rightarrow> u8 \<Rightarrow> bool \<times> 'c sec_prot_keys" where
  "sec_prot_keys_ptk_lifetime_decrement k seconds =
     (if \<not> ptk_set k then (False, k)
      else if ucast seconds < ptk_lifetime k then (False, k\<lparr>ptk_lifetime := ptk_lifetime k - ucast seconds\<rparr>)
      else if 0 < ptk_lifetime k
      then (True, (sec_prot_keys_ptk_delete k)\<lparr>ptk_lifetime := 0\<rparr>)
      else (False, k))"

definition sec_prot_keys_are_updated :: "'c sec_prot_keys \<Rightarrow> bool" where
  "sec_prot_keys_are_updated k = updated k"

definition sec_prot_keys_updated_reset :: "'c sec_prot_keys \<Rightarrow> 'c sec_prot_keys" where
  "sec_prot_keys_updated_reset k = k\<lparr>updated := False\<rparr>"

section \<open>Group keys\<close>

definition set_gtk :: "nat \<Rightarrow> (gtk_key \<Rightarrow> gtk_key) \<Rightarrow> sec_prot_gtk_keys \<Rightarrow> sec_prot_gtk_keys" where
  "set_gtk i f ks = ks\<lparr>gtk := (gtk ks)[i := f (gtk ks ! i)]\<rparr>"

text \<open>The table of ordered indexes, \<open>-1\<close> for no key, and the renumbering.\<close>

definition ordered_indexes :: "sec_prot_gtk_keys \<Rightarrow> int list" where
  "ordered_indexes ks =
     fold (\<lambda>i t. if sec_prot_keys_gtk_is_set ks i then t[gk_install_order (gtk ks ! i) := int i] else t) [0..<GTK_NUM]
       (replicate GTK_NUM (-1))"

definition sec_prot_keys_gtk_install_order_update :: "sec_prot_gtk_keys \<Rightarrow> sec_prot_gtk_keys" where
  "sec_prot_keys_gtk_install_order_update ks =
     fst (fold (\<lambda>idx (ks, new_install_order).
         if idx \<ge> 0
         then let i = nat idx;
                  ks = (if gk_install_order (gtk ks ! i) \<noteq> new_install_order then ks\<lparr>gtks_updated := True\<rparr> else ks)
              in (set_gtk i (\<lambda>g. g\<lparr>gk_install_order := new_install_order mod 4\<rparr>) ks, new_install_order + 1)
         else (ks, new_install_order)) (ordered_indexes ks) (ks, 0))"

definition sec_prot_keys_gtk_clear :: "sec_prot_gtk_keys \<Rightarrow> nat \<Rightarrow> int \<times> sec_prot_gtk_keys" where
  "sec_prot_keys_gtk_clear ks index =
     (if index \<ge> GTK_NUM then (-1, ks)
      else let ks = set_gtk index (\<lambda>g. g\<lparr>gk_set := False, gk_lifetime := 0, gk_status := GTK_STATUS_NEW,
                       gk_key := replicate GTK_LEN 0\<rparr>) ks;
               ks = ks\<lparr>gtks_updated := True\<rparr>
           in (0, sec_prot_keys_gtk_install_order_update ks))"

text \<open>The loops over the installation orders: \<open>last_order\<close> is the pair of order and index after each turn.\<close>

definition last_order :: "sec_prot_gtk_keys \<Rightarrow> int \<times> int" where
  "last_order ks =
     fold (\<lambda>i (order, index). if sec_prot_keys_gtk_is_set ks i \<and> int (gk_install_order (gtk ks ! i)) > order
                              then (int (gk_install_order (gtk ks ! i)), int i) else (order, index))
       [0..<GTK_NUM] (-1, -1)"

definition sec_prot_keys_gtk_install_order_last_get :: "sec_prot_gtk_keys \<Rightarrow> int" where
  "sec_prot_keys_gtk_install_order_last_get ks = fst (last_order ks) + 1"

definition sec_prot_keys_gtk_install_order_last_index_get :: "sec_prot_gtk_keys \<Rightarrow> int" where
  "sec_prot_keys_gtk_install_order_last_index_get ks = snd (last_order ks)"

definition sec_prot_keys_gtk_install_order_last_lifetime_get :: "sec_prot_gtk_keys \<Rightarrow> u32" where
  "sec_prot_keys_gtk_install_order_last_lifetime_get ks =
     snd (fold (\<lambda>i (order, lifetime). if sec_prot_keys_gtk_is_set ks i \<and> int (gk_install_order (gtk ks ! i)) > order
                              then (int (gk_install_order (gtk ks ! i)), gk_lifetime (gtk ks ! i)) else (order, lifetime))
       [0..<GTK_NUM] (-1, 0))"

definition order_index :: "sec_prot_gtk_keys \<Rightarrow> nat \<Rightarrow> int" where
  "order_index ks order =
     (case find (\<lambda>i. sec_prot_keys_gtk_is_set ks i \<and> gk_install_order (gtk ks ! i) = order) [0..<GTK_NUM] of
        Some i \<Rightarrow> int i | None \<Rightarrow> -1)"

definition sec_prot_keys_gtk_install_order_first_index_get :: "sec_prot_gtk_keys \<Rightarrow> int" where
  "sec_prot_keys_gtk_install_order_first_index_get ks = order_index ks GTK_INSTALL_ORDER_FIRST"

definition sec_prot_keys_gtk_install_order_second_index_get :: "sec_prot_gtk_keys \<Rightarrow> int" where
  "sec_prot_keys_gtk_install_order_second_index_get ks = order_index ks GTK_INSTALL_ORDER_SECOND"

text \<open>The argument \<open>key\<close> is \<open>None\<close> for a null pointer.\<close>

definition sec_prot_keys_gtk_set ::
  "sec_prot_gtk_keys \<Rightarrow> nat \<Rightarrow> u8 list option \<Rightarrow> u32 \<Rightarrow> (int \<times> sec_prot_gtk_keys) option" where
  "sec_prot_keys_gtk_set ks index key lifetime =
     (case key of None \<Rightarrow> Some (-1, ks)
      | Some key \<Rightarrow>
          if index \<ge> GTK_NUM then Some (-1, ks)
          else do { bs \<leftarrow> load_n key 0 GTK_LEN;
                    if gk_set (gtk ks ! index) \<and> gk_key (gtk ks ! index) = bs then Some (-1, ks)
                    else let ks = snd (sec_prot_keys_gtk_clear ks index);
                             install_order = nat (sec_prot_keys_gtk_install_order_last_get ks);
                             ks = set_gtk index (\<lambda>g. g\<lparr>gk_set := True, gk_lifetime := lifetime,
                                     gk_status := GTK_STATUS_NEW, gk_install_order := install_order mod 4,
                                     gk_key := bs\<rparr>) ks
                         in Some (0, ks\<lparr>gtks_updated := True\<rparr>) })"

definition sec_prot_keys_gtk_get :: "sec_prot_gtk_keys \<Rightarrow> nat \<Rightarrow> u8 list option" where
  "sec_prot_keys_gtk_get ks index =
     (if index \<ge> GTK_NUM \<or> \<not> gk_set (gtk ks ! index) then None else Some (gk_key (gtk ks ! index)))"

definition sec_prot_keys_gtk_lifetime_get :: "sec_prot_gtk_keys \<Rightarrow> nat \<Rightarrow> u32" where
  "sec_prot_keys_gtk_lifetime_get ks index =
     (if index \<ge> GTK_NUM \<or> \<not> gk_set (gtk ks ! index) then 0 else gk_lifetime (gtk ks ! index))"

definition sec_prot_keys_gtk_lifetime_decrement ::
  "sec_prot_gtk_keys \<Rightarrow> nat \<Rightarrow> u32 \<Rightarrow> (u32 \<times> sec_prot_gtk_keys) option" where
  "sec_prot_keys_gtk_lifetime_decrement ks index seconds =
     do { g \<leftarrow> load (gtk ks) index;
          let ks = (if seconds < gk_lifetime g
                    then set_gtk index (\<lambda>g. g\<lparr>gk_lifetime := gk_lifetime g - seconds\<rparr>) ks
                    else set_gtk index (\<lambda>g. g\<lparr>gk_lifetime := 0\<rparr>) ks);
          Some (gk_lifetime (gtk ks ! index), ks) }"

definition sec_prot_keys_gtks_are_updated :: "sec_prot_gtk_keys \<Rightarrow> bool" where
  "sec_prot_keys_gtks_are_updated ks = gtks_updated ks"

definition sec_prot_keys_gtks_updated_set :: "sec_prot_gtk_keys \<Rightarrow> sec_prot_gtk_keys" where
  "sec_prot_keys_gtks_updated_set ks = ks\<lparr>gtks_updated := True\<rparr>"

definition sec_prot_keys_gtks_updated_reset :: "sec_prot_gtk_keys \<Rightarrow> sec_prot_gtk_keys" where
  "sec_prot_keys_gtks_updated_reset ks = ks\<lparr>gtks_updated := False\<rparr>"

definition sec_prot_keys_gtk_status_fresh_set :: "sec_prot_gtk_keys \<Rightarrow> nat \<Rightarrow> sec_prot_gtk_keys" where
  "sec_prot_keys_gtk_status_fresh_set ks index =
     (if index \<ge> GTK_NUM \<or> \<not> gk_set (gtk ks ! index) then ks
      else if gk_status (gtk ks ! index) < GTK_STATUS_FRESH
      then (set_gtk index (\<lambda>g. g\<lparr>gk_status := GTK_STATUS_FRESH\<rparr>) ks)\<lparr>gtks_updated := True\<rparr>
      else ks)"

definition sec_prot_keys_gtk_status_all_fresh_set :: "sec_prot_gtk_keys \<Rightarrow> sec_prot_gtk_keys" where
  "sec_prot_keys_gtk_status_all_fresh_set ks =
     fold (\<lambda>i ks. sec_prot_keys_gtk_status_fresh_set ks i) [0..<GTK_NUM] ks"

text \<open>The loop that retires the active keys, then the activation.\<close>

definition retire_active :: "sec_prot_gtk_keys \<Rightarrow> sec_prot_gtk_keys" where
  "retire_active ks =
     fold (\<lambda>i ks. if gk_status (gtk ks ! i) = GTK_STATUS_ACTIVE
                  then (set_gtk i (\<lambda>g. g\<lparr>gk_status := GTK_STATUS_OLD\<rparr>) ks)\<lparr>gtks_updated := True\<rparr> else ks)
       [0..<GTK_NUM] ks"

definition sec_prot_keys_gtk_status_active_set :: "sec_prot_gtk_keys \<Rightarrow> nat \<Rightarrow> int \<times> sec_prot_gtk_keys" where
  "sec_prot_keys_gtk_status_active_set ks index =
     (if index \<ge> GTK_NUM \<or> \<not> gk_set (gtk ks ! index) then (-1, ks)
      else if gk_status (gtk ks ! index) = GTK_STATUS_FRESH
      then (0, set_gtk index (\<lambda>g. g\<lparr>gk_status := GTK_STATUS_ACTIVE\<rparr>) (retire_active ks))
      else (-1, ks))"

definition sec_prot_keys_gtk_status_active_get :: "sec_prot_gtk_keys \<Rightarrow> int" where
  "sec_prot_keys_gtk_status_active_get ks =
     (case find (\<lambda>i. gk_status (gtk ks ! i) = GTK_STATUS_ACTIVE) [0..<GTK_NUM] of Some i \<Rightarrow> int i | None \<Rightarrow> -1)"

definition sec_prot_keys_gtk_status_set :: "sec_prot_gtk_keys \<Rightarrow> nat \<Rightarrow> nat \<Rightarrow> int \<times> sec_prot_gtk_keys" where
  "sec_prot_keys_gtk_status_set ks index status =
     (if index \<ge> GTK_NUM \<or> \<not> gk_set (gtk ks ! index) then (-1, ks)
      else let ks = (if gk_status (gtk ks ! index) \<noteq> status then ks\<lparr>gtks_updated := True\<rparr> else ks)
           in (0, set_gtk index (\<lambda>g. g\<lparr>gk_status := status mod 4\<rparr>) ks))"

definition sec_prot_keys_gtk_status_active_to_fresh_set :: "sec_prot_gtk_keys \<Rightarrow> int \<times> sec_prot_gtk_keys" where
  "sec_prot_keys_gtk_status_active_to_fresh_set ks =
     (let index = sec_prot_keys_gtk_status_active_get ks in
      if index < 0 then (-1, ks) else sec_prot_keys_gtk_status_set ks (nat index) GTK_STATUS_FRESH)"

definition sec_prot_keys_gtk_status_is_live :: "sec_prot_gtk_keys \<Rightarrow> nat \<Rightarrow> bool" where
  "sec_prot_keys_gtk_status_is_live ks index =
     (if index \<ge> GTK_NUM \<or> \<not> gk_set (gtk ks ! index) then False
      else if gk_status (gtk ks ! index) = GTK_STATUS_FRESH \<or> gk_status (gtk ks ! index) = GTK_STATUS_ACTIVE
      then True else False)"

definition sec_prot_keys_gtk_status_new_set :: "sec_prot_gtk_keys \<Rightarrow> nat \<Rightarrow> sec_prot_gtk_keys" where
  "sec_prot_keys_gtk_status_new_set ks index =
     (if index \<ge> GTK_NUM \<or> \<not> gk_set (gtk ks ! index) then ks
      else let ks = (if gk_status (gtk ks ! index) \<noteq> GTK_STATUS_NEW then ks\<lparr>gtks_updated := True\<rparr> else ks)
           in set_gtk index (\<lambda>g. g\<lparr>gk_status := GTK_STATUS_NEW\<rparr>) ks)"

definition sec_prot_keys_gtk_status_get :: "sec_prot_gtk_keys \<Rightarrow> nat \<Rightarrow> nat" where
  "sec_prot_keys_gtk_status_get ks index =
     (if index \<ge> GTK_NUM \<or> \<not> gk_set (gtk ks ! index) then 0 else gk_status (gtk ks ! index))"

definition sec_prot_keys_gtk_count :: "sec_prot_gtk_keys \<Rightarrow> nat" where
  "sec_prot_keys_gtk_count ks = fold (\<lambda>i n. if sec_prot_keys_gtk_is_set ks i then n + 1 else n) [0..<GTK_NUM] 0"

text \<open>The search for a free index, \<open>n\<close> turns left, from \<open>i\<close> on and around.\<close>

fun free_index :: "sec_prot_gtk_keys \<Rightarrow> nat \<Rightarrow> nat \<Rightarrow> nat \<Rightarrow> nat option" where
  "free_index ks num_keys i 0 = None"
| "free_index ks num_keys i (Suc n) =
     (if \<not> sec_prot_keys_gtk_is_set ks i then Some i
      else free_index ks num_keys (if i + 1 \<ge> num_keys then 0 else i + 1) n)"

definition sec_prot_keys_gtk_install_index_get :: "sec_prot_gtk_keys \<Rightarrow> bool \<Rightarrow> int" where
  "sec_prot_keys_gtk_install_index_get ks is_lgtk =
     (let install_index = sec_prot_keys_gtk_install_order_last_index_get ks;
          num_keys = (if is_lgtk then LGTK_NUM else GTK_NUM);
          install_index = (if install_index < 0 then 0 else install_index)
      in case free_index ks num_keys (nat install_index) num_keys of Some i \<Rightarrow> int i | None \<Rightarrow> install_index)"

section \<open>Hashes\<close>

text \<open>
  The return value, and the eight bytes stored in \<open>gtk_hash\<close>, \<open>None\<close> when it is left as it was.
\<close>

definition sec_prot_lib_gtkhash_generate ::
  "(u8 list \<Rightarrow> u8 list option) \<Rightarrow> u8 list \<Rightarrow> (int \<times> u8 list option) option" where
  "sec_prot_lib_gtkhash_generate sha256 key =
     do { bs \<leftarrow> load_n key 0 16;
          case sha256 bs of None \<Rightarrow> Some (-1, None)
          | Some output \<Rightarrow> do { h \<leftarrow> load_n output 24 8; Some (0, Some h) } }"

definition sec_prot_keys_gtk_hash_generate ::
  "(u8 list \<Rightarrow> u8 list option) \<Rightarrow> u8 list \<Rightarrow> (int \<times> u8 list option) option" where
  "sec_prot_keys_gtk_hash_generate sha256 key = sec_prot_lib_gtkhash_generate sha256 key"

fun hashes_generate_loop ::
  "(u8 list \<Rightarrow> u8 list option) \<Rightarrow> sec_prot_gtk_keys \<Rightarrow> u8 list list \<Rightarrow> nat \<Rightarrow> nat \<Rightarrow> u8 list list option" where
  "hashes_generate_loop sha256 ks gtkhash i 0 = Some gtkhash"
| "hashes_generate_loop sha256 ks gtkhash i (Suc n) =
     do { h \<leftarrow> load gtkhash i;
          h \<leftarrow> (if sec_prot_keys_gtk_is_set ks i
               then do { key \<leftarrow> sec_prot_keys_gtk_get ks i;
                         (_, h') \<leftarrow> sec_prot_lib_gtkhash_generate sha256 key;
                         Some (case h' of None \<Rightarrow> h | Some h' \<Rightarrow> h') }
               else Some (replicate 8 0));
          gtkhash \<leftarrow> store gtkhash i h;
          hashes_generate_loop sha256 ks gtkhash (i + 1) n }"

definition sec_prot_keys_gtks_hash_generate ::
  "(u8 list \<Rightarrow> u8 list option) \<Rightarrow> sec_prot_gtk_keys \<Rightarrow> u8 list list \<Rightarrow> u8 list list option" where
  "sec_prot_keys_gtks_hash_generate sha256 ks gtkhash = hashes_generate_loop sha256 ks gtkhash 0 GTK_NUM"

text \<open>A local array the digest was not stored in is indeterminate; reading it has no value.\<close>

definition sec_prot_keys_gtk_valid_check :: "(u8 list \<Rightarrow> u8 list option) \<Rightarrow> u8 list \<Rightarrow> int option" where
  "sec_prot_keys_gtk_valid_check sha256 key =
     do { (_, h) \<leftarrow> sec_prot_lib_gtkhash_generate sha256 key;
          h \<leftarrow> h;
          nz \<leftarrow> memzcmp h 8;
          Some (if \<not> nz then -1 else 0) }"

definition sec_prot_keys_gtk_hash_empty :: "u8 list \<Rightarrow> bool option" where
  "sec_prot_keys_gtk_hash_empty gtkhash = do { nz \<leftarrow> memzcmp gtkhash 8; Some (if \<not> nz then True else False) }"

text \<open>The turn of the loop for key \<open>i\<close>, and the loop.\<close>

definition hash_update_one ::
  "(u8 list \<Rightarrow> u8 list option) \<Rightarrow> u8 list list \<Rightarrow> bool \<Rightarrow> nat \<Rightarrow> gtk_mismatch_e \<times> sec_prot_gtk_keys \<Rightarrow>
     (gtk_mismatch_e \<times> sec_prot_gtk_keys) option" where
  "hash_update_one sha256 gtkhash del_gtk_on_mismatch i st =
     do { let (mismatch, ks) = st;
          h \<leftarrow> load gtkhash i;
          empty \<leftarrow> sec_prot_keys_gtk_hash_empty h;
          if empty then
            (if sec_prot_keys_gtk_is_set ks i then
               let lifetime = sec_prot_keys_gtk_lifetime_get ks i;
                   mismatch = (if GTK_EXPIRE_MISMATCH_TIME < lifetime \<and>
                                  mismatch_num mismatch < mismatch_num GTK_LIFETIME_MISMATCH \<and> del_gtk_on_mismatch
                               then GTK_LIFETIME_MISMATCH else mismatch);
                   ks = (if del_gtk_on_mismatch then snd (sec_prot_keys_gtk_clear ks i) else ks)
               in Some (mismatch, ks)
             else Some (mismatch, ks))
          else
            (case sec_prot_keys_gtk_get ks i of
               None \<Rightarrow> Some (if mismatch_num mismatch < mismatch_num GTK_HASH_MISMATCH then GTK_HASH_MISMATCH else mismatch, ks)
             | Some key \<Rightarrow>
                 do { (_, gtk_hash) \<leftarrow> sec_prot_lib_gtkhash_generate sha256 key;
                      gtk_hash \<leftarrow> gtk_hash;
                      if gtk_hash = h then Some (mismatch, sec_prot_keys_gtk_status_fresh_set ks i)
                      else let mismatch = (if mismatch_num mismatch < mismatch_num GTK_HASH_MISMATCH
                                           then GTK_HASH_MISMATCH else mismatch);
                               ks = (if del_gtk_on_mismatch then snd (sec_prot_keys_gtk_clear ks i) else ks)
                           in Some (mismatch, ks) }) }"

fun hash_update_loop ::
  "(u8 list \<Rightarrow> u8 list option) \<Rightarrow> u8 list list \<Rightarrow> bool \<Rightarrow> nat list \<Rightarrow> gtk_mismatch_e \<times> sec_prot_gtk_keys \<Rightarrow>
     (gtk_mismatch_e \<times> sec_prot_gtk_keys) option" where
  "hash_update_loop sha256 gtkhash del [] st = Some st"
| "hash_update_loop sha256 gtkhash del (i # is) st =
     do { st \<leftarrow> hash_update_one sha256 gtkhash del i st; hash_update_loop sha256 gtkhash del is st }"

definition sec_prot_keys_gtks_hash_update ::
  "(u8 list \<Rightarrow> u8 list option) \<Rightarrow> sec_prot_gtk_keys \<Rightarrow> u8 list list \<Rightarrow> bool \<Rightarrow>
     (gtk_mismatch_e \<times> sec_prot_gtk_keys) option" where
  "sec_prot_keys_gtks_hash_update sha256 ks gtkhash del_gtk_on_mismatch =
     hash_update_loop sha256 gtkhash del_gtk_on_mismatch [0..<GTK_NUM] (GTK_NO_MISMATCH, ks)"

section \<open>What the remote node holds\<close>

definition sec_prot_keys_fresh_gtkl_get :: "sec_prot_gtk_keys \<Rightarrow> u8" where
  "sec_prot_keys_fresh_gtkl_get ks =
     fold (\<lambda>i gtkl. if sec_prot_keys_gtk_status_is_live ks i then gtkl OR push_bit i 1 else gtkl) [0..<GTK_NUM] 0"

definition sec_prot_keys_gtkl_set :: "sec_prot_gtk \<Rightarrow> u8 \<Rightarrow> sec_prot_gtk" where
  "sec_prot_keys_gtkl_set s l = s\<lparr>gtkl := l\<rparr>"

definition sec_prot_keys_gtkl_gtk_is_live :: "sec_prot_gtk \<Rightarrow> nat \<Rightarrow> bool" where
  "sec_prot_keys_gtkl_gtk_is_live s index =
     (if index \<ge> GTK_NUM then False else if gtkl s AND push_bit index 1 \<noteq> 0 then True else False)"

definition sec_prot_keys_gtkl_gtk_live_set :: "sec_prot_gtk \<Rightarrow> nat \<Rightarrow> int \<times> sec_prot_gtk" where
  "sec_prot_keys_gtkl_gtk_live_set s index =
     (if index \<ge> GTK_NUM then (-1, s) else (0, s\<lparr>gtkl := gtkl s OR push_bit index 1\<rparr>))"

definition sec_prot_keys_gtk_insert_index_set :: "sec_prot_gtk_keys \<Rightarrow> sec_prot_gtk \<Rightarrow> nat \<Rightarrow> int \<times> sec_prot_gtk" where
  "sec_prot_keys_gtk_insert_index_set keys s index =
     (if index \<ge> GTK_NUM \<or> \<not> gk_set (gtk keys ! index) then (-1, s) else (0, s\<lparr>gtk_set_index := int index\<rparr>))"

definition sec_prot_keys_gtk_insert_index_get :: "sec_prot_gtk \<Rightarrow> int" where
  "sec_prot_keys_gtk_insert_index_get s = gtk_set_index s"

definition sec_prot_keys_gtk_insert_index_clear :: "sec_prot_gtk \<Rightarrow> sec_prot_gtk" where
  "sec_prot_keys_gtk_insert_index_clear s = s\<lparr>gtk_set_index := -1\<rparr>"

definition sec_prot_keys_gtkl_from_gtk_insert_index_set :: "sec_prot_gtk \<Rightarrow> sec_prot_gtk" where
  "sec_prot_keys_gtkl_from_gtk_insert_index_set s =
     (if gtk_set_index s \<ge> 0
      then sec_prot_keys_gtk_insert_index_clear (snd (sec_prot_keys_gtkl_gtk_live_set s (nat (gtk_set_index s))))
      else s)"

definition sec_prot_keys_gtk_insert_index_from_gtkl_get :: "sec_prot_gtk_keys \<Rightarrow> sec_prot_gtk \<Rightarrow> int \<times> sec_prot_gtk" where
  "sec_prot_keys_gtk_insert_index_from_gtkl_get keys s =
     (let active_index = sec_prot_keys_gtk_status_active_get keys in
      if active_index \<ge> 0 \<and> \<not> sec_prot_keys_gtkl_gtk_is_live s (nat active_index)
      then (active_index, snd (sec_prot_keys_gtk_insert_index_set keys s (nat active_index)))
      else case find (\<lambda>i. (sec_prot_keys_gtk_status_is_live keys i \<or> sec_prot_keys_gtk_status_get keys i = GTK_STATUS_OLD) \<and>
                          \<not> sec_prot_keys_gtkl_gtk_is_live s i) [0..<GTK_NUM] of
          Some i \<Rightarrow> (int i, snd (sec_prot_keys_gtk_insert_index_set keys s i))
        | None \<Rightarrow> (-1, s))"

definition sec_prot_keys_get_gtk_to_insert :: "sec_prot_gtk_keys \<Rightarrow> sec_prot_gtk \<Rightarrow> (nat \<times> u8 list) option option" where
  "sec_prot_keys_get_gtk_to_insert keys s =
     (if gtk_set_index s \<ge> 0
      then do { g \<leftarrow> load (gtk keys) (nat (gtk_set_index s));
                Some (if gk_set g then Some (nat (gtk_set_index s), gk_key g) else None) }
      else Some None)"

definition sec_prot_keys_ptk_installed_gtk_hash_set ::
  "(u8 list \<Rightarrow> u8 list option) \<Rightarrow> sec_prot_gtk_keys \<Rightarrow> sec_prot_gtk \<Rightarrow> bool \<Rightarrow> sec_prot_gtk option" where
  "sec_prot_keys_ptk_installed_gtk_hash_set sha256 keys s is_4wh =
     (if gtk_set_index s \<ge> 0
      then (case sec_prot_keys_gtk_get keys (nat (gtk_set_index s)) of
          None \<Rightarrow> Some s
        | Some key \<Rightarrow>
            do { (ret, gtk_hash) \<leftarrow> sec_prot_keys_gtk_hash_generate sha256 key;
                 if ret < 0 then Some s
                 else do { gtk_hash \<leftarrow> gtk_hash;
                           bs \<leftarrow> load_n gtk_hash 0 INS_GTK_HASH_LEN;
                           hs \<leftarrow> store (ins_gtk_hash s) (nat (gtk_set_index s)) bs;
                           Some (s\<lparr>ins_gtk_hash := hs,
                             ins_gtk_hash_set := (ins_gtk_hash_set s OR push_bit (nat (gtk_set_index s)) 1) AND 0x0F\<rparr>) } })
      else Some s)"

text \<open>A shift by a negative amount is undefined.\<close>

definition sec_prot_keys_ptk_installed_gtk_hash_mismatch_check ::
  "(u8 list \<Rightarrow> u8 list option) \<Rightarrow> sec_prot_gtk_keys \<Rightarrow> sec_prot_gtk \<Rightarrow> nat \<Rightarrow> bool option" where
  "sec_prot_keys_ptk_installed_gtk_hash_mismatch_check sha256 keys s gtk_index =
     (if gtk_set_index s < 0 then None
      else if ins_gtk_hash_set s AND push_bit (nat (gtk_set_index s)) 1 = 0 \<or>
              ins_gtk_hash_set s AND push_bit (nat (gtk_set_index s)) 1 = 1 then Some False
      else case sec_prot_keys_gtk_get keys gtk_index of
          None \<Rightarrow> Some False
        | Some key \<Rightarrow>
            do { (ret, gtk_hash) \<leftarrow> sec_prot_keys_gtk_hash_generate sha256 key;
                 if ret < 0 then Some False
                 else do { gtk_hash \<leftarrow> gtk_hash;
                           bs \<leftarrow> load_n gtk_hash 0 INS_GTK_HASH_LEN;
                           ins \<leftarrow> load (ins_gtk_hash s) (nat (gtk_set_index s));
                           ins \<leftarrow> load_n ins 0 INS_GTK_HASH_LEN;
                           if ins \<noteq> bs then Some True else Some False } })"

section \<open>The invariant of a key table\<close>

text \<open>The keys installed.\<close>

definition set_keys :: "sec_prot_gtk_keys \<Rightarrow> nat set" where
  "set_keys ks = {i. i < 4 \<and> gk_set (gtk ks ! i)}"

abbreviation order_of :: "sec_prot_gtk_keys \<Rightarrow> nat \<Rightarrow> nat" where
  "order_of ks i \<equiv> gk_install_order (gtk ks ! i)"

abbreviation status_of :: "sec_prot_gtk_keys \<Rightarrow> nat \<Rightarrow> nat" where
  "status_of ks i \<equiv> gk_status (gtk ks ! i)"

definition gtk_wf :: "gtk_key \<Rightarrow> bool" where
  "gtk_wf g \<longleftrightarrow> length (gk_key g) = 16 \<and> gk_status g < 4 \<and> gk_install_order g < 4 \<and> (\<not> gk_set g \<longrightarrow> gk_status g = 0)"

text \<open>At most one key is active, and the installation orders number the keys installed without gap.\<close>

definition gtks_inv :: "sec_prot_gtk_keys \<Rightarrow> bool" where
  "gtks_inv ks \<longleftrightarrow> length (gtk ks) = 4 \<and> (\<forall>i < 4. gtk_wf (gtk ks ! i)) \<and>
     (\<forall>i < 4. \<forall>j < 4. status_of ks i = 2 \<and> status_of ks j = 2 \<longrightarrow> i = j) \<and>
     order_of ks ` set_keys ks = {..<card (set_keys ks)}"

lemma is_set_iff: "sec_prot_keys_gtk_is_set ks i \<longleftrightarrow> i \<in> set_keys ks"
  by (auto simp: sec_prot_keys_gtk_is_set_def set_keys_def GTK_NUM_def)

lemma finite_set_keys [simp]: "finite (set_keys ks)"
  by (simp add: set_keys_def)

lemma set_keys_lt: "i \<in> set_keys ks \<Longrightarrow> i < 4"
  by (simp add: set_keys_def)

lemma upt_GTK_NUM: "[0..<GTK_NUM] = [0, 1, 2, 3]"
  by (simp add: GTK_NUM_def upt_rec)

lemma set_gtk_simps [simp]:
  "gtk (set_gtk i f ks) = (gtk ks)[i := f (gtk ks ! i)]" "gtks_updated (set_gtk i f ks) = gtks_updated ks"
  by (simp_all add: set_gtk_def)

lemma inv_inj:
  assumes "gtks_inv ks"
  shows "inj_on (order_of ks) (set_keys ks)"
proof (rule eq_card_imp_inj_on)
  show "card (order_of ks ` set_keys ks) = card (set_keys ks)"
    using assms by (simp add: gtks_inv_def)
qed simp

text \<open>The rank of a key among the keys installed, by installation order.\<close>

definition rank :: "sec_prot_gtk_keys \<Rightarrow> nat \<Rightarrow> nat" where
  "rank ks i = card {j \<in> set_keys ks. order_of ks j < order_of ks i}"

lemma rank_image:
  assumes "inj_on (order_of ks) (set_keys ks)"
  shows "rank ks ` set_keys ks = {..<card (set_keys ks)}"
proof (rule card_subset_eq)
  have mono: "rank ks i < rank ks j" if "i \<in> set_keys ks" "j \<in> set_keys ks" "order_of ks i < order_of ks j" for i j
    unfolding rank_def using that by (intro psubset_card_mono) auto
  have "inj_on (rank ks) (set_keys ks)"
  proof (rule inj_onI)
    fix i j assume ij: "i \<in> set_keys ks" "j \<in> set_keys ks" "rank ks i = rank ks j"
    then have "order_of ks i = order_of ks j" using mono [of i j] mono [of j i] by (metis less_irrefl linorder_neqE_nat)
    then show "i = j" using assms ij(1,2) by (simp add: inj_on_def)
  qed
  then show "card (rank ks ` set_keys ks) = card {..<card (set_keys ks)}" by (simp add: card_image)
  show "rank ks ` set_keys ks \<subseteq> {..<card (set_keys ks)}"
  proof safe
    fix i assume "i \<in> set_keys ks"
    then have "{j \<in> set_keys ks. order_of ks j < order_of ks i} \<subset> set_keys ks" by auto
    then show "rank ks i < card (set_keys ks)" unfolding rank_def by (intro psubset_card_mono) auto
  qed
qed simp

text \<open>The table of ordered indexes.\<close>

lemma ordered_indexes_spec:
  assumes "inj_on (order_of ks) (set_keys ks)" and "\<forall>i < 4. order_of ks i < 4"
  shows "length (ordered_indexes ks) = 4"
    and "\<And>i. i \<in> set_keys ks \<Longrightarrow> ordered_indexes ks ! order_of ks i = int i"
    and "\<And>p. p < 4 \<Longrightarrow> (\<And>i. i \<in> set_keys ks \<Longrightarrow> order_of ks i \<noteq> p) \<Longrightarrow> ordered_indexes ks ! p = -1"
proof -
  define t where "t k = fold (\<lambda>i t. if sec_prot_keys_gtk_is_set ks i then t[order_of ks i := int i] else t) [0..<k]
       (replicate 4 (-1))" for k
  have "k \<le> 4 \<Longrightarrow> length (t k) = 4 \<and> (\<forall>i \<in> set_keys ks. i < k \<longrightarrow> t k ! order_of ks i = int i) \<and>
      (\<forall>p < 4. (\<forall>i \<in> set_keys ks. i < k \<longrightarrow> order_of ks i \<noteq> p) \<longrightarrow> t k ! p = -1)" for k
  proof (induction k)
    case 0
    then show ?case by (simp add: t_def)
  next
    case (Suc k)
    then have IH: "length (t k) = 4" "\<And>i. i \<in> set_keys ks \<Longrightarrow> i < k \<Longrightarrow> t k ! order_of ks i = int i"
      "\<And>p. p < 4 \<Longrightarrow> (\<forall>i \<in> set_keys ks. i < k \<longrightarrow> order_of ks i \<noteq> p) \<Longrightarrow> t k ! p = -1" by auto
    have st: "t (Suc k) = (if k \<in> set_keys ks then (t k)[order_of ks k := int k] else t k)"
      by (simp add: t_def is_set_iff)
    have ord: "order_of ks i < 4" if "i \<in> set_keys ks" for i using assms(2) set_keys_lt [OF that] by blast
    have inj: "order_of ks i \<noteq> order_of ks k" if "i \<in> set_keys ks" "k \<in> set_keys ks" "i \<noteq> k" for i
      using assms(1) that by (auto simp: inj_on_def)
    show ?case
    proof (intro conjI ballI allI impI)
      show "length (t (Suc k)) = 4" using IH(1) by (simp add: st)
      fix i assume "i \<in> set_keys ks" "i < Suc k"
      then show "t (Suc k) ! order_of ks i = int i"
        using IH(1,2) ord inj [of i] by (cases "i = k") (auto simp: st nth_list_update)
    next
      fix p assume p: "p < 4" "\<forall>i \<in> set_keys ks. i < Suc k \<longrightarrow> order_of ks i \<noteq> p"
      then show "t (Suc k) ! p = -1" using IH(1,3) by (auto simp: st nth_list_update)
    qed
  qed
  from this [of 4] have t4: "length (t 4) = 4" "\<forall>i \<in> set_keys ks. t 4 ! order_of ks i = int i"
    "\<forall>p < 4. (\<forall>i \<in> set_keys ks. order_of ks i \<noteq> p) \<longrightarrow> t 4 ! p = -1"
    using set_keys_lt by auto
  have "ordered_indexes ks = t 4" by (simp add: ordered_indexes_def t_def GTK_NUM_def)
  with t4 show "length (ordered_indexes ks) = 4"
    "\<And>i. i \<in> set_keys ks \<Longrightarrow> ordered_indexes ks ! order_of ks i = int i"
    "\<And>p. p < 4 \<Longrightarrow> (\<And>i. i \<in> set_keys ks \<Longrightarrow> order_of ks i \<noteq> p) \<Longrightarrow> ordered_indexes ks ! p = -1"
    by auto
qed

text \<open>Renumbering: every key gets its rank, nothing else changes.\<close>

lemma install_order_update_spec:
  assumes "inj_on (order_of ks) (set_keys ks)" and "\<forall>i < 4. order_of ks i < 4" and "length (gtk ks) = 4"
  shows "length (gtk (sec_prot_keys_gtk_install_order_update ks)) = 4"
    and "\<And>i. i < 4 \<Longrightarrow> gtk (sec_prot_keys_gtk_install_order_update ks) ! i =
      (if i \<in> set_keys ks then (gtk ks ! i)\<lparr>gk_install_order := rank ks i\<rparr> else gtk ks ! i)"
proof -
  note T = ordered_indexes_spec [OF assms(1,2)]
  let ?T = "ordered_indexes ks"
  define step where "step = (\<lambda>idx (ks, new_install_order).
         if idx \<ge> 0
         then let i = nat idx;
                  ks = (if gk_install_order (gtk ks ! i) \<noteq> new_install_order then ks\<lparr>gtks_updated := True\<rparr> else ks)
              in (set_gtk i (\<lambda>g. g\<lparr>gk_install_order := new_install_order mod 4\<rparr>) ks, new_install_order + 1)
         else (ks :: sec_prot_gtk_keys, new_install_order :: nat))"
  define c where "c p = card {o'. o' < p \<and> 0 \<le> ?T ! o'}" for p
  have cp: "c p \<le> p" for p
    unfolding c_def using card_mono [of "{..<p}" "{o'. o' < p \<and> 0 \<le> ?T ! o'}"] by auto
  have used: "0 \<le> ?T ! p \<longleftrightarrow> (\<exists>i \<in> set_keys ks. order_of ks i = p)" if "p < 4" for p
    using T(2) T(3) [OF that] by (metis of_nat_0_le_iff not_one_le_zero neg_0_le_iff_le)
  have "p \<le> 4 \<Longrightarrow> (\<exists>k. fold step (take p ?T) (ks, 0) = (k, c p) \<and> length (gtk k) = 4 \<and>
      (\<forall>i < 4. gtk k ! i = (if i \<in> set_keys ks \<and> order_of ks i < p
         then (gtk ks ! i)\<lparr>gk_install_order := c (order_of ks i)\<rparr> else gtk ks ! i)))" for p
  proof (induction p)
    case 0
    then show ?case using assms(3) by (simp add: c_def)
  next
    case (Suc p)
    then obtain k where k: "fold step (take p ?T) (ks, 0) = (k, c p)" "length (gtk k) = 4"
      "\<And>i. i < 4 \<Longrightarrow> gtk k ! i = (if i \<in> set_keys ks \<and> order_of ks i < p
         then (gtk ks ! i)\<lparr>gk_install_order := c (order_of ks i)\<rparr> else gtk ks ! i)" by auto
    have p: "p < 4" using Suc.prems by simp
    have f: "fold step (take (Suc p) ?T) (ks, 0) = step (?T ! p) (k, c p)"
      using k(1) p T(1) by (simp add: take_Suc_conv_app_nth)
    have cS: "c (Suc p) = (if 0 \<le> ?T ! p then Suc (c p) else c p)"
    proof -
      have "{o'. o' < Suc p \<and> 0 \<le> ?T ! o'} = (if 0 \<le> ?T ! p then insert p {o'. o' < p \<and> 0 \<le> ?T ! o'}
          else {o'. o' < p \<and> 0 \<le> ?T ! o'})" by (auto simp: less_Suc_eq)
      then show ?thesis by (simp add: c_def)
    qed
    show ?case
    proof (cases "0 \<le> ?T ! p")
      case False
      then have "order_of ks i \<noteq> p" if "i \<in> set_keys ks" for i using used [OF p] that by blast
      moreover have "step (?T ! p) (k, c p) = (k, c p)" using False by (simp add: step_def)
      ultimately show ?thesis using False k(2,3) by (auto simp: f cS less_Suc_eq)
    next
      case True
      then obtain i where i: "i \<in> set_keys ks" "order_of ks i = p" using used [OF p] by blast
      then have Ti: "?T ! p = int i" using T(2) by blast
      have uniq: "order_of ks j = p \<longleftrightarrow> j = i" if "j \<in> set_keys ks" for j
        using assms(1) i that by (auto simp: inj_on_def)
      have "c p mod 4 = c p" using cp [of p] p by simp
      then have "step (?T ! p) (k, c p) = (set_gtk i (\<lambda>g. g\<lparr>gk_install_order := c p\<rparr>)
          (if gk_install_order (gtk k ! i) \<noteq> c p then k\<lparr>gtks_updated := True\<rparr> else k), Suc (c p))"
        by (simp add: Ti step_def Let_def)
      then show ?thesis
        using True k(2,3) i uniq set_keys_lt [OF i(1)]
        by (auto simp: f cS less_Suc_eq nth_list_update)
    qed
  qed
  from this [of 4] obtain k where k: "fold step ?T (ks, 0) = (k, c 4)" "length (gtk k) = 4"
      "\<And>i. i < 4 \<Longrightarrow> gtk k ! i = (if i \<in> set_keys ks \<and> order_of ks i < 4
         then (gtk ks ! i)\<lparr>gk_install_order := c (order_of ks i)\<rparr> else gtk ks ! i)"
    using T(1) by auto
  have u: "sec_prot_keys_gtk_install_order_update ks = k"
    using k(1) by (simp add: sec_prot_keys_gtk_install_order_update_def step_def)
  have "c (order_of ks i) = rank ks i" if "i \<in> set_keys ks" for i
  proof -
    have "order_of ks i < 4" using assms(2) set_keys_lt [OF that] by blast
    then have "{o'. o' < order_of ks i \<and> 0 \<le> ?T ! o'} = order_of ks ` {j \<in> set_keys ks. order_of ks j < order_of ks i}"
      using used by (auto simp: image_iff)
    then show ?thesis
      unfolding c_def rank_def using assms(1) by (simp add: card_image inj_on_subset)
  qed
  then show "length (gtk (sec_prot_keys_gtk_install_order_update ks)) = 4"
    "\<And>i. i < 4 \<Longrightarrow> gtk (sec_prot_keys_gtk_install_order_update ks) ! i =
      (if i \<in> set_keys ks then (gtk ks ! i)\<lparr>gk_install_order := rank ks i\<rparr> else gtk ks ! i)"
    using k(2,3) assms(2) by (auto simp: u)
qed

lemma inv_wf: "gtks_inv ks \<Longrightarrow> i < 4 \<Longrightarrow> gtk_wf (gtk ks ! i)"
  by (simp add: gtks_inv_def)

lemma inv_len: "gtks_inv ks \<Longrightarrow> length (gtk ks) = 4"
  by (simp add: gtks_inv_def)

lemma inv_active: "gtks_inv ks \<Longrightarrow> i < 4 \<Longrightarrow> j < 4 \<Longrightarrow> status_of ks i = 2 \<Longrightarrow> status_of ks j = 2 \<Longrightarrow> i = j"
  by (simp add: gtks_inv_def)

text \<open>Operations that leave the flags, keys and orders alone only have to keep the states in order.\<close>

lemma inv_same_orders:
  assumes "gtks_inv ks" and "length (gtk ks') = 4"
    and "\<And>i. i < 4 \<Longrightarrow> gk_set (gtk ks' ! i) = gk_set (gtk ks ! i) \<and> gk_key (gtk ks' ! i) = gk_key (gtk ks ! i) \<and>
      order_of ks' i = order_of ks i"
    and "\<And>i. i < 4 \<Longrightarrow> status_of ks' i < 4 \<and> (\<not> gk_set (gtk ks ! i) \<longrightarrow> status_of ks' i = 0)"
    and "\<And>i j. i < 4 \<Longrightarrow> j < 4 \<Longrightarrow> status_of ks' i = 2 \<Longrightarrow> status_of ks' j = 2 \<Longrightarrow> i = j"
  shows "gtks_inv ks'"
proof -
  have "set_keys ks' = set_keys ks" using assms(3) by (auto simp: set_keys_def)
  moreover have "order_of ks' ` set_keys ks = order_of ks ` set_keys ks"
    using assms(3) set_keys_lt by (auto simp: image_iff)
  moreover have "gtk_wf (gtk ks' ! i)" if "i < 4" for i
    using inv_wf [OF assms(1) that] assms(3,4) [OF that] by (auto simp: gtk_wf_def)
  ultimately show ?thesis using assms(1,2,5) by (auto simp: gtks_inv_def)
qed

lemma inv_init: "gtks_inv sec_prot_keys_gtks_init"
proof -
  have "gtk sec_prot_keys_gtks_init ! i = gtk_zero" if "i < 4" for i
    using that by (simp add: sec_prot_keys_gtks_init_def GTK_NUM_def)
  then have "set_keys sec_prot_keys_gtks_init = {}" "\<forall>i < 4. gtk_wf (gtk sec_prot_keys_gtks_init ! i)"
    "\<forall>i < 4. status_of sec_prot_keys_gtks_init i = 0"
    by (auto simp: set_keys_def gtk_zero_def gtk_wf_def GTK_LEN_def)
  then show ?thesis by (auto simp: gtks_inv_def) (simp add: sec_prot_keys_gtks_init_def GTK_NUM_def)
qed

definition gtk_cleared :: "gtk_key \<Rightarrow> gtk_key" where
  "gtk_cleared g = g\<lparr>gk_set := False, gk_lifetime := 0, gk_status := GTK_STATUS_NEW, gk_key := replicate GTK_LEN 0\<rparr>"

lemma clear_spec:
  assumes "gtks_inv ks" and "k < 4"
  defines "ks' \<equiv> snd (sec_prot_keys_gtk_clear ks k)"
  shows "gtks_inv ks'" and "set_keys ks' = set_keys ks - {k}"
    and "\<And>i. i < 4 \<Longrightarrow> gtk ks' ! i = (if i = k then gtk_cleared (gtk ks ! i)
      else if i \<in> set_keys ks then (gtk ks ! i)\<lparr>gk_install_order := card {j \<in> set_keys ks - {k}. order_of ks j < order_of ks i}\<rparr>
      else gtk ks ! i)"
proof -
  define k1 where "k1 = (set_gtk k gtk_cleared ks)\<lparr>gtks_updated := True\<rparr>"
  note len = inv_len [OF assms(1)]
  have ks': "ks' = sec_prot_keys_gtk_install_order_update k1"
    using assms(2) by (simp add: ks'_def sec_prot_keys_gtk_clear_def k1_def GTK_NUM_def gtk_cleared_def [abs_def])
  have g1: "gtk k1 ! i = (if i = k then gtk_cleared (gtk ks ! i) else gtk ks ! i)" if "i < 4" for i
    using that len by (simp add: k1_def nth_list_update)
  have S1: "set_keys k1 = set_keys ks - {k}" using g1 by (auto simp: set_keys_def gtk_cleared_def split: if_splits)
  have o1: "order_of k1 i = order_of ks i" if "i < 4" for i using g1 [OF that] by (simp add: gtk_cleared_def)
  have inj: "inj_on (order_of k1) (set_keys k1)"
    using inv_inj [OF assms(1)] S1 o1 set_keys_lt by (auto simp: inj_on_def)
  have lt: "\<forall>i < 4. order_of k1 i < 4" using inv_wf [OF assms(1)] o1 by (simp add: gtk_wf_def)
  have len1: "length (gtk k1) = 4" using len by (simp add: k1_def)
  note u = install_order_update_spec [OF inj lt len1, folded ks']
  have S': "set_keys ks' = set_keys k1" using u(2) by (auto simp: set_keys_def split: if_splits)
  then show "set_keys ks' = set_keys ks - {k}" by (simp add: S1)
  have "rank k1 i = card {j \<in> set_keys ks - {k}. order_of ks j < order_of ks i}" if "i < 4" for i
    unfolding rank_def S1 using o1 that set_keys_lt by (intro arg_cong [where f = card]) auto
  then show g': "\<And>i. i < 4 \<Longrightarrow> gtk ks' ! i = (if i = k then gtk_cleared (gtk ks ! i)
      else if i \<in> set_keys ks then (gtk ks ! i)\<lparr>gk_install_order := card {j \<in> set_keys ks - {k}. order_of ks j < order_of ks i}\<rparr>
      else gtk ks ! i)"
    using u(2) S1 g1 by auto
  have ranks: "rank k1 ` set_keys k1 = {..<card (set_keys k1)}" by (rule rank_image [OF inj])
  have im: "order_of ks' ` set_keys ks' = {..<card (set_keys ks')}"
    unfolding S' using ranks u(2) set_keys_lt by (auto simp: image_iff)
  have "rank k1 i < 4" if "i \<in> set_keys k1" for i
  proof -
    have "rank k1 i < card (set_keys k1)" using ranks that by blast
    also have "\<dots> \<le> 4" using card_mono [of "{..<4}" "set_keys k1"] set_keys_lt by auto
    finally show ?thesis .
  qed
  then have wf: "gtk_wf (gtk ks' ! i)" if "i < 4" for i
    using inv_wf [OF assms(1) that] g1 [OF that] u(2) [OF that]
    by (auto simp: gtk_wf_def gtk_cleared_def GTK_LEN_def GTK_STATUS_NEW_def)
  have st: "status_of ks' i = (if i = k then 0 else status_of ks i)" if "i < 4" for i
    using g1 [OF that] u(2) [OF that] by (auto simp: gtk_cleared_def GTK_STATUS_NEW_def)
  then show "gtks_inv ks'"
    using u(1) wf im inv_active [OF assms(1)] by (auto simp: gtks_inv_def split: if_splits)
qed

text \<open>The loop over the orders finds the key installed last, when there is one.\<close>

lemma last_order_max:
  "(\<forall>i \<in> set_keys ks. int (order_of ks i) \<le> fst (last_order ks)) \<and>
   (last_order ks = (-1, -1) \<or> (\<exists>i \<in> set_keys ks. last_order ks = (int (order_of ks i), int i)))"
proof -
  define t where "t k = fold (\<lambda>i (order, index). if sec_prot_keys_gtk_is_set ks i \<and> int (order_of ks i) > order
                              then (int (order_of ks i), int i) else (order, index)) [0..<k] (-1, -1)" for k
  have "(\<forall>i \<in> set_keys ks. i < k \<longrightarrow> int (order_of ks i) \<le> fst (t k)) \<and>
      (t k = (-1, -1) \<or> (\<exists>i \<in> set_keys ks. t k = (int (order_of ks i), int i)))" for k
  proof (induction k)
    case 0
    then show ?case by (simp add: t_def)
  next
    case (Suc k)
    have "t (Suc k) = (if k \<in> set_keys ks \<and> int (order_of ks k) > fst (t k) then (int (order_of ks k), int k) else t k)"
      by (simp add: t_def is_set_iff split: prod.splits)
    then show ?case using Suc by (auto simp: less_Suc_eq split: if_splits intro: order_trans less_imp_le)
  qed
  from this [of 4] show ?thesis using set_keys_lt by (auto simp: last_order_def t_def GTK_NUM_def)
qed

lemma last_order_is:
  assumes "gtks_inv ks" and "k \<in> set_keys ks" and "Suc (order_of ks k) = card (set_keys ks)"
  shows "last_order ks = (int (order_of ks k), int k)"
proof -
  have le: "int (order_of ks k) \<le> fst (last_order ks)" using last_order_max [of ks] assms(2) by blast
  then obtain i where i: "i \<in> set_keys ks" "last_order ks = (int (order_of ks i), int i)"
    using last_order_max [of ks] by auto
  have "order_of ks i < card (set_keys ks)" using assms(1) i(1) by (auto simp: gtks_inv_def)
  then have "order_of ks i = order_of ks k" using le i(2) assms(3) by simp
  then have "i = k" using inv_inj [OF assms(1)] i(1) assms(2) by (simp add: inj_on_def)
  then show ?thesis using i(2) by simp
qed

lemma last_order_spec:
  assumes "gtks_inv ks"
  shows "sec_prot_keys_gtk_install_order_last_get ks = int (card (set_keys ks))"
proof (cases "set_keys ks = {}")
  case True
  then show ?thesis
    using last_order_max [of ks] by (simp add: sec_prot_keys_gtk_install_order_last_get_def)
next
  case False
  then have "card (set_keys ks) - 1 \<in> order_of ks ` set_keys ks"
    using assms by (simp add: gtks_inv_def card_gt_0_iff)
  then obtain k where k: "k \<in> set_keys ks" "card (set_keys ks) - 1 = order_of ks k" by blast
  then have "Suc (order_of ks k) = card (set_keys ks)" using False by (metis Suc_diff_1 card_gt_0_iff finite_set_keys)
  from last_order_is [OF assms k(1) this] this show ?thesis
    by (simp add: sec_prot_keys_gtk_install_order_last_get_def)
qed

section \<open>Every operation keeps the invariant\<close>

lemma set_spec:
  assumes "gtks_inv ks" and "k < 4" and "length key = 16" and "\<not> (gk_set (gtk ks ! k) \<and> gk_key (gtk ks ! k) = key)"
  shows "\<exists>ks'. sec_prot_keys_gtk_set ks k (Some key) lifetime = Some (0, ks') \<and> gtks_inv ks' \<and> gtks_updated ks' \<and>
    set_keys ks' = insert k (set_keys ks) \<and>
    gtk ks' ! k = \<lparr>gk_key = key, gk_lifetime = lifetime, gk_status = 0, gk_install_order = card (set_keys ks - {k}), gk_set = True\<rparr> \<and>
    (\<forall>i < 4. i \<noteq> k \<longrightarrow> gtk ks' ! i = gtk (snd (sec_prot_keys_gtk_clear ks k)) ! i)"
proof -
  define c where "c = snd (sec_prot_keys_gtk_clear ks k)"
  note cl = clear_spec [OF assms(1,2), folded c_def]
  let ?n = "card (set_keys ks - {k})"
  have lo: "sec_prot_keys_gtk_install_order_last_get c = int ?n" using last_order_spec [OF cl(1)] cl(2) by simp
  have n4: "?n < 4"
  proof -
    have "set_keys ks - {k} \<subset> {..<4}" using assms(2) set_keys_lt by auto
    from psubset_card_mono [OF _ this] show ?thesis by simp
  qed
  define ks' where "ks' = (set_gtk k (\<lambda>g. g\<lparr>gk_set := True, gk_lifetime := lifetime, gk_status := GTK_STATUS_NEW,
      gk_install_order := ?n, gk_key := key\<rparr>) c)\<lparr>gtks_updated := True\<rparr>"
  have e: "sec_prot_keys_gtk_set ks k (Some key) lifetime = Some (0, ks')"
    using assms(2,3,4) lo n4
    by (simp add: sec_prot_keys_gtk_set_def GTK_NUM_def GTK_LEN_def load_n_def ks'_def c_def Let_def)
  have g: "gtk ks' ! i = (if i = k then \<lparr>gk_key = key, gk_lifetime = lifetime, gk_status = 0, gk_install_order = ?n, gk_set = True\<rparr>
      else gtk c ! i)" if "i < 4" for i
    using that inv_len [OF cl(1)] by (simp add: ks'_def nth_list_update GTK_STATUS_NEW_def)
  have mem: "i \<in> set_keys ks' \<longleftrightarrow> i = k \<or> i \<in> set_keys c" for i
    using g [of i] assms(2) by (auto simp: set_keys_def)
  then have S': "set_keys ks' = insert k (set_keys ks)" using cl(2) by auto
  have cim: "order_of c ` (set_keys ks - {k}) = {..<?n}" using cl(1,2) by (simp add: gtks_inv_def)
  have "order_of ks' ` (set_keys ks - {k}) = order_of c ` (set_keys ks - {k})"
    by (rule image_cong [OF refl]) (use g set_keys_lt in auto)
  moreover have "order_of ks' k = ?n" using g assms(2) by simp
  moreover have "insert k (set_keys ks) = insert k (set_keys ks - {k})" by auto
  ultimately have "order_of ks' ` set_keys ks' = insert ?n {..<?n}" unfolding S' using cim by (metis image_insert)
  moreover have "card (set_keys ks') = Suc ?n" unfolding S' by (metis card.insert_remove finite_set_keys)
  ultimately have im: "order_of ks' ` set_keys ks' = {..<card (set_keys ks')}" by (simp add: lessThan_Suc)
  have wf: "gtk_wf (gtk ks' ! i)" if "i < 4" for i
    using inv_wf [OF cl(1) that] g [OF that] assms(3) n4 by (simp add: gtk_wf_def)
  have "status_of ks' i = (if i = k then 0 else status_of c i)" if "i < 4" for i using g [OF that] by simp
  then have "gtks_inv ks'"
    using im wf inv_active [OF cl(1)] inv_len [OF cl(1)] by (auto simp: gtks_inv_def ks'_def split: if_splits)
  then show ?thesis using e S' g assms(2) by (auto simp: c_def ks'_def)
qed

lemma inv_updated [simp]: "gtks_inv (ks\<lparr>gtks_updated := b\<rparr>) = gtks_inv ks"
  by (simp add: gtks_inv_def set_keys_def)

lemma inv_set_status:
  assumes "gtks_inv ks" and "k < 4" and "gk_set (gtk ks ! k)" and "st < 4"
    and "st = 2 \<Longrightarrow> \<forall>i < 4. i \<noteq> k \<longrightarrow> status_of ks i \<noteq> 2"
  shows "gtks_inv (set_gtk k (\<lambda>g. g\<lparr>gk_status := st\<rparr>) ks)"
proof (rule inv_same_orders [OF assms(1)])
  show "length (gtk (set_gtk k (\<lambda>g. g\<lparr>gk_status := st\<rparr>) ks)) = 4" using inv_len [OF assms(1)] by simp
  fix i assume "i < (4 :: nat)"
  then show "gk_set (gtk (set_gtk k (\<lambda>g. g\<lparr>gk_status := st\<rparr>) ks) ! i) = gk_set (gtk ks ! i) \<and>
      gk_key (gtk (set_gtk k (\<lambda>g. g\<lparr>gk_status := st\<rparr>) ks) ! i) = gk_key (gtk ks ! i) \<and>
      order_of (set_gtk k (\<lambda>g. g\<lparr>gk_status := st\<rparr>) ks) i = order_of ks i"
    and "status_of (set_gtk k (\<lambda>g. g\<lparr>gk_status := st\<rparr>) ks) i < 4 \<and>
      (\<not> gk_set (gtk ks ! i) \<longrightarrow> status_of (set_gtk k (\<lambda>g. g\<lparr>gk_status := st\<rparr>) ks) i = 0)"
    using inv_len [OF assms(1)] assms(2) inv_wf [OF assms(1), of i] assms(3,4) by (auto simp: nth_list_update gtk_wf_def)
  fix j assume "j < (4 :: nat)" "status_of (set_gtk k (\<lambda>g. g\<lparr>gk_status := st\<rparr>) ks) i = 2"
    "status_of (set_gtk k (\<lambda>g. g\<lparr>gk_status := st\<rparr>) ks) j = 2"
  then show "i = j"
    using \<open>i < 4\<close> inv_len [OF assms(1)] inv_active [OF assms(1), of i j] assms(2) assms(5)
    by (auto simp: nth_list_update split: if_splits)
qed

lemma inv_lifetime:
  assumes "gtks_inv ks" and "k < 4"
  shows "gtks_inv (set_gtk k (\<lambda>g. g\<lparr>gk_lifetime := l g\<rparr>) ks)"
proof (rule inv_same_orders [OF assms(1)])
  fix i assume "i < (4 :: nat)"
  then show "status_of (set_gtk k (\<lambda>g. g\<lparr>gk_lifetime := l g\<rparr>) ks) i < 4 \<and>
      (\<not> gk_set (gtk ks ! i) \<longrightarrow> status_of (set_gtk k (\<lambda>g. g\<lparr>gk_lifetime := l g\<rparr>) ks) i = 0)"
    using inv_len [OF assms(1)] assms(2) inv_wf [OF assms(1), of i] by (auto simp: nth_list_update gtk_wf_def)
  fix j assume "j < (4 :: nat)" "status_of (set_gtk k (\<lambda>g. g\<lparr>gk_lifetime := l g\<rparr>) ks) i = 2"
    "status_of (set_gtk k (\<lambda>g. g\<lparr>gk_lifetime := l g\<rparr>) ks) j = 2"
  then show "i = j"
    using \<open>i < 4\<close> inv_len [OF assms(1)] inv_active [OF assms(1), of i j] assms(2) by (auto simp: nth_list_update split: if_splits)
qed (use inv_len [OF assms(1)] assms(2) in \<open>auto simp: nth_list_update\<close>)

text \<open>Retiring: the active key becomes old, the others stay.\<close>

lemma retire_spec:
  assumes "length (gtk ks) = 4"
  shows "length (gtk (retire_active ks)) = 4"
    and "i < 4 \<Longrightarrow> gtk (retire_active ks) ! i = (if status_of ks i = 2 then (gtk ks ! i)\<lparr>gk_status := 3\<rparr> else gtk ks ! i)"
proof -
  define r where "r k = fold (\<lambda>i ks. if status_of ks i = GTK_STATUS_ACTIVE
                  then (set_gtk i (\<lambda>g. g\<lparr>gk_status := GTK_STATUS_OLD\<rparr>) ks)\<lparr>gtks_updated := True\<rparr> else ks) [0..<k] ks" for k
  have "k \<le> 4 \<Longrightarrow> length (gtk (r k)) = 4 \<and> (\<forall>i < 4. gtk (r k) ! i =
      (if i < k \<and> status_of ks i = 2 then (gtk ks ! i)\<lparr>gk_status := 3\<rparr> else gtk ks ! i))" for k
  proof (induction k)
    case 0
    then show ?case using assms by (simp add: r_def)
  next
    case (Suc k)
    have "r (Suc k) = (if status_of (r k) k = 2 then (set_gtk k (\<lambda>g. g\<lparr>gk_status := 3\<rparr>) (r k))\<lparr>gtks_updated := True\<rparr> else r k)"
      by (simp add: r_def gtk_status_defs)
    then show ?case using Suc by (auto simp: nth_list_update less_Suc_eq)
  qed
  from this [of 4] have "length (gtk (r 4)) = 4" "\<forall>i < 4. gtk (r 4) ! i =
      (if status_of ks i = 2 then (gtk ks ! i)\<lparr>gk_status := 3\<rparr> else gtk ks ! i)" by auto
  moreover have "retire_active ks = r 4" by (simp add: retire_active_def r_def GTK_NUM_def)
  ultimately show "length (gtk (retire_active ks)) = 4"
    and "i < 4 \<Longrightarrow> gtk (retire_active ks) ! i = (if status_of ks i = 2 then (gtk ks ! i)\<lparr>gk_status := 3\<rparr> else gtk ks ! i)"
    by auto
qed

lemma inv_retire:
  assumes "gtks_inv ks"
  shows "gtks_inv (retire_active ks)"
proof (rule inv_same_orders [OF assms])
  note r = retire_spec [OF inv_len [OF assms]]
  show "length (gtk (retire_active ks)) = 4" by (rule r(1))
  fix i assume i: "i < (4 :: nat)"
  then show "gk_set (gtk (retire_active ks) ! i) = gk_set (gtk ks ! i) \<and>
      gk_key (gtk (retire_active ks) ! i) = gk_key (gtk ks ! i) \<and> order_of (retire_active ks) i = order_of ks i"
    and "status_of (retire_active ks) i < 4 \<and> (\<not> gk_set (gtk ks ! i) \<longrightarrow> status_of (retire_active ks) i = 0)"
    using r(2) inv_wf [OF assms i] by (auto simp: gtk_wf_def)
  fix j assume "status_of (retire_active ks) i = 2"
  then show "i = j" using r(2) [OF i] by (simp split: if_splits)
qed

lemma inv_active_set:
  assumes "gtks_inv ks"
  shows "gtks_inv (snd (sec_prot_keys_gtk_status_active_set ks k))"
proof -
  note r = retire_spec [OF inv_len [OF assms]]
  have "gtks_inv (set_gtk k (\<lambda>g. g\<lparr>gk_status := 2\<rparr>) (retire_active ks))" if "k < 4" "gk_set (gtk ks ! k)"
    using that r(2) by (intro inv_set_status inv_retire assms) auto
  then show ?thesis
    using assms by (auto simp: sec_prot_keys_gtk_status_active_set_def GTK_NUM_def gtk_status_defs)
qed

lemma inv_status_set:
  assumes "gtks_inv ks" and "st mod 4 \<noteq> 2"
  shows "gtks_inv (snd (sec_prot_keys_gtk_status_set ks k st))"
  using assms inv_set_status [of "if status_of ks k \<noteq> st then ks\<lparr>gtks_updated := True\<rparr> else ks" k "st mod 4"]
  by (auto simp: sec_prot_keys_gtk_status_set_def GTK_NUM_def Let_def)

lemma inv_new_set: "gtks_inv ks \<Longrightarrow> gtks_inv (sec_prot_keys_gtk_status_new_set ks k)"
  using inv_set_status [of "if status_of ks k \<noteq> 0 then ks\<lparr>gtks_updated := True\<rparr> else ks" k 0]
  by (auto simp: sec_prot_keys_gtk_status_new_set_def GTK_NUM_def GTK_STATUS_NEW_def Let_def)

lemma inv_fresh_set: "gtks_inv ks \<Longrightarrow> gtks_inv (sec_prot_keys_gtk_status_fresh_set ks k)"
  using inv_set_status [of ks k 1]
  by (auto simp: sec_prot_keys_gtk_status_fresh_set_def GTK_NUM_def gtk_status_defs)

lemma inv_active_to_fresh: "gtks_inv ks \<Longrightarrow> gtks_inv (snd (sec_prot_keys_gtk_status_active_to_fresh_set ks))"
  by (simp add: sec_prot_keys_gtk_status_active_to_fresh_set_def Let_def inv_status_set GTK_STATUS_FRESH_def)

lemma inv_clear: "gtks_inv ks \<Longrightarrow> gtks_inv (snd (sec_prot_keys_gtk_clear ks k))"
  using clear_spec(1) [of ks k] by (cases "k < 4") (auto simp: sec_prot_keys_gtk_clear_def GTK_NUM_def)

lemma inv_hash_update_one:
  "gtks_inv (snd st) \<Longrightarrow> hash_update_one sha256 h del i st = Some st' \<Longrightarrow> gtks_inv (snd st')"
  by (auto simp: hash_update_one_def Let_def inv_clear inv_fresh_set split: Option.bind_splits if_splits option.splits prod.splits)

lemma inv_hash_update_loop:
  "gtks_inv (snd st) \<Longrightarrow> hash_update_loop sha256 h del is st = Some st' \<Longrightarrow> gtks_inv (snd st')"
proof (induction "is" arbitrary: st)
  case Nil
  then show ?case by simp
next
  case (Cons i "is")
  from Cons.prems(2) obtain st1 where st1: "hash_update_one sha256 h del i st = Some st1"
    "hash_update_loop sha256 h del is st1 = Some st'" by (auto simp: bind_eq_Some_conv)
  then show ?case using Cons.IH inv_hash_update_one [OF Cons.prems(1) st1(1)] by blast
qed

lemma inv_all_fresh: "gtks_inv ks \<Longrightarrow> gtks_inv (sec_prot_keys_gtk_status_all_fresh_set ks)"
  by (simp add: sec_prot_keys_gtk_status_all_fresh_set_def upt_GTK_NUM inv_fresh_set)

lemma inv_gtk_set: "gtks_inv ks \<Longrightarrow> sec_prot_keys_gtk_set ks k key lifetime = Some (r, ks') \<Longrightarrow> gtks_inv ks'"
proof -
  assume a: "gtks_inv ks" "sec_prot_keys_gtk_set ks k key lifetime = Some (r, ks')"
  show "gtks_inv ks'"
  proof (cases "\<exists>x. key = Some x \<and> k < 4 \<and> 16 \<le> length x \<and> \<not> (gk_set (gtk ks ! k) \<and> gk_key (gtk ks ! k) = take 16 x)")
    case True
    then obtain x where x: "key = Some x" "k < 4" "16 \<le> length x" "\<not> (gk_set (gtk ks ! k) \<and> gk_key (gtk ks ! k) = take 16 x)"
      by auto
    then have "sec_prot_keys_gtk_set ks k key lifetime = sec_prot_keys_gtk_set ks k (Some (take 16 x)) lifetime"
      by (simp add: sec_prot_keys_gtk_set_def load_n_def GTK_LEN_def)
    then show ?thesis using set_spec [OF a(1) x(2) _ x(4), of lifetime] x(3) a(2) by auto
  next
    case False
    then have "ks' = ks"
      using a(2) by (auto simp: sec_prot_keys_gtk_set_def GTK_NUM_def GTK_LEN_def load_n_def Let_def
          split: option.splits if_splits Option.bind_splits)
    then show ?thesis using a(1) by simp
  qed
qed

lemma inv_decrement:
  "gtks_inv ks \<Longrightarrow> sec_prot_keys_gtk_lifetime_decrement ks k seconds = Some (l, ks') \<Longrightarrow> gtks_inv ks'"
  using inv_lifetime [of ks k "\<lambda>g. gk_lifetime g - seconds"] inv_lifetime [of ks k "\<lambda>_. 0"] inv_len [of ks]
  by (auto simp: sec_prot_keys_gtk_lifetime_decrement_def load_def Let_def split: if_splits Option.bind_splits)

text \<open>
  The operations on a key table. \<open>sec_prot_keys_gtk_status_set\<close>, which stores any state, is called
  with \<open>GTK_STATUS_FRESH\<close> and \<open>GTK_STATUS_OLD\<close> only; the rule excludes the active state.
\<close>

inductive gtk_step :: "(u8 list \<Rightarrow> u8 list option) \<Rightarrow> sec_prot_gtk_keys \<Rightarrow> sec_prot_gtk_keys \<Rightarrow> bool" for sha256 where
  install: "sec_prot_keys_gtk_set ks k key lifetime = Some (r, ks') \<Longrightarrow> gtk_step sha256 ks ks'"
| remove: "gtk_step sha256 ks (snd (sec_prot_keys_gtk_clear ks k))"
| remove_all: "sec_prot_keys_gtks_clear (Some ks) = Some ks' \<Longrightarrow> gtk_step sha256 ks ks'"
| age: "sec_prot_keys_gtk_lifetime_decrement ks k seconds = Some (l, ks') \<Longrightarrow> gtk_step sha256 ks ks'"
| fresh: "gtk_step sha256 ks (sec_prot_keys_gtk_status_fresh_set ks k)"
| all_fresh: "gtk_step sha256 ks (sec_prot_keys_gtk_status_all_fresh_set ks)"
| activate: "gtk_step sha256 ks (snd (sec_prot_keys_gtk_status_active_set ks k))"
| deactivate: "gtk_step sha256 ks (snd (sec_prot_keys_gtk_status_active_to_fresh_set ks))"
| new: "gtk_step sha256 ks (sec_prot_keys_gtk_status_new_set ks k)"
| status: "st mod 4 \<noteq> GTK_STATUS_ACTIVE \<Longrightarrow> gtk_step sha256 ks (snd (sec_prot_keys_gtk_status_set ks k st))"
| hashes: "sec_prot_keys_gtks_hash_update sha256 ks h del = Some (m, ks') \<Longrightarrow> gtk_step sha256 ks ks'"
| mark: "gtk_step sha256 ks (sec_prot_keys_gtks_updated_set ks)"
| unmark: "gtk_step sha256 ks (sec_prot_keys_gtks_updated_reset ks)"

lemma gtk_step_inv: "gtk_step sha256 ks ks' \<Longrightarrow> gtks_inv ks \<Longrightarrow> gtks_inv ks'"
proof (induction rule: gtk_step.induct)
  case (remove_all ks ks')
  then have "gtk ks' = gtk sec_prot_keys_gtks_init"
    by (auto simp: sec_prot_keys_gtks_clear_def sec_prot_keys_gtks_init_def Let_def)
  then show ?case using inv_init by (simp add: gtks_inv_def set_keys_def)
next
  case (hashes ks h del m ks')
  then show ?case
    using inv_hash_update_loop [of "(GTK_NO_MISMATCH, ks)"] by (auto simp: sec_prot_keys_gtks_hash_update_def)
next
  case (install ks k key lifetime r ks')
  then show ?case using inv_gtk_set by blast
next
  case (age ks k seconds l ks')
  then show ?case using inv_decrement by blast
next
  case (status st ks k)
  then show ?case using inv_status_set by (simp add: GTK_STATUS_ACTIVE_def)
qed (simp_all only: inv_clear inv_fresh_set inv_all_fresh inv_active_set inv_active_to_fresh inv_new_set
    sec_prot_keys_gtks_updated_set_def sec_prot_keys_gtks_updated_reset_def inv_updated)

section \<open>Delivery of the keys to a node\<close>

text \<open>One exchange: choose the key to insert, deliver it, note that the node has it.\<close>

definition insert_round :: "sec_prot_gtk_keys \<Rightarrow> sec_prot_gtk \<Rightarrow> sec_prot_gtk" where
  "insert_round keys s = sec_prot_keys_gtkl_from_gtk_insert_index_set (snd (sec_prot_keys_gtk_insert_index_from_gtkl_get keys s))"

text \<open>The keys a node needs: live ones and old ones; and those it lacks.\<close>

definition wanted :: "sec_prot_gtk_keys \<Rightarrow> nat \<Rightarrow> bool" where
  "wanted keys i \<longleftrightarrow> sec_prot_keys_gtk_status_is_live keys i \<or> sec_prot_keys_gtk_status_get keys i = GTK_STATUS_OLD"

definition lacking :: "sec_prot_gtk_keys \<Rightarrow> sec_prot_gtk \<Rightarrow> nat set" where
  "lacking keys s = {i. i < 4 \<and> wanted keys i \<and> \<not> sec_prot_keys_gtkl_gtk_is_live s i}"

lemma live_iff_bit: "sec_prot_keys_gtkl_gtk_is_live s i \<longleftrightarrow> i < 4 \<and> bit (gtkl s) i"
  by (simp add: sec_prot_keys_gtkl_gtk_is_live_def GTK_NUM_def bit_iff_and_push_bit_not_eq_0)

lemma wanted_set: "wanted keys i \<Longrightarrow> i < 4 \<and> gk_set (gtk keys ! i)"
  by (auto simp: wanted_def sec_prot_keys_gtk_status_is_live_def sec_prot_keys_gtk_status_get_def GTK_NUM_def
      GTK_STATUS_OLD_def split: if_splits)

lemma active_get_cases:
  assumes "gtks_inv keys"
  shows "(sec_prot_keys_gtk_status_active_get keys = -1 \<and> (\<forall>i < 4. status_of keys i \<noteq> 2)) \<or>
    (\<exists>a < 4. sec_prot_keys_gtk_status_active_get keys = int a \<and> status_of keys a = 2 \<and> wanted keys a)"
proof (cases "find (\<lambda>i. status_of keys i = GTK_STATUS_ACTIVE) [0..<GTK_NUM]")
  case None
  then have "\<forall>i < 4. status_of keys i \<noteq> 2" by (auto simp: find_None_iff GTK_NUM_def GTK_STATUS_ACTIVE_def)
  then show ?thesis by (simp add: sec_prot_keys_gtk_status_active_get_def None)
next
  case (Some a)
  then have "a < 4" "status_of keys a = 2" by (auto simp: find_Some_iff GTK_NUM_def GTK_STATUS_ACTIVE_def)
  moreover from this have "gk_set (gtk keys ! a)" using inv_wf [OF assms, of a] by (auto simp: gtk_wf_def)
  ultimately show ?thesis
    using Some by (auto simp: sec_prot_keys_gtk_status_active_get_def wanted_def sec_prot_keys_gtk_status_is_live_def
        GTK_NUM_def gtk_status_defs)
qed

lemma active_get_iff:
  assumes "gtks_inv keys"
  shows "sec_prot_keys_gtk_status_active_get keys = int i \<longleftrightarrow> i < 4 \<and> status_of keys i = 2"
proof
  assume "sec_prot_keys_gtk_status_active_get keys = int i"
  then show "i < 4 \<and> status_of keys i = 2" using active_get_cases [OF assms] by auto
next
  assume i: "i < 4 \<and> status_of keys i = 2"
  then obtain a where "a < 4" "sec_prot_keys_gtk_status_active_get keys = int a" "status_of keys a = 2"
    using active_get_cases [OF assms] by blast
  then show "sec_prot_keys_gtk_status_active_get keys = int i" using inv_active [OF assms, of a i] i by simp
qed

lemma choose_spec:
  assumes "gtks_inv keys"
  shows "(lacking keys s = {} \<and> sec_prot_keys_gtk_insert_index_from_gtkl_get keys s = (-1, s)) \<or>
    (\<exists>i \<in> lacking keys s. sec_prot_keys_gtk_insert_index_from_gtkl_get keys s = (int i, s\<lparr>gtk_set_index := int i\<rparr>) \<and>
      (\<forall>a \<in> lacking keys s. status_of keys a = 2 \<longrightarrow> i = a))"
proof -
  have ins: "snd (sec_prot_keys_gtk_insert_index_set keys s i) = s\<lparr>gtk_set_index := int i\<rparr>" if "wanted keys i" for i
    using wanted_set [OF that] by (simp add: sec_prot_keys_gtk_insert_index_set_def GTK_NUM_def)
  let ?P = "\<lambda>i. (sec_prot_keys_gtk_status_is_live keys i \<or> sec_prot_keys_gtk_status_get keys i = GTK_STATUS_OLD) \<and>
    \<not> sec_prot_keys_gtkl_gtk_is_live s i"
  show ?thesis
  proof (cases "\<exists>a \<in> lacking keys s. status_of keys a = 2")
    case True
    then obtain a where a: "a \<in> lacking keys s" "status_of keys a = 2" by blast
    then have "sec_prot_keys_gtk_status_active_get keys = int a"
      using active_get_cases [OF assms] inv_active [OF assms] by (auto simp: lacking_def)
    then have "sec_prot_keys_gtk_insert_index_from_gtkl_get keys s = (int a, s\<lparr>gtk_set_index := int a\<rparr>)"
      using a ins [of a] by (simp add: sec_prot_keys_gtk_insert_index_from_gtkl_get_def Let_def lacking_def)
    then show ?thesis using a inv_active [OF assms] by (auto simp: lacking_def)
  next
    case False
    then have na: "\<not> (sec_prot_keys_gtk_status_active_get keys \<ge> 0 \<and>
        \<not> sec_prot_keys_gtkl_gtk_is_live s (nat (sec_prot_keys_gtk_status_active_get keys)))"
      using active_get_cases [OF assms] by (auto simp: lacking_def)
    show ?thesis
    proof (cases "find ?P [0..<GTK_NUM]")
      case None
      then have "lacking keys s = {}" by (auto simp: lacking_def wanted_def find_None_iff GTK_NUM_def)
      then show ?thesis using na None by (simp add: sec_prot_keys_gtk_insert_index_from_gtkl_get_def Let_def)
    next
      case (Some i)
      then have i: "i \<in> lacking keys s" by (auto simp: lacking_def wanted_def find_Some_iff GTK_NUM_def)
      then have "sec_prot_keys_gtk_insert_index_from_gtkl_get keys s = (int i, s\<lparr>gtk_set_index := int i\<rparr>)"
        using na Some ins [of i] by (auto simp: sec_prot_keys_gtk_insert_index_from_gtkl_get_def Let_def lacking_def)
      then show ?thesis using i False by blast
    qed
  qed
qed

lemma round_cases:
  assumes "gtks_inv keys" and "gtk_set_index s = -1"
  shows "lacking keys s = {} \<or> (\<exists>i \<in> lacking keys s. insert_round keys s = s\<lparr>gtkl := gtkl s OR push_bit i 1, gtk_set_index := -1\<rparr>)"
proof (cases "lacking keys s = {}")
  case False
  then obtain i where i: "i \<in> lacking keys s"
    "sec_prot_keys_gtk_insert_index_from_gtkl_get keys s = (int i, s\<lparr>gtk_set_index := int i\<rparr>)"
    using choose_spec [OF assms(1), of s] by auto
  then have "insert_round keys s = s\<lparr>gtkl := gtkl s OR push_bit i 1, gtk_set_index := -1\<rparr>"
    by (auto simp: insert_round_def sec_prot_keys_gtkl_from_gtk_insert_index_set_def
        sec_prot_keys_gtkl_gtk_live_set_def sec_prot_keys_gtk_insert_index_clear_def lacking_def GTK_NUM_def)
  then show ?thesis using i(1) by blast
qed simp

lemma round_spec:
  assumes "gtks_inv keys" and "gtk_set_index s = -1"
  shows "gtk_set_index (insert_round keys s) = -1"
    and "\<And>i. i < 4 \<Longrightarrow> \<not> wanted keys i \<Longrightarrow>
      sec_prot_keys_gtkl_gtk_is_live (insert_round keys s) i = sec_prot_keys_gtkl_gtk_is_live s i"
    and "lacking keys s = {} \<Longrightarrow> insert_round keys s = s"
    and "lacking keys s \<noteq> {} \<Longrightarrow> card (lacking keys (insert_round keys s)) < card (lacking keys s)"
proof -
  have r0: "insert_round keys s = s" if "lacking keys s = {}"
    using choose_spec [OF assms(1), of s] that assms(2)
    by (auto simp: insert_round_def sec_prot_keys_gtkl_from_gtk_insert_index_set_def)
  have r1: "\<exists>i \<in> lacking keys s. insert_round keys s = s\<lparr>gtkl := gtkl s OR push_bit i 1, gtk_set_index := -1\<rparr>"
    if "lacking keys s \<noteq> {}"
    using round_cases [OF assms] that by blast
  have b: "bit (w OR push_bit i 1 :: u8) j \<longleftrightarrow> bit w j \<or> j = i" if "i < 4" "j < 4" for w i j
    using that by (auto simp: bit_or_iff bit_exp_iff)
  show "gtk_set_index (insert_round keys s) = -1" using r0 r1 assms(2) by (cases "lacking keys s = {}") auto
  show "\<And>i. i < 4 \<Longrightarrow> \<not> wanted keys i \<Longrightarrow>
      sec_prot_keys_gtkl_gtk_is_live (insert_round keys s) i = sec_prot_keys_gtkl_gtk_is_live s i"
    using r0 r1 b by (cases "lacking keys s = {}") (auto simp: live_iff_bit lacking_def)
  show "lacking keys s = {} \<Longrightarrow> insert_round keys s = s" by (rule r0)
  assume ne: "lacking keys s \<noteq> {}"
  then obtain i where i: "i \<in> lacking keys s" "insert_round keys s = s\<lparr>gtkl := gtkl s OR push_bit i 1, gtk_set_index := -1\<rparr>"
    using r1 by blast
  then have "lacking keys (insert_round keys s) = lacking keys s - {i}"
    using b by (auto simp: lacking_def live_iff_bit)
  moreover have "finite (lacking keys s)" by (simp add: lacking_def)
  ultimately show "card (lacking keys (insert_round keys s)) < card (lacking keys s)"
    using i(1) by (simp only: card_Diff1_less)
qed

lemma round_active:
  assumes "gtks_inv keys" and "gtk_set_index s = -1" and "sec_prot_keys_gtk_status_active_get keys = int a"
  shows "sec_prot_keys_gtkl_gtk_is_live (insert_round keys s) a"
proof -
  have a: "a < 4" "status_of keys a = 2" using assms(3) by (simp_all add: active_get_iff [OF assms(1)])
  then have "gk_set (gtk keys ! a)" using inv_wf [OF assms(1), of a] by (auto simp: gtk_wf_def)
  then have w: "wanted keys a"
    using a by (simp add: wanted_def sec_prot_keys_gtk_status_is_live_def GTK_NUM_def GTK_STATUS_ACTIVE_def)
  show ?thesis
  proof (cases "a \<in> lacking keys s")
    case False
    then have live: "sec_prot_keys_gtkl_gtk_is_live s a" using a(1) w by (simp add: lacking_def)
    have "lacking keys s = {} \<or> (\<exists>i \<in> lacking keys s. insert_round keys s = s\<lparr>gtkl := gtkl s OR push_bit i 1, gtk_set_index := -1\<rparr>)"
      by (rule round_cases [OF assms(1,2)])
    then show ?thesis using live round_spec(3) [OF assms(1,2)] by (auto simp: live_iff_bit bit_or_iff)
  next
    case True
    then have "sec_prot_keys_gtk_insert_index_from_gtkl_get keys s = (int a, s\<lparr>gtk_set_index := int a\<rparr>)"
      using choose_spec [OF assms(1), of s] a(2) by auto
    then show ?thesis
      using a(1) by (auto simp: insert_round_def sec_prot_keys_gtkl_from_gtk_insert_index_set_def bit_or_iff bit_exp_iff
          sec_prot_keys_gtkl_gtk_live_set_def sec_prot_keys_gtk_insert_index_clear_def live_iff_bit GTK_NUM_def)
  qed
qed

section \<open>Installing and activating keys\<close>

lemma card_less_iff:
  assumes "finite S" and "i \<in> S" and "j \<in> S"
  shows "card {x \<in> S. f x < f i} < card {x \<in> S. f x < f j} \<longleftrightarrow> (f i :: nat) < f j"
proof -
  have mono: "card {x \<in> S. f x < f a} < card {x \<in> S. f x < f b}" if "a \<in> S" "f a < f b" for a b
    using assms(1) that by (intro psubset_card_mono) auto
  show ?thesis using mono [OF assms(2), of j] mono [OF assms(3), of i] by (cases "f i" "f j" rule: linorder_cases) auto
qed

text \<open>
  C34. Installing a group key, of 16 bytes and other than the one at that index, succeeds; the key is
  then stored in the state new with the lifetime given, and is the one installed last. The other keys keep
  their bytes, lifetimes and states, and the order in which they were installed.
\<close>

theorem gtk_install:
  assumes "gtks_inv ks" and "k < GTK_NUM" and "length key = GTK_LEN"
    and "\<not> (sec_prot_keys_gtk_get ks k = Some key)"
  shows "\<exists>ks'. sec_prot_keys_gtk_set ks k (Some key) lifetime = Some (0, ks') \<and> gtks_inv ks' \<and> sec_prot_keys_gtks_are_updated ks' \<and>
    sec_prot_keys_gtk_get ks' k = Some key \<and> sec_prot_keys_gtk_lifetime_get ks' k = lifetime \<and>
    sec_prot_keys_gtk_status_get ks' k = GTK_STATUS_NEW \<and> sec_prot_keys_gtk_install_order_last_index_get ks' = int k \<and>
    (\<forall>i. i \<noteq> k \<longrightarrow> sec_prot_keys_gtk_get ks' i = sec_prot_keys_gtk_get ks i \<and>
       sec_prot_keys_gtk_lifetime_get ks' i = sec_prot_keys_gtk_lifetime_get ks i \<and>
       sec_prot_keys_gtk_status_get ks' i = sec_prot_keys_gtk_status_get ks i) \<and>
    (\<forall>i \<in> set_keys ks - {k}. \<forall>j \<in> set_keys ks - {k}. order_of ks' i < order_of ks' j \<longleftrightarrow> order_of ks i < order_of ks j)"
proof -
  have k: "k < 4" "length key = 16" using assms(2,3) by (simp_all add: GTK_NUM_def GTK_LEN_def)
  have ne: "\<not> (gk_set (gtk ks ! k) \<and> gk_key (gtk ks ! k) = key)"
    using assms(4) k(1) by (auto simp: sec_prot_keys_gtk_get_def GTK_NUM_def)
  obtain ks' where ks': "sec_prot_keys_gtk_set ks k (Some key) lifetime = Some (0, ks')" "gtks_inv ks'" "gtks_updated ks'"
    "set_keys ks' = insert k (set_keys ks)"
    "gtk ks' ! k = \<lparr>gk_key = key, gk_lifetime = lifetime, gk_status = 0, gk_install_order = card (set_keys ks - {k}), gk_set = True\<rparr>"
    "\<And>i. i < 4 \<Longrightarrow> i \<noteq> k \<Longrightarrow> gtk ks' ! i = gtk (snd (sec_prot_keys_gtk_clear ks k)) ! i"
    using set_spec [OF assms(1) k ne, of lifetime] by auto
  note cl = clear_spec [OF assms(1) k(1)]
  have others: "gtk ks' ! i = (if i \<in> set_keys ks
      then (gtk ks ! i)\<lparr>gk_install_order := card {j \<in> set_keys ks - {k}. order_of ks j < order_of ks i}\<rparr> else gtk ks ! i)"
    if "i < 4" "i \<noteq> k" for i using ks'(6) [OF that] cl(3) [OF that(1)] that(2) by simp
  have "Suc (order_of ks' k) = card (set_keys ks')" using ks'(4,5) by (simp add: card.insert_remove)
  then have lst: "sec_prot_keys_gtk_install_order_last_index_get ks' = int k"
    using last_order_is [OF ks'(2), of k] ks'(4) by (simp add: sec_prot_keys_gtk_install_order_last_index_get_def)
  have keep: "sec_prot_keys_gtk_get ks' i = sec_prot_keys_gtk_get ks i \<and>
       sec_prot_keys_gtk_lifetime_get ks' i = sec_prot_keys_gtk_lifetime_get ks i \<and>
       sec_prot_keys_gtk_status_get ks' i = sec_prot_keys_gtk_status_get ks i" if "i \<noteq> k" for i
    using others [of i] that by (cases "i < 4") (auto simp: sec_prot_keys_gtk_get_def sec_prot_keys_gtk_lifetime_get_def
        sec_prot_keys_gtk_status_get_def GTK_NUM_def)
  have "order_of ks' i < order_of ks' j \<longleftrightarrow> order_of ks i < order_of ks j"
    if "i \<in> set_keys ks - {k}" "j \<in> set_keys ks - {k}" for i j
  proof -
    have "i < 4" "j < 4" using that set_keys_lt by blast+
    then show ?thesis using others [of i] others [of j] card_less_iff [OF _ that, of "order_of ks"] that by simp
  qed
  then show ?thesis
    using ks'(1,2,3,5) lst keep k(1)
    by (intro exI [of _ ks']) (simp add: sec_prot_keys_gtk_get_def sec_prot_keys_gtk_lifetime_get_def
        sec_prot_keys_gtk_status_get_def sec_prot_keys_gtks_are_updated_def GTK_NUM_def GTK_STATUS_NEW_def)
qed

text \<open>A table with key 1 active and key 2 fresh, for the examples below.\<close>

definition table12 :: sec_prot_gtk_keys where
  "table12 = \<lparr>gtk = [gtk_zero,
      \<lparr>gk_key = replicate 16 1, gk_lifetime = 500, gk_status = 2, gk_install_order = 0, gk_set = True\<rparr>,
      \<lparr>gk_key = replicate 16 2, gk_lifetime = 900, gk_status = 1, gk_install_order = 1, gk_set = True\<rparr>, gtk_zero],
    gtks_updated = False\<rparr>"

lemma all_lt_4: "(\<forall>i < 4. P i) \<longleftrightarrow> P 0 \<and> P 1 \<and> P 2 \<and> P (3 :: nat)"
  by (auto simp: less_Suc_eq numeral_eq_Suc)

lemma table12_inv: "gtks_inv table12" "set_keys table12 = {1, 2}"
proof -
  have mem: "i \<in> set_keys table12 \<longleftrightarrow> i = 1 \<or> i = 2" for i
    by (auto simp: set_keys_def table12_def gtk_zero_def less_Suc_eq numeral_eq_Suc)
  then show s: "set_keys table12 = {1, 2}" by auto
  have "order_of table12 ` {1, 2} = {..<2}" by (simp add: table12_def lessThan_Suc numeral_2_eq_2 insert_commute)
  moreover have "card (set_keys table12) = 2" by (simp add: s)
  ultimately show "gtks_inv table12"
    unfolding gtks_inv_def all_lt_4 s by (simp add: table12_def gtk_zero_def gtk_wf_def GTK_LEN_def)
qed

theorem gtk_install_witness:
  "sec_prot_keys_gtk_install_order_last_index_get (snd (the (sec_prot_keys_gtk_set table12 0 (Some (replicate 16 7)) 42))) = 0"
proof -
  have "\<not> (sec_prot_keys_gtk_get table12 0 = Some (replicate 16 7))"
    by (simp add: sec_prot_keys_gtk_get_def table12_def gtk_zero_def GTK_NUM_def)
  from gtk_install [OF table12_inv(1) _ _ this, of 42] show ?thesis by (auto simp: GTK_NUM_def GTK_LEN_def)
qed

text \<open>
  Activating a fresh key makes it the active key and retires the one active before to the
  state old; the other keys are not touched. Nothing is activated, and nothing changes, when the key is
  not there or not fresh.
\<close>

theorem gtk_activation:
  assumes "gtks_inv ks"
  shows "(sec_prot_keys_gtk_status_get ks k = GTK_STATUS_FRESH \<longrightarrow>
      (\<exists>ks'. sec_prot_keys_gtk_status_active_set ks k = (0, ks') \<and> gtks_inv ks' \<and> sec_prot_keys_gtk_status_active_get ks' = int k \<and>
        (\<forall>i. i \<noteq> k \<longrightarrow> sec_prot_keys_gtk_status_get ks' i =
          (if int i = sec_prot_keys_gtk_status_active_get ks then GTK_STATUS_OLD else sec_prot_keys_gtk_status_get ks i)) \<and>
        (\<forall>i. sec_prot_keys_gtk_get ks' i = sec_prot_keys_gtk_get ks i))) \<and>
    (sec_prot_keys_gtk_status_get ks k \<noteq> GTK_STATUS_FRESH \<longrightarrow> sec_prot_keys_gtk_status_active_set ks k = (-1, ks))"
proof (intro conjI impI)
  note r = retire_spec [OF inv_len [OF assms]]
  assume f: "sec_prot_keys_gtk_status_get ks k = GTK_STATUS_FRESH"
  then have k: "k < 4" "gk_set (gtk ks ! k)" "status_of ks k = 1"
    by (auto simp: sec_prot_keys_gtk_status_get_def GTK_NUM_def GTK_STATUS_FRESH_def split: if_splits)
  define ks' where "ks' = set_gtk k (\<lambda>g. g\<lparr>gk_status := GTK_STATUS_ACTIVE\<rparr>) (retire_active ks)"
  have e: "sec_prot_keys_gtk_status_active_set ks k = (0, ks')"
    using k by (simp add: sec_prot_keys_gtk_status_active_set_def ks'_def GTK_NUM_def GTK_STATUS_FRESH_def)
  then have i': "gtks_inv ks'" using inv_active_set [OF assms, of k] by simp
  have g: "gtk ks' ! i = (if i = k then (gtk ks ! i)\<lparr>gk_status := 2\<rparr> else if status_of ks i = 2 then (gtk ks ! i)\<lparr>gk_status := 3\<rparr>
      else gtk ks ! i)" if "i < 4" for i
    using r(1) r(2) [OF that] k that by (auto simp: ks'_def nth_list_update GTK_STATUS_ACTIVE_def)
  have act: "sec_prot_keys_gtk_status_active_get ks' = int k" using g [OF k(1)] k(1) by (simp add: active_get_iff [OF i'])
  have old: "int i = sec_prot_keys_gtk_status_active_get ks \<longleftrightarrow> i < 4 \<and> status_of ks i = 2" for i
    using active_get_iff [OF assms] by metis
  have set: "gk_set (gtk ks ! i)" if "i < 4" "status_of ks i = 2" for i
    using inv_wf [OF assms that(1)] that(2) by (auto simp: gtk_wf_def)
  have "sec_prot_keys_gtk_status_get ks' i =
          (if int i = sec_prot_keys_gtk_status_active_get ks then GTK_STATUS_OLD else sec_prot_keys_gtk_status_get ks i)"
    if "i \<noteq> k" for i
    unfolding old using that g [of i] set [of i]
    by (cases "i < 4") (auto simp: sec_prot_keys_gtk_status_get_def GTK_NUM_def GTK_STATUS_OLD_def)
  moreover have "sec_prot_keys_gtk_get ks' i = sec_prot_keys_gtk_get ks i" for i
    using g [of i] by (cases "i < 4") (auto simp: sec_prot_keys_gtk_get_def GTK_NUM_def split: if_splits)
  ultimately show "\<exists>ks'. sec_prot_keys_gtk_status_active_set ks k = (0, ks') \<and> gtks_inv ks' \<and>
        sec_prot_keys_gtk_status_active_get ks' = int k \<and>
        (\<forall>i. i \<noteq> k \<longrightarrow> sec_prot_keys_gtk_status_get ks' i =
          (if int i = sec_prot_keys_gtk_status_active_get ks then GTK_STATUS_OLD else sec_prot_keys_gtk_status_get ks i)) \<and>
        (\<forall>i. sec_prot_keys_gtk_get ks' i = sec_prot_keys_gtk_get ks i)"
    using e i' act by blast
next
  assume "sec_prot_keys_gtk_status_get ks k \<noteq> GTK_STATUS_FRESH"
  then show "sec_prot_keys_gtk_status_active_set ks k = (-1, ks)"
    by (auto simp: sec_prot_keys_gtk_status_get_def sec_prot_keys_gtk_status_active_set_def)
qed

theorem gtk_activation_witness:
  "\<exists>ks'. sec_prot_keys_gtk_status_active_set table12 2 = (0, ks') \<and> sec_prot_keys_gtk_status_active_get ks' = 2 \<and>
    sec_prot_keys_gtk_status_get ks' 1 = GTK_STATUS_OLD"
proof -
  have a: "sec_prot_keys_gtk_status_get table12 2 = GTK_STATUS_FRESH"
    by (simp add: sec_prot_keys_gtk_status_get_def table12_def GTK_NUM_def GTK_STATUS_FRESH_def)
  have b: "sec_prot_keys_gtk_status_active_get table12 = 1" by code_simp
  show ?thesis using gtk_activation [OF table12_inv(1), of 2] a b by auto
qed



text \<open>
  The authenticator brings a node up to date: it delivers first the active key if the node lacks
  it, and after four exchanges, one key each, the node holds every live or old key, no further key
  is chosen, and nothing was changed for the keys the node does not need.
\<close>

theorem gtk_distribution:
  assumes "gtks_inv keys" and "sec_prot_keys_gtk_insert_index_get s = -1"
  defines "s' \<equiv> (insert_round keys ^^ GTK_NUM) s"
  shows "(\<forall>i. wanted keys i \<longrightarrow> sec_prot_keys_gtkl_gtk_is_live s' i) \<and>
    (\<forall>i. \<not> wanted keys i \<longrightarrow> sec_prot_keys_gtkl_gtk_is_live s' i = sec_prot_keys_gtkl_gtk_is_live s i) \<and>
    sec_prot_keys_gtk_insert_index_from_gtkl_get keys s' = (-1, s') \<and>
    (sec_prot_keys_gtk_status_active_get keys \<ge> 0 \<longrightarrow>
       sec_prot_keys_gtkl_gtk_is_live (insert_round keys s) (nat (sec_prot_keys_gtk_status_active_get keys)))"
proof -
  have s: "gtk_set_index s = -1" using assms(2) by (simp add: sec_prot_keys_gtk_insert_index_get_def)
  have rounds: "gtk_set_index ((insert_round keys ^^ n) s) = -1 \<and>
      card (lacking keys ((insert_round keys ^^ n) s)) \<le> 4 - n \<and>
      (\<forall>i. \<not> wanted keys i \<longrightarrow>
        sec_prot_keys_gtkl_gtk_is_live ((insert_round keys ^^ n) s) i = sec_prot_keys_gtkl_gtk_is_live s i)" for n
  proof (induction n)
    case 0
    have "lacking keys s \<subseteq> {..<4}" by (auto simp: lacking_def)
    from card_mono [OF _ this] show ?case using s by simp
  next
    case (Suc n)
    let ?t = "(insert_round keys ^^ n) s"
    have ix: "gtk_set_index ?t = -1" using Suc.IH by blast
    note R = round_spec [OF assms(1) ix]
    have "card (lacking keys (insert_round keys ?t)) \<le> 4 - Suc n"
      using Suc.IH R(3,4) by (cases "lacking keys ?t = {}") auto
    moreover have "sec_prot_keys_gtkl_gtk_is_live (insert_round keys ?t) i = sec_prot_keys_gtkl_gtk_is_live ?t i"
      if "\<not> wanted keys i" for i
      using R(2) [OF _ that] by (cases "i < 4") (auto simp: live_iff_bit)
    ultimately show ?case using R(1) Suc.IH by simp
  qed
  have "finite (lacking keys s')" by (simp add: lacking_def)
  then have l: "lacking keys s' = {}" using rounds [of 4] by (simp add: s'_def GTK_NUM_def)
  then have live: "\<forall>i. wanted keys i \<longrightarrow> sec_prot_keys_gtkl_gtk_is_live s' i"
    using wanted_set by (auto simp: lacking_def)
  have no: "sec_prot_keys_gtk_insert_index_from_gtkl_get keys s' = (-1, s')"
    using choose_spec [OF assms(1), of s'] l by simp
  have "sec_prot_keys_gtkl_gtk_is_live (insert_round keys s) a"
    if a: "sec_prot_keys_gtk_status_active_get keys = int a" for a
    using round_active [OF assms(1) s a] .
  then have "sec_prot_keys_gtk_status_active_get keys \<ge> 0 \<longrightarrow>
       sec_prot_keys_gtkl_gtk_is_live (insert_round keys s) (nat (sec_prot_keys_gtk_status_active_get keys))"
    by (metis nat_0_le)
  then show ?thesis using live no rounds [of 4] by (simp add: s'_def GTK_NUM_def)
qed

theorem gtk_distribution_witness:
  "sec_prot_keys_gtkl_gtk_is_live ((insert_round table12 ^^ GTK_NUM) (sec_gtk_zero\<lparr>gtk_set_index := -1\<rparr>)) 2 \<and>
   sec_prot_keys_gtkl_gtk_is_live (insert_round table12 (sec_gtk_zero\<lparr>gtk_set_index := -1\<rparr>)) 1"
proof -
  have b: "sec_prot_keys_gtk_status_active_get table12 = 1" by code_simp
  have w: "wanted table12 2"
    by (simp add: wanted_def sec_prot_keys_gtk_status_is_live_def table12_def GTK_NUM_def gtk_status_defs)
  show ?thesis
    using gtk_distribution [OF table12_inv(1), of "sec_gtk_zero\<lparr>gtk_set_index := -1\<rparr>"] b w
    by (simp add: sec_prot_keys_gtk_insert_index_get_def)
qed

section \<open>The update from received hashes\<close>

text \<open>The documented behaviour of SHA-256: a digest of 32 bytes for every message.\<close>

definition sha256_total :: "(u8 list \<Rightarrow> u8 list option) \<Rightarrow> bool" where
  "sha256_total sha256 \<longleftrightarrow> (\<forall>m. \<exists>d. sha256 m = Some d \<and> length d = 32)"

text \<open>
  What one received hash \<open>h\<close> says of a key: the key is the one the border router announces; the level
  of the mismatch; and the key afterwards, up to its installation order.
\<close>

definition hash_matches :: "(u8 list \<Rightarrow> u8 list option) \<Rightarrow> u8 list \<Rightarrow> gtk_key \<Rightarrow> bool" where
  "hash_matches sha256 h g \<longleftrightarrow> gk_set g \<and> h \<noteq> replicate 8 0 \<and> drop 24 (the (sha256 (gk_key g))) = h"

definition hash_level :: "(u8 list \<Rightarrow> u8 list option) \<Rightarrow> bool \<Rightarrow> u8 list \<Rightarrow> gtk_key \<Rightarrow> nat" where
  "hash_level sha256 del h g =
     (if h = replicate 8 0 then (if gk_set g \<and> del \<and> GTK_EXPIRE_MISMATCH_TIME < gk_lifetime g then 1 else 0)
      else if hash_matches sha256 h g then 0 else 2)"

definition gtk_core :: "gtk_key \<Rightarrow> gtk_key" where
  "gtk_core g = g\<lparr>gk_install_order := 0\<rparr>"

definition hash_result :: "(u8 list \<Rightarrow> u8 list option) \<Rightarrow> bool \<Rightarrow> u8 list \<Rightarrow> gtk_key \<Rightarrow> gtk_key" where
  "hash_result sha256 del h g =
     (if hash_matches sha256 h g then gtk_core (if gk_status g = GTK_STATUS_NEW then g\<lparr>gk_status := GTK_STATUS_FRESH\<rparr> else g)
      else if gk_set g \<and> del then gtk_zero else gtk_core g)"

lemma mismatch_num_inj: "mismatch_num a = mismatch_num b \<Longrightarrow> a = b"
  by (cases a; cases b) simp_all

lemma core_update_order: "gtk_core (g\<lparr>gk_install_order := x\<rparr>) = gtk_core g"
  by (simp add: gtk_core_def)

lemma core_cleared: "gtk_core (gtk_cleared g) = gtk_zero"
  by (cases g) (simp add: gtk_core_def gtk_cleared_def gtk_zero_def GTK_STATUS_NEW_def)

lemma clear_core:
  assumes "gtks_inv ks" and "k < 4" and "i < 4"
  shows "gtk_core (gtk (snd (sec_prot_keys_gtk_clear ks k)) ! i) = (if i = k then gtk_zero else gtk_core (gtk ks ! i))"
  using clear_spec(3) [OF assms] by (auto simp: core_update_order core_cleared)

lemma fresh_core:
  assumes "gtks_inv ks" and "k < 4" and "i < 4" and "gk_set (gtk ks ! k)"
  shows "gtk_core (gtk (sec_prot_keys_gtk_status_fresh_set ks k) ! i) =
    gtk_core (if i = k \<and> status_of ks k = GTK_STATUS_NEW then (gtk ks ! k)\<lparr>gk_status := GTK_STATUS_FRESH\<rparr> else gtk ks ! i)"
  using assms inv_len [OF assms(1)]
  by (auto simp: sec_prot_keys_gtk_status_fresh_set_def GTK_NUM_def gtk_status_defs nth_list_update)

text \<open>One turn of the loop.\<close>

lemma hash_update_one_spec:
  assumes "sha256_total sha256" and "gtks_inv ks" and "i < 4" and "i < length hs" and "length (hs ! i) = 8"
  shows "\<exists>m' ks'. hash_update_one sha256 hs del i (m, ks) = Some (m', ks') \<and>
    mismatch_num m' = max (mismatch_num m) (hash_level sha256 del (hs ! i) (gtk ks ! i)) \<and>
    (\<forall>j < 4. gtk_core (gtk ks' ! j) = (if j = i then hash_result sha256 del (hs ! i) (gtk ks ! i) else gtk_core (gtk ks ! j)))"
proof -
  let ?h = "hs ! i" and ?g = "gtk ks ! i"
  define z where "z \<longleftrightarrow> ?h = replicate 8 0"
  have e: "sec_prot_keys_gtk_hash_empty ?h = Some z"
    using memzcmp_eq [of ?h 7] assms(5) by (simp add: sec_prot_keys_gtk_hash_empty_def z_def eval_nat_numeral)
  obtain d where d: "sha256 (gk_key ?g) = Some d" "length d = 32" using assms(1) by (auto simp: sha256_total_def)
  have gen: "sec_prot_lib_gtkhash_generate sha256 (gk_key ?g) = Some (0, Some (drop 24 d))"
    using inv_wf [OF assms(2,3)] d by (simp add: sec_prot_lib_gtkhash_generate_def load_n_def gtk_wf_def)
  have mt: "hash_matches sha256 ?h ?g \<longleftrightarrow> gk_set ?g \<and> \<not> z \<and> drop 24 d = ?h"
    using d(1) by (simp add: hash_matches_def z_def)
  have lv: "hash_level sha256 b ?h ?g = (if z then (if gk_set ?g \<and> b \<and> GTK_EXPIRE_MISMATCH_TIME < gk_lifetime ?g then 1 else 0)
      else if hash_matches sha256 ?h ?g then 0 else 2)" for b
    by (simp add: hash_level_def z_def)
  have ld: "load hs i = Some ?h" using assms(4) by (simp add: load_def)
  have unset: "\<not> gk_set ?g \<Longrightarrow> sec_prot_keys_gtk_get ks i = None \<and> \<not> sec_prot_keys_gtk_is_set ks i"
    and set: "gk_set ?g \<Longrightarrow> sec_prot_keys_gtk_get ks i = Some (gk_key ?g) \<and> sec_prot_keys_gtk_is_set ks i \<and>
      sec_prot_keys_gtk_lifetime_get ks i = gk_lifetime ?g"
    using assms(3) by (simp_all add: sec_prot_keys_gtk_get_def sec_prot_keys_gtk_is_set_def
        sec_prot_keys_gtk_lifetime_get_def GTK_NUM_def)
  note cl = clear_core [OF assms(2,3)]
  consider "\<not> gk_set ?g" | "gk_set ?g" "z" | "gk_set ?g" "\<not> z" "drop 24 d = ?h"
    | "gk_set ?g" "\<not> z" "drop 24 d \<noteq> ?h" by blast
  then show ?thesis
  proof cases
    case 1
    then show ?thesis
      by (cases m; cases "z")
        (simp_all add: hash_update_one_def ld e unset lv hash_result_def mt)
  next
    case 2
    then show ?thesis using cl
      by (cases m; cases del; cases "GTK_EXPIRE_MISMATCH_TIME < gk_lifetime ?g")
        (simp_all add: hash_update_one_def ld e set lv hash_result_def mt)
  next
    case 3
    then show ?thesis using fresh_core [OF assms(2,3) _ 3(1)]
      by (simp add: hash_update_one_def ld e set lv hash_result_def mt gen)
  next
    case 4
    then show ?thesis using cl
      by (cases m; cases del) (simp_all add: hash_update_one_def ld e set lv hash_result_def mt gen)
  qed
qed

lemma hash_core [simp]:
  "hash_level sha256 del h (gtk_core g) = hash_level sha256 del h g"
  "hash_result sha256 del h (gtk_core g) = hash_result sha256 del h g"
  by (simp_all add: hash_level_def hash_matches_def hash_result_def gtk_core_def)

lemma hash_update_loop_spec:
  assumes "sha256_total sha256" and "length hs = 4" and "\<forall>i < 4. length (hs ! i) = 8"
  shows "gtks_inv ks \<Longrightarrow> distinct is \<Longrightarrow> set is \<subseteq> {..<4} \<Longrightarrow>
    \<exists>m' ks'. hash_update_loop sha256 hs del is (m, ks) = Some (m', ks') \<and>
      mismatch_num m' = fold max (map (\<lambda>i. hash_level sha256 del (hs ! i) (gtk ks ! i)) is) (mismatch_num m) \<and>
      (\<forall>j < 4. gtk_core (gtk ks' ! j) = (if j \<in> set is then hash_result sha256 del (hs ! j) (gtk ks ! j) else gtk_core (gtk ks ! j)))"
proof (induction "is" arbitrary: m ks)
  case Nil
  then show ?case by simp
next
  case (Cons i "is")
  have i: "i < 4" "i < length hs" "length (hs ! i) = 8" using Cons.prems(3) assms(2,3) by auto
  obtain m1 k1 where one: "hash_update_one sha256 hs del i (m, ks) = Some (m1, k1)"
    "mismatch_num m1 = max (mismatch_num m) (hash_level sha256 del (hs ! i) (gtk ks ! i))"
    "\<And>j. j < 4 \<Longrightarrow> gtk_core (gtk k1 ! j) = (if j = i then hash_result sha256 del (hs ! i) (gtk ks ! i) else gtk_core (gtk ks ! j))"
    using hash_update_one_spec [OF assms(1) Cons.prems(1) i, of del m] by auto
  have inv1: "gtks_inv k1" using inv_hash_update_one [of "(m, ks)" sha256 hs del i "(m1, k1)"] Cons.prems(1) one(1) by simp
  have d: "distinct is" "set is \<subseteq> {..<4}" "i \<notin> set is" using Cons.prems by auto
  from Cons.IH [OF inv1 d(1,2), of m1] obtain m' ks' where rest:
    "hash_update_loop sha256 hs del is (m1, k1) = Some (m', ks')"
    "mismatch_num m' = fold max (map (\<lambda>i. hash_level sha256 del (hs ! i) (gtk k1 ! i)) is) (mismatch_num m1)"
    "\<And>j. j < 4 \<Longrightarrow> gtk_core (gtk ks' ! j) = (if j \<in> set is then hash_result sha256 del (hs ! j) (gtk k1 ! j) else gtk_core (gtk k1 ! j))"
    by auto
  have same: "gtk_core (gtk k1 ! j) = gtk_core (gtk ks ! j)" if "j \<in> set is" for j
    using one(3) [of j] d that by auto
  have lv: "map (\<lambda>i. hash_level sha256 del (hs ! i) (gtk k1 ! i)) is = map (\<lambda>i. hash_level sha256 del (hs ! i) (gtk ks ! i)) is"
    using same by (auto intro!: map_cong [OF refl]) (metis hash_core(1))
  have rs: "hash_result sha256 del (hs ! j) (gtk k1 ! j) = hash_result sha256 del (hs ! j) (gtk ks ! j)" if "j \<in> set is" for j
    using same [OF that] by (metis hash_core(2))
  have "gtk_core (gtk ks' ! j) = (if j \<in> set (i # is) then hash_result sha256 del (hs ! j) (gtk ks ! j) else gtk_core (gtk ks ! j))"
    if "j < 4" for j
    using rest(3) [OF that] one(3) [OF that] rs [of j] d(3) by (cases "j = i") auto
  then show ?case using one(1,2) rest(1,2) lv by (auto simp: max.commute)
qed

text \<open>
  A node updates its keys from the four hashes the border router announces. With \<open>del_gtk_on_mismatch\<close>
  the keys kept are those whose hash is announced (last eight bytes of the SHA-256 digest), and the
  others are cleared; without, all are kept. A key that matches becomes fresh if it was new. The result is the worst mismatch:
  a hash whose key the node lacks, or else a key withdrawn more than a minute before its expiry.
\<close>

theorem gtk_hash_update:
  assumes "sha256_total sha256" and "gtks_inv ks" and "length hs = GTK_NUM" and "\<forall>h \<in> set hs. length h = 8"
  shows "\<exists>m ks'. sec_prot_keys_gtks_hash_update sha256 ks hs del = Some (m, ks') \<and> gtks_inv ks' \<and>
    mismatch_num m = Max ((\<lambda>i. hash_level sha256 del (hs ! i) (gtk ks ! i)) ` {..<GTK_NUM}) \<and>
    (\<forall>i < GTK_NUM. gtk_core (gtk ks' ! i) = hash_result sha256 del (hs ! i) (gtk ks ! i))"
proof -
  have hs: "length hs = 4" "\<forall>i < 4. length (hs ! i) = 8" using assms(3,4) by (simp_all add: GTK_NUM_def)
  obtain m ks' where m: "hash_update_loop sha256 hs del [0..<4] (GTK_NO_MISMATCH, ks) = Some (m, ks')"
    "mismatch_num m = fold max (map (\<lambda>i. hash_level sha256 del (hs ! i) (gtk ks ! i)) [0..<4]) 0"
    "\<And>i. i < 4 \<Longrightarrow> gtk_core (gtk ks' ! i) = hash_result sha256 del (hs ! i) (gtk ks ! i)"
    using hash_update_loop_spec [OF assms(1) hs assms(2), of "[0..<4]" del GTK_NO_MISMATCH] by (auto simp: atLeast0LessThan)
  have "fold max (map f [0..<4]) 0 = Max (f ` {..<4})" for f :: "nat \<Rightarrow> nat"
    by (simp add: upt_rec lessThan_nat_numeral lessThan_Suc max.commute max.left_commute numeral_2_eq_2 numeral_3_eq_3)
  then show ?thesis
    using m inv_hash_update_loop [of "(GTK_NO_MISMATCH, ks)"] assms(2)
    by (auto simp: sec_prot_keys_gtks_hash_update_def GTK_NUM_def)
qed

theorem gtk_hash_update_witness:
  "mismatch_num (fst (the (sec_prot_keys_gtks_hash_update (\<lambda>_. Some (replicate 32 9)) table12
      [replicate 8 0, replicate 8 9, replicate 8 0, replicate 8 0] True))) = 1"
proof -
  let ?h = "[replicate 8 0, replicate 8 9, replicate 8 0, replicate 8 0] :: u8 list list"
  let ?sha = "\<lambda>_. Some (replicate 32 9) :: u8 list option"
  have "sha256_total ?sha" by (simp add: sha256_total_def)
  from gtk_hash_update [OF this table12_inv(1), of ?h True]
  obtain m ks' where m: "sec_prot_keys_gtks_hash_update ?sha table12 ?h True = Some (m, ks')"
    "mismatch_num m = Max ((\<lambda>i. hash_level ?sha True (?h ! i) (gtk table12 ! i)) ` {..<GTK_NUM})"
    by (auto simp: GTK_NUM_def)
  have "Max (set (map (\<lambda>i. hash_level ?sha True (?h ! i) (gtk table12 ! i)) [0..<GTK_NUM])) = 1" by code_simp
  then show ?thesis using m by (simp add: atLeast0LessThan)
qed

section \<open>Replay counters\<close>

text \<open>
  The supplicants of the four-way and the group-key handshakes compare the counter of a message and, once it is
  verified, store it; the authenticators increment theirs before each message they send.
\<close>

definition receive_counter :: "u64 \<Rightarrow> 'c sec_prot_keys \<Rightarrow> 'c sec_prot_keys" where
  "receive_counter c k = (if sec_prot_keys_pmk_replay_cnt_compare c k then sec_prot_keys_pmk_replay_cnt_set k c else k)"

fun accepted :: "u64 list \<Rightarrow> 'c sec_prot_keys \<Rightarrow> u64 list" where
  "accepted [] k = []"
| "accepted (c # cs) k =
     (if sec_prot_keys_pmk_replay_cnt_compare c k then [c] else []) @ accepted cs (receive_counter c k)"

fun sent :: "nat \<Rightarrow> 'c sec_prot_keys \<Rightarrow> u64 list" where
  "sent 0 k = []"
| "sent (Suc n) k =
     (let (ok, k') = sec_prot_keys_pmk_replay_cnt_increment k
      in (if ok then [sec_prot_keys_pmk_replay_cnt_get k'] else []) @ sent n k')"

lemma accepted_bounds:
  "sorted_wrt (<) (accepted cs k) \<and>
   (\<forall>c \<in> set (accepted cs k). pmk_key_replay_cnt k \<le> c \<and> (pmk_key_replay_cnt_set k \<longrightarrow> pmk_key_replay_cnt k < c))"
proof (induction cs arbitrary: k)
  case Nil
  then show ?case by simp
next
  case (Cons c cs)
  from Cons.IH [of "receive_counter c k"] show ?case
    by (auto simp: receive_counter_def sec_prot_keys_pmk_replay_cnt_compare_def sec_prot_keys_pmk_replay_cnt_set_def
        split: if_splits)
qed

lemma accepted_increasing:
  "sorted_wrt (<) cs \<Longrightarrow> \<forall>c \<in> set cs. pmk_key_replay_cnt k \<le> c \<and> (pmk_key_replay_cnt_set k \<longrightarrow> pmk_key_replay_cnt k < c) \<Longrightarrow>
   accepted cs k = cs"
proof (induction cs arbitrary: k)
  case Nil
  then show ?case by simp
next
  case (Cons c cs)
  have "sec_prot_keys_pmk_replay_cnt_compare c k"
    using Cons.prems(2) by (simp add: sec_prot_keys_pmk_replay_cnt_compare_def)
  then show ?case
    using Cons.IH [of "receive_counter c k"] Cons.prems(1)
    by (simp add: receive_counter_def sec_prot_keys_pmk_replay_cnt_set_def less_imp_le)
qed

lemma sorted_wrt_subseq: "subseq xs ys \<Longrightarrow> sorted_wrt P ys \<Longrightarrow> sorted_wrt P xs"
proof (induction rule: list_emb.induct)
  case (list_emb_Cons2 x y xs ys)
  have "set xs \<subseteq> set ys" using list_emb_Cons2(2) by (auto elim: list_emb_set)
  then show ?case using list_emb_Cons2 by auto
qed simp_all

lemma low_bits: "n < 65536 \<Longrightarrow> (word_of_nat n :: u64) AND 0xFFFF = word_of_nat n"
proof -
  assume "n < 65536"
  then have "take_bit 16 (word_of_nat n :: u64) = word_of_nat n" by (simp add: take_bit_of_nat take_bit_nat_eq_self)
  moreover have "mask 16 = (0xFFFF :: u64)" by (simp add: mask_eq_exp_minus_1)
  ultimately show ?thesis by (simp add: take_bit_eq_mask)
qed

lemma sent_exhausted:
  "pmk_key_replay_cnt_set k \<Longrightarrow> 60000 < pmk_key_replay_cnt k AND 0xFFFF \<Longrightarrow> sent n k = []"
proof (induction n arbitrary: k)
  case (Suc n)
  have "((x :: u64) OR 0xFFFF) AND 0xFFFF = 0xFFFF" for x by (simp add: bit_eq_iff bit_and_iff bit_or_iff)
  then show ?case using Suc
    by (simp add: sec_prot_keys_pmk_replay_cnt_increment_def PMK_KEY_REPLAY_CNT_LIMIT_def PMK_KEY_REPLAY_CNT_LIMIT_MASK_def)
qed simp

lemma sent_from:
  "pmk_key_replay_cnt_set k \<Longrightarrow> pmk_key_replay_cnt k = word_of_nat c \<Longrightarrow> c \<le> 60001 \<Longrightarrow>
   sent n k = map word_of_nat [Suc c..<min (Suc c + n) 60002]"
proof (induction n arbitrary: k c)
  case (Suc n)
  have lo: "pmk_key_replay_cnt k AND 0xFFFF = word_of_nat c" using Suc.prems by (simp add: low_bits)
  have lt: "(60000 :: u64) < word_of_nat c \<longleftrightarrow> 60000 < c"
    using Suc.prems(3) by (simp add: word_less_nat_alt unat_of_nat)
  show ?case
  proof (cases "60000 < c")
    case True
    then have "sent (Suc n) k = []" using Suc.prems(1) lo lt by (intro sent_exhausted) simp_all
    moreover have "c = 60001" using True Suc.prems(3) by simp
    ultimately show ?thesis by simp
  next
    case False
    let ?k = "k\<lparr>pmk_key_replay_cnt := pmk_key_replay_cnt k + 1\<rparr>"
    have "sec_prot_keys_pmk_replay_cnt_increment k = (True, ?k)"
      using Suc.prems(1) lo lt False
      by (simp add: sec_prot_keys_pmk_replay_cnt_increment_def PMK_KEY_REPLAY_CNT_LIMIT_def PMK_KEY_REPLAY_CNT_LIMIT_MASK_def)
    then have "sent (Suc n) k = word_of_nat (Suc c) # sent n ?k"
      using Suc.prems(2) by (simp add: sec_prot_keys_pmk_replay_cnt_get_def)
    also have "sent n ?k = map word_of_nat [Suc (Suc c)..<min (Suc (Suc c) + n) 60002]"
      using Suc.IH [of ?k "Suc c"] Suc.prems False by simp
    finally show ?thesis using False by (simp add: upt_conv_Cons [of "Suc c"] min_def del: upt_Suc)
  qed
qed simp

lemma sent_fresh:
  assumes "\<not> pmk_key_replay_cnt_set k" and "pmk_key_replay_cnt k = 0"
  shows "sent n k = map word_of_nat [0..<min n 60002]"
proof (cases n)
  case (Suc m)
  have "sent n k = 0 # sent m (k\<lparr>pmk_key_replay_cnt_set := True\<rparr>)"
    using assms Suc by (simp add: sec_prot_keys_pmk_replay_cnt_increment_def sec_prot_keys_pmk_replay_cnt_get_def)
  also have "sent m (k\<lparr>pmk_key_replay_cnt_set := True\<rparr>) = map word_of_nat [Suc 0..<min (Suc m) 60002]"
    using sent_from [of "k\<lparr>pmk_key_replay_cnt_set := True\<rparr>" 0 m] assms(2) by simp
  finally show ?thesis using Suc by (simp add: upt_conv_Cons [of 0] del: upt_Suc)
qed simp

text \<open>
  C35. With a pairwise master key just written on both sides, the authenticator sends the counters
  0, 1, ... and stops after 60002 messages; whichever of them are lost on the way, the supplicant accepts all
  those that arrive in order; and whatever arrives, replayed or forged, no counter is accepted twice, those accepted being
  strictly increasing.
\<close>

theorem replay_counter_protocol:
  assumes "sec_prot_keys_pmk_write a pmk_a lifetime_a = Some authenticator"
    and "sec_prot_keys_pmk_write b pmk_b lifetime_b = Some supplicant"
  shows "sent n authenticator = map word_of_nat [0..<min n 60002] \<and>
    (subseq cs (sent n authenticator) \<longrightarrow> accepted cs supplicant = cs) \<and>
    sorted_wrt (<) (accepted received supplicant)"
proof -
  have fr: "\<not> pmk_key_replay_cnt_set authenticator" "pmk_key_replay_cnt authenticator = 0"
    "\<not> pmk_key_replay_cnt_set supplicant" "pmk_key_replay_cnt supplicant = 0"
    using assms by (auto simp: sec_prot_keys_pmk_write_def split: Option.bind_splits)
  have s: "sent n authenticator = map word_of_nat [0..<min n 60002]" by (rule sent_fresh [OF fr(1,2)])
  have "(word_of_nat i :: u64) < word_of_nat j" if "i < j" "j < 60002" for i j
    using that by (simp add: word_less_nat_alt unat_of_nat)
  then have "sorted_wrt (<) (sent n authenticator)" unfolding s
    by (auto simp: sorted_wrt_map intro!: sorted_wrt_mono_rel [OF _ sorted_wrt_upt])
  then have "sorted_wrt (<) cs" if "subseq cs (sent n authenticator)" using that by (rule sorted_wrt_subseq [rotated])
  then have "accepted cs supplicant = cs" if "subseq cs (sent n authenticator)"
    using that fr(3,4) by (intro accepted_increasing) auto
  then show ?thesis using s accepted_bounds by blast
qed

theorem replay_counter_protocol_witness:
  "accepted [2, 2, 5, 3] (the (sec_prot_keys_pmk_write (sec_prot_keys_init ()) (replicate 32 1) 60)) = [2, 5] \<and>
   sorted_wrt (<) (accepted [2, 2, 5, 3] (the (sec_prot_keys_pmk_write (sec_prot_keys_init ()) (replicate 32 1) 60)))"
proof -
  let ?k = "the (sec_prot_keys_pmk_write (sec_prot_keys_init ()) (replicate 32 1) 60)"
  have w: "sec_prot_keys_pmk_write (sec_prot_keys_init ()) (replicate 32 1) 60 = Some ?k"
    by (simp add: sec_prot_keys_pmk_write_def load_n_def PMK_LEN_def)
  have "accepted [2, 2, 5, 3] ?k = [2, 5]" by code_simp
  then show ?thesis using replay_counter_protocol [OF w w, of 0 "[]" "[2, 2, 5, 3]"] by blast
qed

section \<open>Expiry\<close>

text \<open>One second of the lifetime of the pairwise master key, and \<open>n\<close> of them.\<close>

definition pmk_second :: "'c sec_prot_keys \<Rightarrow> 'c sec_prot_keys" where
  "pmk_second k = snd (sec_prot_keys_pmk_lifetime_decrement k 1)"

lemma pmk_second_alive:
  assumes "pmk_set k" and "n < unat (pmk_lifetime k)"
  shows "(pmk_second ^^ n) k = k\<lparr>pmk_lifetime := pmk_lifetime k - word_of_nat n\<rparr>"
  using assms(2)
proof (induction n)
  case (Suc n)
  let ?k = "k\<lparr>pmk_lifetime := pmk_lifetime k - word_of_nat n\<rparr>"
  have "unat (pmk_lifetime k - word_of_nat n) = unat (pmk_lifetime k) - n"
    using Suc.prems by (intro unat_sub_of_nat) simp
  then have "1 < pmk_lifetime ?k" using Suc.prems by (simp add: word_less_nat_alt)
  then have "pmk_second ?k = ?k\<lparr>pmk_lifetime := pmk_lifetime ?k - 1\<rparr>"
    using assms(1) by (simp add: pmk_second_def sec_prot_keys_pmk_lifetime_decrement_def)
  then show ?case using Suc by (simp add: algebra_simps)
qed simp

text \<open>
  Decremented every second, a pairwise master key of lifetime \<open>L\<close>, set and not zero, is
  readable with the pairwise transient key for \<open>L - 1\<close> seconds; with second \<open>L\<close> both are deleted, their bytes and the replay counter
  cleared and the change noted, and the call reports the expiry.
\<close>

theorem pmk_expiry:
  assumes "pmk_set k" and "pmk_lifetime k \<noteq> 0"
  defines "expired \<equiv> sec_prot_keys_pmk_lifetime_decrement ((pmk_second ^^ (unat (pmk_lifetime k) - 1)) k) 1"
  shows "(\<forall>n < unat (pmk_lifetime k). sec_prot_keys_pmk_get ((pmk_second ^^ n) k) = sec_prot_keys_pmk_get k \<and>
      sec_prot_keys_ptk_get ((pmk_second ^^ n) k) = sec_prot_keys_ptk_get k \<and>
      unat (sec_prot_keys_pmk_lifetime_get ((pmk_second ^^ n) k)) = unat (pmk_lifetime k) - n) \<and>
    fst expired \<and> sec_prot_keys_pmk_get (snd expired) = None \<and> sec_prot_keys_ptk_get (snd expired) = None \<and>
    pmk (snd expired) = replicate PMK_LEN 0 \<and> ptk (snd expired) = replicate PTK_LEN 0 \<and>
    sec_prot_keys_pmk_replay_cnt_get (snd expired) = 0 \<and> sec_prot_keys_are_updated (snd expired)"
proof -
  have pos: "0 < unat (pmk_lifetime k)" using assms(2) by (simp add: unat_gt_0)
  have un: "unat (pmk_lifetime k - word_of_nat n) = unat (pmk_lifetime k) - n" if "n < unat (pmk_lifetime k)" for n
    using that by (intro unat_sub_of_nat) simp
  have alive: "sec_prot_keys_pmk_get ((pmk_second ^^ n) k) = sec_prot_keys_pmk_get k \<and>
      sec_prot_keys_ptk_get ((pmk_second ^^ n) k) = sec_prot_keys_ptk_get k \<and>
      unat (sec_prot_keys_pmk_lifetime_get ((pmk_second ^^ n) k)) = unat (pmk_lifetime k) - n"
    if "n < unat (pmk_lifetime k)" for n
    using pmk_second_alive [OF assms(1) that] un [OF that] assms(1)
    by (simp add: sec_prot_keys_pmk_get_def sec_prot_keys_ptk_get_def sec_prot_keys_pmk_lifetime_get_def)
  let ?n = "unat (pmk_lifetime k) - 1"
  have lt: "?n < unat (pmk_lifetime k)" using pos by simp
  have "unat (pmk_lifetime k - word_of_nat ?n) = 1" using un [OF lt] pos by simp
  then have one: "pmk_lifetime k - word_of_nat ?n = 1" by (simp only: word_unat_eq_iff unat_1)
  have "(pmk_second ^^ ?n) k = k\<lparr>pmk_lifetime := 1\<rparr>" using pmk_second_alive [OF assms(1) lt] one by (simp only:)
  then have "expired = (True, sec_prot_keys_pmk_delete (sec_prot_keys_ptk_delete (k\<lparr>pmk_lifetime := 0\<rparr>)))"
    using assms(1) by (simp add: expired_def sec_prot_keys_pmk_lifetime_decrement_def)
  then have "fst expired \<and> sec_prot_keys_pmk_get (snd expired) = None \<and> sec_prot_keys_ptk_get (snd expired) = None \<and>
    pmk (snd expired) = replicate PMK_LEN 0 \<and> ptk (snd expired) = replicate PTK_LEN 0 \<and>
    sec_prot_keys_pmk_replay_cnt_get (snd expired) = 0 \<and> sec_prot_keys_are_updated (snd expired)"
    using assms(1) by (auto simp: sec_prot_keys_pmk_delete_def sec_prot_keys_ptk_delete_def sec_prot_keys_pmk_get_def
        sec_prot_keys_ptk_get_def sec_prot_keys_pmk_replay_cnt_get_def sec_prot_keys_are_updated_def Let_def)
  then show ?thesis using alive by blast
qed

theorem pmk_expiry_witness:
  "fst (sec_prot_keys_pmk_lifetime_decrement
     ((pmk_second ^^ 59) ((sec_prot_keys_init ())\<lparr>pmk_set := True, pmk_lifetime := 60\<rparr>)) 1)"
  using pmk_expiry [of "(sec_prot_keys_init ())\<lparr>pmk_set := True, pmk_lifetime := 60\<rparr>"] by simp

section \<open>Two oversights\<close>

text \<open>
  \<open>sec_prot_keys_gtks_clear\<close> marks the table as updated when it drops keys, then clears the
  mark with the rest of the structure: the removal never reaches the stored keys.
\<close>

lemma gtks_clear_not_updated: "sec_prot_keys_gtks_clear (Some ks) = Some ks' \<Longrightarrow> \<not> sec_prot_keys_gtks_are_updated ks'"
  by (auto simp: sec_prot_keys_gtks_clear_def sec_prot_keys_gtks_are_updated_def Let_def)

text \<open>
  \<open>sec_prot_keys_ptk_installed_gtk_hash_mismatch_check\<close> compares the bit it tests with 1, so it never
  reports a mismatch for the key at index 0.
\<close>

lemma hash_mismatch_index0:
  assumes "gtk_set_index s = 0"
  shows "sec_prot_keys_ptk_installed_gtk_hash_mismatch_check sha256 keys s i = Some False"
  using assms by (auto simp: sec_prot_keys_ptk_installed_gtk_hash_mismatch_check_def and_one_eq mod_2_eq_odd)

end
