(* ===== verification/Ptr.thy ===== *)
theory Ptr
  imports Endian
begin

text \<open>
  Writing through a pointer that advances, the idiom of the message encoders of the security
  protocols: a cursor is an object and the offset the pointer has reached in it. \<open>put8 c b\<close> is
  \<open>*ptr++ = b\<close>, \<open>put_n c bs\<close> a \<open>memcpy\<close> followed by \<open>ptr += n\<close>, and \<open>put_be16\<close>, \<open>put_be32\<close> and
  \<open>put_be64\<close> are \<open>ptr = write_beN(ptr, v)\<close>. All of them are instances of \<open>writes\<close>, which composes by
  appending, so an encoder is characterised by one byte list, on success and on failure alike.
\<close>

type_synonym cursor = "u8 list \<times> nat"

definition writes :: "cursor \<Rightarrow> u8 list \<Rightarrow> cursor option" where
  "writes c bs = map_option (\<lambda>m. (m, snd c + length bs)) (store_n (fst c) (snd c) bs)"

definition put8 :: "cursor \<Rightarrow> u8 \<Rightarrow> cursor option" where
  "put8 c b = do { m \<leftarrow> store (fst c) (snd c) b; Some (m, snd c + 1) }"

definition put_n :: "cursor \<Rightarrow> u8 list \<Rightarrow> cursor option" where
  "put_n c bs = do { m \<leftarrow> store_n (fst c) (snd c) bs; Some (m, snd c + length bs) }"

definition put_be16 :: "cursor \<Rightarrow> u16 \<Rightarrow> cursor option" where
  "put_be16 c v = do { m \<leftarrow> with_ptr (fst c) (snd c) (\<lambda>p. write_be16 p v); Some (m, snd c + 2) }"

definition put_be32 :: "cursor \<Rightarrow> u32 \<Rightarrow> cursor option" where
  "put_be32 c v = do { m \<leftarrow> with_ptr (fst c) (snd c) (\<lambda>p. write_be32 p v); Some (m, snd c + 4) }"

definition put_be64 :: "cursor \<Rightarrow> u64 \<Rightarrow> cursor option" where
  "put_be64 c v = do { m \<leftarrow> with_ptr (fst c) (snd c) (\<lambda>p. write_be64 p v); Some (m, snd c + 8) }"

named_theorems put_simps \<open>the bytes an encoder writes\<close>

lemma writes_in:
  "p + length bs \<le> length m \<Longrightarrow> writes (m, p) bs = Some (take p m @ bs @ drop (p + length bs) m, p + length bs)"
  by (simp add: writes_def store_n_def)

lemma writes_out: "length m < p + length bs \<Longrightarrow> writes (m, p) bs = None"
  by (simp add: writes_def store_n_def)

lemma writes_bind [put_simps]: "writes c xs \<bind> (\<lambda>c. writes c ys) = writes c (xs @ ys)"
proof (cases c)
  case (Pair m p)
  show ?thesis
  proof (cases "p + length xs \<le> length m")
    case True
    then show ?thesis unfolding Pair
      by (simp add: writes_def store_n_def add.assoc add.commute [of "length ys"])
  next
    case False
    then show ?thesis unfolding Pair by (simp add: writes_def store_n_def)
  qed
qed

lemma writes_bind_then: "writes c xs \<bind> (\<lambda>c. writes c ys \<bind> g) = writes c (xs @ ys) \<bind> g"
  unfolding writes_bind [symmetric] by (cases "writes c xs") simp_all

lemma put8_writes [put_simps]: "put8 c b = writes c [b]"
  by (cases c) (auto simp: put8_def writes_def store_def store_n_def upd_conv_take_nth_drop)

lemma put_n_writes [put_simps]: "put_n c bs = writes c bs"
  by (cases c) (simp add: put_n_def writes_def store_n_def)

lemma writes_nil: "snd c \<le> length (fst c) \<Longrightarrow> writes c [] = Some c"
  by (cases c) (simp add: writes_in)

lemma writes_le: "writes c bs = Some c' \<Longrightarrow> snd c' \<le> length (fst c')"
  by (auto simp: writes_def store_n_def split: if_splits)

lemma writes_bind_cong:
  "(\<And>c'. snd c' \<le> length (fst c') \<Longrightarrow> f c' = g c') \<Longrightarrow> writes c bs \<bind> f = writes c bs \<bind> g"
  by (cases "writes c bs") (auto dest: writes_le)

text \<open>The contract every number writer meets gives its cursor form.\<close>

context byte_codec
begin

lemma with_ptr_writes:
  "map_option (\<lambda>m'. (m', p + width)) (with_ptr m p (\<lambda>q. wr q v)) = writes (m, p) (enc (unat v))"
proof (cases "p + width \<le> length m")
  case True
  then show ?thesis using with_ptr_wr [OF True, of v] by (simp add: writes_def enc_length)
next
  case False
  then show ?thesis by (auto simp: with_ptr_def writes_def store_n_def enc_length wr_short)
qed

end

lemma bind_map: "m \<bind> (\<lambda>x. Some (f x)) = map_option f m"
  by (cases m) simp_all

lemma put_be_writes [put_simps]:
  "put_be16 c v16 = writes c (be_bytes 2 (unat v16))"
  "put_be32 c v32 = writes c (be_bytes 4 (unat v32))"
  "put_be64 c v64 = writes c (be_bytes 8 (unat v64))"
  using be16.with_ptr_writes [of "snd c" "fst c" v16] be32.with_ptr_writes [of "snd c" "fst c" v32]
    be64.with_ptr_writes [of "snd c" "fst c" v64]
  by (simp_all add: put_be16_def put_be32_def put_be64_def bind_map)

text \<open>Reading a number back, at the front of what a pointer sees.\<close>

lemma read_be_append:
  "read_be16 (be_bytes 2 (unat v16) @ r) = Some v16"
  "read_be32 (be_bytes 4 (unat v32) @ r) = Some v32"
  "read_be64 (be_bytes 8 (unat v64) @ r) = Some v64"
  using be16.rd_enc_append [of v16 r] be32.rd_enc_append [of v32 r] be64.rd_enc_append [of v64 r]
    unat_u16_lt [of v16] unat_u32_lt [of v32] unat_u64_lt [of v64] by simp_all

lemma unat_small: "n < 2 ^ LENGTH('a) \<Longrightarrow> unat (word_of_nat n :: 'a::len word) = n"
  by (simp add: unsigned_of_nat take_bit_nat_eq_self)

lemma word_of_unat: "unat v = n \<Longrightarrow> v = word_of_nat n"
  by (metis of_nat_unat ucast_id)

lemma read_be_eq:
  "2 \<le> length p \<Longrightarrow> read_be16 p = Some (word_of_nat (be_val (take 2 p)))"
  "4 \<le> length p \<Longrightarrow> read_be32 p = Some (word_of_nat (be_val (take 4 p)))"
  "8 \<le> length p \<Longrightarrow> read_be64 p = Some (word_of_nat (be_val (take 8 p)))"
  using be16.rd_long [of p] be32.rd_long [of p] be64.rd_long [of p] by (auto dest!: word_of_unat)

lemma be_val_bytes:
  "be_val (be_bytes 2 (unat v16)) = unat (v16 :: u16)"
  "be_val (be_bytes 4 (unat v32)) = unat (v32 :: u32)"
  "be_val (be_bytes 8 (unat v64)) = unat (v64 :: u64)"
  using unat_u16_lt [of v16] unat_u32_lt [of v32] unat_u64_lt [of v64] by (simp_all add: be_val_be_bytes)

end
