(* ===== verification/Crypto.thy ===== *)
theory Crypto
  imports Ptr
begin

text \<open>
  \<open>src/stack/source/service_libs\<close>: the HMAC (\<open>hmac_md.c\<close>), the pseudo random function of IEEE 802.11
  (\<open>ieee_802_11.c\<close>) and the NIST key wrap (\<open>nist_aes_kw.c\<close>), over the cryptographic library mbedtls.

  What these functions take from outside the repository is an \<open>env\<close>, an argument of every definition that uses it:
  the HMAC, the key wrapping and unwrapping of mbedtls (\<open>None\<close> when one of the calls reports an error), the
  bytes \<open>malloc\<close> returns (\<open>None\<close> for the null pointer) and the contents of a local array that is not
  initialised, both with their size as argument. \<open>env_ok\<close> collects what mbedtls and the C library document.
\<close>

section \<open>The environment\<close>

datatype alg_hmac_md_e = ALG_HMAC_MD5 | ALG_HMAC_SHA1_160

record env =
  env_malloc :: "nat \<Rightarrow> u8 list option"
  env_stack :: "nat \<Rightarrow> u8 list"
  env_hmac :: "alg_hmac_md_e \<Rightarrow> u8 list \<Rightarrow> u8 list \<Rightarrow> u8 list option"
  env_kw_wrap :: "u8 list \<Rightarrow> u8 list \<Rightarrow> nat \<Rightarrow> u8 list option"
  env_kw_unwrap :: "u8 list \<Rightarrow> u8 list \<Rightarrow> nat \<Rightarrow> u8 list option"

text \<open>
  The documented behaviour: objects have the size asked for; HMAC-SHA1 is computed, on 20 bytes; wrapping at least two
  blocks of 64 bits under a key of 128 bits adds one block, and unwrapping gives the blocks back.
\<close>

definition env_ok :: "env \<Rightarrow> bool" where
  "env_ok env \<longleftrightarrow> (\<forall>n b. env_malloc env n = Some b \<longrightarrow> length b = n) \<and> (\<forall>n. length (env_stack env n) = n) \<and>
     (\<forall>k d. \<exists>r. env_hmac env ALG_HMAC_SHA1_160 k d = Some r \<and> length r = 20) \<and>
     (\<forall>k p n. length k = 16 \<and> 16 \<le> length p \<and> length p mod 8 = 0 \<and> length p + 8 \<le> n \<longrightarrow>
        (\<exists>c. env_kw_wrap env k p n = Some c \<and> length c = length p + 8 \<and>
           (\<forall>l. length p \<le> l \<longrightarrow> env_kw_unwrap env k c l = Some p)))"

definition memory_left :: "env \<Rightarrow> bool" where
  "memory_left env \<longleftrightarrow> (\<forall>n. env_malloc env n \<noteq> None)"

text \<open>The HMAC of an environment that meets \<open>env_ok\<close>.\<close>

definition sha1_mac :: "env \<Rightarrow> u8 list \<Rightarrow> u8 list \<Rightarrow> u8 list" where
  "sha1_mac env k d = the (env_hmac env ALG_HMAC_SHA1_160 k d)"

text \<open>
  A small environment that meets the hypotheses: the code, as a byte count, of key and data is the HMAC, and wrapping
  puts the key and a block of zeros in front of what it wraps (with the block length adjusted).
\<close>

definition sum_mac :: "u8 list \<Rightarrow> u8 list \<Rightarrow> u8 list" where
  "sum_mac k d = replicate 20 (foldr (\<lambda>b s. 3 * s + b) (k @ d) 0)"

definition env_example :: env where
  "env_example = \<lparr>env_malloc = (\<lambda>n. Some (replicate n 0xA5)), env_stack = (\<lambda>n. replicate n 0x5A),
     env_hmac = (\<lambda>_ k d. Some (sum_mac k d)),
     env_kw_wrap = (\<lambda>k p n. if length p + 8 \<le> n then Some (take 8 (sum_mac k []) @ p) else None),
     env_kw_unwrap = (\<lambda>k c n. if 8 \<le> length c \<and> length c - 8 \<le> n \<and> take 8 c = take 8 (sum_mac k []) then Some (drop 8 c) else None)\<rparr>"

lemma env_example_ok: "env_ok env_example" "memory_left env_example"
  by (auto simp: env_ok_def env_example_def sum_mac_def memory_left_def)

lemma env_hmac_ok: "env_ok env \<Longrightarrow> env_hmac env ALG_HMAC_SHA1_160 k d = Some (sha1_mac env k d)"
  unfolding env_ok_def sha1_mac_def by (metis option.sel)

lemma length_sha1_mac: "env_ok env \<Longrightarrow> length (sha1_mac env k d) = 20"
  unfolding env_ok_def sha1_mac_def by (metis option.sel)

lemma env_wrap_ok:
  assumes "env_ok env" and "length k = 16" and "16 \<le> length p" and "length p mod 8 = 0" and "length p + 8 \<le> n"
  obtains c where "env_kw_wrap env k p n = Some c" and "length c = length p + 8"
    and "\<And>l. length p \<le> l \<Longrightarrow> env_kw_unwrap env k c l = Some p"
proof -
  have "\<forall>k p n. length k = 16 \<and> 16 \<le> length p \<and> length p mod 8 = 0 \<and> length p + 8 \<le> n \<longrightarrow>
        (\<exists>c. env_kw_wrap env k p n = Some c \<and> length c = length p + 8 \<and>
           (\<forall>l. length p \<le> l \<longrightarrow> env_kw_unwrap env k c l = Some p))"
    using assms(1) unfolding env_ok_def by (elim conjE) assumption
  from this [rule_format, of k p n] assms(2-) obtain c where "env_kw_wrap env k p n = Some c" "length c = length p + 8"
    "\<forall>l. length p \<le> l \<longrightarrow> env_kw_unwrap env k c l = Some p" by auto
  then show ?thesis by (intro that) auto
qed

lemma env_memory:
  assumes "env_ok env" and "memory_left env"
  obtains b where "env_malloc env n = Some b" and "length b = n"
  using assms unfolding env_ok_def memory_left_def by (metis not_None_eq)

section \<open>HMAC\<close>

text \<open>
  \<open>hmac_md_calc\<close> reads a length from bytes 2 and 3 of the data, as if it were an EAPOL frame, and replaces the length
  it was given when that is larger. \<open>Some None\<close> is the return value \<open>-1\<close>, otherwise the bytes stored in \<open>result\<close>.
\<close>

definition hmac_md_calc :: "env \<Rightarrow> alg_hmac_md_e \<Rightarrow> u8 list \<Rightarrow> u16 \<Rightarrow> u8 list \<Rightarrow> u16 \<Rightarrow> u8 \<Rightarrow> u8 list option option" where
  "hmac_md_calc env md key key_len data data_len result_len =
     do { payload_length \<leftarrow> read_be16 (drop 2 data);
          let data_len = (if data_len > payload_length then payload_length + 4 else data_len);
          k \<leftarrow> load_n key 0 (unat key_len);
          d \<leftarrow> load_n data 0 (unat data_len);
          case env_hmac env md k d of None \<Rightarrow> Some None
          | Some result_value \<Rightarrow>
              (let result_len = (if result_len > 20 then 20 else result_len)
               in do { bs \<leftarrow> load_n result_value 0 (unat result_len); Some (Some bs) }) }"

section \<open>The pseudo random function\<close>

record ieee_802_11_prf =
  prf_key :: "u8 list"
  prf_string :: "u8 list"
  prf_bits :: u16
  prf_key_len :: u16
  prf_a_len :: u16
  prf_b_len :: u16

text \<open>The pointers a fresh structure holds are indeterminate; here they point to no byte.\<close>

definition ieee_802_11_prf_setup :: "u16 \<Rightarrow> u16 \<Rightarrow> u16 \<Rightarrow> u16 \<times> ieee_802_11_prf" where
  "ieee_802_11_prf_setup bits a_len b_len =
     (a_len + 1 + b_len + 1,
      \<lparr>prf_key = [], prf_string = [], prf_bits = bits, prf_key_len = 0, prf_a_len = a_len, prf_b_len = b_len\<rparr>)"

text \<open>Pointers into the string, as offsets.\<close>

definition ieee_802_11_prf_get_a_string :: "ieee_802_11_prf \<Rightarrow> nat" where
  "ieee_802_11_prf_get_a_string prf = 0"

definition ieee_802_11_prf_get_b_string :: "ieee_802_11_prf \<Rightarrow> nat" where
  "ieee_802_11_prf_get_b_string prf = unat (prf_a_len prf) + 1"

definition ieee_802_11_prf_starts :: "ieee_802_11_prf \<Rightarrow> u8 list \<Rightarrow> u16 \<Rightarrow> u16 \<times> ieee_802_11_prf" where
  "ieee_802_11_prf_starts prf key key_len =
     (let iterations = (word_of_nat ((unat (prf_bits prf) + 159) div 160) :: u8)
      in (word_of_nat (160 div 8 * unat iterations), prf\<lparr>prf_key := key, prf_key_len := key_len\<rparr>))"

definition ieee_802_11_prf_update :: "ieee_802_11_prf \<Rightarrow> u8 list \<Rightarrow> ieee_802_11_prf option" where
  "ieee_802_11_prf_update prf str =
     do { str \<leftarrow> store str (unat (prf_a_len prf)) 0x00; Some (prf\<lparr>prf_string := str\<rparr>) }"

text \<open>
  The loop counter is a byte: for more than 40800 bits it wraps before the bound is reached, and the loop would only
  end when it has left the array \<open>result\<close>. \<open>Inl\<close> is the early return of \<open>-1\<close>; the array is returned with
  what has been stored by then.
\<close>

partial_function (option) prf_loop :: "env \<Rightarrow> ieee_802_11_prf \<Rightarrow> cursor \<Rightarrow> u8 \<Rightarrow> (u8 list + u8 list) option" where
  "prf_loop env prf result i =
     (if unat i < (unat (prf_bits prf) + 159) div 160
      then do { str \<leftarrow> store (prf_string prf) (unat (prf_a_len prf) + 1 + unat (prf_b_len prf)) i;
                r \<leftarrow> hmac_md_calc env ALG_HMAC_SHA1_160 (prf_key prf) (prf_key_len prf) str
                       (prf_a_len prf + 1 + prf_b_len prf + 1) 20;
                case r of None \<Rightarrow> Some (Inl (fst result))
                | Some bs \<Rightarrow> do { result \<leftarrow> put_n result bs; prf_loop env (prf\<lparr>prf_string := str\<rparr>) result (i + 1) } }
      else Some (Inr (fst result)))"

definition ieee_802_11_prf_finish :: "env \<Rightarrow> ieee_802_11_prf \<Rightarrow> u8 list \<Rightarrow> (u8 list + u8 list) option" where
  "ieee_802_11_prf_finish env prf result = prf_loop env prf (result, 0) 0"

section \<open>Key wrapping\<close>

text \<open>
  The bytes stored in \<open>output\<close>, whose number is the value stored in \<open>*output_len\<close>; \<open>Some None\<close> is the return value \<open>-1\<close>.
\<close>

definition nist_aes_key_wrap :: "env \<Rightarrow> bool \<Rightarrow> u8 list \<Rightarrow> nat \<Rightarrow> u8 list \<Rightarrow> nat \<Rightarrow> nat \<Rightarrow> u8 list option option" where
  "nist_aes_key_wrap env is_wrap key key_bits input input_len out_size =
     do { k \<leftarrow> load_n key 0 (key_bits div 8);
          i \<leftarrow> load_n input 0 input_len;
          Some (if is_wrap then env_kw_wrap env k i out_size else env_kw_unwrap env k i out_size) }"

section \<open>What the pseudo random function computes\<close>

text \<open>IEEE 802.11: the concatenation of the HMACs of label, zero, input and index.\<close>

definition prf_spec :: "env \<Rightarrow> u8 list \<Rightarrow> u8 list \<Rightarrow> u8 list \<Rightarrow> nat \<Rightarrow> u8 list" where
  "prf_spec env key a b n = concat (map (\<lambda>i. sha1_mac env key (a @ [0] @ b @ [word_of_nat i])) [0..<n])"

lemma length_prf_spec: "env_ok env \<Longrightarrow> length (prf_spec env key a b n) = 20 * n"
  by (induction n) (simp_all add: prf_spec_def length_sha1_mac)

text \<open>HMAC of data that cannot be mistaken for a shorter frame.\<close>

lemma hmac_calc:
  assumes "env_ok env" and "unat key_len \<le> length key" and "4 \<le> length data" and "unat data_len \<le> length data"
    and "unat data_len \<le> be_val (take 2 (drop 2 data))" and "unat n \<le> 20"
  shows "hmac_md_calc env ALG_HMAC_SHA1_160 key key_len data data_len n =
    Some (Some (take (unat n) (sha1_mac env (take (unat key_len) key) (take (unat data_len) data))))"
proof -
  have rd: "read_be16 (drop 2 data) = Some (word_of_nat (be_val (take 2 (drop 2 data))))"
    using assms(3) by (simp add: read_be_eq)
  have "be_val (take 2 (drop 2 data)) < 256 ^ length (take 2 (drop 2 data))" using le_val_less by (metis be_val_def length_rev)
  then have "be_val (take 2 (drop 2 data)) < 65536" using assms(3) by simp
  then have ge: "\<not> data_len > word_of_nat (be_val (take 2 (drop 2 data)))"
    using assms(5) by (simp add: word_less_nat_alt unat_small)
  have "\<not> n > 20" using assms(6) by (simp add: word_less_nat_alt)
  then show ?thesis
    using assms(1,2,4,6) ge
    by (simp add: hmac_md_calc_def rd Let_def load_n_def env_hmac_ok length_sha1_mac)
qed

text \<open>The string holds label, zero and input, and room for the index; its bytes 2 and 3 are no smaller than its length.\<close>

definition prf_ready :: "ieee_802_11_prf \<Rightarrow> u8 list \<Rightarrow> u8 list \<Rightarrow> bool" where
  "prf_ready prf a b \<longleftrightarrow> (\<exists>x. prf_string prf = a @ 0 # b @ [x]) \<and> length a = unat (prf_a_len prf) \<and>
     length b = unat (prf_b_len prf) \<and> 4 \<le> length a \<and> length a + length b + 2 \<le> be_val (take 2 (drop 2 a)) \<and>
     unat (prf_key_len prf) \<le> length (prf_key prf) \<and> (unat (prf_bits prf) + 159) div 160 \<le> 255"

lemma prf_loop_step:
  assumes "env_ok env" and "prf_ready prf a b" and "i < (unat (prf_bits prf) + 159) div 160"
  defines "key \<equiv> take (unat (prf_key_len prf)) (prf_key prf)"
  shows "prf_loop env prf c (word_of_nat i) =
    writes c (sha1_mac env key (a @ [0] @ b @ [word_of_nat i])) \<bind>
      (\<lambda>c. prf_loop env (prf\<lparr>prf_string := a @ 0 # b @ [word_of_nat i]\<rparr>) c (word_of_nat (Suc i)))"
proof -
  let ?str = "a @ 0 # b @ [word_of_nat i]"
  obtain x where x: "prf_string prf = a @ 0 # b @ [x]" and l: "length a = unat (prf_a_len prf)" "length b = unat (prf_b_len prf)"
    "4 \<le> length a" "length ?str \<le> be_val (take 2 (drop 2 a))" "unat (prf_key_len prf) \<le> length (prf_key prf)"
    and i: "i < 256" using assms(2,3) unfolding prf_ready_def by auto
  have "be_val (take 2 (drop 2 a)) < 256 ^ length (take 2 (drop 2 a))" using le_val_less by (metis be_val_def length_rev)
  then have b: "be_val (take 2 (drop 2 a)) < 65536" using l(3) by simp
  then have dl: "unat (prf_a_len prf + 1 + prf_b_len prf + 1) = length ?str"
    using l by (simp add: unat_add_nowrap)
  have "(a @ 0 # b @ [x])[length a + 1 + length b := word_of_nat i] = ?str" by (simp add: list_update_append)
  then have st: "store (prf_string prf) (unat (prf_a_len prf) + 1 + unat (prf_b_len prf)) (word_of_nat i) = Some ?str"
    using x l by (simp add: store_def)
  have h: "hmac_md_calc env ALG_HMAC_SHA1_160 (prf_key prf) (prf_key_len prf) ?str (prf_a_len prf + 1 + prf_b_len prf + 1) 20 =
      Some (Some (sha1_mac env key ?str))"
    using hmac_calc [OF assms(1) l(5), of ?str "prf_a_len prf + 1 + prf_b_len prf + 1" 20] dl l(3,4)
    by (simp add: key_def length_sha1_mac [OF assms(1)])
  have "word_of_nat i + 1 = (word_of_nat (Suc i) :: u8)" by simp
  moreover have "unat (word_of_nat i :: u8) = i" using i by (simp add: unat_small)
  ultimately show ?thesis
    using assms(3) st h by (subst prf_loop.simps) (simp add: put_simps add.commute)
qed

lemma prf_loop_spec:
  assumes "env_ok env" and "prf_ready prf a b" and "N = (unat (prf_bits prf) + 159) div 160" and "i \<le> N"
    and "length m = 20 * N" and "take (20 * i) m = prf_spec env (take (unat (prf_key_len prf)) (prf_key prf)) a b i"
  shows "prf_loop env prf (m, 20 * i) (word_of_nat i) =
    Some (Inr (prf_spec env (take (unat (prf_key_len prf)) (prf_key prf)) a b N))"
  using assms(2-)
proof (induction "N - i" arbitrary: "prf" i m)
  case 0
  then have "i = N" by simp
  then show ?case
    using "0.prems" unfolding prf_ready_def by (subst prf_loop.simps) (auto simp: unat_small)
next
  case (Suc n)
  let ?k = "take (unat (prf_key_len prf)) (prf_key prf)"
  let ?mac = "sha1_mac env ?k (a @ [0] @ b @ [word_of_nat i])"
  let ?m = "take (20 * i) m @ ?mac @ drop (20 * Suc i) m" and ?p = "prf\<lparr>prf_string := a @ 0 # b @ [word_of_nat i]\<rparr>"
  have i: "i < N" using Suc(2) by simp
  have lm: "length ?mac = 20" by (rule length_sha1_mac [OF assms(1)])
  then have w: "writes (m, 20 * i) ?mac = Some (?m, 20 * Suc i)" using i Suc.prems(4) by (simp add: writes_in add.commute)
  have step: "prf_loop env prf (m, 20 * i) (word_of_nat i) = prf_loop env ?p (?m, 20 * Suc i) (word_of_nat (Suc i))"
    using prf_loop_step [OF assms(1) Suc.prems(1)] i Suc.prems(2) w by simp
  have tk: "take (20 * Suc i) ?m = prf_spec env ?k a b (Suc i)"
  proof -
    have "take (20 * Suc i) ?m = take (20 * i) m @ ?mac" using lm i Suc.prems(4) by simp
    then show ?thesis using Suc.prems(5) by (simp add: prf_spec_def)
  qed
  have "prf_loop env ?p (?m, 20 * Suc i) (word_of_nat (Suc i)) = Some (Inr (prf_spec env ?k a b N))"
    using Suc(1) [of "Suc i" ?p ?m] Suc(2) Suc.prems(1-4) i lm tk by (simp add: prf_ready_def)
  then show ?case using step by simp
qed

lemma prf_finish_spec:
  assumes "env_ok env" and "prf_ready prf a b" and "length result = 20 * ((unat (prf_bits prf) + 159) div 160)"
  shows "ieee_802_11_prf_finish env prf result =
    Some (Inr (prf_spec env (take (unat (prf_key_len prf)) (prf_key prf)) a b ((unat (prf_bits prf) + 159) div 160)))"
  using prf_loop_spec [OF assms(1,2) refl, of 0 result] assms(3)
  by (simp add: ieee_802_11_prf_finish_def prf_spec_def)

end
