(* ===== verification/Kde.thy ===== *)
theory Kde
  imports Ptr
begin

text \<open>
  \<open>src/stack/source/security/eapol/kde_helper.c\<close>: the key data elements (KDE) of an EAPOL-Key frame. Writers work
  on a cursor; for a reader, a pointer is the object from that pointer on, and the null pointer
  \<open>kde_search\<close> may return is \<open>None\<close>. The values a reader stores through its pointer arguments are returned.
\<close>

section \<open>Constants\<close>

definition IEEE_802_11_OUI :: "u8 list" where "IEEE_802_11_OUI = [0x00, 0x0F, 0xAC]"
definition WISUN_OUI :: "u8 list" where "WISUN_OUI = [0x0C, 0x5A, 0x9E]"
definition KDE_TYPE :: u8 where "KDE_TYPE = 0xdd"
definition KDE_GTK :: u8 where "KDE_GTK = 0x01"
definition KDE_PMKID :: u8 where "KDE_PMKID = 0x04"
definition KDE_LIFETIME :: u8 where "KDE_LIFETIME = 0x07"
definition KDE_PTKID :: u8 where "KDE_PTKID = 0x01"
definition KDE_GTKL :: u8 where "KDE_GTKL = 0x02"
definition KDE_NR :: u8 where "KDE_NR = 0x03"
definition KDE_LGTKL :: u8 where "KDE_LGTKL = 0x04"
definition KDE_LGTK :: u8 where "KDE_LGTK = 0x05"
definition KDE_MIN_LEN :: nat where "KDE_MIN_LEN = 6"
definition KDE_FIXED_LEN :: nat where "KDE_FIXED_LEN = 2"
definition KDE_PADDED_MIN_LEN :: nat where "KDE_PADDED_MIN_LEN = 16"
definition KDE_GTK_LEN :: nat where "KDE_GTK_LEN = 6 + 2 + 16"
definition KDE_LGTK_LEN :: nat where "KDE_LGTK_LEN = 6 + 2 + 16"
definition KDE_PMKID_LEN :: nat where "KDE_PMKID_LEN = 6 + 16"
definition KDE_PTKID_LEN :: nat where "KDE_PTKID_LEN = 6 + 16"
definition KDE_LIFETIME_LEN :: nat where "KDE_LIFETIME_LEN = 6 + 4"
definition KDE_GTKL_LEN :: nat where "KDE_GTKL_LEN = 6 + 1"
definition KDE_LGTKL_LEN :: nat where "KDE_LGTKL_LEN = 6 + 1"
definition KDE_NR_LEN :: nat where "KDE_NR_LEN = 6 + 1"

lemmas kde_consts = IEEE_802_11_OUI_def WISUN_OUI_def KDE_TYPE_def KDE_GTK_def KDE_PMKID_def KDE_LIFETIME_def
  KDE_PTKID_def KDE_GTKL_def KDE_NR_def KDE_LGTKL_def KDE_LGTK_def KDE_MIN_LEN_def KDE_FIXED_LEN_def
  KDE_GTK_LEN_def KDE_LGTK_LEN_def KDE_PMKID_LEN_def KDE_PTKID_LEN_def KDE_LIFETIME_LEN_def KDE_GTKL_LEN_def
  KDE_LGTKL_LEN_def KDE_NR_LEN_def

section \<open>Padding\<close>

definition kde_padded_length_calc :: "u16 \<Rightarrow> u16" where
  "kde_padded_length_calc kde_length =
     (if unat kde_length < KDE_PADDED_MIN_LEN then word_of_nat KDE_PADDED_MIN_LEN
      else word_of_nat ((unat kde_length + 7) div 8 * 8))"

text \<open>The loop, \<open>n\<close> being \<open>end_ptr - start_ptr\<close>.\<close>

fun padding_loop :: "cursor \<Rightarrow> u8 \<Rightarrow> nat \<Rightarrow> cursor option" where
  "padding_loop c padding 0 = Some c"
| "padding_loop c padding (Suc n) = do { c \<leftarrow> put8 c padding; padding_loop c 0x00 n }"

definition kde_padding_write :: "cursor \<Rightarrow> nat \<Rightarrow> u8 list option" where
  "kde_padding_write start_ptr end_ptr =
     do { (m, _) \<leftarrow> padding_loop start_ptr 0xdd (end_ptr - snd start_ptr); Some m }"

section \<open>Writers\<close>

definition kde_header_write :: "cursor \<Rightarrow> u8 list \<Rightarrow> u8 \<Rightarrow> nat \<Rightarrow> cursor option" where
  "kde_header_write ptr oui data_type data_length =
     do { ptr \<leftarrow> put8 ptr KDE_TYPE;
          ptr \<leftarrow> put8 ptr (word_of_nat (data_length - KDE_FIXED_LEN));
          o0 \<leftarrow> load oui 0; ptr \<leftarrow> put8 ptr o0;
          o1 \<leftarrow> load oui 1; ptr \<leftarrow> put8 ptr o1;
          o2 \<leftarrow> load oui 2; ptr \<leftarrow> put8 ptr o2;
          put8 ptr data_type }"

definition kde_gtk_write :: "cursor \<Rightarrow> u8 \<Rightarrow> u8 list \<Rightarrow> cursor option" where
  "kde_gtk_write ptr key_id gtk =
     do { ptr \<leftarrow> kde_header_write ptr IEEE_802_11_OUI KDE_GTK KDE_GTK_LEN;
          ptr \<leftarrow> put8 ptr key_id;
          ptr \<leftarrow> put8 ptr 0x00;
          bs \<leftarrow> load_n gtk 0 16;
          put_n ptr bs }"

definition kde_lgtk_write :: "cursor \<Rightarrow> u8 \<Rightarrow> u8 list \<Rightarrow> cursor option" where
  "kde_lgtk_write ptr key_id lgtk =
     do { ptr \<leftarrow> kde_header_write ptr WISUN_OUI KDE_LGTK KDE_LGTK_LEN;
          ptr \<leftarrow> put8 ptr key_id;
          ptr \<leftarrow> put8 ptr 0x00;
          bs \<leftarrow> load_n lgtk 0 16;
          put_n ptr bs }"

definition kde_pmkid_write :: "cursor \<Rightarrow> u8 list \<Rightarrow> cursor option" where
  "kde_pmkid_write ptr pmkid =
     do { ptr \<leftarrow> kde_header_write ptr IEEE_802_11_OUI KDE_PMKID KDE_PMKID_LEN;
          bs \<leftarrow> load_n pmkid 0 16;
          put_n ptr bs }"

definition kde_ptkid_write :: "cursor \<Rightarrow> u8 list \<Rightarrow> cursor option" where
  "kde_ptkid_write ptr ptkid =
     do { ptr \<leftarrow> kde_header_write ptr WISUN_OUI KDE_PTKID KDE_PTKID_LEN;
          bs \<leftarrow> load_n ptkid 0 16;
          put_n ptr bs }"

definition kde_lifetime_write :: "cursor \<Rightarrow> u32 \<Rightarrow> cursor option" where
  "kde_lifetime_write ptr lifetime =
     do { ptr \<leftarrow> kde_header_write ptr IEEE_802_11_OUI KDE_LIFETIME KDE_LIFETIME_LEN; put_be32 ptr lifetime }"

definition kde_gtkl_write :: "cursor \<Rightarrow> u8 \<Rightarrow> cursor option" where
  "kde_gtkl_write ptr gtkl = do { ptr \<leftarrow> kde_header_write ptr WISUN_OUI KDE_GTKL KDE_GTKL_LEN; put8 ptr gtkl }"

definition kde_lgtkl_write :: "cursor \<Rightarrow> u8 \<Rightarrow> cursor option" where
  "kde_lgtkl_write ptr lgtkl = do { ptr \<leftarrow> kde_header_write ptr WISUN_OUI KDE_LGTKL KDE_LGTKL_LEN; put8 ptr lgtkl }"

definition kde_node_role_write :: "cursor \<Rightarrow> u8 \<Rightarrow> cursor option" where
  "kde_node_role_write ptr node_role = do { ptr \<leftarrow> kde_header_write ptr WISUN_OUI KDE_NR KDE_NR_LEN; put8 ptr node_role }"

section \<open>Readers\<close>

text \<open>The comparison of the header, which stops at the first difference; the loop.\<close>

definition same_header :: "u8 list \<Rightarrow> u8 list \<Rightarrow> u8 \<Rightarrow> bool option" where
  "same_header ptr oui data_type =
     do { p2 \<leftarrow> load ptr 2; o0 \<leftarrow> load oui 0;
          if p2 \<noteq> o0 then Some False
          else do { p3 \<leftarrow> load ptr 3; o1 \<leftarrow> load oui 1;
            if p3 \<noteq> o1 then Some False
            else do { p4 \<leftarrow> load ptr 4; o2 \<leftarrow> load oui 2;
              if p4 \<noteq> o2 then Some False
              else do { p5 \<leftarrow> load ptr 5; Some (p5 = data_type) } } } }"

function kde_search :: "u8 list \<Rightarrow> nat \<Rightarrow> u8 list \<Rightarrow> u8 \<Rightarrow> nat \<Rightarrow> u8 list option option" where
  "kde_search ptr len oui data_type kde_min_len =
     (if len < KDE_MIN_LEN then Some None
      else do { p1 \<leftarrow> load ptr 1;
                let kde_len = unat p1 + KDE_FIXED_LEN;
                p0 \<leftarrow> load ptr 0;
                if (p0 = 0xdd \<and> kde_len < KDE_MIN_LEN) \<or> kde_len > len then Some None
                else do { hit \<leftarrow> (if kde_len \<ge> kde_min_len then same_header ptr oui data_type else Some False);
                          if hit then Some (Some (drop 6 ptr))
                          else if len > kde_len
                          then kde_search (drop kde_len ptr) (len - kde_len) oui data_type kde_min_len
                          else Some None } })"
  by auto
termination by (relation "measure (\<lambda>(ptr, len, _). len)") (auto simp: KDE_FIXED_LEN_def)

declare kde_search.simps [simp del]

definition kde_gtk_read :: "u8 list \<Rightarrow> nat \<Rightarrow> (int \<times> u8 \<times> u8 list) option" where
  "kde_gtk_read ptr len =
     do { p \<leftarrow> kde_search ptr len IEEE_802_11_OUI KDE_GTK KDE_GTK_LEN;
          case p of None \<Rightarrow> Some (-1, -1, replicate 16 (-1))
          | Some ptr \<Rightarrow> do { b \<leftarrow> load ptr 0; gtk \<leftarrow> load_n ptr 2 16; Some (0, b AND 0x03, gtk) } }"

definition kde_lgtk_read :: "u8 list \<Rightarrow> nat \<Rightarrow> (int \<times> u8 \<times> u8 list) option" where
  "kde_lgtk_read ptr len =
     do { p \<leftarrow> kde_search ptr len WISUN_OUI KDE_LGTK KDE_LGTK_LEN;
          case p of None \<Rightarrow> Some (-1, -1, replicate 16 (-1))
          | Some ptr \<Rightarrow> do { b \<leftarrow> load ptr 0; lgtk \<leftarrow> load_n ptr 2 16; Some (0, b AND 0x03, lgtk) } }"

definition kde_pmkid_read :: "u8 list \<Rightarrow> nat \<Rightarrow> (int \<times> u8 list) option" where
  "kde_pmkid_read ptr len =
     do { p \<leftarrow> kde_search ptr len IEEE_802_11_OUI KDE_PMKID KDE_PMKID_LEN;
          case p of None \<Rightarrow> Some (-1, replicate 16 (-1))
          | Some ptr \<Rightarrow> do { pmkid \<leftarrow> load_n ptr 0 16; Some (0, pmkid) } }"

definition kde_ptkid_read :: "u8 list \<Rightarrow> nat \<Rightarrow> (int \<times> u8 list) option" where
  "kde_ptkid_read ptr len =
     do { p \<leftarrow> kde_search ptr len WISUN_OUI KDE_PTKID KDE_PTKID_LEN;
          case p of None \<Rightarrow> Some (-1, replicate 16 (-1))
          | Some ptr \<Rightarrow> do { ptkid \<leftarrow> load_n ptr 0 16; Some (0, ptkid) } }"

definition kde_lifetime_read :: "u8 list \<Rightarrow> nat \<Rightarrow> (int \<times> u32) option" where
  "kde_lifetime_read ptr len =
     do { p \<leftarrow> kde_search ptr len IEEE_802_11_OUI KDE_LIFETIME KDE_LIFETIME_LEN;
          case p of None \<Rightarrow> Some (-1, -1)
          | Some ptr \<Rightarrow> do { lifetime \<leftarrow> read_be32 ptr; Some (0, lifetime) } }"

definition kde_gtkl_read :: "u8 list \<Rightarrow> nat \<Rightarrow> (int \<times> u8) option" where
  "kde_gtkl_read ptr len =
     do { p \<leftarrow> kde_search ptr len WISUN_OUI KDE_GTKL KDE_GTKL_LEN;
          case p of None \<Rightarrow> Some (-1, -1)
          | Some ptr \<Rightarrow> do { gtkl \<leftarrow> load ptr 0; Some (0, gtkl) } }"

definition kde_lgtkl_read :: "u8 list \<Rightarrow> nat \<Rightarrow> (int \<times> u8) option" where
  "kde_lgtkl_read ptr len =
     do { p \<leftarrow> kde_search ptr len WISUN_OUI KDE_LGTKL KDE_LGTKL_LEN;
          case p of None \<Rightarrow> Some (-1, -1)
          | Some ptr \<Rightarrow> do { lgtkl \<leftarrow> load ptr 0; Some (0, lgtkl) } }"

definition kde_node_role_read :: "u8 list \<Rightarrow> nat \<Rightarrow> (int \<times> u8) option" where
  "kde_node_role_read ptr len =
     do { p \<leftarrow> kde_search ptr len WISUN_OUI KDE_NR KDE_NR_LEN;
          case p of None \<Rightarrow> Some (-1, -1)
          | Some ptr \<Rightarrow> do { node_role \<leftarrow> load ptr 0; Some (0, node_role) } }"

section \<open>What the search finds\<close>

text \<open>
  The abstract search, on the bytes received: the content of the first element with the organisation and type
  that is long enough; an element that overruns the data or a type \<open>0xdd\<close> shorter than its header ends the search.
\<close>

function kde_find :: "u8 list \<Rightarrow> u8 list \<Rightarrow> u8 \<Rightarrow> nat \<Rightarrow> u8 list option" where
  "kde_find bs oui ty n =
     (if length bs < 6 then None
      else let k = unat (bs ! 1) + 2 in
        if (bs ! 0 = 0xdd \<and> k < 6) \<or> length bs < k then None
        else if n \<le> k \<and> take 3 (drop 2 bs) = oui \<and> bs ! 5 = ty then Some (take (k - 6) (drop 6 bs))
        else kde_find (drop k bs) oui ty n)"
  by auto
termination by (relation "measure (\<lambda>(bs, _). length bs)") auto

declare kde_find.simps [simp del]

lemma same_header_eq:
  assumes "6 \<le> length ptr" and "length oui = 3"
  shows "same_header ptr oui ty = Some (take 3 (drop 2 ptr) = oui \<and> ptr ! 5 = ty)"
proof -
  have "take 3 (drop 2 ptr) = [ptr ! 2, ptr ! 3, ptr ! 4]"
    by (rule nth_equalityI) (use assms(1) in \<open>auto simp: less_Suc_eq numeral_eq_Suc\<close>)
  moreover obtain a b c where "oui = [a, b, c]"
    using assms(2) by (auto simp: length_Suc_conv numeral_3_eq_3)
  ultimately show ?thesis using assms by (auto simp: same_header_def load_def)
qed

lemma kde_find_length: "kde_find bs oui ty n = Some x \<Longrightarrow> 6 \<le> n \<Longrightarrow> n - 6 \<le> length x"
proof (induction bs oui ty n rule: kde_find.induct)
  case (1 bs oui ty n)
  from "1.prems" show ?case
    by (subst (asm) kde_find.simps) (use "1.IH" "1.prems"(2) in \<open>auto simp: Let_def split: if_splits\<close>)
qed

lemma kde_search_refines:
  assumes "length oui = 3" and "6 \<le> n"
  shows "len \<le> length ptr \<Longrightarrow>
    (case kde_find (take len ptr) oui ty n of
       None \<Rightarrow> kde_search ptr len oui ty n = Some None
     | Some x \<Rightarrow> \<exists>r. kde_search ptr len oui ty n = Some (Some (x @ r)))"
proof (induction len arbitrary: ptr rule: less_induct)
  case (less len)
  let ?k = "unat (ptr ! 1) + 2" and ?b = "take len ptr"
  show ?case
  proof (cases "len < 6 \<or> (ptr ! 0 = 0xdd \<and> ?k < 6) \<or> len < ?k")
    case True
    then show ?thesis
      using less.prems by (subst kde_find.simps, subst kde_search.simps) (auto simp: kde_consts load_def)
  next
    case False
    then have len: "6 \<le> len" "?k \<le> len" "\<not> (ptr ! 0 = 0xdd \<and> ?k < 6)" by auto
    have b: "length ?b = len" "?b ! 0 = ptr ! 0" "?b ! 1 = ptr ! 1" "?b ! 5 = ptr ! 5" "take 3 (drop 2 ?b) = take 3 (drop 2 ptr)"
      using less.prems len(1) by (auto simp: take_drop min_def)
    let ?hit = "n \<le> ?k \<and> take 3 (drop 2 ptr) = oui \<and> ptr ! 5 = ty"
    have F: "kde_find ?b oui ty n = (if ?hit then Some (take (?k - 6) (drop 6 ?b)) else kde_find (take (len - ?k) (drop ?k ptr)) oui ty n)"
      using len less.prems by (subst kde_find.simps) (auto simp: b Let_def drop_take min_absorb2)
    have S: "kde_search ptr len oui ty n = (if ?hit then Some (Some (drop 6 ptr))
        else if len > ?k then kde_search (drop ?k ptr) (len - ?k) oui ty n else Some None)"
    proof -
      have "load ptr 0 = Some (ptr ! 0)" "load ptr 1 = Some (ptr ! 1)"
        "same_header ptr oui ty = Some (take 3 (drop 2 ptr) = oui \<and> ptr ! 5 = ty)"
        using len(1) less.prems same_header_eq [OF _ assms(1)] by (auto simp: load_def)
      then show ?thesis using len by (subst kde_search.simps) (auto simp: kde_consts)
    qed
    show ?thesis
    proof (cases ?hit)
      case True
      then have "6 \<le> ?k" using assms(2) by simp
      then have "drop 6 ptr = take (?k - 6) (drop 6 ?b) @ drop ?k ptr"
      proof -
        have "drop 6 ?b = take (len - 6) (drop 6 ptr)" by (simp add: drop_take)
        then have "take (?k - 6) (drop 6 ?b) = take (?k - 6) (drop 6 ptr)" using len(2) by (simp add: min_def)
        moreover have "drop ?k ptr = drop (?k - 6) (drop 6 ptr)" using \<open>6 \<le> ?k\<close> by simp
        ultimately show ?thesis by (simp only: append_take_drop_id)
      qed
      then have "kde_search ptr len oui ty n = Some (Some (take (?k - 6) (drop 6 ?b) @ drop ?k ptr))"
        using S True by presburger
      moreover have "kde_find ?b oui ty n = Some (take (?k - 6) (drop 6 ?b))" using F True by presburger
      ultimately show ?thesis by auto
    next
      case False
      show ?thesis
      proof (cases "len > ?k")
        case True
        have "kde_find ?b oui ty n = kde_find (take (len - ?k) (drop ?k ptr)) oui ty n" using F False by presburger
        moreover have "kde_search ptr len oui ty n = kde_search (drop ?k ptr) (len - ?k) oui ty n"
          using S False True by presburger
        moreover have "len - ?k < len" "len - ?k \<le> length (drop ?k ptr)" using len less.prems by simp_all
        ultimately show ?thesis using less.IH [of "len - ?k" "drop ?k ptr"] by (simp only:)
      next
        case ge: False
        then have "kde_find (take (len - ?k) (drop ?k ptr)) oui ty n = None"
          by (subst kde_find.simps) simp
        then have "kde_find ?b oui ty n = None" using F False by presburger
        moreover have "kde_search ptr len oui ty n = Some None" using S False ge by presburger
        ultimately show ?thesis by (simp only: option.case)
      qed
    qed
  qed
qed

section \<open>Elements\<close>

text \<open>The elements the code knows, with their organisation, type and content.\<close>

datatype kde =
    Gtk u8 "u8 list"
  | Lgtk u8 "u8 list"
  | Pmkid "u8 list"
  | Ptkid "u8 list"
  | Lifetime u32
  | Gtkl u8
  | Lgtkl u8
  | Node_role u8

fun kde_kind :: "kde \<Rightarrow> u8 list \<times> u8" where
  "kde_kind (Gtk _ _) = (IEEE_802_11_OUI, KDE_GTK)"
| "kde_kind (Lgtk _ _) = (WISUN_OUI, KDE_LGTK)"
| "kde_kind (Pmkid _) = (IEEE_802_11_OUI, KDE_PMKID)"
| "kde_kind (Ptkid _) = (WISUN_OUI, KDE_PTKID)"
| "kde_kind (Lifetime _) = (IEEE_802_11_OUI, KDE_LIFETIME)"
| "kde_kind (Gtkl _) = (WISUN_OUI, KDE_GTKL)"
| "kde_kind (Lgtkl _) = (WISUN_OUI, KDE_LGTKL)"
| "kde_kind (Node_role _) = (WISUN_OUI, KDE_NR)"

fun kde_body :: "kde \<Rightarrow> u8 list" where
  "kde_body (Gtk i k) = i # 0 # k"
| "kde_body (Lgtk i k) = i # 0 # k"
| "kde_body (Pmkid k) = k"
| "kde_body (Ptkid k) = k"
| "kde_body (Lifetime t) = be_bytes 4 (unat t)"
| "kde_body (Gtkl l) = [l]"
| "kde_body (Lgtkl l) = [l]"
| "kde_body (Node_role r) = [r]"

fun kde_ok :: "kde \<Rightarrow> bool" where
  "kde_ok (Gtk _ k) = (length k = 16)"
| "kde_ok (Lgtk _ k) = (length k = 16)"
| "kde_ok (Pmkid k) = (length k = 16)"
| "kde_ok (Ptkid k) = (length k = 16)"
| "kde_ok _ = True"

fun kde_write :: "cursor \<Rightarrow> kde \<Rightarrow> cursor option" where
  "kde_write c (Gtk i k) = kde_gtk_write c i k"
| "kde_write c (Lgtk i k) = kde_lgtk_write c i k"
| "kde_write c (Pmkid k) = kde_pmkid_write c k"
| "kde_write c (Ptkid k) = kde_ptkid_write c k"
| "kde_write c (Lifetime t) = kde_lifetime_write c t"
| "kde_write c (Gtkl l) = kde_gtkl_write c l"
| "kde_write c (Lgtkl l) = kde_lgtkl_write c l"
| "kde_write c (Node_role r) = kde_node_role_write c r"

definition kde_bytes :: "kde \<Rightarrow> u8 list" where
  "kde_bytes x = [0xdd, word_of_nat (length (kde_body x) + 4)] @ fst (kde_kind x) @ [snd (kde_kind x)] @ kde_body x"

fun kde_write_all :: "cursor \<Rightarrow> kde list \<Rightarrow> cursor option" where
  "kde_write_all c [] = Some c"
| "kde_write_all c (x # xs) = do { c \<leftarrow> kde_write c x; kde_write_all c xs }"

definition kde_padding :: "nat \<Rightarrow> u8 list" where
  "kde_padding n = (if n = 0 then [] else 0xdd # replicate (n - 1) 0)"

lemma length_kde_padding [simp]: "length (kde_padding n) = n"
  by (simp add: kde_padding_def)

lemma length_kde_body: "kde_ok x \<Longrightarrow> length (kde_body x) \<le> 18"
  by (cases x) simp_all

lemma length_oui [simp]: "length (fst (kde_kind x)) = 3"
  by (cases x) (simp_all add: kde_consts)

lemma kde_header_writes:
  "length oui = 3 \<Longrightarrow> kde_header_write c oui ty n = writes c ([0xdd, word_of_nat (n - 2)] @ oui @ [ty])"
  by (auto simp: kde_header_write_def put_simps kde_consts load_def length_Suc_conv numeral_3_eq_3 numeral_2_eq_2)

lemma kde_write_writes: "kde_ok x \<Longrightarrow> kde_write c x = writes c (kde_bytes x)"
  by (cases x) (simp_all add: kde_gtk_write_def kde_lgtk_write_def kde_pmkid_write_def kde_ptkid_write_def
      kde_lifetime_write_def kde_gtkl_write_def kde_lgtkl_write_def kde_node_role_write_def kde_header_writes kde_bytes_def
      kde_consts load_n_def put_simps)

lemma kde_write_all_writes:
  "list_all kde_ok xs \<Longrightarrow> snd c \<le> length (fst c) \<Longrightarrow> kde_write_all c xs = writes c (concat (map kde_bytes xs))"
proof (induction xs arbitrary: c)
  case Nil
  then show ?case by (simp add: writes_nil)
next
  case (Cons x xs)
  have "kde_write_all c (x # xs) = writes c (kde_bytes x) \<bind> (\<lambda>c. kde_write_all c xs)"
    using Cons.prems(1) by (simp add: kde_write_writes)
  also have "\<dots> = writes c (kde_bytes x) \<bind> (\<lambda>c. writes c (concat (map kde_bytes xs)))"
    using Cons by (intro writes_bind_cong) simp
  finally show ?case by (simp add: put_simps)
qed

lemma padding_zeros: "snd c \<le> length (fst c) \<Longrightarrow> padding_loop c 0 n = writes c (replicate n 0)"
proof (induction n arbitrary: c)
  case 0
  then show ?case by (simp add: writes_nil)
next
  case (Suc n)
  have "padding_loop c 0 (Suc n) = writes c [0] \<bind> (\<lambda>c. writes c (replicate n 0))"
    using Suc.IH by (simp add: put8_writes) (intro writes_bind_cong)
  then show ?case by (simp add: put_simps)
qed

lemma padding_writes: "snd c \<le> length (fst c) \<Longrightarrow> padding_loop c 0xdd n = writes c (kde_padding n)"
proof (cases n)
  case (Suc k)
  assume "snd c \<le> length (fst c)"
  have "padding_loop c 0xdd (Suc k) = writes c [0xdd] \<bind> (\<lambda>c. writes c (replicate k 0))"
    by (simp add: put8_writes) (intro writes_bind_cong padding_zeros)
  then show ?thesis using Suc by (simp add: put_simps kde_padding_def)
qed (simp add: kde_padding_def writes_nil)

text \<open>Elements and padding filling a buffer of \<open>n\<close> bytes.\<close>

definition kde_message :: "kde list \<Rightarrow> nat \<Rightarrow> u8 list" where
  "kde_message xs n = concat (map kde_bytes xs) @ kde_padding (n - length (concat (map kde_bytes xs)))"

lemma kde_build:
  assumes "list_all kde_ok xs" and "length (concat (map kde_bytes xs)) \<le> length m"
  shows "kde_write_all (m, 0) xs \<bind> (\<lambda>c. kde_padding_write c (length m)) = Some (kde_message xs (length m))"
proof -
  let ?b = "concat (map kde_bytes xs)"
  have w: "kde_write_all (m, 0) xs = Some (?b @ drop (length ?b) m, length ?b)"
    using assms by (simp add: kde_write_all_writes writes_in)
  have "padding_loop (?b @ drop (length ?b) m, length ?b) 0xdd (length m - length ?b) =
      Some (?b @ kde_padding (length m - length ?b), length m)"
    using assms(2) by (simp add: padding_writes writes_in)
  then show ?thesis using w by (simp add: kde_padding_write_def kde_message_def)
qed

section \<open>Finding the elements written\<close>

lemma kde_find_padding: "kde_find (kde_padding k) oui ty n = None"
  by (subst kde_find.simps) (auto simp: kde_padding_def)

lemma kde_find_bytes:
  assumes "kde_ok x"
  shows "kde_find (kde_bytes x @ r) oui ty n =
    (if n \<le> length (kde_body x) + 6 \<and> kde_kind x = (oui, ty) then Some (kde_body x) else kde_find r oui ty n)"
proof -
  let ?b = "kde_bytes x @ r"
  obtain a b c where oui: "fst (kde_kind x) = [a, b, c]"
    using length_oui [of x] by (auto simp: length_Suc_conv numeral_3_eq_3 simp del: length_oui)
  have b: "?b = 0xdd # word_of_nat (length (kde_body x) + 4) # a # b # c # snd (kde_kind x) # kde_body x @ r"
    by (simp add: kde_bytes_def oui)
  have n: "unat (?b ! 1) + 2 = length (kde_body x) + 6"
    using length_kde_body [OF assms] by (simp add: b del: of_nat_add)
  have hd: "take 3 (drop 2 ?b) = fst (kde_kind x)" "?b ! 5 = snd (kde_kind x)" "drop 6 ?b = kde_body x @ r"
    by (simp_all add: b oui numeral_eq_Suc)
  have "length ?b = length (kde_body x) + 6 + length r" "drop (length (kde_body x) + 6) ?b = r"
    by (simp_all add: b numeral_eq_Suc)
  then show ?thesis
    using n hd by (subst kde_find.simps) (auto simp: Let_def prod_eq_iff)
qed

lemma kde_find_message:
  assumes "list_all kde_ok xs" and "\<And>x. x \<in> set xs \<Longrightarrow> kde_kind x = (oui, ty) \<Longrightarrow> n \<le> length (kde_body x) + 6"
  shows "kde_find (kde_message xs k) oui ty n = map_option kde_body (find (\<lambda>x. kde_kind x = (oui, ty)) xs)"
proof -
  have "kde_find (concat (map kde_bytes xs) @ kde_padding j) oui ty n =
      map_option kde_body (find (\<lambda>x. kde_kind x = (oui, ty)) xs)" for j
    using assms by (induction xs) (auto simp: kde_find_padding kde_find_bytes)
  then show ?thesis by (simp add: kde_message_def)
qed

section \<open>Properties\<close>

text \<open>What each reader returns for the content found.\<close>

lemma kde_search_found:
  assumes "len \<le> length ptr" and "kde_find (take len ptr) oui ty n = Some x" and "length oui = 3" and "6 \<le> n"
  obtains r where "kde_search ptr len oui ty n = Some (Some (x @ r))" and "n - 6 \<le> length x"
  using kde_search_refines [OF assms(3,4,1), of ty] assms(2) kde_find_length [OF assms(2,4)] by auto

lemma kde_search_none:
  assumes "len \<le> length ptr" and "kde_find (take len ptr) oui ty n = None" and "length oui = 3" and "6 \<le> n"
  shows "kde_search ptr len oui ty n = Some None"
  using kde_search_refines [OF assms(3,4,1), of ty] assms(2) by simp

lemma kde_read_case:
  assumes "len \<le> length ptr" and "length oui = 3" and "6 \<le> n"
    and "\<And>x r. n - 6 \<le> length x \<Longrightarrow> g (x @ r) = Some (h x)"
  shows "kde_search ptr len oui ty n \<bind> (\<lambda>p. case p of None \<Rightarrow> Some d | Some q \<Rightarrow> g q) =
    Some (case kde_find (take len ptr) oui ty n of None \<Rightarrow> d | Some x \<Rightarrow> h x)"
proof (cases "kde_find (take len ptr) oui ty n")
  case None
  then show ?thesis using kde_search_none [OF assms(1) None assms(2,3)] by simp
next
  case (Some x)
  obtain r where "kde_search ptr len oui ty n = Some (Some (x @ r))" "n - 6 \<le> length x"
    by (rule kde_search_found [OF assms(1) Some assms(2,3)])
  then show ?thesis using Some assms(4) by simp
qed

lemma front_loads:
  "1 \<le> length x \<Longrightarrow> load (x @ r) 0 = Some (x ! 0)"
  "k + n \<le> length x \<Longrightarrow> load_n (x @ r) k n = Some (take n (drop k x))"
  "4 \<le> length x \<Longrightarrow> read_be32 (x @ r) = Some (word_of_nat (be_val (take 4 x)))"
  by (auto simp: load_def load_n_def nth_append read_be_eq)

lemmas kde_reader_defs = kde_gtk_read_def kde_lgtk_read_def kde_pmkid_read_def kde_ptkid_read_def kde_lifetime_read_def
  kde_gtkl_read_def kde_lgtkl_read_def kde_node_role_read_def

lemma kde_lens:
  "KDE_GTK_LEN = 24" "KDE_LGTK_LEN = 24" "KDE_PMKID_LEN = 22" "KDE_PTKID_LEN = 22" "KDE_LIFETIME_LEN = 10"
  "KDE_GTKL_LEN = 7" "KDE_LGTKL_LEN = 7" "KDE_NR_LEN = 7" "length IEEE_802_11_OUI = 3" "length WISUN_OUI = 3"
  by (simp_all add: kde_consts)

lemma kde_readers:
  assumes "len \<le> length ptr"
  defines "f \<equiv> kde_find (take len ptr)"
  shows "kde_gtk_read ptr len = Some (case f IEEE_802_11_OUI KDE_GTK 24 of None \<Rightarrow> (-1, -1, replicate 16 (-1))
        | Some x \<Rightarrow> (0, x ! 0 AND 3, take 16 (drop 2 x)))"
    and "kde_lgtk_read ptr len = Some (case f WISUN_OUI KDE_LGTK 24 of None \<Rightarrow> (-1, -1, replicate 16 (-1))
        | Some x \<Rightarrow> (0, x ! 0 AND 3, take 16 (drop 2 x)))"
    and "kde_pmkid_read ptr len = Some (case f IEEE_802_11_OUI KDE_PMKID 22 of None \<Rightarrow> (-1, replicate 16 (-1)) | Some x \<Rightarrow> (0, take 16 x))"
    and "kde_ptkid_read ptr len = Some (case f WISUN_OUI KDE_PTKID 22 of None \<Rightarrow> (-1, replicate 16 (-1)) | Some x \<Rightarrow> (0, take 16 x))"
    and "kde_lifetime_read ptr len = Some (case f IEEE_802_11_OUI KDE_LIFETIME 10 of None \<Rightarrow> (-1, -1)
        | Some x \<Rightarrow> (0, word_of_nat (be_val (take 4 x))))"
    and "kde_gtkl_read ptr len = Some (case f WISUN_OUI KDE_GTKL 7 of None \<Rightarrow> (-1, -1) | Some x \<Rightarrow> (0, x ! 0))"
    and "kde_lgtkl_read ptr len = Some (case f WISUN_OUI KDE_LGTKL 7 of None \<Rightarrow> (-1, -1) | Some x \<Rightarrow> (0, x ! 0))"
    and "kde_node_role_read ptr len = Some (case f WISUN_OUI KDE_NR 7 of None \<Rightarrow> (-1, -1) | Some x \<Rightarrow> (0, x ! 0))"
  unfolding f_def kde_reader_defs kde_lens
  by (rule kde_read_case [OF assms(1)]; simp add: kde_lens front_loads)+

text \<open>
  C23. On any key data received the readers are total and memory safe, and they return the fields of the first
  element of their kind that is long enough, or \<open>-1\<close> and all bits set when there is none.
\<close>

theorem kde_read_refines:
  assumes "len \<le> length ptr"
  defines "f \<equiv> kde_find (take len ptr)"
  shows "kde_gtk_read ptr len = Some (case f IEEE_802_11_OUI KDE_GTK 24 of None \<Rightarrow> (-1, -1, replicate 16 (-1))
        | Some x \<Rightarrow> (0, x ! 0 AND 3, take 16 (drop 2 x))) \<and>
    kde_lgtk_read ptr len = Some (case f WISUN_OUI KDE_LGTK 24 of None \<Rightarrow> (-1, -1, replicate 16 (-1))
        | Some x \<Rightarrow> (0, x ! 0 AND 3, take 16 (drop 2 x))) \<and>
    kde_pmkid_read ptr len = Some (case f IEEE_802_11_OUI KDE_PMKID 22 of None \<Rightarrow> (-1, replicate 16 (-1)) | Some x \<Rightarrow> (0, take 16 x)) \<and>
    kde_ptkid_read ptr len = Some (case f WISUN_OUI KDE_PTKID 22 of None \<Rightarrow> (-1, replicate 16 (-1)) | Some x \<Rightarrow> (0, take 16 x)) \<and>
    kde_lifetime_read ptr len = Some (case f IEEE_802_11_OUI KDE_LIFETIME 10 of None \<Rightarrow> (-1, -1)
        | Some x \<Rightarrow> (0, word_of_nat (be_val (take 4 x)))) \<and>
    kde_gtkl_read ptr len = Some (case f WISUN_OUI KDE_GTKL 7 of None \<Rightarrow> (-1, -1) | Some x \<Rightarrow> (0, x ! 0)) \<and>
    kde_lgtkl_read ptr len = Some (case f WISUN_OUI KDE_LGTKL 7 of None \<Rightarrow> (-1, -1) | Some x \<Rightarrow> (0, x ! 0)) \<and>
    kde_node_role_read ptr len = Some (case f WISUN_OUI KDE_NR 7 of None \<Rightarrow> (-1, -1) | Some x \<Rightarrow> (0, x ! 0))"
  unfolding f_def by (intro conjI kde_readers assms(1))

theorem kde_read_refines_witness:
  "kde_gtkl_read [0xdd, 5, 0x0C, 0x5A, 0x9E, 2, 9] 7 = Some (0, 9)"
proof -
  have "kde_find [0xdd, 5, 0x0C, 0x5A, 0x9E, 2, 9] WISUN_OUI KDE_GTKL 7 = Some [9]" by code_simp
  then show ?thesis using kde_read_refines [of 7 "[0xdd, 5, 0x0C, 0x5A, 0x9E, 2, 9]"] by simp
qed

text \<open>What the readers return for an element received.\<close>

fun kde_received :: "kde \<Rightarrow> u8 list \<Rightarrow> nat \<Rightarrow> bool" where
  "kde_received (Gtk i k) ptr len = (kde_gtk_read ptr len = Some (0, i AND 3, k))"
| "kde_received (Lgtk i k) ptr len = (kde_lgtk_read ptr len = Some (0, i AND 3, k))"
| "kde_received (Pmkid k) ptr len = (kde_pmkid_read ptr len = Some (0, k))"
| "kde_received (Ptkid k) ptr len = (kde_ptkid_read ptr len = Some (0, k))"
| "kde_received (Lifetime t) ptr len = (kde_lifetime_read ptr len = Some (0, t))"
| "kde_received (Gtkl l) ptr len = (kde_gtkl_read ptr len = Some (0, l))"
| "kde_received (Lgtkl l) ptr len = (kde_lgtkl_read ptr len = Some (0, l))"
| "kde_received (Node_role r) ptr len = (kde_node_role_read ptr len = Some (0, r))"

text \<open>An element of a message is received when it is the first of its kind.\<close>

lemma kde_kind_length: "kde_ok x \<Longrightarrow> kde_ok y \<Longrightarrow> kde_kind x = kde_kind y \<Longrightarrow> length (kde_body x) = length (kde_body y)"
  by (cases x; cases y) (simp_all add: kde_consts)

lemma kde_message_received:
  assumes "list_all kde_ok xs" and "find (\<lambda>y. kde_kind y = kde_kind x) xs = Some x" and "len \<le> length ptr"
    and "take len ptr = kde_message xs k"
  shows "kde_received x ptr len"
proof -
  have ok: "kde_ok x" using assms(1,2) by (auto simp: find_Some_iff list_all_iff)
  have le: "length (kde_body x) \<le> length (kde_body y)" if "y \<in> set xs" "kde_kind y = kde_kind x" for y
    using kde_kind_length [OF ok, of y] assms(1) that by (simp add: list_all_iff)
  have "kde_find (take len ptr) (fst (kde_kind x)) (snd (kde_kind x)) (length (kde_body x) + 6) = Some (kde_body x)"
    using kde_find_message [OF assms(1), of "fst (kde_kind x)" "snd (kde_kind x)" "length (kde_body x) + 6" k]
      assms(2,4) le by simp
  then show ?thesis
    using ok by (cases x) (simp_all add: kde_readers [OF assms(3)] be_val_bytes)
qed

text \<open>
  C22. The key data elements written one after another into a buffer that is large enough, and the padding up to
  its end, are read back: the reader of a kind returns the fields of the first element of that kind (of a
  key identifier, the two low bits), and the padding is never taken for an element.
\<close>

theorem kde_round_trip:
  assumes "list_all kde_ok xs" and "length (concat (map kde_bytes xs)) \<le> length m"
    and "find (\<lambda>y. kde_kind y = kde_kind x) xs = Some x"
  shows "\<exists>c m'. kde_write_all (m, 0) xs = Some c \<and> kde_padding_write c (length m) = Some m' \<and> length m' = length m \<and>
    kde_received x m' (length m)"
proof -
  obtain c where c: "kde_write_all (m, 0) xs = Some c" "kde_padding_write c (length m) = Some (kde_message xs (length m))"
    using kde_build [OF assms(1,2)] by (auto simp: bind_eq_Some_conv)
  have "length (kde_message xs (length m)) = length m" using assms(2) by (simp add: kde_message_def)
  then show ?thesis
    using c kde_message_received [OF assms(1,3), of "length m" "kde_message xs (length m)" "length m"] by simp
qed

theorem kde_round_trip_witness:
  "\<exists>c m'. kde_write_all (replicate 48 0, 0) [Gtk 6 (replicate 16 7), Lifetime 90, Gtkl 3] = Some c \<and>
     kde_padding_write c 48 = Some m' \<and> length m' = 48 \<and> kde_lifetime_read m' 48 = Some (0, 90)"
  using kde_round_trip [of "[Gtk 6 (replicate 16 7), Lifetime 90, Gtkl 3]" "replicate 48 0" "Lifetime 90"]
  by (simp add: kde_bytes_def kde_consts)

end
