(* ===== verification/Eapol.thy ===== *)
theory Eapol
  imports Ptr
begin

text \<open>
  \<open>src/stack/source/security/pana/pana_eap_header.c\<close> and \<open>src/stack/source/security/eapol/eapol_helper.c\<close>: EAP headers
  and EAPOL frames. A pointer kept in a structure is the object from that pointer on, \<open>None\<close> being the null
  pointer. The union \<open>msg\<close> of an \<open>eapol_pdu\<close> is a value with one constructor per member.

  A parser returns the structure it fills in, or \<open>None\<close> where the C function returns false: what is left in the
  structure then is not represented, since no caller reads it. The builders overwrite \<open>packet_body\<close>
  of the structure they are given, which is not read afterwards either; the model leaves it alone.
\<close>

section \<open>EAP headers\<close>

definition EAP_REQ :: u8 where "EAP_REQ = 0x01"
definition EAP_RESPONSE :: u8 where "EAP_RESPONSE = 0x02"
definition EAP_SUCCESS :: u8 where "EAP_SUCCESS = 0x03"
definition EAP_FAILURE :: u8 where "EAP_FAILURE = 0x04"
definition EAP_TLS_FRAGMENT_LENGTH :: u8 where "EAP_TLS_FRAGMENT_LENGTH = 0x80"

lemmas eap_consts = EAP_REQ_def EAP_RESPONSE_def EAP_SUCCESS_def EAP_FAILURE_def EAP_TLS_FRAGMENT_LENGTH_def

record eap_header =
  eap_length :: u16
  eap_code :: u8
  id_seq :: u8
  eap_type :: u8
  eap_data_ptr :: "u8 list option"

record eap_tls_header =
  tls_data_ptr :: "u8 list"
  eap_tls_flags :: u8
  tls_frame_length :: u16
  tls_length :: u16

definition eap_header_parse :: "u8 list \<Rightarrow> u16 \<Rightarrow> eap_header option option" where
  "eap_header_parse data_ptr len =
     (if len < 4 then Some None
      else do { c \<leftarrow> load data_ptr 0;
                s \<leftarrow> load data_ptr 1;
                l \<leftarrow> read_be16 (drop 2 data_ptr);
                let header = \<lparr>eap_length = l, eap_code = c, id_seq = s, eap_type = 0, eap_data_ptr = None\<rparr>;
                if l < len \<or> l > len then Some None
                else if c = EAP_REQ \<or> c = EAP_RESPONSE then
                  (if l < 5 then Some None
                   else do { t \<leftarrow> load data_ptr 4;
                             Some (Some (header\<lparr>eap_type := t, eap_data_ptr := Some (drop 5 data_ptr)\<rparr>)) })
                else if c = EAP_SUCCESS \<or> c = EAP_FAILURE then
                  (if l \<noteq> 4 then Some None else Some (Some (header\<lparr>eap_data_ptr := Some (drop 4 data_ptr)\<rparr>)))
                else Some None })"

definition eap_header_size :: "u8 \<Rightarrow> nat" where
  "eap_header_size code = (if code = EAP_REQ \<or> code = EAP_RESPONSE then 5 else 4)"

definition eap_header_build :: "cursor \<Rightarrow> u16 \<Rightarrow> u8 \<Rightarrow> u8 \<Rightarrow> u8 \<Rightarrow> cursor option" where
  "eap_header_build ptr data_length code seq_id ty =
     do { ptr \<leftarrow> put8 ptr code;
          ptr \<leftarrow> put8 ptr seq_id;
          ptr \<leftarrow> put_be16 ptr data_length;
          if code = EAP_REQ \<or> code = EAP_RESPONSE then put8 ptr ty else Some ptr }"

definition eap_tls_header_parse :: "u8 list \<Rightarrow> u16 \<Rightarrow> eap_tls_header option option" where
  "eap_tls_header_parse ptr eap_datalength =
     (if eap_datalength = 0 then Some None
      else do { flags \<leftarrow> load ptr 0;
                let eap_datalength = eap_datalength - 1;
                if flags AND EAP_TLS_FRAGMENT_LENGTH \<noteq> 0 then
                  (if eap_datalength < 4 then Some None
                   else do { temp32 \<leftarrow> read_be32 (drop 1 ptr);
                             let eap_datalength = eap_datalength - 4;
                             if temp32 > 0x0000ffff then Some None
                             else Some (Some \<lparr>tls_data_ptr = drop 5 ptr, eap_tls_flags = flags,
                                     tls_frame_length = eap_datalength, tls_length = ucast temp32\<rparr>) })
                else Some (Some \<lparr>tls_data_ptr = drop 1 ptr, eap_tls_flags = flags,
                        tls_frame_length = eap_datalength, tls_length = 0\<rparr>) })"

definition eap_tls_header_size :: "u16 \<Rightarrow> nat" where
  "eap_tls_header_size flags = (if flags AND ucast EAP_TLS_FRAGMENT_LENGTH \<noteq> 0 then 5 else 1)"

definition eap_tls_header_build :: "cursor \<Rightarrow> u16 \<Rightarrow> u16 \<Rightarrow> cursor option" where
  "eap_tls_header_build ptr flags frame_length =
     do { ptr \<leftarrow> put8 ptr (ucast flags);
          if flags AND ucast EAP_TLS_FRAGMENT_LENGTH \<noteq> 0 then put_be32 ptr (ucast frame_length) else Some ptr }"

section \<open>EAPOL frames\<close>

definition EAPOL_PROTOCOL_VERSION :: u8 where "EAPOL_PROTOCOL_VERSION = 3"
definition EAPOL_EAP_TYPE :: u8 where "EAPOL_EAP_TYPE = 0"
definition EAPOL_KEY_TYPE :: u8 where "EAPOL_KEY_TYPE = 3"
definition EAPOL_BASE_LENGTH :: nat where "EAPOL_BASE_LENGTH = 4"
definition EAPOL_KEY_FRAME_BASE_SIZE :: nat where "EAPOL_KEY_FRAME_BASE_SIZE = 95"
definition EAPOL_RSN_KEY_DESCRIPTION :: u8 where "EAPOL_RSN_KEY_DESCRIPTION = 2"
definition KEY_DESCRIPTION_HMAC_SHA1_MIC_AES_ENC :: u16 where "KEY_DESCRIPTION_HMAC_SHA1_MIC_AES_ENC = 2"
definition KEY_INFO_INSTALL :: u8 where "KEY_INFO_INSTALL = 0x01"
definition KEY_INFO_KEY_ACK :: u8 where "KEY_INFO_KEY_ACK = 0x02"
definition KEY_INFO_KEY_MIC :: u8 where "KEY_INFO_KEY_MIC = 0x04"
definition KEY_INFO_SECURED_KEY_FRAME :: u8 where "KEY_INFO_SECURED_KEY_FRAME = 0x08"

lemmas eapol_consts = EAPOL_PROTOCOL_VERSION_def EAPOL_EAP_TYPE_def EAPOL_KEY_TYPE_def EAPOL_BASE_LENGTH_def
  EAPOL_KEY_FRAME_BASE_SIZE_def EAPOL_RSN_KEY_DESCRIPTION_def KEY_DESCRIPTION_HMAC_SHA1_MIC_AES_ENC_def

text \<open>The bit field \<open>description_version\<close> has three bits.\<close>

record eapol_key_information =
  description_version :: u16
  pairwise_key :: bool
  install :: bool
  key_ack :: bool
  key_mic_flag :: bool
  secured_key_frame :: bool
  key_error :: bool
  key_request :: bool
  encrypted_key_data :: bool
  smk_handshake :: bool

record eapol_key_frame =
  key_description :: u8
  key_information :: eapol_key_information
  key_length :: u16
  replay_counter :: u64
  key_nonce :: "u8 list option"
  key_iv :: "u8 list option"
  key_rsc :: "u8 list option"
  key_mic :: "u8 list option"
  key_data_length :: u16
  key_data :: "u8 list option"

datatype eapol_msg = Msg_key eapol_key_frame | Msg_eap eap_header

record eapol_pdu =
  packet_type :: u8
  packet_length :: u16
  packet_body :: "u8 list option"
  msg :: eapol_msg

definition key_information_zero :: eapol_key_information where
  "key_information_zero = \<lparr>description_version = 0, pairwise_key = False, install = False, key_ack = False, key_mic_flag = False,
     secured_key_frame = False, key_error = False, key_request = False, encrypted_key_data = False, smk_handshake = False\<rparr>"

definition key_frame_zero :: eapol_key_frame where
  "key_frame_zero = \<lparr>key_description = 0, key_information = key_information_zero, key_length = 0, replay_counter = 0,
     key_nonce = None, key_iv = None, key_rsc = None, key_mic = None, key_data_length = 0, key_data = None\<rparr>"

definition eapol_key_information_write :: "eapol_key_information \<Rightarrow> cursor \<Rightarrow> cursor option" where
  "eapol_key_information_write k ptr =
     put_be16 ptr (description_version k OR push_bit 3 (of_bool (pairwise_key k)) OR push_bit 6 (of_bool (install k)) OR
       push_bit 7 (of_bool (key_ack k)) OR push_bit 8 (of_bool (key_mic_flag k)) OR
       push_bit 9 (of_bool (secured_key_frame k)) OR push_bit 10 (of_bool (key_error k)) OR
       push_bit 11 (of_bool (key_request k)) OR push_bit 12 (of_bool (encrypted_key_data k)) OR
       push_bit 13 (of_bool (smk_handshake k)))"

definition eapol_key_information_read :: "u8 list \<Rightarrow> eapol_key_information option" where
  "eapol_key_information_read ptr =
     do { key_info \<leftarrow> read_be16 ptr;
          Some \<lparr>description_version = key_info AND 0x0007,
                pairwise_key = (drop_bit 3 (key_info AND 0x0008) \<noteq> 0),
                install = (drop_bit 6 (key_info AND 0x0040) \<noteq> 0),
                key_ack = (drop_bit 7 (key_info AND 0x0080) \<noteq> 0),
                key_mic_flag = (drop_bit 8 (key_info AND 0x0100) \<noteq> 0),
                secured_key_frame = (drop_bit 9 (key_info AND 0x0200) \<noteq> 0),
                key_error = (drop_bit 10 (key_info AND 0x0400) \<noteq> 0),
                key_request = (drop_bit 11 (key_info AND 0x0800) \<noteq> 0),
                encrypted_key_data = (drop_bit 12 (key_info AND 0x1000) \<noteq> 0),
                smk_handshake = (drop_bit 13 (key_info AND 0x2000) \<noteq> 0)\<rparr> }"

text \<open>Accepting the body as an EAP packet or as a key frame: the value of \<open>msg\<close>.\<close>

definition eapol_parse_eap_packet :: "u8 list \<Rightarrow> u16 \<Rightarrow> eapol_msg option option" where
  "eapol_parse_eap_packet body plen = do { h \<leftarrow> eap_header_parse body plen; Some (map_option Msg_eap h) }"

definition eapol_parse_key_packet :: "u8 list \<Rightarrow> u16 \<Rightarrow> eapol_msg option option" where
  "eapol_parse_key_packet body plen =
     (if unat plen < EAPOL_KEY_FRAME_BASE_SIZE then Some None
      else do { d \<leftarrow> load body 0;
                if d \<noteq> EAPOL_RSN_KEY_DESCRIPTION then Some None
                else do { info \<leftarrow> eapol_key_information_read (drop 1 body);
                          if description_version info \<noteq> KEY_DESCRIPTION_HMAC_SHA1_MIC_AES_ENC then Some None
                          else do { klen \<leftarrow> read_be16 (drop 3 body);
                                    cnt \<leftarrow> read_be64 (drop 5 body);
                                    dlen \<leftarrow> read_be16 (drop 93 body);
                                    if int (unat dlen) > int (unat plen) - int EAPOL_KEY_FRAME_BASE_SIZE then Some None
                                    else Some (Some (Msg_key \<lparr>key_description = d, key_information = info, key_length = klen,
                                           replay_counter = cnt, key_nonce = Some (drop 13 body), key_iv = Some (drop 45 body),
                                           key_rsc = Some (drop 61 body), key_mic = Some (drop 77 body),
                                           key_data_length = dlen, key_data = Some (drop 95 body)\<rparr>)) } } })"

definition eapol_parse_pdu_header :: "u8 list \<Rightarrow> u16 \<Rightarrow> eapol_pdu option option" where
  "eapol_parse_pdu_header ptr data_length =
     (if unat data_length < EAPOL_BASE_LENGTH then Some None
      else do { protocol \<leftarrow> load ptr 0;
                if protocol \<noteq> EAPOL_PROTOCOL_VERSION then Some None
                else do { ty \<leftarrow> load ptr 1;
                          plen \<leftarrow> read_be16 (drop 2 ptr);
                          if int (unat plen) > int (unat data_length) - int EAPOL_BASE_LENGTH then Some None
                          else do { m \<leftarrow> (if ty = EAPOL_EAP_TYPE then eapol_parse_eap_packet (drop 4 ptr) plen
                                         else if ty = EAPOL_KEY_TYPE then eapol_parse_key_packet (drop 4 ptr) plen
                                         else Some None);
                                    Some (map_option (\<lambda>m. \<lparr>packet_type = ty, packet_length = plen,
                                        packet_body = Some (drop 4 ptr), msg = m\<rparr>) m) } } })"

definition eapol_write_key_packet_mic :: "u8 list \<Rightarrow> u8 list option \<Rightarrow> u8 list option" where
  "eapol_write_key_packet_mic pdu mic =
     (case mic of Some mic \<Rightarrow> do { bs \<leftarrow> load_n mic 0 16; store_n pdu 81 bs }
      | None \<Rightarrow> store_n pdu 81 (replicate 16 0))"

text \<open>A field copied through its pointer, or zeros for the null pointer.\<close>

definition put_or_zero :: "cursor \<Rightarrow> u8 list option \<Rightarrow> nat \<Rightarrow> cursor option" where
  "put_or_zero ptr p n = (case p of Some p \<Rightarrow> do { bs \<leftarrow> load_n p 0 n; put_n ptr bs } | None \<Rightarrow> put_n ptr (replicate n 0))"

definition eapol_write_key_frame :: "cursor \<Rightarrow> eapol_key_frame \<Rightarrow> cursor option" where
  "eapol_write_key_frame ptr k =
     do { ptr \<leftarrow> put8 ptr (key_description k);
          ptr \<leftarrow> eapol_key_information_write (key_information k) ptr;
          ptr \<leftarrow> put_be16 ptr (key_length k);
          ptr \<leftarrow> put_be64 ptr (replay_counter k);
          ptr \<leftarrow> put_or_zero ptr (key_nonce k) 32;
          ptr \<leftarrow> put_or_zero ptr (key_iv k) 16;
          ptr \<leftarrow> put_or_zero ptr (key_rsc k) 8;
          ptr \<leftarrow> put_n ptr (replicate 8 0);
          ptr \<leftarrow> put_or_zero ptr (if key_mic_flag (key_information k) then key_mic k else None) 16;
          ptr \<leftarrow> put_be16 ptr (key_data_length k);
          (case key_data k of Some d \<Rightarrow>
             if key_data_length k \<noteq> 0 then do { bs \<leftarrow> load_n d 0 (unat (key_data_length k)); put_n ptr bs } else Some ptr
           | None \<Rightarrow> Some ptr) }"

text \<open>A copy of no byte at all does not look at its source pointer.\<close>

definition eapol_write_pdu_frame :: "cursor \<Rightarrow> eapol_pdu \<Rightarrow> cursor option" where
  "eapol_write_pdu_frame ptr p =
     do { ptr \<leftarrow> put8 ptr EAPOL_PROTOCOL_VERSION;
          ptr \<leftarrow> put8 ptr (packet_type p);
          ptr \<leftarrow> put_be16 ptr (packet_length p);
          let body = snd ptr;
          if packet_type p = EAPOL_EAP_TYPE then
            (case msg p of Msg_key _ \<Rightarrow> None
             | Msg_eap h \<Rightarrow>
                 do { ptr \<leftarrow> eap_header_build ptr (eap_length h) (eap_code h) (id_seq h) (eap_type h);
                      let n = int (unat (eap_length h)) - int (snd ptr - body);
                      if n < 0 then None
                      else if n = 0 then Some ptr
                      else do { d \<leftarrow> eap_data_ptr h; bs \<leftarrow> load_n d 0 (nat n); put_n ptr bs } })
          else if packet_type p = EAPOL_KEY_TYPE then
            (case msg p of Msg_key k \<Rightarrow> eapol_write_key_frame ptr k | Msg_eap _ \<Rightarrow> None)
          else Some ptr }"

definition eapol_pdu_total_length :: "eapol_pdu \<Rightarrow> u16" where
  "eapol_pdu_total_length p = packet_length p + word_of_nat EAPOL_BASE_LENGTH"

definition eapol_pdu_eap_frame_init :: "u8 \<Rightarrow> u8 \<Rightarrow> u8 \<Rightarrow> u16 \<Rightarrow> u8 list option \<Rightarrow> u16 \<times> eapol_pdu" where
  "eapol_pdu_eap_frame_init code seq_id ty data_length data_ptr =
     (let h = \<lparr>eap_length = data_length, eap_code = code, id_seq = seq_id, eap_type = ty, eap_data_ptr = data_ptr\<rparr>;
          p = \<lparr>packet_type = EAPOL_EAP_TYPE, packet_length = data_length, packet_body = None, msg = Msg_eap h\<rparr>;
          p = (if code = EAP_REQ \<or> code = EAP_RESPONSE
               then p\<lparr>msg := Msg_eap (h\<lparr>eap_length := eap_length h + 1\<rparr>), packet_length := packet_length p + 1\<rparr> else p)
      in (eapol_pdu_total_length p, p))"

definition eapol_pdu_key_frame_init :: "u16 \<Rightarrow> u8 list option \<Rightarrow> u16 \<times> eapol_pdu" where
  "eapol_pdu_key_frame_init data_length data_ptr =
     (let k = key_frame_zero\<lparr>key_data := data_ptr, key_description := EAPOL_RSN_KEY_DESCRIPTION, key_data_length := data_length,
            key_information := key_information_zero\<lparr>description_version := KEY_DESCRIPTION_HMAC_SHA1_MIC_AES_ENC\<rparr>\<rparr>;
          p = \<lparr>packet_type = EAPOL_KEY_TYPE, packet_length = data_length + word_of_nat EAPOL_KEY_FRAME_BASE_SIZE,
               packet_body = None, msg = Msg_key k\<rparr>
      in (eapol_pdu_total_length p, p))"

definition eapol_pdu_key_mask_get :: "eapol_key_frame \<Rightarrow> u8" where
  "eapol_pdu_key_mask_get k =
     (let m = 0;
          m = (if install (key_information k) then m OR KEY_INFO_INSTALL else m);
          m = (if key_ack (key_information k) then m OR KEY_INFO_KEY_ACK else m);
          m = (if key_mic_flag (key_information k) then m OR KEY_INFO_KEY_MIC else m)
      in if secured_key_frame (key_information k) then m OR KEY_INFO_SECURED_KEY_FRAME else m)"

section \<open>The bytes of a frame\<close>

fun field_bytes :: "u8 list option \<Rightarrow> nat \<Rightarrow> u8 list" where
  "field_bytes (Some p) n = take n p"
| "field_bytes None n = replicate n 0"

definition key_info_word :: "eapol_key_information \<Rightarrow> u16" where
  "key_info_word k = description_version k OR push_bit 3 (of_bool (pairwise_key k)) OR push_bit 6 (of_bool (install k)) OR
       push_bit 7 (of_bool (key_ack k)) OR push_bit 8 (of_bool (key_mic_flag k)) OR
       push_bit 9 (of_bool (secured_key_frame k)) OR push_bit 10 (of_bool (key_error k)) OR
       push_bit 11 (of_bool (key_request k)) OR push_bit 12 (of_bool (encrypted_key_data k)) OR
       push_bit 13 (of_bool (smk_handshake k))"

text \<open>The body of a key frame up to the key data, with a MIC field given.\<close>

definition key_frame_bytes :: "eapol_key_frame \<Rightarrow> u8 list \<Rightarrow> u8 list" where
  "key_frame_bytes k mic = key_description k # be_bytes 2 (unat (key_info_word (key_information k))) @
     be_bytes 2 (unat (key_length k)) @ be_bytes 8 (unat (replay_counter k)) @ field_bytes (key_nonce k) 32 @
     field_bytes (key_iv k) 16 @ field_bytes (key_rsc k) 8 @ replicate 8 0 @ mic @ be_bytes 2 (unat (key_data_length k))"

definition pdu_head :: "u8 \<Rightarrow> u16 \<Rightarrow> u8 list" where
  "pdu_head ty n = EAPOL_PROTOCOL_VERSION # ty # be_bytes 2 (unat n)"

definition key_frame_ok :: "eapol_key_frame \<Rightarrow> bool" where
  "key_frame_ok k \<longleftrightarrow> description_version (key_information k) < 8 \<and>
     (\<forall>(p, n) \<in> {(key_nonce k, 32), (key_iv k, 16), (key_rsc k, 8), (key_mic k, 16), (key_data k, unat (key_data_length k))}.
        \<forall>q. p = Some q \<longrightarrow> n \<le> length q)"

definition frame_mic :: "eapol_key_frame \<Rightarrow> u8 list" where
  "frame_mic k = field_bytes (if key_mic_flag (key_information k) then key_mic k else None) 16"

lemma put_or_zero_writes:
  "(\<And>q. p = Some q \<Longrightarrow> n \<le> length q) \<Longrightarrow> put_or_zero c p n = writes c (field_bytes p n)"
  by (cases p) (simp_all add: put_or_zero_def put_simps load_n_def)

lemma key_info_writes: "eapol_key_information_write k c = writes c (be_bytes 2 (unat (key_info_word k)))"
  by (simp add: eapol_key_information_write_def put_simps key_info_word_def)

lemma writes_some: "writes c bs \<bind> Some = writes c bs"
  by (cases "writes c bs") simp_all

lemma key_frame_writes:
  assumes "key_frame_ok k"
  shows "eapol_write_key_frame c k = writes c (key_frame_bytes k (frame_mic k) @
    (case key_data k of None \<Rightarrow> [] | Some d \<Rightarrow> take (unat (key_data_length k)) d))"
proof -
  have fields: "put_or_zero c (key_nonce k) 32 = writes c (field_bytes (key_nonce k) 32)"
    "put_or_zero c (key_iv k) 16 = writes c (field_bytes (key_iv k) 16)"
    "put_or_zero c (key_rsc k) 8 = writes c (field_bytes (key_rsc k) 8)"
    "put_or_zero c (if key_mic_flag (key_information k) then key_mic k else None) 16 = writes c (frame_mic k)" for c
    unfolding frame_mic_def using assms by (intro put_or_zero_writes; auto simp: key_frame_ok_def split: if_splits)+
  let ?tail = "\<lambda>c. case key_data k of Some d \<Rightarrow>
             if key_data_length k \<noteq> 0 then do { bs \<leftarrow> load_n d 0 (unat (key_data_length k)); put_n c bs } else Some c
           | None \<Rightarrow> Some c"
  show ?thesis
  proof (cases "key_data k = None \<or> key_data_length k = 0")
    case True
    then have "?tail = Some" by (auto intro!: ext split: option.splits)
    then show ?thesis using True
      by (auto simp: eapol_write_key_frame_def put_simps key_info_writes key_frame_bytes_def writes_some fields split: option.splits)
  next
    case False
    then obtain d where d: "key_data k = Some d" by auto
    then have "?tail = (\<lambda>c. writes c (take (unat (key_data_length k)) d))"
      using False assms by (auto simp: key_frame_ok_def load_n_def put_simps)
    then show ?thesis using d
      by (simp add: eapol_write_key_frame_def put_simps key_info_writes key_frame_bytes_def fields)
  qed
qed

lemma pdu_frame_writes:
  assumes "packet_type p = EAPOL_KEY_TYPE" and "msg p = Msg_key k" and "key_frame_ok k"
  shows "eapol_write_pdu_frame c p = writes c (pdu_head EAPOL_KEY_TYPE (packet_length p) @ key_frame_bytes k (frame_mic k) @
    (case key_data k of None \<Rightarrow> [] | Some d \<Rightarrow> take (unat (key_data_length k)) d))"
proof -
  have "packet_type p \<noteq> EAPOL_EAP_TYPE" using assms(1) by (simp add: eapol_consts)
  then show ?thesis
    using assms by (simp add: eapol_write_pdu_frame_def put_simps key_frame_writes pdu_head_def)
qed

section \<open>Reading a frame back\<close>

lemma test_bit: "drop_bit n w AND 1 \<noteq> 0 \<longleftrightarrow> bit (w :: 'a::len word) n"
  by (simp add: bit_iff_odd_drop_bit and_one_eq mod_2_eq_odd)

lemma key_info_round_trip:
  assumes "description_version k < 8"
  shows "eapol_key_information_read (be_bytes 2 (unat (key_info_word k)) @ r) = Some k"
proof -
  let ?w = "key_info_word k"
  have v: "take_bit 3 (description_version k) = description_version k"
    using assms by (intro word_unat_eq_iff [THEN iffD2]) (simp add: unsigned_take_bit_eq take_bit_nat_eq_self word_less_nat_alt)
  have nb: "\<not> bit (description_version k) i" if "3 \<le> i" for i
    using that v by (metis bit_take_bit_iff not_le)
  have "?w AND 7 = take_bit 3 ?w" by (simp add: take_bit_eq_mask mask_eq_exp_minus_1)
  also have "\<dots> = description_version k" by (simp add: key_info_word_def v take_bit_push_bit)
  finally have dv: "?w AND 7 = description_version k" .
  have "bit ?w 3 = pairwise_key k" "bit ?w 6 = install k" "bit ?w 7 = key_ack k" "bit ?w 8 = key_mic_flag k"
    "bit ?w 9 = secured_key_frame k" "bit ?w 10 = key_error k" "bit ?w 11 = key_request k" "bit ?w 12 = encrypted_key_data k"
    "bit ?w 13 = smk_handshake k"
    by (simp_all add: key_info_word_def bit_or_iff bit_push_bit_iff nb)
  then show ?thesis
    by (simp add: eapol_key_information_read_def read_be_append dv test_bit)
qed

lemma length_field_bytes: "(\<And>q. p = Some q \<Longrightarrow> n \<le> length q) \<Longrightarrow> length (field_bytes p n) = n"
  by (cases p) auto

lemma field_lengths:
  assumes "key_frame_ok k"
  shows "length (field_bytes (key_nonce k) 32) = 32" "length (field_bytes (key_iv k) 16) = 16"
    "length (field_bytes (key_rsc k) 8) = 8" "length (frame_mic k) = 16"
  unfolding frame_mic_def using assms by (intro length_field_bytes; auto simp: key_frame_ok_def split: if_splits)+

lemma length_key_frame_bytes: "key_frame_ok k \<Longrightarrow> length (key_frame_bytes k mic) = 79 + length mic"
  by (simp add: key_frame_bytes_def field_lengths)

text \<open>Where the fields of a key frame are.\<close>

lemma key_frame_offsets:
  fixes r :: "u8 list"
  assumes "key_frame_ok k" and "length mic = 16"
  defines "body \<equiv> key_frame_bytes k mic @ r"
  shows "body ! 0 = key_description k"
    and "\<exists>s. drop 1 body = be_bytes 2 (unat (key_info_word (key_information k))) @ s"
    and "\<exists>s. drop 3 body = be_bytes 2 (unat (key_length k)) @ s"
    and "\<exists>s. drop 5 body = be_bytes 8 (unat (replay_counter k)) @ s"
    and "\<exists>s. drop 13 body = field_bytes (key_nonce k) 32 @ s"
    and "\<exists>s. drop 45 body = field_bytes (key_iv k) 16 @ s"
    and "\<exists>s. drop 61 body = field_bytes (key_rsc k) 8 @ s"
    and "\<exists>s. drop 77 body = mic @ s"
    and "drop 93 body = be_bytes 2 (unat (key_data_length k)) @ r"
    and "drop 95 body = r"
  using assms(2) field_lengths [OF assms(1)] by (simp_all add: body_def key_frame_bytes_def)

text \<open>A frame received agrees with the frame sent: the same numbers and flags, and pointers to the bytes of the fields.\<close>

definition points_to :: "u8 list option \<Rightarrow> u8 list \<Rightarrow> bool" where
  "points_to p bs \<longleftrightarrow> (\<exists>s. p = Some (bs @ s))"

definition frame_agrees :: "eapol_key_frame \<Rightarrow> u8 list \<Rightarrow> u8 list \<Rightarrow> eapol_key_frame \<Rightarrow> bool" where
  "frame_agrees k mic data k' \<longleftrightarrow> key_description k' = key_description k \<and> key_information k' = key_information k \<and>
     key_length k' = key_length k \<and> replay_counter k' = replay_counter k \<and> key_data_length k' = key_data_length k \<and>
     points_to (key_nonce k') (field_bytes (key_nonce k) 32) \<and> points_to (key_iv k') (field_bytes (key_iv k) 16) \<and>
     points_to (key_rsc k') (field_bytes (key_rsc k) 8) \<and> points_to (key_mic k') mic \<and> points_to (key_data k') data"

lemma key_packet_parse:
  assumes "key_frame_ok k" and "length mic = 16" and "key_description k = EAPOL_RSN_KEY_DESCRIPTION"
    and "description_version (key_information k) = KEY_DESCRIPTION_HMAC_SHA1_MIC_AES_ENC"
    and "unat plen = 95 + unat (key_data_length k)" and "length data = unat (key_data_length k)"
  shows "\<exists>k'. eapol_parse_key_packet (key_frame_bytes k mic @ data @ r) plen = Some (Some (Msg_key k')) \<and>
    frame_agrees k mic data k'"
proof -
  let ?b = "key_frame_bytes k mic @ data @ r"
  note off = key_frame_offsets [OF assms(1,2), of "data @ r"]
  have v: "description_version (key_information k) < 8" using assms(1) by (simp add: key_frame_ok_def)
  have i: "eapol_key_information_read (drop 1 ?b) = Some (key_information k)"
    using off(2) key_info_round_trip [OF v] by (metis)
  have l: "read_be16 (drop 3 ?b) = Some (key_length k)" using off(3) read_be_append(1) by metis
  have c: "read_be64 (drop 5 ?b) = Some (replay_counter k)" using off(4) read_be_append(3) by metis
  have d: "read_be16 (drop 93 ?b) = Some (key_data_length k)" unfolding off(9) by (rule read_be_append(1))
  have "load ?b 0 = Some (key_description k)" using off(1) by (simp add: load_def key_frame_bytes_def)
  then have "eapol_parse_key_packet ?b plen = Some (Some (Msg_key \<lparr>key_description = key_description k,
       key_information = key_information k, key_length = key_length k, replay_counter = replay_counter k,
       key_nonce = Some (drop 13 ?b), key_iv = Some (drop 45 ?b), key_rsc = Some (drop 61 ?b), key_mic = Some (drop 77 ?b),
       key_data_length = key_data_length k, key_data = Some (drop 95 ?b)\<rparr>))"
    using assms(3,4,5) i l c d by (simp add: eapol_parse_key_packet_def EAPOL_KEY_FRAME_BASE_SIZE_def)
  then show ?thesis
    using off(5-8,10) by (auto simp: frame_agrees_def points_to_def)
qed

lemma pdu_header_parse:
  assumes "unat n + 4 \<le> unat len"
  shows "eapol_parse_pdu_header (pdu_head ty n @ body) len =
    do { m \<leftarrow> (if ty = EAPOL_EAP_TYPE then eapol_parse_eap_packet body n
              else if ty = EAPOL_KEY_TYPE then eapol_parse_key_packet body n else Some None);
         Some (map_option (\<lambda>m. \<lparr>packet_type = ty, packet_length = n, packet_body = Some body, msg = m\<rparr>) m) }"
proof -
  define q where "q = pdu_head ty n @ body"
  have q: "drop 4 q = body" "drop 2 q = be_bytes 2 (unat n) @ body" "load q 0 = Some EAPOL_PROTOCOL_VERSION" "load q 1 = Some ty"
    by (simp_all add: q_def pdu_head_def load_def)
  have fits: "\<not> int (unat n) > int (unat len) - int EAPOL_BASE_LENGTH" "\<not> unat len < EAPOL_BASE_LENGTH"
    using assms unfolding EAPOL_BASE_LENGTH_def by linarith+
  show ?thesis
    unfolding q_def [symmetric] eapol_parse_pdu_header_def q read_be_append bind.bind_lunit using fits by (simp only: if_False simp_thms)
qed

lemma key_pdu_parse:
  assumes "key_frame_ok k" and "length mic = 16" and "key_description k = EAPOL_RSN_KEY_DESCRIPTION"
    and "description_version (key_information k) = KEY_DESCRIPTION_HMAC_SHA1_MIC_AES_ENC"
    and "unat plen = 95 + unat (key_data_length k)" and "length data = unat (key_data_length k)" and "unat plen + 4 \<le> unat len"
  shows "\<exists>p k'. eapol_parse_pdu_header (pdu_head EAPOL_KEY_TYPE plen @ key_frame_bytes k mic @ data @ r) len = Some (Some p) \<and>
    packet_type p = EAPOL_KEY_TYPE \<and> packet_length p = plen \<and> msg p = Msg_key k' \<and> frame_agrees k mic data k'"
  using key_packet_parse [OF assms(1-6), of r] pdu_header_parse [OF assms(7), of EAPOL_KEY_TYPE]
  by (auto simp: eapol_consts)

section \<open>Properties\<close>

text \<open>
  C20. A key frame that was written, its key data included, is parsed back: the same description, key
  information, key length, replay counter and key data length, and pointers to the bytes of the nonce, IV, RSC,
  MIC (zeros where a pointer was null or the MIC flag not set) and key data.
\<close>

theorem eapol_key_round_trip:
  assumes "packet_type p = EAPOL_KEY_TYPE" and "msg p = Msg_key k" and "key_frame_ok k"
    and "key_description k = EAPOL_RSN_KEY_DESCRIPTION"
    and "description_version (key_information k) = KEY_DESCRIPTION_HMAC_SHA1_MIC_AES_ENC"
    and "key_data k = Some d" and "unat (packet_length p) = 95 + unat (key_data_length k)"
    and "unat (packet_length p) + 4 < 65536" and "off + unat (eapol_pdu_total_length p) \<le> length m"
  shows "\<exists>m' p' k'. eapol_write_pdu_frame (m, off) p = Some (m', off + unat (eapol_pdu_total_length p)) \<and>
    eapol_parse_pdu_header (drop off m') (eapol_pdu_total_length p) = Some (Some p') \<and> msg p' = Msg_key k' \<and>
    frame_agrees k (frame_mic k) (take (unat (key_data_length k)) d) k'"
proof -
  let ?data = "take (unat (key_data_length k)) d"
  let ?bs = "pdu_head EAPOL_KEY_TYPE (packet_length p) @ key_frame_bytes k (frame_mic k) @ ?data"
  have "unat (4 :: u16) = 4" by simp
  then have tl: "unat (eapol_pdu_total_length p) = unat (packet_length p) + 4"
    using assms(8) by (simp add: eapol_pdu_total_length_def EAPOL_BASE_LENGTH_def unat_add_nowrap)
  have dl: "length ?data = unat (key_data_length k)" using assms(3,6) by (auto simp: key_frame_ok_def)
  then have len: "length ?bs = unat (packet_length p) + 4"
    using field_lengths(4) [OF assms(3)] assms(7) by (simp add: pdu_head_def length_key_frame_bytes [OF assms(3)])
  have w: "eapol_write_pdu_frame (m, off) p = Some (take off m @ ?bs @ drop (off + length ?bs) m, off + length ?bs)"
    using pdu_frame_writes [OF assms(1,2,3), of "(m, off)"] assms(6,9) writes_in [of off ?bs m] len tl by simp
  have "drop off (take off m @ ?bs @ drop (off + length ?bs) m) = pdu_head EAPOL_KEY_TYPE (packet_length p) @
      key_frame_bytes k (frame_mic k) @ ?data @ drop (off + length ?bs) m"
    using assms(9) by simp
  moreover obtain p' k' where "eapol_parse_pdu_header (pdu_head EAPOL_KEY_TYPE (packet_length p) @
      key_frame_bytes k (frame_mic k) @ ?data @ drop (off + length ?bs) m) (eapol_pdu_total_length p) = Some (Some p')"
      "msg p' = Msg_key k'" "frame_agrees k (frame_mic k) ?data k'"
    using key_pdu_parse [OF assms(3) field_lengths(4) [OF assms(3)] assms(4,5,7) dl, of "eapol_pdu_total_length p"
        "drop (off + length ?bs) m"] tl by (auto simp del: length_append)
  ultimately show ?thesis using w len tl by (auto simp del: length_append)
qed

theorem eapol_key_round_trip_witness:
  "\<exists>m' p' k'. eapol_write_pdu_frame (replicate 110 0, 1) (snd (eapol_pdu_key_frame_init 2 (Some [7, 8]))) = Some (m', 102) \<and>
    eapol_parse_pdu_header (drop 1 m') 101 = Some (Some p') \<and> msg p' = Msg_key k' \<and> points_to (key_data k') [7, 8]"
proof -
  define p where "p = snd (eapol_pdu_key_frame_init 2 (Some [7, 8]))"
  define k where "k = key_frame_zero\<lparr>key_data := Some [7, 8], key_description := EAPOL_RSN_KEY_DESCRIPTION, key_data_length := 2,
            key_information := key_information_zero\<lparr>description_version := KEY_DESCRIPTION_HMAC_SHA1_MIC_AES_ENC\<rparr>\<rparr>"
  have p: "packet_type p = EAPOL_KEY_TYPE" "msg p = Msg_key k" "packet_length p = 97" "eapol_pdu_total_length p = 101"
    by (simp_all add: p_def k_def eapol_pdu_key_frame_init_def eapol_pdu_total_length_def eapol_consts)
  have k: "key_frame_ok k" "key_description k = EAPOL_RSN_KEY_DESCRIPTION" "key_data k = Some [7, 8]" "key_data_length k = 2"
    "description_version (key_information k) = KEY_DESCRIPTION_HMAC_SHA1_MIC_AES_ENC"
    by (simp_all add: k_def key_frame_ok_def key_frame_zero_def key_information_zero_def eapol_consts)
  show ?thesis
    using eapol_key_round_trip [OF p(1,2) k(1,2,5,3), of 1 "replicate 110 0"] p(3,4) k(4)
    by (auto simp: frame_agrees_def p_def [symmetric])
qed

text \<open>The pointer covers \<open>n\<close> bytes.\<close>

definition covers_ptr :: "u8 list option \<Rightarrow> nat \<Rightarrow> bool" where
  "covers_ptr p n \<longleftrightarrow> (\<exists>q. p = Some q \<and> n \<le> length q)"

lemma key_info_read_total: "2 \<le> length p \<Longrightarrow> \<exists>i. eapol_key_information_read p = Some i"
  by (simp add: eapol_key_information_read_def read_be_eq)

lemma key_packet_safe:
  assumes "unat plen \<le> length body"
  shows "\<exists>r. eapol_parse_key_packet body plen = Some r \<and> (\<forall>m. r = Some m \<longrightarrow> (\<exists>k. m = Msg_key k \<and>
    covers_ptr (key_nonce k) 32 \<and> covers_ptr (key_iv k) 16 \<and> covers_ptr (key_rsc k) 8 \<and> covers_ptr (key_mic k) 16 \<and>
    covers_ptr (key_data k) (unat (key_data_length k)) \<and> 95 + unat (key_data_length k) \<le> unat plen))"
proof (cases "unat plen < 95")
  case False
  then have len: "95 \<le> length body" using assms by simp
  then have "2 \<le> length (drop 1 body)" by simp
  from key_info_read_total [OF this] obtain i where i: "eapol_key_information_read (drop 1 body) = Some i" by blast
  obtain l where l: "read_be16 (drop 3 body) = Some l" using read_be_eq(1) [of "drop 3 body"] len by auto
  obtain c where c: "read_be64 (drop 5 body) = Some c" using read_be_eq(3) [of "drop 5 body"] len by auto
  obtain d where d: "read_be16 (drop 93 body) = Some d" using read_be_eq(1) [of "drop 93 body"] len by auto
  have ld: "load body 0 = Some (body ! 0)" using len by (auto simp: load_def)
  have fits: "int (unat d) \<le> int (unat plen) - 95 \<longleftrightarrow> 95 + unat d \<le> unat plen" using False by linarith
  show ?thesis
    using False len assms i l c d ld fits
    by (auto simp: eapol_parse_key_packet_def EAPOL_KEY_FRAME_BASE_SIZE_def covers_ptr_def not_less simp del: of_nat_unat)
qed (simp add: eapol_parse_key_packet_def EAPOL_KEY_FRAME_BASE_SIZE_def)

lemma eap_header_parse_safe:
  assumes "unat len \<le> length body"
  shows "\<exists>r. eap_header_parse body len = Some r \<and> (\<forall>h. r = Some h \<longrightarrow> eap_length h = len \<and>
    eap_header_size (eap_code h) \<le> unat len \<and> covers_ptr (eap_data_ptr h) (unat len - eap_header_size (eap_code h)))"
proof (cases "len < 4")
  case False
  then have n: "4 \<le> unat len" by (simp add: word_less_nat_alt)
  then have ld: "load body 0 = Some (body ! 0)" "load body 1 = Some (body ! 1)"
    "read_be16 (drop 2 body) = Some (word_of_nat (be_val (take 2 (drop 2 body))))"
    using assms by (auto simp: load_def read_be_eq)
  have five: "5 \<le> unat len \<Longrightarrow> load body 4 = Some (body ! 4)" using assms by (auto simp: load_def)
  define l where "l = (word_of_nat (be_val (take 2 (drop 2 body))) :: u16)"
  have same: "l < len \<or> l > len \<longleftrightarrow> l \<noteq> len" by auto
  show ?thesis
  proof (cases "l = len")
    case True
    then have "len < 5 \<longleftrightarrow> unat len = 4" "len \<noteq> 4 \<longleftrightarrow> unat len \<noteq> 4"
      using n by (auto simp: word_less_nat_alt word_unat_eq_iff)
    then show ?thesis
      using False n ld five assms True unfolding l_def [symmetric]
      by (auto simp: eap_header_parse_def eap_header_size_def covers_ptr_def Let_def eap_consts)
  next
    case ne: False
    then show ?thesis using False ld same unfolding l_def [symmetric] by (auto simp: eap_header_parse_def)
  qed
qed (simp add: eap_header_parse_def)

text \<open>
  C21. Parsing a received EAPOL frame is total and memory safe, whatever its bytes. A frame that is accepted fits into the
  data received, its message is an EAP packet or a key frame according to its type, and every pointer handed out covers
  the bytes its users read: nonce, IV, RSC, MIC, and the key data or EAP data with their announced lengths.
\<close>

theorem eapol_parse_safe:
  assumes "unat len \<le> length ptr"
  shows "\<exists>r. eapol_parse_pdu_header ptr len = Some r \<and> (\<forall>p. r = Some p \<longrightarrow> unat (packet_length p) + 4 \<le> unat len \<and>
    (case msg p of
       Msg_key k \<Rightarrow> packet_type p = EAPOL_KEY_TYPE \<and> covers_ptr (key_nonce k) 32 \<and> covers_ptr (key_iv k) 16 \<and>
         covers_ptr (key_rsc k) 8 \<and> covers_ptr (key_mic k) 16 \<and> covers_ptr (key_data k) (unat (key_data_length k)) \<and>
         95 + unat (key_data_length k) \<le> unat (packet_length p)
     | Msg_eap h \<Rightarrow> packet_type p = EAPOL_EAP_TYPE \<and> eap_length h = packet_length p \<and>
         covers_ptr (eap_data_ptr h) (unat (packet_length p) - eap_header_size (eap_code h))))"
proof (cases "unat len < 4")
  case False
  define n where "n = (word_of_nat (be_val (take 2 (drop 2 ptr))) :: u16)"
  have ld: "load ptr 0 = Some (ptr ! 0)" "load ptr 1 = Some (ptr ! 1)" "read_be16 (drop 2 ptr) = Some n"
    using False assms by (auto simp: load_def read_be_eq n_def)
  have fits: "int (unat n) > int (unat len) - 4 \<longleftrightarrow> \<not> unat n + 4 \<le> unat len" using False by linarith
  have body: "unat n \<le> length (drop 4 ptr)" if "unat n + 4 \<le> unat len" using that assms by simp
  show ?thesis
  proof (cases "ptr ! 0 = EAPOL_PROTOCOL_VERSION \<and> unat n + 4 \<le> unat len")
    case True
    then have e: "eapol_parse_pdu_header ptr len =
      do { m \<leftarrow> (if ptr ! 1 = EAPOL_EAP_TYPE then eapol_parse_eap_packet (drop 4 ptr) n
                else if ptr ! 1 = EAPOL_KEY_TYPE then eapol_parse_key_packet (drop 4 ptr) n else Some None);
           Some (map_option (\<lambda>m. \<lparr>packet_type = ptr ! 1, packet_length = n, packet_body = Some (drop 4 ptr), msg = m\<rparr>) m) }"
      using False ld fits by (simp add: eapol_parse_pdu_header_def EAPOL_BASE_LENGTH_def del: of_nat_unat)
    have ne: "EAPOL_EAP_TYPE \<noteq> EAPOL_KEY_TYPE" by (simp add: eapol_consts)
    show ?thesis
      using key_packet_safe [OF body] eap_header_parse_safe [OF body] True ne
      by (auto simp: e eapol_parse_eap_packet_def split: eapol_msg.splits)
  next
    case bad: False
    then have "eapol_parse_pdu_header ptr len = Some None"
      using False ld fits by (auto simp: eapol_parse_pdu_header_def EAPOL_BASE_LENGTH_def simp del: of_nat_unat)
    then show ?thesis by simp
  qed
qed (simp add: eapol_parse_pdu_header_def EAPOL_BASE_LENGTH_def)

theorem eapol_parse_safe_witness:
  "\<exists>r. eapol_parse_pdu_header [3, 0, 0, 4, 3, 7, 0, 4] 8 = Some r"
  using eapol_parse_safe [of 8 "[3, 0, 0, 4, 3, 7, 0, 4]"] by auto

text \<open>The bytes of an EAP packet.\<close>

definition eap_bytes :: "u8 \<Rightarrow> u8 \<Rightarrow> u8 \<Rightarrow> u16 \<Rightarrow> u8 list \<Rightarrow> u8 list" where
  "eap_bytes code seq_id ty n d = [code, seq_id] @ be_bytes 2 (unat n) @ (if code = EAP_REQ \<or> code = EAP_RESPONSE then [ty] else []) @ d"

lemma length_eap_bytes: "length (eap_bytes code seq_id ty n d) = eap_header_size code + length d"
  by (simp add: eap_bytes_def eap_header_size_def)

lemma eap_header_writes:
  "eap_header_build c n code seq_id ty = writes c (eap_bytes code seq_id ty n [])"
  by (auto simp: eap_header_build_def put_simps eap_bytes_def writes_some)

lemma eap_pdu_writes:
  assumes "unat n = eap_header_size code + length d"
  shows "eapol_write_pdu_frame (m, off) \<lparr>packet_type = EAPOL_EAP_TYPE, packet_length = plen, packet_body = b,
      msg = Msg_eap \<lparr>eap_length = n, eap_code = code, id_seq = seq_id, eap_type = ty, eap_data_ptr = Some d\<rparr>\<rparr> =
    writes (m, off) (pdu_head EAPOL_EAP_TYPE plen @ eap_bytes code seq_id ty n d)"
proof -
  let ?h = "pdu_head EAPOL_EAP_TYPE plen" and ?e = "eap_bytes code seq_id ty n []"
  have e: "eap_bytes code seq_id ty n d = ?e @ d" by (simp add: eap_bytes_def)
  have le: "length ?e = eap_header_size code" "unat n = length ?e + length d" using assms by (simp_all add: length_eap_bytes)
  have head: "put8 c EAPOL_PROTOCOL_VERSION \<bind> (\<lambda>c. put8 c EAPOL_EAP_TYPE \<bind> (\<lambda>c. put_be16 c plen \<bind> g)) =
      writes c ?h \<bind> g" for c g
    unfolding put_simps writes_bind_then pdu_head_def by simp
  have tail: "(let b = snd c in eap_header_build c n code seq_id ty \<bind> (\<lambda>ptr. let k = int (unat n) - int (snd ptr - b) in
        if k < 0 then None else if k = 0 then Some ptr else load_n d 0 (nat k) \<bind> put_n ptr)) = writes c (?e @ d)" for c
  proof (cases "writes c ?e")
    case None
    then show ?thesis by (simp add: eap_header_writes writes_bind [symmetric])
  next
    case (Some c')
    then have "snd c' - snd c = length ?e" by (auto simp: writes_def)
    then have k: "int (unat n) - int (snd c' - snd c) = int (length d)" using le(2) by simp
    have "writes c (?e @ d) = writes c' d" using Some by (simp add: writes_bind [symmetric])
    moreover have "d = [] \<Longrightarrow> writes c' d = Some c'" using writes_le [OF Some] by (simp add: writes_nil)
    ultimately show ?thesis unfolding Let_def eap_header_writes using Some k by (simp add: load_n_def put_simps)
  qed
  have "eapol_write_pdu_frame (m, off) \<lparr>packet_type = EAPOL_EAP_TYPE, packet_length = plen, packet_body = b,
      msg = Msg_eap \<lparr>eap_length = n, eap_code = code, id_seq = seq_id, eap_type = ty, eap_data_ptr = Some d\<rparr>\<rparr> =
    writes (m, off) ?h \<bind> (\<lambda>c. writes c (?e @ d))"
    unfolding tail [symmetric] head [symmetric] eapol_write_pdu_frame_def by (simp cong: if_cong)
  then show ?thesis by (simp only: writes_bind e)
qed

lemma eap_packet_parse:
  assumes "unat n = eap_header_size code + length d" and "code \<in> {EAP_REQ, EAP_RESPONSE} \<or> (code \<in> {EAP_SUCCESS, EAP_FAILURE} \<and> d = [])"
  shows "eap_header_parse (eap_bytes code seq_id ty n d @ r) n = Some (Some \<lparr>eap_length = n, eap_code = code, id_seq = seq_id,
    eap_type = (if code = EAP_REQ \<or> code = EAP_RESPONSE then ty else 0), eap_data_ptr = Some (d @ r)\<rparr>)"
proof -
  define b where "b = eap_bytes code seq_id ty n d @ r"
  have ld: "load b 0 = Some code" "load b 1 = Some seq_id"
    "drop 2 b = be_bytes 2 (unat n) @ drop 4 b" by (simp_all add: b_def eap_bytes_def load_def)
  have rd: "read_be16 (drop 2 b) = Some n" using ld(3) by (simp add: read_be_append)
  have n4: "\<not> n < 4" using assms(1) by (auto simp: word_less_nat_alt eap_header_size_def)
  show ?thesis
  proof (cases "code = EAP_REQ \<or> code = EAP_RESPONSE")
    case True
    then have "load b 4 = Some ty" "drop 5 b = d @ r" by (auto simp: b_def eap_bytes_def load_def nth_append)
    moreover have "\<not> n < 5" using assms(1) True by (simp add: word_less_nat_alt eap_header_size_def)
    ultimately show ?thesis
      using True ld(1,2) rd n4 unfolding b_def [symmetric] by (auto simp: eap_header_parse_def)
  next
    case False
    then have "d = []" "drop 4 b = r" "n = 4" "code = EAP_SUCCESS \<or> code = EAP_FAILURE"
      using assms by (auto simp: b_def eap_bytes_def eap_header_size_def word_unat_eq_iff)
    then show ?thesis
      using False ld(1,2) rd n4 unfolding b_def [symmetric] by (auto simp: eap_header_parse_def Let_def)
  qed
qed

text \<open>
  An EAP packet (request or response with data, success or failure) built with \<open>eapol_pdu_eap_frame_init\<close> takes the
  length announced, and is parsed back with its code, identifier, type and data.
\<close>

theorem eap_round_trip:
  assumes "code \<in> {EAP_REQ, EAP_RESPONSE} \<or> (code \<in> {EAP_SUCCESS, EAP_FAILURE} \<and> d = [])"
    and "eapol_pdu_eap_frame_init code seq_id ty n (Some d) = (total_len, p)" and "unat n = 4 + length d"
    and "length d < 65000" and "off + unat total_len \<le> length m"
  shows "\<exists>m' p' h. eapol_write_pdu_frame (m, off) p = Some (m', off + unat total_len) \<and>
    eapol_parse_pdu_header (drop off m') total_len = Some (Some p') \<and> msg p' = Msg_eap h \<and> eap_code h = code \<and> id_seq h = seq_id \<and>
    eap_type h = (if code = EAP_REQ \<or> code = EAP_RESPONSE then ty else 0) \<and> points_to (eap_data_ptr h) d"
proof -
  define k where "k = (if code = EAP_REQ \<or> code = EAP_RESPONSE then n + 1 else n)"
  have k: "unat k = eap_header_size code + length d"
    using assms(3,4) by (auto simp: k_def eap_header_size_def unat_add_nowrap)
  have p: "p = \<lparr>packet_type = EAPOL_EAP_TYPE, packet_length = k, packet_body = None,
      msg = Msg_eap \<lparr>eap_length = k, eap_code = code, id_seq = seq_id, eap_type = ty, eap_data_ptr = Some d\<rparr>\<rparr>"
    using assms(2) by (auto simp: eapol_pdu_eap_frame_init_def k_def Let_def split: if_splits)
  have "total_len = k + 4"
    using assms(2) p by (auto simp: eapol_pdu_eap_frame_init_def eapol_pdu_total_length_def EAPOL_BASE_LENGTH_def Let_def)
  moreover have "unat k + 4 < 65536" using k assms(4) by (simp add: eap_header_size_def)
  ultimately have tl: "unat total_len = unat k + 4" by (simp add: unat_add_nowrap)
  let ?bs = "pdu_head EAPOL_EAP_TYPE k @ eap_bytes code seq_id ty k d"
  have len: "length ?bs = unat total_len" using tl k by (simp add: pdu_head_def length_eap_bytes)
  have w: "eapol_write_pdu_frame (m, off) p = Some (take off m @ ?bs @ drop (off + length ?bs) m, off + length ?bs)"
    unfolding p eap_pdu_writes [OF k] using assms(5) len by (intro writes_in) simp
  have "drop off (take off m @ ?bs @ drop (off + length ?bs) m) = pdu_head EAPOL_EAP_TYPE k @
      eap_bytes code seq_id ty k d @ drop (off + length ?bs) m" using assms(5) by simp
  moreover have "unat k + 4 \<le> unat total_len" using tl by simp
  ultimately show ?thesis
    using w len eap_packet_parse [OF k assms(1)]
    by (auto simp: pdu_header_parse eapol_parse_eap_packet_def points_to_def simp del: length_append)
qed

theorem eap_round_trip_witness:
  "\<exists>m' p' h. eapol_write_pdu_frame (replicate 20 0, 0) (snd (eapol_pdu_eap_frame_init EAP_REQ 9 13 6 (Some [1, 2]))) = Some (m', 11) \<and>
    eapol_parse_pdu_header m' 11 = Some (Some p') \<and> msg p' = Msg_eap h \<and> eap_type h = 13"
proof -
  have "eapol_pdu_eap_frame_init EAP_REQ 9 13 6 (Some [1, 2]) = (11, snd (eapol_pdu_eap_frame_init EAP_REQ 9 13 6 (Some [1, 2])))"
    by (simp add: eapol_pdu_eap_frame_init_def eapol_pdu_total_length_def EAPOL_BASE_LENGTH_def)
  from eap_round_trip [OF _ this, of 0 "replicate 20 0"] show ?thesis by auto
qed

end
