(* ===== verification/SecLib.thy ===== *)
theory SecLib
  imports Crypto Kde Eapol SecKeys Trickle
begin

text \<open>
  \<open>src/stack/source/security/protocols/sec_prot_lib.c\<close>: what the key management protocols share. The common
  state machine and timers, the derivation of the pairwise key and of the key identifiers, and the building, checking
  and reading of EAPOL-Key messages.

  A protocol instance is a record; the calls it makes to the KMP layer (\<open>prot->send\<close>, \<open>prot->finished\<close> ...)
  are appended to \<open>sp_out\<close>, in order. They do not enter the protocol again: \<open>state_machine_call\<close> only posts an event. The
  pointer \<open>prot->state_machine\<close> is the argument \<open>sm\<close>. Records that extend \<open>sec_prot\<close> are the instances of the protocols.
\<close>

section \<open>Common state machine and timers\<close>

text \<open>The enumeration gives \<open>SEC_RESULT_IGNORE\<close> no value of its own: it is one more than \<open>-6\<close>, the value of \<open>SEC_RESULT_ERROR\<close>.\<close>

type_synonym sec_prot_result_e = int

definition SEC_RESULT_OK :: sec_prot_result_e where "SEC_RESULT_OK = 0"
definition SEC_RESULT_ERR_NO_MEM :: sec_prot_result_e where "SEC_RESULT_ERR_NO_MEM = -1"
definition SEC_RESULT_ERR_TX_NO_ACK :: sec_prot_result_e where "SEC_RESULT_ERR_TX_NO_ACK = -2"
definition SEC_RESULT_ERR_TX_UNSPEC :: sec_prot_result_e where "SEC_RESULT_ERR_TX_UNSPEC = -3"
definition SEC_RESULT_TIMEOUT :: sec_prot_result_e where "SEC_RESULT_TIMEOUT = -4"
definition SEC_RESULT_ERROR :: sec_prot_result_e where "SEC_RESULT_ERROR = -5"
definition SEC_RESULT_CONF_ERROR :: sec_prot_result_e where "SEC_RESULT_CONF_ERROR = -6"
definition SEC_RESULT_IGNORE :: sec_prot_result_e where "SEC_RESULT_IGNORE = SEC_RESULT_CONF_ERROR + 1"

lemma sec_results [simp]: "SEC_RESULT_OK \<noteq> SEC_RESULT_TIMEOUT" "SEC_RESULT_TIMEOUT \<noteq> SEC_RESULT_OK"
  by (simp_all add: SEC_RESULT_OK_def SEC_RESULT_TIMEOUT_def)

definition SEC_STATE_INIT :: nat where "SEC_STATE_INIT = 0"
definition SEC_STATE_CREATE_REQ :: nat where "SEC_STATE_CREATE_REQ = 1"
definition SEC_STATE_CREATE_RESP :: nat where "SEC_STATE_CREATE_RESP = 2"
definition SEC_STATE_CREATE_IND :: nat where "SEC_STATE_CREATE_IND = 3"
definition SEC_STATE_FINISH :: nat where "SEC_STATE_FINISH = 4"
definition SEC_STATE_FINISHED :: nat where "SEC_STATE_FINISHED = 5"
definition SEC_STATE_FIRST :: nat where "SEC_STATE_FIRST = 6"

lemmas sec_states = SEC_STATE_INIT_def SEC_STATE_CREATE_REQ_def SEC_STATE_CREATE_RESP_def SEC_STATE_CREATE_IND_def
  SEC_STATE_FINISH_def SEC_STATE_FINISHED_def SEC_STATE_FIRST_def

definition SEC_TOTAL_TIMEOUT :: u16 where "SEC_TOTAL_TIMEOUT = 30 * 60 * 10"
definition SEC_INIT_TIMEOUT :: u16 where "SEC_INIT_TIMEOUT = 60 * 10"
definition SEC_FINISHED_TIMEOUT :: u16 where "SEC_FINISHED_TIMEOUT = 5 * 10"

record sec_prot_common =
  sc_trickle :: trickle
  sc_ticks :: u16
  sc_state :: nat
  sc_result :: sec_prot_result_e
  sc_trickle_running :: bool

datatype prot_event = Send "u8 list" | Create_conf sec_prot_result_e | Create_ind | Finished_ind sec_prot_result_e | Finished |
  Timer_start | Timer_stop | Receive_disable | State_machine_call

text \<open>
  \<open>sp_completed\<close> is the answer the application gives to \<open>finished_ind\<close>, \<open>sp_rolls\<close> what the random device
  delivers, as for the Trickle timers.
\<close>

record sec_prot =
  sp_common :: sec_prot_common
  sp_header_size :: u8
  sp_completed :: bool
  sp_rolls :: "u32 list"
  sp_out :: "prot_event list"

abbreviation upd_common :: "(sec_prot_common \<Rightarrow> sec_prot_common) \<Rightarrow> 'a sec_prot_scheme \<Rightarrow> 'a sec_prot_scheme" where
  "upd_common f p \<equiv> p\<lparr>sp_common := f (sp_common p)\<rparr>"

definition emit :: "prot_event \<Rightarrow> 'a sec_prot_scheme \<Rightarrow> 'a sec_prot_scheme" where
  "emit e p = p\<lparr>sp_out := sp_out p @ [e]\<rparr>"

definition sec_prot_init :: "sec_prot_common \<Rightarrow> sec_prot_common" where
  "sec_prot_init d = d\<lparr>sc_state := SEC_STATE_INIT, sc_result := SEC_RESULT_OK, sc_ticks := SEC_INIT_TIMEOUT,
     sc_trickle_running := False\<rparr>"

definition sec_prot_state_get :: "sec_prot_common \<Rightarrow> nat" where
  "sec_prot_state_get d = sc_state d"

definition sec_prot_result_set :: "sec_prot_result_e \<Rightarrow> sec_prot_common \<Rightarrow> sec_prot_common" where
  "sec_prot_result_set r d = d\<lparr>sc_result := r\<rparr>"

definition sec_prot_result_get :: "sec_prot_common \<Rightarrow> sec_prot_result_e" where
  "sec_prot_result_get d = sc_result d"

definition sec_prot_result_timeout_check :: "sec_prot_common \<Rightarrow> bool \<times> sec_prot_common" where
  "sec_prot_result_timeout_check d =
     (if sc_result d = SEC_RESULT_TIMEOUT then (True, d\<lparr>sc_result := SEC_RESULT_OK\<rparr>) else (False, d))"

definition sec_prot_result_ok_check :: "sec_prot_common \<Rightarrow> bool" where
  "sec_prot_result_ok_check d = (if sc_result d = SEC_RESULT_OK then True else False)"

definition sec_prot_default_timeout_set :: "sec_prot_common \<Rightarrow> sec_prot_common" where
  "sec_prot_default_timeout_set d = d\<lparr>sc_ticks := SEC_TOTAL_TIMEOUT\<rparr>"

definition sec_prot_state_set ::
  "('a sec_prot_scheme \<Rightarrow> 'a sec_prot_scheme option) \<Rightarrow> nat \<Rightarrow> 'a sec_prot_scheme \<Rightarrow> 'a sec_prot_scheme option" where
  "sec_prot_state_set sm st p =
     (if st = SEC_STATE_FINISH then
        (let p = (if sc_state (sp_common p) = SEC_STATE_FINISHED then p
                  else upd_common (\<lambda>d. d\<lparr>sc_state := SEC_STATE_FINISH\<rparr>) p);
             p = upd_common (\<lambda>d. d\<lparr>sc_trickle_running := False\<rparr>) p;
             p = upd_common (\<lambda>d. d\<lparr>sc_ticks := SEC_FINISHED_TIMEOUT\<rparr>) p
         in sm p)
      else if st = SEC_STATE_FINISHED then
        (let p = (if sc_state (sp_common p) \<noteq> SEC_STATE_FINISHED
                  then upd_common (\<lambda>d. d\<lparr>sc_ticks := SEC_FINISHED_TIMEOUT\<rparr>) p else p);
             p = upd_common (\<lambda>d. d\<lparr>sc_trickle_running := False\<rparr>) p;
             p = emit Receive_disable p;
             p = upd_common (sec_prot_result_set SEC_RESULT_OK) p
         in Some (upd_common (\<lambda>d. d\<lparr>sc_state := st\<rparr>) p))
      else if st = SEC_STATE_INIT then sm (upd_common (\<lambda>d. d\<lparr>sc_state := SEC_STATE_INIT\<rparr>) p)
      else Some (upd_common (\<lambda>d. d\<lparr>sc_state := st\<rparr>) p))"

definition sec_prot_timer_trickle_start :: "trickle_params \<Rightarrow> 'a sec_prot_scheme \<Rightarrow> 'a sec_prot_scheme option" where
  "sec_prot_timer_trickle_start params p =
     do { (t, rolls) \<leftarrow> trickle_start (sc_trickle (sp_common p)) ''SECURITY'' params (sp_rolls p);
          (t, rolls) \<leftarrow> trickle_inconsistent_heard t params rolls;
          Some (upd_common (\<lambda>d. d\<lparr>sc_trickle := t, sc_trickle_running := True\<rparr>) (p\<lparr>sp_rolls := rolls\<rparr>)) }"

definition sec_prot_timer_trickle_stop :: "sec_prot_common \<Rightarrow> sec_prot_common" where
  "sec_prot_timer_trickle_stop d = d\<lparr>sc_trickle := trickle_stop (sc_trickle d), sc_trickle_running := False\<rparr>"

definition sec_prot_timer_timeout_handle ::
  "('a sec_prot_scheme \<Rightarrow> 'a sec_prot_scheme option) \<Rightarrow> trickle_params option \<Rightarrow> u16 \<Rightarrow> 'a sec_prot_scheme \<Rightarrow>
     'a sec_prot_scheme option" where
  "sec_prot_timer_timeout_handle sm trickle_params ticks p =
     do { p \<leftarrow> (case trickle_params of Some params \<Rightarrow>
             if sc_trickle_running (sp_common p) then
               do { let running = trickle_running (sc_trickle (sp_common p)) params;
                    (fired, t, rolls) \<leftarrow> trickle_timer (sc_trickle (sp_common p)) params ticks (sp_rolls p);
                    let p = upd_common (\<lambda>d. d\<lparr>sc_trickle := t\<rparr>) (p\<lparr>sp_rolls := rolls\<rparr>);
                    p \<leftarrow> (if fired then sm (upd_common (sec_prot_result_set SEC_RESULT_TIMEOUT) p) else Some p);
                    if running \<and> \<not> trickle_running (sc_trickle (sp_common p)) params
                    then sec_prot_state_set sm SEC_STATE_FINISH (upd_common (sec_prot_result_set SEC_RESULT_TIMEOUT) p)
                    else Some p }
             else Some p
           | None \<Rightarrow> Some p);
          if sc_ticks (sp_common p) > ticks then Some (upd_common (\<lambda>d. d\<lparr>sc_ticks := sc_ticks d - ticks\<rparr>) p)
          else do { let p = upd_common (\<lambda>d. d\<lparr>sc_ticks := 0\<rparr>) p;
                    let p = upd_common (sec_prot_result_set SEC_RESULT_TIMEOUT) p;
                    if sc_state (sp_common p) = SEC_STATE_INIT then sec_prot_state_set sm SEC_STATE_FINISHED p
                    else sec_prot_state_set sm SEC_STATE_FINISH p } }"

lemmas sec_prot_defs = sec_prot_state_get_def sec_prot_result_set_def sec_prot_result_get_def sec_prot_default_timeout_set_def
  sec_prot_result_ok_check_def sec_prot_result_timeout_check_def emit_def

text \<open>Distinct states.\<close>

lemma sec_states_distinct [simp]:
  "SEC_STATE_FINISH \<noteq> SEC_STATE_INIT" "SEC_STATE_FINISH \<noteq> SEC_STATE_CREATE_REQ" "SEC_STATE_FINISH \<noteq> SEC_STATE_CREATE_RESP"
  "SEC_STATE_FINISH \<noteq> SEC_STATE_FIRST" "SEC_STATE_FINISH \<noteq> SEC_STATE_FINISHED" "SEC_STATE_FINISHED \<noteq> SEC_STATE_INIT"
  "SEC_STATE_FINISHED \<noteq> SEC_STATE_CREATE_REQ" "SEC_STATE_FINISHED \<noteq> SEC_STATE_CREATE_RESP" "SEC_STATE_FINISHED \<noteq> SEC_STATE_FIRST"
  "SEC_STATE_FIRST \<noteq> SEC_STATE_INIT" "SEC_STATE_FIRST \<noteq> SEC_STATE_CREATE_REQ" "SEC_STATE_FIRST \<noteq> SEC_STATE_CREATE_RESP"
  "SEC_STATE_CREATE_REQ \<noteq> SEC_STATE_INIT" "SEC_STATE_CREATE_RESP \<noteq> SEC_STATE_INIT" "SEC_STATE_CREATE_RESP \<noteq> SEC_STATE_CREATE_REQ"
  by (simp_all add: sec_states)

lemmas sec_states_distinct_sym [simp] = sec_states_distinct [THEN not_sym]

section \<open>The contract of a state machine\<close>

text \<open>
  A state machine without a retry timer: in the state finish it reports its result and ends finished with receiving
  disabled; in the state finished it stops its timer and asks to be deleted. The state of its own, behind the common part, is left alone.
  The first need only hold when that state is \<open>idle\<close>, and no report is made when it is \<open>silent\<close>.
\<close>

fun wait_ticks :: "('p \<Rightarrow> 'p option) \<Rightarrow> nat \<Rightarrow> 'p \<Rightarrow> 'p option" where
  "wait_ticks f 0 p = Some p"
| "wait_ticks f (Suc n) p = do { p \<leftarrow> f p; wait_ticks f n p }"

lemma wait_add: "wait_ticks f (m + n) p = wait_ticks f m p \<bind> wait_ticks f n"
proof (induction m arbitrary: p)
  case (Suc m)
  then show ?case by (cases "f p") simp_all
qed simp

lemma state_set_plain:
  "st \<noteq> SEC_STATE_FINISH \<Longrightarrow> st \<noteq> SEC_STATE_INIT \<Longrightarrow> sec_prot_state_set sm st = sec_prot_state_set sm' st"
  by (rule ext) (simp add: sec_prot_state_set_def)

lemma state_set_finish:
  assumes "\<And>p. sc_state (sp_common p) \<in> {SEC_STATE_FINISH, SEC_STATE_FINISHED} \<Longrightarrow> sm p = sm' p"
  shows "sec_prot_state_set sm SEC_STATE_FINISH = sec_prot_state_set sm' SEC_STATE_FINISH"
  by (rule ext) (simp add: sec_prot_state_set_def Let_def assms)

lemmas plain_states = state_set_plain [of SEC_STATE_CREATE_REQ] state_set_plain [of SEC_STATE_CREATE_RESP]
  state_set_plain [of SEC_STATE_FIRST] state_set_plain [of SEC_STATE_FINISHED]

locale sec_protocol =
  fixes sm :: "'a sec_prot_scheme \<Rightarrow> 'a sec_prot_scheme option"
    and idle :: "'a sec_prot_scheme \<Rightarrow> bool"
    and silent :: "'a sec_prot_scheme \<Rightarrow> bool"
  assumes own_state: "sec_prot.more p = sec_prot.more q \<Longrightarrow> idle p = idle q \<and> silent p = silent q"
    and sm_finish: "sc_state (sp_common p) = SEC_STATE_FINISH \<Longrightarrow> idle p \<Longrightarrow> \<exists>p'. sm p = Some p' \<and> sc_state (sp_common p') = SEC_STATE_FINISHED \<and>
      sc_ticks (sp_common p') = SEC_FINISHED_TIMEOUT \<and> sec_prot.more p' = sec_prot.more p \<and>
      sp_out p' = sp_out p @ (if silent p then [] else [Finished_ind (sc_result (sp_common p))]) @ [Receive_disable]"
    and sm_finished: "sc_state (sp_common p) = SEC_STATE_FINISHED \<Longrightarrow> \<exists>p'. sm p = Some p' \<and> sp_common p' = sp_common p \<and>
      sp_out p' = sp_out p @ [Timer_stop, Finished] \<and> sec_prot.more p' = sec_prot.more p"
begin

abbreviation tick :: "'a sec_prot_scheme \<Rightarrow> 'a sec_prot_scheme option" where
  "tick \<equiv> sec_prot_timer_timeout_handle sm None 1"

lemma counts_down:
  "n < unat (sc_ticks (sp_common p)) \<Longrightarrow> wait_ticks tick n p = Some (upd_common (\<lambda>d. d\<lparr>sc_ticks := sc_ticks d - word_of_nat n\<rparr>) p)"
proof (induction n arbitrary: p)
  case (Suc n)
  let ?p = "upd_common (\<lambda>d. d\<lparr>sc_ticks := sc_ticks d - 1\<rparr>) p"
  have gt: "sc_ticks (sp_common p) > 1" using Suc.prems by (simp add: word_less_nat_alt)
  then have "unat (sc_ticks (sp_common p) - 1) = unat (sc_ticks (sp_common p)) - 1"
    using Suc.prems by (simp add: unat_sub word_le_nat_alt)
  then have "wait_ticks tick n ?p = Some (upd_common (\<lambda>d. d\<lparr>sc_ticks := sc_ticks d - word_of_nat n\<rparr>) ?p)"
    using Suc.prems by (intro Suc.IH) simp
  moreover have "tick p = Some ?p" using gt by (simp add: sec_prot_timer_timeout_handle_def)
  ultimately show ?case by (simp add: algebra_simps)
qed simp

text \<open>The tick that finds the timer expired, in the three kinds of state.\<close>

lemma expires:
  assumes "sc_ticks (sp_common p) \<le> 1" and "idle p \<or> sc_state (sp_common p) = SEC_STATE_FINISHED"
  shows "\<exists>p'. tick p = Some p' \<and> sc_state (sp_common p') = SEC_STATE_FINISHED \<and> sc_ticks (sp_common p') = SEC_FINISHED_TIMEOUT \<and>
    sec_prot.more p' = sec_prot.more p \<and>
    sp_out p' = sp_out p @ (if sc_state (sp_common p) = SEC_STATE_FINISHED then [Timer_stop, Finished]
      else if sc_state (sp_common p) = SEC_STATE_INIT \<or> silent p then [Receive_disable] else [Finished_ind SEC_RESULT_TIMEOUT, Receive_disable])"
proof -
  define q where "q = upd_common (\<lambda>d. d\<lparr>sc_result := SEC_RESULT_TIMEOUT, sc_trickle_running := False, sc_ticks := SEC_FINISHED_TIMEOUT\<rparr>) p"
  define q' where "q' = upd_common (\<lambda>d. d\<lparr>sc_result := SEC_RESULT_TIMEOUT, sc_state := SEC_STATE_FINISH, sc_trickle_running := False,
    sc_ticks := SEC_FINISHED_TIMEOUT\<rparr>) p"
  have "tick p = (if sc_state (sp_common p) = SEC_STATE_FINISHED then sm q else if sc_state (sp_common p) = SEC_STATE_INIT
      then Some (emit Receive_disable (upd_common (\<lambda>d. d\<lparr>sc_result := SEC_RESULT_OK, sc_state := SEC_STATE_FINISHED\<rparr>) q)) else sm q')"
    using assms(1) by (simp add: sec_prot_timer_timeout_handle_def sec_prot_defs sec_prot_state_set_def Let_def q_def q'_def not_less [symmetric])
  moreover have "sc_state (sp_common q) = sc_state (sp_common p)" "sp_out q = sp_out p" "sec_prot.more q = sec_prot.more p"
    "sc_ticks (sp_common q) = SEC_FINISHED_TIMEOUT" by (simp_all add: q_def)
  moreover have "sc_state (sp_common q') = SEC_STATE_FINISH" "sp_out q' = sp_out p" "sec_prot.more q' = sec_prot.more p"
    "sc_result (sp_common q') = SEC_RESULT_TIMEOUT" by (simp_all add: q'_def)
  moreover from this(3) have "idle q' = idle p" "silent q' = silent p" using own_state by blast+
  ultimately show ?thesis using assms(2) sm_finish [of q'] sm_finished [of q] by (auto simp: emit_def)
qed

lemma run_out:
  "\<exists>q. wait_ticks tick (max 1 (unat (sc_ticks (sp_common p)))) p = tick q \<and> sc_ticks (sp_common q) \<le> 1 \<and>
    sc_state (sp_common q) = sc_state (sp_common p) \<and> sp_out q = sp_out p \<and> sec_prot.more q = sec_prot.more p"
proof (cases "unat (sc_ticks (sp_common p)) \<le> 1")
  case True
  have "tick p \<bind> wait_ticks tick 0 = tick p" by (cases "tick p") simp_all
  with True show ?thesis by (intro exI [of _ p]) (simp add: word_le_nat_alt max_def)
next
  case False
  define k where "k = unat (sc_ticks (sp_common p)) - 1"
  let ?q = "upd_common (\<lambda>d. d\<lparr>sc_ticks := sc_ticks d - word_of_nat k\<rparr>) p"
  have "tick ?q \<bind> wait_ticks tick 0 = tick ?q" by (cases "tick ?q") simp_all
  moreover have "wait_ticks tick k p = Some ?q" using False by (intro counts_down) (simp add: k_def)
  ultimately have "wait_ticks tick (k + 1) p = tick ?q" unfolding wait_add by simp
  moreover have "max 1 (unat (sc_ticks (sp_common p))) = k + 1" using False by (simp add: k_def)
  moreover have "word_of_nat k = sc_ticks (sp_common p) - 1" using False by (simp add: k_def of_nat_diff)
  ultimately show ?thesis by (intro exI [of _ ?q]) (simp del: wait_ticks.simps)
qed

lemma gives_up:
  assumes "sc_state (sp_common p) \<noteq> SEC_STATE_FINISHED" and "idle p"
  defines "n \<equiv> max 1 (unat (sc_ticks (sp_common p)))"
  shows "\<exists>p1 p2. wait_ticks tick n p = Some p1 \<and> sc_state (sp_common p1) = SEC_STATE_FINISHED \<and>
    sp_out p1 = sp_out p @ (if sc_state (sp_common p) = SEC_STATE_INIT \<or> silent p then [Receive_disable] else [Finished_ind SEC_RESULT_TIMEOUT, Receive_disable]) \<and>
    wait_ticks tick (n + 50) p = Some p2 \<and> sp_out p2 = sp_out p1 @ [Timer_stop, Finished] \<and> sec_prot.more p2 = sec_prot.more p"
proof -
  obtain q where q: "wait_ticks tick n p = tick q" "sc_ticks (sp_common q) \<le> 1" "sc_state (sp_common q) = sc_state (sp_common p)"
    "sp_out q = sp_out p" "sec_prot.more q = sec_prot.more p" using run_out unfolding n_def by blast
  have own: "idle q" "silent q = silent p" using own_state [OF q(5)] assms(2) by simp_all
  obtain p1 where p1: "wait_ticks tick n p = Some p1" "sc_state (sp_common p1) = SEC_STATE_FINISHED" "sc_ticks (sp_common p1) = SEC_FINISHED_TIMEOUT"
    "sec_prot.more p1 = sec_prot.more p"
    "sp_out p1 = sp_out p @ (if sc_state (sp_common p) = SEC_STATE_INIT \<or> silent p then [Receive_disable] else [Finished_ind SEC_RESULT_TIMEOUT, Receive_disable])"
    using expires [OF q(2)] own q assms(1) by auto
  have "max 1 (unat (sc_ticks (sp_common p1))) = 50" unfolding p1(3) by (simp add: SEC_FINISHED_TIMEOUT_def)
  then obtain r where r: "wait_ticks tick 50 p1 = tick r" "sc_ticks (sp_common r) \<le> 1" "sc_state (sp_common r) = SEC_STATE_FINISHED"
    "sp_out r = sp_out p1" "sec_prot.more r = sec_prot.more p" using run_out [of p1] p1 by auto
  have "wait_ticks tick (n + 50) p = wait_ticks tick 50 p1" unfolding wait_add using p1(1) by simp
  then show ?thesis using expires [OF r(2)] r p1 by auto
qed

end

section \<open>Key derivation\<close>

definition EUI64_LEN :: nat where "EUI64_LEN = 8"
definition EAPOL_KEY_NONCE_LEN :: nat where "EAPOL_KEY_NONCE_LEN = 32"
definition EAPOL_KEY_MIC_LEN :: nat where "EAPOL_KEY_MIC_LEN = 16"
definition KCK_LEN :: u16 where "KCK_LEN = 16"
definition KEK_INDEX :: nat where "KEK_INDEX = 16"
definition PMKID_LEN :: u8 where "PMKID_LEN = 16"
definition PTKID_LEN :: u8 where "PTKID_LEN = 16"

text \<open>Text without its terminating zero, and \<open>memcmp\<close> of the C library.\<close>

definition ascii :: "string \<Rightarrow> u8 list" where
  "ascii s = map of_char s"

fun lex_sign :: "u8 list \<Rightarrow> u8 list \<Rightarrow> int" where
  "lex_sign (x # xs) (y # ys) = (if x < y then -1 else if y < x then 1 else lex_sign xs ys)"
| "lex_sign _ _ = 0"

definition memcmp :: "u8 list \<Rightarrow> u8 list \<Rightarrow> nat \<Rightarrow> int option" where
  "memcmp a b n = do { x \<leftarrow> load_n a 0 n; y \<leftarrow> load_n b 0 n; Some (lex_sign x y) }"

text \<open>The random device is the list of the bytes it delivers.\<close>

definition sec_prot_lib_nonce_generate :: "u8 list \<Rightarrow> u8 list option" where
  "sec_prot_lib_nonce_generate rnd = load_n rnd 0 EAPOL_KEY_NONCE_LEN"

text \<open>\<open>time_bytes\<close> is the representation of \<open>time\<close> in memory. The value returned is what \<open>nonce\<close> holds afterwards.\<close>

definition sec_prot_lib_nonce_init :: "env \<Rightarrow> u8 list \<Rightarrow> u8 list \<Rightarrow> u8 list \<Rightarrow> u8 list option" where
  "sec_prot_lib_nonce_init env rnd eui64 time_bytes =
     do { random \<leftarrow> load_n rnd 0 EAPOL_KEY_NONCE_LEN;
          let (string_len, prf) = ieee_802_11_prf_setup (word_of_nat (EAPOL_KEY_NONCE_LEN * 8))
                (word_of_nat (length (ascii ''Init Counter''))) (word_of_nat (EUI64_LEN + EUI64_LEN));
          let str = env_stack env (unat string_len);
          str \<leftarrow> store_n str (ieee_802_11_prf_get_a_string prf) (ascii ''Init Counter'');
          let b_string = ieee_802_11_prf_get_b_string prf;
          e \<leftarrow> load_n eui64 0 EUI64_LEN;
          str \<leftarrow> store_n str b_string e;
          let b_string = b_string + EUI64_LEN;
          t \<leftarrow> load_n time_bytes 0 8;
          str \<leftarrow> store_n str b_string t;
          let (result_len, prf) = ieee_802_11_prf_starts prf random (word_of_nat EAPOL_KEY_NONCE_LEN);
          prf \<leftarrow> ieee_802_11_prf_update prf str;
          result \<leftarrow> ieee_802_11_prf_finish env prf (env_stack env (unat result_len));
          load_n (case result of Inl r \<Rightarrow> r | Inr r \<Rightarrow> r) 0 EAPOL_KEY_NONCE_LEN }"

definition sec_prot_lib_ptk_calc ::
  "env \<Rightarrow> u8 list \<Rightarrow> u8 list \<Rightarrow> u8 list \<Rightarrow> u8 list \<Rightarrow> u8 list \<Rightarrow> u8 list option" where
  "sec_prot_lib_ptk_calc env key eui64_1 eui64_2 nonce1 nonce2 =
     do { c \<leftarrow> memcmp eui64_1 eui64_2 EUI64_LEN;
          let (min_eui64, max_eui64) = (if c > 0 then (eui64_2, eui64_1) else (eui64_1, eui64_2));
          c \<leftarrow> memcmp nonce1 nonce2 EAPOL_KEY_NONCE_LEN;
          let (min_nonce, max_nonce) = (if c > 0 then (nonce2, nonce1) else (nonce1, nonce2));
          let (string_len, prf) = ieee_802_11_prf_setup 384 (word_of_nat (length (ascii ''Pairwise key expansion'')))
                (word_of_nat (EUI64_LEN + EUI64_LEN + EAPOL_KEY_NONCE_LEN + EAPOL_KEY_NONCE_LEN));
          let str = env_stack env (unat string_len);
          str \<leftarrow> store_n str (ieee_802_11_prf_get_a_string prf) (ascii ''Pairwise key expansion'');
          let b_string = ieee_802_11_prf_get_b_string prf;
          x \<leftarrow> load_n min_eui64 0 EUI64_LEN;
          str \<leftarrow> store_n str b_string x;
          let b_string = b_string + EUI64_LEN;
          x \<leftarrow> load_n max_eui64 0 EUI64_LEN;
          str \<leftarrow> store_n str b_string x;
          let b_string = b_string + EUI64_LEN;
          x \<leftarrow> load_n min_nonce 0 EAPOL_KEY_NONCE_LEN;
          str \<leftarrow> store_n str b_string x;
          let b_string = b_string + EAPOL_KEY_NONCE_LEN;
          x \<leftarrow> load_n max_nonce 0 EAPOL_KEY_NONCE_LEN;
          str \<leftarrow> store_n str b_string x;
          let (result_len, prf) = ieee_802_11_prf_starts prf key (word_of_nat PMK_LEN);
          prf \<leftarrow> ieee_802_11_prf_update prf str;
          result \<leftarrow> ieee_802_11_prf_finish env prf (env_stack env (unat result_len));
          load_n (case result of Inl r \<Rightarrow> r | Inr r \<Rightarrow> r) 0 PTK_LEN }"

text \<open>
  The two identifiers: a label and the two addresses, under HMAC. The functions differ in label, key length and name only;
  \<open>Some None\<close> is the return value \<open>-1\<close>.
\<close>

definition key_name_calc :: "env \<Rightarrow> u8 list \<Rightarrow> u8 list \<Rightarrow> nat \<Rightarrow> u8 list \<Rightarrow> u8 list \<Rightarrow> u8 \<Rightarrow> u8 list option option" where
  "key_name_calc env string_val key key_len auth_eui64 supp_eui64 id_len =
     do { let data_len = (word_of_nat (length string_val + EUI64_LEN + EUI64_LEN) :: u8);
          let data = env_stack env (unat data_len);
          data \<leftarrow> store_n data 0 string_val;
          x \<leftarrow> load_n auth_eui64 0 EUI64_LEN;
          data \<leftarrow> store_n data (length string_val) x;
          x \<leftarrow> load_n supp_eui64 0 EUI64_LEN;
          data \<leftarrow> store_n data (length string_val + EUI64_LEN) x;
          hmac_md_calc env ALG_HMAC_SHA1_160 key (word_of_nat key_len) data (ucast data_len) id_len }"

definition sec_prot_lib_pmkid_calc :: "env \<Rightarrow> u8 list \<Rightarrow> u8 list \<Rightarrow> u8 list \<Rightarrow> u8 list option option" where
  "sec_prot_lib_pmkid_calc env key auth_eui64 supp_eui64 =
     key_name_calc env (ascii ''PMK Name'') key PMK_LEN auth_eui64 supp_eui64 PMKID_LEN"

definition sec_prot_lib_ptkid_calc :: "env \<Rightarrow> u8 list \<Rightarrow> u8 list \<Rightarrow> u8 list \<Rightarrow> u8 list option option" where
  "sec_prot_lib_ptkid_calc env key auth_eui64 supp_eui64 =
     key_name_calc env (ascii ''PTK Name'') key PTK_LEN auth_eui64 supp_eui64 PTKID_LEN"

text \<open>
  \<open>prot->addr_get\<close> delivers the addresses \<open>local\<close> and \<open>remote\<close>. The result is the identifier, \<open>None\<close> standing for \<open>-1\<close>, and the
  address stored in \<open>used_remote_eui64\<close>.
\<close>

definition sec_prot_lib_pmkid_generate ::
  "env \<Rightarrow> 'c sec_prot_keys \<Rightarrow> u8 list \<Rightarrow> u8 list \<Rightarrow> bool \<Rightarrow> bool \<Rightarrow> (u8 list option \<times> u8 list option) option" where
  "sec_prot_lib_pmkid_generate env keys local remote is_auth alt_remote_eui64_use =
     (case sec_prot_keys_pmk_get keys of None \<Rightarrow> Some (None, None)
      | Some key \<Rightarrow>
          (case sec_prot_keys_ptk_eui_64_get keys of
             None \<Rightarrow>
               if alt_remote_eui64_use then Some (None, None)
               else do { r \<leftarrow> (if is_auth then sec_prot_lib_pmkid_calc env key local remote
                              else sec_prot_lib_pmkid_calc env key remote local);
                         Some (r, Some remote) }
           | Some ptk_eui \<Rightarrow>
               do { remote_eui64 \<leftarrow> (if \<not> alt_remote_eui64_use then load_n ptk_eui 0 8 else Some remote);
                    r \<leftarrow> (if is_auth then sec_prot_lib_pmkid_calc env key local remote_eui64
                         else sec_prot_lib_pmkid_calc env key remote_eui64 local);
                    Some (r, Some remote_eui64) }))"

definition sec_prot_lib_ptkid_generate :: "env \<Rightarrow> 'c sec_prot_keys \<Rightarrow> u8 list \<Rightarrow> bool \<Rightarrow> u8 list option option" where
  "sec_prot_lib_ptkid_generate env keys local is_auth =
     (case sec_prot_keys_ptk_get keys of None \<Rightarrow> Some None
      | Some key \<Rightarrow>
          (case sec_prot_keys_ptk_eui_64_get keys of None \<Rightarrow> Some None
           | Some remote_eui64 \<Rightarrow>
               if is_auth then sec_prot_lib_ptkid_calc env key local remote_eui64
               else sec_prot_lib_ptkid_calc env key remote_eui64 local))"

text \<open>The static array the function returns a pointer to is its value.\<close>

definition sec_prot_remote_eui_64_addr_get :: "'c sec_prot_keys option \<Rightarrow> u8 list \<Rightarrow> u8 list" where
  "sec_prot_remote_eui_64_addr_get keys remote =
     (case keys of Some k \<Rightarrow> if ptk_eui_64_set k then ptk_eui_64 k else remote | None \<Rightarrow> remote)"

section \<open>Messages\<close>

text \<open>
  The key handed to these functions is the pairwise transient key: the key confirmation key in its first 16 bytes, the key
  encryption key in the next 16. Reading \<open>msg.key\<close> of a frame that holds an EAP header has no value. A length
  \<open>kde_len - 8\<close> below zero would wrap to a number of bytes no object has. \<open>Some None\<close> is the null pointer.
\<close>

definition sec_prot_lib_message_build ::
  "env \<Rightarrow> u8 list \<Rightarrow> u8 list option \<Rightarrow> u16 \<Rightarrow> eapol_pdu \<Rightarrow> u16 \<Rightarrow> u8 \<Rightarrow> u8 list option option" where
  "sec_prot_lib_message_build env key kde kde_len pdu eapol_pdu_size header_size =
     (case env_malloc env (unat header_size + unat eapol_pdu_size) of None \<Rightarrow> Some None
      | Some frame \<Rightarrow>
          do { (frame, eapol_kde) \<leftarrow> eapol_write_pdu_frame (frame, unat header_size) pdu;
               k \<leftarrow> (case msg pdu of Msg_key k \<Rightarrow> Some k | Msg_eap _ \<Rightarrow> None);
               frame \<leftarrow>
                 (case kde of None \<Rightarrow> Some (Some frame)
                  | Some kde \<Rightarrow>
                      if encrypted_key_data (key_information k) then
                        (if unat kde_len < 8 then None
                         else do { r \<leftarrow> nist_aes_key_wrap env True (drop KEK_INDEX key) 128 kde (unat kde_len - 8) (unat kde_len);
                                   case r of None \<Rightarrow> Some None
                                   | Some out \<Rightarrow> do { (frame, _) \<leftarrow> put_n (frame, eapol_kde) out;
                                                    Some (if length out \<noteq> unat kde_len then None else Some frame) } })
                      else do { bs \<leftarrow> load_n kde 0 (unat kde_len);
                                (frame, _) \<leftarrow> put_n (frame, eapol_kde) bs;
                                Some (Some frame) });
               case frame of None \<Rightarrow> Some None
               | Some frame \<Rightarrow>
                   if key_mic_flag (key_information k) then
                     do { r \<leftarrow> hmac_md_calc env ALG_HMAC_SHA1_160 key KCK_LEN (drop (unat header_size) frame) eapol_pdu_size
                              (word_of_nat EAPOL_KEY_MIC_LEN);
                          case r of None \<Rightarrow> Some None
                          | Some mic \<Rightarrow>
                              do { frame \<leftarrow> with_ptr frame (unat header_size) (\<lambda>p. eapol_write_key_packet_mic p (Some mic));
                                   Some (Some frame) } }
                   else Some (Some frame) })"

text \<open>The array of key data, of which the unwrapped bytes are the first ones, and the value stored in \<open>*kde_len\<close>.\<close>

definition sec_prot_lib_message_handle :: "env \<Rightarrow> u8 list \<Rightarrow> eapol_pdu \<Rightarrow> (u8 list \<times> u16) option option" where
  "sec_prot_lib_message_handle env key pdu =
     do { k \<leftarrow> (case msg pdu of Msg_key k \<Rightarrow> Some k | Msg_eap _ \<Rightarrow> None);
          if key_data_length k = 0 then Some None
          else case key_data k of None \<Rightarrow> Some None
          | Some d \<Rightarrow>
              (case env_malloc env (unat (key_data_length k)) of None \<Rightarrow> Some None
               | Some kde \<Rightarrow>
                   if encrypted_key_data (key_information k) then
                     do { r \<leftarrow> nist_aes_key_wrap env False (drop KEK_INDEX key) 128 d (unat (key_data_length k)) (unat (key_data_length k));
                          case r of None \<Rightarrow> Some None
                          | Some out \<Rightarrow>
                              do { kde \<leftarrow> store_n kde 0 out;
                                   Some (if int (length out) \<noteq> int (unat (key_data_length k)) - 8 then None
                                         else Some (kde, word_of_nat (length out))) } }
                   else do { bs \<leftarrow> load_n d 0 (unat (key_data_length k));
                             kde \<leftarrow> store_n kde 0 bs;
                             Some (Some (kde, key_data_length k)) }) }"

text \<open>
  The length of the frame is a byte here, whatever its callers pass. The MIC in the frame received is replaced by zeros:
  the frame is returned with the result.
\<close>

definition sec_prot_lib_mic_validate :: "env \<Rightarrow> u8 list \<Rightarrow> u8 list \<Rightarrow> u8 list \<Rightarrow> u8 \<Rightarrow> (int \<times> u8 list) option" where
  "sec_prot_lib_mic_validate env key mic pdu pdu_size =
     do { recv_mic \<leftarrow> load_n mic 0 EAPOL_KEY_MIC_LEN;
          pdu \<leftarrow> eapol_write_key_packet_mic pdu None;
          r \<leftarrow> hmac_md_calc env ALG_HMAC_SHA1_160 key (word_of_nat EAPOL_KEY_MIC_LEN) pdu (ucast pdu_size) (word_of_nat EAPOL_KEY_MIC_LEN);
          case r of None \<Rightarrow> Some (-1, pdu)
          | Some calc_mic \<Rightarrow> Some (if recv_mic \<noteq> calc_mic then -1 else 0, pdu) }"

text \<open>
  The group keys received: the result, the key table and what is known of the keys of the node. The table is
  the object \<open>sec_gtks->keys\<close> points to.
\<close>

definition sec_prot_lib_gtk_read ::
  "u8 list \<Rightarrow> u16 \<Rightarrow> sec_prot_gtk_keys \<Rightarrow> sec_prot_gtk \<Rightarrow> (int \<times> sec_prot_gtk_keys \<times> sec_prot_gtk) option" where
  "sec_prot_lib_gtk_read kde kde_len keys sec_gtks =
     do { (r, key_id, g) \<leftarrow> kde_gtk_read kde (unat kde_len);
          keys \<leftarrow> (if r \<ge> 0 then do { (_, lifetime) \<leftarrow> kde_lifetime_read kde (unat kde_len);
                                    (_, keys) \<leftarrow> sec_prot_keys_gtk_set keys (unat key_id) (Some g) lifetime;
                                    Some keys }
                  else Some keys);
          (r, l) \<leftarrow> kde_gtkl_read kde (unat kde_len);
          if r \<ge> 0 then Some (0, keys, sec_prot_keys_gtkl_set sec_gtks l) else Some (-1, keys, sec_gtks) }"

definition sec_prot_lib_lgtk_read ::
  "u8 list \<Rightarrow> u16 \<Rightarrow> sec_prot_gtk_keys \<Rightarrow> sec_prot_gtk \<Rightarrow> (int \<times> sec_prot_gtk_keys \<times> sec_prot_gtk) option" where
  "sec_prot_lib_lgtk_read kde kde_len keys sec_lgtks =
     do { (r, key_id, g) \<leftarrow> kde_lgtk_read kde (unat kde_len);
          keys \<leftarrow> (if r \<ge> 0 then do { (_, lifetime) \<leftarrow> kde_lifetime_read kde (unat kde_len);
                                    (_, keys) \<leftarrow> sec_prot_keys_gtk_set keys (unat key_id) (Some g) lifetime;
                                    Some keys }
                  else Some keys);
          (r, l) \<leftarrow> kde_lgtkl_read kde (unat kde_len);
          if r \<ge> 0 then Some (0, keys, sec_prot_keys_gtkl_set sec_lgtks l) else Some (-1, keys, sec_lgtks) }"

section \<open>The pairwise transient key\<close>

lemma lex_sign_swap: "length xs = length ys \<Longrightarrow> lex_sign ys xs = - lex_sign xs ys"
  by (induction xs ys rule: list_induct2) (auto simp: not_less)

lemma lex_sign_zero: "length xs = length ys \<Longrightarrow> lex_sign xs ys = 0 \<Longrightarrow> xs = ys"
  by (induction xs ys rule: list_induct2) (auto simp: not_less split: if_splits)

text \<open>The smaller and the larger of two byte strings.\<close>

definition lex_min :: "u8 list \<Rightarrow> u8 list \<Rightarrow> u8 list" where
  "lex_min x y = (if lex_sign x y > 0 then y else x)"

definition lex_max :: "u8 list \<Rightarrow> u8 list \<Rightarrow> u8 list" where
  "lex_max x y = (if lex_sign x y > 0 then x else y)"

lemma lex_swap:
  assumes "length x = length y"
  shows "lex_min x y = lex_min y x" "lex_max x y = lex_max y x"
  using lex_sign_swap [OF assms] lex_sign_zero [OF assms] unfolding lex_min_def lex_max_def
  by (cases "lex_sign x y = 0"; simp)+

lemma length_lex: "length x = n \<Longrightarrow> length y = n \<Longrightarrow> length (lex_min x y) = n \<and> length (lex_max x y) = n"
  by (simp add: lex_min_def lex_max_def)

lemma pairwise_label:
  "length (ascii ''Pairwise key expansion'') = 22" "be_val (take 2 (drop 2 (ascii ''Pairwise key expansion''))) = 0x6972"
  by (simp_all add: ascii_def be_val_def)

lemma store_n_part:
  "length a = off \<Longrightarrow> length b = length bs \<Longrightarrow> store_n (a @ b @ c) off bs = Some (a @ bs @ c)"
  by (simp add: store_n_def)

lemma split_front: "n \<le> length xs \<Longrightarrow> \<exists>a b. xs = a @ b \<and> length a = n"
  by (intro exI [of _ "take n xs"] exI [of _ "drop n xs"]) simp

lemma split_parts:
  "length (xs :: 'a list) = sum_list ns \<Longrightarrow> \<exists>ps. xs = concat ps \<and> map length ps = ns"
proof (induction ns arbitrary: xs)
  case (Cons n ns)
  then obtain a b where "xs = a @ b" "length a = n" using split_front [of n xs] by auto
  moreover from this Cons have "length b = sum_list ns" by simp
  then obtain ps where "b = concat ps" "map length ps = ns" using Cons.IH by blast
  ultimately show ?case by (intro exI [of _ "a # ps"]) simp
qed simp

text \<open>Filling in the string of a pseudo random function: label, gap, four parts of the input, room for the index.\<close>

lemma prf_string_fill:
  assumes "length s = length l + 1 + (length x1 + length x2 + length x3 + length x4) + 1"
  shows "\<exists>x. do { s \<leftarrow> store_n s 0 l;
      s \<leftarrow> store_n s (length l + 1) x1;
      s \<leftarrow> store_n s (length l + 1 + length x1) x2;
      s \<leftarrow> store_n s (length l + 1 + length x1 + length x2) x3;
      s \<leftarrow> store_n s (length l + 1 + length x1 + length x2 + length x3) x4;
      store s (length l) 0 } = Some (l @ 0 # (x1 @ x2 @ x3 @ x4) @ [x])"
proof -
  have "length s = sum_list [length l, 1, length x1, length x2, length x3, length x4, 1]" using assms by simp
  from split_parts [OF this] obtain ps where
    "s = concat ps \<and> map length ps = [length l, 1, length x1, length x2, length x3, length x4, 1]" ..
  then have ps: "s = concat ps" "map length ps = [length l, 1, length x1, length x2, length x3, length x4, 1]" by simp_all
  have "length ps = 7" using arg_cong [OF ps(2), of length] by simp
  then obtain l' y y1 y2 y3 y4 x where p: "ps = [l', y, y1, y2, y3, y4, x]" by (auto simp: numeral_eq_Suc length_Suc_conv)
  with ps have len: "length l' = length l" "length y = 1" "length y1 = length x1" "length y2 = length x2" "length y3 = length x3"
    "length y4 = length x4" "length x = 1" by simp_all
  have s: "s = l' @ y @ y1 @ y2 @ y3 @ y4 @ x" using ps p by simp
  have st: "store_n s 0 l = Some (l @ y @ y1 @ y2 @ y3 @ y4 @ x)" using store_n_part [of "[]" 0 l' l] len s by simp
  have s1: "store_n (l @ y @ y1 @ y2 @ y3 @ y4 @ x) (length l + 1) x1 = Some (l @ y @ x1 @ y2 @ y3 @ y4 @ x)"
    using store_n_part [of "l @ y" "length l + 1" y1 x1] len by simp
  have s2: "store_n (l @ y @ x1 @ y2 @ y3 @ y4 @ x) (length l + 1 + length x1) x2 = Some (l @ y @ x1 @ x2 @ y3 @ y4 @ x)"
    using store_n_part [of "l @ y @ x1" "length l + 1 + length x1" y2 x2] len by simp
  have s3: "store_n (l @ y @ x1 @ x2 @ y3 @ y4 @ x) (length l + 1 + length x1 + length x2) x3 = Some (l @ y @ x1 @ x2 @ x3 @ y4 @ x)"
    using store_n_part [of "l @ y @ x1 @ x2" "length l + 1 + length x1 + length x2" y3 x3] len by simp
  have s4: "store_n (l @ y @ x1 @ x2 @ x3 @ y4 @ x) (length l + 1 + length x1 + length x2 + length x3) x4 = Some (l @ y @ x1 @ x2 @ x3 @ x4 @ x)"
    using store_n_part [of "l @ y @ x1 @ x2 @ x3" "length l + 1 + length x1 + length x2 + length x3" y4 x4] len by simp
  obtain z where z: "y = [z]" using len by (cases y) auto
  obtain w where w: "x = [w]" using len by (cases x) auto
  show ?thesis
    unfolding st bind.bind_lunit s1 s2 s3 s4 using z w by (simp add: store_def)
qed

lemma ptk_calc_spec:
  assumes "env_ok env" and "32 \<le> length key" and "length e1 = 8" and "length e2 = 8" and "length n1 = 32" and "length n2 = 32"
  shows "sec_prot_lib_ptk_calc env key e1 e2 n1 n2 = Some (take 48 (prf_spec env (take 32 key) (ascii ''Pairwise key expansion'')
    (lex_min e1 e2 @ lex_max e1 e2 @ lex_min n1 n2 @ lex_max n1 n2) 3))"
proof -
  let ?l = "ascii ''Pairwise key expansion''"
  let ?b = "lex_min e1 e2 @ lex_max e1 e2 @ lex_min n1 n2 @ lex_max n1 n2"
  define q where "q = \<lparr>prf_key = key, prf_string = [], prf_bits = 384, prf_key_len = 32, prf_a_len = 22, prf_b_len = 80\<rparr>"
  have le: "length (lex_min e1 e2) = 8" "length (lex_max e1 e2) = 8" "length (lex_min n1 n2) = 32" "length (lex_max n1 n2) = 32"
    using length_lex assms(3-) by blast+
  have st: "length (env_stack env n) = n" for n using assms(1) by (simp add: env_ok_def)
  obtain x where x: "do { s \<leftarrow> store_n (env_stack env 104) 0 ?l; s \<leftarrow> store_n s 23 (lex_min e1 e2); s \<leftarrow> store_n s 31 (lex_max e1 e2);
      s \<leftarrow> store_n s 39 (lex_min n1 n2); s \<leftarrow> store_n s 71 (lex_max n1 n2); store s 22 0 } = Some (?l @ 0 # ?b @ [x])"
    using prf_string_fill [of "env_stack env 104" ?l "lex_min e1 e2" "lex_max e1 e2" "lex_min n1 n2" "lex_max n1 n2"] st le
    by (auto simp: pairwise_label)
  have ready: "prf_ready (q\<lparr>prf_string := ?l @ 0 # ?b @ [x]\<rparr>) ?l ?b"
    unfolding prf_ready_def using le assms(2) by (simp add: q_def pairwise_label)
  have fin: "ieee_802_11_prf_finish env (q\<lparr>prf_string := ?l @ 0 # ?b @ [x]\<rparr>) (env_stack env 60) =
      Some (Inr (prf_spec env (take 32 key) ?l ?b 3))"
    using prf_finish_spec [OF assms(1) ready, of "env_stack env 60"] st by (simp add: q_def)
  have "sec_prot_lib_ptk_calc env key e1 e2 n1 n2 = do { s \<leftarrow> do { s \<leftarrow> store_n (env_stack env 104) 0 ?l;
      s \<leftarrow> store_n s 23 (lex_min e1 e2); s \<leftarrow> store_n s 31 (lex_max e1 e2); s \<leftarrow> store_n s 39 (lex_min n1 n2);
      s \<leftarrow> store_n s 71 (lex_max n1 n2); store s 22 0 };
      result \<leftarrow> ieee_802_11_prf_finish env (q\<lparr>prf_string := s\<rparr>) (env_stack env 60);
      load_n (case result of Inl r \<Rightarrow> r | Inr r \<Rightarrow> r) 0 48 }"
    using assms(3-)
    by (simp add: sec_prot_lib_ptk_calc_def memcmp_def load_n_def EUI64_LEN_def EAPOL_KEY_NONCE_LEN_def PMK_LEN_def PTK_LEN_def
        ieee_802_11_prf_setup_def ieee_802_11_prf_get_a_string_def ieee_802_11_prf_get_b_string_def ieee_802_11_prf_starts_def
        ieee_802_11_prf_update_def pairwise_label lex_min_def lex_max_def q_def Let_def split_def)
  then show ?thesis unfolding x bind.bind_lunit fin by (simp add: load_n_def length_prf_spec [OF assms(1)])
qed

text \<open>
  C17. The pairwise transient key is PRF-384 of IEEE 802.11 over the smaller and the larger address and nonce, and the two
  parties agree on it: exchanging the addresses, the nonces or both gives the same key. The odd treatment of
  the length in \<open>hmac_md_calc\<close> does not show: the label keeps the string from looking like a shorter EAPOL frame.
\<close>

theorem ptk_calc_prf:
  assumes "env_ok env" and "32 \<le> length key" and "length e1 = 8" and "length e2 = 8" and "length n1 = 32" and "length n2 = 32"
  shows "\<exists>t. sec_prot_lib_ptk_calc env key e1 e2 n1 n2 = Some t \<and> length t = 48 \<and>
    t = take 48 (prf_spec env (take 32 key) (ascii ''Pairwise key expansion'')
          (lex_min e1 e2 @ lex_max e1 e2 @ lex_min n1 n2 @ lex_max n1 n2) 3) \<and>
    sec_prot_lib_ptk_calc env key e2 e1 n1 n2 = Some t \<and> sec_prot_lib_ptk_calc env key e1 e2 n2 n1 = Some t \<and>
    sec_prot_lib_ptk_calc env key e2 e1 n2 n1 = Some t"
  using assms lex_swap [of e2 e1] lex_swap [of n2 n1] by (simp add: ptk_calc_spec length_prf_spec)

theorem ptk_calc_prf_witness:
  "\<exists>t. sec_prot_lib_ptk_calc env_example (replicate 32 7) (replicate 8 1) (replicate 8 2) (replicate 32 3) (replicate 32 4) = Some t \<and>
    sec_prot_lib_ptk_calc env_example (replicate 32 7) (replicate 8 2) (replicate 8 1) (replicate 32 4) (replicate 32 3) = Some t"
  using ptk_calc_prf [OF env_example_ok(1), of "replicate 32 7" "replicate 8 1" "replicate 8 2" "replicate 32 3" "replicate 32 4"]
  by auto

section \<open>The key identifiers\<close>

lemma name_labels:
  "length (ascii ''PMK Name'') = 8" "be_val (take 2 (drop 2 (ascii ''PMK Name''))) = 0x4B20"
  "length (ascii ''PTK Name'') = 8" "be_val (take 2 (drop 2 (ascii ''PTK Name''))) = 0x4B20"
  by (simp_all add: ascii_def be_val_def)

lemma key_name_spec:
  assumes "env_ok env" and "length l = 8" and "be_val (take 2 (drop 2 l)) = 0x4B20" and "n < 65536" and "n \<le> length key"
    and "length a = 8" and "length b = 8" and "unat m \<le> 20"
  shows "key_name_calc env l key n a b m = Some (Some (take (unat m) (sha1_mac env (take n key) (l @ a @ b))))"
proof -
  have "length (env_stack env 24) = sum_list [8, 8, 8]" using assms(1) by (simp add: env_ok_def)
  from split_parts [OF this] obtain ps where "env_stack env 24 = concat ps \<and> map length ps = [8, 8, 8]" ..
  then have ps: "env_stack env 24 = concat ps" "map length ps = [8, 8, 8]" by simp_all
  have "length ps = 3" using arg_cong [OF ps(2), of length] by simp
  then obtain x y z where p: "ps = [x, y, z]" by (auto simp: numeral_eq_Suc length_Suc_conv)
  with ps have len: "length x = 8" "length y = 8" "length z = 8" by simp_all
  have s0: "store_n (env_stack env 24) 0 l = Some (l @ y @ z)" using ps p len assms(2) by (simp add: store_n_def)
  have s1: "store_n (l @ y @ z) 8 a = Some (l @ a @ z)" using len assms(2,6) by (intro store_n_part) simp_all
  have s2: "store_n (l @ a @ z) 16 b = Some (l @ a @ b)" using len assms(2,6,7) by (simp add: store_n_def)
  have h: "hmac_md_calc env ALG_HMAC_SHA1_160 key (word_of_nat n) (l @ a @ b) 24 m =
      Some (Some (take (unat m) (sha1_mac env (take n key) (l @ a @ b))))"
    using hmac_calc [OF assms(1), of "word_of_nat n" key "l @ a @ b" 24 m] assms(2-8) by (simp add: unat_small)
  show ?thesis
    using assms(2,6,7) s0 s1 s2 h by (simp add: key_name_calc_def EUI64_LEN_def load_n_def Let_def)
qed

text \<open>
  The authenticator and the supplicant name the pairwise keys they share alike: with the same PMK and PTK, each the other's
  address, the PMKIDs and the PTKIDs the two generate are equal, and they are the first 16 bytes of
  HMAC-SHA1 over the label and the addresses of authenticator and supplicant.
\<close>

theorem key_ids_agree:
  assumes "env_ok env" and "pmk_set ka" and "pmk_set ks" and "ptk_set ka" and "ptk_set ks"
    and "pmk ka = pmk ks" and "ptk ka = ptk ks" and "length (pmk ka) = 32" and "length (ptk ka) = 48"
    and "ptk_eui_64_set ka" and "ptk_eui_64_set ks" and "ptk_eui_64 ka = supp" and "ptk_eui_64 ks = auth"
    and "length auth = 8" and "length supp = 8"
  shows "sec_prot_lib_pmkid_generate env ka auth r1 True False =
      Some (Some (take 16 (sha1_mac env (pmk ka) (ascii ''PMK Name'' @ auth @ supp))), Some supp) \<and>
    sec_prot_lib_pmkid_generate env ks supp r2 False False =
      Some (Some (take 16 (sha1_mac env (pmk ka) (ascii ''PMK Name'' @ auth @ supp))), Some auth) \<and>
    sec_prot_lib_ptkid_generate env ka auth True =
      Some (Some (take 16 (sha1_mac env (ptk ka) (ascii ''PTK Name'' @ auth @ supp)))) \<and>
    sec_prot_lib_ptkid_generate env ks supp False =
      Some (Some (take 16 (sha1_mac env (ptk ka) (ascii ''PTK Name'' @ auth @ supp))))"
proof -
  have "sec_prot_lib_pmkid_calc env (pmk ka) auth supp = Some (Some (take 16 (sha1_mac env (pmk ka) (ascii ''PMK Name'' @ auth @ supp))))"
    "sec_prot_lib_ptkid_calc env (ptk ka) auth supp = Some (Some (take 16 (sha1_mac env (ptk ka) (ascii ''PTK Name'' @ auth @ supp))))"
    using key_name_spec [OF assms(1) name_labels(1,2), of 32 "pmk ka" auth supp PMKID_LEN]
      key_name_spec [OF assms(1) name_labels(3,4), of 48 "ptk ka" auth supp PTKID_LEN] assms(8,9,14,15)
    by (simp_all add: sec_prot_lib_pmkid_calc_def sec_prot_lib_ptkid_calc_def PMK_LEN_def PTK_LEN_def PMKID_LEN_def PTKID_LEN_def)
  then show ?thesis
    using assms by (simp add: sec_prot_lib_pmkid_generate_def sec_prot_lib_ptkid_generate_def sec_prot_keys_pmk_get_def
        sec_prot_keys_ptk_get_def sec_prot_keys_ptk_eui_64_get_def load_n_def)
qed

theorem key_ids_agree_witness:
  "\<exists>ka ks. sec_prot_lib_ptkid_generate env_example (ka :: unit sec_prot_keys) (replicate 8 1) True =
     sec_prot_lib_ptkid_generate env_example (ks :: unit sec_prot_keys) (replicate 8 2) False \<and> ptk_eui_64 ka \<noteq> ptk_eui_64 ks"
proof -
  define k where "k e = (sec_prot_keys_init ())\<lparr>pmk_set := True, ptk_set := True, ptk_eui_64_set := True, ptk_eui_64 := e\<rparr>" for e
  have "length (pmk (k e)) = 32" "length (ptk (k e)) = 48" "pmk_set (k e)" "ptk_set (k e)" "ptk_eui_64_set (k e)"
    "ptk_eui_64 (k e) = e" "pmk (k e) = pmk (k e')" "ptk (k e) = ptk (k e')" for e e'
    by (simp_all add: k_def sec_prot_keys_init_def Let_def PMK_LEN_def PTK_LEN_def)
  note k = this
  define ka ks where "ka = k (replicate 8 2)" and "ks = k (replicate 8 1)"
  have f: "pmk ka = pmk ks" "ptk ka = ptk ks" unfolding ka_def ks_def by (rule k)+
  have g: "pmk_set ka" "pmk_set ks" "ptk_set ka" "ptk_set ks" "length (pmk ka) = 32" "length (ptk ka) = 48" "ptk_eui_64_set ka"
    "ptk_eui_64_set ks" "ptk_eui_64 ka = replicate 8 2" "ptk_eui_64 ks = replicate 8 1" unfolding ka_def ks_def by (simp_all only: k)
  have "sec_prot_lib_ptkid_generate env_example ka (replicate 8 1) True =
      sec_prot_lib_ptkid_generate env_example ks (replicate 8 2) False"
    using key_ids_agree [OF env_example_ok(1) g(1-4) f g(5-)] by simp
  moreover have "ptk_eui_64 ka \<noteq> ptk_eui_64 ks" unfolding g by simp
  ultimately show ?thesis by blast
qed

section \<open>Messages built, checked and read\<close>

text \<open>A frame with its MIC field and key data, and the MIC it should carry.\<close>

definition frame_bytes :: "eapol_key_frame \<Rightarrow> u16 \<Rightarrow> u8 list \<Rightarrow> u8 list \<Rightarrow> u8 list" where
  "frame_bytes k plen mic data = pdu_head EAPOL_KEY_TYPE plen @ key_frame_bytes k mic @ data"

definition mic_of :: "env \<Rightarrow> u8 list \<Rightarrow> eapol_key_frame \<Rightarrow> u16 \<Rightarrow> u8 list \<Rightarrow> u8 list" where
  "mic_of env key k plen data = take 16 (sha1_mac env (take 16 key) (frame_bytes k plen (replicate 16 0) data))"

text \<open>HMAC over what starts with the header of an EAPOL frame covers the frame, whatever length above its payload is passed.\<close>

lemma hmac_frame:
  fixes plen :: u16
  assumes "env_ok env" and "16 \<le> length key" and "length (hd2 @ rest) = 2 + unat plen" and "length hd2 = 2"
    and "unat plen < unat n" and "unat plen + 4 < 65536"
  shows "hmac_md_calc env ALG_HMAC_SHA1_160 key 16 (hd2 @ be_bytes 2 (unat plen) @ rest @ r) n 16 =
    Some (Some (take 16 (sha1_mac env (take 16 key) (hd2 @ be_bytes 2 (unat plen) @ rest))))"
proof -
  have rd: "read_be16 (drop 2 (hd2 @ be_bytes 2 (unat plen) @ rest @ r)) = Some plen" using assms(4) by (simp add: read_be_append)
  have n: "n > plen" using assms(5) by (simp add: word_less_nat_alt)
  have "unat (plen + 4) = 4 + unat plen" using assms(6) by (simp add: unat_add_nowrap)
  moreover have "take (4 + unat plen) (hd2 @ be_bytes 2 (unat plen) @ rest @ r) = hd2 @ be_bytes 2 (unat plen) @ rest"
    using assms(3,4) by simp
  ultimately show ?thesis
    using assms(1,2,3) n rd by (simp add: hmac_md_calc_def Let_def load_n_def env_hmac_ok length_sha1_mac)
qed

lemma frame_split: "frame_bytes k plen mic data = [EAPOL_PROTOCOL_VERSION, EAPOL_KEY_TYPE] @ be_bytes 2 (unat plen) @ key_frame_bytes k mic @ data"
  by (simp add: frame_bytes_def pdu_head_def)

lemma length_frame: "key_frame_ok k \<Longrightarrow> length (frame_bytes k plen mic data) = 83 + length mic + length data"
  by (simp add: frame_bytes_def pdu_head_def length_key_frame_bytes)

lemma hmac_frame_bytes:
  assumes "env_ok env" and "16 \<le> length key" and "key_frame_ok k" and "length mic = 16" and "unat plen = 95 + length data"
    and "unat plen < unat n" and "unat plen + 4 < 65536"
  shows "hmac_md_calc env ALG_HMAC_SHA1_160 key 16 (frame_bytes k plen mic data @ r) n 16 =
    Some (Some (take 16 (sha1_mac env (take 16 key) (frame_bytes k plen mic data))))"
  using hmac_frame [OF assms(1,2), of "[EAPOL_PROTOCOL_VERSION, EAPOL_KEY_TYPE]" "key_frame_bytes k mic @ data" plen n r] assms(3-)
  by (simp add: frame_split length_key_frame_bytes)

text \<open>Replacing the MIC field.\<close>

lemma frame_mic_split:
  assumes "key_frame_ok k"
  shows "\<exists>a b. (\<forall>mic. frame_bytes k plen mic data = a @ mic @ b) \<and> length a = 81"
proof -
  let ?a = "pdu_head EAPOL_KEY_TYPE plen @ key_description k # be_bytes 2 (unat (key_info_word (key_information k))) @
     be_bytes 2 (unat (key_length k)) @ be_bytes 8 (unat (replay_counter k)) @ field_bytes (key_nonce k) 32 @
     field_bytes (key_iv k) 16 @ field_bytes (key_rsc k) 8 @ replicate 8 0"
  have "frame_bytes k plen mic data = ?a @ mic @ be_bytes 2 (unat (key_data_length k)) @ data" for mic
    by (simp add: frame_bytes_def key_frame_bytes_def)
  moreover have "length ?a = 81" using field_lengths [OF assms] by (simp add: pdu_head_def)
  ultimately show ?thesis by blast
qed

lemma write_mic:
  assumes "key_frame_ok k" and "length mic = 16"
  shows "length mic' = 16 \<Longrightarrow> eapol_write_key_packet_mic (frame_bytes k plen mic data @ r) (Some mic') = Some (frame_bytes k plen mic' data @ r)"
    and "eapol_write_key_packet_mic (frame_bytes k plen mic data @ r) None = Some (frame_bytes k plen (replicate 16 0) data @ r)"
proof -
  obtain a b where ab: "\<forall>mic. frame_bytes k plen mic data = a @ mic @ b" "length a = 81" using frame_mic_split [OF assms(1)] by blast
  have st: "store_n (a @ mic @ b @ r) 81 m = Some (a @ m @ b @ r)" if "length m = 16" for m
    using ab(2) assms(2) that by (intro store_n_part) simp_all
  show "length mic' = 16 \<Longrightarrow> eapol_write_key_packet_mic (frame_bytes k plen mic data @ r) (Some mic') = Some (frame_bytes k plen mic' data @ r)"
    using st [of mic'] by (simp add: ab eapol_write_key_packet_mic_def load_n_def)
  show "eapol_write_key_packet_mic (frame_bytes k plen mic data @ r) None = Some (frame_bytes k plen (replicate 16 0) data @ r)"
    using st [of "replicate 16 0"] by (simp add: ab eapol_write_key_packet_mic_def)
qed

lemma length_mic_of: "env_ok env \<Longrightarrow> length (mic_of env key k plen data) = 16"
  by (simp add: mic_of_def length_sha1_mac)

lemma mic_validate_frame:
  assumes "env_ok env" and "16 \<le> length key" and "key_frame_ok k" and "length mic = 16" and "unat plen = 95 + length data"
    and "unat plen < unat n"
  shows "sec_prot_lib_mic_validate env key (mic @ s) (frame_bytes k plen mic data @ r) n =
    Some (if mic = mic_of env key k plen data then 0 else -1, frame_bytes k plen (replicate 16 0) data @ r)"
proof -
  have "unat n < 256" using unsigned_less [of n] by simp
  then have small: "unat plen + 4 < 65536" using assms(6) by simp
  have n: "unat plen < unat (ucast n :: u16)" using assms(6) by (simp add: unat_ucast_up)
  show ?thesis
    using hmac_frame_bytes [OF assms(1-3) _ assms(5) n small, of "replicate 16 0" r] write_mic(2) [OF assms(3,4)] assms(4)
    by (simp add: sec_prot_lib_mic_validate_def load_n_def EAPOL_KEY_MIC_LEN_def mic_of_def)
qed

text \<open>The key data a message carries: wrapped, in clear, or none.\<close>

definition key_payload :: "env \<Rightarrow> u8 list \<Rightarrow> bool \<Rightarrow> u8 list option \<Rightarrow> nat \<Rightarrow> u8 list" where
  "key_payload env key enc kde n =
     (case kde of None \<Rightarrow> [] | Some d \<Rightarrow> if enc then the (env_kw_wrap env (take 16 (drop 16 key)) (take (n - 8) d) n) else take n d)"

definition kde_fits :: "bool \<Rightarrow> u8 list option \<Rightarrow> nat \<Rightarrow> bool" where
  "kde_fits enc kde n \<longleftrightarrow> (case kde of None \<Rightarrow> n = 0
     | Some d \<Rightarrow> if enc then 24 \<le> n \<and> n mod 8 = 0 \<and> n - 8 \<le> length d else n \<le> length d)"

lemma payload_wrapped:
  assumes "env_ok env" and "32 \<le> length key" and "kde_fits True (Some d) n"
  shows "env_kw_wrap env (take 16 (drop 16 key)) (take (n - 8) d) n = Some (key_payload env key True (Some d) n)"
    and "length (key_payload env key True (Some d) n) = n"
    and "env_kw_unwrap env (take 16 (drop 16 key)) (key_payload env key True (Some d) n) n = Some (take (n - 8) d)"
proof -
  have n: "24 \<le> n" "n mod 8 = 0" "n - 8 \<le> length d" using assms(3) by (simp_all add: kde_fits_def)
  have l: "length (take 16 (drop 16 key)) = 16" "length (take (n - 8) d) = n - 8" using assms(2) n by simp_all
  moreover have "(n - 8) mod 8 = 0" using n by presburger
  ultimately obtain c where c: "env_kw_wrap env (take 16 (drop 16 key)) (take (n - 8) d) n = Some c" "length c = n - 8 + 8"
      "\<And>l. n - 8 \<le> l \<Longrightarrow> env_kw_unwrap env (take 16 (drop 16 key)) c l = Some (take (n - 8) d)"
    using n(1) by (elim env_wrap_ok [OF assms(1), of _ "take (n - 8) d" n, unfolded l(2)]) auto
  then have "key_payload env key True (Some d) n = c" by (simp add: key_payload_def)
  then show "env_kw_wrap env (take 16 (drop 16 key)) (take (n - 8) d) n = Some (key_payload env key True (Some d) n)"
    and "length (key_payload env key True (Some d) n) = n"
    and "env_kw_unwrap env (take 16 (drop 16 key)) (key_payload env key True (Some d) n) n = Some (take (n - 8) d)"
    using c n(1) by simp_all
qed

lemma length_payload:
  "env_ok env \<Longrightarrow> 32 \<le> length key \<Longrightarrow> kde_fits enc kde n \<Longrightarrow> length (key_payload env key enc kde n) = n"
  using payload_wrapped(2) [of env key] by (cases kde; cases enc) (auto simp: key_payload_def kde_fits_def)

text \<open>A message ready to be built: a key frame whose data and MIC are still to be filled in.\<close>

definition message_ready :: "eapol_pdu \<Rightarrow> eapol_key_frame \<Rightarrow> u16 \<Rightarrow> bool" where
  "message_ready pdu k n \<longleftrightarrow> packet_type pdu = EAPOL_KEY_TYPE \<and> msg pdu = Msg_key k \<and> key_frame_ok k \<and> key_data k = None \<and>
     key_mic k = None \<and> key_data_length k = n \<and> unat (packet_length pdu) = 95 + unat n \<and> unat n < 65000 \<and>
     key_description k = EAPOL_RSN_KEY_DESCRIPTION \<and>
     description_version (key_information k) = KEY_DESCRIPTION_HMAC_SHA1_MIC_AES_ENC"

lemma message_build_spec:
  assumes "env_ok env" and "memory_left env" and "32 \<le> length key" and "message_ready pdu k n"
    and "kde_fits (encrypted_key_data (key_information k)) kde (unat n)" and "unat sz = unat (packet_length pdu) + 4"
  defines "data \<equiv> key_payload env key (encrypted_key_data (key_information k)) kde (unat n)"
  shows "\<exists>hdr. length hdr = unat h \<and> sec_prot_lib_message_build env key kde n pdu sz h = Some (Some (hdr @ frame_bytes k (packet_length pdu)
    (if key_mic_flag (key_information k) then mic_of env key k (packet_length pdu) data else replicate 16 0) data))"
proof -
  let ?enc = "encrypted_key_data (key_information k)" and ?plen = "packet_length pdu"
  let ?f = "\<lambda>mic. frame_bytes k ?plen mic data"
  have r: "packet_type pdu = EAPOL_KEY_TYPE" "msg pdu = Msg_key k" "key_frame_ok k" "key_data k = None" "key_mic k = None"
    "unat ?plen = 95 + unat n" "unat n < 65000" using assms(4) by (auto simp: message_ready_def)
  have ld: "length data = unat n" unfolding data_def by (rule length_payload [OF assms(1,3,5)])
  obtain b where b: "env_malloc env (unat h + unat sz) = Some b" "length b = unat h + unat sz"
    by (rule env_memory [OF assms(1,2)])
  define hdr where "hdr = take (unat h) b"
  let ?start = "frame_bytes k ?plen (replicate 16 0) []"
  have lf: "length ?start = 99" using length_frame [OF r(3)] by simp
  have lh: "length hdr = unat h" using b(2) by (simp add: hdr_def)
  have fm: "frame_mic k = replicate 16 0" using r(5) by (simp add: frame_mic_def)
  define gap where "gap = drop (unat h + 99) b"
  have lg: "length gap = unat n" using b(2) assms(6) r(6) by (simp add: gap_def)
  have "eapol_write_pdu_frame (b, unat h) pdu = writes (b, unat h) ?start"
    using pdu_frame_writes [OF r(1,2,3)] fm r(4) by (simp add: frame_bytes_def)
  also have "\<dots> = Some (hdr @ ?start @ gap, unat h + 99)"
    using writes_in [of "unat h" ?start b] b(2) assms(6) r(6) lf by (simp add: hdr_def gap_def)
  finally have w: "eapol_write_pdu_frame (b, unat h) pdu = Some (hdr @ ?start @ gap, unat h + 99)" .
  have f0: "?start @ data = ?f (replicate 16 0)" by (simp add: frame_bytes_def)
  have put: "put_n (hdr @ ?start @ gap, unat h + 99) data = Some (hdr @ ?f (replicate 16 0), unat h + 99 + unat n)"
    using store_n_part [of "hdr @ ?start" "unat h + 99" gap data "[]"] lh lf lg ld f0 by (simp add: put_n_def)
  have fill: "(case kde of None \<Rightarrow> Some (Some (hdr @ ?start @ gap))
      | Some kde \<Rightarrow> if ?enc then (if unat n < 8 then None
           else do { r \<leftarrow> nist_aes_key_wrap env True (drop KEK_INDEX key) 128 kde (unat n - 8) (unat n);
                     case r of None \<Rightarrow> Some None
                     | Some out \<Rightarrow> do { (frame, _) \<leftarrow> put_n (hdr @ ?start @ gap, unat h + 99) out;
                                      Some (if length out \<noteq> unat n then None else Some frame) } })
         else do { bs \<leftarrow> load_n kde 0 (unat n); (frame, _) \<leftarrow> put_n (hdr @ ?start @ gap, unat h + 99) bs; Some (Some frame) }) =
      Some (Some (hdr @ ?f (replicate 16 0)))"
  proof (cases kde)
    case None
    then show ?thesis using f0 lg ld assms(5) by (simp add: kde_fits_def)
  next
    case (Some d)
    show ?thesis
    proof (cases ?enc)
      case True
      have n: "24 \<le> unat n" "unat n - 8 \<le> length d" using assms(5) Some True by (simp_all add: kde_fits_def)
      have "nist_aes_key_wrap env True (drop KEK_INDEX key) 128 d (unat n - 8) (unat n) = Some (Some data)"
        using payload_wrapped(1) [OF assms(1,3), of d "unat n"] assms(3,5) n Some True
        by (simp add: nist_aes_key_wrap_def KEK_INDEX_def load_n_def data_def)
      then show ?thesis using Some True n put ld by simp
    next
      case False
      then have "load_n d 0 (unat n) = Some data" using assms(5) Some by (simp add: kde_fits_def load_n_def data_def key_payload_def)
      then show ?thesis using Some False put by simp
    qed
  qed
  have hm: "hmac_md_calc env ALG_HMAC_SHA1_160 key 16 (?f (replicate 16 0)) sz 16 = Some (Some (mic_of env key k ?plen data))"
    using hmac_frame_bytes [OF assms(1) _ r(3), of key "replicate 16 0" ?plen data sz "[]"] assms(3,6) r(6,7) ld by (simp add: mic_of_def)
  have wm: "with_ptr (hdr @ ?f (replicate 16 0)) (unat h) (\<lambda>p. eapol_write_key_packet_mic p (Some (mic_of env key k ?plen data))) =
      Some (hdr @ ?f (mic_of env key k ?plen data))"
    using write_mic(1) [OF r(3), of "replicate 16 0" "mic_of env key k ?plen data" ?plen data "[]"] lh length_mic_of [OF assms(1)]
    by (simp add: with_ptr_def)
  have "sec_prot_lib_message_build env key kde n pdu sz h = Some (Some (hdr @ ?f
      (if key_mic_flag (key_information k) then mic_of env key k ?plen data else replicate 16 0)))"
    using b(1) w fill hm wm r(2) lh by (simp add: sec_prot_lib_message_build_def KCK_LEN_def EAPOL_KEY_MIC_LEN_def)
  then show ?thesis using lh by blast
qed

lemma message_handle_spec:
  assumes "env_ok env" and "memory_left env" and "32 \<le> length key" and "msg p = Msg_key k" and "key_data_length k = n" and "n \<noteq> 0"
    and "kde_fits (encrypted_key_data (key_information k)) (Some d) (unat n)"
    and "points_to (key_data k) (key_payload env key (encrypted_key_data (key_information k)) (Some d) (unat n))"
  shows "\<exists>buf len. sec_prot_lib_message_handle env key p = Some (Some (buf, len)) \<and> length buf = unat n \<and>
    unat len = (if encrypted_key_data (key_information k) then unat n - 8 else unat n) \<and> take (unat len) buf = take (unat len) d"
proof -
  let ?enc = "encrypted_key_data (key_information k)"
  let ?data = "key_payload env key ?enc (Some d) (unat n)"
  obtain r where r: "key_data k = Some (?data @ r)" using assms(8) by (auto simp: points_to_def)
  have ld: "length ?data = unat n" by (rule length_payload [OF assms(1,3,7)])
  obtain b where b: "env_malloc env (unat n) = Some b" "length b = unat n" by (rule env_memory [OF assms(1,2)])
  show ?thesis
  proof (cases ?enc)
    case True
    have n: "24 \<le> unat n" "unat n - 8 \<le> length d" using assms(7) True by (simp_all add: kde_fits_def)
    have w: "nist_aes_key_wrap env False (drop KEK_INDEX key) 128 (?data @ r) (unat n) (unat n) = Some (Some (take (unat n - 8) d))"
      using payload_wrapped(3) [OF assms(1,3), of d "unat n"] assms(3,7) ld True
      by (simp add: nist_aes_key_wrap_def KEK_INDEX_def load_n_def)
    have l: "length (take (unat n - 8) d) = unat n - 8" "int (unat n - 8) = int (unat n) - 8" using n by simp_all
    have st: "store_n b 0 (take (unat n - 8) d) = Some (take (unat n - 8) d @ drop (unat n - 8) b)" using b(2) n by (simp add: store_n_def)
    have u: "unat (word_of_nat (unat n - 8) :: u16) = unat n - 8" using unat_u16_lt [of n] by (intro unat_small) simp
    have "sec_prot_lib_message_handle env key p = Some (Some (take (unat n - 8) d @ drop (unat n - 8) b, word_of_nat (unat n - 8)))"
      using assms(4,5,6) r b(1) w st l True by (simp add: sec_prot_lib_message_handle_def del: of_nat_unat)
    then show ?thesis using u True l b(2) n by simp
  next
    case False
    then have "?data = take (unat n) d" "unat n \<le> length d" using assms(7) by (simp_all add: key_payload_def kde_fits_def)
    then have "sec_prot_lib_message_handle env key p = Some (Some (take (unat n) d, n))"
      using assms(4,5,6) r b False by (simp add: sec_prot_lib_message_handle_def load_n_def store_n_def)
    then show ?thesis using False \<open>unat n \<le> length d\<close> by simp
  qed
qed

text \<open>What the other party makes of a message, given the bytes it receives, whatever is in the place of the MIC.\<close>

lemma message_parsed:
  assumes "env_ok env" and "memory_left env" and "32 \<le> length key" and "message_ready pdu k n" and "length mic = 16"
    and "kde_fits (encrypted_key_data (key_information k)) kde (unat n)" and "sz = eapol_pdu_total_length pdu"
  defines "data \<equiv> key_payload env key (encrypted_key_data (key_information k)) kde (unat n)"
  defines "rx \<equiv> frame_bytes k (packet_length pdu) mic data"
  shows "length rx = unat sz" and "\<exists>p k'. eapol_parse_pdu_header rx sz = Some (Some p) \<and> msg p = Msg_key k' \<and> frame_agrees k mic data k' \<and>
    (\<forall>d. kde = Some d \<and> n \<noteq> 0 \<longrightarrow> (\<exists>buf len. sec_prot_lib_message_handle env key p = Some (Some (buf, len)) \<and> length buf = unat n \<and>
       unat len = (if encrypted_key_data (key_information k) then unat n - 8 else unat n) \<and> take (unat len) buf = take (unat len) d))"
proof -
  let ?plen = "packet_length pdu"
  have r: "key_frame_ok k" "key_data_length k = n" "unat ?plen = 95 + unat n" "unat n < 65000"
    "key_description k = EAPOL_RSN_KEY_DESCRIPTION" "description_version (key_information k) = KEY_DESCRIPTION_HMAC_SHA1_MIC_AES_ENC"
    using assms(4) by (auto simp: message_ready_def)
  have ld: "length data = unat n" unfolding data_def by (rule length_payload [OF assms(1,3,6)])
  have tl: "unat sz = unat ?plen + 4"
    using r(3,4) by (simp add: assms(7) eapol_pdu_total_length_def EAPOL_BASE_LENGTH_def unat_add_nowrap)
  show "length rx = unat sz" unfolding rx_def using length_frame [OF r(1)] ld assms(5) tl r(3) by simp
  obtain p k' where p: "eapol_parse_pdu_header rx sz = Some (Some p)" "msg p = Msg_key k'" "frame_agrees k mic data k'"
    using key_pdu_parse [OF r(1) assms(5) r(5,6), of ?plen data sz "[]"] r(2,3) ld tl by (auto simp: rx_def frame_bytes_def)
  have h: "\<exists>buf len. sec_prot_lib_message_handle env key p = Some (Some (buf, len)) \<and> length buf = unat n \<and>
       unat len = (if encrypted_key_data (key_information k) then unat n - 8 else unat n) \<and> take (unat len) buf = take (unat len) d"
    if "kde = Some d" "n \<noteq> 0" for d
    using message_handle_spec [OF assms(1-3) p(2), of n d] p(3) r(2) that assms(6) by (simp add: frame_agrees_def data_def)
  then show "\<exists>p k'. eapol_parse_pdu_header rx sz = Some (Some p) \<and> msg p = Msg_key k' \<and> frame_agrees k mic data k' \<and>
    (\<forall>d. kde = Some d \<and> n \<noteq> 0 \<longrightarrow> (\<exists>buf len. sec_prot_lib_message_handle env key p = Some (Some (buf, len)) \<and> length buf = unat n \<and>
       unat len = (if encrypted_key_data (key_information k) then unat n - 8 else unat n) \<and> take (unat len) buf = take (unat len) d))"
    using p by blast
qed

lemma message_received:
  assumes "env_ok env" and "memory_left env" and "32 \<le> length key" and "message_ready pdu k n" and "key_mic_flag (key_information k)"
    and "kde_fits (encrypted_key_data (key_information k)) kde (unat n)" and "sz = eapol_pdu_total_length pdu" and "unat sz < 256"
  defines "data \<equiv> key_payload env key (encrypted_key_data (key_information k)) kde (unat n)"
  defines "rx \<equiv> frame_bytes k (packet_length pdu) (mic_of env key k (packet_length pdu) data) data"
  shows "length rx = unat sz" and "\<exists>p k' mic pdu'. eapol_parse_pdu_header rx sz = Some (Some p) \<and> msg p = Msg_key k' \<and>
    frame_agrees k (mic_of env key k (packet_length pdu) data) data k' \<and> key_mic k' = Some mic \<and>
    sec_prot_lib_mic_validate env key mic rx (ucast sz) = Some (0, pdu') \<and>
    (\<forall>d. kde = Some d \<and> n \<noteq> 0 \<longrightarrow> (\<exists>buf len. sec_prot_lib_message_handle env key p = Some (Some (buf, len)) \<and> length buf = unat n \<and>
       unat len = (if encrypted_key_data (key_information k) then unat n - 8 else unat n) \<and> take (unat len) buf = take (unat len) d))"
proof -
  let ?plen = "packet_length pdu" and ?mic = "mic_of env key k (packet_length pdu) data"
  have r: "key_frame_ok k" "unat ?plen = 95 + unat n" using assms(4) by (auto simp: message_ready_def)
  have lm: "length ?mic = 16" by (rule length_mic_of [OF assms(1)])
  note m = message_parsed [OF assms(1-4) lm assms(6,7), folded data_def, folded rx_def]
  show l: "length rx = unat sz" by (rule m(1))
  have ld: "length data = unat n" unfolding data_def by (rule length_payload [OF assms(1,3,6)])
  have u: "unat (ucast sz :: u8) = unat sz" using assms(8) by (simp add: unsigned_ucast_eq take_bit_nat_eq_self)
  obtain p k' where p: "eapol_parse_pdu_header rx sz = Some (Some p)" "msg p = Msg_key k'" "frame_agrees k ?mic data k'"
    "\<forall>d. kde = Some d \<and> n \<noteq> 0 \<longrightarrow> (\<exists>buf len. sec_prot_lib_message_handle env key p = Some (Some (buf, len)) \<and> length buf = unat n \<and>
       unat len = (if encrypted_key_data (key_information k) then unat n - 8 else unat n) \<and> take (unat len) buf = take (unat len) d)"
    using m(2) by blast
  obtain s where s: "key_mic k' = Some (?mic @ s)" using p(3) by (auto simp: frame_agrees_def points_to_def)
  have "unat sz = 83 + length ?mic + length data" using l length_frame [OF r(1)] by (simp add: rx_def)
  then have "sec_prot_lib_mic_validate env key (?mic @ s) rx (ucast sz) = Some (0, frame_bytes k ?plen (replicate 16 0) data)"
    using mic_validate_frame [OF assms(1) _ r(1) lm, of key ?plen data "ucast sz" s "[]"] assms(3) r(2) ld u lm by (simp add: rx_def)
  then show "\<exists>p k' mic pdu'. eapol_parse_pdu_header rx sz = Some (Some p) \<and> msg p = Msg_key k' \<and>
    frame_agrees k (mic_of env key k (packet_length pdu) data) data k' \<and> key_mic k' = Some mic \<and>
    sec_prot_lib_mic_validate env key mic rx (ucast sz) = Some (0, pdu') \<and>
    (\<forall>d. kde = Some d \<and> n \<noteq> 0 \<longrightarrow> (\<exists>buf len. sec_prot_lib_message_handle env key p = Some (Some (buf, len)) \<and> length buf = unat n \<and>
       unat len = (if encrypted_key_data (key_information k) then unat n - 8 else unat n) \<and> take (unat len) buf = take (unat len) d))"
    using p s by blast
qed

text \<open>The frames \<open>eapol_pdu_key_frame_init\<close> prepares, with their header completed, are ready to be built.\<close>

lemma key_frame_ready:
  assumes "unat n < 65000" and "description_version info = KEY_DESCRIPTION_HMAC_SHA1_MIC_AES_ENC" and "\<And>q. nonce = Some q \<Longrightarrow> 32 \<le> length q"
  shows "message_ready \<lparr>packet_type = EAPOL_KEY_TYPE, packet_length = n + word_of_nat EAPOL_KEY_FRAME_BASE_SIZE, packet_body = b,
      msg = Msg_key \<lparr>key_description = EAPOL_RSN_KEY_DESCRIPTION, key_information = info, key_length = l, replay_counter = c,
        key_nonce = nonce, key_iv = None, key_rsc = None, key_mic = None, key_data_length = n, key_data = None\<rparr>\<rparr>
    \<lparr>key_description = EAPOL_RSN_KEY_DESCRIPTION, key_information = info, key_length = l, replay_counter = c,
        key_nonce = nonce, key_iv = None, key_rsc = None, key_mic = None, key_data_length = n, key_data = None\<rparr> n"
  using assms by (auto simp: message_ready_def key_frame_ok_def eapol_consts unat_add_nowrap)

text \<open>
  C15. A message built with a MIC is received by a party that holds the same pairwise key: its frame has the length announced, is
  parsed with the key information and replay counter it was built from, its MIC is accepted, and its key
  data, encrypted or not, is read back. (Frames of up to 255 bytes: \<open>sec_prot_lib_mic_validate\<close> takes the length as a byte.)
\<close>

theorem message_exchange:
  assumes "env_ok env" and "memory_left env" and "32 \<le> length key" and "message_ready pdu k n" and "key_mic_flag (key_information k)"
    and "kde_fits (encrypted_key_data (key_information k)) kde (unat n)" and "unat (eapol_pdu_total_length pdu) < 256"
  defines "sz \<equiv> eapol_pdu_total_length pdu"
  shows "\<exists>frame p k' mic pdu'. sec_prot_lib_message_build env key kde n pdu sz h = Some (Some frame) \<and>
    length frame = unat h + unat sz \<and> eapol_parse_pdu_header (drop (unat h) frame) sz = Some (Some p) \<and> msg p = Msg_key k' \<and>
    key_information k' = key_information k \<and> replay_counter k' = replay_counter k \<and> key_mic k' = Some mic \<and>
    sec_prot_lib_mic_validate env key mic (drop (unat h) frame) (ucast sz) = Some (0, pdu') \<and>
    (\<forall>d. kde = Some d \<and> n \<noteq> 0 \<longrightarrow> (\<exists>buf len. sec_prot_lib_message_handle env key p = Some (Some (buf, len)) \<and>
       unat len = (if encrypted_key_data (key_information k) then unat n - 8 else unat n) \<and> take (unat len) buf = take (unat len) d))"
proof -
  have n: "unat (packet_length pdu) = 95 + unat n" "unat n < 65000" using assms(4) by (auto simp: message_ready_def)
  have "unat sz = unat (packet_length pdu) + 4"
    using n by (simp add: sz_def eapol_pdu_total_length_def EAPOL_BASE_LENGTH_def unat_add_nowrap)
  from message_build_spec [OF assms(1-4,6) this, of h] assms(5) obtain hdr where b: "length hdr = unat h"
    "sec_prot_lib_message_build env key kde n pdu sz h = Some (Some (hdr @ frame_bytes k (packet_length pdu)
      (mic_of env key k (packet_length pdu) (key_payload env key (encrypted_key_data (key_information k)) kde (unat n)))
      (key_payload env key (encrypted_key_data (key_information k)) kde (unat n))))" by auto
  have sz: "sz = eapol_pdu_total_length pdu" by (simp add: sz_def)
  have lt: "unat sz < 256" using assms(7) by (simp add: sz_def)
  note r = message_received [OF assms(1-6) sz lt]
  show ?thesis
    unfolding b(2) using r(2) r(1) b(1) by (auto simp: frame_agrees_def)
qed

theorem message_exchange_witness:
  "\<exists>pdu frame mic pdu'. sec_prot_lib_message_build env_example (replicate 48 9) (Some (replicate 16 7)) 24 pdu 123 5 = Some (Some frame) \<and>
    sec_prot_lib_mic_validate env_example (replicate 48 9) mic (drop 5 frame) 123 = Some (0, pdu')"
proof -
  let ?i = "key_information_zero\<lparr>description_version := KEY_DESCRIPTION_HMAC_SHA1_MIC_AES_ENC, key_mic_flag := True, encrypted_key_data := True\<rparr>"
  note ready = key_frame_ready [of 24 ?i None None 0 1, simplified]
  have fits: "kde_fits (encrypted_key_data ?i) (Some (replicate 16 7)) (unat (24 :: u16))" by (simp add: kde_fits_def)
  from message_exchange [OF env_example_ok _ ready _ _, of "replicate 48 9" "Some (replicate 16 7)" 5] fits show ?thesis
    by (auto simp: eapol_pdu_total_length_def eapol_consts key_information_zero_def)
qed

text \<open>The MIC check of any frame that was parsed as a key frame.\<close>

lemma mic_validate_received:
  assumes "env_ok env" and "16 \<le> length key" and "eapol_parse_pdu_header rx sz = Some (Some p)" and "msg p = Msg_key k"
    and "key_mic k = Some mic" and "length rx = unat sz" and "unat sz < 256"
  defines "z \<equiv> take 81 rx @ replicate 16 0 @ drop 97 rx"
  shows "sec_prot_lib_mic_validate env key mic rx (ucast sz) =
    Some (if take 16 (drop 81 rx) = take 16 (sha1_mac env (take 16 key) (take (unat (packet_length p) + 4) z)) then 0 else -1, z)"
proof -
  define n where "n = packet_length p"
  have "read_be16 (drop 2 rx) = Some n" "unat n + 4 \<le> unat sz" "mic = drop 77 (drop 4 rx)" "\<not> unat n < 95"
    using assms(3-5) by (auto simp: eapol_parse_pdu_header_def eapol_parse_key_packet_def eapol_parse_eap_packet_def n_def
        EAPOL_BASE_LENGTH_def EAPOL_KEY_FRAME_BASE_SIZE_def bind_eq_Some_conv Let_def simp del: of_nat_unat split: if_splits)
  then have f: "read_be16 (drop 2 rx) = Some n" "unat n + 4 \<le> unat sz" "mic = drop 81 rx" "99 \<le> length rx"
    using assms(6) by (simp_all add: add.commute)
  have "take 2 (drop 2 z) = take 2 (drop 2 rx)" using f(4) by (simp add: z_def drop_take)
  then have "read_be16 (drop 2 z) = Some n" using f(1,4) by (simp add: read_be_eq z_def)
  moreover have lz: "length z = unat sz" using f(4) assms(6) by (simp add: z_def)
  moreover have "eapol_write_key_packet_mic rx None = Some z" using f(4) by (simp add: eapol_write_key_packet_mic_def store_n_def z_def)
  moreover have "unat (n + 4) = unat n + 4" using f(2) assms(7) by (simp add: unat_add_nowrap)
  moreover have "(ucast (ucast sz :: u8) :: u16) = sz" using assms(7)
    by (simp add: word_unat_eq_iff unsigned_ucast_eq unsigned_take_bit_eq take_bit_nat_eq_self)
  moreover have "sz > n" using f(2) by (simp add: word_less_nat_alt)
  ultimately show ?thesis
    using f assms(1,2) unfolding n_def [symmetric]
    by (simp add: sec_prot_lib_mic_validate_def EAPOL_KEY_MIC_LEN_def load_n_def hmac_md_calc_def Let_def env_hmac_ok length_sha1_mac)
qed

text \<open>
  C16. A received EAPOL-Key frame of up to 255 bytes, whatever its contents, passes the MIC check exactly when its MIC field holds
  the first 16 bytes of HMAC-SHA1, under the key confirmation key, of the frame with that field set to zero; bytes
  behind the length in the frame's header are not covered. The check leaves the frame with the field zeroed.
\<close>

theorem mic_validate_iff:
  assumes "env_ok env" and "16 \<le> length key" and "eapol_parse_pdu_header rx sz = Some (Some p)" and "msg p = Msg_key k"
    and "key_mic k = Some mic" and "length rx = unat sz" and "unat sz < 256"
  defines "z \<equiv> take 81 rx @ replicate 16 0 @ drop 97 rx"
  shows "sec_prot_lib_mic_validate env key mic rx (ucast sz) =
    Some (if take 16 (drop 81 rx) = take 16 (sha1_mac env (take 16 key) (take (unat (packet_length p) + 4) z)) then 0 else -1, z)"
  unfolding z_def by (rule mic_validate_received [OF assms(1-7)])

theorem mic_validate_iff_witness:
  "sec_prot_lib_mic_validate env_example (replicate 48 9) (replicate 18 0) ([3, 3, 0, 95, 2, 0, 2] @ replicate 92 0) 99 =
    Some (if replicate 16 0 = take 16 (sha1_mac env_example (replicate 16 9) ([3, 3, 0, 95, 2, 0, 2] @ replicate 92 0)) then 0 else -1,
      [3, 3, 0, 95, 2, 0, 2] @ replicate 92 0)"
proof -
  let ?rx = "[3, 3, 0, 95, 2, 0, 2] @ replicate 92 0 :: u8 list"
  have p: "\<exists>p k. eapol_parse_pdu_header ?rx 99 = Some (Some p) \<and> msg p = Msg_key k \<and> key_mic k = Some (replicate 18 0) \<and> packet_length p = 95"
    by (simp add: eapol_parse_pdu_header_def eapol_parse_key_packet_def eapol_key_information_read_def eapol_consts load_def
        read_be16_def read_be64_def)
  then obtain p k where p: "eapol_parse_pdu_header ?rx 99 = Some (Some p)" "msg p = Msg_key k" "key_mic k = Some (replicate 18 0)"
    "packet_length p = 95" by blast
  have z: "replicate 74 0 @ replicate 16 0 @ replicate 2 0 = (replicate 92 0 :: u8 list)" by (simp flip: replicate_add)
  show ?thesis using mic_validate_iff [OF env_example_ok(1) _ p(1,2,3), of "replicate 48 9"] p(4) unfolding z [symmetric] by simp
qed

section \<open>Group keys received\<close>

text \<open>The table after a key was received: unchanged when that key is installed already, else with the key, new, and its lifetime.\<close>

definition installed :: "nat \<Rightarrow> u8 list \<Rightarrow> u32 \<Rightarrow> sec_prot_gtk_keys \<Rightarrow> sec_prot_gtk_keys \<Rightarrow> bool" where
  "installed i g t keys keys' \<longleftrightarrow> gtks_inv keys' \<and> sec_prot_keys_gtk_get keys' i = Some g \<and>
     (if sec_prot_keys_gtk_get keys i = Some g then keys' = keys
      else sec_prot_keys_gtk_lifetime_get keys' i = t \<and> sec_prot_keys_gtk_status_get keys' i = GTK_STATUS_NEW \<and>
        set_keys keys' = insert i (set_keys keys))"

lemma gtk_set_installed:
  assumes "gtks_inv keys" and "i < 4" and "length g = 16"
  shows "\<exists>r keys'. sec_prot_keys_gtk_set keys i (Some g) t = Some (r, keys') \<and> installed i g t keys keys'"
proof (cases "sec_prot_keys_gtk_get keys i = Some g")
  case True
  then have "gk_set (gtk keys ! i)" "gk_key (gtk keys ! i) = g"
    using assms(2) by (auto simp: sec_prot_keys_gtk_get_def split: if_splits)
  then have "sec_prot_keys_gtk_set keys i (Some g) t = Some (-1, keys)"
    using assms(2,3) by (simp add: sec_prot_keys_gtk_set_def GTK_NUM_def GTK_LEN_def load_n_def)
  then show ?thesis using True assms(1) by (simp add: installed_def)
next
  case False
  then have "\<not> (gk_set (gtk keys ! i) \<and> gk_key (gtk keys ! i) = g)"
    using assms(2) by (auto simp: sec_prot_keys_gtk_get_def GTK_NUM_def)
  from set_spec [OF assms this, of t] obtain keys' where k: "sec_prot_keys_gtk_set keys i (Some g) t = Some (0, keys')"
    "gtks_inv keys'" "set_keys keys' = insert i (set_keys keys)" "gtk keys' ! i = \<lparr>gk_key = g, gk_lifetime = t, gk_status = 0,
       gk_install_order = card (set_keys keys - {i}), gk_set = True\<rparr>" by blast
  then have "installed i g t keys keys'"
    using False assms(2) by (simp add: installed_def sec_prot_keys_gtk_get_def sec_prot_keys_gtk_lifetime_get_def
        sec_prot_keys_gtk_status_get_def GTK_NUM_def GTK_STATUS_NEW_def)
  then show ?thesis using k(1) by blast
qed

text \<open>The three elements of a group key message, as the readers find them.\<close>

lemma key_index: "unat (i AND 3 :: u8) < 4"
proof -
  have "i AND 3 \<le> (3 :: u8)" by (rule word_and_le1)
  then show ?thesis by (simp add: word_le_nat_alt)
qed

lemma gtk_read_spec:
  assumes "gtks_inv keys" and "kde_received (Gtk i g) buf (unat len)" and "kde_received (Lifetime t) buf (unat len)"
    and "kde_received (Gtkl l) buf (unat len)" and "length g = 16"
  shows "\<exists>keys'. sec_prot_lib_gtk_read buf len keys s = Some (0, keys', s\<lparr>gtkl := l\<rparr>) \<and> installed (unat (i AND 3)) g t keys keys'"
  using gtk_set_installed [OF assms(1) key_index [of i] assms(5), of t] assms(2-4)
  by (auto simp: sec_prot_lib_gtk_read_def sec_prot_keys_gtkl_set_def)

lemma lgtk_read_spec:
  assumes "gtks_inv keys" and "kde_received (Lgtk i g) buf (unat len)" and "kde_received (Lifetime t) buf (unat len)"
    and "kde_received (Lgtkl l) buf (unat len)" and "length g = 16"
  shows "\<exists>keys'. sec_prot_lib_lgtk_read buf len keys s = Some (0, keys', s\<lparr>gtkl := l\<rparr>) \<and> installed (unat (i AND 3)) g t keys keys'"
  using gtk_set_installed [OF assms(1) key_index [of i] assms(5), of t] assms(2-4)
  by (auto simp: sec_prot_lib_lgtk_read_def sec_prot_keys_gtkl_set_def)

end
