(* ===== verification/Gkh.thy ===== *)
theory Gkh
  imports SecLib
begin

text \<open>
  \<open>src/stack/source/security/protocols/gkh_sec_prot\<close>: the group key handshake (2WH) of IEEE 802.11, both sides of it,
  \<open>auth_gkh_sec_prot.c\<close> for the authenticator and \<open>supp_gkh_sec_prot.c\<close> for the supplicant.

  An instance extends the common record. \<open>g_recv_eapol_pdu\<close> is \<open>None\<close> when the structure is cleared. \<open>g_keys\<close>
  is the object \<open>prot->sec_keys\<close> points to, \<open>g_gtks\<close> and \<open>g_lgtks\<close> are the key tables its fields \<open>gtks\<close> and \<open>lgtks\<close> point
  to. What \<open>prot->sec_cfg\<close>, mbedtls and the C library provide is a \<open>gkh_cfg\<close>. The return value of a message function
  that no caller looks at is left out, as are traces.

  The state machine and \<open>sec_prot_state_set\<close> call each other; the definition counts the calls with a number \<open>n\<close>, the depth
  allowed, and the property \<open>gkh_depth\<close> shows that two nested calls are all there ever are.
\<close>

section \<open>State\<close>

record 'c gkh_prot = sec_prot +
  g_recv_eapol_pdu :: "eapol_pdu option"
  g_recv_pdu :: "u8 list option"
  g_recv_size :: u16
  g_keys :: "'c sec_prot_keys"
  g_gtks :: sec_prot_gtk_keys
  g_lgtks :: sec_prot_gtk_keys

record gkh_cfg =
  c_env :: env
  c_sha256 :: "u8 list \<Rightarrow> u8 list option"
  c_trickle :: trickle_params

datatype gkh_sec_prot_msg_e = GKH_MESSAGE_UNKNOWN | GKH_MESSAGE_1 | GKH_MESSAGE_2

abbreviation "GKH_STATE_INIT \<equiv> SEC_STATE_INIT"
abbreviation "GKH_STATE_CREATE_REQ \<equiv> SEC_STATE_CREATE_REQ"
abbreviation "GKH_STATE_CREATE_RESP \<equiv> SEC_STATE_CREATE_RESP"
abbreviation "GKH_STATE_MESSAGE_1 \<equiv> SEC_STATE_FIRST"
abbreviation "GKH_STATE_MESSAGE_2 \<equiv> SEC_STATE_FIRST"
abbreviation "GKH_STATE_FINISH \<equiv> SEC_STATE_FINISH"
abbreviation "GKH_STATE_FINISHED \<equiv> SEC_STATE_FINISHED"

definition frame_key :: "eapol_pdu \<Rightarrow> eapol_key_frame option" where
  "frame_key pdu = (case msg pdu of Msg_key k \<Rightarrow> Some k | Msg_eap _ \<Rightarrow> None)"

section \<open>Authenticator\<close>

definition auth_gkh_sec_prot_message_get :: "eapol_pdu \<Rightarrow> 'c sec_prot_keys \<Rightarrow> gkh_sec_prot_msg_e option" where
  "auth_gkh_sec_prot_message_get pdu keys =
     do { k \<leftarrow> frame_key pdu;
          if pairwise_key (key_information k) then Some GKH_MESSAGE_UNKNOWN
          else let key_mask = eapol_pdu_key_mask_get k in
               Some (if key_mask = KEY_INFO_KEY_MIC OR KEY_INFO_SECURED_KEY_FRAME
                     then (if replay_counter k = sec_prot_keys_pmk_replay_cnt_get keys then GKH_MESSAGE_2 else GKH_MESSAGE_UNKNOWN)
                     else GKH_MESSAGE_UNKNOWN) }"

text \<open>The key data of message 1: the GTK to insert with its lifetime and the list of live keys, or those of the LGTK.\<close>

definition auth_gkh_kdes :: "u8 list \<Rightarrow> nat \<Rightarrow> 'c gkh_prot \<Rightarrow> u8 list option" where
  "auth_gkh_kdes kde_start kde_len p =
     do { g \<leftarrow> sec_prot_keys_get_gtk_to_insert (g_gtks p) (gtks (g_keys p));
          lg \<leftarrow> sec_prot_keys_get_gtk_to_insert (g_lgtks p) (lgtks (g_keys p));
          kde_end \<leftarrow>
            (case g of
               Some (gtk_index, g) \<Rightarrow>
                 do { kde_end \<leftarrow> kde_gtk_write (kde_start, 0) (word_of_nat gtk_index) g;
                      kde_end \<leftarrow> kde_lifetime_write kde_end (sec_prot_keys_gtk_lifetime_get (g_gtks p) gtk_index);
                      kde_gtkl_write kde_end (sec_prot_keys_fresh_gtkl_get (g_gtks p)) }
             | None \<Rightarrow>
                 (case lg of
                    Some (lgtk_index, lg) \<Rightarrow>
                      do { kde_end \<leftarrow> kde_lgtk_write (kde_start, 0) (word_of_nat lgtk_index) lg;
                           kde_end \<leftarrow> kde_lifetime_write kde_end (sec_prot_keys_gtk_lifetime_get (g_lgtks p) lgtk_index);
                           kde_lgtkl_write kde_end (sec_prot_keys_fresh_gtkl_get (g_lgtks p)) }
                  | None \<Rightarrow> Some (kde_start, 0)));
          kde_padding_write kde_end kde_len }"

definition upd_key :: "(eapol_key_frame \<Rightarrow> eapol_key_frame) \<Rightarrow> eapol_pdu \<Rightarrow> eapol_pdu" where
  "upd_key f pdu = (case msg pdu of Msg_key k \<Rightarrow> pdu\<lparr>msg := Msg_key (f k)\<rparr> | Msg_eap _ \<Rightarrow> pdu)"

definition auth_gkh_sec_prot_message_send :: "gkh_cfg \<Rightarrow> gkh_sec_prot_msg_e \<Rightarrow> 'c gkh_prot \<Rightarrow> 'c gkh_prot option" where
  "auth_gkh_sec_prot_message_send cfg m p =
     (let kde_len = (if m = GKH_MESSAGE_1
                     then let kde_len = word_of_nat (KDE_GTK_LEN + KDE_LIFETIME_LEN + KDE_GTKL_LEN); kde_len = kde_len + 8
                          in kde_padded_length_calc kde_len
                     else 0)
      in case env_malloc (c_env cfg) (unat kde_len) of None \<Rightarrow> Some p
         | Some kde_start \<Rightarrow>
             do { kde_start \<leftarrow> (if m = GKH_MESSAGE_1 then auth_gkh_kdes kde_start (unat kde_len) p else Some kde_start);
                  let (eapol_pdu_size, eapol_pdu) = eapol_pdu_key_frame_init kde_len None;
                  let (ok, keys) = (if m = GKH_MESSAGE_1 then sec_prot_keys_pmk_replay_cnt_increment (g_keys p) else (True, g_keys p));
                  let p = p\<lparr>g_keys := keys\<rparr>;
                  if \<not> ok then Some p
                  else do { let eapol_pdu = (if m = GKH_MESSAGE_1 then upd_key (\<lambda>k. k\<lparr>
                                  replay_counter := sec_prot_keys_pmk_replay_cnt_get (g_keys p),
                                  key_information := (key_information k)\<lparr>key_ack := True, key_mic_flag := True,
                                     secured_key_frame := True, encrypted_key_data := True\<rparr>,
                                  key_length := 0\<rparr>) eapol_pdu else eapol_pdu);
                            f \<leftarrow> sec_prot_lib_message_build (c_env cfg) (ptk (g_keys p)) (Some kde_start) kde_len eapol_pdu
                                   eapol_pdu_size (sp_header_size p);
                            case f of None \<Rightarrow> Some p | Some f \<Rightarrow> Some (emit (Send f) p) } })"

text \<open>The result of \<open>malloc\<close> is passed on unchecked; a null pointer has no bytes to send.\<close>

definition auth_gkh_sec_prot_auth_completed_send :: "gkh_cfg \<Rightarrow> 'c gkh_prot \<Rightarrow> 'c gkh_prot option" where
  "auth_gkh_sec_prot_auth_completed_send cfg p =
     do { f \<leftarrow> env_malloc (c_env cfg) (unat (sp_header_size p)); Some (emit (Send f) p) }"

definition gkh_mic_validate :: "gkh_cfg \<Rightarrow> 'c gkh_prot \<Rightarrow> (int \<times> 'c gkh_prot) option" where
  "gkh_mic_validate cfg p =
     do { pdu \<leftarrow> g_recv_eapol_pdu p;
          k \<leftarrow> frame_key pdu;
          mic \<leftarrow> key_mic k;
          rx \<leftarrow> g_recv_pdu p;
          (r, rx) \<leftarrow> sec_prot_lib_mic_validate (c_env cfg) (ptk (g_keys p)) mic rx (ucast (g_recv_size p));
          Some (r, p\<lparr>g_recv_pdu := Some rx\<rparr>) }"

definition auth_gkh_sec_prot_mic_validate :: "gkh_cfg \<Rightarrow> 'c gkh_prot \<Rightarrow> (int \<times> 'c gkh_prot) option" where
  "auth_gkh_sec_prot_mic_validate cfg p = gkh_mic_validate cfg p"

fun auth_gkh_sec_prot_state_machine :: "gkh_cfg \<Rightarrow> nat \<Rightarrow> 'c gkh_prot \<Rightarrow> 'c gkh_prot option" where
  "auth_gkh_sec_prot_state_machine cfg 0 p = None"
| "auth_gkh_sec_prot_state_machine cfg (Suc n) p =
     (let sm = auth_gkh_sec_prot_state_machine cfg n; st = sec_prot_state_get (sp_common p) in
      if st = GKH_STATE_INIT then
        do { p \<leftarrow> sec_prot_state_set sm GKH_STATE_CREATE_REQ p; Some (emit Timer_start p) }
      else if st = GKH_STATE_CREATE_REQ then
        do { let p = upd_common sec_prot_default_timeout_set p;
             let p = emit (Create_conf SEC_RESULT_OK) p;
             p \<leftarrow> auth_gkh_sec_prot_message_send cfg GKH_MESSAGE_1 p;
             p \<leftarrow> sec_prot_timer_trickle_start (c_trickle cfg) p;
             p \<leftarrow> sec_prot_state_set sm GKH_STATE_MESSAGE_2 p;
             g \<leftarrow> sec_prot_keys_ptk_installed_gtk_hash_set (c_sha256 cfg) (g_gtks p) (gtks (g_keys p)) False;
             let p = p\<lparr>g_keys := (g_keys p)\<lparr>gtks := g\<rparr>\<rparr>;
             g \<leftarrow> sec_prot_keys_ptk_installed_gtk_hash_set (c_sha256 cfg) (g_lgtks p) (lgtks (g_keys p)) False;
             Some (p\<lparr>g_keys := (g_keys p)\<lparr>lgtks := g\<rparr>\<rparr>) }
      else if st = GKH_STATE_MESSAGE_2 then
        do { let (timeout, d) = sec_prot_result_timeout_check (sp_common p);
             let p = p\<lparr>sp_common := d\<rparr>;
             if timeout then auth_gkh_sec_prot_message_send cfg GKH_MESSAGE_1 p
             else do { (r, p) \<leftarrow> auth_gkh_sec_prot_mic_validate cfg p;
                       if r < 0 then Some p
                       else do { let p = p\<lparr>g_keys := (g_keys p)\<lparr>gtks := sec_prot_keys_gtkl_from_gtk_insert_index_set (gtks (g_keys p))\<rparr>\<rparr>;
                                 let p = p\<lparr>g_keys := (g_keys p)\<lparr>lgtks := sec_prot_keys_gtkl_from_gtk_insert_index_set (lgtks (g_keys p))\<rparr>\<rparr>;
                                 sec_prot_state_set sm GKH_STATE_FINISH p } } }
      else if st = GKH_STATE_FINISH then
        do { let p = emit (Finished_ind (sec_prot_result_get (sp_common p))) p;
             p \<leftarrow> (if sp_completed p then auth_gkh_sec_prot_auth_completed_send cfg p else Some p);
             sec_prot_state_set sm GKH_STATE_FINISHED p }
      else if st = GKH_STATE_FINISHED then Some (emit Finished (emit Timer_stop p))
      else Some p)"

definition auth_gkh_sec_prot_init ::
  "('c gkh_prot \<Rightarrow> 'c gkh_prot option) \<Rightarrow> 'c gkh_prot \<Rightarrow> 'c gkh_prot option" where
  "auth_gkh_sec_prot_init sm p = sec_prot_state_set sm GKH_STATE_INIT (upd_common sec_prot_init p)"

definition auth_gkh_sec_prot_create_request :: "'c sec_prot_keys \<Rightarrow> 'c gkh_prot \<Rightarrow> 'c gkh_prot" where
  "auth_gkh_sec_prot_create_request keys p = emit State_machine_call (p\<lparr>g_keys := keys\<rparr>)"

definition auth_gkh_sec_prot_timer_timeout ::
  "gkh_cfg \<Rightarrow> ('c gkh_prot \<Rightarrow> 'c gkh_prot option) \<Rightarrow> u16 \<Rightarrow> 'c gkh_prot \<Rightarrow> 'c gkh_prot option" where
  "auth_gkh_sec_prot_timer_timeout cfg sm ticks p = sec_prot_timer_timeout_handle sm (Some (c_trickle cfg)) ticks p"

text \<open>Receiving is the same on both sides but for \<open>message_get\<close>.\<close>

definition gkh_clear :: "'c gkh_prot \<Rightarrow> 'c gkh_prot" where
  "gkh_clear p = p\<lparr>g_recv_eapol_pdu := None, g_recv_pdu := None, g_recv_size := 0\<rparr>"

definition gkh_receive ::
  "(eapol_pdu \<Rightarrow> 'c sec_prot_keys \<Rightarrow> gkh_sec_prot_msg_e option) \<Rightarrow> ('c gkh_prot \<Rightarrow> 'c gkh_prot option) \<Rightarrow> u8 list \<Rightarrow> u16 \<Rightarrow>
     'c gkh_prot \<Rightarrow> (int \<times> 'c gkh_prot) option" where
  "gkh_receive message_get sm pdu len p =
     do { r \<leftarrow> eapol_parse_pdu_header pdu len;
          (ret_val, p) \<leftarrow>
            (case r of None \<Rightarrow> Some (-1, p)
             | Some e \<Rightarrow>
                 do { m \<leftarrow> message_get e (g_keys p);
                      p \<leftarrow> (if m \<noteq> GKH_MESSAGE_UNKNOWN
                           then sm (p\<lparr>g_recv_eapol_pdu := Some e, g_recv_pdu := Some pdu, g_recv_size := len\<rparr>) else Some p);
                      Some (0, p) });
          Some (ret_val, gkh_clear p) }"

definition auth_gkh_sec_prot_receive ::
  "('c gkh_prot \<Rightarrow> 'c gkh_prot option) \<Rightarrow> u8 list \<Rightarrow> u16 \<Rightarrow> 'c gkh_prot \<Rightarrow> (int \<times> 'c gkh_prot) option" where
  "auth_gkh_sec_prot_receive = gkh_receive auth_gkh_sec_prot_message_get"

section \<open>Supplicant\<close>

definition supp_gkh_sec_prot_message_get :: "eapol_pdu \<Rightarrow> 'c sec_prot_keys \<Rightarrow> gkh_sec_prot_msg_e option" where
  "supp_gkh_sec_prot_message_get pdu keys =
     do { k \<leftarrow> frame_key pdu;
          if pairwise_key (key_information k) then Some GKH_MESSAGE_UNKNOWN
          else let key_mask = eapol_pdu_key_mask_get k in
               Some (if key_mask = KEY_INFO_KEY_ACK OR KEY_INFO_KEY_MIC OR KEY_INFO_SECURED_KEY_FRAME
                     then (if sec_prot_keys_pmk_replay_cnt_compare (replay_counter k) keys
                           then (if encrypted_key_data (key_information k) then GKH_MESSAGE_1 else GKH_MESSAGE_UNKNOWN)
                           else GKH_MESSAGE_UNKNOWN)
                     else GKH_MESSAGE_UNKNOWN) }"

definition supp_gkh_sec_prot_message_send :: "gkh_cfg \<Rightarrow> gkh_sec_prot_msg_e \<Rightarrow> 'c gkh_prot \<Rightarrow> 'c gkh_prot option" where
  "supp_gkh_sec_prot_message_send cfg m p =
     do { let (eapol_pdu_size, eapol_pdu) = eapol_pdu_key_frame_init 0 None;
          let eapol_pdu = (if m = GKH_MESSAGE_2 then upd_key (\<lambda>k. k\<lparr>
                  replay_counter := sec_prot_keys_pmk_replay_cnt_get (g_keys p),
                  key_information := (key_information k)\<lparr>key_mic_flag := True, secured_key_frame := True\<rparr>,
                  key_length := 0\<rparr>) eapol_pdu else eapol_pdu);
          f \<leftarrow> sec_prot_lib_message_build (c_env cfg) (ptk (g_keys p)) None 0 eapol_pdu eapol_pdu_size (sp_header_size p);
          case f of None \<Rightarrow> Some p | Some f \<Rightarrow> Some (emit (Send f) p) }"

definition supp_gkh_sec_prot_mic_validate :: "gkh_cfg \<Rightarrow> 'c gkh_prot \<Rightarrow> (int \<times> 'c gkh_prot) option" where
  "supp_gkh_sec_prot_mic_validate cfg p = gkh_mic_validate cfg p"

definition supp_gkh_sec_prot_security_replay_counter_update :: "'c gkh_prot \<Rightarrow> 'c gkh_prot option" where
  "supp_gkh_sec_prot_security_replay_counter_update p =
     do { pdu \<leftarrow> g_recv_eapol_pdu p;
          k \<leftarrow> frame_key pdu;
          Some (p\<lparr>g_keys := sec_prot_keys_pmk_replay_cnt_set (g_keys p) (replay_counter k)\<rparr>) }"

definition supp_gkh_kde_handle :: "gkh_cfg \<Rightarrow> 'c gkh_prot \<Rightarrow> (int \<times> 'c gkh_prot) option" where
  "supp_gkh_kde_handle cfg p =
     do { pdu \<leftarrow> g_recv_eapol_pdu p;
          kde \<leftarrow> sec_prot_lib_message_handle (c_env cfg) (ptk (g_keys p)) pdu;
          case kde of None \<Rightarrow> Some (-1, p)
          | Some (kde, kde_len) \<Rightarrow>
              do { (ret, ks, g) \<leftarrow> sec_prot_lib_gtk_read kde kde_len (g_gtks p) (gtks (g_keys p));
                   let p = p\<lparr>g_gtks := ks, g_keys := (g_keys p)\<lparr>gtks := g\<rparr>\<rparr>;
                   if ret \<noteq> 0
                   then do { (ret, ks, g) \<leftarrow> sec_prot_lib_lgtk_read kde kde_len (g_lgtks p) (lgtks (g_keys p));
                             Some (ret, p\<lparr>g_lgtks := ks, g_keys := (g_keys p)\<lparr>lgtks := g\<rparr>\<rparr>) }
                   else Some (ret, p) } }"

fun supp_gkh_sec_prot_state_machine :: "gkh_cfg \<Rightarrow> nat \<Rightarrow> 'c gkh_prot \<Rightarrow> 'c gkh_prot option" where
  "supp_gkh_sec_prot_state_machine cfg 0 p = None"
| "supp_gkh_sec_prot_state_machine cfg (Suc n) p =
     (let sm = supp_gkh_sec_prot_state_machine cfg n; st = sec_prot_state_get (sp_common p) in
      if st = GKH_STATE_INIT then
        do { p \<leftarrow> sec_prot_state_set sm GKH_STATE_MESSAGE_1 p; Some (emit Timer_start p) }
      else if st = GKH_STATE_MESSAGE_1 then
        do { (r, p) \<leftarrow> supp_gkh_sec_prot_mic_validate cfg p;
             if r < 0 then Some p
             else do { (r, p) \<leftarrow> supp_gkh_kde_handle cfg p;
                       if r < 0 then Some p
                       else do { let p = upd_common sec_prot_default_timeout_set p;
                                 p \<leftarrow> supp_gkh_sec_prot_security_replay_counter_update p;
                                 let p = emit Create_ind p;
                                 sec_prot_state_set sm GKH_STATE_CREATE_RESP p } } }
      else if st = GKH_STATE_CREATE_RESP then
        (if sec_prot_result_ok_check (sp_common p)
         then do { p \<leftarrow> supp_gkh_sec_prot_message_send cfg GKH_MESSAGE_2 p; sec_prot_state_set sm GKH_STATE_FINISH p }
         else sec_prot_state_set sm GKH_STATE_FINISHED p)
      else if st = GKH_STATE_FINISH then
        do { let p = emit (Finished_ind (sec_prot_result_get (sp_common p))) p;
             sec_prot_state_set sm GKH_STATE_FINISHED p }
      else if st = GKH_STATE_FINISHED then Some (emit Finished (emit Timer_stop p))
      else Some p)"

definition supp_gkh_sec_prot_init ::
  "('c gkh_prot \<Rightarrow> 'c gkh_prot option) \<Rightarrow> 'c gkh_prot \<Rightarrow> 'c gkh_prot option" where
  "supp_gkh_sec_prot_init sm p = sec_prot_state_set sm GKH_STATE_INIT (upd_common sec_prot_init p)"

definition supp_gkh_sec_prot_create_response :: "sec_prot_result_e \<Rightarrow> 'c gkh_prot \<Rightarrow> 'c gkh_prot" where
  "supp_gkh_sec_prot_create_response result p = emit State_machine_call (upd_common (sec_prot_result_set result) p)"

definition supp_gkh_sec_prot_timer_timeout ::
  "('c gkh_prot \<Rightarrow> 'c gkh_prot option) \<Rightarrow> u16 \<Rightarrow> 'c gkh_prot \<Rightarrow> 'c gkh_prot option" where
  "supp_gkh_sec_prot_timer_timeout sm ticks p = sec_prot_timer_timeout_handle sm None ticks p"

definition supp_gkh_sec_prot_receive ::
  "('c gkh_prot \<Rightarrow> 'c gkh_prot option) \<Rightarrow> u8 list \<Rightarrow> u16 \<Rightarrow> 'c gkh_prot \<Rightarrow> (int \<times> 'c gkh_prot) option" where
  "supp_gkh_sec_prot_receive = gkh_receive supp_gkh_sec_prot_message_get"

section \<open>The depth of the calls\<close>

lemma more_fields:
  "sec_prot.more (p :: 'c gkh_prot) = sec_prot.more q \<Longrightarrow> g_keys p = g_keys q \<and> g_gtks p = g_gtks q \<and> g_lgtks p = g_lgtks q"
  by (cases p; cases q) simp

text \<open>The state machine in its two final states calls nothing that could enter it again.\<close>

lemma auth_final:
  assumes "sc_state (sp_common p) \<in> {SEC_STATE_FINISH, SEC_STATE_FINISHED}"
  shows "auth_gkh_sec_prot_state_machine cfg (Suc n) p = auth_gkh_sec_prot_state_machine cfg (Suc m) p"
  using assms by (auto simp: sec_prot_state_get_def Let_def intro!: fun_cong [OF plain_states(4)] arg_cong [OF plain_states(4)])

lemma supp_final:
  assumes "sc_state (sp_common p) \<in> {SEC_STATE_FINISH, SEC_STATE_FINISHED}"
  shows "supp_gkh_sec_prot_state_machine cfg (Suc n) p = supp_gkh_sec_prot_state_machine cfg (Suc m) p"
  using assms by (auto simp: sec_prot_state_get_def Let_def intro!: fun_cong [OF plain_states(4)])

lemma auth_depth:
  fixes p :: "'c gkh_prot"
  shows "auth_gkh_sec_prot_state_machine cfg (Suc (Suc n)) p = auth_gkh_sec_prot_state_machine cfg (Suc (Suc m)) p"
proof -
  let ?n = "auth_gkh_sec_prot_state_machine cfg (Suc n) :: 'c gkh_prot \<Rightarrow> 'c gkh_prot option"
    and ?m = "auth_gkh_sec_prot_state_machine cfg (Suc m) :: 'c gkh_prot \<Rightarrow> 'c gkh_prot option"
  have eq: "sec_prot_state_set ?n st = sec_prot_state_set ?m st" if "st \<noteq> SEC_STATE_INIT" for st
    using state_set_finish [of ?n ?m] state_set_plain [of st ?n ?m] auth_final [of _ cfg n m] that
    by (cases "st = SEC_STATE_FINISH") (auto simp del: auth_gkh_sec_prot_state_machine.simps)
  have "sec_prot_state_set ?n SEC_STATE_CREATE_REQ = sec_prot_state_set ?m SEC_STATE_CREATE_REQ"
    "sec_prot_state_set ?n SEC_STATE_CREATE_RESP = sec_prot_state_set ?m SEC_STATE_CREATE_RESP"
    "sec_prot_state_set ?n SEC_STATE_FIRST = sec_prot_state_set ?m SEC_STATE_FIRST"
    "sec_prot_state_set ?n SEC_STATE_FINISH = sec_prot_state_set ?m SEC_STATE_FINISH"
    "sec_prot_state_set ?n SEC_STATE_FINISHED = sec_prot_state_set ?m SEC_STATE_FINISHED" by (rule eq; simp)+
  then show ?thesis
    unfolding auth_gkh_sec_prot_state_machine.simps(2) [of cfg "Suc n"] auth_gkh_sec_prot_state_machine.simps(2) [of cfg "Suc m"] Let_def
    by (simp only:)
qed

lemma supp_depth:
  fixes p :: "'c gkh_prot"
  shows "supp_gkh_sec_prot_state_machine cfg (Suc (Suc n)) p = supp_gkh_sec_prot_state_machine cfg (Suc (Suc m)) p"
proof -
  let ?n = "supp_gkh_sec_prot_state_machine cfg (Suc n) :: 'c gkh_prot \<Rightarrow> 'c gkh_prot option"
    and ?m = "supp_gkh_sec_prot_state_machine cfg (Suc m) :: 'c gkh_prot \<Rightarrow> 'c gkh_prot option"
  have eq: "sec_prot_state_set ?n st = sec_prot_state_set ?m st" if "st \<noteq> SEC_STATE_INIT" for st
    using state_set_finish [of ?n ?m] state_set_plain [of st ?n ?m] supp_final [of _ cfg n m] that
    by (cases "st = SEC_STATE_FINISH") (auto simp del: supp_gkh_sec_prot_state_machine.simps)
  have "sec_prot_state_set ?n SEC_STATE_CREATE_REQ = sec_prot_state_set ?m SEC_STATE_CREATE_REQ"
    "sec_prot_state_set ?n SEC_STATE_CREATE_RESP = sec_prot_state_set ?m SEC_STATE_CREATE_RESP"
    "sec_prot_state_set ?n SEC_STATE_FIRST = sec_prot_state_set ?m SEC_STATE_FIRST"
    "sec_prot_state_set ?n SEC_STATE_FINISH = sec_prot_state_set ?m SEC_STATE_FINISH"
    "sec_prot_state_set ?n SEC_STATE_FINISHED = sec_prot_state_set ?m SEC_STATE_FINISHED" by (rule eq; simp)+
  then show ?thesis
    unfolding supp_gkh_sec_prot_state_machine.simps(2) [of cfg "Suc n"] supp_gkh_sec_prot_state_machine.simps(2) [of cfg "Suc m"] Let_def
    by (simp only:)
qed

text \<open>The state machines as the protocols run them.\<close>

definition auth_run :: "gkh_cfg \<Rightarrow> 'c gkh_prot \<Rightarrow> 'c gkh_prot option" where
  "auth_run cfg = auth_gkh_sec_prot_state_machine cfg 2"

definition supp_run :: "gkh_cfg \<Rightarrow> 'c gkh_prot \<Rightarrow> 'c gkh_prot option" where
  "supp_run cfg = supp_gkh_sec_prot_state_machine cfg 2"

text \<open>
  The recursion between the state machines and \<open>sec_prot_state_set\<close> ends: in whatever state the protocol is, allowing
  more than two nested calls of the state machine never changes what it does.
\<close>

theorem gkh_depth:
  "auth_gkh_sec_prot_state_machine cfg (n + 2) p = auth_run cfg p \<and> supp_gkh_sec_prot_state_machine cfg (n + 2) q = supp_run cfg q"
proof
  show "auth_gkh_sec_prot_state_machine cfg (n + 2) p = auth_run cfg p"
    using auth_depth [of cfg n p 0] by (simp add: auth_run_def numeral_2_eq_2 del: auth_gkh_sec_prot_state_machine.simps)
  show "supp_gkh_sec_prot_state_machine cfg (n + 2) q = supp_run cfg q"
    using supp_depth [of cfg n q 0] by (simp add: supp_run_def numeral_2_eq_2 del: supp_gkh_sec_prot_state_machine.simps)
qed

section \<open>The frames exchanged\<close>

definition gkh_info :: "bool \<Rightarrow> eapol_key_information" where
  "gkh_info one = key_information_zero\<lparr>description_version := KEY_DESCRIPTION_HMAC_SHA1_MIC_AES_ENC, key_ack := one, key_mic_flag := True,
     secured_key_frame := True, encrypted_key_data := one\<rparr>"

definition gkh_frame :: "bool \<Rightarrow> u16 \<Rightarrow> u64 \<Rightarrow> eapol_key_frame" where
  "gkh_frame one n c = \<lparr>key_description = EAPOL_RSN_KEY_DESCRIPTION, key_information = gkh_info one, key_length = 0, replay_counter = c,
     key_nonce = None, key_iv = None, key_rsc = None, key_mic = None, key_data_length = n, key_data = None\<rparr>"

definition gkh_pdu :: "bool \<Rightarrow> u16 \<Rightarrow> u64 \<Rightarrow> eapol_pdu" where
  "gkh_pdu one n c = \<lparr>packet_type = EAPOL_KEY_TYPE, packet_length = n + word_of_nat EAPOL_KEY_FRAME_BASE_SIZE, packet_body = None,
     msg = Msg_key (gkh_frame one n c)\<rparr>"

lemma gkh_ready: "unat n < 65000 \<Longrightarrow> message_ready (gkh_pdu one n c) (gkh_frame one n c) n"
  unfolding gkh_pdu_def gkh_frame_def by (rule key_frame_ready) (simp_all add: gkh_info_def)

text \<open>The bytes on the wire behind the lower layer's header, for key data in clear or none.\<close>

definition gkh_wire :: "env \<Rightarrow> u8 list \<Rightarrow> bool \<Rightarrow> u16 \<Rightarrow> u64 \<Rightarrow> u8 list option \<Rightarrow> u8 list" where
  "gkh_wire env key one n c kde =
     (let data = key_payload env key one kde (unat n); plen = packet_length (gkh_pdu one n c)
      in frame_bytes (gkh_frame one n c) plen (mic_of env key (gkh_frame one n c) plen data) data)"

lemma gkh_build:
  assumes "env_ok env" and "memory_left env" and "32 \<le> length key" and "unat n < 150" and "kde_fits one kde (unat n)"
  shows "\<exists>hdr. length hdr = unat h \<and> sec_prot_lib_message_build env key kde n (gkh_pdu one n c)
    (eapol_pdu_total_length (gkh_pdu one n c)) h = Some (Some (hdr @ gkh_wire env key one n c kde))"
proof -
  have r: "message_ready (gkh_pdu one n c) (gkh_frame one n c) n" using assms(4) by (intro gkh_ready) simp
  have enc: "encrypted_key_data (key_information (gkh_frame one n c)) = one" "key_mic_flag (key_information (gkh_frame one n c))"
    by (simp_all add: gkh_frame_def gkh_info_def key_information_zero_def)
  have "unat (eapol_pdu_total_length (gkh_pdu one n c)) = unat (packet_length (gkh_pdu one n c)) + 4"
    using assms(4) by (simp add: eapol_pdu_total_length_def gkh_pdu_def eapol_consts unat_add_nowrap)
  from message_build_spec [OF assms(1-3) r, of kde, unfolded enc, OF assms(5) this, of h] enc(2) show ?thesis
    by (simp add: gkh_wire_def Let_def)
qed

text \<open>What the other side parses.\<close>

lemma gkh_received:
  fixes c :: u64
  assumes "env_ok env" and "memory_left env" and "32 \<le> length key" and "unat n < 150" and "kde_fits one kde (unat n)"
  defines "rx \<equiv> gkh_wire env key one n c kde"
  shows "length rx = 99 + unat n" and "\<exists>e k mic rx'. eapol_parse_pdu_header rx (word_of_nat (length rx)) = Some (Some e) \<and>
    frame_key e = Some k \<and> msg e = Msg_key k \<and> key_information k = gkh_info one \<and> replay_counter k = c \<and> key_mic k = Some mic \<and>
    sec_prot_lib_mic_validate env key mic rx (word_of_nat (length rx)) = Some (0, rx') \<and>
    (\<forall>d. kde = Some d \<and> n \<noteq> 0 \<longrightarrow> (\<exists>buf len. sec_prot_lib_message_handle env key e = Some (Some (buf, len)) \<and> length buf = unat n \<and>
       unat len = (if one then unat n - 8 else unat n) \<and> take (unat len) buf = take (unat len) d))"
proof -
  let ?sz = "eapol_pdu_total_length (gkh_pdu one n c)"
  have r: "message_ready (gkh_pdu one n c) (gkh_frame one n c) n" using assms(4) by (intro gkh_ready) simp
  have enc: "encrypted_key_data (key_information (gkh_frame one n c)) = one" "key_mic_flag (key_information (gkh_frame one n c))"
    by (simp_all add: gkh_frame_def gkh_info_def key_information_zero_def)
  have sz: "unat ?sz = 99 + unat n"
    using assms(4) by (simp add: eapol_pdu_total_length_def gkh_pdu_def eapol_consts unat_add_nowrap)
  have lt: "unat ?sz < 256" using sz assms(4) by simp
  note m = message_received [OF assms(1-3) r enc(2), of kde, unfolded enc(1), OF assms(5) refl lt, folded gkh_wire_def [unfolded Let_def], folded rx_def]
  show l: "length rx = 99 + unat n" using m(1) sz by simp
  have "?sz = word_of_nat (length rx)" "(ucast ?sz :: u8) = word_of_nat (length rx)"
    using m(1) by simp_all
  then show "\<exists>e k mic rx'. eapol_parse_pdu_header rx (word_of_nat (length rx)) = Some (Some e) \<and>
    frame_key e = Some k \<and> msg e = Msg_key k \<and> key_information k = gkh_info one \<and> replay_counter k = c \<and> key_mic k = Some mic \<and>
    sec_prot_lib_mic_validate env key mic rx (word_of_nat (length rx)) = Some (0, rx') \<and>
    (\<forall>d. kde = Some d \<and> n \<noteq> 0 \<longrightarrow> (\<exists>buf len. sec_prot_lib_message_handle env key e = Some (Some (buf, len)) \<and> length buf = unat n \<and>
       unat len = (if one then unat n - 8 else unat n) \<and> take (unat len) buf = take (unat len) d))"
    using m(2) by (auto simp: frame_agrees_def frame_key_def gkh_frame_def)
qed

section \<open>Message 1\<close>

definition msg1_kdes :: "sec_prot_gtk_keys \<Rightarrow> nat \<Rightarrow> kde list" where
  "msg1_kdes ks i = [Gtk (word_of_nat i) (gk_key (gtk ks ! i)), Lifetime (gk_lifetime (gtk ks ! i)), Gtkl (sec_prot_keys_fresh_gtkl_get ks)]"

lemma msg1_kdes_ok:
  assumes "gtks_inv ks" and "i < 4"
  shows "list_all kde_ok (msg1_kdes ks i)" and "length (concat (map kde_bytes (msg1_kdes ks i))) = 41"
  using inv_wf [OF assms] by (simp_all add: msg1_kdes_def gtk_wf_def kde_bytes_def kde_consts)

lemma padding_front: "m \<le> n \<Longrightarrow> take m (kde_padding n) = kde_padding m"
  by (cases m; cases n) (auto simp: kde_padding_def)

lemma msg1_front: "length (concat (map kde_bytes xs)) \<le> m \<Longrightarrow> m \<le> n \<Longrightarrow> take m (kde_message xs n) = kde_message xs m"
  by (simp add: kde_message_def padding_front)

text \<open>A node that is about to be sent key \<open>i\<close>.\<close>

definition inserting :: "nat \<Rightarrow> 'c gkh_prot \<Rightarrow> bool" where
  "inserting i p \<longleftrightarrow> i < 4 \<and> gtks_inv (g_gtks p) \<and> gk_set (gtk (g_gtks p) ! i) \<and> gtk_set_index (gtks (g_keys p)) = int i \<and>
     gtk_set_index (lgtks (g_keys p)) = -1 \<and> length (ptk (g_keys p)) = 48 \<and> length (ins_gtk_hash (gtks (g_keys p))) = 4"

lemma gkh_kdes:
  assumes "inserting i p" and "length b = 56"
  shows "auth_gkh_kdes b 56 p = Some (kde_message (msg1_kdes (g_gtks p) i) 56)"
proof -
  have i: "i < 4" "gtks_inv (g_gtks p)" "gk_set (gtk (g_gtks p) ! i)" using assms(1) by (simp_all add: inserting_def)
  have g: "sec_prot_keys_get_gtk_to_insert (g_gtks p) (gtks (g_keys p)) = Some (Some (i, gk_key (gtk (g_gtks p) ! i)))"
    "sec_prot_keys_get_gtk_to_insert (g_lgtks p) (lgtks (g_keys p)) = Some None"
    using assms(1) inv_len [OF i(2)] by (simp_all add: inserting_def sec_prot_keys_get_gtk_to_insert_def load_def)
  have t: "sec_prot_keys_gtk_lifetime_get (g_gtks p) i = gk_lifetime (gtk (g_gtks p) ! i)"
    using i by (simp add: sec_prot_keys_gtk_lifetime_get_def GTK_NUM_def)
  show ?thesis
    using kde_build [OF msg1_kdes_ok(1) [OF i(2,1)], of b] msg1_kdes_ok(2) [OF i(2,1)] assms(2) t
    unfolding auth_gkh_kdes_def g msg1_kdes_def by (simp add: bind_assoc)
qed

lemma auth_message_1:
  assumes "env_ok (c_env cfg)" and "memory_left (c_env cfg)" and "inserting i p"
    and "sec_prot_keys_pmk_replay_cnt_increment (g_keys p) = (True, keys)"
  shows "\<exists>hdr. length hdr = unat (sp_header_size p) \<and> auth_gkh_sec_prot_message_send cfg GKH_MESSAGE_1 p = Some (emit (Send (hdr @
    gkh_wire (c_env cfg) (ptk (g_keys p)) True 56 (pmk_key_replay_cnt keys) (Some (kde_message (msg1_kdes (g_gtks p) i) 56)))) (p\<lparr>g_keys := keys\<rparr>))"
proof -
  let ?kde = "kde_message (msg1_kdes (g_gtks p) i) 56" and ?c = "pmk_key_replay_cnt keys"
  have i: "i < 4" "gtks_inv (g_gtks p)" "length (ptk (g_keys p)) = 48" using assms(3) by (simp_all add: inserting_def)
  obtain b where b: "env_malloc (c_env cfg) 56 = Some b" "length b = 56" by (rule env_memory [OF assms(1,2)])
  have k: "ptk keys = ptk (g_keys p)" using assms(4) by (auto simp: sec_prot_keys_pmk_replay_cnt_increment_def split: if_splits)
  have "length ?kde = 56" using msg1_kdes_ok(2) [OF i(2,1)] by (simp add: kde_message_def)
  then have fits: "kde_fits True (Some ?kde) (unat (56 :: u16))" by (simp add: kde_fits_def)
  obtain hdr where h: "length hdr = unat (sp_header_size p)" "sec_prot_lib_message_build (c_env cfg) (ptk (g_keys p)) (Some ?kde) 56
      (gkh_pdu True 56 ?c) (eapol_pdu_total_length (gkh_pdu True 56 ?c)) (sp_header_size p) =
      Some (Some (hdr @ gkh_wire (c_env cfg) (ptk (g_keys p)) True 56 ?c (Some ?kde)))"
    using gkh_build [OF assms(1,2) _ _ fits, of "ptk (g_keys p)" "sp_header_size p" ?c] i(3) by auto
  have len: "(let kde_len = word_of_nat (KDE_GTK_LEN + KDE_LIFETIME_LEN + KDE_GTKL_LEN); kde_len = kde_len + 8 in kde_padded_length_calc kde_len) = (56 :: u16)"
    by (simp add: kde_lens kde_padded_length_calc_def KDE_PADDED_MIN_LEN_def)
  have pdu: "upd_key (\<lambda>k. k\<lparr>replay_counter := ?c, key_information := (key_information k)\<lparr>key_ack := True, key_mic_flag := True,
      secured_key_frame := True, encrypted_key_data := True\<rparr>, key_length := 0\<rparr>) (snd (eapol_pdu_key_frame_init 56 None)) = gkh_pdu True 56 ?c"
    by (simp add: upd_key_def eapol_pdu_key_frame_init_def gkh_pdu_def gkh_frame_def gkh_info_def key_frame_zero_def key_information_zero_def Let_def)
  have sz: "fst (eapol_pdu_key_frame_init 56 None) = eapol_pdu_total_length (gkh_pdu True 56 ?c)"
    by (simp add: eapol_pdu_key_frame_init_def gkh_pdu_def eapol_pdu_total_length_def Let_def)
  obtain fs fp where init: "eapol_pdu_key_frame_init 56 None = (fs, fp)" by (cases "eapol_pdu_key_frame_init 56 None")
  have "auth_gkh_sec_prot_message_send cfg GKH_MESSAGE_1 p = Some (emit (Send (hdr @
      gkh_wire (c_env cfg) (ptk (g_keys p)) True 56 ?c (Some ?kde))) (p\<lparr>g_keys := keys\<rparr>))"
    using gkh_kdes [OF assms(3) b(2)] b(1) assms(4) h(2) pdu sz k
    unfolding auth_gkh_sec_prot_message_send_def len init
    by (simp add: Let_def sec_prot_keys_pmk_replay_cnt_get_def init)
  then show ?thesis using h(1) by blast
qed

lemma gkh_masks:
  "k = gkh_info one \<Longrightarrow> key_information f = k \<Longrightarrow> eapol_pdu_key_mask_get f =
    (if one then KEY_INFO_KEY_ACK OR KEY_INFO_KEY_MIC OR KEY_INFO_SECURED_KEY_FRAME else KEY_INFO_KEY_MIC OR KEY_INFO_SECURED_KEY_FRAME)"
  "\<not> pairwise_key (gkh_info one)" "encrypted_key_data (gkh_info one) = one"
  by (simp_all add: gkh_info_def eapol_pdu_key_mask_get_def key_information_zero_def Let_def or.assoc)

lemma mask_values:
  "KEY_INFO_KEY_ACK OR KEY_INFO_KEY_MIC OR KEY_INFO_SECURED_KEY_FRAME = 14" "KEY_INFO_KEY_MIC OR KEY_INFO_SECURED_KEY_FRAME = 12"
  by (simp_all add: KEY_INFO_KEY_ACK_def KEY_INFO_KEY_MIC_def KEY_INFO_SECURED_KEY_FRAME_def)

text \<open>The key data, as the supplicant finds it after decryption, installs the group key.\<close>

lemma kdes_install:
  assumes "gtks_inv ks" and "i < 4" and "gtks_inv keys" and "length buf = 56" and "unat len = 48"
    and "take 48 buf = take 48 (kde_message (msg1_kdes ks i) 56)"
  shows "\<exists>keys'. sec_prot_lib_gtk_read buf len keys g = Some (0, keys', g\<lparr>gtkl := sec_prot_keys_fresh_gtkl_get ks\<rparr>) \<and>
    installed i (gk_key (gtk ks ! i)) (gk_lifetime (gtk ks ! i)) keys keys'"
proof -
  note ok = msg1_kdes_ok [OF assms(1,2)]
  have tk: "take (unat len) buf = kde_message (msg1_kdes ks i) 48" using assms(5,6) msg1_front [of "msg1_kdes ks i" 48 56] ok(2) by simp
  have rc: "kde_received x buf (unat len)" if "find (\<lambda>y. kde_kind y = kde_kind x) (msg1_kdes ks i) = Some x" for x
    using kde_message_received [OF ok(1) that _ tk] assms(4,5) by simp
  have "kde_received (Gtk (word_of_nat i) (gk_key (gtk ks ! i))) buf (unat len)" "kde_received (Lifetime (gk_lifetime (gtk ks ! i))) buf (unat len)"
    "kde_received (Gtkl (sec_prot_keys_fresh_gtkl_get ks)) buf (unat len)" by (intro rc; simp add: msg1_kdes_def kde_consts)+
  moreover have "length (gk_key (gtk ks ! i)) = 16" using inv_wf [OF assms(1,2)] by (simp add: gtk_wf_def)
  moreover have "unat (word_of_nat i AND 3 :: u8) = i"
  proof -
    have "i = 0 \<or> i = 1 \<or> i = 2 \<or> i = 3" using assms(2) by auto
    then show ?thesis by auto
  qed
  ultimately show ?thesis using gtk_read_spec [OF assms(3), of "word_of_nat i"] by metis
qed

text \<open>The supplicant after an accepted message 1.\<close>

definition supp_after_1 :: "sec_prot_gtk_keys \<Rightarrow> u8 \<Rightarrow> u64 \<Rightarrow> 'c gkh_prot \<Rightarrow> 'c gkh_prot" where
  "supp_after_1 ks l c p = gkh_clear (p\<lparr>sp_common := (sp_common p)\<lparr>sc_ticks := SEC_TOTAL_TIMEOUT, sc_state := SEC_STATE_CREATE_RESP\<rparr>,
     sp_out := sp_out p @ [Create_ind], g_gtks := ks,
     g_keys := (g_keys p)\<lparr>gtks := (gtks (g_keys p))\<lparr>gtkl := l\<rparr>, pmk_key_replay_cnt_set := True, pmk_key_replay_cnt := c\<rparr>\<rparr>)"

lemma supp_receives_1:
  assumes "env_ok (c_env cfg)" and "memory_left (c_env cfg)" and "length (ptk (g_keys p)) = 48" and "gtks_inv ks" and "i < 4"
    and "sc_state (sp_common p) = SEC_STATE_FIRST" and "gtks_inv (g_gtks p)" and "sec_prot_keys_pmk_replay_cnt_compare c (g_keys p)"
  defines "rx \<equiv> gkh_wire (c_env cfg) (ptk (g_keys p)) True 56 c (Some (kde_message (msg1_kdes ks i) 56))"
  shows "\<exists>ks'. supp_gkh_sec_prot_receive (supp_run cfg) rx (word_of_nat (length rx)) p =
      Some (0, supp_after_1 ks' (sec_prot_keys_fresh_gtkl_get ks) c p) \<and>
    installed i (gk_key (gtk ks ! i)) (gk_lifetime (gtk ks ! i)) (g_gtks p) ks'"
proof -
  let ?kde = "kde_message (msg1_kdes ks i) 56" and ?l = "sec_prot_keys_fresh_gtkl_get ks" and ?n = "word_of_nat (length rx) :: u16"
  note ok = msg1_kdes_ok [OF assms(4,5)]
  have "length ?kde = 56" using ok(2) by (simp add: kde_message_def)
  then have fits: "kde_fits True (Some ?kde) (unat (56 :: u16))" by (simp add: kde_fits_def)
  obtain e k mic rx' buf len where e: "eapol_parse_pdu_header rx ?n = Some (Some e)" "frame_key e = Some k" "key_information k = gkh_info True"
    "replay_counter k = c" "key_mic k = Some mic" "sec_prot_lib_mic_validate (c_env cfg) (ptk (g_keys p)) mic rx (word_of_nat (length rx)) = Some (0, rx')"
    and m: "sec_prot_lib_message_handle (c_env cfg) (ptk (g_keys p)) e = Some (Some (buf, len))" "length buf = 56" "unat len = 48"
      "take 48 buf = take 48 ?kde"
    using gkh_received(2) [OF assms(1,2) _ _ fits, of "ptk (g_keys p)" c] assms(3) unfolding rx_def by fastforce
  have lrx: "length rx = 155" using gkh_received(1) [OF assms(1,2) _ _ fits, of "ptk (g_keys p)" c] assms(3) unfolding rx_def by simp
  obtain ks' where ks': "sec_prot_lib_gtk_read buf len (g_gtks p) (gtks (g_keys p)) = Some (0, ks', (gtks (g_keys p))\<lparr>gtkl := ?l\<rparr>)"
    "installed i (gk_key (gtk ks ! i)) (gk_lifetime (gtk ks ! i)) (g_gtks p) ks'"
    using kdes_install [OF assms(4,5,7) m(2,3,4)] by blast
  have get: "supp_gkh_sec_prot_message_get e (g_keys p) = Some GKH_MESSAGE_1"
    using e(2,3,4) assms(8) gkh_masks(1) [OF refl e(3)] by (simp add: supp_gkh_sec_prot_message_get_def gkh_masks(2,3) Let_def)
  have "(ucast ?n :: u8) = word_of_nat (length rx)" using lrx by simp
  then have "supp_run cfg (p\<lparr>g_recv_eapol_pdu := Some e, g_recv_pdu := Some rx, g_recv_size := ?n\<rparr>) = Some (p\<lparr>g_recv_eapol_pdu := Some e,
      g_recv_pdu := Some rx', g_recv_size := ?n, sp_common := (sp_common p)\<lparr>sc_ticks := SEC_TOTAL_TIMEOUT, sc_state := SEC_STATE_CREATE_RESP\<rparr>,
      sp_out := sp_out p @ [Create_ind], g_gtks := ks',
      g_keys := (g_keys p)\<lparr>gtks := (gtks (g_keys p))\<lparr>gtkl := ?l\<rparr>, pmk_key_replay_cnt_set := True, pmk_key_replay_cnt := c\<rparr>\<rparr>)"
    using assms(6) e m(1) ks'(1)
    by (simp add: supp_run_def numeral_2_eq_2 sec_prot_defs supp_gkh_sec_prot_mic_validate_def gkh_mic_validate_def supp_gkh_kde_handle_def
        supp_gkh_sec_prot_security_replay_counter_update_def sec_prot_state_set_def sec_prot_keys_pmk_replay_cnt_set_def Let_def)
  then have "supp_gkh_sec_prot_receive (supp_run cfg) rx ?n p = Some (0, supp_after_1 ks' ?l c p)"
    using e(1) get by (simp add: supp_gkh_sec_prot_receive_def gkh_receive_def supp_after_1_def gkh_clear_def)
  then show ?thesis using ks'(2) by blast
qed

section \<open>Message 2\<close>

lemma supp_message_2:
  assumes "env_ok (c_env cfg)" and "memory_left (c_env cfg)" and "length (ptk (g_keys p)) = 48"
    and "sc_state (sp_common p) = SEC_STATE_CREATE_RESP"
  shows "\<exists>hdr p'. length hdr = unat (sp_header_size p) \<and> supp_run cfg (supp_gkh_sec_prot_create_response SEC_RESULT_OK p) = Some p' \<and>
    sp_out p' = sp_out p @ [State_machine_call, Send (hdr @ gkh_wire (c_env cfg) (ptk (g_keys p)) False 0 (pmk_key_replay_cnt (g_keys p)) None),
      Finished_ind SEC_RESULT_OK, Receive_disable] \<and>
    sc_state (sp_common p') = SEC_STATE_FINISHED \<and> g_keys p' = g_keys p \<and> g_gtks p' = g_gtks p \<and> g_lgtks p' = g_lgtks p"
proof -
  let ?c = "pmk_key_replay_cnt (g_keys p)"
  have fits: "kde_fits False None (unat (0 :: u16))" by (simp add: kde_fits_def)
  obtain hdr where h: "length hdr = unat (sp_header_size p)" "sec_prot_lib_message_build (c_env cfg) (ptk (g_keys p)) None 0
      (gkh_pdu False 0 ?c) (eapol_pdu_total_length (gkh_pdu False 0 ?c)) (sp_header_size p) =
      Some (Some (hdr @ gkh_wire (c_env cfg) (ptk (g_keys p)) False 0 ?c None))"
    using gkh_build [OF assms(1,2) _ _ fits, of "ptk (g_keys p)" "sp_header_size p" ?c] assms(3) by auto
  have pdu: "upd_key (\<lambda>k. k\<lparr>replay_counter := ?c, key_information := (key_information k)\<lparr>key_mic_flag := True,
      secured_key_frame := True\<rparr>, key_length := 0\<rparr>) (snd (eapol_pdu_key_frame_init 0 None)) = gkh_pdu False 0 ?c"
    by (simp add: upd_key_def eapol_pdu_key_frame_init_def gkh_pdu_def gkh_frame_def gkh_info_def key_frame_zero_def key_information_zero_def Let_def)
  have sz: "fst (eapol_pdu_key_frame_init 0 None) = eapol_pdu_total_length (gkh_pdu False 0 ?c)"
    by (simp add: eapol_pdu_key_frame_init_def gkh_pdu_def eapol_pdu_total_length_def Let_def)
  obtain fs fp where init: "eapol_pdu_key_frame_init 0 None = (fs, fp)" by (cases "eapol_pdu_key_frame_init 0 None")
  have send: "supp_gkh_sec_prot_message_send cfg GKH_MESSAGE_2 q =
      Some (emit (Send (hdr @ gkh_wire (c_env cfg) (ptk (g_keys p)) False 0 ?c None)) q)"
    if "g_keys q = g_keys p" "sp_header_size q = sp_header_size p" for q
    using h(2) pdu sz that init by (simp add: supp_gkh_sec_prot_message_send_def sec_prot_keys_pmk_replay_cnt_get_def)
  have run: "supp_run cfg (supp_gkh_sec_prot_create_response SEC_RESULT_OK p) = Some (upd_common (\<lambda>d. d\<lparr>sc_result := SEC_RESULT_OK,
      sc_trickle_running := False, sc_ticks := SEC_FINISHED_TIMEOUT, sc_state := SEC_STATE_FINISHED\<rparr>)
      (p\<lparr>sp_out := sp_out p @ [State_machine_call, Send (hdr @ gkh_wire (c_env cfg) (ptk (g_keys p)) False 0 ?c None),
      Finished_ind SEC_RESULT_OK, Receive_disable]\<rparr>))"
    using assms(4) send
    by (simp add: supp_run_def numeral_2_eq_2 sec_prot_defs supp_gkh_sec_prot_create_response_def sec_prot_state_set_def Let_def)
  show ?thesis unfolding run using h(1) by simp
qed

lemma auth_receives_2:
  assumes "env_ok (c_env cfg)" and "memory_left (c_env cfg)" and "length (ptk (g_keys p)) = 48"
    and "sc_state (sp_common p) = SEC_STATE_FIRST" and "sc_result (sp_common p) = SEC_RESULT_OK"
  defines "rx \<equiv> gkh_wire (c_env cfg) (ptk (g_keys p)) False 0 (pmk_key_replay_cnt (g_keys p)) None"
  shows "\<exists>p'. auth_gkh_sec_prot_receive (auth_run cfg) rx (word_of_nat (length rx)) p = Some (0, p') \<and>
    sc_state (sp_common p') = SEC_STATE_FINISHED \<and> g_gtks p' = g_gtks p \<and> g_lgtks p' = g_lgtks p \<and>
    g_keys p' = (g_keys p)\<lparr>gtks := sec_prot_keys_gtkl_from_gtk_insert_index_set (gtks (g_keys p)),
      lgtks := sec_prot_keys_gtkl_from_gtk_insert_index_set (lgtks (g_keys p))\<rparr> \<and>
    sp_out p' = sp_out p @ [Finished_ind SEC_RESULT_OK] @
      (if sp_completed p then [Send (the (env_malloc (c_env cfg) (unat (sp_header_size p))))] else []) @ [Receive_disable]"
proof -
  let ?n = "word_of_nat (length rx) :: u16"
  have fits: "kde_fits False None (unat (0 :: u16))" by (simp add: kde_fits_def)
  obtain e k mic rx' where e: "eapol_parse_pdu_header rx ?n = Some (Some e)" "frame_key e = Some k" "key_information k = gkh_info False"
    "replay_counter k = pmk_key_replay_cnt (g_keys p)" "key_mic k = Some mic"
    "sec_prot_lib_mic_validate (c_env cfg) (ptk (g_keys p)) mic rx (word_of_nat (length rx)) = Some (0, rx')"
    using gkh_received(2) [OF assms(1,2) _ _ fits, of "ptk (g_keys p)" "pmk_key_replay_cnt (g_keys p)"] assms(3) unfolding rx_def by fastforce
  have lrx: "length rx = 99" using gkh_received(1) [OF assms(1,2) _ _ fits, of "ptk (g_keys p)"] assms(3) unfolding rx_def by simp
  have get: "auth_gkh_sec_prot_message_get e (g_keys p) = Some GKH_MESSAGE_2"
    using e(2,3,4) gkh_masks(1) [OF refl e(3)]
    by (simp add: auth_gkh_sec_prot_message_get_def gkh_masks(2,3) sec_prot_keys_pmk_replay_cnt_get_def Let_def)
  obtain b where b: "env_malloc (c_env cfg) (unat (sp_header_size p)) = Some b" by (rule env_memory [OF assms(1,2)])
  have "(ucast ?n :: u8) = word_of_nat (length rx)" using lrx by simp
  then show ?thesis
    using assms(4,5) e get b
    by (simp add: auth_gkh_sec_prot_receive_def gkh_receive_def gkh_clear_def auth_run_def numeral_2_eq_2 sec_prot_defs
        auth_gkh_sec_prot_mic_validate_def gkh_mic_validate_def auth_gkh_sec_prot_auth_completed_send_def sec_prot_state_set_def Let_def)
qed

section \<open>Starting the handshake\<close>

lemma start_returns:
  assumes "wf_params params" and "good_roll a" and "good_roll b" and "good_roll c"
  shows "\<exists>t rs. sec_prot_timer_trickle_start params (p\<lparr>sp_rolls := a # b # c # rolls\<rparr>) =
    Some (upd_common (\<lambda>d. d\<lparr>sc_trickle := t, sc_trickle_running := True\<rparr>) (p\<lparr>sp_rolls := rs\<rparr>))"
proof -
  obtain i rs where i: "rand_get_random_in_range (Imin params) (Imax params) (a # b # c # rolls) = Some (i, rs)"
    "rs = b # c # rolls \<or> rs = a # b # c # rolls"
    using range_one_roll [of "Imin params" "Imax params" a "b # c # rolls"] assms by (auto simp: wf_params_def)
  then obtain r rs' where rs: "rs = r # rs'" "good_roll r" "\<exists>q qs. rs' = q # qs \<and> good_roll q" using assms by auto
  obtain t rs'' where t: "trickle_start (sc_trickle (sp_common p)) ''SECURITY'' params (a # b # c # rolls) = Some (t, rs'')"
    "rs'' = rs' \<or> rs'' = r # rs'"
    using begin_interval_returns [OF rs(2), of "(sc_trickle (sp_common p))\<lparr>debug_name := ''SECURITY'', tk_e := 0, tk_I := i\<rparr>" rs'] i(1) rs(1)
    by (auto simp: trickle_start_def)
  then obtain q qs where q: "rs'' = q # qs" "good_roll q" using rs by auto
  have "trickle_inconsistent_heard t params rs'' \<noteq> None"
    using begin_interval_returns [OF q(2), of "t\<lparr>tk_e := 0, tk_I := Imin params\<rparr>" qs] q(1)
    by (auto simp: trickle_inconsistent_heard_def trickle_reset_timer_def)
  then obtain t' rs3 where "trickle_inconsistent_heard t params rs'' = Some (t', rs3)" by auto
  then show ?thesis using t(1) by (auto simp: sec_prot_timer_trickle_start_def)
qed

lemma hash_set_returns:
  assumes "sha256_total sha256" and "length (ins_gtk_hash s) = 4" and "gtks_inv ks" and "gtk_set_index s < 4"
  shows "\<exists>h m. sec_prot_keys_ptk_installed_gtk_hash_set sha256 ks s b = Some (s\<lparr>ins_gtk_hash := h, ins_gtk_hash_set := m\<rparr>)"
proof (cases "gtk_set_index s \<ge> 0 \<and> sec_prot_keys_gtk_get ks (nat (gtk_set_index s)) \<noteq> None")
  case True
  then obtain key where k: "sec_prot_keys_gtk_get ks (nat (gtk_set_index s)) = Some key" by auto
  then have "length key = 16"
    using inv_wf [OF assms(3), of "nat (gtk_set_index s)"] by (auto simp: sec_prot_keys_gtk_get_def gtk_wf_def GTK_NUM_def split: if_splits)
  moreover obtain d where "sha256 key = Some d" "length d = 32" using assms(1) by (auto simp: sha256_total_def)
  moreover have "nat (gtk_set_index s) < 4" using assms(4) True by linarith
  ultimately show ?thesis
    using k True assms(2)
    by (auto simp: sec_prot_keys_ptk_installed_gtk_hash_set_def sec_prot_keys_gtk_hash_generate_def sec_prot_lib_gtkhash_generate_def
        load_n_def store_def INS_GTK_HASH_LEN_def)
next
  case False
  then have "sec_prot_keys_ptk_installed_gtk_hash_set sha256 ks s b = Some s"
    by (auto simp: sec_prot_keys_ptk_installed_gtk_hash_set_def)
  then show ?thesis by (intro exI [of _ "ins_gtk_hash s"] exI [of _ "ins_gtk_hash_set s"]) simp
qed

text \<open>An authenticator that has been asked to insert key \<open>i\<close>, with what the platform provides for it.\<close>

definition auth_starting :: "gkh_cfg \<Rightarrow> nat \<Rightarrow> 'c gkh_prot \<Rightarrow> bool" where
  "auth_starting cfg i p \<longleftrightarrow> inserting i p \<and> sc_state (sp_common p) = GKH_STATE_CREATE_REQ \<and> sc_result (sp_common p) = SEC_RESULT_OK \<and>
     fst (sec_prot_keys_pmk_replay_cnt_increment (g_keys p)) \<and> env_ok (c_env cfg) \<and> memory_left (c_env cfg) \<and>
     sha256_total (c_sha256 cfg) \<and> wf_params (c_trickle cfg) \<and> 3 \<le> length (sp_rolls p) \<and> list_all good_roll (take 3 (sp_rolls p))"

lemma auth_starts:
  assumes "auth_starting cfg i p"
  defines "keys \<equiv> snd (sec_prot_keys_pmk_replay_cnt_increment (g_keys p))"
  shows "\<exists>hdr p' h m. length hdr = unat (sp_header_size p) \<and> auth_run cfg p = Some p' \<and>
    sp_out p' = sp_out p @ [Create_conf SEC_RESULT_OK, Send (hdr @ gkh_wire (c_env cfg) (ptk (g_keys p)) True 56 (pmk_key_replay_cnt keys)
      (Some (kde_message (msg1_kdes (g_gtks p) i) 56)))] \<and>
    sc_state (sp_common p') = GKH_STATE_MESSAGE_2 \<and> sc_result (sp_common p') = SEC_RESULT_OK \<and> sp_header_size p' = sp_header_size p \<and>
    sp_completed p' = sp_completed p \<and> g_gtks p' = g_gtks p \<and> g_lgtks p' = g_lgtks p \<and>
    g_keys p' = keys\<lparr>gtks := (gtks keys)\<lparr>ins_gtk_hash := h, ins_gtk_hash_set := m\<rparr>\<rparr>"
proof -
  have a: "inserting i p" "sc_state (sp_common p) = SEC_STATE_CREATE_REQ" "sc_result (sp_common p) = SEC_RESULT_OK"
    "env_ok (c_env cfg)" "memory_left (c_env cfg)" "sha256_total (c_sha256 cfg)" "wf_params (c_trickle cfg)"
    "3 \<le> length (sp_rolls p)" "list_all good_roll (take 3 (sp_rolls p))" using assms(1) by (simp_all add: auth_starting_def)
  have inc: "sec_prot_keys_pmk_replay_cnt_increment (g_keys p) = (True, keys)"
    using assms(1) by (cases "sec_prot_keys_pmk_replay_cnt_increment (g_keys p)") (simp add: auth_starting_def keys_def)
  have gk: "gtks keys = gtks (g_keys p)" "lgtks keys = lgtks (g_keys p)"
    using inc by (auto simp: sec_prot_keys_pmk_replay_cnt_increment_def split: if_splits)
  define p1 where "p1 = emit (Create_conf SEC_RESULT_OK) (upd_common sec_prot_default_timeout_set p)"
  have p1: "g_keys p1 = g_keys p" "g_gtks p1 = g_gtks p" "g_lgtks p1 = g_lgtks p" "sp_header_size p1 = sp_header_size p" "sp_rolls p1 = sp_rolls p"
    by (simp_all add: p1_def emit_def)
  then have "inserting i p1" using a(1) by (simp add: inserting_def)
  then obtain hdr where h: "length hdr = unat (sp_header_size p)" "auth_gkh_sec_prot_message_send cfg GKH_MESSAGE_1 p1 = Some (emit (Send (hdr @
      gkh_wire (c_env cfg) (ptk (g_keys p)) True 56 (pmk_key_replay_cnt keys) (Some (kde_message (msg1_kdes (g_gtks p) i) 56)))) (p1\<lparr>g_keys := keys\<rparr>))"
    using auth_message_1 [OF a(4,5), of i p1 keys] inc p1 by auto
  define p2 where "p2 = emit (Send (hdr @ gkh_wire (c_env cfg) (ptk (g_keys p)) True 56 (pmk_key_replay_cnt keys)
      (Some (kde_message (msg1_kdes (g_gtks p) i) 56)))) (p1\<lparr>g_keys := keys\<rparr>)"
  obtain x y z rolls where r: "sp_rolls p = x # y # z # rolls" using a(8) by (auto simp: numeral_3_eq_3 Suc_le_length_iff)
  then have "p2 = p2\<lparr>sp_rolls := x # y # z # rolls\<rparr>" using p1(5) by (simp add: p2_def emit_def)
  moreover have "good_roll x" "good_roll y" "good_roll z" using a(9) r by simp_all
  ultimately obtain t rs where t: "sec_prot_timer_trickle_start (c_trickle cfg) p2 =
      Some (upd_common (\<lambda>d. d\<lparr>sc_trickle := t, sc_trickle_running := True\<rparr>) (p2\<lparr>sp_rolls := rs\<rparr>))"
    using start_returns [OF a(7), of x y z rolls p2] by auto
  obtain hh m where hs: "sec_prot_keys_ptk_installed_gtk_hash_set (c_sha256 cfg) (g_gtks p) (gtks (g_keys p)) False =
      Some ((gtks (g_keys p))\<lparr>ins_gtk_hash := hh, ins_gtk_hash_set := m\<rparr>)"
    using hash_set_returns [OF a(6), of "gtks (g_keys p)" "g_gtks p" False] a(1) by (auto simp: inserting_def)
  have ls: "sec_prot_keys_ptk_installed_gtk_hash_set (c_sha256 cfg) (g_lgtks p) (lgtks (g_keys p)) False = Some (lgtks (g_keys p))"
    using a(1) by (simp add: inserting_def sec_prot_keys_ptk_installed_gtk_hash_set_def)
  have sel: "g_keys p2 = keys" "g_gtks p2 = g_gtks p" "g_lgtks p2 = g_lgtks p" "sp_header_size p2 = sp_header_size p" "sp_completed p2 = sp_completed p"
    "sc_result (sp_common p2) = SEC_RESULT_OK" using p1 a(3) by (simp_all add: p2_def p1_def emit_def sec_prot_default_timeout_set_def)
  have out: "sp_out p2 = sp_out p @ [Create_conf SEC_RESULT_OK, Send (hdr @ gkh_wire (c_env cfg) (ptk (g_keys p)) True 56 (pmk_key_replay_cnt keys)
      (Some (kde_message (msg1_kdes (g_gtks p) i) 56)))]" by (simp add: p2_def p1_def emit_def)
  define p3 where "p3 = upd_common (\<lambda>d. d\<lparr>sc_trickle := t, sc_trickle_running := True, sc_state := SEC_STATE_FIRST\<rparr>)
      (p2\<lparr>sp_rolls := rs, g_keys := keys\<lparr>gtks := (gtks keys)\<lparr>ins_gtk_hash := hh, ins_gtk_hash_set := m\<rparr>\<rparr>\<rparr>)"
  have "auth_run cfg p = Some p3"
    using a(2) h(2) t hs ls sel gk unfolding auth_run_def numeral_2_eq_2 p1_def [symmetric] p2_def [symmetric]
    by (simp add: sec_prot_state_get_def p1_def [symmetric] p3_def Let_def sec_prot_state_set_def)
  moreover have "sp_out p3 = sp_out p2" "sc_state (sp_common p3) = SEC_STATE_FIRST" "sc_result (sp_common p3) = SEC_RESULT_OK"
    "sp_header_size p3 = sp_header_size p" "sp_completed p3 = sp_completed p" "g_gtks p3 = g_gtks p" "g_lgtks p3 = g_lgtks p"
    "g_keys p3 = keys\<lparr>gtks := (gtks keys)\<lparr>ins_gtk_hash := hh, ins_gtk_hash_set := m\<rparr>\<rparr>" using sel by (simp_all add: p3_def)
  ultimately show ?thesis using h(1) out by metis
qed

section \<open>Properties\<close>

text \<open>
  C13. The group key handshake works: an authenticator that is asked to insert key \<open>i\<close> and a supplicant that waits for message 1, with
  the same pairwise key and a replay counter that is not ahead, complete it. The supplicant accepts message 1, installs the key
  with its lifetime, takes over the list of live keys and the replay counter; the authenticator accepts message 2 and marks the
  key as held by the node, with nothing left to insert; both end in the state finished and report success.
\<close>

theorem gkh_handshake:
  assumes "auth_starting cfg i a" and "sc_state (sp_common s) = GKH_STATE_MESSAGE_1" and "ptk (g_keys s) = ptk (g_keys a)"
    and "gtks_inv (g_gtks s)"
    and "sec_prot_keys_pmk_replay_cnt_compare (pmk_key_replay_cnt (snd (sec_prot_keys_pmk_replay_cnt_increment (g_keys a)))) (g_keys s)"
  shows "\<exists>a1 h1 rx1 s1 s2 h2 rx2 a2 extra. auth_run cfg a = Some a1 \<and> length h1 = unat (sp_header_size a) \<and>
    sp_out a1 = sp_out a @ [Create_conf SEC_RESULT_OK, Send (h1 @ rx1)] \<and>
    supp_gkh_sec_prot_receive (supp_run cfg) rx1 (word_of_nat (length rx1)) s = Some (0, s1) \<and> sp_out s1 = sp_out s @ [Create_ind] \<and>
    supp_run cfg (supp_gkh_sec_prot_create_response SEC_RESULT_OK s1) = Some s2 \<and> length h2 = unat (sp_header_size s) \<and>
    sp_out s2 = sp_out s1 @ [State_machine_call, Send (h2 @ rx2), Finished_ind SEC_RESULT_OK, Receive_disable] \<and>
    auth_gkh_sec_prot_receive (auth_run cfg) rx2 (word_of_nat (length rx2)) a1 = Some (0, a2) \<and>
    sp_out a2 = sp_out a1 @ [Finished_ind SEC_RESULT_OK] @ extra @ [Receive_disable] \<and>
    sc_state (sp_common s2) = GKH_STATE_FINISHED \<and> sc_state (sp_common a2) = GKH_STATE_FINISHED \<and>
    installed i (gk_key (gtk (g_gtks a) ! i)) (gk_lifetime (gtk (g_gtks a) ! i)) (g_gtks s) (g_gtks s2) \<and>
    gtkl (gtks (g_keys s2)) = sec_prot_keys_fresh_gtkl_get (g_gtks a) \<and>
    pmk_key_replay_cnt (g_keys s2) = pmk_key_replay_cnt (g_keys a2) \<and>
    sec_prot_keys_gtkl_gtk_is_live (gtks (g_keys a2)) i \<and> gtk_set_index (gtks (g_keys a2)) = -1"
proof -
  let ?inc = "sec_prot_keys_pmk_replay_cnt_increment (g_keys a)"
  let ?c = "pmk_key_replay_cnt (snd ?inc)" and ?key = "ptk (g_keys a)"
  have e: "env_ok (c_env cfg)" "memory_left (c_env cfg)" and i: "inserting i a" using assms(1) by (simp_all add: auth_starting_def)
  have ins: "i < 4" "gtks_inv (g_gtks a)" "length ?key = 48" "gtk_set_index (gtks (g_keys a)) = int i" using i by (simp_all add: inserting_def)
  have inc: "gtks (snd ?inc) = gtks (g_keys a)" "ptk (snd ?inc) = ?key"
    by (auto simp: sec_prot_keys_pmk_replay_cnt_increment_def)
  obtain h1 a1 h m where a1: "length h1 = unat (sp_header_size a)" "auth_run cfg a = Some a1"
    "sp_out a1 = sp_out a @ [Create_conf SEC_RESULT_OK, Send (h1 @ gkh_wire (c_env cfg) ?key True 56 ?c (Some (kde_message (msg1_kdes (g_gtks a) i) 56)))]"
    "sc_state (sp_common a1) = GKH_STATE_MESSAGE_2" "sc_result (sp_common a1) = SEC_RESULT_OK"
    "g_keys a1 = (snd ?inc)\<lparr>gtks := (gtks (snd ?inc))\<lparr>ins_gtk_hash := h, ins_gtk_hash_set := m\<rparr>\<rparr>"
    using auth_starts [OF assms(1)] by blast
  obtain ks where s1: "supp_gkh_sec_prot_receive (supp_run cfg) (gkh_wire (c_env cfg) ?key True 56 ?c (Some (kde_message (msg1_kdes (g_gtks a) i) 56)))
      (word_of_nat (length (gkh_wire (c_env cfg) ?key True 56 ?c (Some (kde_message (msg1_kdes (g_gtks a) i) 56))))) s =
      Some (0, supp_after_1 ks (sec_prot_keys_fresh_gtkl_get (g_gtks a)) ?c s)"
    "installed i (gk_key (gtk (g_gtks a) ! i)) (gk_lifetime (gtk (g_gtks a) ! i)) (g_gtks s) ks"
    using supp_receives_1 [OF e, of s "g_gtks a" i ?c] assms(2-5) ins by auto
  define q where "q = supp_after_1 ks (sec_prot_keys_fresh_gtkl_get (g_gtks a)) ?c s"
  have q: "sp_out q = sp_out s @ [Create_ind]" "sc_state (sp_common q) = SEC_STATE_CREATE_RESP" "sp_header_size q = sp_header_size s"
    "ptk (g_keys q) = ?key" "pmk_key_replay_cnt (g_keys q) = ?c" "g_gtks q = ks" "gtkl (gtks (g_keys q)) = sec_prot_keys_fresh_gtkl_get (g_gtks a)"
    using assms(3) by (simp_all add: q_def supp_after_1_def gkh_clear_def)
  obtain h2 s2 where s2: "length h2 = unat (sp_header_size s)" "supp_run cfg (supp_gkh_sec_prot_create_response SEC_RESULT_OK q) = Some s2"
    "sp_out s2 = sp_out q @ [State_machine_call, Send (h2 @ gkh_wire (c_env cfg) ?key False 0 ?c None), Finished_ind SEC_RESULT_OK, Receive_disable]"
    "sc_state (sp_common s2) = SEC_STATE_FINISHED" "g_keys s2 = g_keys q" "g_gtks s2 = g_gtks q"
    using supp_message_2 [OF e, of q] q ins(3) by auto
  have k1: "length (ptk (g_keys a1)) = 48" "ptk (g_keys a1) = ?key" "pmk_key_replay_cnt (g_keys a1) = ?c" "gtk_set_index (gtks (g_keys a1)) = int i"
    using a1(6) inc ins(3,4) by simp_all
  obtain a2 where a2: "auth_gkh_sec_prot_receive (auth_run cfg) (gkh_wire (c_env cfg) ?key False 0 ?c None)
      (word_of_nat (length (gkh_wire (c_env cfg) ?key False 0 ?c None))) a1 = Some (0, a2)" "sc_state (sp_common a2) = SEC_STATE_FINISHED"
    "g_keys a2 = (g_keys a1)\<lparr>gtks := sec_prot_keys_gtkl_from_gtk_insert_index_set (gtks (g_keys a1)),
      lgtks := sec_prot_keys_gtkl_from_gtk_insert_index_set (lgtks (g_keys a1))\<rparr>"
    "\<exists>extra. sp_out a2 = sp_out a1 @ [Finished_ind SEC_RESULT_OK] @ extra @ [Receive_disable]"
    using auth_receives_2 [OF e k1(1) a1(4,5)] k1(2,3) by auto
  have "sec_prot_keys_gtkl_gtk_is_live (gtks (g_keys a2)) i" "gtk_set_index (gtks (g_keys a2)) = -1"
    using a2(3) k1(4) ins(1) by (simp_all add: sec_prot_keys_gtkl_from_gtk_insert_index_set_def sec_prot_keys_gtkl_gtk_live_set_def
        sec_prot_keys_gtk_insert_index_clear_def live_iff_bit GTK_NUM_def bit_simps)
  moreover have "pmk_key_replay_cnt (g_keys a2) = ?c" using a2(3) k1(3) by simp
  ultimately show ?thesis
    using a1(1-3) s1 [folded q_def] q s2 a2(1,2,4) by metis
qed

definition cfg_example :: gkh_cfg where
  "cfg_example = \<lparr>c_env = env_example, c_sha256 = (\<lambda>_. Some (replicate 32 1)),
     c_trickle = \<lparr>Imin = 10, Imax = 20, redundancy = 0, TimerExpirations = 2\<rparr>\<rparr>"

definition prot_example :: "nat \<Rightarrow> int \<Rightarrow> sec_prot_gtk_keys \<Rightarrow> unit gkh_prot" where
  "prot_example st idx ks = \<lparr>sp_common = \<lparr>sc_trickle = \<lparr>debug_name = [], tk_c = 0, tk_e = 0, tk_I = 0, tk_t = 0, tk_now = 0\<rparr>, sc_ticks = 60,
       sc_state = st, sc_result = SEC_RESULT_OK, sc_trickle_running = False\<rparr>,
     sp_header_size = 5, sp_completed = True, sp_rolls = [0, 0, 0], sp_out = [], g_recv_eapol_pdu = None, g_recv_pdu = None, g_recv_size = 0,
     g_keys = (sec_prot_keys_init ())\<lparr>gtks := sec_gtk_zero\<lparr>gtk_set_index := idx\<rparr>, ptk_set := True, pmk_key_replay_cnt_set := True\<rparr>,
     g_gtks = ks, g_lgtks = sec_prot_keys_gtks_init\<rparr>"

lemma example_starting: "auth_starting cfg_example 1 (prot_example GKH_STATE_CREATE_REQ 1 table12)"
proof -
  let ?p = "prot_example GKH_STATE_CREATE_REQ 1 table12"
  have "gtk_set_index (lgtks (g_keys ?p)) = -1"
    by (simp add: prot_example_def sec_prot_keys_init_def sec_prot_keys_ptk_installed_gtk_hash_clear_all_def GTK_NUM_def sec_gtk_zero_def
        Let_def upt_rec)
  moreover have "gk_set (gtk table12 ! 1)" "gtks_inv table12" using table12_inv by (simp_all add: table12_def)
  moreover have "ptk (g_keys ?p) = replicate 48 0" "gtks (g_keys ?p) = sec_gtk_zero\<lparr>gtk_set_index := 1\<rparr>" "g_gtks ?p = table12"
    by (simp_all add: prot_example_def sec_prot_keys_init_def PTK_LEN_def Let_def)
  ultimately have "inserting 1 ?p" by (simp add: inserting_def sec_gtk_zero_def GTK_NUM_def)
  moreover have "fst (sec_prot_keys_pmk_replay_cnt_increment (g_keys ?p))"
    by (simp add: prot_example_def sec_prot_keys_init_def sec_prot_keys_pmk_replay_cnt_increment_def Let_def PMK_KEY_REPLAY_CNT_LIMIT_def)
  moreover have "good_roll 0" by (simp add: good_roll_def)
  moreover have "sc_state (sp_common ?p) = SEC_STATE_CREATE_REQ" "sc_result (sp_common ?p) = SEC_RESULT_OK" "sp_rolls ?p = [0, 0, 0]"
    by (simp_all add: prot_example_def)
  ultimately show ?thesis
    using env_example_ok by (simp add: auth_starting_def cfg_example_def sha256_total_def wf_params_def)
qed

theorem gkh_handshake_witness:
  "\<exists>a1 rx s1 s2. auth_run cfg_example (prot_example GKH_STATE_CREATE_REQ 1 table12) = Some a1 \<and>
    supp_gkh_sec_prot_receive (supp_run cfg_example) rx (word_of_nat (length rx)) (prot_example GKH_STATE_MESSAGE_1 (-1) sec_prot_keys_gtks_init) = Some (0, s1) \<and>
    supp_run cfg_example (supp_gkh_sec_prot_create_response SEC_RESULT_OK s1) = Some s2 \<and>
    installed 1 (replicate 16 1) 500 sec_prot_keys_gtks_init (g_gtks s2)"
proof -
  let ?a = "prot_example GKH_STATE_CREATE_REQ 1 table12" and ?s = "prot_example GKH_STATE_MESSAGE_1 (-1) sec_prot_keys_gtks_init"
  have s: "sc_state (sp_common ?s) = GKH_STATE_MESSAGE_1" "ptk (g_keys ?s) = ptk (g_keys ?a)" "gtks_inv (g_gtks ?s)"
    "sec_prot_keys_pmk_replay_cnt_compare (pmk_key_replay_cnt (snd (sec_prot_keys_pmk_replay_cnt_increment (g_keys ?a)))) (g_keys ?s)"
    using inv_init by (simp_all add: prot_example_def sec_prot_keys_init_def sec_prot_keys_pmk_replay_cnt_increment_def
        sec_prot_keys_pmk_replay_cnt_compare_def Let_def PMK_KEY_REPLAY_CNT_LIMIT_def)
  have g: "g_gtks ?a = table12" "g_gtks ?s = sec_prot_keys_gtks_init" "gk_key (gtk table12 ! 1) = replicate 16 1" "gk_lifetime (gtk table12 ! 1) = 500"
    by (simp_all add: prot_example_def table12_def)
  show ?thesis using gkh_handshake [OF example_starting s] unfolding g by metis
qed

text \<open>A message that fails the MIC check leaves the supplicant as it was.\<close>

lemma supp_rejects:
  assumes "sc_state (sp_common p) = GKH_STATE_MESSAGE_1" and "g_recv_eapol_pdu p = Some e" and "frame_key e = Some k" and "key_mic k = Some mic"
    and "g_recv_pdu p = Some rx" and "sec_prot_lib_mic_validate (c_env cfg) (ptk (g_keys p)) mic rx (ucast (g_recv_size p)) = Some (-1, rx')"
  shows "supp_run cfg p = Some (p\<lparr>g_recv_pdu := Some rx'\<rparr>)"
  using assms by (simp add: supp_run_def numeral_2_eq_2 sec_prot_state_get_def supp_gkh_sec_prot_mic_validate_def gkh_mic_validate_def Let_def)

lemma parsed_mic: "eapol_parse_pdu_header rx n = Some (Some e) \<Longrightarrow> msg e = Msg_key k \<Longrightarrow> \<exists>mic. key_mic k = Some mic"
  by (auto simp: eapol_parse_pdu_header_def eapol_parse_key_packet_def eapol_parse_eap_packet_def bind_eq_Some_conv Let_def split: if_splits)

text \<open>
  C14. A supplicant acts on a message 1 only if it is authentic and fresh: whatever frame (of up to 255 bytes) it receives, when its keys or
  key tables change or it calls the layer above, the frame is an EAPOL-Key frame of the group key kind whose replay counter is
  accepted and whose MIC is HMAC-SHA1 of the frame, with the MIC zeroed, under the key confirmation key.
\<close>

theorem supp_gkh_authentic:
  assumes "env_ok (c_env cfg)" and "16 \<le> length (ptk (g_keys p))" and "sc_state (sp_common p) = GKH_STATE_MESSAGE_1"
    and "length rx = unat n" and "unat n < 256" and "supp_gkh_sec_prot_receive (supp_run cfg) rx n p = Some (r, p')"
    and "g_gtks p' \<noteq> g_gtks p \<or> g_lgtks p' \<noteq> g_lgtks p \<or> g_keys p' \<noteq> g_keys p \<or> sp_out p' \<noteq> sp_out p"
  shows "\<exists>e k. eapol_parse_pdu_header rx n = Some (Some e) \<and> msg e = Msg_key k \<and> \<not> pairwise_key (key_information k) \<and>
    encrypted_key_data (key_information k) \<and> sec_prot_keys_pmk_replay_cnt_compare (replay_counter k) (g_keys p) \<and>
    take 16 (drop 81 rx) = take 16 (sha1_mac (c_env cfg) (take 16 (ptk (g_keys p)))
      (take (unat (packet_length e) + 4) (take 81 rx @ replicate 16 0 @ drop 97 rx)))"
proof -
  obtain ro where ro: "eapol_parse_pdu_header rx n = Some ro" using assms(6) by (auto simp: supp_gkh_sec_prot_receive_def gkh_receive_def bind_eq_Some_conv)
  have unchanged: False if "p' = gkh_clear p" using assms(7) that by (simp add: gkh_clear_def)
  obtain e where e: "ro = Some e"
    using assms(6) unchanged ro by (cases ro) (auto simp: supp_gkh_sec_prot_receive_def gkh_receive_def)
  obtain m where m: "supp_gkh_sec_prot_message_get e (g_keys p) = Some m"
    using assms(6) ro e by (auto simp: supp_gkh_sec_prot_receive_def gkh_receive_def bind_eq_Some_conv)
  have m1: "m \<noteq> GKH_MESSAGE_UNKNOWN"
    using assms(6) unchanged ro e m by (auto simp: supp_gkh_sec_prot_receive_def gkh_receive_def)
  obtain k where k: "msg e = Msg_key k" "frame_key e = Some k"
    using m by (auto simp: supp_gkh_sec_prot_message_get_def frame_key_def split: eapol_msg.splits)
  have g: "\<not> pairwise_key (key_information k)" "encrypted_key_data (key_information k)" "sec_prot_keys_pmk_replay_cnt_compare (replay_counter k) (g_keys p)"
    using m m1 k(2) by (auto simp: supp_gkh_sec_prot_message_get_def Let_def split: if_splits)
  obtain mic where mic: "key_mic k = Some mic" using parsed_mic [OF ro [unfolded e] k(1)] by blast
  let ?z = "take 81 rx @ replicate 16 0 @ drop 97 rx"
  let ?ok = "take 16 (drop 81 rx) = take 16 (sha1_mac (c_env cfg) (take 16 (ptk (g_keys p))) (take (unat (packet_length e) + 4) ?z))"
  note v = mic_validate_received [OF assms(1,2) ro [unfolded e] k(1) mic assms(4,5)]
  have ?ok
  proof (rule ccontr)
    assume "\<not> ?ok"
    then have "supp_run cfg (p\<lparr>g_recv_eapol_pdu := Some e, g_recv_pdu := Some rx, g_recv_size := n\<rparr>) =
        Some (p\<lparr>g_recv_eapol_pdu := Some e, g_recv_pdu := Some ?z, g_recv_size := n\<rparr>)"
      using supp_rejects [of "p\<lparr>g_recv_eapol_pdu := Some e, g_recv_pdu := Some rx, g_recv_size := n\<rparr>" e k mic rx cfg ?z] v assms(3) k(2) mic by simp
    then have "p' = gkh_clear p"
      using assms(6) ro e m m1 by (simp add: supp_gkh_sec_prot_receive_def gkh_receive_def gkh_clear_def)
    then show False by (rule unchanged)
  qed
  then show ?thesis using ro e k(1) g by blast
qed

theorem supp_gkh_authentic_witness:
  "\<exists>(p :: unit gkh_prot) rx r p' e k. supp_gkh_sec_prot_receive (supp_run cfg_example) rx (word_of_nat (length rx)) p = Some (r, p') \<and>
    sp_out p' \<noteq> sp_out p \<and> eapol_parse_pdu_header rx (word_of_nat (length rx)) = Some (Some e) \<and> msg e = Msg_key k \<and>
    sec_prot_keys_pmk_replay_cnt_compare (replay_counter k) (g_keys p)"
proof -
  let ?p = "prot_example GKH_STATE_MESSAGE_1 (-1) sec_prot_keys_gtks_init"
  define rx where "rx = gkh_wire env_example (ptk (g_keys ?p)) True 56 1 (Some (kde_message (msg1_kdes table12 1) 56))"
  have p: "length (ptk (g_keys ?p)) = 48" "sc_state (sp_common ?p) = SEC_STATE_FIRST" "gtks_inv (g_gtks ?p)" "c_env cfg_example = env_example"
    "sec_prot_keys_pmk_replay_cnt_compare 1 (g_keys ?p)"
    using inv_init by (simp_all add: prot_example_def sec_prot_keys_init_def sec_prot_keys_pmk_replay_cnt_compare_def Let_def PTK_LEN_def cfg_example_def)
  obtain ks where r: "supp_gkh_sec_prot_receive (supp_run cfg_example) rx (word_of_nat (length rx)) ?p =
      Some (0, supp_after_1 ks (sec_prot_keys_fresh_gtkl_get table12) 1 ?p)"
    using supp_receives_1 [of cfg_example ?p table12 1 1] env_example_ok p table12_inv(1) by (auto simp: rx_def)
  have out: "sp_out (supp_after_1 ks (sec_prot_keys_fresh_gtkl_get table12) 1 ?p) \<noteq> sp_out ?p" by (simp add: supp_after_1_def gkh_clear_def)
  have "kde_fits True (Some (kde_message (msg1_kdes table12 1) 56)) (unat (56 :: u16))"
    using msg1_kdes_ok(2) [OF table12_inv(1), of 1] by (simp add: kde_fits_def kde_message_def)
  then have l: "length rx = 155" using gkh_received(1) [OF env_example_ok, of "ptk (g_keys ?p)" 56 True _ 1] p(1) by (simp add: rx_def)
  have n: "unat (word_of_nat (length rx) :: u16) = length rx" using l by simp
  have e: "env_ok (c_env cfg_example)" "16 \<le> length (ptk (g_keys ?p))" "unat (word_of_nat (length rx) :: u16) < 256"
    using env_example_ok p(1,4) l by simp_all
  from supp_gkh_authentic [OF e(1,2) p(2) n [symmetric] e(3) r] out show ?thesis using r by blast
qed

interpretation supp_gkh: sec_protocol "supp_run cfg" "\<lambda>_. True" "\<lambda>_. False" for cfg
proof
  show "True = True \<and> False = False" by simp
next
  fix p :: "'c gkh_prot"
  assume "sc_state (sp_common p) = SEC_STATE_FINISH"
  then show "\<exists>p'. supp_run cfg p = Some p' \<and> sc_state (sp_common p') = SEC_STATE_FINISHED \<and> sc_ticks (sp_common p') = SEC_FINISHED_TIMEOUT \<and>
      sec_prot.more p' = sec_prot.more p \<and>
      sp_out p' = sp_out p @ (if False then [] else [Finished_ind (sc_result (sp_common p))]) @ [Receive_disable]"
    by (simp add: supp_run_def numeral_2_eq_2 sec_prot_defs sec_prot_state_set_def Let_def)
next
  fix p :: "'c gkh_prot"
  assume "sc_state (sp_common p) = SEC_STATE_FINISHED"
  then show "\<exists>p'. supp_run cfg p = Some p' \<and> sp_common p' = sp_common p \<and> sp_out p' = sp_out p @ [Timer_stop, Finished] \<and>
      sec_prot.more p' = sec_prot.more p"
    by (simp add: supp_run_def numeral_2_eq_2 sec_prot_defs Let_def)
qed

text \<open>
  A supplicant that hears nothing more gives up: from any state, when its timer has run out it is in the state finished with
  receiving disabled, having reported a time-out unless it had not started; after another five seconds it stops
  its timer and asks to be deleted. Its keys are left alone.
\<close>

theorem supp_gkh_gives_up:
  assumes "sc_state (sp_common p) \<noteq> GKH_STATE_FINISHED"
  defines "n \<equiv> max 1 (unat (sc_ticks (sp_common p)))"
  shows "\<exists>p1 p2. wait_ticks (supp_gkh_sec_prot_timer_timeout (supp_run cfg) 1) n p = Some p1 \<and> sc_state (sp_common p1) = GKH_STATE_FINISHED \<and>
    sp_out p1 = sp_out p @ (if sc_state (sp_common p) = GKH_STATE_INIT then [Receive_disable] else [Finished_ind SEC_RESULT_TIMEOUT, Receive_disable]) \<and>
    wait_ticks (supp_gkh_sec_prot_timer_timeout (supp_run cfg) 1) (n + 50) p = Some p2 \<and> sp_out p2 = sp_out p1 @ [Timer_stop, Finished] \<and>
    g_keys p2 = g_keys p \<and> g_gtks p2 = g_gtks p \<and> g_lgtks p2 = g_lgtks p"
  using supp_gkh.gives_up [OF assms(1) TrueI, of cfg] unfolding n_def supp_gkh_sec_prot_timer_timeout_def [symmetric]
  by (auto dest: more_fields)

theorem supp_gkh_gives_up_witness:
  "\<exists>p2. wait_ticks (supp_gkh_sec_prot_timer_timeout (supp_run cfg_example) 1) 110 (prot_example GKH_STATE_MESSAGE_1 (-1) table12) = Some p2 \<and>
    sp_out p2 = [Finished_ind SEC_RESULT_TIMEOUT, Receive_disable, Timer_stop, Finished]"
  using supp_gkh_gives_up [of "prot_example GKH_STATE_MESSAGE_1 (-1) table12" cfg_example] by (auto simp: prot_example_def)

text \<open>
  A frame that holds an EAP packet instead of a key frame is not told apart by \<open>message_get\<close>: the receiver reads the member \<open>key\<close> of the
  union while the parser has set the member \<open>eap\<close>. The model gives such a read no value.
\<close>

lemma gkh_eap_frame:
  assumes "eapol_parse_pdu_header rx n = Some (Some e)" and "msg e = Msg_eap h"
  shows "auth_gkh_sec_prot_receive sm rx n p = None" and "supp_gkh_sec_prot_receive sm rx n p = None"
  using assms by (simp_all add: auth_gkh_sec_prot_receive_def supp_gkh_sec_prot_receive_def gkh_receive_def
      auth_gkh_sec_prot_message_get_def supp_gkh_sec_prot_message_get_def frame_key_def)

end
