(* ===== verification/Fwh.thy ===== *)
theory Fwh
  imports Gkh
begin

text \<open>
  \<open>src/stack/source/security/protocols/fwh_sec_prot\<close>: the four-way handshake (4WH) of IEEE 802.11, \<open>auth_fwh_sec_prot.c\<close> for the
  authenticator and \<open>supp_fwh_sec_prot.c\<close> for the supplicant. It derives the pairwise transient key from the pairwise
  master key, proves to each side that the other holds it, and hands over a group key.

  The two structures \<open>fwh_sec_prot_int_t\<close> have a part in common, the record \<open>fwh_prot\<close>; \<open>f_nonce\<close> is \<open>nonce\<close> on the
  authenticator and \<open>snonce\<close> on the supplicant. As in \<open>Gkh\<close>, \<open>f_keys\<close>, \<open>f_gtks\<close> and \<open>f_lgtks\<close> are the objects \<open>prot->sec_keys\<close> reaches.
  \<open>f_random\<close> is what the random device delivers. The addresses \<open>prot->addr_get\<close> returns and the fields of
  \<open>prot->sec_cfg\<close> are in a \<open>fwh_cfg\<close>; \<open>c_time_bytes\<close> is the representation of the 64 bit number 1000 in memory.
\<close>

section \<open>State\<close>

datatype fwh_sec_prot_msg_e = FWH_MESSAGE_UNKNOWN | FWH_MESSAGE_1 | FWH_MESSAGE_2 | FWH_MESSAGE_3 | FWH_MESSAGE_4

record 'c fwh_prot = sec_prot +
  f_recv_eapol_pdu :: "eapol_pdu option"
  f_recv_msg :: fwh_sec_prot_msg_e
  f_nonce :: "u8 list"
  f_new_ptk :: "u8 list"
  f_remote_eui64 :: "u8 list"
  f_recv_pdu :: "u8 list option"
  f_recv_size :: u16
  f_keys :: "'c sec_prot_keys"
  f_gtks :: sec_prot_gtk_keys
  f_lgtks :: sec_prot_gtk_keys
  f_random :: "u8 list"

record 'c supp_fwh_prot = "'c fwh_prot" +
  f_anonce :: "u8 list"
  f_recv_replay_cnt :: u64
  f_msg3_received :: bool
  f_msg3_retry_wait :: bool
  f_recv_replay_cnt_set :: bool

record fwh_cfg = gkh_cfg +
  c_local :: "u8 list"
  c_remote :: "u8 list"
  c_retry_timeout :: u16
  c_ptk_lifetime :: u32
  c_time_bytes :: "u8 list"

abbreviation "FWH_STATE_INIT \<equiv> SEC_STATE_INIT"
abbreviation "FWH_STATE_CREATE_REQ \<equiv> SEC_STATE_CREATE_REQ"
abbreviation "FWH_STATE_CREATE_RESP \<equiv> SEC_STATE_CREATE_RESP"
abbreviation "FWH_STATE_MESSAGE_1 \<equiv> SEC_STATE_FIRST"
abbreviation "FWH_STATE_MESSAGE_2 \<equiv> SEC_STATE_FIRST"
abbreviation "FWH_STATE_FINISH \<equiv> SEC_STATE_FINISH"
abbreviation "FWH_STATE_FINISHED \<equiv> SEC_STATE_FINISHED"
definition FWH_STATE_MESSAGE_4 :: nat where "FWH_STATE_MESSAGE_4 = SEC_STATE_FIRST + 1"
definition FWH_STATE_MESSAGE_3 :: nat where "FWH_STATE_MESSAGE_3 = SEC_STATE_FIRST + 1"
definition FWH_STATE_MESSAGE_3_RETRY_WAIT :: nat where "FWH_STATE_MESSAGE_3_RETRY_WAIT = SEC_STATE_FIRST + 2"

definition EAPOL_KEY_LEN :: u16 where "EAPOL_KEY_LEN = 16"
definition WS_NR_ROLE_LFN :: u8 where "WS_NR_ROLE_LFN = 2"

section \<open>What the two sides share\<close>

text \<open>The next 32 bytes of the random device become the nonce.\<close>

definition fwh_nonce_generate :: "('c, 'a) fwh_prot_scheme \<Rightarrow> ('c, 'a) fwh_prot_scheme option" where
  "fwh_nonce_generate p =
     do { n \<leftarrow> sec_prot_lib_nonce_generate (f_random p);
          Some (p\<lparr>f_nonce := n, f_random := drop EAPOL_KEY_NONCE_LEN (f_random p)\<rparr>) }"

definition fwh_nonce_init :: "('z fwh_cfg_scheme) \<Rightarrow> ('c, 'a) fwh_prot_scheme \<Rightarrow> ('c, 'a) fwh_prot_scheme option" where
  "fwh_nonce_init cfg p =
     do { n \<leftarrow> sec_prot_lib_nonce_init (c_env cfg) (f_random p) [1, 2, 3, 4, 5, 6, 7, 8] (c_time_bytes cfg);
          Some (p\<lparr>f_nonce := n, f_random := drop EAPOL_KEY_NONCE_LEN (f_random p)\<rparr>) }"

definition fwh_mic_validate :: "'z fwh_cfg_scheme \<Rightarrow> ('c, 'a) fwh_prot_scheme \<Rightarrow> (int \<times> ('c, 'a) fwh_prot_scheme) option" where
  "fwh_mic_validate cfg p =
     do { pdu \<leftarrow> f_recv_eapol_pdu p;
          k \<leftarrow> frame_key pdu;
          mic \<leftarrow> key_mic k;
          rx \<leftarrow> f_recv_pdu p;
          (r, rx) \<leftarrow> sec_prot_lib_mic_validate (c_env cfg) (f_new_ptk p) mic rx (ucast (f_recv_size p));
          Some (r, p\<lparr>f_recv_pdu := Some rx\<rparr>) }"

definition fwh_clear :: "('c, 'a) fwh_prot_scheme \<Rightarrow> ('c, 'a) fwh_prot_scheme" where
  "fwh_clear p = p\<lparr>f_recv_eapol_pdu := None, f_recv_msg := FWH_MESSAGE_UNKNOWN, f_recv_pdu := None, f_recv_size := 0\<rparr>"

text \<open>\<open>receive\<close> is the same on both sides but for \<open>message_get\<close>; the pointer is set whether or not the message is known.\<close>

definition fwh_receive ::
  "(('c, 'a) fwh_prot_scheme \<Rightarrow> eapol_pdu \<Rightarrow> fwh_sec_prot_msg_e option) \<Rightarrow>
     (('c, 'a) fwh_prot_scheme \<Rightarrow> ('c, 'a) fwh_prot_scheme option) \<Rightarrow> u8 list \<Rightarrow> u16 \<Rightarrow> ('c, 'a) fwh_prot_scheme \<Rightarrow>
     (int \<times> ('c, 'a) fwh_prot_scheme) option" where
  "fwh_receive message_get sm pdu len p =
     do { r \<leftarrow> eapol_parse_pdu_header pdu len;
          (ret_val, p) \<leftarrow>
            (case r of None \<Rightarrow> Some (-1, p)
             | Some e \<Rightarrow>
                 do { m \<leftarrow> message_get p e;
                      let p = p\<lparr>f_recv_eapol_pdu := Some e, f_recv_msg := m\<rparr>;
                      p \<leftarrow> (if m \<noteq> FWH_MESSAGE_UNKNOWN then sm (p\<lparr>f_recv_pdu := Some pdu, f_recv_size := len\<rparr>) else Some p);
                      Some (0, p) });
          Some (ret_val, fwh_clear p) }"

section \<open>Authenticator\<close>

definition auth_fwh_sec_prot_message_get :: "('c, 'a) fwh_prot_scheme \<Rightarrow> eapol_pdu \<Rightarrow> fwh_sec_prot_msg_e option" where
  "auth_fwh_sec_prot_message_get p pdu =
     do { k \<leftarrow> frame_key pdu;
          if \<not> pairwise_key (key_information k) then Some FWH_MESSAGE_UNKNOWN
          else let key_mask = eapol_pdu_key_mask_get k in
               Some (if key_mask = KEY_INFO_KEY_MIC
                     then (if replay_counter k = sec_prot_keys_pmk_replay_cnt_get (f_keys p) then FWH_MESSAGE_2 else FWH_MESSAGE_UNKNOWN)
                     else if key_mask = KEY_INFO_KEY_MIC OR KEY_INFO_SECURED_KEY_FRAME
                     then (if replay_counter k = sec_prot_keys_pmk_replay_cnt_get (f_keys p) then FWH_MESSAGE_4 else FWH_MESSAGE_UNKNOWN)
                     else FWH_MESSAGE_UNKNOWN) }"

text \<open>The key table and the node's record of it that the role of the node selects, and storing the latter.\<close>

definition auth_fwh_gtks :: "('c, 'a) fwh_prot_scheme \<Rightarrow> sec_prot_gtk_keys \<times> sec_prot_gtk" where
  "auth_fwh_gtks p = (if node_role (f_keys p) = WS_NR_ROLE_LFN then (f_lgtks p, lgtks (f_keys p)) else (f_gtks p, gtks (f_keys p)))"

definition auth_fwh_gtks_put :: "sec_prot_gtk \<Rightarrow> ('c, 'a) fwh_prot_scheme \<Rightarrow> ('c, 'a) fwh_prot_scheme" where
  "auth_fwh_gtks_put g p = p\<lparr>f_keys := (if node_role (f_keys p) = WS_NR_ROLE_LFN then (f_keys p)\<lparr>lgtks := g\<rparr> else (f_keys p)\<lparr>gtks := g\<rparr>)\<rparr>"

text \<open>
  The key data of message 3: the key to insert, or the active key when there is none to insert. With no active key either
  the index is \<open>-1\<close> as a byte and the pointer null.
\<close>

definition auth_fwh_kdes :: "u8 list \<Rightarrow> nat \<Rightarrow> ('c, 'a) fwh_prot_scheme \<Rightarrow> u8 list option" where
  "auth_fwh_kdes kde_start kde_len p =
     do { let lfn = (node_role (f_keys p) = WS_NR_ROLE_LFN);
          let (ks, sec_gtks) = auth_fwh_gtks p;
          g \<leftarrow> sec_prot_keys_get_gtk_to_insert ks sec_gtks;
          (gtk_index, g) \<leftarrow>
            (case g of Some (i, g) \<Rightarrow> Some (word_of_nat i :: u8, g)
             | None \<Rightarrow> do { let i = (word_of_int (sec_prot_keys_gtk_status_active_get ks) :: u8);
                           g \<leftarrow> sec_prot_keys_gtk_get ks (unat i);
                           Some (i, g) });
          kde_end \<leftarrow> (if lfn then kde_lgtk_write (kde_start, 0) gtk_index g else kde_gtk_write (kde_start, 0) gtk_index g);
          kde_end \<leftarrow> kde_lifetime_write kde_end (sec_prot_keys_gtk_lifetime_get ks (unat gtk_index));
          let l = sec_prot_keys_fresh_gtkl_get ks;
          kde_end \<leftarrow> (if lfn then kde_lgtkl_write kde_end l else kde_gtkl_write kde_end l);
          kde_padding_write kde_end kde_len }"

text \<open>\<open>Some None\<close> when the PMKID cannot be computed.\<close>

definition auth_fwh_key_data ::
  "'z fwh_cfg_scheme \<Rightarrow> fwh_sec_prot_msg_e \<Rightarrow> u8 list \<Rightarrow> nat \<Rightarrow> ('c, 'a) fwh_prot_scheme \<Rightarrow> u8 list option option" where
  "auth_fwh_key_data cfg m kde_start kde_len p =
     (if m = FWH_MESSAGE_1 then
        do { (pmkid, _) \<leftarrow> sec_prot_lib_pmkid_generate (c_env cfg) (f_keys p) (c_local cfg) (c_remote cfg) True False;
             case pmkid of None \<Rightarrow> Some None
             | Some pmkid \<Rightarrow> do { (kde, _) \<leftarrow> kde_pmkid_write (kde_start, 0) pmkid; Some (Some kde) } }
      else if m = FWH_MESSAGE_3 then do { kde \<leftarrow> auth_fwh_kdes kde_start kde_len p; Some (Some kde) }
      else Some (Some kde_start))"

definition auth_fwh_frame :: "fwh_sec_prot_msg_e \<Rightarrow> u64 \<Rightarrow> u8 list \<Rightarrow> eapol_key_frame \<Rightarrow> eapol_key_frame" where
  "auth_fwh_frame m c nonce k =
     (if m = FWH_MESSAGE_1 then
        k\<lparr>replay_counter := c, key_information := (key_information k)\<lparr>key_ack := True\<rparr>, key_length := EAPOL_KEY_LEN, key_nonce := Some nonce\<rparr>
      else if m = FWH_MESSAGE_3 then
        k\<lparr>replay_counter := c, key_information := (key_information k)\<lparr>install := True, key_ack := True, key_mic_flag := True,
            secured_key_frame := True, encrypted_key_data := True\<rparr>, key_nonce := Some nonce, key_length := EAPOL_KEY_LEN\<rparr>
      else k)"

definition auth_fwh_sec_prot_message_send ::
  "'z fwh_cfg_scheme \<Rightarrow> fwh_sec_prot_msg_e \<Rightarrow> ('c, 'a) fwh_prot_scheme \<Rightarrow> ('c, 'a) fwh_prot_scheme option" where
  "auth_fwh_sec_prot_message_send cfg m p =
     (let kde_len = (if m = FWH_MESSAGE_1 then word_of_nat KDE_PMKID_LEN
                     else if m = FWH_MESSAGE_3
                     then let kde_len = word_of_nat (KDE_GTK_LEN + KDE_LIFETIME_LEN + KDE_GTKL_LEN); kde_len = kde_len + 8
                          in kde_padded_length_calc kde_len
                     else 0)
      in case env_malloc (c_env cfg) (unat kde_len) of None \<Rightarrow> Some p
         | Some kde_start \<Rightarrow>
             do { kde \<leftarrow> auth_fwh_key_data cfg m kde_start (unat kde_len) p;
                  case kde of None \<Rightarrow> Some p
                  | Some kde_start \<Rightarrow>
                      do { let (eapol_pdu_size, eapol_pdu) = eapol_pdu_key_frame_init kde_len None;
                           let eapol_pdu = upd_key (\<lambda>k. k\<lparr>key_information := (key_information k)\<lparr>pairwise_key := True\<rparr>\<rparr>) eapol_pdu;
                           let (ok, keys) = (if m = FWH_MESSAGE_1 \<or> m = FWH_MESSAGE_3 then sec_prot_keys_pmk_replay_cnt_increment (f_keys p)
                                             else (True, f_keys p));
                           let p = p\<lparr>f_keys := keys\<rparr>;
                           if \<not> ok then Some p
                           else do { let eapol_pdu = upd_key (auth_fwh_frame m (sec_prot_keys_pmk_replay_cnt_get (f_keys p)) (f_nonce p)) eapol_pdu;
                                     f \<leftarrow> sec_prot_lib_message_build (c_env cfg) (f_new_ptk p) (Some kde_start) kde_len eapol_pdu
                                            eapol_pdu_size (sp_header_size p);
                                     case f of None \<Rightarrow> Some p | Some f \<Rightarrow> Some (emit (Send f) p) } } })"

definition auth_fwh_sec_prot_auth_completed_send ::
  "'z fwh_cfg_scheme \<Rightarrow> ('c, 'a) fwh_prot_scheme \<Rightarrow> ('c, 'a) fwh_prot_scheme option" where
  "auth_fwh_sec_prot_auth_completed_send cfg p =
     do { f \<leftarrow> env_malloc (c_env cfg) (unat (sp_header_size p)); Some (emit (Send f) p) }"

definition auth_fwh_sec_prot_ptk_generate ::
  "'z fwh_cfg_scheme \<Rightarrow> ('c, 'a) fwh_prot_scheme \<Rightarrow> (int \<times> ('c, 'a) fwh_prot_scheme) option" where
  "auth_fwh_sec_prot_ptk_generate cfg p =
     do { let p = p\<lparr>f_remote_eui64 := c_remote cfg\<rparr>;
          pdu \<leftarrow> f_recv_eapol_pdu p;
          k \<leftarrow> frame_key pdu;
          case key_nonce k of None \<Rightarrow> Some (1, p)
          | Some remote_nonce \<Rightarrow>
              do { pmk \<leftarrow> sec_prot_keys_pmk_get (f_keys p);
                   t \<leftarrow> sec_prot_lib_ptk_calc (c_env cfg) pmk (c_local cfg) (f_remote_eui64 p) (f_nonce p) remote_nonce;
                   Some (0, p\<lparr>f_new_ptk := t\<rparr>) } }"

definition auth_fwh_sec_prot_mic_validate ::
  "'z fwh_cfg_scheme \<Rightarrow> ('c, 'a) fwh_prot_scheme \<Rightarrow> (int \<times> ('c, 'a) fwh_prot_scheme) option" where
  "auth_fwh_sec_prot_mic_validate cfg p = fwh_mic_validate cfg p"

text \<open>What the authenticator does with a valid message 4, up to the change of state.\<close>

definition auth_fwh_install :: "'z fwh_cfg_scheme \<Rightarrow> ('c, 'a) fwh_prot_scheme \<Rightarrow> ('c, 'a) fwh_prot_scheme option" where
  "auth_fwh_install cfg p =
     do { let (ks, g) = auth_fwh_gtks p;
          let g = sec_prot_keys_ptk_installed_gtk_hash_clear_all g;
          g \<leftarrow> sec_prot_keys_ptk_installed_gtk_hash_set (c_sha256 cfg) ks g True;
          let g = sec_prot_keys_gtkl_from_gtk_insert_index_set g;
          let p = auth_fwh_gtks_put g p;
          let p = p\<lparr>f_keys := sec_prot_keys_ptk_mismatch_reset (f_keys p)\<rparr>;
          k \<leftarrow> sec_prot_keys_ptk_write (f_keys p) (f_new_ptk p) (c_ptk_lifetime cfg);
          k \<leftarrow> sec_prot_keys_ptk_eui_64_write k (f_remote_eui64 p);
          Some (p\<lparr>f_keys := k\<rparr>) }"

fun auth_fwh_sec_prot_state_machine :: "fwh_cfg \<Rightarrow> nat \<Rightarrow> 'c fwh_prot \<Rightarrow> 'c fwh_prot option" where
  "auth_fwh_sec_prot_state_machine cfg 0 p = None"
| "auth_fwh_sec_prot_state_machine cfg (Suc n) p =
     (let sm = auth_fwh_sec_prot_state_machine cfg n; st = sec_prot_state_get (sp_common p) in
      if st = FWH_STATE_INIT then sec_prot_state_set sm FWH_STATE_CREATE_REQ (emit Timer_start p)
      else if st = FWH_STATE_CREATE_REQ then
        do { let p = upd_common sec_prot_default_timeout_set p;
             case sec_prot_keys_pmk_get (f_keys p) of
               None \<Rightarrow> sec_prot_state_set sm FWH_STATE_FINISHED (emit (Create_conf SEC_RESULT_ERROR) p)
             | Some _ \<Rightarrow>
                 do { let p = emit (Create_conf SEC_RESULT_OK) p;
                      p \<leftarrow> fwh_nonce_generate p;
                      p \<leftarrow> auth_fwh_sec_prot_message_send cfg FWH_MESSAGE_1 p;
                      p \<leftarrow> sec_prot_timer_trickle_start (c_trickle cfg) p;
                      sec_prot_state_set sm FWH_STATE_MESSAGE_2 p } }
      else if st = FWH_STATE_MESSAGE_2 then
        do { let (timeout, d) = sec_prot_result_timeout_check (sp_common p);
             let p = p\<lparr>sp_common := d\<rparr>;
             if timeout then do { p \<leftarrow> fwh_nonce_generate p; auth_fwh_sec_prot_message_send cfg FWH_MESSAGE_1 p }
             else if f_recv_msg p \<noteq> FWH_MESSAGE_2 then Some p
             else do { (r, p) \<leftarrow> auth_fwh_sec_prot_ptk_generate cfg p;
                       if r < 0 then Some p
                       else do { (r, p) \<leftarrow> auth_fwh_sec_prot_mic_validate cfg p;
                                 if r < 0 then Some (p\<lparr>f_new_ptk := replicate PTK_LEN 0\<rparr>)
                                 else do { p \<leftarrow> auth_fwh_sec_prot_message_send cfg FWH_MESSAGE_3 p;
                                           p \<leftarrow> sec_prot_timer_trickle_start (c_trickle cfg) p;
                                           sec_prot_state_set sm FWH_STATE_MESSAGE_4 p } } } }
      else if st = FWH_STATE_MESSAGE_4 then
        do { let (timeout, d) = sec_prot_result_timeout_check (sp_common p);
             let p = p\<lparr>sp_common := d\<rparr>;
             if timeout then auth_fwh_sec_prot_message_send cfg FWH_MESSAGE_3 p
             else if f_recv_msg p \<noteq> FWH_MESSAGE_4 then Some p
             else do { (r, p) \<leftarrow> auth_fwh_sec_prot_mic_validate cfg p;
                       if r < 0 then Some p
                       else do { p \<leftarrow> auth_fwh_install cfg p; sec_prot_state_set sm FWH_STATE_FINISH p } } }
      else if st = FWH_STATE_FINISH then
        do { let p = emit (Finished_ind (sec_prot_result_get (sp_common p))) p;
             p \<leftarrow> (if sp_completed p then auth_fwh_sec_prot_auth_completed_send cfg p else Some p);
             sec_prot_state_set sm FWH_STATE_FINISHED p }
      else if st = FWH_STATE_FINISHED then Some (emit Finished (emit Timer_stop p))
      else Some p)"

definition auth_fwh_sec_prot_init ::
  "fwh_cfg \<Rightarrow> ('c fwh_prot \<Rightarrow> 'c fwh_prot option) \<Rightarrow> 'c fwh_prot \<Rightarrow> 'c fwh_prot option" where
  "auth_fwh_sec_prot_init cfg sm p =
     do { p \<leftarrow> sec_prot_state_set sm FWH_STATE_INIT (upd_common sec_prot_init p);
          let p = upd_common (\<lambda>d. d\<lparr>sc_ticks := 15 * 10\<rparr>) p;
          fwh_nonce_init cfg p }"

definition auth_fwh_sec_prot_create_request :: "'c sec_prot_keys \<Rightarrow> 'c fwh_prot \<Rightarrow> 'c fwh_prot" where
  "auth_fwh_sec_prot_create_request keys p = emit State_machine_call (p\<lparr>f_keys := keys\<rparr>)"

definition auth_fwh_sec_prot_timer_timeout ::
  "fwh_cfg \<Rightarrow> ('c fwh_prot \<Rightarrow> 'c fwh_prot option) \<Rightarrow> u16 \<Rightarrow> 'c fwh_prot \<Rightarrow> 'c fwh_prot option" where
  "auth_fwh_sec_prot_timer_timeout cfg sm ticks p = sec_prot_timer_timeout_handle sm (Some (c_trickle cfg)) ticks p"

definition auth_fwh_sec_prot_receive ::
  "('c fwh_prot \<Rightarrow> 'c fwh_prot option) \<Rightarrow> u8 list \<Rightarrow> u16 \<Rightarrow> 'c fwh_prot \<Rightarrow> (int \<times> 'c fwh_prot) option" where
  "auth_fwh_sec_prot_receive = fwh_receive auth_fwh_sec_prot_message_get"

section \<open>Supplicant\<close>

definition supp_fwh_sec_prot_recv_replay_cnt_compare :: "u64 \<Rightarrow> ('c, 'a) supp_fwh_prot_scheme \<Rightarrow> bool" where
  "supp_fwh_sec_prot_recv_replay_cnt_compare received_counter p =
     (if f_recv_replay_cnt_set p \<and> received_counter > f_recv_replay_cnt p then True
      else if \<not> f_recv_replay_cnt_set p \<and> received_counter \<ge> f_recv_replay_cnt p then True
      else False)"

definition supp_fwh_sec_prot_message_get :: "('c, 'a) supp_fwh_prot_scheme \<Rightarrow> eapol_pdu \<Rightarrow> fwh_sec_prot_msg_e option" where
  "supp_fwh_sec_prot_message_get p pdu =
     do { k \<leftarrow> frame_key pdu;
          if \<not> pairwise_key (key_information k) then Some FWH_MESSAGE_UNKNOWN
          else let key_mask = eapol_pdu_key_mask_get k in
               Some (if key_mask = KEY_INFO_KEY_ACK
                     then (if sec_prot_keys_pmk_replay_cnt_compare (replay_counter k) (f_keys p) \<and>
                              supp_fwh_sec_prot_recv_replay_cnt_compare (replay_counter k) p then FWH_MESSAGE_1 else FWH_MESSAGE_UNKNOWN)
                     else if key_mask = KEY_INFO_INSTALL OR KEY_INFO_KEY_ACK OR KEY_INFO_KEY_MIC OR KEY_INFO_SECURED_KEY_FRAME
                     then (if sec_prot_keys_pmk_replay_cnt_compare (replay_counter k) (f_keys p)
                           then (if encrypted_key_data (key_information k) then FWH_MESSAGE_3 else FWH_MESSAGE_UNKNOWN)
                           else FWH_MESSAGE_UNKNOWN)
                     else FWH_MESSAGE_UNKNOWN) }"

definition supp_fwh_frame :: "fwh_sec_prot_msg_e \<Rightarrow> u64 \<Rightarrow> u8 list \<Rightarrow> eapol_key_frame \<Rightarrow> eapol_key_frame" where
  "supp_fwh_frame m c snonce k =
     (if m = FWH_MESSAGE_2 then
        k\<lparr>replay_counter := c, key_information := (key_information k)\<lparr>key_mic_flag := True\<rparr>, key_length := 0, key_nonce := Some snonce\<rparr>
      else if m = FWH_MESSAGE_4 then
        k\<lparr>replay_counter := c, key_information := (key_information k)\<lparr>key_mic_flag := True, secured_key_frame := True\<rparr>, key_length := 0\<rparr>
      else k)"

definition supp_fwh_sec_prot_message_send ::
  "fwh_cfg \<Rightarrow> fwh_sec_prot_msg_e \<Rightarrow> 'c supp_fwh_prot \<Rightarrow> 'c supp_fwh_prot option" where
  "supp_fwh_sec_prot_message_send cfg m p =
     do { let (eapol_pdu_size, eapol_pdu) = eapol_pdu_key_frame_init 0 None;
          let eapol_pdu = upd_key (\<lambda>k. k\<lparr>key_information := (key_information k)\<lparr>pairwise_key := True\<rparr>\<rparr>) eapol_pdu;
          let eapol_pdu = upd_key (supp_fwh_frame m (f_recv_replay_cnt p) (f_nonce p)) eapol_pdu;
          f \<leftarrow> sec_prot_lib_message_build (c_env cfg) (f_new_ptk p) None 0 eapol_pdu eapol_pdu_size (sp_header_size p);
          case f of None \<Rightarrow> Some p | Some f \<Rightarrow> Some (emit (Send f) p) }"

definition supp_fwh_sec_prot_ptk_generate :: "fwh_cfg \<Rightarrow> 'c supp_fwh_prot \<Rightarrow> (int \<times> 'c supp_fwh_prot) option" where
  "supp_fwh_sec_prot_ptk_generate cfg p =
     do { pdu \<leftarrow> f_recv_eapol_pdu p;
          k \<leftarrow> frame_key pdu;
          case key_nonce k of None \<Rightarrow> Some (-1, p)
          | Some remote_nonce \<Rightarrow>
              do { pmk \<leftarrow> sec_prot_keys_pmk_get (f_keys p);
                   t \<leftarrow> sec_prot_lib_ptk_calc (c_env cfg) pmk (c_local cfg) (f_remote_eui64 p) (f_nonce p) remote_nonce;
                   Some (0, p\<lparr>f_new_ptk := t\<rparr>) } }"

definition supp_fwh_sec_prot_mic_validate :: "fwh_cfg \<Rightarrow> 'c supp_fwh_prot \<Rightarrow> (int \<times> 'c supp_fwh_prot) option" where
  "supp_fwh_sec_prot_mic_validate cfg p = fwh_mic_validate cfg p"

definition supp_fwh_sec_prot_recv_replay_counter_store :: "'c supp_fwh_prot \<Rightarrow> 'c supp_fwh_prot option" where
  "supp_fwh_sec_prot_recv_replay_counter_store p =
     do { pdu \<leftarrow> f_recv_eapol_pdu p;
          k \<leftarrow> frame_key pdu;
          Some (p\<lparr>f_recv_replay_cnt := replay_counter k, f_recv_replay_cnt_set := True\<rparr>) }"

definition supp_fwh_sec_prot_anonce_store :: "'c supp_fwh_prot \<Rightarrow> 'c supp_fwh_prot option" where
  "supp_fwh_sec_prot_anonce_store p =
     do { pdu \<leftarrow> f_recv_eapol_pdu p;
          k \<leftarrow> frame_key pdu;
          nonce \<leftarrow> key_nonce k;
          n \<leftarrow> load_n nonce 0 EAPOL_KEY_NONCE_LEN;
          Some (p\<lparr>f_anonce := n\<rparr>) }"

definition supp_fwh_sec_prot_anonce_validate :: "'c supp_fwh_prot \<Rightarrow> int option" where
  "supp_fwh_sec_prot_anonce_validate p =
     do { pdu \<leftarrow> f_recv_eapol_pdu p;
          k \<leftarrow> frame_key pdu;
          nonce \<leftarrow> key_nonce k;
          c \<leftarrow> memcmp (f_anonce p) nonce EAPOL_KEY_NONCE_LEN;
          Some (if c \<noteq> 0 then -1 else 0) }"

definition supp_fwh_sec_prot_security_replay_counter_update :: "'c supp_fwh_prot \<Rightarrow> 'c supp_fwh_prot option" where
  "supp_fwh_sec_prot_security_replay_counter_update p =
     do { pdu \<leftarrow> f_recv_eapol_pdu p;
          k \<leftarrow> frame_key pdu;
          Some (p\<lparr>f_keys := sec_prot_keys_pmk_replay_cnt_set (f_keys p) (replay_counter k)\<rparr>) }"

text \<open>
  The PMKID of message 1: computed with the address of the border router validated before, then with the one it uses now. The
  address tried last stays in \<open>remote_eui64\<close>; nothing is stored there when the identifier cannot be computed at all.
\<close>

definition supp_fwh_pmkid_try :: "fwh_cfg \<Rightarrow> bool \<Rightarrow> u8 list \<Rightarrow> 'c supp_fwh_prot \<Rightarrow> (int \<times> 'c supp_fwh_prot) option" where
  "supp_fwh_pmkid_try cfg alt recv_pmkid p =
     do { (calc_pmkid, used) \<leftarrow> sec_prot_lib_pmkid_generate (c_env cfg) (f_keys p) (c_local cfg) (c_remote cfg) False alt;
          let p = (case used of None \<Rightarrow> p | Some e \<Rightarrow> p\<lparr>f_remote_eui64 := e\<rparr>);
          case calc_pmkid of None \<Rightarrow> Some (-1, p)
          | Some calc_pmkid \<Rightarrow> do { c \<leftarrow> memcmp recv_pmkid calc_pmkid (unat PMKID_LEN); Some (if c \<noteq> 0 then 1 else 0, p) } }"

definition supp_fwh_kde_handle :: "fwh_cfg \<Rightarrow> 'c supp_fwh_prot \<Rightarrow> (int \<times> 'c supp_fwh_prot) option" where
  "supp_fwh_kde_handle cfg p =
     do { pdu \<leftarrow> f_recv_eapol_pdu p;
          kde \<leftarrow> sec_prot_lib_message_handle (c_env cfg) (f_new_ptk p) pdu;
          case kde of None \<Rightarrow> Some (-1, p)
          | Some (kde, kde_len) \<Rightarrow>
              if f_recv_msg p = FWH_MESSAGE_1 then
                do { (r, recv_pmkid) \<leftarrow> kde_pmkid_read kde (unat kde_len);
                     if r < 0 then Some (-1, p)
                     else do { (r, p) \<leftarrow> supp_fwh_pmkid_try cfg False recv_pmkid p;
                               if r < 0 then Some (-1, p)
                               else if r = 0 then Some (0, p)
                               else do { (r, p) \<leftarrow> supp_fwh_pmkid_try cfg True recv_pmkid p;
                                         Some (if r \<noteq> 0 then -1 else 0, p) } } }
              else if f_recv_msg p = FWH_MESSAGE_3 then
                do { (ret, ks, g) \<leftarrow> sec_prot_lib_gtk_read kde kde_len (f_gtks p) (gtks (f_keys p));
                     let p = p\<lparr>f_gtks := ks, f_keys := (f_keys p)\<lparr>gtks := g\<rparr>\<rparr>;
                     if ret < 0
                     then do { (ret, ks, g) \<leftarrow> sec_prot_lib_lgtk_read kde kde_len (f_lgtks p) (lgtks (f_keys p));
                               let p = p\<lparr>f_lgtks := ks, f_keys := (f_keys p)\<lparr>lgtks := g\<rparr>\<rparr>;
                               Some (if ret < 0 then -1 else 0, p) }
                     else Some (0, p) }
              else Some (0, p) }"

text \<open>The steps the states share: taking over message 1, and checking and taking over message 3. \<open>False\<close> stands for an early return.\<close>

definition supp_fwh_accept_1 :: "fwh_cfg \<Rightarrow> 'c supp_fwh_prot \<Rightarrow> (bool \<times> 'c supp_fwh_prot) option" where
  "supp_fwh_accept_1 cfg p =
     do { p \<leftarrow> supp_fwh_sec_prot_anonce_store p;
          p \<leftarrow> fwh_nonce_generate p;
          (r, p) \<leftarrow> supp_fwh_sec_prot_ptk_generate cfg p;
          if r < 0 then Some (False, p)
          else do { p \<leftarrow> supp_fwh_sec_prot_recv_replay_counter_store p; Some (True, p) } }"

definition supp_fwh_accept_3 :: "fwh_cfg \<Rightarrow> 'c supp_fwh_prot \<Rightarrow> (bool \<times> 'c supp_fwh_prot) option" where
  "supp_fwh_accept_3 cfg p =
     do { (r, p) \<leftarrow> supp_fwh_sec_prot_mic_validate cfg p;
          if r < 0 then Some (False, p)
          else do { r \<leftarrow> supp_fwh_sec_prot_anonce_validate p;
                    if r < 0 then Some (False, p)
                    else do { (r, p) \<leftarrow> supp_fwh_kde_handle cfg p;
                              if r < 0 then Some (False, p)
                              else do { p \<leftarrow> supp_fwh_sec_prot_recv_replay_counter_store p;
                                        p \<leftarrow> supp_fwh_sec_prot_security_replay_counter_update p;
                                        Some (True, p) } } } }"

fun supp_fwh_sec_prot_state_machine :: "fwh_cfg \<Rightarrow> nat \<Rightarrow> 'c supp_fwh_prot \<Rightarrow> 'c supp_fwh_prot option" where
  "supp_fwh_sec_prot_state_machine cfg 0 p = None"
| "supp_fwh_sec_prot_state_machine cfg (Suc n) p =
     (let sm = supp_fwh_sec_prot_state_machine cfg n; st = sec_prot_state_get (sp_common p);
          retry_ticks = upd_common (\<lambda>d. d\<lparr>sc_ticks := c_retry_timeout cfg\<rparr>) in
      if st = FWH_STATE_INIT then sec_prot_state_set sm FWH_STATE_MESSAGE_1 (emit Timer_start p)
      else if st = FWH_STATE_MESSAGE_1 then
        (if f_recv_msg p \<noteq> FWH_MESSAGE_1 then Some p
         else do { (r, p) \<leftarrow> supp_fwh_kde_handle cfg p;
                   if r < 0 then Some p
                   else do { let p = upd_common sec_prot_default_timeout_set p;
                             (ok, p) \<leftarrow> supp_fwh_accept_1 cfg p;
                             if \<not> ok then Some p
                             else sec_prot_state_set sm FWH_STATE_CREATE_RESP (emit Create_ind p) } })
      else if st = FWH_STATE_CREATE_RESP then
        (if sec_prot_result_ok_check (sp_common p)
         then do { p \<leftarrow> supp_fwh_sec_prot_message_send cfg FWH_MESSAGE_2 p;
                   sec_prot_state_set sm FWH_STATE_MESSAGE_3 (retry_ticks p) }
         else sec_prot_state_set sm FWH_STATE_FINISHED p)
      else if st = FWH_STATE_MESSAGE_3 then
        (if f_recv_msg p = FWH_MESSAGE_1 then
           do { (r, p) \<leftarrow> supp_fwh_kde_handle cfg p;
                if r < 0 then Some p
                else do { (ok, p) \<leftarrow> supp_fwh_accept_1 cfg p;
                          if \<not> ok then Some p
                          else do { p \<leftarrow> supp_fwh_sec_prot_message_send cfg FWH_MESSAGE_2 p; Some (retry_ticks p) } } }
         else if f_recv_msg p \<noteq> FWH_MESSAGE_3 then Some p
         else do { (ok, p) \<leftarrow> supp_fwh_accept_3 cfg p;
                   if \<not> ok then Some p
                   else do { let p = p\<lparr>f_msg3_received := True\<rparr>;
                             p \<leftarrow> supp_fwh_sec_prot_message_send cfg FWH_MESSAGE_4 p;
                             sec_prot_state_set sm FWH_STATE_FINISH (retry_ticks p) } })
      else if st = FWH_STATE_FINISH then
        (if f_msg3_retry_wait p then sec_prot_state_set sm FWH_STATE_FINISHED p
         else if f_msg3_received p then
           do { let p = p\<lparr>f_msg3_retry_wait := True\<rparr>;
                k \<leftarrow> sec_prot_keys_ptk_write (f_keys p) (f_new_ptk p) (c_ptk_lifetime cfg);
                k \<leftarrow> sec_prot_keys_ptk_eui_64_write k (f_remote_eui64 p);
                let p = p\<lparr>f_keys := k\<rparr>;
                let p = upd_common (\<lambda>d. d\<lparr>sc_ticks := 60 * 10\<rparr>) p;
                let p = emit (Finished_ind (sec_prot_result_get (sp_common p))) p;
                sec_prot_state_set sm FWH_STATE_MESSAGE_3_RETRY_WAIT p }
         else sec_prot_state_set sm FWH_STATE_FINISHED (emit (Finished_ind (sec_prot_result_get (sp_common p))) p))
      else if st = FWH_STATE_MESSAGE_3_RETRY_WAIT then
        do { let (timeout, d) = sec_prot_result_timeout_check (sp_common p);
             let p = p\<lparr>sp_common := d\<rparr>;
             if timeout then sec_prot_state_set sm FWH_STATE_FINISHED p
             else if f_recv_msg p \<noteq> FWH_MESSAGE_3 then Some p
             else do { (ok, p) \<leftarrow> supp_fwh_accept_3 cfg p;
                       if \<not> ok then Some p else supp_fwh_sec_prot_message_send cfg FWH_MESSAGE_4 p } }
      else if st = FWH_STATE_FINISHED then Some (emit Finished (emit Timer_stop p))
      else Some p)"

definition supp_fwh_sec_prot_init ::
  "fwh_cfg \<Rightarrow> ('c supp_fwh_prot \<Rightarrow> 'c supp_fwh_prot option) \<Rightarrow> 'c supp_fwh_prot \<Rightarrow> 'c supp_fwh_prot option" where
  "supp_fwh_sec_prot_init cfg sm p =
     do { p \<leftarrow> sec_prot_state_set sm FWH_STATE_INIT (upd_common sec_prot_init p);
          let p = upd_common (\<lambda>d. d\<lparr>sc_ticks := c_retry_timeout cfg\<rparr>) p;
          let p = p\<lparr>f_msg3_received := False, f_msg3_retry_wait := False, f_recv_replay_cnt := 0, f_recv_replay_cnt_set := False\<rparr>;
          fwh_nonce_init cfg p }"

definition supp_fwh_sec_prot_create_response :: "sec_prot_result_e \<Rightarrow> 'c supp_fwh_prot \<Rightarrow> 'c supp_fwh_prot" where
  "supp_fwh_sec_prot_create_response result p = emit State_machine_call (upd_common (sec_prot_result_set result) p)"

definition supp_fwh_sec_prot_timer_timeout ::
  "('c supp_fwh_prot \<Rightarrow> 'c supp_fwh_prot option) \<Rightarrow> u16 \<Rightarrow> 'c supp_fwh_prot \<Rightarrow> 'c supp_fwh_prot option" where
  "supp_fwh_sec_prot_timer_timeout sm ticks p = sec_prot_timer_timeout_handle sm None ticks p"

definition supp_fwh_sec_prot_receive ::
  "('c supp_fwh_prot \<Rightarrow> 'c supp_fwh_prot option) \<Rightarrow> u8 list \<Rightarrow> u16 \<Rightarrow> 'c supp_fwh_prot \<Rightarrow> (int \<times> 'c supp_fwh_prot) option" where
  "supp_fwh_sec_prot_receive = fwh_receive supp_fwh_sec_prot_message_get"

end
