(* ===== verification/FwhExchange.thy ===== *)
theory FwhExchange
  imports Fwh
begin

text \<open>
  What the two state machines of \<open>Fwh\<close> do together: the nesting of their calls, the frames they exchange, the run of a
  handshake, which messages they accept, and what happens when an answer stays out.
\<close>

section \<open>The depth of the calls\<close>

lemma fwh_states_distinct [simp]:
  "FWH_STATE_MESSAGE_4 \<noteq> SEC_STATE_INIT" "FWH_STATE_MESSAGE_4 \<noteq> SEC_STATE_CREATE_REQ" "FWH_STATE_MESSAGE_4 \<noteq> SEC_STATE_FIRST"
  "FWH_STATE_MESSAGE_4 \<noteq> SEC_STATE_FINISH" "FWH_STATE_MESSAGE_4 \<noteq> SEC_STATE_FINISHED"
  "FWH_STATE_MESSAGE_3 \<noteq> SEC_STATE_INIT" "FWH_STATE_MESSAGE_3 \<noteq> SEC_STATE_CREATE_RESP" "FWH_STATE_MESSAGE_3 \<noteq> SEC_STATE_FIRST"
  "FWH_STATE_MESSAGE_3 \<noteq> SEC_STATE_FINISH" "FWH_STATE_MESSAGE_3 \<noteq> SEC_STATE_FINISHED"
  "FWH_STATE_MESSAGE_3_RETRY_WAIT \<noteq> SEC_STATE_INIT" "FWH_STATE_MESSAGE_3_RETRY_WAIT \<noteq> SEC_STATE_CREATE_RESP"
  "FWH_STATE_MESSAGE_3_RETRY_WAIT \<noteq> SEC_STATE_FIRST" "FWH_STATE_MESSAGE_3_RETRY_WAIT \<noteq> SEC_STATE_FINISH"
  "FWH_STATE_MESSAGE_3_RETRY_WAIT \<noteq> SEC_STATE_FINISHED" "FWH_STATE_MESSAGE_3_RETRY_WAIT \<noteq> FWH_STATE_MESSAGE_3"
  by (simp_all add: sec_states FWH_STATE_MESSAGE_4_def FWH_STATE_MESSAGE_3_def FWH_STATE_MESSAGE_3_RETRY_WAIT_def)

lemmas fwh_states_distinct_sym [simp] = fwh_states_distinct [THEN not_sym]

lemma auth_fwh_final:
  assumes "sc_state (sp_common p) \<in> {SEC_STATE_FINISH, SEC_STATE_FINISHED}"
  shows "auth_fwh_sec_prot_state_machine cfg (Suc n) p = auth_fwh_sec_prot_state_machine cfg (Suc m) p"
  using assms by (auto simp: sec_prot_state_get_def Let_def intro!: fun_cong [OF plain_states(4)] arg_cong [OF plain_states(4)])

lemma supp_fwh_final:
  fixes p :: "'c supp_fwh_prot"
  assumes "sc_state (sp_common p) \<in> {SEC_STATE_FINISH, SEC_STATE_FINISHED}"
  shows "supp_fwh_sec_prot_state_machine cfg (Suc n) p = supp_fwh_sec_prot_state_machine cfg (Suc m) p"
proof -
  let ?n = "supp_fwh_sec_prot_state_machine cfg n :: 'c supp_fwh_prot \<Rightarrow> 'c supp_fwh_prot option"
    and ?m = "supp_fwh_sec_prot_state_machine cfg m :: 'c supp_fwh_prot \<Rightarrow> 'c supp_fwh_prot option"
  have "sec_prot_state_set ?n SEC_STATE_FINISHED = sec_prot_state_set ?m SEC_STATE_FINISHED"
    "sec_prot_state_set ?n FWH_STATE_MESSAGE_3_RETRY_WAIT = sec_prot_state_set ?m FWH_STATE_MESSAGE_3_RETRY_WAIT"
    by (rule state_set_plain; simp)+
  then show ?thesis using assms by (auto simp: sec_prot_state_get_def Let_def)
qed

lemma auth_fwh_depth:
  fixes p :: "'c fwh_prot"
  shows "auth_fwh_sec_prot_state_machine cfg (Suc (Suc n)) p = auth_fwh_sec_prot_state_machine cfg (Suc (Suc m)) p"
proof -
  let ?n = "auth_fwh_sec_prot_state_machine cfg (Suc n) :: 'c fwh_prot \<Rightarrow> 'c fwh_prot option"
    and ?m = "auth_fwh_sec_prot_state_machine cfg (Suc m) :: 'c fwh_prot \<Rightarrow> 'c fwh_prot option"
  have eq: "sec_prot_state_set ?n st = sec_prot_state_set ?m st" if "st \<noteq> SEC_STATE_INIT" for st
    using state_set_finish [of ?n ?m] state_set_plain [of st ?n ?m] auth_fwh_final [of _ cfg n m] that
    by (cases "st = SEC_STATE_FINISH") (auto simp del: auth_fwh_sec_prot_state_machine.simps)
  have "sec_prot_state_set ?n SEC_STATE_CREATE_REQ = sec_prot_state_set ?m SEC_STATE_CREATE_REQ"
    "sec_prot_state_set ?n SEC_STATE_FIRST = sec_prot_state_set ?m SEC_STATE_FIRST"
    "sec_prot_state_set ?n FWH_STATE_MESSAGE_4 = sec_prot_state_set ?m FWH_STATE_MESSAGE_4"
    "sec_prot_state_set ?n SEC_STATE_FINISH = sec_prot_state_set ?m SEC_STATE_FINISH"
    "sec_prot_state_set ?n SEC_STATE_FINISHED = sec_prot_state_set ?m SEC_STATE_FINISHED" by (rule eq; simp)+
  then show ?thesis
    unfolding auth_fwh_sec_prot_state_machine.simps(2) [of cfg "Suc n"] auth_fwh_sec_prot_state_machine.simps(2) [of cfg "Suc m"] Let_def
    by (simp only:)
qed

lemma supp_fwh_depth:
  fixes p :: "'c supp_fwh_prot"
  shows "supp_fwh_sec_prot_state_machine cfg (Suc (Suc n)) p = supp_fwh_sec_prot_state_machine cfg (Suc (Suc m)) p"
proof -
  let ?n = "supp_fwh_sec_prot_state_machine cfg (Suc n) :: 'c supp_fwh_prot \<Rightarrow> 'c supp_fwh_prot option"
    and ?m = "supp_fwh_sec_prot_state_machine cfg (Suc m) :: 'c supp_fwh_prot \<Rightarrow> 'c supp_fwh_prot option"
  have eq: "sec_prot_state_set ?n st = sec_prot_state_set ?m st" if "st \<noteq> SEC_STATE_INIT" for st
    using state_set_finish [of ?n ?m] state_set_plain [of st ?n ?m] supp_fwh_final [of _ cfg n m] that
    by (cases "st = SEC_STATE_FINISH") (auto simp del: supp_fwh_sec_prot_state_machine.simps)
  have "sec_prot_state_set ?n SEC_STATE_CREATE_RESP = sec_prot_state_set ?m SEC_STATE_CREATE_RESP"
    "sec_prot_state_set ?n SEC_STATE_FIRST = sec_prot_state_set ?m SEC_STATE_FIRST"
    "sec_prot_state_set ?n FWH_STATE_MESSAGE_3 = sec_prot_state_set ?m FWH_STATE_MESSAGE_3"
    "sec_prot_state_set ?n FWH_STATE_MESSAGE_3_RETRY_WAIT = sec_prot_state_set ?m FWH_STATE_MESSAGE_3_RETRY_WAIT"
    "sec_prot_state_set ?n SEC_STATE_FINISH = sec_prot_state_set ?m SEC_STATE_FINISH"
    "sec_prot_state_set ?n SEC_STATE_FINISHED = sec_prot_state_set ?m SEC_STATE_FINISHED" by (rule eq; simp)+
  then show ?thesis
    unfolding supp_fwh_sec_prot_state_machine.simps(2) [of cfg "Suc n"] supp_fwh_sec_prot_state_machine.simps(2) [of cfg "Suc m"] Let_def
    by (simp only:)
qed

text \<open>The state machines as the protocols run them.\<close>

definition auth_fwh_run :: "fwh_cfg \<Rightarrow> 'c fwh_prot \<Rightarrow> 'c fwh_prot option" where
  "auth_fwh_run cfg = auth_fwh_sec_prot_state_machine cfg 2"

definition supp_fwh_run :: "fwh_cfg \<Rightarrow> 'c supp_fwh_prot \<Rightarrow> 'c supp_fwh_prot option" where
  "supp_fwh_run cfg = supp_fwh_sec_prot_state_machine cfg 2"

section \<open>The frames exchanged\<close>

definition fwh_info :: "fwh_sec_prot_msg_e \<Rightarrow> eapol_key_information" where
  "fwh_info m = key_information_zero\<lparr>description_version := KEY_DESCRIPTION_HMAC_SHA1_MIC_AES_ENC, pairwise_key := True,
     install := (m = FWH_MESSAGE_3), key_ack := (m = FWH_MESSAGE_1 \<or> m = FWH_MESSAGE_3), key_mic_flag := (m \<noteq> FWH_MESSAGE_1),
     secured_key_frame := (m = FWH_MESSAGE_3 \<or> m = FWH_MESSAGE_4), encrypted_key_data := (m = FWH_MESSAGE_3)\<rparr>"

definition fwh_frame :: "fwh_sec_prot_msg_e \<Rightarrow> u16 \<Rightarrow> u64 \<Rightarrow> u8 list option \<Rightarrow> eapol_key_frame" where
  "fwh_frame m n c nonce = \<lparr>key_description = EAPOL_RSN_KEY_DESCRIPTION, key_information = fwh_info m,
     key_length = (if m = FWH_MESSAGE_1 \<or> m = FWH_MESSAGE_3 then EAPOL_KEY_LEN else 0), replay_counter = c,
     key_nonce = nonce, key_iv = None, key_rsc = None, key_mic = None, key_data_length = n, key_data = None\<rparr>"

definition fwh_pdu :: "fwh_sec_prot_msg_e \<Rightarrow> u16 \<Rightarrow> u64 \<Rightarrow> u8 list option \<Rightarrow> eapol_pdu" where
  "fwh_pdu m n c nonce = \<lparr>packet_type = EAPOL_KEY_TYPE, packet_length = n + word_of_nat EAPOL_KEY_FRAME_BASE_SIZE, packet_body = None,
     msg = Msg_key (fwh_frame m n c nonce)\<rparr>"

text \<open>The bytes on the wire behind the lower layer's header.\<close>

definition fwh_wire :: "env \<Rightarrow> u8 list \<Rightarrow> fwh_sec_prot_msg_e \<Rightarrow> u16 \<Rightarrow> u64 \<Rightarrow> u8 list option \<Rightarrow> u8 list option \<Rightarrow> u8 list" where
  "fwh_wire env key m n c nonce kde =
     (let k = fwh_frame m n c nonce; data = key_payload env key (m = FWH_MESSAGE_3) kde (unat n); plen = packet_length (fwh_pdu m n c nonce)
      in frame_bytes k plen (if m = FWH_MESSAGE_1 then replicate 16 0 else mic_of env key k plen data) data)"

text \<open>Message 1 is in clear: its bytes do not depend on a key.\<close>

lemma fwh_wire_1: "fwh_wire env key FWH_MESSAGE_1 n c nonce kde = fwh_wire env key' FWH_MESSAGE_1 n c nonce kde"
  by (simp add: fwh_wire_def key_payload_def Let_def split: option.split)

lemma fwh_info_flags:
  "encrypted_key_data (fwh_info m) = (m = FWH_MESSAGE_3)" "key_mic_flag (fwh_info m) = (m \<noteq> FWH_MESSAGE_1)" "pairwise_key (fwh_info m)"
  by (simp_all add: fwh_info_def key_information_zero_def)

lemma fwh_ready:
  "unat n < 65000 \<Longrightarrow> (\<And>q. nonce = Some q \<Longrightarrow> length q = 32) \<Longrightarrow> message_ready (fwh_pdu m n c nonce) (fwh_frame m n c nonce) n"
  unfolding fwh_pdu_def fwh_frame_def by (rule key_frame_ready) (auto simp: fwh_info_def)

lemma fwh_size: "unat n < 150 \<Longrightarrow> unat (eapol_pdu_total_length (fwh_pdu m n c nonce)) = 99 + unat n"
  by (simp add: eapol_pdu_total_length_def fwh_pdu_def eapol_consts unat_add_nowrap)

lemma fwh_build:
  assumes "env_ok env" and "memory_left env" and "32 \<le> length key" and "unat n < 150" and "kde_fits (m = FWH_MESSAGE_3) kde (unat n)"
    and "\<And>q. nonce = Some q \<Longrightarrow> length q = 32"
  shows "\<exists>hdr. length hdr = unat h \<and> sec_prot_lib_message_build env key kde n (fwh_pdu m n c nonce)
    (eapol_pdu_total_length (fwh_pdu m n c nonce)) h = Some (Some (hdr @ fwh_wire env key m n c nonce kde))"
proof -
  have r: "message_ready (fwh_pdu m n c nonce) (fwh_frame m n c nonce) n" using assms(4,6) by (intro fwh_ready) simp_all
  have i: "key_information (fwh_frame m n c nonce) = fwh_info m" by (simp add: fwh_frame_def)
  have "unat (eapol_pdu_total_length (fwh_pdu m n c nonce)) = unat (packet_length (fwh_pdu m n c nonce)) + 4"
    using fwh_size [OF assms(4)] r by (simp add: message_ready_def)
  from message_build_spec [OF assms(1-3) r, of kde, unfolded i fwh_info_flags, OF assms(5) this, of h] show ?thesis
    unfolding fwh_wire_def Let_def if_not_P by (cases "m = FWH_MESSAGE_1") simp_all
qed

lemma fwh_received:
  fixes c :: u64
  assumes "env_ok env" and "memory_left env" and "32 \<le> length key" and "unat n < 150" and "kde_fits (m = FWH_MESSAGE_3) kde (unat n)"
    and "\<And>q. nonce = Some q \<Longrightarrow> length q = 32"
  defines "rx \<equiv> fwh_wire env key m n c nonce kde"
  shows "length rx = 99 + unat n" and "\<exists>e k mic. eapol_parse_pdu_header rx (word_of_nat (length rx)) = Some (Some e) \<and>
    frame_key e = Some k \<and> key_information k = fwh_info m \<and> replay_counter k = c \<and> points_to (key_nonce k) (field_bytes nonce 32) \<and>
    key_mic k = Some mic \<and>
    (m \<noteq> FWH_MESSAGE_1 \<longrightarrow> (\<exists>rx'. sec_prot_lib_mic_validate env key mic rx (word_of_nat (length rx)) = Some (0, rx'))) \<and>
    (\<forall>d. kde = Some d \<and> n \<noteq> 0 \<longrightarrow> (\<exists>buf len. sec_prot_lib_message_handle env key e = Some (Some (buf, len)) \<and> length buf = unat n \<and>
       unat len = (if m = FWH_MESSAGE_3 then unat n - 8 else unat n) \<and> take (unat len) buf = take (unat len) d))"
proof -
  let ?k = "fwh_frame m n c nonce" and ?p = "fwh_pdu m n c nonce"
  let ?sz = "eapol_pdu_total_length ?p" and ?plen = "packet_length ?p" and ?data = "key_payload env key (m = FWH_MESSAGE_3) kde (unat n)"
  have r: "message_ready ?p ?k n" using assms(4,6) by (intro fwh_ready) simp_all
  have i: "key_information ?k = fwh_info m" by (simp add: fwh_frame_def)
  have lt: "unat ?sz < 256" using fwh_size [OF assms(4)] assms(4) by simp
  have fits: "kde_fits (encrypted_key_data (key_information ?k)) kde (unat n)" using assms(5) by (simp add: i fwh_info_flags)
  define mic0 where "mic0 = (if m = FWH_MESSAGE_1 then replicate 16 0 else mic_of env key ?k ?plen ?data)"
  have lm: "length mic0 = 16" using length_mic_of [OF assms(1)] by (simp add: mic0_def)
  have rx: "rx = frame_bytes ?k ?plen mic0 ?data" by (simp add: rx_def fwh_wire_def mic0_def Let_def)
  note q = message_parsed [OF assms(1-3) r lm fits refl, unfolded i fwh_info_flags, folded rx]
  show l: "length rx = 99 + unat n" using q(1) fwh_size [OF assms(4)] by simp
  have sz: "?sz = word_of_nat (length rx)" "(ucast ?sz :: u8) = word_of_nat (length rx)" using q(1) by simp_all
  obtain e k where e: "eapol_parse_pdu_header rx ?sz = Some (Some e)" "msg e = Msg_key k" "frame_agrees ?k mic0 ?data k"
    "\<forall>d. kde = Some d \<and> n \<noteq> 0 \<longrightarrow> (\<exists>buf len. sec_prot_lib_message_handle env key e = Some (Some (buf, len)) \<and> length buf = unat n \<and>
       unat len = (if m = FWH_MESSAGE_3 then unat n - 8 else unat n) \<and> take (unat len) buf = take (unat len) d)"
    using q(2) by blast
  obtain mic where mic: "key_mic k = Some mic" using e(3) by (auto simp: frame_agrees_def points_to_def)
  have "\<exists>rx'. sec_prot_lib_mic_validate env key mic rx (ucast ?sz) = Some (0, rx')" if "m \<noteq> FWH_MESSAGE_1"
  proof -
    have f: "key_mic_flag (key_information ?k)" using that by (simp add: i fwh_info_flags)
    have "rx = frame_bytes ?k ?plen (mic_of env key ?k ?plen ?data) ?data" using that by (simp add: rx mic0_def)
    with message_received(2) [OF assms(1-3) r f fits refl lt, unfolded i fwh_info_flags] show ?thesis using e(1,2) mic by auto
  qed
  then show "\<exists>e k mic. eapol_parse_pdu_header rx (word_of_nat (length rx)) = Some (Some e) \<and>
    frame_key e = Some k \<and> key_information k = fwh_info m \<and> replay_counter k = c \<and> points_to (key_nonce k) (field_bytes nonce 32) \<and>
    key_mic k = Some mic \<and>
    (m \<noteq> FWH_MESSAGE_1 \<longrightarrow> (\<exists>rx'. sec_prot_lib_mic_validate env key mic rx (word_of_nat (length rx)) = Some (0, rx'))) \<and>
    (\<forall>d. kde = Some d \<and> n \<noteq> 0 \<longrightarrow> (\<exists>buf len. sec_prot_lib_message_handle env key e = Some (Some (buf, len)) \<and> length buf = unat n \<and>
       unat len = (if m = FWH_MESSAGE_3 then unat n - 8 else unat n) \<and> take (unat len) buf = take (unat len) d))"
    using e mic sz by (intro exI [of _ e] exI [of _ k] exI [of _ mic]) (simp add: frame_agrees_def frame_key_def fwh_frame_def)
qed

lemma fwh_frame_init:
  "eapol_pdu_key_frame_init n None = (eapol_pdu_total_length (fwh_pdu m n c nonce), \<lparr>packet_type = EAPOL_KEY_TYPE,
     packet_length = n + word_of_nat EAPOL_KEY_FRAME_BASE_SIZE, packet_body = None, msg = Msg_key (key_frame_zero\<lparr>key_data := None,
     key_description := EAPOL_RSN_KEY_DESCRIPTION, key_data_length := n,
     key_information := key_information_zero\<lparr>description_version := KEY_DESCRIPTION_HMAC_SHA1_MIC_AES_ENC\<rparr>\<rparr>)\<rparr>)"
  by (simp add: eapol_pdu_key_frame_init_def fwh_pdu_def eapol_pdu_total_length_def Let_def)

lemmas fwh_pdu_defs = upd_key_def fwh_pdu_def fwh_frame_def fwh_info_def key_frame_zero_def key_information_zero_def

lemma auth_fwh_pdu:
  assumes "m = FWH_MESSAGE_1 \<or> m = FWH_MESSAGE_3" and "eapol_pdu_key_frame_init n None = (sz, pdu)"
  shows "upd_key (auth_fwh_frame m c nonce) (upd_key (\<lambda>k. k\<lparr>key_information := (key_information k)\<lparr>pairwise_key := True\<rparr>\<rparr>) pdu) =
    fwh_pdu m n c (Some nonce)" and "sz = eapol_pdu_total_length (fwh_pdu m n c (Some nonce))"
  using assms unfolding fwh_frame_init [of n m c "Some nonce"] by (auto simp: fwh_pdu_defs auth_fwh_frame_def)

lemma supp_fwh_pdu:
  assumes "m = FWH_MESSAGE_2 \<or> m = FWH_MESSAGE_4" and "eapol_pdu_key_frame_init n None = (sz, pdu)"
  shows "upd_key (supp_fwh_frame m c nonce) (upd_key (\<lambda>k. k\<lparr>key_information := (key_information k)\<lparr>pairwise_key := True\<rparr>\<rparr>) pdu) =
    fwh_pdu m n c (if m = FWH_MESSAGE_2 then Some nonce else None)"
    and "sz = eapol_pdu_total_length (fwh_pdu m n c (if m = FWH_MESSAGE_2 then Some nonce else None))"
  using assms unfolding fwh_frame_init [of n m c "if m = FWH_MESSAGE_2 then Some nonce else None"] by (auto simp: fwh_pdu_defs supp_fwh_frame_def)

lemma fwh_masks:
  assumes "key_information k = fwh_info m"
  shows "eapol_pdu_key_mask_get k = (case m of FWH_MESSAGE_1 \<Rightarrow> 2 | FWH_MESSAGE_2 \<Rightarrow> 4 | FWH_MESSAGE_3 \<Rightarrow> 15 | FWH_MESSAGE_4 \<Rightarrow> 12 | _ \<Rightarrow> 4)"
  using assms by (cases m) (simp_all add: fwh_info_def eapol_pdu_key_mask_get_def key_information_zero_def Let_def
      KEY_INFO_KEY_ACK_def KEY_INFO_KEY_MIC_def KEY_INFO_SECURED_KEY_FRAME_def KEY_INFO_INSTALL_def)

lemma nonce_generate:
  "32 \<le> length (f_random p) \<Longrightarrow>
    fwh_nonce_generate p = Some (p\<lparr>f_nonce := take 32 (f_random p), f_random := drop 32 (f_random p)\<rparr>)"
  by (simp add: fwh_nonce_generate_def sec_prot_lib_nonce_generate_def load_n_def EAPOL_KEY_NONCE_LEN_def)

section \<open>Message 1\<close>

text \<open>The name of a master key, and the address a party takes for the other one when it names the key.\<close>

definition pmk_name :: "env \<Rightarrow> u8 list \<Rightarrow> u8 list \<Rightarrow> u8 list \<Rightarrow> u8 list" where
  "pmk_name env key auth supp = take 16 (sha1_mac env (take 32 key) (ascii ''PMK Name'' @ auth @ supp))"

definition peer_eui64 :: "fwh_cfg \<Rightarrow> 'c sec_prot_keys \<Rightarrow> u8 list" where
  "peer_eui64 cfg k = (if ptk_eui_64_set k then ptk_eui_64 k else c_remote cfg)"

lemma length_pmk_name: "env_ok env \<Longrightarrow> length (pmk_name env key a b) = 16"
  by (simp add: pmk_name_def length_sha1_mac)

lemma pmkid_calc:
  "env_ok env \<Longrightarrow> 32 \<le> length key \<Longrightarrow> length a = 8 \<Longrightarrow> length b = 8 \<Longrightarrow> sec_prot_lib_pmkid_calc env key a b = Some (Some (pmk_name env key a b))"
  using key_name_spec [OF _ name_labels(1,2), of env 32 key a b PMKID_LEN]
  by (simp add: sec_prot_lib_pmkid_calc_def pmk_name_def PMK_LEN_def PMKID_LEN_def)

lemma auth_pmkid:
  assumes "env_ok env" and "pmk_set k" and "length (pmk k) = 32" and "length (c_local cfg) = 8" and "length (peer_eui64 cfg k) = 8"
  shows "sec_prot_lib_pmkid_generate env k (c_local cfg) (c_remote cfg) True False =
    Some (Some (pmk_name env (pmk k) (c_local cfg) (peer_eui64 cfg k)), Some (peer_eui64 cfg k))"
  using assms pmkid_calc [OF assms(1), of "pmk k" "c_local cfg" "peer_eui64 cfg k"]
  by (auto simp: sec_prot_lib_pmkid_generate_def sec_prot_keys_pmk_get_def sec_prot_keys_ptk_eui_64_get_def peer_eui64_def load_n_def)

lemma supp_pmkid:
  assumes "env_ok env" and "pmk_set k" and "length (pmk k) = 32" and "length (c_local cfg) = 8" and "length (c_remote cfg) = 8"
    and "length (peer_eui64 cfg k) = 8"
  shows "sec_prot_lib_pmkid_generate env k (c_local cfg) (c_remote cfg) False False =
      Some (Some (pmk_name env (pmk k) (peer_eui64 cfg k) (c_local cfg)), Some (peer_eui64 cfg k))"
    and "sec_prot_lib_pmkid_generate env k (c_local cfg) (c_remote cfg) False True =
      (if ptk_eui_64_set k then Some (Some (pmk_name env (pmk k) (c_remote cfg) (c_local cfg)), Some (c_remote cfg)) else Some (None, None))"
  using assms pmkid_calc [OF assms(1), of "pmk k" "peer_eui64 cfg k" "c_local cfg"] pmkid_calc [OF assms(1), of "pmk k" "c_remote cfg" "c_local cfg"]
  by (auto simp: sec_prot_lib_pmkid_generate_def sec_prot_keys_pmk_get_def sec_prot_keys_ptk_eui_64_get_def peer_eui64_def load_n_def)

text \<open>A party ready for the handshake: a master key, addresses, a key buffer and random bytes.\<close>

definition fwh_party :: "fwh_cfg \<Rightarrow> ('c, 'a) fwh_prot_scheme \<Rightarrow> bool" where
  "fwh_party cfg p \<longleftrightarrow> env_ok (c_env cfg) \<and> memory_left (c_env cfg) \<and> pmk_set (f_keys p) \<and> length (pmk (f_keys p)) = 32 \<and>
     length (c_local cfg) = 8 \<and> length (c_remote cfg) = 8 \<and> length (peer_eui64 cfg (f_keys p)) = 8 \<and> length (f_new_ptk p) = 48"

lemma fwh_party_dest:
  assumes "fwh_party cfg p"
  shows "env_ok (c_env cfg)" "memory_left (c_env cfg)" "pmk_set (f_keys p)" "length (pmk (f_keys p)) = 32"
    "length (c_local cfg) = 8" "length (c_remote cfg) = 8" "length (peer_eui64 cfg (f_keys p)) = 8" "length (f_new_ptk p) = 48"
  using assms by (simp_all add: fwh_party_def)

definition msg1_wire :: "env \<Rightarrow> u64 \<Rightarrow> u8 list \<Rightarrow> u8 list \<Rightarrow> u8 list" where
  "msg1_wire env c nonce pmkid = fwh_wire env (replicate 48 0) FWH_MESSAGE_1 22 c (Some nonce) (Some (kde_message [Pmkid pmkid] 22))"

lemma pmkid_message: "length x = 16 \<Longrightarrow> length (kde_bytes (Pmkid x)) = 22 \<and> kde_message [Pmkid x] 22 = kde_bytes (Pmkid x)"
  by (simp add: kde_bytes_def kde_message_def kde_padding_def kde_consts)

lemma auth_fwh_sends_1:
  fixes p :: "('c, 'a) fwh_prot_scheme"
  assumes "fwh_party cfg p" and "length (f_nonce p) = 32" and "sec_prot_keys_pmk_replay_cnt_increment (f_keys p) = (True, keys)"
  defines "pmkid \<equiv> pmk_name (c_env cfg) (pmk (f_keys p)) (c_local cfg) (peer_eui64 cfg (f_keys p))"
  shows "\<exists>hdr. length hdr = unat (sp_header_size p) \<and> auth_fwh_sec_prot_message_send cfg FWH_MESSAGE_1 p =
    Some (emit (Send (hdr @ msg1_wire (c_env cfg) (pmk_key_replay_cnt keys) (f_nonce p) pmkid)) (p\<lparr>f_keys := keys\<rparr>))"
proof -
  note party = fwh_party_dest [OF assms(1)]
  let ?kde = "kde_message [Pmkid pmkid] 22" and ?c = "pmk_key_replay_cnt keys"
  have l: "length pmkid = 16" unfolding pmkid_def by (rule length_pmk_name [OF party(1)])
  note km = pmkid_message [OF l]
  obtain b where b: "env_malloc (c_env cfg) 22 = Some b" "length b = 22" by (rule env_memory [OF party(1,2)])
  have "kde_pmkid_write (b, 0) pmkid = Some (?kde, 22)"
    using kde_write_writes [of "Pmkid pmkid" "(b, 0)"] writes_in [of 0 "kde_bytes (Pmkid pmkid)" b] b(2) l km by simp
  then have kd: "auth_fwh_key_data cfg FWH_MESSAGE_1 b 22 p = Some (Some ?kde)"
    using auth_pmkid [OF party(1,3,4,5,7)] by (simp add: auth_fwh_key_data_def pmkid_def)
  have fits: "kde_fits False (Some ?kde) (unat (22 :: u16))" using km by (simp add: kde_fits_def)
  obtain sz pdu where init: "eapol_pdu_key_frame_init 22 None = (sz, pdu)" by (cases "eapol_pdu_key_frame_init 22 None")
  note pd = auth_fwh_pdu [OF _ init, of FWH_MESSAGE_1 ?c "f_nonce p"]
  obtain hdr where h: "length hdr = unat (sp_header_size p)" "sec_prot_lib_message_build (c_env cfg) (f_new_ptk p) (Some ?kde) 22
      (fwh_pdu FWH_MESSAGE_1 22 ?c (Some (f_nonce p))) (eapol_pdu_total_length (fwh_pdu FWH_MESSAGE_1 22 ?c (Some (f_nonce p)))) (sp_header_size p) =
      Some (Some (hdr @ fwh_wire (c_env cfg) (f_new_ptk p) FWH_MESSAGE_1 22 ?c (Some (f_nonce p)) (Some ?kde)))"
    using fwh_build [OF party(1,2), of "f_new_ptk p" 22 FWH_MESSAGE_1 "Some ?kde" "Some (f_nonce p)" "sp_header_size p" ?c] party(8) fits assms(2)
    by auto
  have "(word_of_nat KDE_PMKID_LEN :: u16) = 22" by (simp add: KDE_PMKID_LEN_def)
  then have "auth_fwh_sec_prot_message_send cfg FWH_MESSAGE_1 p = Some (emit (Send (hdr @
      fwh_wire (c_env cfg) (f_new_ptk p) FWH_MESSAGE_1 22 ?c (Some (f_nonce p)) (Some ?kde))) (p\<lparr>f_keys := keys\<rparr>))"
    using b(1) kd assms(3) pd h(2) init
    by (simp add: auth_fwh_sec_prot_message_send_def sec_prot_keys_pmk_replay_cnt_get_def Let_def)
  then show ?thesis
    using h(1) fwh_wire_1 [of "c_env cfg" "f_new_ptk p" _ _ _ _ "replicate 48 0"] unfolding msg1_wire_def by metis
qed

lemma memcmp_same:
  "length x = n \<Longrightarrow> length y = n \<Longrightarrow> memcmp x y n = Some (lex_sign x y)" "length x = length y \<Longrightarrow> lex_sign x y = 0 \<longleftrightarrow> x = y"
  using lex_sign_zero [of x y] lex_sign_swap [of x x] by (auto simp: memcmp_def load_n_def)

lemma memcmp_front: "length x = n \<Longrightarrow> length y = n \<Longrightarrow> memcmp x (y @ s) n = Some (lex_sign x y)"
  by (simp add: memcmp_def load_n_def)

text \<open>The nonce of the other party is read through a pointer into the frame.\<close>

lemma ptk_calc_front:
  assumes "length n1 = 32" and "length n2 = 32"
  shows "sec_prot_lib_ptk_calc env key e1 e2 n1 (n2 @ s) = sec_prot_lib_ptk_calc env key e1 e2 n1 n2"
  using assms by (cases "lex_sign n1 n2 > 0")
    (simp_all add: sec_prot_lib_ptk_calc_def memcmp_front memcmp_same EAPOL_KEY_NONCE_LEN_def load_n_def Let_def)

definition fwh_ptk :: "env \<Rightarrow> u8 list \<Rightarrow> u8 list \<Rightarrow> u8 list \<Rightarrow> u8 list \<Rightarrow> u8 list \<Rightarrow> u8 list" where
  "fwh_ptk env key e1 e2 n1 n2 = take 48 (prf_spec env (take 32 key) (ascii ''Pairwise key expansion'')
     (lex_min e1 e2 @ lex_max e1 e2 @ lex_min n1 n2 @ lex_max n1 n2) 3)"

lemma fwh_ptk_swap: "length e1 = length e2 \<Longrightarrow> length n1 = length n2 \<Longrightarrow> fwh_ptk env key e1 e2 n1 n2 = fwh_ptk env key e2 e1 n2 n1"
  using lex_swap [of e1 e2] lex_swap [of n1 n2] by (simp add: fwh_ptk_def)

lemma length_fwh_ptk: "env_ok env \<Longrightarrow> length (fwh_ptk env key e1 e2 n1 n2) = 48"
  by (simp add: fwh_ptk_def length_prf_spec)

text \<open>
  The address a supplicant settles on for a given name of the master key: the one it has validated before when the name fits, the one it
  talks to otherwise.
\<close>

definition fwh_settles :: "fwh_cfg \<Rightarrow> 'c sec_prot_keys \<Rightarrow> u8 list \<Rightarrow> bool" where
  "fwh_settles cfg k r \<longleftrightarrow> peer_eui64 cfg k = r \<or> (ptk_eui_64_set k \<and> c_remote cfg = r \<and>
     pmk_name (c_env cfg) (pmk k) (peer_eui64 cfg k) (c_local cfg) \<noteq> pmk_name (c_env cfg) (pmk k) r (c_local cfg))"

lemma supp_fwh_kde_1:
  assumes "fwh_party cfg p" and "fwh_settles cfg (f_keys p) r" and "f_recv_eapol_pdu p = Some e" and "f_recv_msg p = FWH_MESSAGE_1"
    and "sec_prot_lib_message_handle (c_env cfg) (f_new_ptk p) e = Some (Some (buf, len))"
    and "kde_pmkid_read buf (unat len) = Some (0, pmk_name (c_env cfg) (pmk (f_keys p)) r (c_local cfg))"
  shows "supp_fwh_kde_handle cfg p = Some (0, p\<lparr>f_remote_eui64 := r\<rparr>)"
proof -
  note party = fwh_party_dest [OF assms(1)]
  let ?x = "pmk_name (c_env cfg) (pmk (f_keys p)) r (c_local cfg)"
  have m: "memcmp (pmk_name (c_env cfg) a b c) (pmk_name (c_env cfg) a' b' c') 16 = Some (lex_sign (pmk_name (c_env cfg) a b c) (pmk_name (c_env cfg) a' b' c'))"
    "lex_sign (pmk_name (c_env cfg) a b c) (pmk_name (c_env cfg) a' b' c') = 0 \<longleftrightarrow> pmk_name (c_env cfg) a b c = pmk_name (c_env cfg) a' b' c'"
    for a b c a' b' c' using memcmp_same length_pmk_name [OF party(1)] by simp_all
  note pm = supp_pmkid [OF party(1,3-7)]
  have one: "supp_fwh_pmkid_try cfg False ?x p = Some (if ?x \<noteq> pmk_name (c_env cfg) (pmk (f_keys p)) (peer_eui64 cfg (f_keys p)) (c_local cfg) then 1 else 0,
      p\<lparr>f_remote_eui64 := peer_eui64 cfg (f_keys p)\<rparr>)"
    using m by (simp add: supp_fwh_pmkid_try_def pm PMKID_LEN_def)
  show ?thesis
  proof (cases "?x = pmk_name (c_env cfg) (pmk (f_keys p)) (peer_eui64 cfg (f_keys p)) (c_local cfg)")
    case True
    then have "peer_eui64 cfg (f_keys p) = r" using assms(2) by (auto simp: fwh_settles_def)
    then show ?thesis using True one assms(3-6) by (simp add: supp_fwh_kde_handle_def)
  next
    case False
    then have a: "ptk_eui_64_set (f_keys p)" "c_remote cfg = r" using assms(2) by (auto simp: fwh_settles_def)
    then have "supp_fwh_pmkid_try cfg True ?x (p\<lparr>f_remote_eui64 := peer_eui64 cfg (f_keys p)\<rparr>) = Some (0, p\<lparr>f_remote_eui64 := r\<rparr>)"
      using m pm(2) by (simp add: supp_fwh_pmkid_try_def PMKID_LEN_def)
    then show ?thesis using False one assms(3-6) by (simp add: supp_fwh_kde_handle_def)
  qed
qed

lemma supp_fwh_takes_1:
  assumes "env_ok (c_env cfg)" and "pmk_set (f_keys p)" and "length (pmk (f_keys p)) = 32" and "length (c_local cfg) = 8"
    and "length (f_remote_eui64 p) = 8" and "f_recv_eapol_pdu p = Some e" and "frame_key e = Some k" and "key_nonce k = Some (nonce @ s)"
    and "length nonce = 32" and "32 \<le> length (f_random p)"
  shows "supp_fwh_accept_1 cfg p = Some (True, p\<lparr>f_anonce := nonce, f_nonce := take 32 (f_random p), f_random := drop 32 (f_random p),
    f_new_ptk := fwh_ptk (c_env cfg) (pmk (f_keys p)) (c_local cfg) (f_remote_eui64 p) (take 32 (f_random p)) nonce,
    f_recv_replay_cnt := replay_counter k, f_recv_replay_cnt_set := True\<rparr>)"
proof -
  have "sec_prot_lib_ptk_calc (c_env cfg) (pmk (f_keys p)) (c_local cfg) (f_remote_eui64 p) (take 32 (f_random p)) (nonce @ s) =
      Some (fwh_ptk (c_env cfg) (pmk (f_keys p)) (c_local cfg) (f_remote_eui64 p) (take 32 (f_random p)) nonce)"
    using ptk_calc_spec [OF assms(1), of "pmk (f_keys p)" "c_local cfg" "f_remote_eui64 p" "take 32 (f_random p)" nonce] assms
    by (simp add: ptk_calc_front fwh_ptk_def)
  then show ?thesis
    using assms by (simp add: supp_fwh_accept_1_def supp_fwh_sec_prot_anonce_store_def nonce_generate supp_fwh_sec_prot_ptk_generate_def
        sec_prot_keys_pmk_get_def supp_fwh_sec_prot_recv_replay_counter_store_def load_n_def EAPOL_KEY_NONCE_LEN_def)
qed

lemma supp_fwh_receives_1:
  fixes p :: "'c supp_fwh_prot"
  assumes "fwh_party cfg p" and "sc_state (sp_common p) = FWH_STATE_MESSAGE_1" and "32 \<le> length (f_random p)" and "length nonce = 32"
    and "length r = 8" and "fwh_settles cfg (f_keys p) r" and "sec_prot_keys_pmk_replay_cnt_compare c (f_keys p)"
    and "supp_fwh_sec_prot_recv_replay_cnt_compare c p"
  defines "rx \<equiv> msg1_wire (c_env cfg) c nonce (pmk_name (c_env cfg) (pmk (f_keys p)) r (c_local cfg))"
  shows "\<exists>p'. supp_fwh_sec_prot_receive (supp_fwh_run cfg) rx (word_of_nat (length rx)) p = Some (0, p') \<and>
    sp_out p' = sp_out p @ [Create_ind] \<and> sc_state (sp_common p') = FWH_STATE_CREATE_RESP \<and> sp_header_size p' = sp_header_size p \<and>
    f_anonce p' = nonce \<and> f_nonce p' = take 32 (f_random p) \<and> f_remote_eui64 p' = r \<and> f_recv_replay_cnt p' = c \<and>
    f_new_ptk p' = fwh_ptk (c_env cfg) (pmk (f_keys p)) (c_local cfg) r (take 32 (f_random p)) nonce \<and>
    f_keys p' = f_keys p \<and> f_gtks p' = f_gtks p \<and> f_lgtks p' = f_lgtks p \<and> f_msg3_received p' = f_msg3_received p \<and>
    f_msg3_retry_wait p' = f_msg3_retry_wait p"
proof -
  note party = fwh_party_dest [OF assms(1)]
  let ?pmkid = "pmk_name (c_env cfg) (pmk (f_keys p)) r (c_local cfg)" and ?n = "word_of_nat (length rx) :: u16"
  have l: "length ?pmkid = 16" by (rule length_pmk_name [OF party(1)])
  have rx: "rx = fwh_wire (c_env cfg) (f_new_ptk p) FWH_MESSAGE_1 22 c (Some nonce) (Some (kde_message [Pmkid ?pmkid] 22))"
    unfolding rx_def msg1_wire_def by (rule fwh_wire_1)
  have fits: "kde_fits (FWH_MESSAGE_1 = FWH_MESSAGE_3) (Some (kde_message [Pmkid ?pmkid] 22)) (unat (22 :: u16))"
    using pmkid_message [OF l] by (simp add: kde_fits_def)
  obtain e k buf len where e: "eapol_parse_pdu_header rx ?n = Some (Some e)" "frame_key e = Some k" "key_information k = fwh_info FWH_MESSAGE_1"
    "replay_counter k = c" "points_to (key_nonce k) nonce"
    and m: "sec_prot_lib_message_handle (c_env cfg) (f_new_ptk p) e = Some (Some (buf, len))" "length buf = 22" "unat len = 22"
      "take 22 buf = kde_message [Pmkid ?pmkid] 22"
    using fwh_received(2) [OF party(1,2), of "f_new_ptk p" 22 FWH_MESSAGE_1 "Some (kde_message [Pmkid ?pmkid] 22)" "Some nonce" c, folded rx]
      party(8) fits assms(4) pmkid_message [OF l] by fastforce
  obtain s where s: "key_nonce k = Some (nonce @ s)" using e(5) by (auto simp: points_to_def)
  have rd: "kde_pmkid_read buf (unat len) = Some (0, ?pmkid)"
    using kde_message_received [of "[Pmkid ?pmkid]" "Pmkid ?pmkid" "unat len" buf 22] m l by simp
  have get: "supp_fwh_sec_prot_message_get p e = Some FWH_MESSAGE_1"
    using e(2,3,4) fwh_masks [OF e(3)] assms(7,8)
    by (simp add: supp_fwh_sec_prot_message_get_def fwh_info_flags KEY_INFO_KEY_ACK_def Let_def)
  define q where "q = p\<lparr>f_recv_eapol_pdu := Some e, f_recv_msg := FWH_MESSAGE_1, f_recv_pdu := Some rx, f_recv_size := ?n\<rparr>"
  have sel: "f_keys q = f_keys p" "f_recv_eapol_pdu q = Some e" "f_recv_msg q = FWH_MESSAGE_1" "f_new_ptk q = f_new_ptk p" "f_random q = f_random p"
    "sp_common q = sp_common p" by (simp_all add: q_def)
  have pq: "fwh_party cfg q" using assms(1) by (simp add: fwh_party_def sel)
  have kde: "supp_fwh_kde_handle cfg q = Some (0, q\<lparr>f_remote_eui64 := r\<rparr>)"
    using supp_fwh_kde_1 [OF pq, of r e buf len] assms(6) m(1) rd by (simp add: sel)
  define q1 where "q1 = q\<lparr>f_remote_eui64 := r, sp_common := sec_prot_default_timeout_set (sp_common p)\<rparr>"
  have acc: "supp_fwh_accept_1 cfg q1 = Some (True, q1\<lparr>f_anonce := nonce, f_nonce := take 32 (f_random p), f_random := drop 32 (f_random p),
    f_new_ptk := fwh_ptk (c_env cfg) (pmk (f_keys p)) (c_local cfg) r (take 32 (f_random p)) nonce,
    f_recv_replay_cnt := c, f_recv_replay_cnt_set := True\<rparr>)"
    using supp_fwh_takes_1 [OF party(1), of q1 e k nonce s] party(3,4,5) assms(3-5) e(2,4) s sel by (simp add: q1_def)
  define q2 where "q2 = upd_common (\<lambda>d. d\<lparr>sc_state := FWH_STATE_CREATE_RESP\<rparr>) (emit Create_ind (q1\<lparr>f_anonce := nonce,
    f_nonce := take 32 (f_random p), f_random := drop 32 (f_random p),
    f_new_ptk := fwh_ptk (c_env cfg) (pmk (f_keys p)) (c_local cfg) r (take 32 (f_random p)) nonce,
    f_recv_replay_cnt := c, f_recv_replay_cnt_set := True\<rparr>))"
  have "supp_fwh_run cfg q = Some q2"
    using assms(2) kde acc unfolding supp_fwh_run_def numeral_2_eq_2
    by (simp add: sec_prot_state_get_def sel q1_def [symmetric] sec_prot_state_set_def q2_def Let_def)
  then have "supp_fwh_sec_prot_receive (supp_fwh_run cfg) rx ?n p = Some (0, fwh_clear q2)"
    using e(1) get by (simp add: supp_fwh_sec_prot_receive_def fwh_receive_def q_def Let_def)
  then show ?thesis by (simp add: fwh_clear_def q2_def q1_def q_def emit_def)
qed

section \<open>Messages 2 and 4\<close>

definition reply_wire :: "env \<Rightarrow> u8 list \<Rightarrow> fwh_sec_prot_msg_e \<Rightarrow> u64 \<Rightarrow> u8 list \<Rightarrow> u8 list" where
  "reply_wire env key m c nonce = fwh_wire env key m 0 c (if m = FWH_MESSAGE_2 then Some nonce else None) None"

lemma supp_fwh_sends:
  assumes "env_ok (c_env cfg)" and "memory_left (c_env cfg)" and "length (f_new_ptk p) = 48" and "length (f_nonce p) = 32"
    and "m = FWH_MESSAGE_2 \<or> m = FWH_MESSAGE_4"
  shows "\<exists>hdr. length hdr = unat (sp_header_size p) \<and> supp_fwh_sec_prot_message_send cfg m p =
    Some (emit (Send (hdr @ reply_wire (c_env cfg) (f_new_ptk p) m (f_recv_replay_cnt p) (f_nonce p))) p)"
proof -
  let ?c = "f_recv_replay_cnt p" and ?n = "if m = FWH_MESSAGE_2 then Some (f_nonce p) else None"
  obtain sz pdu where init: "eapol_pdu_key_frame_init 0 None = (sz, pdu)" by (cases "eapol_pdu_key_frame_init 0 None")
  note pd = supp_fwh_pdu [OF assms(5) init, of ?c "f_nonce p"]
  have fits: "kde_fits (m = FWH_MESSAGE_3) None (unat (0 :: u16))" by (simp add: kde_fits_def)
  have n: "length q = 32" if "?n = Some q" for q using that assms(4) by (auto split: if_splits)
  obtain hdr where h: "length hdr = unat (sp_header_size p)" "sec_prot_lib_message_build (c_env cfg) (f_new_ptk p) None 0
      (fwh_pdu m 0 ?c ?n) (eapol_pdu_total_length (fwh_pdu m 0 ?c ?n)) (sp_header_size p) =
      Some (Some (hdr @ fwh_wire (c_env cfg) (f_new_ptk p) m 0 ?c ?n None))"
    using fwh_build [OF assms(1,2), of "f_new_ptk p" 0 m None ?n "sp_header_size p" ?c, OF _ _ fits n] assms(3) by auto
  have "supp_fwh_sec_prot_message_send cfg m p = Some (emit (Send (hdr @ fwh_wire (c_env cfg) (f_new_ptk p) m 0 ?c ?n None)) p)"
    using h(2) pd unfolding supp_fwh_sec_prot_message_send_def init by (simp add: Let_def)
  then show ?thesis using h(1) by (auto simp: reply_wire_def)
qed

lemma supp_fwh_message_2:
  fixes p :: "'c supp_fwh_prot"
  assumes "env_ok (c_env cfg)" and "memory_left (c_env cfg)" and "length (f_new_ptk p) = 48" and "length (f_nonce p) = 32"
    and "sc_state (sp_common p) = FWH_STATE_CREATE_RESP"
  shows "\<exists>hdr d. length hdr = unat (sp_header_size p) \<and> sc_state d = FWH_STATE_MESSAGE_3 \<and> sc_result d = SEC_RESULT_OK \<and>
    supp_fwh_run cfg (supp_fwh_sec_prot_create_response SEC_RESULT_OK p) = Some (p\<lparr>sp_common := d, sp_out := sp_out p @ [State_machine_call,
      Send (hdr @ reply_wire (c_env cfg) (f_new_ptk p) FWH_MESSAGE_2 (f_recv_replay_cnt p) (f_nonce p))]\<rparr>)"
proof -
  define q where "q = supp_fwh_sec_prot_create_response SEC_RESULT_OK p"
  have sel: "f_new_ptk q = f_new_ptk p" "f_nonce q = f_nonce p" "sp_header_size q = sp_header_size p" "f_recv_replay_cnt q = f_recv_replay_cnt p"
    "sc_state (sp_common q) = FWH_STATE_CREATE_RESP" "sc_result (sp_common q) = SEC_RESULT_OK"
    using assms(5) by (simp_all add: q_def supp_fwh_sec_prot_create_response_def emit_def sec_prot_result_set_def)
  obtain hdr where h: "length hdr = unat (sp_header_size p)" "supp_fwh_sec_prot_message_send cfg FWH_MESSAGE_2 q =
      Some (emit (Send (hdr @ reply_wire (c_env cfg) (f_new_ptk p) FWH_MESSAGE_2 (f_recv_replay_cnt p) (f_nonce p))) q)"
    using supp_fwh_sends [OF assms(1,2), of q FWH_MESSAGE_2] assms(3,4) by (auto simp: sel)
  define d where "d = (sp_common p)\<lparr>sc_result := SEC_RESULT_OK, sc_ticks := c_retry_timeout cfg, sc_state := FWH_STATE_MESSAGE_3\<rparr>"
  have "supp_fwh_run cfg q = Some (p\<lparr>sp_common := d, sp_out := sp_out p @ [State_machine_call,
      Send (hdr @ reply_wire (c_env cfg) (f_new_ptk p) FWH_MESSAGE_2 (f_recv_replay_cnt p) (f_nonce p))]\<rparr>)"
    using h(2) sel unfolding supp_fwh_run_def numeral_2_eq_2
    by (simp add: sec_prot_state_get_def sec_prot_result_ok_check_def sec_prot_state_set_def Let_def)
      (simp add: q_def d_def supp_fwh_sec_prot_create_response_def emit_def sec_prot_result_set_def)
  moreover have "sc_state d = FWH_STATE_MESSAGE_3" "sc_result d = SEC_RESULT_OK" by (simp_all add: d_def)
  ultimately show ?thesis unfolding q_def using h(1) by blast
qed

section \<open>Message 3\<close>

text \<open>The group key \<open>i\<close> is the one message 3 carries: it is to be inserted, or nothing is and it is the active one.\<close>

definition fwh_sends_key :: "nat \<Rightarrow> ('c, 'a) fwh_prot_scheme \<Rightarrow> bool" where
  "fwh_sends_key i p \<longleftrightarrow> i < 4 \<and> gtks_inv (f_gtks p) \<and> gk_set (gtk (f_gtks p) ! i) \<and> node_role (f_keys p) \<noteq> WS_NR_ROLE_LFN \<and>
     (gtk_set_index (gtks (f_keys p)) = int i \<or>
      gtk_set_index (gtks (f_keys p)) < 0 \<and> sec_prot_keys_gtk_status_active_get (f_gtks p) = int i)"

lemma fwh_kdes:
  assumes "fwh_sends_key i p" and "length b = 56"
  shows "auth_fwh_kdes b 56 p = Some (kde_message (msg1_kdes (f_gtks p) i) 56)"
proof -
  have i: "i < 4" "gtks_inv (f_gtks p)" "gk_set (gtk (f_gtks p) ! i)" using assms(1) by (simp_all add: fwh_sends_key_def)
  have g: "auth_fwh_gtks p = (f_gtks p, gtks (f_keys p))" "\<not> node_role (f_keys p) = WS_NR_ROLE_LFN"
    using assms(1) by (simp_all add: fwh_sends_key_def auth_fwh_gtks_def)
  have "unat (word_of_nat i :: u8) = i" using i(1) by (intro unat_small) simp
  moreover have "sec_prot_keys_gtk_get (f_gtks p) i = Some (gk_key (gtk (f_gtks p) ! i))"
    using i by (simp add: sec_prot_keys_gtk_get_def GTK_NUM_def)
  ultimately have key: "do { g \<leftarrow> sec_prot_keys_get_gtk_to_insert (f_gtks p) (gtks (f_keys p));
      (case g of Some (i, g) \<Rightarrow> Some (word_of_nat i :: u8, g)
       | None \<Rightarrow> do { let i = (word_of_int (sec_prot_keys_gtk_status_active_get (f_gtks p)) :: u8);
                     g \<leftarrow> sec_prot_keys_gtk_get (f_gtks p) (unat i); Some (i, g) }) } = Some (word_of_nat i, gk_key (gtk (f_gtks p) ! i))"
    using assms(1) inv_len [OF i(2)] i by (auto simp: fwh_sends_key_def sec_prot_keys_get_gtk_to_insert_def load_def Let_def)
  have t: "sec_prot_keys_gtk_lifetime_get (f_gtks p) (unat (word_of_nat i :: u8)) = gk_lifetime (gtk (f_gtks p) ! i)"
    using i \<open>unat (word_of_nat i :: u8) = i\<close> by (simp add: sec_prot_keys_gtk_lifetime_get_def GTK_NUM_def)
  show ?thesis
    using kde_build [OF msg1_kdes_ok(1) [OF i(2,1)], of b] msg1_kdes_ok(2) [OF i(2,1)] assms(2)
    unfolding auth_fwh_kdes_def g Let_def prod.case bind_assoc [symmetric] msg1_kdes_def
    unfolding key [unfolded Let_def] using g(2) t by (simp add: bind_assoc)
qed

text \<open>With neither a key to insert nor an active key the code copies from a null pointer.\<close>

lemma fwh_no_gtk:
  assumes "gtk_set_index (snd (auth_fwh_gtks p)) < 0" and "sec_prot_keys_gtk_status_active_get (fst (auth_fwh_gtks p)) = -1"
  shows "auth_fwh_kdes b n p = None"
proof -
  have "unat (- 1 :: u8) = 255" by code_simp
  then show ?thesis using assms
    by (cases "auth_fwh_gtks p") (simp add: auth_fwh_kdes_def sec_prot_keys_get_gtk_to_insert_def sec_prot_keys_gtk_get_def GTK_NUM_def Let_def)
qed

definition msg3_wire :: "env \<Rightarrow> u8 list \<Rightarrow> u64 \<Rightarrow> u8 list \<Rightarrow> kde list \<Rightarrow> u8 list" where
  "msg3_wire env key c nonce kdes = fwh_wire env key FWH_MESSAGE_3 56 c (Some nonce) (Some (kde_message kdes 56))"

lemma msg3_fits: "gtks_inv ks \<Longrightarrow> i < 4 \<Longrightarrow> kde_fits True (Some (kde_message (msg1_kdes ks i) 56)) (unat (56 :: u16))"
  using msg1_kdes_ok(2) [of ks i] by (simp add: kde_fits_def kde_message_def)

lemma auth_fwh_sends_3:
  fixes p :: "('c, 'a) fwh_prot_scheme"
  assumes "env_ok (c_env cfg)" and "memory_left (c_env cfg)" and "length (f_new_ptk p) = 48" and "length (f_nonce p) = 32" and "fwh_sends_key i p"
    and "sec_prot_keys_pmk_replay_cnt_increment (f_keys p) = (True, keys)"
  shows "\<exists>hdr. length hdr = unat (sp_header_size p) \<and> auth_fwh_sec_prot_message_send cfg FWH_MESSAGE_3 p =
    Some (emit (Send (hdr @ msg3_wire (c_env cfg) (f_new_ptk p) (pmk_key_replay_cnt keys) (f_nonce p) (msg1_kdes (f_gtks p) i))) (p\<lparr>f_keys := keys\<rparr>))"
proof -
  let ?kde = "kde_message (msg1_kdes (f_gtks p) i) 56" and ?c = "pmk_key_replay_cnt keys" and ?n = "Some (f_nonce p)"
  have i: "i < 4" "gtks_inv (f_gtks p)" using assms(5) by (simp_all add: fwh_sends_key_def)
  obtain b where b: "env_malloc (c_env cfg) 56 = Some b" "length b = 56" by (rule env_memory [OF assms(1,2)])
  have kd: "auth_fwh_key_data cfg FWH_MESSAGE_3 b 56 p = Some (Some ?kde)" using fwh_kdes [OF assms(5) b(2)] by (simp add: auth_fwh_key_data_def)
  have fits: "kde_fits (FWH_MESSAGE_3 = FWH_MESSAGE_3) (Some ?kde) (unat (56 :: u16))" using msg3_fits [OF i(2,1)] by simp
  obtain sz pdu where init: "eapol_pdu_key_frame_init 56 None = (sz, pdu)" by (cases "eapol_pdu_key_frame_init 56 None")
  note pd = auth_fwh_pdu [OF _ init, of FWH_MESSAGE_3 ?c "f_nonce p"]
  obtain hdr where h: "length hdr = unat (sp_header_size p)" "sec_prot_lib_message_build (c_env cfg) (f_new_ptk p) (Some ?kde) 56
      (fwh_pdu FWH_MESSAGE_3 56 ?c ?n) (eapol_pdu_total_length (fwh_pdu FWH_MESSAGE_3 56 ?c ?n)) (sp_header_size p) =
      Some (Some (hdr @ fwh_wire (c_env cfg) (f_new_ptk p) FWH_MESSAGE_3 56 ?c ?n (Some ?kde)))"
    using fwh_build [OF assms(1,2), of "f_new_ptk p" 56 FWH_MESSAGE_3 "Some ?kde" ?n "sp_header_size p" ?c] assms(3,4) fits by auto
  have len: "(let kde_len = word_of_nat (KDE_GTK_LEN + KDE_LIFETIME_LEN + KDE_GTKL_LEN); kde_len = kde_len + 8 in kde_padded_length_calc kde_len) = (56 :: u16)"
    by (simp add: kde_lens kde_padded_length_calc_def KDE_PADDED_MIN_LEN_def)
  have "auth_fwh_sec_prot_message_send cfg FWH_MESSAGE_3 p = Some (emit (Send (hdr @
      fwh_wire (c_env cfg) (f_new_ptk p) FWH_MESSAGE_3 56 ?c ?n (Some ?kde))) (p\<lparr>f_keys := keys\<rparr>))"
    using b(1) kd assms(6) pd h(2) init unfolding auth_fwh_sec_prot_message_send_def len
    by (simp add: sec_prot_keys_pmk_replay_cnt_get_def Let_def)
  then show ?thesis using h(1) by (auto simp: msg3_wire_def)
qed

lemma auth_fwh_makes_ptk:
  assumes "fwh_party cfg p" and "length (f_nonce p) = 32" and "f_recv_eapol_pdu p = Some e" and "frame_key e = Some k"
    and "key_nonce k = Some (nonce @ s)" and "length nonce = 32"
  shows "auth_fwh_sec_prot_ptk_generate cfg p = Some (0, p\<lparr>f_remote_eui64 := c_remote cfg,
    f_new_ptk := fwh_ptk (c_env cfg) (pmk (f_keys p)) (c_local cfg) (c_remote cfg) (f_nonce p) nonce\<rparr>)"
  using fwh_party_dest [OF assms(1)] assms(2-)
    ptk_calc_spec [of "c_env cfg" "pmk (f_keys p)" "c_local cfg" "c_remote cfg" "f_nonce p" nonce]
  by (simp add: auth_fwh_sec_prot_ptk_generate_def sec_prot_keys_pmk_get_def ptk_calc_front fwh_ptk_def)

text \<open>The Trickle timer starts: parameters and random numbers are as the platform provides them.\<close>

definition rolls_left :: "fwh_cfg \<Rightarrow> nat \<Rightarrow> 'a sec_prot_scheme \<Rightarrow> bool" where
  "rolls_left cfg n p \<longleftrightarrow> wf_params (c_trickle cfg) \<and> n \<le> length (sp_rolls p) \<and> list_all good_roll (sp_rolls p)"

lemma interval_rolls:
  assumes "list_all good_roll rolls" and "Suc n \<le> length rolls"
  shows "\<exists>t rs. trickle_begin_interval tr rolls = Some (t, rs) \<and> list_all good_roll rs \<and> n \<le> length rs"
  using assms begin_interval_returns [of "hd rolls" tr "tl rolls"] by (cases rolls) auto

lemma trickle_starts:
  assumes "rolls_left cfg (n + 3) p"
  shows "\<exists>t rs. sec_prot_timer_trickle_start (c_trickle cfg) p =
      Some (upd_common (\<lambda>d. d\<lparr>sc_trickle := t, sc_trickle_running := True\<rparr>) (p\<lparr>sp_rolls := rs\<rparr>)) \<and>
    rolls_left cfg n (p\<lparr>sp_rolls := rs\<rparr>)"
proof -
  let ?par = "c_trickle cfg" and ?tr = "(sc_trickle (sp_common p))\<lparr>debug_name := ''SECURITY'', tk_e := 0\<rparr>"
  have p: "wf_params ?par" "n + 3 \<le> length (sp_rolls p)" "list_all good_roll (sp_rolls p)" using assms by (simp_all add: rolls_left_def)
  obtain r rolls where r: "sp_rolls p = r # rolls" using p(2) by (cases "sp_rolls p") auto
  obtain i rs1 where i: "rand_get_random_in_range (Imin ?par) (Imax ?par) (sp_rolls p) = Some (i, rs1)" "list_all good_roll rs1" "n + 2 \<le> length rs1"
    using range_one_roll [of "Imin ?par" "Imax ?par" r rolls] p r by (auto simp: wf_params_def)
  obtain t rs2 where t: "trickle_begin_interval (?tr\<lparr>tk_I := i\<rparr>) rs1 = Some (t, rs2)" "list_all good_roll rs2" "n + 1 \<le> length rs2"
    using interval_rolls [OF i(2), of "n + 1" "?tr\<lparr>tk_I := i\<rparr>"] i(3) by auto
  have "\<exists>t' rs3. trickle_inconsistent_heard t ?par rs2 = Some (t', rs3) \<and> list_all good_roll rs3 \<and> n \<le> length rs3"
    using interval_rolls [OF t(2), of n "t\<lparr>tk_e := 0, tk_I := Imin ?par\<rparr>"] t(2,3)
    by (simp add: trickle_inconsistent_heard_def trickle_reset_timer_def)
  then obtain t' rs3 where t': "trickle_inconsistent_heard t ?par rs2 = Some (t', rs3)" "list_all good_roll rs3" "n \<le> length rs3" by blast
  have "trickle_start (sc_trickle (sp_common p)) ''SECURITY'' ?par (sp_rolls p) = Some (t, rs2)" using i(1) t(1) by (simp add: trickle_start_def)
  then show ?thesis using t' p(1) by (auto simp: sec_prot_timer_trickle_start_def rolls_left_def)
qed

lemma auth_fwh_receives_2:
  fixes p :: "'c fwh_prot"
  assumes "fwh_party cfg p" and "sc_state (sp_common p) = FWH_STATE_MESSAGE_2" and "sc_result (sp_common p) = SEC_RESULT_OK"
    and "length (f_nonce p) = 32" and "length snonce = 32" and "fwh_sends_key i p" and "rolls_left cfg 3 p"
    and "sec_prot_keys_pmk_replay_cnt_increment (f_keys p) = (True, keys)"
    and t: "t = fwh_ptk (c_env cfg) (pmk (f_keys p)) (c_local cfg) (c_remote cfg) (f_nonce p) snonce"
  defines "rx \<equiv> reply_wire (c_env cfg) t FWH_MESSAGE_2 (pmk_key_replay_cnt (f_keys p)) snonce"
  shows "\<exists>p' hdr. auth_fwh_sec_prot_receive (auth_fwh_run cfg) rx (word_of_nat (length rx)) p = Some (0, p') \<and>
    length hdr = unat (sp_header_size p) \<and>
    sp_out p' = sp_out p @ [Send (hdr @ msg3_wire (c_env cfg) t (pmk_key_replay_cnt keys) (f_nonce p) (msg1_kdes (f_gtks p) i))] \<and>
    sc_state (sp_common p') = FWH_STATE_MESSAGE_4 \<and> sc_result (sp_common p') = SEC_RESULT_OK \<and> sp_header_size p' = sp_header_size p \<and>
    sp_completed p' = sp_completed p \<and> f_keys p' = keys \<and> f_gtks p' = f_gtks p \<and> f_lgtks p' = f_lgtks p \<and> f_new_ptk p' = t \<and>
    f_remote_eui64 p' = c_remote cfg"
proof -
  note party = fwh_party_dest [OF assms(1)]
  let ?n = "word_of_nat (length rx) :: u16" and ?c = "pmk_key_replay_cnt (f_keys p)"
  have lt: "length t = 48" unfolding t by (rule length_fwh_ptk [OF party(1)])
  have rx: "rx = fwh_wire (c_env cfg) t FWH_MESSAGE_2 0 ?c (Some snonce) None" by (simp add: rx_def reply_wire_def)
  have fits: "kde_fits (FWH_MESSAGE_2 = FWH_MESSAGE_3) None (unat (0 :: u16))" by (simp add: kde_fits_def)
  note rec = fwh_received [OF party(1,2) _ _ fits, of t "Some snonce" ?c, folded rx]
  obtain e k mic rx' where e: "eapol_parse_pdu_header rx ?n = Some (Some e)" "frame_key e = Some k" "key_information k = fwh_info FWH_MESSAGE_2"
    "replay_counter k = ?c" "points_to (key_nonce k) snonce" "key_mic k = Some mic"
    "sec_prot_lib_mic_validate (c_env cfg) t mic rx (word_of_nat (length rx)) = Some (0, rx')"
    using rec(2) lt assms(5) by fastforce
  have l: "length rx = 99" using rec(1) lt assms(5) by simp
  obtain s where s: "key_nonce k = Some (snonce @ s)" using e(5) by (auto simp: points_to_def)
  have get: "auth_fwh_sec_prot_message_get p e = Some FWH_MESSAGE_2"
    using e(2,4) fwh_masks [OF e(3)]
    by (simp add: auth_fwh_sec_prot_message_get_def e(3) fwh_info_flags KEY_INFO_KEY_MIC_def sec_prot_keys_pmk_replay_cnt_get_def Let_def)
  define q where "q = p\<lparr>f_recv_eapol_pdu := Some e, f_recv_msg := FWH_MESSAGE_2, f_recv_pdu := Some rx, f_recv_size := ?n\<rparr>"
  have sel: "f_keys q = f_keys p" "f_recv_eapol_pdu q = Some e" "f_recv_msg q = FWH_MESSAGE_2" "f_new_ptk q = f_new_ptk p" "f_nonce q = f_nonce p"
    "sp_common q = sp_common p" by (simp_all add: q_def)
  have pq: "fwh_party cfg q" using assms(1) by (simp add: fwh_party_def sel)
  define q1 where "q1 = q\<lparr>f_remote_eui64 := c_remote cfg, f_new_ptk := t\<rparr>"
  have gen: "auth_fwh_sec_prot_ptk_generate cfg q = Some (0, q1)"
    using auth_fwh_makes_ptk [OF pq, of e k snonce s] e(2) s assms(4,5) by (simp add: sel q1_def t)
  define q2 where "q2 = q1\<lparr>f_recv_pdu := Some rx'\<rparr>"
  have sel2: "f_new_ptk q2 = t" "f_nonce q2 = f_nonce p" "f_keys q2 = f_keys p" "f_gtks q2 = f_gtks p" "f_lgtks q2 = f_lgtks p"
    "sp_header_size q2 = sp_header_size p" "sp_rolls q2 = sp_rolls p" "sp_common q2 = sp_common p" "sp_out q2 = sp_out p"
    "sp_completed q2 = sp_completed p" "f_remote_eui64 q2 = c_remote cfg" by (simp_all add: q2_def q1_def q_def)
  have "(ucast ?n :: u8) = word_of_nat (length rx)" using l by simp
  then have val: "auth_fwh_sec_prot_mic_validate cfg q1 = Some (0, q2)"
    using e(2,6,7) by (simp add: auth_fwh_sec_prot_mic_validate_def fwh_mic_validate_def q1_def q2_def q_def)
  have "fwh_sends_key i q2" using assms(6) by (simp add: fwh_sends_key_def sel2)
  then obtain hdr where h: "length hdr = unat (sp_header_size p)" "auth_fwh_sec_prot_message_send cfg FWH_MESSAGE_3 q2 =
      Some (emit (Send (hdr @ msg3_wire (c_env cfg) t (pmk_key_replay_cnt keys) (f_nonce p) (msg1_kdes (f_gtks p) i))) (q2\<lparr>f_keys := keys\<rparr>))"
    using auth_fwh_sends_3 [OF party(1,2), of q2 i keys] lt assms(4,8) by (auto simp: sel2)
  define q3 where "q3 = emit (Send (hdr @ msg3_wire (c_env cfg) t (pmk_key_replay_cnt keys) (f_nonce p) (msg1_kdes (f_gtks p) i))) (q2\<lparr>f_keys := keys\<rparr>)"
  have "rolls_left cfg (0 + 3) q3" using assms(7) by (simp add: rolls_left_def q3_def emit_def sel2)
  then obtain tr rs where tr: "sec_prot_timer_trickle_start (c_trickle cfg) q3 =
      Some (upd_common (\<lambda>d. d\<lparr>sc_trickle := tr, sc_trickle_running := True\<rparr>) (q3\<lparr>sp_rolls := rs\<rparr>))" using trickle_starts by blast
  define q4 where "q4 = upd_common (\<lambda>d. d\<lparr>sc_state := FWH_STATE_MESSAGE_4\<rparr>) (upd_common (\<lambda>d. d\<lparr>sc_trickle := tr, sc_trickle_running := True\<rparr>) (q3\<lparr>sp_rolls := rs\<rparr>))"
  have same: "q\<lparr>sp_common := sp_common p\<rparr> = q" by (simp add: q_def)
  have "auth_fwh_run cfg q = Some q4"
    using assms(2,3) gen val h(2) tr unfolding auth_fwh_run_def numeral_2_eq_2
    by (simp add: sec_prot_state_get_def sec_prot_result_timeout_check_def sel same q3_def [symmetric] sec_prot_state_set_def q4_def)
  then have "auth_fwh_sec_prot_receive (auth_fwh_run cfg) rx ?n p = Some (0, fwh_clear q4)"
    using e(1) get by (simp add: auth_fwh_sec_prot_receive_def fwh_receive_def q_def Let_def)
  moreover have "sc_result (sp_common q4) = SEC_RESULT_OK" using assms(3) by (simp add: q4_def q3_def emit_def sel2)
  ultimately show ?thesis using h(1) by (auto simp: fwh_clear_def q4_def q3_def emit_def sel2)
qed

lemma supp_fwh_takes_3:
  assumes "f_recv_eapol_pdu p = Some e" and "frame_key e = Some k" and "f_recv_msg p = FWH_MESSAGE_3"
    and "fwh_mic_validate cfg p = Some (0, p\<lparr>f_recv_pdu := Some rx'\<rparr>)" and "key_nonce k = Some (f_anonce p @ s)" and "length (f_anonce p) = 32"
    and "sec_prot_lib_message_handle (c_env cfg) (f_new_ptk p) e = Some (Some (buf, len))"
    and "sec_prot_lib_gtk_read buf len (f_gtks p) (gtks (f_keys p)) = Some (0, ks, g)"
  shows "supp_fwh_accept_3 cfg p = Some (True, p\<lparr>f_recv_pdu := Some rx', f_gtks := ks,
    f_keys := (f_keys p)\<lparr>gtks := g, pmk_key_replay_cnt_set := True, pmk_key_replay_cnt := replay_counter k\<rparr>,
    f_recv_replay_cnt := replay_counter k, f_recv_replay_cnt_set := True\<rparr>)"
  using assms by (simp add: supp_fwh_accept_3_def supp_fwh_sec_prot_mic_validate_def supp_fwh_sec_prot_anonce_validate_def memcmp_front
      memcmp_same(2) EAPOL_KEY_NONCE_LEN_def supp_fwh_kde_handle_def supp_fwh_sec_prot_recv_replay_counter_store_def
      supp_fwh_sec_prot_security_replay_counter_update_def sec_prot_keys_pmk_replay_cnt_set_def Let_def)

lemma supp_fwh_receives_3:
  fixes p :: "'c supp_fwh_prot"
  assumes "env_ok (c_env cfg)" and "memory_left (c_env cfg)" and "length (f_new_ptk p) = 48" and "length (f_nonce p) = 32" and "length (f_anonce p) = 32"
    and "length (f_remote_eui64 p) = 8" and "sc_state (sp_common p) = FWH_STATE_MESSAGE_3" and "\<not> f_msg3_retry_wait p"
    and "gtks_inv (f_gtks p)" and "gtks_inv ks" and "i < 4" and "sec_prot_keys_pmk_replay_cnt_compare c (f_keys p)"
  defines "rx \<equiv> msg3_wire (c_env cfg) (f_new_ptk p) c (f_anonce p) (msg1_kdes ks i)"
  shows "\<exists>p' hdr. supp_fwh_sec_prot_receive (supp_fwh_run cfg) rx (word_of_nat (length rx)) p = Some (0, p') \<and> length hdr = unat (sp_header_size p) \<and>
    sp_out p' = sp_out p @ [Send (hdr @ reply_wire (c_env cfg) (f_new_ptk p) FWH_MESSAGE_4 c (f_nonce p)), Finished_ind (sc_result (sp_common p))] \<and>
    sc_state (sp_common p') = FWH_STATE_MESSAGE_3_RETRY_WAIT \<and>
    installed i (gk_key (gtk ks ! i)) (gk_lifetime (gtk ks ! i)) (f_gtks p) (f_gtks p') \<and>
    gtkl (gtks (f_keys p')) = sec_prot_keys_fresh_gtkl_get ks \<and> pmk_key_replay_cnt (f_keys p') = c \<and>
    sec_prot_keys_ptk_get (f_keys p') = Some (f_new_ptk p) \<and> sec_prot_keys_ptk_eui_64_get (f_keys p') = Some (f_remote_eui64 p) \<and>
    ptk_lifetime (f_keys p') = c_ptk_lifetime cfg"
proof -
  let ?n = "word_of_nat (length rx) :: u16" and ?t = "f_new_ptk p" and ?kde = "kde_message (msg1_kdes ks i) 56"
  have rx: "rx = fwh_wire (c_env cfg) ?t FWH_MESSAGE_3 56 c (Some (f_anonce p)) (Some ?kde)" by (simp add: rx_def msg3_wire_def)
  have fits: "kde_fits (FWH_MESSAGE_3 = FWH_MESSAGE_3) (Some ?kde) (unat (56 :: u16))" using msg3_fits [OF assms(10,11)] by simp
  note rec = fwh_received [OF assms(1,2) _ _ fits, of ?t "Some (f_anonce p)" c, folded rx]
  obtain e k mic rx' buf len where e: "eapol_parse_pdu_header rx ?n = Some (Some e)" "frame_key e = Some k" "key_information k = fwh_info FWH_MESSAGE_3"
    "replay_counter k = c" "points_to (key_nonce k) (f_anonce p)" "key_mic k = Some mic"
    "sec_prot_lib_mic_validate (c_env cfg) ?t mic rx (word_of_nat (length rx)) = Some (0, rx')"
    and m: "sec_prot_lib_message_handle (c_env cfg) ?t e = Some (Some (buf, len))" "length buf = 56" "unat len = 48" "take 48 buf = take 48 ?kde"
    using rec(2) assms(3,5) by fastforce
  have l: "length rx = 155" using rec(1) assms(3,5) by simp
  obtain s where s: "key_nonce k = Some (f_anonce p @ s)" using e(5) by (auto simp: points_to_def)
  obtain keys' where g: "sec_prot_lib_gtk_read buf len (f_gtks p) (gtks (f_keys p)) =
      Some (0, keys', (gtks (f_keys p))\<lparr>gtkl := sec_prot_keys_fresh_gtkl_get ks\<rparr>)" "installed i (gk_key (gtk ks ! i)) (gk_lifetime (gtk ks ! i)) (f_gtks p) keys'"
    using kdes_install [OF assms(10,11,9) m(2,3,4)] by blast
  have get: "supp_fwh_sec_prot_message_get p e = Some FWH_MESSAGE_3"
    using e(2,4) fwh_masks [OF e(3)] assms(12)
    by (simp add: supp_fwh_sec_prot_message_get_def e(3) fwh_info_flags KEY_INFO_KEY_MIC_def KEY_INFO_KEY_ACK_def KEY_INFO_INSTALL_def
        KEY_INFO_SECURED_KEY_FRAME_def Let_def)
  define q where "q = p\<lparr>f_recv_eapol_pdu := Some e, f_recv_msg := FWH_MESSAGE_3, f_recv_pdu := Some rx, f_recv_size := ?n\<rparr>"
  have sel: "f_recv_eapol_pdu q = Some e" "f_recv_msg q = FWH_MESSAGE_3" "f_anonce q = f_anonce p" "f_new_ptk q = ?t" "sp_common q = sp_common p"
    "f_keys q = f_keys p" "f_gtks q = f_gtks p" "f_recv_pdu q = Some rx" "f_recv_size q = ?n" by (simp_all add: q_def)
  have "(ucast ?n :: u8) = word_of_nat (length rx)" using l by simp
  then have v: "fwh_mic_validate cfg q = Some (0, q\<lparr>f_recv_pdu := Some rx'\<rparr>)" using e(2,6,7) by (simp add: fwh_mic_validate_def sel)
  define q1 where "q1 = q\<lparr>f_recv_pdu := Some rx', f_gtks := keys', f_keys := (f_keys p)\<lparr>gtks := (gtks (f_keys p))\<lparr>gtkl := sec_prot_keys_fresh_gtkl_get ks\<rparr>,
      pmk_key_replay_cnt_set := True, pmk_key_replay_cnt := c\<rparr>, f_recv_replay_cnt := c, f_recv_replay_cnt_set := True\<rparr>"
  have acc: "supp_fwh_accept_3 cfg q = Some (True, q1)"
    using supp_fwh_takes_3 [of q e k cfg rx' s buf len keys'] e(2,4) v s m(1) g(1) assms(5) by (simp add: sel q1_def)
  define q2 where "q2 = q1\<lparr>f_msg3_received := True\<rparr>"
  obtain hdr where h: "length hdr = unat (sp_header_size p)" "supp_fwh_sec_prot_message_send cfg FWH_MESSAGE_4 q2 =
      Some (emit (Send (hdr @ reply_wire (c_env cfg) ?t FWH_MESSAGE_4 c (f_nonce p))) q2)"
    using supp_fwh_sends [OF assms(1,2), of q2 FWH_MESSAGE_4] assms(3,4) by (auto simp: q2_def q1_def q_def)
  have "\<exists>p'. supp_fwh_run cfg q = Some p' \<and> sp_out p' = sp_out p @ [Send (hdr @ reply_wire (c_env cfg) ?t FWH_MESSAGE_4 c (f_nonce p)),
      Finished_ind (sc_result (sp_common p))] \<and> sc_state (sp_common p') = FWH_STATE_MESSAGE_3_RETRY_WAIT \<and> f_gtks p' = keys' \<and>
    gtkl (gtks (f_keys p')) = sec_prot_keys_fresh_gtkl_get ks \<and> pmk_key_replay_cnt (f_keys p') = c \<and> ptk (f_keys p') = ?t \<and> ptk_set (f_keys p') \<and>
    ptk_eui_64 (f_keys p') = f_remote_eui64 p \<and> ptk_eui_64_set (f_keys p') \<and> ptk_lifetime (f_keys p') = c_ptk_lifetime cfg"
    using assms(3,6,7,8) acc h(2) unfolding supp_fwh_run_def numeral_2_eq_2
    by (simp add: sec_prot_state_get_def sec_prot_result_get_def sel q2_def [symmetric] sec_prot_state_set_def Let_def)
      (simp add: q2_def q1_def q_def emit_def sec_prot_keys_ptk_write_def sec_prot_keys_ptk_eui_64_write_def load_n_def PTK_LEN_def)
  then obtain p' where p': "supp_fwh_run cfg q = Some p'" "sp_out p' = sp_out p @ [Send (hdr @ reply_wire (c_env cfg) ?t FWH_MESSAGE_4 c (f_nonce p)),
      Finished_ind (sc_result (sp_common p))]" "sc_state (sp_common p') = FWH_STATE_MESSAGE_3_RETRY_WAIT" "f_gtks p' = keys'"
    "gtkl (gtks (f_keys p')) = sec_prot_keys_fresh_gtkl_get ks" "pmk_key_replay_cnt (f_keys p') = c" "ptk (f_keys p') = ?t" "ptk_set (f_keys p')"
    "ptk_eui_64 (f_keys p') = f_remote_eui64 p" "ptk_eui_64_set (f_keys p')" "ptk_lifetime (f_keys p') = c_ptk_lifetime cfg" by blast
  have "supp_fwh_sec_prot_receive (supp_fwh_run cfg) rx ?n p = Some (0, fwh_clear p')"
    using e(1) get p'(1) by (simp add: supp_fwh_sec_prot_receive_def fwh_receive_def q_def Let_def)
  then show ?thesis
    using h(1) g(2) p' by (auto simp: fwh_clear_def sec_prot_keys_ptk_get_def sec_prot_keys_ptk_eui_64_get_def)
qed

section \<open>The end of the handshake on the authenticator\<close>

lemma clear_all_fields:
  "length (ins_gtk_hash g) = 4 \<Longrightarrow> length (ins_gtk_hash (sec_prot_keys_ptk_installed_gtk_hash_clear_all g)) = 4"
  "gtk_set_index (sec_prot_keys_ptk_installed_gtk_hash_clear_all g) = gtk_set_index g" "gtkl (sec_prot_keys_ptk_installed_gtk_hash_clear_all g) = gtkl g"
  by (simp_all add: sec_prot_keys_ptk_installed_gtk_hash_clear_all_def GTK_NUM_def upt_rec)

lemma auth_fwh_installs:
  assumes "sha256_total (c_sha256 cfg)" and "node_role (f_keys p) \<noteq> WS_NR_ROLE_LFN" and "gtks_inv (f_gtks p)"
    and "length (ins_gtk_hash (gtks (f_keys p))) = 4" and "gtk_set_index (gtks (f_keys p)) < 4" and "length (f_new_ptk p) = 48" and "length (f_remote_eui64 p) = 8"
  shows "\<exists>k. auth_fwh_install cfg p = Some (p\<lparr>f_keys := k\<rparr>) \<and> sec_prot_keys_ptk_get k = Some (f_new_ptk p) \<and>
    sec_prot_keys_ptk_eui_64_get k = Some (f_remote_eui64 p) \<and> ptk_lifetime k = c_ptk_lifetime cfg \<and> \<not> ptk_mismatch k \<and> gtk_set_index (gtks k) < 0 \<and>
    (gtk_set_index (gtks (f_keys p)) \<ge> 0 \<longrightarrow> sec_prot_keys_gtkl_gtk_is_live (gtks k) (nat (gtk_set_index (gtks (f_keys p))))) \<and>
    pmk_key_replay_cnt k = pmk_key_replay_cnt (f_keys p)"
proof -
  let ?g = "sec_prot_keys_ptk_installed_gtk_hash_clear_all (gtks (f_keys p))"
  obtain h m where hm: "sec_prot_keys_ptk_installed_gtk_hash_set (c_sha256 cfg) (f_gtks p) ?g True = Some (?g\<lparr>ins_gtk_hash := h, ins_gtk_hash_set := m\<rparr>)"
    using hash_set_returns [OF assms(1) _ assms(3), of ?g True] assms(4,5) by (auto simp: clear_all_fields)
  define g where "g = sec_prot_keys_gtkl_from_gtk_insert_index_set (?g\<lparr>ins_gtk_hash := h, ins_gtk_hash_set := m\<rparr>)"
  have idx: "nat (gtk_set_index (gtks (f_keys p))) < 4" using assms(5) by linarith
  have g: "gtk_set_index g < 0" "gtk_set_index (gtks (f_keys p)) \<ge> 0 \<longrightarrow> sec_prot_keys_gtkl_gtk_is_live g (nat (gtk_set_index (gtks (f_keys p))))"
    using idx by (auto simp: g_def sec_prot_keys_gtkl_from_gtk_insert_index_set_def sec_prot_keys_gtk_insert_index_clear_def clear_all_fields
        sec_prot_keys_gtkl_gtk_live_set_def live_iff_bit GTK_NUM_def bit_simps)
  have "auth_fwh_install cfg p = Some (p\<lparr>f_keys := (f_keys p)\<lparr>gtks := g, ptk_mismatch := False, ptk := f_new_ptk p,
      ptk_lifetime := c_ptk_lifetime cfg, ptk_set := True, ptk_eui_64 := f_remote_eui64 p, ptk_eui_64_set := True, updated := True\<rparr>\<rparr>)"
    using assms(2,6,7) hm
    by (simp add: auth_fwh_install_def auth_fwh_gtks_def auth_fwh_gtks_put_def sec_prot_keys_ptk_write_def sec_prot_keys_ptk_eui_64_write_def
        sec_prot_keys_ptk_mismatch_reset_def load_n_def PTK_LEN_def g_def [symmetric])
  then show ?thesis
    using g by (intro exI [of _ "(f_keys p)\<lparr>gtks := g, ptk_mismatch := False, ptk := f_new_ptk p, ptk_lifetime := c_ptk_lifetime cfg,
      ptk_set := True, ptk_eui_64 := f_remote_eui64 p, ptk_eui_64_set := True, updated := True\<rparr>"])
      (simp add: sec_prot_keys_ptk_get_def sec_prot_keys_ptk_eui_64_get_def)
qed

lemma auth_fwh_receives_4:
  fixes p :: "'c fwh_prot"
  assumes "env_ok (c_env cfg)" and "memory_left (c_env cfg)" and "length (f_new_ptk p) = 48" and "length snonce = 32"
    and "sc_state (sp_common p) = FWH_STATE_MESSAGE_4" and "sc_result (sp_common p) = SEC_RESULT_OK"
    and ins: "sha256_total (c_sha256 cfg)" "node_role (f_keys p) \<noteq> WS_NR_ROLE_LFN" "gtks_inv (f_gtks p)"
      "length (ins_gtk_hash (gtks (f_keys p))) = 4" "gtk_set_index (gtks (f_keys p)) < 4" "length (f_remote_eui64 p) = 8"
  defines "rx \<equiv> reply_wire (c_env cfg) (f_new_ptk p) FWH_MESSAGE_4 (pmk_key_replay_cnt (f_keys p)) snonce"
  shows "\<exists>p' extra. auth_fwh_sec_prot_receive (auth_fwh_run cfg) rx (word_of_nat (length rx)) p = Some (0, p') \<and>
    sc_state (sp_common p') = FWH_STATE_FINISHED \<and> sp_out p' = sp_out p @ [Finished_ind SEC_RESULT_OK] @ extra @ [Receive_disable] \<and>
    sec_prot_keys_ptk_get (f_keys p') = Some (f_new_ptk p) \<and> sec_prot_keys_ptk_eui_64_get (f_keys p') = Some (f_remote_eui64 p) \<and>
    ptk_lifetime (f_keys p') = c_ptk_lifetime cfg \<and> \<not> ptk_mismatch (f_keys p') \<and> gtk_set_index (gtks (f_keys p')) < 0 \<and>
    (gtk_set_index (gtks (f_keys p)) \<ge> 0 \<longrightarrow> sec_prot_keys_gtkl_gtk_is_live (gtks (f_keys p')) (nat (gtk_set_index (gtks (f_keys p))))) \<and>
    pmk_key_replay_cnt (f_keys p') = pmk_key_replay_cnt (f_keys p)"
proof -
  let ?n = "word_of_nat (length rx) :: u16" and ?t = "f_new_ptk p" and ?c = "pmk_key_replay_cnt (f_keys p)"
  have rx: "rx = fwh_wire (c_env cfg) ?t FWH_MESSAGE_4 0 ?c None None" by (simp add: rx_def reply_wire_def)
  have fits: "kde_fits (FWH_MESSAGE_4 = FWH_MESSAGE_3) None (unat (0 :: u16))" by (simp add: kde_fits_def)
  note rec = fwh_received [OF assms(1,2) _ _ fits, of ?t None ?c, folded rx]
  obtain e k mic rx' where e: "eapol_parse_pdu_header rx ?n = Some (Some e)" "frame_key e = Some k" "key_information k = fwh_info FWH_MESSAGE_4"
    "replay_counter k = ?c" "key_mic k = Some mic" "sec_prot_lib_mic_validate (c_env cfg) ?t mic rx (word_of_nat (length rx)) = Some (0, rx')"
    using rec(2) assms(3) by fastforce
  have l: "length rx = 99" using rec(1) assms(3) by simp
  have get: "auth_fwh_sec_prot_message_get p e = Some FWH_MESSAGE_4"
    using e(2,4) fwh_masks [OF e(3)]
    by (simp add: auth_fwh_sec_prot_message_get_def e(3) fwh_info_flags KEY_INFO_KEY_MIC_def KEY_INFO_SECURED_KEY_FRAME_def
        sec_prot_keys_pmk_replay_cnt_get_def Let_def)
  define q where "q = p\<lparr>f_recv_eapol_pdu := Some e, f_recv_msg := FWH_MESSAGE_4, f_recv_pdu := Some rx, f_recv_size := ?n\<rparr>"
  have sel: "f_recv_eapol_pdu q = Some e" "f_recv_msg q = FWH_MESSAGE_4" "sp_common q = sp_common p" "q\<lparr>sp_common := sp_common p\<rparr> = q"
    by (simp_all add: q_def)
  define q1 where "q1 = q\<lparr>f_recv_pdu := Some rx'\<rparr>"
  have "(ucast ?n :: u8) = word_of_nat (length rx)" using l by simp
  then have val: "auth_fwh_sec_prot_mic_validate cfg q = Some (0, q1)"
    using e(2,5,6) by (simp add: auth_fwh_sec_prot_mic_validate_def fwh_mic_validate_def q1_def q_def)
  have sel1: "f_keys q1 = f_keys p" "f_gtks q1 = f_gtks p" "f_new_ptk q1 = ?t" "f_remote_eui64 q1 = f_remote_eui64 p" by (simp_all add: q1_def q_def)
  obtain ks where ks: "auth_fwh_install cfg q1 = Some (q1\<lparr>f_keys := ks\<rparr>)" "sec_prot_keys_ptk_get ks = Some ?t"
    "sec_prot_keys_ptk_eui_64_get ks = Some (f_remote_eui64 p)" "ptk_lifetime ks = c_ptk_lifetime cfg" "\<not> ptk_mismatch ks" "gtk_set_index (gtks ks) < 0"
    "gtk_set_index (gtks (f_keys p)) \<ge> 0 \<longrightarrow> sec_prot_keys_gtkl_gtk_is_live (gtks ks) (nat (gtk_set_index (gtks (f_keys p))))"
    "pmk_key_replay_cnt ks = pmk_key_replay_cnt (f_keys p)"
    using auth_fwh_installs [OF ins(1), of q1, unfolded sel1, OF ins(2-5) assms(3) ins(6)] by blast
  obtain b where b: "env_malloc (c_env cfg) (unat (sp_header_size p)) = Some b" by (rule env_memory [OF assms(1,2)])
  let ?extra = "if sp_completed p then [Send b] else []"
  have "\<exists>p'. auth_fwh_run cfg q = Some p' \<and> sc_state (sp_common p') = FWH_STATE_FINISHED \<and>
      sp_out p' = sp_out p @ [Finished_ind SEC_RESULT_OK] @ ?extra @ [Receive_disable] \<and> f_keys p' = ks"
    using assms(5,6) val ks(1) b unfolding auth_fwh_run_def numeral_2_eq_2
    by (simp add: sec_prot_state_get_def sec_prot_result_timeout_check_def sel sec_prot_state_set_def Let_def)
      (simp add: q1_def q_def emit_def sec_prot_result_get_def sec_prot_result_set_def auth_fwh_sec_prot_auth_completed_send_def sec_prot_state_set_def Let_def)
  then obtain p' where p': "auth_fwh_run cfg q = Some p'" "sc_state (sp_common p') = FWH_STATE_FINISHED"
    "sp_out p' = sp_out p @ [Finished_ind SEC_RESULT_OK] @ ?extra @ [Receive_disable]" "f_keys p' = ks" by blast
  have "auth_fwh_sec_prot_receive (auth_fwh_run cfg) rx ?n p = Some (0, fwh_clear p')"
    using e(1) get p'(1) by (simp add: auth_fwh_sec_prot_receive_def fwh_receive_def q_def Let_def)
  then show ?thesis using p' ks by (intro exI [of _ "fwh_clear p'"] exI [of _ ?extra]) (simp add: fwh_clear_def)
qed

section \<open>The handshake\<close>

text \<open>An authenticator that has been asked to start, with what the platform provides for it.\<close>

definition auth_fwh_starting :: "fwh_cfg \<Rightarrow> nat \<Rightarrow> 'c fwh_prot \<Rightarrow> bool" where
  "auth_fwh_starting cfg i p \<longleftrightarrow> fwh_party cfg p \<and> fwh_sends_key i p \<and> sc_state (sp_common p) = FWH_STATE_CREATE_REQ \<and>
     sc_result (sp_common p) = SEC_RESULT_OK \<and> sha256_total (c_sha256 cfg) \<and> rolls_left cfg 6 p \<and> 32 \<le> length (f_random p) \<and>
     length (ins_gtk_hash (gtks (f_keys p))) = 4 \<and> gtk_set_index (gtks (f_keys p)) < 4 \<and>
     fst (sec_prot_keys_pmk_replay_cnt_increment (f_keys p)) \<and>
     fst (sec_prot_keys_pmk_replay_cnt_increment (snd (sec_prot_keys_pmk_replay_cnt_increment (f_keys p))))"

lemma increment_fields:
  assumes "sec_prot_keys_pmk_replay_cnt_increment k = (b, k')"
  shows "pmk k' = pmk k" "pmk_set k' = pmk_set k" "ptk_eui_64_set k' = ptk_eui_64_set k" "ptk_eui_64 k' = ptk_eui_64 k" "gtks k' = gtks k"
    "node_role k' = node_role k"
  using assms by (auto simp: sec_prot_keys_pmk_replay_cnt_increment_def split: if_splits)

lemma auth_fwh_starts:
  fixes p :: "'c fwh_prot"
  assumes "fwh_party cfg p" and "sc_state (sp_common p) = FWH_STATE_CREATE_REQ" and "rolls_left cfg (n + 3) p" and "32 \<le> length (f_random p)"
    and "sec_prot_keys_pmk_replay_cnt_increment (f_keys p) = (True, keys)"
  shows "\<exists>p' hdr. auth_fwh_run cfg p = Some p' \<and> length hdr = unat (sp_header_size p) \<and>
    sp_out p' = sp_out p @ [Create_conf SEC_RESULT_OK, Send (hdr @ msg1_wire (c_env cfg) (pmk_key_replay_cnt keys) (take 32 (f_random p))
      (pmk_name (c_env cfg) (pmk (f_keys p)) (c_local cfg) (peer_eui64 cfg (f_keys p))))] \<and>
    sc_state (sp_common p') = FWH_STATE_MESSAGE_2 \<and> sc_result (sp_common p') = sc_result (sp_common p) \<and> f_keys p' = keys \<and>
    f_gtks p' = f_gtks p \<and> f_lgtks p' = f_lgtks p \<and> f_nonce p' = take 32 (f_random p) \<and> f_new_ptk p' = f_new_ptk p \<and>
    sp_header_size p' = sp_header_size p \<and> sp_completed p' = sp_completed p \<and> rolls_left cfg n p'"
proof -
  note party = fwh_party_dest [OF assms(1)]
  define q where "q = emit (Create_conf SEC_RESULT_OK) (p\<lparr>sp_common := sec_prot_default_timeout_set (sp_common p)\<rparr>)"
  define q1 where "q1 = q\<lparr>f_nonce := take 32 (f_random p), f_random := drop 32 (f_random p)\<rparr>"
  have gen: "fwh_nonce_generate q = Some q1" using nonce_generate [of q] assms(4) by (simp add: q_def q1_def emit_def)
  have sel: "f_keys q1 = f_keys p" "f_nonce q1 = take 32 (f_random p)" "sp_header_size q1 = sp_header_size p" "f_new_ptk q1 = f_new_ptk p"
    by (simp_all add: q1_def q_def emit_def)
  have "fwh_party cfg q1" using assms(1) by (simp add: fwh_party_def sel)
  then obtain hdr where h: "length hdr = unat (sp_header_size p)" "auth_fwh_sec_prot_message_send cfg FWH_MESSAGE_1 q1 = Some (emit (Send (hdr @
      msg1_wire (c_env cfg) (pmk_key_replay_cnt keys) (take 32 (f_random p))
      (pmk_name (c_env cfg) (pmk (f_keys p)) (c_local cfg) (peer_eui64 cfg (f_keys p))))) (q1\<lparr>f_keys := keys\<rparr>))"
    using auth_fwh_sends_1 [of cfg q1 keys] assms(4,5) by (auto simp: sel)
  define q2 where "q2 = emit (Send (hdr @ msg1_wire (c_env cfg) (pmk_key_replay_cnt keys) (take 32 (f_random p))
      (pmk_name (c_env cfg) (pmk (f_keys p)) (c_local cfg) (peer_eui64 cfg (f_keys p))))) (q1\<lparr>f_keys := keys\<rparr>)"
  have "rolls_left cfg (n + 3) q2" using assms(3) by (simp add: rolls_left_def q2_def q1_def q_def emit_def)
  then obtain tr rs where tr: "sec_prot_timer_trickle_start (c_trickle cfg) q2 =
      Some (upd_common (\<lambda>d. d\<lparr>sc_trickle := tr, sc_trickle_running := True\<rparr>) (q2\<lparr>sp_rolls := rs\<rparr>))" "rolls_left cfg n (q2\<lparr>sp_rolls := rs\<rparr>)"
    using trickle_starts by blast
  define q3 where "q3 = upd_common (\<lambda>d. d\<lparr>sc_state := FWH_STATE_MESSAGE_2\<rparr>) (upd_common (\<lambda>d. d\<lparr>sc_trickle := tr, sc_trickle_running := True\<rparr>) (q2\<lparr>sp_rolls := rs\<rparr>))"
  have "auth_fwh_run cfg p = Some q3"
    using assms(2) party(3) gen h(2) tr(1) unfolding auth_fwh_run_def numeral_2_eq_2
    by (simp add: sec_prot_state_get_def sec_prot_keys_pmk_get_def q_def [symmetric] q2_def [symmetric] sec_prot_state_set_def q3_def Let_def)
  moreover have "rolls_left cfg n q3" using tr(2) by (simp add: rolls_left_def q3_def)
  ultimately show ?thesis
    using h(1) by (intro exI [of _ q3] exI [of _ hdr])
      (simp add: q3_def q2_def q1_def q_def emit_def sec_prot_default_timeout_set_def)
qed

text \<open>
  C1. The four-way handshake works: an authenticator that is asked to start and a supplicant that waits for message 1, with the same
  master key, each using the other's address and with replay counters the supplicant accepts, exchange the four messages. Both end
  with the same pairwise transient key, which is the key of IEEE 802.11 for their addresses and nonces, installed together with the
  address of the other party; the supplicant has the group key that message 3 carries, the list of live keys and the authenticator's replay counter; the
  authenticator has nothing left to insert. Both report success; the supplicant goes on waiting for a repetition of message 3.
\<close>

theorem fwh_handshake:
  assumes "auth_fwh_starting acfg i a" and "fwh_party scfg s" and "sc_state (sp_common s) = FWH_STATE_MESSAGE_1" and "c_env scfg = c_env acfg"
    and "pmk (f_keys s) = pmk (f_keys a)" and "c_local scfg = c_remote acfg" and "peer_eui64 acfg (f_keys a) = c_remote acfg"
    and "fwh_settles scfg (f_keys s) (c_local acfg)" and "32 \<le> length (f_random s)" and "gtks_inv (f_gtks s)" and "\<not> f_msg3_retry_wait s"
    and "k1 = snd (sec_prot_keys_pmk_replay_cnt_increment (f_keys a))" and "k2 = snd (sec_prot_keys_pmk_replay_cnt_increment k1)"
    and "sec_prot_keys_pmk_replay_cnt_compare (pmk_key_replay_cnt k1) (f_keys s)"
    and "supp_fwh_sec_prot_recv_replay_cnt_compare (pmk_key_replay_cnt k1) s"
    and "sec_prot_keys_pmk_replay_cnt_compare (pmk_key_replay_cnt k2) (f_keys s)"
  shows "\<exists>a1 s1 s2 a2 s3 a3 h1 h2 h3 h4 rx1 rx2 rx3 rx4 extra t.
    auth_fwh_run acfg a = Some a1 \<and> sp_out a1 = sp_out a @ [Create_conf SEC_RESULT_OK, Send (h1 @ rx1)] \<and>
    supp_fwh_sec_prot_receive (supp_fwh_run scfg) rx1 (word_of_nat (length rx1)) s = Some (0, s1) \<and> sp_out s1 = sp_out s @ [Create_ind] \<and>
    supp_fwh_run scfg (supp_fwh_sec_prot_create_response SEC_RESULT_OK s1) = Some s2 \<and> sp_out s2 = sp_out s1 @ [State_machine_call, Send (h2 @ rx2)] \<and>
    auth_fwh_sec_prot_receive (auth_fwh_run acfg) rx2 (word_of_nat (length rx2)) a1 = Some (0, a2) \<and> sp_out a2 = sp_out a1 @ [Send (h3 @ rx3)] \<and>
    supp_fwh_sec_prot_receive (supp_fwh_run scfg) rx3 (word_of_nat (length rx3)) s2 = Some (0, s3) \<and>
    sp_out s3 = sp_out s2 @ [Send (h4 @ rx4), Finished_ind SEC_RESULT_OK] \<and>
    auth_fwh_sec_prot_receive (auth_fwh_run acfg) rx4 (word_of_nat (length rx4)) a2 = Some (0, a3) \<and>
    sp_out a3 = sp_out a2 @ [Finished_ind SEC_RESULT_OK] @ extra @ [Receive_disable] \<and>
    length h1 = unat (sp_header_size a) \<and> length h2 = unat (sp_header_size s) \<and> length h3 = unat (sp_header_size a) \<and> length h4 = unat (sp_header_size s) \<and>
    sc_state (sp_common a3) = FWH_STATE_FINISHED \<and> sc_state (sp_common s3) = FWH_STATE_MESSAGE_3_RETRY_WAIT \<and>
    t = fwh_ptk (c_env acfg) (pmk (f_keys a)) (c_local acfg) (c_remote acfg) (take 32 (f_random a)) (take 32 (f_random s)) \<and>
    sec_prot_keys_ptk_get (f_keys a3) = Some t \<and> sec_prot_keys_ptk_get (f_keys s3) = Some t \<and>
    sec_prot_keys_ptk_eui_64_get (f_keys a3) = Some (c_local scfg) \<and> sec_prot_keys_ptk_eui_64_get (f_keys s3) = Some (c_local acfg) \<and>
    installed i (gk_key (gtk (f_gtks a) ! i)) (gk_lifetime (gtk (f_gtks a) ! i)) (f_gtks s) (f_gtks s3) \<and>
    gtkl (gtks (f_keys s3)) = sec_prot_keys_fresh_gtkl_get (f_gtks a) \<and>
    pmk_key_replay_cnt (f_keys s3) = pmk_key_replay_cnt (f_keys a3) \<and> gtk_set_index (gtks (f_keys a3)) < 0"
proof -
  let ?an = "take 32 (f_random a)" and ?sn = "take 32 (f_random s)" and ?env = "c_env acfg"
  let ?c1 = "pmk_key_replay_cnt k1" and ?c2 = "pmk_key_replay_cnt k2"
  define t where "t = fwh_ptk ?env (pmk (f_keys a)) (c_local acfg) (c_remote acfg) ?an ?sn"
  have st: "fwh_party acfg a" "fwh_sends_key i a" "sc_state (sp_common a) = FWH_STATE_CREATE_REQ" "sc_result (sp_common a) = SEC_RESULT_OK"
    "sha256_total (c_sha256 acfg)" "rolls_left acfg (3 + 3) a" "32 \<le> length (f_random a)" "length (ins_gtk_hash (gtks (f_keys a))) = 4"
    "gtk_set_index (gtks (f_keys a)) < 4" using assms(1) by (simp_all add: auth_fwh_starting_def)
  note pa = fwh_party_dest [OF st(1)] and ps = fwh_party_dest [OF assms(2)]
  have sk: "i < 4" "gtks_inv (f_gtks a)" "node_role (f_keys a) \<noteq> WS_NR_ROLE_LFN" using st(2) by (simp_all add: fwh_sends_key_def)
  have inc: "sec_prot_keys_pmk_replay_cnt_increment (f_keys a) = (True, k1)" "sec_prot_keys_pmk_replay_cnt_increment k1 = (True, k2)"
    using assms(1,12,13) by (auto simp: auth_fwh_starting_def prod_eq_iff)
  obtain a1 h1 where a1: "auth_fwh_run acfg a = Some a1" "length h1 = unat (sp_header_size a)"
    "sp_out a1 = sp_out a @ [Create_conf SEC_RESULT_OK, Send (h1 @ msg1_wire ?env ?c1 ?an (pmk_name ?env (pmk (f_keys a)) (c_local acfg) (c_remote acfg)))]"
    "sc_state (sp_common a1) = FWH_STATE_MESSAGE_2" "sc_result (sp_common a1) = SEC_RESULT_OK" "f_keys a1 = k1" "f_gtks a1 = f_gtks a"
    "f_nonce a1 = ?an" "f_new_ptk a1 = f_new_ptk a" "sp_header_size a1 = sp_header_size a" "rolls_left acfg 3 a1"
    using auth_fwh_starts [OF st(1,3,6,7) inc(1)] unfolding assms(7) st(4) by auto
  obtain s1 where s1: "supp_fwh_sec_prot_receive (supp_fwh_run scfg) (msg1_wire ?env ?c1 ?an (pmk_name ?env (pmk (f_keys a)) (c_local acfg) (c_remote acfg)))
      (word_of_nat (length (msg1_wire ?env ?c1 ?an (pmk_name ?env (pmk (f_keys a)) (c_local acfg) (c_remote acfg))))) s = Some (0, s1)"
    "sp_out s1 = sp_out s @ [Create_ind]" "sc_state (sp_common s1) = FWH_STATE_CREATE_RESP" "sp_header_size s1 = sp_header_size s" "f_anonce s1 = ?an"
    "f_nonce s1 = ?sn" "f_remote_eui64 s1 = c_local acfg" "f_recv_replay_cnt s1 = ?c1" "f_new_ptk s1 = t" "f_keys s1 = f_keys s" "f_gtks s1 = f_gtks s"
    "\<not> f_msg3_retry_wait s1"
    using supp_fwh_receives_1 [OF assms(2,3,9) _ pa(5) assms(8,14,15), of ?an] assms(11) st(7) pa(5,6) assms(9)
      fwh_ptk_swap [of "c_remote acfg" "c_local acfg" ?sn ?an ?env "pmk (f_keys a)"] unfolding assms(4,5,6) t_def by auto
  have lt: "length t = 48" unfolding t_def by (rule length_fwh_ptk [OF pa(1)])
  obtain h2 d where s2: "length h2 = unat (sp_header_size s)" "sc_state d = FWH_STATE_MESSAGE_3" "sc_result d = SEC_RESULT_OK"
    "supp_fwh_run scfg (supp_fwh_sec_prot_create_response SEC_RESULT_OK s1) = Some (s1\<lparr>sp_common := d, sp_out := sp_out s1 @ [State_machine_call,
      Send (h2 @ reply_wire ?env t FWH_MESSAGE_2 ?c1 ?sn)]\<rparr>)"
    using supp_fwh_message_2 [of scfg s1] ps(1,2) lt s1(3-9) assms(4,9) by auto
  have p1: "fwh_party acfg a1" "fwh_sends_key i a1" using st(1,2) a1(6,7,9) increment_fields [OF inc(1)] pa(3)
    by (auto simp: fwh_party_def fwh_sends_key_def peer_eui64_def)
  have inc1: "sec_prot_keys_pmk_replay_cnt_increment (f_keys a1) = (True, k2)" using inc(2) a1(6) by simp
  have t1: "t = fwh_ptk ?env (pmk (f_keys a1)) (c_local acfg) (c_remote acfg) (f_nonce a1) ?sn"
    using increment_fields(1) [OF inc(1)] by (simp add: t_def a1(6,8))
  obtain a2 h3 where a2: "auth_fwh_sec_prot_receive (auth_fwh_run acfg) (reply_wire ?env t FWH_MESSAGE_2 ?c1 ?sn)
      (word_of_nat (length (reply_wire ?env t FWH_MESSAGE_2 ?c1 ?sn))) a1 = Some (0, a2)" "length h3 = unat (sp_header_size a)"
    "sp_out a2 = sp_out a1 @ [Send (h3 @ msg3_wire ?env t ?c2 ?an (msg1_kdes (f_gtks a) i))]" "sc_state (sp_common a2) = FWH_STATE_MESSAGE_4"
    "sc_result (sp_common a2) = SEC_RESULT_OK" "f_keys a2 = k2" "f_gtks a2 = f_gtks a" "f_new_ptk a2 = t" "f_remote_eui64 a2 = c_remote acfg"
    using auth_fwh_receives_2 [OF p1(1) a1(4,5) _ _ p1(2) a1(11) inc1 t1] st(7) assms(9) unfolding a1(6,7,8,10) by auto
  define q where "q = s1\<lparr>sp_common := d, sp_out := sp_out s1 @ [State_machine_call, Send (h2 @ reply_wire ?env t FWH_MESSAGE_2 ?c1 ?sn)]\<rparr>"
  have q: "f_new_ptk q = t" "f_nonce q = ?sn" "f_anonce q = ?an" "f_remote_eui64 q = c_local acfg" "f_gtks q = f_gtks s" "f_keys q = f_keys s"
    "\<not> f_msg3_retry_wait q" "sc_state (sp_common q) = FWH_STATE_MESSAGE_3" "sc_result (sp_common q) = SEC_RESULT_OK" "sp_header_size q = sp_header_size s"
    "sp_out q = sp_out s1 @ [State_machine_call, Send (h2 @ reply_wire ?env t FWH_MESSAGE_2 ?c1 ?sn)]" using s1 s2(2,3) by (simp_all add: q_def)
  obtain s3 h4 where s3: "supp_fwh_sec_prot_receive (supp_fwh_run scfg) (msg3_wire ?env t ?c2 ?an (msg1_kdes (f_gtks a) i))
      (word_of_nat (length (msg3_wire ?env t ?c2 ?an (msg1_kdes (f_gtks a) i)))) q = Some (0, s3)" "length h4 = unat (sp_header_size s)"
    "sp_out s3 = sp_out q @ [Send (h4 @ reply_wire ?env t FWH_MESSAGE_4 ?c2 ?sn), Finished_ind SEC_RESULT_OK]"
    "sc_state (sp_common s3) = FWH_STATE_MESSAGE_3_RETRY_WAIT"
    "installed i (gk_key (gtk (f_gtks a) ! i)) (gk_lifetime (gtk (f_gtks a) ! i)) (f_gtks s) (f_gtks s3)"
    "gtkl (gtks (f_keys s3)) = sec_prot_keys_fresh_gtkl_get (f_gtks a)" "pmk_key_replay_cnt (f_keys s3) = ?c2"
    "sec_prot_keys_ptk_get (f_keys s3) = Some t" "sec_prot_keys_ptk_eui_64_get (f_keys s3) = Some (c_local acfg)"
    using supp_fwh_receives_3 [OF ps(1,2), of q "f_gtks a" i ?c2] lt q(7,8) st(7) assms(9,10,16) pa(5) sk(1,2)
    unfolding assms(4) q(1-6,9,10) by auto
  obtain a3 extra where a3: "auth_fwh_sec_prot_receive (auth_fwh_run acfg) (reply_wire ?env t FWH_MESSAGE_4 ?c2 ?sn)
      (word_of_nat (length (reply_wire ?env t FWH_MESSAGE_4 ?c2 ?sn))) a2 = Some (0, a3)" "sc_state (sp_common a3) = FWH_STATE_FINISHED"
    "sp_out a3 = sp_out a2 @ [Finished_ind SEC_RESULT_OK] @ extra @ [Receive_disable]" "sec_prot_keys_ptk_get (f_keys a3) = Some t"
    "sec_prot_keys_ptk_eui_64_get (f_keys a3) = Some (c_remote acfg)" "gtk_set_index (gtks (f_keys a3)) < 0" "pmk_key_replay_cnt (f_keys a3) = ?c2"
    using auth_fwh_receives_4 [OF pa(1,2) _ _ a2(4,5) st(5), of ?sn] lt assms(9) sk st(8,9) pa(6) increment_fields [OF inc(1)] increment_fields [OF inc(2)]
    unfolding a2(6,7,8,9) by auto
  have eq: "pmk_key_replay_cnt (f_keys s3) = pmk_key_replay_cnt (f_keys a3)" unfolding s3(7) a3(7) ..
  have eui: "sec_prot_keys_ptk_eui_64_get (f_keys a3) = Some (c_local scfg)" unfolding assms(6) by (rule a3(5))
  show ?thesis
    by (rule exI [of _ a1], rule exI [of _ s1], rule exI [of _ q], rule exI [of _ a2], rule exI [of _ s3], rule exI [of _ a3], (rule exI)+,
        intro conjI; (rule a1 s1 s2(1) s2(4) [folded q_def] q(11) a2 s3 a3 eq eui t_def)?)
qed

definition fwh_cfg_example :: "u8 \<Rightarrow> u8 \<Rightarrow> fwh_cfg" where
  "fwh_cfg_example l r = \<lparr>c_env = env_example, c_sha256 = (\<lambda>_. Some (replicate 32 1)),
     c_trickle = \<lparr>Imin = 10, Imax = 20, redundancy = 0, TimerExpirations = 2\<rparr>, c_local = replicate 8 l, c_remote = replicate 8 r,
     c_retry_timeout = 330, c_ptk_lifetime = 500, c_time_bytes = [0xE8, 3, 0, 0, 0, 0, 0, 0]\<rparr>"

definition fwh_example :: "nat \<Rightarrow> int \<Rightarrow> sec_prot_gtk_keys \<Rightarrow> unit fwh_prot" where
  "fwh_example st idx ks = \<lparr>sp_common = \<lparr>sc_trickle = \<lparr>debug_name = [], tk_c = 0, tk_e = 0, tk_I = 0, tk_t = 0, tk_now = 0\<rparr>, sc_ticks = 60,
       sc_state = st, sc_result = SEC_RESULT_OK, sc_trickle_running = False\<rparr>,
     sp_header_size = 5, sp_completed = True, sp_rolls = replicate 6 0, sp_out = [], f_recv_eapol_pdu = None, f_recv_msg = FWH_MESSAGE_UNKNOWN,
     f_nonce = replicate 32 0, f_new_ptk = replicate 48 0, f_remote_eui64 = replicate 8 0, f_recv_pdu = None, f_recv_size = 0,
     f_keys = (sec_prot_keys_init ())\<lparr>gtks := sec_gtk_zero\<lparr>gtk_set_index := idx\<rparr>, pmk_set := True, pmk_key_replay_cnt_set := True\<rparr>,
     f_gtks = ks, f_lgtks = sec_prot_keys_gtks_init, f_random = replicate 64 (word_of_nat st)\<rparr>"

definition supp_fwh_example :: "nat \<Rightarrow> unit supp_fwh_prot" where
  "supp_fwh_example st = fwh_prot.extend (fwh_example st (-1) sec_prot_keys_gtks_init)
     \<lparr>f_anonce = replicate 32 0, f_recv_replay_cnt = 0, f_msg3_received = False, f_msg3_retry_wait = False, f_recv_replay_cnt_set = False\<rparr>"

lemmas fwh_example_defs = fwh_example_def fwh_cfg_example_def sec_prot_keys_init_def Let_def

lemma example_party: "l \<noteq> r \<Longrightarrow> fwh_party (fwh_cfg_example l r) (fwh_example st idx ks)"
  using env_example_ok by (simp add: fwh_party_def fwh_example_defs PMK_LEN_def peer_eui64_def)

lemma example_supp: "l \<noteq> r \<Longrightarrow> fwh_party (fwh_cfg_example l r) (supp_fwh_example st)"
  using env_example_ok by (simp add: fwh_party_def fwh_example_defs supp_fwh_example_def fwh_prot.defs PMK_LEN_def peer_eui64_def)

lemma example_fwh_starting: "auth_fwh_starting (fwh_cfg_example 1 2) 1 (fwh_example FWH_STATE_CREATE_REQ 1 table12)"
proof -
  let ?p = "fwh_example FWH_STATE_CREATE_REQ 1 table12"
  have "gk_set (gtk table12 ! 1)" "gtks_inv table12" using table12_inv by (simp_all add: table12_def)
  then have "fwh_sends_key 1 ?p" by (simp add: fwh_sends_key_def fwh_example_defs WS_NR_ROLE_LFN_def WS_NR_ROLE_UNKNOWN_def)
  moreover have "rolls_left (fwh_cfg_example 1 2) 6 ?p" by (simp add: rolls_left_def fwh_example_defs wf_params_def good_roll_def list_all_iff)
  moreover have "length (ins_gtk_hash (gtks (f_keys ?p))) = 4" "gtk_set_index (gtks (f_keys ?p)) < 4" "32 \<le> length (f_random ?p)"
    "sc_state (sp_common ?p) = FWH_STATE_CREATE_REQ" "sc_result (sp_common ?p) = SEC_RESULT_OK" "sha256_total (c_sha256 (fwh_cfg_example 1 2))"
    by (simp_all add: fwh_example_defs sec_gtk_zero_def GTK_NUM_def sha256_total_def)
  moreover have "fst (sec_prot_keys_pmk_replay_cnt_increment (f_keys ?p))"
    "fst (sec_prot_keys_pmk_replay_cnt_increment (snd (sec_prot_keys_pmk_replay_cnt_increment (f_keys ?p))))"
    by (simp_all add: fwh_example_defs sec_prot_keys_pmk_replay_cnt_increment_def PMK_KEY_REPLAY_CNT_LIMIT_def PMK_KEY_REPLAY_CNT_LIMIT_MASK_def)
  ultimately show ?thesis using example_party [of 1 2] by (simp add: auth_fwh_starting_def)
qed

theorem fwh_handshake_witness:
  "\<exists>s2 a2 s3 a3 rx3 rx4 t.
    supp_fwh_sec_prot_receive (supp_fwh_run (fwh_cfg_example 2 1)) rx3 (word_of_nat (length rx3)) (s2 :: unit supp_fwh_prot) = Some (0, s3) \<and>
    auth_fwh_sec_prot_receive (auth_fwh_run (fwh_cfg_example 1 2)) rx4 (word_of_nat (length rx4)) (a2 :: unit fwh_prot) = Some (0, a3) \<and>
    sec_prot_keys_ptk_get (f_keys a3) = Some t \<and> sec_prot_keys_ptk_get (f_keys s3) = Some t \<and>
    installed 1 (replicate 16 1) 500 sec_prot_keys_gtks_init (f_gtks s3)"
proof -
  let ?a = "fwh_example FWH_STATE_CREATE_REQ 1 table12" and ?s = "supp_fwh_example FWH_STATE_MESSAGE_1"
  let ?ac = "fwh_cfg_example 1 2" and ?sc = "fwh_cfg_example 2 1"
  have p: "fwh_party ?sc ?s" by (rule example_supp) simp
  have s: "sc_state (sp_common ?s) = FWH_STATE_MESSAGE_1" "c_env ?sc = c_env ?ac" "pmk (f_keys ?s) = pmk (f_keys ?a)" "c_local ?sc = c_remote ?ac"
    "peer_eui64 ?ac (f_keys ?a) = c_remote ?ac" "fwh_settles ?sc (f_keys ?s) (c_local ?ac)" "32 \<le> length (f_random ?s)" "gtks_inv (f_gtks ?s)"
    "\<not> f_msg3_retry_wait ?s"
    using inv_init by (simp_all add: supp_fwh_example_def fwh_prot.defs fwh_example_defs peer_eui64_def fwh_settles_def)
  have c: "sec_prot_keys_pmk_replay_cnt_compare (pmk_key_replay_cnt (snd (sec_prot_keys_pmk_replay_cnt_increment (f_keys ?a)))) (f_keys ?s)"
    "supp_fwh_sec_prot_recv_replay_cnt_compare (pmk_key_replay_cnt (snd (sec_prot_keys_pmk_replay_cnt_increment (f_keys ?a)))) ?s"
    "sec_prot_keys_pmk_replay_cnt_compare (pmk_key_replay_cnt (snd (sec_prot_keys_pmk_replay_cnt_increment
       (snd (sec_prot_keys_pmk_replay_cnt_increment (f_keys ?a)))))) (f_keys ?s)"
    by (simp_all add: supp_fwh_example_def fwh_prot.defs fwh_example_defs sec_prot_keys_pmk_replay_cnt_increment_def
        sec_prot_keys_pmk_replay_cnt_compare_def supp_fwh_sec_prot_recv_replay_cnt_compare_def PMK_KEY_REPLAY_CNT_LIMIT_def PMK_KEY_REPLAY_CNT_LIMIT_MASK_def)
  have g: "f_gtks ?a = table12" "f_gtks ?s = sec_prot_keys_gtks_init" "gk_key (gtk table12 ! 1) = replicate 16 1" "gk_lifetime (gtk table12 ! 1) = 500"
    by (simp_all add: fwh_example_def supp_fwh_example_def fwh_prot.defs table12_def)
  show ?thesis
    using fwh_handshake [OF example_fwh_starting p s refl refl c] unfolding g by (elim exE conjE) (intro exI conjI; assumption)
qed

end
