(* ===== verification/FwhSafety.thy ===== *)
theory FwhSafety
  imports FwhExchange
begin

text \<open>
  What the parties of the four-way handshake refuse: a frame changes the keys of a supplicant, or makes the authenticator go on, only if it
  is authentic; a repeated message 3 does not install the pairwise key again; a supplicant without answers gives up.
\<close>

section \<open>What the operations leave alone\<close>

lemma supp_fwh_send_keeps:
  assumes "supp_fwh_sec_prot_message_send cfg m p = Some p'"
  shows "p' = p \<or> (\<exists>f. p' = emit (Send f) p)"
  using assms by (auto simp: supp_fwh_sec_prot_message_send_def bind_eq_Some_conv Let_def split: prod.splits option.splits)

lemma supp_fwh_try_keeps:
  assumes "supp_fwh_pmkid_try cfg alt x p = Some (r, p')"
  shows "\<exists>e. p' = p\<lparr>f_remote_eui64 := e\<rparr>"
proof -
  obtain c used where c: "sec_prot_lib_pmkid_generate (c_env cfg) (f_keys p) (c_local cfg) (c_remote cfg) False alt = Some (c, used)"
    using assms by (auto simp: supp_fwh_pmkid_try_def bind_eq_Some_conv)
  have "p' = (case used of None \<Rightarrow> p | Some e \<Rightarrow> p\<lparr>f_remote_eui64 := e\<rparr>)"
    using assms c by (cases c) (auto simp: supp_fwh_pmkid_try_def bind_eq_Some_conv Let_def)
  then show ?thesis by (cases used) (auto intro: exI [of _ "f_remote_eui64 p"])
qed

lemma supp_fwh_kde_keeps_1:
  assumes "supp_fwh_kde_handle cfg p = Some (r, p')" and "f_recv_msg p = FWH_MESSAGE_1"
  shows "\<exists>e. p' = p\<lparr>f_remote_eui64 := e\<rparr>"
proof -
  have "p' = p \<or> (\<exists>x r1 q. supp_fwh_pmkid_try cfg False x p = Some (r1, q) \<and> (p' = q \<or> (\<exists>r2. supp_fwh_pmkid_try cfg True x q = Some (r2, p'))))"
    using assms by (auto simp: supp_fwh_kde_handle_def bind_eq_Some_conv split: option.splits if_splits) blast+
  then consider "p' = p" | x r1 q where "supp_fwh_pmkid_try cfg False x p = Some (r1, q)" "p' = q"
    | x r1 q r2 where "supp_fwh_pmkid_try cfg False x p = Some (r1, q)" "supp_fwh_pmkid_try cfg True x q = Some (r2, p')" by blast
  then show ?thesis
  proof cases
    case 1
    then show ?thesis by (intro exI [of _ "f_remote_eui64 p"]) simp
  next
    case 2
    then show ?thesis using supp_fwh_try_keeps [OF 2(1)] by blast
  next
    case 3
    then obtain e e' where "q = p\<lparr>f_remote_eui64 := e\<rparr>" "p' = q\<lparr>f_remote_eui64 := e'\<rparr>" using supp_fwh_try_keeps by blast
    then show ?thesis by (intro exI [of _ e']) simp
  qed
qed

lemma supp_fwh_kde_keeps_3:
  assumes "supp_fwh_kde_handle cfg p = Some (r, p')" and "f_recv_msg p = FWH_MESSAGE_3"
  shows "\<exists>ks lks g lg. p' = p\<lparr>f_gtks := ks, f_lgtks := lks, f_keys := (f_keys p)\<lparr>gtks := g, lgtks := lg\<rparr>\<rparr>"
proof -
  have id: "p = p\<lparr>f_gtks := f_gtks p, f_lgtks := f_lgtks p, f_keys := (f_keys p)\<lparr>gtks := gtks (f_keys p), lgtks := lgtks (f_keys p)\<rparr>\<rparr>"
    "p\<lparr>f_gtks := ks, f_keys := (f_keys p)\<lparr>gtks := g\<rparr>\<rparr> = p\<lparr>f_gtks := ks, f_lgtks := f_lgtks p, f_keys := (f_keys p)\<lparr>gtks := g, lgtks := lgtks (f_keys p)\<rparr>\<rparr>"
    for ks g by simp_all
  obtain pdu kde where k: "f_recv_eapol_pdu p = Some pdu" "sec_prot_lib_message_handle (c_env cfg) (f_new_ptk p) pdu = Some kde"
    using assms(1) by (auto simp: supp_fwh_kde_handle_def bind_eq_Some_conv)
  show ?thesis
  proof (cases kde)
    case None
    then have "p' = p" using assms(1) k by (simp add: supp_fwh_kde_handle_def)
    then show ?thesis using id(1) by blast
  next
    case (Some d)
    obtain ret ks g where g: "sec_prot_lib_gtk_read (fst d) (snd d) (f_gtks p) (gtks (f_keys p)) = Some (ret, ks, g)"
      using assms k Some by (auto simp: supp_fwh_kde_handle_def bind_eq_Some_conv split: prod.splits)
    show ?thesis
    proof (cases "ret < 0")
      case True
      then show ?thesis using assms k Some g by (auto simp: supp_fwh_kde_handle_def bind_eq_Some_conv split: prod.splits)
    next
      case False
      then have "p' = p\<lparr>f_gtks := ks, f_keys := (f_keys p)\<lparr>gtks := g\<rparr>\<rparr>" using assms k Some g by (simp add: supp_fwh_kde_handle_def split: prod.splits)
      then show ?thesis using id(2) by blast
    qed
  qed
qed

lemma supp_fwh_accept_keeps_1:
  "supp_fwh_accept_1 cfg p = Some (b, p') \<Longrightarrow> f_keys p' = f_keys p \<and> f_gtks p' = f_gtks p \<and> f_lgtks p' = f_lgtks p"
  by (auto simp: supp_fwh_accept_1_def supp_fwh_sec_prot_anonce_store_def fwh_nonce_generate_def supp_fwh_sec_prot_ptk_generate_def
      supp_fwh_sec_prot_recv_replay_counter_store_def bind_eq_Some_conv split: if_splits option.splits)

text \<open>The installed pairwise key with all that belongs to it.\<close>

definition ptk_part :: "'c sec_prot_keys \<Rightarrow> u8 list \<times> bool \<times> u32 \<times> u8 list \<times> bool" where
  "ptk_part k = (ptk k, ptk_set k, ptk_lifetime k, ptk_eui_64 k, ptk_eui_64_set k)"

lemma fwh_mic_keeps: "fwh_mic_validate cfg p = Some (r, q) \<Longrightarrow> \<exists>rx. q = p\<lparr>f_recv_pdu := Some rx\<rparr>"
  by (auto simp: fwh_mic_validate_def bind_eq_Some_conv)

text \<open>Message 3 is taken over after three checks; the first two change nothing.\<close>

lemma supp_fwh_accept_3_cases:
  assumes "supp_fwh_accept_3 cfg p = Some (b, p')"
  obtains (mic) r where "fwh_mic_validate cfg p = Some (r, p')" "r < 0" "\<not> b"
  | (nonce) r v where "fwh_mic_validate cfg p = Some (r, p')" "\<not> r < 0" "supp_fwh_sec_prot_anonce_validate p' = Some v" "v < 0" "\<not> b"
  | (kdes) r q v w where "fwh_mic_validate cfg p = Some (r, q)" "\<not> r < 0" "supp_fwh_sec_prot_anonce_validate q = Some v" "\<not> v < 0"
      "supp_fwh_kde_handle cfg q = Some (w, p')" "w < 0" "\<not> b"
  | (taken) r q v w q' where "fwh_mic_validate cfg p = Some (r, q)" "\<not> r < 0" "supp_fwh_sec_prot_anonce_validate q = Some v" "\<not> v < 0"
      "supp_fwh_kde_handle cfg q = Some (w, q')" "\<not> w < 0" "b"
      "supp_fwh_sec_prot_recv_replay_counter_store q' \<bind> supp_fwh_sec_prot_security_replay_counter_update = Some p'"
  using assms unfolding supp_fwh_accept_3_def supp_fwh_sec_prot_mic_validate_def
  by (auto simp: bind_eq_Some_conv split: if_splits)

lemma replay_update_keeps:
  assumes "supp_fwh_sec_prot_recv_replay_counter_store p \<bind> supp_fwh_sec_prot_security_replay_counter_update = Some p'"
  shows "\<exists>c. p' = p\<lparr>f_recv_replay_cnt := c, f_recv_replay_cnt_set := True, f_keys := sec_prot_keys_pmk_replay_cnt_set (f_keys p) c\<rparr>"
  using assms by (auto simp: supp_fwh_sec_prot_recv_replay_counter_store_def supp_fwh_sec_prot_security_replay_counter_update_def bind_eq_Some_conv)

lemma supp_fwh_accept_keeps_3:
  assumes "supp_fwh_accept_3 cfg p = Some (b, p')" and "f_recv_msg p = FWH_MESSAGE_3"
  shows "sp_common p' = sp_common p \<and> sp_out p' = sp_out p \<and> f_new_ptk p' = f_new_ptk p \<and> f_nonce p' = f_nonce p \<and> f_anonce p' = f_anonce p \<and>
    ptk_part (f_keys p') = ptk_part (f_keys p) \<and> pmk (f_keys p') = pmk (f_keys p)"
  using assms(1)
proof (cases rule: supp_fwh_accept_3_cases)
  case (mic r)
  then show ?thesis using fwh_mic_keeps [OF mic(1)] by auto
next
  case (nonce r v)
  then show ?thesis using fwh_mic_keeps [OF nonce(1)] by auto
next
  case (kdes r q v w)
  then obtain rx where q: "q = p\<lparr>f_recv_pdu := Some rx\<rparr>" using fwh_mic_keeps by blast
  then show ?thesis using supp_fwh_kde_keeps_3 [OF kdes(5)] assms(2) by (auto simp: ptk_part_def)
next
  case (taken r q v w q')
  then obtain rx where q: "q = p\<lparr>f_recv_pdu := Some rx\<rparr>" using fwh_mic_keeps by blast
  then show ?thesis
    using supp_fwh_kde_keeps_3 [OF taken(5)] replay_update_keeps [OF taken(8)] assms(2) by (auto simp: ptk_part_def sec_prot_keys_pmk_replay_cnt_set_def)
qed

section \<open>Message 3 on the supplicant\<close>

text \<open>A received frame as the checks see it: an EAPOL-Key frame of the pairwise kind with a valid MIC.\<close>

definition frame_authentic :: "env \<Rightarrow> u8 list \<Rightarrow> u8 list \<Rightarrow> eapol_pdu \<Rightarrow> bool" where
  "frame_authentic env key rx e \<longleftrightarrow> take 16 (drop 81 rx) = take 16 (sha1_mac env (take 16 key)
     (take (unat (packet_length e) + 4) (take 81 rx @ replicate 16 0 @ drop 97 rx)))"

lemma fwh_mic_iff:
  assumes "env_ok (c_env cfg)" and "16 \<le> length (f_new_ptk p)" and "eapol_parse_pdu_header rx n = Some (Some e)" and "msg e = Msg_key k"
    and "length rx = unat n" and "unat n < 256" and "f_recv_eapol_pdu p = Some e" and "f_recv_pdu p = Some rx" and "f_recv_size p = n"
  shows "fwh_mic_validate cfg p = Some (if frame_authentic (c_env cfg) (f_new_ptk p) rx e then 0 else -1,
    p\<lparr>f_recv_pdu := Some (take 81 rx @ replicate 16 0 @ drop 97 rx)\<rparr>)"
proof -
  obtain mic where mic: "key_mic k = Some mic" using parsed_mic [OF assms(3,4)] by blast
  then show ?thesis
    using mic_validate_received [OF assms(1,2,3,4) mic assms(5,6)] assms(4,7,8,9) by (simp add: fwh_mic_validate_def frame_key_def frame_authentic_def)
qed

lemma fwh_receive_cases:
  assumes "fwh_receive message_get sm rx n p = Some (r, p')"
  obtains (refused) "p' = fwh_clear p"
  | (run) e m q where "eapol_parse_pdu_header rx n = Some (Some e)" "message_get p e = Some m" "m \<noteq> FWH_MESSAGE_UNKNOWN"
      "sm (p\<lparr>f_recv_eapol_pdu := Some e, f_recv_msg := m, f_recv_pdu := Some rx, f_recv_size := n\<rparr>) = Some q" "p' = fwh_clear q"
  using assms by (auto simp: fwh_receive_def fwh_clear_def bind_eq_Some_conv Let_def split: option.splits if_splits)

text \<open>The keys of the supplicant and its tables.\<close>

definition fwh_store :: "('c, 'a) fwh_prot_scheme \<Rightarrow> 'c sec_prot_keys \<times> sec_prot_gtk_keys \<times> sec_prot_gtk_keys" where
  "fwh_store p = (f_keys p, f_gtks p, f_lgtks p)"

lemma fwh_store_simps [simp]:
  "fwh_store (fwh_clear p) = fwh_store p" "fwh_store (emit e p) = fwh_store p" "fwh_store (p\<lparr>sp_common := d\<rparr>) = fwh_store p"
  "fwh_store (p\<lparr>f_remote_eui64 := x\<rparr>) = fwh_store p" "fwh_store (p\<lparr>f_recv_pdu := y\<rparr>) = fwh_store p"
  "fwh_store (p\<lparr>f_recv_eapol_pdu := a, f_recv_msg := m, f_recv_pdu := y, f_recv_size := n\<rparr>) = fwh_store p"
  by (simp_all add: fwh_store_def fwh_clear_def emit_def)

lemma accept_1_store: "supp_fwh_accept_1 cfg p = Some (b, p') \<Longrightarrow> fwh_store p' = fwh_store p"
  using supp_fwh_accept_keeps_1 [of cfg p b p'] by (simp add: fwh_store_def)

lemma kde_1_store: "supp_fwh_kde_handle cfg p = Some (r, p') \<Longrightarrow> f_recv_msg p = FWH_MESSAGE_1 \<Longrightarrow> fwh_store p' = fwh_store p \<and> f_recv_msg p' = f_recv_msg p"
  using supp_fwh_kde_keeps_1 [of cfg p r p'] by (auto simp: fwh_store_def)

lemma send_store: "supp_fwh_sec_prot_message_send cfg m p = Some p' \<Longrightarrow> fwh_store p' = fwh_store p"
  using supp_fwh_send_keeps [of cfg m p p'] by auto

lemma state_set_store:
  "st \<noteq> SEC_STATE_FINISH \<Longrightarrow> st \<noteq> SEC_STATE_INIT \<Longrightarrow> sec_prot_state_set sm st p = Some p' \<Longrightarrow> fwh_store p' = fwh_store p"
  by (auto simp: sec_prot_state_set_def fwh_store_def emit_def Let_def split: if_splits)

lemma supp_run_unfold:
  "supp_fwh_run cfg p = supp_fwh_sec_prot_state_machine cfg (Suc (Suc 0)) p" by (simp only: supp_fwh_run_def numeral_2_eq_2)

lemma supp_run_wait_1:
  assumes "sc_state (sp_common p) = FWH_STATE_MESSAGE_1" and "supp_fwh_run cfg p = Some p'"
  shows "fwh_store p' = fwh_store p"
proof (cases "f_recv_msg p = FWH_MESSAGE_1")
  case True
  have "supp_fwh_run cfg p = do { (r, p) \<leftarrow> supp_fwh_kde_handle cfg p;
      if r < 0 then Some p
      else do { (ok, p) \<leftarrow> supp_fwh_accept_1 cfg (upd_common sec_prot_default_timeout_set p);
                if \<not> ok then Some p
                else sec_prot_state_set (supp_fwh_sec_prot_state_machine cfg (Suc 0)) FWH_STATE_CREATE_RESP (emit Create_ind p) } }"
    unfolding supp_run_unfold supp_fwh_sec_prot_state_machine.simps(2) [of cfg "Suc 0"] Let_def using assms(1) True
    by (simp add: sec_prot_state_get_def Let_def del: supp_fwh_sec_prot_state_machine.simps)
  with assms(2) obtain r q where q: "supp_fwh_kde_handle cfg p = Some (r, q)" "p' = q \<or> (\<exists>b q'. supp_fwh_accept_1 cfg (upd_common sec_prot_default_timeout_set q) =
      Some (b, q') \<and> (p' = q' \<or> sec_prot_state_set (supp_fwh_sec_prot_state_machine cfg (Suc 0)) FWH_STATE_CREATE_RESP (emit Create_ind q') = Some p'))"
    by (auto simp: bind_eq_Some_conv ex_bool_eq split: if_splits simp del: supp_fwh_sec_prot_state_machine.simps)
  then show ?thesis
    using kde_1_store [OF q(1) True] accept_1_store state_set_store [of FWH_STATE_CREATE_RESP "supp_fwh_sec_prot_state_machine cfg (Suc 0)"] by fastforce
next
  case False
  then have "p' = p" using assms unfolding supp_run_unfold supp_fwh_sec_prot_state_machine.simps(2) [of cfg "Suc 0"]
    by (simp add: sec_prot_state_get_def Let_def del: supp_fwh_sec_prot_state_machine.simps)
  then show ?thesis by simp
qed

lemma supp_run_again_1:
  assumes "sc_state (sp_common p) = FWH_STATE_MESSAGE_3" and "f_recv_msg p \<noteq> FWH_MESSAGE_3" and "supp_fwh_run cfg p = Some p'"
  shows "fwh_store p' = fwh_store p"
proof (cases "f_recv_msg p = FWH_MESSAGE_1")
  case True
  have "supp_fwh_run cfg p = do { (r, p) \<leftarrow> supp_fwh_kde_handle cfg p;
      if r < 0 then Some p
      else do { (ok, p) \<leftarrow> supp_fwh_accept_1 cfg p;
                if \<not> ok then Some p
                else do { p \<leftarrow> supp_fwh_sec_prot_message_send cfg FWH_MESSAGE_2 p; Some (upd_common (\<lambda>d. d\<lparr>sc_ticks := c_retry_timeout cfg\<rparr>) p) } } }"
    unfolding supp_run_unfold supp_fwh_sec_prot_state_machine.simps(2) [of cfg "Suc 0"] Let_def using assms(1) True
    by (simp add: sec_prot_state_get_def Let_def del: supp_fwh_sec_prot_state_machine.simps)
  with assms(3) obtain r q where q: "supp_fwh_kde_handle cfg p = Some (r, q)" "p' = q \<or> (\<exists>b q'. supp_fwh_accept_1 cfg q = Some (b, q') \<and>
      (p' = q' \<or> (\<exists>q2. supp_fwh_sec_prot_message_send cfg FWH_MESSAGE_2 q' = Some q2 \<and> p' = upd_common (\<lambda>d. d\<lparr>sc_ticks := c_retry_timeout cfg\<rparr>) q2)))"
    by (auto simp: bind_eq_Some_conv ex_bool_eq split: if_splits)
  then show ?thesis using kde_1_store [OF q(1) True] accept_1_store send_store by fastforce
next
  case False
  then have "p' = p" using assms unfolding supp_run_unfold supp_fwh_sec_prot_state_machine.simps(2) [of cfg "Suc 0"]
    by (simp add: sec_prot_state_get_def Let_def del: supp_fwh_sec_prot_state_machine.simps)
  then show ?thesis by simp
qed

lemma supp_run_refuses_3:
  assumes "sc_state (sp_common p) = FWH_STATE_MESSAGE_3 \<or> sc_state (sp_common p) = FWH_STATE_MESSAGE_3_RETRY_WAIT \<and> sc_result (sp_common p) \<noteq> SEC_RESULT_TIMEOUT"
    and "f_recv_msg p = FWH_MESSAGE_3" and "supp_fwh_accept_3 cfg p = Some (False, q)"
  shows "supp_fwh_run cfg p = Some q"
  using assms unfolding supp_fwh_run_def numeral_2_eq_2
  by (auto simp: sec_prot_state_get_def sec_prot_result_timeout_check_def Let_def)

lemma supp_run_retry_other:
  assumes "sc_state (sp_common p) = FWH_STATE_MESSAGE_3_RETRY_WAIT" and "sc_result (sp_common p) \<noteq> SEC_RESULT_TIMEOUT" and "f_recv_msg p \<noteq> FWH_MESSAGE_3"
  shows "supp_fwh_run cfg p = Some p"
  using assms unfolding supp_fwh_run_def numeral_2_eq_2 by (simp add: sec_prot_state_get_def sec_prot_result_timeout_check_def Let_def)

lemma parsed_nonce:
  assumes "eapol_parse_pdu_header rx n = Some (Some e)" and "msg e = Msg_key k"
  obtains q where "key_nonce k = Some q" and "32 \<le> length q"
proof -
  have "\<exists>body. eapol_parse_key_packet body (packet_length e) = Some (Some (Msg_key k))"
    using assms by (auto simp: eapol_parse_pdu_header_def eapol_parse_eap_packet_def bind_eq_Some_conv Let_def split: if_splits option.splits)
  then have "\<exists>q. key_nonce k = Some q \<and> 32 \<le> length q"
    by (auto simp: eapol_parse_key_packet_def read_be16_def load_def bind_eq_Some_conv split: if_splits)
  then show ?thesis using that by blast
qed

text \<open>
  C2. A supplicant takes over keys only from an authentic message 3. Whatever frame (of up to 255 bytes) it receives while it waits for message 1, for
  message 3 or for its repetition: when its keys or key tables change, it was past message 1, and the frame is an EAPOL-Key frame of the pairwise
  kind with encrypted key data, a replay counter it accepts, the authenticator nonce of message 1, and a MIC that is
  HMAC-SHA1 of the frame, with the MIC zeroed, under the key derived from the master key.
\<close>

theorem supp_fwh_authentic:
  assumes "env_ok (c_env cfg)" and "16 \<le> length (f_new_ptk p)"
    and "sc_state (sp_common p) \<in> {FWH_STATE_MESSAGE_1, FWH_STATE_MESSAGE_3, FWH_STATE_MESSAGE_3_RETRY_WAIT}" and "sc_result (sp_common p) \<noteq> SEC_RESULT_TIMEOUT"
    and "length rx = unat n" and "unat n < 256" and "supp_fwh_sec_prot_receive (supp_fwh_run cfg) rx n p = Some (r, p')"
    and "f_keys p' \<noteq> f_keys p \<or> f_gtks p' \<noteq> f_gtks p \<or> f_lgtks p' \<noteq> f_lgtks p"
  shows "sc_state (sp_common p) \<noteq> FWH_STATE_MESSAGE_1 \<and> (\<exists>e k nonce. eapol_parse_pdu_header rx n = Some (Some e) \<and> msg e = Msg_key k \<and>
    pairwise_key (key_information k) \<and> encrypted_key_data (key_information k) \<and> sec_prot_keys_pmk_replay_cnt_compare (replay_counter k) (f_keys p) \<and>
    key_nonce k = Some nonce \<and> take 32 nonce = take 32 (f_anonce p) \<and> frame_authentic (c_env cfg) (f_new_ptk p) rx e)"
proof -
  have ch: "fwh_store p' \<noteq> fwh_store p" using assms(8) by (auto simp: fwh_store_def)
  from assms(7) [unfolded supp_fwh_sec_prot_receive_def] show ?thesis
  proof (cases rule: fwh_receive_cases)
    case refused
    then show ?thesis using ch by simp
  next
    case (run e m q)
    define q0 where "q0 = p\<lparr>f_recv_eapol_pdu := Some e, f_recv_msg := m, f_recv_pdu := Some rx, f_recv_size := n\<rparr>"
    have st: "fwh_store q0 = fwh_store p" "sp_common q0 = sp_common p" "f_recv_msg q0 = m" "f_new_ptk q0 = f_new_ptk p" "f_anonce q0 = f_anonce p"
      "f_recv_eapol_pdu q0 = Some e" "f_recv_pdu q0 = Some rx" "f_recv_size q0 = n" by (simp_all add: q0_def)
    have q: "supp_fwh_run cfg q0 = Some q" "fwh_store q \<noteq> fwh_store q0" using run(4,5) ch st(1) by (simp_all add: q0_def)
    have s1: "sc_state (sp_common p) \<noteq> FWH_STATE_MESSAGE_1" using supp_run_wait_1 [of q0 cfg q] q st(2) by auto
    then have wait: "sc_state (sp_common q0) = FWH_STATE_MESSAGE_3 \<or>
        sc_state (sp_common q0) = FWH_STATE_MESSAGE_3_RETRY_WAIT \<and> sc_result (sp_common q0) \<noteq> SEC_RESULT_TIMEOUT" using assms(3,4) st(2) by auto
    have m3: "m = FWH_MESSAGE_3" using wait supp_run_again_1 [of q0 cfg q] supp_run_retry_other [of q0 cfg] q st(3) by fastforce
    obtain k where k: "msg e = Msg_key k" "pairwise_key (key_information k)" "encrypted_key_data (key_information k)"
      "sec_prot_keys_pmk_replay_cnt_compare (replay_counter k) (f_keys p)"
      using run(2) m3 by (auto simp: supp_fwh_sec_prot_message_get_def frame_key_def Let_def split: eapol_msg.splits if_splits)
    obtain nonce where nonce: "key_nonce k = Some nonce" "32 \<le> length nonce" by (rule parsed_nonce [OF run(1) k(1)])
    let ?auth = "frame_authentic (c_env cfg) (f_new_ptk p) rx e"
    define q1 where "q1 = q0\<lparr>f_recv_pdu := Some (take 81 rx @ replicate 16 0 @ drop 97 rx)\<rparr>"
    have v: "fwh_mic_validate cfg q0 = Some (if ?auth then 0 else -1, q1)"
      using fwh_mic_iff [of cfg q0, OF assms(1) _ run(1) k(1) assms(5,6)] assms(2) st by (simp add: q1_def)
    have same: "fwh_store q1 = fwh_store q0" by (simp add: q1_def)
    have a: ?auth
    proof (rule ccontr)
      assume "\<not> ?auth"
      then have "supp_fwh_accept_3 cfg q0 = Some (False, q1)" using v by (simp add: supp_fwh_accept_3_def supp_fwh_sec_prot_mic_validate_def)
      then show False using supp_run_refuses_3 [OF wait] st(3) m3 q same by simp
    qed
    have "take 32 nonce = take 32 (f_anonce p)"
    proof (rule ccontr)
      assume ne: "take 32 nonce \<noteq> take 32 (f_anonce p)"
      have "f_recv_eapol_pdu q1 = Some e" "f_anonce q1 = f_anonce p" by (simp_all add: q1_def st)
      then have "supp_fwh_sec_prot_anonce_validate q1 = (if 32 \<le> length (f_anonce p) then Some (-1) else None)"
        using ne k(1) nonce memcmp_same(2) [of "take 32 (f_anonce p)" "take 32 nonce"]
        by (auto simp: supp_fwh_sec_prot_anonce_validate_def frame_key_def memcmp_def load_n_def EAPOL_KEY_NONCE_LEN_def)
      then have "supp_fwh_accept_3 cfg q0 = (if 32 \<le> length (f_anonce p) then Some (False, q1) else None)"
        using v a by (simp add: supp_fwh_accept_3_def supp_fwh_sec_prot_mic_validate_def)
      then show False
        using supp_run_refuses_3 [OF wait, of cfg q1] st(3) m3 q same wait
        by (auto simp: supp_run_unfold sec_prot_state_get_def sec_prot_result_timeout_check_def Let_def split: if_splits)
    qed
    then show ?thesis using s1 run(1) k nonce(1) a by blast
  qed
qed

theorem supp_fwh_authentic_witness:
  "\<exists>rx p' e k. supp_fwh_sec_prot_receive (supp_fwh_run (fwh_cfg_example 2 1)) rx 155 (supp_fwh_example FWH_STATE_MESSAGE_3) = Some (0, p') \<and>
    eapol_parse_pdu_header rx 155 = Some (Some e) \<and> msg e = Msg_key k \<and> encrypted_key_data (key_information k) \<and>
    frame_authentic env_example (replicate 48 0) rx e"
proof -
  let ?p = "supp_fwh_example FWH_STATE_MESSAGE_3" and ?cfg = "fwh_cfg_example 2 1"
  define rx where "rx = msg3_wire env_example (replicate 48 0) 1 (replicate 32 0) (msg1_kdes table12 1)"
  have p: "c_env ?cfg = env_example" "f_new_ptk ?p = replicate 48 0" "f_nonce ?p = replicate 32 0" "f_anonce ?p = replicate 32 0"
    "f_remote_eui64 ?p = replicate 8 0" "sc_state (sp_common ?p) = FWH_STATE_MESSAGE_3" "\<not> f_msg3_retry_wait ?p" "f_gtks ?p = sec_prot_keys_gtks_init"
    "sec_prot_keys_pmk_replay_cnt_compare 1 (f_keys ?p)" "sc_result (sp_common ?p) = SEC_RESULT_OK" "sec_prot_keys_ptk_get (f_keys ?p) = None"
    by (simp_all add: supp_fwh_example_def fwh_prot.defs fwh_example_defs sec_prot_keys_pmk_replay_cnt_compare_def sec_prot_keys_ptk_get_def)
  have fits: "kde_fits (FWH_MESSAGE_3 = FWH_MESSAGE_3) (Some (kde_message (msg1_kdes table12 1) 56)) (unat (56 :: u16))"
    using msg3_fits [OF table12_inv(1), of 1] by simp
  have l: "length rx = 155"
    using fwh_received(1) [OF env_example_ok _ _ fits, of "replicate 48 0" "Some (replicate 32 0)" 1] by (simp add: rx_def msg3_wire_def)
  obtain p' where r: "supp_fwh_sec_prot_receive (supp_fwh_run ?cfg) rx 155 ?p = Some (0, p')" "sec_prot_keys_ptk_get (f_keys p') = Some (replicate 48 0)"
    using supp_fwh_receives_3 [of ?cfg ?p table12 1 1, unfolded p(1,2,3,4,5,8), OF env_example_ok] p(6,7,9) inv_init table12_inv(1) l
    by (auto simp: rx_def)
  have n: "length rx = unat (155 :: u16)" using l by simp
  have st: "sc_state (sp_common ?p) \<in> {FWH_STATE_MESSAGE_1, FWH_STATE_MESSAGE_3, FWH_STATE_MESSAGE_3_RETRY_WAIT}"
    "sc_result (sp_common ?p) \<noteq> SEC_RESULT_TIMEOUT" "16 \<le> length (f_new_ptk ?p)" "env_ok (c_env ?cfg)" using p(1,2,6,10) env_example_ok by simp_all
  have ch: "f_keys p' \<noteq> f_keys ?p \<or> f_gtks p' \<noteq> f_gtks ?p \<or> f_lgtks p' \<noteq> f_lgtks ?p" using r(2) p(11) by auto
  have "unat (155 :: u16) < 256" by simp
  from supp_fwh_authentic [OF st(4,3,1,2) n this r(1) ch] show ?thesis using r(1) p(1,2) by auto
qed

section \<open>Repetitions of message 3\<close>

lemma supp_run_retry_taken:
  assumes "sc_state (sp_common p) = FWH_STATE_MESSAGE_3_RETRY_WAIT" and "sc_result (sp_common p) \<noteq> SEC_RESULT_TIMEOUT" and "f_recv_msg p = FWH_MESSAGE_3"
  shows "supp_fwh_run cfg p = do { (ok, p) \<leftarrow> supp_fwh_accept_3 cfg p;
    if \<not> ok then Some p else supp_fwh_sec_prot_message_send cfg FWH_MESSAGE_4 p }"
  using assms unfolding supp_run_unfold supp_fwh_sec_prot_state_machine.simps(2) [of cfg "Suc 0"]
  by (simp add: sec_prot_state_get_def sec_prot_result_timeout_check_def Let_def del: supp_fwh_sec_prot_state_machine.simps)



section \<open>The authenticator\<close>

lemma auth_run_unfold:
  "auth_fwh_run cfg p = auth_fwh_sec_prot_state_machine cfg (Suc (Suc 0)) p" by (simp only: auth_fwh_run_def numeral_2_eq_2)

lemma auth_ptk_generate_fields:
  assumes "auth_fwh_sec_prot_ptk_generate cfg p = Some (r, q)"
  shows "sp_common q = sp_common p \<and> sp_out q = sp_out p \<and> f_recv_eapol_pdu q = f_recv_eapol_pdu p \<and> f_recv_pdu q = f_recv_pdu p \<and> f_recv_size q = f_recv_size p"
  using assms by (auto simp: auth_fwh_sec_prot_ptk_generate_def bind_eq_Some_conv Let_def split: option.splits)

lemma auth_refuses_2:
  assumes "sc_state (sp_common p) = FWH_STATE_MESSAGE_2" and "sc_result (sp_common p) \<noteq> SEC_RESULT_TIMEOUT"
    and "f_recv_msg p \<noteq> FWH_MESSAGE_2 \<and> q = p \<or> f_recv_msg p = FWH_MESSAGE_2 \<and> (\<exists>x. auth_fwh_sec_prot_ptk_generate cfg p = Some (0, x) \<and>
      (\<exists>y. auth_fwh_sec_prot_mic_validate cfg x = Some (-1, y) \<and> q = y\<lparr>f_new_ptk := replicate PTK_LEN 0\<rparr>))"
  shows "auth_fwh_run cfg p = Some q"
  using assms unfolding auth_run_unfold auth_fwh_sec_prot_state_machine.simps(2) [of cfg "Suc 0"]
  by (auto simp: sec_prot_state_get_def sec_prot_result_timeout_check_def Let_def simp del: auth_fwh_sec_prot_state_machine.simps)

lemma auth_refuses_4:
  assumes "sc_state (sp_common p) = FWH_STATE_MESSAGE_4" and "sc_result (sp_common p) \<noteq> SEC_RESULT_TIMEOUT"
    and "f_recv_msg p \<noteq> FWH_MESSAGE_4 \<and> q = p \<or> f_recv_msg p = FWH_MESSAGE_4 \<and> auth_fwh_sec_prot_mic_validate cfg p = Some (-1, q)"
  shows "auth_fwh_run cfg p = Some q"
  using assms unfolding auth_run_unfold auth_fwh_sec_prot_state_machine.simps(2) [of cfg "Suc 0"]
  by (auto simp: sec_prot_state_get_def sec_prot_result_timeout_check_def Let_def simp del: auth_fwh_sec_prot_state_machine.simps)

text \<open>
  C4. The authenticator goes on only after an authentic message. Whatever frame (of up to 255 bytes) it receives while it waits for message 2
  or message 4: when it sends, reports or changes state, the frame is an EAPOL-Key frame of the pairwise kind with the replay
  counter of its last message, and a MIC that is HMAC-SHA1 of the frame under the transient key; for message 2 this is the key derived from the master
  key, the two addresses, its own nonce and the nonce in the frame, for message 4 the one derived before.
\<close>

theorem auth_fwh_authentic:
  assumes "fwh_party cfg p" and "length (f_nonce p) = 32" and "sc_state (sp_common p) \<in> {FWH_STATE_MESSAGE_2, FWH_STATE_MESSAGE_4}"
    and "sc_result (sp_common p) \<noteq> SEC_RESULT_TIMEOUT" and "length rx = unat n" and "unat n < 256"
    and "auth_fwh_sec_prot_receive (auth_fwh_run cfg) rx n p = Some (r, p')" and "sp_out p' \<noteq> sp_out p \<or> sp_common p' \<noteq> sp_common p"
  shows "\<exists>e k nonce. eapol_parse_pdu_header rx n = Some (Some e) \<and> msg e = Msg_key k \<and> pairwise_key (key_information k) \<and>
    replay_counter k = pmk_key_replay_cnt (f_keys p) \<and> key_nonce k = Some nonce \<and> frame_authentic (c_env cfg)
      (if sc_state (sp_common p) = FWH_STATE_MESSAGE_2
       then fwh_ptk (c_env cfg) (pmk (f_keys p)) (c_local cfg) (c_remote cfg) (f_nonce p) (take 32 nonce) else f_new_ptk p) rx e"
  using assms(7) [unfolded auth_fwh_sec_prot_receive_def]
proof (cases rule: fwh_receive_cases)
  case refused
  then show ?thesis using assms(8) by (simp add: fwh_clear_def)
next
  case (run e m q)
  note party = fwh_party_dest [OF assms(1)]
  define q0 where "q0 = p\<lparr>f_recv_eapol_pdu := Some e, f_recv_msg := m, f_recv_pdu := Some rx, f_recv_size := n\<rparr>"
  have st: "sp_common q0 = sp_common p" "f_recv_msg q0 = m" "f_new_ptk q0 = f_new_ptk p" "f_keys q0 = f_keys p" "sp_out q0 = sp_out p" "f_nonce q0 = f_nonce p"
    "f_recv_eapol_pdu q0 = Some e" "f_recv_pdu q0 = Some rx" "f_recv_size q0 = n" by (simp_all add: q0_def)
  have q: "auth_fwh_run cfg q0 = Some q" "sp_out q \<noteq> sp_out q0 \<or> sp_common q \<noteq> sp_common q0"
    using run(4,5) assms(8) by (simp_all add: q0_def fwh_clear_def)
  obtain k where k: "msg e = Msg_key k" "frame_key e = Some k" "pairwise_key (key_information k)" "replay_counter k = pmk_key_replay_cnt (f_keys p)"
    using run(2,3) by (auto simp: auth_fwh_sec_prot_message_get_def frame_key_def sec_prot_keys_pmk_replay_cnt_get_def Let_def
        split: eapol_msg.splits if_splits)
  obtain nonce where nonce: "key_nonce k = Some nonce" "32 \<le> length nonce" by (rule parsed_nonce [OF run(1) k(1)])
  let ?z = "take 81 rx @ replicate 16 0 @ drop 97 rx"
  show ?thesis
  proof (cases "sc_state (sp_common p) = FWH_STATE_MESSAGE_2")
    case True
    let ?t = "fwh_ptk (c_env cfg) (pmk (f_keys p)) (c_local cfg) (c_remote cfg) (f_nonce p) (take 32 nonce)"
    have m: "m = FWH_MESSAGE_2" using auth_refuses_2 [of q0 q0 cfg] q st True assms(4) by auto
    define q1 where "q1 = q0\<lparr>f_remote_eui64 := c_remote cfg, f_new_ptk := ?t\<rparr>"
    have "fwh_party cfg q0" using assms(1) by (simp add: fwh_party_def st)
    then have gen: "auth_fwh_sec_prot_ptk_generate cfg q0 = Some (0, q1)"
      using auth_fwh_makes_ptk [of cfg q0 e k "take 32 nonce" "drop 32 nonce"] assms(2) st k(2) nonce by (simp add: q1_def)
    have sel: "f_recv_eapol_pdu q1 = Some e" "f_recv_pdu q1 = Some rx" "f_recv_size q1 = n" "f_new_ptk q1 = ?t" by (simp_all add: q1_def st)
    have "16 \<le> length ?t" using length_fwh_ptk [OF party(1)] by simp
    then have v: "auth_fwh_sec_prot_mic_validate cfg q1 = Some (if frame_authentic (c_env cfg) ?t rx e then 0 else -1, q1\<lparr>f_recv_pdu := Some ?z\<rparr>)"
      using fwh_mic_iff [of cfg q1, OF party(1) _ run(1) k(1) assms(5,6)] sel by (simp add: auth_fwh_sec_prot_mic_validate_def)
    have "frame_authentic (c_env cfg) ?t rx e"
    proof (rule ccontr)
      assume "\<not> ?thesis"
      then have "auth_fwh_run cfg q0 = Some (q1\<lparr>f_recv_pdu := Some ?z, f_new_ptk := replicate PTK_LEN 0\<rparr>)"
        using auth_refuses_2 [of q0 _ cfg] st True m assms(4) gen v by auto
      then show False using q by (auto simp: q1_def)
    qed
    then show ?thesis using run(1) k(1,3,4) nonce(1) True by auto
  next
    case False
    then have s4: "sc_state (sp_common p) = FWH_STATE_MESSAGE_4" using assms(3) by simp
    have m: "m = FWH_MESSAGE_4" using auth_refuses_4 [of q0 q0 cfg] q st s4 assms(4) by auto
    have v: "auth_fwh_sec_prot_mic_validate cfg q0 = Some (if frame_authentic (c_env cfg) (f_new_ptk p) rx e then 0 else -1, q0\<lparr>f_recv_pdu := Some ?z\<rparr>)"
      using fwh_mic_iff [of cfg q0, OF party(1) _ run(1) k(1) assms(5,6)] st party(8) by (simp add: auth_fwh_sec_prot_mic_validate_def)
    have "frame_authentic (c_env cfg) (f_new_ptk p) rx e"
    proof (rule ccontr)
      assume "\<not> ?thesis"
      then have "auth_fwh_run cfg q0 = Some (q0\<lparr>f_recv_pdu := Some ?z\<rparr>)" using auth_refuses_4 [of q0 _ cfg] st s4 m assms(4) v by auto
      then show False using q by auto
    qed
    then show ?thesis using run(1) k(1,3,4) nonce(1) False by auto
  qed
qed

theorem auth_fwh_authentic_witness:
  "\<exists>rx p' e. auth_fwh_sec_prot_receive (auth_fwh_run (fwh_cfg_example 1 2)) rx 99 (fwh_example FWH_STATE_MESSAGE_4 1 table12) = Some (0, p') \<and>
    sc_state (sp_common p') = FWH_STATE_FINISHED \<and> eapol_parse_pdu_header rx 99 = Some (Some e) \<and>
    frame_authentic env_example (replicate 48 0) rx e"
proof -
  let ?p = "fwh_example FWH_STATE_MESSAGE_4 1 table12" and ?cfg = "fwh_cfg_example 1 2"
  define rx where "rx = reply_wire env_example (replicate 48 0) FWH_MESSAGE_4 0 (replicate 32 0)"
  have p: "c_env ?cfg = env_example" "f_new_ptk ?p = replicate 48 0" "f_nonce ?p = replicate 32 0" "sc_state (sp_common ?p) = FWH_STATE_MESSAGE_4"
    "sc_result (sp_common ?p) = SEC_RESULT_OK" "sha256_total (c_sha256 ?cfg)" "node_role (f_keys ?p) \<noteq> WS_NR_ROLE_LFN" "gtks_inv (f_gtks ?p)"
    "length (ins_gtk_hash (gtks (f_keys ?p))) = 4" "gtk_set_index (gtks (f_keys ?p)) < 4" "length (f_remote_eui64 ?p) = 8" "pmk_key_replay_cnt (f_keys ?p) = 0"
    using table12_inv by (simp_all add: fwh_example_defs sec_gtk_zero_def GTK_NUM_def sha256_total_def WS_NR_ROLE_LFN_def WS_NR_ROLE_UNKNOWN_def)
  have fits: "kde_fits (FWH_MESSAGE_4 = FWH_MESSAGE_3) None (unat (0 :: u16))" by (simp add: kde_fits_def)
  have l: "length rx = 99"
    using fwh_received(1) [OF env_example_ok _ _ fits, of "replicate 48 0" None 0] by (simp add: rx_def reply_wire_def)
  obtain p' where r: "auth_fwh_sec_prot_receive (auth_fwh_run ?cfg) rx 99 ?p = Some (0, p')" "sc_state (sp_common p') = FWH_STATE_FINISHED"
    using auth_fwh_receives_4 [of ?cfg ?p "replicate 32 0", unfolded p(1,2,12), OF env_example_ok _ _ p(4-11)] l by (auto simp: rx_def)
  have n: "length rx = unat (99 :: u16)" using l by simp
  have st: "sc_state (sp_common ?p) \<in> {FWH_STATE_MESSAGE_2, FWH_STATE_MESSAGE_4}" "sc_result (sp_common ?p) \<noteq> SEC_RESULT_TIMEOUT" "length (f_nonce ?p) = 32"
    using p(3,4,5) by simp_all
  have ch: "sp_out p' \<noteq> sp_out ?p \<or> sp_common p' \<noteq> sp_common ?p" using r(2) p(4) by auto
  have party: "fwh_party ?cfg ?p" by (rule example_party) simp
  have "unat (99 :: u16) < 256" by simp
  from auth_fwh_authentic [OF party st(3,1,2) n this r(1) ch] show ?thesis using r p(1,2,4) by auto
qed

section \<open>Giving up\<close>

text \<open>
  A supplicant that has not accepted message 3 reports when its time is over; one that waits for repetitions of it has
  reported before and ends in silence.
\<close>

interpretation supp_fwh: sec_protocol "supp_fwh_run cfg" "\<lambda>p. f_msg3_retry_wait p \<or> \<not> f_msg3_received p" f_msg3_retry_wait for cfg
proof
  fix p q :: "'c supp_fwh_prot"
  assume "sec_prot.more p = sec_prot.more q"
  then show "(f_msg3_retry_wait p \<or> \<not> f_msg3_received p) = (f_msg3_retry_wait q \<or> \<not> f_msg3_received q) \<and> f_msg3_retry_wait p = f_msg3_retry_wait q"
    by (cases p; cases q) simp
next
  fix p :: "'c supp_fwh_prot"
  assume "sc_state (sp_common p) = SEC_STATE_FINISH" and "f_msg3_retry_wait p \<or> \<not> f_msg3_received p"
  then show "\<exists>p'. supp_fwh_run cfg p = Some p' \<and> sc_state (sp_common p') = SEC_STATE_FINISHED \<and> sc_ticks (sp_common p') = SEC_FINISHED_TIMEOUT \<and>
      sec_prot.more p' = sec_prot.more p \<and>
      sp_out p' = sp_out p @ (if f_msg3_retry_wait p then [] else [Finished_ind (sc_result (sp_common p))]) @ [Receive_disable]"
    by (auto simp: supp_run_unfold sec_prot_defs sec_prot_state_set_def Let_def)
next
  fix p :: "'c supp_fwh_prot"
  assume "sc_state (sp_common p) = SEC_STATE_FINISHED"
  then show "\<exists>p'. supp_fwh_run cfg p = Some p' \<and> sp_common p' = sp_common p \<and> sp_out p' = sp_out p @ [Timer_stop, Finished] \<and>
      sec_prot.more p' = sec_prot.more p"
    by (simp add: supp_run_unfold sec_prot_defs Let_def)
qed

lemma more_store: "sec_prot.more (p :: 'c supp_fwh_prot) = sec_prot.more q \<Longrightarrow> f_keys p = f_keys q \<and> f_gtks p = f_gtks q \<and> f_lgtks p = f_lgtks q"
  by (cases p; cases q) simp

text \<open>
  C18. A supplicant that hears nothing more gives up: when its timer has run out it is in the state finished with receiving disabled. If it had
  started and not accepted a message 3 it has reported a time-out; if it waited for a repetition of message 3 it ends without
  a report, since it had reported success. After another five seconds it stops its timer and asks to be deleted. Its keys are left alone.
\<close>

theorem supp_fwh_gives_up:
  assumes "sc_state (sp_common p) \<noteq> FWH_STATE_FINISHED" and "f_msg3_retry_wait p \<or> \<not> f_msg3_received p"
  defines "n \<equiv> max 1 (unat (sc_ticks (sp_common p)))"
  shows "\<exists>p1 p2. wait_ticks (supp_fwh_sec_prot_timer_timeout (supp_fwh_run cfg) 1) n p = Some p1 \<and> sc_state (sp_common p1) = FWH_STATE_FINISHED \<and>
    sp_out p1 = sp_out p @ (if sc_state (sp_common p) = FWH_STATE_INIT \<or> f_msg3_retry_wait p then [Receive_disable]
      else [Finished_ind SEC_RESULT_TIMEOUT, Receive_disable]) \<and>
    wait_ticks (supp_fwh_sec_prot_timer_timeout (supp_fwh_run cfg) 1) (n + 50) p = Some p2 \<and> sp_out p2 = sp_out p1 @ [Timer_stop, Finished] \<and>
    f_keys p2 = f_keys p \<and> f_gtks p2 = f_gtks p \<and> f_lgtks p2 = f_lgtks p"
  using supp_fwh.gives_up [OF assms(1,2), of cfg] unfolding n_def supp_fwh_sec_prot_timer_timeout_def [symmetric]
  by (auto dest: more_store)

theorem supp_fwh_gives_up_witness:
  "\<exists>p2. wait_ticks (supp_fwh_sec_prot_timer_timeout (supp_fwh_run (fwh_cfg_example 2 1)) 1) 110 (supp_fwh_example FWH_STATE_MESSAGE_3) = Some p2 \<and>
    sp_out p2 = [Finished_ind SEC_RESULT_TIMEOUT, Receive_disable, Timer_stop, Finished]"
  using supp_fwh_gives_up [of "supp_fwh_example FWH_STATE_MESSAGE_3" "fwh_cfg_example 2 1"]
  by (auto simp: supp_fwh_example_def fwh_prot.defs fwh_example_def)


end
