(* ===== verification/Buffer.thy ===== *)
theory Buffer
  imports Ptr
begin

text \<open>
  \<open>src/stack/source/core/ns_buffer.c\<close> and \<open>ns_buffer.h\<close>: the packet buffers of the stack, and the address type of
  \<open>src/stack/source/core/ns_address_internal.h\<close>. A buffer is one allocation: metadata, then \<open>size\<close> bytes of which those from
  \<open>buf_ptr\<close> to \<open>buf_end\<close> are the packet, with headroom in front for headers and tailroom behind. The 16 bit
  indexes are natural numbers, reduced where C stores them.

  \<open>buffer_ok\<close> is the invariant \<open>buffer_corrupt_check\<close> tests and \<open>buffer_data\<close> the packet; the operations are shown to
  take bytes off, put room before and append to it.
\<close>

section \<open>Addresses\<close>

datatype addrtype = ADDR_NONE | ADDR_802_15_4_SHORT | ADDR_802_15_4_LONG | ADDR_IPV6 | ADDR_BROADCAST | ADDR_EUI_48

record sockaddr =
  addr_type :: addrtype
  address :: "u8 list"
  port :: u16

definition ADDR_SIZE :: nat where
  "ADDR_SIZE = 16"

definition addr_len_from_type :: "addrtype \<Rightarrow> nat" where
  "addr_len_from_type t = (case t of ADDR_NONE \<Rightarrow> 0 | ADDR_802_15_4_SHORT \<Rightarrow> 2 + 2 | ADDR_802_15_4_LONG \<Rightarrow> 2 + 8
     | ADDR_EUI_48 \<Rightarrow> 6 | ADDR_IPV6 \<Rightarrow> 16 | ADDR_BROADCAST \<Rightarrow> 0)"

definition ADDR_SHORT_ADR_SUFFIC :: "u8 list" where
  "ADDR_SHORT_ADR_SUFFIC = [0x00, 0x00, 0x00, 0xff, 0xfe, 0x00]"

definition ADDR_LINK_LOCAL_PREFIX :: "u8 list" where
  "ADDR_LINK_LOCAL_PREFIX = [0xfe, 0x80, 0, 0, 0, 0, 0, 0]"

definition ADDR_LINK_LOCAL_ALL_NODES :: "u8 list" where
  "ADDR_LINK_LOCAL_ALL_NODES = [0xff, 0x02, 0, 0, 0, 0, 0, 0, 0, 0, 0, 0, 0, 0, 0, 0x01]"

text \<open>The interface identifier of a link layer address; \<open>Some None\<close> is the return value \<open>false\<close>.\<close>

definition addr_iid_from_outer :: "sockaddr \<Rightarrow> u8 list option option" where
  "addr_iid_from_outer sa = (case addr_type sa of
       ADDR_802_15_4_LONG \<Rightarrow> do { iid \<leftarrow> load_n (address sa) 2 8; b \<leftarrow> load iid 0; iid \<leftarrow> store iid 0 (b XOR 2); Some (Some iid) }
     | ADDR_BROADCAST \<Rightarrow> do { a \<leftarrow> load (address sa) 2; b \<leftarrow> load (address sa) 3; Some (Some (ADDR_SHORT_ADR_SUFFIC @ [a, b])) }
     | ADDR_802_15_4_SHORT \<Rightarrow> do { a \<leftarrow> load (address sa) 2; b \<leftarrow> load (address sa) 3; Some (Some (ADDR_SHORT_ADR_SUFFIC @ [a, b])) }
     | ADDR_IPV6 \<Rightarrow> do { iid \<leftarrow> load_n (address sa) 8 8; Some (Some iid) }
     | _ \<Rightarrow> Some None)"

definition sockaddr_ok :: "sockaddr \<Rightarrow> bool" where
  "sockaddr_ok sa \<longleftrightarrow> length (address sa) = ADDR_SIZE"

lemma addr_iid_returns:
  assumes "sockaddr_ok sa"
  shows "\<exists>r. addr_iid_from_outer sa = Some r \<and> (\<forall>iid. r = Some iid \<longrightarrow> length iid = 8)"
  using assms by (cases "addr_type sa")
    (auto simp: addr_iid_from_outer_def sockaddr_ok_def ADDR_SIZE_def load_def load_n_def store_def ADDR_SHORT_ADR_SUFFIC_def)

section \<open>Buffers\<close>

text \<open>
  The fields of \<open>buffer_t\<close> the modelled code reads or writes. \<open>b_predecessor\<close>, \<open>b_rpl_option\<close> and \<open>b_socket\<close> are owned
  pointers (the socket is named by a number); the routing information, which buffers share by counting references, is left out.
\<close>

record buffer =
  b_dst_sa :: sockaddr
  b_src_sa :: sockaddr
  b_predecessor :: "sockaddr option"
  b_socket :: "nat option"
  b_info :: u16
  b_seq :: u8
  b_ptr :: nat
  b_end :: nat
  b_size :: nat
  b_rpl_instance :: u8
  b_rpl_instance_known :: bool
  b_ip_routed_up :: bool
  b_rpl_flag_error :: u8
  b_timestamp :: u32
  b_rpl_option :: "u8 list option"
  b_priority :: nat
  b_default_pan :: bool
  b_request_ack :: bool
  b_hop_limit :: u8
  b_ll_security_bypass_rx :: bool
  b_ll_security_bypass_tx :: bool
  b_ll_sec_bypass_frag_deny :: bool
  b_tunnelled :: bool
  b_need_predecessor :: bool
  b_multicast_loop :: bool
  b_mpl_permitted :: bool
  b_edfe_mode :: bool
  b_traffic_class :: u8
  b_flow_label :: int
  b_buf :: "u8 list"

definition BUFFER_DEFAULT_HEADROOM :: nat where
  "BUFFER_DEFAULT_HEADROOM = 40"

definition BUFFER_DEFAULT_MIN_SIZE :: nat where
  "BUFFER_DEFAULT_MIN_SIZE = 127"

definition BUFFER_MAX_SIZE :: nat where
  "BUFFER_MAX_SIZE = 0xFFFF"

definition B_DIR_UP :: u16 where
  "B_DIR_UP = 0x0800"

definition B_FROM_FRAGMENTATION :: u16 where
  "B_FROM_FRAGMENTATION = 0x0060"

definition B_TO_IPV6_TXRX :: u16 where
  "B_TO_IPV6_TXRX = 0x0009"

text \<open>\<open>buffer_data_length\<close> is an \<open>int\<close>: negative when \<open>buf_ptr\<close> is behind \<open>buf_end\<close>.\<close>

definition buffer_data_length :: "buffer \<Rightarrow> int" where
  "buffer_data_length b = int (b_end b) - int (b_ptr b)"

text \<open>\<open>BUG()\<close> on a corrupt buffer.\<close>

definition buffer_corrupt_check :: "buffer \<Rightarrow> buffer option" where
  "buffer_corrupt_check b = (if b_ptr b > b_end b \<or> b_end b > b_size b then None else Some b)"

text \<open>\<open>alloc\<close> is \<open>malloc\<close> of the trailing byte array: bytes of any value, or nothing.\<close>

definition sockaddr_zero :: sockaddr where
  "sockaddr_zero = \<lparr>addr_type = ADDR_NONE, address = replicate ADDR_SIZE 0, port = 0\<rparr>"

definition buffer_get_specific :: "(nat \<Rightarrow> u8 list option) \<Rightarrow> nat \<Rightarrow> nat \<Rightarrow> nat \<Rightarrow> buffer option" where
  "buffer_get_specific alloc headroom sz minspace =
     (let total_size = headroom + sz;
          total_size = (if total_size < minspace then minspace else total_size);
          total_size = (total_size + 3) div 4 * 4
      in if total_size \<le> BUFFER_MAX_SIZE
         then map_option (\<lambda>m. \<lparr>b_dst_sa = sockaddr_zero, b_src_sa = sockaddr_zero, b_predecessor = None, b_socket = None, b_info = 0, b_seq = 0,
             b_ptr = total_size - sz, b_end = total_size - sz, b_size = total_size, b_rpl_instance = 0xff, b_rpl_instance_known = False, b_ip_routed_up = False, b_rpl_flag_error = 0, b_timestamp = 0,
             b_rpl_option = None, b_priority = 0, b_default_pan = True, b_request_ack = False, b_hop_limit = 255, b_ll_security_bypass_rx = False, b_ll_security_bypass_tx = False,
             b_ll_sec_bypass_frag_deny = False, b_tunnelled = False, b_need_predecessor = False, b_multicast_loop = False, b_mpl_permitted = True,
             b_edfe_mode = False, b_traffic_class = 0, b_flow_label = -1, b_buf = m\<rparr>) (alloc total_size)
         else None)"

definition buffer_get :: "(nat \<Rightarrow> u8 list option) \<Rightarrow> nat \<Rightarrow> buffer option" where
  "buffer_get alloc sz = buffer_get_specific alloc BUFFER_DEFAULT_HEADROOM sz BUFFER_DEFAULT_MIN_SIZE"

definition buffer_get_minimal :: "(nat \<Rightarrow> u8 list option) \<Rightarrow> nat \<Rightarrow> buffer option" where
  "buffer_get_minimal alloc sz = buffer_get_specific alloc 0 sz 0"

definition buffer_data_pointer_set :: "buffer \<Rightarrow> nat \<Rightarrow> buffer" where
  "buffer_data_pointer_set b p = b\<lparr>b_ptr := p mod 65536\<rparr>"

definition buffer_data_length_set :: "buffer \<Rightarrow> nat \<Rightarrow> buffer" where
  "buffer_data_length_set b z = b\<lparr>b_end := (b_ptr b + z) mod 65536\<rparr>"

definition buffer_data_strip_header :: "buffer \<Rightarrow> nat \<Rightarrow> buffer option" where
  "buffer_data_strip_header b z = buffer_corrupt_check (b\<lparr>b_ptr := (b_ptr b + z) mod 65536\<rparr>)"

definition buffer_data_reserve_header :: "buffer \<Rightarrow> nat \<Rightarrow> buffer option" where
  "buffer_data_reserve_header b z = buffer_corrupt_check (b\<lparr>b_ptr := (b_ptr b + 65536 - z) mod 65536\<rparr>)"

text \<open>
  \<open>buffer_headroom\<close> ends with \<open>buffer_corrupt_check\<close>, on a buffer or on \<open>NULL\<close>; \<open>Some None\<close> is the return value
  \<open>NULL\<close> after the buffer was freed.
\<close>

definition buffer_headroom :: "(nat \<Rightarrow> u8 list option) \<Rightarrow> buffer \<Rightarrow> nat \<Rightarrow> buffer option option" where
  "buffer_headroom alloc b sz =
     (let curr_len = nat (buffer_data_length b) mod 65536 in
      if b_size b < curr_len + sz then
        (let new_total = (curr_len + sz + 3) div 4 * 4 in
         case (if new_total \<le> BUFFER_MAX_SIZE then alloc new_total else None) of
           None \<Rightarrow> Some None
         | Some m \<Rightarrow> do { bs \<leftarrow> load_n (b_buf b) (b_ptr b) curr_len;
                           m \<leftarrow> store_n m sz bs;
                           b \<leftarrow> buffer_corrupt_check (b\<lparr>b_ptr := sz, b_end := (sz + curr_len) mod 65536, b_size := new_total, b_buf := m\<rparr>);
                           Some (Some b) })
      else if b_ptr b < sz then
        do { bs \<leftarrow> load_n (b_buf b) (b_ptr b) curr_len;
             m \<leftarrow> (if curr_len \<noteq> 0 then store_n (b_buf b) sz bs else Some (b_buf b));
             b \<leftarrow> buffer_corrupt_check (b\<lparr>b_ptr := sz, b_end := (sz + curr_len) mod 65536, b_buf := m\<rparr>);
             Some (Some b) }
      else do { b \<leftarrow> buffer_corrupt_check b; Some (Some b) })"

definition buffer_data_add :: "buffer \<Rightarrow> u8 list \<Rightarrow> buffer option" where
  "buffer_data_add b bs = do { m \<leftarrow> store_n (b_buf b) (b_end b) bs;
     buffer_corrupt_check (b\<lparr>b_buf := m, b_end := (b_end b + length bs) mod 65536\<rparr>) }"

text \<open>The two buffers after the copy, destination first.\<close>

definition buffer_copy_metadata :: "buffer \<Rightarrow> buffer \<Rightarrow> bool \<Rightarrow> buffer \<times> buffer" where
  "buffer_copy_metadata dst src non_clonable_to_dst =
     (let d = src\<lparr>b_size := b_size dst, b_ptr := b_ptr dst, b_end := b_end dst, b_buf := b_buf dst\<rparr>;
          wipe = (\<lambda>b. b\<lparr>b_rpl_option := None, b_predecessor := None, b_socket := None\<rparr>)
      in if non_clonable_to_dst then (d, wipe src) else (wipe d, src))"

definition buffer_clone :: "(nat \<Rightarrow> u8 list option) \<Rightarrow> buffer \<Rightarrow> buffer option option" where
  "buffer_clone alloc b =
     (case buffer_get alloc (nat (buffer_data_length b) mod 65536) of None \<Rightarrow> Some None
      | Some r \<Rightarrow> do { bs \<leftarrow> load_n (b_buf b) (b_ptr b) (nat (buffer_data_length b));
          r \<leftarrow> buffer_data_add (b\<lparr>b_predecessor := None, b_socket := None, b_multicast_loop := False, b_rpl_option := None,
                 b_ptr := b_ptr r, b_end := b_end r, b_size := b_size r, b_buf := b_buf r\<rparr>) bs;
          Some (Some r) })"

definition buffer_turnaround :: "buffer \<Rightarrow> buffer" where
  "buffer_turnaround b = b\<lparr>b_predecessor := None, b_rpl_option := None, b_tunnelled := False, b_rpl_flag_error := 0, b_rpl_instance_known := False,
     b_default_pan := True, b_socket := None\<rparr>"

text \<open>\<open>room\<close> tells whether \<open>malloc\<close> of the copy succeeds.\<close>

definition buffer_note_predecessor :: "bool \<Rightarrow> buffer \<Rightarrow> sockaddr \<Rightarrow> buffer" where
  "buffer_note_predecessor room b addr = (if b_need_predecessor b \<and> b_predecessor b = None then (if room then b\<lparr>b_predecessor := Some addr\<rparr> else b) else b)"

section \<open>The packet in a buffer\<close>

definition buffer_ok :: "buffer \<Rightarrow> bool" where
  "buffer_ok b \<longleftrightarrow> b_ptr b \<le> b_end b \<and> b_end b \<le> b_size b \<and> b_size b \<le> BUFFER_MAX_SIZE \<and> length (b_buf b) = b_size b \<and>
     sockaddr_ok (b_src_sa b) \<and> sockaddr_ok (b_dst_sa b)"

definition buffer_data :: "buffer \<Rightarrow> u8 list" where
  "buffer_data b = take (b_end b - b_ptr b) (drop (b_ptr b) (b_buf b))"

lemma buffer_ok_le: "buffer_ok b \<Longrightarrow> b_ptr b \<le> b_end b" "buffer_ok b \<Longrightarrow> b_end b \<le> length (b_buf b)" "buffer_ok b \<Longrightarrow> b_end b < 65536"
  by (simp_all add: buffer_ok_def BUFFER_MAX_SIZE_def)

lemma buffer_data_len: "buffer_ok b \<Longrightarrow> buffer_data_length b = int (length (buffer_data b))"
  by (auto simp: buffer_ok_def buffer_data_def buffer_data_length_def)

lemma length_buffer_data: "buffer_ok b \<Longrightarrow> length (buffer_data b) = b_end b - b_ptr b"
  by (auto simp: buffer_ok_def buffer_data_def)

lemma buffer_data_at:
  "buffer_data (b\<lparr>b_ptr := p, b_end := e, b_size := t, b_buf := m\<rparr>) = take (e - p) (drop p m)"
  by (simp add: buffer_data_def)

lemma buffer_data_load:
  "buffer_ok b \<Longrightarrow> i < length (buffer_data b) \<Longrightarrow> load (b_buf b) (b_ptr b + i) = Some (buffer_data b ! i)"
  by (auto simp: buffer_ok_def buffer_data_def load_def)

lemma corrupt_check_ok: "buffer_ok b \<Longrightarrow> buffer_corrupt_check b = Some b"
  by (simp add: buffer_ok_def buffer_corrupt_check_def)

text \<open>The contract of \<open>malloc\<close>: a block of the size asked for.\<close>

definition alloc_ok :: "(nat \<Rightarrow> u8 list option) \<Rightarrow> bool" where
  "alloc_ok alloc \<longleftrightarrow> (\<forall>n m. alloc n = Some m \<longrightarrow> length m = n)"

lemma be_bytes_2: "be_bytes 2 n = [word_of_nat (n div 256), word_of_nat n]"
  by (simp add: be_bytes_def le_bytes_numeral)

lemma sockaddr_zero_ok: "sockaddr_ok sockaddr_zero"
  by (simp add: sockaddr_ok_def sockaddr_zero_def)

lemma buffer_get_ok:
  assumes "alloc_ok alloc" and "buffer_get alloc sz = Some b"
  shows "buffer_ok b" and "b_end b = b_ptr b" and "b_ptr b + sz = b_size b" and "BUFFER_DEFAULT_HEADROOM \<le> b_ptr b"
    and "buffer_data b = []" and "b_size b \<le> sz + 130"
proof -
  define t where "t = ((if 40 + sz < 127 then 127 else 40 + sz) + 3) div 4 * 4"
  have "n \<le> (n + 3) div 4 * 4" for n :: nat by simp
  then have t: "40 + sz \<le> t" unfolding t_def by (rule le_trans [rotated]) simp
  obtain m where m: "alloc t = Some m" "t \<le> 65535" and b: "b_ptr b = t - sz" "b_end b = t - sz" "b_size b = t" "b_buf b = m"
      "b_src_sa b = sockaddr_zero" "b_dst_sa b = sockaddr_zero"
    using assms(2) unfolding buffer_get_def buffer_get_specific_def Let_def BUFFER_DEFAULT_HEADROOM_def
      BUFFER_DEFAULT_MIN_SIZE_def BUFFER_MAX_SIZE_def t_def [symmetric] by (cases "t \<le> 0xFFFF") auto
  then have "length m = t" using assms(1) by (simp add: alloc_ok_def)
  then show "buffer_ok b" using b m(2) sockaddr_zero_ok by (simp add: buffer_ok_def BUFFER_MAX_SIZE_def)
  have "(n + 3) div 4 * 4 \<le> n + 3" for n :: nat by simp
  then have "t \<le> (if 40 + sz < 127 then 127 else 40 + sz) + 3" unfolding t_def .
  then show "b_size b \<le> sz + 130" using b(3) by (simp split: if_splits)
  show "b_end b = b_ptr b" "buffer_data b = []" using b by (simp_all add: buffer_data_def)
  show "b_ptr b + sz = b_size b" "BUFFER_DEFAULT_HEADROOM \<le> b_ptr b" using b t by (simp_all add: BUFFER_DEFAULT_HEADROOM_def)
qed

lemma strip_header:
  assumes "buffer_ok b" and "z \<le> length (buffer_data b)"
  shows "buffer_data_strip_header b z = Some (b\<lparr>b_ptr := b_ptr b + z\<rparr>)" and "buffer_ok (b\<lparr>b_ptr := b_ptr b + z\<rparr>)"
    and "buffer_data (b\<lparr>b_ptr := b_ptr b + z\<rparr>) = drop z (buffer_data b)"
proof -
  have z: "b_ptr b + z \<le> b_end b" using assms buffer_ok_le(1) [OF assms(1)] by (simp add: length_buffer_data)
  then show ok: "buffer_ok (b\<lparr>b_ptr := b_ptr b + z\<rparr>)" using assms(1) by (simp add: buffer_ok_def)
  have "(b_ptr b + z) mod 65536 = b_ptr b + z" using z buffer_ok_le(3) [OF assms(1)] by simp
  then show "buffer_data_strip_header b z = Some (b\<lparr>b_ptr := b_ptr b + z\<rparr>)"
    using corrupt_check_ok [OF ok] by (simp add: buffer_data_strip_header_def)
  show "buffer_data (b\<lparr>b_ptr := b_ptr b + z\<rparr>) = drop z (buffer_data b)"
    by (simp add: buffer_data_def drop_take diff_diff_left add.commute)
qed

lemma reserve_header:
  assumes "buffer_ok b" and "z \<le> b_ptr b"
  shows "buffer_data_reserve_header b z = Some (b\<lparr>b_ptr := b_ptr b - z\<rparr>)" and "buffer_ok (b\<lparr>b_ptr := b_ptr b - z\<rparr>)"
    and "length (buffer_data (b\<lparr>b_ptr := b_ptr b - z\<rparr>)) = length (buffer_data b) + z"
    and "drop z (buffer_data (b\<lparr>b_ptr := b_ptr b - z\<rparr>)) = buffer_data b"
proof -
  note le = buffer_ok_le [OF assms(1)]
  show ok: "buffer_ok (b\<lparr>b_ptr := b_ptr b - z\<rparr>)" using assms by (auto simp: buffer_ok_def)
  have "(b_ptr b + 65536 - z) mod 65536 = (65536 + (b_ptr b - z)) mod 65536" using assms(2) by (intro arg_cong [where f = "\<lambda>x. x mod 65536"]) simp
  also have "\<dots> = b_ptr b - z" using le by simp
  finally show "buffer_data_reserve_header b z = Some (b\<lparr>b_ptr := b_ptr b - z\<rparr>)"
    using corrupt_check_ok [OF ok] by (simp add: buffer_data_reserve_header_def)
  show "length (buffer_data (b\<lparr>b_ptr := b_ptr b - z\<rparr>)) = length (buffer_data b) + z" using assms(2) le by (simp add: buffer_data_def)
  show "drop z (buffer_data (b\<lparr>b_ptr := b_ptr b - z\<rparr>)) = buffer_data b" using assms(2) le by (simp add: buffer_data_def drop_take)
qed

lemma data_add:
  assumes "buffer_ok b" and "b_end b + length bs \<le> b_size b"
  shows "\<exists>b'. buffer_data_add b bs = Some b' \<and> buffer_ok b' \<and> buffer_data b' = buffer_data b @ bs \<and> b_ptr b' = b_ptr b \<and>
    b_src_sa b' = b_src_sa b \<and> b_dst_sa b' = b_dst_sa b"
proof -
  let ?m = "take (b_end b) (b_buf b) @ bs @ drop (b_end b + length bs) (b_buf b)"
  let ?b = "b\<lparr>b_buf := ?m, b_end := b_end b + length bs\<rparr>"
  have l: "length (b_buf b) = b_size b" "b_ptr b \<le> b_end b" "b_size b < 65536" using assms(1) by (simp_all add: buffer_ok_def BUFFER_MAX_SIZE_def)
  have ok: "buffer_ok ?b" using assms by (simp add: buffer_ok_def)
  have "buffer_data_add b bs = Some ?b"
    using assms(2) l corrupt_check_ok [OF ok] by (simp add: buffer_data_add_def store_n_def)
  moreover have "buffer_data ?b = buffer_data b @ bs"
    using assms(2) l by (simp add: buffer_data_def drop_take)
  ultimately show ?thesis using ok by (intro exI [of _ ?b]) simp
qed

text \<open>Making headroom keeps the packet and never aborts; it fails only when no memory is left.\<close>

lemma headroom:
  assumes "buffer_ok b" and "alloc_ok alloc" and "length (buffer_data b) + sz \<le> BUFFER_MAX_SIZE"
  shows "\<exists>r. buffer_headroom alloc b sz = Some r \<and> (\<forall>b'. r = Some b' \<longrightarrow> buffer_ok b' \<and> sz \<le> b_ptr b' \<and> buffer_data b' = buffer_data b \<and>
      b_src_sa b' = b_src_sa b \<and> b_dst_sa b' = b_dst_sa b) \<and>
    (r = None \<longrightarrow> (\<exists>n. alloc n = None) \<or> BUFFER_MAX_SIZE < length (buffer_data b) + sz + 3)"
proof -
  let ?n = "length (buffer_data b)"
  have le: "b_ptr b \<le> b_end b" "b_end b \<le> b_size b" "length (b_buf b) = b_size b" "b_size b \<le> 65535" "sockaddr_ok (b_src_sa b)" "sockaddr_ok (b_dst_sa b)"
    using assms(1) by (simp_all add: buffer_ok_def BUFFER_MAX_SIZE_def)
  have n: "nat (buffer_data_length b) mod 65536 = ?n" "?n = b_end b - b_ptr b"
    using le buffer_data_len [OF assms(1)] length_buffer_data [OF assms(1)] by simp_all
  have bs: "load_n (b_buf b) (b_ptr b) ?n = Some (buffer_data b)" using le n(2) by (simp add: load_n_def buffer_data_def)
  have place: "buffer_ok b' \<and> buffer_data b' = buffer_data b \<and> buffer_corrupt_check b' = Some b'"
    if "b' = b\<lparr>b_ptr := sz, b_end := sz + ?n, b_size := t, b_buf := take sz m @ buffer_data b @ drop (sz + ?n) m\<rparr>"
      "length m = t" "sz + ?n \<le> t" "t \<le> 65535" for b' t m
  proof -
    have "buffer_ok b'" using that le by (simp add: buffer_ok_def BUFFER_MAX_SIZE_def)
    moreover have "buffer_data b' = buffer_data b" unfolding that(1) buffer_data_at using that(2,3) by simp
    ultimately show ?thesis using corrupt_check_ok by blast
  qed
  consider (grow) "b_size b < ?n + sz" | (move) "\<not> b_size b < ?n + sz" "b_ptr b < sz" | (fits) "\<not> b_size b < ?n + sz" "\<not> b_ptr b < sz" by blast
  then show ?thesis
  proof cases
    case grow
    let ?t = "(?n + sz + 3) div 4 * 4"
    have t: "?n + sz \<le> ?t" "?t \<le> ?n + sz + 3" by simp_all
    show ?thesis
    proof (cases "if ?t \<le> BUFFER_MAX_SIZE then alloc ?t else None")
      case None
      then show ?thesis using grow n(1) t(2) by (auto simp: buffer_headroom_def Let_def split: if_splits)
    next
      case (Some m)
      then have a: "alloc ?t = Some m" "?t \<le> BUFFER_MAX_SIZE" by (simp_all split: if_splits)
      then have m: "length m = ?t" "?t \<le> 65535" using assms(2) by (simp_all add: alloc_ok_def BUFFER_MAX_SIZE_def)
      have fit: "sz + ?n \<le> ?t" using t(1) by simp
      have "(sz + ?n) mod 65536 = sz + ?n" using fit m(2) by simp
      then have "buffer_headroom alloc b sz = Some (Some (b\<lparr>b_ptr := sz, b_end := sz + ?n, b_size := ?t, b_buf := take sz m @ buffer_data b @ drop (sz + ?n) m\<rparr>))"
        using grow a bs fit m(1) place [OF refl m(1) fit m(2)] unfolding buffer_headroom_def Let_def n(1) by (simp add: store_n_def)
      then show ?thesis using place [OF refl m(1) fit m(2)] by simp
    qed
  next
    case move
    then show ?thesis using n(1) bs le place [OF refl le(3) _ le(4)]
      by (cases "?n = 0") (auto simp: buffer_headroom_def Let_def store_n_def add.commute buffer_ok_def buffer_data_def buffer_corrupt_check_def BUFFER_MAX_SIZE_def)
  next
    case fits
    then show ?thesis using n(1) corrupt_check_ok [OF assms(1)] assms(1) by (simp add: buffer_headroom_def Let_def)
  qed
qed

end
