(* ===== verification/Checksum.thy ===== *)
theory Checksum
  imports Buffer
begin

text \<open>
  The Internet checksum of \<open>src/stack/source/core/ns_buffer.c\<close> (\<open>ip_fcf_v\<close>, \<open>ipv6_fcf\<close>, \<open>buffer_ipv6_fcf\<close>): a gather vector is
  summed in 16 bit words with an accumulator that is folded at the end. It is shown to be the sum with end-around carry of RFC 1071 over the
  bytes in one piece, however they are cut, and that a packet with its checksum filled in sums up to zero.

  \<open>uint_fast32_t\<close> is taken to have 32 bits, the least it may have.
\<close>

section \<open>The code\<close>

text \<open>The two loops over one element of the vector; \<open>i\<close> is how far \<open>data_ptr\<close> has moved, \<open>n\<close> is \<open>data_length\<close>.\<close>

fun fcf_pairs :: "u32 \<Rightarrow> bool \<Rightarrow> u8 list \<Rightarrow> nat \<Rightarrow> nat \<Rightarrow> (u32 \<times> bool) option" where
  "fcf_pairs acc od m i n =
     (if n \<ge> 2 then do { a \<leftarrow> load m i; b \<leftarrow> load m (i + 1); fcf_pairs (acc + (push_bit 8 (ucast a) OR ucast b)) od m (i + 2) (n - 2) }
      else if n \<noteq> 0 then do { a \<leftarrow> load m i; Some (acc + push_bit 8 (ucast a), True) }
      else Some (acc, od))"

declare fcf_pairs.simps [simp del]

definition fcf_element :: "u32 \<times> bool \<Rightarrow> u8 list \<times> nat \<Rightarrow> (u32 \<times> bool) option" where
  "fcf_element s v = (case (s, v) of ((acc, od), (m, n)) \<Rightarrow>
     if od \<and> n > 0 then do { a \<leftarrow> load m 0; fcf_pairs (acc + ucast a) False m 1 (n - 1) }
     else fcf_pairs acc od m 0 n)"

fun fcf_vector :: "u32 \<times> bool \<Rightarrow> (u8 list \<times> nat) list \<Rightarrow> (u32 \<times> bool) option" where
  "fcf_vector s [] = Some s"
| "fcf_vector s (v # vs) = do { s \<leftarrow> fcf_element s v; fcf_vector s vs }"

definition ip_fcf_v :: "(u8 list \<times> nat) list \<Rightarrow> u16 option" where
  "ip_fcf_v vec = do { (acc, od) \<leftarrow> fcf_vector (0, False) vec;
     let acc = drop_bit 16 acc + (acc AND 0xffff);
     let sum16 = (ucast (drop_bit 16 acc + (acc AND 0xffff)) :: u16);
     Some (NOT sum16) }"

definition ipv6_fcf :: "u8 list \<Rightarrow> u8 list \<Rightarrow> u16 \<Rightarrow> u8 list \<Rightarrow> u8 \<Rightarrow> u16 option" where
  "ipv6_fcf src dst data_length data next_protocol =
     (let hdr_data = [ucast (drop_bit 8 data_length), ucast data_length, 0, next_protocol] in
      ip_fcf_v [(src, 16), (dst, 16), (hdr_data, 4), (data, unat data_length)])"

definition buffer_ipv6_fcf :: "buffer \<Rightarrow> u8 \<Rightarrow> u16 option" where
  "buffer_ipv6_fcf b next_header =
     ipv6_fcf (address (b_src_sa b)) (address (b_dst_sa b)) (word_of_int (buffer_data_length b)) (drop (b_ptr b) (b_buf b)) next_header"

section \<open>The sum of the words\<close>

fun word_sum :: "u8 list \<Rightarrow> nat" where
  "word_sum [] = 0"
| "word_sum [a] = 256 * unat a"
| "word_sum (a # b # r) = 256 * unat a + unat b + word_sum r"

text \<open>RFC 1071: 16 bit words added with the carry brought round to the least significant bit.\<close>

definition ones_add :: "nat \<Rightarrow> nat \<Rightarrow> nat" where
  "ones_add x y = (if x + y > 65535 then x + y - 65535 else x + y)"

fun ones_sum :: "u8 list \<Rightarrow> nat" where
  "ones_sum [] = 0"
| "ones_sum [a] = 256 * unat a"
| "ones_sum (a # b # r) = ones_add (256 * unat a + unat b) (ones_sum r)"

lemma word_sum_even: "even (length xs) \<Longrightarrow> word_sum (xs @ ys) = word_sum xs + word_sum ys"
  by (induction xs rule: word_sum.induct) auto

lemma word_sum_odd: "odd (length xs) \<Longrightarrow> word_sum (xs @ y # ys) = word_sum xs + unat y + word_sum ys"
  by (induction xs rule: word_sum.induct) auto

lemma word_sum_bound: "word_sum xs \<le> 65535 * ((length xs + 1) div 2)"
proof (induction xs rule: word_sum.induct)
  case (2 a)
  show ?case using unat_u8_lt [of a] by simp
next
  case (3 a b r)
  then show ?case using unat_u8_lt [of a] unat_u8_lt [of b] by simp
qed simp

text \<open>The residue modulo 65535, written with 65535 for a sum that is a positive multiple.\<close>

definition residue :: "nat \<Rightarrow> nat" where
  "residue t = (if t = 0 then 0 else (t - 1) mod 65535 + 1)"

lemma residue_unique:
  assumes "r \<le> 65535" and "r mod 65535 = t mod 65535" and "r = 0 \<longleftrightarrow> t = 0"
  shows "r = residue t"
proof (cases "t = 0")
  case False
  then obtain t' r' where e: "t = Suc t'" "r = Suc r'" using assms(3) by (cases t; cases r) auto
  then have "r' mod 65535 = t' mod 65535" "r' < 65535" using assms(1,2) by (auto simp: mod_Suc split: if_splits)
  then show ?thesis using e by (simp add: residue_def)
qed (use assms in \<open>simp add: residue_def\<close>)

lemma residue_facts: "residue t \<le> 65535" "residue t mod 65535 = t mod 65535" "residue t = 0 \<longleftrightarrow> t = 0"
proof -
  have "(t - 1) mod 65535 < 65535" by simp
  then show "residue t \<le> 65535" unfolding residue_def by auto
  show "residue t mod 65535 = t mod 65535" by (cases t) (simp_all add: residue_def mod_simps)
  show "residue t = 0 \<longleftrightarrow> t = 0" by (simp add: residue_def)
qed

lemma residue_add:
  assumes "x \<le> 65535"
  shows "ones_add x (residue t) = residue (x + t)"
proof (rule residue_unique)
  show "ones_add x (residue t) \<le> 65535" using assms residue_facts(1) [of t] by (auto simp: ones_add_def)
  have "ones_add x (residue t) mod 65535 = (x + residue t) mod 65535" by (simp add: ones_add_def le_mod_geq)
  then show "ones_add x (residue t) mod 65535 = (x + t) mod 65535" using mod_add_cong [OF refl residue_facts(2), of x t] by simp
  show "ones_add x (residue t) = 0 \<longleftrightarrow> x + t = 0" using residue_facts(3) [of t] by (auto simp: ones_add_def)
qed

lemma ones_sum_residue: "ones_sum xs = residue (word_sum xs)"
proof (induction xs rule: word_sum.induct)
  case (2 a)
  show ?case using unat_u8_lt [of a] by (simp add: residue_def)
next
  case (3 a b r)
  have "256 * unat a + unat b \<le> 65535" using unat_u8_lt [of a] unat_u8_lt [of b] by linarith
  then show ?case using 3 residue_add [of "256 * unat a + unat b" "word_sum r"] by simp
qed (simp add: residue_def)

section \<open>The accumulator\<close>

lemma pair_word: "push_bit 8 (ucast a) OR ucast b = (word_of_nat (256 * unat a + unat b) :: u32)" for a b :: u8
proof (rule word_of_unat)
  have "push_bit 8 (ucast a) OR ucast b = (le_word [b, a] :: u32)" by (simp add: or.commute)
  then show "unat (push_bit 8 (ucast a) OR ucast b :: u32) = 256 * unat a + unat b" using unat_le_word [of "[b, a]", where 'a = 32] by simp
qed

lemma single_word: "push_bit 8 (ucast a) = (word_of_nat (256 * unat a) :: u32)" for a :: u8
  using pair_word [of a 0] by simp

lemma ucast_byte: "(ucast a :: u32) = word_of_nat (unat a)" for a :: u8
  using pair_word [of 0 a] by simp

lemma take_drop_2: "i + n \<le> length m \<Longrightarrow> 2 \<le> n \<Longrightarrow> take n (drop i m) = m ! i # m ! (i + 1) # take (n - 2) (drop (i + 2) m)"
  by (cases n; cases "n - 1") (simp_all add: Cons_nth_drop_Suc [symmetric] take_Suc_conv_app_nth)

lemma fcf_pairs_sum: "i + n \<le> length m \<Longrightarrow> fcf_pairs acc od m i n = Some (acc + word_of_nat (word_sum (take n (drop i m))), odd n \<or> od)"
proof (induction acc od m i n rule: fcf_pairs.induct)
  case (1 acc od m i n)
  consider "2 \<le> n" | "n = 0" | "n = 1" by linarith
  then show ?case
  proof cases
    case 1
    then have ld: "load m i = Some (m ! i)" "load m (i + 1) = Some (m ! (i + 1))" using "1.prems" by (simp_all add: load_def)
    have "fcf_pairs (acc + (push_bit 8 (ucast (m ! i)) OR ucast (m ! (i + 1)))) od m (i + 2) (n - 2) =
        Some (acc + (push_bit 8 (ucast (m ! i)) OR ucast (m ! (i + 1))) + word_of_nat (word_sum (take (n - 2) (drop (i + 2) m))), odd (n - 2) \<or> od)"
      using "1.IH" [OF 1 ld] "1.prems" 1 by simp
    then show ?thesis using 1 "1.prems" ld unfolding fcf_pairs.simps [of acc od m i n] by (simp add: take_drop_2 pair_word)
  next
    case 2
    then show ?thesis by (simp add: fcf_pairs.simps)
  next
    case 3
    then have "take n (drop i m) = [m ! i]" "load m i = Some (m ! i)" using "1.prems" by (simp_all add: take_Suc_conv_app_nth load_def)
    then show ?thesis using 3 unfolding fcf_pairs.simps [of acc od m i n] by (simp add: single_word)
  qed
qed

lemma fcf_element_sum:
  assumes "length m \<ge> n"
  shows "fcf_element (word_of_nat (word_sum xs), odd (length xs)) (m, n) = Some (word_of_nat (word_sum (xs @ take n m)), odd (length xs + n))"
proof (cases "odd (length xs) \<and> n > 0")
  case True
  then obtain y ys k where y: "m = y # ys" "n = Suc k" using assms by (cases m; cases n) auto
  have "fcf_pairs (word_of_nat (word_sum xs) + ucast y) False m 1 k = Some (word_of_nat (word_sum xs) + ucast y + word_of_nat (word_sum (take k ys)), odd k)"
    using fcf_pairs_sum [of 1 k m "word_of_nat (word_sum xs) + ucast y" False] assms y by simp
  moreover have "fcf_element (word_of_nat (word_sum xs), odd (length xs)) (m, n) = fcf_pairs (word_of_nat (word_sum xs) + ucast y) False m 1 k"
    using True y by (simp add: fcf_element_def load_def)
  moreover have "word_sum (xs @ take n m) = word_sum xs + unat y + word_sum (take k ys)" "odd (length xs + n) = odd k" using True y by (simp_all add: word_sum_odd)
  ultimately show ?thesis by simp
next
  case False
  then have "word_sum (xs @ take n m) = word_sum xs + word_sum (take n m)" "(odd n \<or> odd (length xs)) = odd (length xs + n)"
    by (auto simp: word_sum_even)
  then show ?thesis using False fcf_pairs_sum [of 0 n m] assms by (auto simp: fcf_element_def)
qed

lemma fcf_vector_sum:
  "\<forall>v\<in>set vs. snd v \<le> length (fst v) \<Longrightarrow> fcf_vector (word_of_nat (word_sum xs), odd (length xs)) vs =
     Some (word_of_nat (word_sum (xs @ concat (map (\<lambda>v. take (snd v) (fst v)) vs))), odd (length xs + sum_list (map snd vs)))"
proof (induction vs arbitrary: xs)
  case (Cons v vs)
  obtain m n where v: "v = (m, n)" by (cases v)
  have n: "n \<le> length m" using Cons.prems v by simp
  have "fcf_vector (word_of_nat (word_sum (xs @ take n m)), odd (length (xs @ take n m))) vs =
      Some (word_of_nat (word_sum ((xs @ take n m) @ concat (map (\<lambda>v. take (snd v) (fst v)) vs))), odd (length (xs @ take n m) + sum_list (map snd vs)))"
    using Cons.prems by (intro Cons.IH) simp
  moreover have "length (take n m) = n" using n by simp
  ultimately show ?case using fcf_element_sum [OF n, of xs] unfolding v fcf_vector.simps length_append by (simp add: add.assoc)
qed simp

lemma fold_residue:
  assumes "unat acc = t"
  shows "unat (drop_bit 16 acc + (acc AND 0xffff) :: u32) = t div 65536 + t mod 65536"
proof -
  have "acc AND 0xffff = take_bit 16 acc" by (simp add: take_bit_eq_mask mask_eq_exp_minus_1)
  then have "unat (acc AND 0xffff) = take_bit 16 (unat acc)" by (simp only: unsigned_take_bit_eq)
  then have "unat (acc AND 0xffff) = t mod 65536" using assms by (simp add: take_bit_eq_mod)
  moreover have "unat (drop_bit 16 acc) = t div 65536" using assms by (simp add: unat_drop_bit_div)
  moreover have "t < 4294967296" using unat_u32_lt [of acc] assms by simp
  ultimately show ?thesis by (subst unat_add_nowrap) auto
qed

lemma fold_twice:
  assumes "t < (4294967296 :: nat)"
  defines "s \<equiv> t div 65536 + t mod 65536"
  shows "s div 65536 + s mod 65536 = residue t"
proof (rule residue_unique)
  have "t div 65536 \<le> 65535" "t mod 65536 \<le> 65535" using assms by linarith+
  then have "s \<le> 131070" by (simp add: s_def)
  then show "s div 65536 + s mod 65536 \<le> 65535" by (cases "s < 65536") (auto simp: le_div_geq le_mod_geq)
  have fold: "(x div 65536 + x mod 65536) mod 65535 = x mod 65535" for x :: nat
    using mod_mult_self2 [of "x div 65536 + x mod 65536" 65535 "x div 65536"] div_mult_mod_eq [of x 65536] by (simp add: algebra_simps)
  show "(s div 65536 + s mod 65536) mod 65535 = t mod 65535" using fold [of s] fold [of t] by (simp add: s_def)
  have zero: "x div 65536 + x mod 65536 = 0 \<longleftrightarrow> x = 0" for x :: nat using div_mult_mod_eq [of x 65536] by auto
  show "s div 65536 + s mod 65536 = 0 \<longleftrightarrow> t = 0" unfolding zero by (simp only: s_def zero)
qed

lemma ip_fcf_v_sum:
  assumes "\<forall>v\<in>set vec. snd v \<le> length (fst v)" and "sum_list (map snd vec) \<le> 131071"
  shows "ip_fcf_v vec = Some (NOT (word_of_nat (ones_sum (concat (map (\<lambda>v. take (snd v) (fst v)) vec)))))"
proof -
  let ?xs = "concat (map (\<lambda>v. take (snd v) (fst v)) vec)"
  have "length ?xs = sum_list (map snd vec)" using assms(1) by (induction vec) (auto simp: min_def)
  then have "word_sum ?xs < 4294967296" using word_sum_bound [of ?xs] assms(2) by (simp add: div_le_mono order.strict_trans1)
  then have u: "unat (word_of_nat (word_sum ?xs) :: u32) = word_sum ?xs" by (intro unat_small) simp
  note f1 = fold_residue [OF u] and f2 = fold_residue [OF fold_residue [OF u]]
  have v: "fcf_vector (0, False) vec = Some (word_of_nat (word_sum ?xs), odd (sum_list (map snd vec)))"
    using fcf_vector_sum [OF assms(1), of "[]"] by simp
  define a :: u32 where "a = drop_bit 16 (word_of_nat (word_sum ?xs)) + (word_of_nat (word_sum ?xs) AND 0xffff)"
  have e: "unat (drop_bit 16 a + (a AND 0xffff)) = ones_sum ?xs"
    unfolding a_def f2 fold_twice [OF \<open>word_sum ?xs < _\<close>] ones_sum_residue ..
  have "(ucast (drop_bit 16 a + (a AND 0xffff)) :: u16) = word_of_nat (unat (drop_bit 16 a + (a AND 0xffff)))" by (rule of_nat_unat [symmetric])
  then show ?thesis unfolding e ip_fcf_v_def v by (simp add: a_def Let_def)
qed

section \<open>A packet with its checksum\<close>

definition pseudo_header :: "buffer \<Rightarrow> u8 \<Rightarrow> u8 list" where
  "pseudo_header b nh = address (b_src_sa b) @ address (b_dst_sa b) @ be_bytes 2 (length (buffer_data b)) @ [0, nh]"

lemma word_sum_be: "n < 65536 \<Longrightarrow> word_sum (be_bytes 2 n) = n"
  by (simp add: be_bytes_2)

lemma unat_not_16: "n \<le> 65535 \<Longrightarrow> unat (NOT (word_of_nat n) :: u16) = 65535 - n"
proof -
  assume n: "n \<le> 65535"
  have "(NOT (word_of_nat n) :: u16) = 65535 - word_of_nat n" by (simp add: not_eq_complement)
  moreover have "unat (65535 - word_of_nat n :: u16) = unat (65535 :: u16) - n" using n by (intro unat_sub_of_nat) simp
  ultimately show ?thesis by simp
qed

lemma buffer_fcf_residue:
  assumes "buffer_ok b"
  shows "buffer_ipv6_fcf b nh = Some (NOT (word_of_nat (residue (word_sum (pseudo_header b nh @ buffer_data b)))))"
proof -
  let ?n = "length (buffer_data b)"
  have le: "b_ptr b \<le> b_end b" "b_end b \<le> length (b_buf b)" "b_end b < 65536" by (rule buffer_ok_le [OF assms])+
  have n: "?n = b_end b - b_ptr b" "?n < 65536" using length_buffer_data [OF assms] le by simp_all
  have un: "unat (word_of_nat ?n :: u16) = ?n" using n(2) by (intro unat_small) simp
  have hdr: "[ucast (drop_bit 8 (word_of_nat ?n :: u16)), ucast (word_of_nat ?n :: u16), 0, nh] = be_bytes 2 ?n @ [0, nh]"
    using ucast_drop_bit_u8 [of 8 "word_of_nat ?n :: u16"] ucast_drop_bit_u8 [of 0 "word_of_nat ?n :: u16"] un by (simp add: be_bytes_2)
  have adr: "length (address (b_src_sa b)) = 16" "length (address (b_dst_sa b)) = 16"
    using assms by (simp_all add: buffer_ok_def sockaddr_ok_def ADDR_SIZE_def)
  let ?vec = "[(address (b_src_sa b), 16), (address (b_dst_sa b), 16), (be_bytes 2 ?n @ [0, nh], 4), (drop (b_ptr b) (b_buf b), ?n)]"
  have "buffer_ipv6_fcf b nh = ip_fcf_v ?vec"
    unfolding buffer_ipv6_fcf_def ipv6_fcf_def buffer_data_len [OF assms] of_int_of_nat_eq Let_def hdr un ..
  also have "\<dots> = Some (NOT (word_of_nat (ones_sum (concat (map (\<lambda>v. take (snd v) (fst v)) ?vec)))))"
    using adr n le by (intro ip_fcf_v_sum) auto
  also have "concat (map (\<lambda>v. take (snd v) (fst v)) ?vec) = pseudo_header b nh @ buffer_data b"
    using adr n by (simp add: pseudo_header_def buffer_data_def)
  finally show ?thesis by (simp add: ones_sum_residue)
qed

lemma pseudo_header_sum:
  assumes "buffer_ok b"
  shows "word_sum (pseudo_header b nh @ xs) = word_sum (pseudo_header b nh) + word_sum xs" and "length (buffer_data b) \<le> word_sum (pseudo_header b nh)"
proof -
  have adr: "length (address (b_src_sa b)) = 16" "length (address (b_dst_sa b)) = 16"
    using assms by (simp_all add: buffer_ok_def sockaddr_ok_def ADDR_SIZE_def)
  then show "word_sum (pseudo_header b nh @ xs) = word_sum (pseudo_header b nh) + word_sum xs"
    by (intro word_sum_even) (simp add: pseudo_header_def)
  have "length (buffer_data b) < 65536" using length_buffer_data [OF assms] buffer_ok_le(3) [OF assms] by simp
  then show "length (buffer_data b) \<le> word_sum (pseudo_header b nh)" using adr by (simp add: pseudo_header_def word_sum_even word_sum_be)
qed

lemma residue_complement:
  assumes "0 < t" and "v \<le> 65535"
  shows "residue (t + v) = 65535 \<longleftrightarrow> v = 65535 - residue t \<or> residue t = 65535 \<and> v = 65535"
proof -
  have r: "residue t \<le> 65535" "residue t mod 65535 = t mod 65535" "0 < residue t" using residue_facts [of t] assms(1) by auto
  have "residue (t + v) = 65535 \<longleftrightarrow> (t + v) mod 65535 = 0"
  proof
    assume "residue (t + v) = 65535"
    then show "(t + v) mod 65535 = 0" using residue_facts(2) [of "t + v"] by simp
  next
    assume "(t + v) mod 65535 = 0"
    then show "residue (t + v) = 65535" using residue_unique [of 65535 "t + v"] assms(1) by simp
  qed
  also have "(t + v) mod 65535 = (residue t + v) mod 65535" using mod_add_cong [OF r(2) refl, of v] by simp
  also have "(residue t + v) mod 65535 = 0 \<longleftrightarrow> residue t + v = 65535 \<or> residue t + v = 131070"
  proof
    assume "(residue t + v) mod 65535 = 0"
    then obtain k where k: "residue t + v = 65535 * k" by auto
    then have "k = 1 \<or> k = 2" using r assms(2) by auto
    then show "residue t + v = 65535 \<or> residue t + v = 131070" using k by auto
  qed auto
  finally show ?thesis using r assms(2) by auto
qed

lemma checksum_check:
  assumes "buffer_ok b" and "buffer_ok b'" and "b_src_sa b' = b_src_sa b" and "b_dst_sa b' = b_dst_sa b"
    and "buffer_data b = pre @ [0, 0] @ post" and "even (length pre)" and "buffer_data b' = pre @ be_bytes 2 (unat v) @ post"
    and "buffer_ipv6_fcf b nh = Some c"
  shows "buffer_ipv6_fcf b' nh = Some 0 \<longleftrightarrow> v = c \<or> c = 0 \<and> v = 0xffff"
proof -
  define t where "t = word_sum (pseudo_header b nh) + word_sum (pre @ [0, 0] @ post)"
  have same: "pseudo_header b' nh = pseudo_header b nh" using assms(3-5,7) by (simp add: pseudo_header_def)
  have v: "unat v < 65536" by (rule unat_u16_lt)
  have t0: "0 < t" using pseudo_header_sum(2) [OF assms(1), of nh] assms(5) by (simp add: t_def)
  have t1: "word_sum (pseudo_header b' nh @ buffer_data b') = t + unat v"
    using pseudo_header_sum(1) [OF assms(2), of nh] same assms(6,7) v by (simp add: t_def word_sum_even word_sum_be)
  have c: "c = NOT (word_of_nat (residue t))" using buffer_fcf_residue [OF assms(1), of nh] pseudo_header_sum(1) [OF assms(1), of nh] assms(5,8) by (simp add: t_def)
  have uc: "unat c = 65535 - residue t" unfolding c by (rule unat_not_16 [OF residue_facts(1)])
  have "buffer_ipv6_fcf b' nh = Some 0 \<longleftrightarrow> unat (NOT (word_of_nat (residue (t + unat v))) :: u16) = 0"
    using buffer_fcf_residue [OF assms(2), of nh] t1 by (simp add: unat_eq_0)
  also have "\<dots> \<longleftrightarrow> residue (t + unat v) = 65535" using unat_not_16 [OF residue_facts(1), of "t + unat v"] residue_facts(1) [of "t + unat v"] by auto
  also have "\<dots> \<longleftrightarrow> unat v = unat c \<or> unat c = 0 \<and> unat v = 65535" using residue_complement [OF t0, of "unat v"] v uc residue_facts(1) [of t] by auto
  also have "\<dots> \<longleftrightarrow> v = c \<or> c = 0 \<and> v = 0xffff" by (auto simp: word_unat_eq_iff)
  finally show ?thesis .
qed

section \<open>What holds\<close>

text \<open>
  C12. However the bytes are cut into the elements of a vector, at odd places too, \<open>ip_fcf_v\<close> is the checksum of RFC 1071 of
  all of them in one piece: the complement of the sum of their 16 bit words with end-around carry, the last byte of an odd
  number being padded with zero. No byte outside the elements is read. The vector may have 131071 bytes, twice the longest packet.
\<close>

theorem ip_fcf_v_rfc1071:
  assumes "\<forall>v\<in>set vec. snd v \<le> length (fst v)" and "sum_list (map snd vec) \<le> 131071"
  shows "ip_fcf_v vec = Some (NOT (word_of_nat (ones_sum (concat (map (\<lambda>v. take (snd v) (fst v)) vec)))))"
  by (rule ip_fcf_v_sum [OF assms])

theorem ip_fcf_v_rfc1071_witness:
  "ip_fcf_v [([1, 2, 3], 3), ([], 0), ([4, 0xff], 2)] = ip_fcf_v [([1, 2, 3, 4, 0xff], 5)] \<and>
   ip_fcf_v [([1, 2, 3, 4, 0xff], 5)] = Some (NOT (word_of_nat (ones_sum [1, 2, 3, 4, 0xff])))"
  using ip_fcf_v_rfc1071 [of "[([1, 2, 3], 3), ([], 0), ([4, 0xff], 2)]"] ip_fcf_v_rfc1071 [of "[([1, 2, 3, 4, 0xff], 5)]"] by simp


definition checksum_packet :: "u8 list \<Rightarrow> buffer" where
  "checksum_packet bs = \<lparr>b_dst_sa = sockaddr_zero, b_src_sa = sockaddr_zero, b_predecessor = None, b_socket = None, b_info = 0, b_seq = 0,
     b_ptr = 0, b_end = length bs, b_size = length bs, b_rpl_instance = 0xff, b_rpl_instance_known = False, b_ip_routed_up = False, b_rpl_flag_error = 0,
     b_timestamp = 0, b_rpl_option = None, b_priority = 0, b_default_pan = True, b_request_ack = False, b_hop_limit = 255,
     b_ll_security_bypass_rx = False, b_ll_security_bypass_tx = False, b_ll_sec_bypass_frag_deny = False, b_tunnelled = False,
     b_need_predecessor = False, b_multicast_loop = False, b_mpl_permitted = True, b_edfe_mode = False, b_traffic_class = 0, b_flow_label = -1, b_buf = bs\<rparr>"


end
