(* ===== verification/Iphc.thy ===== *)
theory Iphc
  imports Buffer
begin

text \<open>
  \<open>iphc_header_scan\<close> of \<open>src/stack/source/6lowpan/iphc_decode/iphc_decompress.c\<close>, with the constants of
  \<open>cipv6.h\<close>: the length of the compressed headers (RFC 6282) at the front of a 6LoWPAN datagram, and the length they
  have uncompressed. Fragmentation and decompression both start from these two numbers.

  The labels \<open>IPv6START\<close> and the loop over following headers are two mutually recursive functions; every
  round moves the pointer, so they end. The scan never reads outside the packet, and how much longer than
  the uncompressed headers the compressed ones can be is bounded: every IPv6 header may cost one byte more, and the last header one.
\<close>

section \<open>Constants\<close>

definition LOWPAN_DISPATCH_IPV6 :: u8 where
  "LOWPAN_DISPATCH_IPV6 = 0x41"

definition LOWPAN_DISPATCH_BC0 :: u8 where
  "LOWPAN_DISPATCH_BC0 = 0x50"

definition LOWPAN_DISPATCH_IPHC :: u8 where
  "LOWPAN_DISPATCH_IPHC = 0x60"

definition LOWPAN_DISPATCH_IPHC_MASK :: u8 where
  "LOWPAN_DISPATCH_IPHC_MASK = 0xE0"

definition HC_TF_MASK :: u8 where
  "HC_TF_MASK = 0x18"

definition HC_TF_ECN_DSCP_FLOW_LABEL :: u8 where
  "HC_TF_ECN_DSCP_FLOW_LABEL = 0x00"

definition HC_TF_ECN_FLOW_LABEL :: u8 where
  "HC_TF_ECN_FLOW_LABEL = 0x08"

definition HC_TF_ECN_DSCP :: u8 where
  "HC_TF_ECN_DSCP = 0x10"

definition HC_TF_ELIDED :: u8 where
  "HC_TF_ELIDED = 0x18"

definition HC_NEXT_HEADER_MASK :: u8 where
  "HC_NEXT_HEADER_MASK = 0x04"

definition HC_HOP_LIMIT_MASK :: u8 where
  "HC_HOP_LIMIT_MASK = 0x03"

definition HC_HOP_LIMIT_CARRIED_IN_LINE :: u8 where
  "HC_HOP_LIMIT_CARRIED_IN_LINE = 0x00"

definition HC_CIDE_COMP :: u8 where
  "HC_CIDE_COMP = 0x80"

definition HC_SRCADR_COMP :: u8 where
  "HC_SRCADR_COMP = 0x40"

definition HC_SRC_ADR_MODE_MASK :: u8 where
  "HC_SRC_ADR_MODE_MASK = 0x30"

definition HC_SRC_ADR_128_BIT :: u8 where
  "HC_SRC_ADR_128_BIT = 0x00"

definition HC_SRC_ADR_64_BIT :: u8 where
  "HC_SRC_ADR_64_BIT = 0x10"

definition HC_SRC_ADR_16_BIT :: u8 where
  "HC_SRC_ADR_16_BIT = 0x20"

definition HC_MULTICAST_COMP :: u8 where
  "HC_MULTICAST_COMP = 0x08"

definition HC_DSTADR_COMP :: u8 where
  "HC_DSTADR_COMP = 0x04"

definition HC_DST_ADR_MODE_MASK :: u8 where
  "HC_DST_ADR_MODE_MASK = 0x03"

definition HC_DST_ADR_128_BIT :: u8 where
  "HC_DST_ADR_128_BIT = 0x00"

definition HC_DST_ADR_64_BIT :: u8 where
  "HC_DST_ADR_64_BIT = 0x01"

definition HC_DST_ADR_16_BIT :: u8 where
  "HC_DST_ADR_16_BIT = 0x02"

definition HC_DST_ADR_FROM_MAC :: u8 where
  "HC_DST_ADR_FROM_MAC = 0x03"

definition HC_128BIT_MULTICAST :: u8 where
  "HC_128BIT_MULTICAST = 0x00"

definition HC_48BIT_MULTICAST :: u8 where
  "HC_48BIT_MULTICAST = 0x01"

definition HC_32BIT_MULTICAST :: u8 where
  "HC_32BIT_MULTICAST = 0x02"

definition HC_8BIT_MULTICAST :: u8 where
  "HC_8BIT_MULTICAST = 0x03"

definition HC_48BIT_CONTEXT_MULTICAST :: u8 where
  "HC_48BIT_CONTEXT_MULTICAST = 0x04"

definition NHC_EXT_HEADER :: u8 where
  "NHC_EXT_HEADER = 0xE0"

definition NHC_EXT_HEADER_MASK :: u8 where
  "NHC_EXT_HEADER_MASK = 0xF0"

definition NHC_UDP :: u8 where
  "NHC_UDP = 0xF0"

definition NHC_UDP_MASK :: u8 where
  "NHC_UDP_MASK = 0xF8"

definition NHC_EXT_NH :: u8 where
  "NHC_EXT_NH = 0x01"

definition NHC_EXT_ID_MASK :: u8 where
  "NHC_EXT_ID_MASK = 0xFE"

definition NHC_EXT_HOP_BY_HOP :: u8 where
  "NHC_EXT_HOP_BY_HOP = 0xE0"

definition NHC_EXT_ROUTING :: u8 where
  "NHC_EXT_ROUTING = 0xE2"

definition NHC_EXT_FRAG :: u8 where
  "NHC_EXT_FRAG = 0xE4"

definition NHC_EXT_DEST_OPT :: u8 where
  "NHC_EXT_DEST_OPT = 0xE6"

definition NHC_EXT_MOBILITY :: u8 where
  "NHC_EXT_MOBILITY = 0xE8"

definition NHC_EXT_IPV6 :: u8 where
  "NHC_EXT_IPV6 = 0xEE"

definition NHC_UDP_PORT_COMPRESS_NONE :: u8 where
  "NHC_UDP_PORT_COMPRESS_NONE = 0"

definition NHC_UDP_PORT_COMPRESS_DST :: u8 where
  "NHC_UDP_PORT_COMPRESS_DST = 1"

definition NHC_UDP_PORT_COMPRESS_SRC :: u8 where
  "NHC_UDP_PORT_COMPRESS_SRC = 2"

definition NHC_UDP_PORT_COMPRESS_BOTH :: u8 where
  "NHC_UDP_PORT_COMPRESS_BOTH = 3"

definition NHC_UDP_PORT_COMPRESS_MASK :: u8 where
  "NHC_UDP_PORT_COMPRESS_MASK = 3"

definition NHC_UDP_CKSUM_COMPRESS :: u8 where
  "NHC_UDP_CKSUM_COMPRESS = 4"

section \<open>Lengths of the fields\<close>

definition iphc_tf_len :: "u8 \<Rightarrow> nat" where
  "iphc_tf_len hc0 = (let tf = hc0 AND HC_TF_MASK in
     if tf = HC_TF_ECN_DSCP_FLOW_LABEL then 4 else if tf = HC_TF_ECN_FLOW_LABEL then 3 else if tf = HC_TF_ECN_DSCP then 1 else 0)"

definition iphc_src_len :: "u8 \<Rightarrow> nat" where
  "iphc_src_len hc1 = (let sam = hc1 AND HC_SRC_ADR_MODE_MASK in
     if sam = HC_SRC_ADR_128_BIT then (if hc1 AND HC_SRCADR_COMP = 0 then 16 else 0)
     else if sam = HC_SRC_ADR_64_BIT then 8 else if sam = HC_SRC_ADR_16_BIT then 2 else 0)"

text \<open>\<open>None\<close> for an unknown multicast compression, where the scan gives up.\<close>

definition iphc_dst_len :: "u8 \<Rightarrow> nat option" where
  "iphc_dst_len hc1 =
     (if hc1 AND HC_MULTICAST_COMP \<noteq> 0 then
        (let m = hc1 AND (HC_DSTADR_COMP OR HC_DST_ADR_MODE_MASK) in
         if m = HC_128BIT_MULTICAST then Some 16 else if m = HC_48BIT_MULTICAST \<or> m = HC_48BIT_CONTEXT_MULTICAST then Some 6
         else if m = HC_32BIT_MULTICAST then Some 4 else if m = HC_8BIT_MULTICAST then Some 1 else None)
      else
        (let m = hc1 AND HC_DST_ADR_MODE_MASK in
         Some (if m = HC_DST_ADR_128_BIT then 16 else if m = HC_DST_ADR_64_BIT then 8 else if m = HC_DST_ADR_16_BIT then 2 else 0)))"

text \<open>The bytes of an IPv6 header after the two bytes of the IPHC encoding.\<close>

definition iphc_inline_len :: "u8 \<Rightarrow> u8 \<Rightarrow> nat option" where
  "iphc_inline_len hc0 hc1 = map_option
     (\<lambda>d. (if hc1 AND HC_CIDE_COMP \<noteq> 0 then 1 else 0) + iphc_tf_len hc0 + (if hc0 AND HC_NEXT_HEADER_MASK = 0 then 1 else 0) +
       (if hc0 AND HC_HOP_LIMIT_MASK = HC_HOP_LIMIT_CARRIED_IN_LINE then 1 else 0) + iphc_src_len hc1 + d) (iphc_dst_len hc1)"

definition nhc_udp_len :: "u8 \<Rightarrow> nat" where
  "nhc_udp_len nhc_id = (if nhc_id AND NHC_UDP_CKSUM_COMPRESS = 0 then 2 else 0) +
     (let p = nhc_id AND NHC_UDP_PORT_COMPRESS_MASK in
      if p = NHC_UDP_PORT_COMPRESS_DST \<or> p = NHC_UDP_PORT_COMPRESS_SRC then 3 else if p = NHC_UDP_PORT_COMPRESS_NONE then 4 else 1)"

definition nhc_is_exthdr :: "u8 \<Rightarrow> bool" where
  "nhc_is_exthdr nhc_id \<longleftrightarrow> nhc_id AND NHC_EXT_ID_MASK \<in> {NHC_EXT_HOP_BY_HOP, NHC_EXT_ROUTING, NHC_EXT_FRAG, NHC_EXT_DEST_OPT, NHC_EXT_MOBILITY}"

section \<open>The scan\<close>

text \<open>The end of the function: the two results, or zeros for a truncated packet.\<close>

definition iphc_scan_end :: "nat \<Rightarrow> nat \<Rightarrow> nat \<Rightarrow> nat \<Rightarrow> nat \<times> nat" where
  "iphc_scan_end st e ptr un = (if ptr > e then (0, 0) else ((ptr - st) mod 65536, un))"

function (sequential) iphc_scan_ip :: "u8 list \<Rightarrow> nat \<Rightarrow> nat \<Rightarrow> nat \<Rightarrow> nat \<Rightarrow> (nat \<times> nat) option"
  and iphc_scan_nhc :: "u8 list \<Rightarrow> nat \<Rightarrow> nat \<Rightarrow> nat \<Rightarrow> nat \<Rightarrow> (nat \<times> nat) option" where
  "iphc_scan_ip m st e ptr un =
     (if ptr + 2 > e then Some (0, 0)
      else do { hc0 \<leftarrow> load m ptr;
                if hc0 AND LOWPAN_DISPATCH_IPHC_MASK \<noteq> LOWPAN_DISPATCH_IPHC then Some (0, 0)
                else do { hc1 \<leftarrow> load m (ptr + 1);
                  case iphc_inline_len hc0 hc1 of None \<Rightarrow> Some (0, 0)
                  | Some l \<Rightarrow> (if hc0 AND HC_NEXT_HEADER_MASK \<noteq> 0 then iphc_scan_nhc m st e (ptr + 2 + l) ((un + 40) mod 65536)
                               else Some (iphc_scan_end st e (ptr + 2 + l) ((un + 40) mod 65536))) } })"
| "iphc_scan_nhc m st e ptr un =
     (if ptr \<ge> e then Some (0, 0)
      else do { nhc_id \<leftarrow> load m ptr;
        if nhc_id AND NHC_EXT_HEADER_MASK = NHC_EXT_HEADER then
          (if nhc_id AND NHC_EXT_ID_MASK = NHC_EXT_IPV6 then iphc_scan_ip m st e (ptr + 1) un
           else if nhc_is_exthdr nhc_id then
             (let more = nhc_id AND NHC_EXT_NH \<noteq> 0; p = (if more then ptr + 1 else ptr + 2) in
              if p \<ge> e then Some (0, 0)
              else do { (p, un) \<leftarrow> (if nhc_id AND NHC_EXT_ID_MASK = NHC_EXT_FRAG then Some (p + 7, (un + 8) mod 65536)
                          else do { len \<leftarrow> load m p; Some (p + 1 + unat len, (un + (2 + unat len + 7) div 8 * 8) mod 65536) });
                        if more then iphc_scan_nhc m st e p un else Some (iphc_scan_end st e p un) })
           else Some (iphc_scan_end st e (ptr + 1) un))
        else if nhc_id AND NHC_UDP_MASK = NHC_UDP then Some (iphc_scan_end st e (ptr + 1 + nhc_udp_len nhc_id) ((un + 8) mod 65536))
        else Some (iphc_scan_end st e (ptr + 1) un) })"
  by pat_completeness auto
termination
  by (relation "measure (\<lambda>x. case x of Inl (m, st, e, ptr, un) \<Rightarrow> e - ptr | Inr (m, st, e, ptr, un) \<Rightarrow> e - ptr)")
    (auto simp: bind_eq_Some_conv split: if_splits)

declare iphc_scan_ip.simps [simp del] iphc_scan_nhc.simps [simp del]

definition iphc_header_scan :: "buffer \<Rightarrow> (nat \<times> nat) option" where
  "iphc_header_scan b =
     (let ptr = b_ptr b; e = b_end b in
      do { plain \<leftarrow> (if ptr < e then do { b0 \<leftarrow> load (b_buf b) ptr; Some (b0 = LOWPAN_DISPATCH_IPV6) } else Some False);
           if plain then Some (1, 0) else iphc_scan_ip (b_buf b) ptr e ptr 0 })"

section \<open>Safety and bounds\<close>

lemma iphc_tf_len_le: "iphc_tf_len hc0 \<le> 4"
  by (simp add: iphc_tf_len_def Let_def)

lemma iphc_src_len_le: "iphc_src_len hc1 \<le> 16"
  by (simp add: iphc_src_len_def Let_def)

lemma iphc_dst_len_le: "iphc_dst_len hc1 = Some d \<Longrightarrow> d \<le> 16"
  by (auto simp: iphc_dst_len_def Let_def split: if_splits)

lemma iphc_inline_len_le: "iphc_inline_len hc0 hc1 = Some l \<Longrightarrow> l \<le> 38 + (if hc0 AND HC_NEXT_HEADER_MASK = 0 then 1 else 0)"
  using iphc_tf_len_le [of hc0] iphc_src_len_le [of hc1] by (auto simp: iphc_inline_len_def dest!: iphc_dst_len_le)

lemma nhc_udp_len_le: "nhc_udp_len nhc \<le> 6"
  by (simp add: nhc_udp_len_def Let_def)

text \<open>
  What a scan that started with \<open>c\<close> compressed bytes behind it returns: zeros, or lengths inside the packet, the compressed one at
  most a fortieth longer than the other.
\<close>

definition scan_result :: "nat \<Rightarrow> nat \<Rightarrow> nat \<Rightarrow> (nat \<times> nat) option \<Rightarrow> bool" where
  "scan_result st e c r \<longleftrightarrow> r = Some (0, 0) \<or>
     (\<exists>h u. r = Some (h, u) \<and> c < h \<and> h \<le> e - st \<and> 40 * h \<le> 41 * u \<and> u \<le> 14 * h + 20)"

lemma scan_end_result:
  assumes "ptr - st \<le> 3300" and "c < ptr - st" and "40 * (ptr - st) \<le> 41 * un" and "un \<le> 14 * (ptr - st) + 20"
  shows "scan_result st e c (Some (iphc_scan_end st e ptr un))"
  using assms by (auto simp: scan_result_def iphc_scan_end_def)

lemma scan_result_weaken: "scan_result st e c r \<Longrightarrow> c' \<le> c \<Longrightarrow> scan_result st e c' r"
  by (auto simp: scan_result_def)

lemma round_up_8: "(2 + n + 7) div 8 * 8 \<le> 9 + n" "2 + n \<le> (2 + n + 7) div 8 * (8 :: nat)"
  by simp_all

lemma iphc_scan_safe:
  "e \<le> length m \<Longrightarrow> st \<le> ptr \<Longrightarrow> e - st \<le> 3000 \<Longrightarrow> un \<le> 14 * (ptr - st) + 8 \<Longrightarrow> 40 * (ptr - st) \<le> 41 * un \<Longrightarrow>
     scan_result st e (ptr - st) (iphc_scan_ip m st e ptr un)"
  "e \<le> length m \<Longrightarrow> st \<le> ptr \<Longrightarrow> e - st \<le> 3000 \<Longrightarrow> un \<le> 14 * (ptr - st) + 20 \<Longrightarrow> 40 * (ptr - st) + 40 \<le> 41 * un \<Longrightarrow>
     scan_result st e (ptr - st) (iphc_scan_nhc m st e ptr un)"
proof (induction m st e ptr un and m st e ptr un rule: iphc_scan_ip_iphc_scan_nhc.induct)
  case (1 m st e ptr un)
  show ?case
  proof (cases "ptr + 2 > e \<or> m ! ptr AND LOWPAN_DISPATCH_IPHC_MASK \<noteq> LOWPAN_DISPATCH_IPHC \<or> iphc_inline_len (m ! ptr) (m ! (ptr + 1)) = None")
    case True
    then show ?thesis using 1(2,3) unfolding iphc_scan_ip.simps [of m st e ptr un] by (auto simp: scan_result_def load_def)
  next
    case False
    then obtain l where l: "iphc_inline_len (m ! ptr) (m ! (ptr + 1)) = Some l" and f: "\<not> ptr + 2 > e"
        "m ! ptr AND LOWPAN_DISPATCH_IPHC_MASK = LOWPAN_DISPATCH_IPHC" by auto
    have ld: "load m ptr = Some (m ! ptr)" "load m (ptr + 1) = Some (m ! (ptr + 1))" using f(1) 1(2) by (simp_all add: load_def)
    have un: "(un + 40) mod 65536 = un + 40" using 1(4,5) f(1) by simp
    note le = iphc_inline_len_le [OF l]
    show ?thesis
    proof (cases "m ! ptr AND HC_NEXT_HEADER_MASK = 0")
      case True
      then show ?thesis using le 1(3-6) f ld l un unfolding iphc_scan_ip.simps [of m st e ptr un]
        by (simp add: scan_end_result)
    next
      case no: False
      have "scan_result st e (ptr + 2 + l - st) (iphc_scan_nhc m st e (ptr + 2 + l) ((un + 40) mod 65536))"
        using 1(1) [OF f(1) ld(1) _ ld(2) l no] 1(2-6) f le no un by simp
      then show ?thesis using no f ld l unfolding iphc_scan_ip.simps [of m st e ptr un] by (auto elim: scan_result_weaken)
    qed
  qed
next
  case (2 m st e ptr un)
  show ?case
  proof (cases "ptr \<ge> e")
    case True
    then show ?thesis unfolding iphc_scan_nhc.simps [of m st e ptr un] by (simp add: scan_result_def)
  next
    case in_range: False
    obtain nhc where ld: "load m ptr = Some nhc" using in_range 2(3) by (simp add: load_def)
    have c: "ptr - st < 3000" using in_range 2(5) by simp
    note eq = iphc_scan_nhc.simps [of m st e ptr un]
    consider (ip) "nhc AND NHC_EXT_HEADER_MASK = NHC_EXT_HEADER" "nhc AND NHC_EXT_ID_MASK = NHC_EXT_IPV6"
      | (ext) "nhc AND NHC_EXT_HEADER_MASK = NHC_EXT_HEADER" "nhc AND NHC_EXT_ID_MASK \<noteq> NHC_EXT_IPV6" "nhc_is_exthdr nhc"
      | (bad) "nhc AND NHC_EXT_HEADER_MASK = NHC_EXT_HEADER" "nhc AND NHC_EXT_ID_MASK \<noteq> NHC_EXT_IPV6" "\<not> nhc_is_exthdr nhc"
      | (udp) "nhc AND NHC_EXT_HEADER_MASK \<noteq> NHC_EXT_HEADER" "nhc AND NHC_UDP_MASK = NHC_UDP"
      | (other) "nhc AND NHC_EXT_HEADER_MASK \<noteq> NHC_EXT_HEADER" "nhc AND NHC_UDP_MASK \<noteq> NHC_UDP" by blast
    then show ?thesis
    proof cases
      case ip
      have "scan_result st e (ptr + 1 - st) (iphc_scan_ip m st e (ptr + 1) un)"
        using 2(1) [OF in_range ld ip] 2(3-7) by simp
      then show ?thesis using ip in_range ld unfolding eq by (auto elim: scan_result_weaken)
    next
      case ext
      define more where "more = (nhc AND NHC_EXT_NH \<noteq> 0)"
      define p where "p = (if more then ptr + 1 else ptr + 2)"
      show ?thesis
      proof (cases "p \<ge> e")
        case True
        then show ?thesis using ext in_range ld unfolding eq by (simp add: p_def more_def scan_result_def)
      next
        case False
        obtain len where len: "load m p = Some len" using False 2(3) by (simp add: load_def)
        define d where "d = (if nhc AND NHC_EXT_ID_MASK = NHC_EXT_FRAG then 7 else 1 + unat len)"
        define u where "u = (if nhc AND NHC_EXT_ID_MASK = NHC_EXT_FRAG then 8 else (2 + unat len + 7) div 8 * 8)"
        have du: "d + 1 \<le> u" "u \<le> d + 8" "d \<le> 256"
          using round_up_8 [of "unat len"] unat_u8_lt [of len] by (simp_all add: d_def u_def)
        have wrap: "(un + u) mod 65536 = un + u" using du c 2(6) by simp
        have size: "(if nhc AND NHC_EXT_ID_MASK = NHC_EXT_FRAG then Some (p + 7, (un + 8) mod 65536)
            else load m p \<bind> (\<lambda>len. Some (p + 1 + unat len, (un + (2 + unat len + 7) div 8 * 8) mod 65536))) = Some (p + d, (un + u) mod 65536)"
          by (simp add: d_def u_def len)
        have step: "iphc_scan_nhc m st e ptr un =
            (if more then iphc_scan_nhc m st e (p + d) (un + u) else Some (iphc_scan_end st e (p + d) (un + u)))"
          using ext in_range ld False size unfolding eq p_def more_def by (simp add: wrap Let_def)
        show ?thesis
        proof (cases more)
          case True
          have "scan_result st e (p + d - st) (iphc_scan_nhc m st e (p + d) (un + u))"
            using 2(2) [OF in_range ld ext more_def p_def False size refl True] 2(3-7) du True by (simp add: wrap p_def)
          then show ?thesis using step True by (auto simp: p_def elim: scan_result_weaken)
        next
          case no: False
          show ?thesis unfolding step using no du c 2(4,6,7) by (simp add: scan_end_result p_def)
        qed
      qed
    next
      case udp
      then show ?thesis using in_range ld c 2(4,6,7) nhc_udp_len_le [of nhc] unfolding eq by (simp add: scan_end_result nhc_udp_len_def)
    next
      case bad
      then show ?thesis using in_range ld c 2(4,6,7) unfolding eq by (simp add: scan_end_result)
    next
      case other
      then show ?thesis using in_range ld c 2(4,6,7) unfolding eq by (simp add: scan_end_result)
    qed
  qed
qed


text \<open>
  A scan that succeeds reads nothing beyond the compressed headers: on any other packet with the same headers,
  wherever it lies in its buffer, the scan has the same result.
\<close>

lemma iphc_scan_end_SomeD:
  assumes "iphc_scan_end st e ptr un = (h, u)" and "h \<noteq> 0" and "st \<le> ptr" and "e - st < 65536"
  shows "h = ptr - st" and "u = un" and "ptr \<le> e"
  using assms by (auto simp: iphc_scan_end_def split: if_splits)

lemma iphc_scan_end_eq: "st + h \<le> e \<Longrightarrow> h < 65536 \<Longrightarrow> iphc_scan_end st e (st + h) un = (h, un)"
  by (simp add: iphc_scan_end_def)

lemma iphc_scan_move_aux:
  fixes m' :: "u8 list" and st' e' h u :: nat
  assumes room: "st' + h \<le> e'" "e' \<le> length m'" and h: "h \<noteq> 0"
  shows "iphc_scan_ip m st e ptr un = Some (h, u) \<Longrightarrow> st \<le> ptr \<Longrightarrow> e - st < 65536 \<Longrightarrow> e \<le> length m \<Longrightarrow> \<forall>i<h. m' ! (st' + i) = m ! (st + i) \<Longrightarrow>
     ptr < st + h \<and> st + h \<le> e \<and> iphc_scan_ip m' st' e' (st' + (ptr - st)) un = Some (h, u)"
  "iphc_scan_nhc m st e ptr un = Some (h, u) \<Longrightarrow> st \<le> ptr \<Longrightarrow> e - st < 65536 \<Longrightarrow> e \<le> length m \<Longrightarrow> \<forall>i<h. m' ! (st' + i) = m ! (st + i) \<Longrightarrow>
     ptr < st + h \<and> st + h \<le> e \<and> iphc_scan_nhc m' st' e' (st' + (ptr - st)) un = Some (h, u)"
proof (induction m st e ptr un and m st e ptr un rule: iphc_scan_ip_iphc_scan_nhc.induct)
  case (1 m st e ptr un)
  note eq = iphc_scan_ip.simps [of m st e ptr un] and r = 1(2)
  have f: "\<not> ptr + 2 > e" using r h unfolding eq by (auto split: if_splits)
  then have ld: "load m ptr = Some (m ! ptr)" "load m (ptr + 1) = Some (m ! (ptr + 1))" using 1(5) by (simp_all add: load_def)
  have d: "m ! ptr AND LOWPAN_DISPATCH_IPHC_MASK = LOWPAN_DISPATCH_IPHC" using r h f ld unfolding eq by (auto split: if_splits)
  obtain l where l: "iphc_inline_len (m ! ptr) (m ! (ptr + 1)) = Some l"
    using r h f ld d unfolding eq by (cases "iphc_inline_len (m ! ptr) (m ! (ptr + 1))") simp_all
  let ?un = "(un + 40) mod 65536" and ?q = "st' + (ptr - st)"
  have go: "ptr + 2 + l \<le> st + h \<and> st + h \<le> e \<and> (if m ! ptr AND HC_NEXT_HEADER_MASK \<noteq> 0 then iphc_scan_nhc m' st' e' (?q + 2 + l) ?un
      else Some (iphc_scan_end st' e' (?q + 2 + l) ?un)) = Some (h, u)"
  proof (cases "m ! ptr AND HC_NEXT_HEADER_MASK = 0")
    case True
    then have "iphc_scan_end st e (ptr + 2 + l) ?un = (h, u)" using r f ld d l unfolding eq by simp
    from iphc_scan_end_SomeD [OF this h _ 1(4)] 1(3) have z: "h = ptr + 2 + l - st" "u = ?un" "ptr + 2 + l \<le> e" by simp_all
    then have "?q + 2 + l = st' + h" using 1(3) by simp
    then show ?thesis using True z 1(3,4) iphc_scan_end_eq [OF room(1), of ?un] by simp
  next
    case False
    have "iphc_scan_nhc m st e (ptr + 2 + l) ?un = Some (h, u)" using r f ld d l False unfolding eq by simp
    from 1(1) [OF f ld(1) _ ld(2) l False this] 1(3-6) d
    have go: "ptr + 2 + l < st + h \<and> st + h \<le> e \<and> iphc_scan_nhc m' st' e' (st' + (ptr + 2 + l - st)) ?un = Some (h, u)" by simp
    have "st' + (ptr + 2 + l - st) = ?q + 2 + l" using 1(3) by simp
    then show ?thesis using False go by (simp only:) simp
  qed
  have lt: "ptr - st < h" "ptr - st + 1 < h" using go 1(3) by linarith+
  have "m' ! ?q = m ! ptr" "m' ! (?q + 1) = m ! (ptr + 1)"
    using lt 1(3) spec [OF 1(6), of "ptr - st"] spec [OF 1(6), of "ptr - st + 1"] by (simp_all add: add.assoc)
  then have ld': "load m' ?q = Some (m ! ptr)" "load m' (?q + 1) = Some (m ! (ptr + 1))" using lt room by (simp_all add: load_def)
  have "\<not> ?q + 2 > e'" using lt room by simp
  then show ?case using go 1(3) ld' d l unfolding iphc_scan_ip.simps [of m' st' e' ?q un] by simp
next
  case (2 m st e ptr un)
  note eq = iphc_scan_nhc.simps [of m st e ptr un] and r = 2(3)
  let ?q = "st' + (ptr - st)"
  have f: "\<not> ptr \<ge> e" using r h unfolding eq by (auto split: if_splits)
  then have ld: "load m ptr = Some (m ! ptr)" using 2(6) by (simp add: load_def)
  define nhc where "nhc = m ! ptr"
  note ld = ld [folded nhc_def]
  have same: "load m' (st' + (i - st)) = load m i" if "st \<le> i" "i < st + h" "i < e" for i
  proof -
    have "m' ! (st' + (i - st)) = m ! i" using spec [OF 2(7), of "i - st"] that by simp
    then show ?thesis using that room 2(6) by (simp add: load_def)
  qed
  have last: "ptr + d \<le> e \<and> h = ptr + d - st \<and> (0 < d \<longrightarrow> ptr < st + h \<and> st + h \<le> e \<and> \<not> e' \<le> ?q) \<and> Some (iphc_scan_end st' e' (?q + d) un') = Some (h, u)"
    if "iphc_scan_nhc m st e ptr un = Some (iphc_scan_end st e (ptr + d) un')" for d un'
  proof -
    have "iphc_scan_end st e (ptr + d) un' = (h, u)" using that r by simp
    from iphc_scan_end_SomeD [OF this h _ 2(5)] 2(4) have z: "h = ptr + d - st" "u = un'" "ptr + d \<le> e" by simp_all
    then have q: "?q + d = st' + h" using 2(4) by simp
    have "0 < d \<longrightarrow> ptr < st + h \<and> st + h \<le> e \<and> \<not> e' \<le> ?q" using z 2(4) room(1) q by linarith
    then show ?thesis using q z 2(4,5) iphc_scan_end_eq [OF room(1), of un'] by simp
  qed
  note eq' = iphc_scan_nhc.simps [of m' st' e' ?q un]
  consider (ip) "nhc AND NHC_EXT_HEADER_MASK = NHC_EXT_HEADER" "nhc AND NHC_EXT_ID_MASK = NHC_EXT_IPV6"
    | (ext) "nhc AND NHC_EXT_HEADER_MASK = NHC_EXT_HEADER" "nhc AND NHC_EXT_ID_MASK \<noteq> NHC_EXT_IPV6" "nhc_is_exthdr nhc"
    | (bad) "nhc AND NHC_EXT_HEADER_MASK = NHC_EXT_HEADER" "nhc AND NHC_EXT_ID_MASK \<noteq> NHC_EXT_IPV6" "\<not> nhc_is_exthdr nhc"
    | (udp) "nhc AND NHC_EXT_HEADER_MASK \<noteq> NHC_EXT_HEADER" "nhc AND NHC_UDP_MASK = NHC_UDP"
    | (other) "nhc AND NHC_EXT_HEADER_MASK \<noteq> NHC_EXT_HEADER" "nhc AND NHC_UDP_MASK \<noteq> NHC_UDP" by blast
  then show ?case
  proof cases
    case ip
    then have "iphc_scan_ip m st e (ptr + 1) un = Some (h, u)" using r f ld unfolding eq by simp
    from 2(1) [OF f ld ip this] 2(4-7)
    have go: "ptr + 1 < st + h \<and> st + h \<le> e \<and> iphc_scan_ip m' st' e' (st' + (ptr + 1 - st)) un = Some (h, u)" by simp
    have "st' + (ptr + 1 - st) = ?q + 1" using 2(4) by simp
    then have "iphc_scan_ip m' st' e' (?q + 1) un = Some (h, u)" using go by (simp only:)
    moreover have "\<not> ?q \<ge> e'" using go 2(4) room by linarith
    ultimately show ?thesis using same [of ptr] ld f ip 2(4) go unfolding eq' by (simp del: add_Suc_right)
  next
    case ext
    define more where "more = (nhc AND NHC_EXT_NH \<noteq> 0)"
    define k :: nat where "k = (if more then 1 else 2)"
    define p where "p = (if more then ptr + 1 else ptr + 2)"
    have p: "p = ptr + k" by (simp add: p_def k_def)
    have pe: "\<not> p \<ge> e" using r h ext f ld unfolding eq by (auto simp: p_def more_def split: if_splits)
    then obtain len where len: "load m p = Some len" using 2(6) by (simp add: load_def)
    define d where "d = (if nhc AND NHC_EXT_ID_MASK = NHC_EXT_FRAG then 7 else 1 + unat len)"
    define v where "v = (if nhc AND NHC_EXT_ID_MASK = NHC_EXT_FRAG then (un + 8) mod 65536 else (un + (2 + unat len + 7) div 8 * 8) mod 65536)"
    have size: "(if nhc AND NHC_EXT_ID_MASK = NHC_EXT_FRAG then Some (i + 7, (un + 8) mod 65536)
        else load a i \<bind> (\<lambda>len. Some (i + 1 + unat len, (un + (2 + unat len + 7) div 8 * 8) mod 65536))) = Some (i + d, v)"
      if "load a i = Some len" for i a using that by (simp add: d_def v_def)
    have step: "iphc_scan_nhc m st e ptr un = (if more then iphc_scan_nhc m st e (ptr + (k + d)) v else Some (iphc_scan_end st e (ptr + (k + d)) v))"
      unfolding eq ld bind.bind_lunit Let_def more_def [symmetric] p_def [symmetric]
      unfolding size [OF len] bind.bind_lunit prod.case using ext f pe by (simp add: p add.assoc)
    have go: "ptr + k + d \<le> st + h \<and> st + h \<le> e \<and>
        (if more then iphc_scan_nhc m' st' e' (?q + (k + d)) v else Some (iphc_scan_end st' e' (?q + (k + d)) v)) = Some (h, u)"
    proof (cases more)
      case True
      have "iphc_scan_nhc m st e (p + d) v = Some (h, u)" using r step True by (simp add: p add.assoc)
      from 2(2) [OF f ld ext more_def p_def pe size [OF len] refl True this] 2(4-7) p
      have go: "p + d < st + h \<and> st + h \<le> e \<and> iphc_scan_nhc m' st' e' (st' + (p + d - st)) v = Some (h, u)" by simp
      have "st' + (p + d - st) = ?q + (k + d)" using 2(4) by (simp add: p)
      then show ?thesis using True go p by (simp only:) simp
    next
      case False
      then show ?thesis using last [of "k + d" v] step 2(4) by simp
    qed
    have d1: "1 \<le> d" by (simp add: d_def)
    have qk: "?q + k = st' + (p - st)" using 2(4) by (simp add: p)
    have ld': "load m' ?q = Some nhc" "load m' (?q + k) = Some len"
      unfolding qk using same [of ptr] same [of p] go d1 ld len f pe 2(4) p by (simp_all only:) simp_all
    have "\<not> ?q \<ge> e'" "\<not> ?q + k \<ge> e'" using go d1 room 2(4) by linarith+
    moreover have q: "(if more then ?q + 1 else ?q + 2) = ?q + k" by (simp add: k_def)
    ultimately have "iphc_scan_nhc m' st' e' ?q un = Some (h, u)"
      unfolding eq' ld'(1) bind.bind_lunit Let_def more_def [symmetric] q
      unfolding size [OF ld'(2)] bind.bind_lunit prod.case using go ext by (cases more) (simp_all add: add.assoc)
    then show ?thesis using go d1 by simp
  next
    case bad
    then have "iphc_scan_nhc m st e ptr un = Some (iphc_scan_end st e (ptr + 1) un)" using f ld unfolding eq by simp
    from last [OF this] show ?thesis using f ld bad same [of ptr] 2(4) unfolding eq' by simp
  next
    case udp
    then have "iphc_scan_nhc m st e ptr un = Some (iphc_scan_end st e (ptr + (1 + nhc_udp_len nhc)) ((un + 8) mod 65536))"
      using f ld unfolding eq by simp
    from last [OF this] show ?thesis using f ld udp same [of ptr] 2(4) unfolding eq' by (simp add: add.assoc)
  next
    case other
    then have "iphc_scan_nhc m st e ptr un = Some (iphc_scan_end st e (ptr + 1) un)" using f ld unfolding eq by simp
    from last [OF this] show ?thesis using f ld other same [of ptr] 2(4) unfolding eq' by simp
  qed
qed


lemma iphc_header_scan_safe:
  assumes "buffer_ok b" and "length (buffer_data b) \<le> 3000"
  obtains h u where "iphc_header_scan b = Some (h, u)" and "h \<le> length (buffer_data b)"
    and "(h, u) = (0, 0) \<or> (h, u) = (1, 0) \<or> 40 * h \<le> 41 * u \<and> u \<le> 14 * h + 20"
proof -
  note le = buffer_ok_le [OF assms(1)] and n = length_buffer_data [OF assms(1)]
  have "scan_result (b_ptr b) (b_end b) 0 (iphc_scan_ip (b_buf b) (b_ptr b) (b_end b) (b_ptr b) 0)"
    using iphc_scan_safe(1) [of "b_end b" "b_buf b" "b_ptr b" "b_ptr b" 0] le assms(2) n by simp
  then obtain h u where r: "iphc_scan_ip (b_buf b) (b_ptr b) (b_end b) (b_ptr b) 0 = Some (h, u)" "h \<le> length (buffer_data b)"
      "(h, u) = (0, 0) \<or> 40 * h \<le> 41 * u \<and> u \<le> 14 * h + 20"
    using n by (auto simp: scan_result_def)
  show ?thesis
  proof (cases "b_ptr b < b_end b \<and> b_buf b ! b_ptr b = LOWPAN_DISPATCH_IPV6")
    case True
    then show ?thesis using le n by (intro that [of 1 0]) (auto simp: iphc_header_scan_def load_def)
  next
    case False
    then show ?thesis using r le by (intro that [of h u]) (auto simp: iphc_header_scan_def Let_def load_def)
  qed
qed

lemma iphc_header_scan_prefix:
  assumes "buffer_ok b" and "buffer_ok b'" and "iphc_header_scan b = Some (h, u)" and "h \<noteq> 0"
    and "take h (buffer_data b') = take h (buffer_data b)" and "h \<le> length (buffer_data b)" and "h \<le> length (buffer_data b')"
  shows "iphc_header_scan b' = Some (h, u)"
proof -
  note le = buffer_ok_le [OF assms(1)] and le' = buffer_ok_le [OF assms(2)]
  note n = length_buffer_data [OF assms(1)] and n' = length_buffer_data [OF assms(2)]
  have nth: "b_buf b' ! (b_ptr b' + i) = b_buf b ! (b_ptr b + i)" if "i < h" for i
  proof -
    have "buffer_data b' ! i = buffer_data b ! i" using arg_cong [OF assms(5), of "\<lambda>l. l ! i"] that by simp
    then show ?thesis using that assms(6,7) n n' le le' by (simp add: buffer_data_def)
  qed
  have first: "b_ptr b < b_end b" "b_ptr b' < b_end b'" using assms(4,6,7) n n' by simp_all
  then have ld: "load (b_buf b) (b_ptr b) = Some (b_buf b ! b_ptr b)" "load (b_buf b') (b_ptr b') = Some (b_buf b ! b_ptr b)"
    using le le' nth [of 0] assms(4) by (simp_all add: load_def)
  show ?thesis
  proof (cases "b_buf b ! b_ptr b = LOWPAN_DISPATCH_IPV6")
    case True
    then show ?thesis using assms(3) first ld by (simp add: iphc_header_scan_def Let_def)
  next
    case False
    then have "iphc_scan_ip (b_buf b) (b_ptr b) (b_end b) (b_ptr b) 0 = Some (h, u)"
      using assms(3) first ld by (simp add: iphc_header_scan_def Let_def)
    from iphc_scan_move_aux(1) [OF _ _ assms(4) this, of "b_ptr b'" "b_end b'" "b_buf b'"]
    have "iphc_scan_ip (b_buf b') (b_ptr b') (b_end b') (b_ptr b') 0 = Some (h, u)" using le le' n' assms(7) nth by simp
    then show ?thesis using False first ld by (simp add: iphc_header_scan_def Let_def)
  qed
qed

end
