(* ===== verification/Reassembly.thy ===== *)
theory Reassembly
  imports Iphc
begin

text \<open>
  \<open>src/stack/source/6lowpan/fragmentation/cipv6_fragmenter.c\<close>: reassembly of 6LoWPAN fragments (RFC 4944). An
  interface has a pool of entries; an entry in use holds a buffer for the whole datagram, and the ranges still missing
  (the holes) are linked through descriptors that are stored in the holes themselves, as in RFC 815.

  Offsets in the fragments count the uncompressed datagram, so the data of the first fragment is placed by its end, and
  \<open>pattern\<close> is the difference between the uncompressed and the compressed length of the headers.

  The trailing array of a buffer starts at an even address (it follows a pointer in the structure), so aligning
  an address is aligning the index. \<open>None\<close> is an access outside an object, a failed \<open>BUG\<close>, or a hole list that does
  not end. Statistics and traces are left out.
\<close>

section \<open>State\<close>

record reassembly_entry =
  r_ttl :: nat
  r_tag :: nat
  r_size :: nat
  r_orig_size :: nat
  r_frag_max :: nat
  r_offset :: nat
  r_pattern :: int
  r_buf :: "buffer option"

record reassembly_interface =
  ri_id :: int
  ri_timeout :: nat
  ri_rx :: "reassembly_entry list"
  ri_free :: "reassembly_entry list"

definition LOWPAN_FRAGN_BIT :: u8 where
  "LOWPAN_FRAGN_BIT = 0x20"

section \<open>Holes\<close>

text \<open>A hole descriptor: three 16 bit numbers, in the byte order of the host (little endian).\<close>

definition hole_pointer :: "nat \<Rightarrow> nat \<Rightarrow> nat" where
  "hole_pointer base off = (base + off + 1) div 2 * 2"

definition hole_get :: "u8 list \<Rightarrow> nat \<Rightarrow> (nat \<times> nat \<times> nat) option" where
  "hole_get m p = do { f \<leftarrow> read_le16 (drop p m); l \<leftarrow> read_le16 (drop (p + 2) m); n \<leftarrow> read_le16 (drop (p + 4) m);
     Some (unat f, unat l, unat n) }"

text \<open>\<open>prev_ptr\<close> points to the list head in the entry, or to the \<open>next\<close> field of a descriptor at an index of the buffer.\<close>

datatype hole_link = Head | Next nat

definition link_get :: "u8 list \<Rightarrow> nat \<Rightarrow> hole_link \<Rightarrow> nat option" where
  "link_get m off prev = (case prev of Head \<Rightarrow> Some off | Next p \<Rightarrow> do { v \<leftarrow> read_le16 (drop p m); Some (unat v) })"

definition link_set :: "u8 list \<Rightarrow> nat \<Rightarrow> hole_link \<Rightarrow> nat \<Rightarrow> (u8 list \<times> nat) option" where
  "link_set m off prev v = (case prev of Head \<Rightarrow> Some (m, v) | Next p \<Rightarrow> do { m \<leftarrow> store_n m p (le_bytes 2 v); Some (m, off) })"

definition delete_hole :: "nat \<Rightarrow> u8 list \<Rightarrow> nat \<Rightarrow> nat \<Rightarrow> hole_link \<Rightarrow> (u8 list \<times> nat) option" where
  "delete_hole base m off hole prev = do { (f, l, n) \<leftarrow> hole_get m (hole_pointer base hole); link_set m off prev n }"

definition create_hole :: "nat \<Rightarrow> u8 list \<Rightarrow> nat \<Rightarrow> nat \<Rightarrow> nat \<Rightarrow> hole_link \<Rightarrow> (u8 list \<times> nat) option" where
  "create_hole base m off first lst prev =
     (let p = hole_pointer base first in
      do { m \<leftarrow> store_n m p (le_bytes 2 first @ le_bytes 2 lst);
           n \<leftarrow> link_get m off prev;
           m \<leftarrow> store_n m (p + 4) (le_bytes 2 n);
           link_set m off prev first })"

text \<open>
  The part of the loop body from step 4 of RFC 815 on: the hole \<open>hole_off\<close>, from \<open>hf\<close> to \<open>hl\<close>, is unhooked and what the
  fragment leaves of it at the front and at the back is hooked in.
\<close>

definition hole_fill :: "nat \<Rightarrow> nat \<Rightarrow> nat \<Rightarrow> u8 list \<Rightarrow> nat \<Rightarrow> nat \<Rightarrow> hole_link \<Rightarrow> nat \<Rightarrow> nat \<Rightarrow> (u8 list \<times> nat) option" where
  "hole_fill base ff fl m off hole_off prev hf hl =
     do { (m, off) \<leftarrow> delete_hole base m off hole_off prev;
          (m, off, prev) \<leftarrow> (if ff > hf then do { (m, off) \<leftarrow> create_hole base m off hf (ff - 1) prev; Some (m, off, Next (hole_pointer base hf + 4)) }
                             else Some (m, off, prev));
          if fl < hl then create_hole base m off (fl + 1) hl prev else Some (m, off) }"

partial_function (option) hole_loop :: "nat \<Rightarrow> nat \<Rightarrow> nat \<Rightarrow> nat \<Rightarrow> u8 list \<Rightarrow> nat \<Rightarrow> nat \<Rightarrow> hole_link \<Rightarrow> (u8 list \<times> nat) option" where
  "hole_loop base sz ff fl m off hole_off prev =
     do { (hf, hl, hn) \<leftarrow> hole_get m (hole_pointer base hole_off);
          if ff > hl \<or> fl < hf
          then (if hn \<noteq> 0xffff then hole_loop base sz ff fl m off hn (Next (hole_pointer base hole_off + 4)) else Some (m, off))
          else if ff < hf \<or> fl > hl
          then do { (m, off) \<leftarrow> create_hole base m 0xffff 0 (sz - 1) Head; hole_fill base ff fl m off 0 Head 0 (sz - 1) }
          else hole_fill base ff fl m off hole_off prev hf hl }"

section \<open>Entries\<close>

definition reassembly_entry_free :: "reassembly_interface \<Rightarrow> nat \<Rightarrow> reassembly_interface" where
  "reassembly_entry_free ri i = ri\<lparr>ri_rx := take i (ri_rx ri) @ drop (i + 1) (ri_rx ri), ri_free := (ri_rx ri ! i)\<lparr>r_buf := None\<rparr> # ri_free ri\<rparr>"

text \<open>\<open>memcmp\<close> of the two addresses behind the PAN identifier; the number of bytes is a \<open>size_t\<close>, so a type of length 0 compares almost everything.\<close>

definition same_mac :: "sockaddr \<Rightarrow> sockaddr \<Rightarrow> bool option" where
  "same_mac a b = (let n = addr_len_from_type (addr_type b) in
     if n < 2 then None else do { x \<leftarrow> load_n (address a) 2 (n - 2); y \<leftarrow> load_n (address b) 2 (n - 2); Some (x = y) })"

definition reassembly_match :: "reassembly_entry \<Rightarrow> buffer \<Rightarrow> nat \<Rightarrow> nat \<Rightarrow> bool option" where
  "reassembly_match e b tag sz =
     (if r_tag e = tag \<and> r_size e = sz then
        do { rb \<leftarrow> r_buf e;
             if addr_type (b_src_sa rb) = addr_type (b_src_sa b) \<and> addr_type (b_dst_sa rb) = addr_type (b_dst_sa b)
             then do { s \<leftarrow> same_mac (b_src_sa rb) (b_src_sa b); if s then same_mac (b_dst_sa rb) (b_dst_sa b) else Some False }
             else Some False }
      else Some False)"

fun reassembly_already_action :: "reassembly_entry list \<Rightarrow> buffer \<Rightarrow> nat \<Rightarrow> nat \<Rightarrow> nat option option" where
  "reassembly_already_action [] b tag sz = Some None"
| "reassembly_already_action (e # es) b tag sz =
     do { hit \<leftarrow> reassembly_match e b tag sz;
          if hit then Some (Some 0) else do { r \<leftarrow> reassembly_already_action es b tag sz; Some (map_option Suc r) } }"

definition reassembly_entry_zero :: reassembly_entry where
  "reassembly_entry_zero = \<lparr>r_ttl = 0, r_tag = 0, r_size = 0, r_orig_size = 0, r_frag_max = 0, r_offset = 0, r_pattern = 0, r_buf = None\<rparr>"

definition lowpan_adaptation_reassembly_get :: "reassembly_interface \<Rightarrow> reassembly_interface option" where
  "lowpan_adaptation_reassembly_get ri = (case ri_free ri of [] \<Rightarrow> None
     | e # es \<Rightarrow> Some (ri\<lparr>ri_free := es, ri_rx := reassembly_entry_zero # ri_rx ri\<rparr>))"

section \<open>A fragment arrives\<close>

text \<open>The fragment header: datagram size, tag, offset, and the index of the payload. \<open>Some None\<close> is \<open>goto reassembly_error\<close>.\<close>

definition frag_header :: "buffer \<Rightarrow> (nat \<times> nat \<times> nat \<times> nat) option option" where
  "frag_header b =
     (let m = b_buf b; ptr = b_ptr b in
      if buffer_data_length b < 4 then Some None
      else do { h \<leftarrow> load m ptr;
                v \<leftarrow> read_be16 (drop ptr m);
                let sz = unat (v AND 0x07FF);
                if sz = 0 then Some None
                else do { tag \<leftarrow> read_be16 (drop (ptr + 2) m);
                          if h AND LOWPAN_FRAGN_BIT \<noteq> 0 then
                            (if buffer_data_length b < 5 then Some None
                             else do { o8 \<leftarrow> load m (ptr + 4); Some (Some (sz, unat tag, unat o8 * 8, ptr + 5)) })
                          else Some (Some (sz, unat tag, 0, ptr + 4)) } })"

text \<open>A new entry for the datagram, at the front of the list of those in use; \<open>Some None\<close> when the pool or the memory is exhausted.\<close>

definition reassembly_start :: "(nat \<Rightarrow> u8 list option) \<Rightarrow> reassembly_interface \<Rightarrow> buffer \<Rightarrow> nat \<Rightarrow> nat \<Rightarrow> (reassembly_interface \<times> bool) option" where
  "reassembly_start alloc ri b tag sz =
     (case lowpan_adaptation_reassembly_get ri of None \<Rightarrow> Some (ri, False)
      | Some ri \<Rightarrow>
         (case buffer_get alloc (1 + (sz + 7) div 8 * 8) of None \<Rightarrow> Some (reassembly_entry_free ri 0, False)
          | Some rb \<Rightarrow>
             do { rb \<leftarrow> buffer_data_strip_header (buffer_data_length_set (rb\<lparr>b_src_sa := b_src_sa b, b_dst_sa := b_dst_sa b\<rparr>) (1 + sz)) 1;
                  (m, off) \<leftarrow> create_hole (b_ptr rb) (b_buf rb) 0xffff 0 (sz - 1) Head;
                  let e = (ri_rx ri ! 0)\<lparr>r_ttl := ri_timeout ri, r_tag := tag, r_size := sz, r_offset := off, r_buf := Some (rb\<lparr>b_buf := m\<rparr>)\<rparr>;
                  Some (ri\<lparr>ri_rx := (ri_rx ri)[0 := e]\<rparr>, True) }))"

text \<open>Conversion to \<open>int16_t\<close>.\<close>

definition to_s16 :: "int \<Rightarrow> int" where
  "to_s16 x = (let y = x mod 65536 in if y < 32768 then y else y - 65536)"

text \<open>
  The sizes of a fragment, on the 6LoWPAN side and on the IPv6 side, and the entry after a first fragment: \<open>pattern\<close> and the
  metadata of the buffer are taken from it. The compressed header size is kept in 8 bits.
\<close>

definition frag_sizes :: "reassembly_entry \<Rightarrow> buffer \<Rightarrow> buffer \<Rightarrow> nat \<Rightarrow> (reassembly_entry \<times> buffer \<times> buffer \<times> nat \<times> nat) option" where
  "frag_sizes e rb b first =
     (let lowpan_size = nat (buffer_data_length b) mod 65536 in
      if first = 0
      then do { (hc, un) \<leftarrow> iphc_header_scan b;
                let ipv6_size = nat ((int lowpan_size - int (hc mod 256) + int un) mod 65536);
                let sec = b_ll_security_bypass_rx rb;
                let (rb, b) = buffer_copy_metadata rb b True;
                let rb = rb\<lparr>b_ll_security_bypass_rx := sec\<rparr>;
                Some (e\<lparr>r_pattern := to_s16 (int ipv6_size - int lowpan_size), r_buf := Some rb\<rparr>, rb, b, lowpan_size, ipv6_size) }
      else Some (e, rb, b, lowpan_size, lowpan_size))"

text \<open>The fragment goes into entry \<open>i\<close>.\<close>

definition reassembly_add :: "reassembly_interface \<Rightarrow> nat \<Rightarrow> buffer \<Rightarrow> nat \<Rightarrow> nat \<Rightarrow> (reassembly_interface \<times> buffer option) option" where
  "reassembly_add ri i b first sz =
     do { rb \<leftarrow> r_buf (ri_rx ri ! i);
          (e, rb, b, lowpan_size, ipv6_size) \<leftarrow> frag_sizes (ri_rx ri ! i) rb b first;
          let ri = ri\<lparr>ri_rx := (ri_rx ri)[i := e]\<rparr>;
          let lst = (first + ipv6_size + 65535) mod 65536;
          if ipv6_size mod 8 \<noteq> 0 \<and> lst + 1 \<noteq> sz then Some (ri, None)
          else if lst \<ge> sz then Some (reassembly_entry_free ri i, None)
          else do {
            (m, off) \<leftarrow> hole_loop (b_ptr rb) sz first lst (b_buf rb) (r_offset e) (r_offset e) Head;
            bs \<leftarrow> load_n (b_buf b) (b_ptr b) lowpan_size;
            let dst = int (b_ptr rb) + int lst + 1 - int lowpan_size;
            m \<leftarrow> (if dst < 0 then None else store_n m (nat dst) bs);
            let rb = rb\<lparr>b_buf := m, b_ll_security_bypass_rx := b_ll_security_bypass_rx rb \<or> b_ll_security_bypass_rx b\<rparr>;
            let e = e\<lparr>r_offset := off, r_buf := Some rb\<rparr>;
            let ri = ri\<lparr>ri_rx := (ri_rx ri)[i := e]\<rparr>;
            if off \<noteq> 0xffff then Some (ri, None)
            else Some (reassembly_entry_free ri i,
                   Some (rb\<lparr>b_ptr := nat ((int (b_ptr rb) + r_pattern e) mod 65536), b_info := B_DIR_UP OR B_FROM_FRAGMENTATION OR B_TO_IPV6_TXRX\<rparr>)) } }"

definition frag_reassembly :: "(nat \<Rightarrow> u8 list option) \<Rightarrow> reassembly_interface \<Rightarrow> buffer \<Rightarrow> (reassembly_interface \<times> buffer option) option" where
  "frag_reassembly alloc ri b =
     do { h \<leftarrow> frag_header b;
          case h of None \<Rightarrow> Some (ri, None)
          | Some (sz, tag, first, ptr) \<Rightarrow>
             (let b = buffer_data_pointer_set b ptr in
              do { found \<leftarrow> reassembly_already_action (ri_rx ri) b tag sz;
                   case found of Some i \<Rightarrow> reassembly_add ri i b first sz
                   | None \<Rightarrow> do { (ri, ok) \<leftarrow> reassembly_start alloc ri b tag sz;
                                 if ok then reassembly_add ri 0 b first sz else Some (ri, None) } }) }"

fun reassembly_interface_discover :: "reassembly_interface list \<Rightarrow> int \<Rightarrow> nat option" where
  "reassembly_interface_discover [] iid = None"
| "reassembly_interface_discover (ri # ris) iid = (if iid = ri_id ri then Some 0 else map_option Suc (reassembly_interface_discover ris iid))"

definition cipv6_frag_reassembly ::
  "(nat \<Rightarrow> u8 list option) \<Rightarrow> reassembly_interface list \<Rightarrow> int \<Rightarrow> buffer \<Rightarrow> (reassembly_interface list \<times> buffer option) option" where
  "cipv6_frag_reassembly alloc ris iid b =
     (case reassembly_interface_discover ris iid of None \<Rightarrow> Some (ris, None)
      | Some k \<Rightarrow> do { (ri, r) \<leftarrow> frag_reassembly alloc (ris ! k) b; Some (ris[k := ri], r) })"

section \<open>Timer and interface\<close>

text \<open>\<open>i\<close> is the position of the entry the loop looks at; an entry that is freed makes room for the next one.\<close>

function reassembly_entry_timer_update :: "reassembly_interface \<Rightarrow> nat \<Rightarrow> nat \<Rightarrow> reassembly_interface" where
  "reassembly_entry_timer_update ri i seconds =
     (if i < length (ri_rx ri) then
        (let e = ri_rx ri ! i in
         if r_ttl e > seconds then reassembly_entry_timer_update (ri\<lparr>ri_rx := (ri_rx ri)[i := e\<lparr>r_ttl := r_ttl e - seconds\<rparr>]\<rparr>) (i + 1) seconds
         else reassembly_entry_timer_update (reassembly_entry_free ri i) i seconds)
      else ri)"
  by pat_completeness auto
termination
  by (relation "measure (\<lambda>(ri, i, seconds). length (ri_rx ri) - i)") (auto simp: reassembly_entry_free_def)

declare reassembly_entry_timer_update.simps [simp del]

definition cipv6_frag_timer :: "reassembly_interface list \<Rightarrow> int \<Rightarrow> reassembly_interface list" where
  "cipv6_frag_timer ris seconds = map (\<lambda>ri. reassembly_entry_timer_update ri 0 (nat (seconds mod 65536))) ris"

fun reassembly_list_free :: "nat \<Rightarrow> reassembly_interface \<Rightarrow> reassembly_interface" where
  "reassembly_list_free 0 ri = ri"
| "reassembly_list_free (Suc n) ri = reassembly_list_free n (reassembly_entry_free ri 0)"

definition reassembly_interface_reset :: "reassembly_interface list \<Rightarrow> int \<Rightarrow> int \<times> reassembly_interface list" where
  "reassembly_interface_reset ris iid = (case reassembly_interface_discover ris iid of None \<Rightarrow> (-1, ris)
     | Some k \<Rightarrow> (0, ris[k := reassembly_list_free (length (ri_rx (ris ! k))) (ris ! k)]))"

definition reassembly_interface_free :: "reassembly_interface list \<Rightarrow> int \<Rightarrow> int \<times> reassembly_interface list" where
  "reassembly_interface_free ris iid = (case reassembly_interface_discover ris iid of None \<Rightarrow> (-1, ris)
     | Some k \<Rightarrow> (0, take k ris @ drop (k + 1) ris))"

text \<open>\<open>pool\<close> is the allocation of the entries, with any contents, or nothing when one of the two allocations fails.\<close>

definition reassembly_interface_init ::
  "(nat \<Rightarrow> reassembly_entry list option) \<Rightarrow> reassembly_interface list \<Rightarrow> int \<Rightarrow> nat \<Rightarrow> nat \<Rightarrow> int \<times> reassembly_interface list" where
  "reassembly_interface_init pool ris iid limit timeout =
     (if limit = 0 \<or> timeout = 0 then (-2, ris)
      else let ris = snd (reassembly_interface_free ris iid) in
        (case pool limit of None \<Rightarrow> (-1, ris)
         | Some es \<Rightarrow> (0, ris @ [\<lparr>ri_id = iid, ri_timeout = timeout, ri_rx = [], ri_free = es\<rparr>])))"

end
