(* ===== verification/Holes.thy ===== *)
theory Holes
  imports Reassembly
begin

text \<open>
  The hole list of \<open>Reassembly\<close> against its abstraction, a list of intervals. \<open>hole_seg base m off hs n\<close> says that the memory
  \<open>m\<close> holds descriptors for the holes \<open>hs\<close>, linked from the value \<open>off\<close> and ending in the value \<open>n\<close>. A descriptor lies in
  the eight bytes at the start of its hole, and holes start at multiples of eight, so writing one descriptor leaves
  the others alone. \<open>holes_fill\<close> is the algorithm of RFC 815 on the intervals; \<open>hole_loop\<close> is shown to compute it.
\<close>

section \<open>Descriptors in memory\<close>

definition hole_at :: "u8 list \<Rightarrow> nat \<Rightarrow> nat \<Rightarrow> nat \<Rightarrow> nat \<Rightarrow> bool" where
  "hole_at m p f l n \<longleftrightarrow> p + 6 \<le> length m \<and> take 6 (drop p m) = le_bytes 2 f @ le_bytes 2 l @ le_bytes 2 n \<and>
     f < 65536 \<and> l < 65536 \<and> n < 65536"

definition win :: "nat \<Rightarrow> nat \<Rightarrow> nat set" where
  "win base f = {base + f ..< base + f + 8}"

definition agree :: "u8 list \<Rightarrow> u8 list \<Rightarrow> nat set \<Rightarrow> bool" where
  "agree m m' A \<longleftrightarrow> length m' = length m \<and> (\<forall>j. j \<notin> A \<longrightarrow> m' ! j = m ! j)"

lemma agree_refl: "agree m m A"
  by (simp add: agree_def)

lemma agree_trans: "agree m m' A \<Longrightarrow> agree m' m'' B \<Longrightarrow> A \<subseteq> C \<Longrightarrow> B \<subseteq> C \<Longrightarrow> agree m m'' C"
  by (auto simp: agree_def) (metis subset_iff)

lemma agree_mono: "agree m m' A \<Longrightarrow> A \<subseteq> B \<Longrightarrow> agree m m' B"
  by (auto simp: agree_def)

lemma agree_store_n:
  assumes "store_n m p bs = Some m'"
  shows "agree m m' {p ..< p + length bs}"
  using assms by (auto simp: agree_def nth_append elim!: store_n_SomeE)

lemma agree_take:
  assumes "agree m m' A" and "{p ..< p + n} \<inter> A = {}"
  shows "take n (drop p m') = take n (drop p m)"
proof (rule nth_equalityI)
  fix i assume "i < length (take n (drop p m'))"
  then have i: "i < n" "p + i < length m'" by auto
  then have "p + i \<in> {p ..< p + n}" by simp
  then have "p + i \<notin> A" using assms(2) by blast
  with i show "take n (drop p m') ! i = take n (drop p m) ! i" using assms(1) by (simp add: agree_def)
qed (use assms(1) in \<open>simp add: agree_def\<close>)

lemma hole_pointer_bounds: "base + f \<le> hole_pointer base f" "hole_pointer base f \<le> base + f + 1"
  by (simp_all add: hole_pointer_def)

lemma hole_pointer_win: "{hole_pointer base f ..< hole_pointer base f + 6} \<subseteq> win base f"
  using hole_pointer_bounds [of base f] by (auto simp: win_def)

lemma win_disjoint: "f mod 8 = 0 \<Longrightarrow> g mod 8 = 0 \<Longrightarrow> f \<noteq> g \<Longrightarrow> win base f \<inter> win base g = {}" for f g :: nat
proof -
  assume "f mod 8 = 0" "g mod 8 = 0" "f \<noteq> g"
  then have "f + 8 \<le> g \<or> g + 8 \<le> f" by presburger
  then show ?thesis by (auto simp: win_def)
qed

lemma le16_nat: "n < 65536 \<Longrightarrow> read_le16 (le_bytes 2 n @ r) = Some (word_of_nat n)"
  using le16.rd_enc_append [of "word_of_nat n" r] unat_small [of n, where 'a = 16] by simp

lemma hole_get_at:
  assumes "hole_at m p f l n"
  shows "hole_get m p = Some (f, l, n)"
proof -
  have d: "drop p m = le_bytes 2 f @ le_bytes 2 l @ le_bytes 2 n @ drop (p + 6) m"
    using assms append_take_drop_id [of 6 "drop p m"] by (simp add: hole_at_def add.commute)
  have "drop (p + 2) m = drop 2 (drop p m)" "drop (p + 4) m = drop 4 (drop p m)" by (simp_all add: add.commute)
  then have "drop (p + 2) m = le_bytes 2 l @ le_bytes 2 n @ drop (p + 6) m" "drop (p + 4) m = le_bytes 2 n @ drop (p + 6) m"
    unfolding d by simp_all
  then show ?thesis using assms d by (simp add: hole_get_def le16_nat hole_at_def unat_small)
qed

lemma hole_at_agree:
  "hole_at m (hole_pointer base f) f' l n \<Longrightarrow> agree m m' A \<Longrightarrow> win base f \<inter> A = {} \<Longrightarrow> hole_at m' (hole_pointer base f) f' l n"
  using agree_take [of m m' A "hole_pointer base f" 6] hole_pointer_win [of base f] by (auto simp: hole_at_def agree_def)

section \<open>Linked descriptors\<close>

fun hole_seg :: "nat \<Rightarrow> u8 list \<Rightarrow> nat \<Rightarrow> (nat \<times> nat) list \<Rightarrow> nat \<Rightarrow> bool" where
  "hole_seg base m off [] n \<longleftrightarrow> off = n"
| "hole_seg base m off ((f, l) # hs) n \<longleftrightarrow> off = f \<and> (\<exists>k. hole_at m (hole_pointer base f) f l k \<and> hole_seg base m k hs n)"

text \<open>Where the holes may lie in a memory of \<open>base + room\<close> bytes or more.\<close>

definition holes_in :: "nat \<Rightarrow> (nat \<times> nat) list \<Rightarrow> bool" where
  "holes_in room hs \<longleftrightarrow> distinct (map fst hs) \<and> (\<forall>h\<in>set hs. fst h mod 8 = 0 \<and> fst h + 8 \<le> room \<and> snd h < room)"

definition wins :: "nat \<Rightarrow> (nat \<times> nat) list \<Rightarrow> nat set" where
  "wins base hs = (\<Union>h\<in>set hs. win base (fst h))"

definition link_of :: "nat \<Rightarrow> (nat \<times> nat) list \<Rightarrow> hole_link" where
  "link_of base hs = (if hs = [] then Head else Next (hole_pointer base (fst (last hs)) + 4))"

lemma wins_simps [simp]: "wins base [] = {}" "wins base (h # hs) = win base (fst h) \<union> wins base hs"
    "wins base (xs @ ys) = wins base xs \<union> wins base ys"
  by (auto simp: wins_def)

lemma holes_in_append: "holes_in room (xs @ ys) \<Longrightarrow> holes_in room xs \<and> holes_in room ys"
  by (auto simp: holes_in_def)

lemma holes_in_skip: "holes_in room (ws @ xs @ ys @ zs) \<Longrightarrow> holes_in room (ws @ xs @ zs)"
  by (simp add: holes_in_def ball_Un Int_Un_distrib)

lemma holes_in_disjoint: "holes_in room (xs @ ys) \<Longrightarrow> wins base xs \<inter> wins base ys = {}"
proof -
  assume h: "holes_in room (xs @ ys)"
  have "win base (fst x) \<inter> win base (fst y) = {}" if "x \<in> set xs" "y \<in> set ys" for x y
  proof (rule win_disjoint)
    show "fst x mod 8 = 0" "fst y mod 8 = 0" using h that by (auto simp: holes_in_def)
    show "fst x \<noteq> fst y" using h that by (auto simp: holes_in_def dest: imageI)
  qed
  then show ?thesis unfolding wins_def by blast
qed

lemma hole_seg_append: "hole_seg base m off (xs @ ys) n \<longleftrightarrow> (\<exists>k. hole_seg base m off xs k \<and> hole_seg base m k ys n)"
  by (induction xs arbitrary: off) (auto, blast+)

lemma hole_seg_agree: "hole_seg base m off hs n \<Longrightarrow> agree m m' A \<Longrightarrow> wins base hs \<inter> A = {} \<Longrightarrow> hole_seg base m' off hs n"
  by (induction hs arbitrary: off) (auto simp: Int_Un_distrib2, blast intro: hole_at_agree)

lemma hole_at_next:
  assumes "hole_at m p f l n" and "v < 65536"
  obtains m' where "store_n m (p + 4) (le_bytes 2 v) = Some m'" and "hole_at m' p f l v" and "agree m m' {p + 4 ..< p + 6}"
proof -
  let ?m = "take (p + 4) m @ le_bytes 2 v @ drop (p + 6) m"
  have len: "p + 6 \<le> length m" using assms(1) by (simp add: hole_at_def)
  then have st: "store_n m (p + 4) (le_bytes 2 v) = Some ?m" by (simp add: store_n_def add.commute)
  have "take 4 (drop p m) = take 4 (take 6 (drop p m))" by simp
  also have "\<dots> = le_bytes 2 f @ le_bytes 2 l" using assms(1) by (simp add: hole_at_def)
  finally have "take 4 (drop p m) = le_bytes 2 f @ le_bytes 2 l" .
  moreover have "drop p (take (p + 4) m) = take 4 (drop p m)" by (simp add: drop_take)
  ultimately have "hole_at ?m p f l v" using assms len by (simp add: hole_at_def)
  moreover have "{p + 4 ..< p + 4 + length (le_bytes 2 v)} = {p + 4 ..< p + 6}" by (simp add: add.commute)
  ultimately show ?thesis using that st agree_store_n [OF st] by (simp only:)
qed

lemma link_get_seg: "hole_seg base m off hs n \<Longrightarrow> link_get m off (link_of base hs) = Some n"
proof (cases hs rule: rev_cases)
  case (snoc ys h)
  assume "hole_seg base m off hs n"
  then have at: "hole_at m (hole_pointer base (fst h)) (fst h) (snd h) n" using snoc by (cases h) (auto simp: hole_seg_append)
  then have "hole_get m (hole_pointer base (fst h)) = Some (fst h, snd h, n)" by (rule hole_get_at)
  then show ?thesis using snoc by (auto simp: link_get_def link_of_def hole_get_def bind_eq_Some_conv)
qed (simp add: link_get_def link_of_def)

lemma link_set_seg:
  assumes "hole_seg base m off hs n" and "v < 65536" and "holes_in room hs"
  obtains m' off' where "link_set m off (link_of base hs) v = Some (m', off')" and "hole_seg base m' off' hs v" and "agree m m' (wins base hs)"
proof (cases hs rule: rev_cases)
  case Nil
  then show ?thesis using that [of m v] assms by (simp add: link_set_def link_of_def agree_refl)
next
  case (snoc ys h)
  obtain k where s: "hole_seg base m off ys k" "k = fst h" and at: "hole_at m (hole_pointer base (fst h)) (fst h) (snd h) n"
    using assms(1) snoc by (cases h) (auto simp: hole_seg_append)
  obtain m' where m': "store_n m (hole_pointer base (fst h) + 4) (le_bytes 2 v) = Some m'" "hole_at m' (hole_pointer base (fst h)) (fst h) (snd h) v"
      "agree m m' {hole_pointer base (fst h) + 4 ..< hole_pointer base (fst h) + 6}"
    using hole_at_next [OF at assms(2)] by blast
  have "{hole_pointer base (fst h) + 4 ..< hole_pointer base (fst h) + 6} \<subseteq> win base (fst h)" using hole_pointer_win [of base "fst h"] by auto
  then have ag: "agree m m' (win base (fst h))" by (rule agree_mono [OF m'(3)])
  have "wins base ys \<inter> win base (fst h) = {}" using holes_in_disjoint [of room ys "[h]" base] assms(3) snoc by simp
  then have "hole_seg base m' off ys k" using hole_seg_agree [OF s(1) ag] by simp
  then have "hole_seg base m' off hs v" using m'(2) s(2) snoc by (cases h) (auto simp: hole_seg_append)
  then show ?thesis using that [of m' off] m'(1) ag snoc by (auto simp: link_set_def link_of_def intro: agree_mono)
qed

lemma delete_hole_seg:
  assumes "hole_seg base m off (hs @ [(f, l)]) n" and "n < 65536" and "holes_in room hs"
  obtains m' off' where "delete_hole base m off f (link_of base hs) = Some (m', off')" and "hole_seg base m' off' hs n" and "agree m m' (wins base hs)"
proof -
  have s: "hole_seg base m off hs f" and at: "hole_at m (hole_pointer base f) f l n" using assms(1) by (auto simp: hole_seg_append)
  obtain m' off' where "link_set m off (link_of base hs) n = Some (m', off')" "hole_seg base m' off' hs n" "agree m m' (wins base hs)"
    using link_set_seg [OF s assms(2,3)] by blast
  then show ?thesis using that hole_get_at [OF at] by (simp add: delete_hole_def)
qed

lemma create_hole_seg:
  assumes "hole_seg base m off hs n" and "holes_in room (hs @ [(f, l)])" and "base + room \<le> length m" and "room < 65536" and "n < 65536"
  obtains m' off' where "create_hole base m off f l (link_of base hs) = Some (m', off')" and "hole_seg base m' off' (hs @ [(f, l)]) n"
    and "agree m m' (wins base (hs @ [(f, l)]))"
proof -
  let ?p = "hole_pointer base f"
  have f: "f + 8 \<le> room" "l < room" "holes_in room hs" using assms(2) holes_in_append [OF assms(2)] by (auto simp: holes_in_def)
  have p6: "?p + 6 \<le> length m" using hole_pointer_bounds(2) [of base f] f(1) assms(3) by simp
  have disj: "wins base hs \<inter> win base f = {}" using holes_in_disjoint [OF assms(2), of base] by simp
  obtain m1 where m1: "store_n m ?p (le_bytes 2 f @ le_bytes 2 l) = Some m1" using p6 by (simp add: store_n_def)
  note sub = hole_pointer_win [of base f]
  have a1: "agree m m1 (win base f)" by (rule agree_mono [OF agree_store_n [OF m1]]) (use sub in auto)
  have s1: "hole_seg base m1 off hs n" using hole_seg_agree [OF assms(1) a1 disj] .
  have m1_len: "length m1 = length m" using length_store_n [OF m1] .
  have "take 4 (drop ?p m1) = le_bytes 2 f @ le_bytes 2 l" using m1 p6 by (auto elim!: store_n_SomeE)
  moreover have "take 6 (drop ?p m1) = take 4 (drop ?p m1) @ take 2 (drop (?p + 4) m1)"
    using take_add [of 4 2 "drop ?p m1"] by (simp add: add.commute)
  moreover have "length (take 2 (drop (?p + 4) m1)) = 2" using p6 m1_len by simp
  ultimately have at: "hole_at m1 ?p f l (le_val (take 2 (drop (?p + 4) m1)))"
    using p6 m1_len f assms(4) le_val_less [of "take 2 (drop (?p + 4) m1)"] by (simp add: hole_at_def le_bytes_le_val_n)
  obtain m2 where m2: "store_n m1 (?p + 4) (le_bytes 2 n) = Some m2" "hole_at m2 ?p f l n" "agree m1 m2 {?p + 4 ..< ?p + 6}"
    using hole_at_next [OF at assms(5)] by blast
  have a2: "agree m1 m2 (win base f)" by (rule agree_mono [OF m2(3)]) (use sub in auto)
  have s2: "hole_seg base m2 off hs n" using hole_seg_agree [OF s1 a2 disj] .
  have "f < 65536" using f(1) assms(4) by simp
  then obtain m3 off' where m3: "link_set m2 off (link_of base hs) f = Some (m3, off')" "hole_seg base m3 off' hs f" "agree m2 m3 (wins base hs)"
    using link_set_seg [OF s2 _ f(3)] by blast
  have "hole_at m3 ?p f l n" using hole_at_agree [OF m2(2) m3(3)] disj by blast
  then have "hole_seg base m3 off' (hs @ [(f, l)]) n" using m3(2) by (auto simp: hole_seg_append)
  moreover have "agree m m3 (wins base (hs @ [(f, l)]))"
    using agree_trans [OF agree_trans [OF a1 a2 subset_refl subset_refl] m3(3)] by simp
  moreover have "create_hole base m off f l (link_of base hs) = Some (m3, off')"
    using m1 m2(1) m3(1) link_get_seg [OF s1] by (simp add: create_hole_def Let_def)
  ultimately show ?thesis using that by blast
qed

section \<open>Filling\<close>

text \<open>What a fragment leaves of a hole, and the hole list after a fragment: \<open>pre\<close> are the holes already passed.\<close>

definition hole_pieces :: "nat \<Rightarrow> nat \<Rightarrow> nat \<Rightarrow> nat \<Rightarrow> (nat \<times> nat) list" where
  "hole_pieces ff fl hf hl = (if ff > hf then [(hf, ff - 1)] else []) @ (if fl < hl then [(fl + 1, hl)] else [])"

fun holes_fill :: "nat \<Rightarrow> nat \<Rightarrow> nat \<Rightarrow> (nat \<times> nat) list \<Rightarrow> (nat \<times> nat) list \<Rightarrow> (nat \<times> nat) list" where
  "holes_fill sz ff fl pre [] = pre"
| "holes_fill sz ff fl pre ((hf, hl) # hs) =
     (if ff > hl \<or> fl < hf then holes_fill sz ff fl (pre @ [(hf, hl)]) hs
      else if ff < hf \<or> fl > hl then hole_pieces ff fl 0 (sz - 1)
      else pre @ hole_pieces ff fl hf hl @ hs)"

text \<open>Creating a hole between a list of holes and the rest.\<close>

lemma create_hole_between:
  assumes "hole_seg base m off pre k" and "hole_seg base m k post n" and "holes_in room (pre @ [(f, l)] @ post)"
    and "base + room \<le> length m" and "room < 65536" and "k < 65536"
  obtains m' off' where "create_hole base m off f l (link_of base pre) = Some (m', off')" and "hole_seg base m' off' (pre @ [(f, l)]) k"
    and "hole_seg base m' k post n" and "agree m m' (wins base (pre @ [(f, l)]))"
proof -
  have h: "holes_in room ((pre @ [(f, l)]) @ post)" "holes_in room (pre @ [(f, l)])" using assms(3) holes_in_append [of room "pre @ [(f, l)]" post] by simp_all
  obtain m' off' where m': "create_hole base m off f l (link_of base pre) = Some (m', off')" "hole_seg base m' off' (pre @ [(f, l)]) k"
      "agree m m' (wins base (pre @ [(f, l)]))"
    using create_hole_seg [OF assms(1) h(2) assms(4-6)] by blast
  have "wins base post \<inter> wins base (pre @ [(f, l)]) = {}" using holes_in_disjoint [OF h(1), of base] by blast
  then have "hole_seg base m' k post n" using hole_seg_agree [OF assms(2) m'(3)] by simp
  then show ?thesis using that m' by blast
qed

lemma link_of_snoc: "link_of base (hs @ [(f, l)]) = Next (hole_pointer base f + 4)"
  by (simp add: link_of_def)

lemma hole_fill_pieces:
  assumes "hole_seg base m off (pre @ (hf, hl) # post) 0xffff" and "holes_in room (pre @ (hf, hl) # post)"
    and "holes_in room (pre @ hole_pieces ff fl hf hl @ post)" and "base + room \<le> length m" and "room < 65536"
  obtains m' off' where "hole_fill base ff fl m off hf (link_of base pre) hf hl = Some (m', off')"
    and "hole_seg base m' off' (pre @ hole_pieces ff fl hf hl @ post) 0xffff" and "agree m m' (wins base (pre @ (hf, hl) # hole_pieces ff fl hf hl))"
proof -
  obtain k where k: "hole_seg base m off (pre @ [(hf, hl)]) k" "hole_seg base m k post 0xffff" "k < 65536"
    using assms(1) hole_seg_append [of base m off "pre @ [(hf, hl)]" post] by (auto simp: hole_seg_append hole_at_def)
  have pre: "holes_in room pre" using holes_in_append [OF assms(2)] by simp
  obtain m1 off1 where m1: "delete_hole base m off hf (link_of base pre) = Some (m1, off1)" "hole_seg base m1 off1 pre k" "agree m m1 (wins base pre)"
    using delete_hole_seg [OF k(1,3) pre] by blast
  have "wins base post \<inter> wins base pre = {}" using holes_in_disjoint [OF assms(2), of base] by auto
  then have p1: "hole_seg base m1 k post 0xffff" using hole_seg_agree [OF k(2) m1(3)] by simp
  have len1: "base + room \<le> length m1" using m1(3) assms(4) by (simp add: agree_def)
  let ?fr = "if ff > hf then [(hf, ff - 1)] else []"
  have fr: "holes_in room (pre @ ?fr @ post)" using assms(3) holes_in_skip [of room pre ?fr _ post] by (simp only: hole_pieces_def append_assoc)
  obtain m2 off2 where m2: "(if ff > hf then do { (m, off) \<leftarrow> create_hole base m1 off1 hf (ff - 1) (link_of base pre); Some (m, off, Next (hole_pointer base hf + 4)) }
        else Some (m1, off1, link_of base pre)) = Some (m2, off2, link_of base (pre @ ?fr))"
      "hole_seg base m2 off2 (pre @ ?fr) k" "hole_seg base m2 k post 0xffff" "agree m1 m2 (wins base (pre @ ?fr))"
  proof (cases "ff > hf")
    case True
    then have h: "holes_in room (pre @ [(hf, ff - 1)] @ post)" using fr by simp
    obtain m2 off2 where "create_hole base m1 off1 hf (ff - 1) (link_of base pre) = Some (m2, off2)" "hole_seg base m2 off2 (pre @ [(hf, ff - 1)]) k"
        "hole_seg base m2 k post 0xffff" "agree m1 m2 (wins base (pre @ [(hf, ff - 1)]))"
      by (rule create_hole_between [OF m1(2) p1 h len1 assms(5) k(3)])
    then show ?thesis using True by (intro that [of m2 off2]) (simp_all add: link_of_snoc)
  next
    case False
    then show ?thesis using that [of m1 off1] m1(2) p1 by (simp add: agree_refl)
  qed
  have len2: "base + room \<le> length m2" using m2(4) len1 by (simp add: agree_def)
  let ?bk = "if fl < hl then [(fl + 1, hl)] else []"
  obtain m3 off3 where m3: "(if fl < hl then create_hole base m2 off2 (fl + 1) hl (link_of base (pre @ ?fr)) else Some (m2, off2)) = Some (m3, off3)"
      "hole_seg base m3 off3 ((pre @ ?fr) @ ?bk) k" "hole_seg base m3 k post 0xffff" "agree m2 m3 (wins base ((pre @ ?fr) @ ?bk))"
  proof (cases "fl < hl")
    case True
    then have h: "holes_in room ((pre @ ?fr) @ [(fl + 1, hl)] @ post)" using assms(3) by (simp add: hole_pieces_def)
    obtain m3 off3 where "create_hole base m2 off2 (fl + 1) hl (link_of base (pre @ ?fr)) = Some (m3, off3)" "hole_seg base m3 off3 ((pre @ ?fr) @ [(fl + 1, hl)]) k"
        "hole_seg base m3 k post 0xffff" "agree m2 m3 (wins base ((pre @ ?fr) @ [(fl + 1, hl)]))"
      by (rule create_hole_between [OF m2(2,3) h len2 assms(5) k(3)])
    then show ?thesis using True by (intro that [of m3 off3]) simp_all
  next
    case False
    then show ?thesis using that [of m2 off2] m2(2,3) by (simp add: agree_refl)
  qed
  have "hole_fill base ff fl m off hf (link_of base pre) hf hl = Some (m3, off3)" using m1(1) m2(1) m3(1) by (simp add: hole_fill_def)
  moreover have "hole_seg base m3 off3 (pre @ hole_pieces ff fl hf hl @ post) 0xffff"
    using m3(2,3) hole_seg_append [of base m3 off3 "(pre @ ?fr) @ ?bk" post] by (auto simp: hole_pieces_def)
  moreover have "agree m m3 (wins base (pre @ (hf, hl) # hole_pieces ff fl hf hl))"
  proof (rule agree_trans [OF agree_trans [OF m1(3) m2(4) _ subset_refl] m3(4)])
    show "wins base pre \<subseteq> wins base (pre @ ?fr)" by simp
    show "wins base (pre @ ?fr) \<subseteq> wins base (pre @ (hf, hl) # hole_pieces ff fl hf hl)" by (cases "ff > hf") (auto simp: hole_pieces_def)
    show "wins base ((pre @ ?fr) @ ?bk) \<subseteq> wins base (pre @ (hf, hl) # hole_pieces ff fl hf hl)" unfolding hole_pieces_def wins_simps by blast
  qed
  ultimately show ?thesis using that by blast
qed

section \<open>The loop\<close>

text \<open>The holes of a datagram of \<open>sz\<close> bytes: sorted, disjoint, aligned at both ends except for the end of the datagram.\<close>

definition holes_ok :: "nat \<Rightarrow> (nat \<times> nat) list \<Rightarrow> bool" where
  "holes_ok sz hs \<longleftrightarrow> sorted_wrt (\<lambda>a b. snd a < fst b) hs \<and>
     (\<forall>h\<in>set hs. fst h \<le> snd h \<and> snd h < sz \<and> fst h mod 8 = 0 \<and> ((snd h + 1) mod 8 = 0 \<or> snd h + 1 = sz))"

definition frag_ok :: "nat \<Rightarrow> nat \<Rightarrow> nat \<Rightarrow> bool" where
  "frag_ok sz ff fl \<longleftrightarrow> ff mod 8 = 0 \<and> ff \<le> fl + 1 \<and> fl < sz \<and> ((fl + 1) mod 8 = 0 \<or> fl + 1 = sz)"

definition room_of :: "nat \<Rightarrow> nat" where
  "room_of sz = (sz + 7) div 8 * 8"

lemma room_of_le: "sz \<le> room_of sz" "room_of sz \<le> sz + 7"
  by (simp_all add: room_of_def)

lemma aligned_room: "f mod 8 = 0 \<Longrightarrow> f < sz \<Longrightarrow> f + 8 \<le> room_of sz"
  unfolding room_of_def by presburger

lemma holes_ok_in: "holes_ok sz hs \<Longrightarrow> holes_in (room_of sz) hs"
proof -
  assume h: "holes_ok sz hs"
  have "sorted_wrt (\<lambda>a b. fst a < fst b) hs"
    by (rule sorted_wrt_mono_rel [where P = "\<lambda>a b. snd a < fst b"]) (use h in \<open>fastforce simp: holes_ok_def\<close>)+
  then have "distinct (map fst hs)" by (simp add: sorted_wrt_map [symmetric] strict_sorted_iff)
  moreover have "fst x mod 8 = 0 \<and> fst x + 8 \<le> room_of sz \<and> snd x < room_of sz" if "x \<in> set hs" for x
    using h that room_of_le(1) [of sz] aligned_room [of "fst x" sz] by (fastforce simp: holes_ok_def)
  ultimately show ?thesis by (simp add: holes_in_def)
qed

lemma holes_ok_append: "holes_ok sz (xs @ ys) \<longleftrightarrow> holes_ok sz xs \<and> holes_ok sz ys \<and> (\<forall>x\<in>set xs. \<forall>y\<in>set ys. snd x < fst y)"
  by (auto simp: holes_ok_def sorted_wrt_append)

lemma holes_ok_Cons: "holes_ok sz (h # hs) \<longleftrightarrow> holes_ok sz [h] \<and> holes_ok sz hs \<and> (\<forall>y\<in>set hs. snd h < fst y)"
  by (auto simp: holes_ok_def)

lemma pieces_within: "h \<in> set (hole_pieces ff fl hf hl) \<Longrightarrow> hf \<le> ff \<Longrightarrow> fl \<le> hl \<Longrightarrow> ff \<le> hl \<Longrightarrow> hf \<le> fl \<Longrightarrow> hf \<le> fst h \<and> snd h \<le> hl"
  by (auto simp: hole_pieces_def split: if_splits)

lemma hole_pieces_ok:
  assumes "holes_ok sz [(hf, hl)]" and "frag_ok sz ff fl" and "hf \<le> ff" and "fl \<le> hl" and "ff \<le> hl" and "hf \<le> fl"
  shows "holes_ok sz (hole_pieces ff fl hf hl)"
proof -
  have "hf mod 8 = 0" "(hl + 1) mod 8 = 0 \<or> hl + 1 = sz" "hl < sz" using assms(1) by (simp_all add: holes_ok_def)
  moreover have "ff mod 8 = 0" "ff \<le> fl + 1" "(fl + 1) mod 8 = 0 \<or> fl + 1 = sz" "fl < sz" using assms(2) by (simp_all add: frag_ok_def)
  ultimately show ?thesis using assms(3-6) by (auto simp: hole_pieces_def holes_ok_def)
qed

lemma whole_hole_ok: "0 < sz \<Longrightarrow> holes_ok sz [(0, sz - 1)]"
  by (simp add: holes_ok_def)

lemma whole_pieces_ok: "frag_ok sz ff fl \<Longrightarrow> ff < sz \<Longrightarrow> holes_ok sz (hole_pieces ff fl 0 (sz - 1))"
  using hole_pieces_ok [OF whole_hole_ok, of sz ff fl] by (auto simp: frag_ok_def)

lemma inner_pieces_ok:
  assumes "holes_ok sz (pre @ (hf, hl) # post)" and "frag_ok sz ff fl" and "hf \<le> ff" and "fl \<le> hl" and "ff \<le> hl" and "hf \<le> fl"
  shows "holes_ok sz (pre @ hole_pieces ff fl hf hl @ post)"
proof -
  have h: "holes_ok sz pre" "holes_ok sz [(hf, hl)]" "holes_ok sz post" "\<forall>x\<in>set pre. snd x < hf \<and> (\<forall>y\<in>set post. snd x < fst y)" "\<forall>y\<in>set post. hl < fst y"
    using assms(1) holes_ok_Cons [of sz "(hf, hl)" post] by (auto simp: holes_ok_append)
  note p = hole_pieces_ok [OF h(2) assms(2-6)] and w = pieces_within [OF _ assms(3-6)]
  have "\<forall>x\<in>set (hole_pieces ff fl hf hl). \<forall>y\<in>set post. snd x < fst y" using w h(5) by (meson le_less_trans)
  moreover have "\<forall>x\<in>set pre. \<forall>y\<in>set (hole_pieces ff fl hf hl). snd x < fst y" using w h(4) by (meson less_le_trans)
  ultimately show ?thesis using p h by (auto simp: holes_ok_append)
qed

lemma holes_fill_ok:
  "holes_ok sz (pre @ hs) \<Longrightarrow> frag_ok sz ff fl \<Longrightarrow> holes_ok sz (holes_fill sz ff fl pre hs)"
proof (induction hs arbitrary: pre)
  case (Cons h hs)
  obtain hf hl where h: "h = (hf, hl)" by (cases h)
  have hl: "hl < sz" using Cons.prems(1) h by (simp add: holes_ok_def)
  consider "ff > hl \<or> fl < hf" | "\<not> (ff > hl \<or> fl < hf)" "ff < hf \<or> fl > hl" | "\<not> (ff > hl \<or> fl < hf)" "\<not> (ff < hf \<or> fl > hl)" by blast
  then show ?case
  proof cases
    case 1
    then show ?thesis using Cons.IH [of "pre @ [h]"] Cons.prems h by simp
  next
    case 2
    then show ?thesis using whole_pieces_ok [OF Cons.prems(2)] hl h by simp
  next
    case 3
    then show ?thesis using inner_pieces_ok [of sz pre hf hl hs ff fl] Cons.prems h by simp
  qed
qed simp

lemma aligned_8: "f mod 8 = 0 \<Longrightarrow> (l + 1) mod 8 = 0 \<Longrightarrow> f \<le> l \<Longrightarrow> f + 8 \<le> l + (1 :: nat)"
proof -
  assume a: "f mod 8 = 0" "(l + 1) mod 8 = 0" "f \<le> l"
  have f: "f = 8 * (f div 8)" "l + 1 = 8 * ((l + 1) div 8)"
    using a mult_div_mod_eq [of 8 f] mult_div_mod_eq [of 8 "l + 1"] by linarith+
  then have "f div 8 < (l + 1) div 8" using a(3) by linarith
  then show ?thesis using f by linarith
qed

text \<open>The bytes that are missing, and those behind the datagram where the last descriptor may reach.\<close>

definition gaps :: "nat \<Rightarrow> nat \<Rightarrow> (nat \<times> nat) list \<Rightarrow> nat set" where
  "gaps base sz hs = {base + j | j. sz \<le> j \<or> (\<exists>h\<in>set hs. fst h \<le> j \<and> j \<le> snd h)}"

lemma wins_gaps: "holes_ok sz hs \<Longrightarrow> wins base hs \<subseteq> gaps base sz hs"
proof
  fix x assume ok: "holes_ok sz hs" and "x \<in> wins base hs"
  then obtain h where h: "h \<in> set hs" "x \<in> win base (fst h)" by (auto simp: wins_def)
  obtain j where j: "x = base + j" "fst h \<le> j" "j < fst h + 8" using h(2) by (auto simp: win_def intro: that [of "x - base"])
  have "fst h \<le> snd h" "fst h mod 8 = 0" "(snd h + 1) mod 8 = 0 \<or> snd h + 1 = sz" using ok h(1) by (auto simp: holes_ok_def)
  then have "j \<le> snd h \<or> sz \<le> j" using j aligned_8 [of "fst h" "snd h"] by auto
  then show "x \<in> gaps base sz hs" using j h(1) by (auto simp: gaps_def)
qed

text \<open>The fragment lies in one hole or in none: the loop does not start over.\<close>

definition frag_fits :: "nat \<Rightarrow> nat \<Rightarrow> (nat \<times> nat) list \<Rightarrow> bool" where
  "frag_fits ff fl hs \<longleftrightarrow> (\<forall>h\<in>set hs. (ff > snd h \<or> fl < fst h) \<or> fst h \<le> ff \<and> fl \<le> snd h)"

lemma pieces_gaps:
  assumes "hf \<le> ff" and "fl \<le> hl" and "ff \<le> hl" and "hf \<le> fl"
  shows "gaps base sz (pre @ hole_pieces ff fl hf hl @ hs) \<subseteq> gaps base sz (pre @ (hf, hl) # hs)"
  using pieces_within [OF _ assms] by (fastforce simp: gaps_def)

lemma holes_fill_gaps: "frag_fits ff fl hs \<Longrightarrow> gaps base sz (holes_fill sz ff fl pre hs) \<subseteq> gaps base sz (pre @ hs)"
proof (induction hs arbitrary: pre)
  case (Cons h hs)
  obtain hf hl where h: "h = (hf, hl)" by (cases h)
  have fit: "(ff > hl \<or> fl < hf) \<or> hf \<le> ff \<and> fl \<le> hl" "frag_fits ff fl hs" using Cons.prems h by (auto simp: frag_fits_def)
  show ?case
  proof (cases "ff > hl \<or> fl < hf")
    case True
    then show ?thesis using Cons.IH [OF fit(2), of "pre @ [h]"] h by simp
  next
    case False
    then have c: "hf \<le> ff" "fl \<le> hl" "ff \<le> hl" "hf \<le> fl" using fit(1) by auto
    then show ?thesis using False h pieces_gaps [OF c] by simp
  qed
qed simp

lemma hole_loop_fill:
  assumes "hole_seg base m off (pre @ hs) 0xffff" and "holes_ok sz (pre @ hs)" and "hs \<noteq> []" and "frag_ok sz ff fl"
    and "base + room_of sz \<le> length m" and "room_of sz < 65535"
  shows "\<exists>m' off'. hole_loop base sz ff fl m off (fst (hd hs)) (link_of base pre) = Some (m', off') \<and>
    hole_seg base m' off' (holes_fill sz ff fl pre hs) 0xffff \<and> length m' = length m \<and> (frag_fits ff fl hs \<longrightarrow> agree m m' (gaps base sz (pre @ hs)))"
  using assms(1-3)
proof (induction hs arbitrary: pre)
  case (Cons h hs)
  obtain hf hl where h: "h = (hf, hl)" by (cases h)
  have ok: "holes_ok sz [(hf, hl)]" using Cons.prems(2) h holes_ok_Cons [of sz h hs] by (simp add: holes_ok_append)
  then have hb: "hf < 65535" "hl < sz" "0 < sz" using assms(6) room_of_le(1) [of sz] by (auto simp: holes_ok_def)
  obtain k where k: "hole_at m (hole_pointer base hf) hf hl k" "hole_seg base m k hs 0xffff"
    using Cons.prems(1) h by (auto simp: hole_seg_append)
  note get = hole_get_at [OF k(1)] and eq = hole_loop.simps [of base sz ff fl m off hf "link_of base pre"]
  have room: "room_of sz < 65536" using assms(6) by simp
  consider (clear) "ff > hl \<or> fl < hf" | (reset) "\<not> (ff > hl \<or> fl < hf)" "ff < hf \<or> fl > hl" | (fill) "\<not> (ff > hl \<or> fl < hf)" "\<not> (ff < hf \<or> fl > hl)" by blast
  then show ?case
  proof cases
    case clear
    have pre': "hole_seg base m off ((pre @ [h]) @ hs) 0xffff" "holes_ok sz ((pre @ [h]) @ hs)" using Cons.prems(1,2) by simp_all
    show ?thesis
    proof (cases hs)
      case Nil
      then have "k = 65535" using k(2) by simp
      then show ?thesis using clear get Nil h pre' unfolding eq [symmetric] by (simp add: eq agree_refl)
    next
      case hs: (Cons g gs)
      then have kg: "k = fst g" using k(2) by (cases g) auto
      have "k \<noteq> 65535"
        using Cons.prems(2) hs kg assms(6) room_of_le(1) [of sz] by (auto simp: holes_ok_append holes_ok_def)
      then have step: "hole_loop base sz ff fl m off hf (link_of base pre) = hole_loop base sz ff fl m off (fst (hd hs)) (link_of base (pre @ [h]))"
        using clear get h hs kg by (simp add: eq link_of_snoc)
      have "frag_fits ff fl (h # hs) \<longrightarrow> frag_fits ff fl hs" by (simp add: frag_fits_def)
      moreover have "holes_fill sz ff fl pre (h # hs) = holes_fill sz ff fl (pre @ [h]) hs" using clear h by simp
      ultimately show ?thesis using Cons.IH [OF pre'] hs step h by auto
    qed
  next
    case reset
    have sz: "ff < sz" using reset(1) hb by simp
    note whole = holes_ok_in [OF whole_hole_ok [OF hb(3)]] and pieces = holes_ok_in [OF whole_pieces_ok [OF assms(4) sz]]
    have e: "hole_seg base m 0xffff [] 0xffff" by simp
    obtain m1 off1 where m1: "create_hole base m 0xffff 0 (sz - 1) Head = Some (m1, off1)" "hole_seg base m1 off1 [(0, sz - 1)] 0xffff" "length m1 = length m"
      using create_hole_seg [OF e, of "room_of sz" 0 "sz - 1"] whole assms(5) room by (auto simp: link_of_def agree_def)
    have ins: "hole_seg base m1 off1 ([] @ (0, sz - 1) # []) 0xffff" "holes_in (room_of sz) ([] @ (0, sz - 1) # [])"
        "holes_in (room_of sz) ([] @ hole_pieces ff fl 0 (sz - 1) @ [])" "base + room_of sz \<le> length m1"
      using m1(2,3) whole pieces assms(5) by simp_all
    obtain m2 off2 where m2: "hole_fill base ff fl m1 off1 0 (link_of base []) 0 (sz - 1) = Some (m2, off2)"
        "hole_seg base m2 off2 ([] @ hole_pieces ff fl 0 (sz - 1) @ []) 0xffff" "agree m1 m2 (wins base ([] @ (0, sz - 1) # hole_pieces ff fl 0 (sz - 1)))"
      by (rule hole_fill_pieces [OF ins room])
    then have "hole_fill base ff fl m1 off1 0 Head 0 (sz - 1) = Some (m2, off2)" "hole_seg base m2 off2 (hole_pieces ff fl 0 (sz - 1)) 0xffff" "length m2 = length m1"
      by (simp_all add: link_of_def agree_def)
    then show ?thesis using reset get m1 h by (auto simp: eq frag_fits_def)
  next
    case fill
    then have c: "hf \<le> ff" "fl \<le> hl" "ff \<le> hl" "hf \<le> fl" by auto
    have p: "holes_ok sz (pre @ hole_pieces ff fl hf hl @ hs)" using inner_pieces_ok [of sz pre hf hl hs ff fl] Cons.prems(2) h assms(4) c by simp
    have ins: "hole_seg base m off (pre @ (hf, hl) # hs) 0xffff" "holes_in (room_of sz) (pre @ (hf, hl) # hs)"
        "holes_in (room_of sz) (pre @ hole_pieces ff fl hf hl @ hs)"
      using Cons.prems(1,2) h holes_ok_in [of sz "pre @ h # hs"] holes_ok_in [OF p] by simp_all
    obtain m1 off1 where m1: "hole_fill base ff fl m off hf (link_of base pre) hf hl = Some (m1, off1)"
        "hole_seg base m1 off1 (pre @ hole_pieces ff fl hf hl @ hs) 0xffff" "agree m m1 (wins base (pre @ (hf, hl) # hole_pieces ff fl hf hl))"
      by (rule hole_fill_pieces [OF ins assms(5) room])
    have "wins base (pre @ (hf, hl) # hole_pieces ff fl hf hl) \<subseteq> wins base (pre @ (hf, hl) # hs) \<union> wins base (pre @ hole_pieces ff fl hf hl @ hs)" by auto
    also have "\<dots> \<subseteq> gaps base sz (pre @ h # hs)"
      using wins_gaps [OF Cons.prems(2), of base] wins_gaps [OF p, of base] pieces_gaps [OF c, of base sz pre hs] h by blast
    finally have "agree m m1 (gaps base sz (pre @ h # hs))" by (rule agree_mono [OF m1(3)])
    then show ?thesis using fill get m1 h by (simp add: eq agree_def)
  qed
qed simp


section \<open>What holds\<close>

text \<open>
  C9. The hole list in the buffer refines the list of intervals of RFC 815: run from its head on a buffer whose descriptors represent
  the holes \<open>hs\<close>, the loop ends, and its descriptors represent the holes that the interval version computes, again
  sorted, disjoint and aligned. When the fragment lies in one hole or in none, no byte outside the holes is touched.
\<close>

theorem hole_list_refines:
  assumes "hole_seg base m off hs 0xffff" and "holes_ok sz hs" and "hs \<noteq> []" and "frag_ok sz ff fl"
    and "base + room_of sz \<le> length m" and "room_of sz < 65535"
  shows "\<exists>m' off'. hole_loop base sz ff fl m off off Head = Some (m', off') \<and> hole_seg base m' off' (holes_fill sz ff fl [] hs) 0xffff \<and>
    holes_ok sz (holes_fill sz ff fl [] hs) \<and> length m' = length m \<and> (frag_fits ff fl hs \<longrightarrow> agree m m' (gaps base sz hs))"
proof -
  have "off = fst (hd hs)" using assms(1,3) by (cases hs) auto
  then show ?thesis using hole_loop_fill [of base m off "[]" hs sz ff fl] holes_fill_ok [of sz "[]" hs ff fl] assms by (auto simp: link_of_def)
qed

definition hole_memory :: "u8 list" where
  "hole_memory = [0, 0, 15, 0, 255, 255] @ replicate 12 0"

theorem hole_list_refines_witness:
  "\<exists>m'. hole_loop 0 16 0 7 hole_memory 0 0 Head = Some (m', 8) \<and> hole_get m' 8 = Some (8, 15, 0xffff)"
proof -
  have "\<exists>m' off'. hole_loop 0 16 0 7 hole_memory 0 0 Head = Some (m', off') \<and> hole_seg 0 m' off' [(8, 15)] 0xffff"
    using hole_list_refines [of 0 hole_memory 0 "[(0, 15)]" 16 0 7]
    by (auto simp: hole_at_def hole_memory_def hole_pointer_def holes_ok_def frag_ok_def room_of_def hole_pieces_def le_bytes_numeral)
  then show ?thesis using hole_get_at by (fastforce simp: hole_pointer_def)
qed

end
