(* ===== verification/ReassemblySafe.thy ===== *)
theory ReassemblySafe
  imports Holes
begin

text \<open>
  The invariant of the reassembly of \<open>Reassembly\<close>: every entry in use has a buffer of the size of its datagram, whose
  hole list represents a list of intervals. Whatever fragments arrive, and whenever the timer runs, the code
  keeps the invariant, stays inside its buffers and ends.
\<close>

section \<open>The invariant\<close>

definition mac_sockaddr :: "sockaddr \<Rightarrow> bool" where
  "mac_sockaddr sa \<longleftrightarrow> sockaddr_ok sa \<and> addr_type sa \<in> {ADDR_802_15_4_SHORT, ADDR_802_15_4_LONG}"

definition entry_holes :: "reassembly_entry \<Rightarrow> buffer \<Rightarrow> (nat \<times> nat) list \<Rightarrow> bool" where
  "entry_holes e b hs \<longleftrightarrow> r_buf e = Some b \<and> buffer_ok b \<and> 0 < r_size e \<and> r_size e \<le> 2047 \<and>
     41 \<le> b_ptr b \<and> b_end b = b_ptr b + r_size e \<and> b_ptr b + room_of (r_size e) \<le> b_size b \<and> b_size b \<le> 2200 \<and>
     holes_ok (r_size e) hs \<and> hole_seg (b_ptr b) (b_buf b) (r_offset e) hs 0xffff \<and>
     mac_sockaddr (b_src_sa b) \<and> mac_sockaddr (b_dst_sa b)"

definition entry_ok :: "reassembly_entry \<Rightarrow> bool" where
  "entry_ok e \<longleftrightarrow> -7 \<le> r_pattern e \<and> r_pattern e \<le> 30000 \<and> (\<exists>b hs. entry_holes e b hs \<and> hs \<noteq> [])"

definition reassembly_ok :: "reassembly_interface \<Rightarrow> bool" where
  "reassembly_ok ri \<longleftrightarrow> (\<forall>e\<in>set (ri_rx ri). entry_ok e)"

text \<open>A fragment as the layers below hand it up: 802.15.4 addresses and at most 2047 bytes, the largest frame of the radio.\<close>

definition frag_buffer :: "buffer \<Rightarrow> bool" where
  "frag_buffer b \<longleftrightarrow> buffer_ok b \<and> length (buffer_data b) \<le> 2047 \<and> mac_sockaddr (b_src_sa b) \<and> mac_sockaddr (b_dst_sa b)"

text \<open>The number of entries of an interface, in use and free.\<close>

definition entries :: "reassembly_interface \<Rightarrow> nat" where
  "entries ri = length (ri_rx ri) + length (ri_free ri)"

lemma entries_free [simp]: "i < length (ri_rx ri) \<Longrightarrow> entries (reassembly_entry_free ri i) = entries ri"
  by (simp add: entries_def reassembly_entry_free_def)

lemma entries_update [simp]: "entries (ri\<lparr>ri_rx := (ri_rx ri)[i := e]\<rparr>) = entries ri"
  by (simp add: entries_def)

section \<open>Finding and starting an entry\<close>

lemma same_mac_total: "mac_sockaddr a \<Longrightarrow> mac_sockaddr b \<Longrightarrow> \<exists>r. same_mac a b = Some r"
  by (auto simp: same_mac_def mac_sockaddr_def sockaddr_ok_def addr_len_from_type_def load_n_def ADDR_SIZE_def Let_def)

lemma match_total:
  assumes "entry_ok e" and "mac_sockaddr (b_src_sa b)" and "mac_sockaddr (b_dst_sa b)"
  shows "\<exists>hit. reassembly_match e b tag sz = Some hit \<and> (hit \<longrightarrow> r_size e = sz \<and> r_tag e = tag)"
proof -
  obtain rb where rb: "r_buf e = Some rb" "mac_sockaddr (b_src_sa rb)" "mac_sockaddr (b_dst_sa rb)"
    using assms(1) by (auto simp: entry_ok_def entry_holes_def)
  obtain s d where "same_mac (b_src_sa rb) (b_src_sa b) = Some s" "same_mac (b_dst_sa rb) (b_dst_sa b) = Some d"
    using same_mac_total [OF rb(2) assms(2)] same_mac_total [OF rb(3) assms(3)] by blast
  then show ?thesis using rb(1) by (cases s) (simp_all add: reassembly_match_def ex_bool_eq)
qed

lemma already_action_total:
  assumes "\<forall>e\<in>set es. entry_ok e" and "mac_sockaddr (b_src_sa b)" and "mac_sockaddr (b_dst_sa b)"
  shows "\<exists>r. reassembly_already_action es b tag sz = Some r \<and> (\<forall>i. r = Some i \<longrightarrow> i < length es \<and> r_size (es ! i) = sz \<and> r_tag (es ! i) = tag)"
  using assms(1)
proof (induction es)
  case (Cons e es)
  then obtain r where "reassembly_already_action es b tag sz = Some r" "\<forall>i. r = Some i \<longrightarrow> i < length es \<and> r_size (es ! i) = sz \<and> r_tag (es ! i) = tag"
    by auto
  moreover obtain hit where "reassembly_match e b tag sz = Some hit" "hit \<longrightarrow> r_size e = sz \<and> r_tag e = tag"
    using match_total [OF _ assms(2,3), of e tag sz] Cons.prems by auto
  ultimately show ?case by (cases hit) auto
qed simp

lemma room_of_bound: "sz \<le> 2047 \<Longrightarrow> room_of sz \<le> 2048"
  by (simp add: room_of_def)

lemma reassembly_start_total:
  assumes "reassembly_ok ri" and "frag_buffer b" and "alloc_ok alloc" and "0 < sz" and "sz \<le> 2047"
  shows "\<exists>ri' ok. reassembly_start alloc ri b tag sz = Some (ri', ok) \<and> reassembly_ok ri' \<and> entries ri' = entries ri \<and>
    (ok \<longrightarrow> (\<exists>e rb. ri_rx ri' = e # ri_rx ri \<and> ri_free ri' = tl (ri_free ri) \<and> ri_timeout ri' = ri_timeout ri \<and> ri_id ri' = ri_id ri \<and>
       r_size e = sz \<and> r_tag e = tag \<and> entry_holes e rb [(0, sz - 1)] \<and>
       b_src_sa rb = b_src_sa b \<and> b_dst_sa rb = b_dst_sa b)) \<and>
    (\<not> ok \<longrightarrow> ri_rx ri' = ri_rx ri)"
proof (cases "ri_free ri")
  case Nil
  then show ?thesis using assms(1) by (simp add: reassembly_start_def lowpan_adaptation_reassembly_get_def ex_bool_eq)
next
  case (Cons e0 es)
  show ?thesis
  proof (cases "buffer_get alloc (1 + (sz + 7) div 8 * 8)")
    case None
    then show ?thesis using assms(1) Cons
      by (simp add: reassembly_start_def lowpan_adaptation_reassembly_get_def reassembly_entry_free_def reassembly_ok_def ex_bool_eq entries_def)
  next
    case (Some rb0)
    note g = buffer_get_ok [OF assms(3) Some]
    let ?r = "room_of sz" and ?rb = "rb0\<lparr>b_src_sa := b_src_sa b, b_dst_sa := b_dst_sa b, b_end := b_ptr rb0 + 1 + sz, b_ptr := b_ptr rb0 + 1\<rparr>"
    have r: "(sz + 7) div 8 * 8 = ?r" "sz \<le> ?r" "?r \<le> 2048" using room_of_le [of sz] room_of_bound [OF assms(5)] by (simp_all add: room_of_def)
    have mac: "mac_sockaddr (b_src_sa b)" "mac_sockaddr (b_dst_sa b)" using assms(2) by (simp_all add: frag_buffer_def)
    have sz: "b_ptr rb0 + 1 + ?r = b_size rb0" "b_size rb0 \<le> 2200" "40 \<le> b_ptr rb0" using g(3,4,6) r by (simp_all add: BUFFER_DEFAULT_HEADROOM_def)
    have ok: "buffer_ok ?rb" using g(1) sz r(2) mac by (simp add: buffer_ok_def mac_sockaddr_def)
    have strip: "buffer_data_strip_header (buffer_data_length_set (rb0\<lparr>b_src_sa := b_src_sa b, b_dst_sa := b_dst_sa b\<rparr>) (1 + sz)) 1 = Some ?rb"
      using corrupt_check_ok [OF ok] sz r(2) by (simp add: buffer_data_strip_header_def buffer_data_length_set_def)
    have len: "b_ptr ?rb + ?r \<le> length (b_buf ?rb)" using g(1) sz by (simp add: buffer_ok_def)
    have seg: "hole_seg (b_ptr ?rb) (b_buf ?rb) 0xffff [] 0xffff" by simp
    have hin: "holes_in ?r ([] @ [(0, sz - 1)])" using holes_ok_in [OF whole_hole_ok [OF assms(4)]] by simp
    obtain m off where m: "create_hole (b_ptr ?rb) (b_buf ?rb) 0xffff 0 (sz - 1) (link_of (b_ptr ?rb) []) = Some (m, off)"
        "hole_seg (b_ptr ?rb) m off ([] @ [(0, sz - 1)]) 0xffff" "agree (b_buf ?rb) m (wins (b_ptr ?rb) ([] @ [(0, sz - 1)]))"
      by (rule create_hole_seg [OF seg hin len]) (use r(3) in simp_all)
    let ?e = "reassembly_entry_zero\<lparr>r_ttl := ri_timeout ri, r_tag := tag, r_size := sz, r_offset := off, r_buf := Some (?rb\<lparr>b_buf := m\<rparr>)\<rparr>"
    have "buffer_ok (?rb\<lparr>b_buf := m\<rparr>)" using ok m(3) by (simp add: buffer_ok_def agree_def)
    then have e: "entry_holes ?e (?rb\<lparr>b_buf := m\<rparr>) [(0, sz - 1)]"
      using m(2) sz mac assms(4,5) whole_hole_ok [OF assms(4)] by (simp add: entry_holes_def)
    have start: "reassembly_start alloc ri b tag sz = Some (ri\<lparr>ri_free := es, ri_rx := ?e # ri_rx ri\<rparr>, True)"
      using Some Cons strip m(1) r(1) by (simp add: reassembly_start_def lowpan_adaptation_reassembly_get_def link_of_def Let_def)
    have "entry_ok ?e" using e by (auto simp: entry_ok_def reassembly_entry_zero_def)
    then have "reassembly_ok (ri\<lparr>ri_free := es, ri_rx := ?e # ri_rx ri\<rparr>)" using assms(1) by (simp add: reassembly_ok_def)
    moreover have "entries (ri\<lparr>ri_free := es, ri_rx := ?e # ri_rx ri\<rparr>) = entries ri" using Cons by (simp add: entries_def)
    ultimately show ?thesis using start Cons e by fastforce
  qed
qed

section \<open>The sizes of a fragment\<close>

lemma to_s16_id: "-32768 \<le> x \<Longrightarrow> x < 32768 \<Longrightarrow> to_s16 x = x"
proof -
  assume x: "-32768 \<le> x" "x < 32768"
  have "x mod 65536 = (if 0 \<le> x then x else x + 65536)"
  proof (cases "0 \<le> x")
    case False
    have "x mod 65536 = (x + 65536) mod 65536" by simp
    also have "\<dots> = x + 65536" using False x by (intro mod_pos_pos_trivial) simp_all
    finally show ?thesis using False by simp
  qed (use x in simp)
  then show ?thesis using x by (simp add: to_s16_def Let_def)
qed

text \<open>However the headers are compressed, they are at most seven bytes longer than uncompressed, as 8 bits count them.\<close>

lemma pattern_bounds:
  assumes "(h, u) = (0, 0) \<or> (h, u) = (1, 0) \<or> 40 * h \<le> 41 * u \<and> u \<le> 14 * h + 20" and "h \<le> 2047"
  shows "-7 \<le> int u - int (h mod 256)" and "int u - int (h mod 256) \<le> 30000"
proof -
  have c: "h mod 256 \<le> 255" "h mod 256 \<le> h" by simp_all
  show "-7 \<le> int u - int (h mod 256)"
  proof (cases "u \<le> 254")
    case True
    then show ?thesis using assms(1) c by auto
  next
    case False
    then show ?thesis using c by linarith
  qed
  show "int u - int (h mod 256) \<le> 30000" using assms by auto
qed

lemma frag_sizes_total:
  assumes "entry_holes e rb hs" and "buffer_ok b" and "length (buffer_data b) \<le> 2047" and "mac_sockaddr (b_src_sa b)" and "mac_sockaddr (b_dst_sa b)"
  obtains e' rb' b' k d where "frag_sizes e rb b first = Some (e', rb', b', length (buffer_data b), k)"
    and "int k = int (length (buffer_data b)) + d" and "-7 \<le> d" and "d \<le> 30000"
    and "first \<noteq> 0 \<longrightarrow> d = 0 \<and> e' = e" and "first = 0 \<longrightarrow> r_pattern e' = d"
    and "first = 0 \<longrightarrow> (\<exists>h u. iphc_header_scan b = Some (h, u) \<and> d = int u - int (h mod 256))"
    and "entry_holes e' rb' hs" and "r_size e' = r_size e" and "r_tag e' = r_tag e" and "r_offset e' = r_offset e"
    and "b_ptr rb' = b_ptr rb" and "b_buf rb' = b_buf rb" and "b_ptr b' = b_ptr b" and "b_buf b' = b_buf b"
    and "b_src_sa rb' = (if first = 0 then b_src_sa b else b_src_sa rb)" and "b_dst_sa rb' = (if first = 0 then b_dst_sa b else b_dst_sa rb)"
proof -
  let ?n = "length (buffer_data b)"
  have n: "nat (buffer_data_length b) mod 65536 = ?n" using buffer_data_len [OF assms(2)] assms(3) by simp
  show ?thesis
  proof (cases "first = 0")
    case True
    obtain h u where hu: "iphc_header_scan b = Some (h, u)" "h \<le> ?n" "(h, u) = (0, 0) \<or> (h, u) = (1, 0) \<or> 40 * h \<le> 41 * u \<and> u \<le> 14 * h + 20"
      using iphc_header_scan_safe [OF assms(2)] assms(3) by auto
    let ?d = "int u - int (h mod 256)"
    have d: "-7 \<le> ?d" "?d \<le> 30000" using pattern_bounds [OF hu(3)] hu(2) assms(3) by simp_all
    have "h mod 256 \<le> h" by simp
    then have k0: "0 \<le> int ?n - int (h mod 256) + int u" using hu(2) by linarith
    define k where "k = nat ((int ?n - int (h mod 256) + int u) mod 65536)"
    have "(int ?n - int (h mod 256) + int u) mod 65536 = int ?n - int (h mod 256) + int u" using k0 d assms(3) by (intro mod_pos_pos_trivial) linarith+
    then have k: "int k = int ?n + ?d" unfolding k_def using k0 by simp
    define rb' where "rb' = b\<lparr>b_size := b_size rb, b_ptr := b_ptr rb, b_end := b_end rb, b_buf := b_buf rb, b_ll_security_bypass_rx := b_ll_security_bypass_rx rb\<rparr>"
    define e' where "e' = e\<lparr>r_pattern := ?d, r_buf := Some rb'\<rparr>"
    have "to_s16 (int k - int ?n) = ?d" using k d by (simp add: to_s16_id)
    then have r: "frag_sizes e rb b first = Some (e', rb', b\<lparr>b_rpl_option := None, b_predecessor := None, b_socket := None\<rparr>, ?n, k)"
      using True n hu(1) by (simp add: frag_sizes_def Let_def buffer_copy_metadata_def k_def rb'_def e'_def)
    have "buffer_ok rb'" using assms(1,4,5) by (simp add: rb'_def entry_holes_def buffer_ok_def mac_sockaddr_def)
    then have h: "entry_holes e' rb' hs" using assms(1,4,5) by (simp add: e'_def rb'_def entry_holes_def)
    show ?thesis by (rule that [OF r k d]) (use True h hu(1) in \<open>simp_all add: e'_def rb'_def\<close>)
  next
    case False
    then have "frag_sizes e rb b first = Some (e, rb, b, ?n, ?n)" using n by (simp add: frag_sizes_def Let_def)
    then show ?thesis by (rule that [where d = 0]) (use False assms(1) in simp_all)
  qed
qed

section \<open>Storing a fragment\<close>

text \<open>After the loop no hole overlaps the fragment.\<close>

lemma pieces_clear: "h \<in> set (hole_pieces ff fl hf hl) \<Longrightarrow> ff > snd h \<or> fl < fst h"
  by (auto simp: hole_pieces_def split: if_splits)

lemma holes_fill_clear:
  "holes_ok sz (pre @ hs) \<Longrightarrow> \<forall>h\<in>set pre. ff > snd h \<or> fl < fst h \<Longrightarrow> h \<in> set (holes_fill sz ff fl pre hs) \<Longrightarrow> ff > snd h \<or> fl < fst h"
proof (induction hs arbitrary: pre)
  case (Cons g gs)
  obtain hf hl where g: "g = (hf, hl)" by (cases g)
  consider "ff > hl \<or> fl < hf" | "\<not> (ff > hl \<or> fl < hf)" "ff < hf \<or> fl > hl" | "\<not> (ff > hl \<or> fl < hf)" "\<not> (ff < hf \<or> fl > hl)" by blast
  then show ?case
  proof cases
    case 1
    then show ?thesis using Cons.IH [of "pre @ [g]"] Cons.prems g by auto
  next
    case 2
    then show ?thesis using Cons.prems(3) g pieces_clear by simp
  next
    case 3
    have "\<forall>y\<in>set gs. hl < fst y" using Cons.prems(1) g holes_ok_Cons [of sz g gs] by (simp add: holes_ok_append)
    then show ?thesis using 3 Cons.prems(2,3) g pieces_clear [of h ff fl hf hl] by fastforce
  qed
qed simp

lemma hole_seg_nil_iff: "hole_seg base m off hs 0xffff \<Longrightarrow> holes_ok sz hs \<Longrightarrow> sz \<le> 2047 \<Longrightarrow> hs = [] \<longleftrightarrow> off = 0xffff"
  by (cases hs) (auto simp: holes_ok_def)

lemma reassembly_add_store:
  assumes "i < length (ri_rx ri)" and "ri_rx ri ! i = e" and "entry_holes e rb hs" and "hs \<noteq> []" and "sz = r_size e"
    and "frag_sizes e rb b first = Some (e', rb', b', n, k)" and "entry_holes e' rb' hs" and "r_size e' = sz"
    and "load_n (b_buf b') (b_ptr b') n = Some bs" and "length bs = n"
    and "int k = int n + d" and "-7 \<le> d" and "first \<noteq> 0 \<longrightarrow> d = 0" and "frag_ok sz first (first + k - 1)" and "0 < first + k"
  defines "base \<equiv> b_ptr rb'" and "lst \<equiv> first + k - 1"
  obtains m off where "hole_seg base m off (holes_fill sz first lst [] hs) 0xffff" and "length m = length (b_buf rb')"
    and "take n (drop (base + first + k - n) m) = bs"
    and "frag_fits first lst hs \<longrightarrow> (\<forall>j. j \<notin> gaps base sz hs \<longrightarrow> j \<notin> {base + first + k - n ..< base + first + k} \<longrightarrow> m ! j = b_buf rb' ! j)"
    and "\<And>rb''. rb'' = rb'\<lparr>b_buf := m, b_ll_security_bypass_rx := b_ll_security_bypass_rx rb' \<or> b_ll_security_bypass_rx b'\<rparr> \<Longrightarrow>
       reassembly_add ri i b first sz =
        (if holes_fill sz first lst [] hs \<noteq> []
         then Some (ri\<lparr>ri_rx := (ri_rx ri)[i := e'\<lparr>r_offset := off, r_buf := Some rb''\<rparr>]\<rparr>, None)
         else Some (reassembly_entry_free (ri\<lparr>ri_rx := (ri_rx ri)[i := e'\<lparr>r_offset := off, r_buf := Some rb''\<rparr>]\<rparr>) i,
                Some (rb''\<lparr>b_ptr := nat ((int base + r_pattern e') mod 65536), b_info := B_DIR_UP OR B_FROM_FRAGMENTATION OR B_TO_IPV6_TXRX\<rparr>)))"
proof -
  have e': "buffer_ok rb'" "sz \<le> 2047" "41 \<le> base" "base + room_of sz \<le> length (b_buf rb')" "holes_ok sz hs"
      "hole_seg base (b_buf rb') (r_offset e') hs 0xffff"
    using assms(7,8) by (auto simp: entry_holes_def buffer_ok_def base_def)
  have lst: "lst + 1 = first + k" "lst < sz" "frag_ok sz first lst" using assms(14,15) by (simp_all add: lst_def frag_ok_def)
  have hd: "r_offset e' = fst (hd hs)" using e'(6) assms(4) by (cases hs) auto
  have room: "room_of sz < 65535" using room_of_bound [OF e'(2)] by simp
  have seg0: "hole_seg base (b_buf rb') (r_offset e') ([] @ hs) 0xffff" "holes_ok sz ([] @ hs)" using e'(5,6) by simp_all
  obtain m1 off where m1: "hole_loop base sz first lst (b_buf rb') (r_offset e') (r_offset e') Head = Some (m1, off)"
      "hole_seg base m1 off (holes_fill sz first lst [] hs) 0xffff" "length m1 = length (b_buf rb')"
      "frag_fits first lst hs \<longrightarrow> agree (b_buf rb') m1 (gaps base sz hs)"
    using hole_loop_fill [OF seg0 assms(4) lst(3) e'(4) room] hd by (auto simp: link_of_def)
  define dst where "dst = base + first + k - n"
  have k: "n \<le> base + first + k" "first \<noteq> 0 \<longrightarrow> k = n" using assms(11-13) e'(3) by linarith+
  have dst: "int base + int lst + 1 - int n = int dst" "dst + n = base + lst + 1" "dst + n \<le> length m1"
    using k(1) lst(1,2) m1(3) e'(4) room_of_le(1) [of sz] by (simp_all add: dst_def)
  obtain m2 where m2: "store_n m1 dst bs = Some m2" "m2 = take dst m1 @ bs @ drop (dst + n) m1" using dst(3) assms(10) by (simp add: store_n_def)
  have ag: "agree m1 m2 {dst ..< dst + n}" using agree_store_n [OF m2(1)] assms(10) by simp
  have ok: "holes_ok sz (holes_fill sz first lst [] hs)" by (rule holes_fill_ok [OF seg0(2) lst(3)])
  have "x \<notin> {dst ..< dst + n}" if x: "x \<in> gaps base sz (holes_fill sz first lst [] hs)" for x
  proof -
    obtain j where j: "x = base + j" "sz \<le> j \<or> (\<exists>h\<in>set (holes_fill sz first lst [] hs). fst h \<le> j \<and> j \<le> snd h)" using x by (auto simp: gaps_def)
    then have "sz \<le> j \<or> first > j \<or> lst < j" using holes_fill_clear [OF seg0(2), of first lst] by fastforce
    then show ?thesis using j(1) dst(2) lst(2) k(2) by (auto simp: dst_def)
  qed
  then have "wins base (holes_fill sz first lst [] hs) \<inter> {dst ..< dst + n} = {}" using wins_gaps [OF ok, of base] by blast
  then have seg: "hole_seg base m2 off (holes_fill sz first lst [] hs) 0xffff" using hole_seg_agree [OF m1(2) ag] by simp
  have len: "length m2 = length (b_buf rb')" using ag m1(3) by (simp add: agree_def)
  have nil: "holes_fill sz first lst [] hs = [] \<longleftrightarrow> off = 0xffff" by (rule hole_seg_nil_iff [OF seg ok e'(2)])
  have data: "take n (drop (base + first + k - n) m2) = bs" using m2(2) dst(3) assms(10) by (simp add: dst_def [symmetric])
  have same: "frag_fits first lst hs \<longrightarrow> (\<forall>j. j \<notin> gaps base sz hs \<longrightarrow> j \<notin> {base + first + k - n ..< base + first + k} \<longrightarrow> m2 ! j = b_buf rb' ! j)"
    using m1(4) ag dst(2) lst(1) by (auto simp: agree_def dst_def)
  have wrap: "(first + k + 65535) mod 65536 = lst"
  proof -
    have "first + k + 65535 = 65536 + lst" using lst(1) by simp
    then show ?thesis using lst(2) e'(2) by simp
  qed
  have c1: "\<not> (k mod 8 \<noteq> 0 \<and> lst + 1 \<noteq> sz)"
  proof -
    have "first mod 8 = 0" "(first + k) mod 8 = 0 \<or> lst + 1 = sz" using lst(1,3) by (auto simp: frag_ok_def)
    then show ?thesis by (metis add.left_neutral mod_add_left_eq)
  qed
  have rbuf: "r_buf (ri_rx ri ! i) = Some rb" using assms(2,3) by (simp add: entry_holes_def)
  show ?thesis
  proof (rule that [OF seg len data same])
    fix rb'' assume rb'': "rb'' = rb'\<lparr>b_buf := m2, b_ll_security_bypass_rx := b_ll_security_bypass_rx rb' \<or> b_ll_security_bypass_rx b'\<rparr>"
    have "\<not> lst \<ge> sz" using lst(2) by simp
    then show "reassembly_add ri i b first sz =
        (if holes_fill sz first lst [] hs \<noteq> []
         then Some (ri\<lparr>ri_rx := (ri_rx ri)[i := e'\<lparr>r_offset := off, r_buf := Some rb''\<rparr>]\<rparr>, None)
         else Some (reassembly_entry_free (ri\<lparr>ri_rx := (ri_rx ri)[i := e'\<lparr>r_offset := off, r_buf := Some rb''\<rparr>]\<rparr>) i,
                Some (rb''\<lparr>b_ptr := nat ((int base + r_pattern e') mod 65536), b_info := B_DIR_UP OR B_FROM_FRAGMENTATION OR B_TO_IPV6_TXRX\<rparr>)))"
      unfolding reassembly_add_def rbuf bind.bind_lunit
      using assms(2,6,9) c1 m1(1) dst(1) m2(1) nil by (simp add: wrap Let_def base_def rb'') auto
  qed
qed

section \<open>Preservation\<close>

lemma reassembly_ok_free: "reassembly_ok ri \<Longrightarrow> reassembly_ok (reassembly_entry_free ri i)"
  by (auto simp: reassembly_ok_def reassembly_entry_free_def dest: in_set_takeD in_set_dropD)

lemma reassembly_ok_update: "reassembly_ok ri \<Longrightarrow> entry_ok e \<Longrightarrow> reassembly_ok (ri\<lparr>ri_rx := (ri_rx ri)[i := e]\<rparr>)"
  by (auto simp: reassembly_ok_def dest: set_update_subset_insert [THEN subsetD])

text \<open>Freeing an entry does not look at its contents.\<close>

lemma free_update_ok: "reassembly_ok ri \<Longrightarrow> reassembly_ok (reassembly_entry_free (ri\<lparr>ri_rx := (ri_rx ri)[i := e]\<rparr>) i)"
  by (auto simp: reassembly_ok_def reassembly_entry_free_def dest: in_set_takeD in_set_dropD)

definition reassembled_ok :: "buffer \<Rightarrow> bool" where
  "reassembled_ok b \<longleftrightarrow> length (b_buf b) = b_size b \<and> b_end b \<le> b_size b \<and> 34 \<le> b_ptr b \<and> sockaddr_ok (b_src_sa b) \<and> sockaddr_ok (b_dst_sa b)"

lemma reassembly_add_total:
  assumes "reassembly_ok ri" and "i < length (ri_rx ri)" and "r_size (ri_rx ri ! i) = sz" and "frag_buffer b" and "first mod 8 = 0" and "first \<le> 2040"
  shows "\<exists>ri' r. reassembly_add ri i b first sz = Some (ri', r) \<and> reassembly_ok ri' \<and> entries ri' = entries ri \<and> (\<forall>b'. r = Some b' \<longrightarrow> reassembled_ok b')"
proof -
  define e where "e = ri_rx ri ! i"
  have b: "buffer_ok b" "length (buffer_data b) \<le> 2047" "mac_sockaddr (b_src_sa b)" "mac_sockaddr (b_dst_sa b)" using assms(4) by (simp_all add: frag_buffer_def)
  have "entry_ok e" using assms(1,2) by (simp add: reassembly_ok_def e_def)
  then obtain rb hs where eh: "entry_holes e rb hs" "hs \<noteq> []" and pat: "-7 \<le> r_pattern e" "r_pattern e \<le> 30000" by (auto simp: entry_ok_def)
  let ?n = "length (buffer_data b)"
  obtain e' rb' b' k d where fs: "frag_sizes e rb b first = Some (e', rb', b', ?n, k)" "int k = int ?n + d" "-7 \<le> d" "d \<le> 30000"
      "first \<noteq> 0 \<longrightarrow> d = 0 \<and> e' = e" "first = 0 \<longrightarrow> r_pattern e' = d" "entry_holes e' rb' hs" "r_size e' = r_size e"
      "b_ptr rb' = b_ptr rb" "b_buf rb' = b_buf rb" "b_ptr b' = b_ptr b" "b_buf b' = b_buf b"
    by (rule frag_sizes_total [OF eh(1) b, of first]) blast
  have pat': "-7 \<le> r_pattern e'" "r_pattern e' \<le> 30000" using fs(3-6) pat by (cases "first = 0"; simp)+
  then have e': "entry_ok e'" using fs(7) eh(2) by (auto simp: entry_ok_def)
  have rbuf: "r_buf e = Some rb" using eh(1) by (simp add: entry_holes_def)
  have sz: "sz = r_size e" "sz \<le> 2047" "0 < sz" using assms(3) eh(1) by (simp_all add: entry_holes_def e_def)
  define lst where "lst = (first + k + 65535) mod 65536"
  consider (bad) "k mod 8 \<noteq> 0 \<and> lst + 1 \<noteq> sz" | (out) "\<not> (k mod 8 \<noteq> 0 \<and> lst + 1 \<noteq> sz)" "lst \<ge> sz" | (store) "\<not> (k mod 8 \<noteq> 0 \<and> lst + 1 \<noteq> sz)" "lst < sz"
    by linarith
  then show ?thesis
  proof cases
    case bad
    then have "reassembly_add ri i b first sz = Some (ri\<lparr>ri_rx := (ri_rx ri)[i := e']\<rparr>, None)"
      using fs(1) unfolding reassembly_add_def e_def [symmetric] rbuf bind.bind_lunit by (simp add: Let_def lst_def)
    then show ?thesis using reassembly_ok_update [OF assms(1) e'] by simp
  next
    case out
    then have "reassembly_add ri i b first sz = Some (reassembly_entry_free (ri\<lparr>ri_rx := (ri_rx ri)[i := e']\<rparr>) i, None)"
      using fs(1) unfolding reassembly_add_def e_def [symmetric] rbuf bind.bind_lunit by (simp add: Let_def lst_def)
    then show ?thesis using free_update_ok [OF assms(1)] assms(2) by simp
  next
    case store
    have pos: "0 < first + k" using store(2) sz(2) by (cases "first + k = 0") (simp_all add: lst_def)
    have "first + k + 65535 = 65536 + (first + k - 1)" using pos by simp
    then have "lst = (65536 + (first + k - 1)) mod 65536" unfolding lst_def by (simp only:)
    moreover have "first + k - 1 < 65536" using fs(2,4) b(2) assms(6) by linarith
    ultimately have l: "lst = first + k - 1" by simp
    have fr: "frag_ok sz first (first + k - 1)" using store l pos assms(5) by (auto simp: frag_ok_def mod_add_eq [symmetric, of first k])
    have ld: "load_n (b_buf b') (b_ptr b') ?n = Some (buffer_data b)"
      using fs(11,12) buffer_ok_le [OF b(1)] length_buffer_data [OF b(1)] by (simp add: load_n_def buffer_data_def)
    have d0: "first \<noteq> 0 \<longrightarrow> d = 0" using fs(5) by simp
    have rs: "r_size e' = sz" using fs(8) sz(1) by simp
    define rb'' where "rb'' m = rb'\<lparr>b_buf := m, b_ll_security_bypass_rx := b_ll_security_bypass_rx rb' \<or> b_ll_security_bypass_rx b'\<rparr>" for m
    obtain m off where m: "hole_seg (b_ptr rb') m off (holes_fill sz first (first + k - 1) [] hs) 0xffff" "length m = length (b_buf rb')"
        and r: "reassembly_add ri i b first sz =
          (if holes_fill sz first (first + k - 1) [] hs \<noteq> []
           then Some (ri\<lparr>ri_rx := (ri_rx ri)[i := e'\<lparr>r_offset := off, r_buf := Some (rb'' m)\<rparr>]\<rparr>, None)
           else Some (reassembly_entry_free (ri\<lparr>ri_rx := (ri_rx ri)[i := e'\<lparr>r_offset := off, r_buf := Some (rb'' m)\<rparr>]\<rparr>) i,
                  Some ((rb'' m)\<lparr>b_ptr := nat ((int (b_ptr rb') + r_pattern e') mod 65536), b_info := B_DIR_UP OR B_FROM_FRAGMENTATION OR B_TO_IPV6_TXRX\<rparr>)))"
      using reassembly_add_store [OF assms(2) e_def [symmetric] eh sz(1) fs(1,7) rs ld refl fs(2,3) d0 fr pos] rb''_def by metis
    have hok: "holes_ok sz (holes_fill sz first (first + k - 1) [] hs)" using fs(7) rs by (intro holes_fill_ok [OF _ fr]) (simp add: entry_holes_def)
    have eo: "entry_holes (e'\<lparr>r_offset := off, r_buf := Some (rb'' m)\<rparr>) (rb'' m) (holes_fill sz first (first + k - 1) [] hs)"
      using fs(7) rs m hok by (simp add: entry_holes_def rb''_def buffer_ok_def)
    have "reassembled_ok ((rb'' m)\<lparr>b_ptr := nat ((int (b_ptr rb') + r_pattern e') mod 65536), b_info := B_DIR_UP OR B_FROM_FRAGMENTATION OR B_TO_IPV6_TXRX\<rparr>)"
      using fs(7) m(2) pat' by (auto simp: entry_holes_def reassembled_ok_def rb''_def buffer_ok_def)
    moreover have "entry_ok (e'\<lparr>r_offset := off, r_buf := Some (rb'' m)\<rparr>)" if "holes_fill sz first (first + k - 1) [] hs \<noteq> []"
      unfolding entry_ok_def using eo pat' that by auto
    ultimately show ?thesis unfolding r using reassembly_ok_update [OF assms(1)] free_update_ok [OF assms(1)] assms(2) by auto
  qed
qed

lemma frag_header_total:
  assumes "buffer_ok b"
  shows "\<exists>h. frag_header b = Some h \<and> (\<forall>sz tag first ptr. h = Some (sz, tag, first, ptr) \<longrightarrow>
    0 < sz \<and> sz \<le> 2047 \<and> first mod 8 = 0 \<and> first \<le> 2040 \<and> b_ptr b \<le> ptr \<and> ptr \<le> b_end b)"
proof (cases "buffer_data_length b < 4")
  case True
  then show ?thesis by (simp add: frag_header_def)
next
  case False
  let ?m = "b_buf b" and ?p = "b_ptr b"
  have n: "?p + 4 \<le> b_end b" using False by (simp add: buffer_data_length_def)
  then have len: "?p + 4 \<le> length ?m" using buffer_ok_le(2) [OF assms] by simp
  obtain v tag where r: "read_be16 (drop ?p ?m) = Some v" "read_be16 (drop (?p + 2) ?m) = Some tag" "load ?m ?p = Some (?m ! ?p)"
    using len by (simp add: read_be_eq load_def)
  have "unat (v AND 0x07FF) \<le> unat (0x07FF :: u16)" by (rule word_le_nat_alt [THEN iffD1]) (rule word_and_le1)
  then have sz: "unat (v AND 0x07FF) \<le> 2047" by simp
  have "unat x * 8 \<le> 2040" for x :: u8 using unat_u8_lt [of x] by simp
  then show ?thesis using False r sz n buffer_ok_le [OF assms] by (auto simp: frag_header_def Let_def load_def buffer_data_length_def)
qed

lemma frag_reassembly_total:
  assumes "reassembly_ok ri" and "frag_buffer b" and "alloc_ok alloc"
  shows "\<exists>ri' r. frag_reassembly alloc ri b = Some (ri', r) \<and> reassembly_ok ri' \<and> entries ri' = entries ri \<and> (\<forall>b'. r = Some b' \<longrightarrow> reassembled_ok b')"
proof -
  have b: "buffer_ok b" "length (buffer_data b) \<le> 2047" "mac_sockaddr (b_src_sa b)" "mac_sockaddr (b_dst_sa b)" using assms(2) by (simp_all add: frag_buffer_def)
  obtain h where h: "frag_header b = Some h" "\<forall>sz tag first ptr. h = Some (sz, tag, first, ptr) \<longrightarrow>
      0 < sz \<and> sz \<le> 2047 \<and> first mod 8 = 0 \<and> first \<le> 2040 \<and> b_ptr b \<le> ptr \<and> ptr \<le> b_end b"
    using frag_header_total [OF b(1)] by blast
  show ?thesis
  proof (cases h)
    case None
    then show ?thesis using h(1) assms(1) by (simp add: frag_reassembly_def)
  next
    case (Some x)
    obtain sz tag first ptr where x: "x = (sz, tag, first, ptr)" by (cases x)
    have hd: "0 < sz" "sz \<le> 2047" "first mod 8 = 0" "first \<le> 2040" "b_ptr b \<le> ptr" "ptr \<le> b_end b" using h(2) Some x by simp_all
    let ?b = "buffer_data_pointer_set b ptr"
    have "ptr mod 65536 = ptr" using hd(6) buffer_ok_le(3) [OF b(1)] by simp
    then have ptr: "?b = b\<lparr>b_ptr := b_ptr b + (ptr - b_ptr b)\<rparr>" using hd(5) by (simp add: buffer_data_pointer_set_def)
    have "ptr - b_ptr b \<le> length (buffer_data b)" using hd(5,6) length_buffer_data [OF b(1)] by simp
    then have fb: "frag_buffer ?b" unfolding ptr frag_buffer_def using strip_header [OF b(1)] b by simp
    then have mac: "mac_sockaddr (b_src_sa ?b)" "mac_sockaddr (b_dst_sa ?b)" by (simp_all add: frag_buffer_def)
    obtain found where f: "reassembly_already_action (ri_rx ri) ?b tag sz = Some found" "\<forall>i. found = Some i \<longrightarrow> i < length (ri_rx ri) \<and> r_size (ri_rx ri ! i) = sz"
      using already_action_total [OF _ mac, of "ri_rx ri" tag sz] assms(1) by (auto simp: reassembly_ok_def)
    show ?thesis
    proof (cases found)
      case (Some i)
      then show ?thesis using h(1) \<open>h = Some x\<close> x f reassembly_add_total [OF assms(1) _ _ fb hd(3,4), of i sz] by (simp add: frag_reassembly_def Let_def)
    next
      case None
      obtain ri1 ok where s: "reassembly_start alloc ri ?b tag sz = Some (ri1, ok)" "reassembly_ok ri1" "entries ri1 = entries ri"
          "ok \<longrightarrow> 0 < length (ri_rx ri1) \<and> r_size (ri_rx ri1 ! 0) = sz"
        using reassembly_start_total [OF assms(1) fb assms(3) hd(1,2), of tag] by auto
      show ?thesis using None h(1) \<open>h = Some x\<close> x f(1) s reassembly_add_total [OF s(2) _ _ fb hd(3,4), of 0 sz]
        by (cases ok) (simp_all add: frag_reassembly_def Let_def)
    qed
  qed
qed

section \<open>The timer\<close>

definition entry_aged :: "nat \<Rightarrow> reassembly_entry \<Rightarrow> reassembly_entry" where
  "entry_aged s e = e\<lparr>r_ttl := r_ttl e - s\<rparr>"

lemma timer_update_rx:
  "i \<le> length (ri_rx ri) \<Longrightarrow> ri_rx (reassembly_entry_timer_update ri i s) =
     take i (ri_rx ri) @ map (entry_aged s) (filter (\<lambda>e. r_ttl e > s) (drop i (ri_rx ri)))"
proof (induction ri i s rule: reassembly_entry_timer_update.induct)
  case (1 ri i s)
  show ?case
  proof (cases "i < length (ri_rx ri)")
    case True
    then have d: "drop i (ri_rx ri) = ri_rx ri ! i # drop (Suc i) (ri_rx ri)" by (simp add: Cons_nth_drop_Suc)
    show ?thesis
    proof (cases "r_ttl (ri_rx ri ! i) > s")
      case old: True
      let ?e = "(ri_rx ri ! i)\<lparr>r_ttl := r_ttl (ri_rx ri ! i) - s\<rparr>"
      have "reassembly_entry_timer_update ri i s = reassembly_entry_timer_update (ri\<lparr>ri_rx := (ri_rx ri)[i := ?e]\<rparr>) (i + 1) s"
        using True old by (simp add: reassembly_entry_timer_update.simps [of ri i s] Let_def)
      moreover have "take (Suc i) ((ri_rx ri)[i := ?e]) = take i (ri_rx ri) @ [?e]" using True by (simp add: take_Suc_conv_app_nth)
      ultimately show ?thesis using 1(1) [OF True refl old] True old d by (simp add: entry_aged_def)
    next
      case False
      then have "reassembly_entry_timer_update ri i s = reassembly_entry_timer_update (reassembly_entry_free ri i) i s"
        using True by (simp add: reassembly_entry_timer_update.simps [of ri i s] Let_def)
      moreover have "take i (ri_rx (reassembly_entry_free ri i)) = take i (ri_rx ri)" "drop i (ri_rx (reassembly_entry_free ri i)) = drop (Suc i) (ri_rx ri)"
        using True by (simp_all add: reassembly_entry_free_def)
      ultimately show ?thesis using 1(2) [OF True refl False] True False d by (simp add: reassembly_entry_free_def)
    qed
  next
    case False
    then show ?thesis using 1(3) by (subst reassembly_entry_timer_update.simps) simp
  qed
qed

lemma timer_update_ok: "reassembly_ok ri \<Longrightarrow> reassembly_ok (reassembly_entry_timer_update ri 0 s)"
  by (auto simp: reassembly_ok_def timer_update_rx entry_ok_def entry_holes_def entry_aged_def)

lemma list_free_ok: "reassembly_ok ri \<Longrightarrow> reassembly_ok (reassembly_list_free n ri)"
  by (induction n arbitrary: ri) (auto intro: reassembly_ok_free)

section \<open>Every history\<close>

text \<open>The states the component can get into, by any sequence of its operations and any fragments.\<close>

text \<open>The memory that is handed out may be different each time, and may run out at any time.\<close>

inductive reassembly_reachable :: "reassembly_interface list \<Rightarrow> bool" where
  start: "reassembly_reachable []"
| init: "reassembly_reachable ris \<Longrightarrow> reassembly_reachable (snd (reassembly_interface_init pool ris iid limit timeout))"
| free: "reassembly_reachable ris \<Longrightarrow> reassembly_reachable (snd (reassembly_interface_free ris iid))"
| reset: "reassembly_reachable ris \<Longrightarrow> reassembly_reachable (snd (reassembly_interface_reset ris iid))"
| timer: "reassembly_reachable ris \<Longrightarrow> reassembly_reachable (cipv6_frag_timer ris seconds)"
| fragment: "reassembly_reachable ris \<Longrightarrow> frag_buffer b \<Longrightarrow> alloc_ok alloc \<Longrightarrow> cipv6_frag_reassembly alloc ris iid b = Some (ris', r) \<Longrightarrow>
    reassembly_reachable ris'"

lemma discover_less: "reassembly_interface_discover ris iid = Some k \<Longrightarrow> k < length ris"
  by (induction ris arbitrary: k) (auto split: if_splits)

lemma interface_free_subset: "set (snd (reassembly_interface_free ris iid)) \<subseteq> set ris"
  by (auto simp: reassembly_interface_free_def dest: in_set_takeD in_set_dropD split: option.splits)

lemma cipv6_frag_reassembly_total:
  assumes "\<forall>ri\<in>set ris. reassembly_ok ri" and "frag_buffer b" and "alloc_ok alloc"
  shows "\<exists>ris' r. cipv6_frag_reassembly alloc ris iid b = Some (ris', r) \<and> (\<forall>ri\<in>set ris'. reassembly_ok ri) \<and> map entries ris' = map entries ris \<and>
    (\<forall>b'. r = Some b' \<longrightarrow> reassembled_ok b')"
proof (cases "reassembly_interface_discover ris iid")
  case None
  then show ?thesis using assms(1) by (simp add: cipv6_frag_reassembly_def)
next
  case (Some k)
  then have k: "k < length ris" by (rule discover_less)
  then obtain ri' r where r: "frag_reassembly alloc (ris ! k) b = Some (ri', r)" "reassembly_ok ri'" "entries ri' = entries (ris ! k)" "\<forall>b'. r = Some b' \<longrightarrow> reassembled_ok b'"
    using frag_reassembly_total [OF _ assms(2,3), of "ris ! k"] assms(1) by auto
  have "map entries (ris[k := ri']) = map entries ris" using r(3) k by (simp add: map_update) (metis list_update_id map_update)
  moreover have "\<forall>ri\<in>set (ris[k := ri']). reassembly_ok ri" using assms(1) r(2) set_update_subset_insert [of ris k ri'] by blast
  ultimately show ?thesis using Some r by (simp add: cipv6_frag_reassembly_def)
qed

lemma reachable_ok:
  assumes "reassembly_reachable ris"
  shows "\<forall>ri\<in>set ris. reassembly_ok ri"
  using assms
proof (induction rule: reassembly_reachable.induct)
  case (init ris pool iid limit timeout)
  then show ?case using interface_free_subset [of ris iid]
    by (auto simp: reassembly_interface_init_def reassembly_ok_def Let_def split: option.splits)
next
  case (free ris iid)
  then show ?case using interface_free_subset [of ris iid] by blast
next
  case (reset ris iid)
  then show ?case using set_update_subset_insert [of ris] discover_less [of ris iid]
    by (fastforce simp: reassembly_interface_reset_def intro: list_free_ok split: option.splits)
next
  case (timer ris seconds)
  then show ?case by (auto simp: cipv6_frag_timer_def intro: timer_update_ok)
next
  case (fragment ris b alloc iid ris' r)
  then show ?case using cipv6_frag_reassembly_total [OF fragment.IH fragment.hyps(2,3), of iid] by auto
qed simp


section \<open>Several ticks\<close>

lemma timer_update_entries: "entries (reassembly_entry_timer_update ri i s) = entries ri"
proof (induction ri i s rule: reassembly_entry_timer_update.induct)
  case (1 ri i s)
  show ?case
    using 1(1) [OF _ refl] 1(2) [OF _ refl] unfolding reassembly_entry_timer_update.simps [of ri i s] Let_def by (simp split: if_splits)
qed

lemma aged_twice: "map (entry_aged s) (filter (\<lambda>e. r_ttl e > s) (map (entry_aged t) (filter (\<lambda>e. r_ttl e > t) es))) =
  map (entry_aged (t + s)) (filter (\<lambda>e. r_ttl e > t + s) es)"
  by (induction es) (auto simp: entry_aged_def)

lemma timer_ticks:
  "0 < n \<Longrightarrow> ri_rx (((\<lambda>ri. reassembly_entry_timer_update ri 0 s) ^^ n) ri) = map (entry_aged (n * s)) (filter (\<lambda>e. r_ttl e > n * s) (ri_rx ri)) \<and>
     entries (((\<lambda>ri. reassembly_entry_timer_update ri 0 s) ^^ n) ri) = entries ri"
proof (induction n)
  case (Suc n)
  show ?case
  proof (cases n)
    case 0
    then show ?thesis by (simp add: timer_update_rx timer_update_entries)
  next
    case (Suc k)
    then show ?thesis using Suc.IH aged_twice [of s "n * s" "ri_rx ri"] by (simp add: timer_update_rx timer_update_entries add.commute)
  qed
qed simp

lemma frag_timer_ticks: "((\<lambda>ris. cipv6_frag_timer ris s) ^^ n) ris = map ((\<lambda>ri. reassembly_entry_timer_update ri 0 (nat (s mod 65536))) ^^ n) ris"
  by (induction n arbitrary: ris) (simp_all add: cipv6_frag_timer_def)

section \<open>What holds\<close>


text \<open>
  C10. Entries time out exactly: after \<open>n\<close> ticks of \<open>seconds\<close> seconds, an interface holds the entries that had more than
  \<open>n * seconds\<close> left, in their order and with that much less, and the others are back in the pool.
\<close>

theorem reassembly_timeout:
  assumes "0 < n" and "0 \<le> seconds" and "seconds < 65536"
  shows "map ri_rx (((\<lambda>ris. cipv6_frag_timer ris seconds) ^^ n) ris) =
      map (\<lambda>ri. map (entry_aged (n * nat seconds)) (filter (\<lambda>e. r_ttl e > n * nat seconds) (ri_rx ri))) ris \<and>
    map entries (((\<lambda>ris. cipv6_frag_timer ris seconds) ^^ n) ris) = map entries ris"
  using timer_ticks [OF assms(1), of "nat seconds"] assms(2,3) by (simp add: frag_timer_ticks)

section \<open>Witnesses\<close>

definition reassembly_alloc :: "nat \<Rightarrow> u8 list option" where
  "reassembly_alloc n = Some (replicate n 0)"

definition reassembly_pool :: "nat \<Rightarrow> reassembly_entry list option" where
  "reassembly_pool n = Some (replicate n reassembly_entry_zero)"

definition mac_long :: "u8 \<Rightarrow> sockaddr" where
  "mac_long x = \<lparr>addr_type = ADDR_802_15_4_LONG, address = [0xab, 0xcd, 0, 0, 0, 0, 0, 0, 0, x] @ replicate 6 0, port = 0\<rparr>"

definition frame_buffer :: "u8 list \<Rightarrow> buffer" where
  "frame_buffer bs = \<lparr>b_dst_sa = mac_long 1, b_src_sa = mac_long 2, b_predecessor = None, b_socket = None, b_info = 0, b_seq = 0,
     b_ptr = 0, b_end = length bs, b_size = length bs, b_rpl_instance = 0xff, b_rpl_instance_known = False, b_ip_routed_up = False, b_rpl_flag_error = 0, b_timestamp = 0,
     b_rpl_option = None, b_priority = 0, b_default_pan = True, b_request_ack = False, b_hop_limit = 255, b_ll_security_bypass_rx = False, b_ll_security_bypass_tx = False,
     b_ll_sec_bypass_frag_deny = False, b_tunnelled = False, b_need_predecessor = False, b_multicast_loop = False, b_mpl_permitted = True,
     b_edfe_mode = False, b_traffic_class = 0, b_flow_label = -1, b_buf = bs\<rparr>"

lemma reassembly_alloc_ok: "alloc_ok reassembly_alloc"
  by (auto simp: alloc_ok_def reassembly_alloc_def)

lemma frame_buffer_ok: "length bs \<le> 2047 \<Longrightarrow> frag_buffer (frame_buffer bs) \<and> buffer_data (frame_buffer bs) = bs"
  by (simp add: frag_buffer_def buffer_ok_def buffer_data_def frame_buffer_def mac_sockaddr_def sockaddr_ok_def mac_long_def ADDR_SIZE_def BUFFER_MAX_SIZE_def)


theorem reassembly_timeout_witness:
  "map ri_rx (((\<lambda>ris. cipv6_frag_timer ris 20) ^^ 3)
      [\<lparr>ri_id = 1, ri_timeout = 80, ri_rx = [reassembly_entry_zero\<lparr>r_ttl := 80\<rparr>, reassembly_entry_zero\<lparr>r_ttl := 60\<rparr>], ri_free = []\<rparr>]) =
    [[reassembly_entry_zero\<lparr>r_ttl := 20\<rparr>]]"
  using reassembly_timeout [of 3 20 "[\<lparr>ri_id = 1, ri_timeout = 80, ri_rx = [reassembly_entry_zero\<lparr>r_ttl := 80\<rparr>, reassembly_entry_zero\<lparr>r_ttl := 60\<rparr>], ri_free = []\<rparr>]"]
  by (simp add: entry_aged_def)

end
