(* ===== verification/ReassemblyRun.thy ===== *)
theory ReassemblyRun
  imports ReassemblySafe
begin

text \<open>
  Reassembly is the inverse of fragmentation: a datagram that was cut into fragments comes out as it was, whatever the
  order of the fragments and however often one is repeated. The datagram is a byte list \<open>L\<close> (the 6LoWPAN form); \<open>d\<close> is
  the difference between the uncompressed and the compressed length of its headers, \<open>sz\<close> its uncompressed length, and the
  fragments are ranges \<open>[o, o')\<close> of the uncompressed datagram.
\<close>

section \<open>Holes and ranges\<close>

definition in_holes :: "nat \<Rightarrow> (nat \<times> nat) list \<Rightarrow> bool" where
  "in_holes j hs \<longleftrightarrow> (\<exists>h\<in>set hs. fst h \<le> j \<and> j \<le> snd h)"

lemma in_holes_simps [simp]: "\<not> in_holes j []" "in_holes j (h # hs) \<longleftrightarrow> fst h \<le> j \<and> j \<le> snd h \<or> in_holes j hs"
    "in_holes j (xs @ ys) \<longleftrightarrow> in_holes j xs \<or> in_holes j ys"
  by (auto simp: in_holes_def)

lemma in_holes_less: "holes_ok sz hs \<Longrightarrow> in_holes j hs \<Longrightarrow> j < sz"
  by (auto simp: in_holes_def holes_ok_def)

lemma holes_nonempty: "holes_ok sz hs \<Longrightarrow> hs \<noteq> [] \<Longrightarrow> \<exists>j. in_holes j hs"
  by (cases hs) (auto simp: holes_ok_def in_holes_def)

lemma in_pieces: "ff \<le> fl \<Longrightarrow> hf \<le> ff \<Longrightarrow> fl \<le> hl \<Longrightarrow> in_holes j (hole_pieces ff fl hf hl) \<longleftrightarrow> hf \<le> j \<and> j \<le> hl \<and> \<not> (ff \<le> j \<and> j \<le> fl)"
  by (auto simp: hole_pieces_def)

lemma in_holes_fill:
  "holes_ok sz (pre @ hs) \<Longrightarrow> frag_fits ff fl hs \<Longrightarrow> ff \<le> fl \<Longrightarrow> \<forall>h\<in>set pre. ff > snd h \<or> fl < fst h \<Longrightarrow>
     in_holes j (holes_fill sz ff fl pre hs) \<longleftrightarrow> in_holes j (pre @ hs) \<and> \<not> (ff \<le> j \<and> j \<le> fl)"
proof (induction hs arbitrary: pre)
  case Nil
  then show ?case by (auto simp: in_holes_def)
next
  case (Cons h hs)
  obtain hf hl where h: "h = (hf, hl)" by (cases h)
  have fit: "(ff > hl \<or> fl < hf) \<or> hf \<le> ff \<and> fl \<le> hl" "frag_fits ff fl hs" using Cons.prems(2) h by (auto simp: frag_fits_def)
  show ?case
  proof (cases "ff > hl \<or> fl < hf")
    case True
    then show ?thesis using Cons.IH [of "pre @ [h]"] Cons.prems fit(2) h by auto
  next
    case False
    then have c: "hf \<le> ff" "fl \<le> hl" using fit(1) by auto
    have "\<forall>y\<in>set hs. hl < fst y" using Cons.prems(1) h holes_ok_Cons [of sz h hs] by (simp add: holes_ok_append)
    then have later: "in_holes j hs \<Longrightarrow> \<not> (ff \<le> j \<and> j \<le> fl)" using c(2) by (auto simp: in_holes_def)
    have before: "in_holes j pre \<Longrightarrow> \<not> (ff \<le> j \<and> j \<le> fl)" using Cons.prems(4) by (auto simp: in_holes_def)
    show ?thesis using False c h in_pieces [OF Cons.prems(3) c, of j] later before by auto
  qed
qed

text \<open>Cutting a range out of the holes leaves every other, disjoint, range in one hole or in none.\<close>

lemma pieces_fits:
  assumes "frag_fits gf gl [(hf, hl)]" and "hf \<le> ff" and "fl \<le> hl" and "ff \<le> fl" and "gf \<le> gl" and "gl < ff \<or> fl < gf \<or> gf = ff \<and> gl = fl"
  shows "frag_fits gf gl (hole_pieces ff fl hf hl)"
  using assms by (auto simp: frag_fits_def hole_pieces_def)

lemma holes_fill_fits:
  "frag_fits ff fl hs \<Longrightarrow> ff \<le> fl \<Longrightarrow> frag_fits gf gl (pre @ hs) \<Longrightarrow> gf \<le> gl \<Longrightarrow> gl < ff \<or> fl < gf \<or> gf = ff \<and> gl = fl \<Longrightarrow>
     frag_fits gf gl (holes_fill sz ff fl pre hs)"
proof (induction hs arbitrary: pre)
  case (Cons h hs)
  obtain hf hl where h: "h = (hf, hl)" by (cases h)
  have fit: "(ff > hl \<or> fl < hf) \<or> hf \<le> ff \<and> fl \<le> hl" "frag_fits ff fl hs" using Cons.prems(1) h by (auto simp: frag_fits_def)
  show ?case
  proof (cases "ff > hl \<or> fl < hf")
    case True
    then show ?thesis using Cons.IH [of "pre @ [h]"] Cons.prems fit(2) h by simp
  next
    case False
    then have c: "hf \<le> ff" "fl \<le> hl" using fit(1) by auto
    have "frag_fits gf gl [(hf, hl)]" using Cons.prems(3) h by (auto simp: frag_fits_def)
    then have "frag_fits gf gl (hole_pieces ff fl hf hl)" using pieces_fits c Cons.prems(2,4,5) by blast
    then show ?thesis using False c h Cons.prems(3) by (auto simp: frag_fits_def)
  qed
qed simp

section \<open>The fragments of a datagram\<close>

text \<open>A division of the datagram into ranges, the first one long enough for the headers (\<open>u\<close> bytes uncompressed).\<close>

definition division :: "nat \<Rightarrow> nat \<Rightarrow> (nat \<times> nat) set \<Rightarrow> bool" where
  "division sz u P \<longleftrightarrow> (\<forall>j. j < sz \<longrightarrow> (\<exists>p\<in>P. fst p \<le> j \<and> j < snd p)) \<and>
     (\<forall>p\<in>P. fst p < snd p \<and> snd p \<le> sz \<and> fst p mod 8 = 0 \<and> (snd p mod 8 = 0 \<or> snd p = sz) \<and> (fst p = 0 \<longrightarrow> u \<le> snd p)) \<and>
     (\<forall>p\<in>P. \<forall>q\<in>P. p = q \<or> snd p \<le> fst q \<or> snd q \<le> fst p)"

text \<open>The payload of a range, and the frame that carries it (RFC 4944).\<close>

definition frag_payload :: "u8 list \<Rightarrow> int \<Rightarrow> nat \<times> nat \<Rightarrow> u8 list" where
  "frag_payload L d p = (if fst p = 0 then take (nat (int (snd p) - d)) L
     else take (snd p - fst p) (drop (nat (int (fst p) - d)) L))"

definition frag_wire :: "nat \<Rightarrow> nat \<Rightarrow> u8 list \<Rightarrow> int \<Rightarrow> nat \<times> nat \<Rightarrow> u8 list" where
  "frag_wire sz tag L d p = (if fst p = 0 then be_bytes 2 (0xC000 + sz) @ be_bytes 2 tag
     else be_bytes 2 (0xE000 + sz) @ be_bytes 2 tag @ [word_of_nat (fst p div 8)]) @ frag_payload L d p"

text \<open>A received buffer that carries a range of the datagram, between two addresses.\<close>

definition carries :: "nat \<Rightarrow> nat \<Rightarrow> u8 list \<Rightarrow> int \<Rightarrow> sockaddr \<Rightarrow> sockaddr \<Rightarrow> nat \<times> nat \<Rightarrow> buffer \<Rightarrow> bool" where
  "carries sz tag L d src dst p b \<longleftrightarrow> frag_buffer b \<and> buffer_data b = frag_wire sz tag L d p \<and> b_src_sa b = src \<and> b_dst_sa b = dst"

fun frag_run :: "(nat \<Rightarrow> u8 list option) \<Rightarrow> reassembly_interface \<Rightarrow> buffer list \<Rightarrow> (reassembly_interface \<times> buffer option list) option" where
  "frag_run alloc ri [] = Some (ri, [])"
| "frag_run alloc ri (b # bs) = do { (ri, r) \<leftarrow> frag_reassembly alloc ri b; (ri, rs) \<leftarrow> frag_run alloc ri bs; Some (ri, r # rs) }"

section \<open>Reading the frame\<close>

lemma buffer_drop: "buffer_ok b \<Longrightarrow> drop (b_ptr b) (b_buf b) = buffer_data b @ drop (b_end b) (b_buf b)"
  using buffer_ok_le [of b] append_take_drop_id [of "b_end b - b_ptr b" "drop (b_ptr b) (b_buf b)"] by (simp add: buffer_data_def)

lemma size_field:
  fixes v :: u16
  assumes "unat v = 2048 * k + n" and "n \<le> 2047"
  shows "unat (v AND 0x07FF) = n"
proof -
  have "v AND 0x07FF = take_bit 11 v" by (simp add: take_bit_eq_mask mask_eq_exp_minus_1)
  then have "unat (v AND 0x07FF) = take_bit 11 (unat v)" by (simp only: unsigned_take_bit_eq)
  then show ?thesis using assms by (simp add: take_bit_eq_mod)
qed

lemma small_cases: "(k :: nat) < 8 \<Longrightarrow> k = 0 \<or> k = 1 \<or> k = 2 \<or> k = 3 \<or> k = 4 \<or> k = 5 \<or> k = 6 \<or> k = 7"
  by linarith

lemma frag_bit:
  assumes "k < (8 :: nat)"
  shows "(word_of_nat (0xC0 + k) :: u8) AND LOWPAN_FRAGN_BIT = 0" and "(word_of_nat (0xE0 + k) :: u8) AND LOWPAN_FRAGN_BIT \<noteq> 0"
  using small_cases [OF assms] by (auto simp: LOWPAN_FRAGN_BIT_def)

lemma read_be16_nat: "n < 65536 \<Longrightarrow> read_be16 (be_bytes 2 n @ r) = Some (word_of_nat n)"
  using read_be_append(1) [of "word_of_nat n" r] unat_small [of n, where 'a = 16] by simp

lemma frag_header_wire:
  assumes "buffer_ok b" and "buffer_data b = frag_wire sz tag L d p" and "0 < sz" and "sz \<le> 2047" and "tag < 65536" and "fst p < sz" and "fst p mod 8 = 0"
  defines "n \<equiv> if fst p = 0 then 4 else 5"
  shows "frag_header b = Some (Some (sz, tag, fst p, b_ptr b + n))" and "n \<le> length (buffer_data b)" and "drop n (buffer_data b) = frag_payload L d p"
proof -
  define c where "c = (if fst p = 0 then 0xC000 + sz else 0xE000 + sz)"
  let ?m = "b_buf b" and ?p = "b_ptr b"
  define r where "r = (if fst p = 0 then [] else [word_of_nat (fst p div 8)]) @ frag_payload L d p @ drop (b_end b) ?m"
  have m: "drop ?p ?m = be_bytes 2 c @ be_bytes 2 tag @ r"
    using buffer_drop [OF assms(1)] assms(2) by (simp add: frag_wire_def r_def c_def)
  show len: "n \<le> length (buffer_data b)" and "drop n (buffer_data b) = frag_payload L d p" using assms(2) by (simp_all add: frag_wire_def n_def)
  have c: "c < 65536" "c div 256 = (if fst p = 0 then 0xC0 else 0xE0) + sz div 256" "sz div 256 < 8" "c = 2048 * (if fst p = 0 then 24 else 28) + sz"
    using assms(4) by (auto simp: c_def)
  have l: "length ?m = ?p + length (drop ?p ?m)" using buffer_ok_le [OF assms(1)] by simp
  have h: "load ?m ?p = Some (word_of_nat (c div 256))"
  proof -
    have "?m ! ?p = hd (drop ?p ?m)" using l m by (intro hd_drop_conv_nth [symmetric]) (simp add: be_bytes_2)
    then show ?thesis using l unfolding m by (simp add: load_def be_bytes_2)
  qed
  have "drop (?p + 2) ?m = drop 2 (drop ?p ?m)" by (simp add: add.commute)
  then have t: "read_be16 (drop (?p + 2) ?m) = Some (word_of_nat tag)" unfolding m using read_be16_nat [OF assms(5), of r] by simp
  have v: "read_be16 (drop ?p ?m) = Some (word_of_nat c)" unfolding m by (rule read_be16_nat [OF c(1)])
  have "unat (word_of_nat c :: u16) = c" using c(1) by (intro unat_small) simp
  then have sz: "unat ((word_of_nat c :: u16) AND 0x07FF) = sz" by (rule size_field [OF trans [OF _ c(4)] assms(4)])
  have tag: "unat (word_of_nat tag :: u16) = tag" using assms(5) by (intro unat_small) simp
  have o8: "unat (word_of_nat (fst p div 8) :: u8) * 8 = fst p" using assms(4,6,7) by auto
  have dl: "buffer_data_length b = int (length (buffer_data b))" by (rule buffer_data_len [OF assms(1)])
  show "frag_header b = Some (Some (sz, tag, fst p, ?p + n))"
  proof (cases "fst p = 0")
    case True
    then show ?thesis using h v t sz tag assms(3) len frag_bit(1) [OF c(3)] c(2) dl by (simp add: frag_header_def Let_def n_def)
  next
    case False
    have "drop ?p ?m ! 4 = word_of_nat (fst p div 8)" unfolding m using False by (simp add: r_def be_bytes_2)
    then have "?m ! (?p + 4) = word_of_nat (fst p div 8)" using nth_drop [of ?p ?m 4] buffer_ok_le [OF assms(1)] by simp
    moreover have "?p + 4 < length ?m" using l False unfolding m by (simp add: r_def)
    ultimately have "load ?m (?p + 4) = Some (word_of_nat (fst p div 8))" by (simp add: load_def)
    then show ?thesis using False h v t sz tag o8 assms(3) len frag_bit(2) [OF c(3)] c(2) dl by (simp add: frag_header_def Let_def n_def)
  qed
qed

section \<open>One fragment of the datagram\<close>

text \<open>
  A datagram with its headers scanned (\<open>b0\<close> is any buffer that holds it): \<open>h\<close> compressed bytes, \<open>u\<close> uncompressed ones. The receiver
  counts the compressed bytes in 8 bits, so more than 255 of them are out of scope.
\<close>

definition datagram :: "buffer \<Rightarrow> u8 list \<Rightarrow> nat \<Rightarrow> nat \<Rightarrow> nat \<Rightarrow> bool" where
  "datagram b0 L h u sz \<longleftrightarrow> buffer_ok b0 \<and> buffer_data b0 = L \<and> iphc_header_scan b0 = Some (h, u) \<and> 0 < h \<and> h < 256 \<and> h \<le> length L \<and>
     length L + u = sz + h \<and> 0 < sz \<and> sz \<le> 2047 \<and> u < 30000 \<and> h \<le> u + 7"

lemma division_first:
  assumes "division sz u P" and "0 < sz"
  obtains p where "p \<in> P" and "fst p = 0" and "u \<le> snd p"
  using assms unfolding division_def by (metis le_zero_eq)

lemma payload_facts:
  assumes "datagram b0 L h u sz" and "division sz u P" and "p \<in> P"
  defines "d \<equiv> int u - int h"
  shows "int (snd p) = int (fst p) + int (length (frag_payload L d p)) + (if fst p = 0 then d else 0)"
    and "fst p = 0 \<longrightarrow> h \<le> length (frag_payload L d p) \<and> take h (frag_payload L d p) = take h L"
    and "i < length (frag_payload L d p) \<Longrightarrow> frag_payload L d p ! i = L ! (if fst p = 0 then i else nat (int (fst p) - d) + i)"
    and "fst p \<noteq> 0 \<longrightarrow> d \<le> int (fst p)"
proof -
  have dg: "int (length L) = int sz - d" "h \<le> length L" "d \<le> int u" using assms(1) by (auto simp: datagram_def d_def)
  have p: "fst p < snd p" "snd p \<le> sz" "fst p = 0 \<longrightarrow> u \<le> snd p" using assms(2,3) by (auto simp: division_def)
  obtain q where q: "q \<in> P" "fst q = 0" "u \<le> snd q" by (rule division_first [OF assms(2)]) (use p in simp)
  have later: "u \<le> fst p" if "fst p \<noteq> 0"
  proof -
    have "p = q \<or> snd p \<le> fst q \<or> snd q \<le> fst p" using assms(2,3) q(1) unfolding division_def by blast
    then show ?thesis using q p(1) that by auto
  qed
  show "int (snd p) = int (fst p) + int (length (frag_payload L d p)) + (if fst p = 0 then d else 0)"
    using p dg later by (cases "fst p = 0") (auto simp: frag_payload_def min_def)
  show "fst p = 0 \<longrightarrow> h \<le> length (frag_payload L d p) \<and> take h (frag_payload L d p) = take h L"
    using p dg by (auto simp: frag_payload_def d_def min_def)
  show "i < length (frag_payload L d p) \<Longrightarrow> frag_payload L d p ! i = L ! (if fst p = 0 then i else nat (int (fst p) - d) + i)"
    by (auto simp: frag_payload_def)
  show "fst p \<noteq> 0 \<longrightarrow> d \<le> int (fst p)" using later dg(3) by auto
qed

definition progress :: "nat \<Rightarrow> nat \<Rightarrow> u8 list \<Rightarrow> int \<Rightarrow> sockaddr \<Rightarrow> sockaddr \<Rightarrow> (nat \<times> nat) set \<Rightarrow> reassembly_entry \<Rightarrow> buffer \<Rightarrow> (nat \<times> nat) list \<Rightarrow> bool" where
  "progress sz tag L d src dst P e rb hs \<longleftrightarrow> entry_holes e rb hs \<and> r_size e = sz \<and> r_tag e = tag \<and> b_src_sa rb = src \<and> b_dst_sa rb = dst \<and>
     (\<forall>p\<in>P. frag_fits (fst p) (snd p - 1) hs) \<and>
     (\<forall>i<length L. \<not> in_holes (nat (int i + d)) hs \<longrightarrow> b_buf rb ! nat (int (b_ptr rb) + int i + d) = L ! i) \<and>
     (\<not> in_holes 0 hs \<longrightarrow> r_pattern e = d)"

lemma progress_step:
  assumes "progress sz tag L d src dst P e rb hs" and "hs \<noteq> []" and "datagram b0 L h u sz" and "division sz u P" and "p \<in> P" and "d = int u - int h"
    and "i < length (ri_rx ri)" and "ri_rx ri ! i = e"
    and "buffer_ok b" and "buffer_data b = frag_payload L d p" and "length (buffer_data b) \<le> 2047" and "b_src_sa b = src" and "b_dst_sa b = dst"
    and "mac_sockaddr src" and "mac_sockaddr dst"
  obtains e' rb' hs' where "progress sz tag L d src dst P e' rb' hs'" and "\<And>j. in_holes j hs' \<longleftrightarrow> in_holes j hs \<and> \<not> (fst p \<le> j \<and> j < snd p)"
    and "hs' \<noteq> [] \<Longrightarrow> reassembly_add ri i b (fst p) sz = Some (ri\<lparr>ri_rx := (ri_rx ri)[i := e']\<rparr>, None)"
    and "hs' = [] \<Longrightarrow> reassembly_add ri i b (fst p) sz =
      Some (reassembly_entry_free (ri\<lparr>ri_rx := (ri_rx ri)[i := e']\<rparr>) i,
        Some (rb'\<lparr>b_ptr := nat ((int (b_ptr rb') + r_pattern e') mod 65536), b_info := B_DIR_UP OR B_FROM_FRAGMENTATION OR B_TO_IPV6_TXRX\<rparr>))"
proof -
  let ?n = "length (buffer_data b)" and ?f = "fst p" and ?l = "snd p - 1"
  note eh = assms(1) [unfolded progress_def]
  have dv: "?f < snd p" "snd p \<le> sz" "?f mod 8 = 0" "snd p mod 8 = 0 \<or> snd p = sz" using assms(4,5) by (auto simp: division_def)
  note pf = payload_facts [OF assms(3,4,5), folded assms(6)]
  have mac: "mac_sockaddr (b_src_sa b)" "mac_sockaddr (b_dst_sa b)" using assms(12-15) by simp_all
  obtain e' rb' b' k d' where fs: "frag_sizes e rb b ?f = Some (e', rb', b', ?n, k)" "int k = int ?n + d'" "-7 \<le> d'"
      "?f \<noteq> 0 \<longrightarrow> d' = 0 \<and> e' = e" "?f = 0 \<longrightarrow> r_pattern e' = d'" "?f = 0 \<longrightarrow> (\<exists>h u. iphc_header_scan b = Some (h, u) \<and> d' = int u - int (h mod 256))"
      "entry_holes e' rb' hs" "r_size e' = r_size e" "r_tag e' = r_tag e"
      "b_ptr rb' = b_ptr rb" "b_buf rb' = b_buf rb" "b_ptr b' = b_ptr b" "b_buf b' = b_buf b"
      "b_src_sa rb' = (if ?f = 0 then b_src_sa b else b_src_sa rb)" "b_dst_sa rb' = (if ?f = 0 then b_dst_sa b else b_dst_sa rb)"
    by (rule frag_sizes_total [OF _ assms(9,11) mac, of e rb hs ?f]) (use eh in blast)+
  have d': "d' = (if ?f = 0 then d else 0)"
  proof (cases "?f = 0")
    case True
    have dg: "buffer_ok b0" "buffer_data b0 = L" "iphc_header_scan b0 = Some (h, u)" "h \<noteq> 0" "h < 256" "h \<le> length L" using assms(3) by (auto simp: datagram_def)
    have "iphc_header_scan b = Some (h, u)"
      by (rule iphc_header_scan_prefix [OF dg(1) assms(9) dg(3,4)]) (use pf(2) True dg assms(10) in auto)
    then show ?thesis using fs(6) True dg(5) assms(6) by auto
  next
    case False
    then show ?thesis using fs(4) by simp
  qed
  have kk: "?f + k = snd p" using pf(1) fs(2) d' assms(10) by (cases "?f = 0") simp_all
  have ld: "load_n (b_buf b') (b_ptr b') ?n = Some (buffer_data b)"
    using fs(12,13) buffer_ok_le [OF assms(9)] length_buffer_data [OF assms(9)] by (simp add: load_n_def buffer_data_def)
  have fr: "frag_ok sz ?f (?f + k - 1)" using dv kk by (auto simp: frag_ok_def)
  have d0: "?f \<noteq> 0 \<longrightarrow> d' = 0" using fs(4) by simp
  have rs: "r_size e' = sz" "sz = r_size e" using fs(8) eh by simp_all
  have ehs: "entry_holes e rb hs" using eh by blast
  have pos: "0 < ?f + k" using kk dv(1) by simp
  define fin where "fin m = rb'\<lparr>b_buf := m, b_ll_security_bypass_rx := b_ll_security_bypass_rx rb' \<or> b_ll_security_bypass_rx b'\<rparr>" for m
  define hs' where "hs' = holes_fill sz ?f ?l [] hs"
  obtain m off where m: "hole_seg (b_ptr rb') m off hs' 0xffff" "length m = length (b_buf rb')"
      "take ?n (drop (b_ptr rb' + snd p - ?n) m) = buffer_data b"
      "frag_fits ?f ?l hs \<longrightarrow> (\<forall>j. j \<notin> gaps (b_ptr rb') sz hs \<longrightarrow> j \<notin> {b_ptr rb' + snd p - ?n ..< b_ptr rb' + snd p} \<longrightarrow> m ! j = b_buf rb' ! j)"
    and r: "reassembly_add ri i b ?f sz =
        (if hs' \<noteq> [] then Some (ri\<lparr>ri_rx := (ri_rx ri)[i := e'\<lparr>r_offset := off, r_buf := Some (fin m)\<rparr>]\<rparr>, None)
         else Some (reassembly_entry_free (ri\<lparr>ri_rx := (ri_rx ri)[i := e'\<lparr>r_offset := off, r_buf := Some (fin m)\<rparr>]\<rparr>) i,
                Some ((fin m)\<lparr>b_ptr := nat ((int (b_ptr rb') + r_pattern e') mod 65536), b_info := B_DIR_UP OR B_FROM_FRAGMENTATION OR B_TO_IPV6_TXRX\<rparr>)))"
    using reassembly_add_store [OF assms(7,8) ehs assms(2) rs(2) fs(1,7) rs(1) ld refl fs(2,3) d0 fr pos] unfolding fin_def hs'_def kk add.assoc by metis
  define base where "base = b_ptr rb'"
  have base: "41 \<le> base" "base = b_ptr rb" "holes_ok sz hs" using fs(7,10) rs(1) by (auto simp: entry_holes_def base_def)
  have fits: "frag_fits ?f ?l hs" "?f \<le> ?l" using eh assms(5) dv(1) by auto
  have inh: "in_holes j hs' \<longleftrightarrow> in_holes j hs \<and> \<not> (?f \<le> j \<and> j < snd p)" for j
    using in_holes_fill [of sz "[]" hs ?f ?l j] base(3) fits dv(1) by (auto simp: hs'_def)
  have ok: "holes_ok sz hs'" using holes_fill_ok [of sz "[]" hs ?f ?l] base(3) fr kk by (simp add: hs'_def)
  have start: "int (base + snd p - ?n) = int base + (if ?f = 0 then d else int ?f)"
    using pf(1) kk fs(2,3) d' base(1) assms(10) by (cases "?f = 0") auto
  have lenL: "int (length L) + d = int sz" using assms(3,6) by (auto simp: datagram_def)
  have data: "m ! nat (int base + int i + d) = L ! i" if i: "i < length L" "\<not> in_holes (nat (int i + d)) hs'" for i
  proof -
    define x where "x = nat (int base + int i + d)"
    have "-7 \<le> d" using assms(3,6) by (auto simp: datagram_def)
    then have x: "int x = int base + int i + d" using base(1) by (simp add: x_def)
    show ?thesis
    proof (cases "x \<in> {base + snd p - ?n ..< base + snd p}")
      case True
      let ?y = "x - (base + snd p - ?n)"
      have y: "?y < ?n" "(if ?f = 0 then ?y else nat (int ?f - d) + ?y) = i" using True start x pf(1,4) assms(10) by (auto split: if_splits)
      have "m ! x = take ?n (drop (base + snd p - ?n) m) ! ?y" using True y(1) m(2) fs(7) rs(1) dv(2) room_of_le(1) [of sz]
        by (subst nth_take [OF y(1)]) (auto simp: entry_holes_def buffer_ok_def base_def)
      also have "\<dots> = frag_payload L d p ! ?y" using m(3) assms(10) by (simp add: base_def)
      also have "\<dots> = L ! i" using pf(3) [of ?y] y assms(10) by simp
      finally show ?thesis by (simp add: x_def)
    next
      case False
      have old: "\<not> in_holes (nat (int i + d)) hs"
      proof
        assume "in_holes (nat (int i + d)) hs"
        then have "?f \<le> nat (int i + d)" "nat (int i + d) < snd p" using inh i(2) by blast+
        then have "x \<in> {base + snd p - ?n ..< base + snd p}" using start x by (cases "?f = 0") auto
        then show False using False by blast
      qed
      have "x \<notin> gaps base sz hs"
      proof
        assume "x \<in> gaps base sz hs"
        then obtain j where j: "x = base + j" "sz \<le> j \<or> in_holes j hs" by (auto simp: gaps_def in_holes_def)
        then have "j = nat (int i + d)" using x by simp
        then show False using j old lenL i(1) x by auto
      qed
      then have "m ! x = b_buf rb' ! x" using m(4) fits(1) False by (simp add: base_def)
      also have "\<dots> = L ! i" using eh old i(1) fs(11) base(2) by (simp add: x_def)
      finally show ?thesis by (simp add: x_def)
    qed
  qed
  have pat: "r_pattern e' = d" if "\<not> in_holes 0 hs'"
  proof (cases "?f = 0")
    case True
    then show ?thesis using fs(5) d' by simp
  next
    case False
    then show ?thesis using that inh [of 0] fs(4) eh by auto
  qed
  have allfit: "frag_fits (fst q) (snd q - 1) hs'" if q: "q \<in> P" for q
  proof -
    have "q = p \<or> snd q \<le> fst p \<or> snd p \<le> fst q" "fst q < snd q" using assms(4,5) q unfolding division_def by blast+
    then have c: "snd q - 1 < ?f \<or> ?l < fst q \<or> fst q = ?f \<and> snd q - 1 = ?l" "fst q \<le> snd q - 1" using dv(1) by auto
    have "frag_fits (fst q) (snd q - 1) ([] @ hs)" using eh q by simp
    then show ?thesis unfolding hs'_def by (rule holes_fill_fits [OF fits _ c(2,1)])
  qed
  have src: "b_src_sa rb' = src" "b_dst_sa rb' = dst" using fs(14,15) assms(12,13) eh by simp_all
  have "entry_holes (e'\<lparr>r_offset := off, r_buf := Some (fin m)\<rparr>) (fin m) hs'"
    using fs(7) rs(1) m(1,2) ok by (simp add: entry_holes_def fin_def buffer_ok_def)
  moreover have tg: "r_tag e' = tag" using fs(9) eh by simp
  ultimately have pr: "progress sz tag L d src dst P (e'\<lparr>r_offset := off, r_buf := Some (fin m)\<rparr>) (fin m) hs'"
    unfolding progress_def using rs(1) tg src allfit pat data [unfolded base_def] by (simp add: fin_def)
  show ?thesis by (rule that [OF pr inh]) (use r in \<open>simp_all add: fin_def\<close>)
qed

section \<open>All fragments\<close>

text \<open>The interface after some ranges (\<open>seen\<close>) of the datagram have arrived, none of them completing it; \<open>ri0\<close> is the interface before.\<close>

definition underway where
  "underway sz tag L d src dst P ri0 ri seen \<longleftrightarrow>
     (if seen = {} then ri = ri0
      else \<exists>e rb hs. ri_rx ri = e # ri_rx ri0 \<and> ri_free ri = tl (ri_free ri0) \<and> progress sz tag L d src dst P e rb hs \<and> hs \<noteq> [] \<and>
        (\<forall>j. in_holes j hs \<longleftrightarrow> j < sz \<and> \<not> (\<exists>p\<in>seen. fst p \<le> j \<and> j < snd p)))"

lemma same_mac_refl: "mac_sockaddr a \<Longrightarrow> same_mac a a = Some True"
  by (auto simp: same_mac_def mac_sockaddr_def sockaddr_ok_def addr_len_from_type_def load_n_def ADDR_SIZE_def Let_def)

lemma match_progress:
  "progress sz tag L d src dst P e rb hs \<Longrightarrow> b_src_sa b = src \<Longrightarrow> b_dst_sa b = dst \<Longrightarrow> reassembly_match e b tag sz = Some True"
  by (auto simp: progress_def entry_holes_def reassembly_match_def same_mac_refl)

lemma already_action_none:
  "\<forall>e\<in>set es. reassembly_match e b tag sz = Some False \<Longrightarrow> reassembly_already_action es b tag sz = Some None"
  by (induction es) auto

lemma progress_start:
  assumes "datagram b0 L h u sz" and "division sz u P" and "entry_holes e rb [(0, sz - 1)]" and "r_size e = sz" and "r_tag e = tag"
    and "b_src_sa rb = src" and "b_dst_sa rb = dst" and "d = int u - int h"
  shows "progress sz tag L d src dst P e rb [(0, sz - 1)]"
proof -
  have "int (length L) + d = int sz" using assms(1,8) by (auto simp: datagram_def)
  then have "nat (int i + d) \<le> sz - 1" if "i < length L" for i using that by linarith
  moreover have "frag_fits (fst p) (snd p - 1) [(0, sz - 1)]" if "p \<in> P" for p
    using assms(2) that by (fastforce simp: division_def frag_fits_def)
  ultimately show ?thesis using assms(3-7) by (auto simp: progress_def)
qed

text \<open>The bytes of a completed datagram.\<close>

lemma progress_done:
  assumes "progress sz tag L d src dst P e rb []" and "datagram b0 L h u sz" and "d = int u - int h"
  defines "out \<equiv> rb\<lparr>b_ptr := nat ((int (b_ptr rb) + r_pattern e) mod 65536), b_info := B_DIR_UP OR B_FROM_FRAGMENTATION OR B_TO_IPV6_TXRX\<rparr>"
  shows "buffer_data out = L" and "buffer_ok out" and "b_src_sa out = src" and "b_dst_sa out = dst"
proof -
  have pr: "entry_holes e rb []" "r_size e = sz" "r_pattern e = d" "b_src_sa rb = src" "b_dst_sa rb = dst"
      "\<forall>i<length L. b_buf rb ! nat (int (b_ptr rb) + int i + d) = L ! i"
    using assms(1) by (simp_all add: progress_def)
  have d: "-7 \<le> d" "int (length L) + d = int sz" "sz \<le> 2047" using assms(2,3) by (auto simp: datagram_def)
  have rb: "buffer_ok rb" "41 \<le> b_ptr rb" "b_end rb = b_ptr rb + sz" "b_size rb \<le> 2200" using pr(1,2) by (auto simp: entry_holes_def)
  then have le: "b_end rb \<le> 2200" "b_end rb \<le> length (b_buf rb)" by (simp_all add: buffer_ok_def)
  have "(int (b_ptr rb) + d) mod 65536 = int (b_ptr rb) + d" using rb(2,3) d le(1) by (intro mod_pos_pos_trivial) linarith+
  then have ptr: "int (b_ptr out) = int (b_ptr rb) + d" using rb(2) d pr(3) by (simp add: out_def)
  show ok: "buffer_ok out" using rb(1,3) ptr d by (simp add: buffer_ok_def out_def)
  show "b_src_sa out = src" "b_dst_sa out = dst" using pr(4,5) by (simp_all add: out_def)
  have len: "length (buffer_data out) = length L" using length_buffer_data [OF ok] ptr rb(3) d by (simp add: out_def)
  show "buffer_data out = L"
  proof (rule nth_equalityI [OF len])
    fix i assume i: "i < length (buffer_data out)"
    then have "buffer_data out ! i = b_buf rb ! (b_ptr out + i)" using buffer_data_load [OF ok i] by (simp add: out_def load_def split: if_splits)
    moreover have "b_ptr out + i = nat (int (b_ptr rb) + int i + d)" using ptr by simp
    ultimately show "buffer_data out ! i = L ! i" using pr(6) i len by simp
  qed
qed

text \<open>The frame that carries a range, up to the call of \<open>reassembly_add\<close> on an entry that waits for it.\<close>

lemma frag_reassembly_enter:
  assumes "underway sz tag L d src dst P ri0 ri seen" and "datagram b0 L h u sz" and "division sz u P" and "p \<in> P" and "d = int u - int h" and "tag < 65536"
    and "carries sz tag L d src dst p b" and "alloc_ok alloc" and "\<forall>n. alloc n \<noteq> None" and "reassembly_ok ri0" and "ri_free ri0 \<noteq> []"
    and "\<forall>e\<in>set (ri_rx ri0). reassembly_match e b tag sz = Some False"
  obtains b1 ri1 e rb hs where "frag_reassembly alloc ri b = reassembly_add ri1 0 b1 (fst p) sz" and "buffer_ok b1" and "buffer_data b1 = frag_payload L d p"
    and "length (buffer_data b1) \<le> 2047" and "b_src_sa b1 = src" and "b_dst_sa b1 = dst" and "ri_rx ri1 = e # ri_rx ri0" and "ri_free ri1 = tl (ri_free ri0)"
    and "progress sz tag L d src dst P e rb hs" and "hs \<noteq> []" and "\<forall>j. in_holes j hs \<longleftrightarrow> j < sz \<and> \<not> (\<exists>p\<in>seen. fst p \<le> j \<and> j < snd p)"
proof -
  define n :: nat where "n = (if fst p = 0 then 4 else 5)"
  have fb: "frag_buffer b" and bd: "buffer_data b = frag_wire sz tag L d p" and sa: "b_src_sa b = src" "b_dst_sa b = dst" using assms(7) by (auto simp: carries_def)
  have b: "buffer_ok b" "length (buffer_data b) \<le> 2047" using fb by (simp_all add: frag_buffer_def)
  have sz: "0 < sz" "sz \<le> 2047" using assms(2) by (simp_all add: datagram_def)
  have pp: "fst p < sz" "fst p mod 8 = 0" using assms(3,4) by (auto simp: division_def)
  note hd = frag_header_wire [OF b(1) bd sz assms(6) pp, folded n_def]
  define b1 where "b1 = buffer_data_pointer_set b (b_ptr b + n)"
  have "b_ptr b + n < 65536" using hd(2) buffer_ok_le [OF b(1)] length_buffer_data [OF b(1)] by simp
  then have b1: "b1 = b\<lparr>b_ptr := b_ptr b + n\<rparr>" by (simp add: b1_def buffer_data_pointer_set_def)
  have b1_ok: "buffer_ok b1" "buffer_data b1 = frag_payload L d p" using strip_header [OF b(1) hd(2)] hd(3) unfolding b1 by simp_all
  have b1_len: "length (buffer_data b1) \<le> 2047" unfolding b1 using strip_header(3) [OF b(1) hd(2)] b(2) by simp
  have b1_sa: "b_src_sa b1 = src" "b_dst_sa b1 = dst" using sa by (simp_all add: b1)
  have match: "reassembly_match e b1 tag sz = reassembly_match e b tag sz" for e unfolding reassembly_match_def b1_sa sa ..
  note eq = frag_reassembly_def [of alloc ri b, unfolded hd(1) bind.bind_lunit option.case prod.case Let_def, folded b1_def]
  show ?thesis
  proof (cases "seen = {}")
    case True
    then have ri: "ri = ri0" using assms(1) by (simp add: underway_def)
    have none: "reassembly_already_action (ri_rx ri0) b1 tag sz = Some None" using assms(12) match by (intro already_action_none) simp
    have fb1: "frag_buffer b1" using b1_ok b1_len fb by (simp add: frag_buffer_def b1)
    obtain ri1 ok where s: "reassembly_start alloc ri0 b1 tag sz = Some (ri1, ok)"
        "ok \<longrightarrow> (\<exists>e rb. ri_rx ri1 = e # ri_rx ri0 \<and> ri_free ri1 = tl (ri_free ri0) \<and> r_size e = sz \<and> r_tag e = tag \<and> entry_holes e rb [(0, sz - 1)] \<and>
           b_src_sa rb = b_src_sa b1 \<and> b_dst_sa rb = b_dst_sa b1)"
      using reassembly_start_total [OF assms(10) fb1 assms(8) sz, of tag] by blast
    have "\<exists>rb. buffer_get alloc (1 + (sz + 7) div 8 * 8) = Some rb"
    proof -
      have "(sz + 7) div 8 * 8 \<le> 2048" using sz(2) by simp
      then have "((if 40 + (1 + (sz + 7) div 8 * 8) < 127 then 127 else 40 + (1 + (sz + 7) div 8 * 8)) + 3) div 4 * 4 \<le> 65535" by (simp split: if_splits)
      then show ?thesis using assms(9) unfolding buffer_get_def buffer_get_specific_def Let_def BUFFER_DEFAULT_HEADROOM_def BUFFER_DEFAULT_MIN_SIZE_def BUFFER_MAX_SIZE_def
        by (simp del: mult_le_cancel2)
    qed
    then have ok: ok using s(1) assms(11)
      by (auto simp: reassembly_start_def lowpan_adaptation_reassembly_get_def Let_def bind_eq_Some_conv split: list.splits)
    then obtain e rb where e: "ri_rx ri1 = e # ri_rx ri0" "ri_free ri1 = tl (ri_free ri0)" "r_size e = sz" "r_tag e = tag" "entry_holes e rb [(0, sz - 1)]"
        "b_src_sa rb = src" "b_dst_sa rb = dst"
      using s(2) b1_sa by auto
    have pr: "progress sz tag L d src dst P e rb [(0, sz - 1)]" by (rule progress_start [OF assms(2,3) e(5,3,4,6,7) assms(5)])
    have "frag_reassembly alloc ri b = reassembly_add ri1 0 b1 (fst p) sz" using none s(1) ok ri unfolding eq by simp
    then show ?thesis by (rule that [OF _ b1_ok b1_len b1_sa e(1,2) pr]) (use True sz in auto)
  next
    case False
    then obtain e rb hs where e: "ri_rx ri = e # ri_rx ri0" "ri_free ri = tl (ri_free ri0)" "progress sz tag L d src dst P e rb hs" "hs \<noteq> []"
        "\<forall>j. in_holes j hs \<longleftrightarrow> j < sz \<and> \<not> (\<exists>p\<in>seen. fst p \<le> j \<and> j < snd p)"
      using assms(1) unfolding underway_def by auto
    have "frag_reassembly alloc ri b = reassembly_add ri 0 b1 (fst p) sz" using match_progress [OF e(3) b1_sa] e(1) unfolding eq by simp
    then show ?thesis by (rule that [OF _ b1_ok b1_len b1_sa e])
  qed
qed

lemma underway_step:
  assumes "underway sz tag L d src dst P ri0 ri seen" and "datagram b0 L h u sz" and "division sz u P" and "p \<in> P" and "d = int u - int h" and "tag < 65536"
    and "carries sz tag L d src dst p b" and "alloc_ok alloc" and "\<forall>n. alloc n \<noteq> None" and "reassembly_ok ri0" and "ri_free ri0 \<noteq> []"
    and "\<forall>e\<in>set (ri_rx ri0). reassembly_match e b tag sz = Some False" and "seen \<subseteq> P"
  shows "insert p seen \<noteq> P \<Longrightarrow> \<exists>ri'. frag_reassembly alloc ri b = Some (ri', None) \<and> underway sz tag L d src dst P ri0 ri' (insert p seen)"
    and "insert p seen = P \<Longrightarrow> \<exists>ri' out. frag_reassembly alloc ri b = Some (ri', Some out) \<and> ri_rx ri' = ri_rx ri0 \<and>
      buffer_ok out \<and> buffer_data out = L \<and> b_src_sa out = src \<and> b_dst_sa out = dst"
proof -
  obtain b1 ri1 e rb hs where en: "frag_reassembly alloc ri b = reassembly_add ri1 0 b1 (fst p) sz" "buffer_ok b1" "buffer_data b1 = frag_payload L d p"
      "length (buffer_data b1) \<le> 2047" "b_src_sa b1 = src" "b_dst_sa b1 = dst" "ri_rx ri1 = e # ri_rx ri0" "ri_free ri1 = tl (ri_free ri0)"
      "progress sz tag L d src dst P e rb hs" "hs \<noteq> []" "\<forall>j. in_holes j hs \<longleftrightarrow> j < sz \<and> \<not> (\<exists>p\<in>seen. fst p \<le> j \<and> j < snd p)"
    by (rule frag_reassembly_enter [OF assms(1-12)])
  have i: "0 < length (ri_rx ri1)" "ri_rx ri1 ! 0 = e" using en(7) by simp_all
  have mac: "mac_sockaddr src" "mac_sockaddr dst" using assms(7) by (auto simp: carries_def frag_buffer_def)
  obtain e' rb' hs' where st: "progress sz tag L d src dst P e' rb' hs'" "\<And>j. in_holes j hs' \<longleftrightarrow> in_holes j hs \<and> \<not> (fst p \<le> j \<and> j < snd p)"
      "hs' \<noteq> [] \<Longrightarrow> reassembly_add ri1 0 b1 (fst p) sz = Some (ri1\<lparr>ri_rx := (ri_rx ri1)[0 := e']\<rparr>, None)"
      "hs' = [] \<Longrightarrow> reassembly_add ri1 0 b1 (fst p) sz =
        Some (reassembly_entry_free (ri1\<lparr>ri_rx := (ri_rx ri1)[0 := e']\<rparr>) 0,
          Some (rb'\<lparr>b_ptr := nat ((int (b_ptr rb') + r_pattern e') mod 65536), b_info := B_DIR_UP OR B_FROM_FRAGMENTATION OR B_TO_IPV6_TXRX\<rparr>))"
    by (rule progress_step [OF en(9,10) assms(2,3,4,5) i en(2-6) mac]) blast
  have cover: "in_holes j hs' \<longleftrightarrow> j < sz \<and> \<not> (\<exists>q\<in>insert p seen. fst q \<le> j \<and> j < snd q)" for j using st(2) en(11) by auto
  have hok: "holes_ok sz hs'" using st(1) by (auto simp: progress_def entry_holes_def)
  show "\<exists>ri'. frag_reassembly alloc ri b = Some (ri', None) \<and> underway sz tag L d src dst P ri0 ri' (insert p seen)" if ne: "insert p seen \<noteq> P"
  proof -
    obtain q where q: "q \<in> P" "q \<notin> insert p seen" using ne assms(4,13) by blast
    have "fst q < sz" using assms(3) q(1) by (auto simp: division_def)
    moreover have "\<not> (fst r \<le> fst q \<and> fst q < snd r)" if r: "r \<in> insert p seen" for r
    proof -
      have "r \<in> P" using r assms(4,13) by blast
      then have "r = q \<or> snd r \<le> fst q \<or> snd q \<le> fst r" "fst q < snd q" using assms(3) q(1) unfolding division_def by blast+
      moreover have "r \<noteq> q" using r q(2) by blast
      ultimately show ?thesis by linarith
    qed
    ultimately have "in_holes (fst q) hs'" using cover by blast
    then have "hs' \<noteq> []" by auto
    then show ?thesis using st(1,3) en(1,7,8) cover by (auto simp: underway_def)
  qed
  show "\<exists>ri' out. frag_reassembly alloc ri b = Some (ri', Some out) \<and> ri_rx ri' = ri_rx ri0 \<and>
      buffer_ok out \<and> buffer_data out = L \<and> b_src_sa out = src \<and> b_dst_sa out = dst" if "insert p seen = P"
  proof -
    have "\<not> in_holes j hs'" for j
    proof
      assume "in_holes j hs'"
      then have "j < sz" "\<not> (\<exists>q\<in>P. fst q \<le> j \<and> j < snd q)" using cover [of j] that by blast+
      then show False using assms(3) by (auto simp: division_def)
    qed
    then have nil: "hs' = []" using holes_nonempty [OF hok] by blast
    have pd: "progress sz tag L d src dst P e' rb' []" using st(1) nil by simp
    note fin = progress_done [OF pd assms(2,5)]
    have "ri_rx (reassembly_entry_free (ri1\<lparr>ri_rx := (ri_rx ri1)[0 := e']\<rparr>) 0) = ri_rx ri0" using en(7) by (simp add: reassembly_entry_free_def)
    then show ?thesis using st(4) [OF nil] en(1) fin by auto
  qed
qed

lemma frag_run_underway:
  assumes "datagram b0 L h u sz" and "division sz u P" and "d = int u - int h" and "tag < 65536"
    and "alloc_ok alloc" and "\<forall>n. alloc n \<noteq> None" and "reassembly_ok ri0" and "ri_free ri0 \<noteq> []"
  shows "underway sz tag L d src dst P ri0 ri seen \<Longrightarrow> list_all2 (carries sz tag L d src dst) ps bs \<Longrightarrow> ps \<noteq> [] \<Longrightarrow> seen \<union> set ps = P \<Longrightarrow>
     last ps \<notin> seen \<union> set (butlast ps) \<Longrightarrow> \<forall>b\<in>set bs. \<forall>e\<in>set (ri_rx ri0). reassembly_match e b tag sz = Some False \<Longrightarrow>
     \<exists>ri' out. frag_run alloc ri bs = Some (ri', replicate (length bs - 1) None @ [Some out]) \<and> ri_rx ri' = ri_rx ri0 \<and>
       buffer_ok out \<and> buffer_data out = L \<and> b_src_sa out = src \<and> b_dst_sa out = dst"
proof (induction ps arbitrary: bs ri seen)
  case (Cons p ps)
  obtain b bs' where bs: "bs = b # bs'" "carries sz tag L d src dst p b" "list_all2 (carries sz tag L d src dst) ps bs'"
    using Cons.prems(2) by (auto simp: list_all2_Cons1)
  have p: "p \<in> P" "seen \<subseteq> P" "\<forall>e\<in>set (ri_rx ri0). reassembly_match e b tag sz = Some False" using Cons.prems(4,6) bs(1) by auto
  note step = underway_step [OF Cons.prems(1) assms(1,2) p(1) assms(3,4) bs(2) assms(5-8) p(3,2)]
  show ?case
  proof (cases "ps = []")
    case True
    then have "insert p seen = P" "bs' = []" using Cons.prems(4) bs(3) by auto
    then show ?thesis using step(2) bs(1) by auto
  next
    case False
    have ne: "insert p seen \<noteq> P"
    proof
      assume "insert p seen = P"
      then have "last ps \<in> insert p seen" using Cons.prems(4) False by (metis Un_iff last_in_set list.set_intros(2))
      then show False using Cons.prems(5) False by auto
    qed
    then obtain ri1 where r1: "frag_reassembly alloc ri b = Some (ri1, None)" "underway sz tag L d src dst P ri0 ri1 (insert p seen)"
      using step(1) by blast
    have "insert p seen \<union> set ps = P" "last ps \<notin> insert p seen \<union> set (butlast ps)" "\<forall>b\<in>set bs'. \<forall>e\<in>set (ri_rx ri0). reassembly_match e b tag sz = Some False"
      using Cons.prems(4-6) False bs(1) by auto
    from Cons.IH [OF r1(2) bs(3) False this] obtain ri' out where "frag_run alloc ri1 bs' = Some (ri', replicate (length bs' - 1) None @ [Some out])" "ri_rx ri' = ri_rx ri0"
        "buffer_ok out \<and> buffer_data out = L \<and> b_src_sa out = src \<and> b_dst_sa out = dst" by blast
    moreover have "length bs' \<noteq> 0" using bs(3) False by (auto dest: list_all2_lengthD)
    ultimately show ?thesis using r1(1) bs(1) by (cases "length bs'") auto
  qed
qed simp


section \<open>What holds\<close>

text \<open>
  C7. Reassembly inverts fragmentation. Let \<open>L\<close> be a compressed datagram whose headers have \<open>h\<close> bytes, \<open>u\<close> when
  uncompressed, and let \<open>P\<close> divide its \<open>sz\<close> uncompressed bytes into ranges that start at multiples of 8, the headers being in the first. Whatever
  the order in which the frames that carry the ranges arrive, and however often one is repeated before the last range comes in, the code hands up
  nothing until then, and with it a buffer that holds exactly \<open>L\<close>, from the same source and to the same destination.
  The reassemblies of other datagrams are left as they were. Wanted is only that the pool and the
  memory are not exhausted, and that no older reassembly has the addresses, tag and size of this one.
\<close>

theorem reassembly_round_trip:
  assumes "datagram b0 L h u sz" and "division sz u P" and "tag < 65536"
    and "alloc_ok alloc" and "\<forall>n. alloc n \<noteq> None" and "reassembly_reachable ris" and "ri \<in> set ris" and "ri_free ri \<noteq> []"
    and "list_all2 (carries sz tag L (int u - int h) src dst) ps bs" and "set ps = P" and "last ps \<notin> set (butlast ps)"
    and "\<forall>b\<in>set bs. \<forall>e\<in>set (ri_rx ri). reassembly_match e b tag sz = Some False"
  shows "\<exists>ri' out. frag_run alloc ri bs = Some (ri', replicate (length bs - 1) None @ [Some out]) \<and> ri_rx ri' = ri_rx ri \<and>
    buffer_ok out \<and> buffer_data out = L \<and> b_src_sa out = src \<and> b_dst_sa out = dst"
proof -
  have ok: "reassembly_ok ri" using reachable_ok [OF assms(6)] assms(7) by blast
  have "0 < sz" using assms(1) by (simp add: datagram_def)
  then have "ps \<noteq> []" using assms(2,10) by (auto simp: division_def)
  then show ?thesis
    using frag_run_underway [OF assms(1,2) refl assms(3-5) ok assms(8) _ assms(9), of ri "{}"] assms(10-12) by (simp add: underway_def)
qed

section \<open>A witness\<close>

text \<open>A datagram of 56 bytes in two fragments, with an IPHC header of 3 bytes.\<close>

definition small_datagram :: "u8 list" where
  "small_datagram = [0x7a, 0x33, 59, 1, 2, 3, 4, 5, 6, 7, 8, 9, 10, 11, 12, 13, 14, 15, 16]"

definition small_frame :: "nat \<times> nat \<Rightarrow> buffer" where
  "small_frame p = frame_buffer (frag_wire 56 7 small_datagram 37 p)"

definition small_interface :: reassembly_interface where
  "small_interface = \<lparr>ri_id = 1, ri_timeout = 60, ri_rx = [], ri_free = replicate 2 reassembly_entry_zero\<rparr>"

lemma small_division: "division 56 40 {(48, 56), (0, 48)}"
  unfolding division_def by auto

lemma small_datagram_ok: "datagram (frame_buffer small_datagram) small_datagram 3 40 56"
proof -
  have "iphc_inline_len 0x7a 0x33 = Some 1" by code_simp
  moreover have "(0x7a :: u8) AND HC_NEXT_HEADER_MASK = 0" "(0x7a :: u8) AND LOWPAN_DISPATCH_IPHC_MASK = LOWPAN_DISPATCH_IPHC" "(0x7a :: u8) \<noteq> LOWPAN_DISPATCH_IPV6"
    by code_simp+
  moreover have ld: "load small_datagram 0 = Some 0x7a" "load small_datagram 1 = Some 0x33" and len: "length small_datagram = 19"
    by (simp_all add: small_datagram_def load_def)
  ultimately have "iphc_scan_ip small_datagram 0 19 0 0 = Some (3, 40)"
    by (simp add: iphc_scan_ip.simps [of small_datagram 0 19 0 0] iphc_scan_end_def)
  then have "iphc_header_scan (frame_buffer small_datagram) = Some (3, 40)"
    using ld len by (simp add: iphc_header_scan_def frame_buffer_def LOWPAN_DISPATCH_IPV6_def)
  then show ?thesis using frame_buffer_ok [of small_datagram] len by (simp add: datagram_def frag_buffer_def)
qed

lemma small_frame_carries: "carries 56 7 small_datagram 37 (mac_long 2) (mac_long 1) p (small_frame p)"
proof -
  have "length (frag_wire 56 7 small_datagram 37 p) \<le> 5 + length small_datagram" by (auto simp: frag_wire_def frag_payload_def be_bytes_2)
  moreover have "length small_datagram = 19" by (simp add: small_datagram_def)
  ultimately show ?thesis using frame_buffer_ok [of "frag_wire 56 7 small_datagram 37 p"]
    by (auto simp: carries_def small_frame_def) (simp_all add: frame_buffer_def)
qed

theorem reassembly_round_trip_witness:
  "\<exists>ri' out. frag_run reassembly_alloc small_interface [small_frame (48, 56), small_frame (48, 56), small_frame (0, 48)] = Some (ri', [None, None, Some out]) \<and>
     buffer_data out = small_datagram"
proof -
  have r: "reassembly_reachable [small_interface]"
    using reassembly_reachable.init [OF reassembly_reachable.start, of reassembly_pool 1 2 60]
    by (simp add: reassembly_interface_init_def reassembly_interface_free_def reassembly_pool_def small_interface_def)
  show ?thesis
    using reassembly_round_trip [OF small_datagram_ok small_division _ reassembly_alloc_ok _ r,
        of 7 small_interface "mac_long 2" "mac_long 1" "[(48, 56), (48, 56), (0, 48)]" "[small_frame (48, 56), small_frame (48, 56), small_frame (0, 48)]"]
      small_frame_carries
    by (auto simp: reassembly_alloc_def small_interface_def numeral_2_eq_2)
qed

end
