(* ===== verification/Fragmenter.thy ===== *)
theory Fragmenter
  imports ReassemblyRun
begin

text \<open>
  The fragmentation of outgoing packets in \<open>src/stack/source/6lowpan/adaptation_interface.c\<close>: the plan for a packet
  (\<open>lowpan_message_fragmentation_init\<close>), the frame of the current fragment (\<open>lowpan_message_fragmentation_message_write\<close>) and the step to
  the next one when a frame is confirmed (\<open>lowpan_adaptation_tx_process_ready\<close>).

  The maximum payload of a frame, which the code works out from the MAC header, is an argument. \<open>None\<close> is an
  access outside an object, a failed \<open>BUG\<close>, or a transmission that never ends. Statistics and traces are left out.
\<close>

section \<open>State\<close>

record fragmenter_tx_entry =
  t_tag :: u16
  t_size :: nat
  t_orig_size :: nat
  t_frag_max :: u16
  t_offset :: nat
  t_pattern :: int
  t_unfrag_ptr :: nat
  t_frag_len :: nat
  t_unfrag_len :: nat
  t_fragmented_data :: bool
  t_first_fragment :: bool
  t_indirect_data :: bool
  t_buf :: "buffer option"

definition LOWPAN_HARD_MTU_LIMIT :: nat where
  "LOWPAN_HARD_MTU_LIMIT = 2047"

definition LOWPAN_FRAG1 :: u16 where
  "LOWPAN_FRAG1 = 0xC0"

definition LOWPAN_FRAGN :: u16 where
  "LOWPAN_FRAGN = 0xE0"

section \<open>The plan\<close>

text \<open>The loop that fills the first fragment up, in steps of 8 bytes.\<close>

function frag_fill :: "nat \<Rightarrow> u16 \<Rightarrow> nat \<Rightarrow> nat \<Rightarrow> nat \<times> nat" where
  "frag_fill unfrag_len frag_max off frag_len =
     (if unfrag_len + 4 + frag_len + 8 \<le> unat frag_max then frag_fill unfrag_len frag_max ((off + 1) mod 65536) ((frag_len + 8) mod 65536)
      else (off, frag_len))"
  by pat_completeness auto
termination
proof (relation "measure (\<lambda>(unfrag_len, frag_max, off, frag_len). unat frag_max - frag_len)")
  fix unfrag_len :: nat and frag_max :: u16 and off frag_len :: nat
  assume "unfrag_len + 4 + frag_len + 8 \<le> unat frag_max"
  then have "(frag_len + 8) mod 65536 = frag_len + 8" "frag_len + 8 \<le> unat frag_max" using unat_u16_lt [of frag_max] by simp_all
  then show "((unfrag_len, frag_max, (off + 1) mod 65536, (frag_len + 8) mod 65536), unfrag_len, frag_max, off, frag_len)
      \<in> measure (\<lambda>(unfrag_len, frag_max, off, frag_len). unat frag_max - frag_len)" by simp
qed simp

declare frag_fill.simps [simp del]

definition lowpan_message_fragmentation_init :: "u16 \<Rightarrow> fragmenter_tx_entry \<Rightarrow> (int \<times> fragmenter_tx_entry) option" where
  "lowpan_message_fragmentation_init frag_max e =
     do { b \<leftarrow> t_buf e;
          let unfrag_ptr = b_ptr b;
          x \<leftarrow> load (b_buf b) (b_ptr b);
          let b = (if x = LOWPAN_DISPATCH_BC0 then b\<lparr>b_ptr := (b_ptr b + 2) mod 65536\<rparr> else b);
          let unfrag_len = nat ((int (b_ptr b) - int unfrag_ptr) mod 256);
          (h, uncompressed_size) \<leftarrow> iphc_header_scan b;
          let pattern = to_s16 (int h);
          let orig_size = nat (buffer_data_length b mod 65536);
          let sz = nat ((int orig_size + (int uncompressed_size - pattern)) mod 65536);
          let e = e\<lparr>t_size := sz, t_orig_size := orig_size, t_frag_max := frag_max, t_pattern := pattern, t_unfrag_ptr := unfrag_ptr,
                    t_unfrag_len := unfrag_len, t_buf := Some b\<rparr>;
          if sz > LOWPAN_HARD_MTU_LIMIT then Some (-1, e)
          else (let off = uncompressed_size div 8; frag_len = nat (pattern mod 65536);
                    (off', frag_len') = (if unfrag_len + 4 + frag_len > unat frag_max then (off, frag_len) else frag_fill unfrag_len frag_max off frag_len);
                    e = e\<lparr>t_offset := off', t_frag_len := frag_len'\<rparr>
                in if unfrag_len + 4 + frag_len > unat frag_max then Some (-1, e) else Some (0, e\<lparr>t_fragmented_data := True\<rparr>)) }"

section \<open>A frame\<close>

text \<open>\<open>msdu\<close> is the memory for the frame; the result is that memory, the length of the frame, and whether more is to come.\<close>

definition lowpan_message_fragmentation_message_write :: "fragmenter_tx_entry \<Rightarrow> u8 list \<Rightarrow> (u8 list \<times> nat \<times> bool) option" where
  "lowpan_message_fragmentation_message_write e msdu =
     do { b \<leftarrow> t_buf e;
          c \<leftarrow> (if t_unfrag_len e \<noteq> 0 then do { x \<leftarrow> load_n (b_buf b) (t_unfrag_ptr e) (t_unfrag_len e); put_n (msdu, 0) x } else Some (msdu, 0));
          c \<leftarrow> (if t_first_fragment e
                then do { c \<leftarrow> put_be16 c (push_bit 8 LOWPAN_FRAG1 OR word_of_nat (t_size e)); put_be16 c (t_tag e) }
                else do { c \<leftarrow> put_be16 c (push_bit 8 LOWPAN_FRAGN OR word_of_nat (t_size e)); c \<leftarrow> put_be16 c (t_tag e);
                          put8 c (word_of_nat (t_offset e)) });
          x \<leftarrow> load_n (b_buf b) (b_ptr b) (t_frag_len e);
          (msdu, p) \<leftarrow> put_n c x;
          Some (msdu, p mod 65536, t_offset e * 8 + t_frag_len e < t_size e) }"

section \<open>The next fragment\<close>

definition lowpan_adaptation_tx_process_ready :: "fragmenter_tx_entry \<Rightarrow> (bool \<times> fragmenter_tx_entry) option" where
  "lowpan_adaptation_tx_process_ready e =
     do { b \<leftarrow> t_buf e;
          if \<not> t_fragmented_data e then Some (True, e)
          else do {
            b \<leftarrow> buffer_data_strip_header b (t_frag_len e);
            let e = e\<lparr>t_buf := Some b\<rparr>;
            let e = (if \<not> t_first_fragment e then e\<lparr>t_offset := (t_offset e + t_frag_len e div 8) mod 65536\<rparr> else e\<lparr>t_first_fragment := False\<rparr>);
            let frag_len = nat (buffer_data_length b mod 65536);
            if frag_len = 0 then Some (True, e\<lparr>t_frag_len := frag_len\<rparr>)
            else Some (False, e\<lparr>t_frag_len :=
              (if t_unfrag_len e + 5 + frag_len > unat (t_frag_max e)
               then nat ((int (unat (t_frag_max e)) - 5 - int (t_unfrag_len e)) mod 65536) div 8 * 8 else frag_len)\<rparr>) } }"

text \<open>
  The frames of a packet when every one of them is confirmed: \<open>lowpan_data_request_to_mac\<close> hands one to the MAC, the confirmation
  moves to the next, until the packet is sent.
\<close>

partial_function (option) fragment_send :: "fragmenter_tx_entry \<Rightarrow> u8 list \<Rightarrow> (u8 list list) option" where
  "fragment_send e msdu =
     do { (msdu, len, more) \<leftarrow> lowpan_message_fragmentation_message_write e msdu;
          (ready, e) \<leftarrow> lowpan_adaptation_tx_process_ready e;
          if ready then Some [take len msdu]
          else do { fs \<leftarrow> fragment_send e msdu; Some (take len msdu # fs) } }"

section \<open>The loop of the plan\<close>

lemma frag_fill_spec:
  "unfrag_len + 4 + fl \<le> unat fm \<Longrightarrow> off + unat fm < 65536 + fl \<Longrightarrow>
     \<exists>k. frag_fill unfrag_len fm off fl = (off + k, fl + 8 * k) \<and> unfrag_len + 4 + (fl + 8 * k) \<le> unat fm \<and> unat fm < unfrag_len + 4 + (fl + 8 * k) + 8"
proof (induction unfrag_len fm off fl rule: frag_fill.induct)
  case (1 unfrag_len fm off fl)
  show ?case
  proof (cases "unfrag_len + 4 + fl + 8 \<le> unat fm")
    case True
    have m: "(off + 1) mod 65536 = off + 1" "(fl + 8) mod 65536 = fl + 8" using True 1(3) unat_u16_lt [of fm] by simp_all
    obtain k where "frag_fill unfrag_len fm (off + 1) (fl + 8) = (off + 1 + k, fl + 8 + 8 * k)" "unfrag_len + 4 + (fl + 8 + 8 * k) \<le> unat fm"
        "unat fm < unfrag_len + 4 + (fl + 8 + 8 * k) + 8"
      using 1(1) [OF True] True 1(3) unfolding m by auto
    then show ?thesis using True m by (intro exI [of _ "Suc k"]) (simp add: frag_fill.simps [of unfrag_len fm off fl])
  next
    case False
    then show ?thesis using 1(2) by (intro exI [of _ 0]) (simp add: frag_fill.simps [of unfrag_len fm off fl])
  qed
qed

section \<open>Uncompressed headers are multiples of 8 bytes\<close>

lemma dvd_8_wrap: "8 dvd (x mod 65536) \<longleftrightarrow> 8 dvd (x :: nat)"
  by (rule dvd_mod_iff) simp

lemma iphc_scan_dvd_8:
  "8 dvd un \<Longrightarrow> iphc_scan_ip m st e ptr un = Some (h, u) \<Longrightarrow> 8 dvd u"
  "8 dvd un \<Longrightarrow> iphc_scan_nhc m st e ptr un = Some (h, u) \<Longrightarrow> 8 dvd u"
proof (induction m st e ptr un and m st e ptr un arbitrary: h u and h u rule: iphc_scan_ip_iphc_scan_nhc.induct)
  case (1 m st e ptr un)
  have "8 dvd (un + 40) mod 65536" using 1(2) by (simp add: dvd_8_wrap)
  then show ?case using 1(1,3) unfolding iphc_scan_ip.simps [of m st e ptr un]
    by (auto simp: bind_eq_Some_conv iphc_scan_end_def split: if_splits option.splits)
next
  case (2 m st e ptr un)
  note eq = iphc_scan_nhc.simps [of m st e ptr un]
  have end8: "8 dvd v \<Longrightarrow> iphc_scan_end st e p v = (h, u) \<Longrightarrow> 8 dvd u" for p v
    by (auto simp: iphc_scan_end_def split: if_splits)
  have up: "8 dvd (un + (2 + n + 7) div 8 * 8) mod 65536" "8 dvd (un + 8) mod 65536" for n using 2(3) by (simp_all add: dvd_8_wrap)
  show ?case
  proof (cases "ptr \<ge> e")
    case True
    then show ?thesis using 2(4) unfolding eq by simp
  next
    case in_range: False
    then obtain nhc where ld: "load m ptr = Some nhc" using 2(4) unfolding eq by (auto simp: bind_eq_Some_conv)
    consider (ip) "nhc AND NHC_EXT_HEADER_MASK = NHC_EXT_HEADER" "nhc AND NHC_EXT_ID_MASK = NHC_EXT_IPV6"
      | (ext) "nhc AND NHC_EXT_HEADER_MASK = NHC_EXT_HEADER" "nhc AND NHC_EXT_ID_MASK \<noteq> NHC_EXT_IPV6" "nhc_is_exthdr nhc"
      | (bad) "nhc AND NHC_EXT_HEADER_MASK = NHC_EXT_HEADER" "nhc AND NHC_EXT_ID_MASK \<noteq> NHC_EXT_IPV6" "\<not> nhc_is_exthdr nhc"
      | (udp) "nhc AND NHC_EXT_HEADER_MASK \<noteq> NHC_EXT_HEADER" "nhc AND NHC_UDP_MASK = NHC_UDP"
      | (other) "nhc AND NHC_EXT_HEADER_MASK \<noteq> NHC_EXT_HEADER" "nhc AND NHC_UDP_MASK \<noteq> NHC_UDP" by blast
    then show ?thesis
    proof cases
      case ip
      then show ?thesis using 2(1) [OF in_range ld ip 2(3)] 2(4) in_range ld unfolding eq by simp
    next
      case ext
      define more where "more = (nhc AND NHC_EXT_NH \<noteq> 0)"
      define p where "p = (if more then ptr + 1 else ptr + 2)"
      show ?thesis
      proof (cases "p \<ge> e")
        case True
        then show ?thesis using 2(4) ext in_range ld unfolding eq by (simp add: p_def more_def)
      next
        case False
        let ?step = "if nhc AND NHC_EXT_ID_MASK = NHC_EXT_FRAG then Some (p + 7, (un + 8) mod 65536)
          else load m p \<bind> (\<lambda>len. Some (p + 1 + unat len, (un + (2 + unat len + 7) div 8 * 8) mod 65536))"
        have r: "?step \<bind> (\<lambda>(p, un). if more then iphc_scan_nhc m st e p un else Some (iphc_scan_end st e p un)) = Some (h, u)"
          using 2(4) False ext in_range ld unfolding eq p_def more_def by (simp add: Let_def)
        then obtain q v where q: "?step = Some (q, v)" "(if more then iphc_scan_nhc m st e q v else Some (iphc_scan_end st e q v)) = Some (h, u)"
          by (auto simp: bind_eq_Some_conv)
        have v: "8 dvd v" using q(1) up by (auto simp: bind_eq_Some_conv split: if_splits)
        show ?thesis
        proof (cases more)
          case True
          then show ?thesis using 2(2) [OF in_range ld ext more_def p_def False q(1) refl True v] q(2) by simp
        next
          case no: False
          then show ?thesis using q(2) end8 [OF v] by simp
        qed
      qed
    next
      case bad
      then show ?thesis using 2(3,4) in_range ld end8 unfolding eq by auto
    next
      case udp
      then show ?thesis using 2(4) in_range ld end8 [OF up(2)] unfolding eq by auto
    next
      case other
      then show ?thesis using 2(3,4) in_range ld end8 unfolding eq by auto
    qed
  qed
qed

lemma iphc_header_dvd_8: "iphc_header_scan b = Some (h, u) \<Longrightarrow> 8 dvd u"
  using iphc_scan_dvd_8(1) [of 0] by (auto simp: iphc_header_scan_def Let_def bind_eq_Some_conv split: if_splits)

section \<open>The bytes of a frame\<close>

lemma frag_word:
  assumes "sz \<le> 2047"
  shows "unat (push_bit 8 LOWPAN_FRAG1 OR word_of_nat sz :: u16) = 0xC000 + sz" and "unat (push_bit 8 LOWPAN_FRAGN OR word_of_nat sz :: u16) = 0xE000 + sz"
proof -
  let ?w = "word_of_nat sz :: u16"
  have w: "unat ?w = sz" using assms by (intro unat_small) simp
  have "unat (take_bit 11 ?w) = take_bit 11 (unat ?w)" by (simp only: unsigned_take_bit_eq)
  then have "take_bit 11 ?w = ?w" using w assms by (simp add: word_unat_eq_iff take_bit_nat_eq_self_iff)
  then have m: "?w AND 0x7FF = ?w" by (simp add: take_bit_eq_mask mask_eq_exp_minus_1)
  have low: "x AND ?w = (x AND 0x7FF) AND ?w" for x using m by (metis and.assoc and.commute)
  have "0xC000 AND ?w = 0" "0xE000 AND ?w = 0" using low [of "0xC000"] low [of "0xE000"] by simp_all
  then show "unat (push_bit 8 LOWPAN_FRAG1 OR ?w) = 0xC000 + sz" "unat (push_bit 8 LOWPAN_FRAGN OR ?w) = 0xE000 + sz"
    using w assms by (simp_all add: LOWPAN_FRAG1_def LOWPAN_FRAGN_def unat_or_disjoint)
qed

definition frag_prefix :: "nat \<Rightarrow> nat \<Rightarrow> nat \<times> nat \<Rightarrow> u8 list" where
  "frag_prefix sz tag p = (if fst p = 0 then be_bytes 2 (0xC000 + sz) @ be_bytes 2 tag
     else be_bytes 2 (0xE000 + sz) @ be_bytes 2 tag @ [word_of_nat (fst p div 8)])"

lemma frag_wire_prefix: "frag_wire sz tag L d p = frag_prefix sz tag p @ frag_payload L d p"
  by (simp add: frag_wire_def frag_prefix_def)

lemma message_write_wire:
  assumes "t_buf e = Some b" and "load_n (b_buf b) (t_unfrag_ptr e) (t_unfrag_len e) = Some hdr" and "load_n (b_buf b) (b_ptr b) (t_frag_len e) = Some pay"
    and "t_size e \<le> 2047" and "t_first_fragment e \<longleftrightarrow> fst p = 0" and "fst p \<noteq> 0 \<longrightarrow> t_offset e = fst p div 8"
    and "length hdr + 5 + length pay \<le> length msdu + (if fst p = 0 then 1 else 0)" and "length hdr + 5 + length pay < 65536"
  shows "\<exists>msdu' more. lowpan_message_fragmentation_message_write e msdu =
      Some (msdu', length (hdr @ frag_prefix (t_size e) (unat (t_tag e)) p @ pay), more) \<and> length msdu' = length msdu \<and>
    take (length (hdr @ frag_prefix (t_size e) (unat (t_tag e)) p @ pay)) msdu' = hdr @ frag_prefix (t_size e) (unat (t_tag e)) p @ pay"
proof -
  let ?f = "hdr @ frag_prefix (t_size e) (unat (t_tag e)) p @ pay"
  have h: "(if t_unfrag_len e \<noteq> 0 then load_n (b_buf b) (t_unfrag_ptr e) (t_unfrag_len e) \<bind> put_n (msdu, 0) else Some (msdu, 0)) = writes (msdu, 0) hdr"
    using assms(2) by (auto simp: put_simps load_n_def writes_nil split: if_splits)
  have w: "(if t_first_fragment e then put_be16 c (push_bit 8 LOWPAN_FRAG1 OR word_of_nat (t_size e)) \<bind> (\<lambda>c. put_be16 c (t_tag e))
      else put_be16 c (push_bit 8 LOWPAN_FRAGN OR word_of_nat (t_size e)) \<bind> (\<lambda>c. put_be16 c (t_tag e) \<bind> (\<lambda>c. put8 c (word_of_nat (t_offset e))))) =
      writes c (frag_prefix (t_size e) (unat (t_tag e)) p)" for c
    using assms(5,6) by (auto simp: put_simps writes_bind_then frag_word [OF assms(4)] frag_prefix_def)
  have len: "length ?f \<le> length msdu" "length ?f < 65536" using assms(7,8) by (auto simp: frag_prefix_def)
  have "lowpan_message_fragmentation_message_write e msdu = writes (msdu, 0) ?f \<bind> (\<lambda>(m, p). Some (m, p mod 65536, t_offset e * 8 + t_frag_len e < t_size e))"
    unfolding lowpan_message_fragmentation_message_write_def assms(1) bind.bind_lunit h w assms(3)
    unfolding put_simps writes_bind_then by simp
  then show ?thesis using len by (simp add: writes_in)
qed

section \<open>From one fragment to the next\<close>

text \<open>Where the payload of a range starts in the compressed datagram, and what makes a range a fragment.\<close>

definition frag_start :: "int \<Rightarrow> nat \<times> nat \<Rightarrow> nat" where
  "frag_start d p = (if fst p = 0 then 0 else nat (int (fst p) - d))"

definition frag_range :: "nat \<Rightarrow> nat \<Rightarrow> nat \<times> nat \<Rightarrow> bool" where
  "frag_range sz u p \<longleftrightarrow> fst p < snd p \<and> snd p \<le> sz \<and> fst p mod 8 = 0 \<and> (snd p mod 8 = 0 \<or> snd p = sz) \<and> u \<le> snd p \<and> (fst p = 0 \<or> u \<le> fst p)"

lemma range_payload:
  assumes "frag_range sz u p" and "int (length L) = int sz - d" and "d \<le> int u"
  shows "frag_payload L d p = take (length (frag_payload L d p)) (drop (frag_start d p) L)"
    and "int (frag_start d p) + int (length (frag_payload L d p)) = int (snd p) - d"
    and "fst p \<noteq> 0 \<longrightarrow> length (frag_payload L d p) = snd p - fst p"
  using assms by (auto simp: frag_payload_def frag_start_def frag_range_def min_def)

text \<open>The entry while the frame for the range \<open>p\<close> is under way.\<close>

definition sending :: "nat \<Rightarrow> nat \<Rightarrow> u8 list \<Rightarrow> u8 list \<Rightarrow> int \<Rightarrow> u16 \<Rightarrow> u16 \<Rightarrow> fragmenter_tx_entry \<Rightarrow> nat \<times> nat \<Rightarrow> bool" where
  "sending sz u hdr L d tag fm e p \<longleftrightarrow> frag_range sz u p \<and> t_fragmented_data e \<and> t_tag e = tag \<and> t_size e = sz \<and> t_frag_max e = fm \<and> t_unfrag_len e = length hdr \<and>
     (\<exists>b. t_buf e = Some b \<and> buffer_ok b \<and> load_n (b_buf b) (t_unfrag_ptr e) (length hdr) = Some hdr \<and> buffer_data b = drop (frag_start d p) L) \<and>
     t_frag_len e = length (frag_payload L d p) \<and> (t_first_fragment e \<longleftrightarrow> fst p = 0) \<and> t_offset e * 8 = (if fst p = 0 then snd p else fst p) \<and>
     length hdr + (if fst p = 0 then 4 else 5) + length (frag_payload L d p) \<le> unat fm"

lemma load_data: "buffer_ok b \<Longrightarrow> n \<le> length (buffer_data b) \<Longrightarrow> load_n (b_buf b) (b_ptr b) n = Some (take n (buffer_data b))"
  using buffer_ok_le [of b] by (auto simp: load_n_def buffer_data_def length_buffer_data min_absorb1)

lemma sending_write:
  assumes "sending sz u hdr L d tag fm e p" and "int (length L) = int sz - d" and "d \<le> int u" and "sz \<le> 2047" and "unat fm \<le> length msdu" and "unat fm < 65535"
  shows "\<exists>msdu' len more. lowpan_message_fragmentation_message_write e msdu = Some (msdu', len, more) \<and> length msdu' = length msdu \<and>
    take len msdu' = hdr @ frag_wire sz (unat tag) L d p"
proof -
  obtain b where b: "t_buf e = Some b" "buffer_ok b" "load_n (b_buf b) (t_unfrag_ptr e) (length hdr) = Some hdr" "buffer_data b = drop (frag_start d p) L"
    using assms(1) by (auto simp: sending_def)
  have s: "frag_range sz u p" "t_tag e = tag" "t_size e = sz" "t_unfrag_len e = length hdr" "t_frag_len e = length (frag_payload L d p)" "t_first_fragment e \<longleftrightarrow> fst p = 0"
      "t_offset e * 8 = (if fst p = 0 then snd p else fst p)" "length hdr + (if fst p = 0 then 4 else 5) + length (frag_payload L d p) \<le> unat fm"
    using assms(1) by (auto simp: sending_def)
  note r = range_payload [OF s(1) assms(2,3)]
  have "length (frag_payload L d p) \<le> length (buffer_data b)" using r(1) b(4) by (metis length_take min.cobounded1 min.commute)
  then have pay: "load_n (b_buf b) (b_ptr b) (t_frag_len e) = Some (frag_payload L d p)"
    using load_data [OF b(2)] s(5) b(4) r(1) by simp
  have "fst p \<noteq> 0 \<longrightarrow> t_offset e = fst p div 8" using s(7) by auto
  then show ?thesis
    using message_write_wire [of e b hdr "frag_payload L d p" p msdu] b(1,3) pay s assms(4-6) by (auto simp: frag_wire_prefix split: if_splits)
qed

lemma frag_room:
  assumes "k + 13 \<le> n" and "n < 65536"
  shows "nat ((int n - 5 - int k) mod 65536) = n - 5 - k"
proof -
  have "int n - 5 - int k = int (n - 5 - k)" using assms by linarith
  moreover have "nat (int (n - 5 - k) mod 65536) = n - 5 - k" using assms(2) by (subst mod_pos_pos_trivial) auto
  ultimately show ?thesis by simp
qed

lemma sending_next:
  assumes "sending sz u hdr L d tag fm e p" and "int (length L) = int sz - d" and "d \<le> int u" and "sz \<le> 2047" and "length hdr + 13 \<le> unat fm"
  shows "snd p = sz \<Longrightarrow> \<exists>e'. lowpan_adaptation_tx_process_ready e = Some (True, e')"
    and "snd p < sz \<Longrightarrow> \<exists>e' p'. lowpan_adaptation_tx_process_ready e = Some (False, e') \<and> sending sz u hdr L d tag fm e' p' \<and> fst p' = snd p"
proof -
  obtain b where b: "t_buf e = Some b" "buffer_ok b" "load_n (b_buf b) (t_unfrag_ptr e) (length hdr) = Some hdr" "buffer_data b = drop (frag_start d p) L"
    using assms(1) by (auto simp: sending_def)
  have s: "frag_range sz u p" "t_fragmented_data e" "t_tag e = tag" "t_size e = sz" "t_frag_max e = fm" "t_unfrag_len e = length hdr"
      "t_frag_len e = length (frag_payload L d p)" "t_first_fragment e \<longleftrightarrow> fst p = 0" "t_offset e * 8 = (if fst p = 0 then snd p else fst p)"
    using assms(1) by (auto simp: sending_def)
  note r = range_payload [OF s(1) assms(2,3)]
  let ?fl = "t_frag_len e"
  have "int (length (buffer_data b)) = int sz - int (snd p) + int ?fl" using b(4) r(2) s(1,7) assms(2) by (simp add: frag_range_def)
  then have fl: "?fl \<le> length (buffer_data b)" and rest: "length (buffer_data b) - ?fl = sz - snd p" using s(1) by (auto simp: frag_range_def)
  note st = strip_header [OF b(2) fl]
  let ?b = "b\<lparr>b_ptr := b_ptr b + ?fl\<rparr>"
  have "nat (int (snd p) - d) = frag_start d p + ?fl" using r(2) s(7) by linarith
  then have data: "buffer_data ?b = drop (nat (int (snd p) - d)) L" using st(3) b(4) by (simp add: add.commute)
  have len: "nat (buffer_data_length ?b mod 65536) = sz - snd p"
    using buffer_data_len [OF st(2)] st(3) rest assms(4) by simp
  define e1 where "e1 = (if \<not> t_first_fragment e then e\<lparr>t_buf := Some ?b, t_offset := (t_offset e + ?fl div 8) mod 65536\<rparr> else e\<lparr>t_buf := Some ?b, t_first_fragment := False\<rparr>)"
  have ready: "lowpan_adaptation_tx_process_ready e = (if sz - snd p = 0 then Some (True, e1\<lparr>t_frag_len := 0\<rparr>)
      else Some (False, e1\<lparr>t_frag_len := (if length hdr + 5 + (sz - snd p) > unat fm then nat ((int (unat fm) - 5 - int (length hdr)) mod 65536) div 8 * 8 else sz - snd p)\<rparr>))"
  proof -
    have "(if \<not> t_first_fragment (e\<lparr>t_buf := Some ?b\<rparr>) then e\<lparr>t_buf := Some ?b, t_offset := (t_offset (e\<lparr>t_buf := Some ?b\<rparr>) + t_frag_len (e\<lparr>t_buf := Some ?b\<rparr>) div 8) mod 65536\<rparr>
        else e\<lparr>t_buf := Some ?b, t_first_fragment := False\<rparr>) = e1" by (simp add: e1_def)
    moreover have "t_unfrag_len e1 = length hdr" "t_frag_max e1 = fm" using s(5,6) by (simp_all add: e1_def)
    ultimately show ?thesis
      unfolding lowpan_adaptation_tx_process_ready_def b(1) bind.bind_lunit st(1) Let_def len using s(2) by simp
  qed
  show "snd p = sz \<Longrightarrow> \<exists>e'. lowpan_adaptation_tx_process_ready e = Some (True, e')" using ready by simp
  assume more: "snd p < sz"
  define fl' where "fl' = (if length hdr + 5 + (sz - snd p) > unat fm then nat ((int (unat fm) - 5 - int (length hdr)) mod 65536) div 8 * 8 else sz - snd p)"
  have "nat ((int (unat fm) - 5 - int (length hdr)) mod 65536) = unat fm - 5 - length hdr"
    using assms(5) unat_u16_lt [of fm] by (rule frag_room)
  then have fl': "0 < fl'" "fl' \<le> sz - snd p" "length hdr + 5 + fl' \<le> unat fm" "fl' mod 8 = 0 \<or> fl' = sz - snd p"
    using more assms(5) by (auto simp: fl'_def div_greater_zero_iff)
  have p8: "snd p mod 8 = 0" using s(1) more by (auto simp: frag_range_def)
  let ?p = "(snd p, snd p + fl')"
  have rp: "frag_range sz u ?p" using s(1) fl' more p8 by (auto simp: frag_range_def)
  have sp: "snd p \<noteq> 0" using s(1) by (auto simp: frag_range_def)
  have off: "t_offset e1 * 8 = snd p"
  proof (cases "fst p = 0")
    case True
    then show ?thesis using s(8,9) by (simp add: e1_def)
  next
    case False
    then have "t_offset e * 8 = fst p" "?fl = snd p - fst p" using s(7,9) r(3) by auto
    moreover have "8 dvd snd p - fst p" using p8 s(1) by (simp add: frag_range_def dvd_diff_nat mod_eq_0_iff_dvd)
    moreover have "fst p \<le> snd p" "snd p \<le> 2047" using s(1) assms(4) by (auto simp: frag_range_def)
    ultimately show ?thesis using False s(8) by (auto simp: e1_def dvd_def)
  qed
  have "sending sz u hdr L d tag fm (e1\<lparr>t_frag_len := fl'\<rparr>) ?p"
    unfolding sending_def using rp s b(3) st(2) data off fl' sp range_payload(3) [OF rp assms(2,3)]
    by (auto simp: e1_def frag_start_def)
  then show "\<exists>e' p'. lowpan_adaptation_tx_process_ready e = Some (False, e') \<and> sending sz u hdr L d tag fm e' p' \<and> fst p' = snd p"
    using ready more by (auto simp: fl'_def)
qed

section \<open>All fragments\<close>

text \<open>Ranges one after the other, up to the end of the datagram.\<close>

fun frag_chain :: "nat \<Rightarrow> nat \<Rightarrow> nat \<Rightarrow> (nat \<times> nat) list \<Rightarrow> bool" where
  "frag_chain sz u a [] \<longleftrightarrow> a = sz"
| "frag_chain sz u a (p # ps) \<longleftrightarrow> frag_range sz u p \<and> fst p = a \<and> frag_chain sz u (snd p) ps"

lemma chain_from: "frag_chain sz u a ps \<Longrightarrow> p \<in> set ps \<Longrightarrow> frag_range sz u p \<and> a \<le> fst p"
proof (induction ps arbitrary: a)
  case (Cons q ps)
  then show ?case by (cases "p = q") (auto simp: frag_range_def dest!: Cons.IH)
qed simp

lemma chain_cover: "frag_chain sz u a ps \<Longrightarrow> a \<le> j \<Longrightarrow> j < sz \<Longrightarrow> \<exists>p\<in>set ps. fst p \<le> j \<and> j < snd p"
proof (induction ps arbitrary: a)
  case (Cons q ps)
  then show ?case by (cases "j < snd q") auto
qed simp

lemma chain_disjoint: "frag_chain sz u a ps \<Longrightarrow> p \<in> set ps \<Longrightarrow> q \<in> set ps \<Longrightarrow> p = q \<or> snd p \<le> fst q \<or> snd q \<le> fst p"
proof (induction ps arbitrary: a)
  case (Cons r ps)
  have "snd r \<le> fst x" if "x \<in> set ps" for x using chain_from [of sz u "snd r" ps x] Cons.prems(1) that by simp
  from this [of p] this [of q] show ?case using Cons.IH [of "snd r"] Cons.prems by auto
qed simp

lemma chain_distinct: "frag_chain sz u a ps \<Longrightarrow> distinct ps"
proof (induction ps arbitrary: a)
  case (Cons r ps)
  have "snd r \<le> fst r" if "r \<in> set ps" using chain_from [of sz u "snd r" ps r] Cons.prems that by simp
  moreover have "fst r < snd r" using Cons.prems by (simp add: frag_range_def)
  ultimately show ?case using Cons by auto
qed simp

lemma chain_division: "frag_chain sz u 0 ps \<Longrightarrow> division sz u (set ps)"
  using chain_from [of sz u 0 ps] chain_cover [of sz u 0 ps] chain_disjoint [of sz u 0 ps]
  by (auto simp: division_def frag_range_def)

lemma fragment_send_chain:
  assumes "int (length L) = int sz - d" and "d \<le> int u" and "sz \<le> 2047" and "length hdr + 13 \<le> unat fm" and "unat fm < 65535"
  shows "sending sz u hdr L d tag fm e p \<Longrightarrow> unat fm \<le> length msdu \<Longrightarrow>
    \<exists>ps. fragment_send e msdu = Some (map (\<lambda>p. hdr @ frag_wire sz (unat tag) L d p) (p # ps)) \<and> frag_chain sz u (fst p) (p # ps) \<and>
      (\<forall>q\<in>set (p # ps). length (hdr @ frag_wire sz (unat tag) L d q) \<le> unat fm)"
proof (induction "sz - snd p" arbitrary: e p msdu rule: less_induct)
  case less
  obtain msdu' len more where w: "lowpan_message_fragmentation_message_write e msdu = Some (msdu', len, more)" "length msdu' = length msdu"
      "take len msdu' = hdr @ frag_wire sz (unat tag) L d p"
    using sending_write [OF less.prems(1) assms(1-3) less.prems(2) assms(5)] by blast
  note next_frag = sending_next [OF less.prems(1) assms(1-4)]
  have rp: "frag_range sz u p" and l: "length (hdr @ frag_wire sz (unat tag) L d p) \<le> unat fm"
    using less.prems(1) by (auto simp: sending_def frag_wire_prefix frag_prefix_def)
  show ?case
  proof (cases "snd p = sz")
    case True
    then obtain e' where "lowpan_adaptation_tx_process_ready e = Some (True, e')" using next_frag(1) by blast
    then have "fragment_send e msdu = Some [hdr @ frag_wire sz (unat tag) L d p]" using w by (simp add: fragment_send.simps [of e msdu])
    then show ?thesis using True rp l by (intro exI [of _ "[]"]) simp
  next
    case False
    then have lt: "snd p < sz" using rp by (simp add: frag_range_def)
    then obtain e' p' where n: "lowpan_adaptation_tx_process_ready e = Some (False, e')" "sending sz u hdr L d tag fm e' p'" "fst p' = snd p"
      using next_frag(2) by blast
    have "frag_range sz u p'" using n(2) by (simp add: sending_def)
    then have "snd p < snd p'" "snd p' \<le> sz" using n(3) by (simp_all add: frag_range_def)
    then have "sz - snd p' < sz - snd p" by linarith
    then obtain ps where ps: "fragment_send e' msdu' = Some (map (\<lambda>p. hdr @ frag_wire sz (unat tag) L d p) (p' # ps))" "frag_chain sz u (fst p') (p' # ps)"
        "\<forall>q\<in>set (p' # ps). length (hdr @ frag_wire sz (unat tag) L d q) \<le> unat fm"
      using less.hyps [OF _ n(2), of msdu'] less.prems(2) w(2) by auto
    have "fragment_send e msdu = Some (map (\<lambda>p. hdr @ frag_wire sz (unat tag) L d p) (p # p' # ps))"
      using w n(1) ps(1) by (simp add: fragment_send.simps [of e msdu])
    then show ?thesis using rp l ps(2,3) n(3) by (intro exI [of _ "p' # ps"]) simp
  qed
qed

lemma to_s16_small: "h < 256 \<Longrightarrow> to_s16 (int h) = int h"
  by (simp add: to_s16_def)

text \<open>The headers in front of the fragment header: none, or a broadcast header of two bytes.\<close>

definition unfrag_headers :: "u8 list \<Rightarrow> u8 list \<Rightarrow> bool" where
  "unfrag_headers hdr L \<longleftrightarrow> (if hdr = [] then L \<noteq> [] \<and> hd L \<noteq> LOWPAN_DISPATCH_BC0 else length hdr = 2 \<and> hd hdr = LOWPAN_DISPATCH_BC0)"

lemma fragmentation_init_sending:
  assumes "buffer_ok b" and "buffer_data b = hdr @ L" and "unfrag_headers hdr L" and "datagram (b\<lparr>b_ptr := b_ptr b + length hdr\<rparr>) L h u sz"
    and "t_buf e = Some b" and "t_first_fragment e" and "length hdr + 4 + h \<le> unat fm" and "unat fm < length (hdr @ L)" and "length hdr + 13 \<le> unat fm"
  shows "\<exists>e1 p. lowpan_message_fragmentation_init fm e = Some (0, e1) \<and> fst p = 0 \<and> sending sz u hdr L (int u - int h) tag fm (e1\<lparr>t_tag := tag\<rparr>) p"
proof -
  define b1 where "b1 = b\<lparr>b_ptr := b_ptr b + length hdr\<rparr>"
  have dg: "buffer_ok b1" "buffer_data b1 = L" "iphc_header_scan b1 = Some (h, u)" "h < 256" "h \<le> length L" "length L + u = sz + h" "sz \<le> 2047" "u < 30000"
    using assms(4) by (auto simp: datagram_def b1_def)
  have len: "length (hdr @ L) < 65536" "b_ptr b + length hdr < 65536"
    using length_buffer_data [OF assms(1)] buffer_ok_le [OF assms(1)] assms(2) by simp_all
  have u8: "u mod 8 = 0" using iphc_header_dvd_8 [OF dg(3)] by auto
  have ld: "load (b_buf b) (b_ptr b) = Some (hd (hdr @ L))"
    using buffer_data_load [OF assms(1), of 0] assms(2,3) by (cases "hdr @ L") (auto simp: unfrag_headers_def)
  have bc0: "(if hd (hdr @ L) = LOWPAN_DISPATCH_BC0 then b\<lparr>b_ptr := (b_ptr b + 2) mod 65536\<rparr> else b) = b1"
    using assms(3) len(2) by (auto simp: unfrag_headers_def b1_def split: if_splits)
  have hl: "length hdr \<le> 2" using assms(3) by (auto simp: unfrag_headers_def split: if_splits)
  then have ul: "nat ((int (b_ptr b1) - int (b_ptr b)) mod 256) = length hdr" by (simp add: b1_def)
  have dl: "nat (buffer_data_length b1 mod 65536) = length L" using buffer_data_len [OF dg(1)] dg(2) len(1) by simp
  have size: "nat ((int (length L) + (int u - int h)) mod 65536) = sz" using dg(6,7) by (simp add: flip: of_nat_add of_nat_diff)
  have "u div 8 \<le> u" by simp
  then have off: "u div 8 + unat fm < 65536 + h" using hl assms(8) dg(6-8) by simp
  obtain k where k: "frag_fill (length hdr) fm (u div 8) h = (u div 8 + k, h + 8 * k)" "length hdr + 4 + (h + 8 * k) \<le> unat fm"
      "unat fm < length hdr + 4 + (h + 8 * k) + 8"
    using frag_fill_spec [OF assms(7) off] by blast
  define e1 where "e1 = e\<lparr>t_size := sz, t_orig_size := length L, t_frag_max := fm, t_pattern := int h, t_unfrag_ptr := b_ptr b,
      t_unfrag_len := length hdr, t_buf := Some b1, t_offset := u div 8 + k, t_frag_len := h + 8 * k, t_fragmented_data := True\<rparr>"
  have init: "lowpan_message_fragmentation_init fm e = Some (0, e1)"
    unfolding lowpan_message_fragmentation_init_def assms(5) bind.bind_lunit Let_def ld bc0 dg(3) prod.case to_s16_small [OF dg(4)] ul dl size
    using dg(4,7) assms(7) k(1) by (simp add: e1_def LOWPAN_HARD_MTU_LIMIT_def)
  let ?p = "(0 :: nat, u + 8 * k)"
  have fl: "h + 8 * k < length L" using k(2) assms(8) by simp
  have "length (buffer_data b1) \<le> 3000" using dg(2,4,6,7) by simp
  then have "u = 0 \<longrightarrow> h \<le> 1" by (rule iphc_header_scan_safe [OF dg(1)]) (use dg(3) in auto)
  then have "0 < u + 8 * k" using k(3) assms(9) by auto
  then have rng: "frag_range sz u ?p" using dg(6) fl u8 by (auto simp: frag_range_def)
  have pay: "frag_payload L (int u - int h) ?p = take (h + 8 * k) L" 
  proof -
    have "nat (int (u + 8 * k) - (int u - int h)) = h + 8 * k" by linarith
    then show ?thesis by (simp only: frag_payload_def fst_conv snd_conv refl if_True)
  qed
  have hdr: "load_n (b_buf b1) (b_ptr b) (length hdr) = Some hdr"
    using load_data [OF assms(1), of "length hdr"] assms(2) by (simp add: b1_def)
  have "sending sz u hdr L (int u - int h) tag fm (e1\<lparr>t_tag := tag\<rparr>) ?p"
    unfolding sending_def pay using rng dg(1,2) hdr fl k(2) u8 assms(6) by (auto simp: e1_def frag_start_def)
  then show ?thesis using init by (intro exI [of _ e1] exI [of _ ?p]) simp
qed

section \<open>Fragments on the air\<close>

lemma fragment_packet:
  assumes "buffer_ok b" and "buffer_data b = hdr @ L" and "unfrag_headers hdr L" and "datagram (b\<lparr>b_ptr := b_ptr b + length hdr\<rparr>) L h u sz"
    and "t_buf e = Some b" and "t_first_fragment e" and "length hdr + 4 + h \<le> unat fm" and "unat fm < length (hdr @ L)" and "length hdr + 13 \<le> unat fm"
    and "unat fm \<le> length msdu"
  shows "\<exists>e1 ps. lowpan_message_fragmentation_init fm e = Some (0, e1) \<and>
    fragment_send (e1\<lparr>t_tag := tag\<rparr>) msdu = Some (map (\<lambda>p. hdr @ frag_wire sz (unat tag) L (int u - int h) p) ps) \<and> division sz u (set ps) \<and> distinct ps \<and>
    (\<forall>p\<in>set ps. length (hdr @ frag_wire sz (unat tag) L (int u - int h) p) \<le> unat fm)"
proof -
  have dg: "int (length L) = int sz - (int u - int h)" "int u - int h \<le> int u" "sz \<le> 2047" "length L + u = sz + h" "h < 256" using assms(4) by (auto simp: datagram_def)
  have "length hdr \<le> 2" using assms(3) by (auto simp: unfrag_headers_def split: if_splits)
  then have fm: "unat fm < 65535" using assms(8) dg(3-5) by simp
  obtain e1 p where i: "lowpan_message_fragmentation_init fm e = Some (0, e1)" "fst p = 0" "sending sz u hdr L (int u - int h) tag fm (e1\<lparr>t_tag := tag\<rparr>) p"
    using fragmentation_init_sending [OF assms(1-9)] by blast
  obtain ps where ps: "fragment_send (e1\<lparr>t_tag := tag\<rparr>) msdu = Some (map (\<lambda>p. hdr @ frag_wire sz (unat tag) L (int u - int h) p) (p # ps))"
      "frag_chain sz u (fst p) (p # ps)" "\<forall>q\<in>set (p # ps). length (hdr @ frag_wire sz (unat tag) L (int u - int h) q) \<le> unat fm"
    using fragment_send_chain [OF dg(1-3) assms(9) fm i(3) assms(10)] by blast
  have "division sz u (set (p # ps))" using chain_division [of sz u "p # ps"] ps(2) i(2) by simp
  then show ?thesis using i(1) ps(1,3) chain_distinct [OF ps(2)] by blast
qed

text \<open>Different ranges of a division have different frames.\<close>

lemma wire_inj:
  assumes "division sz u P" and "p \<in> P" and "q \<in> P" and "sz \<le> 2047" and "frag_wire sz tag L d p = frag_wire sz tag L d q"
  shows "p = q"
proof (rule ccontr)
  assume ne: "p \<noteq> q"
  have r: "fst p < snd p" "snd p \<le> sz" "fst p mod 8 = 0" "fst q < snd q" "snd q \<le> sz" "fst q mod 8 = 0" using assms(1-3) by (auto simp: division_def)
  have "snd p \<le> fst q \<or> snd q \<le> fst p" using assms(1-3) ne unfolding division_def by blast
  then have f: "fst p \<noteq> fst q" using r by auto
  have b: "(word_of_nat ((0xC000 + sz) div 256) :: u8) = word_of_nat (0xC0 + sz div 256)" "(word_of_nat ((0xE000 + sz) div 256) :: u8) = word_of_nat (0xE0 + sz div 256)"
    by (simp_all add: div_add1_eq [of _ sz])
  have "sz div 256 < 8" using assms(4) by simp
  from frag_bit [OF this] have k: "(word_of_nat (0xC0 + sz div 256) :: u8) \<noteq> word_of_nat (0xE0 + sz div 256)" by metis
  consider "fst p = 0" "fst q \<noteq> 0" | "fst q = 0" "fst p \<noteq> 0" | "fst p \<noteq> 0" "fst q \<noteq> 0" using f by auto
  then show False
  proof cases
    case 3
    then have "(word_of_nat (fst p div 8) :: u8) = word_of_nat (fst q div 8)" using assms(5) by (simp add: frag_wire_def be_bytes_2)
    moreover have "unat (word_of_nat (fst p div 8) :: u8) = fst p div 8" "unat (word_of_nat (fst q div 8) :: u8) = fst q div 8"
      using r assms(4) by (auto intro!: unat_small)
    ultimately have "fst p div 8 = fst q div 8" by simp
    then show False using f r(3,6) by (metis div_mult_mod_eq)
  qed (use assms(5) k b in \<open>auto simp: frag_wire_def be_bytes_2\<close>)
qed

text \<open>What a receiver gets of the frames, in terms of the ranges they carry.\<close>

lemma frames_carry:
  assumes "division sz u (set ps)" and "sz \<le> 2047" and "set (map buffer_data bs) = frag_wire sz tag L d ` set ps"
    and "\<forall>b\<in>set bs. frag_buffer b \<and> b_src_sa b = src \<and> b_dst_sa b = dst" and "bs \<noteq> []" and "buffer_data (last bs) \<notin> set (map buffer_data (butlast bs))"
  obtains qs where "list_all2 (carries sz tag L d src dst) qs bs" and "set qs = set ps" and "last qs \<notin> set (butlast qs)"
proof -
  define pick where "pick b = inv_into (set ps) (frag_wire sz tag L d) (buffer_data b)" for b
  have inj: "inj_on (frag_wire sz tag L d) (set ps)" using wire_inj [OF assms(1) _ _ assms(2)] by (auto intro: inj_onI)
  have w: "frag_wire sz tag L d (pick b) = buffer_data b" if "b \<in> set bs" for b
    unfolding pick_def by (rule f_inv_into_f) (use that assms(3) in auto)
  have l: "list_all2 (carries sz tag L d src dst) (map pick bs) bs"
    using w assms(4) by (auto simp: list_all2_conv_all_nth carries_def)
  have "set (map pick bs) = inv_into (set ps) (frag_wire sz tag L d) ` set (map buffer_data bs)" by (auto simp: pick_def)
  also have "\<dots> = set ps" unfolding assms(3) using inj by (simp add: image_image inv_into_f_f)
  finally have s: "set (map pick bs) = set ps" .
  have "last (map pick bs) \<notin> set (butlast (map pick bs))"
  proof
    assume "last (map pick bs) \<in> set (butlast (map pick bs))"
    then obtain b where b: "b \<in> set (butlast bs)" "pick (last bs) = pick b" using assms(5) by (auto simp: last_map map_butlast [symmetric])
    then have "buffer_data (last bs) = buffer_data b" using w [of "last bs"] w [of b] assms(5) in_set_butlastD [OF b(1)] by simp
    then show False using assms(6) b(1) by auto
  qed
  then show ?thesis using that [OF l s] by blast
qed

lemma datagram_scanned:
  assumes "buffer_ok b" and "buffer_data b = L" and "iphc_header_scan b = Some (h, u)" and "0 < h" and "h < 256" and "length L + u \<le> 2047 + h" and "1 < length L"
  shows "datagram b L h u (length L + u - h)"
proof -
  have "length (buffer_data b) \<le> 3000" using assms(2,5,6) by simp
  then have "h \<le> length L \<and> ((h, u) = (0, 0) \<or> (h, u) = (1, 0) \<or> 40 * h \<le> 41 * u \<and> u \<le> 14 * h + 20)"
    by (rule iphc_header_scan_safe [OF assms(1)]) (use assms(2,3) in auto)
  then show ?thesis using assms unfolding datagram_def by (auto split: nat_diff_split)
qed

section \<open>What holds\<close>

text \<open>
  C6. Fragmentation of an outgoing packet: when the packet does not fit into one frame, its headers fit into the first one, and a later frame
  has room for 8 bytes, the plan succeeds, the transmission ends, and the frames are exactly those RFC 4944 prescribes for consecutive ranges of the
  uncompressed datagram: all of it, the headers in the first, no byte twice. Each frame starts with the headers that precede
  the fragment header (\<open>hdr\<close>), and none is longer than the payload of the MAC.
\<close>

theorem tx_fragments:
  assumes "buffer_ok b" and "buffer_data b = hdr @ L" and "unfrag_headers hdr L" and "datagram (b\<lparr>b_ptr := b_ptr b + length hdr\<rparr>) L h u sz"
    and "t_buf e = Some b" and "t_first_fragment e" and "length hdr + 4 + h \<le> unat fm" and "unat fm < length (hdr @ L)" and "length hdr + 13 \<le> unat fm"
    and "unat fm \<le> length msdu"
  shows "\<exists>e1 ps. lowpan_message_fragmentation_init fm e = Some (0, e1) \<and>
    fragment_send (e1\<lparr>t_tag := tag\<rparr>) msdu = Some (map (\<lambda>p. hdr @ frag_wire sz (unat tag) L (int u - int h) p) ps) \<and> division sz u (set ps) \<and> distinct ps \<and>
    (\<forall>p\<in>set ps. length (hdr @ frag_wire sz (unat tag) L (int u - int h) p) \<le> unat fm)"
  by (rule fragment_packet [OF assms])

text \<open>
  C5. From end to end: the frames into which one node cuts a packet make another node hand up the packet. The frames are all different and fit into the payload of
  the MAC; a receiver that gets all of them, in any order and some repeatedly, reassembles exactly the bytes of the packet
  with the last frame that was missing, and hands up nothing before.
\<close>

theorem fragmentation_end_to_end:
  assumes "buffer_ok b" and "buffer_data b = L" and "hd L \<noteq> LOWPAN_DISPATCH_BC0" and "iphc_header_scan b = Some (h, u)" and "0 < h" and "h < 256"
    and "length L + u \<le> 2047 + h" and "t_buf e = Some b" and "t_first_fragment e" and "4 + h \<le> unat fm" and "unat fm < length L" and "13 \<le> unat fm" and "unat fm \<le> length msdu"
    and "alloc_ok alloc" and "\<forall>n. alloc n \<noteq> None" and "reassembly_reachable ris" and "ri \<in> set ris" and "ri_free ri \<noteq> []"
  shows "\<exists>e1 frames. lowpan_message_fragmentation_init fm e = Some (0, e1) \<and> fragment_send (e1\<lparr>t_tag := tag\<rparr>) msdu = Some frames \<and>
    distinct frames \<and> frames \<noteq> [] \<and> (\<forall>w\<in>set frames. length w \<le> unat fm) \<and>
    (\<forall>bs. set (map buffer_data bs) = set frames \<longrightarrow> buffer_data (last bs) \<notin> set (map buffer_data (butlast bs)) \<longrightarrow>
      (\<forall>b\<in>set bs. frag_buffer b \<and> b_src_sa b = src \<and> b_dst_sa b = dst \<and>
        (\<forall>e\<in>set (ri_rx ri). reassembly_match e b (unat tag) (length L + u - h) = Some False)) \<longrightarrow>
      (\<exists>ri' out. frag_run alloc ri bs = Some (ri', replicate (length bs - 1) None @ [Some out]) \<and> ri_rx ri' = ri_rx ri \<and>
         buffer_ok out \<and> buffer_data out = L \<and> b_src_sa out = src \<and> b_dst_sa out = dst))"
proof -
  let ?sz = "length L + u - h" and ?d = "int u - int h"
  have L: "L \<noteq> []" "1 < length L" using assms(11,12) by auto
  have dg: "datagram b L h u ?sz" by (rule datagram_scanned [OF assms(1,2,4-7) L(2)])
  then have dg': "datagram (b\<lparr>b_ptr := b_ptr b + length []\<rparr>) L h u ?sz" by simp
  have data: "buffer_data b = [] @ L" and hdr: "unfrag_headers [] L" using assms(2,3) L by (simp_all add: unfrag_headers_def)
  have fits: "length [] + 4 + h \<le> unat fm" "unat fm < length ([] @ L)" "length [] + 13 \<le> unat fm" using assms(10-12) by simp_all
  obtain e1 ps where i: "lowpan_message_fragmentation_init fm e = Some (0, e1)" "fragment_send (e1\<lparr>t_tag := tag\<rparr>) msdu = Some (map (frag_wire ?sz (unat tag) L ?d) ps)"
      "division ?sz u (set ps)" "distinct ps" "\<forall>p\<in>set ps. length (frag_wire ?sz (unat tag) L ?d p) \<le> unat fm"
    using fragment_packet [OF assms(1) data hdr dg' assms(8,9) fits assms(13), of tag] by auto
  have sz: "0 < ?sz" "?sz \<le> 2047" using dg by (simp_all add: datagram_def)
  have ps: "ps \<noteq> []" by (rule division_first [OF i(3) sz(1)]) auto
  have dist: "distinct (map (frag_wire ?sz (unat tag) L ?d) ps)"
    using i(4) wire_inj [OF i(3) _ _ sz(2)] by (auto simp: distinct_map intro: inj_onI)
  have ok: "reassembly_ok ri" using reachable_ok [OF assms(16)] assms(17) by blast
  have run: "\<exists>ri' out. frag_run alloc ri bs = Some (ri', replicate (length bs - 1) None @ [Some out]) \<and> ri_rx ri' = ri_rx ri \<and>
      buffer_ok out \<and> buffer_data out = L \<and> b_src_sa out = src \<and> b_dst_sa out = dst"
    if s: "set (map buffer_data bs) = set (map (frag_wire ?sz (unat tag) L ?d) ps)" and last: "buffer_data (last bs) \<notin> set (map buffer_data (butlast bs))"
      and rx: "\<forall>b\<in>set bs. frag_buffer b \<and> b_src_sa b = src \<and> b_dst_sa b = dst \<and> (\<forall>e\<in>set (ri_rx ri). reassembly_match e b (unat tag) ?sz = Some False)" for bs
  proof -
    have bs: "bs \<noteq> []" "set (map buffer_data bs) = frag_wire ?sz (unat tag) L ?d ` set ps" using s ps by auto
    have rx1: "\<forall>b\<in>set bs. frag_buffer b \<and> b_src_sa b = src \<and> b_dst_sa b = dst" using rx by blast
    obtain qs where q: "list_all2 (carries ?sz (unat tag) L ?d src dst) qs bs" "set qs = set ps" "last qs \<notin> set (butlast qs)"
      by (rule frames_carry [OF i(3) sz(2) bs(2) rx1 bs(1) last])
    have "qs \<noteq> []" using q(1) bs(1) by auto
    then show ?thesis
      using frag_run_underway [OF dg i(3) refl unat_u16_lt assms(14,15) ok assms(18) _ q(1), of ri "{}"] q(2,3) rx by (simp add: underway_def)
  qed
  show ?thesis using i(1,2,5) dist ps run by (intro exI [of _ e1] exI [of _ "map (frag_wire ?sz (unat tag) L ?d) ps"]) auto
qed

section \<open>Witnesses\<close>

definition small_entry :: fragmenter_tx_entry where
  "small_entry = \<lparr>t_tag = 0, t_size = 0, t_orig_size = 0, t_frag_max = 0, t_offset = 0, t_pattern = 0, t_unfrag_ptr = 0, t_frag_len = 0, t_unfrag_len = 0,
     t_fragmented_data = False, t_first_fragment = True, t_indirect_data = False, t_buf = Some (frame_buffer small_datagram)\<rparr>"

lemma small_packet:
  "length small_datagram = 19" "hd small_datagram \<noteq> LOWPAN_DISPATCH_BC0" "small_datagram \<noteq> []"
  "buffer_ok (frame_buffer small_datagram)" "buffer_data (frame_buffer small_datagram) = small_datagram"
  "iphc_header_scan (frame_buffer small_datagram) = Some (3, 40)"
  using small_datagram_ok by (simp_all add: datagram_def small_datagram_def LOWPAN_DISPATCH_BC0_def)

theorem tx_fragments_witness:
  "\<exists>e1 ps. lowpan_message_fragmentation_init 16 small_entry = Some (0, e1) \<and>
     fragment_send (e1\<lparr>t_tag := 7\<rparr>) (replicate 16 0) = Some (map (frag_wire 56 7 small_datagram 37) ps) \<and> division 56 40 (set ps)"
proof -
  have "datagram (frame_buffer small_datagram\<lparr>b_ptr := b_ptr (frame_buffer small_datagram) + length []\<rparr>) small_datagram 3 40 56"
    using small_datagram_ok by simp
  then show ?thesis
    using tx_fragments [of "frame_buffer small_datagram" "[]" small_datagram 3 40 56 small_entry 16 "replicate 16 0" 7] small_packet
    by (auto simp: unfrag_headers_def small_entry_def)
qed

theorem fragmentation_end_to_end_witness:
  "\<exists>e1 frames ri' out. lowpan_message_fragmentation_init 16 small_entry = Some (0, e1) \<and> fragment_send (e1\<lparr>t_tag := 7\<rparr>) (replicate 16 0) = Some frames \<and>
     frag_run reassembly_alloc small_interface (map frame_buffer (rev frames)) = Some (ri', replicate (length frames - 1) None @ [Some out]) \<and>
     buffer_data out = small_datagram"
proof -
  have r: "reassembly_reachable [small_interface]"
    using reassembly_reachable.init [OF reassembly_reachable.start, of reassembly_pool 1 2 60]
    by (simp add: reassembly_interface_init_def reassembly_interface_free_def reassembly_pool_def small_interface_def)
  have p: "0 < (3 :: nat)" "(3 :: nat) < 256" "length small_datagram + 40 \<le> 2047 + 3" "t_buf small_entry = Some (frame_buffer small_datagram)" "t_first_fragment small_entry"
      "4 + 3 \<le> unat (16 :: u16)" "unat (16 :: u16) < length small_datagram" "13 \<le> unat (16 :: u16)" "unat (16 :: u16) \<le> length (replicate 16 (0 :: u8))"
      "alloc_ok reassembly_alloc" "\<forall>n. reassembly_alloc n \<noteq> None" "reassembly_reachable [small_interface]" "small_interface \<in> set [small_interface]" "ri_free small_interface \<noteq> []"
    using small_packet(1) reassembly_alloc_ok r by (simp_all add: small_entry_def reassembly_alloc_def) (simp add: small_interface_def)
  obtain e1 frames where f: "lowpan_message_fragmentation_init 16 small_entry = Some (0, e1)" "fragment_send (e1\<lparr>t_tag := 7\<rparr>) (replicate 16 0) = Some frames"
      "distinct frames" "frames \<noteq> []" "\<forall>w\<in>set frames. length w \<le> unat (16 :: u16)"
    and rx: "\<forall>bs. set (map buffer_data bs) = set frames \<longrightarrow> buffer_data (last bs) \<notin> set (map buffer_data (butlast bs)) \<longrightarrow>
      (\<forall>b\<in>set bs. frag_buffer b \<and> b_src_sa b = mac_long 2 \<and> b_dst_sa b = mac_long 1 \<and>
        (\<forall>e\<in>set (ri_rx small_interface). reassembly_match e b (unat (7 :: u16)) (length small_datagram + 40 - 3) = Some False)) \<longrightarrow>
      (\<exists>ri' out. frag_run reassembly_alloc small_interface bs = Some (ri', replicate (length bs - 1) None @ [Some out]) \<and> ri_rx ri' = ri_rx small_interface \<and>
         buffer_ok out \<and> buffer_data out = small_datagram \<and> b_src_sa out = mac_long 2 \<and> b_dst_sa out = mac_long 1)"
    using fragmentation_end_to_end [OF small_packet(4,5,2,6) p, of 7 "mac_long 2" "mac_long 1"] by (elim exE conjE) (rule that)
  let ?bs = "map frame_buffer (rev frames)"
  have ok: "frag_buffer (frame_buffer w) \<and> buffer_data (frame_buffer w) = w" if "w \<in> set frames" for w
    using frame_buffer_ok [of w] f(5) that by force
  have "map (buffer_data \<circ> frame_buffer) (rev frames) = rev frames" by (rule map_idI) (use ok in simp)
  then have data: "map buffer_data ?bs = rev frames" by simp
  have 1: "set (map buffer_data ?bs) = set frames" unfolding data by simp
  have "map buffer_data (butlast ?bs) = butlast (rev frames)" unfolding map_butlast data ..
  moreover have "buffer_data (last ?bs) = last (rev frames)" "last (rev frames) \<notin> set (butlast (rev frames))" using f(3,4) ok by (cases frames; auto)+
  ultimately have 2: "buffer_data (last ?bs) \<notin> set (map buffer_data (butlast ?bs))" by (simp only:) blast
  have sa: "b_src_sa (frame_buffer w) = mac_long 2" "b_dst_sa (frame_buffer w) = mac_long 1" "ri_rx small_interface = []" for w
    by (simp_all add: frame_buffer_def small_interface_def)
  then have 3: "\<forall>b\<in>set ?bs. frag_buffer b \<and> b_src_sa b = mac_long 2 \<and> b_dst_sa b = mac_long 1 \<and>
      (\<forall>e\<in>set (ri_rx small_interface). reassembly_match e b (unat (7 :: u16)) (length small_datagram + 40 - 3) = Some False)"
    using ok by simp
  from rx [THEN spec, THEN mp, OF 1, THEN mp, OF 2, THEN mp, OF 3]
  show ?thesis using f(1,2) by (simp only: length_map length_rev) blast
qed

end
