(* ===== verification/Spec2Isabelle.thy ===== *)
theory Spec2Isabelle
  imports Bits Crc SerialNumber Rand Trickle IE Spinel Uart WsWhIe WsWpIe SecKeys Gkh FwhSafety Checksum Fragmenter
begin

text \<open>
  Verification of the Wi-SUN Linux border router (\<open>wsbrd\<close>).

  \<^bold>\<open>The program.\<close> \<open>wsbrd\<close> runs the Wi-SUN stack on a Linux host and drives a radio
  co-processor (RCP) over a serial line. \<open>src/app_wsbrd\<close> is the daemon (configuration, event loop, D-Bus, the tunnel
  interface, the RCP protocol); \<open>src/stack\<close> the network stack (6LoWPAN, the Wi-SUN MAC sublayer, RPL, the security
  protocols); \<open>src/common\<close> the code shared by the daemon and its tools: byte order, buffers, CRC, the
  serial bus, the Spinel encoding, information elements, timers. A command for the RCP is built with
  \<open>spinel_push_*\<close> in a write buffer, framed with HDLC and a CRC and written to the line;
  bytes read from the line are cut into frames, checked, decoded and parsed with \<open>spinel_pop_*\<close>. A Wi-SUN frame
  carries its parameters in IEEE 802.15.4 information elements, which the link layer control builds
  and parses with \<open>ws_ie_lib.c\<close>. The nodes of the network share the group keys of \<open>sec_prot_keys.c\<close>,
  which the authenticator hands out in handshakes protected by the pairwise keys. The messages of a handshake are
  EAPOL key frames: a fixed header, a message integrity code (MIC) and key data elements (KDEs), encrypted with the pairwise key.

  \<^bold>\<open>Theories.\<close> Each models one source file or one half of it, with the function names of the source.

    \<^item> \<open>Prelude\<close>: memory access as partial functions on lists (\<open>load\<close>, \<open>store\<close>, \<open>load_n\<close>,
      \<open>store_n\<close>; \<open>None\<close> for an access outside the object or an abort), number/byte conversions, word facts.
    \<^item> \<open>Endian\<close> (\<open>common/endian.c\<close>): the readers and writers of 16, 24, 32 and 64 bit numbers.
    \<^item> \<open>Iobuf\<close> (\<open>common/iobuf.c\<close>): write buffers that grow, read buffers with a cursor and a sticky error.
    \<^item> \<open>Bits\<close> (\<open>common/bits.c\<close>), \<open>Crc\<close> (\<open>common/crc.c\<close>), \<open>SerialNumber\<close>
      (\<open>common/serial_number_arithmetic.h\<close>), \<open>Rand\<close> (\<open>common/rand.c\<close>), \<open>Trickle\<close> (\<open>common/trickle.c\<close>).
    \<^item> \<open>IE\<close> (\<open>common/ieee802154_ie.c\<close>): building and searching information elements.
    \<^item> \<open>Spinel\<close> (\<open>common/spinel_buffer.c\<close>): the fields of Spinel messages.
    \<^item> \<open>Uart\<close> (\<open>common/bus_uart.c\<close>): HDLC framing, the receive buffer, retransmission.
    \<^item> \<open>Wp\<close>: rules for parsers of element contents, shared by the next two.
    \<^item> \<open>WsWhIe\<close>, \<open>WsWpIe\<close> (\<open>stack/source/6lowpan/ws/ws_ie_lib.c\<close>): the Wi-SUN header
      elements and the nested elements.
    \<^item> \<open>SecKeys\<close> (\<open>stack/source/security/protocols/sec_prot_keys.c\<close>): the key storage.
    \<^item> \<open>Ptr\<close>: an output pointer that moves along a buffer, shared by the writers of the next two.
    \<^item> \<open>Kde\<close> (\<open>stack/source/security/eapol/kde_helper.c\<close>): key data elements.
    \<^item> \<open>Eapol\<close> (\<open>stack/source/security/eapol/eapol_helper.c\<close>, \<open>stack/source/security/PANA/pana_eap_header.c\<close>): EAPOL frames.
    \<^item> \<open>Crypto\<close> (\<open>stack/source/service_libs\<close>): HMAC, the pseudo random function of IEEE 802.11, AES key wrap; the
      record \<open>env\<close> of what the code calls and the tree does not hold.
    \<^item> \<open>SecLib\<close> (\<open>stack/source/security/protocols/sec_prot_lib.c\<close>): the code the handshakes share: states, timers, key
      derivation, building, checking and reading messages.
    \<^item> \<open>Gkh\<close> (\<open>stack/source/security/protocols/gkh_sec_prot\<close>): the group key handshake, authenticator and supplicant.
    \<^item> \<open>Fwh\<close> (\<open>stack/source/security/protocols/fwh_sec_prot\<close>): the four-way handshake, authenticator and supplicant;
      \<open>FwhExchange\<close> follows its four messages from one side to the other, \<open>FwhSafety\<close> says what messages from
      elsewhere can and cannot do.
    \<^item> \<open>Buffer\<close> (\<open>stack/source/core/ns_buffer.c\<close>): the packet buffers of the network stack, and link layer addresses;
      \<open>Checksum\<close> the Internet checksum of the same file.
    \<^item> \<open>Iphc\<close> (\<open>stack/source/6lowpan/iphc_decode/iphc_decompress.c\<close>): the scan over compressed headers.
    \<^item> \<open>Reassembly\<close> (\<open>stack/source/6lowpan/fragmentation/cipv6_fragmenter.c\<close>): reassembly of 6LoWPAN fragments. \<open>Holes\<close> is about the
      list of missing ranges that lies in the buffer itself, \<open>ReassemblySafe\<close> about arbitrary fragments, \<open>ReassemblyRun\<close> about
      the fragments of one datagram.
    \<^item> \<open>Fragmenter\<close> (\<open>stack/source/6lowpan/adaptation_interface.c\<close>): cutting an outgoing packet into fragments.

  \<^bold>\<open>Modelling.\<close> A structure is a record, an array or allocated block a list, a \<open>w\<close>-bit unsigned
  integer a word; signed integers are of type \<open>int\<close>, with the conversion written out where C converts.
  Functions that may access memory return an option: \<open>None\<close> stands for an access
  outside the object, for a failed \<open>BUG_ON\<close> and for reading an indeterminate value, so a theorem that a function
  returns \<open>Some\<close> is a memory safety theorem. A result written through a pointer is returned.
  Loops over a counter are recursive functions or folds over the indexes; loops that skip input end by a
  measure, and the two element searches and the walk along the hole list, which could spin on other data, are partial functions that are then proved total.
  What comes from outside (random numbers, bytes read from the line, the digest function of mbedtls) is an
  argument. Sequences of operations are lists of commands or an inductive step relation.
  The handshakes run with an \<open>env\<close>: \<open>malloc\<close> (a block of indeterminate bytes or nothing), the HMAC and key wrap
  functions of mbedtls, and the indeterminate bytes of local arrays. \<open>env_ok\<close> is what their documentation says (lengths, and that
  unwrapping with the same key undoes wrapping), \<open>memory_left\<close> that no allocation fails; \<open>env_example\<close> satisfies both.
  A call of a handshake into the layer above it (sending a frame, reporting a result, timers) is recorded in
  order in the field \<open>sp_out\<close>. A handshake's state machine and \<open>sec_prot_state_set\<close> call each other; the
  model bounds the nesting by a number, and two levels are proved to be enough for every call.

  \<^bold>\<open>What is shown.\<close>

    \<^item> Buffers: the write buffer refines appending to a byte list, the read buffer a cursor on a byte list with
      a sticky failure; what was pushed is popped. The number codecs they use meet the contract \<open>byte_codec\<close> of \<open>Endian\<close>.
    \<^item> Serial line: framing and decoding are inverse, the receive buffer refines a function on the stream
      of bytes received, and a stream of frames comes out unchanged. The CRC tables equal bitwise division, and
      the CRC detects every change confined to two adjacent bytes.
    \<^item> Elements: the searches of \<open>IE\<close> (locales \<open>ie_format\<close>, \<open>ie_search\<close>, \<open>ie_subsearch\<close>) are total and find what was built; on top of them every reader of
      \<open>WsWhIe\<close> and \<open>WsWpIe\<close> is total and memory safe on every frame, and returns the fields the writers stored. The
      bounds on the number of elements (1000 header elements, 900 nested ones) keep the frame below
      64 KiB, the range of the length argument: the longest element written has 72 bytes.
    \<^item> Timers and numbers: the Trickle timer keeps the invariant of RFC 6206 and ends after the configured
      number of intervals; random numbers stay in range and are uniform; serial numbers compare as in RFC 1982.
    \<^item> Keys: the key table keeps its invariant under every operation (one active key, orders without gap),
      installation, activation, distribution and hash updates do what they promise, replayed messages are refused,
      and an expired master key takes the transient key with it.
    \<^item> Frames and key data: what the writers build the parsers read back; the parser of frames never reads
      outside the frame and only accepts lengths that lie in it; a search for a key data element returns or reports none.
    \<^item> Handshakes: both sides derive the same pairwise key and key identifiers; a message built with a key passes the
      check and is decrypted with that key, and the check accepts exactly the frames whose code is the HMAC of the frame with the
      code cleared; the group key handshake ends with the authenticator's key in the supplicant's table and both sides reporting
      success; a frame that fails the check, or repeats an old counter, leaves the supplicant as it was. The four-way handshake
      ends with the same pairwise key on both sides and the group key at the supplicant; a message that does not
      carry the nonces and the code of this exchange installs nothing on either side, and a repeated
      message 3 is answered without installing the key again. A supplicant without answers gives up after a bounded
      number of ticks: the argument is made once, in the locale \<open>sec_protocol\<close> of \<open>SecLib\<close>, which both handshakes interpret.
    \<^item> Checksums: the sum over a gather vector is that of RFC 1071 over all its bytes, and a receiver accepts exactly the checksum the sender computed.
    \<^item> Reassembly: whatever fragments arrive, the code ends and stays inside its buffers, and entries time out exactly. The linked
      list of hole descriptors refines the intervals of RFC 815. The fragments of a datagram, in any order and with repetitions, come out as
      the datagram. A fragment is taken to have 802.15.4 addresses and at most 2047 bytes, the most a frame of the radio has. The fragments a node cuts
      a packet into fit into its frames, and another node that gets all of them reassembles the packet; the headers are limited to 255
      compressed bytes, because the receiver counts them in 8 bits.
    \<^item> Lemmas named in the findings record where the code differs from its intent.

  \<^bold>\<open>Order of the work.\<close> Shared code first, then the Wi-SUN elements, the key storage, the EAPOL frames and the
  group key handshake, the four-way handshake on the same library, packet buffers, 6LoWPAN fragmentation and reassembly; left are
  header compression, the neighbour metrics (ETX, blacklist), and the RPL data structures.

  \<^bold>\<open>Not modelled.\<close> Input and output (\<open>tun.c\<close>, \<open>dbus.c\<close>, \<open>log.c\<close>, \<open>pcapng.c\<close>, the
  terminal setup of the serial line, command line parsing); the event loop and the state machines built on sockets and
  stack timers (\<open>wsbr.c\<close>, \<open>ws_bootstrap*.c\<close>, \<open>ws_llc_data_service.c\<close>, \<open>ws_pae_*.c\<close>), whose effects are calls into
  those; the TLS, RADIUS and EAP-TLS protocols, which wrap mbedtls; the rest of header compression and of the adaptation layer, which depend on interfaces and
  queues; IPv6, ICMPv6, DHCP and RPL; the copies of the radio firmware's MAC under \<open>tools\<close>.
\<close>

end
